(* ===== verification/Prelude.thy ===== *)
theory Prelude
  imports Main "HOL-Library.Word"
begin

text \<open>
  Shared base of the development: machine-integer abbreviations, the kernel's errno values and
  the two ways the code reports them, the search for a free table slot that every fixed-size
  table of the kernel uses, alignment to a power of two, and the lemma collections the
  component theories fill.
\<close>

unbundle bit_operations_syntax

type_synonym u8 = "8 word"
type_synonym u16 = "16 word"
type_synonym u32 = "32 word"
type_synonym u64 = "64 word"

named_theorems table_simps \<open>reading a table after one of its slots was written\<close>
named_theorems inv_intros \<open>an operation keeps the invariant of its component\<close>
named_theorems frame_simps \<open>fields an operation does not write\<close>

subsection \<open>Error numbers\<close>

text \<open>
  \<open>include/errno.h\<close>. An internal function that returns \<open>-errno\<close> as an \<open>int\<close> is modelled with
  a result of type \<open>'a res\<close> (\<open>Inl\<close> the error); a system call returns the 64-bit value the
  code returns in \<open>x0\<close>, where \<open>sys_err e\<close> is \<open>(uint64_t)(-(int64_t)E)\<close>.
\<close>

datatype errno =
    EPERM | ENOENT | ESRCH | EIO | E2BIG | ENOEXEC | EBADF | ECHILD | EAGAIN | ENOMEM | EFAULT
  | EBUSY | EEXIST | ENODEV | ENOTDIR | EISDIR | EINVAL | EMFILE | ENOTTY | EROFS | EPIPE
  | ERANGE | ENAMETOOLONG | ENOSYS | ENOTEMPTY | EMSGSIZE | EAFNOSUPPORT | EADDRINUSE
  | ENETUNREACH | ENOTCONN | ETIMEDOUT

fun errno_code :: "errno \<Rightarrow> u64" where
  "errno_code EPERM = 1"
| "errno_code ENOENT = 2"
| "errno_code ESRCH = 3"
| "errno_code EIO = 5"
| "errno_code E2BIG = 7"
| "errno_code ENOEXEC = 8"
| "errno_code EBADF = 9"
| "errno_code ECHILD = 10"
| "errno_code EAGAIN = 11"
| "errno_code ENOMEM = 12"
| "errno_code EFAULT = 14"
| "errno_code EBUSY = 16"
| "errno_code EEXIST = 17"
| "errno_code ENODEV = 19"
| "errno_code ENOTDIR = 20"
| "errno_code EISDIR = 21"
| "errno_code EINVAL = 22"
| "errno_code EMFILE = 24"
| "errno_code ENOTTY = 25"
| "errno_code EROFS = 30"
| "errno_code EPIPE = 32"
| "errno_code ERANGE = 34"
| "errno_code ENAMETOOLONG = 36"
| "errno_code ENOSYS = 38"
| "errno_code ENOTEMPTY = 39"
| "errno_code EMSGSIZE = 90"
| "errno_code EAFNOSUPPORT = 97"
| "errno_code EADDRINUSE = 98"
| "errno_code ENETUNREACH = 101"
| "errno_code ENOTCONN = 107"
| "errno_code ETIMEDOUT = 110"

type_synonym 'a res = "errno + 'a"

definition sys_err :: "errno \<Rightarrow> u64" where
  "sys_err e = - errno_code e"

text \<open>The value a system call returns in place of a result when it already switched tasks.\<close>

definition SYSCALL_SWITCHED :: u64 where
  "SYSCALL_SWITCHED = 0xFFFFFFFFFFFFFFFF"

text \<open>A value of \<open>x0\<close> counts as an error to user code when it is one of the last 4095.\<close>

definition is_err :: "u64 \<Rightarrow> bool" where
  "is_err x \<longleftrightarrow> 0xFFFFFFFFFFFFF001 \<le> x"

lemma errno_code_inj: "errno_code e = errno_code f \<longleftrightarrow> e = f"
  by (cases e; cases f; simp)

lemma sys_err_inj [simp]: "sys_err e = sys_err f \<longleftrightarrow> e = f"
  by (simp add: sys_err_def errno_code_inj)

lemma sys_err_is_err [simp]: "is_err (sys_err e)"
  by (cases e; simp add: is_err_def sys_err_def)

lemma sys_err_switched: "sys_err e = SYSCALL_SWITCHED \<longleftrightarrow> e = EPERM"
  by (cases e; simp add: sys_err_def SYSCALL_SWITCHED_def)

lemma sys_err_neq_0 [simp]: "sys_err e \<noteq> 0"
  by (cases e; simp add: sys_err_def)

lemma small_not_err: "unat x < 2 ^ 63 \<Longrightarrow> \<not> is_err x"
  by (simp add: is_err_def word_le_nat_alt)

lemma small_neq_err: "unat x < 2 ^ 63 \<Longrightarrow> x \<noteq> sys_err e"
  using small_not_err sys_err_is_err by blast

subsection \<open>The first free slot of a table\<close>

text \<open>
  The allocation loop of every table of the kernel: the least index whose entry satisfies the
  test, or none.
\<close>

fun find_slot :: "('a \<Rightarrow> bool) \<Rightarrow> 'a list \<Rightarrow> nat option" where
  "find_slot p [] = None"
| "find_slot p (x # xs) = (if p x then Some 0 else map_option Suc (find_slot p xs))"

lemma find_slot_None: "find_slot p xs = None \<longleftrightarrow> (\<forall>x \<in> set xs. \<not> p x)"
  by (induction xs) auto

lemma find_slot_Some:
  "find_slot p xs = Some i \<Longrightarrow> i < length xs \<and> p (xs ! i) \<and> (\<forall>j < i. \<not> p (xs ! j))"
proof (induction xs arbitrary: i)
  case Nil
  then show ?case by simp
next
  case (Cons x xs)
  then show ?case
    by (cases "p x") (auto simp: nth_Cons split: nat.splits)
qed

lemma find_slot_lt [intro]: "find_slot p xs = Some i \<Longrightarrow> i < length xs"
  by (simp add: find_slot_Some)

lemma find_slot_hit: "find_slot p xs = Some i \<Longrightarrow> p (xs ! i)"
  by (simp add: find_slot_Some)

lemma find_slot_exists:
  assumes "i < length xs" and "p (xs ! i)"
  obtains j where "find_slot p xs = Some j" and "j \<le> i" and "p (xs ! j)"
proof (cases "find_slot p xs")
  case None
  with assms show ?thesis by (auto simp: find_slot_None)
next
  case (Some j)
  then have "\<not> i < j"
    using assms(2) find_slot_Some by blast
  with Some show ?thesis
    using that by (simp add: find_slot_Some)
qed

lemma find_slot_cong:
  "length xs = length ys \<Longrightarrow> (\<And>i. i < length xs \<Longrightarrow> p (xs ! i) = q (ys ! i)) \<Longrightarrow>
   find_slot p xs = find_slot q ys"
proof (induction xs arbitrary: ys)
  case Nil
  then show ?case by simp
next
  case (Cons x xs)
  then obtain y ys' where ys: "ys = y # ys'" by (cases ys) auto
  have "find_slot p xs = find_slot q ys'"
    using Cons.IH [of ys'] Cons.prems(1) Cons.prems(2) [of "Suc i" for i] ys by simp
  moreover have "p x = q y"
    using Cons.prems(2) [of 0] ys by simp
  ultimately show ?case using ys by simp
qed

subsection \<open>Updating one entry of a table\<close>

text \<open>\<open>upd_at i f xs\<close> is the code's \<open>t[i] = f(t[i])\<close>; out of range it leaves the table alone.\<close>

definition upd_at :: "nat \<Rightarrow> ('a \<Rightarrow> 'a) \<Rightarrow> 'a list \<Rightarrow> 'a list" where
  "upd_at i f xs = xs[i := f (xs ! i)]"

lemma length_upd_at [simp]: "length (upd_at i f xs) = length xs"
  by (simp add: upd_at_def)

lemma nth_upd_at [table_simps]:
  "j < length xs \<Longrightarrow> upd_at i f xs ! j = (if j = i then f (xs ! i) else xs ! j)"
  by (simp add: upd_at_def nth_list_update)

lemma upd_at_same [simp]: "i < length xs \<Longrightarrow> upd_at i f xs ! i = f (xs ! i)"
  by (simp add: upd_at_def)

lemma upd_at_other [simp]: "i \<noteq> j \<Longrightarrow> upd_at i f xs ! j = xs ! j"
  by (simp add: upd_at_def)

lemma upd_at_out [simp]: "length xs \<le> i \<Longrightarrow> upd_at i f xs = xs"
  by (simp add: upd_at_def list_update_beyond)

lemma upd_at_upd_at [simp]: "upd_at i f (upd_at i g xs) = upd_at i (f \<circ> g) xs"
  by (cases "i < length xs") (simp_all add: upd_at_def list_update_beyond)

lemma map_upd_at: "(\<And>x. h (f x) = h x) \<Longrightarrow> map h (upd_at i f xs) = map h xs"
  by (cases "i < length xs") (auto simp: upd_at_def map_update list_update_same_conv
      intro!: nth_equalityI)

text \<open>Every entry of a table satisfies a condition: kept when the written entry satisfies it.\<close>

lemma all_nth_upd_at:
  "(\<And>j. j < length xs \<Longrightarrow> P (xs ! j)) \<Longrightarrow> (i < length xs \<Longrightarrow> P (f (xs ! i))) \<Longrightarrow>
   j < length xs \<Longrightarrow> P (upd_at i f xs ! j)"
  by (simp add: nth_upd_at)

lemma list_all_upd_at:
  "list_all P xs \<Longrightarrow> (i < length xs \<Longrightarrow> P (xs ! i) \<Longrightarrow> P (f (xs ! i))) \<Longrightarrow>
   list_all P (upd_at i f xs)"
  by (simp add: list_all_length nth_upd_at)

lemma sum_list_upd_at:
  fixes g :: "'a \<Rightarrow> nat"
  assumes "i < length xs"
  shows "sum_list (map g (upd_at i f xs)) + g (xs ! i) = sum_list (map g xs) + g (f (xs ! i))"
  using assms
proof (induction xs arbitrary: i)
  case Nil
  then show ?case by simp
next
  case (Cons x xs)
  then show ?case
    by (cases i) (simp_all add: upd_at_def)
qed

subsection \<open>Alignment\<close>

text \<open>\<open>align_down_u64\<close> and \<open>align_up_u64\<close> of \<open>sys_util.c\<close> (and the same helpers of \<open>pmm.c\<close>
  and \<open>mmu.c\<close>), on wrapping 64-bit values.\<close>

definition align_down_u64 :: "u64 \<Rightarrow> u64 \<Rightarrow> u64" where
  "align_down_u64 x a = x AND NOT (a - 1)"

definition align_up_u64 :: "u64 \<Rightarrow> u64 \<Rightarrow> u64" where
  "align_up_u64 x a = (x + (a - 1)) AND NOT (a - 1)"

lemma and_not_mask_take_bit:
  fixes x :: "'a::len word"
  shows "x AND NOT (mask n) = x - take_bit n x"
proof -
  have "(x AND NOT (mask n)) + take_bit n x = (x AND NOT (mask n)) OR take_bit n x"
    by (rule disjunctive_add_eq_or) (simp add: bit_eq_iff bit_simps)
  also have "\<dots> = x"
    by (auto simp: bit_eq_iff bit_simps)
  finally show ?thesis by (simp add: algebra_simps)
qed

lemma unat_align_down_pow:
  "unat (x AND NOT (2 ^ n - 1 :: u64)) = unat x - unat x mod 2 ^ n"
proof -
  have "x AND NOT (2 ^ n - 1) = x - take_bit n x"
    using and_not_mask_take_bit [of x n] by (simp add: mask_eq_exp_minus_1)
  moreover have t: "unat (take_bit n x) = unat x mod 2 ^ n"
    by (simp add: unsigned_take_bit_eq take_bit_eq_mod flip: take_bit_eq_mod)
  moreover have "take_bit n x \<le> x"
    by (simp add: word_le_nat_alt t)
  ultimately show ?thesis
    by (simp add: unat_sub)
qed

lemma unat_align_down:
  "unat (align_down_u64 x (2 ^ n)) = unat x - unat x mod 2 ^ n"
  by (simp add: align_down_u64_def unat_align_down_pow)

lemma unat_of_nat_u64 [simp]:
  "m < 18446744073709551616 \<Longrightarrow> unat (word_of_nat m :: u64) = m"
  using take_bit_nat_eq_self [of m 64] by (simp add: unsigned_of_nat)

lemma unat_ucast_up [simp]:
  "unat (ucast (x :: u32) :: u64) = unat x" "unat (ucast (y :: u16) :: u64) = unat y"
  "unat (ucast (z :: u8) :: u64) = unat z" "unat (ucast (y :: u16) :: u32) = unat y"
  "unat (ucast (z :: u8) :: u32) = unat z" "unat (ucast (z :: u8) :: u16) = unat z"
proof -
  have "unat x < 2 ^ 32" "unat y < 2 ^ 16" "unat z < 2 ^ 8"
    using unsigned_less [of x] unsigned_less [of y] unsigned_less [of z] by simp_all
  then show "unat (ucast x :: u64) = unat x" "unat (ucast y :: u64) = unat y" "unat (ucast z :: u64) = unat z"
    "unat (ucast y :: u32) = unat y" "unat (ucast z :: u32) = unat z" "unat (ucast z :: u16) = unat z"
    by (simp_all add: unsigned_ucast_eq take_bit_nat_eq_self)
qed

lemma unat_minus_one_pow:
  assumes "n < 64"
  shows "unat (2 ^ n - 1 :: u64) = 2 ^ n - 1"
proof -
  have "(2 :: nat) ^ n < 18446744073709551616"
    using power_strict_increasing [OF assms, of "2 :: nat"] by simp
  then have "unat (word_of_nat (2 ^ n) :: u64) = 2 ^ n"
    by (simp only: unat_of_nat_u64)
  then have "unat (2 ^ n :: u64) = 2 ^ n"
    by simp
  moreover have "(1 :: u64) \<le> 2 ^ n"
    using calculation by (simp add: word_le_nat_alt)
  ultimately show ?thesis
    by (simp add: unat_sub)
qed

lemma unat_align_up:
  assumes "n < 64" and "unat x + (2 ^ n - 1) < 2 ^ 64"
  shows "unat (align_up_u64 x (2 ^ n)) = (unat x + (2 ^ n - 1)) div 2 ^ n * 2 ^ n"
proof -
  have "unat (2 ^ n - 1 :: u64) = 2 ^ n - 1"
    using assms(1) by (simp add: unat_minus_one_pow)
  then have "unat (x + (2 ^ n - 1)) = unat x + (2 ^ n - 1)"
    using assms(2) by (simp add: unat_word_ariths)
  then have "unat (align_up_u64 x (2 ^ n)) =
      (unat x + (2 ^ n - 1)) - (unat x + (2 ^ n - 1)) mod 2 ^ n"
    by (simp add: align_up_u64_def unat_align_down_pow)
  then show ?thesis
    by (simp add: minus_mod_eq_div_mult)
qed

end
