(* ===== verification/Ring.thy ===== *)
theory Ring
  imports Prelude "HOL-Library.Sublist"
begin

text \<open>
  The circular buffers of the kernel. Four components hold one (the pipe buffer, the console
  input ring, the datagram queue of a UDP socket, the receive buffer of a TCP connection); all
  are an array with a head index. \<open>ring_contents\<close> is the queue such a buffer stands for. The
  locale \<open>fifo\<close> is what the clients of a buffer rely on, one element at a time; its lemmas
  lift the laws to the loops that move many elements and to whole runs. (The TCP buffer is filled and
  emptied in blocks only; theory \<open>TcpStream\<close> uses \<open>ring_contents\<close> and its laws directly.)
\<close>

subsection \<open>Arrays read as queues\<close>

definition ring_contents :: "'a list \<Rightarrow> nat \<Rightarrow> nat \<Rightarrow> 'a list" where
  "ring_contents b h n = map (\<lambda>i. b ! ((h + i) mod length b)) [0..<n]"

lemma length_ring_contents [simp]: "length (ring_contents b h n) = n"
  by (simp add: ring_contents_def)

lemma ring_contents_0 [simp]: "ring_contents b h 0 = []"
  by (simp add: ring_contents_def)

lemma ring_contents_Nil_iff [simp]: "ring_contents b h n = [] \<longleftrightarrow> n = 0"
  by (simp add: ring_contents_def)

text \<open>Distinct offsets below the size hit distinct cells.\<close>

lemma ring_offset_neq:
  fixes h i n k :: nat
  assumes "i < n" and "n < k"
  shows "(h + i) mod k \<noteq> (h + n) mod k"
proof
  assume "(h + i) mod k = (h + n) mod k"
  then have "k dvd (h + n) - (h + i)"
    using assms by (intro mod_eq_dvd_iff_nat [THEN iffD1]) auto
  then show False
    using assms by (auto dest: dvd_imp_le)
qed

lemma ring_push:
  assumes "n < length b" and "t = (h + n) mod length b"
  shows "ring_contents (b[t := x]) h (Suc n) = ring_contents b h n @ [x]"
proof -
  have "0 < length b" using assms by auto
  then have "t < length b" using assms by simp
  moreover have "\<And>i. i < n \<Longrightarrow> (h + i) mod length b \<noteq> t"
    using assms ring_offset_neq by blast
  ultimately show ?thesis
    using assms by (fastforce simp: ring_contents_def nth_list_update)
qed

lemma ring_pop:
  assumes "h < length b"
  shows "ring_contents b h (Suc n) = b ! h # ring_contents b ((h + 1) mod length b) n"
proof -
  have "[0..<Suc n] = 0 # map Suc [0..<n]"
    by (simp add: map_Suc_upt upt_conv_Cons del: upt_Suc)
  moreover have "\<And>i. (h + Suc i) mod length b = ((h + 1) mod length b + i) mod length b"
    by (simp add: mod_simps)
  ultimately show ?thesis
    using assms by (simp add: ring_contents_def del: upt_Suc)
qed

subsection \<open>The interface of a bounded queue\<close>

text \<open>
  \<open>drain get n\<close> is the loop \<open>for (n = 0; n < len; n++) if (!pop(&t)) break;\<close>.
\<close>

fun drain :: "('q \<Rightarrow> ('a \<times> 'q) option) \<Rightarrow> nat \<Rightarrow> 'q \<Rightarrow> 'a list \<times> 'q" where
  "drain get 0 q = ([], q)"
| "drain get (Suc n) q =
     (case get q of
        None \<Rightarrow> ([], q)
      | Some (x, q') \<Rightarrow> (case drain get n q' of (xs, q'') \<Rightarrow> (x # xs, q'')))"

datatype 'a queue_op = Put 'a | Get

fun queue_run ::
  "('a \<Rightarrow> 'q \<Rightarrow> 'q) \<Rightarrow> ('q \<Rightarrow> ('a \<times> 'q) option) \<Rightarrow> 'a queue_op list \<Rightarrow> 'q \<Rightarrow> 'a list \<times> 'q"
where
  "queue_run put get [] q = ([], q)"
| "queue_run put get (Put x # ops) q = queue_run put get ops (put x q)"
| "queue_run put get (Get # ops) q =
     (case get q of
        None \<Rightarrow> queue_run put get ops q
      | Some (x, q') \<Rightarrow> (case queue_run put get ops q' of (xs, q'') \<Rightarrow> (x # xs, q'')))"

fun puts_of :: "'a queue_op list \<Rightarrow> 'a list" where
  "puts_of [] = []"
| "puts_of (Put x # ops) = x # puts_of ops"
| "puts_of (Get # ops) = puts_of ops"

locale fifo =
  fixes inv :: "'q \<Rightarrow> bool"
    and contents :: "'q \<Rightarrow> 'a list"
    and cap :: nat
    and put :: "'a \<Rightarrow> 'q \<Rightarrow> 'q"
    and get :: "'q \<Rightarrow> ('a \<times> 'q) option"
  assumes inv_put: "inv q \<Longrightarrow> inv (put x q)"
    and put_room: "inv q \<Longrightarrow> length (contents q) < cap \<Longrightarrow> contents (put x q) = contents q @ [x]"
    and put_full: "inv q \<Longrightarrow> cap \<le> length (contents q) \<Longrightarrow> contents (put x q) = contents q"
    and get_None: "inv q \<Longrightarrow> get q = None \<longleftrightarrow> contents q = []"
    and get_Some: "inv q \<Longrightarrow> get q = Some (x, q') \<Longrightarrow> inv q' \<and> contents q = x # contents q'"
    and within_cap: "inv q \<Longrightarrow> length (contents q) \<le> cap"
begin

lemma get_cases:
  assumes "inv q"
  obtains (empty) "get q = None" and "contents q = []"
    | (some) x q' where "get q = Some (x, q')" and "inv q'" and "contents q = x # contents q'"
  using get_None [OF assms] get_Some [OF assms]
  by (cases "get q") auto

text \<open>Storing a block: what fits is appended in order, the rest is dropped.\<close>

lemma fold_put:
  "inv q \<Longrightarrow> inv (fold put xs q) \<and>
   contents (fold put xs q) = contents q @ take (cap - length (contents q)) xs"
proof (induction xs arbitrary: q)
  case Nil
  then show ?case by simp
next
  case (Cons x xs)
  show ?case
  proof (cases "length (contents q) < cap")
    case True
    then have c: "contents (put x q) = contents q @ [x]"
      using Cons.prems by (simp add: put_room)
    have "cap - length (contents q) = Suc (cap - length (contents (put x q)))"
      using True c by simp
    then show ?thesis
      using Cons.IH [of "put x q"] Cons.prems c by (simp add: inv_put)
  next
    case False
    then show ?thesis
      using Cons.IH [of "put x q"] Cons.prems by (simp add: inv_put put_full)
  qed
qed

text \<open>Draining at most \<open>n\<close> elements takes them from the front, in order.\<close>

lemma drain_spec:
  "inv q \<Longrightarrow> fst (drain get n q) = take n (contents q) \<and>
   inv (snd (drain get n q)) \<and> contents (snd (drain get n q)) = drop n (contents q)"
proof (induction n arbitrary: q)
  case 0
  then show ?case by simp
next
  case (Suc n)
  from Suc.prems show ?case
  proof (cases rule: get_cases)
    case empty
    then show ?thesis using Suc.prems by simp
  next
    case (some x q')
    then show ?thesis using Suc.IH [of q'] by (auto split: prod.splits)
  qed
qed

text \<open>
  First in, first out over any run: what was taken out, followed by what is still inside, is
  what was inside at the start followed by the accepted elements, in the order they were put.
\<close>

lemma run_fifo:
  "inv q \<Longrightarrow> \<exists>acc. subseq acc (puts_of ops) \<and>
     fst (queue_run put get ops q) @ contents (snd (queue_run put get ops q)) =
       contents q @ acc \<and> inv (snd (queue_run put get ops q))"
proof (induction ops arbitrary: q)
  case Nil
  then show ?case by auto
next
  case (Cons op ops)
  show ?case
  proof (cases op)
    case (Put x)
    obtain acc where acc: "subseq acc (puts_of ops)"
      "fst (queue_run put get ops (put x q)) @ contents (snd (queue_run put get ops (put x q))) =
         contents (put x q) @ acc"
      "inv (snd (queue_run put get ops (put x q)))"
      using Cons.IH [of "put x q"] Cons.prems inv_put by blast
    show ?thesis
    proof (cases "length (contents q) < cap")
      case True
      then show ?thesis
        using Put acc Cons.prems by (intro exI [of _ "x # acc"]) (simp add: put_room)
    next
      case False
      then show ?thesis
        using Put acc Cons.prems by (intro exI [of _ acc]) (auto simp: put_full)
    qed
  next
    case Get
    from Cons.prems show ?thesis
    proof (cases rule: get_cases)
      case empty
      then show ?thesis using Get Cons.IH [of q] Cons.prems by auto
    next
      case (some x q')
      then show ?thesis using Get Cons.IH [of q'] by (auto split: prod.splits)
    qed
  qed
qed

end

end
