(* ===== verification/Pipe.thy ===== *)
theory Pipe
  imports Ring
begin

text \<open>
  \<open>kernel-aarch64/pipe.c\<close>: the table of pipes behind \<open>FDESC_PIPE\<close> descriptors. A pipe is a
  circular buffer of \<open>PIPE_BUF\<close> bytes with a count, and the number of references to its two
  ends. The array indices and counters are naturals: \<open>pipe_ok\<close>, which every operation keeps,
  bounds the indices and the count by \<open>PIPE_BUF\<close>, and \<open>Fd\<close> ties the reference counts to the
  descriptor table, so none reaches the range of its \<open>uint32_t\<close>.
\<close>

definition MAX_PIPES :: nat where
  "MAX_PIPES = 16"

definition PIPE_BUF :: nat where
  "PIPE_BUF = 1024"

datatype pipe_end = PIPE_END_READ | PIPE_END_WRITE

record pipe =
  pp_used :: bool
  pp_buf :: "u8 list"
  pp_rpos :: nat
  pp_wpos :: nat
  pp_count :: nat
  pp_read_refs :: nat
  pp_write_refs :: nat

subsection \<open>The operations\<close>

definition pipe_reset :: "bool \<Rightarrow> pipe \<Rightarrow> pipe" where
  "pipe_reset u pp = pp\<lparr>pp_used := u, pp_rpos := 0, pp_wpos := 0, pp_count := 0,
     pp_read_refs := 0, pp_write_refs := 0\<rparr>"

definition pipe_init :: "pipe list \<Rightarrow> pipe list" where
  "pipe_init ps = map (pipe_reset False) ps"

definition pipe_create :: "pipe list \<Rightarrow> nat res \<times> pipe list" where
  "pipe_create ps =
     (case find_slot (\<lambda>pp. \<not> pp_used pp) ps of
        None \<Rightarrow> (Inl ENOMEM, ps)
      | Some pid \<Rightarrow> (Inr pid, upd_at pid (pipe_reset True) ps))"

definition pipe_abort :: "nat \<Rightarrow> pipe list \<Rightarrow> pipe list" where
  "pipe_abort pid ps = (if MAX_PIPES \<le> pid then ps else upd_at pid (pipe_reset False) ps)"

definition pipe_maybe_free :: "pipe \<Rightarrow> pipe" where
  "pipe_maybe_free pp =
     (if \<not> pp_used pp then pp
      else if pp_read_refs pp = 0 \<and> pp_write_refs pp = 0
      then pp\<lparr>pp_used := False, pp_rpos := 0, pp_wpos := 0, pp_count := 0\<rparr>
      else pp)"

definition pipe_incref_end :: "pipe_end \<Rightarrow> pipe \<Rightarrow> pipe" where
  "pipe_incref_end e pp =
     (if \<not> pp_used pp then pp
      else case e of
        PIPE_END_READ \<Rightarrow> pp\<lparr>pp_read_refs := pp_read_refs pp + 1\<rparr>
      | PIPE_END_WRITE \<Rightarrow> pp\<lparr>pp_write_refs := pp_write_refs pp + 1\<rparr>)"

definition pipe_on_desc_incref :: "nat \<Rightarrow> pipe_end \<Rightarrow> pipe list \<Rightarrow> pipe list" where
  "pipe_on_desc_incref pid e ps =
     (if MAX_PIPES \<le> pid then ps else upd_at pid (pipe_incref_end e) ps)"

text \<open>The code guards each decrement by \<open>> 0\<close>, which subtraction on naturals does by itself.\<close>

definition pipe_decref_end :: "pipe_end \<Rightarrow> pipe \<Rightarrow> pipe" where
  "pipe_decref_end e pp =
     (if \<not> pp_used pp then pp
      else pipe_maybe_free
        (case e of
           PIPE_END_READ \<Rightarrow> pp\<lparr>pp_read_refs := pp_read_refs pp - 1\<rparr>
         | PIPE_END_WRITE \<Rightarrow> pp\<lparr>pp_write_refs := pp_write_refs pp - 1\<rparr>))"

definition pipe_on_desc_decref :: "nat \<Rightarrow> pipe_end \<Rightarrow> pipe list \<Rightarrow> pipe list" where
  "pipe_on_desc_decref pid e ps =
     (if MAX_PIPES \<le> pid then ps else upd_at pid (pipe_decref_end e) ps)"

text \<open>The two copy loops, one byte per step, before the count is adjusted.\<close>

fun pipe_pull :: "nat \<Rightarrow> pipe \<Rightarrow> u8 list \<times> pipe" where
  "pipe_pull 0 pp = ([], pp)"
| "pipe_pull (Suc n) pp =
     (case pipe_pull n (pp\<lparr>pp_rpos := (pp_rpos pp + 1) mod PIPE_BUF\<rparr>) of
        (bs, pp') \<Rightarrow> (pp_buf pp ! pp_rpos pp # bs, pp'))"

definition pipe_store :: "u8 \<Rightarrow> pipe \<Rightarrow> pipe" where
  "pipe_store b pp = pp\<lparr>pp_buf := (pp_buf pp)[pp_wpos pp := b],
     pp_wpos := (pp_wpos pp + 1) mod PIPE_BUF\<rparr>"

definition pipe_read :: "nat \<Rightarrow> u64 \<Rightarrow> u64 \<Rightarrow> pipe list \<Rightarrow> u8 list res \<times> pipe list" where
  "pipe_read pid dst len ps =
     (if MAX_PIPES \<le> pid then (Inl EBADF, ps)
      else let pp = ps ! pid in
        if \<not> pp_used pp then (Inl EBADF, ps)
        else if len = 0 then (Inr [], ps)
        else if dst = 0 then (Inl EBADF, ps)
        else if pp_count pp = 0
        then (if pp_write_refs pp = 0 then (Inr [], ps) else (Inl EAGAIN, ps))
        else let n = min (unat len) (pp_count pp) in
          (case pipe_pull n pp of
             (bs, pp') \<Rightarrow> (Inr bs, ps[pid := pp'\<lparr>pp_count := pp_count pp' - n\<rparr>])))"

text \<open>
  \<open>rd i\<close> is the byte the code loads from \<open>src[i]\<close>. The result is the number of bytes stored.
\<close>

definition pipe_write :: "nat \<Rightarrow> u64 \<Rightarrow> (nat \<Rightarrow> u8) \<Rightarrow> u64 \<Rightarrow> pipe list \<Rightarrow> nat res \<times> pipe list" where
  "pipe_write pid src rd len ps =
     (if MAX_PIPES \<le> pid then (Inl EBADF, ps)
      else let pp = ps ! pid in
        if \<not> pp_used pp then (Inl EBADF, ps)
        else if len = 0 then (Inr 0, ps)
        else if src = 0 then (Inl EBADF, ps)
        else if pp_read_refs pp = 0 then (Inl EPIPE, ps)
        else if pp_count pp = PIPE_BUF then (Inl EAGAIN, ps)
        else let n = min (unat len) (PIPE_BUF - pp_count pp);
                 pp' = fold pipe_store (map rd [0..<n]) pp
             in (Inr n, ps[pid := pp'\<lparr>pp_count := pp_count pp' + n\<rparr>]))"

subsection \<open>Well-formed pipes\<close>

definition pipe_ok :: "pipe \<Rightarrow> bool" where
  "pipe_ok pp \<longleftrightarrow> length (pp_buf pp) = PIPE_BUF \<and> pp_rpos pp < PIPE_BUF \<and>
     pp_count pp \<le> PIPE_BUF \<and> pp_wpos pp = (pp_rpos pp + pp_count pp) mod PIPE_BUF"

definition pipe_contents :: "pipe \<Rightarrow> u8 list" where
  "pipe_contents pp = ring_contents (pp_buf pp) (pp_rpos pp) (pp_count pp)"

definition pipes_ok :: "pipe list \<Rightarrow> bool" where
  "pipes_ok ps \<longleftrightarrow> length ps = MAX_PIPES \<and> list_all pipe_ok ps"

text \<open>The state of the static array \<open>g_pipes\<close> before \<open>pipe_init\<close>: zeroed memory.\<close>

definition pipes_zero :: "pipe list" where
  "pipes_zero = replicate MAX_PIPES \<lparr>pp_used = False, pp_buf = replicate PIPE_BUF 0, pp_rpos = 0,
     pp_wpos = 0, pp_count = 0, pp_read_refs = 0, pp_write_refs = 0\<rparr>"

lemma PIPE_BUF_pos [simp]: "0 < PIPE_BUF"
  by (simp add: PIPE_BUF_def)

lemma pipes_zero_ok [simp]: "pipes_ok pipes_zero"
  by (simp add: pipes_ok_def pipes_zero_def pipe_ok_def list_all_length)

lemma pipes_ok_nth: "pipes_ok ps \<Longrightarrow> pid < MAX_PIPES \<Longrightarrow> pipe_ok (ps ! pid)"
  by (simp add: pipes_ok_def list_all_length)

lemma pipe_reset_ok [inv_intros]: "pipe_ok pp \<Longrightarrow> pipe_ok (pipe_reset u pp)"
  by (simp add: pipe_ok_def pipe_reset_def)

lemma pipe_incref_end_ok [inv_intros]: "pipe_ok pp \<Longrightarrow> pipe_ok (pipe_incref_end e pp)"
  by (simp add: pipe_ok_def pipe_incref_end_def split: pipe_end.splits)

lemma pipe_decref_end_ok [inv_intros]: "pipe_ok pp \<Longrightarrow> pipe_ok (pipe_decref_end e pp)"
  by (simp add: pipe_ok_def pipe_decref_end_def pipe_maybe_free_def split: pipe_end.splits)

lemma pipes_ok_upd_at:
  "pipes_ok ps \<Longrightarrow> (\<And>pp. pipe_ok pp \<Longrightarrow> pipe_ok (f pp)) \<Longrightarrow> pipes_ok (upd_at i f ps)"
  by (simp add: pipes_ok_def list_all_upd_at)

lemma pipes_ok_update: "pipes_ok ps \<Longrightarrow> pipe_ok pp \<Longrightarrow> pipes_ok (ps[i := pp])"
  by (cases "i < length ps")
    (auto simp: pipes_ok_def list_all_length nth_list_update list_update_beyond)

lemma pipe_init_ok [inv_intros]: "pipes_ok ps \<Longrightarrow> pipes_ok (pipe_init ps)"
  by (simp add: pipes_ok_def pipe_init_def list_all_length pipe_reset_ok)

lemma pipe_create_ok [inv_intros]: "pipes_ok ps \<Longrightarrow> pipes_ok (snd (pipe_create ps))"
  by (simp add: pipe_create_def pipes_ok_upd_at pipe_reset_ok split: option.splits)

lemma pipe_abort_ok [inv_intros]: "pipes_ok ps \<Longrightarrow> pipes_ok (pipe_abort pid ps)"
  by (simp add: pipe_abort_def pipes_ok_upd_at pipe_reset_ok)

lemma pipe_incref_ok [inv_intros]: "pipes_ok ps \<Longrightarrow> pipes_ok (pipe_on_desc_incref pid e ps)"
  by (simp add: pipe_on_desc_incref_def pipes_ok_upd_at pipe_incref_end_ok)

lemma pipe_decref_ok [inv_intros]: "pipes_ok ps \<Longrightarrow> pipes_ok (pipe_on_desc_decref pid e ps)"
  by (simp add: pipe_on_desc_decref_def pipes_ok_upd_at pipe_decref_end_ok)

subsection \<open>A pipe is a bounded queue\<close>

text \<open>One byte in and one byte out, as the interface \<open>fifo\<close> wants them.\<close>

definition pipe_put :: "u8 \<Rightarrow> pipe \<Rightarrow> pipe" where
  "pipe_put b pp =
     (if pp_count pp = PIPE_BUF then pp
      else (pipe_store b pp)\<lparr>pp_count := pp_count pp + 1\<rparr>)"

definition pipe_get :: "pipe \<Rightarrow> (u8 \<times> pipe) option" where
  "pipe_get pp =
     (if pp_count pp = 0 then None
      else Some (pp_buf pp ! pp_rpos pp,
                 pp\<lparr>pp_rpos := (pp_rpos pp + 1) mod PIPE_BUF, pp_count := pp_count pp - 1\<rparr>))"

lemma pipe_put_ok: "pipe_ok pp \<Longrightarrow> pipe_ok (pipe_put b pp)"
  by (auto simp: pipe_ok_def pipe_put_def pipe_store_def mod_simps)

lemma pipe_put_contents:
  assumes "pipe_ok pp" and "pp_count pp < PIPE_BUF"
  shows "pipe_contents (pipe_put b pp) = pipe_contents pp @ [b]"
  using assms ring_push [of "pp_count pp" "pp_buf pp" "pp_wpos pp" "pp_rpos pp" b]
  by (simp add: pipe_put_def pipe_store_def pipe_contents_def pipe_ok_def)

lemma pipe_get_contents:
  assumes "pipe_ok pp" and "pipe_get pp = Some (b, pp')"
  shows "pipe_ok pp' \<and> pipe_contents pp = b # pipe_contents pp'"
proof -
  obtain n where n: "pp_count pp = Suc n"
    using assms(2) by (cases "pp_count pp") (auto simp: pipe_get_def)
  then have pp': "pp' = pp\<lparr>pp_rpos := (pp_rpos pp + 1) mod PIPE_BUF, pp_count := n\<rparr>"
    and b: "b = pp_buf pp ! pp_rpos pp"
    using assms(2) by (auto simp: pipe_get_def)
  have "pipe_ok pp'"
    using assms(1) n pp' by (auto simp: pipe_ok_def mod_simps)
  moreover have "pipe_contents pp = b # pipe_contents pp'"
    using assms(1) n ring_pop [of "pp_rpos pp" "pp_buf pp" n]
    by (simp add: pp' b pipe_contents_def pipe_ok_def)
  ultimately show ?thesis ..
qed

lemma length_pipe_contents [simp]: "length (pipe_contents pp) = pp_count pp"
  by (simp add: pipe_contents_def)

lemma pipe_contents_Nil_iff: "pipe_contents pp = [] \<longleftrightarrow> pp_count pp = 0"
  by (simp add: pipe_contents_def)

lemma pipe_get_None_iff: "pipe_get pp = None \<longleftrightarrow> pp_count pp = 0"
  by (simp add: pipe_get_def)

lemma pipe_put_full: "PIPE_BUF \<le> pp_count pp \<Longrightarrow> pipe_ok pp \<Longrightarrow> pipe_put b pp = pp"
  by (simp add: pipe_put_def pipe_ok_def)

lemma pipe_ok_count: "pipe_ok pp \<Longrightarrow> pp_count pp \<le> PIPE_BUF"
  by (simp add: pipe_ok_def)

interpretation pipe_q: fifo pipe_ok pipe_contents PIPE_BUF pipe_put pipe_get
  by unfold_locales
    (simp_all add: pipe_put_ok pipe_put_contents pipe_get_contents pipe_get_None_iff
      pipe_contents_Nil_iff pipe_put_full pipe_ok_count)

text \<open>The copy loops are the interface's loops, with the count adjusted once at the end.\<close>

lemma pipe_pull_count:
  "pipe_pull n (pp\<lparr>pp_count := c\<rparr>) =
     (fst (pipe_pull n pp), (snd (pipe_pull n pp))\<lparr>pp_count := c\<rparr>)"
proof (induction n arbitrary: pp)
  case 0
  then show ?case by simp
next
  case (Suc n)
  from Suc.IH [of "pp\<lparr>pp_rpos := (pp_rpos pp + 1) mod PIPE_BUF\<rparr>"] show ?case
    by (cases pp) (simp add: split_beta)
qed

lemma pipe_pull_drain:
  "n \<le> pp_count pp \<Longrightarrow> drain pipe_get n pp =
     (fst (pipe_pull n pp), (snd (pipe_pull n pp))\<lparr>pp_count := pp_count pp - n\<rparr>)"
proof (induction n arbitrary: pp)
  case 0
  then show ?case by simp
next
  case (Suc n)
  then obtain c where c: "pp_count pp = Suc c" and "n \<le> c"
    by (cases "pp_count pp") auto
  let ?pp = "pp\<lparr>pp_rpos := (pp_rpos pp + 1) mod PIPE_BUF\<rparr>"
  have "drain pipe_get n (?pp\<lparr>pp_count := c\<rparr>) =
      (fst (pipe_pull n ?pp), (snd (pipe_pull n ?pp))\<lparr>pp_count := c - n\<rparr>)"
    using Suc.IH [of "?pp\<lparr>pp_count := c\<rparr>"] \<open>n \<le> c\<close> pipe_pull_count [of n c ?pp] by simp
  moreover have "pipe_get pp = Some (pp_buf pp ! pp_rpos pp, ?pp\<lparr>pp_count := c\<rparr>)"
    using c by (simp add: pipe_get_def)
  ultimately show ?case
    using c by (simp add: split_beta)
qed

lemma pipe_pull_keeps [frame_simps]:
  "pp_count (snd (pipe_pull n pp)) = pp_count pp"
  by (induction n arbitrary: pp) (auto simp: split_beta)

lemma pipe_store_fold_put:
  "length bs \<le> PIPE_BUF - pp_count pp \<Longrightarrow>
   (fold pipe_store bs pp)\<lparr>pp_count := pp_count pp + length bs\<rparr> = fold pipe_put bs pp"
proof (induction bs arbitrary: pp)
  case Nil
  then show ?case by simp
next
  case (Cons b bs)
  have count: "\<And>xs (q :: pipe) c. (fold pipe_store xs q)\<lparr>pp_count := c\<rparr> =
      (fold pipe_store xs (q\<lparr>pp_count := pp_count q + 1\<rparr>))\<lparr>pp_count := c\<rparr>"
  proof -
    fix xs and q :: pipe and c
    show "(fold pipe_store xs q)\<lparr>pp_count := c\<rparr> =
      (fold pipe_store xs (q\<lparr>pp_count := pp_count q + 1\<rparr>))\<lparr>pp_count := c\<rparr>"
    proof (induction xs arbitrary: q)
      case Nil
      then show ?case by simp
    next
      case (Cons x xs)
      have "pp_count (pipe_store x q) = pp_count q"
        by (simp add: pipe_store_def)
      moreover have "pipe_store x (q\<lparr>pp_count := pp_count q + 1\<rparr>) =
          (pipe_store x q)\<lparr>pp_count := pp_count q + 1\<rparr>"
        by (simp add: pipe_store_def)
      ultimately show ?case
        using Cons.IH [of "pipe_store x q"] by simp
    qed
  qed
  have "pipe_put b pp = (pipe_store b pp)\<lparr>pp_count := pp_count pp + 1\<rparr>"
    using Cons.prems by (simp add: pipe_put_def)
  moreover have "pp_count (pipe_store b pp) = pp_count pp"
    by (simp add: pipe_store_def)
  ultimately show ?case
    using Cons.IH [of "pipe_put b pp"] Cons.prems count [of "pp_count pp + Suc (length bs)" bs "pipe_store b pp"] by simp
qed

lemma pipe_store_count [frame_simps]: "pp_count (fold pipe_store bs pp) = pp_count pp"
  by (induction bs arbitrary: pp) (simp_all add: pipe_store_def)

subsection \<open>Reads and writes on the table\<close>

lemma pipe_store_loop:
  assumes "pipe_ok pp" and "n \<le> PIPE_BUF - pp_count pp" and "length bs = n"
  shows "pipe_ok ((fold pipe_store bs pp)\<lparr>pp_count := pp_count pp + n\<rparr>) \<and>
    pipe_contents ((fold pipe_store bs pp)\<lparr>pp_count := pp_count pp + n\<rparr>) = pipe_contents pp @ bs"
  using pipe_store_fold_put [of bs pp] pipe_q.fold_put [OF assms(1), of bs] assms by simp

lemma pipe_pull_loop:
  assumes "pipe_ok pp" and "n \<le> pp_count pp"
  shows "fst (pipe_pull n pp) = take n (pipe_contents pp) \<and>
    pipe_ok ((snd (pipe_pull n pp))\<lparr>pp_count := pp_count pp - n\<rparr>) \<and>
    pipe_contents ((snd (pipe_pull n pp))\<lparr>pp_count := pp_count pp - n\<rparr>) =
      drop n (pipe_contents pp)"
  using pipe_pull_drain [OF assms(2)] pipe_q.drain_spec [OF assms(1), of n] by simp

lemma pipe_store_frame [frame_simps]:
  "pp_used (fold pipe_store bs pp) = pp_used pp"
  "pp_read_refs (fold pipe_store bs pp) = pp_read_refs pp"
  "pp_write_refs (fold pipe_store bs pp) = pp_write_refs pp"
  by (induction bs arbitrary: pp) (simp_all add: pipe_store_def)

lemma pipe_pull_frame [frame_simps]:
  "pp_used (snd (pipe_pull n pp)) = pp_used pp"
  "pp_read_refs (snd (pipe_pull n pp)) = pp_read_refs pp"
  "pp_write_refs (snd (pipe_pull n pp)) = pp_write_refs pp"
  by (induction n arbitrary: pp) (auto simp: split_beta)

text \<open>What a write does, on every branch.\<close>

lemma pipe_write_result:
  assumes "pipes_ok ps" and "pid < MAX_PIPES"
  shows "fst (pipe_write pid src rd len ps) =
     (if \<not> pp_used (ps ! pid) then Inl EBADF else if len = 0 then Inr 0
      else if src = 0 then Inl EBADF else if pp_read_refs (ps ! pid) = 0 then Inl EPIPE
      else if length (pipe_contents (ps ! pid)) = PIPE_BUF then Inl EAGAIN
      else Inr (min (unat len) (PIPE_BUF - length (pipe_contents (ps ! pid)))))"
  using assms by (simp add: pipe_write_def Let_def)

lemma pipe_write_error: "fst (pipe_write pid src rd len ps) = Inl e \<Longrightarrow>
    snd (pipe_write pid src rd len ps) = ps"
  by (auto simp: pipe_write_def Let_def split: if_splits)

lemma pipe_write_effect:
  assumes "pipes_ok ps" and "pid < MAX_PIPES" and "pipe_write pid src rd len ps = (Inr n, ps')"
  shows "pipes_ok ps' \<and> n \<le> unat len \<and>
    pipe_contents (ps' ! pid) = pipe_contents (ps ! pid) @ map rd [0..<n] \<and>
    (\<forall>i. i \<noteq> pid \<longrightarrow> ps' ! i = ps ! i)"
proof (cases "len = 0")
  case True
  then show ?thesis
    using assms by (auto simp: pipe_write_def Let_def split: if_splits)
next
  case False
  let ?pp = "ps ! pid" and ?n = "min (unat len) (PIPE_BUF - pp_count (ps ! pid))"
  let ?pp' = "(fold pipe_store (map rd [0..<?n]) ?pp)\<lparr>pp_count := pp_count ?pp + ?n\<rparr>"
  from assms False have n: "n = ?n" and ps': "ps' = ps[pid := ?pp']"
    by (auto simp: pipe_write_def Let_def pipe_store_count split: if_splits)
  have ok: "pipe_ok ?pp'" and cont: "pipe_contents ?pp' = pipe_contents ?pp @ map rd [0..<?n]"
    using pipe_store_loop [OF pipes_ok_nth [OF assms(1,2)], of ?n "map rd [0..<?n]"] by simp_all
  have "pid < length ps"
    using assms(1,2) by (simp add: pipes_ok_def)
  moreover have "pipes_ok ps'"
    unfolding ps' by (rule pipes_ok_update [OF assms(1) ok])
  ultimately show ?thesis
    using n ps' cont by simp
qed

lemma pipe_read_error: "fst (pipe_read pid dst len ps) = Inl e \<Longrightarrow>
    snd (pipe_read pid dst len ps) = ps"
  by (auto simp: pipe_read_def Let_def split: if_splits prod.splits)

lemma pipe_read_effect:
  assumes "pipes_ok ps" and "pid < MAX_PIPES" and "pipe_read pid dst len ps = (Inr bs, ps')"
  shows "pipes_ok ps' \<and> bs = take (unat len) (pipe_contents (ps ! pid)) \<and>
    pipe_contents (ps' ! pid) = drop (unat len) (pipe_contents (ps ! pid)) \<and>
    (\<forall>i. i \<noteq> pid \<longrightarrow> ps' ! i = ps ! i)"
proof (cases "len = 0 \<or> pp_count (ps ! pid) = 0")
  case True
  then have "pipe_contents (ps ! pid) = [] \<or> len = 0"
    using pipe_contents_Nil_iff [of "ps ! pid"] by blast
  then show ?thesis
    using True assms by (auto simp: pipe_read_def Let_def split: if_splits)
next
  case False
  let ?pp = "ps ! pid" and ?n = "min (unat len) (pp_count (ps ! pid))"
  let ?pp' = "(snd (pipe_pull ?n ?pp))\<lparr>pp_count := pp_count ?pp - ?n\<rparr>"
  from assms False have bs: "bs = fst (pipe_pull ?n ?pp)" and ps': "ps' = ps[pid := ?pp']"
    by (auto simp: pipe_read_def Let_def split_beta pipe_pull_keeps split: if_splits)
  have ok: "pipe_ok ?pp'"
    and take: "fst (pipe_pull ?n ?pp) = take (unat len) (pipe_contents ?pp)"
    and drop: "pipe_contents ?pp' = drop (unat len) (pipe_contents ?pp)"
    using pipe_pull_loop [OF pipes_ok_nth [OF assms(1,2)], of ?n]
    by (simp_all add: min_def split: if_splits)
  have "pid < length ps"
    using assms(1,2) by (simp add: pipes_ok_def)
  moreover have "pipes_ok ps'"
    unfolding ps' by (rule pipes_ok_update [OF assms(1) ok])
  ultimately show ?thesis
    using bs take ps' drop by simp
qed

subsection \<open>A pipe as a byte stream\<close>

text \<open>
  A run of system calls on the two ends: writers offer blocks, readers ask for up to a number
  of bytes. \<open>pipe_io\<close> collects the bytes handed to readers and the bytes the writers were told
  were accepted.
\<close>

datatype pipe_call = PWrite "u8 list" | PRead nat

fun pipe_io :: "nat \<Rightarrow> pipe_call list \<Rightarrow> pipe list \<Rightarrow> u8 list \<times> u8 list \<times> pipe list" where
  "pipe_io pid [] ps = ([], [], ps)"
| "pipe_io pid (PWrite bs # cs) ps =
     (case pipe_write pid 1 (\<lambda>i. bs ! i) (word_of_nat (length bs)) ps of
        (Inl e, ps') \<Rightarrow> pipe_io pid cs ps'
      | (Inr n, ps') \<Rightarrow> (case pipe_io pid cs ps' of (out, acc, ps'') \<Rightarrow> (out, take n bs @ acc, ps'')))"
| "pipe_io pid (PRead len # cs) ps =
     (case pipe_read pid 1 (word_of_nat len) ps of
        (Inl e, ps') \<Rightarrow> pipe_io pid cs ps'
      | (Inr bs, ps') \<Rightarrow> (case pipe_io pid cs ps' of (out, acc, ps'') \<Rightarrow> (bs @ out, acc, ps'')))"

lemma pipe_write_map_take:
  "n \<le> unat (word_of_nat (length bs) :: u64) \<Longrightarrow> map ((!) bs) [0..<n] = take n bs"
proof -
  assume "n \<le> unat (word_of_nat (length bs) :: u64)"
  moreover have "unat (word_of_nat (length bs) :: u64) \<le> length bs"
    by (simp add: unsigned_of_nat take_bit_nat_less_eq_self)
  ultimately show ?thesis
    by (intro nth_equalityI) auto
qed

text \<open>C5: no byte is lost, repeated or reordered by a pipe: over any run of reads and writes
  the bytes delivered, followed by those still buffered, are the bytes buffered at the start
  followed by the bytes accepted, in order.\<close>

theorem pipe_stream:
  assumes "pipes_ok ps" and "pid < MAX_PIPES" and "pipe_io pid cs ps = (out, acc, ps')"
  shows "out @ pipe_contents (ps' ! pid) = pipe_contents (ps ! pid) @ acc \<and> pipes_ok ps'"
  using assms
proof (induction pid cs ps arbitrary: out acc rule: pipe_io.induct)
  case (1 pid ps)
  then show ?case by simp
next
  case (2 pid bs cs ps)
  obtain r ps1 where w: "pipe_write pid 1 ((!) bs) (word_of_nat (length bs)) ps = (r, ps1)"
    by fastforce
  show ?case
  proof (cases r)
    case (Inl e)
    then show ?thesis
      using 2 w pipe_write_error [of pid 1 "(!) bs" "word_of_nat (length bs)" ps e] by simp
  next
    case (Inr n)
    then have eff: "pipes_ok ps1" "n \<le> unat (word_of_nat (length bs) :: u64)"
      "pipe_contents (ps1 ! pid) = pipe_contents (ps ! pid) @ map ((!) bs) [0..<n]"
      using pipe_write_effect [OF "2.prems"(1,2)] w by blast+
    obtain out1 acc1 where rest: "pipe_io pid cs ps1 = (out1, acc1, ps')"
      and "out = out1" and "acc = take n bs @ acc1"
      using "2.prems"(3) w Inr by (auto split: prod.splits)
    then show ?thesis
      using "2.IH"(2) [OF w [symmetric] Inr eff(1) "2.prems"(2) rest] eff
      by (simp add: pipe_write_map_take)
  qed
next
  case (3 pid len cs ps)
  obtain r ps1 where rd: "pipe_read pid 1 (word_of_nat len) ps = (r, ps1)"
    by fastforce
  show ?case
  proof (cases r)
    case (Inl e)
    then show ?thesis
      using 3 rd pipe_read_error [of pid 1 "word_of_nat len" ps e] by simp
  next
    case (Inr bs)
    then have eff: "pipes_ok ps1" "bs @ pipe_contents (ps1 ! pid) = pipe_contents (ps ! pid)"
      using pipe_read_effect [OF "3.prems"(1,2)] rd by (metis append_take_drop_id)+
    obtain out1 where rest: "pipe_io pid cs ps1 = (out1, acc, ps')" and "out = bs @ out1"
      using "3.prems"(3) rd Inr by (auto split: prod.splits)
    then show ?thesis
      using "3.IH"(2) [OF rd [symmetric] Inr eff(1) "3.prems"(2) rest] eff(2)
      by (metis append_assoc)
  qed
qed

definition pipe_demo :: "pipe list" where
  "pipe_demo = pipe_on_desc_incref 0 PIPE_END_WRITE
     (pipe_on_desc_incref 0 PIPE_END_READ (snd (pipe_create pipes_zero)))"

theorem pipe_stream_witness:
  "\<exists>ps'. pipe_io 0 [PWrite [7, 8, 9], PRead 2] pipe_demo = ([7, 8], [7, 8, 9], ps') \<and>
     pipe_contents (ps' ! 0) = [9]"
proof -
  obtain out acc ps' where io: "pipe_io 0 [PWrite [7, 8, 9], PRead 2] pipe_demo = (out, acc, ps')"
    by (cases "pipe_io 0 [PWrite [7, 8, 9], PRead 2] pipe_demo") auto
  have "fst (pipe_io 0 [PWrite [7, 8, 9], PRead 2] pipe_demo) = [7, 8]"
    and "fst (snd (pipe_io 0 [PWrite [7, 8, 9], PRead 2] pipe_demo)) = [7, 8, 9]"
    by code_simp+
  then have out: "out = [7, 8]" and acc: "acc = [7, 8, 9]"
    by (simp_all only: io fst_conv snd_conv)
  have "pipes_ok pipe_demo"
    by (simp add: pipe_demo_def pipe_incref_ok pipe_create_ok)
  moreover have "pipe_contents (pipe_demo ! 0) = []"
    by (simp add: pipe_contents_Nil_iff) code_simp
  ultimately have "out @ pipe_contents (ps' ! 0) = [] @ acc"
    using pipe_stream [OF _ _ io] by (simp add: MAX_PIPES_def)
  then show ?thesis
    using io out acc by simp
qed

end
