(* ===== verification/Udp6.thy ===== *)
theory Udp6
  imports Ring
begin

text \<open>
  The UDP socket table of \<open>kernel-aarch64/net_ipv6.c\<close> (lines 345-500 and 626-683): sockets with
  a reference count kept by the descriptor layer, a local port and a queue of eight datagrams.
  A datagram keeps its payload as the list of its bytes, whose length is the code's \<open>len\<close>.
  Building and parsing packets is not part of this theory.
\<close>

definition UDP6_SOCKS :: nat where
  "UDP6_SOCKS = 8"

definition UDP6_QLEN :: nat where
  "UDP6_QLEN = 8"

definition UDP6_MAX_PAYLOAD :: nat where
  "UDP6_MAX_PAYLOAD = 1500"

record udp6_dgram =
  dg_src_ip :: "u8 list"
  dg_src_port :: u16
  dg_dst_port :: u16
  dg_data :: "u8 list"

record udp6_sock =
  us_used :: bool
  us_refs :: nat
  us_bound :: bool
  us_bound_port :: u16
  us_q_head :: nat
  us_q_tail :: nat
  us_q_count :: nat
  us_q :: "udp6_dgram list"

record udp6_state =
  ud_socks :: "udp6_sock list"
  ud_next :: u16

subsection \<open>The operations\<close>

definition udp6_sock_reset :: "bool \<Rightarrow> nat \<Rightarrow> udp6_sock \<Rightarrow> udp6_sock" where
  "udp6_sock_reset u r s = s\<lparr>us_used := u, us_refs := r, us_bound := False, us_bound_port := 0,
     us_q_head := 0, us_q_tail := 0, us_q_count := 0\<rparr>"

definition net_udp6_init :: "udp6_state \<Rightarrow> udp6_state" where
  "net_udp6_init st = st\<lparr>ud_socks := map (udp6_sock_reset False 0) (ud_socks st), ud_next := 49152\<rparr>"

definition udp6_port_in_use :: "u16 \<Rightarrow> nat \<Rightarrow> udp6_sock list \<Rightarrow> bool" where
  "udp6_port_in_use port skip socks \<longleftrightarrow> port = 0 \<or>
     list_ex (\<lambda>i. i \<noteq> skip \<and> us_used (socks ! i) \<and> us_bound (socks ! i) \<and>
       us_bound_port (socks ! i) = port) [0..<length socks]"

definition udp6_set_port :: "u16 \<Rightarrow> udp6_sock \<Rightarrow> udp6_sock" where
  "udp6_set_port p s = s\<lparr>us_bound := True, us_bound_port := p\<rparr>"

definition udp6_next_port :: "u16 \<Rightarrow> u16" where
  "udp6_next_port p = (if p + 1 < 49152 then 49152 else p + 1)"

text \<open>The loop over at most 1024 candidate ports.\<close>

fun udp6_ephemeral_loop :: "nat \<Rightarrow> nat \<Rightarrow> udp6_state \<Rightarrow> u16 res \<times> udp6_state" where
  "udp6_ephemeral_loop 0 sid st = (Inl EADDRINUSE, st)"
| "udp6_ephemeral_loop (Suc tries) sid st =
     (let p = ud_next st; st' = st\<lparr>ud_next := udp6_next_port p\<rparr> in
      if \<not> udp6_port_in_use p sid (ud_socks st')
      then (Inr p, st'\<lparr>ud_socks := upd_at sid (udp6_set_port p) (ud_socks st')\<rparr>)
      else udp6_ephemeral_loop tries sid st')"

definition udp6_bind_ephemeral :: "nat \<Rightarrow> udp6_state \<Rightarrow> u16 res \<times> udp6_state" where
  "udp6_bind_ephemeral sid st =
     (if UDP6_SOCKS \<le> sid then (Inl EINVAL, st)
      else if \<not> us_used (ud_socks st ! sid) then (Inl EBADF, st)
      else udp6_ephemeral_loop 1024 sid st)"

definition net_udp6_bind :: "nat \<Rightarrow> u16 \<Rightarrow> udp6_state \<Rightarrow> unit res \<times> udp6_state" where
  "net_udp6_bind sid port st =
     (if UDP6_SOCKS \<le> sid then (Inl EBADF, st)
      else if \<not> us_used (ud_socks st ! sid) then (Inl EBADF, st)
      else if port = 0 then
        (case udp6_bind_ephemeral sid st of
           (Inl e, st') \<Rightarrow> (Inl e, st')
         | (Inr _, st') \<Rightarrow> (Inr (), st'))
      else if udp6_port_in_use port sid (ud_socks st) then (Inl EADDRINUSE, st)
      else (Inr (), st\<lparr>ud_socks := upd_at sid (udp6_set_port port) (ud_socks st)\<rparr>))"

definition udp6_sock_incref :: "udp6_sock \<Rightarrow> udp6_sock" where
  "udp6_sock_incref s = (if us_used s then s\<lparr>us_refs := us_refs s + 1\<rparr> else s)"

definition udp6_sock_decref :: "udp6_sock \<Rightarrow> udp6_sock" where
  "udp6_sock_decref s =
     (if \<not> us_used s then s
      else if us_refs s - 1 = 0 then udp6_sock_reset False 0 s
      else s\<lparr>us_refs := us_refs s - 1\<rparr>)"

definition net_udp6_on_desc_incref :: "nat \<Rightarrow> udp6_state \<Rightarrow> udp6_state" where
  "net_udp6_on_desc_incref sid st =
     (if UDP6_SOCKS \<le> sid then st
      else st\<lparr>ud_socks := upd_at sid udp6_sock_incref (ud_socks st)\<rparr>)"

definition net_udp6_on_desc_decref :: "nat \<Rightarrow> udp6_state \<Rightarrow> udp6_state" where
  "net_udp6_on_desc_decref sid st =
     (if UDP6_SOCKS \<le> sid then st
      else st\<lparr>ud_socks := upd_at sid udp6_sock_decref (ud_socks st)\<rparr>)"

definition net_udp6_socket_alloc :: "udp6_state \<Rightarrow> nat res \<times> udp6_state" where
  "net_udp6_socket_alloc st =
     (case find_slot (\<lambda>s. \<not> us_used s) (ud_socks st) of
        None \<Rightarrow> (Inl ENOMEM, st)
      | Some i \<Rightarrow> (Inr i, st\<lparr>ud_socks := upd_at i (udp6_sock_reset True 1) (ud_socks st)\<rparr>))"

definition udp6_dequeue :: "udp6_sock \<Rightarrow> udp6_sock" where
  "udp6_dequeue s = s\<lparr>us_q_head := (us_q_head s + 1) mod UDP6_QLEN, us_q_count := us_q_count s - 1\<rparr>"

definition net_udp6_try_recv :: "nat \<Rightarrow> udp6_state \<Rightarrow> udp6_dgram res \<times> udp6_state" where
  "net_udp6_try_recv sid st =
     (if UDP6_SOCKS \<le> sid then (Inl EBADF, st)
      else let s = ud_socks st ! sid in
        if \<not> us_used s then (Inl EBADF, st)
        else if us_q_count s = 0 then (Inl EAGAIN, st)
        else (Inr (us_q s ! us_q_head s), st\<lparr>ud_socks := upd_at sid udp6_dequeue (ud_socks st)\<rparr>))"

definition udp6_enqueue :: "udp6_dgram \<Rightarrow> udp6_sock \<Rightarrow> udp6_sock" where
  "udp6_enqueue dg s =
     (if UDP6_QLEN \<le> us_q_count s then s
      else s\<lparr>us_q := (us_q s)[us_q_tail s := dg], us_q_tail := (us_q_tail s + 1) mod UDP6_QLEN,
             us_q_count := us_q_count s + 1\<rparr>)"

text \<open>
  Delivery: every bound socket on the destination port gets a copy if its queue has room. The
  second component lists the sockets whose waiting tasks the code then wakes.
\<close>

definition udp6_accepts :: "u16 \<Rightarrow> udp6_sock \<Rightarrow> bool" where
  "udp6_accepts port s \<longleftrightarrow> us_used s \<and> us_bound s \<and> us_bound_port s = port \<and> us_q_count s < UDP6_QLEN"

definition udp6_deliver ::
  "u8 list \<Rightarrow> u16 \<Rightarrow> u16 \<Rightarrow> u8 list \<Rightarrow> udp6_state \<Rightarrow> nat list \<times> udp6_state"
where
  "udp6_deliver src_ip src_port dst_port payload st =
     (if UDP6_MAX_PAYLOAD < length payload then ([], st)
      else let dg = \<lparr>dg_src_ip = src_ip, dg_src_port = src_port, dg_dst_port = dst_port,
                     dg_data = payload\<rparr>
        in (filter (\<lambda>i. udp6_accepts dst_port (ud_socks st ! i)) [0..<length (ud_socks st)],
            st\<lparr>ud_socks := map (\<lambda>s. if udp6_accepts dst_port s then udp6_enqueue dg s else s)
                 (ud_socks st)\<rparr>))"

subsection \<open>Invariant\<close>

definition udp6_sock_ok :: "udp6_sock \<Rightarrow> bool" where
  "udp6_sock_ok s \<longleftrightarrow> length (us_q s) = UDP6_QLEN \<and> us_q_head s < UDP6_QLEN \<and>
     us_q_count s \<le> UDP6_QLEN \<and> us_q_tail s = (us_q_head s + us_q_count s) mod UDP6_QLEN \<and>
     (us_bound s \<longrightarrow> us_bound_port s \<noteq> 0)"

text \<open>No two open sockets are bound to the same port.\<close>

definition udp6_ports_distinct :: "udp6_sock list \<Rightarrow> bool" where
  "udp6_ports_distinct socks \<longleftrightarrow>
     (\<forall>i < length socks. \<forall>j < length socks. i \<noteq> j \<longrightarrow> us_used (socks ! i) \<longrightarrow> us_used (socks ! j) \<longrightarrow>
        us_bound (socks ! i) \<longrightarrow> us_bound (socks ! j) \<longrightarrow>
        us_bound_port (socks ! i) \<noteq> us_bound_port (socks ! j))"

definition udp6_ok :: "udp6_state \<Rightarrow> bool" where
  "udp6_ok st \<longleftrightarrow> length (ud_socks st) = UDP6_SOCKS \<and> list_all udp6_sock_ok (ud_socks st) \<and>
     udp6_ports_distinct (ud_socks st) \<and> 49152 \<le> ud_next st"

definition udp6_queue :: "udp6_sock \<Rightarrow> udp6_dgram list" where
  "udp6_queue s = ring_contents (us_q s) (us_q_head s) (us_q_count s)"

lemma udp6_consts [simp]: "0 < UDP6_QLEN" "0 < UDP6_SOCKS"
  by (simp_all add: UDP6_QLEN_def UDP6_SOCKS_def)

definition udp6_get :: "udp6_sock \<Rightarrow> (udp6_dgram \<times> udp6_sock) option" where
  "udp6_get s = (if us_q_count s = 0 then None else Some (us_q s ! us_q_head s, udp6_dequeue s))"

lemma length_udp6_queue [simp]: "length (udp6_queue s) = us_q_count s"
  by (simp add: udp6_queue_def)

lemma udp6_queue_Nil_iff [simp]: "udp6_queue s = [] \<longleftrightarrow> us_q_count s = 0"
  by (simp add: udp6_queue_def)

lemma udp6_enqueue_ok: "udp6_sock_ok s \<Longrightarrow> udp6_sock_ok (udp6_enqueue dg s)"
  by (auto simp: udp6_sock_ok_def udp6_enqueue_def mod_simps)

lemma udp6_enqueue_room:
  "udp6_sock_ok s \<Longrightarrow> us_q_count s < UDP6_QLEN \<Longrightarrow> udp6_queue (udp6_enqueue dg s) = udp6_queue s @ [dg]"
  using ring_push [of "us_q_count s" "us_q s" "us_q_tail s" "us_q_head s" dg]
  by (simp add: udp6_sock_ok_def udp6_enqueue_def udp6_queue_def)

lemma udp6_get_Some:
  assumes "udp6_sock_ok s" and "udp6_get s = Some (dg, s')"
  shows "udp6_sock_ok s' \<and> udp6_queue s = dg # udp6_queue s'"
proof -
  obtain n where n: "us_q_count s = Suc n"
    using assms(2) by (cases "us_q_count s") (auto simp: udp6_get_def)
  then have s': "s' = udp6_dequeue s" and dg: "dg = us_q s ! us_q_head s"
    using assms(2) by (auto simp: udp6_get_def)
  have "udp6_sock_ok s'"
    using assms(1) n by (auto simp: s' udp6_dequeue_def udp6_sock_ok_def mod_simps)
  moreover have "udp6_queue s = dg # udp6_queue s'"
    using assms(1) n ring_pop [of "us_q_head s" "us_q s" n]
    by (simp add: s' dg udp6_dequeue_def udp6_queue_def udp6_sock_ok_def)
  ultimately show ?thesis ..
qed

lemma udp6_sock_ok_count: "udp6_sock_ok s \<Longrightarrow> us_q_count s \<le> UDP6_QLEN"
  by (simp add: udp6_sock_ok_def)

lemma udp6_enqueue_full: "UDP6_QLEN \<le> us_q_count s \<Longrightarrow> udp6_enqueue dg s = s"
  by (simp add: udp6_enqueue_def)

lemma udp6_get_None: "udp6_get s = None \<longleftrightarrow> us_q_count s = 0"
  by (simp add: udp6_get_def)

interpretation udp6_q: fifo udp6_sock_ok udp6_queue UDP6_QLEN udp6_enqueue udp6_get
  by unfold_locales
    (simp_all add: udp6_enqueue_ok udp6_enqueue_room udp6_enqueue_full udp6_get_Some udp6_get_None
      udp6_sock_ok_count)

subsection \<open>Every operation keeps the invariant\<close>

lemma udp6_sock_reset_ok: "udp6_sock_ok s \<Longrightarrow> udp6_sock_ok (udp6_sock_reset u r s)"
  by (simp add: udp6_sock_ok_def udp6_sock_reset_def)

lemma udp6_incref_ok: "udp6_sock_ok s \<Longrightarrow> udp6_sock_ok (udp6_sock_incref s)"
  by (simp add: udp6_sock_ok_def udp6_sock_incref_def)

lemma udp6_decref_ok: "udp6_sock_ok s \<Longrightarrow> udp6_sock_ok (udp6_sock_decref s)"
  by (simp add: udp6_sock_decref_def udp6_sock_reset_ok) (simp add: udp6_sock_ok_def)

lemma udp6_dequeue_ok: "udp6_sock_ok s \<Longrightarrow> us_q_count s \<noteq> 0 \<Longrightarrow> udp6_sock_ok (udp6_dequeue s)"
  using udp6_get_Some [of s "us_q s ! us_q_head s" "udp6_dequeue s"] by (simp add: udp6_get_def)

text \<open>An operation on one socket that opens no new binding keeps the ports distinct.\<close>

lemma udp6_ok_upd_at:
  assumes "udp6_ok st" and "udp6_sock_ok (ud_socks st ! i) \<Longrightarrow> udp6_sock_ok (f (ud_socks st ! i))"
    and "us_used (f (ud_socks st ! i)) \<Longrightarrow> us_bound (f (ud_socks st ! i)) \<Longrightarrow>
      us_used (ud_socks st ! i) \<and> us_bound (ud_socks st ! i) \<and>
      us_bound_port (f (ud_socks st ! i)) = us_bound_port (ud_socks st ! i)"
  shows "udp6_ok (st\<lparr>ud_socks := upd_at i f (ud_socks st)\<rparr>)"
proof -
  have "udp6_ports_distinct (upd_at i f (ud_socks st))"
    using assms(1,3) by (auto simp: udp6_ok_def udp6_ports_distinct_def nth_upd_at)
  moreover have "list_all udp6_sock_ok (upd_at i f (ud_socks st))"
    using assms(1,2) by (auto simp: udp6_ok_def list_all_length nth_upd_at)
  ultimately show ?thesis
    using assms(1) by (simp add: udp6_ok_def)
qed

lemma udp6_init_ok [inv_intros]:
  assumes "length (ud_socks st) = UDP6_SOCKS"
    and "list_all (\<lambda>s. length (us_q s) = UDP6_QLEN) (ud_socks st)"
  shows "udp6_ok (net_udp6_init st)"
  using assms by (simp add: udp6_ok_def net_udp6_init_def list_all_length udp6_sock_ok_def
      udp6_sock_reset_def udp6_ports_distinct_def)

lemma udp6_on_incref_ok [inv_intros]: "udp6_ok st \<Longrightarrow> udp6_ok (net_udp6_on_desc_incref sid st)"
  by (auto simp: net_udp6_on_desc_incref_def udp6_sock_incref_def udp6_incref_ok
      intro!: udp6_ok_upd_at split: if_splits) (simp add: udp6_sock_ok_def)

lemma udp6_on_decref_ok [inv_intros]: "udp6_ok st \<Longrightarrow> udp6_ok (net_udp6_on_desc_decref sid st)"
  by (simp add: net_udp6_on_desc_decref_def, intro impI udp6_ok_upd_at)
    (auto simp: udp6_decref_ok, auto simp: udp6_sock_decref_def udp6_sock_reset_def split: if_splits)

lemma udp6_alloc_ok [inv_intros]: "udp6_ok st \<Longrightarrow> udp6_ok (snd (net_udp6_socket_alloc st))"
  by (auto simp: net_udp6_socket_alloc_def udp6_sock_reset_ok intro!: udp6_ok_upd_at
      split: option.splits) (simp_all add: udp6_sock_reset_def)

lemma udp6_try_recv_ok [inv_intros]: "udp6_ok st \<Longrightarrow> udp6_ok (snd (net_udp6_try_recv sid st))"
  by (auto simp: net_udp6_try_recv_def Let_def udp6_dequeue_ok intro!: udp6_ok_upd_at)
    (simp_all add: udp6_dequeue_def)

text \<open>Binding a free port keeps the ports distinct.\<close>

lemma udp6_set_port_ok:
  assumes "udp6_ok st" and "sid < UDP6_SOCKS" and "\<not> udp6_port_in_use p sid (ud_socks st)"
  shows "udp6_ok (st\<lparr>ud_socks := upd_at sid (udp6_set_port p) (ud_socks st)\<rparr>)"
proof -
  have free: "\<And>i. i < length (ud_socks st) \<Longrightarrow> i \<noteq> sid \<Longrightarrow> us_used (ud_socks st ! i) \<Longrightarrow>
      us_bound (ud_socks st ! i) \<Longrightarrow> us_bound_port (ud_socks st ! i) \<noteq> p" and "p \<noteq> 0"
    using assms(3) by (auto simp: udp6_port_in_use_def list_ex_iff)
  have "udp6_ports_distinct (upd_at sid (udp6_set_port p) (ud_socks st))"
    using assms(1) free
    by (auto simp: udp6_ok_def udp6_ports_distinct_def nth_upd_at udp6_set_port_def)
  moreover have "list_all udp6_sock_ok (upd_at sid (udp6_set_port p) (ud_socks st))"
    using assms(1) \<open>p \<noteq> 0\<close>
    by (auto simp: udp6_ok_def list_all_length nth_upd_at udp6_set_port_def udp6_sock_ok_def)
  ultimately show ?thesis
    using assms(1) by (simp add: udp6_ok_def)
qed

lemma udp6_next_port_ge: "49152 \<le> udp6_next_port p"
  by (auto simp: udp6_next_port_def)

lemma udp6_ephemeral_ok:
  "udp6_ok st \<Longrightarrow> sid < UDP6_SOCKS \<Longrightarrow> udp6_ok (snd (udp6_ephemeral_loop tries sid st))"
proof (induction tries sid st rule: udp6_ephemeral_loop.induct)
  case (1 sid st)
  then show ?case by simp
next
  case (2 tries sid st)
  let ?st = "st\<lparr>ud_next := udp6_next_port (ud_next st)\<rparr>"
  have "udp6_ok ?st"
    using "2.prems"(1) by (simp add: udp6_ok_def udp6_next_port_ge)
  then show ?case
    using "2.IH" [of "ud_next st" ?st] "2.prems" udp6_set_port_ok [of ?st sid "ud_next st"]
    by (simp add: Let_def)
qed

lemma udp6_bind_ok [inv_intros]: "udp6_ok st \<Longrightarrow> udp6_ok (snd (net_udp6_bind sid port st))"
  using udp6_ephemeral_ok [of st sid 1024] udp6_set_port_ok [of st sid port]
  by (auto simp: net_udp6_bind_def udp6_bind_ephemeral_def split: sum.splits prod.splits)

lemma udp6_deliver_ok [inv_intros]:
  "udp6_ok st \<Longrightarrow> udp6_ok (snd (udp6_deliver src sport dport pl st))"
proof -
  assume ok: "udp6_ok st"
  let ?f = "\<lambda>dg s. if udp6_accepts dport s then udp6_enqueue dg s else s"
  have f: "\<And>dg s. us_used (?f dg s) = us_used s \<and> us_bound (?f dg s) = us_bound s \<and>
      us_bound_port (?f dg s) = us_bound_port s"
    by (simp add: udp6_enqueue_def)
  have "\<And>dg. udp6_ports_distinct (map (?f dg) (ud_socks st))"
    using ok by (simp add: udp6_ok_def udp6_ports_distinct_def f del: if_split)
  moreover have "\<And>dg. list_all udp6_sock_ok (map (?f dg) (ud_socks st))"
    using ok by (simp add: udp6_ok_def list_all_length udp6_enqueue_ok)
  ultimately show ?thesis
    using ok by (simp add: udp6_deliver_def udp6_ok_def Let_def)
qed

subsection \<open>Binding to an ephemeral port\<close>

lemma udp6_next_port_unat:
  assumes "49152 \<le> p"
  shows "unat (udp6_next_port p) = 49152 + (unat p - 49152 + 1) mod 16384"
proof (cases "p = 65535")
  case True
  then show ?thesis by (simp add: udp6_next_port_def)
next
  case False
  have "49152 \<le> unat p" and "unat p < 65536"
    using assms unsigned_less [of p, where ?'a = nat] by (simp_all add: word_le_nat_alt)
  moreover have "unat p \<noteq> 65535"
    using False by (auto dest: arg_cong [of _ _ "word_of_nat :: nat \<Rightarrow> u16"])
  ultimately have "unat p + 1 < 65536" and ge: "49152 \<le> unat p" by simp_all
  then have "unat (p + 1) = unat p + 1"
    by (simp add: unat_word_ariths)
  then show ?thesis
    using ge \<open>unat p + 1 < 65536\<close> by (simp add: udp6_next_port_def word_less_nat_alt)
qed

lemma udp6_port_iter:
  assumes "49152 \<le> p"
  shows "unat ((udp6_next_port ^^ n) p) = 49152 + (unat p - 49152 + n) mod 16384 \<and>
    49152 \<le> (udp6_next_port ^^ n) p"
proof (induction n)
  case 0
  have "49152 \<le> unat p" and "unat p < 65536"
    using assms unsigned_less [of p, where ?'a = nat] by (simp_all add: word_le_nat_alt)
  then show ?case using assms by simp
next
  case (Suc n)
  then show ?case
    using udp6_next_port_unat [of "(udp6_next_port ^^ n) p"] udp6_next_port_ge
    by (simp add: mod_simps)
qed

lemma udp6_port_iter_inj:
  assumes "49152 \<le> p"
  shows "inj_on (\<lambda>n. (udp6_next_port ^^ n) p) {..<16384}"
proof (rule inj_onI)
  fix m n :: nat
  assume mn: "m \<in> {..<16384}" "n \<in> {..<16384}"
    and "(udp6_next_port ^^ m) p = (udp6_next_port ^^ n) p"
  then have "(unat p - 49152 + m) mod 16384 = (unat p - 49152 + n) mod 16384"
    using udp6_port_iter [OF assms, of m] udp6_port_iter [OF assms, of n] by simp
  then show "m = n"
    using mn ring_offset_neq [of m n 16384 "unat p - 49152"]
      ring_offset_neq [of n m 16384 "unat p - 49152"]
    by (cases m n rule: linorder_cases) auto
qed

definition udp6_ports_used :: "nat \<Rightarrow> udp6_sock list \<Rightarrow> u16 set" where
  "udp6_ports_used sid socks =
     (\<lambda>i. us_bound_port (socks ! i)) ` ({..<length socks} - {sid})"

lemma udp6_port_used_iff:
  "udp6_port_in_use p sid socks \<Longrightarrow> p \<noteq> 0 \<Longrightarrow> p \<in> udp6_ports_used sid socks"
  by (auto simp: udp6_port_in_use_def list_ex_iff udp6_ports_used_def)

lemma udp6_ephemeral_fails:
  "fst (udp6_ephemeral_loop tries sid st) = Inl e \<Longrightarrow> k < tries \<Longrightarrow>
     udp6_port_in_use ((udp6_next_port ^^ k) (ud_next st)) sid (ud_socks st)"
proof (induction tries arbitrary: st k)
  case 0
  then show ?case by simp
next
  case (Suc tries)
  let ?st = "st\<lparr>ud_next := udp6_next_port (ud_next st)\<rparr>"
  have used: "udp6_port_in_use (ud_next st) sid (ud_socks st)"
    and rest: "fst (udp6_ephemeral_loop tries sid ?st) = Inl e"
    using Suc.prems(1) by (auto simp: Let_def split: if_splits)
  show ?case
  proof (cases k)
    case 0
    then show ?thesis using used by simp
  next
    case (Suc j)
    then show ?thesis
      using Suc.IH [OF rest, of j] \<open>k < Suc tries\<close> by (simp add: funpow_Suc_right del: funpow.simps)
  qed
qed

lemma udp6_ephemeral_result:
  "fst (udp6_ephemeral_loop tries sid st) = Inr p \<Longrightarrow> udp6_ok st \<Longrightarrow> sid < UDP6_SOCKS \<Longrightarrow>
     49152 \<le> p \<and> \<not> udp6_port_in_use p sid (ud_socks st) \<and>
     ud_socks (snd (udp6_ephemeral_loop tries sid st)) = upd_at sid (udp6_set_port p) (ud_socks st)"
proof (induction tries arbitrary: st)
  case 0
  then show ?case by simp
next
  case (Suc tries)
  let ?st = "st\<lparr>ud_next := udp6_next_port (ud_next st)\<rparr>"
  have "udp6_ok ?st"
    using Suc.prems(2) by (simp add: udp6_ok_def udp6_next_port_ge)
  then show ?case
    using Suc.IH [of ?st] Suc.prems by (auto simp: Let_def udp6_ok_def split: if_splits)
qed

text \<open>C7: binding an open socket to port 0 always succeeds: with eight sockets the 1024 tries
  cannot all hit a port in use, and the port bound is an ephemeral one no other open socket
  has.\<close>

theorem udp6_ephemeral_bind_total:
  assumes ok: "udp6_ok st" and sid: "sid < UDP6_SOCKS" and used: "us_used (ud_socks st ! sid)"
  shows "\<exists>st' p. net_udp6_bind sid 0 st = (Inr (), st') \<and> udp6_ok st' \<and> 49152 \<le> p \<and>
    \<not> udp6_port_in_use p sid (ud_socks st) \<and>
    ud_socks st' = upd_at sid (udp6_set_port p) (ud_socks st)"
proof (cases "fst (udp6_ephemeral_loop 1024 sid st)")
  case (Inl e)
  let ?port = "\<lambda>k. (udp6_next_port ^^ k) (ud_next st)"
  have ge: "49152 \<le> ud_next st" and len: "length (ud_socks st) = UDP6_SOCKS"
    using ok by (simp_all add: udp6_ok_def)
  have "?port k \<in> udp6_ports_used sid (ud_socks st)" if "k < 8" for k
  proof (rule udp6_port_used_iff)
    show "udp6_port_in_use (?port k) sid (ud_socks st)"
      using udp6_ephemeral_fails [OF Inl] that by simp
    show "?port k \<noteq> 0"
      using udp6_port_iter [OF ge, of k] by auto
  qed
  then have "?port ` {..<8} \<subseteq> udp6_ports_used sid (ud_socks st)" by auto
  moreover have "inj_on ?port {..<8}"
    by (rule inj_on_subset [OF udp6_port_iter_inj [OF ge]]) auto
  moreover have "finite (udp6_ports_used sid (ud_socks st))"
    and "card (udp6_ports_used sid (ud_socks st)) \<le> card ({..<length (ud_socks st)} - {sid})"
    by (simp_all add: udp6_ports_used_def card_image_le)
  ultimately have "card {..<8::nat} \<le> card ({..<length (ud_socks st)} - {sid})"
    by (metis card_image card_mono order_trans)
  then show ?thesis
    using sid by (simp add: len UDP6_SOCKS_def)
next
  case (Inr p)
  then show ?thesis
    using udp6_ephemeral_result [OF Inr ok sid] udp6_ephemeral_ok [OF ok sid, of 1024] sid used
    by (cases "udp6_ephemeral_loop 1024 sid st")
      (auto simp: net_udp6_bind_def udp6_bind_ephemeral_def)
qed

definition udp6_demo :: udp6_state where
  "udp6_demo = snd (net_udp6_socket_alloc (net_udp6_init
     \<lparr>ud_socks = replicate UDP6_SOCKS
        \<lparr>us_used = False, us_refs = 0, us_bound = False, us_bound_port = 0, us_q_head = 0,
         us_q_tail = 0, us_q_count = 0,
         us_q = replicate UDP6_QLEN \<lparr>dg_src_ip = [], dg_src_port = 0, dg_dst_port = 0, dg_data = []\<rparr>\<rparr>,
      ud_next = 0\<rparr>))"

theorem udp6_ephemeral_bind_total_witness:
  "\<exists>st' p. net_udp6_bind 0 0 udp6_demo = (Inr (), st') \<and> 49152 \<le> p \<and>
     ud_socks st' = upd_at 0 (udp6_set_port p) (ud_socks udp6_demo)"
proof -
  have "udp6_ok udp6_demo"
    unfolding udp6_demo_def
    by (intro udp6_alloc_ok udp6_init_ok) (simp_all add: list_all_length)
  moreover have "us_used (ud_socks udp6_demo ! 0)"
    by code_simp
  ultimately show ?thesis
    using udp6_ephemeral_bind_total [of udp6_demo 0] by (auto simp: UDP6_SOCKS_def)
qed

end
