(* ===== verification/Tcp6.thy ===== *)
theory Tcp6
  imports Ring
begin

text \<open>
  The TCP connection table of \<open>kernel-aarch64/net_ipv6.c\<close> (lines 995-1140 and 1377-1399): the
  life cycle of a connection, its local port, and the receive buffer. Sending segments and
  reacting to received ones are not part of this theory.
\<close>

definition TCP6_MAX_CONNS :: nat where
  "TCP6_MAX_CONNS = 8"

definition TCP6_RX_CAP :: nat where
  "TCP6_RX_CAP = 8192"

datatype tcp6_st = TCP6_CLOSED | TCP6_SYN_SENT | TCP6_ESTABLISHED | TCP6_CLOSE_WAIT

record tcp6_conn =
  tc_used :: bool
  tc_state :: tcp6_st
  tc_refs :: nat
  tc_local_port :: u16
  tc_remote_port :: u16
  tc_remote_ip :: "u8 list"
  tc_iss :: u32
  tc_snd_una :: u32
  tc_snd_nxt :: u32
  tc_irs :: u32
  tc_rcv_nxt :: u32
  tc_rx :: "u8 list"
  tc_rx_head :: nat
  tc_rx_tail :: nat
  tc_rx_count :: nat
  tc_last_syn_tx_ns :: u64

record tcp6_state =
  tt_conns :: "tcp6_conn list"
  tt_ephemeral :: u16

subsection \<open>The operations\<close>

definition tcp6_conn_reset :: "bool \<Rightarrow> nat \<Rightarrow> tcp6_conn \<Rightarrow> tcp6_conn" where
  "tcp6_conn_reset u r c = c\<lparr>tc_used := u, tc_state := TCP6_CLOSED, tc_refs := r,
     tc_local_port := 0, tc_remote_port := 0, tc_remote_ip := replicate 16 0, tc_iss := 0,
     tc_snd_una := 0, tc_snd_nxt := 0, tc_irs := 0, tc_rcv_nxt := 0, tc_rx_head := 0,
     tc_rx_tail := 0, tc_rx_count := 0, tc_last_syn_tx_ns := 0\<rparr>"

definition net_tcp6_init :: "tcp6_state \<Rightarrow> tcp6_state" where
  "net_tcp6_init st = st\<lparr>tt_conns := map (tcp6_conn_reset False 0) (tt_conns st)\<rparr>"

definition tcp6_get :: "nat \<Rightarrow> tcp6_state \<Rightarrow> tcp6_conn option" where
  "tcp6_get cid st =
     (if TCP6_MAX_CONNS \<le> cid then None
      else if tc_used (tt_conns st ! cid) then Some (tt_conns st ! cid) else None)"

definition tcp6_conn_incref :: "tcp6_conn \<Rightarrow> tcp6_conn" where
  "tcp6_conn_incref c = (if tc_refs c < 0xffff then c\<lparr>tc_refs := tc_refs c + 1\<rparr> else c)"

definition tcp6_conn_decref :: "tcp6_conn \<Rightarrow> tcp6_conn" where
  "tcp6_conn_decref c =
     (if tc_refs c = 0 then c
      else if tc_refs c - 1 = 0
      then c\<lparr>tc_refs := 0, tc_used := False, tc_state := TCP6_CLOSED\<rparr>
      else c\<lparr>tc_refs := tc_refs c - 1\<rparr>)"

definition net_tcp6_on_desc_incref :: "nat \<Rightarrow> tcp6_state \<Rightarrow> tcp6_state" where
  "net_tcp6_on_desc_incref cid st =
     (case tcp6_get cid st of
        None \<Rightarrow> st
      | Some c \<Rightarrow> st\<lparr>tt_conns := upd_at cid tcp6_conn_incref (tt_conns st)\<rparr>)"

definition net_tcp6_on_desc_decref :: "nat \<Rightarrow> tcp6_state \<Rightarrow> tcp6_state" where
  "net_tcp6_on_desc_decref cid st =
     (case tcp6_get cid st of
        None \<Rightarrow> st
      | Some c \<Rightarrow> st\<lparr>tt_conns := upd_at cid tcp6_conn_decref (tt_conns st)\<rparr>)"

definition net_tcp6_conn_alloc :: "tcp6_state \<Rightarrow> nat res \<times> tcp6_state" where
  "net_tcp6_conn_alloc st =
     (case find_slot (\<lambda>c. \<not> tc_used c) (tt_conns st) of
        None \<Rightarrow> (Inl ENOMEM, st)
      | Some i \<Rightarrow> (Inr i, st\<lparr>tt_conns := upd_at i (tcp6_conn_reset True 1) (tt_conns st)\<rparr>))"

text \<open>The receive loop moves bytes out one at a time; the count is adjusted after it.\<close>

fun tcp6_pull :: "nat \<Rightarrow> tcp6_conn \<Rightarrow> u8 list \<times> tcp6_conn" where
  "tcp6_pull 0 c = ([], c)"
| "tcp6_pull (Suc n) c =
     (case tcp6_pull n (c\<lparr>tc_rx_head := (tc_rx_head c + 1) mod TCP6_RX_CAP\<rparr>) of
        (bs, c') \<Rightarrow> (tc_rx c ! tc_rx_head c # bs, c'))"

definition net_tcp6_try_recv :: "nat \<Rightarrow> nat \<Rightarrow> tcp6_state \<Rightarrow> u8 list res \<times> tcp6_state" where
  "net_tcp6_try_recv cid len st =
     (case tcp6_get cid st of
        None \<Rightarrow> (Inl EBADF, st)
      | Some c \<Rightarrow>
          if tc_rx_count c = 0
          then (if tc_state c = TCP6_CLOSE_WAIT then (Inr [], st) else (Inl EAGAIN, st))
          else if len = 0 then (Inr [], st)
          else let n = min len (tc_rx_count c) in
            (case tcp6_pull n c of
               (bs, c') \<Rightarrow>
                 (Inr bs, st\<lparr>tt_conns := (tt_conns st)[cid := c'\<lparr>tc_rx_count := tc_rx_count c' - n\<rparr>]\<rparr>)))"

definition net_tcp6_is_established :: "nat \<Rightarrow> tcp6_state \<Rightarrow> bool" where
  "net_tcp6_is_established cid st =
     (case tcp6_get cid st of None \<Rightarrow> False | Some c \<Rightarrow> tc_state c = TCP6_ESTABLISHED)"

end
