(* ===== verification/Fd.thy ===== *)
theory Fd
  imports Pipe Udp6 Tcp6
begin

text \<open>
  \<open>kernel-aarch64/fd.c\<close> and \<open>include/fd.h\<close>: the table of reference-counted file descriptions
  that processes share, and the per-process tables that map a descriptor number to an index of
  it. The C union, read only through the member its \<open>kind\<close> names, is the datatype \<open>fdesc\<close>; a
  free table entry (\<open>-1\<close>) is \<open>None\<close>. Descriptions of pipes and sockets keep the reference
  counts of those objects in step through hooks.

  The main lemmas say that the counts are exact: \<open>fd_inv\<close> relates the count of every description
  to the table entries that name it (plus references in flight inside a system call), and the
  counts of every pipe end and socket to the descriptions that refer to it.
\<close>

definition MAX_FDS :: nat where
  "MAX_FDS = 32"

definition MAX_FILEDESCS :: nat where
  "MAX_FILEDESCS = 64"

datatype fdesc =
    FDESC_UNUSED
  | FDESC_UART
  | FDESC_INITRAMFS (in_data: "u8 list") (in_size: u64) (in_off: u64) (in_mode: u32) (in_is_dir: bool)
      (in_dir_path: string)
  | FDESC_PIPE nat pipe_end
  | FDESC_RAMFILE (rf_id: nat) (rf_off: u64)
  | FDESC_PROC (pr_node: nat) (pr_off: u64)
  | FDESC_UDP6 nat
  | FDESC_TCP6 nat

record file_desc =
  fd_kind :: fdesc
  fd_refs :: nat

type_synonym fd_table = "nat option list"

record fd_state =
  fs_descs :: "file_desc list"
  fs_pipes :: "pipe list"
  fs_udp :: udp6_state
  fs_tcp :: tcp6_state

subsection \<open>The operations\<close>

definition desc_cleared :: file_desc where
  "desc_cleared = \<lparr>fd_kind = FDESC_UNUSED, fd_refs = 0\<rparr>"

definition desc_clear :: "nat \<Rightarrow> fd_state \<Rightarrow> fd_state" where
  "desc_clear i s = s\<lparr>fs_descs := upd_at i (\<lambda>_. desc_cleared) (fs_descs s)\<rparr>"

definition fd_init :: "fd_state \<Rightarrow> fd_state" where
  "fd_init s = s\<lparr>fs_descs := replicate MAX_FILEDESCS desc_cleared\<rparr>"

definition desc_alloc :: "fd_state \<Rightarrow> nat option \<times> fd_state" where
  "desc_alloc s =
     (case find_slot (\<lambda>d. fd_refs d = 0) (fs_descs s) of
        None \<Rightarrow> (None, s)
      | Some i \<Rightarrow>
          (Some i, s\<lparr>fs_descs := upd_at i (\<lambda>_. desc_cleared\<lparr>fd_refs := 1\<rparr>) (fs_descs s)\<rparr>))"

text \<open>What every opener does with a reserved slot: clear it, give it its kind, one reference.\<close>

definition desc_setup :: "nat \<Rightarrow> fdesc \<Rightarrow> fd_state \<Rightarrow> fd_state" where
  "desc_setup i k s = s\<lparr>fs_descs := upd_at i (\<lambda>_. \<lparr>fd_kind = k, fd_refs = 1\<rparr>) (fs_descs s)\<rparr>"

definition hook_incref :: "fdesc \<Rightarrow> fd_state \<Rightarrow> fd_state" where
  "hook_incref k s =
     (case k of
        FDESC_PIPE pid e \<Rightarrow> s\<lparr>fs_pipes := pipe_on_desc_incref pid e (fs_pipes s)\<rparr>
      | FDESC_UDP6 sid \<Rightarrow> s\<lparr>fs_udp := net_udp6_on_desc_incref sid (fs_udp s)\<rparr>
      | FDESC_TCP6 cid \<Rightarrow> s\<lparr>fs_tcp := net_tcp6_on_desc_incref cid (fs_tcp s)\<rparr>
      | _ \<Rightarrow> s)"

definition hook_decref :: "fdesc \<Rightarrow> fd_state \<Rightarrow> fd_state" where
  "hook_decref k s =
     (case k of
        FDESC_PIPE pid e \<Rightarrow> s\<lparr>fs_pipes := pipe_on_desc_decref pid e (fs_pipes s)\<rparr>
      | FDESC_UDP6 sid \<Rightarrow> s\<lparr>fs_udp := net_udp6_on_desc_decref sid (fs_udp s)\<rparr>
      | FDESC_TCP6 cid \<Rightarrow> s\<lparr>fs_tcp := net_tcp6_on_desc_decref cid (fs_tcp s)\<rparr>
      | _ \<Rightarrow> s)"

definition desc_bump :: "file_desc \<Rightarrow> file_desc" where
  "desc_bump d = d\<lparr>fd_refs := Suc (fd_refs d)\<rparr>"

definition desc_incref :: "nat \<Rightarrow> fd_state \<Rightarrow> fd_state" where
  "desc_incref i s =
     (if MAX_FILEDESCS \<le> i then s
      else let d = fs_descs s ! i in
        if fd_refs d = 0 then s
        else hook_incref (fd_kind d)
          (s\<lparr>fs_descs := upd_at i desc_bump (fs_descs s)\<rparr>))"

definition desc_drop :: "file_desc \<Rightarrow> file_desc" where
  "desc_drop d = (if fd_refs d - 1 = 0 then desc_cleared else d\<lparr>fd_refs := fd_refs d - 1\<rparr>)"

definition desc_decref :: "nat \<Rightarrow> fd_state \<Rightarrow> fd_state" where
  "desc_decref i s =
     (if MAX_FILEDESCS \<le> i then s
      else let d = fs_descs s ! i in
        if fd_refs d = 0 then s
        else let s' = hook_decref (fd_kind d) s
          in s'\<lparr>fs_descs := upd_at i desc_drop (fs_descs s')\<rparr>)"

definition fd_get_desc_idx :: "fd_table \<Rightarrow> u64 \<Rightarrow> fd_state \<Rightarrow> nat option" where
  "fd_get_desc_idx t fd s =
     (if MAX_FDS \<le> unat fd then None
      else case t ! unat fd of
        None \<Rightarrow> None
      | Some i \<Rightarrow> if MAX_FILEDESCS \<le> i then None else if fd_refs (fs_descs s ! i) = 0 then None else Some i)"

definition fd_alloc_into ::
  "fd_table \<Rightarrow> nat \<Rightarrow> nat \<Rightarrow> fd_state \<Rightarrow> nat option \<times> fd_table \<times> fd_state"
where
  "fd_alloc_into t min_fd i s =
     (case find_slot (\<lambda>e. e = None) (drop min_fd t) of
        None \<Rightarrow> (None, t, s)
      | Some k \<Rightarrow> (Some (min_fd + k), t[min_fd + k := Some i], desc_incref i s))"

definition fd_close :: "fd_table \<Rightarrow> u64 \<Rightarrow> fd_state \<Rightarrow> fd_table \<times> fd_state" where
  "fd_close t fd s =
     (if MAX_FDS \<le> unat fd then (t, s)
      else case t ! unat fd of
        None \<Rightarrow> (t, s)
      | Some i \<Rightarrow> (t[unat fd := None], desc_decref i s))"

text \<open>\<open>proc_close_all_fds\<close> of \<open>proc.c\<close>, on the table it works on.\<close>

definition close_all_fds :: "fd_table \<Rightarrow> fd_state \<Rightarrow> fd_table \<times> fd_state" where
  "close_all_fds t s =
     fold (\<lambda>fd (t, s). fd_close t (word_of_nat fd) s) [0..<MAX_FDS] (t, s)"

subsection \<open>Counting references\<close>

text \<open>
  A pipe end or socket is named by the kind of the descriptions that refer to it; \<open>ep_count\<close> is
  the count its own table records (none when that object is not in use), \<open>end_refs\<close> the number
  of references that the descriptions of that kind hold together.
\<close>

fun is_ep :: "fdesc \<Rightarrow> bool" where
  "is_ep (FDESC_PIPE _ _) = True"
| "is_ep (FDESC_UDP6 _) = True"
| "is_ep (FDESC_TCP6 _) = True"
| "is_ep _ = False"

fun ep_count :: "fdesc \<Rightarrow> fd_state \<Rightarrow> nat option" where
  "ep_count (FDESC_PIPE pid e) s =
     (if MAX_PIPES \<le> pid \<or> \<not> pp_used (fs_pipes s ! pid) then None
      else Some (case e of PIPE_END_READ \<Rightarrow> pp_read_refs (fs_pipes s ! pid)
                         | PIPE_END_WRITE \<Rightarrow> pp_write_refs (fs_pipes s ! pid)))"
| "ep_count (FDESC_UDP6 sid) s =
     (if UDP6_SOCKS \<le> sid \<or> \<not> us_used (ud_socks (fs_udp s) ! sid) then None
      else Some (us_refs (ud_socks (fs_udp s) ! sid)))"
| "ep_count (FDESC_TCP6 cid) s =
     (if TCP6_MAX_CONNS \<le> cid \<or> \<not> tc_used (tt_conns (fs_tcp s) ! cid) then None
      else Some (tc_refs (tt_conns (fs_tcp s) ! cid)))"
| "ep_count _ s = None"

definition refs_of_kind :: "fdesc \<Rightarrow> file_desc \<Rightarrow> nat" where
  "refs_of_kind k d = (if fd_kind d = k then fd_refs d else 0)"

definition end_refs :: "fdesc \<Rightarrow> file_desc list \<Rightarrow> nat" where
  "end_refs k ds = sum_list (map (refs_of_kind k) ds)"

definition tab_refs :: "fd_table list \<Rightarrow> nat \<Rightarrow> nat" where
  "tab_refs tabs i = sum_list (map (\<lambda>t. count_list t (Some i)) tabs)"

definition fd_shape :: "fd_table list \<Rightarrow> fd_state \<Rightarrow> bool" where
  "fd_shape tabs s \<longleftrightarrow> length (fs_descs s) = MAX_FILEDESCS \<and> pipes_ok (fs_pipes s) \<and>
     length (ud_socks (fs_udp s)) = UDP6_SOCKS \<and> length (tt_conns (fs_tcp s)) = TCP6_MAX_CONNS \<and>
     (\<forall>t \<in> set tabs. length t = MAX_FDS \<and> (\<forall>i. Some i \<in> set t \<longrightarrow> i < MAX_FILEDESCS))"

text \<open>\<open>held i\<close>: references to description \<open>i\<close> held by a system call in progress.\<close>

definition fd_inv :: "(nat \<Rightarrow> nat) \<Rightarrow> fd_table list \<Rightarrow> fd_state \<Rightarrow> bool" where
  "fd_inv held tabs s \<longleftrightarrow> fd_shape tabs s \<and>
     (\<forall>i < MAX_FILEDESCS. fd_refs (fs_descs s ! i) = tab_refs tabs i + held i \<and>
        (fd_refs (fs_descs s ! i) = 0 \<longrightarrow> fd_kind (fs_descs s ! i) = FDESC_UNUSED)) \<and>
     (\<forall>k. is_ep k \<longrightarrow>
        (case ep_count k s of Some n \<Rightarrow> n = end_refs k (fs_descs s) | None \<Rightarrow> end_refs k (fs_descs s) = 0))"

abbreviation no_held :: "nat \<Rightarrow> nat" where
  "no_held \<equiv> (\<lambda>_. 0)"

subsection \<open>Arithmetic of the counts\<close>

lemma end_refs_upd_at:
  "i < length ds \<Longrightarrow>
   end_refs k (upd_at i f ds) + refs_of_kind k (ds ! i) = end_refs k ds + refs_of_kind k (f (ds ! i))"
  unfolding end_refs_def by (rule sum_list_upd_at)

lemma refs_of_kind_le: "i < length ds \<Longrightarrow> refs_of_kind k (ds ! i) \<le> end_refs k ds"
  unfolding end_refs_def by (rule member_le_sum_list) simp_all

lemma end_refs_pos: "i < length ds \<Longrightarrow> fd_kind (ds ! i) = k \<Longrightarrow> fd_refs (ds ! i) \<le> end_refs k ds"
  using refs_of_kind_le [of i ds k] by (simp add: refs_of_kind_def)

lemma count_list_update:
  "i < length t \<Longrightarrow>
   count_list (t[i := x]) y + (if t ! i = y then 1 else 0) = count_list t y + (if x = y then 1 else 0)"
proof (induction t arbitrary: i)
  case Nil
  then show ?case by simp
next
  case (Cons a t)
  show ?case
  proof (cases i)
    case 0
    then show ?thesis by auto
  next
    case (Suc j)
    then show ?thesis using Cons.IH [of j] Cons.prems by auto
  qed
qed

lemma tab_refs_update:
  "k < length tabs \<Longrightarrow>
   tab_refs (tabs[k := t]) i + count_list (tabs ! k) (Some i) = tab_refs tabs i + count_list t (Some i)"
  unfolding tab_refs_def
  using sum_list_upd_at [of k tabs "\<lambda>t. count_list t (Some i)" "\<lambda>_. t"] by (simp add: upd_at_def)

lemma tab_refs_ge: "k < length tabs \<Longrightarrow> count_list (tabs ! k) (Some i) \<le> tab_refs tabs i"
  unfolding tab_refs_def
  using member_le_sum_list [of "count_list (tabs ! k) (Some i)" "map (\<lambda>t. count_list t (Some i)) tabs"]
  by simp

lemma tab_refs_entry:
  assumes "k < length tabs" and "j < length (tabs ! k)" and "tabs ! k ! j = Some i"
  shows "0 < tab_refs tabs i"
proof -
  have "Some i \<in> set (tabs ! k)"
    using assms(2,3) by (metis nth_mem)
  then have "0 < count_list (tabs ! k) (Some i)"
    by (metis count_list_0_iff gr0I)
  then show ?thesis using tab_refs_ge [OF assms(1), of i] by linarith
qed

text \<open>Storing \<open>Some i\<close> in a free table entry adds one reference to \<open>i\<close>, clearing removes it.\<close>

lemma tab_refs_store:
  assumes "k < length tabs" and "j < length (tabs ! k)" and "tabs ! k ! j = None"
  shows "tab_refs (tabs[k := (tabs ! k)[j := Some i]]) i' =
    tab_refs tabs i' + (if i' = i then 1 else 0)"
  using tab_refs_update [OF assms(1), of "(tabs ! k)[j := Some i]" i']
    count_list_update [OF assms(2), of "Some i" "Some i'"] assms(3) by auto

lemma tab_refs_clear:
  assumes "k < length tabs" and "j < length (tabs ! k)" and "tabs ! k ! j = Some i"
  shows "tab_refs (tabs[k := (tabs ! k)[j := None]]) i' + (if i' = i then 1 else 0) =
    tab_refs tabs i'"
  using tab_refs_update [OF assms(1), of "(tabs ! k)[j := None]" i']
    count_list_update [OF assms(2), of None "Some i'"] assms(3) by auto

subsection \<open>The hooks\<close>

lemma ep_count_descs [simp]: "ep_count k (s\<lparr>fs_descs := ds\<rparr>) = ep_count k s"
  by (cases k) (simp_all split: pipe_end.split)

lemma hook_descs [simp]:
  "fs_descs (hook_incref k s) = fs_descs s" "fs_descs (hook_decref k s) = fs_descs s"
  by (simp_all add: hook_incref_def hook_decref_def split: fdesc.splits)

lemma hook_no_ep: "\<not> is_ep k \<Longrightarrow> hook_incref k s = s" "\<not> is_ep k \<Longrightarrow> hook_decref k s = s"
  by (cases k; simp add: hook_incref_def hook_decref_def)+

lemma fd_shape_descs: "fd_shape tabs s \<Longrightarrow> length ds = MAX_FILEDESCS \<Longrightarrow> fd_shape tabs (s\<lparr>fs_descs := ds\<rparr>)"
  by (simp add: fd_shape_def)

lemma hook_shape [inv_intros]:
  assumes "fd_shape tabs s"
  shows "fd_shape tabs (hook_incref k s)" and "fd_shape tabs (hook_decref k s)"
  using assms by (cases k; simp add: fd_shape_def hook_incref_def hook_decref_def pipe_incref_ok
      pipe_decref_ok net_udp6_on_desc_incref_def net_udp6_on_desc_decref_def
      net_tcp6_on_desc_incref_def net_tcp6_on_desc_decref_def split: option.splits)+

definition tcp_refs_small :: "fd_state \<Rightarrow> bool" where
  "tcp_refs_small s \<longleftrightarrow> (\<forall>cid < TCP6_MAX_CONNS. tc_used (tt_conns (fs_tcp s) ! cid) \<longrightarrow>
     tc_refs (tt_conns (fs_tcp s) ! cid) < 0xffff)"

lemma ep_count_hook_incref:
  assumes "fd_shape tabs s" and "tcp_refs_small s" and "is_ep k"
  shows "ep_count k (hook_incref k' s) = (if k = k' then map_option Suc (ep_count k s) else ep_count k s)"
proof -
  have "length (fs_pipes s) = MAX_PIPES"
    using assms(1) by (simp add: fd_shape_def pipes_ok_def)
  then show ?thesis
    using assms
    by (cases k; cases k'; simp add: fd_shape_def hook_incref_def pipe_on_desc_incref_def nth_upd_at
        pipe_incref_end_def net_udp6_on_desc_incref_def udp6_sock_incref_def
        net_tcp6_on_desc_incref_def tcp6_get_def tcp6_conn_incref_def tcp_refs_small_def
        split: pipe_end.splits option.splits)
qed

lemma ep_count_hook_decref_same:
  assumes "fd_shape tabs s" and "ep_count k s = Some n" and "0 < n"
  shows "ep_count k (hook_decref k s) = Some (n - 1) \<or> ep_count k (hook_decref k s) = None \<and> n = 1"
proof -
  have "length (fs_pipes s) = MAX_PIPES"
    using assms(1) by (simp add: fd_shape_def pipes_ok_def)
  then show ?thesis
    using assms
    by (cases k) (auto simp: fd_shape_def hook_decref_def pipe_on_desc_decref_def nth_upd_at
        pipe_decref_end_def pipe_maybe_free_def net_udp6_on_desc_decref_def udp6_sock_decref_def
        udp6_sock_reset_def net_tcp6_on_desc_decref_def tcp6_get_def tcp6_conn_decref_def
        split: pipe_end.splits option.splits if_splits)
qed

lemma ep_count_hook_decref_other:
  assumes "fd_shape tabs s" and "k \<noteq> k'"
  shows "ep_count k (hook_decref k' s) = ep_count k s \<or>
    ep_count k (hook_decref k' s) = None \<and> ep_count k s = Some 0"
proof -
  have "length (fs_pipes s) = MAX_PIPES"
    using assms(1) by (simp add: fd_shape_def pipes_ok_def)
  then show ?thesis
    using assms
    by (cases k; cases k') (auto simp: fd_shape_def hook_decref_def pipe_on_desc_decref_def nth_upd_at
        pipe_decref_end_def pipe_maybe_free_def net_udp6_on_desc_decref_def
        net_tcp6_on_desc_decref_def split: pipe_end.splits option.splits if_splits)
qed

subsection \<open>References stay exact\<close>

lemma tcp_refs_small_inv:
  assumes "fd_inv held tabs s" and "\<And>k. is_ep k \<Longrightarrow> end_refs k (fs_descs s) < 0xffff"
  shows "tcp_refs_small s"
proof -
  have "tc_refs (tt_conns (fs_tcp s) ! cid) = end_refs (FDESC_TCP6 cid) (fs_descs s)"
    if "cid < TCP6_MAX_CONNS" and "tc_used (tt_conns (fs_tcp s) ! cid)" for cid
    using assms(1) that unfolding fd_inv_def
    by (auto dest!: spec [of _ "FDESC_TCP6 cid"] split: if_splits)
  then show ?thesis
    using assms(2) by (simp add: tcp_refs_small_def)
qed

text \<open>
  The references of all descriptions together are the table entries plus those in flight, so
  with at most 16 tables of 32 entries no counter comes near its range.
\<close>

definition fd_small :: "(nat \<Rightarrow> nat) \<Rightarrow> fd_table list \<Rightarrow> bool" where
  "fd_small held tabs \<longleftrightarrow> length tabs \<le> 16 \<and> (\<forall>i. held i \<le> 2)"

lemma tab_refs_bound:
  assumes "\<And>t. t \<in> set tabs \<Longrightarrow> length t = MAX_FDS"
  shows "tab_refs tabs i \<le> MAX_FDS * length tabs"
  using assms
proof (induction tabs)
  case Nil
  then show ?case by (simp add: tab_refs_def)
next
  case (Cons t tabs)
  have "count_list t (Some i) \<le> MAX_FDS"
    using Cons.prems [of t] count_le_length [of t "Some i"] by simp
  then show ?case
    using Cons by (simp add: tab_refs_def)
qed

lemma end_refs_bound:
  assumes "fd_inv held tabs s" and "fd_small held tabs"
  shows "end_refs k (fs_descs s) < 0xffff"
proof -
  have len: "length (fs_descs s) = MAX_FILEDESCS"
    and "\<And>t. t \<in> set tabs \<Longrightarrow> length t = MAX_FDS"
    using assms(1) by (auto simp: fd_inv_def fd_shape_def)
  have each: "refs_of_kind k d \<le> 514" if d: "d \<in> set (fs_descs s)" for d
  proof -
    obtain i where i: "i < MAX_FILEDESCS" "d = fs_descs s ! i"
      using d by (auto simp: in_set_conv_nth len)
    have "tab_refs tabs i \<le> MAX_FDS * length tabs"
      using assms(1) by (intro tab_refs_bound) (auto simp: fd_inv_def fd_shape_def)
    moreover have "MAX_FDS * length tabs \<le> 512" and "held i \<le> 2"
      using assms(2) by (simp_all add: fd_small_def MAX_FDS_def)
    ultimately have "fd_refs d \<le> 514"
      using assms(1) i by (simp add: fd_inv_def)
    then show ?thesis by (simp add: refs_of_kind_def)
  qed
  have "end_refs k (fs_descs s) \<le> 514 * length (fs_descs s)"
    unfolding end_refs_def using sum_list_mono [of "fs_descs s" "refs_of_kind k" "\<lambda>_. 514"] each
    by (simp add: sum_list_triv)
  then show ?thesis
    by (simp add: len MAX_FILEDESCS_def)
qed

text \<open>Taking a reference to a live description.\<close>

lemma desc_incref_inv [inv_intros]:
  assumes inv: "fd_inv held tabs s" and small: "fd_small held tabs"
    and i: "i < MAX_FILEDESCS" and live: "fd_refs (fs_descs s ! i) \<noteq> 0"
  shows "fd_inv (held(i := Suc (held i))) tabs (desc_incref i s)"
proof -
  let ?k = "fd_kind (fs_descs s ! i)" and ?inc = desc_bump
  let ?s = "s\<lparr>fs_descs := upd_at i ?inc (fs_descs s)\<rparr>"
  have shape: "fd_shape tabs s" and len: "length (fs_descs s) = MAX_FILEDESCS"
    using inv by (simp_all add: fd_inv_def fd_shape_def)
  have shape': "fd_shape tabs ?s"
    by (rule fd_shape_descs [OF shape]) (simp add: len)
  have s': "desc_incref i s = hook_incref ?k ?s"
    using i live by (simp add: desc_incref_def Let_def)
  have tcp: "tcp_refs_small ?s"
    using tcp_refs_small_inv [OF inv end_refs_bound [OF inv small]] by (simp add: tcp_refs_small_def)
  have ends: "end_refs k (upd_at i ?inc (fs_descs s)) =
      (if k = ?k then Suc (end_refs k (fs_descs s)) else end_refs k (fs_descs s))" for k
    using end_refs_upd_at [of i "fs_descs s" k ?inc] i len by (auto simp: refs_of_kind_def desc_bump_def)
  have "case ep_count k (hook_incref ?k ?s) of
      Some n \<Rightarrow> n = end_refs k (fs_descs (hook_incref ?k ?s))
    | None \<Rightarrow> end_refs k (fs_descs (hook_incref ?k ?s)) = 0" if k: "is_ep k" for k
  proof -
    have "case ep_count k s of Some n \<Rightarrow> n = end_refs k (fs_descs s) | None \<Rightarrow> end_refs k (fs_descs s) = 0"
      using inv k by (simp add: fd_inv_def)
    moreover have "k = ?k \<Longrightarrow> end_refs k (fs_descs s) \<noteq> 0"
      using end_refs_pos [of i "fs_descs s" ?k] i len live by simp
    ultimately show ?thesis
      using ep_count_hook_incref [OF shape' tcp k, of ?k] ends [of k]
      by (auto split: option.splits)
  qed
  moreover have "fd_shape tabs (hook_incref ?k ?s)"
    by (rule hook_shape [OF shape'])
  moreover have "fd_refs (fs_descs (desc_incref i s) ! j) = tab_refs tabs j + (held(i := Suc (held i))) j \<and>
      (fd_refs (fs_descs (desc_incref i s) ! j) = 0 \<longrightarrow>
        fd_kind (fs_descs (desc_incref i s) ! j) = FDESC_UNUSED)" if "j < MAX_FILEDESCS" for j
    using inv that i len by (simp add: s' fd_inv_def nth_upd_at desc_bump_def)
  ultimately show ?thesis
    unfolding fd_inv_def s' by blast
qed

text \<open>Giving up a reference that a system call holds.\<close>

lemma desc_decref_inv [inv_intros]:
  assumes inv: "fd_inv held tabs s" and i: "i < MAX_FILEDESCS" and held: "held i = Suc h"
  shows "fd_inv (held(i := h)) tabs (desc_decref i s)"
proof -
  let ?d = "fs_descs s ! i" and ?k = "fd_kind (fs_descs s ! i)"
  let ?s = "hook_decref ?k s"
  have shape: "fd_shape tabs s" and len: "length (fs_descs s) = MAX_FILEDESCS"
    using inv by (simp_all add: fd_inv_def fd_shape_def)
  have refs: "fd_refs ?d = Suc (tab_refs tabs i + h)"
    using inv i held by (simp add: fd_inv_def)
  have s': "desc_decref i s = ?s\<lparr>fs_descs := upd_at i desc_drop (fs_descs s)\<rparr>"
    using i refs by (simp add: desc_decref_def Let_def)
  have shape': "fd_shape tabs (desc_decref i s)"
    unfolding s' by (rule fd_shape_descs [OF hook_shape(2) [OF shape]]) (simp add: len)
  have ends: "end_refs k (upd_at i desc_drop (fs_descs s)) =
      (if k = ?k then end_refs k (fs_descs s) - 1 else end_refs k (fs_descs s))"
    if "is_ep k" for k
    using end_refs_upd_at [of i "fs_descs s" k desc_drop] i len refs that
    by (cases "tab_refs tabs i + h = 0"; cases "k = ?k")
       (auto simp: refs_of_kind_def desc_drop_def desc_cleared_def split: if_splits)
  have pos: "end_refs ?k (fs_descs s) \<noteq> 0"
    using end_refs_pos [of i "fs_descs s" ?k] i len refs by simp
  have "case ep_count k (desc_decref i s) of
      Some n \<Rightarrow> n = end_refs k (fs_descs (desc_decref i s))
    | None \<Rightarrow> end_refs k (fs_descs (desc_decref i s)) = 0" if k: "is_ep k" for k
  proof -
    have *: "case ep_count k s of Some n \<Rightarrow> n = end_refs k (fs_descs s) | None \<Rightarrow> end_refs k (fs_descs s) = 0"
      using inv k by (simp add: fd_inv_def)
    show ?thesis
    proof (cases "k = ?k")
      case True
      then have "ep_count k s = Some (end_refs k (fs_descs s))"
        using * pos by (auto split: option.splits)
      then show ?thesis
        using ep_count_hook_decref_same [OF shape, of ?k] True pos ends [OF k]
        by (auto simp: s' split: option.splits)
    next
      case False
      then show ?thesis
        using ep_count_hook_decref_other [OF shape False] * ends [OF k]
        by (auto simp: s' split: option.splits)
    qed
  qed
  moreover have "fd_refs (fs_descs (desc_decref i s) ! j) = tab_refs tabs j + (held(i := h)) j \<and>
      (fd_refs (fs_descs (desc_decref i s) ! j) = 0 \<longrightarrow>
        fd_kind (fs_descs (desc_decref i s) ! j) = FDESC_UNUSED)" if "j < MAX_FILEDESCS" for j
    using inv that refs len i
    by (auto simp: s' fd_inv_def nth_upd_at desc_drop_def desc_cleared_def)
  ultimately show ?thesis
    using shape' by (simp add: fd_inv_def)
qed

text \<open>
  A reference in flight and a table entry are interchangeable: storing an index in a free entry
  hands the reference over, clearing the entry takes it back.
\<close>

lemma fd_inv_cong:
  assumes "fd_inv held tabs s" and "fd_shape tabs' s"
    and "\<And>i. i < MAX_FILEDESCS \<Longrightarrow> tab_refs tabs' i + held' i = tab_refs tabs i + held i"
  shows "fd_inv held' tabs' s"
  using assms unfolding fd_inv_def by simp

lemma fd_shape_store:
  assumes "fd_shape tabs s" and "k < length tabs" and "case x of Some i \<Rightarrow> i < MAX_FILEDESCS | None \<Rightarrow> True"
  shows "fd_shape (tabs[k := (tabs ! k)[j := x]]) s"
proof -
  have "length t = MAX_FDS \<and> (\<forall>i. Some i \<in> set t \<longrightarrow> i < MAX_FILEDESCS)"
    if t: "t \<in> set (tabs[k := (tabs ! k)[j := x]])" for t
  proof -
    have old: "length t = MAX_FDS \<and> (\<forall>i. Some i \<in> set t \<longrightarrow> i < MAX_FILEDESCS)" if "t \<in> set tabs" for t
      using assms(1) that by (simp add: fd_shape_def)
    from t have "t = (tabs ! k)[j := x] \<or> t \<in> set tabs"
      using set_update_subset_insert [of tabs k "(tabs ! k)[j := x]"] by auto
    then show ?thesis
    proof
      assume t: "t = (tabs ! k)[j := x]"
      have "set t \<subseteq> insert x (set (tabs ! k))"
        unfolding t by (rule set_update_subset_insert)
      then show ?thesis
        using old [of "tabs ! k"] assms(2,3) t by (auto split: option.splits)
    qed (rule old)
  qed
  then show ?thesis
    using assms(1) by (simp add: fd_shape_def)
qed

lemma fd_inv_store:
  assumes "fd_inv held tabs s" and "k < length tabs" and "j < MAX_FDS" and "tabs ! k ! j = None"
    and "i < MAX_FILEDESCS" and "held i = Suc h"
  shows "fd_inv (held(i := h)) (tabs[k := (tabs ! k)[j := Some i]]) s"
proof -
  have "length (tabs ! k) = MAX_FDS" and shape: "fd_shape tabs s"
    using assms(1,2) by (simp_all add: fd_inv_def fd_shape_def)
  then show ?thesis
    using tab_refs_store [of k tabs j i] assms
    by (intro fd_inv_cong [OF assms(1)] fd_shape_store) auto
qed

lemma fd_inv_clear:
  assumes "fd_inv held tabs s" and "k < length tabs" and "j < MAX_FDS" and "tabs ! k ! j = Some i"
  shows "fd_inv (held(i := Suc (held i))) (tabs[k := (tabs ! k)[j := None]]) s"
proof -
  have "length (tabs ! k) = MAX_FDS" and shape: "fd_shape tabs s"
    using assms(1,2) by (simp_all add: fd_inv_def fd_shape_def)
  then have "tab_refs (tabs[k := (tabs ! k)[j := None]]) i' + (held(i := Suc (held i))) i' =
      tab_refs tabs i' + held i'" for i'
    using tab_refs_clear [OF assms(2) _ assms(4), of i'] assms(3) by auto
  then show ?thesis
    using shape assms(2) by (intro fd_inv_cong [OF assms(1)] fd_shape_store) auto
qed

lemma fd_entry_lt:
  assumes "fd_inv held tabs s" and "k < length tabs" and "j < MAX_FDS" and "tabs ! k ! j = Some i"
  shows "i < MAX_FILEDESCS"
proof -
  have "tabs ! k \<in> set tabs" and "length (tabs ! k) = MAX_FDS"
    using assms(1,2) by (simp_all add: fd_inv_def fd_shape_def)
  then have "Some i \<in> set (tabs ! k)"
    using assms(3,4) by (metis nth_mem)
  then show ?thesis
    using assms(1,2) by (auto simp: fd_inv_def fd_shape_def)
qed

lemma fd_entry_live:
  assumes "fd_inv held tabs s" and "k < length tabs" and "j < MAX_FDS" and "tabs ! k ! j = Some i"
  shows "fd_refs (fs_descs s ! i) \<noteq> 0"
  using assms fd_entry_lt [OF assms] tab_refs_entry [of k tabs j i]
  by (simp add: fd_inv_def fd_shape_def)

lemma fd_inv_length: "fd_inv held tabs s \<Longrightarrow> k < length tabs \<Longrightarrow> length (tabs ! k) = MAX_FDS"
  by (simp add: fd_inv_def fd_shape_def)

lemma held_live: "fd_inv held tabs s \<Longrightarrow> i < MAX_FILEDESCS \<Longrightarrow> 0 < held i \<Longrightarrow> fd_refs (fs_descs s ! i) \<noteq> 0"
  by (simp add: fd_inv_def)

text \<open>\<open>fd_alloc_into\<close>: the least free number from \<open>min_fd\<close> on, with one more reference.\<close>

lemma fd_alloc_into_Some:
  assumes "fd_alloc_into t m i s = (Some fd, t', s')"
  shows "m \<le> fd \<and> fd < length t \<and> t ! fd = None \<and> (\<forall>j. m \<le> j \<and> j < fd \<longrightarrow> t ! j \<noteq> None) \<and>
    t' = t[fd := Some i] \<and> s' = desc_incref i s"
proof -
  obtain k where k: "find_slot (\<lambda>e. e = None) (drop m t) = Some k" and fd: "fd = m + k"
      and *: "t' = t[fd := Some i]" "s' = desc_incref i s"
    using assms by (auto simp: fd_alloc_into_def split: option.splits)
  have "t ! j \<noteq> None" if "m \<le> j" "j < fd" for j
    using find_slot_Some [OF k] that fd by (auto dest!: spec [of _ "j - m"])
  then show ?thesis
    using find_slot_Some [OF k] fd * by auto
qed

lemma fd_alloc_into_None:
  "fd_alloc_into t m i s = (None, t', s') \<Longrightarrow> t' = t \<and> s' = s \<and> (\<forall>j. m \<le> j \<and> j < length t \<longrightarrow> t ! j \<noteq> None)"
proof -
  assume a: "fd_alloc_into t m i s = (None, t', s')"
  then have "find_slot (\<lambda>e. e = None) (drop m t) = None" and "t' = t \<and> s' = s"
    by (auto simp: fd_alloc_into_def split: option.splits)
  moreover have "t ! j \<in> set (drop m t)" if "m \<le> j" "j < length t" for j
    using that nth_mem [of "j - m" "drop m t"] by simp
  ultimately show ?thesis
    unfolding find_slot_None by metis
qed

lemma fd_alloc_into_inv [inv_intros]:
  assumes inv: "fd_inv held tabs s" and small: "fd_small held tabs"
    and i: "i < MAX_FILEDESCS" and live: "fd_refs (fs_descs s ! i) \<noteq> 0" and k: "k < length tabs"
    and r: "fd_alloc_into (tabs ! k) m i s = (r, t', s')"
  shows "fd_inv held (tabs[k := t']) s'"
proof (cases r)
  case None
  then show ?thesis
    using fd_alloc_into_None [of "tabs ! k" m i s t' s'] inv r by simp
next
  case (Some fd)
  note * = fd_alloc_into_Some [of "tabs ! k" m i s fd t' s', folded Some, OF r]
  have "fd_inv (held(i := Suc (held i))) tabs s'"
    using desc_incref_inv [OF inv small i live] * by simp
  from fd_inv_store [OF this k _ _ i, of fd "held i"]
  show ?thesis
    using * fd_inv_length [OF inv k] by simp
qed

lemma fd_close_inv [inv_intros]:
  assumes inv: "fd_inv held tabs s" and k: "k < length tabs" and r: "fd_close (tabs ! k) fd s = (t', s')"
  shows "fd_inv held (tabs[k := t']) s'"
proof (cases "unat fd < MAX_FDS")
  case False
  then show ?thesis
    using r inv by (auto simp: fd_close_def)
next
  case fd: True
  show ?thesis
  proof (cases "tabs ! k ! unat fd")
    case None
    then show ?thesis
      using r inv fd by (auto simp: fd_close_def)
  next
    case (Some i)
    have i: "i < MAX_FILEDESCS"
      using fd_entry_lt [OF inv k fd Some] .
    have "fd_inv held (tabs[k := (tabs ! k)[unat fd := None]]) (desc_decref i s)"
      using desc_decref_inv [OF fd_inv_clear [OF inv k fd Some] i, of "held i"] by simp
    then show ?thesis
      using r fd Some by (simp add: fd_close_def)
  qed
qed

lemma fd_close_entry:
  "fd_close t fd s = (t', s') \<Longrightarrow> length t = MAX_FDS \<Longrightarrow>
   length t' = MAX_FDS \<and> (\<forall>j < MAX_FDS. t' ! j = (if j = unat fd then None else t ! j))"
  by (auto simp: fd_close_def nth_list_update split: if_splits option.splits)

lemma close_fold_inv:
  assumes "fd_inv held tabs s" and "k < length tabs" and "n \<le> MAX_FDS"
    and "fold (\<lambda>fd (t, s). fd_close t (word_of_nat fd) s) [0..<n] (tabs ! k, s) = (t', s')"
  shows "fd_inv held (tabs[k := t']) s' \<and> length t' = MAX_FDS \<and> (\<forall>j < n. t' ! j = None)"
  using assms(3,4)
proof (induction n arbitrary: t' s')
  case 0
  then show ?case using assms(1,2) fd_inv_length [OF assms(1,2)] by auto
next
  case (Suc n)
  obtain t1 s1 where 1: "fold (\<lambda>fd (t, s). fd_close t (word_of_nat fd) s) [0..<n] (tabs ! k, s) = (t1, s1)"
    by fastforce
  then have 2: "fd_close t1 (word_of_nat n) s1 = (t', s')"
    using Suc.prems(2) by simp
  have IH: "fd_inv held (tabs[k := t1]) s1" "length t1 = MAX_FDS" "\<forall>j < n. t1 ! j = None"
    using Suc.IH [OF _ 1] Suc.prems(1) by auto
  have "unat (word_of_nat n :: u64) = n"
    using Suc.prems(1) by (simp add: MAX_FDS_def)
  then show ?case
    using fd_close_inv [OF IH(1), of k "word_of_nat n" t' s'] fd_close_entry [OF 2 IH(2)] 2 IH assms(2) Suc.prems(1)
    by (auto simp: less_Suc_eq)
qed

lemma close_all_fds_inv [inv_intros]:
  assumes "fd_inv held tabs s" and "k < length tabs" and "close_all_fds (tabs ! k) s = (t', s')"
  shows "fd_inv held (tabs[k := t']) s' \<and> t' = replicate MAX_FDS None"
  using close_fold_inv [OF assms(1,2) order.refl, of t' s'] assms(3)
  by (auto simp: close_all_fds_def intro!: nth_equalityI)

subsection \<open>Opening\<close>

text \<open>
  Giving a free slot its kind: the reference goes to the system call that opens the description.
  \<open>s0\<close> is the state before the object behind it was created.
\<close>

lemma fd_inv_new_desc:
  assumes inv: "fd_inv held tabs s0" and i: "i < MAX_FILEDESCS" and free: "fd_refs (fs_descs s0 ! i) = 0"
    and shape: "fd_shape tabs s"
    and descs: "fs_descs s = upd_at i (\<lambda>_. \<lparr>fd_kind = k, fd_refs = 1\<rparr>) (fs_descs s0)"
    and ep: "\<And>k'. is_ep k' \<Longrightarrow> ep_count k' s =
      (if k' = k then Some (case ep_count k' s0 of None \<Rightarrow> 1 | Some n \<Rightarrow> Suc n) else ep_count k' s0)"
  shows "fd_inv (held(i := Suc (held i))) tabs s"
proof -
  have len: "length (fs_descs s0) = MAX_FILEDESCS"
    using inv by (simp add: fd_inv_def fd_shape_def)
  have ends: "end_refs k' (fs_descs s) = (if k' = k then Suc (end_refs k' (fs_descs s0)) else end_refs k' (fs_descs s0))"
    for k'
  proof -
    have "refs_of_kind k' (fs_descs s0 ! i) = 0" using free by (simp add: refs_of_kind_def)
    then show ?thesis
      using end_refs_upd_at [of i "fs_descs s0" k' "\<lambda>_. \<lparr>fd_kind = k, fd_refs = 1\<rparr>"] i len
      by (simp add: descs refs_of_kind_def)
  qed
  have "case ep_count k' s of Some n \<Rightarrow> n = end_refs k' (fs_descs s) | None \<Rightarrow> end_refs k' (fs_descs s) = 0"
    if k': "is_ep k'" for k'
  proof -
    have "case ep_count k' s0 of Some n \<Rightarrow> n = end_refs k' (fs_descs s0) | None \<Rightarrow> end_refs k' (fs_descs s0) = 0"
      using inv k' by (simp add: fd_inv_def)
    then show ?thesis
      using ep [OF k'] ends [of k'] by (auto split: option.splits)
  qed
  moreover have "fd_refs (fs_descs s ! j) = tab_refs tabs j + (held(i := Suc (held i))) j \<and>
      (fd_refs (fs_descs s ! j) = 0 \<longrightarrow> fd_kind (fs_descs s ! j) = FDESC_UNUSED)" if "j < MAX_FILEDESCS" for j
    using inv that free len i by (auto simp: fd_inv_def descs nth_upd_at)
  ultimately show ?thesis
    using shape by (simp add: fd_inv_def)
qed

text \<open>A description without an object behind it (console, file, \<open>/proc\<close> node).\<close>

lemma fd_inv_new_plain:
  assumes "fd_inv held tabs s" and "i < MAX_FILEDESCS" and "fd_refs (fs_descs s ! i) = 0" and "\<not> is_ep k"
  shows "fd_inv (held(i := Suc (held i))) tabs
    (s\<lparr>fs_descs := upd_at i (\<lambda>_. \<lparr>fd_kind = k, fd_refs = 1\<rparr>) (fs_descs s)\<rparr>)"
proof (rule fd_inv_new_desc [OF assms(1-3), where k = k])
  show "fd_shape tabs (s\<lparr>fs_descs := upd_at i (\<lambda>_. \<lparr>fd_kind = k, fd_refs = 1\<rparr>) (fs_descs s)\<rparr>)"
    using assms(1) by (intro fd_shape_descs) (simp_all add: fd_inv_def fd_shape_def)
qed (use assms(4) in auto)

lemma desc_alloc_Some:
  assumes "desc_alloc s = (Some i, s')" and "length (fs_descs s) = MAX_FILEDESCS"
  shows "i < MAX_FILEDESCS \<and> fd_refs (fs_descs s ! i) = 0 \<and>
    s' = s\<lparr>fs_descs := upd_at i (\<lambda>_. \<lparr>fd_kind = FDESC_UNUSED, fd_refs = 1\<rparr>) (fs_descs s)\<rparr>"
  using assms find_slot_Some [of "\<lambda>d. fd_refs d = 0" "fs_descs s" i]
  by (auto simp: desc_alloc_def desc_cleared_def split: option.splits)

lemma desc_alloc_None: "desc_alloc s = (None, s') \<Longrightarrow> s' = s"
  by (auto simp: desc_alloc_def split: option.splits)

text \<open>What every opener does with a reserved slot: clear it, give it its kind, one reference.\<close>

lemma desc_setup_alloc:
  assumes "desc_alloc s = (Some i, s')" and "length (fs_descs s) = MAX_FILEDESCS"
  shows "desc_setup i k s' = s\<lparr>fs_descs := upd_at i (\<lambda>_. \<lparr>fd_kind = k, fd_refs = 1\<rparr>) (fs_descs s)\<rparr>"
  using desc_alloc_Some [OF assms] by (simp add: desc_setup_def comp_def)

lemma fd_open_inv [inv_intros]:
  assumes "fd_inv held tabs s" and "desc_alloc s = (Some i, s')" and "\<not> is_ep k"
  shows "fd_inv (held(i := Suc (held i))) tabs (desc_setup i k s') \<and> i < MAX_FILEDESCS \<and> held i = 0"
proof -
  have len: "length (fs_descs s) = MAX_FILEDESCS"
    using assms(1) by (simp add: fd_inv_def fd_shape_def)
  note a = desc_alloc_Some [OF assms(2) len]
  then have "held i = 0" using assms(1) unfolding fd_inv_def by (metis add_is_0)
  then show ?thesis
    using fd_inv_new_plain [OF assms(1) _ _ assms(3), of i] a desc_setup_alloc [OF assms(2) len] by metis
qed

text \<open>Rewriting the kind of a live description in place (its offset), with the same object.\<close>

lemma fd_inv_rekind:
  assumes inv: "fd_inv held tabs s" and i: "i < MAX_FILEDESCS" and live: "fd_refs (fs_descs s ! i) \<noteq> 0"
    and "\<not> is_ep (fd_kind (fs_descs s ! i))" and "\<not> is_ep k"
  shows "fd_inv held tabs (s\<lparr>fs_descs := upd_at i (\<lambda>d. d\<lparr>fd_kind := k\<rparr>) (fs_descs s)\<rparr>)"
proof -
  have len: "length (fs_descs s) = MAX_FILEDESCS"
    using inv by (simp add: fd_inv_def fd_shape_def)
  have "end_refs k' (upd_at i (\<lambda>d. d\<lparr>fd_kind := k\<rparr>) (fs_descs s)) = end_refs k' (fs_descs s)" if "is_ep k'" for k'
    using end_refs_upd_at [of i "fs_descs s" k' "\<lambda>d. d\<lparr>fd_kind := k\<rparr>"] i len assms(4,5) that
    by (auto simp: refs_of_kind_def split: if_splits)
  moreover have "fd_shape tabs (s\<lparr>fs_descs := upd_at i (\<lambda>d. d\<lparr>fd_kind := k\<rparr>) (fs_descs s)\<rparr>)"
    using inv by (intro fd_shape_descs) (simp_all add: fd_inv_def fd_shape_def)
  moreover have "fd_refs (upd_at i (\<lambda>d. d\<lparr>fd_kind := k\<rparr>) (fs_descs s) ! j) = tab_refs tabs j + held j \<and>
      (fd_refs (upd_at i (\<lambda>d. d\<lparr>fd_kind := k\<rparr>) (fs_descs s) ! j) = 0 \<longrightarrow>
       fd_kind (upd_at i (\<lambda>d. d\<lparr>fd_kind := k\<rparr>) (fs_descs s) ! j) = FDESC_UNUSED)"
    if j: "j < MAX_FILEDESCS" for j
  proof -
    have "fd_refs (fs_descs s ! j) = tab_refs tabs j + held j \<and>
        (fd_refs (fs_descs s ! j) = 0 \<longrightarrow> fd_kind (fs_descs s ! j) = FDESC_UNUSED)"
      using inv j unfolding fd_inv_def by blast
    then show ?thesis using j len live by (cases "j = i") (auto simp: nth_upd_at)
  qed
  moreover have "case ep_count k' s of Some n \<Rightarrow> n = end_refs k' (fs_descs s) | None \<Rightarrow> end_refs k' (fs_descs s) = 0"
    if "is_ep k'" for k'
    using inv that unfolding fd_inv_def by blast
  ultimately show ?thesis
    unfolding fd_inv_def by (simp cong: option.case_cong)
qed

end
