(* ===== verification/Pmm.thy ===== *)
theory Pmm
  imports Prelude
begin

text \<open>
  \<open>kernel-aarch64/pmm.c\<close>: the physical page allocator, one bit per 4 KiB page of a RAM range,
  with single pages and blocks of 512 pages (2 MiB) handed out from the same bitmap. Page
  indices and the two page counters are naturals (at most \<open>PMM_MAX_PAGES\<close>, so no 64-bit wrap);
  addresses are 64-bit words. The log lines \<open>pmm_init\<close> writes are left out.

  The locale \<open>page_allocator\<close> states what the kernel relies on when it allocates page tables and
  address spaces: blocks in use never overlap. It is interpreted on the bitmap.
\<close>

definition PMM_PAGE_SIZE :: u64 where
  "PMM_PAGE_SIZE = 4096"

definition PMM_MAX_PAGES :: nat where
  "PMM_MAX_PAGES = 262144"

definition PMM_BITMAP_BYTES :: nat where
  "PMM_BITMAP_BYTES = PMM_MAX_PAGES div 8"

definition USER_REGION_BASE :: u64 where
  "USER_REGION_BASE = 0x00400000"

definition USER_REGION_SIZE :: u64 where
  "USER_REGION_SIZE = 0x00200000"

record pmm =
  pm_bitmap :: "u8 list"
  pm_base :: u64
  pm_size :: u64
  pm_total :: nat
  pm_free :: nat

subsection \<open>The bitmap\<close>

definition bit_set :: "nat \<Rightarrow> u8 list \<Rightarrow> u8 list" where
  "bit_set idx bm = upd_at (idx div 8) (\<lambda>b. b OR push_bit (idx mod 8) 1) bm"

definition bit_clear :: "nat \<Rightarrow> u8 list \<Rightarrow> u8 list" where
  "bit_clear idx bm = upd_at (idx div 8) (\<lambda>b. b AND NOT (push_bit (idx mod 8) 1)) bm"

definition bit_test :: "nat \<Rightarrow> u8 list \<Rightarrow> bool" where
  "bit_test idx bm \<longleftrightarrow> drop_bit (idx mod 8) (bm ! (idx div 8)) AND 1 \<noteq> 0"

definition bitmap_fill :: "u8 \<Rightarrow> nat \<Rightarrow> u8 list \<Rightarrow> u8 list" where
  "bitmap_fill v total_pages bm =
     (let bytes = min ((total_pages + 7) div 8) PMM_BITMAP_BYTES
      in replicate bytes v @ drop bytes bm)"

definition bitmap_clear_all :: "nat \<Rightarrow> u8 list \<Rightarrow> u8 list" where
  "bitmap_clear_all total_pages bm = bitmap_fill 0 total_pages bm"

definition bitmap_set_all :: "nat \<Rightarrow> u8 list \<Rightarrow> u8 list" where
  "bitmap_set_all total_pages bm = bitmap_fill 0xFF total_pages bm"

subsection \<open>Reserving ranges\<close>

definition reserve_page :: "nat \<Rightarrow> pmm \<Rightarrow> pmm" where
  "reserve_page idx p =
     (if bit_test idx (pm_bitmap p) then p
      else p\<lparr>pm_bitmap := bit_set idx (pm_bitmap p),
             pm_free := (if 0 < pm_free p then pm_free p - 1 else pm_free p)\<rparr>)"

text \<open>The loop of \<open>reserve_range\<close>: \<open>n\<close> iterations are left, \<open>pa\<close> is the next page.\<close>

fun reserve_loop :: "nat \<Rightarrow> u64 \<Rightarrow> pmm \<Rightarrow> pmm" where
  "reserve_loop 0 pa p = p"
| "reserve_loop (Suc n) pa p =
     (let idx = unat ((pa - pm_base p) div PMM_PAGE_SIZE)
      in if pm_total p \<le> idx then p
         else reserve_loop n (pa + PMM_PAGE_SIZE) (reserve_page idx p))"

definition reserve_range :: "u64 \<Rightarrow> u64 \<Rightarrow> pmm \<Rightarrow> pmm" where
  "reserve_range start end p =
     (if end \<le> start then p
      else
        let base = pm_base p; limit = pm_base p + pm_size p;
            start = (if start < base then base else start);
            end = (if limit < end then limit else end)
        in if end \<le> start then p
           else
             let s = align_down_u64 start PMM_PAGE_SIZE; e = align_up_u64 end PMM_PAGE_SIZE
             in reserve_loop ((unat e - unat s + 4095) div 4096) s p)"

definition pmm_reserve_range :: "u64 \<Rightarrow> u64 \<Rightarrow> pmm \<Rightarrow> pmm" where
  "pmm_reserve_range start end p = (if pm_total p = 0 then p else reserve_range start end p)"

definition pmm_unusable :: "pmm \<Rightarrow> pmm" where
  "pmm_unusable p =
     \<lparr>pm_bitmap = bitmap_set_all PMM_MAX_PAGES (pm_bitmap p), pm_base = 0, pm_size = 0,
      pm_total = 0, pm_free = 0\<rparr>"

definition pmm_init :: "u64 \<Rightarrow> u64 \<Rightarrow> u64 \<Rightarrow> u64 \<Rightarrow> u64 \<Rightarrow> pmm \<Rightarrow> pmm" where
  "pmm_init mem_base mem_size kernel_start kernel_end dtb_ptr p =
     (if mem_size < PMM_PAGE_SIZE * 16 then pmm_unusable p
      else
        let base = align_up_u64 mem_base PMM_PAGE_SIZE;
            end = align_down_u64 (mem_base + mem_size) PMM_PAGE_SIZE
        in if end \<le> base then pmm_unusable p
           else
             let pages = unat ((end - base) div PMM_PAGE_SIZE);
                 total = min pages PMM_MAX_PAGES;
                 end = (if PMM_MAX_PAGES < pages then base + word_of_nat total * PMM_PAGE_SIZE else end);
                 p = \<lparr>pm_bitmap = bitmap_clear_all total (pm_bitmap p), pm_base = base,
                      pm_size = end - base, pm_total = total, pm_free = total\<rparr>;
                 p = reserve_range base (base + 0x200000) p;
                 p = reserve_range kernel_start kernel_end p;
                 p = (if dtb_ptr \<noteq> 0 then reserve_range dtb_ptr (dtb_ptr + 0x10000) p else p)
             in reserve_range USER_REGION_BASE (USER_REGION_BASE + USER_REGION_SIZE) p)"

subsection \<open>Allocation\<close>

definition page_addr :: "pmm \<Rightarrow> nat \<Rightarrow> u64" where
  "page_addr p idx = pm_base p + word_of_nat idx * PMM_PAGE_SIZE"

definition pmm_alloc_page :: "pmm \<Rightarrow> u64 \<times> pmm" where
  "pmm_alloc_page p =
     (if pm_free p = 0 \<or> pm_total p = 0 then (0, p)
      else case find_slot (\<lambda>idx. \<not> bit_test idx (pm_bitmap p)) [0..<pm_total p] of
        None \<Rightarrow> (0, p)
      | Some idx \<Rightarrow>
          (page_addr p idx,
           p\<lparr>pm_bitmap := bit_set idx (pm_bitmap p), pm_free := pm_free p - 1\<rparr>))"

text \<open>The index of \<open>pmm_free_page\<close>'s page, when it passes every check.\<close>

definition page_index :: "u64 \<Rightarrow> pmm \<Rightarrow> nat option" where
  "page_index pa p =
     (if pm_total p = 0 then None
      else if pa < pm_base p \<or> pm_base p + pm_size p \<le> pa then None
      else if pa AND (PMM_PAGE_SIZE - 1) \<noteq> 0 then None
      else let idx = unat ((pa - pm_base p) div PMM_PAGE_SIZE)
        in if pm_total p \<le> idx then None else Some idx)"

definition pmm_free_page :: "u64 \<Rightarrow> pmm \<Rightarrow> pmm" where
  "pmm_free_page pa p =
     (case page_index pa p of
        None \<Rightarrow> p
      | Some idx \<Rightarrow>
          if bit_test idx (pm_bitmap p)
          then p\<lparr>pm_bitmap := bit_clear idx (pm_bitmap p), pm_free := pm_free p + 1\<rparr>
          else p)"

definition block_free :: "nat \<Rightarrow> pmm \<Rightarrow> bool" where
  "block_free start p \<longleftrightarrow> list_all (\<lambda>i. \<not> bit_test (start + i) (pm_bitmap p)) [0..<512]"

text \<open>
  The search loop of \<open>pmm_alloc_2mib_aligned\<close>. Its candidate index starts at 0 and moves on by
  512, so the rounding up to a multiple of 512 at the top of the loop is written as in the code.
\<close>

function find_block :: "nat \<Rightarrow> pmm \<Rightarrow> nat option" where
  "find_block start p =
     (if pm_total p < start + 512 then None
      else
        let aligned = (start + 511) div 512 * 512
        in if pm_total p < aligned + 512 then None
           else if block_free aligned p then Some aligned
           else find_block (aligned + 512) p)"
  by pat_completeness auto
termination
  by (relation "measure (\<lambda>(start, p). Suc (pm_total p) - start)") auto

declare find_block.simps [simp del]

definition pmm_alloc_2mib_aligned :: "pmm \<Rightarrow> u64 \<times> pmm" where
  "pmm_alloc_2mib_aligned p =
     (if pm_free p < 512 \<or> pm_total p = 0 then (0, p)
      else case find_block 0 p of
        None \<Rightarrow> (0, p)
      | Some start \<Rightarrow>
          (page_addr p start,
           p\<lparr>pm_bitmap := fold (\<lambda>i. bit_set (start + i)) [0..<512] (pm_bitmap p),
             pm_free := pm_free p - 512\<rparr>))"

definition pmm_free_2mib_aligned :: "u64 \<Rightarrow> pmm \<Rightarrow> pmm" where
  "pmm_free_2mib_aligned pa p =
     (if pa = 0 then p
      else if pa AND 0x1FFFFF \<noteq> 0 then p
      else fold (\<lambda>i. pmm_free_page (pa + word_of_nat i * PMM_PAGE_SIZE)) [0..<512] p)"

subsection \<open>Reading the bitmap\<close>

lemma bit_test_bit: "bit_test idx bm \<longleftrightarrow> bit (bm ! (idx div 8)) (idx mod 8)"
  by (simp add: bit_test_def and_one_eq bit_iff_odd_drop_bit odd_iff_mod_2_eq_one mod2_eq_if)

lemma div_mod_8_eq: "i div 8 = j div 8 \<Longrightarrow> i mod 8 = j mod 8 \<Longrightarrow> i = (j :: nat)"
  by (metis div_mult_mod_eq)

lemma bit_test_set [table_simps]:
  assumes "i div 8 < length bm"
  shows "bit_test i (bit_set j bm) \<longleftrightarrow> i = j \<or> bit_test i bm"
  using assms div_mod_8_eq [of i j]
  by (auto simp: bit_test_bit bit_set_def nth_upd_at bit_simps)

lemma bit_test_clear [table_simps]:
  assumes "i div 8 < length bm"
  shows "bit_test i (bit_clear j bm) \<longleftrightarrow> i \<noteq> j \<and> bit_test i bm"
  using assms div_mod_8_eq [of i j]
  by (auto simp: bit_test_bit bit_clear_def nth_upd_at bit_simps)

lemma length_bit_set [simp]: "length (bit_set i bm) = length bm"
  by (simp add: bit_set_def)

lemma length_bit_clear [simp]: "length (bit_clear i bm) = length bm"
  by (simp add: bit_clear_def)

lemma length_bitmap_fill: "length bm = PMM_BITMAP_BYTES \<Longrightarrow> length (bitmap_fill v n bm) = PMM_BITMAP_BYTES"
  by (simp add: bitmap_fill_def Let_def)

lemma bit_test_cleared:
  assumes "i < n" and "n \<le> PMM_MAX_PAGES"
  shows "\<not> bit_test i (bitmap_clear_all n bm)"
proof -
  have "i div 8 < min ((n + 7) div 8) PMM_BITMAP_BYTES"
    using assms by (auto simp: PMM_BITMAP_BYTES_def PMM_MAX_PAGES_def)
  then show ?thesis
    by (simp add: bit_test_bit bitmap_clear_all_def bitmap_fill_def Let_def nth_append)
qed

subsection \<open>The invariant\<close>

definition free_pages :: "pmm \<Rightarrow> nat set" where
  "free_pages p = {idx. idx < pm_total p \<and> \<not> bit_test idx (pm_bitmap p)}"

definition pmm_ok :: "pmm \<Rightarrow> bool" where
  "pmm_ok p \<longleftrightarrow> length (pm_bitmap p) = PMM_BITMAP_BYTES \<and> pm_total p \<le> PMM_MAX_PAGES \<and>
     pm_free p = card (free_pages p) \<and> unat (pm_base p) mod 4096 = 0 \<and>
     unat (pm_size p) = pm_total p * 4096 \<and> unat (pm_base p) + pm_total p * 4096 < 2 ^ 64"

text \<open>What an operation never changes: the range the allocator manages.\<close>

definition same_range :: "pmm \<Rightarrow> pmm \<Rightarrow> bool" where
  "same_range p q \<longleftrightarrow> pm_base q = pm_base p \<and> pm_size q = pm_size p \<and> pm_total q = pm_total p"

lemma same_range_refl [simp]: "same_range p p"
  by (simp add: same_range_def)

lemma same_range_trans: "same_range p q \<Longrightarrow> same_range q r \<Longrightarrow> same_range p r"
  by (simp add: same_range_def)

lemma finite_free_pages [simp]: "finite (free_pages p)"
  by (simp add: free_pages_def)

lemma free_pages_lt: "i \<in> free_pages p \<Longrightarrow> i < pm_total p"
  by (simp add: free_pages_def)

lemma bitmap_index: "pmm_ok p \<Longrightarrow> i < pm_total p \<Longrightarrow> i div 8 < length (pm_bitmap p)"
  by (auto simp: pmm_ok_def PMM_BITMAP_BYTES_def PMM_MAX_PAGES_def)

lemma free_pages_set:
  "pmm_ok p \<Longrightarrow> free_pages (p\<lparr>pm_bitmap := bit_set j (pm_bitmap p), pm_free := n\<rparr>) = free_pages p - {j}"
  by (auto simp: free_pages_def bit_test_set bitmap_index)

lemma free_pages_clear:
  "pmm_ok p \<Longrightarrow> j < pm_total p \<Longrightarrow>
   free_pages (p\<lparr>pm_bitmap := bit_clear j (pm_bitmap p), pm_free := n\<rparr>) = insert j (free_pages p)"
  by (auto simp: free_pages_def bit_test_clear bitmap_index)

lemma pmm_ok_set:
  assumes "pmm_ok p" and "j \<in> free_pages p"
  shows "pmm_ok (p\<lparr>pm_bitmap := bit_set j (pm_bitmap p), pm_free := pm_free p - 1\<rparr>)"
  using assms free_pages_set [OF assms(1), where j = j and n = "pm_free p - 1"] by (simp add: pmm_ok_def)

lemma pmm_ok_clear:
  assumes "pmm_ok p" and "j < pm_total p" and "j \<notin> free_pages p"
  shows "pmm_ok (p\<lparr>pm_bitmap := bit_clear j (pm_bitmap p), pm_free := pm_free p + 1\<rparr>)"
  using assms free_pages_clear [OF assms(1,2), where n = "pm_free p + 1"] by (simp add: pmm_ok_def)

subsection \<open>Addresses\<close>

lemma unat_page_addr:
  assumes "pmm_ok p" and "i \<le> pm_total p"
  shows "unat (page_addr p i) = unat (pm_base p) + i * 4096"
proof -
  have i: "i < 2 ^ 64" "i * 4096 < 2 ^ 64" and sum: "unat (pm_base p) + i * 4096 < 2 ^ 64"
    using assms by (auto simp: pmm_ok_def PMM_MAX_PAGES_def)
  have "unat (word_of_nat i * PMM_PAGE_SIZE :: u64) = i * 4096"
    using i by (simp add: PMM_PAGE_SIZE_def unat_word_ariths)
  then show ?thesis
    using sum by (simp add: page_addr_def unat_word_ariths)
qed

lemma page_addr_inj:
  "pmm_ok p \<Longrightarrow> i \<le> pm_total p \<Longrightarrow> j \<le> pm_total p \<Longrightarrow> page_addr p i = page_addr p j \<longleftrightarrow> i = j"
  using unat_page_addr [of p i] unat_page_addr [of p j] arg_cong [of "page_addr p i" "page_addr p j" unat]
  by (metis add_left_cancel mult_right_cancel zero_neq_numeral)

lemma page_addr_same_range: "same_range p q \<Longrightarrow> page_addr q i = page_addr p i"
  by (simp add: same_range_def page_addr_def)

lemma unat_page_diff:
  assumes "pm_base p \<le> pa"
  shows "unat ((pa - pm_base p) div PMM_PAGE_SIZE) = (unat pa - unat (pm_base p)) div 4096"
  using assms by (simp add: PMM_PAGE_SIZE_def unat_div unat_sub)

lemma page_index_page_addr:
  assumes "pmm_ok p" and "i < pm_total p"
  shows "page_index (page_addr p i) p = Some i"
proof -
  have u: "unat (page_addr p i) = unat (pm_base p) + i * 4096"
    using assms by (simp add: unat_page_addr)
  have lim: "unat (pm_base p + pm_size p) = unat (pm_base p) + pm_total p * 4096"
    using assms by (simp add: pmm_ok_def unat_word_ariths)
  have ge: "pm_base p \<le> page_addr p i"
    by (simp add: word_le_nat_alt u)
  have "page_addr p i AND (PMM_PAGE_SIZE - 1) = take_bit 12 (page_addr p i)"
    by (simp add: PMM_PAGE_SIZE_def take_bit_eq_mask mask_eq_exp_minus_1)
  moreover have "unat (take_bit 12 (page_addr p i)) = unat (page_addr p i) mod 4096"
    by (simp add: unsigned_take_bit_eq) (simp add: take_bit_eq_mod)
  moreover have "unat (page_addr p i) mod 4096 = 0"
    using assms(1) by (simp add: u pmm_ok_def)
  ultimately have al: "page_addr p i AND (PMM_PAGE_SIZE - 1) = 0"
    by (simp add: unat_eq_0)
  have "unat ((page_addr p i - pm_base p) div PMM_PAGE_SIZE) = i"
    using unat_page_diff [OF ge] by (simp add: u)
  moreover have "\<not> pm_base p + pm_size p \<le> page_addr p i"
    using assms(2) by (simp add: word_le_nat_alt lim u)
  ultimately show ?thesis
    using assms(2) ge al by (simp add: page_index_def not_less)
qed

lemma page_index_lt: "page_index pa p = Some i \<Longrightarrow> i < pm_total p"
  by (auto simp: page_index_def Let_def split: if_splits)

lemma page_index_same_range: "same_range p q \<Longrightarrow> page_index pa q = page_index pa p"
  by (simp add: same_range_def page_index_def)

subsection \<open>Reservation removes exactly the pages a range touches\<close>

lemma reserve_page_spec:
  assumes "pmm_ok p" and "i < pm_total p"
  shows "pmm_ok (reserve_page i p) \<and> same_range p (reserve_page i p) \<and>
    free_pages (reserve_page i p) = free_pages p - {i}"
proof (cases "bit_test i (pm_bitmap p)")
  case True
  then show ?thesis using assms by (auto simp: reserve_page_def free_pages_def)
next
  case False
  then have i: "i \<in> free_pages p"
    using assms(2) by (simp add: free_pages_def)
  then have "0 < pm_free p"
    using assms(1) by (auto simp: pmm_ok_def card_gt_0_iff)
  then show ?thesis
    using False pmm_ok_set [OF assms(1) i] free_pages_set [OF assms(1), where j = i and n = "pm_free p - 1"]
    by (simp add: reserve_page_def same_range_def)
qed

lemma reserve_loop_spec:
  assumes "pmm_ok p" and "i + n \<le> pm_total p"
  shows "pmm_ok (reserve_loop n (page_addr p i) p) \<and> same_range p (reserve_loop n (page_addr p i) p) \<and>
    free_pages (reserve_loop n (page_addr p i) p) = free_pages p - {i..<i + n}"
  using assms
proof (induction n arbitrary: i p)
  case 0
  then show ?case by simp
next
  case (Suc n)
  have i: "i < pm_total p" using Suc.prems by simp
  have "pm_base p \<le> page_addr p i"
    using unat_page_addr [of p i] Suc.prems(1) i by (simp add: word_le_nat_alt)
  then have idx: "unat ((page_addr p i - pm_base p) div PMM_PAGE_SIZE) = i"
    using unat_page_addr [of p i] Suc.prems(1) i by (simp add: unat_page_diff)
  note one = reserve_page_spec [OF Suc.prems(1) i]
  have next_pa: "page_addr p i + PMM_PAGE_SIZE = page_addr (reserve_page i p) (Suc i)"
    using one page_addr_same_range [of p "reserve_page i p" "Suc i"]
    by (simp add: page_addr_def algebra_simps)
  have step: "reserve_loop (Suc n) (page_addr p i) p =
      reserve_loop n (page_addr (reserve_page i p) (Suc i)) (reserve_page i p)"
    using idx i next_pa by simp
  have "pm_total (reserve_page i p) = pm_total p"
    using one by (simp add: same_range_def)
  then have "pmm_ok (reserve_loop n (page_addr (reserve_page i p) (Suc i)) (reserve_page i p)) \<and>
      same_range (reserve_page i p) (reserve_loop n (page_addr (reserve_page i p) (Suc i)) (reserve_page i p)) \<and>
      free_pages (reserve_loop n (page_addr (reserve_page i p) (Suc i)) (reserve_page i p)) =
        free_pages (reserve_page i p) - {Suc i..<Suc i + n}"
    using Suc.IH [of "reserve_page i p" "Suc i"] one Suc.prems(2) by simp
  moreover have "insert i {Suc i..<Suc (i + n)} = {i..<i + Suc n}"
    by auto
  ultimately show ?case
    unfolding step using one same_range_trans [of p "reserve_page i p"] by auto
qed

text \<open>The page at \<open>pa\<close> and the bytes \<open>start\<close> to \<open>end\<close> have an address in common.\<close>

definition page_hits :: "u64 \<Rightarrow> u64 \<Rightarrow> u64 \<Rightarrow> bool" where
  "page_hits start end pa \<longleftrightarrow> start < end \<and> unat start < unat pa + 4096 \<and> unat pa < unat end"

lemma reserved_interval:
  fixes b t S E i :: nat
  defines "ss \<equiv> S div 4096" and "ee \<equiv> (E + 4095) div 4096"
  assumes "b * 4096 \<le> S" and "S < E" and "E \<le> (b + t) * 4096"
  shows "ss - b + (ee - ss) \<le> t" and "b \<le> ss" and "ss < ee"
    and "i \<in> {ss - b..<ss - b + (ee - ss)} \<longleftrightarrow> S < (b + i) * 4096 + 4096 \<and> (b + i) * 4096 < E"
proof -
  show b: "b \<le> ss"
    using assms(3) unfolding ss_def by (simp add: less_eq_div_iff_mult_less_eq)
  have 1: "j < ee \<longleftrightarrow> j * 4096 < E" for j
    using less_eq_div_iff_mult_less_eq [of 4096 "Suc j" "E + 4095"] by (auto simp: ee_def)
  have 2: "ss < j \<longleftrightarrow> S < j * 4096" for j
    unfolding ss_def by (rule div_less_iff_less_mult) simp
  have 3: "ss * 4096 \<le> S"
    unfolding ss_def by simp
  show se: "ss < ee"
    using 1 [of ss] 3 assms(4) by simp
  have "ee \<le> b + t"
    using 1 [of "b + t"] assms(5) by simp
  then show "ss - b + (ee - ss) \<le> t"
    using b se by simp
  have "i \<in> {ss - b..<ss - b + (ee - ss)} \<longleftrightarrow> ss < Suc (b + i) \<and> b + i < ee"
    using b se by auto
  then show "i \<in> {ss - b..<ss - b + (ee - ss)} \<longleftrightarrow> S < (b + i) * 4096 + 4096 \<and> (b + i) * 4096 < E"
    unfolding 1 2 by (simp add: algebra_simps)
qed

lemma reserve_range_spec:
  assumes ok: "pmm_ok p"
  shows "pmm_ok (reserve_range start end p) \<and> same_range p (reserve_range start end p) \<and>
    free_pages (reserve_range start end p) = {i \<in> free_pages p. \<not> page_hits start end (page_addr p i)}"
proof -
  define b where "b = unat (pm_base p) div 4096"
  have base: "unat (pm_base p) = b * 4096"
    using ok by (auto simp: pmm_ok_def b_def)
  have lim: "unat (pm_base p + pm_size p) = (b + pm_total p) * 4096"
  proof -
    have "unat (pm_base p + pm_size p) = unat (pm_base p) + pm_total p * 4096"
      using ok by (simp add: pmm_ok_def unat_word_ariths)
    then show ?thesis by (simp add: base add_mult_distrib)
  qed
  have small: "(b + pm_total p) * 4096 < 2 ^ 64"
    using ok unfolding pmm_ok_def base add_mult_distrib by blast
  have addr: "unat (page_addr p i) = (b + i) * 4096" if "i \<le> pm_total p" for i
    using unat_page_addr [OF ok that] unfolding base by (simp add: add_mult_distrib)
  define S where "S = (if start < pm_base p then pm_base p else start)"
  define E where "E = (if pm_base p + pm_size p < end then pm_base p + pm_size p else end)"
  have S: "unat S = max (b * 4096) (unat start)"
    unfolding S_def max_def word_less_nat_alt base by (simp add: base)
  have E: "unat E = min ((b + pm_total p) * 4096) (unat end)"
    unfolding E_def min_def word_less_nat_alt lim by (simp add: lim)
  show ?thesis
  proof (cases "end \<le> start \<or> E \<le> S")
    case True
    then have "reserve_range start end p = p"
      by (auto simp: reserve_range_def Let_def S_def E_def)
    moreover have "\<not> page_hits start end (page_addr p i)" if "i \<in> free_pages p" for i
      using True S E addr [of i] free_pages_lt [OF that]
      by (auto simp: page_hits_def word_le_nat_alt word_less_nat_alt not_le)
    ultimately show ?thesis
      using ok by auto
  next
    case False
    then have lt: "unat S < unat E" and lt': "start < end"
      by (auto simp: word_le_nat_alt word_less_nat_alt not_le)
    note iv = reserved_interval [of b "unat S" "unat E" "pm_total p"]
    have le: "b * 4096 \<le> unat S" "unat E \<le> (b + pm_total p) * 4096"
      using S E by simp_all
    have s: "unat (align_down_u64 S PMM_PAGE_SIZE) = unat S div 4096 * 4096"
      using unat_align_down [of S 12] by (simp add: PMM_PAGE_SIZE_def minus_mod_eq_div_mult)
    have "b + pm_total p < 2 ^ 52"
      using small by simp
    then have "unat E + 4095 < 2 ^ 64"
      using le(2) by simp
    then have e: "unat (align_up_u64 E PMM_PAGE_SIZE) = (unat E + 4095) div 4096 * 4096"
      using unat_align_up [of 12 E] by (simp add: PMM_PAGE_SIZE_def)
    define i0 where "i0 = unat S div 4096 - b"
    define n where "n = (unat E + 4095) div 4096 - unat S div 4096"
    have i0n: "i0 + n \<le> pm_total p"
      using iv(1) [OF le(1) lt le(2)] by (simp add: i0_def n_def)
    have "align_down_u64 S PMM_PAGE_SIZE = page_addr p i0"
      using s addr [of i0] i0n iv(2) [OF le(1) lt le(2)] by (simp add: i0_def word_unat_eq_iff)
    moreover have "(unat (align_up_u64 E PMM_PAGE_SIZE) - unat (align_down_u64 S PMM_PAGE_SIZE) + 4095) div 4096 = n"
      unfolding s e n_def by (simp flip: diff_mult_distrib)
    ultimately have eq: "reserve_range start end p = reserve_loop n (page_addr p i0) p"
      using False by (simp add: reserve_range_def Let_def flip: S_def E_def)
    have "i \<in> {i0..<i0 + n} \<longleftrightarrow> page_hits start end (page_addr p i)" if "i \<in> free_pages p" for i
    proof -
      have i: "i < pm_total p" using that by (rule free_pages_lt)
      have "i \<in> {i0..<i0 + n} \<longleftrightarrow> unat S < (b + i) * 4096 + 4096 \<and> (b + i) * 4096 < unat E"
        using iv(4) [OF le(1) lt le(2)] by (simp add: i0_def n_def)
      then show ?thesis
        using i addr [of i] S E lt' by (auto simp: page_hits_def)
    qed
    then have "free_pages p - {i0..<i0 + n} = {i \<in> free_pages p. \<not> page_hits start end (page_addr p i)}"
      by blast
    then show ?thesis
      using reserve_loop_spec [OF ok i0n] eq by simp
  qed
qed

subsection \<open>Allocation takes free pages, freeing gives them back\<close>

lemma pmm_free_pos: "pmm_ok p \<Longrightarrow> pm_free p = 0 \<longleftrightarrow> free_pages p = {}"
  by (simp add: pmm_ok_def)

lemma pmm_alloc_page_spec:
  assumes ok: "pmm_ok p"
  shows "free_pages p = {} \<and> pmm_alloc_page p = (0, p) \<or>
    (\<exists>i p'. pmm_alloc_page p = (page_addr p i, p') \<and> i \<in> free_pages p \<and> pmm_ok p' \<and>
      same_range p p' \<and> free_pages p' = free_pages p - {i})"
proof (cases "pm_free p = 0 \<or> pm_total p = 0")
  case True
  then show ?thesis
    using pmm_free_pos [OF ok] by (auto simp: pmm_alloc_page_def free_pages_def)
next
  case False
  show ?thesis
  proof (cases "find_slot (\<lambda>idx. \<not> bit_test idx (pm_bitmap p)) [0..<pm_total p]")
    case None
    then have "free_pages p = {}"
      by (auto simp: find_slot_None free_pages_def)
    then show ?thesis
      using None by (simp add: pmm_alloc_page_def)
  next
    case (Some i)
    then have "i \<in> free_pages p"
      using find_slot_Some [OF Some] by (auto simp: free_pages_def)
    then show ?thesis
      using False Some pmm_ok_set [OF ok] free_pages_set [OF ok, where j = i and n = "pm_free p - 1"]
      by (intro disjI2 exI [of _ i] exI conjI) (auto simp: pmm_alloc_page_def same_range_def)
  qed
qed

lemma pmm_free_page_spec:
  assumes ok: "pmm_ok p"
  shows "pmm_ok (pmm_free_page pa p) \<and> same_range p (pmm_free_page pa p) \<and>
    free_pages (pmm_free_page pa p) =
      (case page_index pa p of None \<Rightarrow> free_pages p | Some i \<Rightarrow> insert i (free_pages p))"
proof (cases "page_index pa p")
  case None
  then show ?thesis using ok by (simp add: pmm_free_page_def)
next
  case (Some i)
  have i: "i < pm_total p"
    using page_index_lt [OF Some] .
  show ?thesis
  proof (cases "bit_test i (pm_bitmap p)")
    case True
    then show ?thesis
      using Some pmm_ok_clear [OF ok i] free_pages_clear [OF ok i, where n = "pm_free p + 1"]
      by (simp add: pmm_free_page_def free_pages_def same_range_def)
  next
    case False
    then show ?thesis
      using Some ok i by (auto simp: pmm_free_page_def free_pages_def)
  qed
qed

lemma block_free_iff:
  "start + 512 \<le> pm_total p \<Longrightarrow> block_free start p \<longleftrightarrow> {start..<start + 512} \<subseteq> free_pages p"
proof -
  assume le: "start + 512 \<le> pm_total p"
  have "block_free start p \<longleftrightarrow> (\<forall>i < 512. \<not> bit_test (start + i) (pm_bitmap p))"
    by (simp add: block_free_def list_all_iff Ball_def)
  also have "\<dots> \<longleftrightarrow> (\<forall>j \<in> {start..<start + 512}. \<not> bit_test j (pm_bitmap p))"
    by (metis add.commute atLeastLessThan_iff le_add1 le_add_diff_inverse nat_add_left_cancel_less)
  also have "\<dots> \<longleftrightarrow> {start..<start + 512} \<subseteq> free_pages p"
    using le by (auto simp: free_pages_def)
  finally show ?thesis .
qed

lemma find_block_Some:
  "find_block start p = Some i \<Longrightarrow>
   i mod 512 = 0 \<and> start \<le> i \<and> i + 512 \<le> pm_total p \<and> {i..<i + 512} \<subseteq> free_pages p"
proof (induction start p rule: find_block.induct)
  case (1 start p)
  let ?a = "(start + 511) div 512 * 512"
  have a: "start \<le> ?a" by simp
  from "1.prems" have le: "start + 512 \<le> pm_total p" and le': "?a + 512 \<le> pm_total p"
    by (auto simp: find_block.simps [of start] Let_def split: if_splits)
  show ?case
  proof (cases "block_free ?a p")
    case True
    then have "i = ?a"
      using "1.prems" le le' by (simp add: find_block.simps [of start] Let_def)
    then show ?thesis
      using True a le' block_free_iff [of ?a p] by simp
  next
    case False
    then have "find_block (?a + 512) p = Some i"
      using "1.prems" le le' by (simp add: find_block.simps [of start] Let_def)
    then show ?thesis
      using "1.IH" [OF _ refl] le le' False a by auto
  qed
qed

text \<open>No block is found only when no aligned block of 512 pages is free.\<close>

lemma find_block_None:
  "find_block start p = None \<Longrightarrow> start \<le> i \<Longrightarrow> i mod 512 = 0 \<Longrightarrow> i + 512 \<le> pm_total p \<Longrightarrow>
   \<not> {i..<i + 512} \<subseteq> free_pages p"
proof (induction start p rule: find_block.induct)
  case (1 start p)
  let ?a = "(start + 511) div 512 * 512"
  obtain k where k: "i = k * 512"
    using "1.prems"(3) by (metis mod_0_imp_dvd dvd_div_mult_self)
  have "(start + 511) div 512 < Suc k"
    using "1.prems"(2) k by (subst div_less_iff_less_mult) simp_all
  then have ai: "?a \<le> i"
    by (simp add: k)
  then have le: "start + 512 \<le> pm_total p" and le': "?a + 512 \<le> pm_total p"
    using "1.prems"(2,4) by simp_all
  have nf: "\<not> block_free ?a p" and rec: "find_block (?a + 512) p = None"
    using "1.prems"(1) le le' by (auto simp: find_block.simps [of start] Let_def split: if_splits)
  show ?case
  proof (cases "i = ?a")
    case True
    then show ?thesis using nf block_free_iff [OF le'] by simp
  next
    case False
    then have "?a + 512 \<le> i"
      using ai k by simp
    then show ?thesis
      using "1.IH" [OF _ refl _ _ rec] le le' nf "1.prems"(3,4) by auto
  qed
qed

lemma fold_bit_set:
  assumes "pmm_ok p" and "start + n \<le> pm_total p"
  shows "length (fold (\<lambda>i. bit_set (start + i)) [0..<n] (pm_bitmap p)) = PMM_BITMAP_BYTES \<and>
    (\<forall>j < pm_total p. bit_test j (fold (\<lambda>i. bit_set (start + i)) [0..<n] (pm_bitmap p)) \<longleftrightarrow>
      j \<in> {start..<start + n} \<or> bit_test j (pm_bitmap p))"
  using assms(2)
proof (induction n)
  case 0
  then show ?case using assms(1) by (simp add: pmm_ok_def)
next
  case (Suc n)
  then show ?case
    using bitmap_index [OF assms(1)] assms(1) by (auto simp: bit_test_set pmm_ok_def)
qed

lemma pmm_alloc_2mib_spec:
  assumes ok: "pmm_ok p"
  shows "(\<forall>i. i mod 512 = 0 \<and> i + 512 \<le> pm_total p \<longrightarrow> \<not> {i..<i + 512} \<subseteq> free_pages p) \<and>
      pmm_alloc_2mib_aligned p = (0, p) \<or>
    (\<exists>i p'. pmm_alloc_2mib_aligned p = (page_addr p i, p') \<and> i mod 512 = 0 \<and> i + 512 \<le> pm_total p \<and>
      {i..<i + 512} \<subseteq> free_pages p \<and> pmm_ok p' \<and> same_range p p' \<and>
      free_pages p' = free_pages p - {i..<i + 512})"
proof (cases "pm_free p < 512 \<or> find_block 0 p = None")
  case True
  have "\<not> {i..<i + 512} \<subseteq> free_pages p" if "i mod 512 = 0" "i + 512 \<le> pm_total p" for i
  proof (cases "find_block 0 p")
    case None
    then show ?thesis using find_block_None [OF None] that by simp
  next
    case (Some j)
    then have "pm_free p < 512" using True by simp
    then have "card (free_pages p) < card {i..<i + 512}"
      using ok by (simp add: pmm_ok_def)
    then show ?thesis
      using card_mono [OF finite_free_pages] not_le by blast
  qed
  moreover have "pmm_alloc_2mib_aligned p = (0, p)"
    using True by (auto simp: pmm_alloc_2mib_aligned_def)
  ultimately show ?thesis by simp
next
  case False
  then obtain i where i: "find_block 0 p = Some i" by auto
  note b = find_block_Some [OF i]
  let ?bm = "fold (\<lambda>k. bit_set (i + k)) [0..<512] (pm_bitmap p)"
  let ?p = "p\<lparr>pm_bitmap := ?bm, pm_free := pm_free p - 512\<rparr>"
  have bm: "length ?bm = PMM_BITMAP_BYTES"
    "\<And>j. j < pm_total p \<Longrightarrow> bit_test j ?bm \<longleftrightarrow> j \<in> {i..<i + 512} \<or> bit_test j (pm_bitmap p)"
    using fold_bit_set [OF ok, of i 512] b by blast+
  have fr: "free_pages ?p = free_pages p - {i..<i + 512}"
    using bm(2) by (auto simp: free_pages_def)
  have "card (free_pages ?p) = pm_free p - 512"
    unfolding fr using b ok by (subst card_Diff_subset) (auto simp: pmm_ok_def)
  then have "pmm_ok ?p"
    using ok bm(1) by (simp add: pmm_ok_def)
  moreover have "pmm_alloc_2mib_aligned p = (page_addr p i, ?p)"
    using False i b by (simp add: pmm_alloc_2mib_aligned_def)
  ultimately show ?thesis
    using b fr by (intro disjI2 exI [of _ i] exI [of _ ?p]) (simp add: same_range_def)
qed

lemma page_addr_add: "page_addr p i + word_of_nat k * PMM_PAGE_SIZE = page_addr p (i + k)"
  by (simp add: page_addr_def algebra_simps)

lemma pmm_free_run:
  assumes "pmm_ok p" and "i + n \<le> pm_total p"
  defines "q \<equiv> fold (\<lambda>k. pmm_free_page (page_addr p i + word_of_nat k * PMM_PAGE_SIZE)) [0..<n] p"
  shows "pmm_ok q \<and> same_range p q \<and> free_pages q = free_pages p \<union> {i..<i + n}"
  using assms(2) unfolding q_def
proof (induction n)
  case 0
  then show ?case using assms(1) by simp
next
  case (Suc n)
  let ?q = "fold (\<lambda>k. pmm_free_page (page_addr p i + word_of_nat k * PMM_PAGE_SIZE)) [0..<n] p"
  have IH: "pmm_ok ?q" "same_range p ?q" "free_pages ?q = free_pages p \<union> {i..<i + n}"
    using Suc by simp_all
  have "page_index (page_addr p (i + n)) ?q = Some (i + n)"
    using page_index_page_addr [OF assms(1), of "i + n"] page_index_same_range [OF IH(2)] Suc.prems by simp
  moreover have "fold (\<lambda>k. pmm_free_page (page_addr p i + word_of_nat k * PMM_PAGE_SIZE)) [0..<Suc n] p =
      pmm_free_page (page_addr p (i + n)) ?q"
    by (simp add: page_addr_add)
  ultimately show ?case
    using pmm_free_page_spec [OF IH(1), of "page_addr p (i + n)"] same_range_trans [OF IH(2)] IH(3)
    by (auto simp: less_Suc_eq)
qed

subsection \<open>Initialisation\<close>

lemma pmm_unusable_ok: "length (pm_bitmap p) = PMM_BITMAP_BYTES \<Longrightarrow> pmm_ok (pmm_unusable p) \<and> pm_total (pmm_unusable p) = 0"
  by (simp add: pmm_ok_def pmm_unusable_def free_pages_def bitmap_set_all_def length_bitmap_fill)

lemma align_4096 [simp]:
  "unat (align_up_u64 x PMM_PAGE_SIZE) mod 4096 = 0" "unat (align_down_u64 x PMM_PAGE_SIZE) mod 4096 = 0"
  using unat_align_down_pow [of "x + 4095" 12] unat_align_down_pow [of x 12]
  by (simp_all add: align_up_u64_def align_down_u64_def PMM_PAGE_SIZE_def minus_mod_eq_div_mult)

lemma pmm_fresh_ok:
  assumes len: "length bm = PMM_BITMAP_BYTES" and al: "unat base mod 4096 = 0" "unat fin mod 4096 = 0"
    and lt: "base < fin"
  defines "pages \<equiv> unat ((fin - base) div PMM_PAGE_SIZE)"
  defines "tot \<equiv> min pages PMM_MAX_PAGES"
  defines "end' \<equiv> if PMM_MAX_PAGES < pages then base + word_of_nat tot * PMM_PAGE_SIZE else fin"
  defines "p \<equiv> \<lparr>pm_bitmap = bitmap_clear_all tot bm, pm_base = base, pm_size = end' - base,
    pm_total = tot, pm_free = tot\<rparr>"
  shows "pmm_ok p" and "free_pages p = {..<tot}"
proof -
  have ge: "unat base \<le> unat fin" using lt by (simp add: word_less_nat_alt)
  have pages: "pages * 4096 = unat fin - unat base"
    using al ge unfolding pages_def by (simp add: unat_page_diff unat_div unat_sub word_le_nat_alt PMM_PAGE_SIZE_def)
      (metis dvd_diff_nat dvd_div_mult_self mod_0_imp_dvd)
  have sum: "unat base + tot * 4096 \<le> unat fin"
  proof -
    have "tot * 4096 \<le> pages * 4096" by (simp add: tot_def)
    then show ?thesis using pages ge by linarith
  qed
  have tt: "unat (word_of_nat tot * PMM_PAGE_SIZE :: u64) = tot * 4096"
    by (simp add: tot_def PMM_MAX_PAGES_def PMM_PAGE_SIZE_def unat_word_ariths min_def)
  have size: "unat (end' - base) = tot * 4096"
    using tt pages lt by (auto simp: end'_def tot_def min_def unat_sub word_less_nat_alt word_le_nat_alt)
  show fr: "free_pages p = {..<tot}"
    using bit_test_cleared [of _ tot bm] by (auto simp: free_pages_def p_def tot_def)
  have "unat fin < 2 ^ 64"
    using unsigned_less [of "fin"] by simp
  then have "unat base + tot * 4096 < 2 ^ 64"
    using sum by simp
  moreover have "tot \<le> PMM_MAX_PAGES" by (simp add: tot_def)
  moreover have "card (free_pages p) = tot" by (simp add: fr)
  ultimately show "pmm_ok p"
    using len al size unfolding pmm_ok_def
    by (simp add: p_def bitmap_clear_all_def length_bitmap_fill)
qed

text \<open>The ranges \<open>pmm_init\<close> keeps out of the pool.\<close>

definition pmm_reserved :: "u64 \<Rightarrow> u64 \<Rightarrow> u64 \<Rightarrow> u64 \<Rightarrow> u64 \<Rightarrow> bool" where
  "pmm_reserved base kernel_start kernel_end dtb_ptr pa \<longleftrightarrow>
     page_hits base (base + 0x200000) pa \<or> page_hits kernel_start kernel_end pa \<or>
     dtb_ptr \<noteq> 0 \<and> page_hits dtb_ptr (dtb_ptr + 0x10000) pa \<or>
     page_hits USER_REGION_BASE (USER_REGION_BASE + USER_REGION_SIZE) pa"

definition page_set :: "pmm \<Rightarrow> u64 set" where
  "page_set p = page_addr p ` free_pages p"

lemma reserve_range_pages:
  "pmm_ok p \<Longrightarrow> pmm_ok (reserve_range start stop p) \<and> pm_base (reserve_range start stop p) = pm_base p \<and>
   page_set (reserve_range start stop p) = {pa \<in> page_set p. \<not> page_hits start stop pa}"
  using reserve_range_spec [of p start stop] page_addr_same_range [of p "reserve_range start stop p"]
  by (auto simp: page_set_def same_range_def)

lemma pmm_init_spec:
  assumes len: "length (pm_bitmap p0) = PMM_BITMAP_BYTES"
    and p: "p = pmm_init mem_base mem_size kernel_start kernel_end dtb_ptr p0"
  shows "pmm_ok p" 
    and "pm_base p = align_up_u64 mem_base PMM_PAGE_SIZE \<or> pm_base p = 0 \<and> pm_total p = 0"
    and "\<And>pa. pa \<in> page_set p \<Longrightarrow> \<not> pmm_reserved (pm_base p) kernel_start kernel_end dtb_ptr pa"
proof -
  let ?base = "align_up_u64 mem_base PMM_PAGE_SIZE"
  let ?lim = "align_down_u64 (mem_base + mem_size) PMM_PAGE_SIZE"
  have "pmm_ok p \<and> (pm_base p = ?base \<or> pm_base p = 0 \<and> pm_total p = 0) \<and>
      (\<forall>pa \<in> page_set p. \<not> pmm_reserved (pm_base p) kernel_start kernel_end dtb_ptr pa)"
  proof (cases "mem_size < PMM_PAGE_SIZE * 16 \<or> ?lim \<le> ?base")
    case True
    then have "p = pmm_unusable p0"
      by (auto simp: p pmm_init_def Let_def)
    then show ?thesis
      using pmm_unusable_ok [OF len] by (simp add: page_set_def free_pages_def) (simp add: pmm_unusable_def)
  next
    case False
    then have lt: "?base < ?lim" by (simp add: not_le)
    note fresh = pmm_fresh_ok [OF len align_4096(1) align_4096(2) lt]
    define q0 where "q0 = (let pages = unat ((?lim - ?base) div PMM_PAGE_SIZE);
                 total = min pages PMM_MAX_PAGES;
                 end = (if PMM_MAX_PAGES < pages then ?base + word_of_nat total * PMM_PAGE_SIZE else ?lim)
      in \<lparr>pm_bitmap = bitmap_clear_all total (pm_bitmap p0), pm_base = ?base,
                      pm_size = end - ?base, pm_total = total, pm_free = total\<rparr>)"
    define q1 where "q1 = reserve_range ?base (?base + 0x200000) q0"
    define q2 where "q2 = reserve_range kernel_start kernel_end q1"
    define q3 where "q3 = (if dtb_ptr \<noteq> 0 then reserve_range dtb_ptr (dtb_ptr + 0x10000) q2 else q2)"
    have p3: "p = reserve_range USER_REGION_BASE (USER_REGION_BASE + USER_REGION_SIZE) q3"
      using False by (simp add: p pmm_init_def q0_def q1_def q2_def q3_def Let_def)
    have q0: "pmm_ok q0" "pm_base q0 = ?base"
      using fresh(1) by (simp_all add: q0_def Let_def)
    have q1: "pmm_ok q1" "pm_base q1 = ?base" "\<forall>pa \<in> page_set q1. \<not> page_hits ?base (?base + 0x200000) pa"
      using reserve_range_pages [OF q0(1)] q0(2) by (simp_all add: q1_def)
    have q2: "pmm_ok q2" "pm_base q2 = ?base" "page_set q2 \<subseteq> page_set q1"
        "\<forall>pa \<in> page_set q2. \<not> page_hits kernel_start kernel_end pa"
      using reserve_range_pages [OF q1(1)] q1(2) by (auto simp: q2_def)
    have q3: "pmm_ok q3" "pm_base q3 = ?base" "page_set q3 \<subseteq> page_set q2"
        "\<forall>pa \<in> page_set q3. \<not> (dtb_ptr \<noteq> 0 \<and> page_hits dtb_ptr (dtb_ptr + 0x10000) pa)"
      using reserve_range_pages [OF q2(1)] q2(1,2) by (auto simp: q3_def)
    show ?thesis
      using reserve_range_pages [OF q3(1)] q1(3) q2(3,4) q3(2-4)
      unfolding p3 pmm_reserved_def by auto
  qed
  then show "pmm_ok p" and "pm_base p = ?base \<or> pm_base p = 0 \<and> pm_total p = 0"
    and "\<And>pa. pa \<in> page_set p \<Longrightarrow> \<not> pmm_reserved (pm_base p) kernel_start kernel_end dtb_ptr pa"
    by blast+
qed

subsection \<open>Blocks in use never overlap\<close>

text \<open>
  The contract of an allocator of blocks of pages: \<open>valid\<close> says that a block is one of those it
  hands out, \<open>pages\<close> which pages it consists of. A client that gives back only blocks it holds
  never holds two blocks with a page in common, and what it holds together with the free pages
  is always what was free at the start.
\<close>

datatype 'k pool_op = Take 'k | Give nat

fun pool_step ::
  "('k \<Rightarrow> 's \<Rightarrow> ('b \<times> 's) option) \<Rightarrow> ('b \<Rightarrow> 's \<Rightarrow> 's) \<Rightarrow> 'k pool_op \<Rightarrow> 'b list \<times> 's \<Rightarrow> 'b list \<times> 's"
where
  "pool_step alloc release (Take k) (held, s) =
     (case alloc k s of None \<Rightarrow> (held, s) | Some (b, s') \<Rightarrow> (b # held, s'))"
| "pool_step alloc release (Give i) (held, s) =
     (if i < length held then (take i held @ drop (Suc i) held, release (held ! i) s) else (held, s))"

definition pool_run ::
  "('k \<Rightarrow> 's \<Rightarrow> ('b \<times> 's) option) \<Rightarrow> ('b \<Rightarrow> 's \<Rightarrow> 's) \<Rightarrow> 'k pool_op list \<Rightarrow> 's \<Rightarrow> 'b list \<times> 's"
where
  "pool_run alloc release ops s = fold (pool_step alloc release) ops ([], s)"

definition apart :: "('b \<Rightarrow> 'p set) \<Rightarrow> 'b list \<Rightarrow> bool" where
  "apart pages held \<longleftrightarrow> sorted_wrt (\<lambda>b c. pages b \<inter> pages c = {}) held"

locale page_allocator =
  fixes inv :: "'s \<Rightarrow> bool" and free :: "'s \<Rightarrow> 'p set"
    and valid :: "'s \<Rightarrow> 'b \<Rightarrow> bool" and pages :: "'b \<Rightarrow> 'p set"
    and alloc :: "'k \<Rightarrow> 's \<Rightarrow> ('b \<times> 's) option" and release :: "'b \<Rightarrow> 's \<Rightarrow> 's"
  assumes alloc_takes: "inv s \<Longrightarrow> alloc k s = Some (b, s') \<Longrightarrow>
      inv s' \<and> valid s' = valid s \<and> valid s b \<and> pages b \<subseteq> free s \<and> free s' = free s - pages b"
    and release_returns: "inv s \<Longrightarrow> valid s b \<Longrightarrow>
      inv (release b s) \<and> valid (release b s) = valid s \<and> free (release b s) = free s \<union> pages b"
begin

definition owns :: "'b list \<Rightarrow> 's \<Rightarrow> bool" where
  "owns held s \<longleftrightarrow> inv s \<and> apart pages held \<and> (\<forall>b \<in> set held. valid s b \<and> pages b \<inter> free s = {})"

lemma take_owns:
  assumes "owns held s" and "alloc k s = Some (b, s')"
  shows "owns (b # held) s'" and "free s' \<union> \<Union> (pages ` set (b # held)) = free s \<union> \<Union> (pages ` set held)"
  using assms alloc_takes [of s k b s'] by (auto simp: owns_def apart_def)

lemma give_owns:
  assumes "owns held s" and "i < length held"
  shows "owns (take i held @ drop (Suc i) held) (release (held ! i) s)"
    and "free (release (held ! i) s) \<union> \<Union> (pages ` set (take i held @ drop (Suc i) held)) =
      free s \<union> \<Union> (pages ` set held)"
proof -
  let ?l = "take i held" and ?b = "held ! i" and ?r = "drop (Suc i) held"
  have held: "held = ?l @ ?b # ?r"
    using assms(2) by (rule id_take_nth_drop)
  have s: "inv s" "valid s ?b"
    using assms by (simp_all add: owns_def)
  note rel = release_returns [OF s]
  have ap: "apart pages (?l @ ?b # ?r)"
    using assms(1) held by (simp add: owns_def)
  then have out: "pages c \<inter> pages ?b = {}" if "c \<in> set (?l @ ?r)" for c
    using that by (auto simp: apart_def sorted_wrt_append)
  have sub: "set (?l @ ?r) \<subseteq> set held"
    by (metis held set_append set_subset_Cons subset_refl Un_mono)
  have "valid (release ?b s) c \<and> pages c \<inter> free (release ?b s) = {}" if "c \<in> set (?l @ ?r)" for c
    using assms(1) sub that rel out [OF that] by (auto simp: owns_def)
  moreover have "apart pages (?l @ ?r)"
    using ap by (simp add: apart_def sorted_wrt_append)
  ultimately show "owns (?l @ ?r) (release ?b s)"
    using rel unfolding owns_def by blast
  have "\<Union> (pages ` set held) = pages ?b \<union> \<Union> (pages ` set (?l @ ?r))"
    by (subst held) auto
  then show "free (release ?b s) \<union> \<Union> (pages ` set (?l @ ?r)) = free s \<union> \<Union> (pages ` set held)"
    using rel by auto
qed

lemma step_owns:
  assumes "owns held s" and "pool_step alloc release oper (held, s) = (held', s')"
  shows "owns held' s' \<and> free s' \<union> \<Union> (pages ` set held') = free s \<union> \<Union> (pages ` set held)"
proof (cases oper)
  case (Take k)
  show ?thesis
  proof (cases "alloc k s")
    case None
    then show ?thesis using assms Take by simp
  next
    case (Some bs)
    obtain b s1 where bs: "bs = (b, s1)" by (cases bs)
    then show ?thesis
      using assms(2) Take Some take_owns [OF assms(1), of k b s1] by simp
  qed
next
  case (Give i)
  show ?thesis
  proof (cases "i < length held")
    case True
    then show ?thesis
      using assms(2) Give give_owns [OF assms(1) True] by auto
  qed (use assms Give in simp)
qed

theorem run_owns:
  assumes "inv s" and "pool_run alloc release ops s = (held, s')"
  shows "owns held s' \<and> free s' \<union> \<Union> (pages ` set held) = free s"
proof -
  have "owns held s' \<and> free s' \<union> \<Union> (pages ` set held) = free s0 \<union> \<Union> (pages ` set held0)"
    if "owns held0 s0" and "fold (pool_step alloc release) ops (held0, s0) = (held, s')" for held0 s0
    using that
  proof (induction ops arbitrary: held0 s0)
    case Nil
    then show ?case by simp
  next
    case (Cons oper ops)
    obtain held1 s1 where 1: "pool_step alloc release oper (held0, s0) = (held1, s1)"
      by fastforce
    then show ?case
      using Cons.IH [of held1 s1] Cons.prems step_owns [OF Cons.prems(1) 1] by simp
  qed
  from this [of "[]" s] show ?thesis
    using assms by (simp add: pool_run_def owns_def apart_def)
qed

end

text \<open>The bitmap implements the contract, for single pages and for blocks of 512 pages.\<close>

datatype pmm_unit = Page | Block

fun unit_pages :: "pmm_unit \<times> u64 \<Rightarrow> u64 set" where
  "unit_pages (Page, pa) = {pa}"
| "unit_pages (Block, pa) = {pa + word_of_nat k * PMM_PAGE_SIZE | k. k < 512}"

fun unit_alloc :: "pmm_unit \<Rightarrow> pmm \<Rightarrow> ((pmm_unit \<times> u64) \<times> pmm) option" where
  "unit_alloc Page p = (let (pa, p') = pmm_alloc_page p in if pa = 0 then None else Some ((Page, pa), p'))"
| "unit_alloc Block p = (let (pa, p') = pmm_alloc_2mib_aligned p in if pa = 0 then None else Some ((Block, pa), p'))"

fun unit_release :: "pmm_unit \<times> u64 \<Rightarrow> pmm \<Rightarrow> pmm" where
  "unit_release (Page, pa) p = pmm_free_page pa p"
| "unit_release (Block, pa) p = pmm_free_2mib_aligned pa p"

fun unit_valid :: "pmm \<Rightarrow> pmm_unit \<times> u64 \<Rightarrow> bool" where
  "unit_valid p (Page, pa) \<longleftrightarrow> pa \<noteq> 0 \<and> (\<exists>i < pm_total p. pa = page_addr p i)"
| "unit_valid p (Block, pa) \<longleftrightarrow> pa \<noteq> 0 \<and> (\<exists>i. 512 dvd i \<and> i + 512 \<le> pm_total p \<and> pa = page_addr p i)"

text \<open>
  RAM starts at a 2 MiB boundary (it starts at 0 on this board), and physical page 0, whose
  address is the failure value of the allocators, is not in the pool.
\<close>

definition pmm_usable :: "pmm \<Rightarrow> bool" where
  "pmm_usable p \<longleftrightarrow> pmm_ok p \<and> unat (pm_base p) mod 0x200000 = 0 \<and> 0 \<notin> page_set p"

lemma unit_valid_range: "same_range p q \<Longrightarrow> unit_valid q = unit_valid p"
  by (intro ext, case_tac x, case_tac a) (auto simp: page_addr_same_range same_range_def page_addr_def)

lemma unit_pages_block: "unit_pages (Block, page_addr p i) = page_addr p ` {i..<i + 512}"
proof -
  have "{i..<i + 512} = (\<lambda>k. i + k) ` {..<512}"
    using image_add_atLeastLessThan [of i 0 512] by (simp add: lessThan_atLeast0 add.commute)
  then show ?thesis
    by (auto simp: page_addr_add image_image)
qed

lemma page_set_minus:
  assumes ok: "pmm_ok p" and I: "I \<subseteq> free_pages p" and r: "same_range p q" and f: "free_pages q = free_pages p - I"
  shows "page_set q = page_set p - page_addr p ` I"
proof -
  have "inj_on (page_addr p) (free_pages p)"
    by (intro inj_onI) (metis page_addr_inj [OF ok] free_pages_lt less_imp_le)
  then show ?thesis
    using page_addr_same_range [OF r] inj_on_image_set_diff [of "page_addr p" "free_pages p" "free_pages p" I] I
    by (simp add: page_set_def f)
qed

lemma usable_alloc:
  assumes us: "pmm_usable p" and a: "unit_alloc k p = Some (b, p')"
  shows "pmm_usable p' \<and> unit_valid p' = unit_valid p \<and> unit_valid p b \<and>
    unit_pages b \<subseteq> page_set p \<and> page_set p' = page_set p - unit_pages b"
proof -
  have ok: "pmm_ok p" using us by (simp add: pmm_usable_def)
  have use: "pmm_usable q \<and> unit_valid q = unit_valid p \<and> page_addr p ` I \<subseteq> page_set p \<and>
      page_set q = page_set p - page_addr p ` I"
    if "pmm_ok q" "same_range p q" "I \<subseteq> free_pages p" "free_pages q = free_pages p - I" for q I
    using page_set_minus [OF ok that(3,2,4)] that unit_valid_range [OF that(2)] us
    by (auto simp: pmm_usable_def page_set_def same_range_def)
  show ?thesis
  proof (cases k)
    case Page
    then obtain i where i: "b = (Page, page_addr p i)" "i \<in> free_pages p" "page_addr p i \<noteq> 0" "pmm_ok p'"
        "same_range p p'" "free_pages p' = free_pages p - {i}"
      using a pmm_alloc_page_spec [OF ok] by (auto split: if_splits)
    then show ?thesis
      using use [of p' "{i}"] free_pages_lt by auto
  next
    case Block
    then obtain i where i: "b = (Block, page_addr p i)" "512 dvd i" "i + 512 \<le> pm_total p"
        "{i..<i + 512} \<subseteq> free_pages p" "page_addr p i \<noteq> 0" "pmm_ok p'" "same_range p p'"
        "free_pages p' = free_pages p - {i..<i + 512}"
      using a pmm_alloc_2mib_spec [OF ok] by (auto split: if_splits)
    then show ?thesis
      using use [of p' "{i..<i + 512}"] by (auto simp: unit_pages_block simp del: unit_pages.simps)
  qed
qed

lemma block_addr_aligned:
  assumes "pmm_usable p" and "512 dvd i" and "i \<le> pm_total p"
  shows "page_addr p i AND 0x1FFFFF = 0"
proof -
  have "unat (page_addr p i) = unat (pm_base p) + i * 4096"
    using assms by (simp add: unat_page_addr pmm_usable_def)
  then have "unat (page_addr p i) mod 0x200000 = 0"
    using assms(1,2) by (auto simp: pmm_usable_def mod_0_imp_dvd elim!: dvdE)
  moreover have "page_addr p i AND 0x1FFFFF = take_bit 21 (page_addr p i)"
    by (simp add: take_bit_eq_mask mask_eq_exp_minus_1)
  moreover have "unat (take_bit 21 (page_addr p i)) = unat (page_addr p i) mod 0x200000"
    by (simp add: unsigned_take_bit_eq) (simp add: take_bit_eq_mod)
  ultimately show ?thesis
    by (simp add: unat_eq_0)
qed

lemma usable_release:
  assumes us: "pmm_usable p" and v: "unit_valid p b"
  shows "pmm_usable (unit_release b p) \<and> unit_valid (unit_release b p) = unit_valid p \<and>
    page_set (unit_release b p) = page_set p \<union> unit_pages b"
proof -
  have ok: "pmm_ok p" using us by (simp add: pmm_usable_def)
  have use: "pmm_usable q \<and> unit_valid q = unit_valid p \<and> page_set q = page_set p \<union> page_addr p ` I"
    if "pmm_ok q" "same_range p q" "0 \<notin> page_addr p ` I" "free_pages q = free_pages p \<union> I" for q I
    using that us unit_valid_range [OF that(2)] page_addr_same_range [OF that(2)]
    by (auto simp: pmm_usable_def page_set_def same_range_def)
  show ?thesis
  proof (cases b)
    case (Pair k pa)
    show ?thesis
    proof (cases k)
      case Page
      then obtain i where i: "i < pm_total p" "pa = page_addr p i" "pa \<noteq> 0"
        using v Pair by auto
      then show ?thesis
        using use [of "pmm_free_page pa p" "{i}"] pmm_free_page_spec [OF ok, of pa]
          page_index_page_addr [OF ok i(1)] Pair Page by auto
    next
      case Block
      then obtain i where i: "512 dvd i" "i + 512 \<le> pm_total p" "pa = page_addr p i" "pa \<noteq> 0"
        using v Pair by auto
      have run: "pmm_free_2mib_aligned pa p =
          fold (\<lambda>k. pmm_free_page (page_addr p i + word_of_nat k * PMM_PAGE_SIZE)) [0..<512] p"
        using block_addr_aligned [OF us i(1)] i by (simp add: pmm_free_2mib_aligned_def)
      have "page_addr p j \<noteq> 0" if "j \<in> {i..<i + 512}" for j
      proof -
        have "unat (page_addr p i) \<noteq> 0"
          using i(3,4) by (simp add: unat_eq_0)
        moreover have "unat (page_addr p i) \<le> unat (page_addr p j)"
          using that i(2) by (simp add: unat_page_addr [OF ok])
        ultimately show ?thesis by auto
      qed
      then have "0 \<notin> page_addr p ` {i..<i + 512}" by auto
      then show ?thesis
        using use [of "pmm_free_2mib_aligned pa p" "{i..<i + 512}"] pmm_free_run [OF ok i(2)] run i(3) Pair Block
        by (simp add: unit_pages_block del: unit_pages.simps)
    qed
  qed
qed

interpretation pmm: page_allocator pmm_usable page_set unit_valid unit_pages unit_alloc unit_release
  by unfold_locales (use usable_alloc usable_release in blast)+

subsection \<open>From initialisation on\<close>

lemma align_up_id: "unat x mod 4096 = 0 \<Longrightarrow> align_up_u64 x PMM_PAGE_SIZE = x"
proof -
  assume al: "unat x mod 4096 = 0"
  then obtain k where k: "unat x = k * 4096" by (metis mod_0_imp_dvd dvd_div_mult_self)
  have "unat x < 2 ^ 64"
    using unsigned_less [of x] by simp
  then have "k < 2 ^ 52" by (simp add: k)
  then have "unat x + 4095 < 2 ^ 64" by (simp add: k)
  then have "unat (align_up_u64 x PMM_PAGE_SIZE) = (unat x + 4095) div 4096 * 4096"
    using unat_align_up [of 12 x] by (simp add: PMM_PAGE_SIZE_def)
  also have "\<dots> = unat x" by (simp add: k)
  finally show ?thesis by (simp only: unsigned_word_eqI)
qed

lemma pmm_init_usable:
  assumes len: "length (pm_bitmap p0) = PMM_BITMAP_BYTES" and al: "unat mem_base mod 0x200000 = 0"
    and p: "p = pmm_init mem_base mem_size kernel_start kernel_end dtb_ptr p0"
  shows "pmm_usable p"
proof -
  have "unat mem_base mod 4096 = unat mem_base mod 0x200000 mod 4096"
    by (simp add: mod_mod_cancel)
  then have base: "pm_base p = mem_base \<or> pm_base p = 0 \<and> pm_total p = 0"
    using pmm_init_spec(2) [OF len p] align_up_id al by simp
  have ok: "pmm_ok p" using pmm_init_spec(1) [OF len p] .
  have "0 \<notin> page_set p"
  proof
    assume z: "0 \<in> page_set p"
    then obtain i where i: "i < pm_total p" "page_addr p i = 0"
      by (auto simp: page_set_def free_pages_def)
    then have "pm_base p = 0"
      using unat_page_addr [OF ok, of i] by (simp add: unat_eq_0)
    then show False
      using pmm_init_spec(3) [OF len p z] by (simp add: pmm_reserved_def page_hits_def)
  qed
  then show ?thesis
    using ok base al by (auto simp: pmm_usable_def)
qed

text \<open>
  C4: From \<open>pmm_init\<close> on, whatever sequence of pages and 2 MiB blocks the kernel takes and gives
  back, the blocks it holds have no page in common; every page of them comes from the pool that
  \<open>pmm_init\<close> left free, so it does not touch low memory, the kernel image, the device tree or the
  user region; and what is held together with what is free is always exactly that pool.
\<close>

theorem pmm_blocks_disjoint:
  fixes ops :: "pmm_unit pool_op list" and mem_size kernel_start kernel_end dtb_ptr :: u64
  assumes "length (pm_bitmap p0) = PMM_BITMAP_BYTES" and "unat mem_base mod 0x200000 = 0"
  defines "p \<equiv> pmm_init mem_base mem_size kernel_start kernel_end dtb_ptr p0"
  defines "r \<equiv> pool_run unit_alloc unit_release ops p"
  shows "sorted_wrt (\<lambda>b c. unit_pages b \<inter> unit_pages c = {}) (fst r) \<and>
    (\<forall>b \<in> set (fst r). \<forall>pa \<in> unit_pages b.
       \<not> pmm_reserved (pm_base p) kernel_start kernel_end dtb_ptr pa \<and> pa \<notin> page_set (snd r)) \<and>
    page_set (snd r) \<union> \<Union> (unit_pages ` set (fst r)) = page_set p \<and>
    pm_free (snd r) = card (page_set (snd r))"
proof -
  obtain held q where r: "r = (held, q)" by (cases r)
  have us: "pmm_usable p"
    using pmm_init_usable [OF assms(1,2)] p_def by simp
  have own: "pmm.owns held q" and cons: "page_set q \<union> \<Union> (unit_pages ` set held) = page_set p"
    using pmm.run_owns [OF us, of ops held q] r unfolding r_def by simp_all
  have ok: "pmm_ok q"
    using own by (simp add: pmm.owns_def pmm_usable_def)
  have "inj_on (page_addr q) (free_pages q)"
    by (intro inj_onI) (metis page_addr_inj [OF ok] free_pages_lt less_imp_le)
  then have "card (page_set q) = pm_free q"
    using ok by (simp add: page_set_def card_image pmm_ok_def)
  moreover have "\<not> pmm_reserved (pm_base p) kernel_start kernel_end dtb_ptr pa"
    if "b \<in> set held" "pa \<in> unit_pages b" for b pa
    using pmm_init_spec(3) [OF assms(1) refl, of pa] cons that unfolding p_def by blast
  ultimately show ?thesis
    using own cons r unfolding pmm.owns_def apart_def by auto
qed

definition pmm_static :: pmm where
  "pmm_static = \<lparr>pm_bitmap = replicate PMM_BITMAP_BYTES 0, pm_base = 0, pm_size = 0, pm_total = 0, pm_free = 0\<rparr>"

lemma pmm_blocks_disjoint_witness:
  "let p = pmm_init 0 0x3b400000 0x80000 0x200000 0x100 pmm_static;
       r = pool_run unit_alloc unit_release [Take Block, Take Page, Take Block, Give 1, Take Page] p
   in sorted_wrt (\<lambda>b c. unit_pages b \<inter> unit_pages c = {}) (fst r) \<and>
      page_set (snd r) \<union> \<Union> (unit_pages ` set (fst r)) = page_set p"
  using pmm_blocks_disjoint [of pmm_static 0 "[Take Block, Take Page, Take Block, Give 1, Take Page]"
      "0x3b400000" "0x80000" "0x200000" "0x100"]
  unfolding Let_def by (simp add: pmm_static_def)

end
