(* ===== verification/Paths.thy ===== *)
theory Paths
  imports Prelude
begin

text \<open>
  The path helpers of \<open>kernel-aarch64/sys_util.c\<close>. A NUL-terminated C string is the list of its
  characters before the NUL; a buffer of \<open>outsz\<close> bytes holds strings shorter than \<open>outsz\<close>. Functions
  that answer \<open>-1\<close> are options, functions that answer \<open>-errno\<close> have a sum result.

  The lemmas say what a normalised path is (\<open>path_of\<close> of a list of proper components), that
  \<open>normalize_abs_path\<close> computes the component-wise resolution of \<open>.\<close> and \<open>..\<close>, and what the other
  helpers do on normalised paths.
\<close>

definition MAX_PATH :: nat where
  "MAX_PATH = 256"

abbreviation slash :: char where
  "slash \<equiv> CHR ''/''"

abbreviation skip_slashes :: "string \<Rightarrow> string" where
  "skip_slashes \<equiv> dropWhile (\<lambda>c. c = slash)"

subsection \<open>The code\<close>

lemma skip_slashes_hd: "skip_slashes p = c # p' \<Longrightarrow> c \<noteq> slash"
  by (simp add: dropWhile_eq_Cons_conv)

lemma segment_shorter:
  "skip_slashes p = c # p' \<Longrightarrow> length (dropWhile (\<lambda>c. c \<noteq> slash) (c # p')) < length p"
proof -
  assume p: "skip_slashes p = c # p'"
  then have "c \<noteq> slash"
    by (rule skip_slashes_hd)
  then have "length (dropWhile (\<lambda>c. c \<noteq> slash) (c # p')) \<le> length p'"
    by (simp add: length_dropWhile_le)
  also have "\<dots> < length (skip_slashes p)"
    by (simp add: p)
  also have "\<dots> \<le> length p"
    by (rule length_dropWhile_le)
  finally show ?thesis .
qed

text \<open>
  The outer loop of \<open>normalize_abs_path\<close>: \<open>st\<close> is the stack \<open>seg_slash\<close> (its top first), \<open>out\<close> what
  the output buffer holds so far.
\<close>

function norm_loop :: "nat \<Rightarrow> nat list \<Rightarrow> string \<Rightarrow> string \<Rightarrow> string option" where
  "norm_loop outsz st out p =
     (case skip_slashes p of
        [] \<Rightarrow> Some out
      | c # p' \<Rightarrow>
          let seg = takeWhile (\<lambda>c. c \<noteq> slash) (c # p'); rest = dropWhile (\<lambda>c. c \<noteq> slash) (c # p')
          in if seg = ''.'' then norm_loop outsz st out rest
             else if seg = ''..'' then
               (case st of
                  [] \<Rightarrow> norm_loop outsz [] out rest
                | s # st' \<Rightarrow> norm_loop outsz st' (take s out) rest)
             else if outsz \<le> length out + 1 then None
             else if 64 \<le> length st then None
             else if outsz \<le> length out + 1 + length seg then None
             else norm_loop outsz (length out # st) (out @ slash # seg) rest)"
  by pat_completeness auto

termination
  by (relation "measure (\<lambda>(outsz, st, out, p). length p)") (use segment_shorter in auto)

declare norm_loop.simps [simp del]

definition normalize_abs_path :: "string \<Rightarrow> nat \<Rightarrow> string option" where
  "normalize_abs_path inp outsz =
     (if outsz < 2 then None
      else case norm_loop outsz [] [] inp of
        None \<Rightarrow> None
      | Some out \<Rightarrow> Some (if out = [] then [slash] else out))"

definition resolve_path :: "string \<Rightarrow> string \<Rightarrow> nat \<Rightarrow> string option" where
  "resolve_path cwd inp outsz =
     (if inp \<noteq> [] \<and> hd inp = slash then
        (if MAX_PATH < length inp + 1 then None else normalize_abs_path inp outsz)
      else if length cwd = 0 then None
      else if MAX_PATH < length cwd + 1 + length inp + 1 then None
      else normalize_abs_path (cwd @ slash # inp) outsz)"

definition trim_slashes :: "string \<Rightarrow> string" where
  "trim_slashes s = rev (skip_slashes (rev s))"

definition abs_path_to_no_slash_trim :: "string \<Rightarrow> nat \<Rightarrow> string res" where
  "abs_path_to_no_slash_trim abs_path outsz =
     (if outsz = 0 then Inl EINVAL
      else let p = skip_slashes abs_path
        in if p = [] then Inl EINVAL
           else if outsz < length p + 1 then Inl ENAMETOOLONG
           else let out = trim_slashes p in if out = [] then Inl EINVAL else Inr out)"

definition trim_slashes_keep_root :: "string \<Rightarrow> string" where
  "trim_slashes_keep_root s = (if s = [] then [] else hd s # trim_slashes (tl s))"

text \<open>The index of the last slash.\<close>

definition last_slash :: "string \<Rightarrow> nat option" where
  "last_slash s = map_option (\<lambda>i. length s - 1 - i) (find_slot (\<lambda>c. c = slash) (rev s))"

definition abs_path_parent_dir :: "string \<Rightarrow> nat \<Rightarrow> string res" where
  "abs_path_parent_dir abs_path outsz =
     (if outsz < 2 then Inl EINVAL
      else if outsz < length abs_path + 1 then Inl ENAMETOOLONG
      else let s = trim_slashes_keep_root abs_path
        in case last_slash s of
             None \<Rightarrow> Inl EINVAL
           | Some i \<Rightarrow> if i = 0 then Inr [slash] else Inr (take i s))"

subsection \<open>Normalised paths\<close>

text \<open>A component of a normalised path, and the path of a list of components.\<close>

definition proper :: "string \<Rightarrow> bool" where
  "proper c \<longleftrightarrow> c \<noteq> [] \<and> c \<noteq> ''.'' \<and> c \<noteq> ''..'' \<and> slash \<notin> set c"

definition joined :: "string list \<Rightarrow> string" where
  "joined cs = concat (map ((#) slash) cs)"

definition path_of :: "string list \<Rightarrow> string" where
  "path_of cs = (if cs = [] then [slash] else joined cs)"

definition normalized :: "string \<Rightarrow> bool" where
  "normalized s \<longleftrightarrow> (\<exists>cs. list_all proper cs \<and> s = path_of cs)"

text \<open>The components of a string, and the resolution of one component after those above it.\<close>

function components :: "string \<Rightarrow> string list" where
  "components p =
     (case skip_slashes p of
        [] \<Rightarrow> []
      | c # p' \<Rightarrow> takeWhile (\<lambda>c. c \<noteq> slash) (c # p') # components (dropWhile (\<lambda>c. c \<noteq> slash) (c # p')))"
  by pat_completeness auto

termination
  by (relation "measure length") (use segment_shorter in auto)

declare components.simps [simp del]

definition resolve1 :: "string list \<Rightarrow> string \<Rightarrow> string list" where
  "resolve1 cs c = (if c = ''.'' then cs else if c = ''..'' then butlast cs else cs @ [c])"

lemma resolve1_simps [simp]:
  "resolve1 cs ''.'' = cs" "resolve1 cs ''..'' = butlast cs"
  "c \<noteq> ''.'' \<Longrightarrow> c \<noteq> ''..'' \<Longrightarrow> resolve1 cs c = cs @ [c]"
  by (simp_all add: resolve1_def)

definition resolve :: "string list \<Rightarrow> string list" where
  "resolve cs = foldl resolve1 [] cs"

lemma joined_simps [simp]:
  "joined [] = []" "joined (c # cs) = slash # c @ joined cs" "joined (cs @ ds) = joined cs @ joined ds"
  by (simp_all add: joined_def)

lemma joined_empty [simp]: "joined cs = [] \<longleftrightarrow> cs = []"
  by (cases cs) auto

lemma components_Nil [simp]: "components [] = []"
  by (simp add: components.simps)

lemma components_slash [simp]: "components (slash # s) = components s"
  by (simp add: components.simps [of "slash # s"] components.simps [of s])

lemma components_segment:
  assumes "c \<noteq> []" and "slash \<notin> set c" and "s = [] \<or> hd s = slash"
  shows "components (c @ s) = c # components s"
proof -
  obtain a c' where c: "c = a # c'" using assms(1) by (cases c) auto
  then have a: "a \<noteq> slash" using assms(2) by auto
  have "takeWhile (\<lambda>c. c \<noteq> slash) (c @ s) = c @ takeWhile (\<lambda>c. c \<noteq> slash) s"
    using assms(2) by (intro takeWhile_append2) auto
  moreover have "takeWhile (\<lambda>c. c \<noteq> slash) s = []"
    using assms(3) by (cases s) auto
  moreover have "dropWhile (\<lambda>c. c \<noteq> slash) (c @ s) = dropWhile (\<lambda>c. c \<noteq> slash) s"
    using assms(2) by (intro dropWhile_append2) auto
  moreover have "dropWhile (\<lambda>c. c \<noteq> slash) s = s"
    using assms(3) by (cases s) auto
  ultimately show ?thesis
    using c a by (subst components.simps) simp
qed

lemma components_joined:
  "list_all (\<lambda>c. c \<noteq> [] \<and> slash \<notin> set c) cs \<Longrightarrow> components (joined cs) = cs"
proof (induction cs)
  case (Cons c cs)
  have "joined cs = [] \<or> hd (joined cs) = slash" by (cases cs) auto
  then show ?case using Cons components_segment [of c "joined cs"] by simp
qed simp

lemma proper_list_all: "list_all proper cs \<Longrightarrow> list_all (\<lambda>c. c \<noteq> [] \<and> slash \<notin> set c) cs"
  by (auto simp: list_all_iff proper_def)

lemma components_path_of: "list_all proper cs \<Longrightarrow> components (path_of cs) = cs"
  by (auto simp: path_of_def components_joined proper_list_all)

lemma components_wf: "list_all (\<lambda>c. c \<noteq> [] \<and> slash \<notin> set c) (components p)"
proof (induction p rule: components.induct)
  case (1 p)
  show ?case
  proof (cases "skip_slashes p")
    case Nil
    show ?thesis unfolding components.simps [of p] Nil by simp
  next
    case (Cons c p')
    then have "c \<noteq> slash"
      by (rule skip_slashes_hd)
    then show ?thesis
      using 1 Cons by (subst components.simps) (auto simp: Cons dest: set_takeWhileD)
  qed
qed

lemma resolve1_proper:
  "list_all proper cs \<Longrightarrow> c \<noteq> [] \<Longrightarrow> slash \<notin> set c \<Longrightarrow> list_all proper (resolve1 cs c)"
  by (auto simp: resolve1_def proper_def list_all_iff dest: in_set_butlastD)

lemma foldl_resolve1_proper:
  "list_all proper acc \<Longrightarrow> list_all (\<lambda>c. c \<noteq> [] \<and> slash \<notin> set c) cs \<Longrightarrow> list_all proper (foldl resolve1 acc cs)"
  by (induction cs arbitrary: acc) (simp_all add: resolve1_proper)

lemma resolve_proper: "list_all proper (resolve (components p))"
  unfolding resolve_def by (rule foldl_resolve1_proper) (simp_all add: components_wf)

lemma resolve_id: "list_all proper cs \<Longrightarrow> resolve cs = cs"
proof -
  have "list_all proper cs \<Longrightarrow> foldl resolve1 acc cs = acc @ cs" for acc
    by (induction cs arbitrary: acc) (auto simp: resolve1_def proper_def)
  then show "list_all proper cs \<Longrightarrow> resolve cs = cs" by (simp add: resolve_def)
qed

subsection \<open>\<open>normalize_abs_path\<close> resolves components\<close>

text \<open>
  The output buffer holds the joined components, the stack the lengths of their prefixes.
\<close>

fun prefix_lengths :: "string list \<Rightarrow> nat list" where
  "prefix_lengths [] = []"
| "prefix_lengths (c # cs) = length (joined (rev cs)) # prefix_lengths cs"

lemma length_prefix_lengths [simp]: "length (prefix_lengths cs) = length cs"
  by (induction cs) auto

text \<open>The buffer of \<open>outsz\<close> bytes and the stack of 64 entries are large enough at every step.\<close>

fun resolves_within :: "nat \<Rightarrow> string list \<Rightarrow> string list \<Rightarrow> bool" where
  "resolves_within outsz cs [] \<longleftrightarrow> True"
| "resolves_within outsz cs (d # ds) \<longleftrightarrow>
     (d = ''.'' \<or> d = ''..'' \<or> length cs < 64 \<and> length (joined (cs @ [d])) < outsz) \<and>
     resolves_within outsz (resolve1 cs d) ds"

lemma norm_loop_components:
  assumes "list_all (\<lambda>c. c \<noteq> []) (components p)"
  shows "norm_loop outsz (prefix_lengths cs) (joined (rev cs)) p =
    (if resolves_within outsz (rev cs) (components p)
     then Some (joined (foldl resolve1 (rev cs) (components p))) else None)"
proof (induction p arbitrary: cs rule: components.induct)
  case (1 p)
  show ?case
  proof (cases "skip_slashes p")
    case Nil
    then show ?thesis
      unfolding components.simps [of p] norm_loop.simps [of _ _ _ p] Nil by simp
  next
    case (Cons c p')
    define seg where "seg = takeWhile (\<lambda>c. c \<noteq> slash) (c # p')"
    define rest where "rest = dropWhile (\<lambda>c. c \<noteq> slash) (c # p')"
    have comp: "components p = seg # components rest"
      by (subst components.simps) (simp add: Cons seg_def rest_def)
    have seg: "seg \<noteq> []"
      using skip_slashes_hd [OF Cons] by (simp add: seg_def)
    note IH = "1.IH" [OF Cons, folded rest_def]
    have loop: "norm_loop outsz (prefix_lengths cs) (joined (rev cs)) p =
       (let out = joined (rev cs); st = prefix_lengths cs in
        if seg = ''.'' then norm_loop outsz st out rest
        else if seg = ''..'' then
          (case st of [] \<Rightarrow> norm_loop outsz [] out rest | s # st' \<Rightarrow> norm_loop outsz st' (take s out) rest)
        else if outsz \<le> length out + 1 then None
        else if 64 \<le> length st then None
        else if outsz \<le> length out + 1 + length seg then None
        else norm_loop outsz (length out # st) (out @ slash # seg) rest)"
      unfolding norm_loop.simps [of _ _ _ p] Cons Let_def seg_def rest_def by simp
    consider "seg = ''.''" | "seg = ''..''" "cs = []" | c cs' where "seg = ''..''" "cs = c # cs'"
      | "seg \<noteq> ''.''" "seg \<noteq> ''..''"
      by (cases cs) auto
    then show ?thesis
    proof cases
      case 1
      then show ?thesis using IH [of cs] by (simp add: loop comp)
    next
      case 2
      then show ?thesis using IH [of "[]"] loop by (simp add: comp)
    next
      case 3
      then show ?thesis using IH [of cs'] loop by (simp add: comp)
    next
      case 4
      then show ?thesis using IH [of "seg # cs"] seg
        by (auto simp: loop comp Let_def)
    qed
  qed
qed

lemma normalize_abs_path_eq:
  "2 \<le> outsz \<Longrightarrow> normalize_abs_path inp outsz =
    (if resolves_within outsz [] (components inp) then Some (path_of (resolve (components inp))) else None)"
  using norm_loop_components [of inp outsz "[]"] components_wf [of inp]
  by (auto simp: normalize_abs_path_def path_of_def resolve_def list_all_iff)

lemma resolves_within_length:
  assumes "resolves_within outsz acc cs" and "acc = [] \<or> length (joined acc) < outsz" and "0 < outsz"
  shows "length (joined (foldl resolve1 acc cs)) < outsz"
  using assms
proof (induction cs arbitrary: acc)
  case Nil
  then show ?case by auto
next
  case (Cons d ds)
  have "resolve1 acc d = [] \<or> length (joined (resolve1 acc d)) < outsz"
  proof (cases "d = ''..'' \<and> acc \<noteq> []")
    case True
    then have "acc = butlast acc @ [last acc]" by simp
    then have "length (joined acc) = length (joined (butlast acc)) + length (joined [last acc])"
      by (metis joined_simps(3) length_append)
    then show ?thesis
      using True Cons.prems(2) by (auto simp: resolve1_def)
  qed (use Cons.prems in \<open>auto simp: resolve1_def\<close>)
  then show ?case
    using Cons by simp
qed

lemma resolves_within_short:
  assumes "length acc + length cs \<le> 64" and "length (joined acc) + length (joined cs) < outsz"
  shows "resolves_within outsz acc cs"
  using assms
proof (induction cs arbitrary: acc)
  case (Cons d ds)
  have "length (resolve1 acc d) \<le> length acc + 1"
    by (auto simp: resolve1_def)
  moreover have "length (joined (resolve1 acc d)) \<le> length (joined acc) + Suc (length d)"
  proof (cases "acc = []")
    case False
    then have "length (joined acc) = length (joined (butlast acc)) + length (joined [last acc])"
      by (metis append_butlast_last_id joined_simps(3) length_append)
    then show ?thesis by (auto simp: resolve1_def)
  qed (auto simp: resolve1_def)
  ultimately show ?case
    using Cons by auto
qed simp

lemma rest_head: "dropWhile (\<lambda>c. c \<noteq> slash) s = [] \<or> hd (dropWhile (\<lambda>c. c \<noteq> slash) s) = slash"
  using hd_dropWhile [of "\<lambda>c. c \<noteq> slash" s] by blast

lemma joined_components_le:
  "length (joined (components p)) \<le> length p + (if p = [] \<or> hd p = slash then 0 else 1)"
proof (induction p rule: components.induct)
  case (1 p)
  show ?case
  proof (cases "skip_slashes p")
    case Nil
    show ?thesis unfolding components.simps [of p] Nil by simp
  next
    case (Cons c p')
    define rest where "rest = dropWhile (\<lambda>c. c \<noteq> slash) (c # p')"
    define seg where "seg = takeWhile (\<lambda>c. c \<noteq> slash) (c # p')"
    have comp: "components p = seg # components rest"
      unfolding components.simps [of p] Cons by (simp add: seg_def rest_def)
    have len: "length seg + length rest = length (skip_slashes p)"
      unfolding Cons seg_def rest_def by (metis length_append takeWhile_dropWhile_id)
    have "length (joined (components rest)) \<le> length rest"
      using "1.IH" [OF Cons] rest_head [of "c # p'"] unfolding rest_def by (simp split: if_splits)
    moreover have "length (skip_slashes p) + 1 \<le> length p + (if p = [] \<or> hd p = slash then 0 else 1)"
      using Cons length_dropWhile_le [of "\<lambda>c. c = slash" "tl p"] by (cases p) auto
    ultimately show ?thesis
      using len by (simp add: comp)
  qed
qed

text \<open>
  C6: Whenever \<open>normalize_abs_path\<close> succeeds, its output is the normalised path of the components
  of its input with every \<open>.\<close> dropped and every \<open>..\<close> removing the component before it; the output
  fits the buffer and normalising it again gives it back. An absolute input shorter than the buffer
  with at most 64 components always succeeds.
\<close>

theorem normalize_abs_path_correct:
  assumes "2 \<le> outsz"
  shows "case normalize_abs_path inp outsz of
      Some out \<Rightarrow> out = path_of (resolve (components inp)) \<and> normalized out \<and> length out < outsz \<and>
        normalize_abs_path out outsz = Some out
    | None \<Rightarrow> \<not> (hd inp = slash \<and> length inp < outsz \<and> length (components inp) \<le> 64)"
proof (cases "resolves_within outsz [] (components inp)")
  case True
  let ?cs = "resolve (components inp)"
  have out: "normalize_abs_path inp outsz = Some (path_of ?cs)"
    using normalize_abs_path_eq [OF assms] True by simp
  have pr: "list_all proper ?cs" by (rule resolve_proper)
  have len: "length (joined ?cs) < outsz"
    using resolves_within_length [OF True] assms by (simp add: resolve_def)
  have "length ?cs \<le> 64"
  proof -
    have "length acc \<le> 64 \<Longrightarrow> resolves_within outsz acc cs \<Longrightarrow> length (foldl resolve1 acc cs) \<le> 64" for acc cs
      by (induction cs arbitrary: acc) (auto simp: resolve1_def)
    then show ?thesis using True by (simp add: resolve_def)
  qed
  then have "resolves_within outsz [] ?cs"
    using len by (intro resolves_within_short) auto
  then have "normalize_abs_path (path_of ?cs) outsz = Some (path_of ?cs)"
    using normalize_abs_path_eq [OF assms, of "path_of ?cs"] components_path_of [OF pr] resolve_id [OF pr]
    by simp
  then show ?thesis
    using out pr len assms by (auto simp: normalized_def path_of_def)
next
  case False
  then have "\<not> (length (components inp) \<le> 64 \<and> length (joined (components inp)) < outsz)"
    using resolves_within_short [of "[]" "components inp" outsz] by auto
  then show ?thesis
    using normalize_abs_path_eq [OF assms, of inp] False joined_components_le [of inp] assms
    by (auto split: if_splits)
qed

lemma normalize_abs_path_correct_witness:
  "normalize_abs_path ''/usr//./bin/../lib/'' 256 = Some ''/usr/lib'' \<and> normalized ''/usr/lib''"
proof -
  have eq: "normalize_abs_path ''/usr//./bin/../lib/'' 256 = Some ''/usr/lib''"
    by code_simp
  have "(2 :: nat) \<le> 256" by simp
  from normalize_abs_path_correct [OF this, of "''/usr//./bin/../lib/''", unfolded eq option.case]
  show ?thesis using eq by blast
qed

subsection \<open>The other helpers on normalised paths\<close>

lemma normalized_head: "normalized s \<Longrightarrow> s \<noteq> [] \<and> hd s = slash"
  by (auto simp: normalized_def path_of_def joined_def neq_Nil_conv)

lemma proper_hd: "proper c \<Longrightarrow> c \<noteq> [] \<and> hd c \<noteq> slash \<and> last c \<noteq> slash"
  by (auto simp: proper_def dest: hd_in_set last_in_set)

lemma skip_slashes_joined: "proper c \<Longrightarrow> skip_slashes (joined (c # cs)) = c @ joined cs"
  using proper_hd [of c] by (cases c) auto

lemma last_joined: "list_all proper cs \<Longrightarrow> cs \<noteq> [] \<Longrightarrow> last (joined cs) = last (last cs)"
  by (cases cs rule: rev_cases) (auto simp: proper_def last_append)

lemma trim_slashes_id: "s = [] \<or> last s \<noteq> slash \<Longrightarrow> trim_slashes s = s"
  by (cases s rule: rev_cases) (auto simp: trim_slashes_def)

text \<open>
  On a normalised path other than the root, dropping the leading slash and splitting off the parent
  are exact; the root itself has no overlay name (\<open>EINVAL\<close>) and is its own parent.
\<close>

lemma to_no_slash_path_of:
  assumes "list_all proper (c # cs)" and "length (path_of (c # cs)) \<le> outsz"
  shows "abs_path_to_no_slash_trim (path_of (c # cs)) outsz = Inr (tl (path_of (c # cs)))"
proof -
  have "last (c @ joined cs) \<noteq> slash"
    using assms(1) last_joined [of cs] proper_hd by (cases cs rule: rev_cases) auto
  then show ?thesis
    using assms skip_slashes_joined [of c cs] proper_hd [of c] trim_slashes_id [of "c @ joined cs"]
    by (simp add: abs_path_to_no_slash_trim_def path_of_def Let_def)
qed

lemma to_no_slash_root: "abs_path_to_no_slash_trim [slash] outsz = Inl EINVAL"
  by (simp add: abs_path_to_no_slash_trim_def)

lemma last_slash_joined:
  assumes "proper c"
  shows "last_slash (joined cs @ slash # c) = Some (length (joined cs))"
proof -
  have "find_slot (\<lambda>c. c = slash) (rev c @ slash # r) = Some (length c)" for r
  proof -
    have "slash \<notin> set (rev c)" using assms by (simp add: proper_def)
    then have "find_slot (\<lambda>c. c = slash) (d @ slash # r) = Some (length d)" if "slash \<notin> set d" for d
      using that by (induction d) auto
    then show ?thesis using \<open>slash \<notin> set (rev c)\<close> by fastforce
  qed
  then show ?thesis by (simp add: last_slash_def)
qed

lemma parent_dir_path_of:
  assumes "list_all proper (cs @ [c])" and "length (path_of (cs @ [c])) < outsz" 
  shows "abs_path_parent_dir (path_of (cs @ [c])) outsz = Inr (path_of cs)"
proof -
  have c: "proper c" using assms(1) by simp
  have ne: "joined cs @ slash # c = slash # tl (joined cs @ slash # c)"
    by (cases cs) auto
  have "last (tl (joined cs @ slash # c)) \<noteq> slash"
    using proper_hd [OF c] by (cases cs) auto
  then have "trim_slashes_keep_root (joined cs @ slash # c) = joined cs @ slash # c"
    using trim_slashes_id [of "tl (joined cs @ slash # c)"] ne
    by (metis list.sel(1) list.distinct(1) trim_slashes_keep_root_def)
  moreover have "length (joined cs) = 0 \<longleftrightarrow> cs = []" by simp
  ultimately show ?thesis
    using assms(2) last_slash_joined [OF c, of cs]
    by (auto simp: abs_path_parent_dir_def path_of_def Let_def)
qed

lemma parent_dir_root: "2 \<le> outsz \<Longrightarrow> abs_path_parent_dir [slash] outsz = Inr [slash]"
  by (simp add: abs_path_parent_dir_def trim_slashes_keep_root_def trim_slashes_def last_slash_def)

lemma resolve_path_normalized:
  "resolve_path cwd inp outsz = Some out \<Longrightarrow> normalized out \<and> length out < outsz"
proof -
  assume r: "resolve_path cwd inp outsz = Some out"
  then obtain p where p: "normalize_abs_path p outsz = Some out"
    by (auto simp: resolve_path_def split: if_splits)
  then have "2 \<le> outsz" by (auto simp: normalize_abs_path_def split: if_splits)
  then show ?thesis
    using normalize_abs_path_eq [of outsz p] p resolve_proper resolves_within_length [of outsz "[]" "components p"]
    by (auto simp: normalized_def path_of_def resolve_def split: if_splits)
qed

end
