(* ===== verification/UserMem.thy ===== *)
theory UserMem
  imports Pmm
begin

text \<open>
  Memory as the kernel reaches it while a process runs, and the user-copy helpers of
  \<open>kernel-aarch64/sys_util.c\<close>. Physical memory is a function from addresses to bytes. The kernel
  runs on the address space of the current process: the 2 MiB user region is mapped to the
  process' own physical block, every other address to itself (\<open>mmu.c\<close>), so the address the
  kernel reads through a user pointer is \<open>user_pa\<close> of it.

  The lemmas say that the range check keeps every access inside the user region, without
  wrap-around, and that writes through one block never show in another.
\<close>

type_synonym memory = "u64 \<Rightarrow> u8"

definition USER_REGION_END :: u64 where
  "USER_REGION_END = USER_REGION_BASE + USER_REGION_SIZE"

definition user_pa :: "u64 \<Rightarrow> u64 \<Rightarrow> u64" where
  "user_pa base va =
     (if USER_REGION_BASE \<le> va \<and> va < USER_REGION_END then base + (va - USER_REGION_BASE) else va)"

definition user_range_ok :: "u64 \<Rightarrow> u64 \<Rightarrow> bool" where
  "user_range_ok user_ptr len =
     (if len = 0 then True
      else if user_ptr < USER_REGION_BASE then False
      else if USER_REGION_BASE + USER_REGION_SIZE \<le> user_ptr then False
      else if user_ptr + len < user_ptr then False
      else if USER_REGION_BASE + USER_REGION_SIZE < user_ptr + len then False
      else True)"

subsection \<open>Loads and stores of runs of bytes\<close>

definition load_bytes :: "u64 \<Rightarrow> memory \<Rightarrow> u64 \<Rightarrow> nat \<Rightarrow> u8 list" where
  "load_bytes base m va n = map (\<lambda>i. m (user_pa base (va + word_of_nat i))) [0..<n]"

fun store_bytes :: "u64 \<Rightarrow> u64 \<Rightarrow> u8 list \<Rightarrow> memory \<Rightarrow> memory" where
  "store_bytes base va [] m = m"
| "store_bytes base va (b # bs) m = store_bytes base (va + 1) bs (m(user_pa base va := b))"

definition bytes_of_u64 :: "u64 \<Rightarrow> u8 list" where
  "bytes_of_u64 v = map (\<lambda>i. ucast (drop_bit (8 * i) v)) [0..<8]"

fun u64_of_bytes :: "u8 list \<Rightarrow> u64" where
  "u64_of_bytes [] = 0"
| "u64_of_bytes (b # bs) = ucast b OR push_bit 8 (u64_of_bytes bs)"

definition bytes_of_u32 :: "u32 \<Rightarrow> u8 list" where
  "bytes_of_u32 v = map (\<lambda>i. ucast (drop_bit (8 * i) v)) [0..<4]"

definition bytes_of_u16 :: "u16 \<Rightarrow> u8 list" where
  "bytes_of_u16 v = map (\<lambda>i. ucast (drop_bit (8 * i) v)) [0..<2]"

subsection \<open>The helpers\<close>

definition byte_char :: "u8 \<Rightarrow> char" where
  "byte_char b = char_of (unat b)"

text \<open>The loop of \<open>copy_cstr_from_user\<close>: \<open>n\<close> bytes of the buffer are left.\<close>

fun copy_cstr_loop :: "nat \<Rightarrow> u64 \<Rightarrow> memory \<Rightarrow> u64 \<Rightarrow> string option" where
  "copy_cstr_loop 0 base m p = None"
| "copy_cstr_loop (Suc n) base m p =
     (if \<not> user_range_ok p 1 then None
      else let c = byte_char (m (user_pa base p))
        in if c = CHR 0x00 then Some [] else map_option ((#) c) (copy_cstr_loop n base m (p + 1)))"

definition copy_cstr_from_user :: "nat \<Rightarrow> u64 \<Rightarrow> memory \<Rightarrow> u64 \<Rightarrow> string option" where
  "copy_cstr_from_user dstsz base m user_ptr =
     (if dstsz = 0 then None else copy_cstr_loop dstsz base m user_ptr)"

definition read_u64_from_user :: "u64 \<Rightarrow> memory \<Rightarrow> u64 \<Rightarrow> u64 option" where
  "read_u64_from_user base m user_ptr =
     (if \<not> user_range_ok user_ptr 8 then None else Some (u64_of_bytes (load_bytes base m user_ptr 8)))"

definition write_bytes_to_user :: "u64 \<Rightarrow> u64 \<Rightarrow> u8 list \<Rightarrow> memory \<Rightarrow> memory option" where
  "write_bytes_to_user base user_dst src m =
     (if \<not> user_range_ok user_dst (word_of_nat (length src)) then None
      else Some (store_bytes base user_dst src m))"

definition write_u64_to_user :: "u64 \<Rightarrow> u64 \<Rightarrow> u64 \<Rightarrow> memory \<Rightarrow> memory option" where
  "write_u64_to_user base user_dst v m =
     (if \<not> user_range_ok user_dst 8 then None else Some (store_bytes base user_dst (bytes_of_u64 v) m))"

definition write_u16_to_user :: "u64 \<Rightarrow> u64 \<Rightarrow> u16 \<Rightarrow> memory \<Rightarrow> memory option" where
  "write_u16_to_user base user_dst v m =
     (if \<not> user_range_ok user_dst 2 then None else Some (store_bytes base user_dst (bytes_of_u16 v) m))"

subsection \<open>The range check\<close>

lemma user_region_nat:
  "unat USER_REGION_BASE = 0x400000" "unat USER_REGION_END = 0x600000" "unat USER_REGION_SIZE = 0x200000"
  by (simp_all add: USER_REGION_BASE_def USER_REGION_SIZE_def USER_REGION_END_def)

text \<open>The check is exactly containment in the user region, in unbounded arithmetic.\<close>

lemma user_range_ok_iff:
  "user_range_ok p n \<longleftrightarrow> n = 0 \<or> 0x400000 \<le> unat p \<and> unat p + unat n \<le> 0x600000"
proof -
  have lt: "unat p < 2 ^ 64" "unat n < 2 ^ 64"
    using unsigned_less [of p] unsigned_less [of n] by simp_all
  have sum: "unat (p + n) = (if unat p + unat n < 2 ^ 64 then unat p + unat n else unat p + unat n - 2 ^ 64)"
    using lt by (auto simp: unat_word_ariths mod_if)
  show ?thesis
  proof (cases "n = 0")
    case False
    then have "0 < unat n" by (simp add: unat_gt_0)
    then show ?thesis
    using lt sum False unfolding user_range_ok_def word_le_nat_alt word_less_nat_alt
    by (auto simp: USER_REGION_BASE_def USER_REGION_SIZE_def split: if_splits)
  qed (simp add: user_range_ok_def)
qed

lemma user_range_ok_byte:
  assumes "user_range_ok p n" and "i < unat n"
  shows "user_range_ok (p + word_of_nat i) 1"
    and "user_pa base (p + word_of_nat i) = base + (p - USER_REGION_BASE) + word_of_nat i"
proof -
  have n: "0x400000 \<le> unat p" "unat p + unat n \<le> 0x600000"
    using assms by (auto simp: user_range_ok_iff)
  then have i: "unat (p + word_of_nat i) = unat p + i"
    using assms(2) by (simp add: unat_word_ariths)
  then show "user_range_ok (p + word_of_nat i) 1"
    using n assms(2) by (simp add: user_range_ok_iff)
  have "USER_REGION_BASE \<le> p + word_of_nat i" "p + word_of_nat i < USER_REGION_END"
    using n assms(2) i by (simp_all add: word_le_nat_alt word_less_nat_alt user_region_nat)
  then show "user_pa base (p + word_of_nat i) = base + (p - USER_REGION_BASE) + word_of_nat i"
    by (simp add: user_pa_def algebra_simps)
qed

subsection \<open>Blocks\<close>

text \<open>The physical addresses of the 2 MiB block of a process.\<close>

definition block :: "u64 \<Rightarrow> u64 set" where
  "block base = {base + off | off. off < USER_REGION_SIZE}"

lemma user_pa_in_block:
  assumes "USER_REGION_BASE \<le> va" and "va < USER_REGION_END"
  shows "user_pa base va \<in> block base"
proof -
  have "unat (va - USER_REGION_BASE) < 0x200000"
    using assms by (simp add: unat_sub word_le_nat_alt word_less_nat_alt user_region_nat)
  then have "va - USER_REGION_BASE < USER_REGION_SIZE"
    by (simp add: word_less_nat_alt user_region_nat)
  then show ?thesis
    using assms by (auto simp: block_def user_pa_def)
qed

lemma store_bytes_frame:
  assumes "\<And>i. i < length bs \<Longrightarrow> user_pa base (va + word_of_nat i) \<noteq> a"
  shows "store_bytes base va bs m a = m a"
  using assms
proof (induction bs arbitrary: va m)
  case (Cons b bs)
  have "store_bytes base (va + 1) bs (m(user_pa base va := b)) a = (m(user_pa base va := b)) a"
    using Cons.prems [of "Suc i" for i] by (intro Cons.IH) (simp add: algebra_simps)
  then show ?case
    using Cons.prems [of 0] by simp
qed simp

text \<open>A checked write touches only the block of the process.\<close>

lemma store_bytes_block:
  assumes "user_range_ok va (word_of_nat (length bs))" and "length bs < 2 ^ 64" and "a \<notin> block base"
  shows "store_bytes base va bs m a = m a"
proof (rule store_bytes_frame)
  fix i
  assume i: "i < length bs"
  have "unat (word_of_nat (length bs) :: u64) = length bs"
    using assms(2) by simp
  then have "user_range_ok (va + word_of_nat i) 1"
    using user_range_ok_byte(1) [OF assms(1), of i] i by simp
  then have "USER_REGION_BASE \<le> va + word_of_nat i" "va + word_of_nat i < USER_REGION_END"
    by (auto simp: user_range_ok_iff word_le_nat_alt word_less_nat_alt user_region_nat)
  then show "user_pa base (va + word_of_nat i) \<noteq> a"
    using user_pa_in_block assms(3) by metis
qed

lemma write_user_block:
  "write_bytes_to_user base va bs m = Some m' \<Longrightarrow> length bs < 2 ^ 64 \<Longrightarrow> a \<notin> block base \<Longrightarrow> m' a = m a"
  "write_u64_to_user base va v m = Some m' \<Longrightarrow> a \<notin> block base \<Longrightarrow> m' a = m a"
  "write_u16_to_user base va w m = Some m' \<Longrightarrow> a \<notin> block base \<Longrightarrow> m' a = m a"
  by (auto simp: write_bytes_to_user_def write_u64_to_user_def write_u16_to_user_def bytes_of_u64_def
      bytes_of_u16_def intro!: store_bytes_block split: if_splits)

subsection \<open>What was written is what is read\<close>

lemma user_pa_inj:
  assumes "user_range_ok va n" and "i < unat n" and "j < unat n"
    and "user_pa base (va + word_of_nat i) = user_pa base (va + word_of_nat j)"
  shows "i = j"
proof -
  have "(word_of_nat i :: u64) = word_of_nat j"
    using assms user_range_ok_byte(2) [OF assms(1,2)] user_range_ok_byte(2) [OF assms(1,3)] by simp
  then have "unat (word_of_nat i :: u64) = unat (word_of_nat j :: u64)" by simp
  moreover have "unat n < 2 ^ 64"
    using unsigned_less [of n] by simp
  then have "i < 2 ^ 64" "j < 2 ^ 64"
    using assms(2,3) by simp_all
  ultimately show ?thesis by simp
qed

lemma store_bytes_nth:
  assumes "\<And>i j. i < length bs \<Longrightarrow> j < length bs \<Longrightarrow>
      user_pa base (va + word_of_nat i) = user_pa base (va + word_of_nat j) \<Longrightarrow> i = j"
    and "i < length bs"
  shows "store_bytes base va bs m (user_pa base (va + word_of_nat i)) = bs ! i"
  using assms
proof (induction bs arbitrary: va m i)
  case (Cons b bs)
  let ?m = "m(user_pa base va := b)"
  show ?case
  proof (cases i)
    case 0
    have "store_bytes base (va + 1) bs ?m (user_pa base va) = ?m (user_pa base va)"
      using Cons.prems(1) [of "Suc j" 0 for j] by (intro store_bytes_frame) (auto simp: algebra_simps)
    then show ?thesis using 0 by simp
  next
    case (Suc k)
    have "store_bytes base (va + 1) bs ?m (user_pa base ((va + 1) + word_of_nat k)) = bs ! k"
    proof (rule Cons.IH)
      show "k < length bs" using Cons.prems(2) Suc by simp
      fix i j
      assume "i < length bs" "j < length bs"
        "user_pa base (va + 1 + word_of_nat i) = user_pa base (va + 1 + word_of_nat j)"
      then show "i = j"
        using Cons.prems(1) [of "Suc i" "Suc j"] by (simp add: algebra_simps)
    qed
    then show ?thesis using Suc by (simp add: algebra_simps)
  qed
qed simp

lemma load_store_bytes:
  assumes "user_range_ok va (word_of_nat (length bs))" and "length bs < 2 ^ 64"
  shows "load_bytes base (store_bytes base va bs m) va (length bs) = bs"
proof (rule nth_equalityI)
  fix i
  assume "i < length (load_bytes base (store_bytes base va bs m) va (length bs))"
  then have i: "i < length bs" by (simp add: load_bytes_def)
  have "unat (word_of_nat (length bs) :: u64) = length bs"
    using assms(2) by simp
  then show "load_bytes base (store_bytes base va bs m) va (length bs) ! i = bs ! i"
    using i store_bytes_nth [of bs base va i m] user_pa_inj [OF assms(1)] by (simp add: load_bytes_def)
qed (simp add: load_bytes_def)

lemma bit_u64_of_bytes:
  "bit (u64_of_bytes bs) n \<longleftrightarrow> n < 64 \<and> n div 8 < length bs \<and> bit (bs ! (n div 8)) (n mod 8)"
proof (induction bs arbitrary: n)
  case (Cons b bs)
  show ?case
  proof (cases "n < 8")
    case True
    then show ?thesis by (auto simp: bit_simps)
  next
    case False
    then have "n div 8 = Suc ((n - 8) div 8)" "n mod 8 = (n - 8) mod 8"
      by (auto simp: div_if mod_if)
    moreover have "\<not> bit b n" using False by (simp add: bit_imp_le_length [of b n] impossible_bit)
    ultimately show ?thesis using False Cons.IH [of "n - 8"] by (auto simp: bit_simps)
  qed
qed simp

lemma u64_roundtrip [simp]: "u64_of_bytes (bytes_of_u64 v) = v"
proof (rule bit_word_eqI)
  fix n
  assume "n < LENGTH(64)"
  then show "bit (u64_of_bytes (bytes_of_u64 v)) n \<longleftrightarrow> bit v n"
    by (auto simp: bit_u64_of_bytes bytes_of_u64_def bit_simps less_eq_div_iff_mult_less_eq)
qed

end
