(* ===== verification/Cpio.thy ===== *)
theory Cpio
  imports UserMem
begin

text \<open>
  \<open>kernel-aarch64/cpio_newc.c\<close>: the reader of the \<open>newc\<close> archive that holds the initial file
  system. The archive is the list of its bytes; a pointer into it is an offset, and the test
  \<open>(size_t)(end - p) < n\<close> is made on the wrapped 64-bit difference, as in the code.

  The writer of \<open>tools/mkcpio_newc.py\<close> is modelled too, from the list of files that the walk over the
  directory has made: looking a name up in an archive it wrote gives the contents that were packed under
  that name, when the names are ASCII. Names are strings of characters up to U+00FF here.
\<close>

record cpio_entry =
  ce_name :: string
  ce_mode :: u32
  ce_data :: nat
  ce_size :: u32

subsection \<open>The reader\<close>

definition is_hex :: "u8 \<Rightarrow> bool" where
  "is_hex c \<longleftrightarrow> (48 \<le> c \<and> c \<le> 57) \<or> (97 \<le> c \<and> c \<le> 102) \<or> (65 \<le> c \<and> c \<le> 70)"

definition hex_digit :: "u8 \<Rightarrow> u32" where
  "hex_digit c = (if 48 \<le> c \<and> c \<le> 57 then ucast (c - 48)
     else if 97 \<le> c \<and> c \<le> 102 then 10 + ucast (c - 97)
     else 10 + (ucast c - 65))"

definition hex8_to_u32 :: "u8 list \<Rightarrow> u32" where
  "hex8_to_u32 p = foldl (\<lambda>v c. push_bit 4 v OR hex_digit c) 0 (take 8 p)"

definition pad4 :: "u64 \<Rightarrow> u64" where
  "pad4 n = (4 - (n AND 3)) AND 3"

definition c_string :: "u8 list \<Rightarrow> string" where
  "c_string p = map byte_char (takeWhile (\<lambda>b. b \<noteq> 0) p)"

text \<open>\<open>(size_t)(end - p)\<close> at offset \<open>p\<close> of the archive.\<close>

definition bytes_left :: "u8 list \<Rightarrow> nat \<Rightarrow> u64" where
  "bytes_left ar p = word_of_nat (length ar) - word_of_nat p"

definition newc_magic :: "u8 list" where
  "newc_magic = [48, 55, 48, 55, 48, 49]"

definition parse_one :: "u8 list \<Rightarrow> nat \<Rightarrow> (cpio_entry \<times> nat) option" where
  "parse_one ar p =
     (if bytes_left ar p < 110 then None
      else if take 6 (drop p ar) \<noteq> newc_magic then None
      else if \<not> list_all is_hex (take 104 (drop (p + 6) ar)) then None
      else
        let mode = hex8_to_u32 (drop (p + 14) ar);
            filesize = hex8_to_u32 (drop (p + 54) ar);
            namesize = hex8_to_u32 (drop (p + 94) ar);
            name = p + 110
        in if bytes_left ar name < ucast namesize then None
           else if namesize = 0 then None
           else if ar ! (name + unat namesize - 1) \<noteq> 0 then None
           else
             let data = name + unat namesize + unat (pad4 (110 + ucast namesize))
             in if bytes_left ar data < ucast filesize then None
                else Some (\<lparr>ce_name = c_string (drop name ar), ce_mode = mode, ce_data = data, ce_size = filesize\<rparr>,
                           data + unat filesize + unat (pad4 (ucast filesize))))"

definition trailer :: string where
  "trailer = ''TRAILER!!!''"

lemma parse_one_progress: "parse_one ar p = Some (e, q) \<Longrightarrow> p < q"
  by (auto simp: parse_one_def Let_def split: if_splits)

function find_loop :: "u8 list \<Rightarrow> string \<Rightarrow> nat \<Rightarrow> cpio_entry option" where
  "find_loop ar name p =
     (case parse_one ar p of
        None \<Rightarrow> None
      | Some (e, q) \<Rightarrow>
          if ce_name e = trailer then None
          else if ce_name e = name then Some e
          else if length ar \<le> q then None
          else find_loop ar name q)"
  by pat_completeness auto
termination
  by (relation "measure (\<lambda>(ar, name, p). length ar - p)")
    (auto dest!: parse_one_progress)

declare find_loop.simps [simp del]

definition cpio_newc_find :: "u8 list \<Rightarrow> string \<Rightarrow> cpio_entry option" where
  "cpio_newc_find ar name = find_loop ar name 0"

text \<open>The callback of the iteration works on a state of its own; a nonzero answer stops it.\<close>

function foreach_loop :: "u8 list \<Rightarrow> (cpio_entry \<Rightarrow> 's \<Rightarrow> int \<times> 's) \<Rightarrow> nat \<Rightarrow> 's \<Rightarrow> int \<times> 's" where
  "foreach_loop ar cb p s =
     (case parse_one ar p of
        None \<Rightarrow> (-1, s)
      | Some (e, q) \<Rightarrow>
          if ce_name e = trailer then (0, s)
          else case cb e s of (rc, s') \<Rightarrow>
            if rc \<noteq> 0 then (rc, s')
            else if length ar \<le> q then (-1, s')
            else foreach_loop ar cb q s')"
  by pat_completeness auto
termination
  by (relation "measure (\<lambda>(ar, cb, p, s). length ar - p)")
    (auto dest!: parse_one_progress)

declare foreach_loop.simps [simp del]

definition cpio_newc_foreach :: "u8 list \<Rightarrow> (cpio_entry \<Rightarrow> 's \<Rightarrow> int \<times> 's) \<Rightarrow> 's \<Rightarrow> int \<times> 's" where
  "cpio_newc_foreach ar cb s = foreach_loop ar cb 0 s"

subsection \<open>The writer\<close>

definition hex_char :: "u32 \<Rightarrow> u8" where
  "hex_char d = (if d < 10 then 48 + ucast d else 87 + ucast d)"

definition to_hex8 :: "u32 \<Rightarrow> u8 list" where
  "to_hex8 v = map (\<lambda>i. hex_char (drop_bit (28 - 4 * i) v AND 15)) [0..<8]"

definition char_byte :: "char \<Rightarrow> u8" where
  "char_byte c = word_of_nat (of_char c)"

text \<open>\<open>name.encode("utf-8")\<close> makes two bytes of a character from U+0080 on; the script counts the
characters of the name, not its bytes.\<close>

definition utf8 :: "char \<Rightarrow> u8 list" where
  "utf8 c = (let n = of_char c :: nat in
     if n < 128 then [word_of_nat n] else [0xC0 OR word_of_nat (n div 64), 0x80 OR word_of_nat (n mod 64)])"

definition ascii :: "string \<Rightarrow> bool" where
  "ascii s \<longleftrightarrow> list_all (\<lambda>c. of_char c < (128 :: nat)) s"

text \<open>One packed file: its name, its contents and its mode.\<close>

definition write_newc_entry :: "string \<times> u8 list \<times> u32 \<Rightarrow> u8 list" where
  "write_newc_entry f =
     (case f of (name, contents, mode) \<Rightarrow>
        let namesz = length name + 1; filesize = length contents in
        newc_magic @
        concat (map to_hex8
          [0, mode, 0, 0, 1, 0, word_of_nat filesize, 0, 0, 0, 0, word_of_nat namesz, 0]) @
        concat (map utf8 name) @ [0] @
        replicate (unat (pad4 (word_of_nat (110 + namesz)))) 0 @
        contents @
        replicate (unat (pad4 (word_of_nat filesize))) 0)"

definition build_archive :: "(string \<times> u8 list \<times> u32) list \<Rightarrow> u8 list" where
  "build_archive files = concat (map write_newc_entry files) @ write_newc_entry (trailer, [], 0x8000)"

subsection \<open>Hexadecimal fields\<close>

lemma and_15: "(d :: u32) AND 15 = take_bit 4 d"
  by (simp add: take_bit_eq_mask mask_eq_exp_minus_1)

lemma nibble_cases:
  "(d :: u32) AND 15 \<in> {0, 1, 2, 3, 4, 5, 6, 7, 8, 9, 10, 11, 12, 13, 14, 15}"
proof -
  have "unat (d AND 15) < 16"
    unfolding and_15 by (simp only: unsigned_take_bit_eq) (simp add: take_bit_eq_mod)
  moreover have "n < 16 \<Longrightarrow> n \<in> {0, 1, 2, 3, 4, 5, 6, 7, 8, 9, 10, 11, 12, 13, 14, 15}" for n :: nat
    unfolding insert_iff empty_iff by presburger
  ultimately have "unat (d AND 15) \<in> {0, 1, 2, 3, 4, 5, 6, 7, 8, 9, 10, 11, 12, 13, 14, 15}"
    by blast
  then show ?thesis
    by (auto dest!: arg_cong [of _ _ "word_of_nat :: nat \<Rightarrow> u32"])
qed

lemma hex_char_digit: "hex_digit (hex_char (d AND 15)) = d AND 15"
  using nibble_cases [of d] by (auto simp: hex_digit_def hex_char_def)

lemma is_hex_hex_char: "is_hex (hex_char (d AND 15))"
  using nibble_cases [of d] by (auto simp: is_hex_def hex_char_def)

lemma length_to_hex8 [simp]: "length (to_hex8 v) = 8"
  by (simp add: to_hex8_def)

lemma is_hex_to_hex8: "list_all is_hex (to_hex8 v)"
  by (simp add: to_hex8_def list_all_iff is_hex_hex_char)

lemma push_nibble: "push_bit 4 (drop_bit (m + 4) v) OR take_bit 4 (drop_bit m v) = drop_bit m (v :: u32)"
  by (rule bit_word_eqI) (auto simp: bit_simps dest: bit_imp_le_length)

lemma push_nibbles:
  "k \<le> 8 \<Longrightarrow> foldl (\<lambda>a i. push_bit 4 a OR (drop_bit (28 - 4 * i) v AND 15)) 0 [0..<k] =
    (drop_bit (32 - 4 * k) v :: u32)"
proof (induction k)
  case 0
  then show ?case by (simp add: bit_eq_iff bit_simps bit_imp_le_length)
next
  case (Suc k)
  then have "28 - 4 * k + 4 = 32 - 4 * k" by simp
  then show ?case
    using Suc push_nibble [of "28 - 4 * k" v] by (simp add: and_15)
qed

lemma hex8_roundtrip: "hex8_to_u32 (to_hex8 v @ rest) = v"
  using push_nibbles [of 8 v]
  by (simp add: hex8_to_u32_def to_hex8_def foldl_map hex_char_digit)

subsection \<open>Reading one written entry\<close>

lemma pad4_nat: "n < 2 ^ 60 \<Longrightarrow> unat (pad4 (word_of_nat n)) = (4 - n mod 4) mod 4"
proof -
  assume n: "n < 2 ^ 60"
  have and3: "(x :: u64) AND 3 = take_bit 2 x" for x
    by (simp add: take_bit_eq_mask mask_eq_exp_minus_1)
  have u: "unat ((word_of_nat n :: u64) AND 3) = n mod 4"
    using n unfolding and3 by (simp only: unsigned_take_bit_eq) (simp add: take_bit_eq_mod)
  then have "unat (4 - (word_of_nat n AND 3) :: u64) = 4 - n mod 4"
    by (subst unat_sub) (simp_all add: word_le_nat_alt less_imp_le)
  then show ?thesis
    unfolding pad4_def and3 [of "4 - _"] by (simp only: unsigned_take_bit_eq) (simp add: take_bit_eq_mod)
qed

lemma byte_char_byte [simp]: "byte_char (char_byte c) = c"
proof -
  have "(of_char c :: nat) < 256"
    by (rule nat_of_char_less_256)
  then have "unat (char_byte c) = of_char c"
    by (simp add: char_byte_def unsigned_of_nat take_bit_eq_mod)
  then show ?thesis by (simp add: byte_char_def)
qed

lemma char_byte_0: "char_byte c = 0 \<longleftrightarrow> c = CHR 0x00"
proof
  assume "char_byte c = 0"
  then have "byte_char (char_byte c) = byte_char 0" by simp
  moreover have "byte_char 0 = CHR 0x00" by (simp add: byte_char_def char_of_def)
  ultimately show "c = CHR 0x00" by (simp only: byte_char_byte)
qed (simp add: char_byte_def)

lemma c_string_name:
  "CHR 0x00 \<notin> set name \<Longrightarrow> c_string (map char_byte name @ 0 # rest) = name"
proof -
  assume "CHR 0x00 \<notin> set name"
  then have "takeWhile (\<lambda>b. b \<noteq> 0) (map char_byte name @ 0 # rest) = map char_byte name"
    by (subst takeWhile_append2) (auto simp: char_byte_0)
  then show ?thesis by (simp add: c_string_def comp_def)
qed

lemma bytes_left_nat:
  "p \<le> length ar \<Longrightarrow> length ar < 2 ^ 63 \<Longrightarrow> unat (bytes_left ar p) = length ar - p"
  by (simp add: bytes_left_def unat_sub word_le_nat_alt)

definition packable :: "string \<times> u8 list \<times> u32 \<Rightarrow> bool" where
  "packable f \<longleftrightarrow> ascii (fst f) \<and> CHR 0x00 \<notin> set (fst f) \<and> length (fst f) + 1 < 2 ^ 32 \<and> length (fst (snd f)) < 2 ^ 32"

definition name_pad :: "string \<Rightarrow> nat" where
  "name_pad name = (4 - (111 + length name) mod 4) mod 4"

definition data_pad :: "u8 list \<Rightarrow> nat" where
  "data_pad contents = (4 - length contents mod 4) mod 4"

definition newc_header :: "u32 \<Rightarrow> u32 \<Rightarrow> u32 \<Rightarrow> u8 list" where
  "newc_header mode filesize namesz = newc_magic @
     to_hex8 0 @ to_hex8 mode @ to_hex8 0 @ to_hex8 0 @ to_hex8 1 @ to_hex8 0 @ to_hex8 filesize @
     to_hex8 0 @ to_hex8 0 @ to_hex8 0 @ to_hex8 0 @ to_hex8 namesz @ to_hex8 0"

lemma length_magic [simp]: "length newc_magic = 6"
  by (simp add: newc_magic_def)

lemma length_header [simp]: "length (newc_header a b c) = 110"
  by (simp add: newc_header_def)

lemma header_fields:
  "take 6 (newc_header mode fs ns @ rest) = newc_magic"
  "hex8_to_u32 (drop 14 (newc_header mode fs ns @ rest)) = mode"
  "hex8_to_u32 (drop 54 (newc_header mode fs ns @ rest)) = fs"
  "hex8_to_u32 (drop 94 (newc_header mode fs ns @ rest)) = ns"
  "list_all is_hex (take 104 (drop 6 (newc_header mode fs ns @ rest)))"
  by (simp_all add: newc_header_def hex8_roundtrip is_hex_to_hex8)

lemma ascii_bytes: "ascii name \<Longrightarrow> concat (map utf8 name) = map char_byte name"
  by (induction name) (simp_all add: ascii_def utf8_def char_byte_def)

lemma write_newc_entry_eq:
  assumes "packable (name, contents, mode)"
  shows "write_newc_entry (name, contents, mode) =
    newc_header mode (word_of_nat (length contents)) (word_of_nat (length name + 1)) @
    map char_byte name @ 0 # replicate (name_pad name) 0 @ contents @ replicate (data_pad contents) 0"
proof -
  have n: "110 + (length name + 1) < 2 ^ 60" "length contents < 2 ^ 60"
    using assms by (simp_all add: packable_def)
  have "unat (pad4 (word_of_nat (110 + (length name + 1)))) = name_pad name"
    "unat (pad4 (word_of_nat (length contents))) = data_pad contents"
    unfolding pad4_nat [OF n(1)] pad4_nat [OF n(2)] by (simp_all add: name_pad_def data_pad_def)
  moreover have "concat (map utf8 name) = map char_byte name"
    using assms by (intro ascii_bytes) (simp add: packable_def)
  ultimately show ?thesis
    by (simp add: write_newc_entry_def newc_header_def Let_def del: of_nat_add)
qed

definition written_length :: "string \<Rightarrow> u8 list \<Rightarrow> nat" where
  "written_length name contents = 111 + length name + name_pad name + length contents + data_pad contents"

lemma length_write_newc_entry:
  "packable (name, contents, mode) \<Longrightarrow> length (write_newc_entry (name, contents, mode)) = written_length name contents"
  by (simp add: write_newc_entry_eq written_length_def)

lemma parse_written:
  assumes pk: "packable (name, contents, mode)"
    and ar: "ar = pre @ write_newc_entry (name, contents, mode) @ post" and len: "length ar < 2 ^ 63"
  defines "data \<equiv> length pre + 111 + length name + name_pad name"
  shows "parse_one ar (length pre) =
      Some (\<lparr>ce_name = name, ce_mode = mode, ce_data = data, ce_size = word_of_nat (length contents)\<rparr>,
        length pre + written_length name contents)"
    and "take (length contents) (drop data ar) = contents"
proof -
  let ?fs = "word_of_nat (length contents) :: u32" and ?ns = "word_of_nat (length name + 1) :: u32"
  let ?rest = "map char_byte name @ 0 # replicate (name_pad name) 0 @ contents @
    replicate (data_pad contents) 0 @ post"
  have ar': "ar = pre @ newc_header mode ?fs ?ns @ ?rest"
    using ar write_newc_entry_eq [OF pk] by simp
  have la: "length ar = length pre + written_length name contents + length post"
    using ar length_write_newc_entry [OF pk] by simp
  have fields: "take 6 (drop (length pre) ar) = newc_magic"
    "hex8_to_u32 (drop (length pre + 14) ar) = mode" "hex8_to_u32 (drop (length pre + 54) ar) = ?fs"
    "hex8_to_u32 (drop (length pre + 94) ar) = ?ns" "list_all is_hex (take 104 (drop (length pre + 6) ar))"
    using header_fields [of mode ?fs ?ns ?rest] by (simp_all add: ar')
  have nm: "drop (length pre + 110) ar = ?rest"
    by (simp add: ar')
  have u: "unat ?fs = length contents" "unat ?ns = length name + 1"
    using pk by (simp_all add: packable_def unsigned_of_nat take_bit_nat_eq_self del: of_nat_add of_nat_Suc)
  have left: "unat (bytes_left ar p) = length ar - p" if "p \<le> length ar" for p
    using bytes_left_nat [OF that len] .
  have pads: "unat (pad4 (110 + ucast ?ns)) = name_pad name" "unat (pad4 (ucast ?fs)) = data_pad contents"
  proof -
    have n: "110 + (length name + 1) < 2 ^ 60" "length contents < 2 ^ 60"
      using pk by (simp_all add: packable_def)
    have "110 + ucast ?ns = (word_of_nat (110 + (length name + 1)) :: u64)"
      by (rule word_unat_eq_iff [THEN iffD2]) (use n u(2) in \<open>simp add: unat_word_ariths\<close>)
    then show "unat (pad4 (110 + ucast ?ns)) = name_pad name"
      using pad4_nat [OF n(1)] by (simp add: name_pad_def)
    have "ucast ?fs = (word_of_nat (length contents) :: u64)"
      by (rule word_unat_eq_iff [THEN iffD2]) (use n u(1) in simp)
    then show "unat (pad4 (ucast ?fs)) = data_pad contents"
      using pad4_nat [OF n(2)] by (simp add: data_pad_def)
  qed
  show "take (length contents) (drop data ar) = contents"
    by (simp add: data_def ar')
  have lens: "length pre + 110 + unat ?ns + name_pad name = data"
    using u(2) by (simp add: data_def)
  have uc: "unat (ucast ?ns :: u64) = length name + 1" "unat (ucast ?fs :: u64) = length contents"
    using u by simp_all
  have b: "\<not> bytes_left ar (length pre) < 110" "\<not> bytes_left ar (length pre + 110) < ucast ?ns"
    "\<not> bytes_left ar data < ucast ?fs"
    using left [of "length pre"] left [of "length pre + 110"] left [of data] uc la
    by (simp_all add: word_less_nat_alt written_length_def data_def)
  have "ar ! (length pre + 110 + unat ?ns - 1) = drop (length pre + 110) ar ! length name"
    using la u(2) by (simp add: written_length_def ac_simps)
  then have z: "ar ! (length pre + 110 + unat ?ns - 1) = 0"
    by (simp add: nm nth_append)
  have ns0: "?ns \<noteq> 0"
    using u(2) by auto
  have cs: "c_string (drop (length pre + 110) ar) = name"
    unfolding nm using pk by (intro c_string_name) (simp add: packable_def)
  have "data + unat ?fs + unat (pad4 (ucast ?fs)) = length pre + written_length name contents"
    using u(1) pads(2) by (simp add: data_def written_length_def)
  then show "parse_one ar (length pre) =
      Some (\<lparr>ce_name = name, ce_mode = mode, ce_data = data, ce_size = ?fs\<rparr>,
        length pre + written_length name contents)"
    unfolding parse_one_def Let_def fields using b z ns0 cs lens pads(1) fields by simp
qed

subsection \<open>Looking names up\<close>

definition entry_file :: "u8 list \<Rightarrow> cpio_entry \<Rightarrow> u8 list \<times> u32" where
  "entry_file ar e = (take (unat (ce_size e)) (drop (ce_data e) ar), ce_mode e)"

definition packable_archive :: "(string \<times> u8 list \<times> u32) list \<Rightarrow> bool" where
  "packable_archive files \<longleftrightarrow> list_all (\<lambda>f. packable f \<and> fst f \<noteq> trailer) files \<and>
     length (build_archive files) < 2 ^ 63"

lemma packable_trailer: "packable (trailer, [], m)"
  by (simp add: packable_def ascii_def trailer_def)

lemma length_trailer: "length (write_newc_entry (trailer, [], m)) = 124"
  unfolding length_write_newc_entry [OF packable_trailer]
  by (simp add: written_length_def name_pad_def data_pad_def trailer_def)

lemma find_loop_written:
  assumes "ar = pre @ concat (map write_newc_entry files) @ write_newc_entry (trailer, [], 0x8000)"
    and "list_all (\<lambda>f. packable f \<and> fst f \<noteq> trailer) files" and "length ar < 2 ^ 63"
  shows "map_option (entry_file ar) (find_loop ar name (length pre)) = map_of files name"
  using assms(1,2)
proof (induction files arbitrary: pre)
  case Nil
  then show ?case
    using parse_written(1) [OF packable_trailer [where m = "0x8000"], where ar = ar and pre = pre and post = "[]"] assms(3)
    unfolding find_loop.simps [of ar name "length pre"] by simp
next
  case (Cons f files)
  obtain nm contents mode where f: "f = (nm, contents, mode)" by (cases f)
  have pk: "packable (nm, contents, mode)" and nt: "nm \<noteq> trailer"
    using Cons.prems(2) f by simp_all
  let ?post = "concat (map write_newc_entry files) @ write_newc_entry (trailer, [], 0x8000)"
  have ar: "ar = pre @ write_newc_entry (nm, contents, mode) @ ?post"
    using Cons.prems(1) f by simp
  note one = parse_written [OF pk ar assms(3)]
  have sz: "unat (word_of_nat (length contents) :: u32) = length contents"
    using pk by (simp add: packable_def unsigned_of_nat take_bit_nat_eq_self)
  have "0 < length ?post"
    using length_write_newc_entry [OF packable_trailer] by (simp add: written_length_def)
  then have more: "\<not> length ar \<le> length pre + written_length nm contents"
    using ar length_write_newc_entry [OF pk] by simp
  have rest: "map_option (entry_file ar) (find_loop ar name (length pre + written_length nm contents)) =
      map_of files name"
    using Cons.IH [of "pre @ write_newc_entry (nm, contents, mode)"] ar Cons.prems(2)
      length_write_newc_entry [OF pk] by simp
  have hit: "entry_file ar \<lparr>ce_name = nm, ce_mode = mode, ce_data = length pre + 111 + length nm + name_pad nm,
      ce_size = word_of_nat (length contents)\<rparr> = (contents, mode)"
    using one(2) sz by (simp add: entry_file_def)
  show ?case
    using one(1) nt more rest hit by (simp add: find_loop.simps [of ar name "length pre"] f)
qed

text \<open>
  C15: An archive written by \<open>tools/mkcpio_newc.py\<close> from files with ASCII names, none of them the
  trailer's, reads back: \<open>cpio_newc_find\<close> finds a name exactly when a file was packed under it, and what it
  returns are the contents and the mode of the first file packed under that name.
\<close>

theorem cpio_find_packed:
  assumes "packable_archive files"
  shows "map_option (entry_file (build_archive files)) (cpio_newc_find (build_archive files) name) =
    map_of files name"
  using assms find_loop_written [of "build_archive files" "[]" files name]
  by (simp add: packable_archive_def build_archive_def cpio_newc_find_def)

lemma cpio_find_packed_witness:
  "map_option (entry_file (build_archive [(''bin/sh'', [1, 2, 3], 0x81ed), (''etc'', [], 0x41ed)]))
     (cpio_newc_find (build_archive [(''bin/sh'', [1, 2, 3], 0x81ed), (''etc'', [], 0x41ed)]) ''bin/sh'') =
   Some ([1, 2, 3], 0x81ed)"
proof -
  let ?files = "[(''bin/sh'', [1, 2, 3], 0x81ed), (''etc'', [], 0x41ed)] :: (string \<times> u8 list \<times> u32) list"
  have "packable (''bin/sh'', [1, 2, 3], 0x81ed)" "packable (''etc'', [], 0x41ed)"
    by (simp_all add: packable_def ascii_def)
  then have "packable_archive ?files"
    by (simp add: packable_archive_def build_archive_def length_write_newc_entry length_trailer
        written_length_def name_pad_def data_pad_def) (simp add: trailer_def)
  then show ?thesis
    using cpio_find_packed [of ?files "''bin/sh''"] by simp
qed

text \<open>A name with a character beyond ASCII: the size in the header ends inside the bytes of the name, and
the reader takes the entry, with all that follow, for a damaged archive.\<close>

theorem latin_name_unreadable:
  "parse_one (build_archive [([CHR 0xE9], [], 0x81a4)]) 0 = None \<and>
   cpio_newc_find (build_archive [([CHR 0xE9], [], 0x81a4), (''a'', [7], 0x81a4)]) ''a'' = None"
proof -
  have u: "utf8 (CHR 0xE9) = [0xC3, 0xA9]" by (simp add: utf8_def)
  have e: "\<exists>rest. write_newc_entry ([CHR 0xE9], [], 0x81a4) = newc_header 0x81a4 0 2 @ [0xC3, 0xA9, 0] @ rest"
    by (simp add: write_newc_entry_def newc_header_def u Let_def)
  have p: "parse_one (write_newc_entry ([CHR 0xE9], [], 0x81a4) @ post) 0 = None" for post
  proof -
    obtain rest where w: "write_newc_entry ([CHR 0xE9], [], 0x81a4) = newc_header 0x81a4 0 2 @ [0xC3, 0xA9, 0] @ rest"
      using e by blast
    have "(newc_header 0x81a4 0 2 @ [0xC3, 0xA9, 0] @ rest @ post) ! 111 = 0xA9"
      by (simp add: nth_append)
    then show ?thesis
      using header_fields [of "0x81a4" 0 2 "[0xC3, 0xA9, 0] @ rest @ post"]
      by (simp add: parse_one_def Let_def w)
  qed
  show ?thesis
    unfolding cpio_newc_find_def find_loop.simps [of _ _ 0] build_archive_def
    using p [of "write_newc_entry (trailer, [], 0x8000)"]
      p [of "write_newc_entry (''a'', [7], 0x81a4) @ write_newc_entry (trailer, [], 0x8000)"] by simp
qed

subsection \<open>Bounds\<close>

text \<open>
  C17: An entry the reader accepts has its header and its NUL-terminated name inside the archive, and
  if its data starts inside the archive it also ends inside: the size field of a damaged archive
  cannot make a lookup return bytes beyond the end.
\<close>

theorem parse_one_bounds:
  assumes "parse_one ar p = Some (e, q)" and "p \<le> length ar" and "length ar < 2 ^ 63"
  shows "p + 110 + length (ce_name e) < length ar \<and> p < q \<and>
    (ce_data e \<le> length ar \<longrightarrow> ce_data e + unat (ce_size e) \<le> length ar)"
proof -
  have left: "unat (bytes_left ar r) = length ar - r" if "r \<le> length ar" for r
    using bytes_left_nat [OF that assms(3)] .
  define ns where "ns = hex8_to_u32 (drop (p + 94) ar)"
  have a: "\<not> bytes_left ar p < 110" "\<not> bytes_left ar (p + 110) < ucast ns" "ns \<noteq> 0"
    "ar ! (p + 110 + unat ns - 1) = 0" "ce_name e = c_string (drop (p + 110) ar)"
    "\<not> bytes_left ar (ce_data e) < ucast (ce_size e)"
    using assms(1) by (auto simp: parse_one_def Let_def ns_def split: if_splits)
  have p: "p + 110 \<le> length ar"
    using a(1) left [OF assms(2)] assms(2) by (simp add: word_less_nat_alt)
  have ns: "p + 110 + unat ns \<le> length ar" "0 < unat ns"
    using a(2,3) left [OF p] p by (simp_all add: word_less_nat_alt unat_gt_0)
  let ?n = "drop (p + 110) ar"
  have "?n ! (unat ns - 1) = 0" and "unat ns - 1 < length ?n"
    using a(4) ns by simp_all
  then have "length (takeWhile (\<lambda>b. b \<noteq> 0) ?n) \<le> unat ns - 1"
    by (metis (mono_tags, lifting) not_le_imp_less nth_mem set_takeWhileD takeWhile_nth)
  then have "p + 110 + length (ce_name e) < length ar"
    using ns by (simp add: a(5) c_string_def)
  moreover have "ce_data e + unat (ce_size e) \<le> length ar" if "ce_data e \<le> length ar"
    using a(6) left [OF that] that by (simp add: word_less_nat_alt)
  ultimately show ?thesis
    using parse_one_progress [OF assms(1)] by blast
qed

lemma parse_one_bounds_witness:
  "let ar = build_archive [(''a'', [7], 0x81a4)]
   in parse_one ar 0 = Some (\<lparr>ce_name = ''a'', ce_mode = 0x81a4, ce_data = 112, ce_size = 1\<rparr>, 116) \<and>
      112 + unat (1 :: u32) \<le> length ar"
proof -
  let ?ar = "build_archive [(''a'', [7], 0x81a4)]"
  have pk: "packable (''a'', [7], 0x81a4)" by (simp add: packable_def ascii_def)
  have len: "112 \<le> length ?ar" "length ?ar < 2 ^ 63"
    by (simp_all add: build_archive_def length_write_newc_entry pk length_trailer written_length_def
        name_pad_def data_pad_def)
  have p: "parse_one ?ar 0 = Some (\<lparr>ce_name = ''a'', ce_mode = 0x81a4, ce_data = 112, ce_size = 1\<rparr>, 116)"
    using parse_written(1) [OF pk, of ?ar "[]" "write_newc_entry (trailer, [], 0x8000)"] len(2)
    by (simp add: build_archive_def written_length_def name_pad_def data_pad_def)
  show ?thesis
    using parse_one_bounds [OF p _ len(2)] p len by simp
qed

text \<open>
  The padding after the name is not checked: an archive cut off inside it makes the difference
  \<open>end - p\<close> wrap, and the reader then accepts an entry whose data lies beyond the end.
\<close>

definition cut_archive :: "u8 list" where
  "cut_archive = newc_header 0x81a4 0x1000 3 @ [97, 98, 0]"

text \<open>
  An archive cut off inside the padding after a name is accepted: the wrapped difference passes
  the size check, and the entry's data lies wholly beyond the end of the archive.
\<close>

theorem cut_archive_overread:
  "map_option (\<lambda>(e, q). (ce_data e, ce_size e)) (parse_one cut_archive 0) = Some (116, 0x1000) \<and>
   length cut_archive = 113"
proof -
  have "(pad4 (113 :: u64)) = 3" by (simp add: pad4_def)
  moreover have "cut_archive ! 112 = 0"
    by (simp add: cut_archive_def nth_append)
  ultimately show ?thesis
    using header_fields [of "0x81a4" "0x1000" 3 "[97, 98, 0]"]
    by (simp add: parse_one_def Let_def bytes_left_def flip: cut_archive_def) (simp add: cut_archive_def)
qed

end
