(* ===== verification/Initramfs.thy ===== *)
theory Initramfs
  imports Cpio Paths
begin

text \<open>
  \<open>kernel-aarch64/initramfs.c\<close>: the read-only initial file system, an archive searched by name. An
  archive that was never set, or has no bytes, is the empty list. A lookup hands out the bytes of
  the file, their number and the mode; directory listing calls a client function with the name and
  mode of every child it has not reported yet, and the client's state is threaded through.

  The lemmas say that on an archive the packing tool wrote, listing a directory reports each of its
  children exactly once.
\<close>

definition S_IFMT :: u32 where
  "S_IFMT = 0xF000"

definition S_IFDIR :: u32 where
  "S_IFDIR = 0x4000"

definition S_IFREG :: u32 where
  "S_IFREG = 0x8000"

definition S_ISDIR :: "u32 \<Rightarrow> bool" where
  "S_ISDIR m \<longleftrightarrow> m AND S_IFMT = S_IFDIR"

definition S_ISREG :: "u32 \<Rightarrow> bool" where
  "S_ISREG m \<longleftrightarrow> m AND S_IFMT = S_IFREG"

definition root_dir_mode :: u32 where
  "root_dir_mode = S_IFDIR OR 0x1ED"

type_synonym 's dir_cb = "string \<Rightarrow> u32 \<Rightarrow> 's \<Rightarrow> int \<times> 's"

subsection \<open>Lookup\<close>

definition initramfs_lookup :: "u8 list \<Rightarrow> string \<Rightarrow> (u8 list \<times> u64 \<times> u32) option" where
  "initramfs_lookup ar path =
     (if ar = [] then None
      else if path = [slash] then Some ([], 0, root_dir_mode)
      else let p = skip_slashes path
        in if p = [] then Some ([], 0, root_dir_mode)
           else case cpio_newc_find ar p of
             None \<Rightarrow> None
           | Some e \<Rightarrow> Some (take (unat (ce_size e)) (drop (ce_data e) ar), ucast (ce_size e), ce_mode e))"

subsection \<open>Listing\<close>

text \<open>
  The first part of \<open>list_cb\<close>: the child of \<open>dir\<close> that the entry \<open>name\<close> lies in, and whether the
  entry is below that child.
\<close>

definition first_segment :: "string \<Rightarrow> (string \<times> bool) option" where
  "first_segment child =
     (let seg = takeWhile (\<lambda>c. c \<noteq> slash) child
      in if seg = [] then None else Some (seg, dropWhile (\<lambda>c. c \<noteq> slash) child \<noteq> []))"

definition child_of :: "string \<Rightarrow> string \<Rightarrow> (string \<times> bool) option" where
  "child_of dir name =
     (if name = [] then None
      else if dir = [] then first_segment name
      else if take (length dir) name \<noteq> dir then None
      else case drop (length dir) name of
        [] \<Rightarrow> None
      | c # child \<Rightarrow> if c \<noteq> slash then None else if child = [] then None else first_segment child)"

definition infer_child_mode :: "u32 \<Rightarrow> bool \<Rightarrow> u32" where
  "infer_child_mode mode child_is_dir = (if child_is_dir then S_IFDIR OR 0x1ED else mode)"

definition list_cb :: "string \<Rightarrow> 's dir_cb \<Rightarrow> cpio_entry \<Rightarrow> string list \<times> 's \<Rightarrow> int \<times> string list \<times> 's" where
  "list_cb dir cb e ss =
     (case ss of (seen, s) \<Rightarrow>
        case child_of dir (ce_name e) of
          None \<Rightarrow> (0, seen, s)
        | Some (child, is_dir) \<Rightarrow>
            if child \<in> set seen then (0, seen, s)
            else
              let seen' = (if 64 \<le> length seen then seen else seen @ [child]) in
              case cb (take 127 child) (infer_child_mode (ce_mode e) is_dir) s of
                (rc, s') \<Rightarrow> (rc, seen', s'))"

definition initramfs_list_dir :: "u8 list \<Rightarrow> string \<Rightarrow> 's dir_cb \<Rightarrow> 's \<Rightarrow> int \<times> 's" where
  "initramfs_list_dir ar dir_path cb s =
     (if ar = [] then (-1, s)
      else let dir = skip_slashes (if dir_path = [slash] then [] else dir_path)
        in case cpio_newc_foreach ar (list_cb dir cb) ([], s) of
             (rc, seen, s') \<Rightarrow> (if rc = 0 then 0 else -1, s'))"

subsection \<open>On packed archives\<close>

lemma build_archive_ne: "build_archive files \<noteq> []"
  using length_trailer [of "0x8000"] by (auto simp: build_archive_def)

lemma initramfs_lookup_packed:
  assumes "packable_archive files" and "skip_slashes path = p" and "p \<noteq> []" and "path \<noteq> [slash]"
  shows "map_option (\<lambda>(d, n, m). (d, m)) (initramfs_lookup (build_archive files) path) = map_of files p"
proof -
  have "map_option (entry_file (build_archive files)) (cpio_newc_find (build_archive files) p) = map_of files p"
    using assms(1) find_loop_written [of "build_archive files" "[]" files p]
    by (simp add: packable_archive_def build_archive_def cpio_newc_find_def)
  then show ?thesis
    using assms(2-4) build_archive_ne [of files]
    by (cases "cpio_newc_find (build_archive files) p") (simp_all add: initramfs_lookup_def entry_file_def Let_def)
qed

text \<open>The iteration over a packed archive is the iteration over the packed files.\<close>

fun foreach_files :: "(string \<Rightarrow> u32 \<Rightarrow> 's \<Rightarrow> int \<times> 's) \<Rightarrow> (string \<times> u8 list \<times> u32) list \<Rightarrow> 's \<Rightarrow> int \<times> 's" where
  "foreach_files f [] s = (0, s)"
| "foreach_files f ((name, contents, mode) # files) s =
     (case f name mode s of (rc, s') \<Rightarrow> if rc \<noteq> 0 then (rc, s') else foreach_files f files s')"

lemma foreach_loop_packed:
  assumes cb: "\<And>e s. cb e s = g (ce_name e) (ce_mode e) s"
    and "ar = pre @ concat (map write_newc_entry files) @ write_newc_entry (trailer, [], 0x8000)"
    and "list_all (\<lambda>f. packable f \<and> fst f \<noteq> trailer) files" and len: "length ar < 2 ^ 63"
  shows "foreach_loop ar cb (length pre) s = foreach_files g files s"
  using assms(2,3)
proof (induction files arbitrary: pre s)
  case Nil
  then show ?case
    using parse_written(1) [OF packable_trailer [where m = "0x8000"], where ar = ar and pre = pre and post = "[]"] len
    unfolding foreach_loop.simps [of ar cb "length pre" s] by simp
next
  case (Cons f files)
  obtain nm contents mode where f: "f = (nm, contents, mode)" by (cases f)
  have pk: "packable (nm, contents, mode)" and nt: "nm \<noteq> trailer"
    using Cons.prems(2) f by simp_all
  let ?post = "concat (map write_newc_entry files) @ write_newc_entry (trailer, [], 0x8000)"
  have ar: "ar = pre @ write_newc_entry (nm, contents, mode) @ ?post"
    using Cons.prems(1) f by simp
  note one = parse_written(1) [OF pk ar len]
  have more: "\<not> length ar \<le> length pre + written_length nm contents"
    using ar length_write_newc_entry [OF pk] length_trailer [of "0x8000"] by simp
  have rest: "foreach_loop ar cb (length pre + written_length nm contents) s' = foreach_files g files s'" for s'
    using Cons.IH [of "pre @ write_newc_entry (nm, contents, mode)"] ar Cons.prems(2)
      length_write_newc_entry [OF pk] by simp
  show ?case
    unfolding foreach_loop.simps [of ar cb "length pre" s] using one nt more rest
    by (simp add: f cb split: prod.split)
qed

lemma cpio_foreach_packed:
  assumes "\<And>e s. cb e s = g (ce_name e) (ce_mode e) s" and "packable_archive files"
  shows "cpio_newc_foreach (build_archive files) cb s = foreach_files g files s"
  using foreach_loop_packed [of cb g "build_archive files" "[]" files s] assms
  by (simp add: packable_archive_def build_archive_def cpio_newc_foreach_def)

text \<open>A client that collects what it is told and never stops the listing.\<close>

definition collect :: "(string \<times> u32) list dir_cb" where
  "collect name mode acc = (0, acc @ [(name, mode)])"

text \<open>The children of a directory, in archive order and with repetitions.\<close>

definition children :: "string \<Rightarrow> (string \<times> u8 list \<times> u32) list \<Rightarrow> string list" where
  "children dir files = concat (map (\<lambda>f. case child_of dir (fst f) of None \<Rightarrow> [] | Some (c, d) \<Rightarrow> [c]) files)"

definition child_cb :: "string \<Rightarrow> string \<Rightarrow> u32 \<Rightarrow> string list \<times> (string \<times> u32) list \<Rightarrow> int \<times> string list \<times> (string \<times> u32) list" where
  "child_cb dir name mode ss = list_cb dir collect \<lparr>ce_name = name, ce_mode = mode, ce_data = 0, ce_size = 0\<rparr> ss"

lemma foreach_collect:
  assumes "distinct seen" and "map fst acc = seen" and "finite S" and "card S \<le> 64"
    and "set seen \<union> set (children dir files) \<subseteq> S" and "\<forall>c \<in> S. length c \<le> 127"
  shows "\<exists>acc' seen'. foreach_files (child_cb dir) files (seen, acc) = (0, seen', acc') \<and>
    distinct (map fst acc') \<and> set (map fst acc') = set seen \<union> set (children dir files)"
  using assms(1,2,5)
proof (induction files arbitrary: seen acc)
  case Nil
  then show ?case by (simp add: children_def del: set_map)
next
  case (Cons f files)
  obtain nm contents mode where f: "f = (nm, contents, mode)" by (cases f)
  show ?case
  proof (cases "child_of dir nm")
    case None
    then show ?thesis
      using Cons.IH [OF Cons.prems(1,2)] Cons.prems(3)
      by (simp add: f children_def child_cb_def list_cb_def)
  next
    case (Some cd)
    obtain c d where cd: "cd = (c, d)" by (cases cd)
    have ch: "children dir (f # files) = c # children dir files"
      using Some cd f by (simp add: children_def)
    show ?thesis
    proof (cases "c \<in> set seen")
      case True
      then show ?thesis
        using Cons.IH [OF Cons.prems(1,2)] Cons.prems(3) Some cd ch
        by (simp add: f child_cb_def list_cb_def insert_absorb)
    next
      case False
      have "insert c (set seen) \<subseteq> S" using Cons.prems(3) ch by auto
      then have "card (insert c (set seen)) \<le> 64"
        using card_mono [OF assms(3), of "insert c (set seen)"] assms(4) by linarith
      then have room: "length seen < 64"
        using False Cons.prems(1) by (simp add: distinct_card)
      have short: "take 127 c = c"
        using assms(6) Cons.prems(3) ch by auto
      have step: "child_cb dir nm mode (seen, acc) = (0, seen @ [c], acc @ [(c, infer_child_mode mode d)])"
        using Some cd False room short by (simp add: child_cb_def list_cb_def collect_def)
      have "\<exists>acc' seen'. foreach_files (child_cb dir) files (seen @ [c], acc @ [(c, infer_child_mode mode d)]) =
            (0, seen', acc') \<and> distinct (map fst acc') \<and>
          set (map fst acc') = set (seen @ [c]) \<union> set (children dir files)"
        using Cons.prems ch False by (intro Cons.IH) auto
      then show ?thesis
        using step ch by (simp add: f)
    qed
  qed
qed



end
