(* ===== verification/Vfs.thy ===== *)
theory Vfs
  imports Initramfs
begin

text \<open>
  \<open>kernel-aarch64/vfs.c\<close>: the writable overlay on the initial file system. Directories, file names
  and file contents (inodes, shared by hard links) are three tables of 64 entries; lookups consult
  the overlay first and then the archive. The \<open>-errno\<close> results are sums, a file handle is an index
  of the name table.

  The main lemmas: link counts are exact under every operation (\<open>vfs_ok\<close>), and both the directory
  table and the file table behave as finite maps from names (interpretations of \<open>name_table\<close>).
\<close>

definition MAX_RAMDIRS :: nat where
  "MAX_RAMDIRS = 64"

definition MAX_RAMFILES :: nat where
  "MAX_RAMFILES = 64"

definition MAX_RAMINODES :: nat where
  "MAX_RAMINODES = 64"

definition RAMFILE_CAP :: nat where
  "RAMFILE_CAP = 4096"

record ramdir =
  rd_used :: bool
  rd_mode :: u32
  rd_path :: string

record raminode =
  ri_used :: bool
  ri_mode :: u32
  ri_size :: u64
  ri_nlink :: nat
  ri_data :: "u8 list"

record ramfile =
  rl_used :: bool
  rl_inode :: nat
  rl_path :: string

record vfs =
  vs_dirs :: "ramdir list"
  vs_files :: "ramfile list"
  vs_inodes :: "raminode list"

definition ramdir_unused :: ramdir where
  "ramdir_unused = \<lparr>rd_used = False, rd_mode = 0, rd_path = []\<rparr>"

definition raminode_unused :: raminode where
  "raminode_unused = \<lparr>ri_used = False, ri_mode = 0, ri_size = 0, ri_nlink = 0, ri_data = replicate RAMFILE_CAP 0\<rparr>"

definition ramfile_unused :: ramfile where
  "ramfile_unused = \<lparr>rl_used = False, rl_inode = 0, rl_path = []\<rparr>"

subsection \<open>Tables\<close>

definition raminode_alloc_slot :: "vfs \<Rightarrow> nat option" where
  "raminode_alloc_slot v = find_slot (\<lambda>n. \<not> ri_used n) (vs_inodes v)"

definition raminode_bump :: "raminode \<Rightarrow> raminode" where
  "raminode_bump n = (if \<not> ri_used n then n else n\<lparr>ri_nlink := Suc (ri_nlink n)\<rparr>)"

definition raminode_drop :: "raminode \<Rightarrow> raminode" where
  "raminode_drop n =
     (if \<not> ri_used n then n
      else let n = (if 0 < ri_nlink n then n\<lparr>ri_nlink := ri_nlink n - 1\<rparr> else n)
        in if ri_nlink n = 0 then raminode_unused else n)"

definition raminode_incref :: "nat \<Rightarrow> vfs \<Rightarrow> vfs" where
  "raminode_incref i v =
     (if MAX_RAMINODES \<le> i then v else v\<lparr>vs_inodes := upd_at i raminode_bump (vs_inodes v)\<rparr>)"

definition raminode_decref :: "nat \<Rightarrow> vfs \<Rightarrow> vfs" where
  "raminode_decref i v =
     (if MAX_RAMINODES \<le> i then v else v\<lparr>vs_inodes := upd_at i raminode_drop (vs_inodes v)\<rparr>)"

definition ramdir_find :: "string \<Rightarrow> vfs \<Rightarrow> nat option" where
  "ramdir_find p v = find_slot (\<lambda>d. rd_used d \<and> rd_path d = p) (vs_dirs v)"

definition ramdir_alloc_slot :: "vfs \<Rightarrow> nat option" where
  "ramdir_alloc_slot v = find_slot (\<lambda>d. \<not> rd_used d) (vs_dirs v)"

definition ramfile_find :: "string \<Rightarrow> vfs \<Rightarrow> nat option" where
  "ramfile_find p v = find_slot (\<lambda>f. rl_used f \<and> rl_path f = p) (vs_files v)"

definition ramfile_alloc_slot :: "vfs \<Rightarrow> nat option" where
  "ramfile_alloc_slot v = find_slot (\<lambda>f. \<not> rl_used f) (vs_files v)"

definition vfs_init :: "vfs \<Rightarrow> vfs" where
  "vfs_init v =
     \<lparr>vs_dirs = replicate MAX_RAMDIRS ramdir_unused, vs_files = replicate MAX_RAMFILES ramfile_unused,
      vs_inodes = replicate MAX_RAMINODES raminode_unused\<rparr>"

subsection \<open>Lookup\<close>

definition vfs_lookup_abs :: "u8 list \<Rightarrow> string \<Rightarrow> vfs \<Rightarrow> (u8 list \<times> u64 \<times> u32) option" where
  "vfs_lookup_abs ar abs_path v =
     (if abs_path = [slash] then Some ([], 0, S_IFDIR OR 0x1ED)
      else let p = skip_slashes abs_path in
        if p = [] then Some ([], 0, S_IFDIR OR 0x1ED)
        else case ramdir_find p v of
          Some ridx \<Rightarrow> Some ([], 0, rd_mode (vs_dirs v ! ridx))
        | None \<Rightarrow>
            (case ramfile_find p v of
               Some fidx \<Rightarrow>
                 let fid = rl_inode (vs_files v ! fidx); n = vs_inodes v ! fid
                 in if fid < MAX_RAMINODES \<and> ri_used n then Some (ri_data n, ri_size n, ri_mode n) else None
             | None \<Rightarrow> initramfs_lookup ar abs_path))"

subsection \<open>Listing\<close>

definition vfs_list_emit_unique :: "'s dir_cb \<Rightarrow> (string list \<times> 's) dir_cb" where
  "vfs_list_emit_unique cb name mode ss =
     (case ss of (seen, s) \<Rightarrow>
        if name = [] then (0, seen, s)
        else if name \<in> set seen then (0, seen, s)
        else let seen' = (if 128 \<le> length seen then seen else seen @ [take 127 name])
          in case cb name mode s of (rc, s') \<Rightarrow> (rc, seen', s'))"

text \<open>The mode of an immediate child: its own when the overlay has that path, a directory's otherwise.\<close>

definition overlay_child_mode :: "string \<Rightarrow> vfs \<Rightarrow> u32" where
  "overlay_child_mode child_full v =
     (case ramdir_find child_full v of
        Some ei \<Rightarrow> rd_mode (vs_dirs v ! ei)
      | None \<Rightarrow>
          (case ramfile_find child_full v of
             Some ef \<Rightarrow>
               let fid = rl_inode (vs_files v ! ef)
               in if fid < MAX_RAMINODES \<and> ri_used (vs_inodes v ! fid) then ri_mode (vs_inodes v ! fid)
                  else S_IFDIR OR 0x1ED
           | None \<Rightarrow> S_IFDIR OR 0x1ED))"

definition overlay_paths :: "vfs \<Rightarrow> string list" where
  "overlay_paths v =
     map rd_path (filter rd_used (vs_dirs v)) @ map rl_path (filter rl_used (vs_files v))"

fun overlay_list :: "vfs \<Rightarrow> string \<Rightarrow> 's dir_cb \<Rightarrow> string list \<Rightarrow> string list \<times> 's \<Rightarrow> int \<times> string list \<times> 's" where
  "overlay_list v dir cb [] ss = (0, ss)"
| "overlay_list v dir cb (rp # rps) ss =
     (case child_of dir rp of
        None \<Rightarrow> overlay_list v dir cb rps ss
      | Some (child, _) \<Rightarrow>
          if dir \<noteq> [] \<and> MAX_PATH \<le> length dir + 1 then overlay_list v dir cb rps ss
          else
            let full = (if dir \<noteq> [] then dir @ slash # child else child)
            in if MAX_PATH \<le> length full + 1 then overlay_list v dir cb rps ss
               else case vfs_list_emit_unique cb (take 127 child) (overlay_child_mode full v) ss of
                 (rc, ss') \<Rightarrow> if rc \<noteq> 0 then (rc, ss') else overlay_list v dir cb rps ss')"

definition vfs_list_dir :: "u8 list \<Rightarrow> vfs \<Rightarrow> string \<Rightarrow> 's dir_cb \<Rightarrow> 's \<Rightarrow> int \<times> 's" where
  "vfs_list_dir ar v dir cb s =
     (if dir \<noteq> [] \<and> MAX_PATH < length dir + 2 then (-1, s)
      else case vfs_lookup_abs ar (slash # dir) v of
        None \<Rightarrow> (-1, s)
      | Some (data, sz, mode) \<Rightarrow>
          if \<not> S_ISDIR mode then (-1, s)
          else case initramfs_list_dir ar dir (vfs_list_emit_unique cb) ([], s) of
            (_, ss) \<Rightarrow>
              (case overlay_list v dir cb (overlay_paths v) ss of (rc, seen, s') \<Rightarrow> (rc, s')))"

subsection \<open>Directories\<close>

definition vfs_ramdir_create :: "string \<Rightarrow> u32 \<Rightarrow> vfs \<Rightarrow> unit res \<times> vfs" where
  "vfs_ramdir_create p mode v =
     (if p = [] then (Inl ENOENT, v)
      else if ramdir_find p v \<noteq> None then (Inl EEXIST, v)
      else case ramdir_alloc_slot v of
        None \<Rightarrow> (Inl ENOMEM, v)
      | Some slot \<Rightarrow>
          if MAX_PATH < length p + 1 then (Inl ENAMETOOLONG, v)
          else (Inr (), v\<lparr>vs_dirs := (vs_dirs v)[slot := \<lparr>rd_used = True, rd_mode = mode, rd_path = p\<rparr>]\<rparr>))"

definition path_has_prefix_dir :: "string \<Rightarrow> string \<Rightarrow> bool" where
  "path_has_prefix_dir path dir \<longleftrightarrow>
     take (length dir) path = dir \<and> length dir < length path \<and> path ! length dir = slash"

definition vfs_ramdir_remove :: "string \<Rightarrow> vfs \<Rightarrow> unit res \<times> vfs" where
  "vfs_ramdir_remove p v =
     (if p = [] then (Inl EINVAL, v)
      else case ramdir_find p v of
        None \<Rightarrow> (Inl ENOENT, v)
      | Some idx \<Rightarrow>
          if list_ex (\<lambda>d. rd_used d \<and> path_has_prefix_dir (rd_path d) p) (vs_dirs v) then (Inl ENOTEMPTY, v)
          else if list_ex (\<lambda>f. rl_used f \<and> path_has_prefix_dir (rl_path f) p) (vs_files v) then (Inl ENOTEMPTY, v)
          else (Inr (), v\<lparr>vs_dirs := (vs_dirs v)[idx := ramdir_unused]\<rparr>))"

definition vfs_ramdir_set_mode_abs :: "string \<Rightarrow> u32 \<Rightarrow> vfs \<Rightarrow> unit res \<times> vfs" where
  "vfs_ramdir_set_mode_abs abs_path mode v =
     (if abs_path = [slash] then (Inl ENOENT, v)
      else let p = skip_slashes abs_path in
        if p = [] then (Inl ENOENT, v)
        else case ramdir_find p v of
          None \<Rightarrow> (Inl ENOENT, v)
        | Some idx \<Rightarrow> (Inr (), v\<lparr>vs_dirs := upd_at idx (rd_mode_update (\<lambda>_. mode)) (vs_dirs v)\<rparr>))"

subsection \<open>Files\<close>

definition vfs_ramfile_create :: "string \<Rightarrow> u32 \<Rightarrow> vfs \<Rightarrow> unit res \<times> vfs" where
  "vfs_ramfile_create p mode v =
     (if p = [] then (Inl ENOENT, v)
      else if ramfile_find p v \<noteq> None then (Inl EEXIST, v)
      else if ramdir_find p v \<noteq> None then (Inl EEXIST, v)
      else case ramfile_alloc_slot v of
        None \<Rightarrow> (Inl ENOMEM, v)
      | Some slot \<Rightarrow>
          (case raminode_alloc_slot v of
             None \<Rightarrow> (Inl ENOMEM, v)
           | Some n \<Rightarrow>
               if MAX_PATH < length p + 1 then (Inl ENAMETOOLONG, v)
               else (Inr (),
                 v\<lparr>vs_files := (vs_files v)[slot := \<lparr>rl_used = True, rl_inode = n, rl_path = p\<rparr>],
                   vs_inodes := (vs_inodes v)[n := \<lparr>ri_used = True, ri_mode = mode, ri_size = 0,
                     ri_nlink = 1, ri_data = replicate RAMFILE_CAP 0\<rparr>]\<rparr>)))"

definition vfs_ramfile_unlink :: "string \<Rightarrow> vfs \<Rightarrow> unit res \<times> vfs" where
  "vfs_ramfile_unlink p v =
     (if p = [] then (Inl ENOENT, v)
      else case ramfile_find p v of
        None \<Rightarrow> (Inl ENOENT, v)
      | Some idx \<Rightarrow>
          (Inr (), raminode_decref (rl_inode (vs_files v ! idx)) (v\<lparr>vs_files := (vs_files v)[idx := ramfile_unused]\<rparr>)))"

definition vfs_ramfile_link :: "string \<Rightarrow> string \<Rightarrow> vfs \<Rightarrow> unit res \<times> vfs" where
  "vfs_ramfile_link old_p new_p v =
     (if old_p = [] then (Inl ENOENT, v)
      else if new_p = [] then (Inl ENOENT, v)
      else case ramfile_find old_p v of
        None \<Rightarrow> (Inl ENOENT, v)
      | Some old_idx \<Rightarrow>
          if ramfile_find new_p v \<noteq> None then (Inl EEXIST, v)
          else if ramdir_find new_p v \<noteq> None then (Inl EEXIST, v)
          else case ramfile_alloc_slot v of
            None \<Rightarrow> (Inl ENOMEM, v)
          | Some slot \<Rightarrow>
              if MAX_PATH < length new_p + 1 then (Inl ENAMETOOLONG, v)
              else
                let n = rl_inode (vs_files v ! old_idx)
                in if MAX_RAMINODES \<le> n \<or> \<not> ri_used (vs_inodes v ! n) then (Inl ENOENT, v)
                   else (Inr (), raminode_incref n
                     (v\<lparr>vs_files := (vs_files v)[slot := \<lparr>rl_used = True, rl_inode = n, rl_path = new_p\<rparr>]\<rparr>)))"

definition vfs_ramfile_find_abs :: "string \<Rightarrow> vfs \<Rightarrow> nat res" where
  "vfs_ramfile_find_abs abs_path v =
     (let p = skip_slashes abs_path in
      if p = [] then Inl ENOENT
      else case ramfile_find p v of None \<Rightarrow> Inl ENOENT | Some idx \<Rightarrow> Inr idx)"

definition vfs_ramfile_set_mode_abs :: "string \<Rightarrow> u32 \<Rightarrow> vfs \<Rightarrow> unit res \<times> vfs" where
  "vfs_ramfile_set_mode_abs abs_path mode v =
     (let p = skip_slashes abs_path in
      if p = [] then (Inl ENOENT, v)
      else case ramfile_find p v of
        None \<Rightarrow> (Inl ENOENT, v)
      | Some idx \<Rightarrow>
          let n = rl_inode (vs_files v ! idx)
          in if MAX_RAMINODES \<le> n then (Inl ENOENT, v)
             else if \<not> ri_used (vs_inodes v ! n) then (Inl ENOENT, v)
             else (Inr (), v\<lparr>vs_inodes := upd_at n (ri_mode_update (\<lambda>_. mode)) (vs_inodes v)\<rparr>))"

text \<open>The inode of a file handle, with the checks of \<open>vfs_ramfile_get\<close>.\<close>

definition vfs_ramfile_inode :: "nat \<Rightarrow> vfs \<Rightarrow> nat res" where
  "vfs_ramfile_inode fid v =
     (if MAX_RAMFILES \<le> fid then Inl EINVAL
      else if \<not> rl_used (vs_files v ! fid) then Inl ENOENT
      else let n = rl_inode (vs_files v ! fid)
        in if MAX_RAMINODES \<le> n then Inl ENOENT
           else if \<not> ri_used (vs_inodes v ! n) then Inl ENOENT else Inr n)"

definition vfs_ramfile_get :: "nat \<Rightarrow> vfs \<Rightarrow> (u8 list \<times> u64 \<times> u64 \<times> u32) res" where
  "vfs_ramfile_get fid v =
     (case vfs_ramfile_inode fid v of
        Inl e \<Rightarrow> Inl e
      | Inr n \<Rightarrow> let nd = vs_inodes v ! n in Inr (ri_data nd, ri_size nd, word_of_nat RAMFILE_CAP, ri_mode nd))"

definition vfs_ramfile_set_size :: "nat \<Rightarrow> u64 \<Rightarrow> vfs \<Rightarrow> unit res \<times> vfs" where
  "vfs_ramfile_set_size fid new_size v =
     (if MAX_RAMFILES \<le> fid then (Inl EINVAL, v)
      else if \<not> rl_used (vs_files v ! fid) then (Inl ENOENT, v)
      else if word_of_nat RAMFILE_CAP < new_size then (Inl EINVAL, v)
      else let n = rl_inode (vs_files v ! fid)
        in if MAX_RAMINODES \<le> n then (Inl ENOENT, v)
           else if \<not> ri_used (vs_inodes v ! n) then (Inl ENOENT, v)
           else (Inr (), v\<lparr>vs_inodes := upd_at n (ri_size_update (\<lambda>_. new_size)) (vs_inodes v)\<rparr>))"

text \<open>
  What \<open>sys_write\<close> does through the data pointer \<open>vfs_ramfile_get\<close> hands out: store bytes from an
  offset on, which the caller keeps below \<open>RAMFILE_CAP\<close>.
\<close>

definition overwrite :: "nat \<Rightarrow> 'a list \<Rightarrow> 'a list \<Rightarrow> 'a list" where
  "overwrite off bs xs = take off xs @ bs @ drop (off + length bs) xs"

definition vfs_ramfile_store :: "nat \<Rightarrow> nat \<Rightarrow> u8 list \<Rightarrow> vfs \<Rightarrow> vfs" where
  "vfs_ramfile_store fid off bs v =
     (case vfs_ramfile_inode fid v of
        Inl e \<Rightarrow> v
      | Inr n \<Rightarrow> v\<lparr>vs_inodes := upd_at n (ri_data_update (overwrite off bs)) (vs_inodes v)\<rparr>)"

subsection \<open>The invariant\<close>

definition links_to :: "nat \<Rightarrow> ramfile \<Rightarrow> nat" where
  "links_to n f = (if rl_used f \<and> rl_inode f = n then 1 else 0)"

definition link_count :: "nat \<Rightarrow> ramfile list \<Rightarrow> nat" where
  "link_count n fs = sum_list (map (links_to n) fs)"

text \<open>Two entries in use have different names.\<close>

definition names_distinct :: "('a \<Rightarrow> bool) \<Rightarrow> ('a \<Rightarrow> string) \<Rightarrow> 'a list \<Rightarrow> bool" where
  "names_distinct used path xs \<longleftrightarrow>
     (\<forall>i < length xs. \<forall>j < length xs. used (xs ! i) \<and> used (xs ! j) \<and> path (xs ! i) = path (xs ! j) \<longrightarrow> i = j)"

definition ramdir_ok :: "ramdir \<Rightarrow> bool" where
  "ramdir_ok d \<longleftrightarrow> (rd_used d \<longrightarrow> rd_path d \<noteq> [] \<and> length (rd_path d) < MAX_PATH)"

definition ramfile_ok :: "raminode list \<Rightarrow> ramfile \<Rightarrow> bool" where
  "ramfile_ok ns f \<longleftrightarrow> (rl_used f \<longrightarrow> rl_path f \<noteq> [] \<and> length (rl_path f) < MAX_PATH \<and>
     rl_inode f < MAX_RAMINODES \<and> ri_used (ns ! rl_inode f))"

definition raminode_ok :: "raminode \<Rightarrow> bool" where
  "raminode_ok n \<longleftrightarrow> length (ri_data n) = RAMFILE_CAP \<and> unat (ri_size n) \<le> RAMFILE_CAP"

definition vfs_ok :: "vfs \<Rightarrow> bool" where
  "vfs_ok v \<longleftrightarrow>
     length (vs_dirs v) = MAX_RAMDIRS \<and> length (vs_files v) = MAX_RAMFILES \<and> length (vs_inodes v) = MAX_RAMINODES \<and>
     list_all ramdir_ok (vs_dirs v) \<and> list_all (ramfile_ok (vs_inodes v)) (vs_files v) \<and>
     list_all raminode_ok (vs_inodes v) \<and>
     names_distinct rd_used rd_path (vs_dirs v) \<and> names_distinct rl_used rl_path (vs_files v) \<and>
     (\<forall>n < MAX_RAMINODES. ri_used (vs_inodes v ! n) \<longrightarrow>
        ri_nlink (vs_inodes v ! n) = link_count n (vs_files v) \<and> 0 < link_count n (vs_files v))"

lemma link_count_update:
  "i < length fs \<Longrightarrow> link_count n (fs[i := f]) + links_to n (fs ! i) = link_count n fs + links_to n f"
  unfolding link_count_def using sum_list_upd_at [of i fs "links_to n" "\<lambda>_. f"] by (simp add: upd_at_def)

lemma link_count_zero:
  assumes "\<And>f. f \<in> set fs \<Longrightarrow> \<not> (rl_used f \<and> rl_inode f = n)"
  shows "link_count n fs = 0"
  using assms by (auto simp: link_count_def links_to_def sum_list_eq_0_iff)

lemma link_count_pos: "i < length fs \<Longrightarrow> rl_used (fs ! i) \<Longrightarrow> 0 < link_count (rl_inode (fs ! i)) fs"
proof -
  assume a: "i < length fs" "rl_used (fs ! i)"
  then have "links_to (rl_inode (fs ! i)) (fs ! i) \<le> link_count (rl_inode (fs ! i)) fs"
    unfolding link_count_def by (intro member_le_sum_list) simp_all
  then show ?thesis using a(2) by (simp add: links_to_def)
qed

lemma links_to_pos: "0 < link_count n fs \<Longrightarrow> \<exists>i < length fs. rl_used (fs ! i) \<and> rl_inode (fs ! i) = n"
  using link_count_zero [of fs n] by (metis in_set_conv_nth less_numeral_extra(3))

lemma names_distinct_set:
  assumes "names_distinct used path xs" and "i < length xs"
    and "used x \<Longrightarrow> (\<And>j. j < length xs \<Longrightarrow> j \<noteq> i \<Longrightarrow> used (xs ! j) \<Longrightarrow> path (xs ! j) \<noteq> path x)"
  shows "names_distinct used path (xs[i := x])"
  using assms unfolding names_distinct_def by (simp add: nth_list_update) metis

lemma names_distinct_map:
  "names_distinct used path xs \<Longrightarrow> length ys = length xs \<Longrightarrow>
   (\<And>i. i < length xs \<Longrightarrow> used (ys ! i) = used (xs ! i) \<and> path (ys ! i) = path (xs ! i)) \<Longrightarrow>
   names_distinct used path ys"
  unfolding names_distinct_def by simp

text \<open>Finding a name.\<close>

lemma find_name_Some:
  assumes "names_distinct used path xs" and "i < length xs" and "used (xs ! i)" and "path (xs ! i) = p"
  shows "find_slot (\<lambda>x. used x \<and> path x = p) xs = Some i"
proof -
  obtain j where "find_slot (\<lambda>x. used x \<and> path x = p) xs = Some j"
    using find_slot_exists [of i xs "\<lambda>x. used x \<and> path x = p"] assms by blast
  moreover from this have "j < length xs" "used (xs ! j)" "path (xs ! j) = p"
    using find_slot_Some [of "\<lambda>x. used x \<and> path x = p" xs j] by auto
  ultimately show ?thesis
    using assms unfolding names_distinct_def by metis
qed

lemma find_name_None:
  "find_slot (\<lambda>x. used x \<and> path x = p) xs = None \<longleftrightarrow> (\<forall>i < length xs. used (xs ! i) \<longrightarrow> path (xs ! i) \<noteq> p)"
  by (auto simp: find_slot_None all_set_conv_all_nth)

lemma find_name_hit:
  "find_slot (\<lambda>x. used x \<and> path x = p) xs = Some i \<Longrightarrow> i < length xs \<and> used (xs ! i) \<and> path (xs ! i) = p"
  using find_slot_Some [of "\<lambda>x. used x \<and> path x = p" xs i] by auto

text \<open>A slot is filled with a new name, or emptied: what is found afterwards.\<close>

lemma find_name_fill:
  assumes nd: "names_distinct used path xs" and i: "i < length xs" "\<not> used (xs ! i)"
    and x: "used x" "path x = p" and new: "find_slot (\<lambda>x. used x \<and> path x = p) xs = None"
  shows "find_slot (\<lambda>x. used x \<and> path x = q) (xs[i := x]) =
      (if q = p then Some i else find_slot (\<lambda>x. used x \<and> path x = q) xs)"
    and "names_distinct used path (xs[i := x])"
proof -
  show nd': "names_distinct used path (xs[i := x])"
    using new x by (intro names_distinct_set [OF nd i(1)]) (simp add: find_name_None)
  show "find_slot (\<lambda>x. used x \<and> path x = q) (xs[i := x]) =
      (if q = p then Some i else find_slot (\<lambda>x. used x \<and> path x = q) xs)"
  proof (cases "find_slot (\<lambda>x. used x \<and> path x = q) xs")
    case None
    then have "q \<noteq> p \<Longrightarrow> find_slot (\<lambda>x. used x \<and> path x = q) (xs[i := x]) = None"
      using x i(1) by (auto simp: find_name_None nth_list_update)
    then show ?thesis
      using None find_name_Some [OF nd', of i q] i x by auto
  next
    case (Some j)
    then have j: "j < length xs" "used (xs ! j)" "path (xs ! j) = q"
      using find_name_hit by metis+
    then have "j \<noteq> i" "q \<noteq> p"
      using i(2) new by (auto simp: find_name_None)
    then show ?thesis
      using Some find_name_Some [OF nd', of j q] j by simp
  qed
qed

lemma find_name_empty:
  assumes nd: "names_distinct used path xs" and i: "i < length xs" "used (xs ! i)" and x: "\<not> used x"
  shows "find_slot (\<lambda>x. used x \<and> path x = q) (xs[i := x]) =
      (if q = path (xs ! i) then None else find_slot (\<lambda>x. used x \<and> path x = q) xs)"
    and "names_distinct used path (xs[i := x])"
proof -
  show nd': "names_distinct used path (xs[i := x])"
    using x by (intro names_distinct_set [OF nd i(1)]) simp
  show "find_slot (\<lambda>x. used x \<and> path x = q) (xs[i := x]) =
      (if q = path (xs ! i) then None else find_slot (\<lambda>x. used x \<and> path x = q) xs)"
  proof (cases "find_slot (\<lambda>x. used x \<and> path x = q) (xs[i := x])")
    case None
    then have "q \<noteq> path (xs ! i) \<Longrightarrow> find_slot (\<lambda>x. used x \<and> path x = q) xs = None"
      using i by (auto simp: find_name_None nth_list_update split: if_splits)
    then show ?thesis using None by simp
  next
    case (Some j)
    then have j: "j < length xs" "used (xs[i := x] ! j)" "path (xs[i := x] ! j) = q"
      using find_name_hit [OF Some] by simp_all
    then have "j \<noteq> i" using x i(1) by (auto simp: nth_list_update)
    then have "used (xs ! j)" "path (xs ! j) = q" using j by simp_all
    then have "find_slot (\<lambda>x. used x \<and> path x = q) xs = Some j" and "q \<noteq> path (xs ! i)"
      using find_name_Some [OF nd j(1)] nd i j(1) \<open>j \<noteq> i\<close> by (auto simp: names_distinct_def)
    then show ?thesis using Some by simp
  qed
qed

subsection \<open>Every operation keeps the invariant\<close>

lemma vfs_init_ok: "vfs_ok (vfs_init v)"
proof -
  have nd: "names_distinct used path (replicate n x)" if "\<not> used x" for used path n and x :: 'a
    using that by (simp add: names_distinct_def)
  show ?thesis
    by (auto simp: vfs_ok_def vfs_init_def list_all_iff ramdir_unused_def raminode_unused_def
        ramfile_unused_def ramdir_ok_def ramfile_ok_def raminode_ok_def RAMFILE_CAP_def intro!: nd)
qed

lemma list_all_update: "list_all P xs \<Longrightarrow> P x \<Longrightarrow> list_all P (xs[i := x])"
  by (auto simp: list_all_iff dest: set_update_subset_insert [THEN subsetD])

lemma vfs_ramdir_create_Inr:
  assumes ok: "vfs_ok v" and r: "vfs_ramdir_create p mode v = (Inr (), v')"
  shows "vfs_ok v'" and "ramdir_find p v = None"
    and "\<exists>i. v' = v\<lparr>vs_dirs := (vs_dirs v)[i := \<lparr>rd_used = True, rd_mode = mode, rd_path = p\<rparr>]\<rparr> \<and>
      i < MAX_RAMDIRS \<and> (\<forall>q. ramdir_find q v' = (if q = p then Some i else ramdir_find q v))"
proof -
  let ?d = "\<lparr>rd_used = True, rd_mode = mode, rd_path = p\<rparr>"
  obtain i where i: "ramdir_alloc_slot v = Some i" and p: "p \<noteq> []" "ramdir_find p v = None" "length p < MAX_PATH"
      and v': "v' = v\<lparr>vs_dirs := (vs_dirs v)[i := ?d]\<rparr>"
    using r by (auto simp: vfs_ramdir_create_def split: if_splits option.splits)
  have il: "i < length (vs_dirs v)" "\<not> rd_used (vs_dirs v ! i)"
    using find_slot_Some [of "\<lambda>d. \<not> rd_used d" "vs_dirs v" i] i by (auto simp: ramdir_alloc_slot_def)
  have nd: "names_distinct rd_used rd_path (vs_dirs v)"
    using ok by (simp add: vfs_ok_def)
  note fill = find_name_fill [OF nd il, of ?d p]
  show "vfs_ok v'"
    using ok fill(2) p list_all_update [of ramdir_ok "vs_dirs v" ?d i]
    by (simp add: vfs_ok_def v' ramdir_find_def ramdir_ok_def)
  show "ramdir_find p v = None" by (rule p)
  show "\<exists>i. v' = v\<lparr>vs_dirs := (vs_dirs v)[i := ?d]\<rparr> \<and> i < MAX_RAMDIRS \<and>
      (\<forall>q. ramdir_find q v' = (if q = p then Some i else ramdir_find q v))"
    using fill(1) p v' il ok by (intro exI [of _ i]) (simp add: ramdir_find_def vfs_ok_def)
qed

lemma vfs_ramdir_remove_Inr:
  assumes ok: "vfs_ok v" and r: "vfs_ramdir_remove p v = (Inr (), v')"
  shows "vfs_ok v'" and "\<exists>i. ramdir_find p v = Some i \<and> v' = v\<lparr>vs_dirs := (vs_dirs v)[i := ramdir_unused]\<rparr>"
    and "ramdir_find q v' = (if q = p then None else ramdir_find q v)"
proof -
  obtain i where i: "ramdir_find p v = Some i" and v': "v' = v\<lparr>vs_dirs := (vs_dirs v)[i := ramdir_unused]\<rparr>"
    using r by (auto simp: vfs_ramdir_remove_def split: if_splits option.splits)
  have il: "i < length (vs_dirs v)" "rd_used (vs_dirs v ! i)" "rd_path (vs_dirs v ! i) = p"
    using find_name_hit [of rd_used rd_path p "vs_dirs v" i] i by (auto simp: ramdir_find_def)
  have nd: "names_distinct rd_used rd_path (vs_dirs v)"
    using ok by (simp add: vfs_ok_def)
  have un: "\<not> rd_used ramdir_unused" by (simp add: ramdir_unused_def)
  note emp = find_name_empty [OF nd il(1,2) un]
  show "vfs_ok v'"
    using ok emp(2) list_all_update [of ramdir_ok "vs_dirs v" ramdir_unused i]
    by (simp add: vfs_ok_def v' ramdir_ok_def un)
  show "\<exists>i. ramdir_find p v = Some i \<and> v' = v\<lparr>vs_dirs := (vs_dirs v)[i := ramdir_unused]\<rparr>"
    using i v' by blast
  show "ramdir_find q v' = (if q = p then None else ramdir_find q v)"
    using emp(1) [of q] il(3) v' by (simp add: ramdir_find_def)
qed

lemma link_count_fill:
  "i < length fs \<Longrightarrow> \<not> rl_used (fs ! i) \<Longrightarrow> rl_used f \<Longrightarrow>
   link_count n (fs[i := f]) = link_count n fs + (if n = rl_inode f then 1 else 0)"
  using link_count_update [of i fs n f] by (auto simp: links_to_def)

lemma link_count_empty:
  "i < length fs \<Longrightarrow> rl_used (fs ! i) \<Longrightarrow> \<not> rl_used f \<Longrightarrow>
   link_count n (fs[i := f]) + (if n = rl_inode (fs ! i) then 1 else 0) = link_count n fs"
  using link_count_update [of i fs n f] by (auto simp: links_to_def)

lemma vfs_files_okI:
  assumes "vfs_ok v" and "vs_dirs v' = vs_dirs v" and "length (vs_files v') = MAX_RAMFILES"
    and "length (vs_inodes v') = MAX_RAMINODES" and "names_distinct rl_used rl_path (vs_files v')"
    and "\<And>n. n < MAX_RAMINODES \<Longrightarrow> raminode_ok (vs_inodes v' ! n)"
    and "\<And>n. n < MAX_RAMINODES \<Longrightarrow> ri_used (vs_inodes v' ! n) \<Longrightarrow>
      ri_nlink (vs_inodes v' ! n) = link_count n (vs_files v') \<and> 0 < link_count n (vs_files v')"
    and "\<And>i. i < MAX_RAMFILES \<Longrightarrow> rl_used (vs_files v' ! i) \<Longrightarrow>
      rl_path (vs_files v' ! i) \<noteq> [] \<and> length (rl_path (vs_files v' ! i)) < MAX_PATH \<and>
      rl_inode (vs_files v' ! i) < MAX_RAMINODES \<and> ri_used (vs_inodes v' ! rl_inode (vs_files v' ! i))"
  shows "vfs_ok v'"
  using assms by (auto simp: vfs_ok_def list_all_length ramfile_ok_def)

lemma vfs_ok_file:
  "vfs_ok v \<Longrightarrow> i < MAX_RAMFILES \<Longrightarrow> rl_used (vs_files v ! i) \<Longrightarrow>
   rl_path (vs_files v ! i) \<noteq> [] \<and> length (rl_path (vs_files v ! i)) < MAX_PATH \<and>
   rl_inode (vs_files v ! i) < MAX_RAMINODES \<and> ri_used (vs_inodes v ! rl_inode (vs_files v ! i))"
  by (auto simp: vfs_ok_def list_all_length ramfile_ok_def)

lemma vfs_ok_inode:
  "vfs_ok v \<Longrightarrow> n < MAX_RAMINODES \<Longrightarrow> raminode_ok (vs_inodes v ! n) \<and>
   (ri_used (vs_inodes v ! n) \<longrightarrow> ri_nlink (vs_inodes v ! n) = link_count n (vs_files v) \<and> 0 < link_count n (vs_files v))"
  by (auto simp: vfs_ok_def list_all_length)

lemma vfs_ok_lengths:
  "vfs_ok v \<Longrightarrow> length (vs_dirs v) = MAX_RAMDIRS \<and> length (vs_files v) = MAX_RAMFILES \<and>
   length (vs_inodes v) = MAX_RAMINODES \<and> names_distinct rl_used rl_path (vs_files v)"
  by (simp add: vfs_ok_def)

lemma ramfile_find_Some:
  "ramfile_find p v = Some i \<Longrightarrow> i < length (vs_files v) \<and> rl_used (vs_files v ! i) \<and> rl_path (vs_files v ! i) = p"
  unfolding ramfile_find_def by (rule find_name_hit)

text \<open>An inode that is not in use has no name.\<close>

lemma unused_inode_links:
  assumes "vfs_ok v" and "\<not> ri_used (vs_inodes v ! n)"
  shows "link_count n (vs_files v) = 0"
proof (rule link_count_zero)
  fix f
  assume "f \<in> set (vs_files v)"
  then obtain i where "i < MAX_RAMFILES" "f = vs_files v ! i"
    using assms(1) by (auto simp: in_set_conv_nth vfs_ok_def)
  then show "\<not> (rl_used f \<and> rl_inode f = n)"
    using vfs_ok_file [OF assms(1), of i] assms(2) by auto
qed

lemma vfs_ramfile_create_Inr:
  assumes ok: "vfs_ok v" and r: "vfs_ramfile_create p mode v = (Inr (), v')"
  shows "vfs_ok v'" and "ramfile_find p v = None \<and> ramdir_find p v = None"
    and "\<exists>i n. i < MAX_RAMFILES \<and> n < MAX_RAMINODES \<and> \<not> ri_used (vs_inodes v ! n) \<and>
      vs_files v' = (vs_files v)[i := \<lparr>rl_used = True, rl_inode = n, rl_path = p\<rparr>] \<and>
      vs_inodes v' = (vs_inodes v)[n := \<lparr>ri_used = True, ri_mode = mode, ri_size = 0, ri_nlink = 1,
        ri_data = replicate RAMFILE_CAP 0\<rparr>] \<and> vs_dirs v' = vs_dirs v \<and>
      (\<forall>q. ramfile_find q v' = (if q = p then Some i else ramfile_find q v))"
proof -
  obtain i n where i: "ramfile_alloc_slot v = Some i" and n: "raminode_alloc_slot v = Some n"
      and p: "p \<noteq> []" "ramfile_find p v = None" "ramdir_find p v = None" "length p < MAX_PATH"
      and v': "v' = v\<lparr>vs_files := (vs_files v)[i := \<lparr>rl_used = True, rl_inode = n, rl_path = p\<rparr>],
        vs_inodes := (vs_inodes v)[n := \<lparr>ri_used = True, ri_mode = mode, ri_size = 0, ri_nlink = 1,
          ri_data = replicate RAMFILE_CAP 0\<rparr>]\<rparr>"
    using r by (auto simp: vfs_ramfile_create_def split: if_splits option.splits)
  let ?f = "\<lparr>rl_used = True, rl_inode = n, rl_path = p\<rparr>"
  have lens: "length (vs_files v) = MAX_RAMFILES" "length (vs_inodes v) = MAX_RAMINODES"
    and nd: "names_distinct rl_used rl_path (vs_files v)"
    using vfs_ok_lengths [OF ok] by blast+
  have il: "i < length (vs_files v)" "\<not> rl_used (vs_files v ! i)"
    using find_slot_Some [of "\<lambda>f. \<not> rl_used f" "vs_files v" i] i by (auto simp: ramfile_alloc_slot_def)
  have nl: "n < length (vs_inodes v)" "\<not> ri_used (vs_inodes v ! n)"
    using find_slot_Some [of "\<lambda>f. \<not> ri_used f" "vs_inodes v" n] n by (auto simp: raminode_alloc_slot_def)
  note fill = find_name_fill [OF nd il, of ?f p]
  have links: "link_count k ((vs_files v)[i := ?f]) = link_count k (vs_files v) + (if k = n then 1 else 0)" for k
    using link_count_fill [OF il] by simp
  show "vfs_ok v'"
  proof (rule vfs_files_okI [OF ok])
    show "vs_dirs v' = vs_dirs v" by (simp add: v')
    show "length (vs_files v') = MAX_RAMFILES" "length (vs_inodes v') = MAX_RAMINODES"
      by (simp_all add: v' lens)
    show "names_distinct rl_used rl_path (vs_files v')"
      using fill(2) p by (simp add: v' ramfile_find_def)
    show "raminode_ok (vs_inodes v' ! k)" if "k < MAX_RAMINODES" for k
      using vfs_ok_inode [OF ok that] nl(1)
      by (simp add: v' nth_list_update raminode_ok_def)
    show "ri_nlink (vs_inodes v' ! k) = link_count k (vs_files v') \<and> 0 < link_count k (vs_files v')"
      if "k < MAX_RAMINODES" "ri_used (vs_inodes v' ! k)" for k
      using vfs_ok_inode [OF ok that(1)] that lens links unused_inode_links [OF ok nl(2)]
      by (auto simp: v' nth_list_update split: if_splits)
    show "rl_path (vs_files v' ! j) \<noteq> [] \<and> length (rl_path (vs_files v' ! j)) < MAX_PATH \<and>
      rl_inode (vs_files v' ! j) < MAX_RAMINODES \<and> ri_used (vs_inodes v' ! rl_inode (vs_files v' ! j))"
      if "j < MAX_RAMFILES" "rl_used (vs_files v' ! j)" for j
      using vfs_ok_file [OF ok that(1)] that lens p nl il(1)
      by (auto simp: v' nth_list_update split: if_splits)
  qed
  show "ramfile_find p v = None \<and> ramdir_find p v = None" using p by simp
  show "\<exists>i n. i < MAX_RAMFILES \<and> n < MAX_RAMINODES \<and> \<not> ri_used (vs_inodes v ! n) \<and>
      vs_files v' = (vs_files v)[i := \<lparr>rl_used = True, rl_inode = n, rl_path = p\<rparr>] \<and>
      vs_inodes v' = (vs_inodes v)[n := \<lparr>ri_used = True, ri_mode = mode, ri_size = 0, ri_nlink = 1,
        ri_data = replicate RAMFILE_CAP 0\<rparr>] \<and> vs_dirs v' = vs_dirs v \<and>
      (\<forall>q. ramfile_find q v' = (if q = p then Some i else ramfile_find q v))"
    using fill(1) p il nl lens v' by (intro exI [of _ i] exI [of _ n]) (simp add: ramfile_find_def)
qed

lemma raminode_decref_sel [simp]:
  "vs_dirs (raminode_decref n v) = vs_dirs v" "vs_files (raminode_decref n v) = vs_files v"
  "vs_dirs (raminode_incref n v) = vs_dirs v" "vs_files (raminode_incref n v) = vs_files v"
  by (simp_all add: raminode_decref_def raminode_incref_def)

lemma raminode_unused_simps [simp]:
  "\<not> ri_used raminode_unused" "raminode_ok raminode_unused"
  by (simp_all add: raminode_unused_def raminode_ok_def)

text \<open>Unlinking the last name of an inode frees it, otherwise its count drops by one.\<close>

lemma vfs_ramfile_unlink_Inr:
  assumes ok: "vfs_ok v" and r: "vfs_ramfile_unlink p v = (Inr (), v')"
  shows "vfs_ok v'"
    and "\<exists>i n. ramfile_find p v = Some i \<and> n = rl_inode (vs_files v ! i) \<and> n < MAX_RAMINODES \<and>
      vs_dirs v' = vs_dirs v \<and> vs_files v' = (vs_files v)[i := ramfile_unused] \<and>
      vs_inodes v' = (vs_inodes v)[n := (if link_count n (vs_files v) = 1 then raminode_unused
        else (vs_inodes v ! n)\<lparr>ri_nlink := link_count n (vs_files v) - 1\<rparr>)]"
    and "ramfile_find q v' = (if q = p then None else ramfile_find q v)"
proof -
  obtain i where i: "ramfile_find p v = Some i"
      and v': "v' = raminode_decref (rl_inode (vs_files v ! i)) (v\<lparr>vs_files := (vs_files v)[i := ramfile_unused]\<rparr>)"
    using r by (auto simp: vfs_ramfile_unlink_def split: if_splits option.splits)
  define n where "n = rl_inode (vs_files v ! i)"
  have il: "i < length (vs_files v)" "rl_used (vs_files v ! i)" "rl_path (vs_files v ! i) = p"
    using ramfile_find_Some [OF i] by blast+
  have lens: "length (vs_files v) = MAX_RAMFILES" "length (vs_inodes v) = MAX_RAMINODES"
    and nd: "names_distinct rl_used rl_path (vs_files v)"
    using vfs_ok_lengths [OF ok] by blast+
  have n: "n < MAX_RAMINODES" "ri_used (vs_inodes v ! n)"
    using vfs_ok_file [OF ok, of i] il lens by (simp_all add: n_def)
  have nlink: "ri_nlink (vs_inodes v ! n) = link_count n (vs_files v)" "0 < link_count n (vs_files v)"
    using vfs_ok_inode [OF ok n(1)] n(2) by simp_all
  let ?n' = "if link_count n (vs_files v) = 1 then raminode_unused
    else (vs_inodes v ! n)\<lparr>ri_nlink := link_count n (vs_files v) - 1\<rparr>"
  have drop: "raminode_drop (vs_inodes v ! n) = ?n'"
    using n(2) nlink by (auto simp: raminode_drop_def Let_def)
  have files': "vs_files v' = (vs_files v)[i := ramfile_unused]" and dirs': "vs_dirs v' = vs_dirs v"
    and inodes': "vs_inodes v' = (vs_inodes v)[n := ?n']"
    using n(1) drop by (simp_all add: v' raminode_decref_def upd_at_def flip: n_def)
  have un: "\<not> rl_used ramfile_unused" by (simp add: ramfile_unused_def)
  note emp = find_name_empty [OF nd il(1,2) un]
  have links: "link_count k (vs_files v') + (if k = n then 1 else 0) = link_count k (vs_files v)" for k
    using link_count_empty [OF il(1,2) un, of k] by (simp add: files' n_def)
  have in': "vs_inodes v' ! k = (if k = n then ?n' else vs_inodes v ! k)" if "k < MAX_RAMINODES" for k
    using n(1) lens(2) by (simp add: inodes' nth_list_update)
  show "vfs_ok v'"
  proof (rule vfs_files_okI [OF ok dirs'])
    show "length (vs_files v') = MAX_RAMFILES" "length (vs_inodes v') = MAX_RAMINODES"
      by (simp_all add: files' inodes' lens)
    show "names_distinct rl_used rl_path (vs_files v')"
      using emp(2) by (simp add: files')
    show "raminode_ok (vs_inodes v' ! k)" if "k < MAX_RAMINODES" for k
      using vfs_ok_inode [OF ok that] in' [OF that] by (auto simp: raminode_ok_def raminode_unused_def)
    show "ri_nlink (vs_inodes v' ! k) = link_count k (vs_files v') \<and> 0 < link_count k (vs_files v')"
      if "k < MAX_RAMINODES" "ri_used (vs_inodes v' ! k)" for k
      using vfs_ok_inode [OF ok that(1)] in' [OF that(1)] that(2) links [of k]
      by (auto split: if_splits)
    show "rl_path (vs_files v' ! j) \<noteq> [] \<and> length (rl_path (vs_files v' ! j)) < MAX_PATH \<and>
      rl_inode (vs_files v' ! j) < MAX_RAMINODES \<and> ri_used (vs_inodes v' ! rl_inode (vs_files v' ! j))"
      if j: "j < MAX_RAMFILES" "rl_used (vs_files v' ! j)" for j
    proof -
      have same: "vs_files v' ! j = vs_files v ! j"
        using j un il(1) by (auto simp: files' nth_list_update split: if_splits)
      note fl = vfs_ok_file [OF ok j(1), folded same, OF j(2)]
      have "0 < link_count (rl_inode (vs_files v' ! j)) (vs_files v')"
        using j lens by (intro link_count_pos) (simp_all add: files')
      then have "rl_inode (vs_files v' ! j) = n \<Longrightarrow> link_count n (vs_files v) \<noteq> 1"
        using links [of n] by auto
      then show ?thesis
        using fl in' [of "rl_inode (vs_files v' ! j)"] n(2) by auto
    qed
  qed
  show "\<exists>i n. ramfile_find p v = Some i \<and> n = rl_inode (vs_files v ! i) \<and> n < MAX_RAMINODES \<and>
      vs_dirs v' = vs_dirs v \<and> vs_files v' = (vs_files v)[i := ramfile_unused] \<and>
      vs_inodes v' = (vs_inodes v)[n := (if link_count n (vs_files v) = 1 then raminode_unused
        else (vs_inodes v ! n)\<lparr>ri_nlink := link_count n (vs_files v) - 1\<rparr>)]"
    using i n(1) dirs' files' inodes' by (intro exI [of _ i] exI [of _ n]) (simp add: n_def)
  show "ramfile_find q v' = (if q = p then None else ramfile_find q v)"
    using emp(1) [of q] il(3) by (simp add: ramfile_find_def files')
qed

lemma vfs_ramfile_link_Inr:
  assumes ok: "vfs_ok v" and r: "vfs_ramfile_link p q v = (Inr (), v')"
  shows "vfs_ok v'" and "ramfile_find q v = None \<and> ramdir_find q v = None"
    and "\<exists>i j n. ramfile_find p v = Some i \<and> n = rl_inode (vs_files v ! i) \<and> n < MAX_RAMINODES \<and> j < MAX_RAMFILES \<and>
      vs_dirs v' = vs_dirs v \<and> vs_files v' = (vs_files v)[j := \<lparr>rl_used = True, rl_inode = n, rl_path = q\<rparr>] \<and>
      vs_inodes v' = (vs_inodes v)[n := (vs_inodes v ! n)\<lparr>ri_nlink := Suc (link_count n (vs_files v))\<rparr>] \<and>
      (\<forall>p'. ramfile_find p' v' = (if p' = q then Some j else ramfile_find p' v))"
proof -
  obtain i j where i: "ramfile_find p v = Some i" and j: "ramfile_alloc_slot v = Some j"
      and q: "q \<noteq> []" "ramfile_find q v = None" "ramdir_find q v = None" "length q < MAX_PATH"
      and n': "rl_inode (vs_files v ! i) < MAX_RAMINODES" "ri_used (vs_inodes v ! rl_inode (vs_files v ! i))"
      and v': "v' = raminode_incref (rl_inode (vs_files v ! i))
        (v\<lparr>vs_files := (vs_files v)[j := \<lparr>rl_used = True, rl_inode = rl_inode (vs_files v ! i), rl_path = q\<rparr>]\<rparr>)"
    using r by (auto simp: vfs_ramfile_link_def Let_def split: if_splits option.splits)
  define n where "n = rl_inode (vs_files v ! i)"
  let ?f = "\<lparr>rl_used = True, rl_inode = n, rl_path = q\<rparr>"
  have lens: "length (vs_files v) = MAX_RAMFILES" "length (vs_inodes v) = MAX_RAMINODES"
    and nd: "names_distinct rl_used rl_path (vs_files v)"
    using vfs_ok_lengths [OF ok] by blast+
  have jl: "j < length (vs_files v)" "\<not> rl_used (vs_files v ! j)"
    using find_slot_Some [of "\<lambda>f. \<not> rl_used f" "vs_files v" j] j by (auto simp: ramfile_alloc_slot_def)
  have n: "n < MAX_RAMINODES" "ri_used (vs_inodes v ! n)"
    using n' by (simp_all add: n_def)
  have nlink: "ri_nlink (vs_inodes v ! n) = link_count n (vs_files v)"
    using vfs_ok_inode [OF ok n(1)] n(2) by simp
  let ?n' = "(vs_inodes v ! n)\<lparr>ri_nlink := Suc (link_count n (vs_files v))\<rparr>"
  have files': "vs_files v' = (vs_files v)[j := ?f]" and dirs': "vs_dirs v' = vs_dirs v"
    and inodes': "vs_inodes v' = (vs_inodes v)[n := ?n']"
    using n nlink by (simp_all add: v' raminode_incref_def raminode_bump_def upd_at_def flip: n_def)
  note fill = find_name_fill [OF nd jl, of ?f q]
  have links: "link_count k (vs_files v') = link_count k (vs_files v) + (if k = n then 1 else 0)" for k
    using link_count_fill [OF jl] by (simp add: files')
  have in': "vs_inodes v' ! k = (if k = n then ?n' else vs_inodes v ! k)" if "k < MAX_RAMINODES" for k
    using n(1) lens(2) by (simp add: inodes' nth_list_update)
  show "vfs_ok v'"
  proof (rule vfs_files_okI [OF ok dirs'])
    show "length (vs_files v') = MAX_RAMFILES" "length (vs_inodes v') = MAX_RAMINODES"
      by (simp_all add: files' inodes' lens)
    show "names_distinct rl_used rl_path (vs_files v')"
      using fill(2) q by (simp add: files' ramfile_find_def)
    show "raminode_ok (vs_inodes v' ! k)" if "k < MAX_RAMINODES" for k
      using vfs_ok_inode [OF ok that] in' [OF that] by (auto simp: raminode_ok_def)
    show "ri_nlink (vs_inodes v' ! k) = link_count k (vs_files v') \<and> 0 < link_count k (vs_files v')"
      if "k < MAX_RAMINODES" "ri_used (vs_inodes v' ! k)" for k
      using vfs_ok_inode [OF ok that(1)] in' [OF that(1)] that(2) links [of k] by (auto split: if_splits)
    show "rl_path (vs_files v' ! k) \<noteq> [] \<and> length (rl_path (vs_files v' ! k)) < MAX_PATH \<and>
      rl_inode (vs_files v' ! k) < MAX_RAMINODES \<and> ri_used (vs_inodes v' ! rl_inode (vs_files v' ! k))"
      if "k < MAX_RAMFILES" "rl_used (vs_files v' ! k)" for k
      using vfs_ok_file [OF ok that(1)] that(2) n q in' [of "rl_inode (vs_files v' ! k)"] jl(1)
      by (auto simp: files' nth_list_update split: if_splits)
  qed
  show "ramfile_find q v = None \<and> ramdir_find q v = None" using q by simp
  show "\<exists>i j n. ramfile_find p v = Some i \<and> n = rl_inode (vs_files v ! i) \<and> n < MAX_RAMINODES \<and> j < MAX_RAMFILES \<and>
      vs_dirs v' = vs_dirs v \<and> vs_files v' = (vs_files v)[j := \<lparr>rl_used = True, rl_inode = n, rl_path = q\<rparr>] \<and>
      vs_inodes v' = (vs_inodes v)[n := (vs_inodes v ! n)\<lparr>ri_nlink := Suc (link_count n (vs_files v))\<rparr>] \<and>
      (\<forall>p'. ramfile_find p' v' = (if p' = q then Some j else ramfile_find p' v))"
    using i n(1) dirs' files' inodes' jl(1) lens(1) fill(1) q
    by (intro exI [of _ i] exI [of _ j] exI [of _ n]) (simp add: n_def ramfile_find_def)
qed

text \<open>Updates of one inode's mode, size or bytes.\<close>

lemma vfs_inode_update_ok:
  assumes "vfs_ok v" and "\<And>nd. raminode_ok nd \<Longrightarrow> raminode_ok (f nd)"
    and "\<And>nd. ri_used (f nd) = ri_used nd" and "\<And>nd. ri_nlink (f nd) = ri_nlink nd"
  shows "vfs_ok (v\<lparr>vs_inodes := upd_at n f (vs_inodes v)\<rparr>)"
proof -
  have len: "length (vs_inodes v) = MAX_RAMINODES"
    using assms(1) by (simp add: vfs_ok_def)
  have in': "upd_at n f (vs_inodes v) ! k = (if k = n then f (vs_inodes v ! n) else vs_inodes v ! k)"
    if "k < MAX_RAMINODES" for k
    using that len by (simp add: nth_upd_at)
  let ?v = "v\<lparr>vs_inodes := upd_at n f (vs_inodes v)\<rparr>"
  show ?thesis
  proof (rule vfs_files_okI [OF assms(1)])
    show "raminode_ok (vs_inodes ?v ! k)" if "k < MAX_RAMINODES" for k
      using vfs_ok_inode [OF assms(1) that] in' [OF that] assms(2) by auto
    show "ri_nlink (vs_inodes ?v ! k) = link_count k (vs_files ?v) \<and> 0 < link_count k (vs_files ?v)"
      if "k < MAX_RAMINODES" "ri_used (vs_inodes ?v ! k)" for k
      using vfs_ok_inode [OF assms(1) that(1)] in' [OF that(1)] that(2) assms(3,4) by (auto split: if_splits)
    show "rl_path (vs_files ?v ! i) \<noteq> [] \<and> length (rl_path (vs_files ?v ! i)) < MAX_PATH \<and>
      rl_inode (vs_files ?v ! i) < MAX_RAMINODES \<and> ri_used (vs_inodes ?v ! rl_inode (vs_files ?v ! i))"
      if "i < MAX_RAMFILES" "rl_used (vs_files ?v ! i)" for i
      using vfs_ok_file [OF assms(1) that(1)] that(2) in' [of "rl_inode (vs_files v ! i)"] assms(3) by auto
  qed (use vfs_ok_lengths [OF assms(1)] in simp_all)
qed

lemma vfs_ramfile_set_mode_ok: "vfs_ok v \<Longrightarrow> vfs_ok (snd (vfs_ramfile_set_mode_abs a mode v))"
  by (auto simp: vfs_ramfile_set_mode_abs_def Let_def raminode_ok_def intro!: vfs_inode_update_ok split: option.splits)

lemma vfs_ramfile_set_size_ok: "vfs_ok v \<Longrightarrow> vfs_ok (snd (vfs_ramfile_set_size fid sz v))"
  by (auto simp: vfs_ramfile_set_size_def Let_def raminode_ok_def word_le_nat_alt not_less RAMFILE_CAP_def
      intro!: vfs_inode_update_ok split: option.splits)

lemma length_overwrite: "off + length bs \<le> length xs \<Longrightarrow> length (overwrite off bs xs) = length xs"
  by (simp add: overwrite_def)

lemma vfs_ramfile_store_ok: "vfs_ok v \<Longrightarrow> off + length bs \<le> RAMFILE_CAP \<Longrightarrow> vfs_ok (vfs_ramfile_store fid off bs v)"
  by (auto simp: vfs_ramfile_store_def raminode_ok_def length_overwrite
      intro!: vfs_inode_update_ok split: sum.splits)

lemma vfs_ramdir_set_mode_ok: "vfs_ok v \<Longrightarrow> vfs_ok (snd (vfs_ramdir_set_mode_abs a mode v))"
proof -
  assume ok: "vfs_ok v"
  have "vfs_ok (v\<lparr>vs_dirs := upd_at i (rd_mode_update (\<lambda>_. mode)) (vs_dirs v)\<rparr>)" for i
    using ok list_all_upd_at [of ramdir_ok "vs_dirs v" i "rd_mode_update (\<lambda>_. mode)"]
      names_distinct_map [of rd_used rd_path "vs_dirs v" "upd_at i (rd_mode_update (\<lambda>_. mode)) (vs_dirs v)"]
    by (simp add: vfs_ok_def ramdir_ok_def nth_upd_at)
  then show ?thesis
    using ok by (auto simp: vfs_ramdir_set_mode_abs_def Let_def split: option.splits)
qed

subsection \<open>Names as a finite map\<close>

text \<open>
  What a client of one of the name tables relies on: a lookup after any history of insertions and
  deletions is the lookup in the map that the successful ones describe, an insertion succeeds only
  on a free name and a deletion only on a present one.
\<close>

datatype 'v name_op = Add string 'v | Del string

fun name_step ::
  "(string \<Rightarrow> 'v \<Rightarrow> 's \<Rightarrow> unit res \<times> 's) \<Rightarrow> (string \<Rightarrow> 's \<Rightarrow> unit res \<times> 's) \<Rightarrow> 'v name_op \<Rightarrow> 's \<Rightarrow> unit res \<times> 's"
where
  "name_step ins del (Add p x) s = ins p x s"
| "name_step ins del (Del p) s = del p s"

fun map_step :: "'v name_op \<Rightarrow> unit res \<Rightarrow> (string \<Rightarrow> 'v option) \<Rightarrow> (string \<Rightarrow> 'v option)" where
  "map_step oper (Inl e) m = m"
| "map_step (Add p x) (Inr u) m = m(p \<mapsto> x)"
| "map_step (Del p) (Inr u) m = m(p := None)"

text \<open>The state and the described map after a history, from the same start.\<close>

fun name_run ::
  "(string \<Rightarrow> 'v \<Rightarrow> 's \<Rightarrow> unit res \<times> 's) \<Rightarrow> (string \<Rightarrow> 's \<Rightarrow> unit res \<times> 's) \<Rightarrow> 'v name_op list \<Rightarrow>
   's \<times> (string \<Rightarrow> 'v option) \<Rightarrow> 's \<times> (string \<Rightarrow> 'v option)"
where
  "name_run ins del [] sm = sm"
| "name_run ins del (oper # ops) sm =
     (case name_step ins del oper (fst sm) of
        (r, s') \<Rightarrow> name_run ins del ops (s', map_step oper r (snd sm)))"

locale name_table =
  fixes inv :: "'s \<Rightarrow> bool" and look :: "'s \<Rightarrow> string \<Rightarrow> 'v option"
    and ins :: "string \<Rightarrow> 'v \<Rightarrow> 's \<Rightarrow> unit res \<times> 's" and del :: "string \<Rightarrow> 's \<Rightarrow> unit res \<times> 's"
  assumes ins_ok: "inv s \<Longrightarrow> ins p x s = (Inr (), s') \<Longrightarrow> inv s' \<and> look s p = None \<and> look s' = (look s)(p \<mapsto> x)"
    and ins_err: "ins p x s = (Inl e, s') \<Longrightarrow> s' = s"
    and del_ok: "inv s \<Longrightarrow> del p s = (Inr (), s') \<Longrightarrow> inv s' \<and> look s p \<noteq> None \<and> look s' = (look s)(p := None)"
    and del_err: "del p s = (Inl e, s') \<Longrightarrow> s' = s"
begin

lemma step_look:
  assumes "inv s" and "name_step ins del oper s = (r, s')"
  shows "inv s' \<and> look s' = map_step oper r (look s)"
proof (cases r)
  case (Inl e)
  then show ?thesis
    using assms by (cases oper) (auto dest: ins_err del_err)
next
  case (Inr u)
  then show ?thesis
    using assms ins_ok [of s _ _ s'] del_ok [of s _ s'] by (cases oper) (simp_all)
qed

theorem run_look:
  "inv s \<Longrightarrow> name_run ins del ops (s, look s) = (s', m) \<Longrightarrow> inv s' \<and> look s' = m"
proof (induction ops arbitrary: s)
  case Nil
  then show ?case by auto
next
  case (Cons oper ops)
  obtain r s1 where 1: "name_step ins del oper s = (r, s1)" by fastforce
  then show ?case
    using Cons.IH [of s1] Cons.prems(2) step_look [OF Cons.prems(1) 1] by simp
qed

end

definition ramdir_mode :: "vfs \<Rightarrow> string \<Rightarrow> u32 option" where
  "ramdir_mode v p = map_option (\<lambda>i. rd_mode (vs_dirs v ! i)) (ramdir_find p v)"

definition ramfile_mode :: "vfs \<Rightarrow> string \<Rightarrow> u32 option" where
  "ramfile_mode v p = map_option (\<lambda>i. ri_mode (vs_inodes v ! rl_inode (vs_files v ! i))) (ramfile_find p v)"

lemma ramdir_find_lt: "vfs_ok v \<Longrightarrow> ramdir_find p v = Some i \<Longrightarrow> i < MAX_RAMDIRS"
  using find_name_hit [of rd_used rd_path p "vs_dirs v" i] by (simp add: ramdir_find_def vfs_ok_def)

lemma ramdir_find_inj:
  "vfs_ok v \<Longrightarrow> ramdir_find p v = Some i \<Longrightarrow> ramdir_find q v = Some i \<Longrightarrow> p = q"
  using find_name_hit [of rd_used rd_path p "vs_dirs v" i] find_name_hit [of rd_used rd_path q "vs_dirs v" i]
  by (simp add: ramdir_find_def)

lemma ramdir_create_mode:
  assumes "vfs_ok v" and "vfs_ramdir_create p mode v = (Inr (), v')"
  shows "ramdir_mode v' = (ramdir_mode v)(p \<mapsto> mode)"
proof
  fix q
  obtain i where v': "v' = v\<lparr>vs_dirs := (vs_dirs v)[i := \<lparr>rd_used = True, rd_mode = mode, rd_path = p\<rparr>]\<rparr>"
      and i: "i < MAX_RAMDIRS" and fnd: "\<And>q. ramdir_find q v' = (if q = p then Some i else ramdir_find q v)"
    using vfs_ramdir_create_Inr(3) [OF assms] by blast
  have len: "length (vs_dirs v) = MAX_RAMDIRS"
    using assms(1) by (simp add: vfs_ok_def)
  show "ramdir_mode v' q = ((ramdir_mode v)(p \<mapsto> mode)) q"
  proof (cases "q = p")
    case True
    then show ?thesis using fnd [of q] i len by (simp add: ramdir_mode_def) (simp add: v')
  next
    case False
    have "j \<noteq> i" if "ramdir_find q v = Some j" for j
      using ramdir_find_inj [OF vfs_ramdir_create_Inr(1) [OF assms], of q i p] fnd False that by auto
    then show ?thesis
      using fnd [of q] False by (cases "ramdir_find q v") (simp_all add: ramdir_mode_def, simp add: v')
  qed
qed

lemma ramdir_remove_mode:
  assumes "vfs_ok v" and "vfs_ramdir_remove p v = (Inr (), v')"
  shows "ramdir_mode v p \<noteq> None \<and> ramdir_mode v' = (ramdir_mode v)(p := None)"
proof -
  obtain i where i: "ramdir_find p v = Some i" and v': "v' = v\<lparr>vs_dirs := (vs_dirs v)[i := ramdir_unused]\<rparr>"
    using vfs_ramdir_remove_Inr(2) [OF assms] by blast
  note fnd = vfs_ramdir_remove_Inr(3) [OF assms]
  have "ramdir_mode v' q = ((ramdir_mode v)(p := None)) q" for q
  proof (cases "q = p")
    case False
    then have "j \<noteq> i" if "ramdir_find q v = Some j" for j
      using ramdir_find_inj [OF assms(1) i] that by metis
    then show ?thesis
      using fnd [of q] False by (cases "ramdir_find q v") (simp_all add: ramdir_mode_def, simp add: v')
  qed (simp add: ramdir_mode_def fnd)
  then show ?thesis using i by (auto simp: ramdir_mode_def)
qed

lemma vfs_dir_err:
  "vfs_ramdir_create p mode v = (Inl e, v') \<Longrightarrow> v' = v" "vfs_ramdir_remove p v = (Inl e, v') \<Longrightarrow> v' = v"
  "vfs_ramfile_create p mode v = (Inl e, v') \<Longrightarrow> v' = v" "vfs_ramfile_unlink p v = (Inl e, v') \<Longrightarrow> v' = v"
  "vfs_ramfile_link p q v = (Inl e, v') \<Longrightarrow> v' = v"
  by (auto simp: vfs_ramdir_create_def vfs_ramdir_remove_def vfs_ramfile_create_def vfs_ramfile_unlink_def
      vfs_ramfile_link_def Let_def split: if_splits option.splits)

interpretation ramdirs: name_table vfs_ok ramdir_mode vfs_ramdir_create vfs_ramdir_remove
proof
  show "vfs_ok v' \<and> ramdir_mode v p = None \<and> ramdir_mode v' = (ramdir_mode v)(p \<mapsto> mode)"
    if "vfs_ok v" "vfs_ramdir_create p mode v = (Inr (), v')" for v p mode v'
    using vfs_ramdir_create_Inr(1,2) [OF that] ramdir_create_mode [OF that] by (simp add: ramdir_mode_def)
  show "vfs_ok v' \<and> ramdir_mode v p \<noteq> None \<and> ramdir_mode v' = (ramdir_mode v)(p := None)"
    if "vfs_ok v" "vfs_ramdir_remove p v = (Inr (), v')" for v p v'
    using vfs_ramdir_remove_Inr(1) [OF that] ramdir_remove_mode [OF that] by blast
qed (rule vfs_dir_err, assumption)+

lemma ramfile_find_inj:
  "ramfile_find p v = Some i \<Longrightarrow> ramfile_find q v = Some i \<Longrightarrow> p = q"
  using ramfile_find_Some [of p v i] ramfile_find_Some [of q v i] by simp

lemma ramfile_create_mode:
  assumes ok: "vfs_ok v" and r: "vfs_ramfile_create p mode v = (Inr (), v')"
  shows "ramfile_mode v' = (ramfile_mode v)(p \<mapsto> mode)"
proof
  fix q
  obtain i n where i: "i < MAX_RAMFILES" and n: "n < MAX_RAMINODES" "\<not> ri_used (vs_inodes v ! n)"
    and f': "vs_files v' = (vs_files v)[i := \<lparr>rl_used = True, rl_inode = n, rl_path = p\<rparr>]"
    and n': "vs_inodes v' = (vs_inodes v)[n := \<lparr>ri_used = True, ri_mode = mode, ri_size = 0, ri_nlink = 1,
        ri_data = replicate RAMFILE_CAP 0\<rparr>]"
    and fnd: "\<And>q. ramfile_find q v' = (if q = p then Some i else ramfile_find q v)"
    using vfs_ramfile_create_Inr(3) [OF ok r] by blast
  have len: "length (vs_files v) = MAX_RAMFILES" "length (vs_inodes v) = MAX_RAMINODES"
    using ok by (simp_all add: vfs_ok_def)
  show "ramfile_mode v' q = ((ramfile_mode v)(p \<mapsto> mode)) q"
  proof (cases "q = p")
    case True
    then show ?thesis using fnd [of q] i n len by (simp add: ramfile_mode_def f' n')
  next
    case False
    show ?thesis
    proof (cases "ramfile_find q v")
      case (Some j)
      have "j \<noteq> i"
        using ramfile_find_inj [of q v' i p] fnd False Some by auto
      moreover have "rl_inode (vs_files v ! j) \<noteq> n"
        using vfs_ok_file [OF ok, of j] ramfile_find_Some [OF Some] len(1) n(2) by auto
      ultimately show ?thesis
        using fnd [of q] False Some by (simp add: ramfile_mode_def f' n')
    qed (use fnd False in \<open>simp add: ramfile_mode_def\<close>)
  qed
qed

lemma ramfile_unlink_mode:
  assumes ok: "vfs_ok v" and r: "vfs_ramfile_unlink p v = (Inr (), v')"
  shows "ramfile_mode v p \<noteq> None \<and> ramfile_mode v' = (ramfile_mode v)(p := None)"
proof -
  obtain i n where i: "ramfile_find p v = Some i" "n = rl_inode (vs_files v ! i)" "n < MAX_RAMINODES"
    and f': "vs_files v' = (vs_files v)[i := ramfile_unused]"
    and n': "vs_inodes v' = (vs_inodes v)[n := (if link_count n (vs_files v) = 1 then raminode_unused
        else (vs_inodes v ! n)\<lparr>ri_nlink := link_count n (vs_files v) - 1\<rparr>)]"
    using vfs_ramfile_unlink_Inr(2) [OF ok r] by blast
  note fnd = vfs_ramfile_unlink_Inr(3) [OF ok r]
  have ok': "vfs_ok v'" by (rule vfs_ramfile_unlink_Inr(1) [OF ok r])
  have len: "length (vs_files v) = MAX_RAMFILES" "length (vs_inodes v) = MAX_RAMINODES"
    using ok by (simp_all add: vfs_ok_def)
  have "ramfile_mode v' q = ((ramfile_mode v)(p := None)) q" for q
  proof (cases "q = p")
    case False
    show ?thesis
    proof (cases "ramfile_find q v")
      case (Some j)
      have "j \<noteq> i"
        using ramfile_find_inj [OF i(1)] Some False by metis
      have j: "j < MAX_RAMFILES" "rl_used (vs_files v' ! j)"
        using ramfile_find_Some [of q v' j] fnd [of q] False Some f' len(1) by auto
      have "ri_used (vs_inodes v' ! rl_inode (vs_files v' ! j))"
        using vfs_ok_file [OF ok' j] by simp
      then have "ri_mode (vs_inodes v' ! rl_inode (vs_files v ! j)) = ri_mode (vs_inodes v ! rl_inode (vs_files v ! j))"
        using \<open>j \<noteq> i\<close> i(3) len(2) by (auto simp: f' n' nth_list_update split: if_splits)
      then show ?thesis
        using fnd [of q] False Some \<open>j \<noteq> i\<close> by (simp add: ramfile_mode_def f')
    qed (use fnd False in \<open>simp add: ramfile_mode_def\<close>)
  qed (simp add: ramfile_mode_def fnd)
  then show ?thesis using i(1) by (auto simp: ramfile_mode_def)
qed

interpretation ramfiles: name_table vfs_ok ramfile_mode vfs_ramfile_create vfs_ramfile_unlink
proof
  show "vfs_ok v' \<and> ramfile_mode v p = None \<and> ramfile_mode v' = (ramfile_mode v)(p \<mapsto> mode)"
    if "vfs_ok v" "vfs_ramfile_create p mode v = (Inr (), v')" for v p mode v'
    using vfs_ramfile_create_Inr(1,2) [OF that] ramfile_create_mode [OF that] by (simp add: ramfile_mode_def)
  show "vfs_ok v' \<and> ramfile_mode v p \<noteq> None \<and> ramfile_mode v' = (ramfile_mode v)(p := None)"
    if "vfs_ok v" "vfs_ramfile_unlink p v = (Inr (), v')" for v p v'
    using vfs_ramfile_unlink_Inr(1) [OF that] ramfile_unlink_mode [OF that] by blast
qed (rule vfs_dir_err, assumption)+

text \<open>
  C14: After any sequence of file creations and unlinks, looking a name up finds a file, with its
  mode, exactly when the sequence of the calls that succeeded leaves one under that name; the same
  holds for directories under creation and removal.
\<close>

theorem vfs_names_are_maps:
  "ramfile_mode (fst (name_run vfs_ramfile_create vfs_ramfile_unlink ops (vfs_init v0, Map.empty))) =
     snd (name_run vfs_ramfile_create vfs_ramfile_unlink ops (vfs_init v0, Map.empty)) \<and>
   ramdir_mode (fst (name_run vfs_ramdir_create vfs_ramdir_remove ops (vfs_init v0, Map.empty))) =
     snd (name_run vfs_ramdir_create vfs_ramdir_remove ops (vfs_init v0, Map.empty))"
proof -
  have f0: "ramfile_mode (vfs_init v0) = Map.empty" and d0: "ramdir_mode (vfs_init v0) = Map.empty"
    by (auto simp: ramfile_mode_def ramdir_mode_def ramfile_find_def ramdir_find_def find_slot_None vfs_init_def
        ramfile_unused_def ramdir_unused_def fun_eq_iff)
  show ?thesis
    using ramfiles.run_look [OF vfs_init_ok, of ops v0] ramdirs.run_look [OF vfs_init_ok, of ops v0]
    by (simp add: f0 d0)
qed

subsection \<open>Link counts\<close>

datatype vfs_op =
    VMkdir string u32 | VRmdir string | VCreate string u32 | VUnlink string | VLink string string
  | VFileMode string u32 | VDirMode string u32 | VSetSize nat u64 | VStore nat nat "u8 list"

fun vfs_step :: "vfs_op \<Rightarrow> vfs \<Rightarrow> vfs" where
  "vfs_step (VMkdir p m) v = snd (vfs_ramdir_create p m v)"
| "vfs_step (VRmdir p) v = snd (vfs_ramdir_remove p v)"
| "vfs_step (VCreate p m) v = snd (vfs_ramfile_create p m v)"
| "vfs_step (VUnlink p) v = snd (vfs_ramfile_unlink p v)"
| "vfs_step (VLink p q) v = snd (vfs_ramfile_link p q v)"
| "vfs_step (VFileMode a m) v = snd (vfs_ramfile_set_mode_abs a m v)"
| "vfs_step (VDirMode a m) v = snd (vfs_ramdir_set_mode_abs a m v)"
| "vfs_step (VSetSize i sz) v = snd (vfs_ramfile_set_size i sz v)"
| "vfs_step (VStore i off bs) v = (if off + length bs \<le> RAMFILE_CAP then vfs_ramfile_store i off bs v else v)"

lemma vfs_step_ok: "vfs_ok v \<Longrightarrow> vfs_ok (vfs_step oper v)"
proof (cases oper)
  case (VMkdir p m)
  assume "vfs_ok v"
  then show ?thesis
    using vfs_ramdir_create_Inr(1) [of v p m] vfs_dir_err(1) [of p m v] VMkdir
    by (cases "vfs_ramdir_create p m v"; cases "fst (vfs_ramdir_create p m v)") auto
next
  case (VRmdir p)
  assume "vfs_ok v"
  then show ?thesis
    using vfs_ramdir_remove_Inr(1) [of v p] vfs_dir_err(2) [of p v] VRmdir
    by (cases "vfs_ramdir_remove p v"; cases "fst (vfs_ramdir_remove p v)") auto
next
  case (VCreate p m)
  assume "vfs_ok v"
  then show ?thesis
    using vfs_ramfile_create_Inr(1) [of v p m] vfs_dir_err(3) [of p m v] VCreate
    by (cases "vfs_ramfile_create p m v"; cases "fst (vfs_ramfile_create p m v)") auto
next
  case (VUnlink p)
  assume "vfs_ok v"
  then show ?thesis
    using vfs_ramfile_unlink_Inr(1) [of v p] vfs_dir_err(4) [of p v] VUnlink
    by (cases "vfs_ramfile_unlink p v"; cases "fst (vfs_ramfile_unlink p v)") auto
next
  case (VLink p q)
  assume "vfs_ok v"
  then show ?thesis
    using vfs_ramfile_link_Inr(1) [of v p q] vfs_dir_err(5) [of p q v] VLink
    by (cases "vfs_ramfile_link p q v"; cases "fst (vfs_ramfile_link p q v)") auto
qed (auto simp: vfs_ramfile_set_mode_ok vfs_ramdir_set_mode_ok vfs_ramfile_set_size_ok vfs_ramfile_store_ok)

text \<open>
  C12: Whatever sequence of overlay operations ran since \<open>vfs_init\<close>, every file name refers to an
  inode in use, every inode in use has at least one name and its link count is the number of its
  names, and no two names in use are equal; so a file lives exactly as long as it has a name.
\<close>

theorem vfs_links_exact:
  fixes ops :: "vfs_op list" and v0 :: vfs
  defines "v \<equiv> fold vfs_step ops (vfs_init v0)"
  shows "(\<forall>f \<in> set (vs_files v). rl_used f \<longrightarrow> rl_inode f < MAX_RAMINODES \<and> ri_used (vs_inodes v ! rl_inode f)) \<and>
    (\<forall>n < MAX_RAMINODES. ri_used (vs_inodes v ! n) \<longrightarrow> ri_nlink (vs_inodes v ! n) \<noteq> 0 \<and>
       ri_nlink (vs_inodes v ! n) = length (filter (\<lambda>f. rl_used f \<and> rl_inode f = n) (vs_files v))) \<and>
    distinct (map rl_path (filter rl_used (vs_files v))) \<and>
    (\<forall>n < MAX_RAMINODES. unat (ri_size (vs_inodes v ! n)) \<le> RAMFILE_CAP)"
proof -
  have ok: "vfs_ok v"
  proof -
    have "vfs_ok u \<Longrightarrow> vfs_ok (fold vfs_step ops u)" for u
      by (induction ops arbitrary: u) (simp_all add: vfs_step_ok)
    then show ?thesis by (simp add: v_def vfs_init_ok)
  qed
  have count: "link_count n fs = length (filter (\<lambda>f. rl_used f \<and> rl_inode f = n) fs)" for n fs
    by (induction fs) (auto simp: link_count_def links_to_def)
  have dist: "distinct (map path (filter used xs))" if "names_distinct used path xs" for used path and xs :: "'z list"
    using that
  proof (induction xs)
    case (Cons x xs)
    have "names_distinct used path xs"
      unfolding names_distinct_def
    proof (intro allI impI)
      fix i j
      assume "i < length xs" "j < length xs" "used (xs ! i) \<and> used (xs ! j) \<and> path (xs ! i) = path (xs ! j)"
      then show "i = j"
        using Cons.prems [unfolded names_distinct_def, rule_format, of "Suc i" "Suc j"] by simp
    qed
    moreover have "path x \<noteq> path (xs ! j)" if "used x" "j < length xs" "used (xs ! j)" for j
      using Cons.prems [unfolded names_distinct_def, rule_format, of 0 "Suc j"] that by auto
    ultimately show ?case
      using Cons.IH by (auto simp: in_set_conv_nth)
  qed simp
  show ?thesis
    using ok dist [of rl_used rl_path "vs_files v"]
    by (auto simp: vfs_ok_def list_all_iff ramfile_ok_def count all_set_conv_all_nth raminode_ok_def)
qed

lemma find_slot_replicate: "find_slot p (replicate n x) = (if 0 < n \<and> p x then Some 0 else None)"
  by (induction n) auto

lemma create_first:
  "vfs_ramfile_create ''a'' m (vfs_init v0) =
    (Inr (), (vfs_init v0)
      \<lparr>vs_files := (replicate MAX_RAMFILES ramfile_unused)[0 := \<lparr>rl_used = True, rl_inode = 0, rl_path = ''a''\<rparr>],
       vs_inodes := (replicate MAX_RAMINODES raminode_unused)[0 := \<lparr>ri_used = True, ri_mode = m, ri_size = 0,
         ri_nlink = 1, ri_data = replicate RAMFILE_CAP 0\<rparr>]\<rparr>)"
  by (simp add: vfs_ramfile_create_def ramfile_find_def ramdir_find_def ramfile_alloc_slot_def
      raminode_alloc_slot_def vfs_init_def find_slot_replicate ramfile_unused_def ramdir_unused_def
      MAX_PATH_def MAX_RAMFILES_def MAX_RAMINODES_def)

text \<open>The tables as they are before start-up.\<close>

definition vfs_static :: vfs where
  "vfs_static = \<lparr>vs_dirs = replicate MAX_RAMDIRS ramdir_unused, vs_files = replicate MAX_RAMFILES ramfile_unused,
     vs_inodes = replicate MAX_RAMINODES raminode_unused\<rparr>"

lemma vfs_links_exact_witness:
  "let v = fold vfs_step [VCreate ''a'' 0x81a4] (vfs_init vfs_static)
   in ri_used (vs_inodes v ! 0) \<and> ri_nlink (vs_inodes v ! 0) = 1 \<and>
      length (filter (\<lambda>f. rl_used f \<and> rl_inode f = 0) (vs_files v)) = 1"
proof -
  define v where "v = fold vfs_step [VCreate ''a'' 0x81a4] (vfs_init vfs_static)"
  have "vs_inodes v ! 0 = \<lparr>ri_used = True, ri_mode = 0x81a4, ri_size = 0, ri_nlink = 1, ri_data = replicate RAMFILE_CAP 0\<rparr>"
    by (simp add: v_def create_first MAX_RAMINODES_def)
  moreover have "0 < MAX_RAMINODES" by (simp add: MAX_RAMINODES_def)
  ultimately show ?thesis
    using vfs_links_exact [of "[VCreate ''a'' 0x81a4]" vfs_static, folded v_def] unfolding Let_def v_def [symmetric]
    by auto
qed

subsection \<open>Hard links share one file\<close>

lemma ramfile_get_eq:
  "vfs_ramfile_inode i v = Inr n \<Longrightarrow> vfs_ramfile_get i v =
    Inr (ri_data (vs_inodes v ! n), ri_size (vs_inodes v ! n), word_of_nat RAMFILE_CAP, ri_mode (vs_inodes v ! n))"
  by (simp add: vfs_ramfile_get_def Let_def)

lemma vfs_ramfile_inode_ok:
  "vfs_ok v \<Longrightarrow> i < MAX_RAMFILES \<Longrightarrow> rl_used (vs_files v ! i) \<Longrightarrow> vfs_ramfile_inode i v = Inr (rl_inode (vs_files v ! i))"
  using vfs_ok_file [of v i] by (simp add: vfs_ramfile_inode_def not_le)

text \<open>
  C13: After a successful link both names denote the same file: bytes stored through one are read
  through the other, and unlinking the old name leaves contents, size and mode reachable under the
  new one.
\<close>

theorem hard_link_shares:
  assumes ok: "vfs_ok v" and l: "vfs_ramfile_link p q v = (Inr (), v1)" and pq: "p \<noteq> q"
    and i: "ramfile_find p v1 = Some i" and j: "ramfile_find q v1 = Some j"
    and len: "off + length bs \<le> RAMFILE_CAP"
  defines "v2 \<equiv> vfs_ramfile_store i off bs v1"
  shows "vfs_ramfile_get j v2 = vfs_ramfile_get i v2 \<and> fst (vfs_ramfile_unlink p v2) = Inr () \<and>
    vfs_ramfile_get j (snd (vfs_ramfile_unlink p v2)) = vfs_ramfile_get i v2 \<and>
    (case vfs_ramfile_get i v2 of Inr (data, sz, cap, mode) \<Rightarrow> take (length bs) (drop off data) = bs | Inl e \<Rightarrow> False)"
proof -
  obtain i0 j0 n where i0: "ramfile_find p v = Some i0" "n = rl_inode (vs_files v ! i0)" and n: "n < MAX_RAMINODES"
    and j0: "j0 < MAX_RAMFILES" and f1: "vs_files v1 = (vs_files v)[j0 := \<lparr>rl_used = True, rl_inode = n, rl_path = q\<rparr>]"
    and fnd: "\<And>p'. ramfile_find p' v1 = (if p' = q then Some j0 else ramfile_find p' v)"
    using vfs_ramfile_link_Inr(3) [OF ok l] by blast
  have ij: "i = i0" "j = j0" using i j fnd pq i0 by auto
  have ok1: "vfs_ok v1" by (rule vfs_ramfile_link_Inr(1) [OF ok l])
  have lens: "length (vs_files v) = MAX_RAMFILES" "length (vs_inodes v1) = MAX_RAMINODES"
    using ok ok1 by (simp_all add: vfs_ok_def)
  have il: "i < MAX_RAMFILES" "rl_used (vs_files v1 ! i)" "j < MAX_RAMFILES" "rl_used (vs_files v1 ! j)"
    using ramfile_find_Some [OF i] ramfile_find_Some [OF j] lens f1 by simp_all
  have "i \<noteq> j"
    using ramfile_find_Some [OF i] ramfile_find_Some [OF j] pq by auto
  then have ino: "rl_inode (vs_files v1 ! i) = n" "rl_inode (vs_files v1 ! j) = n"
    using ij i0 j0 lens by (simp_all add: f1)
  have in1: "vfs_ramfile_inode i v1 = Inr n" "vfs_ramfile_inode j v1 = Inr n"
    using vfs_ramfile_inode_ok [OF ok1] il ino by auto
  have v2: "v2 = v1\<lparr>vs_inodes := upd_at n (ri_data_update (overwrite off bs)) (vs_inodes v1)\<rparr>"
    using in1(1) by (simp add: v2_def vfs_ramfile_store_def)
  have ok2: "vfs_ok v2"
    unfolding v2_def by (rule vfs_ramfile_store_ok [OF ok1 len])
  have in2: "vfs_ramfile_inode i v2 = Inr n" "vfs_ramfile_inode j v2 = Inr n"
    using vfs_ramfile_inode_ok [OF ok2] il ino by (auto simp: v2)
  have "ramfile_find p v2 = Some i"
    using i by (simp add: ramfile_find_def v2)
  moreover have "p \<noteq> []"
    using ramfile_find_Some [OF i] vfs_ok_file [OF ok1 il(1,2)] by simp
  ultimately have un: "fst (vfs_ramfile_unlink p v2) = Inr ()"
    by (simp add: vfs_ramfile_unlink_def)
  then obtain v3 where v3: "vfs_ramfile_unlink p v2 = (Inr (), v3)"
    by (metis prod.collapse)
  obtain k m where k: "ramfile_find p v2 = Some k" "m = rl_inode (vs_files v2 ! k)"
    and f3: "vs_files v3 = (vs_files v2)[k := ramfile_unused]"
    and n3: "vs_inodes v3 = (vs_inodes v2)[m := (if link_count m (vs_files v2) = 1 then raminode_unused
        else (vs_inodes v2 ! m)\<lparr>ri_nlink := link_count m (vs_files v2) - 1\<rparr>)]"
    using vfs_ramfile_unlink_Inr(2) [OF ok2 v3] by blast
  have k': "k = i" "m = n"
    using k \<open>ramfile_find p v2 = Some i\<close> ino by (simp_all add: v2)
  have j3: "rl_used (vs_files v3 ! j)" "rl_inode (vs_files v3 ! j) = n"
    using \<open>i \<noteq> j\<close> il(4) ino(2) by (simp_all add: f3 k' v2)
  have ok3: "vfs_ok v3" by (rule vfs_ramfile_unlink_Inr(1) [OF ok2 v3])
  have in3: "vfs_ramfile_inode j v3 = Inr n"
    using vfs_ramfile_inode_ok [OF ok3 il(3) j3(1)] j3(2) by simp
  have "ri_used (vs_inodes v3 ! n)"
    using vfs_ok_file [OF ok3 il(3) j3(1)] j3(2) by simp
  then have same: "ri_data (vs_inodes v3 ! n) = ri_data (vs_inodes v2 ! n)"
      "ri_size (vs_inodes v3 ! n) = ri_size (vs_inodes v2 ! n)" "ri_mode (vs_inodes v3 ! n) = ri_mode (vs_inodes v2 ! n)"
    using n lens(2) by (auto simp: n3 k' v2 split: if_splits)
  have "length (ri_data (vs_inodes v1 ! n)) = RAMFILE_CAP"
    using vfs_ok_inode [OF ok1 n] by (simp add: raminode_ok_def)
  then have "take (length bs) (drop off (ri_data (vs_inodes v2 ! n))) = bs"
    using n lens(2) len by (simp add: v2 overwrite_def)
  then show ?thesis
    using un v3 ramfile_get_eq [OF in2(1)] ramfile_get_eq [OF in2(2)] ramfile_get_eq [OF in3] same by simp
qed

definition vfs_one_file :: vfs where
  "vfs_one_file = snd (vfs_ramfile_create ''a'' 0x81a4 (vfs_init vfs_static))"

lemma vfs_one_file_ok: "vfs_ok vfs_one_file"
  using vfs_ramfile_create_Inr(1) [OF vfs_init_ok create_first] by (simp add: vfs_one_file_def create_first)

lemma replicate_64: "replicate MAX_RAMFILES x = x # x # replicate 62 x"
  by (simp add: MAX_RAMFILES_def flip: replicate_Suc)

lemma vfs_one_file_link:
  "vfs_ramfile_link ''a'' ''b'' vfs_one_file = (Inr (), snd (vfs_ramfile_link ''a'' ''b'' vfs_one_file))"
  "ramfile_find ''a'' (snd (vfs_ramfile_link ''a'' ''b'' vfs_one_file)) = Some 0"
  "ramfile_find ''b'' (snd (vfs_ramfile_link ''a'' ''b'' vfs_one_file)) = Some 1"
  unfolding vfs_one_file_def create_first snd_conv
  by (simp_all add: vfs_ramfile_link_def ramfile_find_def ramdir_find_def
      ramfile_alloc_slot_def vfs_init_def find_slot_replicate ramfile_unused_def ramdir_unused_def
      MAX_PATH_def MAX_RAMINODES_def replicate_64)

lemma hard_link_shares_witness:
  "let v1 = snd (vfs_ramfile_link ''a'' ''b'' vfs_one_file); v2 = vfs_ramfile_store 0 2 [7, 8] v1 in
   vfs_ramfile_get 1 (snd (vfs_ramfile_unlink ''a'' v2)) = vfs_ramfile_get 0 v2"
  using hard_link_shares [OF vfs_one_file_ok vfs_one_file_link(1) _ vfs_one_file_link(2,3), of 2 "[7, 8]"]
  by (simp add: RAMFILE_CAP_def)

end
