(* ===== verification/ConsoleIn.thy ===== *)
theory ConsoleIn
  imports Ring
begin

text \<open>
  \<open>kernel-aarch64/console_in.c\<close>: the ring of 1024 characters between the input devices and
  \<open>read\<close> on the console. One cell stays free, so that equal indices mean empty. The characters
  that \<open>uart_try_getc\<close> delivers before it reports an empty FIFO are an argument of the poll, as
  are the clock and the effect of \<open>usb_poll\<close> in a build with USB.

  The ring provides the laws of \<open>fifo\<close> (capacity 1023, the newest character is dropped when it is
  full).
\<close>

definition CONSOLE_IN_RING_SIZE :: nat where
  "CONSOLE_IN_RING_SIZE = 1024"

definition CONSOLE_IN_POLL_INTERVAL_NS :: u64 where
  "CONSOLE_IN_POLL_INTERVAL_NS = 10000000"

record console =
  ci_ring :: string
  ci_r :: nat
  ci_w :: nat
  ci_next_poll :: u64

definition ring_next :: "nat \<Rightarrow> nat" where
  "ring_next idx = (if CONSOLE_IN_RING_SIZE \<le> idx + 1 then 0 else idx + 1)"

definition ring_push :: "char \<Rightarrow> console \<Rightarrow> console" where
  "ring_push c s =
     (let nxt = ring_next (ci_w s)
      in if nxt = ci_r s then s else s\<lparr>ci_ring := (ci_ring s)[ci_w s := c], ci_w := nxt\<rparr>)"

definition console_in_inject_char :: "char \<Rightarrow> console \<Rightarrow> console" where
  "console_in_inject_char c s = ring_push c s"

definition ring_pop :: "console \<Rightarrow> (char \<times> console) option" where
  "ring_pop s =
     (if ci_r s = ci_w s then None else Some (ci_ring s ! ci_r s, s\<lparr>ci_r := ring_next (ci_r s)\<rparr>))"

definition console_in_init :: "console \<Rightarrow> console" where
  "console_in_init s = s\<lparr>ci_r := 0, ci_w := 0, ci_next_poll := 0\<rparr>"

text \<open>What the UART part of the poll does with one received character.\<close>

definition uart_input :: "char \<Rightarrow> console \<Rightarrow> console" where
  "uart_input c s = ring_push (if c = CHR 0x0D then CHR 0x0A else c) s"

text \<open>\<open>usb\<close> is \<open>None\<close> in a build without USB, otherwise the effect of \<open>usb_poll\<close> on the ring.\<close>

definition console_in_poll ::
  "(console \<Rightarrow> console) option \<Rightarrow> u64 \<Rightarrow> string \<Rightarrow> console \<Rightarrow> console"
where
  "console_in_poll usb now rx s =
     (let s1 = fold uart_input rx s
      in case usb of
        None \<Rightarrow> s1
      | Some usb_poll \<Rightarrow>
          if now \<noteq> 0 then
            (if ci_next_poll s1 = 0 \<or> ci_next_poll s1 \<le> now
             then (usb_poll s1)\<lparr>ci_next_poll := now + CONSOLE_IN_POLL_INTERVAL_NS\<rparr>
             else s1)
          else usb_poll s1)"

definition console_in_has_data :: "console \<Rightarrow> bool" where
  "console_in_has_data s \<longleftrightarrow> ci_r s \<noteq> ci_w s"

definition console_in_pop :: "console \<Rightarrow> (char \<times> console) option" where
  "console_in_pop s = ring_pop s"

definition console_in_try_getc ::
  "(console \<Rightarrow> console) option \<Rightarrow> u64 \<Rightarrow> string \<Rightarrow> console \<Rightarrow> char option \<times> console"
where
  "console_in_try_getc usb now rx s =
     (let s1 = console_in_poll usb now rx s
      in case ring_pop s1 of None \<Rightarrow> (None, s1) | Some (c, s2) \<Rightarrow> (Some c, s2))"

subsection \<open>The queue it is\<close>

definition ci_ok :: "console \<Rightarrow> bool" where
  "ci_ok s \<longleftrightarrow> length (ci_ring s) = CONSOLE_IN_RING_SIZE \<and> ci_r s < CONSOLE_IN_RING_SIZE \<and>
     ci_w s < CONSOLE_IN_RING_SIZE"

definition ci_count :: "console \<Rightarrow> nat" where
  "ci_count s = (ci_w s + CONSOLE_IN_RING_SIZE - ci_r s) mod CONSOLE_IN_RING_SIZE"

definition ci_contents :: "console \<Rightarrow> string" where
  "ci_contents s = ring_contents (ci_ring s) (ci_r s) (ci_count s)"

lemma ring_next_mod: "i < CONSOLE_IN_RING_SIZE \<Longrightarrow> ring_next i = (i + 1) mod CONSOLE_IN_RING_SIZE"
  by (simp add: ring_next_def CONSOLE_IN_RING_SIZE_def mod_if)

lemma ci_count_w: "ci_ok s \<Longrightarrow> ci_w s = (ci_r s + ci_count s) mod CONSOLE_IN_RING_SIZE"
  by (auto simp: ci_ok_def ci_count_def mod_simps)

lemma ci_count_lt: "ci_count s < CONSOLE_IN_RING_SIZE"
  by (simp add: ci_count_def CONSOLE_IN_RING_SIZE_def)

lemma ring_next_full:
  "ci_ok s \<Longrightarrow> ring_next (ci_w s) = ci_r s \<longleftrightarrow> ci_count s = CONSOLE_IN_RING_SIZE - 1"
  by (auto simp: ci_ok_def ring_next_def ci_count_def CONSOLE_IN_RING_SIZE_def mod_if split: if_splits)

lemma ci_count_push:
  assumes "ci_ok s" and "ring_next (ci_w s) \<noteq> ci_r s"
  shows "ci_count (ring_push c s) = Suc (ci_count s)"
  using assms by (auto simp: ci_ok_def ring_push_def Let_def ring_next_def ci_count_def
      CONSOLE_IN_RING_SIZE_def mod_if split: if_splits)

lemma ci_ok_push [inv_intros]: "ci_ok s \<Longrightarrow> ci_ok (ring_push c s)"
  by (auto simp: ci_ok_def ring_push_def Let_def ring_next_def)

lemma ci_contents_push:
  assumes "ci_ok s" and "ci_count s < CONSOLE_IN_RING_SIZE - 1"
  shows "ci_contents (ring_push c s) = ci_contents s @ [c]"
proof -
  have room: "ring_next (ci_w s) \<noteq> ci_r s"
    using ring_next_full [OF assms(1)] assms(2) by simp
  have "ci_contents (ring_push c s) = ring_contents ((ci_ring s)[ci_w s := c]) (ci_r s) (Suc (ci_count s))"
    using ci_count_push [OF assms(1) room, of c] room by (simp add: ci_contents_def ring_push_def Let_def)
  also have "\<dots> = ci_contents s @ [c]"
    unfolding ci_contents_def using assms(1) ci_count_lt [of s] ci_count_w [OF assms(1)]
    by (intro Ring.ring_push) (simp_all add: ci_ok_def)
  finally show ?thesis .
qed

lemma ci_count_pop:
  assumes "ci_ok s" and "ci_r s \<noteq> ci_w s"
  shows "ci_count s = Suc (ci_count (s\<lparr>ci_r := ring_next (ci_r s)\<rparr>))"
  using assms by (auto simp: ci_ok_def ring_next_def ci_count_def CONSOLE_IN_RING_SIZE_def mod_if
      split: if_splits)

lemma ci_contents_pop:
  assumes "ci_ok s" and "ring_pop s = Some (c, s')"
  shows "ci_ok s' \<and> ci_contents s = c # ci_contents s'"
proof -
  have ne: "ci_r s \<noteq> ci_w s" and s': "s' = s\<lparr>ci_r := ring_next (ci_r s)\<rparr>" and c: "c = ci_ring s ! ci_r s"
    using assms(2) by (auto simp: ring_pop_def split: if_splits)
  have "ci_contents s = ci_ring s ! ci_r s #
      ring_contents (ci_ring s) ((ci_r s + 1) mod length (ci_ring s)) (ci_count s')"
    unfolding ci_contents_def ci_count_pop [OF assms(1) ne] s'
    by (rule Ring.ring_pop) (use assms(1) in \<open>simp add: ci_ok_def\<close>)
  moreover have "ring_next (ci_r s) = (ci_r s + 1) mod length (ci_ring s)"
    using assms(1) ring_next_mod by (simp add: ci_ok_def)
  ultimately show ?thesis
    using assms(1) by (auto simp: s' c ci_contents_def ci_ok_def ring_next_def)
qed

lemma ci_empty: "ci_ok s \<Longrightarrow> ci_contents s = [] \<longleftrightarrow> ci_r s = ci_w s"
  by (auto simp: ci_ok_def ci_contents_def ci_count_def CONSOLE_IN_RING_SIZE_def mod_if)

interpretation con: fifo ci_ok ci_contents "CONSOLE_IN_RING_SIZE - 1" ring_push ring_pop
proof unfold_locales
  fix s :: console and c :: char and s' :: console
  assume ok: "ci_ok s"
  have len: "length (ci_contents s) = ci_count s"
    by (simp add: ci_contents_def)
  show "ci_ok (ring_push c s)" using ok by (rule ci_ok_push)
  show "ci_contents (ring_push c s) = ci_contents s @ [c]"
    if "length (ci_contents s) < CONSOLE_IN_RING_SIZE - 1"
    using ok that len by (simp add: ci_contents_push)
  show "ci_contents (ring_push c s) = ci_contents s"
    if "CONSOLE_IN_RING_SIZE - 1 \<le> length (ci_contents s)"
    using ring_next_full [OF ok] ci_count_lt [of s] that len
    by (simp add: ring_push_def CONSOLE_IN_RING_SIZE_def)
  show "ring_pop s = None \<longleftrightarrow> ci_contents s = []"
    using ci_empty [OF ok] by (simp add: ring_pop_def)
  show "ci_ok s' \<and> ci_contents s = c # ci_contents s'" if "ring_pop s = Some (c, s')"
    by (rule ci_contents_pop [OF ok that])
  show "length (ci_contents s) \<le> CONSOLE_IN_RING_SIZE - 1"
    using ci_count_lt [of s] len by simp
qed

lemma ci_fold_input:
  "fold uart_input rx s = fold ring_push (map (\<lambda>c. if c = CHR 0x0D then CHR 0x0A else c) rx) s"
  by (induction rx arbitrary: s) (simp_all add: uart_input_def)

text \<open>C18: a poll without USB appends what the UART received to the queue of the console, in
  order, with carriage returns turned into newlines; what exceeds the 1023 places is dropped and
  nothing that was queued before is lost or overwritten.\<close>

theorem console_poll_appends:
  assumes "ci_ok s"
  shows "ci_ok (console_in_poll None now rx s) \<and>
    ci_contents (console_in_poll None now rx s) = ci_contents s @
      take (1023 - length (ci_contents s)) (map (\<lambda>c. if c = CHR 0x0D then CHR 0x0A else c) rx)"
  using con.fold_put [OF assms, of "map (\<lambda>c. if c = CHR 0x0D then CHR 0x0A else c) rx"]
  by (simp add: console_in_poll_def ci_fold_input CONSOLE_IN_RING_SIZE_def)

lemma console_poll_appends_witness:
  "ci_contents (console_in_poll None 0 (''a'' @ [CHR 0x0D])
     \<lparr>ci_ring = replicate 1024 (CHR 0x00), ci_r = 0, ci_w = 0, ci_next_poll = 0\<rparr>) = ''a'' @ [CHR 0x0A]"
proof -
  let ?s = "\<lparr>ci_ring = replicate 1024 (CHR 0x00), ci_r = 0, ci_w = 0, ci_next_poll = 0\<rparr>"
  have "ci_ok ?s" by (simp add: ci_ok_def CONSOLE_IN_RING_SIZE_def)
  from console_poll_appends [OF this, of 0 "''a'' @ [CHR 0x0D]"] show ?thesis
    by (simp add: ci_contents_def ci_count_def CONSOLE_IN_RING_SIZE_def)
qed

end
