(* ===== verification/Klog.thy ===== *)
theory Klog
  imports UserMem Ring
begin

text \<open>
  \<open>kernel-aarch64/klog.c\<close> and \<open>sys_dmesg.c\<close>: the kernel log, a circular buffer of 64 KiB that
  keeps the newest characters, and the system call that copies it to a user buffer. The main
  lemma says that the buffer is the last 65536 characters written since it was cleared.
\<close>

definition KLOG_CAP :: nat where
  "KLOG_CAP = 65536"

record klog =
  kl_buf :: string
  kl_head :: nat
  kl_len :: nat

definition klog_putc :: "char \<Rightarrow> klog \<Rightarrow> klog" where
  "klog_putc c s =
     s\<lparr>kl_buf := (kl_buf s)[kl_head s := c], kl_head := (kl_head s + 1) mod KLOG_CAP,
       kl_len := (if kl_len s < KLOG_CAP then kl_len s + 1 else kl_len s)\<rparr>"

definition klog_len :: "klog \<Rightarrow> nat" where
  "klog_len s = kl_len s"

definition klog_at :: "nat \<Rightarrow> klog \<Rightarrow> char" where
  "klog_at i s =
     (if kl_len s = 0 then CHR 0x00
      else let i = (if kl_len s \<le> i then kl_len s - 1 else i);
               start = (kl_head s + KLOG_CAP - kl_len s) mod KLOG_CAP
        in kl_buf s ! ((start + i) mod KLOG_CAP))"

definition klog_clear :: "klog \<Rightarrow> klog" where
  "klog_clear s = s\<lparr>kl_head := 0, kl_len := 0\<rparr>"

definition DMESG_F_CLEAR :: u64 where
  "DMESG_F_CLEAR = 1"

definition dmesg_clear :: "u64 \<Rightarrow> klog \<Rightarrow> klog" where
  "dmesg_clear flags s = (if flags AND DMESG_F_CLEAR \<noteq> 0 then klog_clear s else s)"

definition char_byte :: "char \<Rightarrow> u8" where
  "char_byte c = word_of_nat (of_char c)"

definition sys_mona_dmesg ::
  "u64 \<Rightarrow> u64 \<Rightarrow> u64 \<Rightarrow> u64 \<Rightarrow> memory \<Rightarrow> klog \<Rightarrow> u64 \<times> memory \<times> klog"
where
  "sys_mona_dmesg buf_user len flags base m s =
     (let cur_len = klog_len s
      in if buf_user = 0 then (word_of_nat cur_len, m, dmesg_clear flags s)
      else if len = 0 then (0, m, dmesg_clear flags s)
      else if \<not> user_range_ok buf_user len then (sys_err EFAULT, m, s)
      else let n = min cur_len (unat len)
        in (word_of_nat n,
            store_bytes base buf_user (map (\<lambda>i. char_byte (klog_at i s)) [0..<n]) m,
            dmesg_clear flags s))"

subsection \<open>What the log holds\<close>

definition klog_ok :: "klog \<Rightarrow> bool" where
  "klog_ok s \<longleftrightarrow> length (kl_buf s) = KLOG_CAP \<and> kl_head s < KLOG_CAP \<and> kl_len s \<le> KLOG_CAP"

definition klog_start :: "klog \<Rightarrow> nat" where
  "klog_start s = (kl_head s + KLOG_CAP - kl_len s) mod KLOG_CAP"

definition klog_text :: "klog \<Rightarrow> string" where
  "klog_text s = ring_contents (kl_buf s) (klog_start s) (kl_len s)"

lemma klog_at_text: "klog_ok s \<Longrightarrow> i < kl_len s \<Longrightarrow> klog_at i s = klog_text s ! i"
  by (simp add: klog_at_def klog_text_def ring_contents_def klog_start_def klog_ok_def Let_def)

lemma klog_text_at: "klog_ok s \<Longrightarrow> n \<le> kl_len s \<Longrightarrow> map (\<lambda>i. klog_at i s) [0..<n] = take n (klog_text s)"
  by (intro nth_equalityI) (auto simp: klog_at_text klog_text_def)

lemma klog_head: "klog_ok s \<Longrightarrow> kl_head s = (klog_start s + kl_len s) mod KLOG_CAP"
  by (auto simp: klog_ok_def klog_start_def mod_simps)

lemma klog_putc_ok [inv_intros]: "klog_ok s \<Longrightarrow> klog_ok (klog_putc c s)"
  by (simp add: klog_ok_def klog_putc_def KLOG_CAP_def)

text \<open>With room the character is appended; without, the oldest one gives way.\<close>

lemma klog_putc_text:
  assumes "klog_ok s"
  shows "klog_text (klog_putc c s) = (if kl_len s < KLOG_CAP then klog_text s @ [c] else tl (klog_text s) @ [c])"
proof (cases "kl_len s < KLOG_CAP")
  case True
  then have "klog_start (klog_putc c s) = klog_start s"
    using assms by (auto simp: klog_ok_def klog_start_def klog_putc_def KLOG_CAP_def mod_if)
  then have "klog_text (klog_putc c s) =
      ring_contents ((kl_buf s)[kl_head s := c]) (klog_start s) (Suc (kl_len s))"
    using True by (simp add: klog_text_def klog_putc_def)
  also have "\<dots> = klog_text s @ [c]"
    unfolding klog_text_def using True assms klog_head [OF assms]
    by (intro Ring.ring_push) (simp_all add: klog_ok_def)
  finally show ?thesis using True by simp
next
  case False
  then have len: "kl_len s = Suc (KLOG_CAP - 1)" and cap: "length (kl_buf s) = KLOG_CAP"
    using assms by (simp_all add: klog_ok_def KLOG_CAP_def)
  have start: "klog_start s = kl_head s" "klog_start (klog_putc c s) = (kl_head s + 1) mod KLOG_CAP"
    using False assms by (auto simp: klog_ok_def klog_start_def klog_putc_def)
  have pop: "klog_text s = kl_buf s ! kl_head s #
      ring_contents (kl_buf s) ((kl_head s + 1) mod KLOG_CAP) (KLOG_CAP - 1)"
    using Ring.ring_pop [of "kl_head s" "kl_buf s" "KLOG_CAP - 1"] assms cap
    by (simp add: klog_text_def start len klog_ok_def)
  have "klog_text (klog_putc c s) =
      ring_contents ((kl_buf s)[kl_head s := c]) ((kl_head s + 1) mod KLOG_CAP) (Suc (KLOG_CAP - 1))"
    using len start False by (simp add: klog_text_def klog_putc_def)
  also have "\<dots> = ring_contents (kl_buf s) ((kl_head s + 1) mod KLOG_CAP) (KLOG_CAP - 1) @ [c]"
    using assms cap by (intro Ring.ring_push) (auto simp: klog_ok_def KLOG_CAP_def mod_simps mod_if)
  finally show ?thesis using pop False by simp
qed

lemma length_klog_text [simp]: "length (klog_text s) = kl_len s"
  by (simp add: klog_text_def)

lemma klog_putc_last:
  assumes "klog_ok s"
  shows "klog_text (klog_putc c s) = drop (kl_len s + 1 - KLOG_CAP) (klog_text s @ [c])"
proof (cases "kl_len s < KLOG_CAP")
  case True
  then show ?thesis using klog_putc_text [OF assms] by simp
next
  case False
  then have len: "kl_len s = KLOG_CAP" using assms by (simp add: klog_ok_def)
  then have "klog_text s \<noteq> []" by (auto simp: KLOG_CAP_def simp flip: length_0_conv)
  then show ?thesis using klog_putc_text [OF assms] len by (simp add: drop_Suc KLOG_CAP_def)
qed

lemma drop_keep_last:
  "drop (length (drop (length xs - k) xs @ ys) - k) (drop (length xs - k) xs @ ys) =
   drop (length (xs @ ys) - k) (xs @ ys)"
  by (cases "length xs \<le> k") (auto simp: add.commute)

lemma klog_fold_putc:
  "klog_ok s \<Longrightarrow> klog_ok (fold klog_putc cs s) \<and>
   klog_text (fold klog_putc cs s) = drop (length (klog_text s @ cs) - KLOG_CAP) (klog_text s @ cs)"
proof (induction cs arbitrary: s)
  case Nil
  then show ?case by (simp add: klog_ok_def)
next
  case (Cons c cs)
  have "klog_text (klog_putc c s) = drop (length (klog_text s @ [c]) - KLOG_CAP) (klog_text s @ [c])"
    using klog_putc_last [OF Cons.prems] by simp
  then show ?case
    using Cons.IH [of "klog_putc c s"] Cons.prems klog_putc_ok drop_keep_last [of "klog_text s @ [c]" KLOG_CAP cs]
    by simp
qed

text \<open>C19: whatever was written since the log was last cleared, a reader gets the last 65536
  characters of it, in order: \<open>sys_mona_dmesg\<close> with a valid buffer copies exactly the first
  \<open>len\<close> of them into it, writes nothing else, and returns how many.\<close>

theorem dmesg_returns_last_messages:
  assumes "klog_ok s0" and "user_range_ok buf len" and "buf \<noteq> 0" and "len \<noteq> 0"
    and "s = fold klog_putc cs (klog_clear s0)"
    and "msgs = map char_byte (take (unat len) (drop (length cs - KLOG_CAP) cs))"
  shows "sys_mona_dmesg buf len flags base m s =
    (word_of_nat (length msgs), store_bytes base buf msgs m, dmesg_clear flags s)"
proof -
  have "klog_ok (klog_clear s0)" and "klog_text (klog_clear s0) = []" and "kl_len (klog_clear s0) = 0"
    using assms(1) by (simp_all add: klog_ok_def klog_clear_def klog_text_def KLOG_CAP_def)
  then have ok: "klog_ok s" and tx: "klog_text s = drop (length cs - KLOG_CAP) cs"
    using klog_fold_putc [of "klog_clear s0" cs] assms(5) by auto
  let ?n = "min (kl_len s) (unat len)"
  have n: "kl_len s = length (drop (length cs - KLOG_CAP) cs)"
    using tx length_klog_text [of s] by simp
  have "map (\<lambda>i. char_byte (klog_at i s)) [0..<?n] = map char_byte (map (\<lambda>i. klog_at i s) [0..<?n])"
    by simp
  also have "\<dots> = map char_byte (take ?n (klog_text s))"
    by (subst klog_text_at [OF ok]) simp_all
  also have "\<dots> = msgs"
    unfolding assms(6) tx n by (simp add: min_def)
  finally have msgs: "map (\<lambda>i. char_byte (klog_at i s)) [0..<?n] = msgs" .
  moreover have "?n = length msgs"
    by (simp add: assms(6) n)
  ultimately show ?thesis
    using assms(2-4) by (simp add: sys_mona_dmesg_def klog_len_def Let_def)
qed

lemma dmesg_returns_last_messages_witness:
  "fst (sys_mona_dmesg 0x400000 8 1 0x1000000 (\<lambda>_. 0) (fold klog_putc ''boot''
     (klog_clear \<lparr>kl_buf = replicate KLOG_CAP (CHR 0x00), kl_head = 0, kl_len = 0\<rparr>))) = 4"
proof -
  let ?s = "\<lparr>kl_buf = replicate KLOG_CAP (CHR 0x00), kl_head = 0, kl_len = 0\<rparr>"
  have ok: "klog_ok ?s" by (simp add: klog_ok_def KLOG_CAP_def)
  have "user_range_ok 0x400000 8" by (simp add: user_range_ok_iff)
  from dmesg_returns_last_messages [OF ok this _ _ refl refl, where cs = "''boot''" and flags = 1 and base = "0x1000000" and m = "\<lambda>_. 0"]
  show ?thesis by (simp add: KLOG_CAP_def)
qed

end
