(* ===== verification/UsbKbd.thy ===== *)
theory UsbKbd
  imports ConsoleIn
begin

text \<open>
  \<open>kernel-aarch64/usb_kbd.c\<close>: the boot-protocol keyboard. The result of the USB transfer is an
  argument of the poll (the host controller is hardware); the decoding of the report, the data
  toggle and the suppression of held keys are modelled, and end in the console's ring.
\<close>

datatype xfer =
    XFER_ERROR
  | XFER_NODATA
  | XFER_OK "u8 list"

datatype usb_pid = USB_PID_DATA0 | USB_PID_DATA1

record usb_kbd_state =
  uk_bound :: bool
  uk_ready :: bool
  uk_addr :: u8
  uk_low_speed :: bool
  uk_pid :: usb_pid
  uk_last_report :: "u8 list"

definition hid_letter :: "char \<Rightarrow> nat \<Rightarrow> char" where
  "hid_letter base k = char_of (of_char base + (k - 0x04 :: nat))"

definition hid_symbol :: "nat \<Rightarrow> bool \<Rightarrow> char option" where
  "hid_symbol k shift =
     (if k = 0x28 then Some (CHR 0x0A)
      else if k = 0x2a then Some (CHR 0x08)
      else if k = 0x2b then Some (CHR 0x09)
      else if k = 0x2c then Some (CHR '' '')
      else if k = 0x2d then Some (if shift then CHR ''_'' else CHR ''-'')
      else if k = 0x2e then Some (if shift then CHR ''+'' else CHR ''='')
      else if k = 0x2f then Some (if shift then CHR ''{'' else CHR ''['')
      else if k = 0x30 then Some (if shift then CHR ''}'' else CHR '']'')
      else if k = 0x31 then Some (if shift then CHR ''|'' else CHR 0x5C)
      else if k = 0x33 then Some (if shift then CHR '':'' else CHR '';'')
      else if k = 0x34 then Some (if shift then CHR 0x22 else CHR 0x27)
      else if k = 0x35 then Some (if shift then CHR ''~'' else CHR 0x60)
      else if k = 0x36 then Some (if shift then CHR ''<'' else CHR '','')
      else if k = 0x37 then Some (if shift then CHR ''>'' else CHR ''.'')
      else if k = 0x38 then Some (if shift then CHR ''?'' else CHR ''/'')
      else None)"

definition hid_keycode_to_ascii :: "u8 \<Rightarrow> bool \<Rightarrow> char option" where
  "hid_keycode_to_ascii keycode shift =
     (let k = unat keycode
      in if 0x04 \<le> k \<and> k \<le> 0x1d then Some (hid_letter (if shift then CHR ''A'' else CHR ''a'') k)
      else if 0x1e \<le> k \<and> k \<le> 0x27
        then Some ((if shift then ''!@#$%^&*()'' else ''1234567890'') ! (k - 0x1e))
      else hid_symbol k shift)"

definition usb_kbd_init :: usb_kbd_state where
  "usb_kbd_init = \<lparr>uk_bound = False, uk_ready = False, uk_addr = 0, uk_low_speed = False,
     uk_pid = USB_PID_DATA0, uk_last_report = replicate 8 0\<rparr>"

text \<open>\<open>dev\<close> is the address and speed of a device with a keyboard endpoint, if it has one.\<close>

definition usb_kbd_try_bind :: "(u8 \<times> bool) option \<Rightarrow> usb_kbd_state \<Rightarrow> bool \<times> usb_kbd_state" where
  "usb_kbd_try_bind dev g =
     (if uk_bound g then (False, g)
      else case dev of
        None \<Rightarrow> (False, g)
      | Some (addr, ls) \<Rightarrow>
          (True, \<lparr>uk_bound = True, uk_ready = True, uk_addr = addr, uk_low_speed = ls,
             uk_pid = USB_PID_DATA0, uk_last_report = replicate 8 0\<rparr>))"

definition other_pid :: "usb_pid \<Rightarrow> usb_pid" where
  "other_pid p = (if p = USB_PID_DATA0 then USB_PID_DATA1 else USB_PID_DATA0)"

text \<open>One key of a report: skipped when it is empty, was in the previous report, or has no character.\<close>

definition kbd_key :: "u8 list \<Rightarrow> bool \<Rightarrow> u8 \<Rightarrow> char option" where
  "kbd_key prev shift kc =
     (if kc = 0 then None
      else if kc \<in> set (drop 2 prev) then None
      else hid_keycode_to_ascii kc shift)"

definition kbd_keys :: "u8 list \<Rightarrow> u8 list \<Rightarrow> string" where
  "kbd_keys prev report =
     List.map_filter (kbd_key prev (report ! 0 AND 0x22 \<noteq> 0)) (drop 2 report)"

definition usb_kbd_poll :: "xfer \<Rightarrow> usb_kbd_state \<Rightarrow> console \<Rightarrow> usb_kbd_state \<times> console" where
  "usb_kbd_poll x g c =
     (if \<not> uk_bound g \<or> \<not> uk_ready g then (g, c)
      else case x of
        XFER_ERROR \<Rightarrow> (g, c)
      | XFER_NODATA \<Rightarrow> (g, c)
      | XFER_OK data \<Rightarrow>
          if length data = 0 then (g\<lparr>uk_pid := other_pid (uk_pid g)\<rparr>, c)
          else if length data < 8 then (g, c)
          else let report = take 8 data
            in (g\<lparr>uk_pid := other_pid (uk_pid g), uk_last_report := report\<rparr>,
                fold console_in_inject_char (kbd_keys (uk_last_report g) report) c))"

fun kbd_polls :: "xfer list \<Rightarrow> usb_kbd_state \<times> console \<Rightarrow> usb_kbd_state \<times> console" where
  "kbd_polls [] s = s"
| "kbd_polls (x # xs) s = kbd_polls xs (usb_kbd_poll x (fst s) (snd s))"

subsection \<open>Held keys\<close>

lemma kbd_keys_held:
  assumes "set (drop 2 report) \<subseteq> set (drop 2 prev)"
  shows "kbd_keys prev report = []"
  using assms by (auto simp: kbd_keys_def map_filter_def filter_empty_conv kbd_key_def)

lemma kbd_poll_again:
  assumes "uk_bound g" and "uk_ready g" and "length report = 8" and "uk_last_report g = report"
  shows "snd (usb_kbd_poll (XFER_OK report) g c) = c \<and>
    uk_last_report (fst (usb_kbd_poll (XFER_OK report) g c)) = report \<and>
    uk_bound (fst (usb_kbd_poll (XFER_OK report) g c)) \<and> uk_ready (fst (usb_kbd_poll (XFER_OK report) g c))"
  using assms kbd_keys_held [of report report] by (simp add: usb_kbd_poll_def Let_def)

lemma kbd_polls_held:
  assumes "uk_bound g" and "uk_ready g" and "length report = 8" and "uk_last_report g = report"
  shows "snd (kbd_polls (replicate n (XFER_OK report)) (g, c)) = c"
  using assms
proof (induction n arbitrary: g)
  case (Suc n)
  obtain g' where g': "usb_kbd_poll (XFER_OK report) g c = (g', c)"
    using kbd_poll_again [OF Suc.prems, of c] by (metis prod.collapse)
  then show ?case
    using Suc.IH [of g'] kbd_poll_again [OF Suc.prems, of c] Suc.prems by simp
qed simp

text \<open>A key report types each of its keys once however long they are held: the first copy of
  a report queues the characters of the keys that were not down before, and any number of
  further copies of it changes nothing in the console.\<close>

lemma held_keys_type_once:
  assumes "uk_bound g" and "uk_ready g" and "length report = 8"
  shows "snd (kbd_polls (replicate (Suc n) (XFER_OK report)) (g, c)) =
    fold console_in_inject_char (kbd_keys (uk_last_report g) report) c"
  using assms kbd_polls_held [of "fst (usb_kbd_poll (XFER_OK report) g c)" report n]
  by (auto simp: usb_kbd_poll_def Let_def)

lemma kbd_keys_example: "kbd_keys (replicate 8 0) [0x02, 0, 0x04, 0, 0, 0, 0, 0] = ''A''"
  by code_simp

lemma held_keys_type_once_witness:
  "ci_ring (snd (kbd_polls (replicate (Suc 2) (XFER_OK [0x02, 0, 0x04, 0, 0, 0, 0, 0]))
     (usb_kbd_init\<lparr>uk_bound := True, uk_ready := True\<rparr>,
      \<lparr>ci_ring = ''....'', ci_r = 0, ci_w = 0, ci_next_poll = 0\<rparr>))) = ''A...''"
  by (subst held_keys_type_once)
     (simp_all add: usb_kbd_init_def kbd_keys_example
      console_in_inject_char_def ring_push_def ring_next_def CONSOLE_IN_RING_SIZE_def Let_def del: replicate.simps)

end
