(* ===== verification/Elf.thy ===== *)
theory Elf
  imports UserMem
begin

text \<open>
  \<open>kernel-aarch64/elf64.c\<close>: the loader of statically linked ELF64 executables. It checks the
  header, walks the program headers and copies every non-empty \<open>PT_LOAD\<close> segment to the
  physical block of the process, zero-filling what the file does not provide. Sums are
  on 64-bit words, as in the code, so the theorems also cover headers chosen to wrap them.

  The main theorem: whatever the image holds, nothing outside the 2 MiB block is written.
\<close>

definition elf64_ehdr_size :: nat where "elf64_ehdr_size = 64"
definition elf64_phdr_size :: nat where "elf64_phdr_size = 56"

definition ELFCLASS64 :: u8 where "ELFCLASS64 = 2"
definition ELFDATA2LSB :: u8 where "ELFDATA2LSB = 1"
definition ET_EXEC :: u64 where "ET_EXEC = 2"
definition EM_AARCH64 :: u64 where "EM_AARCH64 = 183"
definition PT_LOAD :: u64 where "PT_LOAD = 1"

text \<open>A little-endian field of \<open>n\<close> bytes at offset \<open>off\<close>.\<close>

definition field :: "u8 list \<Rightarrow> nat \<Rightarrow> nat \<Rightarrow> u64" where
  "field img off n = u64_of_bytes (take n (drop off img))"

record ehdr =
  e_ident :: "u8 list"
  e_type :: u64
  e_machine :: u64
  e_entry :: u64
  e_phoff :: u64
  e_phentsize :: u64
  e_phnum :: u64

definition read_ehdr :: "u8 list \<Rightarrow> ehdr" where
  "read_ehdr img = \<lparr>e_ident = take 16 img, e_type = field img 16 2, e_machine = field img 18 2,
     e_entry = field img 24 8, e_phoff = field img 32 8, e_phentsize = field img 54 2,
     e_phnum = field img 56 2\<rparr>"

record phdr =
  p_type :: u64
  p_offset :: u64
  p_vaddr :: u64
  p_filesz :: u64
  p_memsz :: u64

definition read_phdr :: "u8 list \<Rightarrow> nat \<Rightarrow> phdr" where
  "read_phdr img off = \<lparr>p_type = field img off 4, p_offset = field img (off + 8) 8,
     p_vaddr = field img (off + 16) 8, p_filesz = field img (off + 32) 8, p_memsz = field img (off + 40) 8\<rparr>"

definition range_ok :: "u64 \<Rightarrow> u64 \<Rightarrow> u64 \<Rightarrow> u64 \<Rightarrow> bool" where
  "range_ok base sz p n =
     (if n = 0 then True
      else if p < base then False
      else if base + sz \<le> p then False
      else if p + n < p then False
      else if base + sz < p + n then False
      else True)"

text \<open>The two byte loops that fill a segment at physical address \<open>dst\<close>.\<close>

fun put_bytes :: "u64 \<Rightarrow> u8 list \<Rightarrow> memory \<Rightarrow> memory" where
  "put_bytes dst [] m = m"
| "put_bytes dst (b # bs) m = put_bytes (dst + 1) bs (m(dst := b))"

definition segment_bytes :: "u8 list \<Rightarrow> phdr \<Rightarrow> u8 list" where
  "segment_bytes img ph =
     take (unat (p_filesz ph)) (drop (unat (p_offset ph)) img) @
     replicate (unat (p_memsz ph) - unat (p_filesz ph)) 0"

record load_state =
  ld_mem :: memory
  ld_min :: u64
  ld_max :: u64

definition elf_header_ok :: "u8 list \<Rightarrow> bool" where
  "elf_header_ok img =
     (let eh = read_ehdr img; img_size = word_of_nat (length img);
          ph_end = e_phoff eh + e_phnum eh * e_phentsize eh
      in if length img < elf64_ehdr_size then False
      else if take 4 (e_ident eh) \<noteq> [0x7f, 0x45, 0x4c, 0x46] then False
      else if e_ident eh ! 4 \<noteq> ELFCLASS64 then False
      else if e_ident eh ! 5 \<noteq> ELFDATA2LSB then False
      else if e_type eh \<noteq> ET_EXEC then False
      else if e_machine eh \<noteq> EM_AARCH64 then False
      else if e_phentsize eh \<noteq> word_of_nat elf64_phdr_size then False
      else if e_phnum eh = 0 then False
      else if ph_end < e_phoff eh then False
      else if img_size < ph_end then False
      else True)"

text \<open>One program header: \<open>None\<close> is the \<open>return -1\<close> of the loop.\<close>

definition load_segment ::
  "u8 list \<Rightarrow> u64 \<Rightarrow> u64 \<Rightarrow> u64 \<Rightarrow> phdr \<Rightarrow> load_state \<Rightarrow> load_state option"
where
  "load_segment img va_base sz pa_base ph st =
     (let img_size = word_of_nat (length img); off = p_vaddr ph - va_base
      in if p_type ph \<noteq> PT_LOAD then Some st
      else if p_memsz ph = 0 then Some st
      else if p_memsz ph < p_filesz ph then None
      else if p_offset ph + p_filesz ph < p_offset ph then None
      else if img_size < p_offset ph + p_filesz ph then None
      else if \<not> range_ok va_base sz (p_vaddr ph) (p_memsz ph) then None
      else if p_vaddr ph < va_base then None
      else if off + p_memsz ph < off then None
      else if sz < off + p_memsz ph then None
      else Some \<lparr>ld_mem = put_bytes (pa_base + off) (segment_bytes img ph) (ld_mem st),
        ld_min = (if p_vaddr ph < ld_min st then p_vaddr ph else ld_min st),
        ld_max = (if ld_max st < p_vaddr ph + p_memsz ph then p_vaddr ph + p_memsz ph else ld_max st)\<rparr>)"

definition phdr_off :: "u64 \<Rightarrow> nat \<Rightarrow> u64" where
  "phdr_off phoff i = phoff + word_of_nat i * word_of_nat elf64_phdr_size"

text \<open>
  The loop over the headers: \<open>Inl\<close> is the failure, with the memory as the segments before it
  left it.
\<close>

fun load_loop ::
  "u8 list \<Rightarrow> u64 \<Rightarrow> u64 \<Rightarrow> u64 \<Rightarrow> u64 \<Rightarrow> nat list \<Rightarrow> load_state \<Rightarrow> memory + load_state"
where
  "load_loop img va_base sz pa_base phoff [] st = Inr st"
| "load_loop img va_base sz pa_base phoff (i # is) st =
     (let ph_off = phdr_off phoff i
      in if word_of_nat (length img) < ph_off + word_of_nat elf64_phdr_size then Inl (ld_mem st)
      else case load_segment img va_base sz pa_base (read_phdr img (unat ph_off)) st of
        None \<Rightarrow> Inl (ld_mem st)
      | Some st' \<Rightarrow> load_loop img va_base sz pa_base phoff is st')"

record elf_result =
  el_entry :: u64
  el_min :: u64
  el_max :: u64

definition elf64_load_etexec ::
  "u8 list \<Rightarrow> u64 \<Rightarrow> u64 \<Rightarrow> u64 \<Rightarrow> memory \<Rightarrow> elf_result option \<times> memory"
where
  "elf64_load_etexec img va_base sz pa_base m =
     (if \<not> elf_header_ok img then (None, m)
      else let eh = read_ehdr img
        in case load_loop img va_base sz pa_base (e_phoff eh) [0..<unat (e_phnum eh)]
               \<lparr>ld_mem = m, ld_min = - 1, ld_max = 0\<rparr> of
          Inl m' \<Rightarrow> (None, m')
        | Inr st \<Rightarrow>
            if ld_min st = - 1 then (None, ld_mem st)
            else (Some \<lparr>el_entry = e_entry eh, el_min = ld_min st, el_max = ld_max st\<rparr>, ld_mem st))"


subsection \<open>Placing bytes\<close>

lemma put_bytes_frame:
  "(\<And>i. i < length bs \<Longrightarrow> dst + word_of_nat i \<noteq> a) \<Longrightarrow> put_bytes dst bs m a = m a"
proof (induction bs arbitrary: dst m)
  case (Cons b bs)
  have "put_bytes (dst + 1) bs (m(dst := b)) a = (m(dst := b)) a"
    using Cons.prems [of "Suc i" for i] by (intro Cons.IH) (simp add: algebra_simps)
  then show ?case using Cons.prems [of 0] by simp
qed simp

lemma put_bytes_nth:
  "i < length bs \<Longrightarrow> length bs \<le> 2 ^ 63 \<Longrightarrow> put_bytes dst bs m (dst + word_of_nat i) = bs ! i"
proof (induction bs arbitrary: dst m i)
  case (Cons b bs)
  show ?case
  proof (cases i)
    case 0
    have "dst + 1 + word_of_nat j \<noteq> dst" if "j < length bs" for j
    proof
      assume "dst + 1 + word_of_nat j = dst"
      then have "word_of_nat (Suc j) = (0 :: u64)"
        by (simp add: add_eq_0_iff add.assoc)
      then have "unat (word_of_nat (Suc j) :: u64) = 0" by simp
      then show False
        using that Cons.prems(2) by (simp del: of_nat_Suc)
    qed
    then show ?thesis using 0 put_bytes_frame [of bs "dst + 1" dst] by simp
  next
    case (Suc k)
    have "put_bytes (dst + 1) bs (m(dst := b)) (dst + 1 + word_of_nat k) = bs ! k"
      using Cons.prems Suc by (intro Cons.IH) simp_all
    then show ?thesis using Suc by (simp add: add.assoc)
  qed
qed simp

subsection \<open>What a segment must satisfy to be loaded\<close>

definition loads :: "phdr \<Rightarrow> bool" where
  "loads ph \<longleftrightarrow> p_type ph = PT_LOAD \<and> p_memsz ph \<noteq> 0"

definition seg_ok :: "u8 list \<Rightarrow> phdr \<Rightarrow> bool" where
  "seg_ok img ph \<longleftrightarrow>
     unat USER_REGION_BASE \<le> unat (p_vaddr ph) \<and>
     unat (p_vaddr ph) + unat (p_memsz ph) \<le> unat USER_REGION_END \<and>
     unat (p_filesz ph) \<le> unat (p_memsz ph) \<and>
     unat (p_offset ph) + unat (p_filesz ph) \<le> length img"

lemma unat_add_no_wrap: "\<not> a + b < (a :: u64) \<Longrightarrow> unat (a + b) = unat a + unat b"
  by (metis not_less unat_plus_simple)

definition place :: "u8 list \<Rightarrow> u64 \<Rightarrow> phdr \<Rightarrow> memory \<Rightarrow> memory" where
  "place img pa ph m =
     (if loads ph then put_bytes (pa + (p_vaddr ph - USER_REGION_BASE)) (segment_bytes img ph) m else m)"

abbreviation load_user :: "u8 list \<Rightarrow> u64 \<Rightarrow> phdr \<Rightarrow> load_state \<Rightarrow> load_state option" where
  "load_user img \<equiv> load_segment img USER_REGION_BASE USER_REGION_SIZE"

lemma load_segment_Some:
  assumes "load_user img pa ph st = Some st'" and len: "length img < 2 ^ 64"
  shows "(loads ph \<longrightarrow> seg_ok img ph) \<and> ld_mem st' = place img pa ph (ld_mem st) \<and>
    ld_min st' = (if loads ph \<and> p_vaddr ph < ld_min st then p_vaddr ph else ld_min st) \<and>
    ld_max st' = (if loads ph \<and> ld_max st < p_vaddr ph + p_memsz ph then p_vaddr ph + p_memsz ph else ld_max st)"
proof (cases "loads ph")
  case False
  then show ?thesis
    using assms(1) by (auto simp: load_segment_def Let_def loads_def place_def split: if_splits)
next
  case True
  note d = assms(1) [unfolded load_segment_def Let_def]
  have c: "\<not> p_memsz ph < p_filesz ph" "\<not> p_offset ph + p_filesz ph < p_offset ph"
    "\<not> word_of_nat (length img) < p_offset ph + p_filesz ph"
    "range_ok USER_REGION_BASE USER_REGION_SIZE (p_vaddr ph) (p_memsz ph)"
    using d True by (auto simp: loads_def split: if_splits)
  have r: "\<not> p_vaddr ph < USER_REGION_BASE" "\<not> p_vaddr ph + p_memsz ph < p_vaddr ph"
    "\<not> USER_REGION_END < p_vaddr ph + p_memsz ph"
    using c(4) True by (auto simp: range_ok_def loads_def USER_REGION_END_def split: if_splits)
  have "seg_ok img ph"
    using c(1,3) r(1,3) unat_add_no_wrap [OF c(2)] unat_add_no_wrap [OF r(2)] len
    by (simp add: seg_ok_def word_less_nat_alt not_less unat_of_nat)
  then show ?thesis
    using d True by (auto simp: loads_def place_def split: if_splits)
qed


abbreviation load_headers :: "u8 list \<Rightarrow> u64 \<Rightarrow> u64 \<Rightarrow> nat list \<Rightarrow> load_state \<Rightarrow> memory + load_state" where
  "load_headers img \<equiv> load_loop img USER_REGION_BASE USER_REGION_SIZE"

definition phdr_at :: "u8 list \<Rightarrow> u64 \<Rightarrow> nat \<Rightarrow> phdr" where
  "phdr_at img phoff i = read_phdr img (unat (phdr_off phoff i))"

definition place_all :: "u8 list \<Rightarrow> u64 \<Rightarrow> u64 \<Rightarrow> nat list \<Rightarrow> memory \<Rightarrow> memory" where
  "place_all img pa phoff is m = fold (\<lambda>i. place img pa (phdr_at img phoff i)) is m"

definition all_ok :: "u8 list \<Rightarrow> u64 \<Rightarrow> nat list \<Rightarrow> bool" where
  "all_ok img phoff is \<longleftrightarrow> (\<forall>i \<in> set is. loads (phdr_at img phoff i) \<longrightarrow> seg_ok img (phdr_at img phoff i))"

text \<open>The loop places the segments of a run of valid headers: of all of them on success, of the
  ones before the offending header on failure.\<close>

lemma load_loop_places:
  assumes "length img < 2 ^ 64"
  shows "(case load_headers img pa phoff idx st of
      Inr st' \<Rightarrow> all_ok img phoff idx \<and> ld_mem st' = place_all img pa phoff idx (ld_mem st)
    | Inl m \<Rightarrow> \<exists>k. all_ok img phoff (take k idx) \<and> m = place_all img pa phoff (take k idx) (ld_mem st))"
proof (induction idx arbitrary: st)
  case Nil
  then show ?case by (simp add: place_all_def all_ok_def)
next
  case (Cons i idx)
  have stop: ?case if "load_headers img pa phoff (i # idx) st = Inl (ld_mem st)"
    unfolding that by (auto simp: place_all_def all_ok_def intro!: exI [of _ 0])
  show ?case
  proof (cases "word_of_nat (length img) < phdr_off phoff i + word_of_nat elf64_phdr_size \<or>
      load_user img pa (phdr_at img phoff i) st = None")
    case True
    then show ?thesis by (intro stop) (auto simp: Let_def phdr_at_def)
  next
    case False
    then obtain st' where Some: "load_user img pa (phdr_at img phoff i) st = Some st'" by auto
    note one = load_segment_Some [OF Some assms]
    have step: "load_headers img pa phoff (i # idx) st = load_headers img pa phoff idx st'"
      using False Some by (simp add: Let_def phdr_at_def)
    show ?thesis
    proof (cases "load_headers img pa phoff idx st'")
      case (Inl m)
      then obtain k where "all_ok img phoff (take k idx)" "m = place_all img pa phoff (take k idx) (ld_mem st')"
        using Cons.IH [of st'] by auto
      then show ?thesis
        using one Inl unfolding step by (auto simp: all_ok_def place_all_def intro!: exI [of _ "Suc k"])
    next
      case (Inr st'')
      then show ?thesis
        using one Cons.IH [of st'] unfolding step by (auto simp: all_ok_def place_all_def)
    qed
  qed
qed

lemma load_loop_bounds:
  "length img < 2 ^ 64 \<Longrightarrow> load_headers img pa phoff is st = Inr st' \<Longrightarrow>
   ld_min st' \<le> ld_min st \<and> ld_max st \<le> ld_max st' \<and>
   (\<forall>i \<in> set is. loads (phdr_at img phoff i) \<longrightarrow>
     ld_min st' \<le> p_vaddr (phdr_at img phoff i) \<and>
     p_vaddr (phdr_at img phoff i) + p_memsz (phdr_at img phoff i) \<le> ld_max st') \<and>
   (ld_min st' = ld_min st \<or> (\<exists>i \<in> set is. loads (phdr_at img phoff i) \<and> ld_min st' = p_vaddr (phdr_at img phoff i))) \<and>
   (ld_max st' = ld_max st \<or> (\<exists>i \<in> set is. loads (phdr_at img phoff i) \<and>
     ld_max st' = p_vaddr (phdr_at img phoff i) + p_memsz (phdr_at img phoff i)))"
proof (induction "is" arbitrary: st)
  case (Cons i "is")
  obtain st1 where 1: "load_user img pa (phdr_at img phoff i) st = Some st1"
      and 2: "load_headers img pa phoff is st1 = Inr st'"
    using Cons.prems(2) by (auto simp: Let_def phdr_at_def split: if_splits option.splits)
  have *: "ld_min st1 = (if loads (phdr_at img phoff i) \<and> p_vaddr (phdr_at img phoff i) < ld_min st
        then p_vaddr (phdr_at img phoff i) else ld_min st)"
      "ld_max st1 = (if loads (phdr_at img phoff i) \<and>
          ld_max st < p_vaddr (phdr_at img phoff i) + p_memsz (phdr_at img phoff i)
        then p_vaddr (phdr_at img phoff i) + p_memsz (phdr_at img phoff i) else ld_max st)"
    using load_segment_Some [OF 1 Cons.prems(1)] by auto
  then have "ld_min st1 \<le> ld_min st" "ld_max st \<le> ld_max st1"
      "loads (phdr_at img phoff i) \<Longrightarrow> ld_min st1 \<le> p_vaddr (phdr_at img phoff i)"
      "loads (phdr_at img phoff i) \<Longrightarrow>
        p_vaddr (phdr_at img phoff i) + p_memsz (phdr_at img phoff i) \<le> ld_max st1"
    by (auto simp: not_less)
  then show ?case
    using Cons.IH [OF Cons.prems(1) 2] * by (auto split: if_splits)
qed simp

text \<open>A valid segment lies in the block; the last one that covers a byte decides its value.\<close>

lemma length_segment_bytes: "seg_ok img ph \<Longrightarrow> length (segment_bytes img ph) = unat (p_memsz ph)"
  by (auto simp: segment_bytes_def seg_ok_def min_def)

definition covers :: "phdr \<Rightarrow> u64 \<Rightarrow> bool" where
  "covers ph va \<longleftrightarrow> loads ph \<and> p_vaddr ph \<le> va \<and> unat va < unat (p_vaddr ph) + unat (p_memsz ph)"

lemma place_frame:
  assumes "loads ph \<longrightarrow> seg_ok img ph"
    and "\<And>va. covers ph va \<Longrightarrow> a \<noteq> pa + (va - USER_REGION_BASE)"
  shows "place img pa ph m a = m a"
proof (cases "loads ph")
  case True
  then have ok: "seg_ok img ph" using assms(1) by simp
  have "pa + (p_vaddr ph - USER_REGION_BASE) + word_of_nat i \<noteq> a" if i: "i < unat (p_memsz ph)" for i
  proof -
    have "unat (p_vaddr ph + word_of_nat i) = unat (p_vaddr ph) + i"
      using ok i by (simp add: seg_ok_def unat_word_ariths user_region_nat)
    then have "covers ph (p_vaddr ph + word_of_nat i)"
      using True i by (simp add: covers_def word_le_nat_alt)
    from assms(2) [OF this] show ?thesis by (simp add: algebra_simps)
  qed
  then show ?thesis
    using True length_segment_bytes [OF ok] by (simp add: place_def put_bytes_frame)
qed (simp add: place_def)

lemma place_covered:
  assumes "seg_ok img ph" and "covers ph va"
  shows "place img pa ph m (pa + (va - USER_REGION_BASE)) = segment_bytes img ph ! (unat va - unat (p_vaddr ph))"
proof -
  let ?i = "unat va - unat (p_vaddr ph)"
  have "va = p_vaddr ph + word_of_nat ?i"
    using assms(2) by (simp add: covers_def word_le_nat_alt)
  then have addr: "pa + (va - USER_REGION_BASE) = pa + (p_vaddr ph - USER_REGION_BASE) + word_of_nat ?i"
    by (simp add: algebra_simps)
  have "?i < length (segment_bytes img ph)" "length (segment_bytes img ph) \<le> 2 ^ 63"
    using assms length_segment_bytes [OF assms(1)]
    by (auto simp: covers_def word_le_nat_alt seg_ok_def user_region_nat)
  then have "put_bytes (pa + (p_vaddr ph - USER_REGION_BASE)) (segment_bytes img ph) m
      (pa + (va - USER_REGION_BASE)) = segment_bytes img ph ! ?i"
    unfolding addr by (rule put_bytes_nth)
  then show ?thesis
    using assms(2) unfolding place_def covers_def by simp
qed


lemma place_all_frame:
  assumes "all_ok img phoff is"
    and "\<And>i va. i \<in> set is \<Longrightarrow> covers (phdr_at img phoff i) va \<Longrightarrow> a \<noteq> pa + (va - USER_REGION_BASE)"
  shows "place_all img pa phoff is m a = m a"
  using assms
proof (induction "is" arbitrary: m)
  case (Cons i "is")
  have "place img pa (phdr_at img phoff i) m a = m a"
    using Cons.prems by (intro place_frame) (auto simp: all_ok_def)
  moreover have "place_all img pa phoff is (place img pa (phdr_at img phoff i) m) a =
      place img pa (phdr_at img phoff i) m a"
    by (rule Cons.IH) (use Cons.prems in \<open>auto simp: all_ok_def\<close>)
  ultimately show ?case by (simp add: place_all_def)
qed (simp add: place_all_def)

lemma covers_region:
  assumes "seg_ok img ph" and "covers ph va"
  shows "USER_REGION_BASE \<le> va" and "va < USER_REGION_END"
  using assms by (auto simp: seg_ok_def covers_def word_le_nat_alt word_less_nat_alt)

lemma all_ok_block:
  assumes "all_ok img phoff is" and "a \<notin> block pa"
  shows "place_all img pa phoff is m a = m a"
proof (rule place_all_frame [OF assms(1)])
  fix i va
  assume i: "i \<in> set is" and va: "covers (phdr_at img phoff i) va"
  then have "seg_ok img (phdr_at img phoff i)"
    using assms(1) by (auto simp: all_ok_def covers_def)
  from covers_region [OF this va] show "a \<noteq> pa + (va - USER_REGION_BASE)"
    using assms(2) user_pa_in_block [of va pa] by (auto simp: user_pa_def)
qed

subsection \<open>The properties\<close>

text \<open>The call of \<open>sys_execve\<close> and of the boot code.\<close>

abbreviation load_image :: "u8 list \<Rightarrow> u64 \<Rightarrow> memory \<Rightarrow> elf_result option \<times> memory" where
  "load_image img \<equiv> elf64_load_etexec img USER_REGION_BASE USER_REGION_SIZE"

lemma load_confined:
  assumes "length img < 2 ^ 64" and "a \<notin> block pa"
  shows "snd (elf64_load_etexec img USER_REGION_BASE USER_REGION_SIZE pa m) a = m a"
proof -
  let ?phoff = "e_phoff (read_ehdr img)" and ?is = "[0..<unat (e_phnum (read_ehdr img))]"
  let ?st = "\<lparr>ld_mem = m, ld_min = - 1, ld_max = 0\<rparr>"
  show ?thesis
  proof (cases "load_headers img pa ?phoff ?is ?st")
    case (Inl m')
    then show ?thesis
      using load_loop_places [OF assms(1), where pa = pa and phoff = ?phoff and idx = ?is and st = ?st] all_ok_block [OF _ assms(2), where phoff = ?phoff and m = m]
      by (auto simp: elf64_load_etexec_def Let_def)
  next
    case (Inr st)
    then show ?thesis
      using load_loop_places [OF assms(1), where pa = pa and phoff = ?phoff and idx = ?is and st = ?st] all_ok_block [OF _ assms(2), where phoff = ?phoff and m = m]
      by (auto simp: elf64_load_etexec_def Let_def)
  qed
qed

text \<open>C20: loading an image, valid or hostile, accepted or refused half way, writes no physical
  memory outside the 2 MiB block of the process.\<close>

theorem elf_load_confined:
  assumes "length img < 2 ^ 64" and "a \<notin> block pa"
  shows "snd (elf64_load_etexec img USER_REGION_BASE USER_REGION_SIZE pa m) a = m a"
  using assms by (rule load_confined)


text \<open>A minimal executable: one \<open>PT_LOAD\<close> segment of three file bytes and five of memory at the
  base of the user region.\<close>

definition tiny_elf :: "u8 list" where
  "tiny_elf =
     [0x7f, 0x45, 0x4c, 0x46, 2, 1, 1, 0] @ replicate 8 0 @
     [2, 0, 183, 0, 1, 0, 0, 0] @ [0, 0, 0x40, 0, 0, 0, 0, 0] @ [64, 0, 0, 0, 0, 0, 0, 0] @ replicate 8 0 @
     replicate 4 0 @ [64, 0, 56, 0, 1, 0, 0, 0, 0, 0, 0, 0] @
     [1, 0, 0, 0, 5, 0, 0, 0] @ [120, 0, 0, 0, 0, 0, 0, 0] @ [0, 0, 0x40, 0, 0, 0, 0, 0] @ replicate 8 0 @
     [3, 0, 0, 0, 0, 0, 0, 0] @ [5, 0, 0, 0, 0, 0, 0, 0] @ replicate 8 0 @ [0xAA, 0xBB, 0xCC]"

lemma tiny_elf_header: "elf_header_ok tiny_elf"
  by code_simp

lemma tiny_elf_result:
  "fst (elf64_load_etexec tiny_elf USER_REGION_BASE USER_REGION_SIZE 0x1000000 (\<lambda>_. 7)) =
     Some \<lparr>el_entry = 0x400000, el_min = 0x400000, el_max = 0x400005\<rparr>"
  by code_simp

lemma elf_load_confined_witness:
  "snd (elf64_load_etexec tiny_elf USER_REGION_BASE USER_REGION_SIZE 0x1000000 (\<lambda>_. 7)) 0x1200000 = 7"
proof -
  have "(0x1200000 :: u64) \<notin> block 0x1000000"
    by (auto simp: block_def USER_REGION_SIZE_def word_less_nat_alt eq_diff_eq [symmetric] dest: arg_cong [where f = "\<lambda>x. x - 0x1000000"])
  from elf_load_confined [OF _ this, of tiny_elf "\<lambda>_. 7"] show ?thesis
    by (simp add: tiny_elf_def)
qed


text \<open>What a successful load means, segment by segment.\<close>

lemma elf_load_success:
  assumes "length img < 2 ^ 64"
    and "elf64_load_etexec img USER_REGION_BASE USER_REGION_SIZE pa m = (Some r, m')"
    and "phoff = e_phoff (read_ehdr img)" and "n = unat (e_phnum (read_ehdr img))"
  obtains st where "load_headers img pa phoff [0..<n] \<lparr>ld_mem = m, ld_min = - 1, ld_max = 0\<rparr> = Inr st"
    and "all_ok img phoff [0..<n]" and "m' = place_all img pa phoff [0..<n] m" and "ld_min st \<noteq> - 1"
    and "r = \<lparr>el_entry = e_entry (read_ehdr img), el_min = ld_min st, el_max = ld_max st\<rparr>"
proof -
  let ?st = "\<lparr>ld_mem = m, ld_min = - 1, ld_max = 0\<rparr>"
  obtain st where st: "load_headers img pa phoff [0..<n] ?st = Inr st" "ld_min st \<noteq> - 1" "m' = ld_mem st"
      "r = \<lparr>el_entry = e_entry (read_ehdr img), el_min = ld_min st, el_max = ld_max st\<rparr>"
    using assms(2) unfolding elf64_load_etexec_def assms(3,4) Let_def
    by (auto split: if_splits sum.splits)
  have "case load_headers img pa phoff [0..<n] ?st of
      Inr st' \<Rightarrow> all_ok img phoff [0..<n] \<and> ld_mem st' = place_all img pa phoff [0..<n] (ld_mem ?st)
    | Inl m \<Rightarrow> \<exists>k. all_ok img phoff (take k [0..<n]) \<and> m = place_all img pa phoff (take k [0..<n]) (ld_mem ?st)"
    by (rule load_loop_places [OF assms(1)])
  then show ?thesis
    using that [OF st(1)] st by simp
qed

lemma place_all_last:
  assumes "all_ok img phoff [0..<n]" and "i < n" and "covers (phdr_at img phoff i) va"
    and "\<And>j. i < j \<Longrightarrow> j < n \<Longrightarrow> \<not> covers (phdr_at img phoff j) va"
  shows "place_all img pa phoff [0..<n] m (pa + (va - USER_REGION_BASE)) =
    segment_bytes img (phdr_at img phoff i) ! (unat va - unat (p_vaddr (phdr_at img phoff i)))"
proof -
  have split: "[0..<n] = [0..<i] @ i # [Suc i..<n]"
    using assms(2) upt_add_eq_append [of 0 i "n - i"] upt_conv_Cons [of i n] by simp
  have ok: "seg_ok img (phdr_at img phoff i)" "all_ok img phoff [Suc i..<n]"
    using assms(1-3) by (auto simp: all_ok_def covers_def)
  let ?m = "place_all img pa phoff [0..<i] m"
  have "place_all img pa phoff [Suc i..<n] (place img pa (phdr_at img phoff i) ?m) (pa + (va - USER_REGION_BASE)) =
      place img pa (phdr_at img phoff i) ?m (pa + (va - USER_REGION_BASE))"
  proof (rule place_all_frame [OF ok(2)])
    fix j va'
    assume "j \<in> set [Suc i..<n]" and c: "covers (phdr_at img phoff j) va'"
    then have "va' \<noteq> va" using assms(4) [of j] by auto
    then show "pa + (va - USER_REGION_BASE) \<noteq> pa + (va' - USER_REGION_BASE)" by simp
  qed
  then show ?thesis
    using place_covered [OF ok(1) assms(3), of pa ?m] unfolding split place_all_def by simp
qed

text \<open>C21: an image that loads is laid out as its headers say. Every loadable segment is inside the
  user region and inside the file, the reported bounds enclose it, and each of its bytes that no
  later segment overwrites is the byte of the file, or zero past the file size.\<close>

theorem elf_load_image:
  assumes "length img < 2 ^ 64"
    and "elf64_load_etexec img USER_REGION_BASE USER_REGION_SIZE pa m = (Some r, m')"
    and "phoff = e_phoff (read_ehdr img)" and "n = unat (e_phnum (read_ehdr img))"
    and "i < n" and "ph = read_phdr img (unat (phdr_off phoff i))"
    and "p_type ph = PT_LOAD" and "p_memsz ph \<noteq> 0"
  shows "el_min r \<le> p_vaddr ph \<and> unat (p_vaddr ph) + unat (p_memsz ph) \<le> unat (el_max r) \<and>
    USER_REGION_BASE \<le> el_min r \<and> el_max r \<le> USER_REGION_END \<and>
    unat (p_offset ph) + unat (p_filesz ph) \<le> length img \<and>
    (\<forall>k < unat (p_memsz ph).
      (\<forall>j. i < j \<and> j < n \<longrightarrow> \<not> covers (read_phdr img (unat (phdr_off phoff j))) (p_vaddr ph + word_of_nat k)) \<longrightarrow>
      m' (user_pa pa (p_vaddr ph + word_of_nat k)) =
        (if k < unat (p_filesz ph) then img ! (unat (p_offset ph) + k) else 0))"
proof -
  obtain st where st: "load_headers img pa phoff [0..<n] \<lparr>ld_mem = m, ld_min = - 1, ld_max = 0\<rparr> = Inr st"
    and ok: "all_ok img phoff [0..<n]" and m': "m' = place_all img pa phoff [0..<n] m" and ne: "ld_min st \<noteq> - 1"
    and r: "r = \<lparr>el_entry = e_entry (read_ehdr img), el_min = ld_min st, el_max = ld_max st\<rparr>"
    by (rule elf_load_success [OF assms(1-4)])
  have ph: "ph = phdr_at img phoff i" by (simp add: assms(6) phdr_at_def)
  have loads: "loads ph" using assms(7,8) by (simp add: loads_def)
  have seg: "seg_ok img ph" using ok loads assms(5) by (simp add: all_ok_def ph)
  have no_wrap: "unat (p_vaddr h + p_memsz h) = unat (p_vaddr h) + unat (p_memsz h)" if "seg_ok img h" for h
    using that by (simp add: seg_ok_def unat_word_ariths user_region_nat)
  note bd = load_loop_bounds [OF assms(1) st]
  have lo: "el_min r \<le> p_vaddr ph" "p_vaddr ph + p_memsz ph \<le> el_max r"
    using bd loads assms(5) by (auto simp: r ph)
  have "USER_REGION_BASE \<le> el_min r"
    using bd ne ok by (auto simp: r all_ok_def seg_ok_def word_le_nat_alt)
  moreover have "el_max r \<le> USER_REGION_END"
    using bd ok no_wrap by (auto simp: r all_ok_def word_le_nat_alt) (auto simp: seg_ok_def)
  moreover have "m' (user_pa pa (p_vaddr ph + word_of_nat k)) =
      (if k < unat (p_filesz ph) then img ! (unat (p_offset ph) + k) else 0)"
    if k: "k < unat (p_memsz ph)"
      and last: "\<forall>j. i < j \<and> j < n \<longrightarrow> \<not> covers (read_phdr img (unat (phdr_off phoff j))) (p_vaddr ph + word_of_nat k)"
    for k
  proof -
    let ?va = "p_vaddr ph + word_of_nat k"
    have va: "unat ?va = unat (p_vaddr ph) + k"
      using seg k by (simp add: seg_ok_def unat_word_ariths user_region_nat)
    then have c: "covers ph ?va"
      using loads k by (simp add: covers_def word_le_nat_alt)
    have "m' (pa + (?va - USER_REGION_BASE)) = segment_bytes img ph ! (unat ?va - unat (p_vaddr ph))"
      unfolding m' ph using last c ok assms(5) by (intro place_all_last) (auto simp: ph phdr_at_def)
    moreover have "user_pa pa ?va = pa + (?va - USER_REGION_BASE)"
      using covers_region [OF seg c] by (simp add: user_pa_def)
    moreover have "segment_bytes img ph ! k = (if k < unat (p_filesz ph) then img ! (unat (p_offset ph) + k) else 0)"
      using seg k by (auto simp: segment_bytes_def seg_ok_def nth_append)
    ultimately show ?thesis using va by simp
  qed
  ultimately show ?thesis
    using lo seg no_wrap [OF seg] by (simp add: word_le_nat_alt seg_ok_def)
qed

lemma elf_load_image_witness:
  "unat (p_offset (read_phdr tiny_elf 64)) + 3 \<le> length tiny_elf"
proof -
  obtain m' where m': "elf64_load_etexec tiny_elf USER_REGION_BASE USER_REGION_SIZE 0x1000000 (\<lambda>_. 7) =
      (Some \<lparr>el_entry = 0x400000, el_min = 0x400000, el_max = 0x400005\<rparr>, m')"
    using tiny_elf_result by (metis prod.collapse)
  have h: "p_type (read_phdr tiny_elf 64) = PT_LOAD" "p_memsz (read_phdr tiny_elf 64) = 5"
      "p_filesz (read_phdr tiny_elf 64) = 3" "unat (phdr_off (e_phoff (read_ehdr tiny_elf)) 0) = 64"
      "unat (e_phnum (read_ehdr tiny_elf)) = 1"
    by code_simp+
  have "length tiny_elf < 2 ^ 64" by (simp add: tiny_elf_def)
  from elf_load_image [OF this m' refl refl, of 0 "read_phdr tiny_elf 64"] show ?thesis
    by (simp add: h)
qed

end
