(* ===== verification/Timer.thy ===== *)
theory Timer
  imports Prelude
begin

text \<open>
  \<open>kernel-aarch64/time.c\<close>: the clock derived from the architectural counter and the tick
  timer. Counter reads are arguments; writes of the timer registers are fields of the state. The
  lemmas compare the 64-bit arithmetic (which avoids 128-bit products) with exact division on
  natural numbers.
\<close>

datatype tick_mode = TICK_MODE_DISABLED | TICK_MODE_PERIODIC | TICK_MODE_ONESHOT

record timer =
  tm_freq :: u64
  tm_boot :: u64
  tm_inited :: bool
  tm_interval :: u64
  tm_mode :: tick_mode
  tm_tval :: u64
  tm_ctl :: u64

definition NS_PER_SEC :: u64 where
  "NS_PER_SEC = 1000000000"

definition clamp_cntp_tval :: "u64 \<Rightarrow> u64" where
  "clamp_cntp_tval cnt =
     (let cnt = (if cnt = 0 then 1 else cnt) in if 0x7fffffff < cnt then 0x7fffffff else cnt)"

definition ns_to_cnt_ticks :: "timer \<Rightarrow> u64 \<Rightarrow> u64" where
  "ns_to_cnt_ticks t ns =
     (if \<not> tm_inited t \<or> tm_freq t = 0 then 0
      else let sec = ns div NS_PER_SEC; rem = ns - sec * NS_PER_SEC
        in if sec \<noteq> 0 \<and> - 1 div tm_freq t < sec then - 1
        else let ticks = sec * tm_freq t; frac = (rem * tm_freq t) div NS_PER_SEC
          in if - 1 - ticks < frac then - 1 else ticks + frac)"

definition time_init :: "u64 \<Rightarrow> u64 \<Rightarrow> timer \<Rightarrow> timer" where
  "time_init cntfrq cntpct t =
     (if cntfrq = 0 then t\<lparr>tm_freq := cntfrq, tm_boot := 0, tm_inited := False\<rparr>
      else t\<lparr>tm_freq := cntfrq, tm_boot := cntpct, tm_inited := True\<rparr>)"

definition time_now_ns :: "timer \<Rightarrow> u64 \<Rightarrow> u64" where
  "time_now_ns t cntpct =
     (if \<not> tm_inited t \<or> tm_freq t = 0 then 0
      else let delta = cntpct - tm_boot t; freq = tm_freq t; sec = delta div freq; rem = delta - sec * freq
        in if - 1 div NS_PER_SEC < sec then - 1
        else let ns = sec * NS_PER_SEC; frac = (rem * NS_PER_SEC) div freq
          in if - 1 - ns < frac then - 1 else ns + frac)"

text \<open>Programming the timer: the two register writes the tick operations end with.\<close>

definition arm :: "u64 \<Rightarrow> timer \<Rightarrow> timer" where
  "arm cnt t = t\<lparr>tm_tval := clamp_cntp_tval cnt, tm_ctl := 1\<rparr>"

definition time_tick_init :: "u32 \<Rightarrow> timer \<Rightarrow> timer" where
  "time_tick_init hz t =
     (if \<not> tm_inited t \<or> tm_freq t = 0 then t\<lparr>tm_interval := 0, tm_mode := TICK_MODE_DISABLED\<rparr>
      else let hz = (if hz = 0 then 1 else hz); q = tm_freq t div ucast hz;
               interval = (if q = 0 then 1 else q)
        in arm interval (t\<lparr>tm_interval := interval, tm_mode := TICK_MODE_PERIODIC\<rparr>))"

definition time_tick_enable_periodic :: "timer \<Rightarrow> timer" where
  "time_tick_enable_periodic t =
     (if \<not> tm_inited t \<or> tm_freq t = 0 then t
      else if tm_interval t = 0 then t
      else if tm_mode t = TICK_MODE_PERIODIC then t
      else arm (tm_interval t) (t\<lparr>tm_mode := TICK_MODE_PERIODIC\<rparr>))"

definition time_tick_schedule_oneshot_ns :: "u64 \<Rightarrow> timer \<Rightarrow> timer" where
  "time_tick_schedule_oneshot_ns delta_ns t =
     (if \<not> tm_inited t \<or> tm_freq t = 0 then t
      else let ticks = ns_to_cnt_ticks t delta_ns
        in arm (if ticks = 0 then 1 else ticks) (t\<lparr>tm_mode := TICK_MODE_ONESHOT\<rparr>))"

definition time_tick_handle_irq :: "timer \<Rightarrow> timer" where
  "time_tick_handle_irq t =
     (case tm_mode t of
        TICK_MODE_PERIODIC \<Rightarrow>
          if tm_interval t = 0 then t else t\<lparr>tm_tval := clamp_cntp_tval (tm_interval t)\<rparr>
      | TICK_MODE_ONESHOT \<Rightarrow> t\<lparr>tm_ctl := 0, tm_mode := TICK_MODE_DISABLED\<rparr>
      | TICK_MODE_DISABLED \<Rightarrow> t)"

definition time_tick_disable :: "timer \<Rightarrow> timer" where
  "time_tick_disable t = t\<lparr>tm_ctl := 0, tm_mode := TICK_MODE_DISABLED\<rparr>"

subsection \<open>Exact arithmetic\<close>

text \<open>Both conversions split \<open>x * b / a\<close> into quotient and remainder of \<open>x\<close> by \<open>a\<close>.\<close>

lemma div_split_scale:
  fixes x a b :: nat
  assumes "0 < a"
  shows "x * b div a = (x div a) * b + ((x mod a) * b) div a"
proof -
  have "x * b = ((x div a) * b) * a + (x mod a) * b"
    by (metis add_mult_distrib div_mult_mod_eq mult.assoc mult.commute)
  then show ?thesis
    using assms by (metis add.commute div_mult_self3 less_not_refl mult.commute)
qed

lemma scale_words:
  fixes x a b :: u64
  assumes "a \<noteq> 0" and small: "(unat a - 1) * unat b < 2 ^ 64"
    and fits: "unat x * unat b div unat a < 2 ^ 64"
  shows "\<not> (x div a \<noteq> 0 \<and> - 1 div b < x div a) \<or> b = 0"
    and "\<not> - 1 - x div a * b < (x - x div a * a) * b div a"
    and "unat (x div a * b + (x - x div a * a) * b div a) = unat x * unat b div unat a"
proof -
  have a: "0 < unat a" using assms(1) by (simp add: unat_gt_0)
  have split: "unat x * unat b div unat a = unat x div unat a * unat b + (unat x mod unat a * unat b) div unat a"
    by (rule div_split_scale [OF a])
  have q: "unat (x div a) = unat x div unat a" by (rule unat_div)
  have qle: "unat x div unat a * unat a < 2 ^ 64"
  proof -
    have "unat x < 2 ^ 64" using unsigned_less [of x] by simp
    then show ?thesis using div_times_less_eq_dividend [of "unat x" "unat a"] by linarith
  qed
  have qa: "unat (x div a * a) = unat x div unat a * unat a"
    using qle q by (simp add: unat_word_ariths(2))
  have r: "unat (x - x div a * a) = unat x mod unat a"
  proof -
    have "x div a * a \<le> x" by (simp add: word_le_nat_alt qa)
    then show ?thesis by (simp add: minus_div_mult_eq_mod unat_mod)
  qed
  have "unat x mod unat a \<le> unat a - 1"
    using a mod_less_divisor [of "unat a" "unat x"] by linarith
  then have "unat x mod unat a * unat b \<le> (unat a - 1) * unat b"
    by (rule mult_right_mono) simp
  then have "unat x mod unat a * unat b < 2 ^ 64"
    using small by (rule le_less_trans)
  then have rb: "unat ((x - x div a * a) * b) = unat x mod unat a * unat b"
    using r by (simp add: unat_word_ariths(2))
  have qb: "unat (x div a * b) = unat x div unat a * unat b"
    using fits split q by (simp add: unat_word_ariths)
  have f: "unat ((x - x div a * a) * b div a) = (unat x mod unat a * unat b) div unat a"
    by (simp add: unat_div rb)
  have m1: "unat (- 1 :: u64) = 2 ^ 64 - 1"
    by (simp add: unsigned_minus_1_eq_mask mask_eq_exp_minus_1)
  show "\<not> (x div a \<noteq> 0 \<and> - 1 div b < x div a) \<or> b = 0"
  proof (cases "b = 0")
    case False
    then have "0 < unat b" by (simp add: unat_gt_0)
    moreover have "unat x div unat a * unat b \<le> 2 ^ 64 - 1" using fits split by simp
    ultimately have "unat x div unat a \<le> (2 ^ 64 - 1) div unat b"
      by (simp add: less_eq_div_iff_mult_less_eq)
    then show ?thesis
      by (simp add: word_less_nat_alt unat_div not_less m1)
  qed simp
  have le: "x div a * b \<le> - 1" by simp
  show "\<not> - 1 - x div a * b < (x - x div a * a) * b div a"
    using fits split unat_sub [OF le] by (simp add: word_less_nat_alt f qb m1)
  show "unat (x div a * b + (x - x div a * a) * b div a) = unat x * unat b div unat a"
    using fits split by (simp add: unat_word_ariths(1) f qb)
qed

text \<open>C22: with a counter of at most 18.4 GHz the clock is exact: \<open>time_now_ns\<close> is the elapsed
  counter value times \<open>10^9\<close>, divided by the frequency and rounded down, for as long as that
  fits in 64 bits, and it never runs backwards.\<close>

theorem time_now_exact:
  assumes "tm_inited t" and "tm_freq t \<noteq> 0" and "unat (tm_freq t) \<le> 18446744073"
    and "unat (c2 - tm_boot t) * 1000000000 div unat (tm_freq t) < 2 ^ 64"
    and "c1 - tm_boot t \<le> c2 - tm_boot t"
  shows "unat (time_now_ns t c2) = unat (c2 - tm_boot t) * 1000000000 div unat (tm_freq t) \<and>
    time_now_ns t c1 \<le> time_now_ns t c2"
proof -
  have n: "unat NS_PER_SEC = 1000000000" by (simp add: NS_PER_SEC_def)
  have exact: "unat (time_now_ns t c) = unat (c - tm_boot t) * 1000000000 div unat (tm_freq t)"
    if "unat (c - tm_boot t) * 1000000000 div unat (tm_freq t) < 2 ^ 64" for c
  proof -
    have "(unat (tm_freq t) - 1) * unat NS_PER_SEC < 2 ^ 64"
      using assms(3) by (simp add: n)
    note sw = scale_words [OF assms(2) this, of "c - tm_boot t", unfolded n, OF that]
    have "NS_PER_SEC \<noteq> 0" by (simp add: NS_PER_SEC_def)
    then have "\<not> - 1 div NS_PER_SEC < (c - tm_boot t) div tm_freq t"
      using sw(1) by (cases "(c - tm_boot t) div tm_freq t = 0") auto
    then show ?thesis
      using sw(2,3) assms(1,2) by (simp add: time_now_ns_def Let_def)
  qed
  have "unat (c1 - tm_boot t) * 1000000000 div unat (tm_freq t) \<le>
      unat (c2 - tm_boot t) * 1000000000 div unat (tm_freq t)"
    using assms(5) by (intro div_le_mono mult_right_mono) (simp_all add: word_le_nat_alt)
  then show ?thesis
    using exact [of c1] exact [of c2] assms(4) by (simp add: word_le_nat_alt)
qed

lemma time_now_exact_witness:
  "unat (time_now_ns \<lparr>tm_freq = 62500000, tm_boot = 100, tm_inited = True, tm_interval = 0,
     tm_mode = TICK_MODE_DISABLED, tm_tval = 0, tm_ctl = 0\<rparr> 62500103) = 1000000048"
  using time_now_exact [of "\<lparr>tm_freq = 62500000, tm_boot = 100, tm_inited = True, tm_interval = 0,
     tm_mode = TICK_MODE_DISABLED, tm_tval = 0, tm_ctl = 0\<rparr>" 62500103 100] by simp


lemma ns_to_cnt_ticks_exact:
  assumes "tm_inited t" and "tm_freq t \<noteq> 0" and "unat (tm_freq t) \<le> 18446744073"
    and "unat ns * unat (tm_freq t) div 1000000000 < 2 ^ 64"
  shows "unat (ns_to_cnt_ticks t ns) = unat ns * unat (tm_freq t) div 1000000000"
proof -
  have n: "unat NS_PER_SEC = 1000000000" and n0: "NS_PER_SEC \<noteq> 0" by (simp_all add: NS_PER_SEC_def)
  have "(unat NS_PER_SEC - 1) * unat (tm_freq t) < 2 ^ 64"
    using assms(3) unfolding n by simp
  note sw = scale_words [OF n0 this, of ns, unfolded n, OF assms(4)]
  have "\<not> (ns div NS_PER_SEC \<noteq> 0 \<and> - 1 div tm_freq t < ns div NS_PER_SEC)"
    using sw(1) assms(2) by blast
  then show ?thesis
    using sw(2,3) assms(1,2) unfolding ns_to_cnt_ticks_def Let_def by (simp only: if_False not_True_eq_False simp_thms)
qed

subsection \<open>The tick timer as a state machine\<close>

datatype tick_op =
    Tick_init u32
  | Tick_enable_periodic
  | Tick_oneshot u64
  | Tick_irq
  | Tick_disable

fun tick_step :: "tick_op \<Rightarrow> timer \<Rightarrow> timer" where
  "tick_step (Tick_init hz) = time_tick_init hz"
| "tick_step Tick_enable_periodic = time_tick_enable_periodic"
| "tick_step (Tick_oneshot ns) = time_tick_schedule_oneshot_ns ns"
| "tick_step Tick_irq = time_tick_handle_irq"
| "tick_step Tick_disable = time_tick_disable"

inductive tick_reach :: "timer \<Rightarrow> timer \<Rightarrow> bool" for t0 where
  tick_start: "tick_reach t0 t0"
| tick_next: "tick_reach t0 t \<Longrightarrow> tick_reach t0 (tick_step op t)"

definition timer_ok :: "timer \<Rightarrow> bool" where
  "timer_ok t \<longleftrightarrow>
     tm_ctl t = (if tm_mode t = TICK_MODE_DISABLED then 0 else 1) \<and>
     (tm_mode t \<noteq> TICK_MODE_DISABLED \<longrightarrow>
        tm_inited t \<and> tm_freq t \<noteq> 0 \<and> 1 \<le> unat (tm_tval t) \<and> unat (tm_tval t) \<le> 0x7fffffff) \<and>
     (tm_mode t = TICK_MODE_PERIODIC \<longrightarrow> tm_tval t = clamp_cntp_tval (tm_interval t) \<and> tm_interval t \<noteq> 0)"

lemma clamp_range: "1 \<le> unat (clamp_cntp_tval c)" "unat (clamp_cntp_tval c) \<le> 0x7fffffff"
  by (auto simp: clamp_cntp_tval_def Let_def word_less_nat_alt Suc_le_eq unat_gt_0)

lemma tick_step_ok [inv_intros]: "timer_ok t \<Longrightarrow> timer_ok (tick_step op t)"
  using clamp_range
  by (cases op) (auto simp: timer_ok_def time_tick_init_def time_tick_enable_periodic_def
      time_tick_schedule_oneshot_ns_def time_tick_handle_irq_def time_tick_disable_def arm_def Let_def
      split: tick_mode.splits)

text \<open>From a boot with the timer off, in any order of initialisation, mode changes, one-shot
  requests, interrupts and disables, the hardware timer is enabled exactly when the mode says so,
  its programmed value is between 1 and \<open>2^31 - 1\<close> (a value the signed register can hold), and
  in periodic mode it is the configured interval.\<close>

lemma tick_timer_invariant:
  assumes "tick_reach (time_init freq boot t0) t" and "tm_ctl t0 = 0" and "tm_mode t0 = TICK_MODE_DISABLED"
  shows "timer_ok t"
  using assms
proof (induction rule: tick_reach.induct)
  case tick_start
  then show ?case by (simp add: timer_ok_def time_init_def)
qed (blast intro: tick_step_ok)

lemma tick_timer_invariant_witness:
  "timer_ok (tick_step Tick_irq (tick_step (Tick_oneshot 10000000)
     (time_init 62500000 5 \<lparr>tm_freq = 0, tm_boot = 0, tm_inited = False, tm_interval = 0,
        tm_mode = TICK_MODE_DISABLED, tm_tval = 0, tm_ctl = 0\<rparr>)))"
  by (rule tick_timer_invariant [OF tick_next [OF tick_next [OF tick_start]]]) simp_all

end
