(* ===== verification/Mmu.thy ===== *)
theory Mmu
  imports UserMem
begin

text \<open>
  \<open>kernel-aarch64/mmu.c\<close>: the translation tables. A table is a page of 512 descriptors;
  \<open>mm_tabs\<close> gives the descriptors of the page at a physical address. The kernel maps the first
  2 GiB to themselves in 2 MiB blocks and gives every process a copy of that map in which the
  block of the user region points at the process' own memory.

  \<open>walk\<close> is how the processor reads a table (4 KiB granule, 39-bit addresses, as set up in
  \<open>tcr_el1\<close>); the system registers other than the table roots, and the cache maintenance, are
  left out. The main theorem computes the walk of a new process' table.
\<close>

definition TABLE_ENTRIES :: nat where "TABLE_ENTRIES = 512"
definition BLOCK_SIZE :: u64 where "BLOCK_SIZE = 0x200000"
definition PERIPH_BASE :: u64 where "PERIPH_BASE = 0x3F000000"
definition PERIPH_END :: u64 where "PERIPH_END = 0x40001000"

definition PTE_AP_RW_EL1 :: u64 where "PTE_AP_RW_EL1 = 0"
definition PTE_AP_RW_EL0 :: u64 where "PTE_AP_RW_EL0 = 0x40"
definition PTE_AF :: u64 where "PTE_AF = 0x400"
definition PTE_SH_NONE :: u64 where "PTE_SH_NONE = 0"
definition PTE_SH_INNER :: u64 where "PTE_SH_INNER = 0x300"
definition PTE_PXN :: u64 where "PTE_PXN = 0x20000000000000"
definition PTE_UXN :: u64 where "PTE_UXN = 0x40000000000000"
definition ATTR_NORMAL :: u64 where "ATTR_NORMAL = 0"
definition ATTR_DEVICE :: u64 where "ATTR_DEVICE = 1"

definition make_table_desc :: "u64 \<Rightarrow> u64" where
  "make_table_desc next_table_pa = (next_table_pa AND 0x0000FFFFFFFFF000) OR 3"

definition make_block_desc :: "u64 \<Rightarrow> u64 \<Rightarrow> u64 \<Rightarrow> bool \<Rightarrow> u64" where
  "make_block_desc out_pa attr_index ap is_device =
     ((out_pa AND 0x0000FFFFFFE00000) OR 1 OR PTE_AF OR ap OR push_bit 2 attr_index) OR
     (if is_device then PTE_SH_NONE OR (PTE_PXN OR PTE_UXN) else PTE_SH_INNER)"

record mmu =
  mm_tabs :: "u64 \<Rightarrow> nat \<Rightarrow> u64"
  mm_template0 :: u64
  mm_template1 :: u64
  mm_ttbr0 :: u64
  mm_ttbr1 :: u64
  mm_enabled :: bool

definition alloc_table_page :: "mmu \<times> pmm \<Rightarrow> u64 \<times> mmu \<times> pmm" where
  "alloc_table_page s =
     (case pmm_alloc_page (snd s) of (pa, p) \<Rightarrow>
        if pa = 0 then (0, fst s, p)
        else (pa, (fst s)\<lparr>mm_tabs := (mm_tabs (fst s))(pa := (\<lambda>_. 0))\<rparr>, p))"

definition set_entry :: "u64 \<Rightarrow> nat \<Rightarrow> u64 \<Rightarrow> mmu \<Rightarrow> mmu" where
  "set_entry t i v m = m\<lparr>mm_tabs := (mm_tabs m)(t := (mm_tabs m t)(i := v))\<rparr>"

text \<open>A loop that writes all 512 entries of a table.\<close>

definition fill_table :: "u64 \<Rightarrow> (nat \<Rightarrow> u64) \<Rightarrow> mmu \<Rightarrow> mmu" where
  "fill_table t f m =
     m\<lparr>mm_tabs := (mm_tabs m)(t := (\<lambda>i. if i < TABLE_ENTRIES then f i else mm_tabs m t i))\<rparr>"

definition mmu_ttbr0_create_with_user_pa :: "u64 \<Rightarrow> mmu \<times> pmm \<Rightarrow> u64 \<times> mmu \<times> pmm" where
  "mmu_ttbr0_create_with_user_pa user_pa_base s =
     (if mm_template0 (fst s) = 0 then (0, s)
      else if user_pa_base AND 0x1FFFFF \<noteq> 0 then (0, s)
      else case alloc_table_page s of (l1, s1) \<Rightarrow>
        case alloc_table_page s1 of (l2_0, s2) \<Rightarrow>
        case alloc_table_page s2 of (l2_1, m, p) \<Rightarrow>
          if l1 = 0 \<or> l2_0 = 0 \<or> l2_1 = 0 then (0, m, p)
          else
            let m1 = fill_table l2_0 (mm_tabs m (mm_template0 m)) m;
                m2 = (if mm_template1 m1 \<noteq> 0 then fill_table l2_1 (mm_tabs m1 (mm_template1 m1)) m1 else m1);
                user_idx = unat (drop_bit 21 USER_REGION_BASE AND 0x1FF);
                m3 = set_entry l2_0 user_idx (make_block_desc user_pa_base ATTR_NORMAL PTE_AP_RW_EL0 False) m2;
                m4 = set_entry l1 0 (make_table_desc l2_0) m3
            in (l1, set_entry l1 1 (make_table_desc l2_1) m4, p))"

definition is_periph :: "u64 \<Rightarrow> bool" where
  "is_periph va \<longleftrightarrow> PERIPH_BASE \<le> va \<and> va < PERIPH_END"

definition low_desc :: "nat \<Rightarrow> u64" where
  "low_desc i =
     (let va = word_of_nat i * BLOCK_SIZE; dev = is_periph va;
          ap = (if \<not> dev \<and> va = USER_REGION_BASE then PTE_AP_RW_EL0 else PTE_AP_RW_EL1)
      in make_block_desc va (if dev then ATTR_DEVICE else ATTR_NORMAL) ap dev)"

definition high_desc :: "nat \<Rightarrow> u64" where
  "high_desc i =
     (let va = 0x40000000 + word_of_nat i * BLOCK_SIZE; dev = is_periph va
      in make_block_desc va (if dev then ATTR_DEVICE else ATTR_NORMAL) PTE_AP_RW_EL1 dev)"

definition mmu_init_identity :: "u64 \<Rightarrow> u64 \<Rightarrow> mmu \<times> pmm \<Rightarrow> mmu \<times> pmm" where
  "mmu_init_identity ram_base ram_size s =
     (if mm_enabled (fst s) then s
      else if align_up_u64 (ram_base + ram_size) BLOCK_SIZE \<le> align_down_u64 ram_base BLOCK_SIZE then s
      else case alloc_table_page s of (l1_low, s1) \<Rightarrow>
        case alloc_table_page s1 of (l1_high, s2) \<Rightarrow>
        case alloc_table_page s2 of (l2_0, s3) \<Rightarrow>
        case alloc_table_page s3 of (l2_1, m, p) \<Rightarrow>
          if l1_low = 0 \<or> l1_high = 0 \<or> l2_0 = 0 \<or> l2_1 = 0 then (m, p)
          else
            let m1 = set_entry l1_low 1 (make_table_desc l2_1) (set_entry l1_low 0 (make_table_desc l2_0) m);
                m2 = set_entry l1_high 257 (make_table_desc l2_1) (set_entry l1_high 256 (make_table_desc l2_0) m1);
                m3 = fill_table l2_1 high_desc (fill_table l2_0 low_desc m2)
            in (m3\<lparr>mm_template0 := l2_0, mm_template1 := l2_1, mm_ttbr0 := l1_low, mm_ttbr1 := l1_high,
                   mm_enabled := True\<rparr>, p))"

text \<open>The loop of \<open>mmu_mark_region_device\<close>: it stops at the first block beyond 1 GiB.\<close>

fun mark_loop :: "nat list \<Rightarrow> mmu \<Rightarrow> bool \<times> mmu" where
  "mark_loop [] m = (True, m)"
| "mark_loop (idx # is) m =
     (if TABLE_ENTRIES \<le> idx then (False, m)
      else mark_loop is (set_entry (mm_template0 m) idx
             (make_block_desc (word_of_nat idx * BLOCK_SIZE) ATTR_DEVICE PTE_AP_RW_EL1 True) m))"

definition mmu_mark_region_device :: "u64 \<Rightarrow> u64 \<Rightarrow> mmu \<Rightarrow> bool \<times> mmu" where
  "mmu_mark_region_device phys_start size_bytes m =
     (if \<not> mm_enabled m then (False, m)
      else if mm_template0 m = 0 then (False, m)
      else if size_bytes = 0 then (False, m)
      else let start = align_down_u64 phys_start BLOCK_SIZE; stop = align_up_u64 (phys_start + size_bytes) BLOCK_SIZE
        in if stop \<le> start then (False, m)
        else mark_loop [unat (start div BLOCK_SIZE)..<unat (stop div BLOCK_SIZE)] m)"

subsection \<open>The walk\<close>

record mapping =
  mp_pa :: u64
  mp_el0 :: bool
  mp_device :: bool

definition walk :: "(u64 \<Rightarrow> nat \<Rightarrow> u64) \<Rightarrow> u64 \<Rightarrow> u64 \<Rightarrow> mapping option" where
  "walk tabs root va =
     (let e1 = tabs root (unat va div 0x40000000 mod 512)
      in if 2 ^ 39 \<le> va \<or> e1 AND 3 \<noteq> 3 then None
      else let e2 = tabs (e1 AND 0x0000FFFFFFFFF000) (unat va div 0x200000 mod 512)
        in if e2 AND 3 \<noteq> 1 then None
        else Some \<lparr>mp_pa = (e2 AND 0x0000FFFFFFE00000) + word_of_nat (unat va mod 0x200000),
               mp_el0 = (e2 AND 0xC0 = 0x40), mp_device = (e2 AND 0x1C = 4)\<rparr>)"

subsection \<open>Descriptors\<close>

lemma masked_or:
  fixes x M c k :: u64
  assumes "M AND k = 0"
  shows "((x AND M) OR c) AND k = c AND k"
  using assms by (simp add: bit.conj_disj_distrib2 and.assoc)

lemma masked_same:
  fixes x M c :: u64
  assumes "c AND M = 0"
  shows "((x AND M) OR c) AND M = x AND M"
  using assms by (simp add: bit.conj_disj_distrib2 and.assoc)

lemma page_mask: "(0x0000FFFFFFFFF000 :: u64) = mask 48 AND NOT (mask 12)"
  "(0x0000FFFFFFE00000 :: u64) = mask 48 AND NOT (mask 21)"
  by (simp_all add: mask_eq_exp_minus_1)

lemma masked_id:
  assumes "unat (x :: u64) < 2 ^ 48" and "2 ^ n dvd unat x"
  shows "x AND (mask 48 AND NOT (mask n)) = x"
proof -
  have "take_bit 48 x = x"
    using assms(1) by (simp add: word_unat_eq_iff unsigned_take_bit_eq take_bit_nat_eq_self)
  moreover have "unat (take_bit n x) = 0"
    using assms(2) by (simp add: unsigned_take_bit_eq) (simp add: take_bit_eq_mod)
  then have "take_bit n x = 0" by (simp add: unat_eq_0)
  moreover have "x AND (mask 48 AND NOT (mask n)) = take_bit 48 x AND NOT (mask n)"
    by (simp only: take_bit_eq_mask and.assoc)
  ultimately show ?thesis
    by (simp add: and_not_mask_take_bit)
qed

lemma table_desc:
  assumes "unat pa < 2 ^ 48" and "4096 dvd unat pa"
  shows "make_table_desc pa AND 3 = 3" and "make_table_desc pa AND 0x0000FFFFFFFFF000 = pa"
proof -
  have "pa AND 0x0000FFFFFFFFF000 = pa"
    using masked_id [of pa 12] assms by (simp add: page_mask(1) [symmetric])
  then show "make_table_desc pa AND 0x0000FFFFFFFFF000 = pa"
    using masked_same [of 3 "0x0000FFFFFFFFF000" pa] by (simp only: make_table_desc_def) simp
  show "make_table_desc pa AND 3 = 3"
    unfolding make_table_desc_def by (subst masked_or) simp_all
qed

text \<open>What the walk needs from a block descriptor for physical block \<open>pa\<close>.\<close>

definition maps_block :: "u64 \<Rightarrow> bool \<Rightarrow> u64 \<Rightarrow> bool" where
  "maps_block e el0 pa \<longleftrightarrow> e AND 3 = 1 \<and> e AND 0x0000FFFFFFE00000 = pa \<and> (e AND 0xC0 = 0x40 \<longleftrightarrow> el0)"

lemma block_desc:
  assumes "unat pa < 2 ^ 48" and "0x200000 dvd unat pa"
    and "attr = ATTR_NORMAL \<or> attr = ATTR_DEVICE" and "ap = PTE_AP_RW_EL1 \<or> ap = PTE_AP_RW_EL0"
  shows "maps_block (make_block_desc pa attr ap dev) (ap = PTE_AP_RW_EL0) pa"
proof -
  define c where "c = 1 OR PTE_AF OR ap OR push_bit 2 attr OR
      (if dev then PTE_SH_NONE OR (PTE_PXN OR PTE_UXN) else PTE_SH_INNER)"
  have d: "make_block_desc pa attr ap dev = (pa AND 0x0000FFFFFFE00000) OR c"
    unfolding make_block_desc_def c_def by (simp add: or.assoc)
  have c: "c AND 0x0000FFFFFFE00000 = 0" "c AND 3 = 1" "c AND 0xC0 = ap AND 0xC0"
    using assms(3,4) by (auto simp: c_def ATTR_NORMAL_def ATTR_DEVICE_def PTE_AP_RW_EL1_def PTE_AP_RW_EL0_def
        PTE_AF_def PTE_SH_NONE_def PTE_SH_INNER_def PTE_PXN_def PTE_UXN_def)
  have m: "(0x0000FFFFFFE00000 :: u64) AND 3 = 0" "(0x0000FFFFFFE00000 :: u64) AND 0xC0 = 0"
    by simp_all
  have "pa AND 0x0000FFFFFFE00000 = pa"
    using masked_id [of pa 21] assms(1,2) by (simp add: page_mask(2) [symmetric])
  then have "make_block_desc pa attr ap dev AND 0x0000FFFFFFE00000 = pa"
    using masked_same [OF c(1), of pa] by (simp only: d)
  moreover have "make_block_desc pa attr ap dev AND 3 = 1" "make_block_desc pa attr ap dev AND 0xC0 = ap AND 0xC0"
    by (simp_all only: d masked_or [OF m(1)] masked_or [OF m(2)] c)
  ultimately show ?thesis
    using assms(4) by (auto simp: maps_block_def PTE_AP_RW_EL1_def PTE_AP_RW_EL0_def)
qed

subsection \<open>Walking a table of blocks\<close>

text \<open>Block number \<open>k\<close> of the first 2 GiB under two second-level tables \<open>a\<close> and \<open>b\<close>.\<close>

definition blk :: "(u64 \<Rightarrow> nat \<Rightarrow> u64) \<Rightarrow> u64 \<Rightarrow> u64 \<Rightarrow> nat \<Rightarrow> u64" where
  "blk tabs a b k = (if k < 512 then tabs a k else tabs b (k - 512))"

definition block_pa :: "nat \<Rightarrow> u64" where
  "block_pa k = word_of_nat k * BLOCK_SIZE"

lemma block_pa_high: "512 \<le> k \<Longrightarrow> 0x40000000 + word_of_nat (k - 512) * BLOCK_SIZE = block_pa k"
  by (simp add: block_pa_def BLOCK_SIZE_def algebra_simps)

lemma unat_block_pa: "k < 1024 \<Longrightarrow> unat (block_pa k) = k * 0x200000"
  by (simp add: block_pa_def BLOCK_SIZE_def unat_word_ariths)

lemma block_pa_split: "block_pa (unat va div 0x200000) + word_of_nat (unat va mod 0x200000) = va"
proof -
  have "block_pa (unat va div 0x200000) + word_of_nat (unat va mod 0x200000) =
      word_of_nat (unat va div 0x200000 * 0x200000 + unat va mod 0x200000)"
    unfolding of_nat_add of_nat_mult by (simp add: block_pa_def BLOCK_SIZE_def del: of_nat_div of_nat_mod)
  also have "\<dots> = va" by (simp only: div_mult_mod_eq) simp
  finally show ?thesis .
qed

definition two_level :: "(u64 \<Rightarrow> nat \<Rightarrow> u64) \<Rightarrow> u64 \<Rightarrow> (nat \<Rightarrow> bool) \<Rightarrow> (nat \<Rightarrow> u64) \<Rightarrow> bool" where
  "two_level tabs root el0 target \<longleftrightarrow> (\<exists>a b. tabs root 0 = make_table_desc a \<and> tabs root 1 = make_table_desc b \<and>
     (\<forall>i. 2 \<le> i \<and> i < 512 \<longrightarrow> tabs root i = 0) \<and>
     unat a < 2 ^ 48 \<and> 4096 dvd unat a \<and> unat b < 2 ^ 48 \<and> 4096 dvd unat b \<and>
     (\<forall>k < 1024. maps_block (blk tabs a b k) (el0 k) (target k)))"

lemma walk_two_level:
  assumes "two_level tabs root el0 target"
  shows "unat va < 2 ^ 31 \<Longrightarrow> \<exists>w. walk tabs root va = Some w \<and>
      mp_pa w = target (unat va div 0x200000) + word_of_nat (unat va mod 0x200000) \<and>
      mp_el0 w = el0 (unat va div 0x200000)"
    and "2 ^ 31 \<le> unat va \<Longrightarrow> walk tabs root va = None"
proof -
  obtain a b where t: "tabs root 0 = make_table_desc a" "tabs root 1 = make_table_desc b"
      "\<And>i. 2 \<le> i \<Longrightarrow> i < 512 \<Longrightarrow> tabs root i = 0"
      "unat a < 2 ^ 48" "4096 dvd unat a" "unat b < 2 ^ 48" "4096 dvd unat b"
    and bl: "\<And>k. k < 1024 \<Longrightarrow> maps_block (blk tabs a b k) (el0 k) (target k)"
    using assms by (auto simp: two_level_def)
  show "\<exists>w. walk tabs root va = Some w \<and>
      mp_pa w = target (unat va div 0x200000) + word_of_nat (unat va mod 0x200000) \<and>
      mp_el0 w = el0 (unat va div 0x200000)" if va: "unat va < 2 ^ 31"
  proof -
    let ?k = "unat va div 0x200000" and ?i = "unat va div 0x40000000"
    have k: "?k < 1024" "?i = ?k div 512" "?k div 512 < 2" using va by (auto simp: div_mult2_eq [symmetric])
    have m: "maps_block (blk tabs a b ?k) (el0 ?k) (target ?k)" by (rule bl [OF k(1)])
    have small: "\<not> 2 ^ 39 \<le> va" using va by (simp add: word_le_nat_alt)
    have e2: "tabs (tabs root (?i mod 512) AND 0x0000FFFFFFFFF000) (?k mod 512) = blk tabs a b ?k"
      and e1: "tabs root (?i mod 512) AND 3 = 3"
    proof -
      have "?k div 512 = 0 \<or> ?k div 512 = 1" using k(3) by auto
      then show "tabs (tabs root (?i mod 512) AND 0x0000FFFFFFFFF000) (?k mod 512) = blk tabs a b ?k"
        and "tabs root (?i mod 512) AND 3 = 3"
        using k t table_desc [OF t(4,5)] table_desc [OF t(6,7)]
        by (auto simp: blk_def k(2) div_eq_0_iff mod_if)
    qed
    show ?thesis
      using m small unfolding walk_def Let_def e1 e2 by (simp add: maps_block_def)
  qed
  show "walk tabs root va = None" if "2 ^ 31 \<le> unat va"
  proof (cases "2 ^ 39 \<le> va")
    case False
    then have "unat va < 2 ^ 39" by (simp add: word_le_nat_alt)
    then have "unat va div 0x40000000 < 512" "2 \<le> unat va div 0x40000000"
      using that by auto
    then show ?thesis
      using t(3) [of "unat va div 0x40000000"] by (simp add: walk_def)
  qed (simp add: walk_def)
qed

text \<open>With the user region as the only block open to user code, the walk is \<open>user_pa\<close>.\<close>

lemma user_block:
  "unat va div 0x200000 = 2 \<longleftrightarrow> USER_REGION_BASE \<le> va \<and> va < USER_REGION_END"
  by (auto simp: word_le_nat_alt word_less_nat_alt user_region_nat)

lemma walk_user_pa:
  assumes "two_level tabs root (\<lambda>k. k = 2) (block_pa(2 := ub))" and "unat va < 2 ^ 31"
  shows "\<exists>w. walk tabs root va = Some w \<and> mp_pa w = user_pa ub va \<and>
    (mp_el0 w \<longleftrightarrow> USER_REGION_BASE \<le> va \<and> va < USER_REGION_END)"
proof -
  obtain w where w: "walk tabs root va = Some w"
      "mp_pa w = (block_pa(2 := ub)) (unat va div 0x200000) + word_of_nat (unat va mod 0x200000)"
      "mp_el0 w \<longleftrightarrow> unat va div 0x200000 = 2"
    using walk_two_level(1) [OF assms] by blast
  have "mp_pa w = user_pa ub va"
  proof (cases "unat va div 0x200000 = 2")
    case True
    then have "va - USER_REGION_BASE = word_of_nat (unat va mod 0x200000)"
      using block_pa_split [of va] by (simp add: block_pa_def BLOCK_SIZE_def USER_REGION_BASE_def algebra_simps)
    then show ?thesis using w(2) True user_block [of va] by (simp add: user_pa_def)
  next
    case False
    then have "\<not> (USER_REGION_BASE \<le> va \<and> va < USER_REGION_END)" using user_block [of va] by blast
    then show ?thesis using w(2) False block_pa_split [of va] by (simp only: user_pa_def fun_upd_apply if_False)
  qed
  then show ?thesis using w user_block [of va] by auto
qed


subsection \<open>The identity map\<close>

lemma low_desc_maps: "i < 512 \<Longrightarrow> maps_block (low_desc i) (i = 2) (block_pa i)"
proof -
  assume i: "i < 512"
  have u: "unat (block_pa i) = i * 0x200000" using i by (simp add: unat_block_pa)
  have eq: "block_pa i = USER_REGION_BASE \<longleftrightarrow> i = 2"
    using u by (auto simp: USER_REGION_BASE_def word_unat_eq_iff)
  have "\<not> is_periph USER_REGION_BASE"
    by (simp add: is_periph_def PERIPH_BASE_def USER_REGION_BASE_def)
  then have "low_desc i = make_block_desc (block_pa i) (if is_periph (block_pa i) then ATTR_DEVICE else ATTR_NORMAL)
      (if i = 2 then PTE_AP_RW_EL0 else PTE_AP_RW_EL1) (is_periph (block_pa i))"
    using eq by (auto simp: low_desc_def Let_def block_pa_def)
  moreover have "maps_block (make_block_desc (block_pa i) (if is_periph (block_pa i) then ATTR_DEVICE else ATTR_NORMAL)
      (if i = 2 then PTE_AP_RW_EL0 else PTE_AP_RW_EL1) (is_periph (block_pa i)))
      ((if i = 2 then PTE_AP_RW_EL0 else PTE_AP_RW_EL1) = PTE_AP_RW_EL0) (block_pa i)"
    using u i by (intro block_desc) auto
  ultimately show ?thesis
    by (auto simp: PTE_AP_RW_EL0_def PTE_AP_RW_EL1_def split: if_splits)
qed

lemma high_desc_maps:
  assumes "512 \<le> k" and "k < 1024"
  shows "maps_block (high_desc (k - 512)) False (block_pa k)"
proof -
  have "high_desc (k - 512) = make_block_desc (block_pa k) (if is_periph (block_pa k) then ATTR_DEVICE else ATTR_NORMAL)
      PTE_AP_RW_EL1 (is_periph (block_pa k))"
    by (simp only: high_desc_def Let_def block_pa_high [OF assms(1)])
  moreover have "maps_block (make_block_desc (block_pa k) (if is_periph (block_pa k) then ATTR_DEVICE else ATTR_NORMAL)
      PTE_AP_RW_EL1 (is_periph (block_pa k))) (PTE_AP_RW_EL1 = PTE_AP_RW_EL0) (block_pa k)"
    using unat_block_pa [OF assms(2)] assms(2) by (intro block_desc) auto
  ultimately show ?thesis
    by (simp add: PTE_AP_RW_EL0_def PTE_AP_RW_EL1_def)
qed

text \<open>The condition on the templates that \<open>mmu_init_identity\<close> establishes.\<close>

definition templates_ok :: "mmu \<Rightarrow> pmm \<Rightarrow> bool" where
  "templates_ok m p \<longleftrightarrow> mm_template0 m \<noteq> 0 \<and> mm_template1 m \<noteq> 0 \<and>
     mm_template0 m \<notin> page_set p \<and> mm_template1 m \<notin> page_set p \<and>
     (\<forall>k < 1024. maps_block (blk (mm_tabs m) (mm_template0 m) (mm_template1 m) k) (k = 2) (block_pa k))"

text \<open>All memory is below \<open>2^48\<close>, the reach of a descriptor.\<close>

definition pool_ok :: "pmm \<Rightarrow> bool" where
  "pool_ok p \<longleftrightarrow> pmm_usable p \<and> unat (pm_base p) + pm_total p * 4096 \<le> 2 ^ 48"

lemma pool_page:
  assumes "pool_ok p" and "t \<in> page_set p"
  shows "unat t < 2 ^ 48" and "4096 dvd unat t" and "t \<noteq> 0"
proof -
  obtain i where i: "i < pm_total p" "t = page_addr p i"
    using assms(2) by (auto simp: page_set_def free_pages_def)
  have ok: "pmm_ok p" "0 \<notin> page_set p" using assms(1) by (simp_all add: pool_ok_def pmm_usable_def)
  have u: "unat t = unat (pm_base p) + i * 4096"
    using unat_page_addr [OF ok(1), of i] i by simp
  show "unat t < 2 ^ 48" using u i(1) assms(1) by (simp add: pool_ok_def)
  show "4096 dvd unat t" using u ok(1) by (auto simp: pmm_ok_def mod_0_imp_dvd)
  show "t \<noteq> 0" using assms(2) ok(2) by blast
qed

lemma alloc_table_page_spec:
  assumes "pool_ok p" and "alloc_table_page (m, p) = (t, m', p')"
  shows "t = 0 \<and> m' = m \<and> p' = p \<or>
    t \<noteq> 0 \<and> t \<in> page_set p \<and> page_set p' = page_set p - {t} \<and> pool_ok p' \<and>
    m' = m\<lparr>mm_tabs := (mm_tabs m)(t := (\<lambda>_. 0))\<rparr>"
proof -
  have ok: "pmm_ok p" "pmm_usable p" "0 \<notin> page_set p"
    using assms(1) by (simp_all add: pool_ok_def pmm_usable_def)
  consider "pmm_alloc_page p = (0, p)"
    | i q where "pmm_alloc_page p = (page_addr p i, q)" "i \<in> free_pages p" "same_range p q"
    using pmm_alloc_page_spec [OF ok(1)] by blast
  then show ?thesis
  proof cases
    case 1
    then show ?thesis using assms(2) by (simp add: alloc_table_page_def)
  next
    case 2
    have t: "page_addr p i \<in> page_set p" using 2(2) by (simp add: page_set_def)
    then have nz: "page_addr p i \<noteq> 0" using ok(3) by auto
    then have "unit_alloc Page p = Some ((Page, page_addr p i), q)"
      using 2(1) by simp
    from usable_alloc [OF ok(2) this] have "pmm_usable q" "page_set q = page_set p - {page_addr p i}"
      by simp_all
    then show ?thesis
      using assms 2 t nz by (auto simp: alloc_table_page_def pool_ok_def same_range_def)
  qed
qed


text \<open>Three table pages in a row: distinct, from the pool, and zeroed.\<close>

lemma alloc_three:
  assumes "pool_ok p" and "alloc_table_page (m, p) = (t1, m1, p1)" and "alloc_table_page (m1, p1) = (t2, m2, p2)"
    and "alloc_table_page (m2, p2) = (t3, m3, p3)" and "t1 \<noteq> 0" and "t2 \<noteq> 0" and "t3 \<noteq> 0"
  shows "{t1, t2, t3} \<subseteq> page_set p" and "distinct [t1, t2, t3]" and "page_set p3 = page_set p - {t1, t2, t3}"
    and "pool_ok p3" and "m3 = m\<lparr>mm_tabs := (mm_tabs m)(t1 := (\<lambda>_. 0), t2 := (\<lambda>_. 0), t3 := (\<lambda>_. 0))\<rparr>"
proof -
  have 1: "t1 \<in> page_set p" "page_set p1 = page_set p - {t1}" "pool_ok p1"
      "m1 = m\<lparr>mm_tabs := (mm_tabs m)(t1 := (\<lambda>_. 0))\<rparr>"
    using alloc_table_page_spec [OF assms(1,2)] assms(5) by auto
  have 2: "t2 \<in> page_set p1" "page_set p2 = page_set p1 - {t2}" "pool_ok p2"
      "m2 = m1\<lparr>mm_tabs := (mm_tabs m1)(t2 := (\<lambda>_. 0))\<rparr>"
    using alloc_table_page_spec [OF 1(3) assms(3)] assms(6) by auto
  have 3: "t3 \<in> page_set p2" "page_set p3 = page_set p2 - {t3}" "pool_ok p3"
      "m3 = m2\<lparr>mm_tabs := (mm_tabs m2)(t3 := (\<lambda>_. 0))\<rparr>"
    using alloc_table_page_spec [OF 2(3) assms(4)] assms(7) by auto
  show "{t1, t2, t3} \<subseteq> page_set p" "distinct [t1, t2, t3]" "page_set p3 = page_set p - {t1, t2, t3}" "pool_ok p3"
    "m3 = m\<lparr>mm_tabs := (mm_tabs m)(t1 := (\<lambda>_. 0), t2 := (\<lambda>_. 0), t3 := (\<lambda>_. 0))\<rparr>"
    using 1 2 3 by auto
qed

lemma blk_cong: "tabs a = tabs' a \<Longrightarrow> tabs b = tabs' b \<Longrightarrow> blk tabs a b k = blk tabs' a b k"
  by (simp add: blk_def)

lemma templates_frame [simp]:
  "mm_template0 (fill_table t f m) = mm_template0 m" "mm_template1 (fill_table t f m) = mm_template1 m"
  "mm_template0 (set_entry t i v m) = mm_template0 m" "mm_template1 (set_entry t i v m) = mm_template1 m"
  by (simp_all add: fill_table_def set_entry_def)

lemma user_index: "unat (drop_bit 21 USER_REGION_BASE AND 0x1FF) = 2"
  by (simp add: USER_REGION_BASE_def)

lemma new_table_blocks:
  assumes tm: "templates_ok m p" and pool: "pool_ok p" and ub: "unat ub < 2 ^ 48"
    and r: "mmu_ttbr0_create_with_user_pa ub (m, p) = (r, m', p')" and nz: "r \<noteq> 0"
  shows "two_level (mm_tabs m') r (\<lambda>k. k = 2) (block_pa(2 := ub))"
    and "\<And>t. t \<notin> page_set p \<Longrightarrow> mm_tabs m' t = mm_tabs m t" and "r \<in> page_set p - page_set p'"
    and "page_set p' \<subseteq> page_set p" and "pool_ok p'" and "templates_ok m' p'"
proof -
  have t0: "mm_template0 m \<noteq> 0" "mm_template1 m \<noteq> 0" and al: "ub AND 0x1FFFFF = 0"
    using tm r nz by (auto simp: templates_ok_def mmu_ttbr0_create_with_user_pa_def split: if_splits)
  obtain l1 m1 p1 where 1: "alloc_table_page (m, p) = (l1, m1, p1)" by (metis prod_cases3)
  obtain a m2 p2 where 2: "alloc_table_page (m1, p1) = (a, m2, p2)" by (metis prod_cases3)
  obtain b m3 p3 where 3: "alloc_table_page (m2, p2) = (b, m3, p3)" by (metis prod_cases3)
  have ok: "l1 \<noteq> 0" "a \<noteq> 0" "b \<noteq> 0"
    using r nz t0 al by (auto simp: mmu_ttbr0_create_with_user_pa_def 1 2 3 split: if_splits)
  note al3 = alloc_three [OF pool 1 2 3 ok]
  have tn: "mm_template0 m \<notin> {l1, a, b}" "mm_template1 m \<notin> {l1, a, b}"
    using tm al3(1) by (auto simp: templates_ok_def)
  let ?e = "make_block_desc ub ATTR_NORMAL PTE_AP_RW_EL0 False"
  let ?m1 = "fill_table a (mm_tabs m3 (mm_template0 m)) m3"
  have tm3: "mm_template0 m3 = mm_template0 m" "mm_template1 m3 = mm_template1 m"
    using al3(5) by simp_all
  have eq: "m' = set_entry l1 1 (make_table_desc b) (set_entry l1 0 (make_table_desc a)
      (set_entry a 2 ?e (fill_table b (mm_tabs ?m1 (mm_template1 m)) ?m1)))" and r': "r = l1" "p' = p3"
    using r t0 al ok by (auto simp: mmu_ttbr0_create_with_user_pa_def 1 2 3 Let_def user_index tm3)
  have d: "l1 \<noteq> a" "l1 \<noteq> b" "a \<noteq> b" using al3(2) by auto
  have tabs: "mm_tabs m' = (mm_tabs m3)
      (b := (\<lambda>i. if i < 512 then mm_tabs m3 (mm_template1 m) i else mm_tabs m3 b i),
       a := (\<lambda>i. if i < 512 then mm_tabs m3 (mm_template0 m) i else mm_tabs m3 a i)(2 := ?e),
       l1 := (mm_tabs m3 l1)(0 := make_table_desc a, 1 := make_table_desc b))"
    unfolding eq using d tn by (auto simp: set_entry_def fill_table_def TABLE_ENTRIES_def fun_eq_iff)
  have m3: "mm_tabs m3 t = (if t \<in> {l1, a, b} then (\<lambda>_. 0) else mm_tabs m t)" for t
    using al3(5) by simp
  have m': "mm_tabs m' l1 = (\<lambda>_. 0)(0 := make_table_desc a, 1 := make_table_desc b)"
      "\<And>i. i < 512 \<Longrightarrow> mm_tabs m' a i = (if i = 2 then ?e else mm_tabs m (mm_template0 m) i)"
      "\<And>i. i < 512 \<Longrightarrow> mm_tabs m' b i = mm_tabs m (mm_template1 m) i"
      "\<And>t. t \<notin> {l1, a, b} \<Longrightarrow> mm_tabs m' t = mm_tabs m t"
    using d tn by (simp_all add: tabs m3)
  have tmpl: "mm_template0 m' = mm_template0 m" "mm_template1 m' = mm_template1 m"
    by (simp_all add: eq tm3)
  have "0x200000 dvd unat ub"
  proof -
    have "unat (take_bit 21 ub) = 0"
      using al by (simp add: take_bit_eq_mask mask_eq_exp_minus_1)
    then show ?thesis by (simp add: unsigned_take_bit_eq) (simp add: take_bit_eq_mod dvd_eq_mod_eq_0)
  qed
  then have e: "maps_block ?e True ub"
    using block_desc [of ub ATTR_NORMAL PTE_AP_RW_EL0 False] ub by simp
  have old: "maps_block (blk (mm_tabs m) (mm_template0 m) (mm_template1 m) k) (k = 2) (block_pa k)" if "k < 1024" for k
    using tm that by (simp add: templates_ok_def)
  have new: "maps_block (blk (mm_tabs m') a b k) (k = 2) ((block_pa(2 := ub)) k)" if "k < 1024" for k
    using old [OF that] e m'(2) [of k] m'(3) [of "k - 512"] that by (auto simp: blk_def)
  show "two_level (mm_tabs m') r (\<lambda>k. k = 2) (block_pa(2 := ub))"
    unfolding two_level_def r'
    using m'(1) new al3(1) pool_page [OF pool, of a] pool_page [OF pool, of b]
    by (intro exI [of _ a] exI [of _ b]) auto
  show "mm_tabs m' t = mm_tabs m t" if "t \<notin> page_set p" for t
    using m'(4) [of t] that al3(1) by blast
  show "r \<in> page_set p - page_set p'" "page_set p' \<subseteq> page_set p" "pool_ok p'"
    using al3 r' by auto
  show "templates_ok m' p'"
    using tm tmpl m'(4) [OF tn(1)] m'(4) [OF tn(2)] al3(3) r'(2)
      blk_cong [of "mm_tabs m'" "mm_template0 m" "mm_tabs m" "mm_template1 m"]
    by (auto simp: templates_ok_def)
qed

lemma identity_map:
  assumes pool: "pool_ok p" and off: "\<not> mm_enabled m"
    and r: "mmu_init_identity ram_base ram_size (m, p) = (m', p')" and on: "mm_enabled m'"
  shows "two_level (mm_tabs m') (mm_ttbr0 m') (\<lambda>k. k = 2) block_pa"
    and "templates_ok m' p'" and "pool_ok p'" and "page_set p' \<subseteq> page_set p"
proof -
  have rng: "\<not> align_up_u64 (ram_base + ram_size) BLOCK_SIZE \<le> align_down_u64 ram_base BLOCK_SIZE"
    using r off on by (auto simp: mmu_init_identity_def split: if_splits)
  obtain l1 m1 p1 where 1: "alloc_table_page (m, p) = (l1, m1, p1)" by (metis prod_cases3)
  obtain h m2 p2 where 2: "alloc_table_page (m1, p1) = (h, m2, p2)" by (metis prod_cases3)
  obtain a m3 p3 where 3: "alloc_table_page (m2, p2) = (a, m3, p3)" by (metis prod_cases3)
  obtain b m4 p4 where 4: "alloc_table_page (m3, p3) = (b, m4, p4)" by (metis prod_cases3)
  have "\<not> mm_enabled m4"
    using off alloc_table_page_def 1 2 3 4 by (auto simp: alloc_table_page_def split: if_splits prod.splits)
  then have ok: "l1 \<noteq> 0" "h \<noteq> 0" "a \<noteq> 0" "b \<noteq> 0"
    using r rng on off by (auto simp: mmu_init_identity_def 1 2 3 4 split: if_splits)
  note al3 = alloc_three [OF pool 1 2 3 ok(1-3)]
  have al4: "b \<in> page_set p3" "page_set p4 = page_set p3 - {b}" "pool_ok p4"
      "m4 = m3\<lparr>mm_tabs := (mm_tabs m3)(b := (\<lambda>_. 0))\<rparr>"
    using alloc_table_page_spec [OF al3(4) 4] ok(4) by auto
  have d: "l1 \<noteq> h" "l1 \<noteq> a" "h \<noteq> a" "b \<noteq> l1" "b \<noteq> h" "b \<noteq> a"
    using al3(2,3) al4(1) by auto
  have eq: "mm_tabs m' = mm_tabs (fill_table b high_desc (fill_table a low_desc
      (set_entry h 257 (make_table_desc b) (set_entry h 256 (make_table_desc a)
        (set_entry l1 1 (make_table_desc b) (set_entry l1 0 (make_table_desc a) m4))))))"
    and r': "mm_ttbr0 m' = l1" "mm_template0 m' = a" "mm_template1 m' = b" "p' = p4"
    using r rng ok off by (auto simp: mmu_init_identity_def 1 2 3 4 Let_def)
  have m4: "mm_tabs m4 l1 = (\<lambda>_. 0)" using al3(5) al4(4) d by simp
  have tabs: "mm_tabs m' l1 = (\<lambda>_. 0)(0 := make_table_desc a, 1 := make_table_desc b)"
      "\<And>i. i < 512 \<Longrightarrow> mm_tabs m' a i = low_desc i" "\<And>i. i < 512 \<Longrightarrow> mm_tabs m' b i = high_desc i"
    unfolding eq using d m4 by (auto simp: set_entry_def fill_table_def TABLE_ENTRIES_def)
  have bl: "maps_block (blk (mm_tabs m') a b k) (k = 2) (block_pa k)" if "k < 1024" for k
    using that low_desc_maps [of k] high_desc_maps [of k] tabs(2) [of k] tabs(3) [of "k - 512"]
    by (cases "k < 512") (auto simp: blk_def)
  have pg: "a \<in> page_set p" "b \<in> page_set p" using al3(1,3) al4(1) by auto
  show "two_level (mm_tabs m') (mm_ttbr0 m') (\<lambda>k. k = 2) block_pa"
    unfolding two_level_def r'
    using tabs(1) bl pool_page [OF pool pg(1)] pool_page [OF pool pg(2)]
    by (intro exI [of _ a] exI [of _ b]) auto
  show "templates_ok m' p'"
    using bl ok al3(3) al4(2) by (auto simp: templates_ok_def r')
  show "pool_ok p'" "page_set p' \<subseteq> page_set p" using al3(3) al4 r'(4) by auto
qed

text \<open>C26: \<open>mmu_init_identity\<close> installs a table that maps every address of the first 2 GiB to
  itself, with the user region as the only part open to user code, and leaves templates and a page
  pool with which every later \<open>mmu_ttbr0_create_with_user_pa\<close> makes a table that translates as the
  rest of the kernel assumes: the user region to the process' own block, every other address of
  the first 2 GiB to itself, nothing above; user code reaches that block and nothing else. A table
  is made of free pages, so the tables of other processes keep their entries.\<close>

theorem address_spaces:
  assumes "pool_ok p" and "\<not> mm_enabled m" and "mmu_init_identity ram_base ram_size (m, p) = (m1, p1)"
    and "mm_enabled m1" and "unat ub < 2 ^ 48"
    and "templates_ok m2 p2" and "pool_ok p2"
    and "mmu_ttbr0_create_with_user_pa ub (m2, p2) = (r, m3, p3)" and "r \<noteq> 0"
  shows "templates_ok m1 p1 \<and> pool_ok p1 \<and> templates_ok m3 p3 \<and> pool_ok p3 \<and>
    (unat va < 2 ^ 31 \<longrightarrow>
      (\<exists>w. walk (mm_tabs m1) (mm_ttbr0 m1) va = Some w \<and> mp_pa w = va \<and>
        (mp_el0 w \<longleftrightarrow> USER_REGION_BASE \<le> va \<and> va < USER_REGION_END)) \<and>
      (\<exists>w. walk (mm_tabs m3) r va = Some w \<and> mp_pa w = user_pa ub va \<and>
        (mp_el0 w \<longleftrightarrow> USER_REGION_BASE \<le> va \<and> va < USER_REGION_END) \<and> (mp_el0 w \<longrightarrow> mp_pa w \<in> block ub))) \<and>
    (2 ^ 31 \<le> unat va \<longrightarrow> walk (mm_tabs m1) (mm_ttbr0 m1) va = None \<and> walk (mm_tabs m3) r va = None) \<and>
    (t \<notin> page_set p2 \<longrightarrow> mm_tabs m3 t = mm_tabs m2 t) \<and> r \<in> page_set p2 - page_set p3"
proof -
  note im = identity_map [OF assms(1-4)]
  note nt = new_table_blocks [OF assms(6,7,5,8,9)]
  have "\<exists>w. walk (mm_tabs m1) (mm_ttbr0 m1) va = Some w \<and> mp_pa w = va \<and>
      (mp_el0 w \<longleftrightarrow> USER_REGION_BASE \<le> va \<and> va < USER_REGION_END)" if va: "unat va < 2 ^ 31"
    using walk_two_level(1) [OF im(1) va] by (simp only: block_pa_split user_block) 
  moreover have "\<exists>w. walk (mm_tabs m3) r va = Some w \<and> mp_pa w = user_pa ub va \<and>
      (mp_el0 w \<longleftrightarrow> USER_REGION_BASE \<le> va \<and> va < USER_REGION_END) \<and> (mp_el0 w \<longrightarrow> mp_pa w \<in> block ub)"
    if va: "unat va < 2 ^ 31"
    using walk_user_pa [OF nt(1) va] user_pa_in_block [of va ub] by auto
  ultimately show ?thesis
    using walk_two_level(2) [OF im(1), of va] walk_two_level(2) [OF nt(1), of va] im(2,3) nt(2) [of t] nt(3,5,6)
    by (intro conjI impI) simp_all
qed

text \<open>A pool of seven pages: four for the identity map and three for a process.\<close>

definition tiny_pool :: pmm where
  "tiny_pool = \<lparr>pm_bitmap = 0 # replicate (PMM_BITMAP_BYTES - 1) 0, pm_base = 0x1000000, pm_size = 0x7000,
     pm_total = 7, pm_free = 7\<rparr>"

definition mmu_off :: mmu where
  "mmu_off = \<lparr>mm_tabs = (\<lambda>_ _. 0), mm_template0 = 0, mm_template1 = 0, mm_ttbr0 = 0, mm_ttbr1 = 0,
     mm_enabled = False\<rparr>"

lemma tiny_pool_ok: "pool_ok tiny_pool"
proof -
  have "bit_test i (pm_bitmap tiny_pool) = False" if "i < 7" for i
    using that by (simp add: bit_test_def tiny_pool_def)
  then have "free_pages tiny_pool = {..<7}" by (auto simp: free_pages_def tiny_pool_def)
  then have f: "free_pages tiny_pool = {..<7}" .
  have "pmm_ok tiny_pool"
    unfolding pmm_ok_def f by (simp add: tiny_pool_def PMM_BITMAP_BYTES_def PMM_MAX_PAGES_def)
  moreover have "unat (page_addr tiny_pool i) = 0x1000000 + i * 0x1000" if "i < 7" for i
    using that by (simp add: page_addr_def tiny_pool_def PMM_PAGE_SIZE_def unat_word_ariths)
  then have "0 \<notin> page_set tiny_pool"
    unfolding page_set_def f by (auto simp: word_unat_eq_iff)
  ultimately show ?thesis
    unfolding pool_ok_def pmm_usable_def by (simp add: tiny_pool_def)
qed

definition tiny_map :: "mmu \<times> pmm" where
  "tiny_map = mmu_init_identity 0 0x3b400000 (mmu_off, tiny_pool)"

definition tiny_proc :: "u64 \<times> mmu \<times> pmm" where
  "tiny_proc = mmu_ttbr0_create_with_user_pa 0x600000 tiny_map"

lemma tiny_bits: "i < 7 \<Longrightarrow> bit_test i (w # ws) \<longleftrightarrow> drop_bit i w AND 1 \<noteq> 0"
  "i < 7 \<Longrightarrow> bit_set i (w # ws) = (w OR push_bit i 1) # ws"
  by (simp_all add: bit_test_def bit_set_def upd_at_def)

lemma upt_7: "[0..<7] = [0, 1, 2, 3, 4, 5, 6 :: nat]"
  by (simp add: upt_rec)

lemma tiny_results:
  "mm_enabled (fst tiny_map)" "fst tiny_proc \<noteq> 0"
  unfolding tiny_proc_def tiny_map_def mmu_init_identity_def mmu_ttbr0_create_with_user_pa_def
  by (simp_all add: mmu_off_def tiny_pool_def alloc_table_page_def pmm_alloc_page_def tiny_bits upt_7
      page_addr_def PMM_PAGE_SIZE_def Let_def align_up_u64_def align_down_u64_def BLOCK_SIZE_def)

lemma address_spaces_witness:
  "\<exists>w. walk (mm_tabs (fst (snd tiny_proc))) (fst tiny_proc) 0x400010 = Some w \<and> mp_pa w = 0x600010 \<and> mp_el0 w"
proof -
  obtain m1 p1 where 1: "tiny_map = (m1, p1)" by (cases tiny_map)
  obtain r m3 p3 where 3: "tiny_proc = (r, m3, p3)" by (metis prod_cases3)
  have ok: "pool_ok tiny_pool" "\<not> mm_enabled mmu_off" "mm_enabled m1" "r \<noteq> 0"
    using tiny_pool_ok tiny_results by (simp_all add: mmu_off_def 1 3)
  note im = identity_map [OF ok(1,2) 1 [unfolded tiny_map_def] ok(3)]
  show ?thesis
    unfolding 3 using address_spaces [OF ok(1,2) 1 [unfolded tiny_map_def] ok(3) _ im(2,3)
        3 [unfolded tiny_proc_def 1] ok(4), where va = "0x400010" and t = 0]
    by (auto simp: user_pa_def USER_REGION_BASE_def USER_REGION_END_def USER_REGION_SIZE_def)
qed

end
