(* ===== verification/Proc.thy ===== *)
theory Proc
  imports Fd UserMem Vfs Paths ConsoleIn Timer Mmu
begin

text \<open>
  \<open>include/proc.h\<close> and \<open>kernel-aarch64/proc.c\<close>: the process table, and the state of the whole
  kernel as one record: the process table with its scheduling variables, the tables of the
  components, physical memory, and the registers that select the running process' memory.
\<close>

definition MAX_PROCS :: nat where
  "MAX_PROCS = 16"

definition MAX_VMAS :: nat where
  "MAX_VMAS = 32"

datatype proc_state =
    PROC_UNUSED | PROC_RUNNABLE | PROC_WAITING | PROC_ZOMBIE | PROC_SLEEPING | PROC_BLOCKED_IO

record trap_frame =
  tf_x :: "u64 list"
  tf_sp_el0 :: u64

record vma =
  vm_used :: bool
  vm_base :: u64
  vm_len :: u64

text \<open>The fields of \<open>proc_t\<close> that record a system call in progress.\<close>

record pending_read =
  pr_on :: bool
  pr_buf :: u64
  pr_len :: u64
  pr_fd :: u64

record pending_udp6 =
  pu_on :: bool
  pu_sock :: nat
  pu_fd :: u64
  pu_buf :: u64
  pu_len :: u64
  pu_src_ip :: u64
  pu_src_port :: u64

record pending_ping6 =
  pg_on :: bool
  pg_done :: bool
  pg_ident :: u16
  pg_seq :: u16
  pg_dst :: "u8 list"
  pg_start :: u64
  pg_rtt :: u64
  pg_rtt_user :: u64
  pg_ret :: u64

record proc =
  p_pid :: u64
  p_ppid :: u64
  p_state :: proc_state
  p_ttbr0 :: u64
  p_user_pa :: u64
  p_heap_base :: u64
  p_heap_end :: u64
  p_stack_low :: u64
  p_cwd :: string
  p_mmap_next :: u64
  p_vmas :: "vma list"
  p_tf :: trap_frame
  p_elr :: u64
  p_exit_code :: u64
  p_clear_child_tid :: u64
  p_wait_pid :: u64
  p_wait_status :: u64
  p_deadline :: u64
  p_read :: pending_read
  p_udp6 :: pending_udp6
  p_ping6 :: pending_ping6
  p_fdt :: fd_table

definition vma_clear :: vma where
  "vma_clear = \<lparr>vm_used = False, vm_base = 0, vm_len = 0\<rparr>"

definition tf_zero :: trap_frame where
  "tf_zero = \<lparr>tf_x = replicate 31 0, tf_sp_el0 = 0\<rparr>"

definition read_clear :: pending_read where
  "read_clear = \<lparr>pr_on = False, pr_buf = 0, pr_len = 0, pr_fd = 0\<rparr>"

definition udp6_clear :: pending_udp6 where
  "udp6_clear = \<lparr>pu_on = False, pu_sock = 0, pu_fd = 0, pu_buf = 0, pu_len = 0, pu_src_ip = 0,
     pu_src_port = 0\<rparr>"

definition ping6_clear :: pending_ping6 where
  "ping6_clear = \<lparr>pg_on = False, pg_done = False, pg_ident = 0, pg_seq = 0, pg_dst = replicate 16 0,
     pg_start = 0, pg_rtt = 0, pg_rtt_user = 0, pg_ret = 0\<rparr>"

definition proc_clear :: proc where
  "proc_clear = \<lparr>p_pid = 0, p_ppid = 0, p_state = PROC_UNUSED, p_ttbr0 = 0, p_user_pa = 0,
     p_heap_base = 0, p_heap_end = 0, p_stack_low = 0, p_cwd = ''/'', p_mmap_next = 0,
     p_vmas = replicate MAX_VMAS vma_clear, p_tf = tf_zero, p_elr = 0, p_exit_code = 0,
     p_clear_child_tid = 0, p_wait_pid = 0, p_wait_status = 0, p_deadline = 0,
     p_read = read_clear, p_udp6 = udp6_clear, p_ping6 = ping6_clear,
     p_fdt = replicate MAX_FDS None\<rparr>"

text \<open>
  \<open>k_user_of\<close> gives, for the root of a translation table, the physical block that the user
  region is mapped to by it; \<open>k_ttbr0\<close> is the table the processor uses.
\<close>

record kernel =
  k_procs :: "proc list"
  k_cur :: nat
  k_last_sched :: nat
  k_next_pid :: u64
  k_fd :: fd_state
  k_vfs :: vfs
  k_pmm :: pmm
  k_mem :: memory
  k_user_of :: "u64 \<Rightarrow> u64"
  k_ttbr0 :: u64
  k_con :: console
  k_timer :: timer
  k_mmu :: mmu
  k_archive :: "u8 list"
  k_rand :: u64

definition set_proc :: "nat \<Rightarrow> (proc \<Rightarrow> proc) \<Rightarrow> kernel \<Rightarrow> kernel" where
  "set_proc i f k = k\<lparr>k_procs := upd_at i f (k_procs k)\<rparr>"

definition cur_proc :: "kernel \<Rightarrow> proc" where
  "cur_proc k = k_procs k ! k_cur k"

definition set_cur :: "(proc \<Rightarrow> proc) \<Rightarrow> kernel \<Rightarrow> kernel" where
  "set_cur f k = set_proc (k_cur k) f k"

text \<open>The physical block user pointers reach at the moment.\<close>

definition user_base :: "kernel \<Rightarrow> u64" where
  "user_base k = k_user_of k (k_ttbr0 k)"

definition mmu_ttbr0_write :: "u64 \<Rightarrow> kernel \<Rightarrow> kernel" where
  "mmu_ttbr0_write t k = k\<lparr>k_ttbr0 := t\<rparr>"

text \<open>The register \<open>x0\<close> of a saved frame is where a system call leaves its result.\<close>

definition set_x0 :: "u64 \<Rightarrow> proc \<Rightarrow> proc" where
  "set_x0 v p = p\<lparr>p_tf := (p_tf p)\<lparr>tf_x := (tf_x (p_tf p))[0 := v]\<rparr>\<rparr>"

definition proc_find_free_slot :: "kernel \<Rightarrow> nat option" where
  "proc_find_free_slot k = find_slot (\<lambda>p. p_state p = PROC_UNUSED) (k_procs k)"

definition proc_close_all_fds :: "nat \<Rightarrow> kernel \<Rightarrow> kernel" where
  "proc_close_all_fds i k =
     (case close_all_fds (p_fdt (k_procs k ! i)) (k_fd k) of
        (t, s) \<Rightarrow> (set_proc i (\<lambda>p. p\<lparr>p_fdt := t\<rparr>) k)\<lparr>k_fd := s\<rparr>)"

text \<open>\<open>proc_init_if_needed\<close>, on its first call: \<open>t0\<close> is the table of the boot address space.\<close>

definition init_uart_fds :: "kernel \<Rightarrow> kernel" where
  "init_uart_fds k =
     (case desc_alloc (k_fd k) of
        (None, s) \<Rightarrow> k\<lparr>k_fd := s\<rparr>
      | (Some d, s) \<Rightarrow>
          let s1 = s\<lparr>fs_descs := upd_at d (\<lambda>_. \<lparr>fd_kind = FDESC_UART, fd_refs = 1\<rparr>) (fs_descs s)\<rparr>;
              s2 = desc_incref d (desc_incref d (desc_incref d s1))
          in (set_proc 0 (\<lambda>p. p\<lparr>p_fdt := (p_fdt p)[0 := Some d, 1 := Some d, 2 := Some d]\<rparr>) k)
               \<lparr>k_fd := desc_decref d s2\<rparr>)"

definition proc_init :: "u64 \<Rightarrow> trap_frame \<Rightarrow> kernel \<Rightarrow> kernel" where
  "proc_init elr tf k =
     (let k1 = k\<lparr>k_fd := fd_init ((k_fd k)\<lparr>fs_pipes := pipe_init (fs_pipes (k_fd k))\<rparr>),
                 k_procs := replicate MAX_PROCS proc_clear, k_vfs := vfs_init (k_vfs k),
                 k_cur := 0, k_last_sched := 0, k_next_pid := k_next_pid k + 1\<rparr>
      in init_uart_fds (set_proc 0 (\<lambda>p. p\<lparr>p_pid := k_next_pid k, p_ppid := 0, p_state := PROC_RUNNABLE,
           p_ttbr0 := k_ttbr0 k, p_user_pa := USER_REGION_BASE, p_heap_base := 0, p_heap_end := 0,
           p_stack_low := tf_sp_el0 tf, p_tf := tf, p_elr := elr\<rparr>) k1))"

subsection \<open>Reading a written process table\<close>

lemma set_proc_other [simp]: "i \<noteq> j \<Longrightarrow> k_procs (set_proc i f k) ! j = k_procs k ! j"
  by (simp add: set_proc_def)

lemma set_proc_same [simp]: "i < length (k_procs k) \<Longrightarrow> k_procs (set_proc i f k) ! i = f (k_procs k ! i)"
  by (simp add: set_proc_def)

lemma set_proc_length [simp]: "length (k_procs (set_proc i f k)) = length (k_procs k)"
  by (simp add: set_proc_def)

lemma set_proc_frame [simp]:
  "k_cur (set_proc i f k) = k_cur k" "k_last_sched (set_proc i f k) = k_last_sched k"
  "k_next_pid (set_proc i f k) = k_next_pid k" "k_fd (set_proc i f k) = k_fd k"
  "k_vfs (set_proc i f k) = k_vfs k" "k_pmm (set_proc i f k) = k_pmm k"
  "k_mem (set_proc i f k) = k_mem k" "k_user_of (set_proc i f k) = k_user_of k"
  "k_ttbr0 (set_proc i f k) = k_ttbr0 k" "k_con (set_proc i f k) = k_con k"
  "k_timer (set_proc i f k) = k_timer k" "k_mmu (set_proc i f k) = k_mmu k"
  "k_archive (set_proc i f k) = k_archive k" "k_rand (set_proc i f k) = k_rand k"
  by (simp_all add: set_proc_def)

lemma set_proc_nth:
  "j < length (k_procs k) \<Longrightarrow> k_procs (set_proc i f k) ! j = (if j = i then f (k_procs k ! i) else k_procs k ! j)"
  by (simp add: set_proc_def nth_upd_at)

subsection \<open>The first process\<close>

text \<open>
  Every table entry of every process is counted, and nothing else is: the condition on file
  descriptors that holds between system calls. A free slot of the process table has no entries.
\<close>

definition proc_tabs :: "kernel \<Rightarrow> fd_table list" where
  "proc_tabs k = map p_fdt (k_procs k)"

definition fds_exact :: "kernel \<Rightarrow> bool" where
  "fds_exact k \<longleftrightarrow> length (k_procs k) = MAX_PROCS \<and> fd_inv no_held (proc_tabs k) (k_fd k) \<and>
     (\<forall>p \<in> set (k_procs k). p_state p = PROC_UNUSED \<longrightarrow> p_fdt p = replicate MAX_FDS None)"

lemma proc_tabs_set_proc:
  "i < length (k_procs k) \<Longrightarrow> proc_tabs (set_proc i f k) = (proc_tabs k)[i := p_fdt (f (k_procs k ! i))]"
  by (simp add: proc_tabs_def set_proc_def upd_at_def map_update)

lemma proc_tabs_small: "length (k_procs k) = MAX_PROCS \<Longrightarrow> fd_small no_held (proc_tabs k)"
  by (simp add: fd_small_def proc_tabs_def MAX_PROCS_def)

text \<open>Before the first process no object exists.\<close>

definition fd_boot :: "fd_state \<Rightarrow> bool" where
  "fd_boot s \<longleftrightarrow> pipes_ok (fs_pipes s) \<and> length (ud_socks (fs_udp s)) = UDP6_SOCKS \<and>
     length (tt_conns (fs_tcp s)) = TCP6_MAX_CONNS \<and>
     (\<forall>x \<in> set (ud_socks (fs_udp s)). \<not> us_used x) \<and> (\<forall>x \<in> set (tt_conns (fs_tcp s)). \<not> tc_used x)"

lemma tab_refs_empty: "tab_refs (replicate n (replicate m None)) i = 0"
  by (induction n) (simp_all add: tab_refs_def count_list_0_iff)

lemma end_refs_cleared: "end_refs k (replicate n desc_cleared) = 0"
  by (induction n) (simp_all add: end_refs_def refs_of_kind_def desc_cleared_def)

lemma fd_init_inv:
  assumes "fd_boot s"
  shows "fd_inv no_held (replicate MAX_PROCS (replicate MAX_FDS None)) (fd_init (s\<lparr>fs_pipes := pipe_init (fs_pipes s)\<rparr>))"
    (is "fd_inv _ _ ?s")
proof -
  have "fd_shape (replicate MAX_PROCS (replicate MAX_FDS None)) ?s"
    using assms pipe_init_ok [of "fs_pipes s"] by (simp add: fd_boot_def fd_shape_def fd_init_def)
  moreover have "ep_count k ?s = None" if "is_ep k" for k
  proof -
    have "pid < MAX_PIPES \<Longrightarrow> \<not> pp_used (pipe_init (fs_pipes s) ! pid)" for pid
      using assms by (simp add: fd_boot_def pipes_ok_def pipe_init_def pipe_reset_def)
    then show ?thesis
      using that assms by (cases k) (auto simp: fd_init_def fd_boot_def split: pipe_end.split)
  qed
  ultimately show ?thesis
    by (auto simp: fd_inv_def tab_refs_empty end_refs_cleared [unfolded desc_cleared_def] fd_init_def desc_cleared_def)
qed

text \<open>Storing the reference that a system call holds in the entries of one table.\<close>

lemma fd_inv_store_two_more:
  assumes inv: "fd_inv held tabs s" and small: "fd_small held tabs" and d: "d < MAX_FILEDESCS"
    and held: "held d = 1" and k: "i < length tabs" and j: "j < MAX_FDS" and free: "tabs ! i ! j = None"
  shows "fd_inv held (tabs[i := (tabs ! i)[j := Some d]]) (desc_incref d s)"
proof -
  have "fd_inv (held(d := Suc (held d))) tabs (desc_incref d s)"
    using held_live [OF inv d] held by (intro desc_incref_inv [OF inv small d]) simp
  from fd_inv_store [OF this k j free d, of "held d"] show ?thesis by simp
qed

lemma no_held_upd: "no_held(d := 0) = no_held"
  by (rule ext) simp

lemma fd_small_update: "fd_small held tabs \<Longrightarrow> fd_small held (tabs[i := t])"
  by (simp add: fd_small_def)

lemma proc_fds_unused: "p_fdt proc_clear = replicate MAX_FDS None"
  by (simp add: proc_clear_def)

definition boot_proc :: "u64 \<Rightarrow> trap_frame \<Rightarrow> kernel \<Rightarrow> proc" where
  "boot_proc elr tf k = proc_clear\<lparr>p_pid := k_next_pid k, p_ppid := 0, p_state := PROC_RUNNABLE,
     p_ttbr0 := k_ttbr0 k, p_user_pa := USER_REGION_BASE, p_heap_base := 0, p_heap_end := 0,
     p_stack_low := tf_sp_el0 tf, p_tf := tf, p_elr := elr\<rparr>"

lemma init_uart_fds_Some:
  assumes "desc_alloc (k_fd k) = (Some d, s)"
  shows "init_uart_fds k = (set_proc 0 (\<lambda>p. p\<lparr>p_fdt := (p_fdt p)[0 := Some d, 1 := Some d, 2 := Some d]\<rparr>) k)
    \<lparr>k_fd := desc_decref d (desc_incref d (desc_incref d (desc_incref d (desc_setup d FDESC_UART s))))\<rparr>"
  by (simp add: init_uart_fds_def assms Let_def desc_setup_def)

text \<open>The process table the kernel starts with: one runnable process, the console open as 0, 1 and 2
through one description with exactly three references, everything else empty.\<close>

lemma boot_procs:
  assumes "fd_boot (k_fd k)"
  shows "fds_exact (proc_init elr tf k) \<and> k_cur (proc_init elr tf k) = 0 \<and>
    p_state (cur_proc (proc_init elr tf k)) = PROC_RUNNABLE \<and>
    (\<forall>i < MAX_PROCS. i \<noteq> 0 \<longrightarrow> p_state (k_procs (proc_init elr tf k) ! i) = PROC_UNUSED) \<and>
    (\<forall>j < MAX_FDS. p_fdt (cur_proc (proc_init elr tf k)) ! j = (if j < 3 then Some 0 else None)) \<and>
    fs_descs (k_fd (proc_init elr tf k)) ! 0 = \<lparr>fd_kind = FDESC_UART, fd_refs = 3\<rparr>"
proof -
  let ?init = "fd_init ((k_fd k)\<lparr>fs_pipes := pipe_init (fs_pipes (k_fd k))\<rparr>)"
  let ?uart = "desc_setup 0 FDESC_UART (snd (desc_alloc ?init))"
  let ?e = "replicate MAX_FDS (None :: nat option)" and ?h = "no_held(0 := 1)"
  have alloc: "desc_alloc ?init = (Some 0, snd (desc_alloc ?init))"
    by (simp add: desc_alloc_def fd_init_def desc_cleared_def MAX_FILEDESCS_def numeral_Bit0 numeral_Bit1)
  have inv0: "fd_inv no_held (replicate MAX_PROCS ?e) ?init"
    by (rule fd_init_inv [OF assms])
  have inv1: "fd_inv ?h (replicate MAX_PROCS ?e) ?uart"
    using fd_open_inv [OF inv0 alloc, of FDESC_UART] by simp
  have tabs: "replicate MAX_PROCS ?e = (replicate MAX_PROCS ?e)[0 := ?e]"
    by (simp add: MAX_PROCS_def numeral_Bit0)
  have small: "fd_small ?h (replicate MAX_PROCS t)" for t
    by (simp add: fd_small_def MAX_PROCS_def)
  have n: "0 < MAX_PROCS" "0 < MAX_FILEDESCS" "0 < MAX_FDS" "1 < MAX_FDS" "2 < MAX_FDS"
    by (simp_all add: MAX_PROCS_def MAX_FILEDESCS_def MAX_FDS_def)
  let ?ta = "?e[0 := Some 0]" and ?tb = "?e[0 := Some 0, 1 := Some 0]"
    and ?tc = "?e[0 := Some 0, 1 := Some 0, 2 := Some (0::nat)]"
  let ?tabs = "\<lambda>t. (replicate MAX_PROCS ?e)[0 := t]"
  have inv2: "fd_inv ?h (?tabs ?ta) (desc_incref 0 ?uart)"
    using fd_inv_store_two_more [OF inv1 small, of 0 0 0] n by simp
  have inv3: "fd_inv ?h (?tabs ?tb) (desc_incref 0 (desc_incref 0 ?uart))"
    using fd_inv_store_two_more [OF inv2 fd_small_update [OF small], of 0 0 1] n by simp
  have inv4: "fd_inv ?h (?tabs ?tc) (desc_incref 0 (desc_incref 0 (desc_incref 0 ?uart)))"
    using fd_inv_store_two_more [OF inv3 fd_small_update [OF small], of 0 0 2] n by simp
  let ?s = "desc_decref 0 (desc_incref 0 (desc_incref 0 (desc_incref 0 ?uart)))"
  have inv5: "fd_inv no_held (?tabs ?tc) ?s"
    using desc_decref_inv [OF inv4 n(2), of 0] by (simp add: no_held_upd)
  have d1: "fs_descs ?uart ! 0 = \<lparr>fd_kind = FDESC_UART, fd_refs = 1\<rparr>"
    using desc_setup_alloc [OF alloc] n(2) by (simp add: fd_init_def)
  have len1: "length (fs_descs ?uart) = MAX_FILEDESCS"
    using inv1 by (simp add: fd_inv_def fd_shape_def)
  have d: "fs_descs ?s ! 0 = \<lparr>fd_kind = FDESC_UART, fd_refs = 3\<rparr>"
    using d1 len1 n(2) by (simp add: desc_incref_def desc_decref_def hook_incref_def hook_decref_def
        Let_def desc_bump_def desc_drop_def)
  let ?ka = "k\<lparr>k_fd := ?init, k_procs := replicate MAX_PROCS proc_clear, k_vfs := vfs_init (k_vfs k),
      k_cur := 0, k_last_sched := 0, k_next_pid := k_next_pid k + 1\<rparr>"
  let ?kb = "set_proc 0 (\<lambda>p. p\<lparr>p_pid := k_next_pid k, p_ppid := 0, p_state := PROC_RUNNABLE,
      p_ttbr0 := k_ttbr0 k, p_user_pa := USER_REGION_BASE, p_heap_base := 0, p_heap_end := 0,
      p_stack_low := tf_sp_el0 tf, p_tf := tf, p_elr := elr\<rparr>) ?ka"
  have procs2: "k_procs ?kb = (replicate MAX_PROCS proc_clear)[0 := boot_proc elr tf k]"
    using n(1) by (simp add: set_proc_def upd_at_def boot_proc_def)
  have alloc2: "desc_alloc (k_fd ?kb) = (Some 0, snd (desc_alloc ?init))"
    using alloc by simp
  have k: "proc_init elr tf k = (set_proc 0 (\<lambda>p. p\<lparr>p_fdt := (p_fdt p)[0 := Some 0, 1 := Some 0, 2 := Some 0]\<rparr>) ?kb)
      \<lparr>k_fd := ?s\<rparr>"
    unfolding proc_init_def Let_def by (rule init_uart_fds_Some [OF alloc2])
  have procs: "k_procs (proc_init elr tf k) = (replicate MAX_PROCS proc_clear)[0 := (boot_proc elr tf k)\<lparr>p_fdt := ?tc\<rparr>]"
    unfolding k using procs2 n(1)
    by (simp add: set_proc_def [of _ _ ?kb] upd_at_def boot_proc_def proc_fds_unused)
  moreover have "k_fd (proc_init elr tf k) = ?s"
    unfolding k by simp
  moreover have "k_cur (proc_init elr tf k) = 0"
    unfolding k by simp
  moreover have "proc_tabs (proc_init elr tf k) = ?tabs ?tc"
    by (simp add: proc_tabs_def procs map_update proc_fds_unused)
  ultimately show ?thesis
    using inv5 d n by (auto simp: fds_exact_def cur_proc_def boot_proc_def proc_clear_def nth_list_update
        MAX_FDS_def less_Suc_eq in_set_conv_nth)
qed

text \<open>The static variables of the kernel before any code ran, with an empty page bitmap.\<close>

definition kernel_bss :: kernel where
  "kernel_bss = \<lparr>k_procs = [], k_cur = 0, k_last_sched = 0, k_next_pid = 1,
     k_fd = \<lparr>fs_descs = [], fs_pipes = pipes_zero,
       fs_udp = \<lparr>ud_socks = replicate UDP6_SOCKS \<lparr>us_used = False, us_refs = 0, us_bound = False,
           us_bound_port = 0, us_q_head = 0, us_q_tail = 0, us_q_count = 0, us_q = []\<rparr>, ud_next = 0\<rparr>,
       fs_tcp = \<lparr>tt_conns = replicate TCP6_MAX_CONNS \<lparr>tc_used = False, tc_state = TCP6_CLOSED, tc_refs = 0,
           tc_local_port = 0, tc_remote_port = 0, tc_remote_ip = replicate 16 0, tc_iss = 0,
           tc_snd_una = 0, tc_snd_nxt = 0, tc_irs = 0, tc_rcv_nxt = 0, tc_rx = [], tc_rx_head = 0,
           tc_rx_tail = 0, tc_rx_count = 0, tc_last_syn_tx_ns = 0\<rparr>, tt_ephemeral = 0\<rparr>\<rparr>,
     k_vfs = \<lparr>vs_dirs = [], vs_files = [], vs_inodes = []\<rparr>,
     k_pmm = \<lparr>pm_bitmap = replicate PMM_BITMAP_BYTES 0, pm_base = 0, pm_size = 0, pm_total = 0, pm_free = 0\<rparr>,
     k_mem = (\<lambda>_. 0), k_user_of = (\<lambda>_. USER_REGION_BASE), k_ttbr0 = 0x1000,
     k_con = \<lparr>ci_ring = replicate CONSOLE_IN_RING_SIZE (CHR 0x00), ci_r = 0, ci_w = 0, ci_next_poll = 0\<rparr>,
     k_timer = \<lparr>tm_freq = 0, tm_boot = 0, tm_inited = False, tm_interval = 0, tm_mode = TICK_MODE_DISABLED,
       tm_tval = 0, tm_ctl = 0\<rparr>,
     k_mmu = \<lparr>mm_tabs = (\<lambda>_ _. 0), mm_template0 = 0, mm_template1 = 0, mm_ttbr0 = 0, mm_ttbr1 = 0,
       mm_enabled = False\<rparr>, k_archive = [], k_rand = 0\<rparr>"

definition boot_kernel :: kernel where
  "boot_kernel = proc_init 0x400000 tf_zero kernel_bss"

lemma fd_boot_bss: "fd_boot (k_fd kernel_bss)"
  by (simp add: fd_boot_def kernel_bss_def)

end
