(* ===== verification/Vm.thy ===== *)
theory Vm
  imports Proc
begin

text \<open>
  The memory-management system calls of \<open>kernel-aarch64/sys_proc.c\<close>: \<open>brk\<close>, \<open>mmap\<close> and \<open>munmap\<close>
  on the fields of one process. The 2 MiB user region is always mapped, so these calls only keep
  books: the heap limit, and a table of 32 address ranges. All arithmetic is on 64-bit words as
  in the code. The two search loops are \<open>partial_function\<close>s; that they return is a theorem.

  \<open>mapped\<close> is the abstract view of the table, the set of addresses in some range; the main lemmas
  say how each call changes it, and that ranges stay disjoint, aligned and inside the region.
\<close>

definition PAGE :: u64 where "PAGE = 4096"
definition STACK_GUARD :: u64 where "STACK_GUARD = 262144"
definition HEAP_GUARD :: u64 where "HEAP_GUARD = 65536"

definition MAP_PRIVATE :: u64 where "MAP_PRIVATE = 0x02"
definition MAP_FIXED :: u64 where "MAP_FIXED = 0x10"
definition MAP_ANONYMOUS :: u64 where "MAP_ANONYMOUS = 0x20"
definition MAP_STACK :: u64 where "MAP_STACK = 0x20000"

subsection \<open>\<open>brk\<close>\<close>

text \<open>The lazy initialisation \<open>sys_brk\<close> and \<open>sys_mmap\<close> start with.\<close>

definition mm_init :: "proc \<Rightarrow> proc" where
  "mm_init p =
     (let p1 = (if p_heap_base p = 0
                then p\<lparr>p_heap_base := align_up_u64 USER_REGION_BASE 16,
                       p_heap_end := align_up_u64 USER_REGION_BASE 16\<rparr>
                else p)
      in if p_stack_low p1 = 0 then p1\<lparr>p_stack_low := tf_sp_el0 (p_tf p1)\<rparr> else p1)"

text \<open>The address below which the heap and the mappings stay, before alignment.\<close>

definition stack_limit :: "proc \<Rightarrow> u64" where
  "stack_limit p =
     (let hi = USER_REGION_BASE + USER_REGION_SIZE
      in if USER_REGION_BASE + STACK_GUARD < p_stack_low p then
           (let lim = p_stack_low p - STACK_GUARD in if lim < hi then lim else hi)
         else hi)"

definition sys_brk :: "u64 \<Rightarrow> proc \<Rightarrow> u64 \<times> proc" where
  "sys_brk newbrk p0 =
     (let p = mm_init p0
      in if newbrk = 0 then (p_heap_end p, p)
      else let max_brk = stack_limit p; newbrk = align_up_u64 newbrk 16
        in if newbrk < p_heap_base p \<or> max_brk < newbrk then (p_heap_end p, p)
        else (newbrk, p\<lparr>p_heap_end := newbrk\<rparr>))"

subsection \<open>\<open>mmap\<close>\<close>

definition vma_end :: "vma \<Rightarrow> u64" where
  "vma_end v = vm_base v + vm_len v"

text \<open>The base of the first range in the table that overlaps \<open>[base, base + len)\<close>.\<close>

definition vma_overlaps :: "vma list \<Rightarrow> u64 \<Rightarrow> u64 \<Rightarrow> u64 option" where
  "vma_overlaps vs base len =
     map_option vm_base
       (find (\<lambda>v. vm_used v \<and> \<not> (base + len \<le> vm_base v \<or> vma_end v \<le> base)) vs)"

definition proc_mmap_hi :: "proc \<Rightarrow> u64" where
  "proc_mmap_hi p =
     (let hi = align_down_u64 (stack_limit p) PAGE in if hi < USER_REGION_BASE then USER_REGION_BASE else hi)"

definition vma_slot :: "vma list \<Rightarrow> nat option" where
  "vma_slot vs = find_slot (\<lambda>v. \<not> vm_used v) vs"

definition heap_limit :: "proc \<Rightarrow> u64" where
  "heap_limit p =
     align_up_u64 (if p_heap_end p < p_heap_base p then p_heap_base p else p_heap_end p) PAGE"

definition vma_put :: "nat \<Rightarrow> u64 \<Rightarrow> u64 \<Rightarrow> proc \<Rightarrow> proc" where
  "vma_put i base len p =
     p\<lparr>p_vmas := (p_vmas p)[i := \<lparr>vm_used = True, vm_base = base, vm_len = len\<rparr>]\<rparr>"

text \<open>The caller's address, tried first: the range is taken when it is free and fits.\<close>

definition mmap_hint :: "u64 \<Rightarrow> u64 \<Rightarrow> proc \<Rightarrow> proc option" where
  "mmap_hint base alen p =
     (let end_hint = base + alen
      in if base \<le> end_hint \<and> USER_REGION_BASE \<le> base \<and> end_hint \<le> proc_mmap_hi p \<and>
            heap_limit p + HEAP_GUARD \<le> base \<and> vma_overlaps (p_vmas p) base alen = None
         then map_option (\<lambda>i. vma_put i base alen p) (vma_slot (p_vmas p))
         else None)"

text \<open>The search from the top down: \<open>None\<close> would be a loop without end.\<close>

partial_function (option) mmap_scan :: "u64 \<Rightarrow> u64 \<Rightarrow> proc \<Rightarrow> (u64 \<times> proc) option" where
  "mmap_scan hi alen p =
     (if hi < USER_REGION_BASE + alen then Some (sys_err ENOMEM, p)
      else let base = align_down_u64 (hi - alen) PAGE
        in if base < heap_limit p + HEAP_GUARD then Some (sys_err ENOMEM, p)
        else case vma_overlaps (p_vmas p) base alen of
          Some ovb \<Rightarrow> mmap_scan (align_down_u64 ovb PAGE) alen p
        | None \<Rightarrow>
            (case vma_slot (p_vmas p) of
               None \<Rightarrow> Some (sys_err ENOMEM, p)
             | Some i \<Rightarrow> Some (base, (vma_put i base alen p)\<lparr>p_mmap_next := base\<rparr>)))"

declare mmap_scan.simps [code]

definition sys_mmap :: "u64 \<Rightarrow> u64 \<Rightarrow> u64 \<Rightarrow> u64 \<Rightarrow> u64 \<Rightarrow> proc \<Rightarrow> (u64 \<times> proc) option" where
  "sys_mmap addr len flags fd off p0 =
     (if len = 0 then Some (sys_err EINVAL, p0)
      else if fd \<noteq> - 1 then Some (sys_err ENOSYS, p0)
      else if off \<noteq> 0 then Some (sys_err ENOSYS, p0)
      else if flags AND (MAP_PRIVATE OR MAP_ANONYMOUS) \<noteq> (MAP_PRIVATE OR MAP_ANONYMOUS) then
        Some (sys_err ENOSYS, p0)
      else if flags AND MAP_FIXED \<noteq> 0 then Some (sys_err ENOSYS, p0)
      else if flags AND NOT (MAP_PRIVATE OR MAP_ANONYMOUS OR MAP_STACK) \<noteq> 0 then Some (sys_err ENOSYS, p0)
      else let alen = align_up_u64 len PAGE; p = mm_init p0
        in if addr \<noteq> 0 \<and> addr AND (PAGE - 1) \<noteq> 0 then Some (sys_err EINVAL, p)
        else case (if addr \<noteq> 0 then mmap_hint addr alen p else None) of
          Some p' \<Rightarrow> Some (addr, p')
        | None \<Rightarrow>
            (let hi = proc_mmap_hi p;
                 nxt = (if p_mmap_next p = 0 \<or> hi < p_mmap_next p then hi else p_mmap_next p)
             in mmap_scan (align_down_u64 nxt PAGE) alen (p\<lparr>p_mmap_next := nxt\<rparr>)))"

subsection \<open>\<open>munmap\<close>\<close>

partial_function (option) mmap_next_scan :: "vma list \<Rightarrow> u64 \<Rightarrow> u64 option" where
  "mmap_next_scan vs hi =
     (case find (\<lambda>v. vm_used v \<and> vma_end v = hi) vs of
        None \<Rightarrow> Some hi
      | Some v \<Rightarrow> mmap_next_scan vs (vm_base v))"

declare mmap_next_scan.simps [code]

definition proc_recompute_mmap_next :: "proc \<Rightarrow> u64 option" where
  "proc_recompute_mmap_next p = mmap_next_scan (p_vmas p) (proc_mmap_hi p)"

text \<open>
  One entry of the table against the range \<open>[ub, ue)\<close>: \<open>Inl\<close> is the \<open>return -ENOMEM\<close> of a split
  without a free slot; the flag says that something was unmapped.
\<close>

definition munmap_entry :: "u64 \<Rightarrow> u64 \<Rightarrow> nat \<Rightarrow> vma list \<Rightarrow> unit + bool \<times> vma list" where
  "munmap_entry ub ue i vs =
     (let v = vs ! i; vb = vm_base v; ve = vma_end v
      in if \<not> vm_used v then Inr (False, vs)
      else if ve < vb then Inr (False, vs)
      else if ue \<le> vb \<or> ve \<le> ub then Inr (False, vs)
      else if ub \<le> vb \<and> ve \<le> ue then Inr (True, vs[i := vma_clear])
      else if ub \<le> vb \<and> ue < ve then Inr (True, vs[i := v\<lparr>vm_base := ue, vm_len := ve - ue\<rparr>])
      else if vb < ub \<and> ve \<le> ue then Inr (True, vs[i := v\<lparr>vm_len := ub - vb\<rparr>])
      else (case vma_slot vs of
              None \<Rightarrow> Inl ()
            | Some j \<Rightarrow>
                Inr (True, vs[i := v\<lparr>vm_len := ub - vb\<rparr>,
                              j := \<lparr>vm_used = True, vm_base = ue, vm_len = ve - ue\<rparr>])))"

fun munmap_loop :: "u64 \<Rightarrow> u64 \<Rightarrow> nat list \<Rightarrow> bool \<Rightarrow> vma list \<Rightarrow> vma list + bool \<times> vma list" where
  "munmap_loop ub ue [] any vs = Inr (any, vs)"
| "munmap_loop ub ue (i # is) any vs =
     (case munmap_entry ub ue i vs of
        Inl _ \<Rightarrow> Inl vs
      | Inr (hit, vs') \<Rightarrow> munmap_loop ub ue is (any \<or> hit) vs')"

definition sys_munmap :: "u64 \<Rightarrow> u64 \<Rightarrow> proc \<Rightarrow> (u64 \<times> proc) option" where
  "sys_munmap addr len p =
     (if addr AND (PAGE - 1) \<noteq> 0 then Some (sys_err EINVAL, p)
      else if len = 0 then Some (sys_err EINVAL, p)
      else let alen = align_up_u64 len PAGE; ue = addr + alen
        in if ue < addr then Some (sys_err EINVAL, p)
        else case munmap_loop addr ue [0..<MAX_VMAS] False (p_vmas p) of
          Inl vs \<Rightarrow> Some (sys_err ENOMEM, p\<lparr>p_vmas := vs\<rparr>)
        | Inr (any, vs) \<Rightarrow>
            (if \<not> any then Some (sys_err EINVAL, p\<lparr>p_vmas := vs\<rparr>)
             else map_option (\<lambda>nx. (0, p\<lparr>p_vmas := vs, p_mmap_next := nx\<rparr>))
               (proc_recompute_mmap_next (p\<lparr>p_vmas := vs\<rparr>))))"


subsection \<open>Ranges\<close>

definition vma_range :: "vma \<Rightarrow> nat set" where
  "vma_range v = (if vm_used v then {unat (vm_base v)..<unat (vm_base v) + unat (vm_len v)} else {})"

definition mapped :: "vma list \<Rightarrow> nat set" where
  "mapped vs = (\<Union>v \<in> set vs. vma_range v)"

definition vma_ok :: "vma \<Rightarrow> bool" where
  "vma_ok v \<longleftrightarrow> (vm_used v \<longrightarrow>
     4096 dvd unat (vm_base v) \<and> 4096 dvd unat (vm_len v) \<and> 0 < unat (vm_len v) \<and>
     0x400000 \<le> unat (vm_base v) \<and> unat (vm_base v) + unat (vm_len v) \<le> 0x600000)"

definition vmas_ok :: "vma list \<Rightarrow> bool" where
  "vmas_ok vs \<longleftrightarrow> length vs = MAX_VMAS \<and> (\<forall>v \<in> set vs. vma_ok v) \<and>
     (\<forall>i j. i < j \<and> j < length vs \<longrightarrow> vma_range (vs ! i) \<inter> vma_range (vs ! j) = {})"

lemma vma_range_clear [simp]: "vma_range vma_clear = {}"
  by (simp add: vma_range_def vma_clear_def)

lemma vma_ok_clear [simp]: "vma_ok vma_clear"
  by (simp add: vma_ok_def vma_clear_def)

lemma vma_end_nat: "vma_ok v \<Longrightarrow> vm_used v \<Longrightarrow> unat (vma_end v) = unat (vm_base v) + unat (vm_len v)"
  by (simp add: vma_ok_def vma_end_def unat_word_ariths)

lemma vmas_ok_nth: "vmas_ok vs \<Longrightarrow> i < MAX_VMAS \<Longrightarrow> vma_ok (vs ! i)"
  by (simp add: vmas_ok_def)

lemma vmas_disjoint:
  "vmas_ok vs \<Longrightarrow> i < MAX_VMAS \<Longrightarrow> j < MAX_VMAS \<Longrightarrow> i \<noteq> j \<Longrightarrow> vma_range (vs ! i) \<inter> vma_range (vs ! j) = {}"
  unfolding vmas_ok_def by (metis Int_commute nat_neq_iff)

lemma mapped_nth: "mapped vs = (\<Union>i < length vs. vma_range (vs ! i))"
  unfolding mapped_def set_conv_nth by auto

lemma mapped_update:
  "i < length vs \<Longrightarrow> mapped (vs[i := v]) = vma_range v \<union> (\<Union>j \<in> {..<length vs} - {i}. vma_range (vs ! j))"
  by (auto simp: mapped_nth nth_list_update split: if_splits)

text \<open>Replacing one entry by one that is disjoint from all others.\<close>

lemma vmas_ok_update:
  assumes "vmas_ok vs" and "i < MAX_VMAS" and "vma_ok v"
    and "\<And>j. j < MAX_VMAS \<Longrightarrow> j \<noteq> i \<Longrightarrow> vma_range v \<inter> vma_range (vs ! j) = {}"
  shows "vmas_ok (vs[i := v])"
proof -
  have len: "length vs = MAX_VMAS" using assms(1) by (simp add: vmas_ok_def)
  have "vma_range (vs[i := v] ! a) \<inter> vma_range (vs[i := v] ! b) = {}" if ab: "a < b" "b < MAX_VMAS" for a b
  proof -
    consider "a = i" | "b = i" | "a \<noteq> i" "b \<noteq> i" by blast
    then show ?thesis
    proof cases
      case 1
      then show ?thesis using assms(2) assms(4) [of b] ab len by simp
    next
      case 2
      then show ?thesis using assms(2) assms(4) [of a] ab len by (simp add: Int_commute)
    next
      case 3
      then show ?thesis using vmas_disjoint [OF assms(1), of a b] ab by simp
    qed
  qed
  then show ?thesis
    using assms(1,3) len set_update_subset_insert [of vs i v] by (auto simp: vmas_ok_def)
qed

lemma vma_slot_Some:
  "vma_slot vs = Some i \<Longrightarrow> i < length vs \<and> \<not> vm_used (vs ! i) \<and> vma_range (vs ! i) = {}"
  using find_slot_Some [of "\<lambda>v. \<not> vm_used v" vs i] by (simp add: vma_slot_def vma_range_def)

text \<open>Filling a free slot with a new range that nothing overlaps.\<close>

lemma vmas_ok_insert:
  assumes "vmas_ok vs" and "vma_slot vs = Some i" and "vma_ok v" and "vma_range v \<inter> mapped vs = {}"
  shows "vmas_ok (vs[i := v])" and "mapped (vs[i := v]) = mapped vs \<union> vma_range v"
proof -
  have i: "i < MAX_VMAS" "vma_range (vs ! i) = {}" and len: "length vs = MAX_VMAS"
    using vma_slot_Some [OF assms(2)] assms(1) by (simp_all add: vmas_ok_def)
  show "vmas_ok (vs[i := v])"
    using assms(4) len by (intro vmas_ok_update assms(1,3) i) (auto simp: mapped_nth)
  show "mapped (vs[i := v]) = mapped vs \<union> vma_range v"
    using mapped_update [of i vs v] i len by (auto simp: mapped_nth)
qed

text \<open>The overlap test finds exactly the ranges that meet \<open>[base, base + len)\<close>.\<close>

lemma overlap_test:
  assumes "vma_ok v" and "vm_used v" and "0 < unat len" and "unat base + unat len < 2 ^ 64"
  shows "(base + len \<le> vm_base v \<or> vma_end v \<le> base) \<longleftrightarrow>
    {unat base..<unat base + unat len} \<inter> vma_range v = {}"
proof -
  have "unat (base + len) = unat base + unat len"
    using assms(4) by (simp add: unat_word_ariths)
  then have "(base + len \<le> vm_base v \<or> vma_end v \<le> base) \<longleftrightarrow>
      unat base + unat len \<le> unat (vm_base v) \<or> unat (vm_base v) + unat (vm_len v) \<le> unat base"
    by (simp add: word_le_nat_alt vma_end_nat [OF assms(1,2)])
  also have "\<dots> \<longleftrightarrow> {unat base..<unat base + unat len} \<inter> vma_range v = {}"
    using assms(1-3) by (auto simp: vma_range_def vma_ok_def disjoint_iff not_le)
  finally show ?thesis .
qed

lemma vma_range_unused: "x \<in> vma_range v \<Longrightarrow> vm_used v"
  by (simp add: vma_range_def split: if_splits)

lemma vma_overlaps_None:
  assumes "vmas_ok vs" and "0 < unat len" and "unat base + unat len < 2 ^ 64"
  shows "vma_overlaps vs base len = None \<longleftrightarrow> {unat base..<unat base + unat len} \<inter> mapped vs = {}"
proof -
  have "vma_overlaps vs base len = None \<longleftrightarrow>
      (\<forall>v \<in> set vs. vm_used v \<longrightarrow> {unat base..<unat base + unat len} \<inter> vma_range v = {})"
    using overlap_test [OF _ _ assms(2,3)] assms(1)
    by (auto simp: vma_overlaps_def find_None_iff vmas_ok_def)
  also have "\<dots> \<longleftrightarrow> {unat base..<unat base + unat len} \<inter> mapped vs = {}"
    unfolding mapped_def using vma_range_unused by (auto simp: disjoint_iff)
  finally show ?thesis .
qed

lemma vma_overlaps_Some:
  assumes "vmas_ok vs" and "vma_overlaps vs base len = Some b" and "unat base + unat len < 2 ^ 64"
  shows "4096 dvd unat b \<and> 0x400000 \<le> unat b \<and> unat b < unat base + unat len"
proof -
  obtain v where v: "v \<in> set vs" "vm_used v" "\<not> base + len \<le> vm_base v" "b = vm_base v"
    using assms(2) by (auto simp: vma_overlaps_def find_Some_iff) (metis nth_mem)
  moreover have "unat (base + len) = unat base + unat len"
    using assms(3) by (simp add: unat_word_ariths)
  ultimately show ?thesis
    using assms(1) by (auto simp: vmas_ok_def vma_ok_def word_le_nat_alt)
qed


subsection \<open>\<open>mmap\<close>\<close>

lemma align_down_page:
  "4096 dvd unat (align_down_u64 x PAGE)" "unat (align_down_u64 x PAGE) \<le> unat x"
proof -
  have "unat (align_down_u64 x PAGE) = unat x - unat x mod 4096"
    using unat_align_down [of x 12] by (simp add: PAGE_def)
  then show "4096 dvd unat (align_down_u64 x PAGE)" "unat (align_down_u64 x PAGE) \<le> unat x"
    by (simp_all add: dvd_minus_mod)
qed

lemma and_mask_dvd_nat: "x AND mask 12 = 0 \<longleftrightarrow> 4096 dvd unat (x :: u64)"
proof -
  have "x AND mask 12 = take_bit 12 x" by (simp add: take_bit_eq_mask)
  moreover have "unat (take_bit 12 x) = unat x mod 4096"
    by (simp add: unsigned_take_bit_eq) (simp add: take_bit_eq_mod)
  ultimately show ?thesis
    by (metis dvd_eq_mod_eq_0 unat_0 word_unat_eq_iff)
qed

lemma align_down_page_id: "4096 dvd unat x \<Longrightarrow> align_down_u64 x PAGE = x"
  using unat_align_down [of x 12] by (simp add: PAGE_def word_unat_eq_iff)

lemma align_up_page:
  assumes "unat len \<le> 2 ^ 63" and "len \<noteq> 0"
  shows "4096 dvd unat (align_up_u64 len PAGE)" "unat len \<le> unat (align_up_u64 len PAGE)"
    "unat (align_up_u64 len PAGE) < unat len + 4096" "0 < unat (align_up_u64 len PAGE)"
proof -
  have *: "unat (align_up_u64 len PAGE) = (unat len + 4095) div 4096 * 4096"
    using unat_align_up [of 12 len] assms(1) by (simp add: PAGE_def)
  show "4096 dvd unat (align_up_u64 len PAGE)" "unat len \<le> unat (align_up_u64 len PAGE)"
    "unat (align_up_u64 len PAGE) < unat len + 4096"
    unfolding * by simp_all
  then show "0 < unat (align_up_u64 len PAGE)"
    using assms(2) by (simp add: unat_gt_0 [symmetric])
qed

lemma proc_mmap_hi_range: "4096 dvd unat (proc_mmap_hi p)" "0x400000 \<le> unat (proc_mmap_hi p)"
  "unat (proc_mmap_hi p) \<le> 0x600000"
proof -
  have "unat (stack_limit p) \<le> 0x600000"
    by (auto simp: stack_limit_def Let_def USER_REGION_BASE_def USER_REGION_SIZE_def word_less_nat_alt)
  then show "4096 dvd unat (proc_mmap_hi p)" "0x400000 \<le> unat (proc_mmap_hi p)"
    "unat (proc_mmap_hi p) \<le> 0x600000"
    using align_down_page [of "stack_limit p"] 
    by (auto simp: proc_mmap_hi_def Let_def word_less_nat_alt user_region_nat)
qed

text \<open>The search ends: each retry starts at a lower address.\<close>

lemma mmap_scan_returns:
  assumes "vmas_ok (p_vmas p)" and "4096 dvd unat alen" and "0 < unat alen" and "unat alen < 2 ^ 63 + 4096"
    and "4096 dvd unat hi" and "unat hi \<le> 0x600000"
  obtains "mmap_scan hi alen p = Some (sys_err ENOMEM, p)"
  | base i where "mmap_scan hi alen p = Some (base, (vma_put i base alen p)\<lparr>p_mmap_next := base\<rparr>)"
      and "vma_slot (p_vmas p) = Some i" and "4096 dvd unat base" and "0x400000 \<le> unat base"
      and "unat base + unat alen \<le> unat hi" and "heap_limit p + HEAP_GUARD \<le> base"
      and "{unat base..<unat base + unat alen} \<inter> mapped (p_vmas p) = {}"
  using assms
proof (induction "unat hi" arbitrary: hi thesis rule: less_induct)
  case less
  have add: "unat (USER_REGION_BASE + alen) = 0x400000 + unat alen"
    using less.prems(6) by (simp add: unat_word_ariths user_region_nat)
  show ?case
  proof (cases "hi < USER_REGION_BASE + alen")
    case True
    then show ?thesis
      by (intro less.prems(1)) (subst mmap_scan.simps, simp)
  next
    case False
    then have room: "0x400000 + unat alen \<le> unat hi"
      by (simp add: word_less_nat_alt add)
    let ?base = "hi - alen"
    have base: "unat ?base = unat hi - unat alen"
      using room by (simp add: unat_sub word_le_nat_alt)
    then have dvd: "4096 dvd unat ?base"
      using less.prems(4,7) by (simp add: dvd_diff_nat)
    then have ad: "align_down_u64 ?base PAGE = ?base"
      by (rule align_down_page_id)
    have fits: "unat ?base + unat alen < 2 ^ 64"
      using base room less.prems(8) by simp
    show ?thesis
    proof (cases "?base < heap_limit p + HEAP_GUARD")
      case True
      then show ?thesis
        using False by (intro less.prems(1)) (subst mmap_scan.simps, simp add: Let_def ad)
    next
      case above: False
      show ?thesis
      proof (cases "vma_overlaps (p_vmas p) ?base alen")
        case (Some ovb)
        have ovb: "4096 dvd unat ovb" "unat ovb < unat hi"
          using vma_overlaps_Some [OF less.prems(3) Some fits] base room by auto
        have step: "mmap_scan hi alen p = mmap_scan ovb alen p"
          using False above Some by (subst mmap_scan.simps) (simp add: Let_def ad align_down_page_id ovb(1))
        show ?thesis
        proof (rule less.hyps [OF ovb(2) _ _ less.prems(3-6) ovb(1)])
          show thesis if "mmap_scan ovb alen p = Some (sys_err ENOMEM, p)"
            using less.prems(1) that step by simp
          show thesis if "mmap_scan ovb alen p = Some (base, (vma_put i base alen p)\<lparr>p_mmap_next := base\<rparr>)"
            "vma_slot (p_vmas p) = Some i" "4096 dvd unat base" "0x400000 \<le> unat base"
            "unat base + unat alen \<le> unat ovb" "heap_limit p + HEAP_GUARD \<le> base"
            "{unat base..<unat base + unat alen} \<inter> mapped (p_vmas p) = {}" for base i
            using less.prems(2) [of base i] that step ovb(2) by simp
          show "unat ovb \<le> 0x600000" using ovb(2) less.prems(8) by simp
        qed
      next
        case None
        have free: "{unat ?base..<unat ?base + unat alen} \<inter> mapped (p_vmas p) = {}"
          using vma_overlaps_None [OF less.prems(3,5) fits] None by simp
        show ?thesis
        proof (cases "vma_slot (p_vmas p)")
          case None': None
          then show ?thesis
            using False above None by (intro less.prems(1)) (subst mmap_scan.simps, simp add: Let_def ad)
        next
          case (Some i)
          have "mmap_scan hi alen p = Some (?base, (vma_put i ?base alen p)\<lparr>p_mmap_next := ?base\<rparr>)"
            using False above None Some by (subst mmap_scan.simps) (simp add: Let_def ad)
          then show ?thesis
            using less.prems(2) [of ?base i] Some dvd base room above free by simp
        qed
      qed
    qed
  qed
qed


lemma mmap_hint_Some:
  assumes "mmap_hint base alen p = Some p'" and "vmas_ok (p_vmas p)" and "0 < unat alen"
  obtains i where "p' = vma_put i base alen p" and "vma_slot (p_vmas p) = Some i"
    and "0x400000 \<le> unat base" and "unat base + unat alen \<le> unat (proc_mmap_hi p)"
    and "heap_limit p + HEAP_GUARD \<le> base"
    and "{unat base..<unat base + unat alen} \<inter> mapped (p_vmas p) = {}"
proof -
  obtain i where i: "p' = vma_put i base alen p" "vma_slot (p_vmas p) = Some i"
    and c: "base \<le> base + alen" "USER_REGION_BASE \<le> base" "base + alen \<le> proc_mmap_hi p"
      "heap_limit p + HEAP_GUARD \<le> base" "vma_overlaps (p_vmas p) base alen = None"
    using assms(1) by (auto simp: mmap_hint_def Let_def split: if_splits)
  have add: "unat (base + alen) = unat base + unat alen"
    using c(1) by (simp add: unat_plus_simple)
  moreover have "unat (base + alen) < 2 ^ 64"
    using unsigned_less [of "base + alen"] by simp
  ultimately have "unat base + unat alen < 2 ^ 64" by simp
  then show ?thesis
    using that [OF i] c add vma_overlaps_None [OF assms(2,3)]
    by (simp add: word_le_nat_alt user_region_nat)
qed

lemma mm_init_vmas [simp]: "p_vmas (mm_init p) = p_vmas p" "p_mmap_next (mm_init p) = p_mmap_next p"
  by (simp_all add: mm_init_def Let_def)

lemma vma_put_frame [simp]:
  "p_vmas (vma_put i b n p) = (p_vmas p)[i := \<lparr>vm_used = True, vm_base = b, vm_len = n\<rparr>]"
  "p_heap_base (vma_put i b n p) = p_heap_base p" "p_heap_end (vma_put i b n p) = p_heap_end p"
  "p_stack_low (vma_put i b n p) = p_stack_low p"
  by (simp_all add: vma_put_def)

lemma stack_limit_cong: "p_stack_low p' = p_stack_low p \<Longrightarrow> stack_limit p' = stack_limit p"
  by (simp only: stack_limit_def)

lemma limits_cong:
  "p_stack_low p' = p_stack_low p \<Longrightarrow> proc_mmap_hi p' = proc_mmap_hi p"
  "p_heap_base p' = p_heap_base p \<Longrightarrow> p_heap_end p' = p_heap_end p \<Longrightarrow> heap_limit p' = heap_limit p"
  by (simp_all only: proc_mmap_hi_def stack_limit_def heap_limit_def)

text \<open>Where a successful call put its range.\<close>

definition mmap_placed :: "u64 \<Rightarrow> nat \<Rightarrow> proc \<Rightarrow> proc \<Rightarrow> bool" where
  "mmap_placed r n p p' \<longleftrightarrow> 4096 dvd unat r \<and> 0x400000 \<le> unat r \<and> unat r + n \<le> unat (proc_mmap_hi p') \<and>
     heap_limit p' + HEAP_GUARD \<le> r \<and> {unat r..<unat r + n} \<inter> mapped (p_vmas p) = {} \<and>
     mapped (p_vmas p') = mapped (p_vmas p) \<union> {unat r..<unat r + n}"

lemma mmap_put_ok:
  assumes "vmas_ok (p_vmas p)" and "vma_slot (p_vmas p) = Some i" and "4096 dvd unat alen" and "0 < unat alen"
    and "4096 dvd unat base" and "0x400000 \<le> unat base" and "unat base + unat alen \<le> unat (proc_mmap_hi p)"
    and "heap_limit p + HEAP_GUARD \<le> base"
    and "{unat base..<unat base + unat alen} \<inter> mapped (p_vmas p) = {}"
    and "p' = (vma_put i base alen p)\<lparr>p_mmap_next := nx\<rparr>"
  shows "vmas_ok (p_vmas p') \<and> mmap_placed base (unat alen) p p'"
proof -
  let ?v = "\<lparr>vm_used = True, vm_base = base, vm_len = alen\<rparr>"
  have v: "vma_ok ?v" "vma_range ?v = {unat base..<unat base + unat alen}"
    using assms(3-7) proc_mmap_hi_range(3) [of p] by (auto simp: vma_ok_def vma_range_def)
  show ?thesis
    using vmas_ok_insert [OF assms(1,2) v(1)] v(2) assms(5-10) limits_cong [of p' p]
    by (simp add: mmap_placed_def)
qed

lemma mmap_next_cong:
  "mmap_placed r n (p\<lparr>p_mmap_next := x\<rparr>) p' = mmap_placed r n p p'"
  by (simp add: mmap_placed_def)

text \<open>C23: \<open>mmap\<close> of up to \<open>2^63\<close> bytes always returns, keeps the address ranges of the process
  disjoint, page-aligned and inside the user region, and either fails with an error and maps
  nothing, or returns a range of the rounded length that was free, lies between the heap plus
  its guard and the stack limit, and is added to what is mapped.\<close>

theorem mmap_places_free_range:
  assumes "vmas_ok (p_vmas p)" and "unat len \<le> 2 ^ 63"
  shows "\<exists>r p'. sys_mmap addr len flags fd off p = Some (r, p') \<and> vmas_ok (p_vmas p') \<and>
    (is_err r \<and> p_vmas p' = p_vmas p \<or>
     \<not> is_err r \<and> mmap_placed r (unat (align_up_u64 len PAGE)) p p')"
proof -
  let ?alen = "align_up_u64 len PAGE" and ?p = "mm_init p"
  let ?nxt = "if p_mmap_next ?p = 0 \<or> proc_mmap_hi ?p < p_mmap_next ?p then proc_mmap_hi ?p else p_mmap_next ?p"
  let ?q = "?p\<lparr>p_mmap_next := ?nxt\<rparr>"
  let ?guards = "len = 0 \<or> fd \<noteq> - 1 \<or> off \<noteq> 0 \<or>
      flags AND (MAP_PRIVATE OR MAP_ANONYMOUS) \<noteq> (MAP_PRIVATE OR MAP_ANONYMOUS) \<or> flags AND MAP_FIXED \<noteq> 0 \<or>
      flags AND NOT (MAP_PRIVATE OR MAP_ANONYMOUS OR MAP_STACK) \<noteq> 0 \<or> addr \<noteq> 0 \<and> addr AND (PAGE - 1) \<noteq> 0"
  show ?thesis
  proof (cases ?guards)
    case True
    then show ?thesis
      using assms(1) by (auto simp: sys_mmap_def Let_def)
  next
    case False
    then have len: "len \<noteq> 0" by simp
    note al = align_up_page [OF assms(2) len]
    have ok: "vmas_ok (p_vmas ?p)" "vmas_ok (p_vmas ?q)" using assms(1) by simp_all
    show ?thesis
    proof (cases "if addr \<noteq> 0 then mmap_hint addr ?alen ?p else None")
      case (Some p')
      then have hint: "mmap_hint addr ?alen ?p = Some p'" by (simp split: if_splits)
      obtain i where i: "p' = vma_put i addr ?alen ?p" "vma_slot (p_vmas ?p) = Some i"
        "0x400000 \<le> unat addr" "unat addr + unat ?alen \<le> unat (proc_mmap_hi ?p)"
        "heap_limit ?p + HEAP_GUARD \<le> addr" "{unat addr..<unat addr + unat ?alen} \<inter> mapped (p_vmas ?p) = {}"
        by (rule mmap_hint_Some [OF hint ok(1) al(4)])
      have "addr AND mask 12 = 0"
        using False Some by (auto simp: PAGE_def mask_eq_exp_minus_1 split: if_splits)
      then have dvd: "4096 dvd unat addr"
        by (simp add: and_mask_dvd_nat)
      have p': "p' = (vma_put i addr ?alen ?p)\<lparr>p_mmap_next := p_mmap_next (vma_put i addr ?alen ?p)\<rparr>"
        using i(1) by simp
      have "sys_mmap addr len flags fd off p = Some (addr, p')"
        using False Some by (auto simp: sys_mmap_def Let_def)
      moreover have "\<not> is_err addr"
        using i(4) proc_mmap_hi_range(3) [of ?p] by (intro small_not_err) simp
      ultimately show ?thesis
        using mmap_put_ok [OF ok(1) i(2) al(1,4) dvd i(3-6) p'] by (simp add: mmap_placed_def)
    next
      case None
      have scan: "sys_mmap addr len flags fd off p = mmap_scan (align_down_u64 ?nxt PAGE) ?alen ?q"
        using False None by (auto simp: sys_mmap_def Let_def)
      have "unat ?nxt \<le> unat (proc_mmap_hi ?p)"
        by (auto simp: not_less word_le_nat_alt)
      then have hi: "unat (align_down_u64 ?nxt PAGE) \<le> unat (proc_mmap_hi ?p)"
        using align_down_page(2) [of ?nxt] by (rule order_trans [rotated])
      have small: "unat ?alen < 2 ^ 63 + 4096" "unat (align_down_u64 ?nxt PAGE) \<le> 0x600000"
        using al(3) assms(2) hi proc_mmap_hi_range(3) [of ?p] by simp_all
      have lim: "proc_mmap_hi ?q = proc_mmap_hi ?p" "heap_limit ?q = heap_limit ?p"
        by (rule limits_cong; simp)+
      show ?thesis
      proof (rule mmap_scan_returns [OF ok(2) al(1,4) small(1) align_down_page(1) small(2)])
        assume "mmap_scan (align_down_u64 ?nxt PAGE) ?alen ?q = Some (sys_err ENOMEM, ?q)"
        then show ?thesis
          using scan ok by auto
      next
        fix base i
        assume b: "mmap_scan (align_down_u64 ?nxt PAGE) ?alen ?q =
            Some (base, (vma_put i base ?alen ?q)\<lparr>p_mmap_next := base\<rparr>)"
          "vma_slot (p_vmas ?q) = Some i" "4096 dvd unat base" "0x400000 \<le> unat base"
          "unat base + unat ?alen \<le> unat (align_down_u64 ?nxt PAGE)" "heap_limit ?q + HEAP_GUARD \<le> base"
          "{unat base..<unat base + unat ?alen} \<inter> mapped (p_vmas ?q) = {}"
        have "unat base + unat ?alen \<le> unat (proc_mmap_hi ?q)"
          using b(5) hi lim(1) by simp
        note put = mmap_put_ok [OF ok(2) b(2) al(1,4) b(3,4) this b(6,7) refl, of base]
        have "\<not> is_err base"
          using b(5) small(2) by (intro small_not_err) simp
        then show ?thesis
          using put scan b(1) by (simp add: mmap_placed_def)
      qed
    qed
  qed
qed


subsection \<open>\<open>munmap\<close>\<close>

definition urange :: "u64 \<Rightarrow> u64 \<Rightarrow> nat set" where
  "urange ub ue = {unat ub..<unat ue}"

text \<open>What one entry contributes, and that no other entry loses or gains an address of the range.\<close>

definition entry_done :: "nat set \<Rightarrow> nat \<Rightarrow> vma list \<Rightarrow> bool \<Rightarrow> vma list \<Rightarrow> bool" where
  "entry_done R i vs hit vs' \<longleftrightarrow> vmas_ok vs' \<and> mapped vs' = mapped vs - (vma_range (vs ! i) \<inter> R) \<and>
     (hit \<longleftrightarrow> vma_range (vs ! i) \<inter> R \<noteq> {}) \<and> vma_range (vs' ! i) \<inter> R = {} \<and>
     (\<not> hit \<longrightarrow> vs' = vs) \<and>
     (\<forall>j < MAX_VMAS. j \<noteq> i \<longrightarrow> vma_range (vs' ! j) \<inter> R = vma_range (vs ! j) \<inter> R)"

text \<open>Shrinking an entry to a part of its range that is disjoint from the unmapped range.\<close>

lemma entry_shrunk:
  assumes ok: "vmas_ok vs" and i: "i < MAX_VMAS" and v: "vma_ok v"
    and sub: "vma_range v = vma_range (vs ! i) - R" and hit: "vma_range (vs ! i) \<inter> R \<noteq> {}"
  shows "entry_done R i vs True (vs[i := v])"
proof -
  have len: "length vs = MAX_VMAS" using ok by (simp add: vmas_ok_def)
  have dis: "vma_range (vs ! i) \<inter> vma_range (vs ! j) = {}" if "j < MAX_VMAS" "j \<noteq> i" for j
    using vmas_disjoint [OF ok i that(1)] that(2) by simp
  have "vmas_ok (vs[i := v])"
    using dis sub by (intro vmas_ok_update [OF ok i v]) blast
  moreover have "mapped (vs[i := v]) = mapped vs - (vma_range (vs ! i) \<inter> R)"
    using mapped_update [of i vs v] i len dis sub by (auto simp: mapped_nth)
  ultimately show ?thesis
    using hit sub i len by (auto simp: entry_done_def nth_list_update)
qed

lemma vma_range_nat: "vma_ok v \<Longrightarrow> vm_used v \<Longrightarrow> vma_range v = {unat (vm_base v)..<unat (vma_end v)}"
  by (simp add: vma_range_def vma_end_nat)

lemma ivl_cut:
  fixes ub ue vb ve :: nat
  shows "ub \<le> vb \<Longrightarrow> vb < ue \<Longrightarrow> ue \<le> ve \<Longrightarrow> {ue..<ve} = {vb..<ve} - {ub..<ue}"
    and "vb \<le> ub \<Longrightarrow> ub \<le> ve \<Longrightarrow> ve \<le> ue \<Longrightarrow> {vb..<ub} = {vb..<ve} - {ub..<ue}"
    and "ub < ue \<Longrightarrow> vb < ve \<Longrightarrow> vb < ue \<Longrightarrow> ub < ve \<Longrightarrow> {vb..<ve} \<inter> {ub..<ue} \<noteq> {}"
proof -
  assume "ub < ue" "vb < ve" "vb < ue" "ub < ve"
  then have "max vb ub \<in> {vb..<ve} \<inter> {ub..<ue}" by simp
  then show "{vb..<ve} \<inter> {ub..<ue} \<noteq> {}" by blast
qed auto

lemma vma_made:
  assumes "vm_used v" and "vm_base v = b" and "vm_len v = e - b" and "unat b < unat e"
    and "0x400000 \<le> unat b" and "unat e \<le> 0x600000" and "4096 dvd unat b" and "4096 dvd unat e"
  shows "vma_ok v \<and> vma_range v = {unat b..<unat e}"
proof -
  have "unat (vm_len v) = unat e - unat b"
    using assms(3,4) by (simp add: unat_sub word_le_nat_alt)
  then show ?thesis
    using assms by (simp add: vma_ok_def vma_range_def dvd_diff_nat)
qed

lemma munmap_entry_done:
  assumes ok: "vmas_ok vs" and i: "i < MAX_VMAS" and dvd: "4096 dvd unat ub" "4096 dvd unat ue"
    and lt: "unat ub < unat ue" and e: "munmap_entry ub ue i vs = Inr (hit, vs')"
  shows "entry_done (urange ub ue) i vs hit vs'"
proof -
  let ?v = "vs ! i" and ?R = "urange ub ue"
  have v: "vma_ok ?v" by (rule vmas_ok_nth [OF ok i])
  have same: "entry_done ?R i vs False vs" if "vma_range ?v \<inter> ?R = {}"
    using that ok by (simp add: entry_done_def Diff_triv)
  show ?thesis
  proof (cases "vm_used ?v")
    case False
    then show ?thesis
      using e same by (simp add: munmap_entry_def Let_def vma_range_def)
  next
    case used: True
    have bound: "0x400000 \<le> unat (vm_base ?v)" "unat (vm_base ?v) < unat (vma_end ?v)" "unat (vma_end ?v) \<le> 0x600000"
      "4096 dvd unat (vm_base ?v)" "4096 dvd unat (vma_end ?v)"
      using v used vma_end_nat [OF v used] by (auto simp: vma_ok_def)
    have r: "vma_range ?v = {unat (vm_base ?v)..<unat (vma_end ?v)}"
      by (rule vma_range_nat [OF v used])
    have nw: "\<not> vma_end ?v < vm_base ?v"
      using bound(2) by (simp add: word_less_nat_alt)
    note d = e [unfolded munmap_entry_def Let_def]
    note nat = word_le_nat_alt word_less_nat_alt
    have meet: "vma_range ?v \<inter> ?R \<noteq> {}" if "\<not> (ue \<le> vm_base ?v \<or> vma_end ?v \<le> ub)"
      unfolding r urange_def using that bound(2) lt by (intro ivl_cut(3)) (simp_all add: nat)
    consider "ue \<le> vm_base ?v \<or> vma_end ?v \<le> ub"
      | (full) "\<not> (ue \<le> vm_base ?v \<or> vma_end ?v \<le> ub)" "ub \<le> vm_base ?v" "vma_end ?v \<le> ue"
      | (front) "\<not> (ue \<le> vm_base ?v \<or> vma_end ?v \<le> ub)" "ub \<le> vm_base ?v" "ue < vma_end ?v"
      | (tail) "\<not> (ue \<le> vm_base ?v \<or> vma_end ?v \<le> ub)" "vm_base ?v < ub" "vma_end ?v \<le> ue"
      | (split) "\<not> (ue \<le> vm_base ?v \<or> vma_end ?v \<le> ub)" "vm_base ?v < ub" "ue < vma_end ?v"
      by fastforce
    then show ?thesis
    proof cases
      case 1
      then show ?thesis
        using d used nw same by (auto simp: r urange_def nat disjoint_iff)
    next
      case full
      then have "hit" "vs' = vs[i := vma_clear]" using d used nw full by (auto split: if_splits option.splits)
      moreover have "entry_done ?R i vs True (vs[i := vma_clear])"
        using full meet by (intro entry_shrunk ok i) (auto simp: r urange_def nat)
      ultimately show ?thesis by simp
    next
      case front
      let ?w = "?v\<lparr>vm_base := ue, vm_len := vma_end ?v - ue\<rparr>"
      have ws: "vma_ok ?w \<and> vma_range ?w = {unat ue..<unat (vma_end ?v)}"
        using front bound dvd used lt by (intro vma_made) (simp_all add: nat)
      have "hit" "vs' = vs[i := ?w]" using front d used nw by (auto split: if_splits option.splits)
      moreover have "entry_done ?R i vs True (vs[i := ?w])"
      proof (rule entry_shrunk [OF ok i conjunct1 [OF ws]])
        show "vma_range ?w = vma_range ?v - ?R"
          unfolding conjunct2 [OF ws] r urange_def using front by (intro ivl_cut(1)) (simp_all add: nat)
      qed (rule meet [OF front(1)])
      ultimately show ?thesis by simp
    next
      case tail
      let ?w = "?v\<lparr>vm_len := ub - vm_base ?v\<rparr>"
      have ws: "vma_ok ?w \<and> vma_range ?w = {unat (vm_base ?v)..<unat ub}"
        using tail bound dvd used lt by (intro vma_made) (simp_all add: nat)
      have "hit" "vs' = vs[i := ?w]" using tail d used nw by (auto split: if_splits option.splits)
      moreover have "entry_done ?R i vs True (vs[i := ?w])"
      proof (rule entry_shrunk [OF ok i conjunct1 [OF ws]])
        show "vma_range ?w = vma_range ?v - ?R"
          unfolding conjunct2 [OF ws] r urange_def using tail by (intro ivl_cut(2)) (simp_all add: nat)
      qed (rule meet [OF tail(1)])
      ultimately show ?thesis by simp
    next
      case split
      let ?w = "?v\<lparr>vm_len := ub - vm_base ?v\<rparr>" and ?n = "\<lparr>vm_used = True, vm_base = ue, vm_len = vma_end ?v - ue\<rparr>"
      let ?cut = "urange ub (vma_end ?v)" and ?vs = "vs[i := ?w]"
      obtain j where j: "vma_slot vs = Some j" and h: "hit" "vs' = ?vs[j := ?n]"
        using split d used nw by (auto split: if_splits option.splits)
      have len: "length vs = MAX_VMAS" using ok by (simp add: vmas_ok_def)
      have jn: "j < MAX_VMAS" "vma_range (vs ! j) = {}" "j \<noteq> i"
        using vma_slot_Some [OF j] used len by auto
      have ws: "vma_ok ?w \<and> vma_range ?w = {unat (vm_base ?v)..<unat ub}"
        using split bound dvd used lt by (intro vma_made) (simp_all add: nat)
      have cut: "entry_done ?cut i vs True ?vs"
      proof (rule entry_shrunk [OF ok i conjunct1 [OF ws]])
        show "vma_range ?w = vma_range ?v - ?cut"
          unfolding conjunct2 [OF ws] r urange_def using split by (intro ivl_cut(2)) (simp_all add: nat)
        show "vma_range ?v \<inter> ?cut \<noteq> {}"
          unfolding r urange_def using split bound(2) by (intro ivl_cut(3)) (simp_all add: nat)
      qed
      have slot: "vma_slot ?vs = Some j"
        using j used len i unfolding vma_slot_def
        by (subst find_slot_cong [where ys = vs]) (auto simp: nth_list_update)
      have n: "vma_ok ?n \<and> vma_range ?n = {unat ue..<unat (vma_end ?v)}"
        using split bound dvd used lt by (intro vma_made) (simp_all add: nat)
      have m: "mapped ?vs = mapped vs - (vma_range ?v \<inter> ?cut)" "vmas_ok ?vs"
        using cut by (simp_all add: entry_done_def)
      have "vma_range ?n \<inter> mapped ?vs = {}"
        using split bound lt unfolding m using n by (auto simp: r urange_def nat)
      note put = vmas_ok_insert [OF m(2) slot conjunct1 [OF n] this]
      have "vma_range ?v \<subseteq> mapped vs" using i len by (auto simp: mapped_nth)
      then have "mapped vs' = mapped vs - (vma_range ?v \<inter> ?R)"
        unfolding h put m using n split bound lt by (auto simp: r urange_def nat)
      moreover have "vma_range (vs' ! i) \<inter> ?R = {}"
        using jn i len ws split by (auto simp: h urange_def nat nth_list_update)
      moreover have "vma_range ?v \<inter> ?R \<noteq> {}"
        by (rule meet [OF split(1)])
      ultimately show ?thesis
        using h put jn n len i by (auto simp: entry_done_def nth_list_update urange_def)
    qed
  qed
qed


lemma munmap_entry_full:
  "munmap_entry ub ue i vs = Inl u \<Longrightarrow> \<forall>v \<in> set vs. vm_used v"
  using find_slot_None [of "\<lambda>v. \<not> vm_used v" vs]
  by (auto simp: munmap_entry_def Let_def vma_slot_def split: if_splits option.splits)

text \<open>The loop over the whole table.\<close>

lemma munmap_loop_done:
  assumes "vmas_ok vs" and "\<forall>i \<in> set is. i < MAX_VMAS" and "4096 dvd unat ub" and "4096 dvd unat ue"
    and "unat ub < unat ue"
  shows "case munmap_loop ub ue is any vs of
      Inr (any', vs') \<Rightarrow> vmas_ok vs' \<and>
        mapped vs' = mapped vs - ((\<Union>i \<in> set is. vma_range (vs ! i)) \<inter> urange ub ue) \<and>
        (any' \<longleftrightarrow> any \<or> (\<Union>i \<in> set is. vma_range (vs ! i)) \<inter> urange ub ue \<noteq> {}) \<and>
        (any' = any \<and> (\<Union>i \<in> set is. vma_range (vs ! i)) \<inter> urange ub ue = {} \<longrightarrow> vs' = vs)
    | Inl vs' \<Rightarrow> vmas_ok vs' \<and> mapped vs' \<subseteq> mapped vs \<and> mapped vs - urange ub ue \<subseteq> mapped vs' \<and>
        (\<forall>v \<in> set vs'. vm_used v)"
  using assms(1,2)
proof (induction "is" arbitrary: any vs)
  case Nil
  then show ?case by simp
next
  case (Cons i "is")
  let ?R = "urange ub ue" and ?U = "\<lambda>vs. \<Union>j \<in> set is. vma_range (vs ! j)"
  show ?case
  proof (cases "munmap_entry ub ue i vs")
    case (Inl u)
    then show ?thesis
      using Cons.prems(1) munmap_entry_full [OF Inl] by simp
  next
    case (Inr r)
    obtain hit vs1 where e: "munmap_entry ub ue i vs = Inr (hit, vs1)"
      using Inr by (cases r) auto
    have i: "i < MAX_VMAS" using Cons.prems(2) by simp
    have d: "entry_done ?R i vs hit vs1"
      by (rule munmap_entry_done [OF Cons.prems(1) i assms(3-5) e])
    then have ok1: "vmas_ok vs1" by (simp add: entry_done_def)
    have each: "vma_range (vs1 ! j) \<inter> ?R = (if j = i then {} else vma_range (vs ! j) \<inter> ?R)" if "j < MAX_VMAS" for j
      using d that by (simp add: entry_done_def)
    have U: "?U vs1 \<inter> ?R = ?U vs \<inter> ?R - (if i \<in> set is then vma_range (vs ! i) \<inter> ?R else {})"
    proof -
      have "?U vs1 \<inter> ?R = (\<Union>j \<in> set is. vma_range (vs1 ! j) \<inter> ?R)"
        by blast
      also have "\<dots> = (\<Union>j \<in> set is. if j = i then {} else vma_range (vs ! j) \<inter> ?R)"
        using each Cons.prems(2) by (intro SUP_cong) simp_all
      also have "\<dots> = ?U vs \<inter> ?R - (if i \<in> set is then vma_range (vs ! i) \<inter> ?R else {})"
        using vmas_disjoint [OF Cons.prems(1) i] Cons.prems(2) by (auto split: if_splits)
      finally show ?thesis .
    qed
    note IH = Cons.IH [OF ok1, of "any \<or> hit"]
    have m1: "mapped vs1 = mapped vs - (vma_range (vs ! i) \<inter> ?R)" and
      h: "hit \<longleftrightarrow> vma_range (vs ! i) \<inter> ?R \<noteq> {}" and same: "\<not> hit \<longrightarrow> vs1 = vs"
      using d by (simp_all add: entry_done_def)
    show ?thesis
    proof (cases "munmap_loop ub ue is (any \<or> hit) vs1")
      case (Inl vs2)
      then show ?thesis
        using IH Cons.prems(2) e m1 by auto
    next
      case (Inr r2)
      obtain any2 vs2 where r2: "r2 = (any2, vs2)" by (cases r2)
      have all: "(\<Union>j \<in> set (i # is). vma_range (vs ! j)) \<inter> ?R = (vma_range (vs ! i) \<inter> ?R) \<union> (?U vs1 \<inter> ?R)"
        unfolding U by auto
      have "vmas_ok vs2" "mapped vs2 = mapped vs1 - (?U vs1 \<inter> ?R)" "any2 \<longleftrightarrow> any \<or> hit \<or> ?U vs1 \<inter> ?R \<noteq> {}"
        "any2 = (any \<or> hit) \<and> ?U vs1 \<inter> ?R = {} \<longrightarrow> vs2 = vs1"
        using IH Cons.prems(2) Inr r2 by auto
      moreover have "munmap_loop ub ue (i # is) any vs = Inr (any2, vs2)"
        using e Inr r2 by simp
      ultimately show ?thesis
        using m1 h same unfolding all by auto
    qed
  qed
qed

text \<open>The loop of \<open>proc_recompute_mmap_next\<close> ends because no range is empty.\<close>

lemma mmap_next_scan_returns:
  assumes "vmas_ok vs" and "0x400000 \<le> unat hi"
  shows "\<exists>nx. mmap_next_scan vs hi = Some nx \<and> 0x400000 \<le> unat nx \<and> unat nx \<le> unat hi"
  using assms(2)
proof (induction "unat hi" arbitrary: hi rule: less_induct)
  case less
  show ?case
  proof (cases "find (\<lambda>v. vm_used v \<and> vma_end v = hi) vs")
    case None
    then show ?thesis
      using less.prems by (subst mmap_next_scan.simps) simp
  next
    case (Some v)
    then have v: "v \<in> set vs" "vm_used v" "vma_end v = hi"
      by (auto simp: find_Some_iff)
    then have ok: "vma_ok v" using assms(1) by (simp add: vmas_ok_def)
    then have lt: "unat (vm_base v) < unat hi" "0x400000 \<le> unat (vm_base v)"
      using vma_end_nat [OF ok v(2)] v by (auto simp: vma_ok_def)
    from less.hyps [OF lt] show ?thesis
      using Some lt(1) by (subst mmap_next_scan.simps) force
  qed
qed

text \<open>C24: \<open>munmap\<close> of up to \<open>2^63\<close> bytes always returns and keeps the ranges well formed. On
  success exactly the rounded range is no longer mapped; with \<open>EINVAL\<close> nothing changes (the
  arguments are bad or nothing was mapped there); with \<open>ENOMEM\<close>, which needs a full table, at
  most addresses of the range were unmapped.\<close>

theorem munmap_unmaps_exactly:
  assumes "vmas_ok (p_vmas p)" and "unat len \<le> 2 ^ 63"
    and "R = {unat addr..<unat addr + unat (align_up_u64 len PAGE)}"
  shows "\<exists>r p'. sys_munmap addr len p = Some (r, p') \<and> vmas_ok (p_vmas p') \<and>
    (r = 0 \<and> mapped (p_vmas p') = mapped (p_vmas p) - R \<and> mapped (p_vmas p) \<inter> R \<noteq> {} \<or>
     r = sys_err EINVAL \<and> p_vmas p' = p_vmas p \<or>
     r = sys_err ENOMEM \<and> mapped (p_vmas p) - R \<subseteq> mapped (p_vmas p') \<and>
       mapped (p_vmas p') \<subseteq> mapped (p_vmas p) \<and> (\<forall>v \<in> set (p_vmas p'). vm_used v))"
proof -
  let ?alen = "align_up_u64 len PAGE"
  show ?thesis
  proof (cases "addr AND (PAGE - 1) \<noteq> 0 \<or> len = 0 \<or> addr + ?alen < addr")
    case True
    then show ?thesis
      using assms(1) by (auto simp: sys_munmap_def Let_def)
  next
    case False
    then have "addr AND mask 12 = 0"
      by (simp add: PAGE_def mask_eq_exp_minus_1)
    then have a: "4096 dvd unat addr" by (simp add: and_mask_dvd_nat)
    have len: "len \<noteq> 0" using False by simp
    note al = align_up_page [OF assms(2) len]
    have ue: "unat (addr + ?alen) = unat addr + unat ?alen"
      using False by (simp add: unat_plus_simple not_less)
    have R: "urange addr (addr + ?alen) = R"
      by (simp add: urange_def ue assms(3))
    have whole: "(\<Union>i \<in> set [0..<MAX_VMAS]. vma_range (p_vmas p ! i)) = mapped (p_vmas p)"
      using assms(1) by (auto simp: mapped_nth vmas_ok_def)
    have "4096 dvd unat (addr + ?alen)" "unat addr < unat (addr + ?alen)"
      using a al ue by (simp_all add: dvd_add)
    note loop = munmap_loop_done [OF assms(1) _ a this, of "[0..<MAX_VMAS]" False, unfolded whole R]
    have call: "sys_munmap addr len p =
      (case munmap_loop addr (addr + ?alen) [0..<MAX_VMAS] False (p_vmas p) of
          Inl vs \<Rightarrow> Some (sys_err ENOMEM, p\<lparr>p_vmas := vs\<rparr>)
        | Inr (any, vs) \<Rightarrow>
            (if \<not> any then Some (sys_err EINVAL, p\<lparr>p_vmas := vs\<rparr>)
             else map_option (\<lambda>nx. (0, p\<lparr>p_vmas := vs, p_mmap_next := nx\<rparr>))
               (proc_recompute_mmap_next (p\<lparr>p_vmas := vs\<rparr>))))"
      using False by (auto simp: sys_munmap_def Let_def)
    show ?thesis
    proof (cases "munmap_loop addr (addr + ?alen) [0..<MAX_VMAS] False (p_vmas p)")
      case (Inl vs)
      then show ?thesis
        using loop by (simp add: call)
    next
      case (Inr r)
      obtain any vs where r: "r = (any, vs)" by (cases r)
      have l: "vmas_ok vs" "mapped vs = mapped (p_vmas p) - R" "any \<longleftrightarrow> mapped (p_vmas p) \<inter> R \<noteq> {}"
        "\<not> any \<longrightarrow> vs = p_vmas p"
        using loop Inr r by auto
      show ?thesis
      proof (cases any)
        case False
        then show ?thesis
          using Inr r l assms(1) by (simp add: call)
      next
        case True
        obtain nx where "proc_recompute_mmap_next (p\<lparr>p_vmas := vs\<rparr>) = Some nx"
          using mmap_next_scan_returns [OF l(1) proc_mmap_hi_range(2)]
          by (auto simp: proc_recompute_mmap_next_def)
        then show ?thesis
          using Inr r l True by (simp add: call)
      qed
    qed
  qed
qed


lemma no_vmas_ok: "vmas_ok (replicate MAX_VMAS vma_clear)" "mapped (replicate MAX_VMAS vma_clear) = {}"
  by (auto simp: vmas_ok_def mapped_def)

lemma mmap_places_free_range_witness:
  "\<exists>r p'. sys_mmap 0 4096 0x22 (- 1) 0 proc_clear = Some (r, p') \<and> vmas_ok (p_vmas p')"
  using mmap_places_free_range [of proc_clear 4096 0 "0x22" "- 1" 0] no_vmas_ok
  by (auto simp: proc_clear_def)

lemma munmap_unmaps_exactly_witness:
  "\<exists>r p'. sys_munmap 0x500000 8192 proc_clear = Some (r, p') \<and> vmas_ok (p_vmas p')"
proof -
  have "vmas_ok (p_vmas proc_clear)" by (simp add: proc_clear_def no_vmas_ok)
  from munmap_unmaps_exactly [OF this _ refl, of 8192 "0x500000"] show ?thesis by auto
qed

subsection \<open>\<open>brk\<close>\<close>

definition heap_ok :: "proc \<Rightarrow> bool" where
  "heap_ok p \<longleftrightarrow> p_heap_base p = 0 \<or>
     0x400000 \<le> unat (p_heap_base p) \<and> p_heap_base p \<le> p_heap_end p \<and> unat (p_heap_end p) \<le> 0x600000"

lemma mm_init_heap:
  "heap_ok p \<Longrightarrow> 0x400000 \<le> unat (p_heap_base (mm_init p)) \<and> p_heap_base (mm_init p) \<le> p_heap_end (mm_init p) \<and>
     unat (p_heap_end (mm_init p)) \<le> 0x600000"
  by (auto simp: heap_ok_def mm_init_def Let_def align_up_u64_def USER_REGION_BASE_def)

lemma stack_limit_range: "unat (stack_limit p) \<le> 0x600000"
  by (auto simp: stack_limit_def Let_def USER_REGION_BASE_def USER_REGION_SIZE_def word_less_nat_alt)

text \<open>The program break never leaves the heap: whatever is requested, \<open>brk\<close> returns the break
  that is in force afterwards, which is either the old one or the request rounded up to 16, and
  it stays at or above the heap base, inside the user region, and (when it moved) 256 KiB below
  the recorded stack. The mappings are not touched.\<close>

lemma brk_stays_in_bounds:
  assumes "heap_ok p" and "sys_brk newbrk p = (r, p')"
  shows "r = p_heap_end p' \<and> heap_ok p' \<and> p_vmas p' = p_vmas p \<and>
    (p' = mm_init p \<or>
     r = align_up_u64 newbrk 16 \<and> p_heap_base p' \<le> r \<and> r \<le> stack_limit p' \<and> newbrk \<noteq> 0)"
proof -
  note h = mm_init_heap [OF assms(1)]
  let ?a = "align_up_u64 newbrk 16" and ?p = "mm_init p"
  show ?thesis
  proof (cases "newbrk = 0 \<or> ?a < p_heap_base ?p \<or> stack_limit ?p < ?a")
    case True
    then have "r = p_heap_end ?p" "p' = ?p"
      using assms(2) unfolding sys_brk_def Let_def by (auto split: if_splits)
    then show ?thesis using h by (simp add: heap_ok_def)
  next
    case False
    then have r: "r = ?a" and p': "p' = ?p\<lparr>p_heap_end := ?a\<rparr>"
      using assms(2) unfolding sys_brk_def Let_def by (auto split: if_splits)
    have "stack_limit p' = stack_limit ?p"
      unfolding p' by (rule stack_limit_cong) simp
    moreover have "unat ?a \<le> 0x600000"
      using False stack_limit_range [of ?p] by (auto simp: not_less word_le_nat_alt)
    ultimately show ?thesis
      using False h r unfolding p' by (simp add: heap_ok_def not_less)
  qed
qed

subsection \<open>Where the calls go wrong\<close>

text \<open>The length is rounded up before it is compared with anything, so a length in the last page
  of the 64-bit range becomes zero and a length just below it passes the room test by wrapping.\<close>

definition bare_proc :: proc where
  "bare_proc = proc_clear\<lparr>p_stack_low := 0x600000\<rparr>"

lemma bare_hi: "proc_mmap_hi bare_proc = 0x5C0000" "mm_init bare_proc =
    bare_proc\<lparr>p_heap_base := 0x400000, p_heap_end := 0x400000\<rparr>"
  by code_simp+

text \<open>A defect of \<open>mmap\<close>: the request for \<open>2^64 - 4096\<close> bytes succeeds, with an address above
  the stack limit of the process and a range that wraps around the address space.\<close>

theorem mmap_huge_length_accepted:
  "fst (the (sys_mmap 0 0xFFFFFFFFFFFFF000 0x22 (- 1) 0 bare_proc)) = 0x5C1000 \<and>
   proc_mmap_hi bare_proc < 0x5C1000"
  by code_simp


text \<open>A range of length zero that ends where the search starts is its own successor.\<close>

lemma mmap_next_scan_stuck:
  assumes "find (\<lambda>v. vm_used v \<and> vma_end v = hi) vs = Some v" and "vm_base v = hi"
  shows "mmap_next_scan vs hi = None"
proof -
  have "\<not> (vs' = vs \<and> hi' = hi)" if "mmap_next_scan vs' hi' = Some y" for vs' hi' y
    using assms
    by (intro mmap_next_scan.raw_induct [where P = "\<lambda>vs' hi' y. \<not> (vs' = vs \<and> hi' = hi)", OF _ that])
       (clarsimp split: option.splits, blast)
  then show ?thesis
    by (cases "mmap_next_scan vs hi") auto
qed

definition stuck_proc :: proc where
  "stuck_proc = snd (the (sys_mmap 0 4096 0x22 (- 1) 0
     (snd (the (sys_mmap 0 0xFFFFFFFFFFFFFFFF 0x22 (- 1) 0 bare_proc)))))"

definition stuck_vmas :: "vma list" where
  "stuck_vmas = \<lparr>vm_used = True, vm_base = 0x5C0000, vm_len = 0\<rparr> # replicate (MAX_VMAS - 1) vma_clear"

lemma stuck_proc_loop:
  "munmap_loop 0x5BF000 0x5C0000 [0..<MAX_VMAS] False (p_vmas stuck_proc) = Inr (True, stuck_vmas)"
  by code_simp

lemma stuck_proc_hi: "proc_mmap_hi (stuck_proc\<lparr>p_vmas := stuck_vmas\<rparr>) = 0x5C0000"
  by code_simp

text \<open>C25: a defect of \<open>munmap\<close>: after a process mapped \<open>2^64 - 1\<close> bytes (which records an empty
  range at the top) and one page, unmapping that page never returns; the kernel loops forever.\<close>

theorem munmap_can_hang:
  "sys_munmap 0x5BF000 4096 stuck_proc = None"
proof -
  have a: "align_up_u64 4096 PAGE = 0x1000"
    by (simp add: align_up_u64_def PAGE_def)
  have g: "0x5BF000 AND (PAGE - 1) = 0"
    by (simp add: PAGE_def)
  have "proc_recompute_mmap_next (stuck_proc\<lparr>p_vmas := stuck_vmas\<rparr>) = None"
    unfolding proc_recompute_mmap_next_def stuck_proc_hi
    by (rule mmap_next_scan_stuck [where v = "hd stuck_vmas"]) (simp_all add: stuck_vmas_def vma_end_def)
  then show ?thesis
    using stuck_proc_loop by (simp add: sys_munmap_def a g)
qed

text \<open>A defect of \<open>brk\<close>: it looks at the stack but not at the mappings, so the heap of a process
  can be grown over a page it has mapped.\<close>

theorem brk_grows_over_mapping:
  "let p = snd (sys_brk 0x5C0000 (snd (the (sys_mmap 0 4096 0x22 (- 1) 0 bare_proc))))
   in \<exists>v \<in> set (p_vmas p). vm_used v \<and> p_heap_base p \<le> vm_base v \<and> vma_end v \<le> p_heap_end p"
  by code_simp

end
