(* ===== verification/Sched.thy ===== *)
theory Sched
imports Proc Cpio
begin

text \<open>
  \<open>kernel-aarch64/sched.c\<close>: waking sleepers and console readers, choosing the next process, and
  completing a blocked system call when its process gets the processor again.

  The loop of \<open>sched_pick_next_runnable\<close> may wait for ever, so it reads what one pass observes
  (the characters received, the counter, the interrupt that ends its idling) from a list and is
  undefined (\<open>None\<close>) when the list is used up. \<open>usb\<close> is \<open>None\<close> in a build without USB, otherwise
  the effect of \<open>usb_poll\<close>. The interrupts of \<open>kernel-aarch64/irq.c\<close> are here too.
\<close>

record pass =
  ob_rx :: string
  ob_poll_cnt :: u64
  ob_wake_cnt :: u64
  ob_idle_cnt :: u64
  ob_tick :: bool
  ob_irq_rx :: string

type_synonym usb_poll = "(kernel \<Rightarrow> kernel) option"

definition clock :: "kernel \<Rightarrow> u64 \<Rightarrow> u64" where
  "clock k cnt = time_now_ns (k_timer k) cnt"

text \<open>\<open>console_in_poll\<close> on the whole kernel, as \<open>usb_poll\<close> also receives packets.\<close>

definition kernel_poll :: "usb_poll \<Rightarrow> pass \<Rightarrow> kernel \<Rightarrow> kernel" where
  "kernel_poll usb ob k =
     (let k1 = k\<lparr>k_con := fold uart_input (ob_rx ob) (k_con k)\<rparr>
      in case usb of
        None \<Rightarrow> k1
      | Some usb_poll \<Rightarrow>
          let now = clock k (ob_poll_cnt ob) in
          if now \<noteq> 0 then
            if ci_next_poll (k_con k1) = 0 \<or> ci_next_poll (k_con k1) \<le> now
            then let k2 = usb_poll k1
              in k2\<lparr>k_con := (k_con k2)\<lparr>ci_next_poll := now + CONSOLE_IN_POLL_INTERVAL_NS\<rparr>\<rparr>
            else k1
          else usb_poll k1)"

definition sched_wake_sleepers :: "u64 \<Rightarrow> kernel \<Rightarrow> kernel" where
  "sched_wake_sleepers now k =
     k\<lparr>k_procs := map (\<lambda>p. if p_state p = PROC_SLEEPING \<and> p_deadline p \<le> now
                         then p\<lparr>p_state := PROC_RUNNABLE\<rparr> else p) (k_procs k)\<rparr>"

text \<open>The search loops of the scheduler: round-robin from the slot after \<open>g_last_sched\<close>.\<close>

definition next_from :: "(proc \<Rightarrow> bool) \<Rightarrow> kernel \<Rightarrow> nat option" where
  "next_from P k =
     map_option (\<lambda>s. (k_last_sched k + Suc s) mod MAX_PROCS)
       (find_slot (\<lambda>step. P (k_procs k ! ((k_last_sched k + step) mod MAX_PROCS))) [1..<Suc MAX_PROCS])"

definition console_reader :: "proc \<Rightarrow> bool" where
  "console_reader p \<longleftrightarrow> p_state p = PROC_BLOCKED_IO \<and> pr_on (p_read p)"

definition sched_wake_one_console_reader_if_ready :: "kernel \<Rightarrow> nat option \<times> kernel" where
  "sched_wake_one_console_reader_if_ready k =
     (if \<not> console_in_has_data (k_con k) then (None, k)
      else case next_from console_reader k of
        None \<Rightarrow> (None, k)
      | Some idx \<Rightarrow> (Some idx, set_proc idx (\<lambda>p. p\<lparr>p_state := PROC_RUNNABLE\<rparr>) k))"

definition sched_any_sleepers :: "kernel \<Rightarrow> u64 option" where
  "sched_any_sleepers k =
     fold (\<lambda>p e. if p_state p \<noteq> PROC_SLEEPING then e
               else case e of None \<Rightarrow> Some (p_deadline p)
                 | Some d \<Rightarrow> if p_deadline p < d then Some (p_deadline p) else e)
       (k_procs k) None"

text \<open>Programming the timer before waiting for an interrupt.\<close>

definition idle_wake_ns :: "usb_poll \<Rightarrow> u64 option \<Rightarrow> u64 \<Rightarrow> u64 \<Rightarrow> u64" where
  "idle_wake_ns usb sleepers next_poll now =
     (let wake = (case sleepers of None \<Rightarrow> 0 | Some earliest \<Rightarrow> earliest)
      in if usb \<noteq> None
         then let np = (if next_poll = 0 then now else next_poll)
           in if wake = 0 \<or> np < wake then np else wake
         else wake)"

definition idle_timer :: "usb_poll \<Rightarrow> u64 option \<Rightarrow> bool \<Rightarrow> u64 \<Rightarrow> kernel \<Rightarrow> timer" where
  "idle_timer usb sleepers blocked_io cnt k =
     (if sleepers = None \<and> blocked_io \<and> usb = None then time_tick_disable (k_timer k)
      else let now = clock k cnt
        in if now = 0 then time_tick_enable_periodic (k_timer k)
        else let wake = idle_wake_ns usb sleepers (ci_next_poll (k_con k)) now
          in if now < wake then time_tick_schedule_oneshot_ns (wake - now) (k_timer k)
             else time_tick_schedule_oneshot_ns 1 (k_timer k))"

text \<open>
  One pass of the loop: a process is chosen, nothing is left to wait for, or the processor idles.
\<close>

datatype choice = Chosen nat | Nothing_left | Idle

definition sched_pass :: "usb_poll \<Rightarrow> pass \<Rightarrow> kernel \<Rightarrow> choice \<times> kernel" where
  "sched_pass usb ob k =
     (let k1 = kernel_poll usb ob k;
          k2 = sched_wake_sleepers (clock k1 (ob_wake_cnt ob)) k1
      in case sched_wake_one_console_reader_if_ready k2 of
        (Some woke, k3) \<Rightarrow> (Chosen woke, k3\<lparr>k_last_sched := woke\<rparr>)
      | (None, k3) \<Rightarrow>
          (case next_from (\<lambda>p. p_state p = PROC_RUNNABLE) k3 of
             Some idx \<Rightarrow> (Chosen idx, k3\<lparr>k_last_sched := idx\<rparr>)
           | None \<Rightarrow>
               let sleepers = sched_any_sleepers k3;
                   blocked_io = list_ex (\<lambda>p. p_state p = PROC_BLOCKED_IO) (k_procs k3)
               in if sleepers = None \<and> \<not> blocked_io then (Nothing_left, k3)
                  else (Idle, k3\<lparr>k_timer := idle_timer usb sleepers blocked_io (ob_idle_cnt ob) k3\<rparr>)))"

text \<open>
  An interrupt: the timer if it is due, then the characters the UART has, which come as they are
  (\<open>console_in_poll\<close> makes a line feed of a carriage return, the handler does not).
\<close>

definition irq_handle :: "usb_poll \<Rightarrow> bool \<Rightarrow> string \<Rightarrow> kernel \<Rightarrow> kernel" where
  "irq_handle usb tick rx k =
     (let k1 = (if tick
                then let k0 = k\<lparr>k_timer := time_tick_handle_irq (k_timer k)\<rparr>
                  in case usb of None \<Rightarrow> k0 | Some usb_poll \<Rightarrow> usb_poll k0
                else k)
      in k1\<lparr>k_con := fold console_in_inject_char rx (k_con k1)\<rparr>)"

fun sched_pick_next_runnable :: "usb_poll \<Rightarrow> pass list \<Rightarrow> kernel \<Rightarrow> (nat option \<times> kernel) option" where
  "sched_pick_next_runnable usb [] k = None"
| "sched_pick_next_runnable usb (ob # obs) k =
     (case sched_pass usb ob k of
        (Chosen idx, k') \<Rightarrow> Some (Some idx, k')
      | (Nothing_left, k') \<Rightarrow> Some (None, k')
      | (Idle, k') \<Rightarrow> sched_pick_next_runnable usb obs (irq_handle usb (ob_tick ob) (ob_irq_rx ob) k'))"

subsection \<open>Completing blocked system calls\<close>

definition sched_complete_console_read_if_needed :: "nat \<Rightarrow> kernel \<Rightarrow> kernel" where
  "sched_complete_console_read_if_needed idx k =
     (let r = p_read (k_procs k ! idx) in
      if \<not> pr_on r then k
      else if pr_len r = 0 then set_proc idx (\<lambda>p. set_x0 0 p\<lparr>p_read := read_clear\<rparr>) k
      else case drain console_in_pop (unat (pr_len r)) (k_con k) of (cs, con) \<Rightarrow>
        if cs = [] then set_proc idx (\<lambda>p. p\<lparr>p_state := PROC_BLOCKED_IO\<rparr>) k
        else (set_proc idx (\<lambda>p. set_x0 (word_of_nat (length cs)) p\<lparr>p_read := read_clear\<rparr>) k)
               \<lparr>k_con := con, k_mem := store_bytes (user_base k) (pr_buf r) (map char_byte cs) (k_mem k)\<rparr>)"

definition ping6_finish :: "nat \<Rightarrow> kernel \<Rightarrow> kernel" where
  "ping6_finish idx k =
     (let g = p_ping6 (k_procs k ! idx);
          m = (if pg_ret g = 0 \<and> pg_rtt_user g \<noteq> 0
               then case write_u64_to_user (user_base k) (pg_rtt_user g) (pg_rtt g) (k_mem k) of
                   None \<Rightarrow> k_mem k | Some m \<Rightarrow> m
               else k_mem k)
      in (set_proc idx (\<lambda>p. set_x0 (pg_ret g) p\<lparr>p_ping6 := ping6_clear\<rparr>) k)\<lparr>k_mem := m\<rparr>)"

definition sched_complete_ping6_if_needed :: "u64 \<Rightarrow> nat \<Rightarrow> kernel \<Rightarrow> kernel" where
  "sched_complete_ping6_if_needed now idx k =
     (let p = k_procs k ! idx; g = p_ping6 p in
      if \<not> pg_on g then k
      else if \<not> pg_done g then
        if p_deadline p \<noteq> 0 \<and> p_deadline p \<le> now
        then ping6_finish idx (set_proc idx (\<lambda>p. p\<lparr>p_deadline := 0,
               p_ping6 := (p_ping6 p)\<lparr>pg_done := True, pg_ret := sys_err ETIMEDOUT, pg_rtt := 0\<rparr>\<rparr>) k)
        else k
      else ping6_finish idx k)"

definition udp6_finish :: "u64 \<Rightarrow> proc \<Rightarrow> proc" where
  "udp6_finish x0 p = set_x0 x0 p\<lparr>p_udp6 := udp6_clear, p_deadline := 0\<rparr>"

definition try_write :: "u64 \<Rightarrow> u64 \<Rightarrow> u8 list \<Rightarrow> memory \<Rightarrow> memory" where
  "try_write base va bs m = (case write_bytes_to_user base va bs m of None \<Rightarrow> m | Some m' \<Rightarrow> m')"

definition udp6_copy_out :: "u64 \<Rightarrow> pending_udp6 \<Rightarrow> udp6_dgram \<Rightarrow> memory \<Rightarrow> u64 \<times> memory" where
  "udp6_copy_out base u dg m =
     (let bs = take (unat (pu_len u)) (dg_data dg);
          r = (if bs = [] then (0, m)
               else case write_bytes_to_user base (pu_buf u) bs m of
                   None \<Rightarrow> (sys_err EFAULT, m)
                 | Some m' \<Rightarrow> (word_of_nat (length bs), m'));
          m2 = (if pu_src_ip u \<noteq> 0 then try_write base (pu_src_ip u) (dg_src_ip dg) (snd r) else snd r);
          m3 = (if pu_src_port u \<noteq> 0 then try_write base (pu_src_port u) (bytes_of_u16 (dg_src_port dg)) m2 else m2)
      in (fst r, m3))"

definition sched_complete_udp6_recv_if_needed :: "u64 \<Rightarrow> nat \<Rightarrow> kernel \<Rightarrow> kernel" where
  "sched_complete_udp6_recv_if_needed now idx k =
     (let p = k_procs k ! idx; u = p_udp6 p in
      if \<not> pu_on u then k
      else case net_udp6_try_recv (pu_sock u) (fs_udp (k_fd k)) of
        (Inr dg, st) \<Rightarrow>
          (case udp6_copy_out (user_base k) u dg (k_mem k) of (x0, m) \<Rightarrow>
             (set_proc idx (udp6_finish x0) k)\<lparr>k_fd := (k_fd k)\<lparr>fs_udp := st\<rparr>, k_mem := m\<rparr>)
      | (Inl e, st) \<Rightarrow>
          if e = EAGAIN then
            if p_deadline p \<noteq> 0 \<and> p_deadline p \<le> now
            then set_proc idx (udp6_finish (sys_err ETIMEDOUT)) k
            else set_proc idx (\<lambda>p. p\<lparr>p_state := (if p_deadline p \<noteq> 0 then PROC_SLEEPING else PROC_BLOCKED_IO)\<rparr>) k
          else set_proc idx (udp6_finish (sys_err e)) k)"

text \<open>
  The processor resumes with the frame and return address of the process. The two counter reads
  are those of the completion of ping and of receive.
\<close>

type_synonym regs = "trap_frame \<times> u64"

definition proc_switch_to :: "u64 \<Rightarrow> u64 \<Rightarrow> nat \<Rightarrow> kernel \<Rightarrow> regs \<times> kernel" where
  "proc_switch_to cnt1 cnt2 idx k =
     (let k1 = mmu_ttbr0_write (p_ttbr0 (k_procs k ! idx)) (k\<lparr>k_cur := idx\<rparr>);
          k2 = sched_complete_console_read_if_needed idx k1;
          k3 = sched_complete_ping6_if_needed (clock k2 cnt1) idx k2;
          k4 = sched_complete_udp6_recv_if_needed (clock k3 cnt2) idx k3
      in ((p_tf (k_procs k4 ! idx), p_elr (k_procs k4 ! idx)), k4))"

definition sched_maybe_switch ::
  "usb_poll \<Rightarrow> pass list \<Rightarrow> u64 \<Rightarrow> u64 \<Rightarrow> regs \<Rightarrow> kernel \<Rightarrow> (regs \<times> kernel) option"
where
  "sched_maybe_switch usb obs cnt1 cnt2 ctx k =
     (case sched_pick_next_runnable usb obs k of
        None \<Rightarrow> None
      | Some (None, k') \<Rightarrow> Some (ctx, k')
      | Some (Some idx, k') \<Rightarrow>
          if idx \<noteq> k_cur k' then Some (proc_switch_to cnt1 cnt2 idx k') else Some (ctx, k'))"

subsection \<open>Choosing\<close>

text \<open>\<open>sched_any_sleepers\<close> is the earliest deadline of the sleepers.\<close>

definition sleep_deadlines :: "kernel \<Rightarrow> u64 list" where
  "sleep_deadlines k = map p_deadline (filter (\<lambda>p. p_state p = PROC_SLEEPING) (k_procs k))"

lemma fold_earliest:
  "fold (\<lambda>p e. if p_state p \<noteq> PROC_SLEEPING then e
      else case e of None \<Rightarrow> Some (p_deadline p)
        | Some d \<Rightarrow> if p_deadline p < d then Some (p_deadline p) else e) ps (Some d) =
   Some (fold min (map p_deadline (filter (\<lambda>p. p_state p = PROC_SLEEPING) ps)) d)"
proof (induction ps arbitrary: d)
  case (Cons p ps)
  have "(if p_deadline p < d then Some (p_deadline p) else Some d) = Some (min (p_deadline p) d)"
    by (auto simp: min_def)
  then show ?case using Cons.IH by simp
qed simp

lemma any_sleepers:
  "sched_any_sleepers k = (if sleep_deadlines k = [] then None else Some (Min (set (sleep_deadlines k))))"
proof -
  have "fold (\<lambda>p e. if p_state p \<noteq> PROC_SLEEPING then e
      else case e of None \<Rightarrow> Some (p_deadline p)
        | Some d \<Rightarrow> if p_deadline p < d then Some (p_deadline p) else e) ps None =
     (case map p_deadline (filter (\<lambda>p. p_state p = PROC_SLEEPING) ps) of [] \<Rightarrow> None
        | d # ds \<Rightarrow> Some (fold min ds d))" for ps
    by (induction ps) (simp_all add: fold_earliest)
  from this [of "k_procs k", folded sleep_deadlines_def sched_any_sleepers_def] show ?thesis
    by (cases "sleep_deadlines k") (simp_all add: Min.set_eq_fold [symmetric])
qed

lemma any_sleepers_None:
  "sched_any_sleepers k = None \<longleftrightarrow> (\<forall>p \<in> set (k_procs k). p_state p \<noteq> PROC_SLEEPING)"
  by (auto simp: any_sleepers sleep_deadlines_def filter_empty_conv)

text \<open>
  What \<open>usb_poll\<close> may do to the process table: a delivered packet makes a process that waits for
  it runnable.
\<close>

definition woken_by_net :: "proc \<Rightarrow> proc \<Rightarrow> bool" where
  "woken_by_net p q \<longleftrightarrow> p_state p \<in> {PROC_SLEEPING, PROC_BLOCKED_IO} \<and> (pu_on (p_udp6 p) \<or> pg_on (p_ping6 p)) \<and>
     p_state q = PROC_RUNNABLE"

definition same_or_net :: "proc \<Rightarrow> proc \<Rightarrow> bool" where
  "same_or_net p q \<longleftrightarrow> p_read q = p_read p \<and>
     (p_state q = p_state p \<and> (p_state q = PROC_SLEEPING \<longrightarrow> p_deadline q = p_deadline p) \<or> woken_by_net p q)"

text \<open>What the scheduler and the poll leave alone: memory, translation tables, open files.\<close>

definition same_space :: "proc \<Rightarrow> proc \<Rightarrow> bool" where
  "same_space p q \<longleftrightarrow> p_user_pa q = p_user_pa p \<and> p_ttbr0 q = p_ttbr0 p \<and> p_fdt q = p_fdt p \<and>
     (p_state q = PROC_UNUSED \<longleftrightarrow> p_state p = PROC_UNUSED)"

definition same_tasks :: "kernel \<Rightarrow> kernel \<Rightarrow> bool" where
  "same_tasks k k' \<longleftrightarrow> list_all2 same_space (k_procs k) (k_procs k') \<and> k_pmm k' = k_pmm k \<and>
     k_mmu k' = k_mmu k \<and> k_user_of k' = k_user_of k \<and>
     (\<forall>held tabs. fd_inv held tabs (k_fd k) \<longrightarrow> fd_inv held tabs (k_fd k'))"

definition poll_ok :: "usb_poll \<Rightarrow> bool" where
  "poll_ok usb \<longleftrightarrow> (case usb of None \<Rightarrow> True
     | Some f \<Rightarrow> \<forall>k. k_last_sched (f k) = k_last_sched k \<and> k_cur (f k) = k_cur k \<and> same_tasks k (f k) \<and> list_all2 same_or_net (k_procs k) (k_procs (f k)))"

text \<open>The changes one pass makes to a process, when \<open>now\<close> is the time it reads.\<close>

definition pass_effect :: "u64 \<Rightarrow> proc \<Rightarrow> proc \<Rightarrow> bool" where
  "pass_effect now p q \<longleftrightarrow> p_read q = p_read p \<and>
     (p_state q = p_state p \<and> (p_state q = PROC_SLEEPING \<longrightarrow> p_deadline q = p_deadline p \<and> now < p_deadline q) \<or>
      woken_by_net p q \<or>
      p_state q = PROC_RUNNABLE \<and> (p_state p = PROC_SLEEPING \<and> p_deadline p \<le> now \<or> console_reader p))"

definition sched_ok :: "kernel \<Rightarrow> bool" where
  "sched_ok k \<longleftrightarrow> length (k_procs k) = MAX_PROCS \<and> k_last_sched k < MAX_PROCS"

lemma find_slot_upt:
  "find_slot f [1..<Suc n] = Some s \<Longrightarrow> s < n \<and> f (Suc s) \<and> (\<forall>t < s. \<not> f (Suc t))"
  "find_slot f [1..<Suc n] = None \<longleftrightarrow> (\<forall>t < n. \<not> f (Suc t))"
proof -
  have eq: "[1..<Suc n] = map Suc [0..<n]" by (simp only: map_Suc_upt One_nat_def)
  show "find_slot f [1..<Suc n] = Some s \<Longrightarrow> s < n \<and> f (Suc s) \<and> (\<forall>t < s. \<not> f (Suc t))"
    unfolding eq by (drule find_slot_Some) auto
  show "find_slot f [1..<Suc n] = None \<longleftrightarrow> (\<forall>t < n. \<not> f (Suc t))"
    unfolding eq by (auto simp: find_slot_None) (metis Suc_le_D Suc_less_eq)
qed

lemma next_from_Some:
  assumes "next_from P k = Some i"
  shows "i < MAX_PROCS" and "P (k_procs k ! i)"
    and "\<exists>s < MAX_PROCS. i = (k_last_sched k + Suc s) mod MAX_PROCS \<and>
      (\<forall>t < s. \<not> P (k_procs k ! ((k_last_sched k + Suc t) mod MAX_PROCS)))"
proof -
  let ?f = "\<lambda>step. P (k_procs k ! ((k_last_sched k + step) mod MAX_PROCS))"
  obtain s where s: "find_slot ?f [1..<Suc MAX_PROCS] = Some s" "i = (k_last_sched k + Suc s) mod MAX_PROCS"
    using assms(1) unfolding next_from_def by blast
  then show "i < MAX_PROCS" by (simp add: MAX_PROCS_def)
  show "P (k_procs k ! i)" using find_slot_upt(1) [OF s(1)] s(2) by blast
  show "\<exists>s < MAX_PROCS. i = (k_last_sched k + Suc s) mod MAX_PROCS \<and>
      (\<forall>t < s. \<not> P (k_procs k ! ((k_last_sched k + Suc t) mod MAX_PROCS)))"
    using find_slot_upt(1) [OF s(1)] s(2) by blast
qed

text \<open>The slots after \<open>a\<close> are all slots.\<close>

lemma slot_after:
  assumes "i < MAX_PROCS" and "a < MAX_PROCS"
  shows "i = (a + Suc ((i + MAX_PROCS - Suc a) mod MAX_PROCS)) mod MAX_PROCS"
proof -
  have "(Suc a + (i + MAX_PROCS - Suc a) mod MAX_PROCS) mod MAX_PROCS = (Suc a + (i + MAX_PROCS - Suc a)) mod MAX_PROCS"
    by (rule mod_add_right_eq)
  also have "\<dots> = i" using assms by simp
  finally show ?thesis by simp
qed

lemma next_from_None:
  assumes "next_from P k = None" and "sched_ok k" and "i < MAX_PROCS"
  shows "\<not> P (k_procs k ! i)"
proof -
  let ?s = "(i + MAX_PROCS - Suc (k_last_sched k)) mod MAX_PROCS"
  have s: "?s < MAX_PROCS" "i = (k_last_sched k + Suc ?s) mod MAX_PROCS"
    using slot_after [OF assms(3)] assms(2) by (simp_all add: sched_ok_def MAX_PROCS_def)
  have "\<not> P (k_procs k ! ((k_last_sched k + Suc ?s) mod MAX_PROCS))"
    using assms(1) s(1) unfolding next_from_def option.map_disc_iff find_slot_upt(2) by blast
  then show ?thesis unfolding s(2) [symmetric] .
qed

lemma kernel_poll_effect:
  assumes "poll_ok usb"
  shows "list_all2 same_or_net (k_procs k) (k_procs (kernel_poll usb ob k))"
    and "k_last_sched (kernel_poll usb ob k) = k_last_sched k"
proof -
  let ?k1 = "k\<lparr>k_con := fold uart_input (ob_rx ob) (k_con k)\<rparr>"
  have refl: "list_all2 same_or_net ps ps" for ps
    by (simp add: list_all2_same same_or_net_def)
  have f: "k_last_sched (f ?k1) = k_last_sched k \<and> list_all2 same_or_net (k_procs k) (k_procs (f ?k1))"
    if "usb = Some f" for f
    using assms that by (auto simp: poll_ok_def dest: spec [where x = ?k1])
  show "list_all2 same_or_net (k_procs k) (k_procs (kernel_poll usb ob k))"
    and "k_last_sched (kernel_poll usb ob k) = k_last_sched k"
    using f refl [of "k_procs k"] by (cases usb; simp add: kernel_poll_def Let_def)+
qed

text \<open>The state after the wake-ups of a pass, on which it chooses.\<close>

definition pass_ready :: "usb_poll \<Rightarrow> pass \<Rightarrow> kernel \<Rightarrow> kernel" where
  "pass_ready usb ob k =
     (let k1 = kernel_poll usb ob k in sched_wake_sleepers (clock k1 (ob_wake_cnt ob)) k1)"

definition pass_now :: "usb_poll \<Rightarrow> pass \<Rightarrow> kernel \<Rightarrow> u64" where
  "pass_now usb ob k = clock (kernel_poll usb ob k) (ob_wake_cnt ob)"

lemma pass_ready_effect:
  assumes "poll_ok usb"
  shows "list_all2 (pass_effect (pass_now usb ob k)) (k_procs k) (k_procs (pass_ready usb ob k))"
    and "k_last_sched (pass_ready usb ob k) = k_last_sched k"
    and "\<forall>q \<in> set (k_procs (pass_ready usb ob k)). p_state q = PROC_SLEEPING \<longrightarrow> pass_now usb ob k < p_deadline q"
proof -
  let ?now = "pass_now usb ob k"
  let ?w = "\<lambda>p. if p_state p = PROC_SLEEPING \<and> p_deadline p \<le> ?now then p\<lparr>p_state := PROC_RUNNABLE\<rparr> else p"
  have eq: "k_procs (pass_ready usb ob k) = map ?w (k_procs (kernel_poll usb ob k))"
    by (simp add: pass_ready_def pass_now_def Let_def sched_wake_sleepers_def)
  have step: "same_or_net p q \<Longrightarrow> pass_effect ?now p (?w q)" for p q
    by (auto simp: same_or_net_def pass_effect_def woken_by_net_def)
  show "list_all2 (pass_effect ?now) (k_procs k) (k_procs (pass_ready usb ob k))"
    unfolding eq list.rel_map using kernel_poll_effect(1) [OF assms] by (rule list_all2_mono) (rule step)
  show "k_last_sched (pass_ready usb ob k) = k_last_sched k"
    using kernel_poll_effect(2) [OF assms] by (simp add: pass_ready_def Let_def sched_wake_sleepers_def)
  show "\<forall>q \<in> set (k_procs (pass_ready usb ob k)). p_state q = PROC_SLEEPING \<longrightarrow> ?now < p_deadline q"
    unfolding eq by auto
qed

lemma pass_ready_ok: "poll_ok usb \<Longrightarrow> sched_ok k \<Longrightarrow> sched_ok (pass_ready usb ob k)"
  using pass_ready_effect(1) [of usb ob k] pass_ready_effect(2) [of usb ob k]
  by (auto simp: sched_ok_def dest: list_all2_lengthD)

lemma same_tasks_refl: "k_procs k' = k_procs k \<Longrightarrow> k_pmm k' = k_pmm k \<Longrightarrow> k_mmu k' = k_mmu k \<Longrightarrow>
    k_user_of k' = k_user_of k \<Longrightarrow> k_fd k' = k_fd k \<Longrightarrow> same_tasks k k'"
  by (simp add: same_tasks_def list_all2_same same_space_def)

lemma same_tasks_trans: "same_tasks k k' \<Longrightarrow> same_tasks k' k'' \<Longrightarrow> same_tasks k k''"
  unfolding same_tasks_def
  using list_all2_trans [of same_space same_space same_space "k_procs k" "k_procs k'" "k_procs k''"]
  by (auto simp: same_space_def)

lemma same_tasks_set_proc:
  assumes "i < length (k_procs k) \<Longrightarrow> same_space (k_procs k ! i) (f (k_procs k ! i))"
  shows "same_tasks k (set_proc i f k)"
proof -
  have "same_space p p" for p by (simp add: same_space_def)
  then have "list_all2 same_space (k_procs k) (k_procs (set_proc i f k))"
    using assms by (simp add: list_all2_conv_all_nth set_proc_nth)
  then show ?thesis by (simp add: same_tasks_def)
qed

lemma same_tasks_frame [simp]:
  "same_tasks k k" "same_tasks k (k'\<lparr>k_con := c\<rparr>) \<longleftrightarrow> same_tasks k k'" "same_tasks k (k'\<lparr>k_mem := m\<rparr>) \<longleftrightarrow> same_tasks k k'"
  "same_tasks k (k'\<lparr>k_cur := n\<rparr>) \<longleftrightarrow> same_tasks k k'" "same_tasks k (k'\<lparr>k_ttbr0 := t\<rparr>) \<longleftrightarrow> same_tasks k k'"
  "same_tasks k (k'\<lparr>k_last_sched := n\<rparr>) \<longleftrightarrow> same_tasks k k'"
  by (simp_all add: same_tasks_def list_all2_same same_space_def)

lemma kernel_poll_tasks:
  assumes "poll_ok usb"
  shows "same_tasks k (kernel_poll usb ob k) \<and> k_cur (kernel_poll usb ob k) = k_cur k"
proof -
  let ?k1 = "k\<lparr>k_con := fold uart_input (ob_rx ob) (k_con k)\<rparr>"
  have k1: "same_tasks k ?k1" by (rule same_tasks_refl) simp_all
  have f: "same_tasks k (f ?k1\<lparr>k_con := c\<rparr>) \<and> same_tasks k (f ?k1) \<and> k_cur (f ?k1) = k_cur k"
    if "usb = Some f" for f c
  proof -
    have "\<forall>k. k_cur (f k) = k_cur k \<and> same_tasks k (f k)"
      using assms that by (simp add: poll_ok_def)
    then have a: "same_tasks ?k1 (f ?k1)" "k_cur (f ?k1) = k_cur ?k1" by blast+
    have "same_tasks (f ?k1) (f ?k1\<lparr>k_con := c\<rparr>)" by (rule same_tasks_refl) simp_all
    with a show ?thesis
      using same_tasks_trans [OF k1 a(1)] same_tasks_trans [of k "f ?k1" "f ?k1\<lparr>k_con := c\<rparr>"] by simp
  qed
  show ?thesis
  proof (cases usb)
    case None
    then show ?thesis using k1 by (simp add: kernel_poll_def Let_def)
  next
    case (Some g)
    show ?thesis using f [OF Some] k1 by (simp add: kernel_poll_def Some Let_def)
  qed
qed

lemma pass_ready_tasks:
  assumes "poll_ok usb"
  shows "same_tasks k (pass_ready usb ob k) \<and> k_cur (pass_ready usb ob k) = k_cur k"
proof -
  have "same_tasks k1 (sched_wake_sleepers now k1)" for k1 now
    by (simp add: same_tasks_def sched_wake_sleepers_def list_all2_conv_all_nth same_space_def)
  from this [of "kernel_poll usb ob k"] show ?thesis
    using kernel_poll_tasks [OF assms, of k ob] same_tasks_trans [of k "kernel_poll usb ob k"]
    by (simp add: pass_ready_def Let_def) (simp add: sched_wake_sleepers_def)
qed

lemma wake_console_cases:
  assumes "sched_wake_one_console_reader_if_ready k = (r, k')"
  shows "r = None \<and> k' = k \<and> (console_in_has_data (k_con k) \<longrightarrow> next_from console_reader k = None) \<or>
    (\<exists>i. r = Some i \<and> console_in_has_data (k_con k) \<and> next_from console_reader k = Some i \<and>
      k' = set_proc i (\<lambda>p. p\<lparr>p_state := PROC_RUNNABLE\<rparr>) k)"
  using assms unfolding sched_wake_one_console_reader_if_ready_def
  by (cases "next_from console_reader k") (simp_all split: if_splits)

lemma pass_effect_woken:
  "pass_effect now p q \<Longrightarrow> console_reader q \<Longrightarrow> pass_effect now p (q\<lparr>p_state := PROC_RUNNABLE\<rparr>)"
  by (auto simp: pass_effect_def woken_by_net_def console_reader_def)

text \<open>The three outcomes of a pass.\<close>

lemma sched_pass_cases:
  assumes poll: "poll_ok usb" and ok: "sched_ok k" and r: "sched_pass usb ob k = (c, k')"
  obtains (reader) i where "c = Chosen i" and "next_from console_reader (pass_ready usb ob k) = Some i"
      and "console_in_has_data (k_con (pass_ready usb ob k))"
      and "k' = (set_proc i (\<lambda>p. p\<lparr>p_state := PROC_RUNNABLE\<rparr>) (pass_ready usb ob k))\<lparr>k_last_sched := i\<rparr>"
    | (ready) i where "c = Chosen i" and "next_from (\<lambda>p. p_state p = PROC_RUNNABLE) (pass_ready usb ob k) = Some i"
      and "k' = pass_ready usb ob k\<lparr>k_last_sched := i\<rparr>"
    | (none_left) "c = Nothing_left" and "k' = pass_ready usb ob k"
      and "\<And>p. p \<in> set (k_procs k') \<Longrightarrow> p_state p \<in> {PROC_UNUSED, PROC_WAITING, PROC_ZOMBIE}"
    | (idle) "c = Idle" and "k' = pass_ready usb ob k\<lparr>k_timer :=
        idle_timer usb (sched_any_sleepers (pass_ready usb ob k))
          (list_ex (\<lambda>p. p_state p = PROC_BLOCKED_IO) (k_procs (pass_ready usb ob k)))
          (ob_idle_cnt ob) (pass_ready usb ob k)\<rparr>"
      and "\<And>p. p \<in> set (k_procs k') \<Longrightarrow> p_state p \<noteq> PROC_RUNNABLE"
proof -
  let ?r = "pass_ready usb ob k"
  have okr: "sched_ok ?r" by (rule pass_ready_ok [OF poll ok])
  obtain w k3 where w: "sched_wake_one_console_reader_if_ready ?r = (w, k3)" by fastforce
  have pass: "sched_pass usb ob k = (case w of
        Some woke \<Rightarrow> (Chosen woke, k3\<lparr>k_last_sched := woke\<rparr>)
      | None \<Rightarrow> (case next_from (\<lambda>p. p_state p = PROC_RUNNABLE) k3 of
             Some idx \<Rightarrow> (Chosen idx, k3\<lparr>k_last_sched := idx\<rparr>)
           | None \<Rightarrow> let sleepers = sched_any_sleepers k3;
                   blocked_io = list_ex (\<lambda>p. p_state p = PROC_BLOCKED_IO) (k_procs k3)
               in if sleepers = None \<and> \<not> blocked_io then (Nothing_left, k3)
                  else (Idle, k3\<lparr>k_timer := idle_timer usb sleepers blocked_io (ob_idle_cnt ob) k3\<rparr>)))"
    using w by (simp add: sched_pass_def pass_ready_def Let_def split: option.splits)
  have none: "p_state p \<noteq> PROC_RUNNABLE"
    if "next_from (\<lambda>p. p_state p = PROC_RUNNABLE) ?r = None" "p \<in> set (k_procs ?r)" for p
    using next_from_None [OF that(1) okr] that(2) okr by (auto simp: in_set_conv_nth sched_ok_def)
  from wake_console_cases [OF w] show thesis
  proof (elim disjE exE conjE)
    fix i assume "w = Some i" "console_in_has_data (k_con ?r)" "next_from console_reader ?r = Some i"
      "k3 = set_proc i (\<lambda>p. p\<lparr>p_state := PROC_RUNNABLE\<rparr>) ?r"
    then show thesis using reader [of i] r pass by simp
  next
    assume w: "w = None" "k3 = ?r"
    show thesis
    proof (cases "next_from (\<lambda>p. p_state p = PROC_RUNNABLE) ?r")
      case (Some i)
      then show thesis using ready [of i] r pass w by simp
    next
      case None
      note n = none [OF None]
      show thesis
      proof (cases "sched_any_sleepers ?r = None \<and> \<not> list_ex (\<lambda>p. p_state p = PROC_BLOCKED_IO) (k_procs ?r)")
        case True
        then have un: "p_state p \<in> {PROC_UNUSED, PROC_WAITING, PROC_ZOMBIE}" if "p \<in> set (k_procs ?r)" for p
          using n [OF that] that any_sleepers_None [of ?r] by (cases "p_state p") (auto simp: list_ex_iff)
        have c: "c = Nothing_left" and k': "k' = ?r" using r pass w None True by (simp_all add: Let_def)
        from un have "p_state p \<in> {PROC_UNUSED, PROC_WAITING, PROC_ZOMBIE}" if "p \<in> set (k_procs k')" for p
          using that unfolding k' .
        then show thesis using none_left [OF c k'] by blast
      next
        case False
        have c: "c = Idle" and k': "k' = ?r\<lparr>k_timer := idle_timer usb (sched_any_sleepers ?r)
            (list_ex (\<lambda>p. p_state p = PROC_BLOCKED_IO) (k_procs ?r)) (ob_idle_cnt ob) ?r\<rparr>"
          using False r pass w None by (auto simp: Let_def)
        from n have "p_state p \<noteq> PROC_RUNNABLE" if "p \<in> set (k_procs k')" for p
          using that unfolding k' by simp
        then show thesis using idle [OF c k'] by blast
      qed
    qed
  qed
qed

text \<open>What any number of passes may do to a process that is not chosen or woken.\<close>

definition wait_effect :: "proc \<Rightarrow> proc \<Rightarrow> bool" where
  "wait_effect p q \<longleftrightarrow> p_read q = p_read p \<and>
     (p_state q = p_state p \<or> p_state p \<in> {PROC_SLEEPING, PROC_BLOCKED_IO} \<and> p_state q = PROC_RUNNABLE)"

lemma pass_wait_effect: "pass_effect now p q \<Longrightarrow> wait_effect p q"
  by (auto simp: pass_effect_def wait_effect_def woken_by_net_def console_reader_def)

lemma wait_effect_trans: "wait_effect p q \<Longrightarrow> wait_effect q r \<Longrightarrow> wait_effect p r"
  by (auto simp: wait_effect_def)

lemma sched_pass_effect:
  assumes poll: "poll_ok usb" and ok: "sched_ok k" and r: "sched_pass usb ob k = (c, k')"
  shows "sched_ok k'" and "list_all2 (pass_effect (pass_now usb ob k)) (k_procs k) (k_procs k')"
    and "c = Chosen i \<Longrightarrow> i < MAX_PROCS \<and> p_state (k_procs k' ! i) = PROC_RUNNABLE \<and> k_last_sched k' = i"
    and "c = Nothing_left \<Longrightarrow> \<forall>p \<in> set (k_procs k'). p_state p \<in> {PROC_UNUSED, PROC_WAITING, PROC_ZOMBIE}"
proof -
  let ?r = "pass_ready usb ob k"
  note okr = pass_ready_ok [OF poll ok, of ob] and eff = pass_ready_effect(1) [OF poll, of ob k]
  have "sched_ok k' \<and> list_all2 (pass_effect (pass_now usb ob k)) (k_procs k) (k_procs k') \<and>
      (c = Chosen i \<longrightarrow> i < MAX_PROCS \<and> p_state (k_procs k' ! i) = PROC_RUNNABLE \<and> k_last_sched k' = i) \<and>
      (c = Nothing_left \<longrightarrow> (\<forall>p \<in> set (k_procs k'). p_state p \<in> {PROC_UNUSED, PROC_WAITING, PROC_ZOMBIE}))"
  proof (cases rule: sched_pass_cases [OF poll ok r])
    case (1 j)
    note j = next_from_Some(1,2) [OF 1(2)]
    have len: "j < length (k_procs ?r)" using j(1) okr by (simp add: sched_ok_def)
    have "pass_effect (pass_now usb ob k) (k_procs k ! j) ((k_procs ?r ! j)\<lparr>p_state := PROC_RUNNABLE\<rparr>)"
      using list_all2_nthD2 [OF eff len] j(2) by (rule pass_effect_woken)
    then have "list_all2 (pass_effect (pass_now usb ob k)) (k_procs k) (k_procs k')"
      using eff len by (auto simp: 1(4) list_all2_conv_all_nth set_proc_nth)
    then show ?thesis using 1 j(1) okr len by (simp add: sched_ok_def)
  next
    case (2 j)
    then show ?thesis using okr eff next_from_Some(1,2) [OF 2(2)] by (auto simp: sched_ok_def)
  next
    case 3
    then show ?thesis using okr eff by simp
  next
    case 4
    then show ?thesis using okr eff by (simp add: sched_ok_def)
  qed
  then show "sched_ok k'" "list_all2 (pass_effect (pass_now usb ob k)) (k_procs k) (k_procs k')"
    "c = Chosen i \<Longrightarrow> i < MAX_PROCS \<and> p_state (k_procs k' ! i) = PROC_RUNNABLE \<and> k_last_sched k' = i"
    "c = Nothing_left \<Longrightarrow> \<forall>p \<in> set (k_procs k'). p_state p \<in> {PROC_UNUSED, PROC_WAITING, PROC_ZOMBIE}"
    by blast+
qed

lemma sched_pass_tasks:
  assumes poll: "poll_ok usb" and ok: "sched_ok k" and r: "sched_pass usb ob k = (c, k')"
  shows "same_tasks k k' \<and> k_cur k' = k_cur k"
proof -
  let ?r = "pass_ready usb ob k"
  note t = pass_ready_tasks [OF poll, of k ob]
  from poll ok r show ?thesis
  proof (cases rule: sched_pass_cases)
    case (reader i)
    let ?f = "\<lambda>p :: proc. p\<lparr>p_state := PROC_RUNNABLE\<rparr>"
    have "i < length (k_procs ?r)" and live: "p_state (k_procs ?r ! i) = PROC_BLOCKED_IO"
      using next_from_Some(1,2) [OF reader(2)] pass_ready_ok [OF poll ok, of ob]
      by (auto simp: sched_ok_def console_reader_def)
    then have "same_tasks ?r (set_proc i ?f ?r)" by (intro same_tasks_set_proc) (simp add: same_space_def)
    moreover have "same_tasks (set_proc i ?f ?r) k'" unfolding reader(4) by (rule same_tasks_refl) simp_all
    ultimately have "same_tasks ?r k'" by (rule same_tasks_trans)
    then show ?thesis using same_tasks_trans [OF conjunct1 [OF t]] t reader(4) by simp
  next
    case (ready i)
    have "same_tasks ?r k'" unfolding ready(3) by (rule same_tasks_refl) simp_all
    then show ?thesis using same_tasks_trans [OF conjunct1 [OF t]] t ready(3) by simp
  next
    case none_left
    then show ?thesis using t by simp
  next
    case idle
    have "same_tasks ?r k'" unfolding idle(2) by (rule same_tasks_refl) simp_all
    then show ?thesis using same_tasks_trans [OF conjunct1 [OF t]] t idle(2) by simp
  qed
qed

lemma irq_handle_effect:
  assumes "poll_ok usb"
  shows "same_tasks k (irq_handle usb tick rx k) \<and> k_cur (irq_handle usb tick rx k) = k_cur k"
    and "list_all2 same_or_net (k_procs k) (k_procs (irq_handle usb tick rx k))"
    and "sched_ok k \<Longrightarrow> sched_ok (irq_handle usb tick rx k)"
proof -
  let ?k0 = "k\<lparr>k_timer := time_tick_handle_irq (k_timer k)\<rparr>"
  have 0: "same_tasks k ?k0" by (rule same_tasks_refl) simp_all
  have refl: "list_all2 same_or_net ps ps" for ps by (simp add: list_all2_same same_or_net_def)
  have f: "k_cur (f ?k0) = k_cur k \<and> k_last_sched (f ?k0) = k_last_sched k \<and> same_tasks k (f ?k0) \<and>
      list_all2 same_or_net (k_procs k) (k_procs (f ?k0))" if "usb = Some f" for f
    using assms that same_tasks_trans [OF 0, of "f ?k0"] by (auto simp: poll_ok_def dest: spec [where x = ?k0])
  show eff: "same_tasks k (irq_handle usb tick rx k) \<and> k_cur (irq_handle usb tick rx k) = k_cur k"
    "list_all2 same_or_net (k_procs k) (k_procs (irq_handle usb tick rx k))"
    using 0 refl f by (cases usb; simp add: irq_handle_def Let_def)+
  have "k_last_sched (irq_handle usb tick rx k) = k_last_sched k"
    using f by (cases usb; simp add: irq_handle_def Let_def)
  then show "sched_ok (irq_handle usb tick rx k)" if "sched_ok k"
    using that eff(2) by (auto simp: sched_ok_def dest: list_all2_lengthD)
qed

lemma net_wait_effect: "same_or_net p q \<Longrightarrow> wait_effect p q"
  by (auto simp: same_or_net_def woken_by_net_def wait_effect_def)

lemma sched_pick_tasks:
  assumes "poll_ok usb"
  shows "sched_ok k \<Longrightarrow> sched_pick_next_runnable usb obs k = Some (r, k') \<Longrightarrow> same_tasks k k' \<and> k_cur k' = k_cur k"
proof (induction obs arbitrary: k)
  case (Cons ob obs)
  obtain c k1 where p: "sched_pass usb ob k = (c, k1)" by fastforce
  note t = sched_pass_tasks [OF assms Cons.prems(1) p] and ok = sched_pass_effect(1) [OF assms Cons.prems(1) p]
  show ?case
  proof (cases c)
    case Idle
    let ?k2 = "irq_handle usb (ob_tick ob) (ob_irq_rx ob) k1"
    note i = irq_handle_effect [OF assms, of k1 "ob_tick ob" "ob_irq_rx ob"]
    have "same_tasks k ?k2" using same_tasks_trans [OF conjunct1 [OF t]] i(1) by blast
    then show ?thesis using Idle Cons.IH [OF i(3) [OF ok]] Cons.prems(2) p t i(1) same_tasks_trans [of k ?k2] by simp
  qed (use Cons.prems(2) p t in auto)
qed simp

lemma pick_runnable:
  assumes "poll_ok usb" and "sched_ok k" and "sched_pick_next_runnable usb obs k = Some (r, k')"
  shows "sched_ok k' \<and> list_all2 wait_effect (k_procs k) (k_procs k') \<and>
    (case r of
       Some i \<Rightarrow> i < MAX_PROCS \<and> p_state (k_procs k' ! i) = PROC_RUNNABLE \<and> k_last_sched k' = i
     | None \<Rightarrow> \<forall>p \<in> set (k_procs k'). p_state p \<in> {PROC_UNUSED, PROC_WAITING, PROC_ZOMBIE})"
  using assms(2,3)
proof (induction obs arbitrary: k)
  case (Cons ob obs)
  obtain c k1 where p: "sched_pass usb ob k = (c, k1)" by fastforce
  note eff = sched_pass_effect [OF assms(1) Cons.prems(1) p]
  have w: "list_all2 wait_effect (k_procs k) (k_procs k1)"
    using eff(2) by (rule list_all2_mono) (rule pass_wait_effect)
  show ?case
  proof (cases c)
    case (Chosen i)
    then show ?thesis using Cons.prems(2) p w eff(1) eff(3) [of i] by auto
  next
    case Nothing_left
    then show ?thesis using Cons.prems(2) p w eff(1,4) by auto
  next
    case Idle
    let ?k2 = "irq_handle usb (ob_tick ob) (ob_irq_rx ob) k1"
    note i = irq_handle_effect [OF assms(1), of k1 "ob_tick ob" "ob_irq_rx ob"]
    have "list_all2 wait_effect (k_procs k1) (k_procs ?k2)"
      using i(2) by (rule list_all2_mono) (rule net_wait_effect)
    then have w2: "list_all2 wait_effect (k_procs k) (k_procs ?k2)"
      using w list_all2_trans [of wait_effect wait_effect wait_effect] wait_effect_trans by blast
    from Idle have "sched_ok k' \<and> list_all2 wait_effect (k_procs ?k2) (k_procs k') \<and>
      (case r of
         Some i \<Rightarrow> i < MAX_PROCS \<and> p_state (k_procs k' ! i) = PROC_RUNNABLE \<and> k_last_sched k' = i
       | None \<Rightarrow> \<forall>p \<in> set (k_procs k'). p_state p \<in> {PROC_UNUSED, PROC_WAITING, PROC_ZOMBIE})"
      using Cons.IH [OF i(3) [OF eff(1)]] Cons.prems(2) p by simp
    then show ?thesis
      using w2 list_all2_trans [of wait_effect wait_effect wait_effect] wait_effect_trans by blast
  qed
qed simp

text \<open>C27: whatever input and clock values the scheduler sees while it waits, the process it
  returns is runnable and remembered as the last one scheduled; it gives up only when every process
  is free, waiting for a child or dead; and while it waits it changes no process except by waking
  sleepers and blocked processes.\<close>

theorem sched_picks_runnable:
  assumes "poll_ok usb" and "sched_ok k" and "sched_pick_next_runnable usb obs k = Some (r, k')"
  shows "sched_ok k' \<and> list_all2 wait_effect (k_procs k) (k_procs k') \<and>
    (case r of
       Some i \<Rightarrow> i < MAX_PROCS \<and> p_state (k_procs k' ! i) = PROC_RUNNABLE \<and> k_last_sched k' = i
     | None \<Rightarrow> \<forall>p \<in> set (k_procs k'). p_state p \<in> {PROC_UNUSED, PROC_WAITING, PROC_ZOMBIE})"
  using assms by (rule pick_runnable)

text \<open>C28: sleep ends on time: after a pass a process that sleeps and waits for no packet is
  runnable exactly when its deadline has been reached by the clock of the pass. When the scheduler
  then idles (in a build without USB, with a working clock) the timer is set for the interval to
  the earliest deadline of the sleepers.\<close>

theorem sleep_ends_on_time:
  assumes "poll_ok usb" and "sched_ok k" and "sched_pass usb ob k = (c, k')" and "i < MAX_PROCS"
    and "p_state (k_procs k ! i) = PROC_SLEEPING"
    and "\<not> pu_on (p_udp6 (k_procs k ! i))" and "\<not> pg_on (p_ping6 (k_procs k ! i))"
  shows "(if p_deadline (k_procs k ! i) \<le> pass_now usb ob k then p_state (k_procs k' ! i) = PROC_RUNNABLE
     else p_state (k_procs k' ! i) = PROC_SLEEPING \<and> p_deadline (k_procs k' ! i) = p_deadline (k_procs k ! i)) \<and>
    (c = Idle \<and> usb = None \<and> clock k (ob_idle_cnt ob) \<noteq> 0 \<longrightarrow>
      (let earliest = Min (set (sleep_deadlines k')); now = clock k (ob_idle_cnt ob)
       in k_timer k' = time_tick_schedule_oneshot_ns (if now < earliest then earliest - now else 1) (k_timer k)))"
proof -
  have len: "length (k_procs k) = MAX_PROCS" using assms(2) by (simp add: sched_ok_def)
  have eff: "pass_effect (pass_now usb ob k) (k_procs k ! i) (k_procs k' ! i)"
    using sched_pass_effect(2) [OF assms(1-3)] assms(4) len by (simp add: list_all2_conv_all_nth)
  have "\<not> console_reader (k_procs k ! i)" using assms(5) by (simp add: console_reader_def)
  then have a: "if p_deadline (k_procs k ! i) \<le> pass_now usb ob k then p_state (k_procs k' ! i) = PROC_RUNNABLE
     else p_state (k_procs k' ! i) = PROC_SLEEPING \<and> p_deadline (k_procs k' ! i) = p_deadline (k_procs k ! i)"
    using eff assms(5-7) by (auto simp: pass_effect_def woken_by_net_def)
  moreover have "let earliest = Min (set (sleep_deadlines k')); now = clock k (ob_idle_cnt ob)
      in k_timer k' = time_tick_schedule_oneshot_ns (if now < earliest then earliest - now else 1) (k_timer k)"
    if c: "c = Idle" "usb = None" "clock k (ob_idle_cnt ob) \<noteq> 0"
  proof (cases rule: sched_pass_cases [OF assms(1-3)])
    case 4
    let ?r = "pass_ready usb ob k"
    have r: "k_timer ?r = k_timer k" "clock ?r = clock k" "sleep_deadlines k' = sleep_deadlines ?r"
      using c(2) by (auto simp: pass_ready_def kernel_poll_def sched_wake_sleepers_def Let_def clock_def
          sleep_deadlines_def 4(2) fun_eq_iff)
    have mem: "k_procs k' ! i \<in> set (k_procs k')"
      using sched_pass_effect(1) [OF assms(1-3)] assms(4) by (simp add: sched_ok_def)
    then have "p_state (k_procs k' ! i) = PROC_SLEEPING" using a 4(3) by (auto split: if_splits)
    with mem have "sleep_deadlines ?r \<noteq> []"
      unfolding r(3) [symmetric] by (auto simp: sleep_deadlines_def filter_empty_conv)
    then show ?thesis
      using c(3) unfolding r(3) unfolding 4(2)
      by (simp add: any_sleepers idle_timer_def idle_wake_ns_def Let_def r [unfolded c(2)] c(2))
  qed (use c in simp_all)
  ultimately show ?thesis by blast
qed

subsection \<open>Fairness\<close>

text \<open>How many slots come before \<open>i\<close> when the search starts after \<open>a\<close>.\<close>

definition ahead :: "nat \<Rightarrow> nat \<Rightarrow> nat" where
  "ahead a i = (i + MAX_PROCS - Suc a) mod MAX_PROCS"

lemma ahead_unique: "e < MAX_PROCS \<Longrightarrow> a < MAX_PROCS \<Longrightarrow> ahead a ((a + Suc e) mod MAX_PROCS) = e"
  by (auto simp: ahead_def MAX_PROCS_def mod_if)

lemma ahead_lt: "ahead a i < MAX_PROCS"
  by (simp add: ahead_def MAX_PROCS_def)

lemma slot_ahead: "i < MAX_PROCS \<Longrightarrow> a < MAX_PROCS \<Longrightarrow> (a + Suc (ahead a i)) mod MAX_PROCS = i"
  using slot_after [of i a] by (simp add: ahead_def)

lemma ready_pass_advances:
  assumes poll: "poll_ok usb" and ok: "sched_ok k" and r: "sched_pass usb ob k = (c, k')"
    and i: "i < MAX_PROCS" and run: "p_state (k_procs k ! i) = PROC_RUNNABLE"
    and quiet: "\<forall>p \<in> set (k_procs k). \<not> pr_on (p_read p)"
  shows "\<exists>j. c = Chosen j \<and> k_last_sched k' = j \<and> (j = i \<or> ahead j i < ahead (k_last_sched k) i)"
proof -
  let ?r = "pass_ready usb ob k"
  note okr = pass_ready_ok [OF poll ok, of ob] and eff = pass_ready_effect(1) [OF poll, of ob k]
  have len: "length (k_procs k) = MAX_PROCS" "length (k_procs ?r) = MAX_PROCS" "k_last_sched k < MAX_PROCS"
    using ok okr by (simp_all add: sched_ok_def)
  have e: "pass_effect (pass_now usb ob k) (k_procs k ! m) (k_procs ?r ! m)" if "m < MAX_PROCS" for m
    using eff that len by (simp add: list_all2_conv_all_nth)
  have run': "p_state (k_procs ?r ! i) = PROC_RUNNABLE"
    using e [OF i] run by (auto simp: pass_effect_def woken_by_net_def console_reader_def)
  have quiet': "\<not> console_reader (k_procs ?r ! m)" if "m < MAX_PROCS" for m
    using e [OF that] quiet that len by (auto simp: pass_effect_def console_reader_def)
  from poll ok r show ?thesis
  proof (cases rule: sched_pass_cases)
    case (reader j)
    then show ?thesis using next_from_Some(1,2) [OF reader(2)] quiet' by blast
  next
    case (ready j)
    obtain s where s: "s < MAX_PROCS" "j = (k_last_sched k + Suc s) mod MAX_PROCS"
        and none: "\<And>t. t < s \<Longrightarrow> p_state (k_procs ?r ! ((k_last_sched k + Suc t) mod MAX_PROCS)) \<noteq> PROC_RUNNABLE"
      using next_from_Some(3) [OF ready(2)] pass_ready_effect(2) [OF poll] by auto
    let ?d = "ahead (k_last_sched k) i"
    have d: "i = (k_last_sched k + Suc ?d) mod MAX_PROCS" "?d < MAX_PROCS"
      using slot_ahead [OF i len(3)] ahead_lt by simp_all
    then have "\<not> ?d < s" using none [of ?d] run' by metis
    moreover have "ahead j i < ?d" if "s < ?d"
    proof -
      have "(j + Suc (?d - Suc s)) mod MAX_PROCS = (k_last_sched k + Suc s + Suc (?d - Suc s)) mod MAX_PROCS"
        by (simp only: s(2) mod_add_left_eq)
      also have "k_last_sched k + Suc s + Suc (?d - Suc s) = k_last_sched k + Suc ?d" using that by simp
      finally have "(j + Suc (?d - Suc s)) mod MAX_PROCS = i" using d(1) by simp
      moreover have "j < MAX_PROCS" using s(2) by (simp add: MAX_PROCS_def)
      ultimately have "ahead j i = ?d - Suc s"
        using ahead_unique [of "?d - Suc s" j] d(2) by simp
      then show ?thesis using that by simp
    qed
    moreover have "j = i" if "s = ?d" using s(2) d(1) that by simp
    ultimately show ?thesis using ready by (cases "s = ?d") auto
  next
    case none_left
    then show ?thesis using run' none_left(3) [OF nth_mem, of i] i len(2) by simp
  next
    case idle
    then show ?thesis using run' idle(3) [OF nth_mem, of i] i len(2) by simp
  qed
qed

text \<open>C29: scheduling is fair: in any 16 consecutive decisions of the scheduler during which a
  process stays runnable (whatever else the kernel does between them) and no process waits for
  console input, the process is chosen at least once.\<close>

theorem round_robin_fair:
  assumes "poll_ok usb" and "i < MAX_PROCS"
    and "\<And>n. n < 16 \<Longrightarrow> sched_ok (k n) \<and> p_state (k_procs (k n) ! i) = PROC_RUNNABLE \<and>
      (\<forall>p \<in> set (k_procs (k n)). \<not> pr_on (p_read p))"
    and "\<And>n. n < 16 \<Longrightarrow> sched_pick_next_runnable usb (obs n) (k n) = Some (c n, k' n)"
    and "\<And>n. n < 15 \<Longrightarrow> k_last_sched (k (Suc n)) = k_last_sched (k' n)"
  shows "\<exists>n < 16. c n = Some i"
proof (rule ccontr)
  assume never: "\<not> (\<exists>n < 16. c n = Some i)"
  have step: "c n = Some i \<or> ahead (k_last_sched (k' n)) i < ahead (k_last_sched (k n)) i" if n: "n < 16" for n
  proof (cases "obs n")
    case Nil
    then show ?thesis using assms(4) [OF n] by simp
  next
    case (Cons ob more)
    obtain d k1 where p: "sched_pass usb ob (k n) = (d, k1)" by fastforce
    have "\<exists>j. d = Chosen j \<and> k_last_sched k1 = j \<and> (j = i \<or> ahead j i < ahead (k_last_sched (k n)) i)"
      using ready_pass_advances [OF assms(1) _ p assms(2)] assms(3) [OF n] by blast
    then show ?thesis using assms(4) [OF n] Cons p by auto
  qed
  have "ahead (k_last_sched (k n)) i + n \<le> 15" if "n < 16" for n
    using that
  proof (induction n)
    case 0
    then show ?case using ahead_lt [of "k_last_sched (k 0)" i] by (simp add: MAX_PROCS_def)
  next
    case (Suc n)
    then show ?case using step [of n] never assms(5) [of n] by fastforce
  qed
  from this [of 15] step [of 15] never show False by fastforce
qed

subsection \<open>Completing a blocked system call\<close>

lemma user_range_ok_shorter: "user_range_ok p n \<Longrightarrow> m \<le> unat n \<Longrightarrow> user_range_ok p (word_of_nat m)"
  using unsigned_less [of n] by (auto simp: user_range_ok_iff)

lemma complete_ping6_off: "\<not> pg_on (p_ping6 (k_procs k ! idx)) \<Longrightarrow> sched_complete_ping6_if_needed now idx k = k"
  by (simp add: sched_complete_ping6_if_needed_def Let_def)

lemma complete_udp6_off: "\<not> pu_on (p_udp6 (k_procs k ! idx)) \<Longrightarrow> sched_complete_udp6_recv_if_needed now idx k = k"
  by (simp add: sched_complete_udp6_recv_if_needed_def Let_def)

lemma complete_read_off: "\<not> pr_on (p_read (k_procs k ! idx)) \<Longrightarrow> sched_complete_console_read_if_needed idx k = k"
  by (simp add: sched_complete_console_read_if_needed_def Let_def)

lemma set_x0_frame [simp]:
  "p_ping6 (set_x0 v p) = p_ping6 p" "p_udp6 (set_x0 v p) = p_udp6 p" "p_read (set_x0 v p) = p_read p"
  "p_state (set_x0 v p) = p_state p" "p_elr (set_x0 v p) = p_elr p" "p_ttbr0 (set_x0 v p) = p_ttbr0 p"
  "p_fdt (set_x0 v p) = p_fdt p" "p_pid (set_x0 v p) = p_pid p" "p_deadline (set_x0 v p) = p_deadline p"
  "tf_x (p_tf (set_x0 v p)) = (tf_x (p_tf p))[0 := v]"
  by (simp_all add: set_x0_def)

text \<open>C30: a process blocked in a read of the console gets, when it is scheduled with input
  queued, the first queued characters, at most as many as it asked for: they are in its buffer, their
  number is the result of the system call, they have left the queue, and no memory outside its own
  block and no other process changes.\<close>

theorem blocked_read_completes:
  assumes "idx < length (k_procs k)" and "r = p_read (k_procs k ! idx)" and "pr_on r" and "pr_len r \<noteq> 0"
    and "user_range_ok (pr_buf r) (pr_len r)" and "ci_ok (k_con k)" and "ci_contents (k_con k) \<noteq> []"
    and "\<not> pu_on (p_udp6 (k_procs k ! idx))" and "\<not> pg_on (p_ping6 (k_procs k ! idx))"
    and "tf_x (p_tf (k_procs k ! idx)) \<noteq> []"
    and "base = k_user_of k (p_ttbr0 (k_procs k ! idx))" and "n = min (unat (pr_len r)) (length (ci_contents (k_con k)))"
    and "proc_switch_to cnt1 cnt2 idx k = ((tf, elr), k')"
  shows "tf_x tf ! 0 = word_of_nat n \<and> load_bytes base (k_mem k') (pr_buf r) n = map char_byte (take n (ci_contents (k_con k))) \<and>
    ci_contents (k_con k') = drop n (ci_contents (k_con k)) \<and> k_cur k' = idx \<and> \<not> pr_on (p_read (k_procs k' ! idx)) \<and>
    elr = p_elr (k_procs k ! idx) \<and> (\<forall>a. a \<notin> block base \<longrightarrow> k_mem k' a = k_mem k a) \<and>
    (\<forall>j < length (k_procs k). j \<noteq> idx \<longrightarrow> k_procs k' ! j = k_procs k ! j)"
proof -
  let ?cs = "take (unat (pr_len r)) (ci_contents (k_con k))"
  obtain con where con: "drain console_in_pop (unat (pr_len r)) (k_con k) = (?cs, con)"
      "ci_contents con = drop (unat (pr_len r)) (ci_contents (k_con k))"
    using con.drain_spec [OF assms(6), of "unat (pr_len r)"]
    by (cases "drain ring_pop (unat (pr_len r)) (k_con k)") (simp add: console_in_pop_def [abs_def])
  have "unat (pr_len r) \<noteq> 0" using assms(4) by (simp add: unat_eq_0)
  then have ne: "?cs \<noteq> []" using assms(7) by simp
  have n: "length ?cs = n" "take n (ci_contents (k_con k)) = ?cs"
      "drop (unat (pr_len r)) (ci_contents (k_con k)) = drop n (ci_contents (k_con k))"
    by (simp_all add: assms(12) min_def)
  let ?k1 = "mmu_ttbr0_write (p_ttbr0 (k_procs k ! idx)) (k\<lparr>k_cur := idx\<rparr>)"
  let ?k2 = "(set_proc idx (\<lambda>p. set_x0 (word_of_nat n) p\<lparr>p_read := read_clear\<rparr>) ?k1)
      \<lparr>k_con := con, k_mem := store_bytes base (pr_buf r) (map char_byte ?cs) (k_mem k)\<rparr>"
  have base: "user_base ?k1 = base" by (simp add: user_base_def mmu_ttbr0_write_def assms(11))
  have k1: "k_procs ?k1 = k_procs k" "k_con ?k1 = k_con k" "k_mem ?k1 = k_mem k" "k_cur ?k1 = idx"
    by (simp_all add: mmu_ttbr0_write_def)
  have k2: "sched_complete_console_read_if_needed idx ?k1 = ?k2"
    using assms(3,4) con(1) ne n(1) assms(2) base
    by (simp add: sched_complete_console_read_if_needed_def k1 Let_def)
  have p2: "k_procs ?k2 ! idx = set_x0 (word_of_nat n) (k_procs k ! idx)\<lparr>p_read := read_clear\<rparr>"
    using assms(1) k1 by simp
  have k': "k' = ?k2" "tf = p_tf (k_procs ?k2 ! idx)" "elr = p_elr (k_procs ?k2 ! idx)"
    using assms(13,8,9) p2 unfolding proc_switch_to_def Let_def k2
    by (auto simp: complete_ping6_off complete_udp6_off)
  have "unat (pr_len r) < 2 ^ 64" using unsigned_less [of "pr_len r"] by simp
  moreover have "n \<le> unat (pr_len r)" by (simp add: assms(12))
  ultimately have len64: "n < 2 ^ 64" "n \<le> unat (pr_len r)" by simp_all
  have ok: "user_range_ok (pr_buf r) (word_of_nat (length (map char_byte ?cs)))" "length (map char_byte ?cs) < 2 ^ 64"
    using user_range_ok_shorter [OF assms(5)] len64 n(1) by simp_all
  show ?thesis
    using load_store_bytes [OF ok, of base "k_mem k"] store_bytes_block [OF ok] con(2) n assms(1,10) k1 p2
    unfolding k' by (simp add: read_clear_def)
qed

text \<open>C31: a woken receiver that finds no datagram (another process took it) is nevertheless given
  the processor: it resumes after its system call with the registers it had at the call, although
  its state is set to blocked and the receive is still pending.\<close>

theorem woken_receiver_resumes_blocked:
  assumes "idx < length (k_procs k)" and "pu_on (p_udp6 (k_procs k ! idx))" and "p_deadline (k_procs k ! idx) = 0"
    and "\<not> pr_on (p_read (k_procs k ! idx))" and "\<not> pg_on (p_ping6 (k_procs k ! idx))"
    and "net_udp6_try_recv (pu_sock (p_udp6 (k_procs k ! idx))) (fs_udp (k_fd k)) = (Inl EAGAIN, st)"
    and "proc_switch_to cnt1 cnt2 idx k = ((tf, elr), k')"
  shows "k_cur k' = idx \<and> tf = p_tf (k_procs k ! idx) \<and> elr = p_elr (k_procs k ! idx) \<and>
    p_state (cur_proc k') = PROC_BLOCKED_IO \<and> pu_on (p_udp6 (cur_proc k'))"
proof -
  let ?k1 = "mmu_ttbr0_write (p_ttbr0 (k_procs k ! idx)) (k\<lparr>k_cur := idx\<rparr>)"
  have k1: "k_procs ?k1 = k_procs k" "k_fd ?k1 = k_fd k" "k_cur ?k1 = idx" by (simp_all add: mmu_ttbr0_write_def)
  have 2: "sched_complete_console_read_if_needed idx ?k1 = ?k1"
    by (rule complete_read_off) (simp add: k1 assms(4))
  have 3: "sched_complete_ping6_if_needed now idx ?k1 = ?k1" for now
    by (rule complete_ping6_off) (simp add: k1 assms(5))
  have 4: "sched_complete_udp6_recv_if_needed now idx ?k1 = set_proc idx (\<lambda>p. p\<lparr>p_state := PROC_BLOCKED_IO\<rparr>) ?k1" for now
    using assms(2,3,6) by (simp add: sched_complete_udp6_recv_if_needed_def Let_def k1 set_proc_def upd_at_def)
  show ?thesis
    using assms(1,2,7) unfolding proc_switch_to_def Let_def 2 3 4 by (auto simp: cur_proc_def k1)
qed

subsection \<open>Examples\<close>

text \<open>
  Process 0 waits for console input at \<open>0x400100\<close>, process 1 sleeps until time 5 and process 2 for a
  datagram; the others are free.
\<close>

definition three_procs :: kernel where
  "three_procs = kernel_bss\<lparr>k_procs :=
     [proc_clear\<lparr>p_state := PROC_BLOCKED_IO, p_elr := 0x400000, p_read := \<lparr>pr_on = True, pr_buf = 0x400100, pr_len = 8, pr_fd = 0\<rparr>\<rparr>,
      proc_clear\<lparr>p_state := PROC_SLEEPING, p_deadline := 5\<rparr>,
      proc_clear\<lparr>p_state := PROC_RUNNABLE, p_elr := 0x400000, p_udp6 := udp6_clear\<lparr>pu_on := True\<rparr>\<rparr>] @ replicate 13 proc_clear,
    k_timer := \<lparr>tm_freq = 1000000000, tm_boot = 0, tm_inited = True, tm_interval = 10000000,
      tm_mode = TICK_MODE_PERIODIC, tm_tval = 10000000, tm_ctl = 1\<rparr>\<rparr>"

lemma three_procs_ok: "sched_ok three_procs" "poll_ok None"
  by (simp_all add: sched_ok_def three_procs_def kernel_bss_def MAX_PROCS_def poll_ok_def)

definition quiet_pass :: "u64 \<Rightarrow> pass" where
  "quiet_pass t = \<lparr>ob_rx = [], ob_poll_cnt = t, ob_wake_cnt = t, ob_idle_cnt = t, ob_tick = False, ob_irq_rx = []\<rparr>"

lemma three_procs_fields:
  "p_state (k_procs three_procs ! 0) = PROC_BLOCKED_IO" "p_state (k_procs three_procs ! 1) = PROC_SLEEPING"
  "p_state (k_procs three_procs ! 2) = PROC_RUNNABLE" "p_deadline (k_procs three_procs ! 1) = 5"
  "k_last_sched three_procs = 0" "k_cur three_procs = 0" "ci_r (k_con three_procs) = ci_w (k_con three_procs)"
  by (simp_all add: three_procs_def kernel_bss_def)

lemma three_procs_clock: "clock three_procs 2 = 2"
  by (simp add: clock_def three_procs_def time_now_ns_def NS_PER_SEC_def)

lemma quiet_fields [simp]: "ob_rx (quiet_pass t) = []" "ob_wake_cnt (quiet_pass t) = t" "ob_idle_cnt (quiet_pass t) = t"
  by (simp_all add: quiet_pass_def)

lemma kernel_poll_quiet: "kernel_poll None (quiet_pass t) k = k"
  by (simp add: kernel_poll_def)

lemma three_procs_woken: "sched_wake_sleepers 2 three_procs = three_procs"
  by (simp add: sched_wake_sleepers_def three_procs_def proc_clear_def map_replicate_const)

lemma three_procs_pass:
  "sched_pass None (quiet_pass 2) three_procs = (Chosen 2, three_procs\<lparr>k_last_sched := 2\<rparr>)"
proof -
  have "[1..<Suc 16] = 1 # 2 # [3..<Suc 16]" by (simp add: upt_rec)
  then have "next_from (\<lambda>p. p_state p = PROC_RUNNABLE) three_procs = Some 2"
    using three_procs_fields(2) by (simp add: next_from_def MAX_PROCS_def three_procs_fields del: upt_Suc)
  then show ?thesis
    by (simp add: sched_pass_def kernel_poll_quiet three_procs_clock three_procs_woken Let_def
        sched_wake_one_console_reader_if_ready_def console_in_has_data_def
        three_procs_fields)
qed

lemma sched_picks_runnable_witness:
  "\<exists>k'. sched_pick_next_runnable None [quiet_pass 2] three_procs = Some (Some 2, k') \<and>
    p_state (k_procs k' ! 2) = PROC_RUNNABLE"
proof -
  have r: "sched_pick_next_runnable None [quiet_pass 2] three_procs = Some (Some 2, three_procs\<lparr>k_last_sched := 2\<rparr>)"
    by (simp add: three_procs_pass)
  from sched_picks_runnable [OF three_procs_ok(2,1) r] r show ?thesis by auto
qed

lemma sleep_ends_on_time_witness:
  "p_state (k_procs (snd (sched_pass None (quiet_pass 2) three_procs)) ! 1) = PROC_SLEEPING"
proof -
  have "\<not> pu_on (p_udp6 (k_procs three_procs ! 1))" "\<not> pg_on (p_ping6 (k_procs three_procs ! 1))"
    by (simp_all add: three_procs_def proc_clear_def udp6_clear_def ping6_clear_def)
  from sleep_ends_on_time [OF three_procs_ok(2,1) three_procs_pass _ three_procs_fields(2) this]
  show ?thesis
    by (simp add: MAX_PROCS_def pass_now_def kernel_poll_quiet three_procs_fields(4) [simplified]
        three_procs_clock three_procs_pass split: if_splits)
qed

text \<open>Two runnable processes, of which \<open>a\<close> was scheduled last.\<close>

definition two_procs :: "nat \<Rightarrow> kernel" where
  "two_procs a = kernel_bss\<lparr>k_last_sched := a, k_procs :=
     [proc_clear\<lparr>p_state := PROC_RUNNABLE\<rparr>, proc_clear\<lparr>p_state := PROC_RUNNABLE\<rparr>] @ replicate 14 proc_clear\<rparr>"

lemma two_procs_pass:
  "a < 2 \<Longrightarrow> sched_pass None (quiet_pass 0) (two_procs a) = (Chosen (1 - a), two_procs (1 - a))"
proof -
  assume a: "a < 2"
  have up: "[1..<Suc 16] = [1, 2, 3, 4, 5, 6, 7, 8, 9, 10, 11, 12, 13, 14, 15, 16]" by (simp add: upt_rec)
  have ls: "k_last_sched (two_procs b) = b" for b by (simp add: two_procs_def)
  have st: "p_state (k_procs (two_procs b) ! i) = PROC_RUNNABLE \<longleftrightarrow> i < 2" if "i < 16" for i b
    using that by (auto simp: two_procs_def nth_append nth_Cons' proc_clear_def)
  have nx: "next_from (\<lambda>p. p_state p = PROC_RUNNABLE) (two_procs a) = Some (1 - a)"
    using a unfolding next_from_def MAX_PROCS_def up ls by (cases "a = 0") (simp_all add: st less_2_cases_iff)
  have w: "sched_wake_sleepers t (two_procs a) = two_procs a" for t
    by (simp add: sched_wake_sleepers_def two_procs_def proc_clear_def map_replicate_const)
  have "\<not> console_in_has_data (k_con (two_procs a))" "two_procs a\<lparr>k_last_sched := b\<rparr> = two_procs b" for b
    by (simp_all add: two_procs_def kernel_bss_def console_in_has_data_def)
  then show ?thesis
    using nx w by (simp add: sched_pass_def kernel_poll_quiet Let_def sched_wake_one_console_reader_if_ready_def)
qed

lemma round_robin_fair_witness:
  "\<exists>n < 16. map_option fst (sched_pick_next_runnable None [quiet_pass 0] (two_procs (n mod 2))) = Some (Some 1)"
proof -
  let ?k = "\<lambda>n. two_procs (n mod 2)" and ?c = "\<lambda>n. Some (1 - n mod 2)"
  have pick: "sched_pick_next_runnable None [quiet_pass 0] (?k n) = Some (?c n, two_procs (1 - n mod 2))" for n
    using two_procs_pass [of "n mod 2"] by simp
  have ok: "sched_ok (?k n) \<and> p_state (k_procs (?k n) ! 1) = PROC_RUNNABLE \<and>
      (\<forall>p \<in> set (k_procs (?k n)). \<not> pr_on (p_read p))" for n
    by (auto simp: sched_ok_def two_procs_def kernel_bss_def proc_clear_def read_clear_def MAX_PROCS_def)
  have "k_last_sched (?k (Suc n)) = k_last_sched (two_procs (1 - n mod 2))" for n
    by (simp add: two_procs_def mod_Suc)
  then have "\<exists>n < (16 :: nat). ?c n = Some (1 :: nat)"
    by (intro round_robin_fair [OF three_procs_ok(2), of 1 ?k "\<lambda>_. [quiet_pass 0]" _ "\<lambda>n. two_procs (1 - n mod 2)"])
      (use pick ok in \<open>simp_all add: MAX_PROCS_def\<close>)
  then obtain n where "n < 16" "?c n = Some (1 :: nat)" by blast
  then show ?thesis using pick [of n] by (intro exI [of _ n]) simp
qed

definition typed_input :: kernel where
  "typed_input = three_procs\<lparr>k_con := \<lparr>ci_ring = ''hi'' @ replicate 1022 (CHR 0x00), ci_r = 0, ci_w = 2, ci_next_poll = 0\<rparr>\<rparr>"

lemma blocked_read_completes_witness:
  "tf_x (fst (fst (proc_switch_to 0 0 0 typed_input))) ! 0 = 2"
proof -
  let ?p = "k_procs typed_input ! 0"
  have p: "?p = proc_clear\<lparr>p_state := PROC_BLOCKED_IO, p_elr := 0x400000, p_read := \<lparr>pr_on = True, pr_buf = 0x400100, pr_len = 8, pr_fd = 0\<rparr>\<rparr>"
    by (simp add: typed_input_def three_procs_def)
  have c: "ci_ok (k_con typed_input)" "ci_contents (k_con typed_input) = ''hi''"
    by (simp_all add: typed_input_def ci_ok_def ci_contents_def ci_count_def CONSOLE_IN_RING_SIZE_def
        ring_contents_def upt_rec)
  obtain tf elr k' where r: "proc_switch_to 0 0 0 typed_input = ((tf, elr), k')" by (metis prod_cases3 surj_pair)
  have l: "0 < length (k_procs typed_input)" by (simp add: typed_input_def three_procs_def)
  have ur: "user_range_ok 0x400100 8" by (simp add: user_range_ok_iff)
  show ?thesis
    using blocked_read_completes [OF l refl _ _ _ c(1) _ _ _ _ refl refl r]
    by (simp add: p c(2) ur r proc_clear_def udp6_clear_def ping6_clear_def tf_zero_def)
qed

definition shared_socket :: kernel where
  "shared_socket = three_procs\<lparr>k_fd := (k_fd three_procs)\<lparr>fs_udp :=
     (udp6_demo)\<lparr>ud_socks := upd_at 0 (udp6_sock_reset True 2) (ud_socks udp6_demo)\<rparr>\<rparr>\<rparr>"

lemma woken_receiver_resumes_blocked_witness:
  "p_state (cur_proc (snd (proc_switch_to 0 0 2 shared_socket))) = PROC_BLOCKED_IO"
proof -
  have p: "k_procs shared_socket ! 2 = proc_clear\<lparr>p_state := PROC_RUNNABLE, p_elr := 0x400000, p_udp6 := udp6_clear\<lparr>pu_on := True\<rparr>\<rparr>"
    and l: "2 < length (k_procs shared_socket)"
    by (simp_all add: shared_socket_def three_procs_def)
  have "0 < length (ud_socks udp6_demo)" by code_simp
  then have "\<exists>st. net_udp6_try_recv 0 (fs_udp (k_fd shared_socket)) = (Inl EAGAIN, st)"
    by (simp add: shared_socket_def net_udp6_try_recv_def udp6_sock_reset_def UDP6_SOCKS_def Let_def)
  then obtain st where st: "net_udp6_try_recv 0 (fs_udp (k_fd shared_socket)) = (Inl EAGAIN, st)" ..
  obtain tf elr k' where r: "proc_switch_to 0 0 2 shared_socket = ((tf, elr), k')" by (metis prod_cases3 surj_pair)
  show ?thesis
    using woken_receiver_resumes_blocked [OF l _ _ _ _ _ r] st
    by (simp add: p r proc_clear_def udp6_clear_def ping6_clear_def read_clear_def)
qed

end
