(* ===== verification/Task.thy ===== *)
theory Task
  imports Sched
begin

text \<open>
  The life of a process in \<open>kernel-aarch64/sys_proc.c\<close>: \<open>clone\<close> (fork), \<open>wait4\<close>, \<open>exit\<close> and \<open>kill\<close>
  on the state of the whole kernel. Calls that may give up the processor take the live registers
  and return them, replaced by those of the process that runs next.

  Theory \<open>TaskMem\<close> ties processes, translation tables and the page pool together; the theorem of
  \<open>TaskRun\<close> is that no sequence of these calls makes two processes share memory.
\<close>

datatype sys_outcome = Poweroff u32 | Waits | Returns u64 regs kernel

record sched_in =
  si_usb :: usb_poll
  si_obs :: "pass list"
  si_cnt1 :: u64
  si_cnt2 :: u64

text \<open>The tail of every blocking call: \<open>None\<close> is that no other process was chosen.\<close>

definition resched :: "sched_in \<Rightarrow> kernel \<Rightarrow> (regs option \<times> kernel) option" where
  "resched e k =
     (case sched_pick_next_runnable (si_usb e) (si_obs e) k of
        None \<Rightarrow> None
      | Some (None, k') \<Rightarrow> Some (None, k')
      | Some (Some idx, k') \<Rightarrow>
          if idx \<noteq> k_cur k'
          then case proc_switch_to (si_cnt1 e) (si_cnt2 e) idx k' of (r, k'') \<Rightarrow> Some (Some r, k'')
          else Some (None, k'))"

subsection \<open>\<open>clone\<close>\<close>

text \<open>The copy loop: \<open>n\<close> bytes from the user region to address \<open>dst\<close>, seen through the running table.\<close>

fun copy_image :: "nat \<Rightarrow> u64 \<Rightarrow> u64 \<Rightarrow> memory \<Rightarrow> memory" where
  "copy_image 0 base dst m = m"
| "copy_image (Suc i) base dst m =
     (let m1 = copy_image i base dst m
      in m1(user_pa base (dst + word_of_nat i) := m1 (user_pa base (USER_REGION_BASE + word_of_nat i))))"

definition inherit_fd :: "fd_table \<Rightarrow> nat \<Rightarrow> fd_table \<times> fd_state \<Rightarrow> fd_table \<times> fd_state" where
  "inherit_fd parent i ts =
     (case ts of (t, s) \<Rightarrow>
        (t[i := parent ! i], case parent ! i of None \<Rightarrow> s | Some d \<Rightarrow> desc_incref d s))"

definition inherit_fds :: "fd_table \<Rightarrow> fd_table \<times> fd_state \<Rightarrow> fd_table \<times> fd_state" where
  "inherit_fds parent ts = fold (inherit_fd parent) [0..<MAX_FDS] ts"

definition clone_proc :: "regs \<Rightarrow> nat \<Rightarrow> u64 \<Rightarrow> u64 \<Rightarrow> kernel \<Rightarrow> u64 \<times> kernel" where
  "clone_proc r slot root pa k =
     (let pid = k_next_pid k; parent = cur_proc k;
          child = proc_clear\<lparr>p_pid := pid, p_ppid := p_pid parent, p_state := PROC_RUNNABLE, p_ttbr0 := root,
            p_user_pa := pa, p_tf := fst r, p_elr := snd r\<rparr>;
          k1 = set_proc slot (\<lambda>_. child) (k\<lparr>k_next_pid := pid + 1\<rparr>)
      in case inherit_fds (p_fdt (cur_proc k1)) (p_fdt child, k_fd k1) of (t, s) \<Rightarrow>
        (pid, (set_proc slot (\<lambda>p. set_x0 0 (p\<lparr>p_fdt := t, p_cwd := p_cwd (cur_proc k1)\<rparr>)) k1)\<lparr>k_fd := s\<rparr>))"

definition sys_clone :: "regs \<Rightarrow> u64 \<Rightarrow> kernel \<Rightarrow> u64 \<times> kernel" where
  "sys_clone r flags k =
     (if flags AND NOT 0xff \<noteq> 0 then (sys_err ENOSYS, k)
      else case proc_find_free_slot k of
        None \<Rightarrow> (sys_err EMFILE, k)
      | Some slot \<Rightarrow>
          (case pmm_alloc_2mib_aligned (k_pmm k) of (pa, p1) \<Rightarrow>
             if pa = 0 then (sys_err EMFILE, k\<lparr>k_pmm := p1\<rparr>)
             else case mmu_ttbr0_create_with_user_pa pa (k_mmu k, p1) of (root, m, p2) \<Rightarrow>
               if root = 0 then (sys_err EMFILE, k\<lparr>k_mmu := m, k_pmm := pmm_free_2mib_aligned pa p2\<rparr>)
               else clone_proc r slot root pa
                 (k\<lparr>k_mmu := m, k_pmm := p2, k_user_of := (k_user_of k)(root := pa),
                    k_mem := copy_image (unat USER_REGION_SIZE) (user_base k) pa (k_mem k)\<rparr>)))"

subsection \<open>\<open>wait4\<close>\<close>

definition wait_status :: "u64 \<Rightarrow> u32" where
  "wait_status code = ucast (push_bit 8 (code AND 0xff))"

definition write_u32 :: "u64 \<Rightarrow> u32 \<Rightarrow> kernel \<Rightarrow> kernel" where
  "write_u32 va v k = k\<lparr>k_mem := store_bytes (user_base k) va (bytes_of_u32 v) (k_mem k)\<rparr>"

text \<open>Freeing the memory of a process and clearing its slot.\<close>

definition proc_reap :: "nat \<Rightarrow> kernel \<Rightarrow> kernel" where
  "proc_reap i k =
     (let pa = p_user_pa (k_procs k ! i);
          k1 = (if pa \<noteq> 0 \<and> pa \<noteq> USER_REGION_BASE then k\<lparr>k_pmm := pmm_free_2mib_aligned pa (k_pmm k)\<rparr> else k)
      in set_proc i (\<lambda>_. proc_clear) k1)"

definition zombie_child :: "u64 \<Rightarrow> u64 \<Rightarrow> proc \<Rightarrow> bool" where
  "zombie_child ppid pid_req p \<longleftrightarrow> p_state p = PROC_ZOMBIE \<and> p_ppid p = ppid \<and> \<not> (0 < sint pid_req \<and> p_pid p \<noteq> pid_req)"

definition sys_wait4 ::
  "sched_in \<Rightarrow> regs \<Rightarrow> u64 \<Rightarrow> u64 \<Rightarrow> u64 \<Rightarrow> kernel \<Rightarrow> sys_outcome"
where
  "sys_wait4 e r pid_req wstatus_user options k =
     (let parent = cur_proc k; ppid = p_pid parent in
      case find_slot (zombie_child ppid pid_req) (k_procs k) of
        Some i \<Rightarrow>
          let child = k_procs k ! i in
          if wstatus_user \<noteq> 0 \<and> \<not> user_range_ok wstatus_user 4 then Returns (sys_err EFAULT) r k
          else let k1 = (if wstatus_user \<noteq> 0 then write_u32 wstatus_user (wait_status (p_exit_code child)) k else k)
            in Returns (p_pid child) r (proc_reap i (proc_close_all_fds i k1))
      | None \<Rightarrow>
          if \<not> list_ex (\<lambda>p. p_state p \<noteq> PROC_UNUSED \<and> p_ppid p = ppid) (k_procs k) then Returns (sys_err ECHILD) r k
          else if options AND 1 \<noteq> 0 then Returns 0 r k
          else case resched e (set_cur (\<lambda>p. p\<lparr>p_state := PROC_WAITING, p_wait_pid := pid_req,
                 p_wait_status := wstatus_user, p_tf := fst r, p_elr := snd r\<rparr>) k) of
            None \<Rightarrow> Waits
          | Some (Some r', k') \<Rightarrow> Returns SYSCALL_SWITCHED r' k'
          | Some (None, k') \<Rightarrow> Returns (sys_err EAGAIN) r
              (set_proc (k_cur k) (\<lambda>p. p\<lparr>p_state := PROC_RUNNABLE, p_wait_pid := 0, p_wait_status := 0\<rparr>) k'))"

subsection \<open>\<open>exit\<close> and \<open>kill\<close>\<close>

text \<open>\<open>*clear_child_tid = 0\<close> and the zombie mark.\<close>

definition clear_tid :: "nat \<Rightarrow> kernel \<Rightarrow> kernel" where
  "clear_tid i k =
     (let a = p_clear_child_tid (k_procs k ! i)
      in if a \<noteq> 0 \<and> user_range_ok a 4 then write_u32 a 0 k else k)"

definition mark_zombie :: "nat \<Rightarrow> u64 \<Rightarrow> kernel \<Rightarrow> kernel" where
  "mark_zombie i code k = set_proc i (\<lambda>p. p\<lparr>p_state := PROC_ZOMBIE, p_exit_code := code\<rparr>) k"

text \<open>The loop that wakes a parent waiting for process \<open>c\<close> and reaps \<open>c\<close>; both callers have it.\<close>

definition deliver_exit :: "nat \<Rightarrow> nat \<Rightarrow> u64 \<Rightarrow> kernel \<Rightarrow> kernel" where
  "deliver_exit i c code k =
     (let k1 = mmu_ttbr0_write (p_ttbr0 (k_procs k ! i)) k; ws = p_wait_status (k_procs k ! i);
          cpid = p_pid (k_procs k ! c);
          k2 = (if ws \<noteq> 0 \<and> user_range_ok ws 4 then write_u32 ws (wait_status code) k1 else k1)
      in proc_reap c (set_proc i (\<lambda>p. set_x0 cpid (p\<lparr>p_state := PROC_RUNNABLE, p_wait_pid := 0, p_wait_status := 0\<rparr>)) k2))"

definition wake_parent :: "nat \<Rightarrow> u64 \<Rightarrow> kernel \<Rightarrow> kernel" where
  "wake_parent c code k =
     (case find_slot (\<lambda>p. p_state p = PROC_WAITING \<and> p_pid p = p_ppid (k_procs k ! c)) (k_procs k) of
        None \<Rightarrow> k
      | Some i \<Rightarrow>
          let want = p_wait_pid (k_procs k ! i)
          in if 0 < sint want \<and> want \<noteq> p_pid (k_procs k ! c) then k else deliver_exit i c code k)"

definition handle_exit_and_maybe_switch :: "sched_in \<Rightarrow> regs \<Rightarrow> u64 \<Rightarrow> kernel \<Rightarrow> sys_outcome" where
  "handle_exit_and_maybe_switch e r code k =
     (if k_cur k = 0 then Poweroff (ucast (code AND 0xff))
      else let c = k_cur k;
               k1 = wake_parent c code (mark_zombie c code (clear_tid c (proc_close_all_fds c k)))
        in case resched e k1 of
          None \<Rightarrow> Waits
        | Some (Some r', k2) \<Rightarrow> Returns 1 r' k2
        | Some (None, k2) \<Rightarrow>
            if p_state (k_procs k2 ! 0) = PROC_RUNNABLE
            then case proc_switch_to (si_cnt1 e) (si_cnt2 e) 0 k2 of (r', k3) \<Rightarrow> Returns 1 r' k3
            else Returns 0 r k2)"

definition proc_find_idx_by_pid :: "u64 \<Rightarrow> kernel \<Rightarrow> nat option" where
  "proc_find_idx_by_pid pid k = find_slot (\<lambda>p. p_state p \<noteq> PROC_UNUSED \<and> p_pid p = pid) (k_procs k)"

definition kill_other :: "nat \<Rightarrow> u64 \<Rightarrow> kernel \<Rightarrow> kernel" where
  "kill_other i code k =
     (let k1 = proc_close_all_fds i k;
          k2 = (if p_clear_child_tid (k_procs k1 ! i) \<noteq> 0
                then clear_tid i (mmu_ttbr0_write (p_ttbr0 (k_procs k1 ! i)) k1) else k1);
          k3 = wake_parent i code (mark_zombie i code k2)
      in mmu_ttbr0_write (p_ttbr0 (cur_proc k3)) k3)"

definition sys_kill :: "sched_in \<Rightarrow> regs \<Rightarrow> u64 \<Rightarrow> u64 \<Rightarrow> kernel \<Rightarrow> sys_outcome" where
  "sys_kill e r pid sig k =
     (if sint pid \<le> 0 then Returns (sys_err EINVAL) r k
      else if sig \<noteq> 0 \<and> sig \<noteq> 9 \<and> sig \<noteq> 15 then Returns (sys_err ENOSYS) r k
      else case proc_find_idx_by_pid pid k of
        None \<Rightarrow> Returns (sys_err ESRCH) r k
      | Some idx \<Rightarrow>
          if sig = 0 then Returns 0 r k
          else if p_state (k_procs k ! idx) = PROC_ZOMBIE then Returns 0 r k
          else let code = 128 + (sig AND 0xff) in
            if idx = k_cur k then
              (case handle_exit_and_maybe_switch e r code k of
                 Returns sw r' k' \<Rightarrow> Returns (if sw \<noteq> 0 then SYSCALL_SWITCHED else 0) r' k'
               | out \<Rightarrow> out)
            else Returns 0 r (kill_other idx code k))"

subsection \<open>Switching leaves memory and files alone\<close>

lemma fd_inv_try_recv:
  assumes "fd_inv held tabs s"
  shows "fd_inv held tabs (s\<lparr>fs_udp := snd (net_udp6_try_recv sid (fs_udp s))\<rparr>)"
proof -
  let ?st = "snd (net_udp6_try_recv sid (fs_udp s))"
  have len: "length (ud_socks ?st) = length (ud_socks (fs_udp s))"
    by (simp add: net_udp6_try_recv_def Let_def)
  have same: "us_used (ud_socks ?st ! i) = us_used (ud_socks (fs_udp s) ! i) \<and>
      us_refs (ud_socks ?st ! i) = us_refs (ud_socks (fs_udp s) ! i)" for i
    by (cases "i < length (ud_socks (fs_udp s))"; cases "i = sid")
      (simp_all add: net_udp6_try_recv_def Let_def udp6_dequeue_def)
  have "ep_count k (s\<lparr>fs_udp := ?st\<rparr>) = ep_count k s" for k
    by (cases k) (simp_all add: same split: pipe_end.split)
  then show ?thesis
    using assms len by (simp add: fd_inv_def fd_shape_def cong: option.case_cong)
qed

definition quiet_step :: "kernel \<Rightarrow> kernel \<Rightarrow> bool" where
  "quiet_step k k' \<longleftrightarrow> same_tasks k k' \<and> k_cur k' = k_cur k \<and> k_last_sched k' = k_last_sched k"

lemma quiet_refl: "quiet_step k k"
  by (simp add: quiet_step_def)

lemma quiet_trans: "quiet_step k k' \<Longrightarrow> quiet_step k' k'' \<Longrightarrow> quiet_step k k''"
  unfolding quiet_step_def using same_tasks_trans by fastforce

lemma quiet_live: "quiet_step k k' \<Longrightarrow> i < length (k_procs k) \<Longrightarrow>
    p_state (k_procs k' ! i) = PROC_UNUSED \<longleftrightarrow> p_state (k_procs k ! i) = PROC_UNUSED"
  by (simp add: quiet_step_def same_tasks_def list_all2_conv_all_nth same_space_def)

lemma quiet_len: "quiet_step k k' \<Longrightarrow> length (k_procs k') = length (k_procs k)"
  by (auto simp: quiet_step_def same_tasks_def dest: list_all2_lengthD)

lemma same_space_simps [simp]:
  "same_space p p" "same_space p (set_x0 v p\<lparr>p_read := r\<rparr>)" "same_space p (set_x0 v p\<lparr>p_ping6 := g\<rparr>)"
  "same_space p (udp6_finish v p)" "same_space p (p\<lparr>p_deadline := d, p_ping6 := g\<rparr>)"
  "same_space p (p\<lparr>p_state := st\<rparr>) \<longleftrightarrow> (st = PROC_UNUSED \<longleftrightarrow> p_state p = PROC_UNUSED)"
  by (simp_all add: same_space_def set_x0_def udp6_finish_def)

lemma complete_read_quiet:
  assumes "idx < length (k_procs k)" and "p_state (k_procs k ! idx) \<noteq> PROC_UNUSED"
  shows "quiet_step k (sched_complete_console_read_if_needed idx k)"
  using assms unfolding quiet_step_def sched_complete_console_read_if_needed_def Let_def
  by (auto split: prod.splits intro: same_tasks_set_proc)

lemma ping6_finish_quiet: "quiet_step k (ping6_finish idx k)"
  unfolding quiet_step_def ping6_finish_def Let_def
  by (auto intro: same_tasks_set_proc)

lemma complete_ping6_quiet: "quiet_step k (sched_complete_ping6_if_needed now idx k)"
proof -
  have "quiet_step k (set_proc idx (\<lambda>p. p\<lparr>p_deadline := 0, p_ping6 := g p\<rparr>) k)" for g
    unfolding quiet_step_def by (auto intro: same_tasks_set_proc)
  then have "quiet_step k (ping6_finish idx (set_proc idx (\<lambda>p. p\<lparr>p_deadline := 0, p_ping6 := g p\<rparr>) k))" for g
    using ping6_finish_quiet by (rule quiet_trans)
  then show ?thesis
    unfolding sched_complete_ping6_if_needed_def Let_def by (simp add: quiet_refl ping6_finish_quiet)
qed

lemma complete_udp6_quiet:
  assumes "idx < length (k_procs k)" and "p_state (k_procs k ! idx) \<noteq> PROC_UNUSED"
  shows "quiet_step k (sched_complete_udp6_recv_if_needed now idx k)"
proof -
  have inv: "fd_inv held tabs ((k_fd k)\<lparr>fs_udp := st\<rparr>)"
    if "fd_inv held tabs (k_fd k)" "net_udp6_try_recv sid (fs_udp (k_fd k)) = (r, st)" for held tabs sid r st
    using fd_inv_try_recv [OF that(1), of sid] that(2) by simp
  have "quiet_step k ((set_proc idx (udp6_finish x0) k)\<lparr>k_fd := (k_fd k)\<lparr>fs_udp := st\<rparr>, k_mem := m\<rparr>)"
    if "net_udp6_try_recv sid (fs_udp (k_fd k)) = (r, st)" for x0 m sid r st
  proof -
    have "same_tasks k (set_proc idx (udp6_finish x0) k)" by (rule same_tasks_set_proc) simp
    then show ?thesis using inv [OF _ that] by (simp add: quiet_step_def same_tasks_def)
  qed
  then show ?thesis
    using assms unfolding sched_complete_udp6_recv_if_needed_def Let_def
    by (auto simp: quiet_step_def split: prod.splits sum.splits intro: same_tasks_set_proc)
qed

lemma switch_tasks:
  assumes "proc_switch_to c1 c2 idx k = (r, k')" and "idx < length (k_procs k)" and "p_state (k_procs k ! idx) \<noteq> PROC_UNUSED"
  shows "same_tasks k k' \<and> k_cur k' = idx \<and> k_last_sched k' = k_last_sched k"
proof -
  let ?k1 = "mmu_ttbr0_write (p_ttbr0 (k_procs k ! idx)) (k\<lparr>k_cur := idx\<rparr>)"
  let ?k2 = "sched_complete_console_read_if_needed idx ?k1"
  let ?k3 = "sched_complete_ping6_if_needed (clock ?k2 c1) idx ?k2"
  have k1: "k_procs ?k1 = k_procs k" "k_cur ?k1 = idx" "k_last_sched ?k1 = k_last_sched k" "same_tasks k ?k1"
    by (simp_all add: mmu_ttbr0_write_def same_tasks_refl)
  have q2: "quiet_step ?k1 ?k2" using assms(2,3) k1 by (intro complete_read_quiet) simp_all
  have q3: "quiet_step ?k1 ?k3" using q2 complete_ping6_quiet by (rule quiet_trans)
  have "quiet_step ?k3 (sched_complete_udp6_recv_if_needed (clock ?k3 c2) idx ?k3)"
    using assms(2,3) quiet_live [OF q3, of idx] quiet_len [OF q3] k1(1) by (intro complete_udp6_quiet) simp_all
  from quiet_trans [OF q3 this] show ?thesis
    using assms(1) k1 same_tasks_trans [OF k1(4)] unfolding proc_switch_to_def Let_def by (auto simp: quiet_step_def)
qed

text \<open>The tail of a blocking call.\<close>

lemma resched_tasks:
  assumes "poll_ok (si_usb e)" and "sched_ok k" and "resched e k = Some (r, k')"
  shows "same_tasks k k' \<and> sched_ok k' \<and> (r = None \<longrightarrow> k_cur k' = k_cur k) \<and> (r \<noteq> None \<longrightarrow> k_cur k' < MAX_PROCS)"
proof -
  obtain c k1 where p: "sched_pick_next_runnable (si_usb e) (si_obs e) k = Some (c, k1)"
    using assms(3) by (auto simp: resched_def split: option.splits)
  note t = sched_pick_tasks [OF assms(1,2) p] and s = pick_runnable [OF assms(1,2) p]
  show ?thesis
  proof (cases c)
    case None
    then show ?thesis using assms(3) p t s by (simp add: resched_def)
  next
    case (Some idx)
    show ?thesis
    proof (cases "idx = k_cur k1")
      case True
      then show ?thesis using assms(3) p t s Some by (simp add: resched_def)
    next
      case False
      obtain r2 k2 where sw: "proc_switch_to (si_cnt1 e) (si_cnt2 e) idx k1 = (r2, k2)" by fastforce
      have "idx < length (k_procs k1)" "p_state (k_procs k1 ! idx) \<noteq> PROC_UNUSED" "idx < MAX_PROCS"
        using s Some by (auto simp: sched_ok_def)
      note st = switch_tasks [OF sw this(1,2)] and lt = this(3)
      have "length (k_procs k2) = length (k_procs k1)"
        using st by (auto simp: same_tasks_def dest: list_all2_lengthD)
      then show ?thesis
        using assms(3) p s Some False sw st t lt same_tasks_trans [OF conjunct1 [OF t]]
        by (auto simp: resched_def sched_ok_def)
    qed
  qed
qed

end
