(* ===== verification/TaskMem.thy ===== *)
theory TaskMem
  imports Task
begin

text \<open>
  The invariant \<open>mem_inv\<close>: every block and table page is held by one process or the translation
  tables and by nobody else, and the tables of every process are what \<open>mmu.c\<close> builds. Each step of
  \<open>sys_proc.c\<close> that takes or gives back memory preserves it.
\<close>

subsection \<open>Memory: the invariant\<close>

definition owns_block :: "proc \<Rightarrow> bool" where
  "owns_block p \<longleftrightarrow> p_state p \<noteq> PROC_UNUSED \<and> p_user_pa p \<noteq> 0 \<and> p_user_pa p \<noteq> USER_REGION_BASE"

text \<open>What the processes hold of the pool: their 2 MiB blocks; \<open>T\<close> are the pages made into tables.\<close>

definition block_units :: "proc list \<Rightarrow> (pmm_unit \<times> u64) list" where
  "block_units ps = map (\<lambda>p. (Block, p_user_pa p)) (filter owns_block ps)"

definition held_units :: "u64 list \<Rightarrow> proc list \<Rightarrow> (pmm_unit \<times> u64) list" where
  "held_units T ps = block_units ps @ map (Pair Page) T"

definition table_pages :: "(u64 \<Rightarrow> nat \<Rightarrow> u64) \<Rightarrow> u64 \<Rightarrow> u64 set" where
  "table_pages tabs r = {r, tabs r 0 AND 0x0000FFFFFFFFF000, tabs r 1 AND 0x0000FFFFFFFFF000}"

definition space_ok :: "kernel \<Rightarrow> u64 set \<Rightarrow> proc \<Rightarrow> bool" where
  "space_ok k T p \<longleftrightarrow> p_user_pa p \<noteq> 0 \<and>
     two_level (mm_tabs (k_mmu k)) (p_ttbr0 p) (\<lambda>n. n = 2) (block_pa(2 := p_user_pa p)) \<and>
     table_pages (mm_tabs (k_mmu k)) (p_ttbr0 p) \<subseteq> T \<and> k_user_of k (p_ttbr0 p) = p_user_pa p"

definition region_pages :: "u64 set" where
  "region_pages = unit_pages (Block, USER_REGION_BASE)"

definition mem_inv :: "u64 list \<Rightarrow> kernel \<Rightarrow> bool" where
  "mem_inv T k \<longleftrightarrow> pmm.owns (held_units T (k_procs k)) (k_pmm k) \<and> pool_ok (k_pmm k) \<and>
     templates_ok (k_mmu k) (k_pmm k) \<and> mm_template0 (k_mmu k) \<in> set T \<and> mm_template1 (k_mmu k) \<in> set T \<and>
     region_pages \<inter> (page_set (k_pmm k) \<union> \<Union> (unit_pages ` set (held_units T (k_procs k)))) = {} \<and>
     (\<forall>p \<in> set (k_procs k). p_state p \<noteq> PROC_UNUSED \<longrightarrow> space_ok k (set T) p) \<and>
     (\<forall>i < length (k_procs k). \<forall>j < length (k_procs k). i \<noteq> j \<longrightarrow>
        p_state (k_procs k ! i) \<noteq> PROC_UNUSED \<longrightarrow> p_state (k_procs k ! j) \<noteq> PROC_UNUSED \<longrightarrow>
        \<not> (p_user_pa (k_procs k ! i) = USER_REGION_BASE \<and> p_user_pa (k_procs k ! j) = USER_REGION_BASE))"

lemma mem_invI:
  assumes "k_procs k = ps" and "held_units T ps = us" and "pmm.owns us (k_pmm k)" and "pool_ok (k_pmm k)"
    and "templates_ok (k_mmu k) (k_pmm k)" and "mm_template0 (k_mmu k) \<in> set T" and "mm_template1 (k_mmu k) \<in> set T"
    and "region_pages \<inter> (page_set (k_pmm k) \<union> \<Union> (unit_pages ` set us)) = {}"
    and "\<And>p. p \<in> set ps \<Longrightarrow> p_state p \<noteq> PROC_UNUSED \<Longrightarrow> space_ok k (set T) p"
    and "\<And>i j. i < length ps \<Longrightarrow> j < length ps \<Longrightarrow> i \<noteq> j \<Longrightarrow> p_state (ps ! i) \<noteq> PROC_UNUSED \<Longrightarrow>
      p_state (ps ! j) \<noteq> PROC_UNUSED \<Longrightarrow> \<not> (p_user_pa (ps ! i) = USER_REGION_BASE \<and> p_user_pa (ps ! j) = USER_REGION_BASE)"
  shows "mem_inv T k"
  using assms unfolding mem_inv_def by blast

text \<open>What the invariant reads of a process.\<close>

definition same_mem :: "proc \<Rightarrow> proc \<Rightarrow> bool" where
  "same_mem p q \<longleftrightarrow> p_user_pa q = p_user_pa p \<and> p_ttbr0 q = p_ttbr0 p \<and>
     (p_state q = PROC_UNUSED \<longleftrightarrow> p_state p = PROC_UNUSED)"

lemma block_units_cong: "list_all2 same_mem ps qs \<Longrightarrow> block_units qs = block_units ps"
  by (induction rule: list_all2_induct) (auto simp: block_units_def owns_block_def same_mem_def)

lemma mem_inv_cong:
  assumes "mem_inv T k" and "list_all2 same_mem (k_procs k) (k_procs k')" and "k_pmm k' = k_pmm k"
    and "k_mmu k' = k_mmu k" and "k_user_of k' = k_user_of k"
  shows "mem_inv T k'"
proof -
  have len: "length (k_procs k') = length (k_procs k)" using assms(2) by (simp add: list_all2_lengthD)
  have nth: "same_mem (k_procs k ! i) (k_procs k' ! i)" if "i < length (k_procs k)" for i
    using assms(2) that by (simp add: list_all2_conv_all_nth)
  have "space_ok k' (set T) q" if q: "q \<in> set (k_procs k')" "p_state q \<noteq> PROC_UNUSED" for q
  proof -
    obtain i where i: "i < length (k_procs k)" "q = k_procs k' ! i"
      using q(1) len by (auto simp: in_set_conv_nth)
    then have "space_ok k (set T) (k_procs k ! i)"
      using assms(1) nth [OF i(1)] q(2) by (auto simp: mem_inv_def same_mem_def)
    then show ?thesis
      using nth [OF i(1)] i(2) assms(4,5) by (simp add: space_ok_def same_mem_def)
  qed
  moreover have "held_units T (k_procs k') = held_units T (k_procs k)"
    using block_units_cong [OF assms(2)] by (simp add: held_units_def)
  ultimately show ?thesis
    using assms(1,3,4) len nth by (simp add: mem_inv_def same_mem_def)
qed

lemma same_mem_refl [simp]: "same_mem p p" "list_all2 same_mem ps ps"
  by (simp_all add: same_mem_def list_all2_same)

lemma same_tasks_mem: "same_tasks k k' \<Longrightarrow> mem_inv T k \<Longrightarrow> mem_inv T k'"
  by (erule mem_inv_cong) (auto simp: same_tasks_def same_space_def same_mem_def elim: list_all2_mono)

lemma mem_inv_set_proc:
  assumes "mem_inv T k" and "i < length (k_procs k) \<Longrightarrow> same_mem (k_procs k ! i) (f (k_procs k ! i))"
  shows "mem_inv T (set_proc i f k)"
  by (rule mem_inv_cong [OF assms(1)]) (simp_all add: list_all2_conv_all_nth set_proc_nth assms(2))

subsection \<open>Taking and giving memory\<close>

lemma owns_move: "pmm.owns (xs @ b # ys) p \<longleftrightarrow> pmm.owns (b # xs @ ys) p"
proof -
  have "apart unit_pages (xs @ b # ys) \<longleftrightarrow> apart unit_pages (b # xs @ ys)"
    by (simp add: apart_def sorted_wrt_append ball_Un Int_commute) blast
  then show ?thesis by (auto simp: pmm.owns_def)
qed

lemma owned_apart: "pmm.owns (b # ys) p \<Longrightarrow> c \<in> set ys \<Longrightarrow> unit_pages b \<inter> unit_pages c = {}"
  by (simp add: pmm.owns_def apart_def del: unit_pages.simps)

lemma free_page_range: "same_range p (pmm_free_page pa p)"
  by (simp add: pmm_free_page_def same_range_def split: option.split)

lemma release_range: "same_range p (pmm_free_2mib_aligned pa p)"
proof -
  have "same_range p (fold (\<lambda>i. pmm_free_page (f i)) js p)" for f js
    by (induction js arbitrary: p) (auto intro: same_range_trans free_page_range)
  from this [of "\<lambda>i. pa + word_of_nat i * PMM_PAGE_SIZE" "[0..<512]"] show ?thesis
    unfolding pmm_free_2mib_aligned_def by simp
qed

lemma alloc_range: "same_range p (snd (pmm_alloc_2mib_aligned p))"
  by (simp add: pmm_alloc_2mib_aligned_def same_range_def split: option.split)

text \<open>The table of processes with one slot changed.\<close>

lemma block_units_at:
  assumes "i < length ps"
  shows "block_units (ps[i := q]) = block_units (take i ps) @ (if owns_block q then [(Block, p_user_pa q)] else []) @
    block_units (drop (Suc i) ps)"
  using assms by (simp add: upd_conv_take_nth_drop block_units_def)

lemma block_units_split:
  assumes "i < length ps"
  shows "block_units ps = block_units (take i ps) @ (if owns_block (ps ! i) then [(Block, p_user_pa (ps ! i))] else []) @
    block_units (drop (Suc i) ps)"
  using block_units_at [OF assms, of "ps ! i"] by simp

text \<open>Giving back the block of a process whose slot is cleared.\<close>

lemma proc_reap_mem:
  assumes inv: "mem_inv T k" and i: "i < length (k_procs k)" and live: "p_state (k_procs k ! i) \<noteq> PROC_UNUSED"
  shows "mem_inv T (proc_reap i k)"
proof -
  let ?p = "k_procs k ! i" and ?ps = "k_procs k" and ?ps' = "(k_procs k)[i := proc_clear]"
  have un: "\<not> owns_block proc_clear" "p_state proc_clear = PROC_UNUSED" by (simp_all add: owns_block_def proc_clear_def)
  have procs: "k_procs (proc_reap i k) = ?ps'"
    by (simp add: proc_reap_def Let_def set_proc_def upd_at_def)
  have nz: "p_user_pa ?p \<noteq> 0" using inv i live by (simp add: mem_inv_def space_ok_def)
  let ?B = "block_units (take i ?ps)" and ?C = "block_units (drop (Suc i) ?ps) @ map (Pair Page) T"
  have units': "held_units T ?ps' = ?B @ ?C"
    using block_units_at [OF i, of proc_clear] un by (simp add: held_units_def)
  have frame: "k_mmu (proc_reap i k) = k_mmu k" "k_user_of (proc_reap i k) = k_user_of k"
    by (simp_all add: proc_reap_def Let_def)
  have pm: "k_pmm (proc_reap i k) = (if p_user_pa ?p \<noteq> USER_REGION_BASE then pmm_free_2mib_aligned (p_user_pa ?p) (k_pmm k) else k_pmm k)"
    using nz by (simp add: proc_reap_def Let_def)
  have core: "pmm.owns (?B @ ?C) (k_pmm (proc_reap i k)) \<and> pool_ok (k_pmm (proc_reap i k)) \<and>
      templates_ok (k_mmu k) (k_pmm (proc_reap i k)) \<and>
      page_set (k_pmm (proc_reap i k)) \<union> \<Union> (unit_pages ` set (?B @ ?C)) = page_set (k_pmm k) \<union> \<Union> (unit_pages ` set (held_units T ?ps))"
  proof (cases "p_user_pa ?p = USER_REGION_BASE")
    case True
    then have "held_units T ?ps = ?B @ ?C"
      using block_units_split [OF i] by (simp add: held_units_def owns_block_def)
    then show ?thesis using inv True pm by (simp add: mem_inv_def)
  next
    case False
    let ?b = "(Block, p_user_pa ?p)"
    have h: "held_units T ?ps = ?B @ ?b # ?C"
      using block_units_split [OF i] live nz False by (simp add: held_units_def owns_block_def)
    then have own: "pmm.owns (?b # ?B @ ?C) (k_pmm k)"
      using inv owns_move by (simp add: mem_inv_def)
    note give = pmm.give_owns [OF own, of 0]
    have rel: "unit_release ?b (k_pmm k) = k_pmm (proc_reap i k)" using pm False by simp
    have "pmm_usable (k_pmm k)" "unit_valid (k_pmm k) ?b" using own by (simp_all add: pmm.owns_def)
    note us = usable_release [OF this] and rng = release_range [of "k_pmm k" "p_user_pa ?p"]
    have tab: "t \<notin> unit_pages ?b" if "t \<in> set T" for t
      using owned_apart [OF own, of "(Page, t)"] that by auto
    have "templates_ok (k_mmu k) (k_pmm (proc_reap i k))"
      using us tab inv unfolding rel by (simp add: templates_ok_def mem_inv_def del: unit_pages.simps)
    moreover have "pool_ok (k_pmm (proc_reap i k))"
      using us rng inv pm False unfolding rel by (simp add: mem_inv_def pool_ok_def same_range_def)
    ultimately show ?thesis
      using give h pm False by (simp del: unit_pages.simps)
  qed
  have sp: "space_ok (proc_reap i k) (set T) q" if "q \<in> set ?ps'" "p_state q \<noteq> PROC_UNUSED" for q
  proof -
    have "q \<in> set ?ps" using that un(2) set_update_subset_insert [of ?ps i proc_clear] by auto
    then show ?thesis using inv that(2) by (simp add: mem_inv_def space_ok_def frame)
  qed
  have uniq: "\<not> (p_user_pa (?ps' ! a) = USER_REGION_BASE \<and> p_user_pa (?ps' ! b) = USER_REGION_BASE)"
    if "a < length ?ps'" "b < length ?ps'" "a \<noteq> b" "p_state (?ps' ! a) \<noteq> PROC_UNUSED" "p_state (?ps' ! b) \<noteq> PROC_UNUSED" for a b
  proof -
    have "a \<noteq> i" "b \<noteq> i" using that i un(2) by auto
    then show ?thesis using inv that by (auto simp: mem_inv_def)
  qed
  have rp: "region_pages \<inter> (page_set (k_pmm (proc_reap i k)) \<union> \<Union> (unit_pages ` set (?B @ ?C))) = {}"
    using inv core unfolding mem_inv_def by metis
  have tm: "mm_template0 (k_mmu k) \<in> set T" "mm_template1 (k_mmu k) \<in> set T"
    using inv by (simp_all add: mem_inv_def)
  note c = core [THEN conjunct1] core [THEN conjunct2, THEN conjunct1] core [THEN conjunct2, THEN conjunct2, THEN conjunct1]
  show ?thesis
    by (rule mem_invI [where ps = ?ps' and us = "?B @ ?C"])
      (use procs units' frame c rp tm sp uniq in \<open>simp_all only: procs frame\<close>)
qed

text \<open>Making a table: \<open>N\<close> are the pages taken, also when the call fails half-way.\<close>

definition took :: "u64 list \<Rightarrow> mmu \<times> pmm \<Rightarrow> mmu \<times> pmm \<Rightarrow> bool" where
  "took N s s' \<longleftrightarrow> pool_ok (snd s') \<and> page_set (snd s') \<union> set N = page_set (snd s) \<and>
     (\<forall>held. pmm.owns held (snd s) \<longrightarrow> pmm.owns (map (Pair Page) N @ held) (snd s')) \<and>
     mm_template0 (fst s') = mm_template0 (fst s) \<and> mm_template1 (fst s') = mm_template1 (fst s) \<and>
     (\<forall>t. t \<notin> set N \<longrightarrow> mm_tabs (fst s') t = mm_tabs (fst s) t)"

lemma took_trans: "took N s s' \<Longrightarrow> took N' s' s'' \<Longrightarrow> took (N' @ N) s s''"
  unfolding took_def by auto

lemma took_write: "took N s (m, p) \<Longrightarrow> t \<in> set N \<Longrightarrow> took N s (set_entry t i v m, p) \<and> took N s (fill_table t f m, p)"
  by (auto simp: took_def set_entry_def fill_table_def)

lemma alloc_took:
  assumes "pool_ok p" and "alloc_table_page (m, p) = (t, m', p')"
  shows "took (if t = 0 then [] else [t]) (m, p) (m', p')"
  using alloc_table_page_spec [OF assms]
proof (elim disjE conjE)
  assume "t = 0" "m' = m" "p' = p"
  then show ?thesis using assms(1) by (simp add: took_def)
next
  assume t: "t \<noteq> 0" "t \<in> page_set p" "page_set p' = page_set p - {t}" "pool_ok p'" and m': "m' = m\<lparr>mm_tabs := (mm_tabs m)(t := (\<lambda>_. 0))\<rparr>"
  have "unit_alloc Page p = Some ((Page, t), p')"
    using assms(2) t(1) by (auto simp: alloc_table_page_def split: if_splits prod.splits)
  then have "pmm.owns held p \<Longrightarrow> pmm.owns ((Page, t) # held) p'" for held
    using pmm.take_owns(1) by blast
  then show ?thesis using t m' by (auto simp: took_def)
qed

lemma took_pool: "took N s s' \<Longrightarrow> pool_ok (snd s')"
  by (simp add: took_def)

lemma create_units:
  assumes "pool_ok p" and "mmu_ttbr0_create_with_user_pa ub (m, p) = (r, m', p')"
  obtains N where "took N (m, p) (m', p')" and "r \<noteq> 0 \<Longrightarrow> table_pages (mm_tabs m') r \<subseteq> set N"
proof -
  have same: "took [] (m, p) (m, p)" using assms(1) by (simp add: took_def)
  show thesis
  proof (cases "mm_template0 m = 0 \<or> ub AND 0x1FFFFF \<noteq> 0")
    case True
    then have "(r, m', p') = (0, m, p)"
      using assms(2) by (auto simp: mmu_ttbr0_create_with_user_pa_def split: if_splits)
    then show thesis using that [of "[]"] same by simp
  next
    case False
    obtain l1 m1 p1 where 1: "alloc_table_page (m, p) = (l1, m1, p1)" by (metis prod_cases3)
    obtain a m2 p2 where 2: "alloc_table_page (m1, p1) = (a, m2, p2)" by (metis prod_cases3)
    obtain b m3 p3 where 3: "alloc_table_page (m2, p2) = (b, m3, p3)" by (metis prod_cases3)
    let ?one = "\<lambda>t :: u64. if t = 0 then [] else [t]"
    let ?N = "?one b @ ?one a @ ?one l1"
    note t1 = alloc_took [OF assms(1) 1]
    note t2 = took_trans [OF t1 alloc_took [OF _ 2]]
    have t2: "took (?one a @ ?one l1) (m, p) (m2, p2)"
      using took_trans [OF t1 alloc_took [OF _ 2]] took_pool [OF t1] by simp
    have t3: "took ?N (m, p) (m3, p3)"
      using took_trans [OF t2 alloc_took [OF _ 3]] took_pool [OF t2] by simp
    show thesis
    proof (cases "l1 = 0 \<or> a = 0 \<or> b = 0")
      case True
      then have "(r, m', p') = (0, m3, p3)"
        using assms(2) False by (auto simp: mmu_ttbr0_create_with_user_pa_def 1 2 3 split: if_splits)
      then show thesis using that [of ?N] t3 by simp
    next
      case nz: False
      let ?m1 = "fill_table a (mm_tabs m3 (mm_template0 m3)) m3"
      let ?m2 = "if mm_template1 ?m1 \<noteq> 0 then fill_table b (mm_tabs ?m1 (mm_template1 ?m1)) ?m1 else ?m1"
      let ?m3 = "set_entry a (unat (drop_bit 21 USER_REGION_BASE AND 0x1FF)) (make_block_desc ub ATTR_NORMAL PTE_AP_RW_EL0 False) ?m2"
      have eq: "r = l1" "p' = p3" "m' = set_entry l1 1 (make_table_desc b) (set_entry l1 0 (make_table_desc a) ?m3)"
        using assms(2) False nz by (auto simp: mmu_ttbr0_create_with_user_pa_def 1 2 3 Let_def)
      have N: "?N = [b, a, l1]" using nz by simp
      have "took ?N (m, p) (?m2, p3)" using t3 took_write unfolding N by simp
      then have tk: "took ?N (m, p) (m', p')" unfolding eq N by (simp add: took_write)
      have "mm_tabs m' r 0 = make_table_desc a" "mm_tabs m' r 1 = make_table_desc b"
        by (simp_all add: eq set_entry_def)
      moreover have "make_table_desc t AND 0x0000FFFFFFFFF000 = t" if "t \<in> {a, b}" for t
      proof -
        have "t \<in> page_set p" using t3 that unfolding took_def N by auto
        from pool_page [OF assms(1) this] show ?thesis using table_desc(2) by simp
      qed
      ultimately have "table_pages (mm_tabs m') r = {r, a, b}" by (simp add: table_pages_def)
      then show thesis using that [OF tk [unfolded N]] eq(1) by simp
    qed
  qed
qed

lemma owns_swap: "pmm.owns (xs @ ys @ zs) p \<longleftrightarrow> pmm.owns (ys @ xs @ zs) p"
proof -
  have "apart unit_pages (xs @ ys @ zs) \<longleftrightarrow> apart unit_pages (ys @ xs @ zs)"
    by (simp add: apart_def sorted_wrt_append ball_Un Int_commute) blast
  then show ?thesis by (auto simp: pmm.owns_def)
qed

lemma owns_under: "pmm.owns (b # xs @ ys @ zs) p \<longleftrightarrow> pmm.owns (b # ys @ xs @ zs) p"
  using owns_swap [of "[b]" "xs"] owns_move [of "[b]" _ _ p]
  by (metis append_Cons append_Nil append_assoc owns_swap)

lemma two_level_cong:
  assumes "two_level tabs r el0 target" and "\<And>t. t \<in> table_pages tabs r \<Longrightarrow> tabs' t = tabs t"
  shows "two_level tabs' r el0 target"
proof -
  obtain a b where ab: "tabs r 0 = make_table_desc a" "tabs r 1 = make_table_desc b"
      "\<forall>i. 2 \<le> i \<and> i < 512 \<longrightarrow> tabs r i = 0"
      "unat a < 2 ^ 48" "4096 dvd unat a" "unat b < 2 ^ 48" "4096 dvd unat b"
      "\<forall>k < 1024. maps_block (blk tabs a b k) (el0 k) (target k)"
    using assms(1) by (auto simp: two_level_def)
  have "table_pages tabs r = {r, a, b}"
    using ab table_desc(2) by (simp add: table_pages_def)
  then have "tabs' r = tabs r" "tabs' a = tabs a" "tabs' b = tabs b" using assms(2) by simp_all
  then show ?thesis
    using ab blk_cong [of tabs' a tabs b] unfolding two_level_def
    by (intro exI [of _ a] exI [of _ b]) simp
qed

lemma space_ok_took:
  assumes "space_ok k T p" and "took N (k_mmu k, p1) (m, p2)" and "T \<inter> set N = {}"
    and "k_mmu k' = m" and "\<And>t. t \<in> T \<Longrightarrow> k_user_of k' t = k_user_of k t" and "T \<subseteq> T'"
  shows "space_ok k' T' p"
proof -
  have eq: "mm_tabs m t = mm_tabs (k_mmu k) t" if "t \<in> T" for t
    using assms(2,3) that by (auto simp: took_def)
  have sub: "table_pages (mm_tabs (k_mmu k)) (p_ttbr0 p) \<subseteq> T" using assms(1) by (simp add: space_ok_def)
  then have root: "p_ttbr0 p \<in> T" by (simp add: table_pages_def)
  have tl: "two_level (mm_tabs (k_mmu k)) (p_ttbr0 p) (\<lambda>n. n = 2) (block_pa(2 := p_user_pa p))"
    using assms(1) by (simp add: space_ok_def)
  have "two_level (mm_tabs m) (p_ttbr0 p) (\<lambda>n. n = 2) (block_pa(2 := p_user_pa p))"
    by (rule two_level_cong [OF tl]) (rule eq, rule subsetD [OF sub])
  moreover have "table_pages (mm_tabs m) (p_ttbr0 p) = table_pages (mm_tabs (k_mmu k)) (p_ttbr0 p)"
    using eq [OF root] by (simp add: table_pages_def)
  ultimately show ?thesis
    using assms(1,4,6) assms(5) [OF root] sub by (simp add: space_ok_def)
qed

text \<open>The memory side of \<open>clone\<close>, up to the new process.\<close>

lemma clone_units:
  assumes inv: "mem_inv T k" and al: "pmm_alloc_2mib_aligned (k_pmm k) = (pa, p1)" and pa: "pa \<noteq> 0"
    and cr: "mmu_ttbr0_create_with_user_pa pa (k_mmu k, p1) = (root, m, p2)"
  obtains N where "took N (k_mmu k, p1) (m, p2)" and "set T \<inter> set N = {}"
    and "pmm.owns (map (Pair Page) N @ (Block, pa) # held_units T (k_procs k)) p2"
    and "page_set p2 \<union> set N \<union> unit_pages (Block, pa) = page_set (k_pmm k)"
    and "templates_ok m p2" and "mm_template0 m \<in> set T" and "mm_template1 m \<in> set T"
    and "root \<noteq> 0 \<Longrightarrow> table_pages (mm_tabs m) root \<subseteq> set N \<and> root \<notin> set T \<and>
      two_level (mm_tabs m) root (\<lambda>n. n = 2) (block_pa(2 := pa))"
    and "pa \<noteq> USER_REGION_BASE"
proof -
  let ?H = "held_units T (k_procs k)"
  have own: "pmm.owns ?H (k_pmm k)" and pool: "pool_ok (k_pmm k)" and tm: "templates_ok (k_mmu k) (k_pmm k)"
    using inv by (simp_all add: mem_inv_def)
  have ua: "unit_alloc Block (k_pmm k) = Some ((Block, pa), p1)" using al pa by simp
  have us: "pmm_usable (k_pmm k)" using pool by (simp add: pool_ok_def)
  note a = usable_alloc [OF us ua]
  have own1: "pmm.owns ((Block, pa) # ?H) p1" using pmm.take_owns(1) [OF own ua] .
  have pool1: "pool_ok p1"
    using a pool alloc_range [of "k_pmm k"] al by (simp add: pool_ok_def same_range_def)
  have tm1: "templates_ok (k_mmu k) p1" using tm a by (auto simp: templates_ok_def)
  obtain N where N: "took N (k_mmu k, p1) (m, p2)" "root \<noteq> 0 \<Longrightarrow> table_pages (mm_tabs m) root \<subseteq> set N"
    using create_units [OF pool1 cr] by blast
  have inT: "t \<notin> page_set (k_pmm k)" if "t \<in> set T" for t
  proof -
    have "(Page, t) \<in> set ?H" using that by (simp add: held_units_def)
    then have "unit_pages (Page, t) \<inter> page_set (k_pmm k) = {}" using own unfolding pmm.owns_def by blast
    then show ?thesis by simp
  qed
  have sub: "set N \<subseteq> page_set (k_pmm k)" using N(1) a by (auto simp: took_def)
  have disj: "set T \<inter> set N = {}" using inT sub by blast
  have pin: "pa \<in> page_set (k_pmm k)"
  proof -
    have "pa \<in> unit_pages (Block, pa)" by (auto intro: exI [of _ 0])
    then show ?thesis using a by blast
  qed
  have ub: "unat pa < 2 ^ 48" using pool_page(1) [OF pool pin] .
  have t01: "mm_template0 (k_mmu k) \<in> set T" "mm_template1 (k_mmu k) \<in> set T"
    using inv by (simp_all add: mem_inv_def)
  have tm2: "templates_ok m p2"
  proof -
    have "mm_tabs m (mm_template0 (k_mmu k)) = mm_tabs (k_mmu k) (mm_template0 (k_mmu k))"
      "mm_tabs m (mm_template1 (k_mmu k)) = mm_tabs (k_mmu k) (mm_template1 (k_mmu k))"
      using N(1) t01 disj by (auto simp: took_def)
    then show ?thesis
      using tm1 N(1) blk_cong [of "mm_tabs m" "mm_template0 (k_mmu k)" "mm_tabs (k_mmu k)" "mm_template1 (k_mmu k)"]
      by (auto simp: templates_ok_def took_def)
  qed
  have root: "table_pages (mm_tabs m) root \<subseteq> set N \<and> root \<notin> set T \<and>
      two_level (mm_tabs m) root (\<lambda>n. n = 2) (block_pa(2 := pa))" if "root \<noteq> 0"
    using N(2) [OF that] disj new_table_blocks(1) [OF tm1 pool1 ub cr that] by (auto simp: table_pages_def)
  have "USER_REGION_BASE \<in> region_pages" by (auto simp: region_pages_def intro: exI [of _ 0])
  then have pr: "pa \<noteq> USER_REGION_BASE" using pin inv by (auto simp: mem_inv_def)
  have pages: "page_set p2 \<union> set N \<union> unit_pages (Block, pa) = page_set (k_pmm k)"
    using N(1) a by (auto simp: took_def simp del: unit_pages.simps)
  have own2: "pmm.owns (map (Pair Page) N @ (Block, pa) # ?H) p2" using N(1) own1 by (simp add: took_def)
  have t01m: "mm_template0 m \<in> set T" "mm_template1 m \<in> set T" using t01 N(1) by (simp_all add: took_def)
  show thesis by (rule that [OF N(1) disj own2 pages tm2 t01m root pr])
qed

lemma free_slot:
  "proc_find_free_slot k = Some i \<Longrightarrow> i < length (k_procs k) \<and> p_state (k_procs k ! i) = PROC_UNUSED"
  unfolding proc_find_free_slot_def by (drule find_slot_Some) simp

text \<open>A failed table: the block goes back, the table pages stay taken.\<close>

lemma clone_fail_mem:
  assumes inv: "mem_inv T k" and al: "pmm_alloc_2mib_aligned (k_pmm k) = (pa, p1)" and pa: "pa \<noteq> 0"
    and cr: "mmu_ttbr0_create_with_user_pa pa (k_mmu k, p1) = (root, m, p2)"
  shows "\<exists>N. mem_inv (N @ T) (k\<lparr>k_mmu := m, k_pmm := pmm_free_2mib_aligned pa p2\<rparr>)"
proof -
  obtain N where N: "took N (k_mmu k, p1) (m, p2)" "set T \<inter> set N = {}"
    "pmm.owns (map (Pair Page) N @ (Block, pa) # held_units T (k_procs k)) p2"
    "page_set p2 \<union> set N \<union> unit_pages (Block, pa) = page_set (k_pmm k)"
    "templates_ok m p2" "mm_template0 m \<in> set T" "mm_template1 m \<in> set T"
    by (rule clone_units [OF inv al pa cr])
  let ?k = "k\<lparr>k_mmu := m, k_pmm := pmm_free_2mib_aligned pa p2\<rparr>"
  let ?H = "held_units T (k_procs k)" and ?b = "(Block, pa)" and ?p3 = "pmm_free_2mib_aligned pa p2"
  have own: "pmm.owns (?b # map (Pair Page) N @ ?H) p2" using N(3) owns_move by simp
  note give = pmm.give_owns(1) [OF own, of 0]
  have own3: "pmm.owns (map (Pair Page) N @ ?H) ?p3" using give by simp
  have v: "pmm_usable p2" "unit_valid p2 ?b" using own unfolding pmm.owns_def by auto
  note us = usable_release [OF v, unfolded unit_release.simps]
  have units: "held_units (N @ T) (k_procs k) = block_units (k_procs k) @ map (Pair Page) N @ map (Pair Page) T"
    by (simp add: held_units_def)
  have own': "pmm.owns (held_units (N @ T) (k_procs k)) ?p3"
    using own3 owns_swap unfolding units by (simp add: held_units_def)
  have tab: "t \<notin> unit_pages ?b" if "t \<in> set T" for t
    using owned_apart [OF own, of "(Page, t)"] that by (auto simp: held_units_def simp del: unit_pages.simps(2))
  have tm: "templates_ok m ?p3"
    using N(5-7) us tab by (simp add: templates_ok_def del: unit_pages.simps)
  have pool: "pool_ok ?p3"
    using us took_pool [OF N(1)] release_range [of p2 pa] by (simp add: pool_ok_def same_range_def)
  have "page_set ?p3 \<union> \<Union> (unit_pages ` set (held_units (N @ T) (k_procs k))) =
      page_set p2 \<union> set N \<union> unit_pages ?b \<union> \<Union> (unit_pages ` set ?H)"
    using us by (auto simp: held_units_def simp del: unit_pages.simps(2))
  then have "page_set ?p3 \<union> \<Union> (unit_pages ` set (held_units (N @ T) (k_procs k))) =
      page_set (k_pmm k) \<union> \<Union> (unit_pages ` set ?H)" using N(4) by simp
  then have rp: "region_pages \<inter> (page_set ?p3 \<union> \<Union> (unit_pages ` set (held_units (N @ T) (k_procs k)))) = {}"
    using inv by (simp add: mem_inv_def)
  have sp: "space_ok ?k (set (N @ T)) p" if "p \<in> set (k_procs k)" "p_state p \<noteq> PROC_UNUSED" for p
    by (rule space_ok_took [of k "set T" p N p1 m p2]) (use inv that N(1,2) in \<open>auto simp: mem_inv_def\<close>)
  have uniq: "\<not> (p_user_pa (k_procs k ! i) = USER_REGION_BASE \<and> p_user_pa (k_procs k ! j) = USER_REGION_BASE)"
    if "i < length (k_procs k)" "j < length (k_procs k)" "i \<noteq> j" "p_state (k_procs k ! i) \<noteq> PROC_UNUSED"
      "p_state (k_procs k ! j) \<noteq> PROC_UNUSED" for i j
    using inv that by (simp add: mem_inv_def)
  have "mem_inv (N @ T) ?k"
    by (rule mem_invI [where ps = "k_procs k" and us = "held_units (N @ T) (k_procs k)"])
      (use own' pool tm N(6,7) rp sp uniq in simp_all)
  then show ?thesis ..
qed

text \<open>The new process: its slot holds the fresh block and table.\<close>

lemma clone_proc_mem:
  assumes inv: "mem_inv T k" and al: "pmm_alloc_2mib_aligned (k_pmm k) = (pa, p1)" and pa: "pa \<noteq> 0"
    and cr: "mmu_ttbr0_create_with_user_pa pa (k_mmu k, p1) = (root, m, p2)" and nz: "root \<noteq> 0"
    and slot: "slot < length (k_procs k)" "p_state (k_procs k ! slot) = PROC_UNUSED"
    and child: "p_user_pa child = pa" "p_ttbr0 child = root" "p_state child \<noteq> PROC_UNUSED"
  shows "\<exists>N. mem_inv (N @ T) (set_proc slot (\<lambda>_. child)
    (k\<lparr>k_mmu := m, k_pmm := p2, k_user_of := (k_user_of k)(root := pa), k_mem := mem, k_next_pid := n\<rparr>))"
proof -
  obtain N where N: "took N (k_mmu k, p1) (m, p2)" "set T \<inter> set N = {}"
    "pmm.owns (map (Pair Page) N @ (Block, pa) # held_units T (k_procs k)) p2"
    "page_set p2 \<union> set N \<union> unit_pages (Block, pa) = page_set (k_pmm k)"
    "templates_ok m p2" "mm_template0 m \<in> set T" "mm_template1 m \<in> set T"
    and root: "table_pages (mm_tabs m) root \<subseteq> set N" "root \<notin> set T"
      "two_level (mm_tabs m) root (\<lambda>n. n = 2) (block_pa(2 := pa))" and pr: "pa \<noteq> USER_REGION_BASE"
    using clone_units [OF inv al pa cr] nz by metis
  let ?k = "set_proc slot (\<lambda>_. child)
    (k\<lparr>k_mmu := m, k_pmm := p2, k_user_of := (k_user_of k)(root := pa), k_mem := mem, k_next_pid := n\<rparr>)"
  let ?ps = "k_procs k" and ?ps' = "(k_procs k)[slot := child]" and ?H = "held_units T (k_procs k)"
  let ?B = "block_units (take slot ?ps)" and ?C = "block_units (drop (Suc slot) ?ps)" and ?b = "(Block, pa)"
  have procs: "k_procs ?k = ?ps'" by (simp add: set_proc_def upd_at_def)
  have free: "\<not> owns_block (?ps ! slot)" using slot by (simp add: owns_block_def)
  have H: "?H = ?B @ ?C @ map (Pair Page) T"
    using block_units_split [OF slot(1)] free by (simp add: held_units_def)
  have own_child: "owns_block child" using child pa pr by (simp add: owns_block_def)
  have units: "held_units (N @ T) ?ps' = ?B @ ?b # ?C @ map (Pair Page) N @ map (Pair Page) T"
    using block_units_at [OF slot(1), of child] own_child child(1) by (simp add: held_units_def)
  have own': "pmm.owns (held_units (N @ T) ?ps') p2"
  proof -
    have "pmm.owns (?b # map (Pair Page) N @ (?B @ ?C) @ map (Pair Page) T) p2"
      using N(3) owns_move H by simp
    then have "pmm.owns ([?b] @ (?B @ ?C) @ map (Pair Page) N @ map (Pair Page) T) p2"
      using owns_under [of ?b "map (Pair Page) N" "?B @ ?C" "map (Pair Page) T"] by simp
    then show ?thesis unfolding units using owns_move [of ?B ?b "?C @ map (Pair Page) N @ map (Pair Page) T"] by simp
  qed
  have "page_set p2 \<union> \<Union> (unit_pages ` set (held_units (N @ T) ?ps')) =
      page_set p2 \<union> set N \<union> unit_pages ?b \<union> \<Union> (unit_pages ` set ?H)"
    unfolding units H by (auto simp del: unit_pages.simps(2))
  then have rp: "region_pages \<inter> (page_set p2 \<union> \<Union> (unit_pages ` set (held_units (N @ T) ?ps'))) = {}"
    using inv N(4) by (simp add: mem_inv_def)
  have sp: "space_ok ?k (set (N @ T)) p" if p: "p \<in> set ?ps'" "p_state p \<noteq> PROC_UNUSED" for p
  proof (cases "p = child")
    case True
    then show ?thesis using root child pa by (auto simp: space_ok_def)
  next
    case False
    then have "p \<in> set ?ps" using p(1) set_update_subset_insert [of ?ps slot child] by auto
    then have "space_ok k (set T) p" using inv p(2) by (simp add: mem_inv_def)
    then show ?thesis
      by (rule space_ok_took [of k "set T" p N p1 m p2]) (use N(1,2) root(2) in auto)
  qed
  have uniq: "\<not> (p_user_pa (?ps' ! i) = USER_REGION_BASE \<and> p_user_pa (?ps' ! j) = USER_REGION_BASE)"
    if "i < length ?ps'" "j < length ?ps'" "i \<noteq> j" "p_state (?ps' ! i) \<noteq> PROC_UNUSED" "p_state (?ps' ! j) \<noteq> PROC_UNUSED" for i j
  proof (cases "i = slot \<or> j = slot")
    case True
    then show ?thesis using that child(1) pr slot by auto
  next
    case False
    then show ?thesis using inv that by (auto simp: mem_inv_def)
  qed
  have "mem_inv (N @ T) ?k"
    by (rule mem_invI [OF procs refl]) (use own' took_pool [OF N(1)] N(5-7) rp sp uniq in simp_all)
  then show ?thesis ..
qed

end
