(* ===== verification/TaskRun.thy ===== *)
theory TaskRun
  imports TaskMem
begin

text \<open>
  The whole-kernel invariant \<open>task_ok\<close> (files exact, memory exact, scheduler indices in range), its
  preservation by every call of \<open>Task\<close>, runs from the boot state, and what follows for them: processes
  never share memory, and a fork is a copy.
\<close>

subsection \<open>Open files\<close>

lemma fds_exact_cong:
  assumes "fds_exact k" and "length (k_procs k') = MAX_PROCS"
    and "\<And>i. i < MAX_PROCS \<Longrightarrow> p_fdt (k_procs k' ! i) = p_fdt (k_procs k ! i)"
    and "\<And>i. i < MAX_PROCS \<Longrightarrow> p_state (k_procs k' ! i) = PROC_UNUSED \<Longrightarrow> p_fdt (k_procs k ! i) = replicate MAX_FDS None"
    and "fd_inv no_held (proc_tabs k) (k_fd k) \<Longrightarrow> fd_inv no_held (proc_tabs k) (k_fd k')"
  shows "fds_exact k'"
proof -
  have len: "length (k_procs k) = MAX_PROCS" using assms(1) by (simp add: fds_exact_def)
  have "proc_tabs k' = proc_tabs k"
    unfolding proc_tabs_def using assms(2,3) len by (intro nth_equalityI) simp_all
  then show ?thesis
    using assms by (auto simp: fds_exact_def in_set_conv_nth)
qed

lemma fds_exact_unused:
  "fds_exact k \<Longrightarrow> i < MAX_PROCS \<Longrightarrow> p_state (k_procs k ! i) = PROC_UNUSED \<Longrightarrow> p_fdt (k_procs k ! i) = replicate MAX_FDS None"
  by (simp add: fds_exact_def)

lemma fds_exact_tasks:
  assumes "fds_exact k" and "same_tasks k k'"
  shows "fds_exact k'"
proof (rule fds_exact_cong [OF assms(1)])
  have len: "length (k_procs k) = MAX_PROCS" using assms(1) by (simp add: fds_exact_def)
  have l2: "list_all2 same_space (k_procs k) (k_procs k')" using assms(2) by (simp add: same_tasks_def)
  then show "length (k_procs k') = MAX_PROCS" using len by (simp add: list_all2_lengthD)
  have sp: "same_space (k_procs k ! i) (k_procs k' ! i)" if "i < MAX_PROCS" for i
    using l2 len that by (simp add: list_all2_conv_all_nth)
  show "p_fdt (k_procs k' ! i) = p_fdt (k_procs k ! i)" if "i < MAX_PROCS" for i
    using sp [OF that] by (simp add: same_space_def)
  show "p_fdt (k_procs k ! i) = replicate MAX_FDS None" if "i < MAX_PROCS" "p_state (k_procs k' ! i) = PROC_UNUSED" for i
    using sp [OF that(1)] that fds_exact_unused [OF assms(1)] by (simp add: same_space_def)
  show "fd_inv no_held (proc_tabs k) (k_fd k) \<Longrightarrow> fd_inv no_held (proc_tabs k) (k_fd k')"
    using assms(2) by (simp add: same_tasks_def)
qed

lemma fds_exact_set_proc:
  assumes "fds_exact k" and "p_fdt (f (k_procs k ! i)) = p_fdt (k_procs k ! i)"
    and "p_state (f (k_procs k ! i)) = PROC_UNUSED \<Longrightarrow> p_fdt (k_procs k ! i) = replicate MAX_FDS None"
  shows "fds_exact (set_proc i f k)"
  using assms by (intro fds_exact_cong [OF assms(1)]) (auto simp: fds_exact_def set_proc_nth fds_exact_unused [OF assms(1)] split: if_splits)

lemma close_all_exact:
  assumes "fds_exact k" and i: "i < MAX_PROCS"
  shows "fds_exact (proc_close_all_fds i k) \<and> p_fdt (k_procs (proc_close_all_fds i k) ! i) = replicate MAX_FDS None"
proof -
  obtain t s where c: "close_all_fds (p_fdt (k_procs k ! i)) (k_fd k) = (t, s)" by fastforce
  have len: "length (k_procs k) = MAX_PROCS" and inv: "fd_inv no_held (proc_tabs k) (k_fd k)"
    using assms(1) by (simp_all add: fds_exact_def)
  have tab: "proc_tabs k ! i = p_fdt (k_procs k ! i)" and il: "i < length (proc_tabs k)"
    using i len by (simp_all add: proc_tabs_def)
  have new: "fd_inv no_held ((proc_tabs k)[i := t]) s" and t: "t = replicate MAX_FDS None"
    using close_all_fds_inv [OF inv il, of t s] c unfolding tab by blast+
  let ?k = "proc_close_all_fds i k"
  have k: "k_procs ?k = k_procs (set_proc i (\<lambda>p. p\<lparr>p_fdt := t\<rparr>) k)" "k_fd ?k = s"
    by (simp_all add: proc_close_all_fds_def c)
  have "proc_tabs ?k = (proc_tabs k)[i := t]"
    using proc_tabs_set_proc [of i k "\<lambda>p. p\<lparr>p_fdt := t\<rparr>"] i len k by (simp add: proc_tabs_def)
  moreover have "p_fdt p = replicate MAX_FDS None" if "p \<in> set (k_procs ?k)" "p_state p = PROC_UNUSED" for p
    using that t len fds_exact_unused [OF assms(1)] unfolding k(1) by (auto simp: in_set_conv_nth set_proc_nth split: if_splits)
  ultimately show ?thesis
    using new t i len by (simp add: fds_exact_def k)
qed

text \<open>What closing leaves alone.\<close>

lemma close_all_frame:
  "list_all2 same_mem (k_procs k) (k_procs (proc_close_all_fds i k))" "k_pmm (proc_close_all_fds i k) = k_pmm k"
  "k_mmu (proc_close_all_fds i k) = k_mmu k" "k_user_of (proc_close_all_fds i k) = k_user_of k"
  "k_cur (proc_close_all_fds i k) = k_cur k" "k_last_sched (proc_close_all_fds i k) = k_last_sched k"
  "k_mem (proc_close_all_fds i k) = k_mem k" "k_ttbr0 (proc_close_all_fds i k) = k_ttbr0 k"
  by (simp_all add: proc_close_all_fds_def same_mem_def list_all2_conv_all_nth set_proc_nth split: prod.split)

lemma close_all_state:
  "j < length (k_procs k) \<Longrightarrow> p_state (k_procs (proc_close_all_fds i k) ! j) = p_state (k_procs k ! j)"
  by (simp add: proc_close_all_fds_def set_proc_nth split: prod.split)

text \<open>The loop that copies the table of the parent, one counted entry at a time.\<close>

lemma inherit_fds_inv:
  assumes inv: "fd_inv no_held tabs s" and small: "fd_small no_held tabs" and a: "a < length tabs" and b: "b < length tabs"
    and ab: "a \<noteq> b" and empty: "tabs ! b = replicate MAX_FDS None" and n: "n \<le> MAX_FDS"
    and r: "fold (inherit_fd (tabs ! a)) [0..<n] (tabs ! b, s) = (t, s')"
  shows "fd_inv no_held (tabs[b := t]) s' \<and> t = take n (tabs ! a) @ replicate (MAX_FDS - n) None"
  using n r
proof (induction n arbitrary: t s')
  case 0
  then show ?case using inv empty list_update_id [of tabs b] by auto
next
  case (Suc n)
  obtain t1 s1 where f: "fold (inherit_fd (tabs ! a)) [0..<n] (tabs ! b, s) = (t1, s1)" by fastforce
  have ih: "fd_inv no_held (tabs[b := t1]) s1" and t1: "t1 = take n (tabs ! a) @ replicate (MAX_FDS - n) None"
    using Suc.IH [OF Suc_leD [OF Suc.prems(1)] f] by blast+
  have la: "length (tabs ! a) = MAX_FDS" using fd_inv_length [OF inv a] .
  have n: "n < MAX_FDS" using Suc.prems(1) by simp
  have step: "(t, s') = inherit_fd (tabs ! a) n (t1, s1)" using Suc.prems(2) f by simp
  have upd: "t1[n := x] = take n (tabs ! a) @ x # replicate (MAX_FDS - Suc n) None" for x
  proof -
    obtain m where m: "MAX_FDS - n = Suc m" using n by (cases "MAX_FDS - n") auto
    then have "MAX_FDS - Suc n = m" by simp
    then show ?thesis using la n m by (simp add: t1 list_update_append)
  qed
  have tk: "take (Suc n) (tabs ! a) = take n (tabs ! a) @ [tabs ! a ! n]" using la n by (simp add: take_Suc_conv_app_nth)
  show ?case
  proof (cases "tabs ! a ! n")
    case None
    have "t1[n := None] = t1" using t1 la n by (intro list_update_same_conv [THEN iffD2]) (simp_all add: nth_append)
    then show ?thesis using step ih upd [of None] None tk by (simp add: inherit_fd_def)
  next
    case (Some d)
    let ?tabs = "tabs[b := t1]"
    have sm: "fd_small no_held ?tabs" using fd_small_update [OF small] .
    have ta: "?tabs ! a = tabs ! a" "a < length ?tabs" "b < length ?tabs" "?tabs ! b = t1" using a b ab by simp_all
    have d: "d < MAX_FILEDESCS" "fd_refs (fs_descs s1 ! d) \<noteq> 0"
      using fd_entry_lt [OF ih ta(2) n] fd_entry_live [OF ih ta(2) n] Some ta(1) by simp_all
    have i2: "fd_inv (no_held(d := 1)) ?tabs (desc_incref d s1)"
      using desc_incref_inv [OF ih sm d] by simp
    have free: "?tabs ! b ! n = None" using t1 la n ta(4) by (simp add: nth_append)
    have "fd_inv (no_held(d := 1, d := 0)) (?tabs[b := (?tabs ! b)[n := Some d]]) (desc_incref d s1)"
      by (rule fd_inv_store [OF i2 ta(3) n free d(1)]) simp
    moreover have "no_held(d := 1, d := 0) = no_held" by (rule ext) simp
    ultimately show ?thesis
      using step upd [of "Some d"] Some tk b by (simp add: inherit_fd_def)
  qed
qed

subsection \<open>Every call keeps the invariant\<close>

definition mem_ok :: "kernel \<Rightarrow> bool" where
  "mem_ok k \<longleftrightarrow> (\<exists>T. mem_inv T k)"

definition task_ok :: "kernel \<Rightarrow> bool" where
  "task_ok k \<longleftrightarrow> fds_exact k \<and> mem_ok k \<and> sched_ok k \<and> k_cur k < MAX_PROCS"

lemma task_ok_tasks:
  "task_ok k \<Longrightarrow> same_tasks k k' \<Longrightarrow> k_cur k' < MAX_PROCS \<Longrightarrow> k_last_sched k' < MAX_PROCS \<Longrightarrow> task_ok k'"
  using fds_exact_tasks [of k k'] same_tasks_mem [of k k'] unfolding task_ok_def mem_ok_def sched_ok_def fds_exact_def
  by blast

lemma task_ok_frame [simp]:
  "task_ok (k\<lparr>k_mem := m\<rparr>) = task_ok k" "task_ok (k\<lparr>k_ttbr0 := t\<rparr>) = task_ok k" "task_ok (k\<lparr>k_con := c\<rparr>) = task_ok k"
  by (simp_all add: task_ok_def mem_ok_def mem_inv_def fds_exact_def sched_ok_def proc_tabs_def space_ok_def)

lemma task_ok_set_proc:
  assumes "task_ok k" and "p_fdt (f (k_procs k ! i)) = p_fdt (k_procs k ! i)" and "same_mem (k_procs k ! i) (f (k_procs k ! i))"
    and "i < MAX_PROCS"
  shows "task_ok (set_proc i f k)"
proof -
  have "fds_exact (set_proc i f k)"
    using assms fds_exact_unused [of k i] by (intro fds_exact_set_proc) (auto simp: task_ok_def same_mem_def)
  moreover have "mem_ok (set_proc i f k)"
  proof -
    obtain T where "mem_inv T k" using assms(1) by (auto simp: task_ok_def mem_ok_def)
    from mem_inv_set_proc [where f = f and i = i, OF this] assms(3) show ?thesis by (auto simp: mem_ok_def)
  qed
  ultimately show ?thesis
    using assms(1) by (simp add: task_ok_def sched_ok_def)
qed

lemma task_ok_close_all:
  assumes "task_ok k" and "i < MAX_PROCS"
  shows "task_ok (proc_close_all_fds i k)"
proof -
  note f = close_all_frame [where k = k and i = i]
  have "fds_exact (proc_close_all_fds i k)" using close_all_exact [of k i] assms by (simp add: task_ok_def)
  moreover have "mem_ok (proc_close_all_fds i k)"
    using assms(1) mem_inv_cong [OF _ f(1-4)] unfolding task_ok_def mem_ok_def by blast
  ultimately show ?thesis
    using assms(1) list_all2_lengthD [OF f(1)] f(5,6) by (simp add: task_ok_def sched_ok_def)
qed

lemma task_ok_write_u32 [simp]: "task_ok (write_u32 a v k) = task_ok k"
  by (simp add: write_u32_def)

lemma task_ok_reap:
  assumes ok: "task_ok k" and i: "i < MAX_PROCS" and live: "p_state (k_procs k ! i) \<noteq> PROC_UNUSED"
    and empty: "p_fdt (k_procs k ! i) = replicate MAX_FDS None"
  shows "task_ok (proc_reap i k)"
proof -
  have len: "length (k_procs k) = MAX_PROCS" using ok by (simp add: task_ok_def fds_exact_def)
  let ?k = "if p_user_pa (k_procs k ! i) \<noteq> 0 \<and> p_user_pa (k_procs k ! i) \<noteq> USER_REGION_BASE
    then k\<lparr>k_pmm := pmm_free_2mib_aligned (p_user_pa (k_procs k ! i)) (k_pmm k)\<rparr> else k"
  have reap: "proc_reap i k = set_proc i (\<lambda>_. proc_clear) ?k" by (simp add: proc_reap_def Let_def)
  have "fds_exact ?k" using ok by (simp add: task_ok_def fds_exact_def proc_tabs_def)
  then have "fds_exact (proc_reap i k)"
    unfolding reap using empty by (intro fds_exact_set_proc) (simp_all add: proc_fds_unused)
  moreover have "mem_ok (proc_reap i k)"
    using ok proc_reap_mem [of _ k i] i len live by (auto simp: task_ok_def mem_ok_def)
  moreover have "sched_ok (proc_reap i k)" "k_cur (proc_reap i k) = k_cur k"
    using ok by (simp_all add: reap sched_ok_def task_ok_def)
  ultimately show ?thesis using ok by (simp add: task_ok_def)
qed

lemma same_tasks_state: "same_tasks k k' \<Longrightarrow> i < length (k_procs k) \<Longrightarrow>
    p_state (k_procs k' ! i) = PROC_UNUSED \<longleftrightarrow> p_state (k_procs k ! i) = PROC_UNUSED"
  by (simp add: same_tasks_def list_all2_conv_all_nth same_space_def)

lemma task_ok_switch:
  assumes "task_ok k" and "proc_switch_to c1 c2 idx k = (r, k')" and "idx < MAX_PROCS" and "p_state (k_procs k ! idx) \<noteq> PROC_UNUSED"
  shows "task_ok k'"
  using switch_tasks [OF assms(2)] assms task_ok_tasks [OF assms(1), of k']
  by (simp add: task_ok_def fds_exact_def sched_ok_def)

lemma task_ok_resched:
  assumes "poll_ok (si_usb e)" and "task_ok k" and "resched e k = Some (r, k')"
  shows "task_ok k' \<and> same_tasks k k' \<and> (r = None \<longrightarrow> k_cur k' = k_cur k)"
  using resched_tasks [OF assms(1) _ assms(3)] assms(2) task_ok_tasks [OF assms(2), of k']
  by (cases r) (auto simp: task_ok_def sched_ok_def)

lemma clone_proc_ok:
  assumes ok: "task_ok k" and live: "p_state (cur_proc k) \<noteq> PROC_UNUSED"
    and al: "pmm_alloc_2mib_aligned (k_pmm k) = (pa, p1)" and pa: "pa \<noteq> 0"
    and cr: "mmu_ttbr0_create_with_user_pa pa (k_mmu k, p1) = (root, m, p2)" and nz: "root \<noteq> 0"
    and slot: "slot < length (k_procs k)" "p_state (k_procs k ! slot) = PROC_UNUSED"
    and K: "K = k\<lparr>k_mmu := m, k_pmm := p2, k_user_of := (k_user_of k)(root := pa), k_mem := mem\<rparr>"
    and r: "clone_proc rg slot root pa K = (x, k')"
  shows "task_ok k'" and "p_fdt (k_procs k' ! slot) = p_fdt (cur_proc k)" and "k_mem k' = mem" and "x = k_next_pid k"
    and "k_procs k' ! slot = proc_clear\<lparr>p_pid := k_next_pid k, p_ppid := p_pid (cur_proc k), p_state := PROC_RUNNABLE,
      p_ttbr0 := root, p_user_pa := pa, p_tf := (fst rg)\<lparr>tf_x := (tf_x (fst rg))[0 := 0]\<rparr>, p_elr := snd rg,
      p_fdt := p_fdt (cur_proc k), p_cwd := p_cwd (cur_proc k)\<rparr>"
    and "\<And>j. j < length (k_procs k) \<Longrightarrow> j \<noteq> slot \<Longrightarrow> k_procs k' ! j = k_procs k ! j"
    and "k_cur k' = k_cur k" and "k_user_of k' = (k_user_of k)(root := pa)" and "k_ttbr0 k' = k_ttbr0 k"
proof -
  have len: "length (k_procs k) = MAX_PROCS" and cur: "k_cur k < MAX_PROCS" and ex: "fds_exact k" and inv: "fd_inv no_held (proc_tabs k) (k_fd k)"
    using ok by (simp_all add: task_ok_def fds_exact_def)
  have ne: "k_cur k \<noteq> slot" using live slot(2) by (auto simp: cur_proc_def)
  let ?child = "proc_clear\<lparr>p_pid := k_next_pid k, p_ppid := p_pid (cur_proc k), p_state := PROC_RUNNABLE, p_ttbr0 := root,
            p_user_pa := pa, p_tf := fst rg, p_elr := snd rg\<rparr>"
  let ?K1 = "set_proc slot (\<lambda>_. ?child) (K\<lparr>k_next_pid := k_next_pid k + 1\<rparr>)"
  let ?a = "p_fdt (cur_proc k)"
  have empty: "p_fdt ?child = replicate MAX_FDS None" by (simp add: proc_fds_unused)
  have parent: "cur_proc ?K1 = cur_proc k" using ne by (simp add: cur_proc_def K)
  have tb: "proc_tabs k ! k_cur k = ?a" "proc_tabs k ! slot = replicate MAX_FDS None" "length (proc_tabs k) = MAX_PROCS"
    using len cur slot fds_exact_unused [OF ex] by (simp_all add: proc_tabs_def cur_proc_def)
  obtain t s where f: "inherit_fds ?a (p_fdt ?child, k_fd k) = (t, s)" by fastforce
  have "fold (inherit_fd (proc_tabs k ! k_cur k)) [0..<MAX_FDS] (proc_tabs k ! slot, k_fd k) = (t, s)"
    using f unfolding inherit_fds_def tb empty .
  moreover have il: "k_cur k < length (proc_tabs k)" "slot < length (proc_tabs k)" using cur slot len tb(3) by simp_all
  ultimately have inh: "fd_inv no_held ((proc_tabs k)[slot := t]) s \<and>
      t = take MAX_FDS (proc_tabs k ! k_cur k) @ replicate (MAX_FDS - MAX_FDS) None"
    using inherit_fds_inv [OF inv proc_tabs_small [OF len] il ne tb(2) order.refl] by blast
  note new = inh [THEN conjunct1]
  have "length ?a = MAX_FDS" using fd_inv_length [OF inv il(1)] tb by simp
  then have t: "t = ?a" using inh [THEN conjunct2] tb by simp
  have nid: "k_next_pid K = k_next_pid k" "k_cur K = k_cur k" "cur_proc K = cur_proc k" by (simp_all add: K cur_proc_def)
  have fd1: "k_fd ?K1 = k_fd k" by (simp add: K)
  have x: "x = k_next_pid k" and k': "k' = (set_proc slot (\<lambda>p. set_x0 0 (p\<lparr>p_fdt := t, p_cwd := p_cwd (cur_proc k)\<rparr>)) ?K1)\<lparr>k_fd := s\<rparr>"
    using r f parent fd1 unfolding clone_proc_def Let_def nid by auto
  have procs: "k_procs k' = (k_procs k)[slot := set_x0 0 (?child\<lparr>p_fdt := t, p_cwd := p_cwd (cur_proc k)\<rparr>)]"
    using slot by (simp add: k' set_proc_def upd_at_def K)
  show "k_procs k' ! slot = proc_clear\<lparr>p_pid := k_next_pid k, p_ppid := p_pid (cur_proc k), p_state := PROC_RUNNABLE,
      p_ttbr0 := root, p_user_pa := pa, p_tf := (fst rg)\<lparr>tf_x := (tf_x (fst rg))[0 := 0]\<rparr>, p_elr := snd rg,
      p_fdt := ?a, p_cwd := p_cwd (cur_proc k)\<rparr>"
    using slot t by (simp add: procs set_x0_def)
  then show "p_fdt (k_procs k' ! slot) = ?a" by simp
  show "k_procs k' ! j = k_procs k ! j" if "j < length (k_procs k)" "j \<noteq> slot" for j using that by (simp add: procs)
  show "k_mem k' = mem" "x = k_next_pid k" "k_cur k' = k_cur k" "k_user_of k' = (k_user_of k)(root := pa)" "k_ttbr0 k' = k_ttbr0 k"
    by (simp_all add: k' x K)
  obtain T where T: "mem_inv T k" using ok by (auto simp: task_ok_def mem_ok_def)
  obtain N where N: "mem_inv (N @ T) ?K1"
    using clone_proc_mem [OF T al pa cr nz slot, where child = ?child and mem = mem and n = "k_next_pid k + 1"] by (auto simp: K)
  have "mem_inv (N @ T) k'"
    by (rule mem_inv_cong [OF N]) (simp_all add: k' same_mem_def set_x0_def list_all2_conv_all_nth set_proc_nth)
  moreover have "proc_tabs k' = (proc_tabs k)[slot := t]"
    by (simp add: proc_tabs_def procs map_update)
  moreover have "p_fdt p = replicate MAX_FDS None" if "p \<in> set (k_procs k')" "p_state p = PROC_UNUSED" for p
  proof -
    have "p \<noteq> set_x0 0 (?child\<lparr>p_fdt := t, p_cwd := p_cwd (cur_proc k)\<rparr>)" using that(2) by auto
    then have "p \<in> set (k_procs k)" using that(1) set_update_subset_insert [of "k_procs k" slot] unfolding procs by blast
    then show ?thesis using ex that(2) by (simp add: fds_exact_def)
  qed
  moreover have "k_fd k' = s" "length (k_procs k') = MAX_PROCS" "k_last_sched k' = k_last_sched k" "k_cur k' = k_cur k"
    using len by (simp_all add: k' K)
  ultimately show "task_ok k'"
    using new ok by (auto simp: task_ok_def fds_exact_def sched_ok_def mem_ok_def)
qed

lemma alloc_fails_same:
  assumes "pmm_usable p" and "pmm_alloc_2mib_aligned p = (0, p1)"
  shows "p1 = p"
proof -
  have ok: "pmm_ok p" "0 \<notin> page_set p" using assms(1) by (simp_all add: pmm_usable_def)
  have "page_addr p i \<in> page_set p" if "{i..<i + 512} \<subseteq> free_pages p" for i
  proof -
    have "i \<in> free_pages p" using that by (simp add: subset_iff)
    then show ?thesis by (simp add: page_set_def)
  qed
  then show ?thesis using pmm_alloc_2mib_spec [OF ok(1)] assms(2) ok(2) by force
qed

lemma task_ok_clone:
  assumes ok: "task_ok k" and live: "p_state (cur_proc k) \<noteq> PROC_UNUSED" and r: "sys_clone rg flags k = (x, k')"
  shows "task_ok k'"
proof (cases "flags AND NOT 0xff \<noteq> 0 \<or> proc_find_free_slot k = None")
  case True
  then show ?thesis using ok r by (auto simp: sys_clone_def split: if_splits)
next
  case False
  then obtain slot where fs: "proc_find_free_slot k = Some slot" by auto
  obtain pa p1 where al: "pmm_alloc_2mib_aligned (k_pmm k) = (pa, p1)" by fastforce
  obtain T where T: "mem_inv T k" using ok by (auto simp: task_ok_def mem_ok_def)
  have us: "pmm_usable (k_pmm k)" using T by (simp add: mem_inv_def pool_ok_def)
  show ?thesis
  proof (cases "pa = 0")
    case True
    then have "k' = k\<lparr>k_pmm := k_pmm k\<rparr>" using r False fs al alloc_fails_same [OF us] by (auto simp: sys_clone_def)
    then show ?thesis using ok by simp
  next
    case pa: False
    obtain root m p2 where cr: "mmu_ttbr0_create_with_user_pa pa (k_mmu k, p1) = (root, m, p2)" by (metis prod_cases3)
    show ?thesis
    proof (cases "root = 0")
      case True
      then have "k' = k\<lparr>k_mmu := m, k_pmm := pmm_free_2mib_aligned pa p2\<rparr>" using r False fs al pa cr by (auto simp: sys_clone_def)
      moreover obtain N where "mem_inv (N @ T) (k\<lparr>k_mmu := m, k_pmm := pmm_free_2mib_aligned pa p2\<rparr>)"
        using clone_fail_mem [OF T al pa cr] by blast
      ultimately show ?thesis
        using ok by (auto simp: task_ok_def mem_ok_def fds_exact_def sched_ok_def proc_tabs_def)
    next
      case nz: False
      have c: "clone_proc rg slot root pa (k\<lparr>k_mmu := m, k_pmm := p2, k_user_of := (k_user_of k)(root := pa),
          k_mem := copy_image (unat USER_REGION_SIZE) (user_base k) pa (k_mem k)\<rparr>) = (x, k')"
        using r False fs al pa cr nz by (auto simp: sys_clone_def)
      have slot: "slot < length (k_procs k)" "p_state (k_procs k ! slot) = PROC_UNUSED" using free_slot [OF fs] by simp_all
      show ?thesis by (rule clone_proc_ok(1) [OF ok live al pa cr nz slot refl c])
    qed
  qed
qed

lemma set_x0_mem [simp]: "same_mem p (set_x0 v q) \<longleftrightarrow> same_mem p q"
  by (simp add: same_mem_def set_x0_def)

lemma task_ok_wait4:
  assumes poll: "poll_ok (si_usb e)" and ok: "task_ok k" and live: "p_state (cur_proc k) \<noteq> PROC_UNUSED"
    and r: "sys_wait4 e rg pid ws opt k = Returns x rg' k'"
  shows "task_ok k'"
proof (cases "find_slot (zombie_child (p_pid (cur_proc k)) pid) (k_procs k)")
  case (Some i)
  have len: "length (k_procs k) = MAX_PROCS" using ok by (simp add: task_ok_def fds_exact_def)
  have i: "i < MAX_PROCS" "p_state (k_procs k ! i) = PROC_ZOMBIE"
    using find_slot_Some [OF Some] len by (simp_all add: zombie_child_def)
  have "task_ok (proc_reap i (proc_close_all_fds i k1))" if k1: "task_ok k1" "k_procs k1 = k_procs k" for k1
  proof -
    have "fds_exact k1" using k1(1) by (simp add: task_ok_def)
    note cl = close_all_exact [OF this i(1)]
    show ?thesis
      using task_ok_close_all [OF k1(1) i(1)] cl i close_all_state [of i k1 i] k1(2) len by (intro task_ok_reap) simp_all
  qed
  then show ?thesis
    using r Some ok by (auto simp: sys_wait4_def Let_def write_u32_def split: if_splits)
next
  case None
  have cur: "k_cur k < MAX_PROCS" using ok by (simp add: task_ok_def)
  let ?k1 = "set_cur (\<lambda>p. p\<lparr>p_state := PROC_WAITING, p_wait_pid := pid, p_wait_status := ws, p_tf := fst rg, p_elr := snd rg\<rparr>) k"
  have ok1: "task_ok ?k1"
    unfolding set_cur_def using live by (intro task_ok_set_proc ok cur) (simp_all add: same_mem_def cur_proc_def)
  have again: "task_ok (set_proc (k_cur k) (\<lambda>p. p\<lparr>p_state := PROC_RUNNABLE, p_wait_pid := 0, p_wait_status := 0\<rparr>) k2)"
    if r2: "resched e ?k1 = Some (None, k2)" for k2
  proof -
    note rs = task_ok_resched [OF poll ok1 r2]
    have "length (k_procs k) = MAX_PROCS" using ok by (simp add: task_ok_def fds_exact_def)
    then have "p_state (k_procs k2 ! k_cur k) \<noteq> PROC_UNUSED"
      using same_tasks_state [of ?k1 k2 "k_cur k"] rs cur by (simp add: set_cur_def)
    then show ?thesis using rs by (intro task_ok_set_proc cur) (simp_all add: same_mem_def)
  qed
  have "sys_wait4 e rg pid ws opt k = (if \<not> list_ex (\<lambda>p. p_state p \<noteq> PROC_UNUSED \<and> p_ppid p = p_pid (cur_proc k)) (k_procs k)
      then Returns (sys_err ECHILD) rg k else if opt AND 1 \<noteq> 0 then Returns 0 rg k
      else case resched e ?k1 of None \<Rightarrow> Waits
        | Some (Some r', k') \<Rightarrow> Returns SYSCALL_SWITCHED r' k'
        | Some (None, k') \<Rightarrow> Returns (sys_err EAGAIN) rg
            (set_proc (k_cur k) (\<lambda>p. p\<lparr>p_state := PROC_RUNNABLE, p_wait_pid := 0, p_wait_status := 0\<rparr>) k'))"
    by (simp add: sys_wait4_def Let_def None)
  then have eq: "Returns x rg' k' = \<dots>" using r by simp
  show ?thesis
  proof (cases "resched e ?k1")
    case None
    then show ?thesis using eq ok by (simp split: if_splits)
  next
    case (Some qk)
    obtain q k2 where qk: "qk = (q, k2)" by fastforce
    have rs: "resched e ?k1 = Some (q, k2)" using Some qk by simp
    note ok2 = task_ok_resched [OF poll ok1 rs]
    show ?thesis
    proof (cases q)
      case None
      then show ?thesis using eq ok again [of k2] rs by (simp split: if_splits)
    next
      case (Some r')
      then show ?thesis using eq ok ok2 rs by (simp split: if_splits)
    qed
  qed
qed

lemma task_ok_clear_tid: "task_ok (clear_tid i k) = task_ok k"
  by (simp add: clear_tid_def Let_def)

lemma clear_tid_procs [simp]: "k_procs (clear_tid i k) = k_procs k" "k_cur (clear_tid i k) = k_cur k"
  by (simp_all add: clear_tid_def Let_def write_u32_def)

lemma task_ok_mark_zombie:
  "task_ok k \<Longrightarrow> i < MAX_PROCS \<Longrightarrow> p_state (k_procs k ! i) \<noteq> PROC_UNUSED \<Longrightarrow> task_ok (mark_zombie i code k)"
  unfolding mark_zombie_def by (intro task_ok_set_proc) (simp_all add: same_mem_def)

lemma task_ok_wake_parent:
  assumes ok: "task_ok k" and c: "c < MAX_PROCS" and live: "p_state (k_procs k ! c) = PROC_ZOMBIE"
    and empty: "p_fdt (k_procs k ! c) = replicate MAX_FDS None"
  shows "task_ok (wake_parent c code k) \<and> k_cur (wake_parent c code k) = k_cur k"
proof (cases "find_slot (\<lambda>p. p_state p = PROC_WAITING \<and> p_pid p = p_ppid (k_procs k ! c)) (k_procs k)")
  case None
  then show ?thesis using ok by (simp add: wake_parent_def)
next
  case (Some i)
  have len: "length (k_procs k) = MAX_PROCS" using ok by (simp add: task_ok_def fds_exact_def)
  have i: "i < MAX_PROCS" "p_state (k_procs k ! i) = PROC_WAITING"
    using find_slot_Some [OF Some] len by simp_all
  have ne: "i \<noteq> c" using i(2) live by auto
  let ?f = "\<lambda>p. set_x0 (p_pid (k_procs k ! c)) (p\<lparr>p_state := PROC_RUNNABLE, p_wait_pid := 0, p_wait_status := 0\<rparr>)"
  have "task_ok (proc_reap c (set_proc i ?f k2)) \<and> k_cur (proc_reap c (set_proc i ?f k2)) = k_cur k2"
    if k2: "task_ok k2" "k_procs k2 = k_procs k" for k2
  proof -
    have "task_ok (set_proc i ?f k2)"
      using i k2 by (intro task_ok_set_proc) (simp_all add: same_mem_def set_x0_def)
    then show ?thesis
      using task_ok_reap [of "set_proc i ?f k2" c] ne c live empty k2(2) by (simp add: proc_reap_def Let_def)
  qed
  then show ?thesis
    using ok Some by (simp add: wake_parent_def deliver_exit_def Let_def write_u32_def mmu_ttbr0_write_def)
qed

lemma task_ok_dying:
  assumes ok: "task_ok k" and c: "c < MAX_PROCS" and live: "p_state (k_procs k ! c) \<noteq> PROC_UNUSED"
    and k1: "task_ok k1" "k_procs k1 = k_procs (proc_close_all_fds c k)" "k_cur k1 = k_cur k"
  shows "task_ok (wake_parent c code (mark_zombie c code k1)) \<and> k_cur (wake_parent c code (mark_zombie c code k1)) = k_cur k"
proof -
  have len: "length (k_procs k) = MAX_PROCS" and ex: "fds_exact k" using ok by (simp_all add: task_ok_def fds_exact_def)
  have l1: "length (k_procs k1) = MAX_PROCS" using k1(1) by (simp add: task_ok_def fds_exact_def)
  have st: "p_state (k_procs k1 ! c) \<noteq> PROC_UNUSED" using live c len k1(2) close_all_state by simp
  have em: "p_fdt (k_procs k1 ! c) = replicate MAX_FDS None" using close_all_exact [OF ex c] k1(2) by simp
  note z = task_ok_mark_zombie [OF k1(1) c st, of code]
  show ?thesis
    using task_ok_wake_parent [OF z c, of code] em c l1 k1(3) by (simp add: mark_zombie_def)
qed

lemma task_ok_exit:
  assumes poll: "poll_ok (si_usb e)" and ok: "task_ok k" and live: "p_state (cur_proc k) \<noteq> PROC_UNUSED"
    and r: "handle_exit_and_maybe_switch e rg code k = Returns x rg' k'"
  shows "task_ok k'"
proof -
  have cur: "k_cur k < MAX_PROCS" using ok by (simp add: task_ok_def)
  let ?k1 = "clear_tid (k_cur k) (proc_close_all_fds (k_cur k) k)"
  have "task_ok ?k1" using task_ok_close_all [OF ok cur] by (simp add: task_ok_clear_tid)
  then have d: "task_ok (wake_parent (k_cur k) code (mark_zombie (k_cur k) code ?k1))" (is "task_ok ?k2")
    using task_ok_dying [OF ok cur, of ?k1 code] live by (simp add: cur_proc_def close_all_frame)
  have fb: "task_ok k3" if "resched e ?k2 = Some (None, k2)" "p_state (k_procs k2 ! 0) = PROC_RUNNABLE"
      "proc_switch_to c1 c2 0 k2 = (rr, k3)" for k2 c1 c2 rr k3
    using task_ok_resched [OF poll d that(1)] task_ok_switch [OF _ that(3)] that(2) by (simp add: MAX_PROCS_def)
  have eq: "(case resched e ?k2 of
          None \<Rightarrow> Waits
        | Some (Some r', k2) \<Rightarrow> Returns 1 r' k2
        | Some (None, k2) \<Rightarrow>
            if p_state (k_procs k2 ! 0) = PROC_RUNNABLE
            then case proc_switch_to (si_cnt1 e) (si_cnt2 e) 0 k2 of (r', k3) \<Rightarrow> Returns 1 r' k3
            else Returns 0 rg k2) = Returns x rg' k'"
    using r unfolding handle_exit_and_maybe_switch_def Let_def by (simp split: if_splits)
  show ?thesis
  proof (cases "resched e ?k2")
    case None
    then show ?thesis using eq by simp
  next
    case (Some qk)
    obtain q k3 where qk: "qk = (q, k3)" by fastforce
    have rs: "resched e ?k2 = Some (q, k3)" using Some qk by simp
    note ok3 = task_ok_resched [OF poll d rs]
    obtain r4 k4 where sw: "proc_switch_to (si_cnt1 e) (si_cnt2 e) 0 k3 = (r4, k4)" by fastforce
    show ?thesis
    proof (cases q)
      case None
      then show ?thesis using eq ok3 rs fb [OF _ _ sw] sw by (simp split: if_splits)
    next
      case (Some r')
      then show ?thesis using eq ok3 rs by simp
    qed
  qed
qed

lemma task_ok_kill:
  assumes poll: "poll_ok (si_usb e)" and ok: "task_ok k" and live: "p_state (cur_proc k) \<noteq> PROC_UNUSED"
    and r: "sys_kill e rg pid sig k = Returns x rg' k'"
  shows "task_ok k'"
proof (cases "proc_find_idx_by_pid pid k")
  case None
  then show ?thesis using r ok by (auto simp: sys_kill_def split: if_splits)
next
  case (Some i)
  have len: "length (k_procs k) = MAX_PROCS" using ok by (simp add: task_ok_def fds_exact_def)
  have i: "i < MAX_PROCS" "p_state (k_procs k ! i) \<noteq> PROC_UNUSED"
    using find_slot_Some [OF Some [unfolded proc_find_idx_by_pid_def]] len by simp_all
  have other: "task_ok (kill_other i code k)" for code
  proof -
    let ?k1 = "proc_close_all_fds i k"
    let ?k2 = "if p_clear_child_tid (k_procs ?k1 ! i) \<noteq> 0
      then clear_tid i (mmu_ttbr0_write (p_ttbr0 (k_procs ?k1 ! i)) ?k1) else ?k1"
    have "task_ok ?k2" using task_ok_close_all [OF ok i(1)] by (simp add: task_ok_clear_tid mmu_ttbr0_write_def)
    moreover have "k_procs ?k2 = k_procs ?k1" "k_cur ?k2 = k_cur k"
      by (simp_all add: mmu_ttbr0_write_def close_all_frame)
    ultimately show ?thesis
      using task_ok_dying [OF ok i, of ?k2 code] unfolding kill_other_def Let_def by (simp add: mmu_ttbr0_write_def)
  qed
  show ?thesis
    using r ok other task_ok_exit [OF poll ok live] unfolding sys_kill_def Let_def Some
    by (auto split: if_splits sys_outcome.splits)
qed

subsection \<open>Runs\<close>

text \<open>
  The calls that make, end and switch processes, made by the running process while it is alive,
  and the preemption on return from an interrupt.
\<close>

datatype task_call = Clone u64 | Wait4 u64 u64 u64 | Exit u64 | Kill u64 u64 | Preempt

fun do_call :: "sched_in \<Rightarrow> regs \<Rightarrow> task_call \<Rightarrow> kernel \<Rightarrow> sys_outcome" where
  "do_call e rg (Clone flags) k = (case sys_clone rg flags k of (x, k') \<Rightarrow> Returns x rg k')"
| "do_call e rg (Wait4 pid ws opt) k = sys_wait4 e rg pid ws opt k"
| "do_call e rg (Exit code) k = handle_exit_and_maybe_switch e rg code k"
| "do_call e rg (Kill pid sig) k = sys_kill e rg pid sig k"
| "do_call e rg Preempt k =
     (case sched_maybe_switch (si_usb e) (si_obs e) (si_cnt1 e) (si_cnt2 e) rg k of
        None \<Rightarrow> Waits | Some (rg', k') \<Rightarrow> Returns 0 rg' k')"

inductive task_run :: "kernel \<Rightarrow> kernel \<Rightarrow> bool" for k0 where
  start: "task_run k0 k0"
| call: "task_run k0 k \<Longrightarrow> poll_ok (si_usb e) \<Longrightarrow> p_state (cur_proc k) \<noteq> PROC_UNUSED \<Longrightarrow>
    do_call e rg c k = Returns x rg' k' \<Longrightarrow> task_run k0 k'"
| user: "task_run k0 k \<Longrightarrow> task_run k0 (k\<lparr>k_mem := m\<rparr>)"

lemma task_ok_preempt:
  assumes "poll_ok usb" and ok: "task_ok k" and r: "sched_maybe_switch usb obs c1 c2 rg k = Some (rg', k')"
  shows "task_ok k'"
proof -
  let ?e = "\<lparr>si_usb = usb, si_obs = obs, si_cnt1 = c1, si_cnt2 = c2\<rparr>"
  have "\<exists>r. resched ?e k = Some (r, k')"
    using r by (auto simp: sched_maybe_switch_def resched_def split: option.splits if_splits prod.splits)
  then show ?thesis using task_ok_resched [of ?e k _ k'] assms(1) ok by auto
qed

lemma task_run_ok:
  assumes "task_run k0 k" and "task_ok k0"
  shows "task_ok k"
  using assms
proof induction
  case (call k e rg c x rg' k')
  then show ?case
  proof (cases c)
    case (Clone flags)
    then show ?thesis using call task_ok_clone [of k rg flags x k'] by (auto split: prod.splits)
  next
    case (Wait4 pid ws opt)
    then show ?thesis using call task_ok_wait4 [of e k rg pid ws opt x rg' k'] by simp
  next
    case (Exit code)
    then show ?thesis using call task_ok_exit [of e k rg code x rg' k'] by simp
  next
    case (Kill pid sig)
    then show ?thesis using call task_ok_kill [of e k rg pid sig x rg' k'] by simp
  next
    case Preempt
    then have "sched_maybe_switch (si_usb e) (si_obs e) (si_cnt1 e) (si_cnt2 e) rg k = Some (rg', k')"
      using call.hyps(4) by (simp split: option.splits prod.splits)
    then show ?thesis using call task_ok_preempt [of "si_usb e" k] by blast
  qed
qed simp_all

text \<open>The boot address space: four table pages.\<close>

lemma init_units:
  assumes pool: "pool_ok p" and off: "\<not> mm_enabled m"
    and r: "mmu_init_identity ram_base ram_size (m, p) = (m', p')" and on: "mm_enabled m'"
  obtains N where "pmm.owns (map (Pair Page) N) p'" and "page_set p' \<union> set N = page_set p"
    and "mm_template0 m' \<in> set N" and "mm_template1 m' \<in> set N" and "table_pages (mm_tabs m') (mm_ttbr0 m') \<subseteq> set N"
proof -
  have rng: "\<not> align_up_u64 (ram_base + ram_size) BLOCK_SIZE \<le> align_down_u64 ram_base BLOCK_SIZE"
    using r off on by (auto simp: mmu_init_identity_def split: if_splits)
  obtain l1 m1 p1 where 1: "alloc_table_page (m, p) = (l1, m1, p1)" by (metis prod_cases3)
  obtain h m2 p2 where 2: "alloc_table_page (m1, p1) = (h, m2, p2)" by (metis prod_cases3)
  obtain a m3 p3 where 3: "alloc_table_page (m2, p2) = (a, m3, p3)" by (metis prod_cases3)
  obtain b m4 p4 where 4: "alloc_table_page (m3, p3) = (b, m4, p4)" by (metis prod_cases3)
  have "\<not> mm_enabled m4"
    using off 1 2 3 4 by (auto simp: alloc_table_page_def split: if_splits prod.splits)
  then have ok: "l1 \<noteq> 0" "h \<noteq> 0" "a \<noteq> 0" "b \<noteq> 0"
    using r rng on off by (auto simp: mmu_init_identity_def 1 2 3 4 split: if_splits)
  have t1: "took [l1] (m, p) (m1, p1)" using alloc_took [OF pool 1] ok by simp
  have t2: "took [h, l1] (m, p) (m2, p2)"
    using took_trans [OF t1 alloc_took [OF _ 2]] took_pool [OF t1] ok by simp
  have t3: "took [a, h, l1] (m, p) (m3, p3)"
    using took_trans [OF t2 alloc_took [OF _ 3]] took_pool [OF t2] ok by simp
  have t4: "took [b, a, h, l1] (m, p) (m4, p4)"
    using took_trans [OF t3 alloc_took [OF _ 4]] took_pool [OF t3] ok by simp
  have eq: "mm_tabs m' = mm_tabs (fill_table b high_desc (fill_table a low_desc
      (set_entry h 257 (make_table_desc b) (set_entry h 256 (make_table_desc a)
        (set_entry l1 1 (make_table_desc b) (set_entry l1 0 (make_table_desc a) m4))))))"
    and r': "mm_ttbr0 m' = l1" "mm_template0 m' = a" "mm_template1 m' = b" "p' = p4"
    using r rng ok off by (auto simp: mmu_init_identity_def 1 2 3 4 Let_def)
  have "pmm.owns [] p" using pool by (simp add: pmm.owns_def pool_ok_def apart_def)
  then have own: "pmm.owns (map (Pair Page) [b, a, h, l1]) p4"
    using t4 unfolding took_def by (metis append_Nil2 snd_conv)
  then have d: "distinct [b, a, h, l1]"
    by (auto simp: pmm.owns_def apart_def)
  have "mm_tabs m' l1 0 = make_table_desc a" "mm_tabs m' l1 1 = make_table_desc b"
    using d by (auto simp: eq set_entry_def fill_table_def)
  moreover have "make_table_desc t AND 0x0000FFFFFFFFF000 = t" if "t \<in> {a, b}" for t
  proof -
    have "t \<in> page_set p" using t4 that unfolding took_def by auto
    from pool_page [OF pool this] show ?thesis using table_desc(2) by simp
  qed
  ultimately have "table_pages (mm_tabs m') (mm_ttbr0 m') = {l1, a, b}"
    by (simp add: table_pages_def r')
  then show thesis
    using that [of "[b, a, h, l1]"] own t4 r' by (simp add: took_def)
qed

lemma boot_task_ok:
  assumes pool: "pool_ok p" and off: "\<not> mm_enabled m" and init: "mmu_init_identity ram_base ram_size (m, p) = (m', p')"
    and on: "mm_enabled m'" and reg: "region_pages \<inter> page_set p = {}" and fd: "fd_boot (k_fd k)"
    and k: "k_mmu k = m'" "k_pmm k = p'" "k_ttbr0 k = mm_ttbr0 m'" "k_user_of k (mm_ttbr0 m') = USER_REGION_BASE"
  shows "task_ok (proc_init elr tf k)"
proof -
  let ?k = "proc_init elr tf k"
  note ident = identity_map [OF pool off init on]
  obtain N where N: "pmm.owns (map (Pair Page) N) p'" "page_set p' \<union> set N = page_set p"
    "mm_template0 m' \<in> set N" "mm_template1 m' \<in> set N" "table_pages (mm_tabs m') (mm_ttbr0 m') \<subseteq> set N"
    by (rule init_units [OF pool off init on])
  have frame: "k_pmm ?k = p'" "k_mmu ?k = m'" "k_user_of ?k = k_user_of k" "k_cur ?k = 0" "k_last_sched ?k = 0"
    by (simp_all add: proc_init_def init_uart_fds_def Let_def k split: prod.split option.split)
  have len: "length (k_procs ?k) = MAX_PROCS"
    by (simp add: proc_init_def init_uart_fds_def Let_def split: prod.split option.split)
  have p0: "p_user_pa (k_procs ?k ! 0) = USER_REGION_BASE" "p_ttbr0 (k_procs ?k ! 0) = mm_ttbr0 m'"
    by (simp_all add: proc_init_def init_uart_fds_def Let_def MAX_PROCS_def k(3) split: prod.split option.split)
  have ex: "fds_exact ?k" and un: "\<And>i. i < MAX_PROCS \<Longrightarrow> i \<noteq> 0 \<Longrightarrow> p_state (k_procs ?k ! i) = PROC_UNUSED"
    using boot_procs [OF fd, of elr tf] by simp_all
  have bp: "block_pa(2 := USER_REGION_BASE) = block_pa"
    by (rule ext) (simp add: block_pa_def BLOCK_SIZE_def USER_REGION_BASE_def)
  have sp: "space_ok ?k (set N) q" if q: "q \<in> set (k_procs ?k)" and "p_state q \<noteq> PROC_UNUSED" for q
  proof -
    obtain i where "i < MAX_PROCS" "q = k_procs ?k ! i" using q len by (auto simp: in_set_conv_nth)
    then have "q = k_procs ?k ! 0" using un that by (cases "i = 0") auto
    then show ?thesis
      using p0 ident(1) N(5) k(4) by (simp add: space_ok_def frame bp) (simp add: USER_REGION_BASE_def)
  qed
  have nb: "block_units (k_procs ?k) = []"
  proof -
    have "\<not> owns_block q" if q: "q \<in> set (k_procs ?k)" for q
    proof -
      obtain i where "i < MAX_PROCS" "q = k_procs ?k ! i" using q len by (auto simp: in_set_conv_nth)
      then show ?thesis using un p0(1) by (cases "i = 0") (auto simp: owns_block_def)
    qed
    then show ?thesis by (simp add: block_units_def filter_empty_conv)
  qed
  have "mem_inv N ?k"
  proof (rule mem_invI [OF refl, where us = "map (Pair Page) N"])
    show "held_units N (k_procs ?k) = map (Pair Page) N" by (simp add: held_units_def nb)
    show "region_pages \<inter> (page_set (k_pmm ?k) \<union> \<Union> (unit_pages ` set (map (Pair Page) N))) = {}"
      using reg N(2) by (auto simp: frame)
    show "\<not> (p_user_pa (k_procs ?k ! i) = USER_REGION_BASE \<and> p_user_pa (k_procs ?k ! j) = USER_REGION_BASE)"
      if "i < length (k_procs ?k)" "j < length (k_procs ?k)" "i \<noteq> j" "p_state (k_procs ?k ! i) \<noteq> PROC_UNUSED"
        "p_state (k_procs ?k ! j) \<noteq> PROC_UNUSED" for i j
      using un [of i] un [of j] that len by (cases "i = 0") auto
  qed (use N ident sp in \<open>simp_all add: frame\<close>)
  then show ?thesis
    using ex len by (auto simp: task_ok_def mem_ok_def sched_ok_def frame MAX_PROCS_def)
qed

text \<open>Blocks of processes that share no page share no byte.\<close>

lemma take_bit_add_word: "take_bit 12 (a + b) = take_bit 12 (take_bit 12 a + take_bit 12 (b :: u64))"
  by (rule word_uint_eqI) (simp add: uint_word_ariths unsigned_take_bit_eq, simp add: take_bit_eq_mod mod_mod_cancel mod_add_eq)

lemma block_page:
  assumes "x \<in> block a" and "take_bit 12 a = 0"
  shows "x - take_bit 12 x \<in> unit_pages (Block, a)"
proof -
  obtain off where off: "x = a + off" "off < USER_REGION_SIZE" using assms(1) by (auto simp: block_def)
  have t: "take_bit 12 x = take_bit 12 off"
    using take_bit_add_word [of a off] assms(2) by (simp add: off(1))
  have d: "off = word_of_nat (unat (drop_bit 12 off)) * 4096 + take_bit 12 off"
    using bits_ident [of 12 off] by (simp add: push_bit_eq_mult)
  have "unat (drop_bit 12 off) = unat off div 4096"
    by (subst unat_drop_bit_eq) (simp add: drop_bit_eq_div)
  then have "unat (drop_bit 12 off) < 512"
    using off(2) by (simp add: word_less_nat_alt USER_REGION_SIZE_def)
  moreover have "x - take_bit 12 x = a + word_of_nat (unat (drop_bit 12 off)) * PMM_PAGE_SIZE"
  proof -
    have "x - take_bit 12 x = a + (off - take_bit 12 off)" unfolding t by (simp add: off(1))
    also have "off - take_bit 12 off = word_of_nat (unat (drop_bit 12 off)) * PMM_PAGE_SIZE"
      unfolding PMM_PAGE_SIZE_def using d by (metis add_diff_cancel_right')
    finally show ?thesis .
  qed
  ultimately show ?thesis unfolding unit_pages.simps by blast
qed

lemma blocks_apart:
  assumes "unit_pages (Block, a) \<inter> unit_pages (Block, b) = {}" and "take_bit 12 a = 0" and "take_bit 12 b = 0"
  shows "block a \<inter> block b = {}"
  using assms block_page by blast

lemma block_aligned:
  assumes "pool_ok p" and "unit_valid p (Block, a)"
  shows "take_bit 12 a = 0"
proof -
  obtain i where i: "512 dvd i" "i + 512 \<le> pm_total p" "a = page_addr p i" using assms(2) by auto
  then have "a AND 0x1FFFFF = 0"
    using assms(1) block_addr_aligned [of p i] by (simp add: pool_ok_def)
  then have "take_bit 21 a = 0" by (simp add: take_bit_eq_mask mask_eq_exp_minus_1)
  then have "take_bit 12 (take_bit 21 a) = take_bit 12 (0 :: u64)" by simp
  then show ?thesis by simp
qed

lemma mem_inv_apart:
  assumes inv: "mem_inv T k" and i: "i < length (k_procs k)" "j < length (k_procs k)" "i < j"
    and live: "p_state (k_procs k ! i) \<noteq> PROC_UNUSED" "p_state (k_procs k ! j) \<noteq> PROC_UNUSED"
  shows "block (p_user_pa (k_procs k ! i)) \<inter> block (p_user_pa (k_procs k ! j)) = {}"
proof -
  let ?a = "p_user_pa (k_procs k ! i)" and ?b = "p_user_pa (k_procs k ! j)"
  have pool: "pool_ok (k_pmm k)" and own: "pmm.owns (held_units T (k_procs k)) (k_pmm k)"
    and reg: "region_pages \<inter> \<Union> (unit_pages ` set (held_units T (k_procs k))) = {}"
    and one: "\<not> (?a = USER_REGION_BASE \<and> ?b = USER_REGION_BASE)"
    using inv i live unfolding mem_inv_def by (blast, blast, blast, metis less_irrefl)
  have nz: "p_user_pa (k_procs k ! l) \<noteq> 0" if "l < length (k_procs k)" "p_state (k_procs k ! l) \<noteq> PROC_UNUSED" for l
    using inv that by (auto simp: mem_inv_def space_ok_def)
  have mem: "(Block, p_user_pa (k_procs k ! l)) \<in> set (held_units T (k_procs k))"
    if "l < length (k_procs k)" "p_state (k_procs k ! l) \<noteq> PROC_UNUSED" "p_user_pa (k_procs k ! l) \<noteq> USER_REGION_BASE" for l
    using that nz [OF that(1,2)] by (auto simp: held_units_def block_units_def owns_block_def)
  have al: "take_bit 12 (p_user_pa (k_procs k ! l)) = 0"
    if "l < length (k_procs k)" "p_state (k_procs k ! l) \<noteq> PROC_UNUSED" for l
  proof (cases "p_user_pa (k_procs k ! l) = USER_REGION_BASE")
    case True
    then show ?thesis by (simp add: USER_REGION_BASE_def take_bit_eq_mask mask_eq_exp_minus_1)
  next
    case False
    then show ?thesis using own mem [OF that] block_aligned [OF pool] by (auto simp: pmm.owns_def)
  qed
  have "unit_pages (Block, ?a) \<inter> unit_pages (Block, ?b) = {}"
  proof (cases "?a = USER_REGION_BASE \<or> ?b = USER_REGION_BASE")
    case True
    have out: "region_pages \<inter> unit_pages (Block, p_user_pa (k_procs k ! l)) = {}"
      if "l < length (k_procs k)" "p_state (k_procs k ! l) \<noteq> PROC_UNUSED" "p_user_pa (k_procs k ! l) \<noteq> USER_REGION_BASE" for l
      using reg mem [OF that] by blast
    from True show ?thesis
    proof
      assume "?a = USER_REGION_BASE"
      then show ?thesis using out [OF i(2) live(2)] one by (simp only: region_pages_def) blast
    next
      assume "?b = USER_REGION_BASE"
      then show ?thesis using out [OF i(1) live(1)] one by (simp only: region_pages_def) blast
    qed
  next
    case False
    have "owns_block (k_procs k ! i)" "owns_block (k_procs k ! j)"
      using False live nz i(1,2) by (auto simp: owns_block_def)
    have e: "take j (k_procs k) = take i (take j (k_procs k)) @ k_procs k ! i # drop (Suc i) (take j (k_procs k))"
      using id_take_nth_drop [of i "take j (k_procs k)"] i by simp
    have "k_procs k = (take i (take j (k_procs k)) @ k_procs k ! i # drop (Suc i) (take j (k_procs k))) @
        k_procs k ! j # drop (Suc j) (k_procs k)"
      by (rule trans [OF id_take_nth_drop [OF i(2)] arg_cong [OF e, of "\<lambda>t. t @ k_procs k ! j # drop (Suc j) (k_procs k)"]])
    then have "k_procs k = take i (take j (k_procs k)) @ k_procs k ! i # drop (Suc i) (take j (k_procs k)) @
        k_procs k ! j # drop (Suc j) (k_procs k)"
      by (simp only: append_assoc append_Cons)
    then obtain xs ys zs where ps: "k_procs k = xs @ k_procs k ! i # ys @ k_procs k ! j # zs" by blast
    have "block_units (k_procs k) = block_units xs @ (Block, ?a) # block_units ys @ (Block, ?b) # block_units zs"
      by (subst ps) (simp add: block_units_def \<open>owns_block (k_procs k ! i)\<close> \<open>owns_block (k_procs k ! j)\<close>)
    then show ?thesis
      using own by (simp add: pmm.owns_def apart_def held_units_def sorted_wrt_append del: unit_pages.simps)
  qed
  then show ?thesis by (rule blocks_apart [OF _ al al]) (use i live in simp_all)
qed

text \<open>C8: whatever sequence of \<open>clone\<close>, \<open>wait4\<close>, \<open>exit\<close> and \<open>kill\<close> calls and preemptions follows the
  boot, with user code writing any memory in between: no two live processes share a byte of physical
  memory, the table of each process gives user code the block of that process and nothing else,
  and the table entries, descriptions and endpoint counts of all files stay exact.\<close>

theorem processes_never_share_memory:
  assumes "pool_ok p" and "\<not> mm_enabled m" and "mmu_init_identity ram_base ram_size (m, p) = (m', p')"
    and "mm_enabled m'" and "region_pages \<inter> page_set p = {}" and "fd_boot (k_fd k0)"
    and "k_mmu k0 = m'" and "k_pmm k0 = p'" and "k_ttbr0 k0 = mm_ttbr0 m'"
    and "k_user_of k0 (mm_ttbr0 m') = USER_REGION_BASE"
    and "task_run (proc_init elr tf k0) k"
  shows "fds_exact k \<and>
    (\<forall>i < MAX_PROCS. \<forall>j < MAX_PROCS. i \<noteq> j \<longrightarrow> p_state (k_procs k ! i) \<noteq> PROC_UNUSED \<longrightarrow>
       p_state (k_procs k ! j) \<noteq> PROC_UNUSED \<longrightarrow>
       block (p_user_pa (k_procs k ! i)) \<inter> block (p_user_pa (k_procs k ! j)) = {}) \<and>
    (\<forall>i < MAX_PROCS. p_state (k_procs k ! i) \<noteq> PROC_UNUSED \<longrightarrow>
       (\<forall>va w. walk (mm_tabs (k_mmu k)) (p_ttbr0 (k_procs k ! i)) va = Some w \<longrightarrow> mp_el0 w \<longrightarrow>
          mp_pa w \<in> block (p_user_pa (k_procs k ! i))))"
proof -
  have ok: "task_ok k" using task_run_ok [OF assms(11)] boot_task_ok [OF assms(1-10)] by blast
  then obtain T where T: "mem_inv T k" by (auto simp: task_ok_def mem_ok_def)
  have len: "length (k_procs k) = MAX_PROCS" using ok by (simp add: task_ok_def fds_exact_def)
  have "block (p_user_pa (k_procs k ! i)) \<inter> block (p_user_pa (k_procs k ! j)) = {}"
    if "i < MAX_PROCS" "j < MAX_PROCS" "i \<noteq> j" "p_state (k_procs k ! i) \<noteq> PROC_UNUSED" "p_state (k_procs k ! j) \<noteq> PROC_UNUSED" for i j
    using that mem_inv_apart [OF T, of i j] mem_inv_apart [OF T, of j i] by (cases "i < j") (simp_all add: len Int_commute)
  moreover have "mp_pa w \<in> block (p_user_pa (k_procs k ! i))"
    if i: "i < MAX_PROCS" "p_state (k_procs k ! i) \<noteq> PROC_UNUSED"
      and w: "walk (mm_tabs (k_mmu k)) (p_ttbr0 (k_procs k ! i)) va = Some w" "mp_el0 w" for i va w
  proof -
    have tl: "two_level (mm_tabs (k_mmu k)) (p_ttbr0 (k_procs k ! i)) (\<lambda>n. n = 2) (block_pa(2 := p_user_pa (k_procs k ! i)))"
      using T i len by (simp add: mem_inv_def space_ok_def)
    have "unat va < 2 ^ 31" using walk_two_level(2) [OF tl, of va] w(1) by (cases "unat va < 2 ^ 31") simp_all
    then show ?thesis using walk_user_pa [OF tl] w user_pa_in_block by fastforce
  qed
  ultimately show ?thesis using ok by (simp add: task_ok_def)
qed

subsection \<open>A forked process is a copy\<close>

lemma copy_image_spec:
  assumes "\<And>i. i < n \<Longrightarrow> user_pa base (dst + word_of_nat i) = dst + word_of_nat i"
    and "n \<le> unat USER_REGION_SIZE" and "block base \<inter> block dst = {}"
  shows "(\<forall>i < n. copy_image n base dst m (dst + word_of_nat i) = m (base + word_of_nat i)) \<and>
    (\<forall>x. x \<notin> block dst \<longrightarrow> copy_image n base dst m x = m x)"
  using assms
proof (induction n)
  case (Suc n)
  have lt: "word_of_nat i < USER_REGION_SIZE" if "i < Suc n" for i
    using that Suc.prems(2) by (simp add: word_less_nat_alt USER_REGION_SIZE_def unat_of_nat)
  have inb: "base + word_of_nat i \<in> block base" "dst + word_of_nat i \<in> block dst" if "i < Suc n" for i
    using lt [OF that] by (auto simp: block_def)
  have src: "user_pa base (USER_REGION_BASE + word_of_nat n) = base + word_of_nat n"
  proof -
    have "unat (word_of_nat n :: u64) = n" using Suc.prems(2) by (simp add: unat_of_nat USER_REGION_SIZE_def)
    then have "USER_REGION_BASE \<le> USER_REGION_BASE + (word_of_nat n :: u64)" "USER_REGION_BASE + word_of_nat n < USER_REGION_END"
      using Suc.prems(2) by (simp_all add: word_le_nat_alt word_less_nat_alt unat_word_ariths USER_REGION_BASE_def
          USER_REGION_END_def USER_REGION_SIZE_def)
    then show ?thesis by (simp add: user_pa_def)
  qed
  have ne: "dst + word_of_nat i \<noteq> dst + word_of_nat n" if "i < n" for i
  proof -
    have "unat (word_of_nat i :: u64) \<noteq> unat (word_of_nat n :: u64)"
      using that Suc.prems(2) by (simp add: unat_of_nat USER_REGION_SIZE_def)
    then show ?thesis by auto
  qed
  let ?m1 = "copy_image n base dst m"
  have ih: "(\<forall>i < n. ?m1 (dst + word_of_nat i) = m (base + word_of_nat i)) \<and> (\<forall>x. x \<notin> block dst \<longrightarrow> ?m1 x = m x)"
    using Suc.prems by (intro Suc.IH) simp_all
  have "base + word_of_nat n \<notin> block dst" using inb(1) [of n] Suc.prems(3) by blast
  then have "copy_image (Suc n) base dst m = ?m1(dst + word_of_nat n := m (base + word_of_nat n))"
    using ih Suc.prems(1) [of n] src by (simp add: Let_def)
  then show ?case
    using ih ne inb(2) [of n] by (auto simp: less_Suc_eq)
qed simp

lemma fresh_block:
  assumes inv: "mem_inv T k" and al: "pmm_alloc_2mib_aligned (k_pmm k) = (pa, p1)" and pa: "pa \<noteq> 0"
  shows "block USER_REGION_BASE \<inter> block pa = {}" and "off < USER_REGION_SIZE \<Longrightarrow> user_pa base (pa + off) = pa + off"
proof -
  have us: "pmm_usable (k_pmm k)" and pool: "pool_ok (k_pmm k)" and reg: "region_pages \<inter> page_set (k_pmm k) = {}"
    using inv by (auto simp: mem_inv_def pool_ok_def)
  have "unit_alloc Block (k_pmm k) = Some ((Block, pa), p1)" using al pa by simp
  note u = usable_alloc [OF us this]
  have "unit_pages (Block, USER_REGION_BASE) \<inter> unit_pages (Block, pa) = {}"
    using u reg unfolding region_pages_def by blast
  moreover have "take_bit 12 USER_REGION_BASE = 0"
    by (simp add: USER_REGION_BASE_def take_bit_eq_mask mask_eq_exp_minus_1)
  moreover have "take_bit 12 pa = 0" using block_aligned [OF pool] u by blast
  ultimately show d: "block USER_REGION_BASE \<inter> block pa = {}" by (rule blocks_apart)
  show "user_pa base (pa + off) = pa + off" if "off < USER_REGION_SIZE"
  proof -
    have b: "pa + off \<in> block pa" using that by (auto simp: block_def)
    have "\<not> (USER_REGION_BASE \<le> pa + off \<and> pa + off < USER_REGION_END)"
      using user_pa_in_block [of "pa + off" USER_REGION_BASE] d b by (auto simp: user_pa_def)
    then show ?thesis by (simp only: user_pa_def if_False)
  qed
qed

text \<open>C9: a successful \<open>clone\<close> gives the free slot a runnable child that differs from its parent only in
  what it must: the child's memory holds, byte for byte, the image of the parent; no other byte of
  memory changes; the child has the parent's frame with \<open>x0\<close> cleared, its open files and working
  directory; the parent gets the new process identifier and all other processes are untouched.\<close>

theorem clone_copies_process:
  assumes "task_ok k" and "p_state (cur_proc k) \<noteq> PROC_UNUSED" and "user_base k = p_user_pa (cur_proc k)"
    and "proc_find_free_slot k = Some slot" and "sys_clone rg flags k = (x, k')"
    and "p_state (k_procs k' ! slot) \<noteq> PROC_UNUSED"
  shows "task_ok k' \<and> x = k_next_pid k \<and> (\<exists>root pa. k_procs k' ! slot = proc_clear\<lparr>p_pid := k_next_pid k,
      p_ppid := p_pid (cur_proc k), p_state := PROC_RUNNABLE, p_ttbr0 := root, p_user_pa := pa,
      p_tf := (fst rg)\<lparr>tf_x := (tf_x (fst rg))[0 := 0]\<rparr>, p_elr := snd rg,
      p_fdt := p_fdt (cur_proc k), p_cwd := p_cwd (cur_proc k)\<rparr> \<and>
      (\<forall>i < unat USER_REGION_SIZE. k_mem k' (pa + word_of_nat i) = k_mem k (p_user_pa (cur_proc k) + word_of_nat i)) \<and>
      (\<forall>a. a \<notin> block pa \<longrightarrow> k_mem k' a = k_mem k a)) \<and>
    (\<forall>j < MAX_PROCS. j \<noteq> slot \<longrightarrow> k_procs k' ! j = k_procs k ! j)"
proof -
  have slot: "slot < length (k_procs k)" "p_state (k_procs k ! slot) = PROC_UNUSED" using free_slot [OF assms(4)] by simp_all
  have len: "length (k_procs k) = MAX_PROCS" using assms(1) by (simp add: task_ok_def fds_exact_def)
  obtain pa p1 where al: "pmm_alloc_2mib_aligned (k_pmm k) = (pa, p1)" by fastforce
  obtain root m p2 where cr: "mmu_ttbr0_create_with_user_pa pa (k_mmu k, p1) = (root, m, p2)" by (metis prod_cases3)
  have ok: "flags AND NOT 0xff = 0" "pa \<noteq> 0" "root \<noteq> 0"
    using assms(4-6) slot(2) by (auto simp: sys_clone_def al cr split: if_splits)
  let ?mem = "copy_image (unat USER_REGION_SIZE) (user_base k) pa (k_mem k)"
  have c: "clone_proc rg slot root pa (k\<lparr>k_mmu := m, k_pmm := p2, k_user_of := (k_user_of k)(root := pa),
      k_mem := ?mem\<rparr>) = (x, k')"
    using assms(4,5) ok by (auto simp: sys_clone_def al cr)
  note cp = clone_proc_ok [OF assms(1,2) al ok(2) cr ok(3) slot refl c]
  obtain T where T: "mem_inv T k" using assms(1) by (auto simp: task_ok_def mem_ok_def)
  obtain T' where T': "mem_inv T' k'" using cp(1) by (auto simp: task_ok_def mem_ok_def)
  have cur: "k_cur k < length (k_procs k)" "k_cur k \<noteq> slot"
    using assms(1,2) slot(2) len by (auto simp: task_ok_def cur_proc_def)
  have len': "length (k_procs k') = length (k_procs k)" using cp(1) len by (simp add: task_ok_def fds_exact_def)
  have "block (p_user_pa (k_procs k' ! k_cur k)) \<inter> block (p_user_pa (k_procs k' ! slot)) = {}"
    using mem_inv_apart [OF T', of "k_cur k" slot] mem_inv_apart [OF T', of slot "k_cur k"] cur slot assms(2,6)
      cp(6) [OF cur] len' by (cases "k_cur k < slot") (auto simp: cur_proc_def)
  then have "block (user_base k) \<inter> block pa = {}"
    using cp(5) cp(6) [OF cur] assms(3) by (simp add: cur_proc_def)
  moreover have "user_pa (user_base k) (pa + word_of_nat i) = pa + word_of_nat i" if "i < unat USER_REGION_SIZE" for i
    using that by (intro fresh_block(2) [OF T al ok(2)]) (simp add: word_less_nat_alt USER_REGION_SIZE_def unat_of_nat)
  ultimately have "(\<forall>i < unat USER_REGION_SIZE. ?mem (pa + word_of_nat i) = k_mem k (user_base k + word_of_nat i)) \<and>
      (\<forall>a. a \<notin> block pa \<longrightarrow> ?mem a = k_mem k a)"
    by (intro copy_image_spec) simp_all
  then show ?thesis
    using cp(1,4) cp(6) len by (auto simp: cp(3,5) assms(3))
qed

subsection \<open>The first fork, computed\<close>

text \<open>A pool of 1024 pages: four for the boot table, block 512 for the child, three for its table.\<close>

definition fork_pool :: pmm where
  "fork_pool = \<lparr>pm_bitmap = 0 # replicate (PMM_BITMAP_BYTES - 1) 0, pm_base = 0x1000000, pm_size = 0x400000,
     pm_total = 1024, pm_free = 1024\<rparr>"

lemma clear_bit: "8 \<le> i \<Longrightarrow> i div 8 \<le> n \<Longrightarrow> \<not> bit_test i (w # replicate n 0)"
  by (cases "i div 8") (auto simp: bit_test_def)

lemma fork_pool_ok: "pool_ok fork_pool"
proof -
  have "\<not> bit_test i (pm_bitmap fork_pool)" if "i < 1024" for i
    using that clear_bit [of i "PMM_BITMAP_BYTES - 1" 0]
    by (cases "i < 8") (auto simp: bit_test_def fork_pool_def PMM_BITMAP_BYTES_def PMM_MAX_PAGES_def)
  then have f: "free_pages fork_pool = {..<1024}" by (auto simp: free_pages_def fork_pool_def)
  have "pmm_ok fork_pool"
    unfolding pmm_ok_def f by (simp add: fork_pool_def PMM_BITMAP_BYTES_def PMM_MAX_PAGES_def)
  moreover have "unat (page_addr fork_pool i) = 0x1000000 + i * 0x1000" if "i < 1024" for i
    using that by (simp add: page_addr_def fork_pool_def PMM_PAGE_SIZE_def unat_word_ariths unat_of_nat)
  then have "0 \<notin> page_set fork_pool"
    unfolding page_set_def f by (auto simp: word_unat_eq_iff)
  ultimately show ?thesis
    unfolding pool_ok_def pmm_usable_def by (simp add: fork_pool_def)
qed

definition fork_map :: "mmu \<times> pmm" where
  "fork_map = mmu_init_identity 0 0x3b400000 (mmu_off, fork_pool)"

lemma upt_from_7: "7 \<le> n \<Longrightarrow> [0..<n] = [0, 1, 2, 3, 4, 5, 6] @ [7..<n]"
  using upt_add_eq_append [of 0 7 "n - 7"] upt_7 by simp

lemma upt_1024: "[0..<1024] = [0, 1, 2, 3, 4, 5, 6] @ [7..<1024]"
  by (rule upt_from_7) simp

lemma fork_map_result:
  "mm_enabled (fst fork_map)" "snd fork_map = fork_pool\<lparr>pm_bitmap := 15 # replicate (PMM_BITMAP_BYTES - 1) 0, pm_free := 1020\<rparr>"
  unfolding fork_map_def mmu_init_identity_def
  by (simp_all add: mmu_off_def fork_pool_def alloc_table_page_def pmm_alloc_page_def tiny_bits upt_1024
      page_addr_def PMM_PAGE_SIZE_def Let_def align_up_u64_def align_down_u64_def BLOCK_SIZE_def
      set_entry_def fill_table_def)

lemma fork_block: "find_block 0 (snd fork_map) = Some 512"
proof -
  have "\<not> block_free 0 (snd fork_map)"
    by (simp add: block_free_def fork_map_result list_all_iff bit_test_def Bex_def) (rule exI [of _ 0], simp)
  moreover have "block_free 512 (snd fork_map)"
    using clear_bit by (auto simp: block_free_def fork_map_result list_all_iff PMM_BITMAP_BYTES_def PMM_MAX_PAGES_def)
  ultimately show ?thesis
    by (simp add: find_block.simps [of 0] find_block.simps [of 512] fork_map_result fork_pool_def Let_def)
qed

lemma alloc_progress:
  assumes "pool_ok p" and "pm_free p \<noteq> 0" and "alloc_table_page (m, p) = (t, m', p')"
  shows "t \<noteq> 0 \<and> pool_ok p' \<and> pm_free p' = pm_free p - 1 \<and> mm_template0 m' = mm_template0 m"
proof -
  have ok: "pmm_ok p" "pmm_usable p" "0 \<notin> page_set p"
    using assms(1) by (simp_all add: pool_ok_def pmm_usable_def)
  have "free_pages p \<noteq> {}" using ok(1) assms(2) by (auto simp: pmm_ok_def)
  then obtain i q where q: "pmm_alloc_page p = (page_addr p i, q)" "i \<in> free_pages p"
    using pmm_alloc_page_spec [OF ok(1)] by blast
  have "page_addr p i \<noteq> 0" using q(2) ok(3) by (auto simp: page_set_def)
  moreover have "pm_free q = pm_free p - 1"
    using q(1) calculation by (auto simp: pmm_alloc_page_def split: if_splits option.splits)
  ultimately show ?thesis
    using alloc_table_page_spec [OF assms(1,3)] assms(3) q(1) by (auto simp: alloc_table_page_def)
qed

lemma create_progress:
  assumes pool: "pool_ok p" and free: "3 \<le> pm_free p" and t: "mm_template0 m \<noteq> 0" and al: "pa AND 0x1FFFFF = 0"
    and r: "mmu_ttbr0_create_with_user_pa pa (m, p) = (root, m', p')"
  shows "root \<noteq> 0"
proof -
  obtain l1 m1 p1 where 1: "alloc_table_page (m, p) = (l1, m1, p1)" by (metis prod_cases3)
  obtain a m2 p2 where 2: "alloc_table_page (m1, p1) = (a, m2, p2)" by (metis prod_cases3)
  obtain b m3 p3 where 3: "alloc_table_page (m2, p2) = (b, m3, p3)" by (metis prod_cases3)
  note x1 = alloc_progress [OF pool _ 1]
  have y1: "l1 \<noteq> 0" "pool_ok p1" "pm_free p1 = pm_free p - 1" using x1 free by auto
  have y2: "a \<noteq> 0" "pool_ok p2" "pm_free p2 = pm_free p - 2" using alloc_progress [OF y1(2) _ 2] y1 free by auto
  have "b \<noteq> 0" using alloc_progress [OF y2(2) _ 3] y2 free by auto
  then show ?thesis
    using r t al y1 y2 by (auto simp: mmu_ttbr0_create_with_user_pa_def 1 2 3 Let_def)
qed

definition fork_kernel :: kernel where
  "fork_kernel = proc_init 0x400000 tf_zero
     (kernel_bss\<lparr>k_mmu := fst fork_map, k_pmm := snd fork_map, k_ttbr0 := mm_ttbr0 (fst fork_map)\<rparr>)"

definition forked :: kernel where
  "forked = snd (sys_clone (tf_zero, 0x400000) 17 fork_kernel)"

lemma fork_region: "region_pages \<inter> page_set fork_pool = {}"
proof -
  have "page_addr fork_pool i \<noteq> USER_REGION_BASE + word_of_nat n * PMM_PAGE_SIZE" if "i < 1024" "n < 512" for i n
  proof -
    have "unat (page_addr fork_pool i) = 0x1000000 + i * 0x1000"
      using that by (simp add: page_addr_def fork_pool_def PMM_PAGE_SIZE_def unat_word_ariths unat_of_nat)
    moreover have "unat (USER_REGION_BASE + word_of_nat n * PMM_PAGE_SIZE) = 0x400000 + n * 0x1000"
      using that by (simp add: USER_REGION_BASE_def PMM_PAGE_SIZE_def unat_word_ariths unat_of_nat)
    moreover have "4194304 + n * 4096 < 16777216 + i * (4096 :: nat)" using that by linarith
    ultimately show ?thesis by (metis less_irrefl)
  qed
  moreover have "page_set fork_pool \<subseteq> page_addr fork_pool ` {..<1024}"
    by (auto simp: page_set_def free_pages_def fork_pool_def)
  ultimately show ?thesis by (fastforce simp: region_pages_def)
qed

lemma fork_boot: "fd_boot (k_fd (kernel_bss\<lparr>k_mmu := m, k_pmm := p, k_ttbr0 := t\<rparr>))"
  using fd_boot_bss by simp

lemma fork_kernel_ok:
  "task_ok fork_kernel" "p_state (cur_proc fork_kernel) = PROC_RUNNABLE" "k_cur fork_kernel = 0"
  "user_base fork_kernel = p_user_pa (cur_proc fork_kernel)" "proc_find_free_slot fork_kernel = Some 1"
  "k_pmm fork_kernel = snd fork_map" "k_mmu fork_kernel = fst fork_map"
proof -
  have "mmu_init_identity 0 0x3b400000 (mmu_off, fork_pool) = (fst fork_map, snd fork_map)" by (simp add: fork_map_def)
  from boot_task_ok [OF fork_pool_ok _ this fork_map_result(1) fork_region fork_boot]
  show "task_ok fork_kernel" by (simp add: fork_kernel_def mmu_off_def kernel_bss_def)
  note b = boot_procs [OF fork_boot [where m = "fst fork_map" and p = "snd fork_map" and t = "mm_ttbr0 (fst fork_map)"],
      where elr = "0x400000" and tf = tf_zero, folded fork_kernel_def]
  have len: "length (k_procs fork_kernel) = MAX_PROCS"
    using \<open>task_ok fork_kernel\<close> by (simp add: task_ok_def fds_exact_def)
  show "p_state (cur_proc fork_kernel) = PROC_RUNNABLE" "k_cur fork_kernel = 0" using b by simp_all
  show "k_pmm fork_kernel = snd fork_map" "k_mmu fork_kernel = fst fork_map"
    by (simp_all add: fork_kernel_def proc_init_def init_uart_fds_def Let_def split: prod.split option.split)
  have f0: "k_user_of fork_kernel t = USER_REGION_BASE" "p_user_pa (k_procs fork_kernel ! 0) = USER_REGION_BASE" for t
    by (simp_all add: fork_kernel_def proc_init_def init_uart_fds_def Let_def kernel_bss_def MAX_PROCS_def split: prod.split option.split)
  then show "user_base fork_kernel = p_user_pa (cur_proc fork_kernel)"
    using b by (simp add: user_base_def cur_proc_def)
  have "p_state (k_procs fork_kernel ! 0) = PROC_RUNNABLE" "p_state (k_procs fork_kernel ! 1) = PROC_UNUSED"
    using b by (auto simp: cur_proc_def MAX_PROCS_def)
  moreover obtain p q ps where "k_procs fork_kernel = p # q # ps"
    using len by (cases "k_procs fork_kernel"; cases "tl (k_procs fork_kernel)") (auto simp: MAX_PROCS_def)
  ultimately show "proc_find_free_slot fork_kernel = Some 1"
    by (simp add: proc_find_free_slot_def)
qed

lemma forked_runnable: "p_state (k_procs forked ! 1) = PROC_RUNNABLE" "p_state (k_procs forked ! 0) = PROC_RUNNABLE"
proof -
  obtain p1 where al: "pmm_alloc_2mib_aligned (k_pmm fork_kernel) = (0x1200000, p1)" "pm_free p1 = 508"
    using fork_block by (simp add: fork_kernel_ok(6) pmm_alloc_2mib_aligned_def fork_map_result(2) fork_pool_def
        page_addr_def PMM_PAGE_SIZE_def)
  obtain root m p2 where cr: "mmu_ttbr0_create_with_user_pa 0x1200000 (k_mmu fork_kernel, p1) = (root, m, p2)" by (metis prod_cases3)
  obtain T where T: "mem_inv T fork_kernel" using fork_kernel_ok(1) by (auto simp: task_ok_def mem_ok_def)
  have us: "pmm_usable (k_pmm fork_kernel)" "pool_ok (k_pmm fork_kernel)" "mm_template0 (k_mmu fork_kernel) \<noteq> 0"
    using T by (auto simp: mem_inv_def pool_ok_def templates_ok_def)
  have "pool_ok p1" using pmm_alloc_2mib_spec [of "k_pmm fork_kernel"] usable_alloc [OF us(1), of Block "(Block, 0x1200000)" p1] us al
    alloc_range [of "k_pmm fork_kernel"] by (simp add: pool_ok_def same_range_def)
  then have nz: "root \<noteq> 0" using create_progress [OF _ _ us(3) _ cr] al(2) by simp
  have len: "length (k_procs fork_kernel) = 16" using fork_kernel_ok(1) by (simp add: task_ok_def fds_exact_def MAX_PROCS_def)
  obtain x where c: "clone_proc (tf_zero, 0x400000) 1 root 0x1200000 (fork_kernel\<lparr>k_mmu := m, k_pmm := p2,
      k_user_of := (k_user_of fork_kernel)(root := 0x1200000),
      k_mem := copy_image (unat USER_REGION_SIZE) (user_base fork_kernel) 0x1200000 (k_mem fork_kernel)\<rparr>) = (x, forked)"
    using nz by (simp add: forked_def sys_clone_def fork_kernel_ok(5) al cr del: copy_image.simps) (metis prod.collapse)
  have slot: "1 < length (k_procs fork_kernel)" "p_state (k_procs fork_kernel ! 1) = PROC_UNUSED"
    using free_slot [OF fork_kernel_ok(5)] by simp_all
  note cp = clone_proc_ok [OF fork_kernel_ok(1) _ al(1) _ cr nz slot refl c]
  show "p_state (k_procs forked ! 1) = PROC_RUNNABLE" using cp(5) fork_kernel_ok(2) by simp
  show "p_state (k_procs forked ! 0) = PROC_RUNNABLE"
    using cp(6) [of 0] fork_kernel_ok(2,3) len by (simp add: cur_proc_def)
qed

lemma processes_never_share_memory_witness:
  "fds_exact forked \<and> block (p_user_pa (k_procs forked ! 0)) \<inter> block (p_user_pa (k_procs forked ! 1)) = {}"
proof -
  obtain x where c: "sys_clone (tf_zero, 0x400000) 17 fork_kernel = (x, forked)" by (metis forked_def prod.collapse)
  have r: "task_run fork_kernel forked"
    by (rule task_run.call [OF task_run.start, where rg = "(tf_zero, 0x400000)" and e = "\<lparr>si_usb = None, si_obs = [], si_cnt1 = 0, si_cnt2 = 0\<rparr>"
        and c = "Clone 17"]) (use c fork_kernel_ok(2) in \<open>simp_all add: poll_ok_def\<close>)
  have i: "mmu_init_identity 0 0x3b400000 (mmu_off, fork_pool) = (fst fork_map, snd fork_map)" by (simp add: fork_map_def)
  note all = processes_never_share_memory [OF fork_pool_ok _ i fork_map_result(1) fork_region fork_boot _ _ _ _ r [unfolded fork_kernel_def]]
  then show ?thesis using all forked_runnable by (simp add: mmu_off_def kernel_bss_def MAX_PROCS_def)
qed

lemma clone_copies_process_witness:
  "k_next_pid fork_kernel = fst (sys_clone (tf_zero, 0x400000) 17 fork_kernel) \<and> p_fdt (k_procs forked ! 1) = p_fdt (cur_proc fork_kernel)"
  using clone_copies_process [of fork_kernel 1 "(tf_zero, 0x400000)" 17 "fst (sys_clone (tf_zero, 0x400000) 17 fork_kernel)" forked]
    fork_kernel_ok forked_runnable by (auto simp: forked_def)

end
