(* ===== verification/Exec.thy ===== *)
theory Exec
  imports Task Elf Initramfs
begin

text \<open>
  \<open>sys_execve\<close> of \<open>kernel-aarch64/sys_proc.c\<close>: the argument and environment strings are copied out
  of the running image, the new image is loaded over it, and the initial stack is built from the end
  of the user region downwards. Every step that can fail returns its error together with the memory
  as it was left, because a failing \<open>execve\<close> returns to an image that may already be overwritten.

  The theorems: no memory outside the block of the process changes, whatever the outcome, and
  what the new image finds on its stack are the strings that were passed.
\<close>

definition MAX_ARGS :: nat where "MAX_ARGS = 32"
definition MAX_STR :: nat where "MAX_STR = 256"

definition AT_NULL :: u64 where "AT_NULL = 0"
definition AT_PHDR :: u64 where "AT_PHDR = 3"
definition AT_PHENT :: u64 where "AT_PHENT = 4"
definition AT_PHNUM :: u64 where "AT_PHNUM = 5"
definition AT_PAGESZ :: u64 where "AT_PAGESZ = 6"
definition AT_ENTRY :: u64 where "AT_ENTRY = 9"
definition AT_UID :: u64 where "AT_UID = 11"
definition AT_EUID :: u64 where "AT_EUID = 12"
definition AT_GID :: u64 where "AT_GID = 13"
definition AT_EGID :: u64 where "AT_EGID = 14"
definition AT_PLATFORM :: u64 where "AT_PLATFORM = 15"
definition AT_SECURE :: u64 where "AT_SECURE = 23"
definition AT_RANDOM :: u64 where "AT_RANDOM = 25"
definition AT_EXECFN :: u64 where "AT_EXECFN = 31"
definition PT_PHDR :: u64 where "PT_PHDR = 6"

subsection \<open>The strings\<close>

text \<open>The two snapshot loops; \<open>n\<close> entries of the table are left.\<close>

fun snapshot_loop :: "nat \<Rightarrow> u64 \<Rightarrow> memory \<Rightarrow> u64 \<Rightarrow> errno + string list" where
  "snapshot_loop 0 base m p = Inl E2BIG"
| "snapshot_loop (Suc n) base m p =
     (case read_u64_from_user base m p of
        None \<Rightarrow> Inl EFAULT
      | Some q \<Rightarrow>
          if q = 0 then Inr []
          else case copy_cstr_from_user MAX_STR base m q of
              None \<Rightarrow> Inl EFAULT
            | Some s \<Rightarrow> (case snapshot_loop n base m (p + 8) of Inl e \<Rightarrow> Inl e | Inr ss \<Rightarrow> Inr (s # ss)))"

definition snapshot_strs :: "u64 \<Rightarrow> memory \<Rightarrow> u64 \<Rightarrow> errno + string list" where
  "snapshot_strs base m tab = (if tab = 0 then Inr [] else snapshot_loop MAX_ARGS base m tab)"

definition base_name :: "string \<Rightarrow> string" where
  "base_name path =
     (let p = rev (takeWhile (\<lambda>c. c \<noteq> slash) (rev path))
      in take (MAX_STR - 1) (if p = [] then path else p))"

subsection \<open>The program headers in memory\<close>

text \<open>The two search loops: the value of the first header that has one, 0 if none has.\<close>

fun find_phdr :: "u8 list \<Rightarrow> u64 \<Rightarrow> (phdr \<Rightarrow> u64 option) \<Rightarrow> nat list \<Rightarrow> u64" where
  "find_phdr img phoff f [] = 0"
| "find_phdr img phoff f (i # is) =
     (let off = phdr_off phoff i
      in if word_of_nat (length img) < off + word_of_nat elf64_phdr_size then 0
         else case f (read_phdr img (unat off)) of
             Some v \<Rightarrow> v
           | None \<Rightarrow> find_phdr img phoff f is)"

definition phdr_by_type :: "phdr \<Rightarrow> u64 option" where
  "phdr_by_type ph = (if p_type ph = PT_PHDR then Some (p_vaddr ph) else None)"

definition phdr_in_load :: "ehdr \<Rightarrow> phdr \<Rightarrow> u64 option" where
  "phdr_in_load eh ph =
     (if p_type ph = PT_LOAD \<and> p_offset ph = 0 \<and>
         e_phoff eh + e_phnum eh * word_of_nat elf64_phdr_size \<le> p_filesz ph
      then Some (p_vaddr ph + e_phoff eh) else None)"

record phdr_aux =
  at_phdr :: u64
  at_phent :: u64
  at_phnum :: u64

definition aux_phdr :: "u8 list \<Rightarrow> phdr_aux" where
  "aux_phdr img =
     (if length img < elf64_ehdr_size then \<lparr>at_phdr = 0, at_phent = 0, at_phnum = 0\<rparr>
      else let eh = read_ehdr img; img_size = word_of_nat (length img);
               ph_end = e_phoff eh + e_phnum eh * e_phentsize eh;
               all = [0..<unat (e_phnum eh)];
               a = (if e_phoff eh \<le> ph_end \<and> ph_end \<le> img_size \<and> e_phentsize eh = word_of_nat elf64_phdr_size
                    then let b = find_phdr img (e_phoff eh) phdr_by_type all;
                             c = (if b = 0 then find_phdr img (e_phoff eh) (phdr_in_load eh) all else b)
                         in if c \<noteq> 0 \<and> \<not> user_range_ok c (e_phnum eh * e_phentsize eh) then 0 else c
                    else 0)
           in \<lparr>at_phdr = a, at_phent = e_phentsize eh, at_phnum = e_phnum eh\<rparr>)"

subsection \<open>The stack\<close>

type_synonym stack = "u64 \<times> memory"
type_synonym 'a pushed = "(errno \<times> memory) + 'a"

definition push_bytes :: "u64 \<Rightarrow> u8 list \<Rightarrow> stack \<Rightarrow> stack pushed" where
  "push_bytes base bs st =
     (let sp = fst st - word_of_nat (length bs)
      in if \<not> user_range_ok sp (word_of_nat (length bs)) then Inl (E2BIG, snd st)
         else case write_bytes_to_user base sp bs (snd st) of
             None \<Rightarrow> Inl (EFAULT, snd st)
           | Some m \<Rightarrow> Inr (sp, m))"

definition c_bytes :: "string \<Rightarrow> u8 list" where
  "c_bytes s = map char_byte s @ [0]"

fun push_strs :: "u64 \<Rightarrow> string list \<Rightarrow> stack \<Rightarrow> (u64 list \<times> stack) pushed" where
  "push_strs base [] st = Inr ([], st)"
| "push_strs base (s # ss) st =
     (case push_bytes base (c_bytes s) st of
        Inl e \<Rightarrow> Inl e
      | Inr st' \<Rightarrow>
          (case push_strs base ss st' of
             Inl e \<Rightarrow> Inl e
           | Inr (addrs, st'') \<Rightarrow> Inr (fst st' # addrs, st'')))"

definition put_u64 :: "u64 \<Rightarrow> u64 \<Rightarrow> u64 \<Rightarrow> stack \<Rightarrow> stack pushed" where
  "put_u64 base va v st =
     (case write_u64_to_user base va v (snd st) of
        None \<Rightarrow> Inl (EFAULT, snd st)
      | Some m \<Rightarrow> Inr (fst st, m))"

definition push_u64 :: "u64 \<Rightarrow> u64 \<Rightarrow> stack \<Rightarrow> stack pushed" where
  "push_u64 base v st = put_u64 base (fst st - 8) v (fst st - 8, snd st)"

definition push_aux :: "u64 \<Rightarrow> u64 \<times> u64 \<Rightarrow> stack \<Rightarrow> stack pushed" where
  "push_aux base tv st =
     (let sp = fst st - 16
      in case put_u64 base sp (fst tv) (sp, snd st) of
           Inl e \<Rightarrow> Inl e
         | Inr st' \<Rightarrow> put_u64 base (sp + 8) (snd tv) st')"

fun push_all :: "('a \<Rightarrow> stack \<Rightarrow> stack pushed) \<Rightarrow> 'a list \<Rightarrow> stack \<Rightarrow> stack pushed" where
  "push_all push [] st = Inr st"
| "push_all push (x # xs) st = (case push x st of Inl e \<Rightarrow> Inl e | Inr st' \<Rightarrow> push_all push xs st')"

definition platform_bytes :: "u8 list" where
  "platform_bytes = c_bytes ''aarch64''"

definition at_random_bytes :: "u8 list" where
  "at_random_bytes = map (\<lambda>i. 0xA5 XOR word_of_nat i) [0..<16]"

text \<open>The auxiliary vector in the order it is pushed.\<close>

definition aux_vector :: "u64 \<Rightarrow> phdr_aux \<Rightarrow> u64 \<Rightarrow> u64 \<Rightarrow> u64 \<Rightarrow> (u64 \<times> u64) list" where
  "aux_vector entry a random_addr platform_addr execfn_addr =
     [(AT_NULL, 0), (AT_SECURE, 0), (AT_RANDOM, random_addr), (AT_PLATFORM, platform_addr),
      (AT_EXECFN, execfn_addr), (AT_PAGESZ, 4096), (AT_ENTRY, entry)] @
     (if at_phent a \<noteq> 0 \<and> at_phnum a \<noteq> 0 then [(AT_PHENT, at_phent a), (AT_PHNUM, at_phnum a)] else []) @
     (if at_phdr a \<noteq> 0 then [(AT_PHDR, at_phdr a)] else []) @
     [(AT_UID, 0), (AT_EUID, 0), (AT_GID, 0), (AT_EGID, 0)]"

record new_stack =
  ns_sp :: u64
  ns_argv :: u64
  ns_envp :: u64
  ns_mem :: memory

text \<open>The words below the strings: the auxiliary vector, then both pointer tables and the count.\<close>

definition push_tables ::
  "u64 \<Rightarrow> u64 list \<Rightarrow> u64 list \<Rightarrow> (u64 \<times> u64) list \<Rightarrow> stack \<Rightarrow> new_stack pushed"
where
  "push_tables base argv envp aux st =
     (case push_all (push_aux base) aux (align_down_u64 (fst st) 16, snd st) of
        Inl e \<Rightarrow> Inl e
      | Inr st1 \<Rightarrow>
          (case push_all (push_u64 base) (0 # rev envp) st1 of
             Inl e \<Rightarrow> Inl e
           | Inr st2 \<Rightarrow>
               (case push_all (push_u64 base) (0 # rev argv) st2 of
                  Inl e \<Rightarrow> Inl e
                | Inr st3 \<Rightarrow>
                    (case push_u64 base (word_of_nat (length argv)) st3 of
                       Inl e \<Rightarrow> Inl e
                     | Inr st4 \<Rightarrow>
                         Inr \<lparr>ns_sp = fst st4, ns_argv = fst st3, ns_envp = fst st2, ns_mem = snd st4\<rparr>))))"

definition build_stack ::
  "u64 \<Rightarrow> string list \<Rightarrow> string list \<Rightarrow> string \<Rightarrow> u64 \<Rightarrow> phdr_aux \<Rightarrow> memory \<Rightarrow> new_stack pushed"
where
  "build_stack base args envs path entry a m =
     (case push_strs base args (USER_REGION_BASE + USER_REGION_SIZE, m) of
        Inl e \<Rightarrow> Inl e
      | Inr (argv, st1) \<Rightarrow>
          (case push_strs base envs st1 of
             Inl e \<Rightarrow> Inl e
           | Inr (envp, st2) \<Rightarrow>
               (case push_bytes base (c_bytes path) st2 of
                  Inl e \<Rightarrow> Inl e
                | Inr st3 \<Rightarrow>
                    (case push_bytes base platform_bytes st3 of
                       Inl e \<Rightarrow> Inl e
                     | Inr st4 \<Rightarrow>
                         (case push_bytes base at_random_bytes st4 of
                            Inl e \<Rightarrow> Inl e
                          | Inr st5 \<Rightarrow>
                              push_tables base argv envp (aux_vector entry a (fst st5) (fst st4) (fst st3)) st5)))))"

subsection \<open>The system call\<close>

text \<open>Everything before the image is touched: the strings, the path and the file.\<close>

definition exec_prepare ::
  "u64 \<Rightarrow> u64 \<Rightarrow> u64 \<Rightarrow> kernel \<Rightarrow> errno + (string list \<times> string list \<times> string \<times> u8 list)"
where
  "exec_prepare pathname argv_user envp_user k =
     (let base = user_base k; m = k_mem k in
      case snapshot_strs base m argv_user of
        Inl e \<Rightarrow> Inl e
      | Inr args \<Rightarrow>
          (case snapshot_strs base m envp_user of
             Inl e \<Rightarrow> Inl e
           | Inr envs \<Rightarrow>
               (case copy_cstr_from_user MAX_PATH base m pathname of
                  None \<Rightarrow> Inl EFAULT
                | Some inp \<Rightarrow>
                    (case resolve_path (p_cwd (cur_proc k)) inp MAX_PATH of
                       None \<Rightarrow> Inl EINVAL
                     | Some path \<Rightarrow>
                         (case initramfs_lookup (k_archive k) path of
                            None \<Rightarrow> Inl ENOENT
                          | Some (img, _, mode) \<Rightarrow>
                              if S_ISDIR mode then Inl EISDIR
                              else Inr (if argv_user = 0 then [base_name path] else args, envs, path, img))))))"

definition exec_block :: "kernel \<Rightarrow> u64" where
  "exec_block k = (if p_user_pa (cur_proc k) = 0 then USER_REGION_BASE else p_user_pa (cur_proc k))"

definition exec_image ::
  "string list \<Rightarrow> string list \<Rightarrow> string \<Rightarrow> u8 list \<Rightarrow> kernel \<Rightarrow> (elf_result \<times> new_stack) pushed"
where
  "exec_image args envs path img k =
     (case elf64_load_etexec img USER_REGION_BASE USER_REGION_SIZE (exec_block k) (k_mem k) of
        (None, m) \<Rightarrow> Inl (ENOEXEC, m)
      | (Some el, m) \<Rightarrow>
          (case build_stack (user_base k) args envs path (el_entry el) (aux_phdr img) m of
             Inl e \<Rightarrow> Inl e
           | Inr ns \<Rightarrow> Inr (el, ns)))"

definition sys_execve :: "regs \<Rightarrow> u64 \<Rightarrow> u64 \<Rightarrow> u64 \<Rightarrow> kernel \<Rightarrow> u64 \<times> regs \<times> kernel" where
  "sys_execve r pathname argv_user envp_user k =
     (case exec_prepare pathname argv_user envp_user k of
        Inl e \<Rightarrow> (sys_err e, r, k)
      | Inr (args, envs, path, img) \<Rightarrow>
          (case exec_image args envs path img k of
             Inl (e, m) \<Rightarrow> (sys_err e, r, k\<lparr>k_mem := m\<rparr>)
           | Inr (el, ns) \<Rightarrow>
               (0, ((fst r)\<lparr>tf_sp_el0 := ns_sp ns,
                      tf_x := (tf_x (fst r))[0 := word_of_nat (length args), 1 := ns_argv ns, 2 := ns_envp ns]\<rparr>,
                    el_entry el),
                set_cur (\<lambda>p. p\<lparr>p_elr := el_entry el\<rparr>) (k\<lparr>k_mem := ns_mem ns\<rparr>))))"

subsection \<open>The stack as one run of bytes\<close>

text \<open>
  \<open>laid base bs st st'\<close>: between the two stack pointers lie the bytes \<open>bs\<close>, and nothing else changed.
  Pushing one run after another concatenates them, so the finished stack is a single list of bytes.
\<close>

definition stack_ok :: "stack \<Rightarrow> bool" where
  "stack_ok st \<longleftrightarrow> 0x400000 \<le> unat (fst st) \<and> unat (fst st) \<le> 0x600000"

definition laid :: "u64 \<Rightarrow> u8 list \<Rightarrow> stack \<Rightarrow> stack \<Rightarrow> bool" where
  "laid base bs st st' \<longleftrightarrow> stack_ok st \<and> stack_ok st' \<and> unat (fst st') + length bs = unat (fst st) \<and>
     load_bytes base (snd st') (fst st') (length bs) = bs \<and>
     (\<forall>a. (\<forall>va. fst st' \<le> va \<longrightarrow> va < fst st \<longrightarrow> user_pa base va \<noteq> a) \<longrightarrow> snd st' a = snd st a)"

lemma region_inj:
  assumes "user_pa base va = user_pa base vb"
    and "0x400000 \<le> unat va" "unat va < 0x600000" "0x400000 \<le> unat vb" "unat vb < 0x600000"
  shows "va = vb"
  using assms by (simp add: user_pa_def word_le_nat_alt word_less_nat_alt user_region_nat)

lemma unat_offset: "unat (va :: u64) + i < 2 ^ 64 \<Longrightarrow> unat (va + word_of_nat i) = unat va + i"
  by (simp add: unat_word_ariths unat_of_nat mod_if)

lemma load_bytes_cong:
  "(\<And>i. i < n \<Longrightarrow> m' (user_pa base (va + word_of_nat i)) = m (user_pa base (va + word_of_nat i))) \<Longrightarrow>
   load_bytes base m' va n = load_bytes base m va n"
  by (simp add: load_bytes_def)

lemma load_bytes_add:
  "load_bytes base m va (i + j) = load_bytes base m va i @ load_bytes base m (va + word_of_nat i) j"
proof -
  have "[0..<i + j] = [0..<i] @ map (\<lambda>k. i + k) [0..<j]"
    using map_add_upt [of i j] upt_add_eq_append [of 0 i j] by (simp add: add.commute)
  then show ?thesis by (simp add: load_bytes_def algebra_simps)
qed

lemma length_load_bytes [simp]: "length (load_bytes base m va n) = n"
  by (simp add: load_bytes_def)

text \<open>What lies above the pointer before a push is still there after it.\<close>

lemma laid_above:
  assumes "laid base bs st st'" and "unat (fst st) \<le> unat va" and "unat va + n \<le> 0x600000"
  shows "load_bytes base (snd st') va n = load_bytes base (snd st) va n"
proof (rule load_bytes_cong)
  fix i
  assume i: "i < n"
  have u: "unat (va + word_of_nat i) = unat va + i" using assms(3) i by (intro unat_offset) simp
  have ok: "0x400000 \<le> unat (fst st')" "unat (fst st) \<le> 0x600000" "0x400000 \<le> unat (fst st)"
    using assms(1) by (auto simp: laid_def stack_ok_def)
  have "user_pa base vb \<noteq> user_pa base (va + word_of_nat i)" if "fst st' \<le> vb" "vb < fst st" for vb
    using region_inj [of base vb "va + word_of_nat i"] that ok u i assms(2,3)
    by (auto simp: word_le_nat_alt word_less_nat_alt)
  then show "snd st' (user_pa base (va + word_of_nat i)) = snd st (user_pa base (va + word_of_nat i))"
    using assms(1) by (auto simp: laid_def)
qed

lemma laid_refl: "stack_ok st \<Longrightarrow> laid base [] st st"
  by (simp add: laid_def load_bytes_def)

lemma laid_trans:
  assumes a: "laid base bs st st'" and b: "laid base cs st' st''"
  shows "laid base (cs @ bs) st st''"
proof -
  have u: "unat (fst st') + length bs = unat (fst st)" "unat (fst st'') + length cs = unat (fst st')"
    "unat (fst st) \<le> 0x600000" "stack_ok st" "stack_ok st''"
    using a b by (auto simp: laid_def stack_ok_def)
  have "unat (fst st'' + word_of_nat (length cs)) = unat (fst st')"
    using u by (subst unat_offset) auto
  then have sp: "fst st'' + word_of_nat (length cs) = fst st'" by (rule word_unat_eq_iff [THEN iffD2])
  have "load_bytes base (snd st'') (fst st') (length bs) = load_bytes base (snd st') (fst st') (length bs)"
    by (rule laid_above [OF b]) (use u in simp_all)
  then have "load_bytes base (snd st'') (fst st'') (length cs + length bs) = cs @ bs"
    using a b unfolding load_bytes_add sp by (simp add: laid_def)
  moreover have "snd st'' c = snd st c" if "\<forall>va. fst st'' \<le> va \<longrightarrow> va < fst st \<longrightarrow> user_pa base va \<noteq> c" for c
  proof -
    have "fst st'' \<le> fst st'" "fst st' \<le> fst st" using u by (simp_all add: word_le_nat_alt)
    then have "snd st'' c = snd st' c" "snd st' c = snd st c"
      using a b that unfolding laid_def by (meson order_trans less_le_trans le_less_trans)+
    then show ?thesis by simp
  qed
  ultimately show ?thesis using u by (auto simp: laid_def)
qed

lemma store_laid:
  assumes st: "stack_ok st" and ok: "user_range_ok sp (word_of_nat (length bs))" and l: "length bs < 2 ^ 32"
    and sp: "sp = fst st - word_of_nat (length bs)"
  shows "laid base bs st (sp, store_bytes base sp bs (snd st))"
proof (cases "bs = []")
  case True
  then show ?thesis using st sp by (simp add: laid_refl)
next
  case False
  have n: "unat (word_of_nat (length bs) :: u64) = length bs" "(word_of_nat (length bs) :: u64) \<noteq> 0"
    using l False by (simp_all add: unat_of_nat word_of_nat_eq_0_iff) (auto dest: dvd_imp_le)
  then have r: "0x400000 \<le> unat sp" "unat sp + length bs \<le> 0x600000" using ok by (simp_all add: user_range_ok_iff)
  have "fst st = sp + word_of_nat (length bs)" using sp by simp
  then have u: "unat (fst st) = unat sp + length bs" using r by (simp add: unat_offset)
  have "store_bytes base sp bs (snd st) a = snd st a" if "\<forall>va. sp \<le> va \<longrightarrow> va < fst st \<longrightarrow> user_pa base va \<noteq> a" for a
  proof (rule store_bytes_frame)
    fix i assume i: "i < length bs"
    have "unat (sp + word_of_nat i) = unat sp + i" using r i by (intro unat_offset) simp
    then show "user_pa base (sp + word_of_nat i) \<noteq> a"
      using that u i by (simp add: word_le_nat_alt word_less_nat_alt)
  qed
  moreover have "load_bytes base (store_bytes base sp bs (snd st)) sp (length bs) = bs"
    using ok l by (intro load_store_bytes) simp_all
  ultimately show ?thesis using st r u by (auto simp: laid_def stack_ok_def)
qed

lemma push_bytes_laid:
  "stack_ok st \<Longrightarrow> length bs < 2 ^ 32 \<Longrightarrow> push_bytes base bs st = Inr st' \<Longrightarrow> laid base bs st st'"
  by (auto simp: push_bytes_def write_bytes_to_user_def Let_def intro!: store_laid split: if_splits)

lemma length_u64 [simp]: "length (bytes_of_u64 v) = 8"
  by (simp add: bytes_of_u64_def)

lemma put_u64_Inr: "put_u64 base va v st = Inr st' \<longleftrightarrow>
    user_range_ok va 8 \<and> st' = (fst st, store_bytes base va (bytes_of_u64 v) (snd st))"
  unfolding put_u64_def write_u64_to_user_def by auto

lemma push_u64_laid:
  assumes "stack_ok st" and "push_u64 base v st = Inr st'"
  shows "laid base (bytes_of_u64 v) st st'"
proof -
  have r: "user_range_ok (fst st - 8) 8" "st' = (fst st - 8, store_bytes base (fst st - 8) (bytes_of_u64 v) (snd st))"
    using assms(2) unfolding push_u64_def put_u64_Inr fst_conv snd_conv by blast+
  show ?thesis
    unfolding r(2) by (rule store_laid [OF assms(1)]) (simp_all add: r(1))
qed

lemma store_bytes_append:
  "store_bytes base va (bs @ cs) m = store_bytes base (va + word_of_nat (length bs)) cs (store_bytes base va bs m)"
  by (induction bs arbitrary: va m) (simp_all add: algebra_simps)

definition aux_bytes :: "u64 \<times> u64 \<Rightarrow> u8 list" where
  "aux_bytes tv = bytes_of_u64 (fst tv) @ bytes_of_u64 (snd tv)"

lemma push_aux_laid:
  assumes st: "stack_ok st" and r: "push_aux base tv st = Inr st'"
  shows "laid base (aux_bytes tv) st st'"
proof -
  let ?sp = "fst st - 16" and ?m = "store_bytes base (fst st - 16) (bytes_of_u64 (fst tv)) (snd st)"
  have ok: "user_range_ok ?sp 8" and "put_u64 base (?sp + 8) (snd tv) (?sp, ?m) = Inr st'"
    using r unfolding push_aux_def Let_def by (auto simp: put_u64_Inr simp del: store_bytes.simps split: sum.splits)
  then have ok2: "user_range_ok (?sp + 8) 8" and st': "st' = (?sp, store_bytes base (?sp + 8) (bytes_of_u64 (snd tv)) ?m)"
    unfolding put_u64_Inr fst_conv snd_conv by blast+
  have a: "0x400000 \<le> unat ?sp" "unat ?sp + 8 \<le> 0x600000" "unat (?sp + 8) + 8 \<le> 0x600000"
    using ok ok2 unfolding user_range_ok_iff by auto
  have "unat (?sp + word_of_nat 8) = unat ?sp + 8" by (rule unat_offset) (use a(2) in simp)
  then have "unat ?sp + 16 \<le> 0x600000" using a(3) by simp
  then have "user_range_ok ?sp (word_of_nat (length (aux_bytes tv)))"
    using a(1) unfolding user_range_ok_iff by (simp add: aux_bytes_def)
  moreover have "st' = (?sp, store_bytes base ?sp (aux_bytes tv) (snd st))"
    unfolding st' aux_bytes_def store_bytes_append length_u64 by (simp only: of_nat_numeral)
  moreover have "?sp = fst st - word_of_nat (length (aux_bytes tv))" by (simp add: aux_bytes_def)
  moreover have "length (aux_bytes tv) < 2 ^ 32" by (simp add: aux_bytes_def)
  ultimately show ?thesis
    using store_laid [OF st, where bs = "aux_bytes tv" and sp = ?sp and base = base] by blast
qed

lemma laid_ok: "laid base bs st st' \<Longrightarrow> stack_ok st'"
  by (simp add: laid_def)

lemma push_all_laid:
  assumes "\<And>x st st'. stack_ok st \<Longrightarrow> push x st = Inr st' \<Longrightarrow> laid base (enc x) st st'"
    and "stack_ok st" and "push_all push xs st = Inr st'"
  shows "laid base (concat (map enc (rev xs))) st st'"
  using assms(2,3)
proof (induction xs arbitrary: st)
  case (Cons x xs)
  then obtain st1 where 1: "push x st = Inr st1" "push_all push xs st1 = Inr st'"
    by (auto split: sum.splits)
  note l = assms(1) [OF Cons.prems(1) 1(1)]
  show ?case using laid_trans [OF l Cons.IH [OF laid_ok [OF l] 1(2)]] by simp
qed (simp add: laid_refl)

fun str_addrs :: "u64 \<Rightarrow> string list \<Rightarrow> u64 list" where
  "str_addrs hi [] = []"
| "str_addrs hi (s # ss) = (let a = hi - word_of_nat (Suc (length s)) in a # str_addrs a ss)"

lemma length_c_bytes [simp]: "length (c_bytes s) = Suc (length s)"
  by (simp add: c_bytes_def)

lemma push_strs_laid:
  assumes "stack_ok st" and "\<And>s. s \<in> set ss \<Longrightarrow> length s < 256" and "push_strs base ss st = Inr (addrs, st')"
  shows "laid base (concat (map c_bytes (rev ss))) st st' \<and> addrs = str_addrs (fst st) ss"
  using assms
proof (induction ss arbitrary: st addrs)
  case (Cons s ss)
  then obtain st1 as where 1: "push_bytes base (c_bytes s) st = Inr st1" "push_strs base ss st1 = Inr (as, st')"
      "addrs = fst st1 # as"
    by (auto split: sum.splits)
  have l: "laid base (c_bytes s) st st1" using push_bytes_laid [OF Cons.prems(1) _ 1(1)] Cons.prems(2) [of s] by simp
  have "fst st1 = fst st - word_of_nat (Suc (length s))"
    using 1(1) by (auto simp: push_bytes_def Let_def split: if_splits option.splits)
  then show ?case
    using Cons.IH [OF laid_ok [OF l] _ 1(2)] Cons.prems(2) laid_trans [OF l] 1(3) by (auto simp: Let_def)
qed (simp add: laid_refl)

subsection \<open>Reading the stack back\<close>

lemma load_bytes_Suc: "load_bytes base m va (Suc n) = m (user_pa base va) # load_bytes base m (va + 1) n"
  using load_bytes_add [of base m va 1 n] by (simp add: load_bytes_def)

lemma laid_slice:
  assumes "laid base bs st st'" and "k + n \<le> length bs"
  shows "load_bytes base (snd st') (fst st' + word_of_nat k) n = take n (drop k bs)"
proof -
  have "bs = load_bytes base (snd st') (fst st') (k + (n + (length bs - k - n)))" using assms by (simp add: laid_def)
  also have "\<dots> = load_bytes base (snd st') (fst st') k @ load_bytes base (snd st') (fst st' + word_of_nat k) n @
      load_bytes base (snd st') (fst st' + word_of_nat k + word_of_nat n) (length bs - k - n)"
    unfolding load_bytes_add [of base "snd st'" _ k] load_bytes_add [of base "snd st'" _ n] ..
  finally have e: "bs = \<dots>" .
  show ?thesis by (subst e) simp
qed

lemma words_nth: "j < length ws \<Longrightarrow> take 8 (drop (8 * j) (concat (map bytes_of_u64 ws) @ rest)) = bytes_of_u64 (ws ! j)"
proof (induction ws arbitrary: j)
  case (Cons w ws)
  then show ?case by (cases j) simp_all
qed simp

lemma length_words: "length (concat (map bytes_of_u64 ws)) = 8 * length ws"
  by (induction ws) simp_all

lemma laid_words:
  assumes l: "laid base (concat (map bytes_of_u64 ws) @ rest) st st'" and j: "j < length ws"
  shows "read_u64_from_user base (snd st') (fst st' + 8 * word_of_nat j) = Some (ws ! j)"
proof -
  have len: "8 * j + 8 \<le> length (concat (map bytes_of_u64 ws) @ rest)" using j by (simp add: length_words)
  have e: "fst st' + 8 * word_of_nat j = fst st' + word_of_nat (8 * j)" by simp
  have r: "0x400000 \<le> unat (fst st')" "unat (fst st') + (8 * j + 8) \<le> 0x600000"
    using l len by (auto simp: laid_def stack_ok_def)
  then have "user_range_ok (fst st' + word_of_nat (8 * j)) 8"
    by (simp add: user_range_ok_iff unat_offset del: of_nat_mult)
  moreover have "load_bytes base (snd st') (fst st' + word_of_nat (8 * j)) 8 = bytes_of_u64 (ws ! j)"
    using laid_slice [OF l len] words_nth [OF j] by simp
  ultimately show ?thesis unfolding e read_u64_from_user_def by (simp del: of_nat_mult)
qed

lemma copy_cstr_facts: "copy_cstr_loop n base m p = Some s \<Longrightarrow> length s < n \<and> CHR 0x00 \<notin> set s"
proof (induction n arbitrary: p s)
  case (Suc n)
  then show ?case by (auto simp: Let_def split: if_splits)
qed simp

lemma copy_cstr_load:
  assumes "load_bytes base m a (Suc (length s)) = c_bytes s" and "CHR 0x00 \<notin> set s" and "length s < n"
    and "0x400000 \<le> unat a" and "unat a + Suc (length s) \<le> 0x600000"
  shows "copy_cstr_loop n base m a = Some s"
  using assms
proof (induction s arbitrary: n a)
  case Nil
  have "byte_char 0 = CHR 0x00" by (metis byte_char_byte char_byte_0)
  then show ?case
    using Nil by (cases n) (auto simp: load_bytes_Suc c_bytes_def user_range_ok_iff)
next
  case (Cons c s)
  obtain n' where n: "n = Suc n'" using Cons.prems(3) by (cases n) simp_all
  have m: "m (user_pa base a) = char_byte c" "load_bytes base m (a + 1) (Suc (length s)) = c_bytes s"
    using Cons.prems(1) by (simp_all add: load_bytes_Suc [of _ _ _ "Suc (length s)"] c_bytes_def)
  have u: "unat (a + 1) = unat a + 1" using unat_offset [of a 1] Cons.prems(5) by simp
  have "copy_cstr_loop n' base m (a + 1) = Some s"
    by (rule Cons.IH [OF m(2)]) (use Cons.prems n u in simp_all)
  then show ?case
    using Cons.prems m(1) by (auto simp: n user_range_ok_iff)
qed

text \<open>Strings in memory at given addresses, all above \<open>lo\<close>.\<close>

definition strs_at :: "u64 \<Rightarrow> memory \<Rightarrow> nat \<Rightarrow> u64 list \<Rightarrow> string list \<Rightarrow> bool" where
  "strs_at base m lo addrs ss \<longleftrightarrow> list_all2 (\<lambda>a s. lo \<le> unat a \<and> unat a + Suc (length s) \<le> 0x600000 \<and>
     load_bytes base m a (Suc (length s)) = c_bytes s) addrs ss"

lemma strs_at_laid:
  assumes "strs_at base (snd st) (unat (fst st)) addrs ss" and "laid base bs st st'"
  shows "strs_at base (snd st') (unat (fst st')) addrs ss"
proof -
  have "unat (fst st') \<le> unat (fst st)" using assms(2) by (simp add: laid_def)
  then show ?thesis
    using assms(1) laid_above [OF assms(2)] unfolding strs_at_def by (elim list_all2_mono) simp
qed

lemma laid_load: "laid base bs st st' \<Longrightarrow> load_bytes base (snd st') (fst st') (length bs) = bs"
  by (simp add: laid_def)

lemma push_strs_at:
  assumes "stack_ok st" and "\<And>s. s \<in> set ss \<Longrightarrow> length s < 256" and "push_strs base ss st = Inr (addrs, st')"
  shows "strs_at base (snd st') (unat (fst st')) addrs ss"
  using assms
proof (induction ss arbitrary: st addrs)
  case (Cons s ss)
  then obtain st1 as where 1: "push_bytes base (c_bytes s) st = Inr st1" "push_strs base ss st1 = Inr (as, st')"
      "addrs = fst st1 # as"
    by (auto split: sum.splits)
  have l: "laid base (c_bytes s) st st1" using push_bytes_laid [OF Cons.prems(1) _ 1(1)] Cons.prems(2) [of s] by simp
  have "unat (fst st1) + Suc (length s) \<le> 0x600000" using l by (simp add: laid_def stack_ok_def)
  then have one: "strs_at base (snd st1) (unat (fst st1)) [fst st1] [s]"
    using laid_load [OF l] by (simp add: strs_at_def)
  have "laid base (concat (map c_bytes (rev ss))) st1 st'"
    using push_strs_laid [OF laid_ok [OF l] _ 1(2)] Cons.prems(2) by simp
  note strs_at_laid [OF one this]
  moreover have "strs_at base (snd st') (unat (fst st')) as ss"
    by (rule Cons.IH [OF laid_ok [OF l] _ 1(2)]) (use Cons.prems(2) in simp)
  ultimately show ?case unfolding 1(3) by (simp add: strs_at_def)
qed (simp add: strs_at_def)

lemma snapshot_facts:
  assumes "snapshot_loop n base m p = Inr ss"
  shows "length ss < n \<and> (\<forall>s \<in> set ss. length s < 256 \<and> CHR 0x00 \<notin> set s)"
  using assms
proof (induction n arbitrary: p ss)
  case (Suc n)
  then show ?case
    using copy_cstr_facts
    by (fastforce simp: copy_cstr_from_user_def MAX_STR_def split: option.splits if_splits sum.splits)
qed simp

lemma snapshot_reads:
  assumes "strs_at base m lo addrs ss" and "0x400000 \<le> lo" and "\<And>s. s \<in> set ss \<Longrightarrow> length s < 256 \<and> CHR 0x00 \<notin> set s"
    and "\<And>j. j \<le> length addrs \<Longrightarrow> read_u64_from_user base m (tab + 8 * word_of_nat j) = Some ((addrs @ [0]) ! j)"
    and "length ss < n"
  shows "snapshot_loop n base m tab = Inr ss"
  using assms
proof (induction ss arbitrary: addrs tab n)
  case Nil
  then have "addrs = []" by (simp add: strs_at_def)
  then show ?case using Nil.prems(4) [of 0] Nil.prems(5) by (cases n) simp_all
next
  case (Cons s ss)
  then obtain a as where addrs: "addrs = a # as" and a: "lo \<le> unat a" "unat a + Suc (length s) \<le> 0x600000"
      "load_bytes base m a (Suc (length s)) = c_bytes s" and as: "strs_at base m lo as ss"
    by (auto simp: strs_at_def list_all2_Cons2)
  obtain n' where n: "n = Suc n'" using Cons.prems(5) by (cases n) simp_all
  have s: "copy_cstr_from_user MAX_STR base m a = Some s"
    using copy_cstr_load [OF a(3), of MAX_STR] Cons.prems(2) Cons.prems(3) [of s] a
    by (simp add: copy_cstr_from_user_def MAX_STR_def)
  have "snapshot_loop n' base m (tab + 8) = Inr ss"
  proof (rule Cons.IH [OF as Cons.prems(2)])
    show "read_u64_from_user base m (tab + 8 + 8 * word_of_nat j) = Some ((as @ [0]) ! j)" if "j \<le> length as" for j
      using Cons.prems(4) [of "Suc j"] that by (simp add: addrs algebra_simps)
  qed (use Cons.prems n in auto)
  moreover have "a \<noteq> 0" using a(1) Cons.prems(2) by auto
  ultimately show ?case using Cons.prems(4) [of 0] s by (simp add: n addrs)
qed

subsection \<open>The finished stack\<close>

lemma align_laid:
  assumes "stack_ok st"
  obtains pad where "laid base pad st (align_down_u64 (fst st) 16, snd st)" and "length pad < 16"
    and "unat (align_down_u64 (fst st) 16) mod 16 = 0"
proof -
  let ?sp = "align_down_u64 (fst st) 16"
  have u: "unat ?sp = unat (fst st) - unat (fst st) mod 16" using unat_align_down [of "fst st" 4] by simp
  then have d: "unat ?sp = 16 * (unat (fst st) div 16)" by (simp add: minus_mod_eq_mult_div)
  have "0x400000 div 16 \<le> unat (fst st) div 16" using assms by (intro div_le_mono) (simp add: stack_ok_def)
  then have lo: "0x400000 \<le> unat ?sp" unfolding d by simp
  have le: "unat ?sp \<le> unat (fst st)" by (simp add: u)
  let ?pad = "load_bytes base (snd st) ?sp (unat (fst st) mod 16)"
  show thesis
    by (rule that [of ?pad]) (use assms lo le u d in \<open>auto simp: laid_def stack_ok_def\<close>)
qed

lemma push_tables_spec:
  assumes st: "stack_ok st" and r: "push_tables base argv envp aux st = Inr ns"
  obtains pad where "laid base (concat (map bytes_of_u64 (word_of_nat (length argv) # argv @ 0 # envp @ [0])) @
      concat (map aux_bytes (rev aux)) @ pad) st (ns_sp ns, ns_mem ns)"
    and "ns_argv ns = ns_sp ns + 8" and "ns_envp ns = ns_sp ns + 8 * word_of_nat (length argv + 2)"
    and "(unat (ns_sp ns) + 8 * (length argv + length envp + 3)) mod 16 = 0"
proof -
  obtain pad where l0: "laid base pad st (align_down_u64 (fst st) 16, snd st)"
    and al: "unat (align_down_u64 (fst st) 16) mod 16 = 0" by (rule align_laid [OF st])
  obtain st1 where 1: "push_all (push_aux base) aux (align_down_u64 (fst st) 16, snd st) = Inr st1"
    using r by (auto simp: push_tables_def split: sum.splits)
  obtain st2 where 2: "push_all (push_u64 base) (0 # rev envp) st1 = Inr st2"
    using r 1 by (auto simp: push_tables_def split: sum.splits)
  obtain st3 where 3: "push_all (push_u64 base) (0 # rev argv) st2 = Inr st3"
    using r 1 2 by (simp add: push_tables_def split: sum.splits)
  obtain st4 where 4: "push_u64 base (word_of_nat (length argv)) st3 = Inr st4"
    using r 1 2 3 by (simp add: push_tables_def split: sum.splits)
  have ns: "ns = \<lparr>ns_sp = fst st4, ns_argv = fst st3, ns_envp = fst st2, ns_mem = snd st4\<rparr>"
    using r 1 2 3 4 by (simp add: push_tables_def)
  have l1: "laid base (concat (map aux_bytes (rev aux))) (align_down_u64 (fst st) 16, snd st) st1"
    by (rule push_all_laid [OF push_aux_laid laid_ok [OF l0] 1])
  have l2: "laid base (concat (map bytes_of_u64 (envp @ [0]))) st1 st2"
    using push_all_laid [OF push_u64_laid laid_ok [OF l1] 2] by simp
  have l3: "laid base (concat (map bytes_of_u64 (argv @ [0]))) st2 st3"
    using push_all_laid [OF push_u64_laid laid_ok [OF l2] 3] by simp
  have l4: "laid base (bytes_of_u64 (word_of_nat (length argv))) st3 st4"
    by (rule push_u64_laid [OF laid_ok [OF l3] 4])
  have l14: "laid base (bytes_of_u64 (word_of_nat (length argv)) @ concat (map bytes_of_u64 (argv @ [0])) @
      concat (map bytes_of_u64 (envp @ [0])) @ concat (map aux_bytes (rev aux)) @ pad) st st4"
    by (rule laid_trans [OF laid_trans [OF laid_trans [OF laid_trans [OF l0 l1] l2] l3] l4])
  have u: "unat (fst st4) + 8 = unat (fst st3)" "unat (fst st3) + 8 * Suc (length argv) = unat (fst st2)"
    "unat (fst st2) + 8 * Suc (length envp) = unat (fst st1)" "unat (fst st2) \<le> 0x600000"
    using l4 l3 l2 length_words [of "argv @ [0]"] length_words [of "envp @ [0]"]
    by (simp_all add: laid_def stack_ok_def)
  have len: "length (concat (map aux_bytes xs)) = 16 * length xs" for xs
    by (induction xs) (simp_all add: aux_bytes_def)
  have v: "unat (fst st1) + 16 * length aux = unat (align_down_u64 (fst st) 16)"
    using l1 len [of "rev aux"] by (simp add: laid_def)
  have m: "unat (fst st1) mod 16 = 0" using al unfolding v [symmetric] by (metis mod_mult_self2)
  have "unat (fst st4) + 8 * (length argv + length envp + 3) = unat (fst st1)" using u by simp
  then have "(unat (fst st4) + 8 * (length argv + length envp + 3)) mod 16 = 0" using m by simp
  moreover have "fst st3 = fst st4 + 8"
  proof -
    have "unat (fst st4 + word_of_nat 8) = unat (fst st3)" by (subst unat_offset) (use u in simp_all)
    then show ?thesis by (metis of_nat_numeral word_unat_eq_iff)
  qed
  moreover have "fst st2 = fst st4 + 8 * word_of_nat (length argv + 2)"
  proof -
    have "unat (fst st4 + word_of_nat (8 * (length argv + 2))) = unat (fst st2)"
      by (subst unat_offset) (use u in simp_all)
    then show ?thesis by (metis of_nat_mult of_nat_numeral word_unat_eq_iff)
  qed
  ultimately show thesis using that [of pad] l14 unfolding ns by simp
qed

lemma length_blobs: "length platform_bytes < 2 ^ 32" "length at_random_bytes < 2 ^ 32"
  by (simp_all add: platform_bytes_def at_random_bytes_def)

lemma three_regs:
  assumes "31 \<le> length xs"
  shows "(xs[0 := a, 1 := b, 2 := c]) ! 0 = a \<and> (xs[0 := a, 1 := b, 2 := c]) ! 1 = b \<and>
   (xs[0 := a, 1 := b, 2 := c]) ! 2 = c"
proof -
  have "0 < length xs" "1 < length xs" "2 < length xs" using assms by linarith+
  then show ?thesis by (simp add: nth_list_update)
qed

text \<open>Where the strings are when the tables are pushed.\<close>

lemma build_stack_spec:
  assumes r: "build_stack base args envs path entry a m = Inr ns"
    and small: "\<And>s. s \<in> set args \<union> set envs \<Longrightarrow> length s < 256" and path: "length path < 256"
  obtains argv envp rest st where
    "laid base (concat (map bytes_of_u64 (word_of_nat (length argv) # argv @ 0 # envp @ [0])) @ rest) st (ns_sp ns, ns_mem ns)"
    and "strs_at base (ns_mem ns) (unat (ns_sp ns)) argv args" and "strs_at base (ns_mem ns) (unat (ns_sp ns)) envp envs"
    and "ns_argv ns = ns_sp ns + 8" and "ns_envp ns = ns_sp ns + 8 * word_of_nat (length argv + 2)"
    and "(unat (ns_sp ns) + 8 * (length argv + length envp + 3)) mod 16 = 0"
proof -
  let ?st0 = "(USER_REGION_BASE + USER_REGION_SIZE, m)"
  have st0: "stack_ok ?st0" by (simp add: stack_ok_def USER_REGION_BASE_def USER_REGION_SIZE_def)
  obtain argv st1 where 1: "push_strs base args ?st0 = Inr (argv, st1)"
    using r by (auto simp: build_stack_def split: sum.splits)
  obtain envp st2 where 2: "push_strs base envs st1 = Inr (envp, st2)"
    using r 1 by (auto simp: build_stack_def split: sum.splits)
  obtain st3 where 3: "push_bytes base (c_bytes path) st2 = Inr st3"
    using r 1 2 by (auto simp: build_stack_def split: sum.splits)
  obtain st4 where 4: "push_bytes base platform_bytes st3 = Inr st4"
    using r 1 2 3 by (auto simp: build_stack_def split: sum.splits)
  obtain st5 where 5: "push_bytes base at_random_bytes st4 = Inr st5"
    using r 1 2 3 4 by (auto simp: build_stack_def split: sum.splits)
  have 6: "push_tables base argv envp (aux_vector entry a (fst st5) (fst st4) (fst st3)) st5 = Inr ns"
    using r 1 2 3 4 5 by (simp add: build_stack_def)
  have s1: "length s < 256" if "s \<in> set args" for s using small that by simp
  have s2: "length s < 256" if "s \<in> set envs" for s using small that by simp
  note l1 = push_strs_laid [OF st0 s1 1, THEN conjunct1]
  note l2 = push_strs_laid [OF laid_ok [OF l1] s2 2, THEN conjunct1]
  have "length (c_bytes path) < 2 ^ 32" unfolding length_c_bytes using path by simp
  note l3 = push_bytes_laid [OF laid_ok [OF l2] this 3]
  note l4 = push_bytes_laid [OF laid_ok [OF l3] length_blobs(1) 4]
  note l5 = push_bytes_laid [OF laid_ok [OF l4] length_blobs(2) 5]
  note l35 = laid_trans [OF laid_trans [OF l3 l4] l5]
  obtain pad where t: "laid base (concat (map bytes_of_u64 (word_of_nat (length argv) # argv @ 0 # envp @ [0])) @
      concat (map aux_bytes (rev (aux_vector entry a (fst st5) (fst st4) (fst st3)))) @ pad) st5 (ns_sp ns, ns_mem ns)"
    "ns_argv ns = ns_sp ns + 8" "ns_envp ns = ns_sp ns + 8 * word_of_nat (length argv + 2)"
    "(unat (ns_sp ns) + 8 * (length argv + length envp + 3)) mod 16 = 0"
    by (rule push_tables_spec [OF laid_ok [OF l5] 6])
  note down = laid_trans [OF l35 t(1)]
  have "strs_at base (ns_mem ns) (unat (ns_sp ns)) argv args"
    using strs_at_laid [OF push_strs_at [OF st0 s1 1] laid_trans [OF l2 down]] by simp
  moreover have "strs_at base (ns_mem ns) (unat (ns_sp ns)) envp envs"
    using strs_at_laid [OF push_strs_at [OF laid_ok [OF l1] s2 2] down] by simp
  ultimately show thesis by (rule that [OF t(1) _ _ t(2-4)])
qed

lemma exec_prepare_Inr:
  assumes "exec_prepare pathname argv_user envp_user k = Inr (args, envs, path, img)"
  shows "argv_user \<noteq> 0 \<Longrightarrow> snapshot_strs (user_base k) (k_mem k) argv_user = Inr args"
    and "snapshot_strs (user_base k) (k_mem k) envp_user = Inr envs" and "argv_user = 0 \<Longrightarrow> args = [base_name path]"
    and "\<exists>inp. resolve_path (p_cwd (cur_proc k)) inp MAX_PATH = Some path"
    and "\<exists>n mode. initramfs_lookup (k_archive k) path = Some (img, n, mode)"
  using assms unfolding exec_prepare_def Let_def by (auto split: sum.splits option.splits if_splits)

lemma snapshot_strs_facts:
  "snapshot_strs base m tab = Inr ss \<Longrightarrow> length ss < 32 \<and> (\<forall>s \<in> set ss. length s < 256 \<and> CHR 0x00 \<notin> set s)"
  using snapshot_facts [of MAX_ARGS base m tab ss] by (auto simp: snapshot_strs_def MAX_ARGS_def split: if_splits)

lemma resolve_path_length:
  assumes "resolve_path cwd inp MAX_PATH = Some path"
  shows "length path < 256"
proof -
  obtain q where q: "normalize_abs_path q 256 = Some path"
    using assms by (auto simp: resolve_path_def MAX_PATH_def split: if_splits)
  then have w: "resolves_within 256 [] (components q)" and p: "path = path_of (resolve (components q))"
    using normalize_abs_path_eq [of 256 q] by (simp_all split: if_splits)
  show ?thesis
    using resolves_within_length [OF w] unfolding p by (simp add: resolve_def path_of_def)
qed

lemma read_nonzero: "read_u64_from_user base m a = Some v \<Longrightarrow> a \<noteq> 0"
  by (auto simp: read_u64_from_user_def user_range_ok_iff split: if_splits)

lemma read_table:
  assumes "laid base (concat (map bytes_of_u64 (n # argv @ 0 # envp @ [0])) @ rest) st (sp, m)"
  shows "read_u64_from_user base m sp = Some n"
    and "j \<le> length argv \<Longrightarrow> read_u64_from_user base m (sp + 8 + 8 * word_of_nat j) = Some ((argv @ [0]) ! j)"
    and "j \<le> length envp \<Longrightarrow>
      read_u64_from_user base m (sp + 8 * word_of_nat (length argv + 2) + 8 * word_of_nat j) = Some ((envp @ [0]) ! j)"
proof -
  note w = laid_words [OF assms]
  show "read_u64_from_user base m sp = Some n" using w [of 0] by simp
  show "read_u64_from_user base m (sp + 8 + 8 * word_of_nat j) = Some ((argv @ [0]) ! j)" if "j \<le> length argv"
  proof -
    have "(n # argv @ 0 # envp @ [0]) ! Suc j = (argv @ [0]) ! j" using that by (simp add: nth_append)
    then show ?thesis using w [of "Suc j"] that by (simp add: algebra_simps)
  qed
  show "read_u64_from_user base m (sp + 8 * word_of_nat (length argv + 2) + 8 * word_of_nat j) = Some ((envp @ [0]) ! j)"
    if "j \<le> length envp"
  proof -
    have "(n # argv @ 0 # envp @ [0]) ! (length argv + 2 + j) = (envp @ [0]) ! j" by (simp add: nth_append)
    then show ?thesis using w [of "length argv + 2 + j"] that by (simp add: algebra_simps)
  qed
qed

text \<open>C10: after a successful \<open>execve\<close> the new image finds what was passed: the count at the stack pointer
  and in \<open>x0\<close>, and tables at \<open>x1\<close> and \<open>x2\<close> from which the very strings of the old tables are read
  back. The stack pointer is a multiple of 16, as the AArch64 procedure call standard asks, only when
  the numbers of arguments and environment strings differ in parity.\<close>

theorem execve_args_roundtrip:
  assumes "sys_execve r pathname argv_user envp_user k = (0, (tf, elr), k')" and "argv_user \<noteq> 0"
    and "31 \<le> length (tf_x (fst r))"
  shows "\<exists>args envs. snapshot_strs (user_base k) (k_mem k) argv_user = Inr args \<and>
    snapshot_strs (user_base k) (k_mem k) envp_user = Inr envs \<and>
    snapshot_strs (user_base k') (k_mem k') (tf_x tf ! 1) = Inr args \<and>
    snapshot_strs (user_base k') (k_mem k') (tf_x tf ! 2) = Inr envs \<and>
    read_u64_from_user (user_base k') (k_mem k') (tf_sp_el0 tf) = Some (word_of_nat (length args)) \<and>
    tf_x tf ! 0 = word_of_nat (length args) \<and> tf_x tf ! 1 = tf_sp_el0 tf + 8 \<and>
    unat (tf_sp_el0 tf) mod 16 = (if even (length args + length envs) then 8 else 0)"
proof -
  have ne: "sys_err e \<noteq> 0" for e using sys_err_is_err [of e] by (auto simp: is_err_def)
  obtain args envs path img where p: "exec_prepare pathname argv_user envp_user k = Inr (args, envs, path, img)"
    using assms(1) ne by (auto simp: sys_execve_def split: sum.splits)
  obtain el ns where i: "exec_image args envs path img k = Inr (el, ns)"
    using assms(1) ne by (auto simp: sys_execve_def p split: sum.splits prod.splits)
  have out: "tf = (fst r)\<lparr>tf_sp_el0 := ns_sp ns,
      tf_x := (tf_x (fst r))[0 := word_of_nat (length args), 1 := ns_argv ns, 2 := ns_envp ns]\<rparr>"
    "k' = set_cur (\<lambda>p. p\<lparr>p_elr := el_entry el\<rparr>) (k\<lparr>k_mem := ns_mem ns\<rparr>)"
    using assms(1) by (auto simp: sys_execve_def p i)
  have base: "user_base k' = user_base k" "k_mem k' = ns_mem ns"
    by (simp_all add: out(2) user_base_def set_cur_def set_proc_def)
  obtain m where m: "build_stack (user_base k) args envs path (el_entry el) (aux_phdr img) m = Inr ns"
    using i by (auto simp: exec_image_def split: prod.splits option.splits sum.splits)
  note ep = exec_prepare_Inr [OF p]
  note sa = snapshot_strs_facts [OF ep(1) [OF assms(2)]]
  note se = snapshot_strs_facts [OF ep(2)]
  obtain argv envp rest st where l: "laid (user_base k) (concat (map bytes_of_u64 (word_of_nat (length argv) # argv @ 0 # envp @ [0])) @ rest) st (ns_sp ns, ns_mem ns)"
    and str: "strs_at (user_base k) (ns_mem ns) (unat (ns_sp ns)) argv args" "strs_at (user_base k) (ns_mem ns) (unat (ns_sp ns)) envp envs"
    and ptr: "ns_argv ns = ns_sp ns + 8" "ns_envp ns = ns_sp ns + 8 * word_of_nat (length argv + 2)"
    and al: "(unat (ns_sp ns) + 8 * (length argv + length envp + 3)) mod 16 = 0"
  proof (rule build_stack_spec [OF m])
    show "length path < 256" using ep(4) resolve_path_length by blast
  qed (use sa se in auto)
  have len: "length argv = length args" "length envp = length envs"
    using str by (simp_all add: strs_at_def list_all2_lengthD)
  have lo: "0x400000 \<le> unat (ns_sp ns)" using l by (simp add: laid_def stack_ok_def)
  have rd: "tf_x tf ! 0 = word_of_nat (length args)" "tf_x tf ! 1 = ns_argv ns" "tf_x tf ! 2 = ns_envp ns" "tf_sp_el0 tf = ns_sp ns"
    using three_regs [OF assms(3)] by (simp_all add: out(1))
  have "snapshot_loop MAX_ARGS (user_base k) (ns_mem ns) (ns_argv ns) = Inr args"
    by (rule snapshot_reads [OF str(1) lo]) (use sa read_table(2) [OF l] in \<open>auto simp: ptr MAX_ARGS_def\<close>)
  moreover have "snapshot_loop MAX_ARGS (user_base k) (ns_mem ns) (ns_envp ns) = Inr envs"
    by (rule snapshot_reads [OF str(2) lo]) (use se read_table(3) [OF l] in \<open>auto simp: ptr MAX_ARGS_def\<close>)
  moreover have "ns_argv ns \<noteq> 0" "ns_envp ns \<noteq> 0"
    using read_nonzero [OF read_table(2) [OF l, of 0]] read_nonzero [OF read_table(3) [OF l, of 0]] by (simp_all add: ptr)
  moreover have "unat (ns_sp ns) mod 16 = (if even (length args + length envs) then 8 else 0)"
    using al unfolding len by presburger
  ultimately show ?thesis
    using ep(1) [OF assms(2)] ep(2) read_table(1) [OF l]
    by (simp add: base rd [unfolded One_nat_def] ptr(1) len snapshot_strs_def)
qed

subsection \<open>A process that executes\<close>

definition exec_files :: "(string \<times> u8 list \<times> u32) list" where
  "exec_files = [(''init'', tiny_elf, 0x81ED)]"

definition exec_bytes :: "u8 list" where
  "exec_bytes = concat (map bytes_of_u64 [0x400110, 0]) @ c_bytes ''hi'' @ c_bytes ''/init''"

text \<open>An image with a table of one argument at 0x400100, the argument and a path.\<close>

definition exec_kernel :: kernel where
  "exec_kernel = kernel_bss\<lparr>k_procs := [proc_clear\<lparr>p_state := PROC_RUNNABLE, p_user_pa := USER_REGION_BASE, p_cwd := ''/''\<rparr>],
     k_archive := build_archive exec_files,
     k_mem := store_bytes USER_REGION_BASE 0x400100 exec_bytes (\<lambda>_. 0)\<rparr>"

lemma exec_kernel_fields:
  "user_base exec_kernel = USER_REGION_BASE" "p_cwd (cur_proc exec_kernel) = ''/''" "exec_block exec_kernel = USER_REGION_BASE"
  "k_archive exec_kernel = build_archive exec_files"
  by (simp_all add: exec_kernel_def user_base_def cur_proc_def kernel_bss_def exec_block_def)

lemma exec_kernel_laid:
  "laid USER_REGION_BASE (concat (map bytes_of_u64 [0x400110, 0]) @ c_bytes ''hi'' @ c_bytes ''/init'')
     (0x400119, \<lambda>_. 0) (0x400100, k_mem exec_kernel)"
proof -
  have "laid USER_REGION_BASE exec_bytes (0x400119, \<lambda>_. 0) (0x400100, store_bytes USER_REGION_BASE 0x400100 exec_bytes (snd (0x400119 :: u64, \<lambda>_. 0)))"
    by (rule store_laid) (simp_all add: stack_ok_def user_range_ok_iff c_bytes_def exec_bytes_def)
  then show ?thesis by (simp add: exec_kernel_def) (simp add: exec_bytes_def)
qed

lemma exec_kernel_args: "snapshot_strs USER_REGION_BASE (k_mem exec_kernel) 0x400100 = Inr [''hi'']"
proof -
  have "load_bytes USER_REGION_BASE (k_mem exec_kernel) 0x400110 3 = c_bytes ''hi''"
    using laid_slice [OF exec_kernel_laid, of 16 3] by (simp add: c_bytes_def)
  then have s: "strs_at USER_REGION_BASE (k_mem exec_kernel) 0x400100 [0x400110] [''hi'']"
    by (simp add: strs_at_def numeral_3_eq_3)
  have r: "read_u64_from_user USER_REGION_BASE (k_mem exec_kernel) (0x400100 + 8 * word_of_nat j) = Some (([0x400110] @ [0]) ! j)"
    if "j \<le> length [0x400110 :: u64]" for j
    using laid_words [OF exec_kernel_laid, of j] that by simp
  have "snapshot_loop MAX_ARGS USER_REGION_BASE (k_mem exec_kernel) 0x400100 = Inr [''hi'']"
    by (rule snapshot_reads [OF s _ _ r]) (auto simp: MAX_ARGS_def)
  then show ?thesis by (simp add: snapshot_strs_def)
qed

lemma exec_kernel_path: "copy_cstr_from_user MAX_PATH USER_REGION_BASE (k_mem exec_kernel) 0x400113 = Some ''/init''"
proof -
  have "load_bytes USER_REGION_BASE (k_mem exec_kernel) 0x400113 (Suc (length ''/init'')) = c_bytes ''/init''"
    using laid_slice [OF exec_kernel_laid, of 19 6] by (simp add: c_bytes_def numeral_eq_Suc)
  from copy_cstr_load [OF this, of MAX_PATH] show ?thesis
    by (simp add: copy_cstr_from_user_def MAX_PATH_def)
qed

lemma exec_packable: "packable_archive exec_files"
proof -
  have "packable (''init'', tiny_elf, 0x81ED)" by (simp add: packable_def ascii_def tiny_elf_def)
  then show ?thesis
    by (simp add: packable_archive_def exec_files_def build_archive_def length_write_newc_entry length_trailer
        written_length_def name_pad_def data_pad_def tiny_elf_def) (simp add: trailer_def)
qed

lemma exec_lookup: "\<exists>n. initramfs_lookup (build_archive exec_files) ''/init'' = Some (tiny_elf, n, 0x81ED)"
  using initramfs_lookup_packed [OF exec_packable, of "''/init''" "''init''"] by (auto simp: exec_files_def)

lemma exec_resolve: "resolve_path ''/'' ''/init'' MAX_PATH = Some ''/init''"
  by code_simp

lemma exec_prepared: "exec_prepare 0x400113 0x400100 0 exec_kernel = Inr ([''hi''], [], ''/init'', tiny_elf)"
proof -
  obtain n where n: "initramfs_lookup (build_archive exec_files) ''/init'' = Some (tiny_elf, n, 0x81ED)" using exec_lookup by blast
  have e: "snapshot_strs USER_REGION_BASE (k_mem exec_kernel) 0 = Inr []" by (simp add: snapshot_strs_def)
  show ?thesis
    by (simp add: exec_prepare_def exec_kernel_fields exec_kernel_args exec_kernel_path exec_resolve n e Let_def
        S_ISDIR_def S_IFMT_def S_IFDIR_def)
qed

lemma exec_aux: "aux_phdr tiny_elf = \<lparr>at_phdr = 0, at_phent = 56, at_phnum = 1\<rparr>"
  by code_simp

lemma push_ok:
  "user_range_ok (sp - word_of_nat (length bs)) (word_of_nat (length bs)) \<Longrightarrow>
   push_bytes base bs (sp, m) = Inr (sp - word_of_nat (length bs), store_bytes base (sp - word_of_nat (length bs)) bs m)"
  by (simp add: push_bytes_def write_bytes_to_user_def Let_def)

lemma exec_built: "\<exists>ns. build_stack USER_REGION_BASE [''hi''] [] ''/init'' entry (aux_phdr tiny_elf) m = Inr ns"
  by (simp add: exec_aux build_stack_def push_tables_def aux_vector_def push_ok user_range_ok_def push_aux_def push_u64_def
      put_u64_def write_u64_to_user_def Let_def USER_REGION_BASE_def USER_REGION_SIZE_def align_down_u64_def
      platform_bytes_def at_random_bytes_def del: store_bytes.simps)

lemma exec_loaded: "fst (elf64_load_etexec tiny_elf USER_REGION_BASE USER_REGION_SIZE pa m) =
    Some \<lparr>el_entry = 0x400000, el_min = 0x400000, el_max = 0x400005\<rparr>"
proof -
  have e: "e_phoff (read_ehdr tiny_elf) = 64" "e_phnum (read_ehdr tiny_elf) = 1" "e_entry (read_ehdr tiny_elf) = 0x400000"
    "read_phdr tiny_elf 64 = \<lparr>p_type = 1, p_offset = 120, p_vaddr = 0x400000, p_filesz = 3, p_memsz = 5\<rparr>"
    "length tiny_elf = 123"
    by code_simp+
  show ?thesis
    by (simp add: elf64_load_etexec_def tiny_elf_header e phdr_off_def elf64_phdr_size_def load_segment_def PT_LOAD_def
        range_ok_def USER_REGION_BASE_def USER_REGION_SIZE_def Let_def)
qed

lemma exec_succeeds: "\<exists>tf elr k'. sys_execve (tf_zero, 0) 0x400113 0x400100 0 exec_kernel = (0, (tf, elr), k')"
proof -
  obtain m where m: "elf64_load_etexec tiny_elf USER_REGION_BASE USER_REGION_SIZE USER_REGION_BASE (k_mem exec_kernel) =
      (Some \<lparr>el_entry = 0x400000, el_min = 0x400000, el_max = 0x400005\<rparr>, m)"
    using exec_loaded [of USER_REGION_BASE "k_mem exec_kernel"] by (metis prod.collapse)
  obtain ns where "build_stack USER_REGION_BASE [''hi''] [] ''/init'' 0x400000 (aux_phdr tiny_elf) m = Inr ns"
    using exec_built by blast
  then show ?thesis
    by (simp add: sys_execve_def exec_prepared exec_image_def exec_kernel_fields m)
qed

lemma execve_args_roundtrip_witness:
  "\<exists>tf elr k'. sys_execve (tf_zero, 0) 0x400113 0x400100 0 exec_kernel = (0, (tf, elr), k') \<and>
     snapshot_strs (user_base k') (k_mem k') (tf_x tf ! 1) = Inr [''hi''] \<and> unat (tf_sp_el0 tf) mod 16 = 0"
proof -
  obtain tf elr k' where r: "sys_execve (tf_zero, 0) 0x400113 0x400100 0 exec_kernel = (0, (tf, elr), k')"
    using exec_succeeds by blast
  have "snapshot_strs USER_REGION_BASE (k_mem exec_kernel) 0 = Inr []" by (simp add: snapshot_strs_def)
  then show ?thesis
    using execve_args_roundtrip [OF r] r exec_kernel_args by (auto simp: exec_kernel_fields tf_zero_def)
qed

subsection \<open>Nothing outside the block\<close>

definition keeps :: "u64 \<Rightarrow> memory \<Rightarrow> memory \<Rightarrow> bool" where
  "keeps base m m' \<longleftrightarrow> (\<forall>a. a \<notin> block base \<longrightarrow> m' a = m a)"

lemma keeps_refl [simp]: "keeps base m m"
  by (simp add: keeps_def)

lemma keeps_trans: "keeps base m m' \<Longrightarrow> keeps base m' m'' \<Longrightarrow> keeps base m m''"
  by (simp add: keeps_def)

text \<open>A push keeps the memory outside the block whether it succeeds or not, and its errors are not
  those of looking the file up.\<close>

definition confined :: "u64 \<Rightarrow> memory \<Rightarrow> ('a \<Rightarrow> memory) \<Rightarrow> 'a pushed \<Rightarrow> bool" where
  "confined base m mem r \<longleftrightarrow> (case r of
     Inl (e, m') \<Rightarrow> e \<in> {E2BIG, EFAULT, ENOEXEC} \<and> keeps base m m' | Inr x \<Rightarrow> keeps base m (mem x))"

lemma confined_simps [simp]:
  "confined base m mem (Inl (e, m')) \<longleftrightarrow> e \<in> {E2BIG, EFAULT, ENOEXEC} \<and> keeps base m m'" "confined base m mem (Inr x) \<longleftrightarrow> keeps base m (mem x)"
  by (simp_all add: confined_def)

lemma confined_bind:
  assumes "confined base m mem r" and "\<And>x. r = Inr x \<Longrightarrow> confined base (mem x) mem' (f x)"
  shows "confined base m mem' (case r of Inl e \<Rightarrow> Inl e | Inr x \<Rightarrow> f x)"
proof (cases r)
  case (Inl e)
  then show ?thesis using assms(1) by (cases e) simp
next
  case (Inr x)
  then show ?thesis using assms(1) assms(2) [OF Inr]
    by (cases "f x") (auto simp: confined_def intro: keeps_trans)
qed

lemma confined_bind_pair:
  assumes "confined base m (snd \<circ> snd) r" and "\<And>x y. r = Inr (x, y) \<Longrightarrow> confined base (snd y) mem' (f x y)"
  shows "confined base m mem' (case r of Inl e \<Rightarrow> Inl e | Inr (x, y) \<Rightarrow> f x y)"
  by (rule confined_bind [OF assms(1)]) (use assms(2) in auto)

lemma put_u64_confined: "confined base (snd st) snd (put_u64 base va v st)"
  using write_user_block(2) [of base va v "snd st"] by (auto simp: put_u64_def keeps_def split: option.split)

lemma push_bytes_confined: "length bs < 2 ^ 64 \<Longrightarrow> confined base (snd st) snd (push_bytes base bs st)"
  using write_user_block(1) [of base "fst st - word_of_nat (length bs)" bs "snd st"]
  by (auto simp: push_bytes_def keeps_def Let_def split: option.split)

lemma push_u64_confined: "confined base (snd st) snd (push_u64 base v st)"
  using put_u64_confined [of base "(fst st - 8, snd st)"] by (simp add: push_u64_def)

lemma push_aux_confined: "confined base (snd st) snd (push_aux base tv st)"
  unfolding push_aux_def Let_def using put_u64_confined [of base "(fst st - 16, snd st)"]
  by (intro confined_bind [where mem = snd] put_u64_confined) simp

lemma push_all_confined:
  assumes "\<And>x st. confined base (snd st) snd (push x st)"
  shows "confined base (snd st) snd (push_all push xs st)"
proof (induction xs arbitrary: st)
  case (Cons x xs)
  show ?case unfolding push_all.simps by (rule confined_bind [where mem = snd, OF assms Cons.IH])
qed simp

lemma push_strs_confined:
  assumes "\<And>s. s \<in> set ss \<Longrightarrow> length s < 256"
  shows "confined base (snd st) (snd \<circ> snd) (push_strs base ss st)"
  using assms
proof (induction ss arbitrary: st)
  case (Cons s ss)
  have s: "length (c_bytes s) < 2 ^ 64" using Cons.prems [of s] by simp
  show ?case
    unfolding push_strs.simps
  proof (rule confined_bind [where mem = snd, OF push_bytes_confined [OF s]])
    fix st'
    have "confined base (snd st') (snd \<circ> snd) (push_strs base ss st')" by (rule Cons.IH) (use Cons.prems in simp)
    then show "confined base (snd st') (snd \<circ> snd)
        (case push_strs base ss st' of Inl e \<Rightarrow> Inl e | Inr (addrs, st'') \<Rightarrow> Inr (fst st' # addrs, st''))"
      by (auto simp: confined_def split: sum.split)
  qed
qed simp

lemma push_tables_confined: "confined base (snd st) ns_mem (push_tables base argv envp aux st)"
  unfolding push_tables_def
proof (rule confined_bind [where mem = snd])
  show "confined base (snd st) snd (push_all (push_aux base) aux (align_down_u64 (fst st) 16, snd st))"
    using push_all_confined [OF push_aux_confined, where st = "(align_down_u64 (fst st) 16, snd st)"] by simp
qed (intro confined_bind [where mem = snd, OF push_all_confined [OF push_u64_confined]]
      confined_bind [where mem = snd, OF push_u64_confined], simp)

lemma build_stack_confined:
  assumes "\<And>s. s \<in> set args \<union> set envs \<Longrightarrow> length s < 256" and "length path < 256"
  shows "confined base m ns_mem (build_stack base args envs path entry a m)"
proof -
  note p = confined_bind [where mem = snd, OF push_bytes_confined]
  have len: "length (c_bytes path) < 2 ^ 64" "length platform_bytes < 2 ^ 64" "length at_random_bytes < 2 ^ 64"
    using assms(2) length_blobs by (simp_all add: length_c_bytes)
  have s: "confined base (snd st) (snd \<circ> snd) (push_strs base args st)" "confined base (snd st) (snd \<circ> snd) (push_strs base envs st)" for st
    using assms(1) by (simp_all add: push_strs_confined)
  have rest: "confined base (snd st2) ns_mem (case push_bytes base (c_bytes path) st2 of Inl e \<Rightarrow> Inl e
      | Inr st3 \<Rightarrow> (case push_bytes base platform_bytes st3 of Inl e \<Rightarrow> Inl e
      | Inr st4 \<Rightarrow> (case push_bytes base at_random_bytes st4 of Inl e \<Rightarrow> Inl e
      | Inr st5 \<Rightarrow> push_tables base argv envp (aux_vector entry a (fst st5) (fst st4) (fst st3)) st5)))" for st2 argv envp
    by (rule p [OF len(1)], rule p [OF len(2)], rule p [OF len(3)], rule push_tables_confined)
  have two: "confined base (snd st1) ns_mem (case push_strs base envs st1 of Inl e \<Rightarrow> Inl e | Inr (envp, st2) \<Rightarrow>
      (case push_bytes base (c_bytes path) st2 of Inl e \<Rightarrow> Inl e
      | Inr st3 \<Rightarrow> (case push_bytes base platform_bytes st3 of Inl e \<Rightarrow> Inl e
      | Inr st4 \<Rightarrow> (case push_bytes base at_random_bytes st4 of Inl e \<Rightarrow> Inl e
      | Inr st5 \<Rightarrow> push_tables base argv envp (aux_vector entry a (fst st5) (fst st4) (fst st3)) st5))))" for st1 argv
    by (rule confined_bind_pair [OF s(2) rest])
  show ?thesis
    unfolding build_stack_def
    by (rule confined_bind_pair [OF s(1) [where st = "(USER_REGION_BASE + USER_REGION_SIZE, m)", unfolded snd_conv] two])
qed

text \<open>C11: \<open>execve\<close> writes memory only inside the block of the calling process, whether it succeeds or
  fails at any step. When it fails nothing else of the kernel and no register changes, and when it fails
  before the new image is loaded memory does not change at all.\<close>

theorem execve_confined:
  assumes "sys_execve r pathname argv_user envp_user k = (x, r', k')" and "user_base k = exec_block k"
    and "length (k_archive k) < 2 ^ 64"
  shows "(\<forall>a. a \<notin> block (user_base k) \<longrightarrow> k_mem k' a = k_mem k a) \<and>
    (x = 0 \<longrightarrow> k' = set_cur (\<lambda>p. p\<lparr>p_elr := snd r'\<rparr>) (k\<lparr>k_mem := k_mem k'\<rparr>)) \<and>
    (x \<noteq> 0 \<longrightarrow> r' = r \<and> k' = k\<lparr>k_mem := k_mem k'\<rparr>) \<and>
    (x \<in> {sys_err EINVAL, sys_err ENOENT, sys_err EISDIR} \<longrightarrow> k' = k)"
proof (cases "exec_prepare pathname argv_user envp_user k")
  case (Inl e)
  then show ?thesis using assms(1) sys_err_is_err [of e] by (auto simp: sys_execve_def is_err_def)
next
  case (Inr q)
  obtain args envs path img where q: "q = (args, envs, path, img)" by (metis prod_cases4)
  note ep = exec_prepare_Inr [OF Inr [unfolded q]]
  have path: "length path < 256" using ep(4) resolve_path_length by blast
  have small: "length s < 256" if "s \<in> set args \<union> set envs" for s
    using that snapshot_strs_facts [OF ep(2)] snapshot_strs_facts [OF ep(1)] ep(3)
    by (cases "argv_user = 0") (auto simp: base_name_def MAX_STR_def Let_def)
  have "length img \<le> length (k_archive k)"
    using ep(5) by (auto simp: initramfs_lookup_def Let_def split: if_splits option.splits)
  then have img: "length img < 2 ^ 64" using assms(3) by simp
  obtain el m where l: "elf64_load_etexec img USER_REGION_BASE USER_REGION_SIZE (exec_block k) (k_mem k) = (el, m)" by fastforce
  have km: "keeps (user_base k) (k_mem k) m"
    using load_confined [OF img, where pa = "exec_block k" and m = "k_mem k"] l by (simp add: keeps_def assms(2))
  have b: "confined (user_base k) m ns_mem (build_stack (user_base k) args envs path entry a m)" for entry a
    using build_stack_confined [OF small path] .
  have i: "confined (user_base k) (k_mem k) (\<lambda>y. ns_mem (snd y)) (exec_image args envs path img k)"
  proof (cases el)
    case None
    then show ?thesis using km l by (simp add: exec_image_def)
  next
    case (Some el')
    then show ?thesis
      using keeps_trans [OF km] b [of "el_entry el'" "aux_phdr img"] l
      by (cases "build_stack (user_base k) args envs path (el_entry el') (aux_phdr img) m")
        (auto simp: exec_image_def confined_def)
  qed
  have ne: "(0 :: u64) \<notin> {sys_err EINVAL, sys_err ENOENT, sys_err EISDIR}" by (simp add: sys_err_def)
  show ?thesis
  proof (cases "exec_image args envs path img k")
    case (Inl em)
    then show ?thesis
      using assms(1) i Inr sys_err_is_err [of "fst em"]
      by (cases em) (auto simp: sys_execve_def q Inl keeps_def is_err_def)
  next
    case r: (Inr y)
    then show ?thesis
      using assms(1) i Inr ne by (cases y) (auto simp: sys_execve_def q keeps_def set_cur_def set_proc_def)
  qed
qed

lemma execve_confined_witness:
  "\<exists>x r' k'. sys_execve (tf_zero, 0) 0x400113 0x400100 0 exec_kernel = (x, r', k') \<and> k_mem k' 0x700000 = k_mem exec_kernel 0x700000"
proof -
  obtain x r' k' where r: "sys_execve (tf_zero, 0) 0x400113 0x400100 0 exec_kernel = (x, r', k')" by (metis prod_cases3)
  have "0x700000 \<notin> block USER_REGION_BASE"
  proof
    assume "(0x700000 :: u64) \<in> block USER_REGION_BASE"
    then obtain off where "0x700000 = USER_REGION_BASE + off" "off < USER_REGION_SIZE" by (auto simp: block_def)
    then have "off = 0x700000 - USER_REGION_BASE" "off < USER_REGION_SIZE" by (simp_all add: algebra_simps)
    then show False by (simp add: USER_REGION_BASE_def USER_REGION_SIZE_def)
  qed
  moreover have "length (k_archive exec_kernel) < 2 ^ 64"
    using exec_packable by (simp add: exec_kernel_fields packable_archive_def)
  ultimately show ?thesis
    using execve_confined [OF r] r by (auto simp: exec_kernel_fields)
qed

end
