(* ===== verification/Netif.thy ===== *)
theory Netif
  imports Prelude
begin

text \<open>
  \<open>include/net.h\<close> and the interface table of \<open>kernel-aarch64/net.c\<close>, with the counter records of
  \<open>include/net_ipv6.h\<close> and \<open>include/usb_net.h\<close>. An interface is named by its index in the table;
  the frames the stack hands to drivers are collected in order, and whether the driver took a frame
  is a function of the environment.
\<close>

definition NETIF_NAME_MAX :: nat where "NETIF_NAME_MAX = 8"
definition NET_MAX_IFACES :: nat where "NET_MAX_IFACES = 4"

record netif =
  nf_name :: string
  nf_mac :: "u8 list"
  nf_mtu :: u16
  nf_ll :: "u8 list"
  nf_ll_valid :: bool
  nf_global :: "u8 list"
  nf_global_valid :: bool
  nf_prefix :: "u8 list"
  nf_prefix_len :: u8
  nf_router :: "u8 list"
  nf_router_valid :: bool
  nf_last_rs_ns :: u64
  nf_dns :: "u8 list"
  nf_dns_valid :: bool
  nf_dns_lifetime :: u32
  nf_has_tx :: bool
  nf_has_mcast :: bool
  nf_rx_frames :: u64
  nf_tx_frames :: u64
  nf_rx_drops :: u64
  nf_tx_drops :: u64

record usb_net_debug =
  ub_rx_poll_calls :: u64
  ub_rx_naks :: u64
  ub_rx_errors :: u64
  ub_rx_usb_xfers :: u64
  ub_rx_usb_bytes :: u64
  ub_rx_rndis_ok :: u64
  ub_rx_rndis_drop_small :: u64
  ub_rx_rndis_drop_type :: u64
  ub_rx_rndis_drop_bounds :: u64
  ub_last_got :: u32
  ub_last_msg_type :: u32
  ub_last_data_off :: u32
  ub_last_data_len :: u32
  ub_last_ethertype :: u16

record ipv6_debug =
  db_rx_ipv6_packets :: u64
  db_rx_drop_short :: u64
  db_rx_drop_len :: u64
  db_rx_drop_csum :: u64
  db_rx_udp :: u64
  db_rx_udp_delivered :: u64
  db_rx_icmpv6 :: u64
  db_rx_ra :: u64
  db_rx_ra_drop_hlim :: u64
  db_rx_ra_drop_src :: u64
  db_rx_ra_drop_short :: u64
  db_rx_ns :: u64
  db_rx_na :: u64
  db_rx_echo_req :: u64
  db_rx_echo_reply :: u64
  db_tx_rs :: u64
  db_tx_ns :: u64
  db_tx_echo_req :: u64
  db_ping6_calls :: u64
  db_ping6_eagain :: u64
  db_ping6_ebusy :: u64
  db_ping6_sent_echo :: u64
  db_ping6_sent_ns :: u64
  db_last_icmp_type :: u8
  db_last_hop_limit :: u8

definition ipv6_debug_zero :: ipv6_debug where
  "ipv6_debug_zero = \<lparr>db_rx_ipv6_packets = 0, db_rx_drop_short = 0, db_rx_drop_len = 0, db_rx_drop_csum = 0,
     db_rx_udp = 0, db_rx_udp_delivered = 0, db_rx_icmpv6 = 0, db_rx_ra = 0, db_rx_ra_drop_hlim = 0,
     db_rx_ra_drop_src = 0, db_rx_ra_drop_short = 0, db_rx_ns = 0, db_rx_na = 0, db_rx_echo_req = 0,
     db_rx_echo_reply = 0, db_tx_rs = 0, db_tx_ns = 0, db_tx_echo_req = 0, db_ping6_calls = 0,
     db_ping6_eagain = 0, db_ping6_ebusy = 0, db_ping6_sent_echo = 0, db_ping6_sent_ns = 0,
     db_last_icmp_type = 0, db_last_hop_limit = 0\<rparr>"

end
