(* ===== verification/SysPath.thy ===== *)
theory SysPath
  imports Exec
begin

text \<open>
  The calls of \<open>kernel-aarch64/sys_fs.c\<close> that work on path names: symbolic links, the working
  directory, \<open>mkdir\<close>, \<open>link\<close>, \<open>symlink\<close>, \<open>unlink\<close>, \<open>chmod\<close>, \<open>stat\<close> and \<open>readlink\<close>. A call takes its
  register arguments and the kernel, and returns the value of \<open>x0\<close> and the kernel after it. Names
  are read from user memory and resolved against the working directory before anything else.

  The overlay of \<open>Vfs\<close> is three flat tables of names; that they form a tree is what these calls
  maintain. The theorem of \<open>PathTree\<close> is that they do.
\<close>

definition AT_FDCWD :: u64 where "AT_FDCWD = - 100"
definition AT_REMOVEDIR :: u64 where "AT_REMOVEDIR = 0x200"
definition MAX_SYMLINK_HOPS :: nat where "MAX_SYMLINK_HOPS = 8"
definition S_IFLNK :: u32 where "S_IFLNK = 0xA000"

definition S_ISLNK :: "u32 \<Rightarrow> bool" where
  "S_ISLNK m \<longleftrightarrow> m AND S_IFMT = S_IFLNK"

definition lookup :: "kernel \<Rightarrow> string \<Rightarrow> (u8 list \<times> u64 \<times> u32) option" where
  "lookup k path = vfs_lookup_abs (k_archive k) path (k_vfs k)"

lemma case_unit_const [simp]: "(case u of () \<Rightarrow> x) = x"
  by (rule unit.induct [of _ u]) (rule unit.case)

subsection \<open>Symbolic links\<close>

text \<open>The target is a C string: the contents of the link up to a zero byte.\<close>

definition link_target :: "u8 list \<Rightarrow> u64 \<Rightarrow> string" where
  "link_target tgt n = takeWhile (\<lambda>c. c \<noteq> CHR 0x00) (map byte_char (take (unat n) tgt))"

definition follow_symlink_data :: "string \<Rightarrow> u8 list \<Rightarrow> u64 \<Rightarrow> string option" where
  "follow_symlink_data link_abs tgt tgt_len =
     (if MAX_PATH < unat (tgt_len + 1) then None
      else let target = link_target tgt tgt_len in
        case abs_path_parent_dir link_abs MAX_PATH of
          Inl e \<Rightarrow> None
        | Inr parent \<Rightarrow>
            if target \<noteq> [] \<and> hd target = slash then normalize_abs_path target MAX_PATH
            else if parent = [] then None
            else if MAX_PATH < length parent + 1 + length target + 1 then None
            else normalize_abs_path ((if last parent \<noteq> slash then parent @ [slash] else parent) @ target) MAX_PATH)"

fun symlink_hops :: "nat \<Rightarrow> kernel \<Rightarrow> string \<Rightarrow> string option" where
  "symlink_hops 0 k path = None"
| "symlink_hops (Suc hops) k path =
     (case lookup k path of
        None \<Rightarrow> Some path
      | Some (data, sz, mode) \<Rightarrow>
          if mode AND S_IFMT \<noteq> S_IFLNK then Some path
          else case follow_symlink_data path data sz of
            None \<Rightarrow> None
          | Some nxt \<Rightarrow> if MAX_PATH < length nxt + 1 then None else symlink_hops hops k nxt)"

definition resolve_final_symlink :: "kernel \<Rightarrow> string \<Rightarrow> string option" where
  "resolve_final_symlink k path = symlink_hops MAX_SYMLINK_HOPS k path"

subsection \<open>What the calls share\<close>

text \<open>A path argument: copied in, resolved, and followed when it names a symbolic link.\<close>

definition user_path :: "kernel \<Rightarrow> u64 \<Rightarrow> string res" where
  "user_path k p =
     (case copy_cstr_from_user MAX_PATH (user_base k) (k_mem k) p of
        None \<Rightarrow> Inl EFAULT
      | Some inp \<Rightarrow>
          (case resolve_path (p_cwd (cur_proc k)) inp MAX_PATH of None \<Rightarrow> Inl EINVAL | Some path \<Rightarrow> Inr path))"

definition user_path_followed :: "kernel \<Rightarrow> u64 \<Rightarrow> string res" where
  "user_path_followed k p =
     (case user_path k p of
        Inl e \<Rightarrow> Inl e
      | Inr path \<Rightarrow> (case resolve_final_symlink k path of None \<Rightarrow> Inl EINVAL | Some path' \<Rightarrow> Inr path'))"

text \<open>\<open>Parent must exist and be a directory\<close>, in every call that makes a name.\<close>

definition parent_check :: "kernel \<Rightarrow> string \<Rightarrow> unit res" where
  "parent_check k path =
     (case abs_path_parent_dir path MAX_PATH of
        Inl e \<Rightarrow> Inl e
      | Inr parent \<Rightarrow>
          (case lookup k parent of
             None \<Rightarrow> Inl ENOENT
           | Some (data, sz, pmode) \<Rightarrow> if \<not> S_ISDIR pmode then Inl ENOTDIR else Inr ()))"

text \<open>The end of a call that returns what an operation of the overlay returned.\<close>

definition vfs_done :: "unit res \<times> vfs \<Rightarrow> kernel \<Rightarrow> u64 \<times> kernel" where
  "vfs_done rv k = (case rv of (Inl e, v) \<Rightarrow> (sys_err e, k\<lparr>k_vfs := v\<rparr>) | (Inr (), v) \<Rightarrow> (0, k\<lparr>k_vfs := v\<rparr>))"

subsection \<open>The working directory\<close>

definition sys_getcwd :: "u64 \<Rightarrow> u64 \<Rightarrow> kernel \<Rightarrow> u64 \<times> kernel" where
  "sys_getcwd buf_user sz k =
     (let cwd = p_cwd (cur_proc k); n = length cwd in
      if sz = 0 then (sys_err EINVAL, k)
      else if unat sz < n + 1 then (sys_err ERANGE, k)
      else if \<not> user_range_ok buf_user (word_of_nat (n + 1)) then (sys_err EFAULT, k)
      else case write_bytes_to_user (user_base k) buf_user (c_bytes cwd) (k_mem k) of
          None \<Rightarrow> (sys_err EFAULT, k)
        | Some m \<Rightarrow> (buf_user, k\<lparr>k_mem := m\<rparr>))"

definition sys_chdir :: "u64 \<Rightarrow> kernel \<Rightarrow> u64 \<times> kernel" where
  "sys_chdir path_user k =
     (case user_path_followed k path_user of
        Inl e \<Rightarrow> (sys_err e, k)
      | Inr path \<Rightarrow>
          (case lookup k path of
             None \<Rightarrow> (sys_err ENOENT, k)
           | Some (data, sz, mode) \<Rightarrow>
               if \<not> S_ISDIR mode then (sys_err ENOTDIR, k)
               else if MAX_PATH < length path + 1 then (sys_err ENAMETOOLONG, k)
               else (0, set_cur (\<lambda>p. p\<lparr>p_cwd := path\<rparr>) k)))"

subsection \<open>Making names\<close>

text \<open>The end of \<open>symlinkat\<close>, after the empty link was created: store the target in it.\<close>

definition fill_symlink :: "string \<Rightarrow> string \<Rightarrow> string \<Rightarrow> kernel \<Rightarrow> u64 \<times> kernel" where
  "fill_symlink link_abs link_no_slash target k =
     (let undo = k\<lparr>k_vfs := snd (vfs_ramfile_unlink link_no_slash (k_vfs k))\<rparr> in
      case vfs_ramfile_find_abs link_abs (k_vfs k) of
        Inl e \<Rightarrow> (sys_err ENOENT, undo)
      | Inr file_id \<Rightarrow>
          (case vfs_ramfile_get file_id (k_vfs k) of
             Inl e \<Rightarrow> (sys_err ENOENT, undo)
           | Inr (data, sz, cap, mode) \<Rightarrow>
               if unat cap < length target then (sys_err ENAMETOOLONG, undo)
               else
                 let v1 = vfs_ramfile_store file_id 0 (map char_byte target) (k_vfs k)
                 in (case vfs_ramfile_set_size file_id (word_of_nat (length target)) v1 of
                       (Inl e, v2) \<Rightarrow> (sys_err EINVAL, k\<lparr>k_vfs := snd (vfs_ramfile_unlink link_no_slash v2)\<rparr>)
                     | (Inr (), v2) \<Rightarrow> (0, k\<lparr>k_vfs := v2\<rparr>))))"

definition sys_symlinkat :: "u64 \<Rightarrow> u64 \<Rightarrow> u64 \<Rightarrow> kernel \<Rightarrow> u64 \<times> kernel" where
  "sys_symlinkat target_user newdirfd linkpath_user k =
     (if newdirfd \<noteq> AT_FDCWD then (sys_err ENOSYS, k)
      else if target_user = 0 \<or> linkpath_user = 0 then (sys_err EFAULT, k)
      else case copy_cstr_from_user MAX_PATH (user_base k) (k_mem k) target_user of
        None \<Rightarrow> (sys_err EFAULT, k)
      | Some target \<Rightarrow>
          (case user_path k linkpath_user of
             Inl e \<Rightarrow> (sys_err e, k)
           | Inr link_abs \<Rightarrow>
               (case abs_path_to_no_slash_trim link_abs MAX_PATH of
                  Inl e \<Rightarrow> (sys_err e, k)
                | Inr link_no_slash \<Rightarrow>
                    if link_abs = [slash] then (sys_err EPERM, k)
                    else if lookup k link_abs \<noteq> None then (sys_err EEXIST, k)
                    else case parent_check k link_abs of
                        Inl e \<Rightarrow> (sys_err e, k)
                      | Inr () \<Rightarrow>
                          (case vfs_ramfile_create link_no_slash (S_IFLNK OR 0x1FF) (k_vfs k) of
                             (Inl e, v) \<Rightarrow> (sys_err e, k\<lparr>k_vfs := v\<rparr>)
                           | (Inr (), v) \<Rightarrow> fill_symlink link_abs link_no_slash target (k\<lparr>k_vfs := v\<rparr>)))))"

definition sys_mkdirat :: "u64 \<Rightarrow> u64 \<Rightarrow> u64 \<Rightarrow> kernel \<Rightarrow> u64 \<times> kernel" where
  "sys_mkdirat dirfd pathname_user mode k =
     (if dirfd \<noteq> AT_FDCWD then (sys_err ENOSYS, k)
      else if pathname_user = 0 then (sys_err EFAULT, k)
      else case user_path k pathname_user of
        Inl e \<Rightarrow> (sys_err e, k)
      | Inr abs_path \<Rightarrow>
          (case abs_path_to_no_slash_trim abs_path MAX_PATH of
             Inl e \<Rightarrow> (sys_err e, k)
           | Inr p \<Rightarrow>
               if abs_path = [slash] then (sys_err EEXIST, k)
               else if lookup k abs_path \<noteq> None then (sys_err EEXIST, k)
               else case parent_check k abs_path of
                   Inl e \<Rightarrow> (sys_err e, k)
                 | Inr () \<Rightarrow> vfs_done (vfs_ramdir_create p (S_IFDIR OR (ucast mode AND 0x1FF)) (k_vfs k)) k))"

definition sys_linkat :: "u64 \<Rightarrow> u64 \<Rightarrow> u64 \<Rightarrow> u64 \<Rightarrow> u64 \<Rightarrow> kernel \<Rightarrow> u64 \<times> kernel" where
  "sys_linkat olddirfd oldpath_user newdirfd newpath_user flags k =
     (if olddirfd \<noteq> AT_FDCWD \<or> newdirfd \<noteq> AT_FDCWD then (sys_err EINVAL, k)
      else if flags \<noteq> 0 then (sys_err EINVAL, k)
      else if oldpath_user = 0 \<or> newpath_user = 0 then (sys_err EFAULT, k)
      else case (copy_cstr_from_user MAX_PATH (user_base k) (k_mem k) oldpath_user,
                 copy_cstr_from_user MAX_PATH (user_base k) (k_mem k) newpath_user) of
        (None, _) \<Rightarrow> (sys_err EFAULT, k)
      | (_, None) \<Rightarrow> (sys_err EFAULT, k)
      | (Some old_in, Some new_in) \<Rightarrow>
          (case (resolve_path (p_cwd (cur_proc k)) old_in MAX_PATH, resolve_path (p_cwd (cur_proc k)) new_in MAX_PATH) of
             (None, _) \<Rightarrow> (sys_err EINVAL, k)
           | (_, None) \<Rightarrow> (sys_err EINVAL, k)
           | (Some old_abs, Some new_abs) \<Rightarrow>
               (case (abs_path_to_no_slash_trim old_abs MAX_PATH, abs_path_to_no_slash_trim new_abs MAX_PATH) of
                  (Inl e, _) \<Rightarrow> (sys_err e, k)
                | (_, Inl e) \<Rightarrow> (sys_err e, k)
                | (Inr old_no_slash, Inr new_no_slash) \<Rightarrow>
                    if old_abs = [slash] \<or> new_abs = [slash] then (sys_err EPERM, k)
                    else case lookup k old_abs of
                        None \<Rightarrow> (sys_err ENOENT, k)
                      | Some (data, sz, old_mode) \<Rightarrow>
                          if S_ISDIR old_mode then (sys_err EPERM, k)
                          else case vfs_ramfile_find_abs old_abs (k_vfs k) of
                              Inl e \<Rightarrow> (sys_err EROFS, k)
                            | Inr old_id \<Rightarrow>
                                if lookup k new_abs \<noteq> None then (sys_err EEXIST, k)
                                else case parent_check k new_abs of
                                    Inl e \<Rightarrow> (sys_err e, k)
                                  | Inr () \<Rightarrow> vfs_done (vfs_ramfile_link old_no_slash new_no_slash (k_vfs k)) k)))"

subsection \<open>Attributes\<close>

text \<open>The names that exist only as special cases of the calls below and of \<open>openat\<close>.\<close>

definition is_proc_path :: "string \<Rightarrow> bool" where
  "is_proc_path path \<longleftrightarrow>
     path = ''/proc'' \<or> path = ''/proc/'' \<or> path = ''/proc/ps'' \<or> path = ''/proc/meminfo'' \<or> path = ''/proc/net''"

text \<open>
  \<open>linux_stat_t\<close> in memory, 144 bytes: device, inode and link count (8 each), mode, user, group and
  padding (4 each), device, size, block size and blocks (8 each), three times and a reserved part.
\<close>

definition stat_bytes :: "u64 \<Rightarrow> u32 \<Rightarrow> u8 list" where
  "stat_bytes sz mode =
     bytes_of_u64 0 @ bytes_of_u64 1 @ bytes_of_u64 1 @ bytes_of_u32 mode @ bytes_of_u32 0 @ bytes_of_u32 0 @
     bytes_of_u32 0 @ bytes_of_u64 0 @ bytes_of_u64 sz @ bytes_of_u64 4096 @ bytes_of_u64 ((sz + 511) div 512) @
     replicate 72 0"

text \<open>For a name under \<open>/proc\<close> three fields of the user's buffer are written in place.\<close>

definition stat_proc :: "u64 \<Rightarrow> u64 \<Rightarrow> u32 \<Rightarrow> memory \<Rightarrow> memory" where
  "stat_proc base st mode m =
     store_bytes base (st + 48) (bytes_of_u64 0)
       (store_bytes base (st + 16) (bytes_of_u64 1) (store_bytes base (st + 24) (bytes_of_u32 mode) m))"

definition sys_newfstatat :: "u64 \<Rightarrow> u64 \<Rightarrow> u64 \<Rightarrow> u64 \<Rightarrow> kernel \<Rightarrow> u64 \<times> kernel" where
  "sys_newfstatat dirfd pathname_user statbuf_user flags k =
     (if dirfd \<noteq> AT_FDCWD then (sys_err ENOSYS, k)
      else if \<not> user_range_ok statbuf_user 144 then (sys_err EFAULT, k)
      else case user_path_followed k pathname_user of
        Inl e \<Rightarrow> (sys_err e, k)
      | Inr path \<Rightarrow>
          if path = ''/proc'' \<or> path = ''/proc/''
          then (0, k\<lparr>k_mem := stat_proc (user_base k) statbuf_user (S_IFDIR OR 0x16D) (k_mem k)\<rparr>)
          else if is_proc_path path
          then (0, k\<lparr>k_mem := stat_proc (user_base k) statbuf_user (S_IFREG OR 0x124) (k_mem k)\<rparr>)
          else case lookup k path of
              None \<Rightarrow> (sys_err ENOENT, k)
            | Some (data, sz, mode) \<Rightarrow>
                (0, k\<lparr>k_mem := store_bytes (user_base k) statbuf_user (stat_bytes sz mode) (k_mem k)\<rparr>))"

definition sys_fchmodat :: "u64 \<Rightarrow> u64 \<Rightarrow> u64 \<Rightarrow> u64 \<Rightarrow> kernel \<Rightarrow> u64 \<times> kernel" where
  "sys_fchmodat dirfd pathname_user mode flags k =
     (if dirfd \<noteq> AT_FDCWD then (sys_err ENOSYS, k)
      else if flags \<noteq> 0 then (sys_err ENOSYS, k)
      else if pathname_user = 0 then (sys_err EFAULT, k)
      else case user_path_followed k pathname_user of
        Inl e \<Rightarrow> (sys_err e, k)
      | Inr path \<Rightarrow>
          if is_proc_path path then (sys_err EROFS, k)
          else case lookup k path of
              None \<Rightarrow> (sys_err ENOENT, k)
            | Some (data, sz, old_mode) \<Rightarrow>
                let new_mode = (old_mode AND NOT 0x1FF) OR (ucast mode AND 0x1FF) in
                (case vfs_ramfile_set_mode_abs path new_mode (k_vfs k) of
                   (Inr (), v) \<Rightarrow> (0, k\<lparr>k_vfs := v\<rparr>)
                 | (Inl e, v) \<Rightarrow>
                     (case vfs_ramdir_set_mode_abs path new_mode v of
                        (Inr (), v') \<Rightarrow> (0, k\<lparr>k_vfs := v'\<rparr>)
                      | (Inl e', v') \<Rightarrow> (sys_err EROFS, k\<lparr>k_vfs := v'\<rparr>))))"

definition sys_readlinkat :: "u64 \<Rightarrow> u64 \<Rightarrow> u64 \<Rightarrow> u64 \<Rightarrow> kernel \<Rightarrow> u64 \<times> kernel" where
  "sys_readlinkat dirfd pathname_user buf_user bufsiz k =
     (if dirfd \<noteq> AT_FDCWD then (sys_err ENOSYS, k)
      else if pathname_user = 0 \<or> buf_user = 0 then (sys_err EFAULT, k)
      else if bufsiz = 0 then (0, k)
      else if \<not> user_range_ok buf_user bufsiz then (sys_err EFAULT, k)
      else case user_path k pathname_user of
        Inl e \<Rightarrow> (sys_err e, k)
      | Inr abs_path \<Rightarrow>
          (case lookup k abs_path of
             None \<Rightarrow> (sys_err ENOENT, k)
           | Some (data, sz, mode) \<Rightarrow>
               if mode AND S_IFMT \<noteq> S_IFLNK then (sys_err EINVAL, k)
               else let n = (if sz < bufsiz then sz else bufsiz) in
                 (case write_bytes_to_user (user_base k) buf_user (take (unat n) data) (k_mem k) of
                    None \<Rightarrow> (sys_err EFAULT, k)
                  | Some m \<Rightarrow> (n, k\<lparr>k_mem := m\<rparr>))))"

subsection \<open>Removing names\<close>

definition sys_unlinkat :: "u64 \<Rightarrow> u64 \<Rightarrow> u64 \<Rightarrow> kernel \<Rightarrow> u64 \<times> kernel" where
  "sys_unlinkat dirfd pathname_user flags k =
     (if dirfd \<noteq> AT_FDCWD then (sys_err ENOSYS, k)
      else if flags \<noteq> 0 \<and> flags \<noteq> AT_REMOVEDIR then (sys_err ENOSYS, k)
      else if pathname_user = 0 then (sys_err EFAULT, k)
      else case user_path k pathname_user of
        Inl e \<Rightarrow> (sys_err e, k)
      | Inr abs_path \<Rightarrow>
          if abs_path = [slash] then (sys_err EISDIR, k)
          else let p = skip_slashes abs_path in
            if p = [] then (sys_err EISDIR, k)
            else if flags = AT_REMOVEDIR then
              (case vfs_ramdir_remove p (k_vfs k) of
                 (Inr (), v) \<Rightarrow> (0, k\<lparr>k_vfs := v\<rparr>)
               | (Inl e, v) \<Rightarrow>
                   if e = ENOTEMPTY then (sys_err e, k\<lparr>k_vfs := v\<rparr>)
                   else case lookup (k\<lparr>k_vfs := v\<rparr>) abs_path of
                       Some (data, sz, mode) \<Rightarrow>
                         (if \<not> S_ISDIR mode then (sys_err ENOTDIR, k\<lparr>k_vfs := v\<rparr>)
                          else (sys_err EROFS, k\<lparr>k_vfs := v\<rparr>))
                     | None \<Rightarrow> (sys_err ENOENT, k\<lparr>k_vfs := v\<rparr>))
            else
              (case vfs_ramfile_unlink p (k_vfs k) of
                 (Inr (), v) \<Rightarrow> (0, k\<lparr>k_vfs := v\<rparr>)
               | (Inl e, v) \<Rightarrow>
                   (case lookup (k\<lparr>k_vfs := v\<rparr>) abs_path of
                      Some (data, sz, mode) \<Rightarrow>
                        (if S_ISDIR mode then (sys_err EISDIR, k\<lparr>k_vfs := v\<rparr>) else (sys_err EROFS, k\<lparr>k_vfs := v\<rparr>))
                    | None \<Rightarrow> (sys_err ENOENT, k\<lparr>k_vfs := v\<rparr>))))"

end
