(* ===== verification/PathTree.thy ===== *)
theory PathTree
  imports SysPath
begin

text \<open>
  The overlay is a tree: what the path calls of \<open>SysPath\<close> maintain over the flat tables of \<open>Vfs\<close>.
  Every name of the overlay is the name of a normalised path whose parent directory exists, in the
  overlay or in the archive; directories carry a directory's mode and files another one, and no name
  is both. A directory can only go away when nothing is below it.
\<close>

subsection \<open>Modes under the operations of the overlay\<close>

lemma ramfile_link_mode:
  assumes ok: "vfs_ok v" and r: "vfs_ramfile_link p q v = (Inr (), v')"
  shows "ramfile_mode v' = (ramfile_mode v)(q := ramfile_mode v p)" and "ramdir_mode v' = ramdir_mode v"
    and "ramfile_mode v p \<noteq> None" and "ramfile_mode v q = None" and "ramdir_mode v q = None"
proof -
  obtain i j n where i: "ramfile_find p v = Some i" "n = rl_inode (vs_files v ! i)" "n < MAX_RAMINODES" "j < MAX_RAMFILES"
    and d': "vs_dirs v' = vs_dirs v"
    and f': "vs_files v' = (vs_files v)[j := \<lparr>rl_used = True, rl_inode = n, rl_path = q\<rparr>]"
    and n': "vs_inodes v' = (vs_inodes v)[n := (vs_inodes v ! n)\<lparr>ri_nlink := Suc (link_count n (vs_files v))\<rparr>]"
    and fnd: "\<And>p'. ramfile_find p' v' = (if p' = q then Some j else ramfile_find p' v)"
    using vfs_ramfile_link_Inr(3) [OF ok r] by blast
  have len: "length (vs_files v) = MAX_RAMFILES" "length (vs_inodes v) = MAX_RAMINODES"
    using ok by (simp_all add: vfs_ok_def)
  have inm: "ri_mode (vs_inodes v' ! k) = ri_mode (vs_inodes v ! k)" for k
    using i(3) len(2) by (simp add: n' nth_list_update)
  have "j \<noteq> k" if "ramfile_find p' v = Some k" "p' \<noteq> q" for p' k
    using ramfile_find_inj [of p' v' k q] fnd that by auto
  then show "ramfile_mode v' = (ramfile_mode v)(q := ramfile_mode v p)"
    using i len fnd by (intro ext) (auto simp: ramfile_mode_def inm f' nth_list_update map_option_case split: option.splits)
  show "ramdir_mode v' = ramdir_mode v"
    by (simp add: ramdir_mode_def ramdir_find_def d' fun_eq_iff)
  show "ramfile_mode v p \<noteq> None" "ramfile_mode v q = None" "ramdir_mode v q = None"
    using i(1) vfs_ramfile_link_Inr(2) [OF ok r] by (simp_all add: ramfile_mode_def ramdir_mode_def)
qed

text \<open>The other table is left alone by each operation.\<close>

lemma ramdir_ops_files:
  "vfs_ramdir_create p m v = (r, v') \<Longrightarrow> ramfile_mode v' = ramfile_mode v"
  "vfs_ramdir_remove p v = (r, v') \<Longrightarrow> ramfile_mode v' = ramfile_mode v"
  by (auto simp: vfs_ramdir_create_def vfs_ramdir_remove_def ramfile_mode_def ramfile_find_def fun_eq_iff
      split: if_splits option.splits)

lemma raminode_decref_dirs [simp]: "vs_dirs (raminode_decref n v) = vs_dirs v"
  by (simp add: raminode_decref_def)

lemma ramfile_ops_dirs:
  "vfs_ramfile_create p m v = (r, v') \<Longrightarrow> ramdir_mode v' = ramdir_mode v"
  "vfs_ramfile_unlink p v = (r, v') \<Longrightarrow> ramdir_mode v' = ramdir_mode v"
  by (auto simp: vfs_ramfile_create_def vfs_ramfile_unlink_def ramdir_mode_def ramdir_find_def fun_eq_iff Let_def
      split: if_splits option.splits)

text \<open>An update of inodes changes modes only; one that leaves the modes alone changes nothing here.\<close>

lemma inode_update_modes:
  assumes "vs_dirs v' = vs_dirs v" and "vs_files v' = vs_files v"
  shows "ramdir_mode v' = ramdir_mode v"
    and "(\<And>n. ri_mode (vs_inodes v' ! n) = ri_mode (vs_inodes v ! n)) \<Longrightarrow> ramfile_mode v' = ramfile_mode v"
  using assms by (auto simp: ramdir_mode_def ramdir_find_def ramfile_mode_def ramfile_find_def fun_eq_iff)

lemma nth_upd_at_keep: "(\<And>x. g (f x) = g x) \<Longrightarrow> g (upd_at i f xs ! j) = g (xs ! j)"
  by (cases "i < length xs") (auto simp: upd_at_def nth_list_update list_update_beyond)

lemma set_size_modes:
  "ramdir_mode (snd (vfs_ramfile_set_size i sz v)) = ramdir_mode v"
  "ramfile_mode (snd (vfs_ramfile_set_size i sz v)) = ramfile_mode v"
  by (rule inode_update_modes; auto simp: vfs_ramfile_set_size_def Let_def nth_upd_at_keep)+

lemma store_modes:
  "ramdir_mode (vfs_ramfile_store i off bs v) = ramdir_mode v"
  "ramfile_mode (vfs_ramfile_store i off bs v) = ramfile_mode v"
  by (rule inode_update_modes; auto simp: vfs_ramfile_store_def nth_upd_at_keep split: sum.splits)+

text \<open>A successful change of a file's mode gives the new mode to all names of one inode.\<close>

lemma set_file_mode:
  assumes ok: "vfs_ok v" and r: "vfs_ramfile_set_mode_abs path mode v = (Inr (), v')"
  shows "ramdir_mode v' = ramdir_mode v"
    and "\<exists>m. ramfile_mode v (skip_slashes path) = Some m \<and>
      (\<forall>q. ramfile_mode v' q = ramfile_mode v q \<or> ramfile_mode v q = Some m \<and> ramfile_mode v' q = Some mode)"
proof -
  obtain i where i: "ramfile_find (skip_slashes path) v = Some i" and
    v': "v' = v\<lparr>vs_inodes := upd_at (rl_inode (vs_files v ! i)) (ri_mode_update (\<lambda>_. mode)) (vs_inodes v)\<rparr>"
    using r by (auto simp: vfs_ramfile_set_mode_abs_def Let_def split: if_splits option.splits)
  show "ramdir_mode v' = ramdir_mode v"
    by (rule inode_update_modes(1)) (simp_all add: v')
  have "rl_inode (vs_files v ! k) < length (vs_inodes v)" if "ramfile_find q v = Some k" for q k
    using ramfile_find_Some [OF that] vfs_ok_file [OF ok, of k] vfs_ok_lengths [OF ok] by simp
  then show "\<exists>m. ramfile_mode v (skip_slashes path) = Some m \<and>
      (\<forall>q. ramfile_mode v' q = ramfile_mode v q \<or> ramfile_mode v q = Some m \<and> ramfile_mode v' q = Some mode)"
    using i by (auto simp: ramfile_mode_def v' ramfile_find_def nth_upd_at map_option_case split: option.splits)
qed

lemma set_file_mode_err:
  assumes ok: "vfs_ok v" and r: "vfs_ramfile_set_mode_abs path mode v = (Inl e, v')"
  shows "v' = v" and "ramfile_mode v (skip_slashes path) = None"
proof -
  show "v' = v"
    using r by (auto simp: vfs_ramfile_set_mode_abs_def Let_def split: if_splits option.splits)
  define p where "p = skip_slashes path"
  show "ramfile_mode v (skip_slashes path) = None"
  proof (cases "ramfile_find p v")
    case (Some i)
    then have "rl_path (vs_files v ! i) = p" "i < length (vs_files v)" "rl_used (vs_files v ! i)"
      using ramfile_find_Some by blast+
    then show ?thesis
      using r Some vfs_ok_file [OF ok, of i] vfs_ok_lengths [OF ok]
      unfolding vfs_ramfile_set_mode_abs_def Let_def p_def [symmetric] by (auto split: if_splits)
  qed (simp add: ramfile_mode_def p_def)
qed

lemma set_dir_mode:
  assumes ok: "vfs_ok v" and r: "vfs_ramdir_set_mode_abs path mode v = (rc, v')"
  shows "ramfile_mode v' = ramfile_mode v"
    and "rc = Inr () \<Longrightarrow> ramdir_mode v (skip_slashes path) \<noteq> None \<and> ramdir_mode v' = (ramdir_mode v)(skip_slashes path \<mapsto> mode)"
    and "rc = Inl e \<Longrightarrow> v' = v"
proof -
  show "ramfile_mode v' = ramfile_mode v"
    using r by (auto simp: vfs_ramdir_set_mode_abs_def Let_def ramfile_mode_def ramfile_find_def fun_eq_iff
        split: if_splits option.splits)
  show "rc = Inl e \<Longrightarrow> v' = v"
    using r by (auto simp: vfs_ramdir_set_mode_abs_def Let_def split: if_splits option.splits)
  assume "rc = Inr ()"
  then obtain i where i: "ramdir_find (skip_slashes path) v = Some i" and
    v': "v' = v\<lparr>vs_dirs := upd_at i (rd_mode_update (\<lambda>_. mode)) (vs_dirs v)\<rparr>"
    using r by (auto simp: vfs_ramdir_set_mode_abs_def Let_def split: if_splits option.splits)
  have il: "i < length (vs_dirs v)" using i by (auto simp: ramdir_find_def)
  have fnd: "ramdir_find q v' = ramdir_find q v" for q
    unfolding ramdir_find_def v'
    by (rule find_slot_cong) (auto simp: nth_upd_at)
  have "j \<noteq> i" if "ramdir_find q v = Some j" "q \<noteq> skip_slashes path" for q j
    using ramdir_find_inj [OF ok i] that by metis
  moreover have "vs_dirs v' ! j = (if j = i then (vs_dirs v ! i)\<lparr>rd_mode := mode\<rparr> else vs_dirs v ! j)" for j
    using il by (cases "j = i") (simp_all add: v')
  ultimately show "ramdir_mode v (skip_slashes path) \<noteq> None \<and> ramdir_mode v' = (ramdir_mode v)(skip_slashes path \<mapsto> mode)"
    using i by (auto simp: ramdir_mode_def fnd fun_eq_iff map_option_case split: option.splits)
qed

subsection \<open>The tree\<close>

definition dir_at :: "u8 list \<Rightarrow> vfs \<Rightarrow> string \<Rightarrow> bool" where
  "dir_at ar v path =
     (case vfs_lookup_abs ar path v of None \<Rightarrow> False | Some (data, sz, mode) \<Rightarrow> S_ISDIR mode)"

text \<open>\<open>p\<close>, an overlay name, is a normalised path without its slash, in an existing directory.\<close>

definition in_tree :: "u8 list \<Rightarrow> vfs \<Rightarrow> string \<Rightarrow> bool" where
  "in_tree ar v p \<longleftrightarrow>
     (\<exists>cs c. list_all proper (cs @ [c]) \<and> slash # p = path_of (cs @ [c]) \<and> dir_at ar v (path_of cs))"

definition tree_ok :: "u8 list \<Rightarrow> vfs \<Rightarrow> bool" where
  "tree_ok ar v \<longleftrightarrow> vfs_ok v \<and>
     (\<forall>p m. ramdir_mode v p = Some m \<longrightarrow> in_tree ar v p \<and> S_ISDIR m \<and> ramfile_mode v p = None) \<and>
     (\<forall>p m. ramfile_mode v p = Some m \<longrightarrow> in_tree ar v p \<and> \<not> S_ISDIR m)"

lemma tree_okI:
  assumes "vfs_ok v" and "\<And>p m. ramdir_mode v p = Some m \<Longrightarrow> in_tree ar v p \<and> S_ISDIR m \<and> ramfile_mode v p = None"
    and "\<And>p m. ramfile_mode v p = Some m \<Longrightarrow> in_tree ar v p \<and> \<not> S_ISDIR m"
  shows "tree_ok ar v"
  using assms by (simp add: tree_ok_def)

lemma tree_okD:
  assumes "tree_ok ar v"
  shows "vfs_ok v" and "ramdir_mode v p = Some m \<Longrightarrow> in_tree ar v p \<and> S_ISDIR m \<and> ramfile_mode v p = None"
    and "ramfile_mode v p = Some m \<Longrightarrow> in_tree ar v p \<and> \<not> S_ISDIR m"
  using assms by (auto simp: tree_ok_def)

text \<open>A lookup in terms of the two tables.\<close>

lemma lookup_modes:
  assumes "vfs_ok v" and "skip_slashes path \<noteq> []"
  shows "map_option (snd \<circ> snd) (vfs_lookup_abs ar path v) =
    (case ramdir_mode v (skip_slashes path) of Some m \<Rightarrow> Some m
     | None \<Rightarrow> (case ramfile_mode v (skip_slashes path) of Some m \<Rightarrow> Some m
       | None \<Rightarrow> map_option (snd \<circ> snd) (initramfs_lookup ar path)))"
proof -
  have "path \<noteq> [slash]" using assms(2) by auto
  then show ?thesis
    using assms ramfile_find_Some [of "skip_slashes path" v] vfs_ok_file [OF assms(1)] vfs_ok_lengths [OF assms(1)]
    by (auto simp: vfs_lookup_abs_def Let_def ramdir_mode_def ramfile_mode_def split: option.splits)
qed

lemma dir_at_eq:
  assumes "vfs_ok v"
  shows "dir_at ar v path \<longleftrightarrow> skip_slashes path = [] \<or>
    (case ramdir_mode v (skip_slashes path) of Some m \<Rightarrow> S_ISDIR m
     | None \<Rightarrow> (case ramfile_mode v (skip_slashes path) of Some m \<Rightarrow> S_ISDIR m
       | None \<Rightarrow> \<exists>x. initramfs_lookup ar path = Some x \<and> S_ISDIR (snd (snd x))))"
proof (cases "skip_slashes path = []")
  case True
  then show ?thesis by (simp add: dir_at_def vfs_lookup_abs_def S_ISDIR_def S_IFDIR_def S_IFMT_def)
next
  case False
  then show ?thesis
    using lookup_modes [OF assms False, of ar]
    by (auto simp: dir_at_def map_option_case comp_def split: option.splits)
qed

text \<open>The tree is kept when no directory vanishes and new entries are in the tree.\<close>

lemma tree_ok_mono:
  assumes ok: "tree_ok ar v" and ok': "vfs_ok v'"
    and dirs: "\<And>cs c p. in_tree ar v p \<Longrightarrow> slash # p = path_of (cs @ [c]) \<Longrightarrow> list_all proper (cs @ [c]) \<Longrightarrow>
      ramdir_mode v' p \<noteq> None \<or> ramfile_mode v' p \<noteq> None \<Longrightarrow> dir_at ar v (path_of cs) \<Longrightarrow> dir_at ar v' (path_of cs)"
    and d: "\<And>p m. ramdir_mode v' p = Some m \<Longrightarrow> in_tree ar v p \<and> S_ISDIR m \<and> ramfile_mode v' p = None"
    and f: "\<And>p m. ramfile_mode v' p = Some m \<Longrightarrow> in_tree ar v p \<and> \<not> S_ISDIR m"
  shows "tree_ok ar v'"
proof -
  have t: "in_tree ar v' p" if "in_tree ar v p" "ramdir_mode v' p \<noteq> None \<or> ramfile_mode v' p \<noteq> None" for p
    using that dirs unfolding in_tree_def by blast
  show ?thesis
    by (rule tree_okI [OF ok']) (use d f t in \<open>fastforce\<close>)+
qed

lemma skip_slashes_path_of: "list_all proper (c # cs) \<Longrightarrow> slash # skip_slashes (path_of (c # cs)) = path_of (c # cs)"
  using skip_slashes_joined [of c cs] by (simp add: path_of_def)

lemma tree_add_dir:
  assumes ok: "tree_ok ar v" and r: "vfs_ramdir_create p m v = (Inr (), v')" and m: "S_ISDIR m"
    and t: "in_tree ar v p" and free: "ramfile_mode v p = None"
  shows "tree_ok ar v'"
proof -
  note f = ramdir_ops_files(1) [OF r]
  have d: "vfs_ok v'" "ramdir_mode v p = None" "ramdir_mode v' = (ramdir_mode v)(p \<mapsto> m)"
    using ramdirs.ins_ok [OF tree_okD(1) [OF ok] r] by auto
  show ?thesis
  proof (rule tree_ok_mono [OF ok d(1)])
    show "dir_at ar v' (path_of cs)" if "dir_at ar v (path_of cs)" for cs
      using that m unfolding dir_at_eq [OF tree_okD(1) [OF ok]] dir_at_eq [OF d(1)] d(3) f
      by (cases "skip_slashes (path_of cs) = p") simp_all
    show "in_tree ar v q \<and> S_ISDIR m' \<and> ramfile_mode v' q = None" if "ramdir_mode v' q = Some m'" for q m'
      using that tree_okD(2) [OF ok, of q m'] t m free by (auto simp: d(3) f split: if_splits)
    show "in_tree ar v q \<and> \<not> S_ISDIR m'" if "ramfile_mode v' q = Some m'" for q m'
      using that tree_okD(3) [OF ok, of q m'] by (simp add: f)
  qed
qed

lemma tree_add_file:
  assumes ok: "tree_ok ar v" and ok': "vfs_ok v'" and d: "ramdir_mode v' = ramdir_mode v"
    and f: "ramfile_mode v' = (ramfile_mode v)(p \<mapsto> m)" and m: "\<not> S_ISDIR m" and t: "in_tree ar v p"
    and free: "vfs_lookup_abs ar (slash # p) v = None" "hd p \<noteq> slash" "p \<noteq> []"
  shows "tree_ok ar v'"
proof -
  have skip: "skip_slashes (slash # p) = p"
    using free(2,3) by (cases p) auto
  have n: "ramdir_mode v p = None" "initramfs_lookup ar (slash # p) = None"
    using lookup_modes [OF tree_okD(1) [OF ok], of "slash # p" ar, unfolded skip] free(1,3) by (auto split: option.splits)
  have "dir_at ar v' path" if "dir_at ar v path" "path = path_of cs" "list_all proper cs" for path cs
  proof (cases cs)
    case Nil
    then show ?thesis using that ok' by (simp add: dir_at_eq path_of_def)
  next
    case (Cons a as)
    then have "path = slash # skip_slashes path"
      using skip_slashes_path_of [of a as] that(2,3) by simp
    then have "skip_slashes path = p \<Longrightarrow> path = slash # p" by metis
    then have "skip_slashes path \<noteq> p"
      using that(1) free(1) by (auto simp: dir_at_def)
    then show ?thesis
      using that(1) unfolding dir_at_eq [OF tree_okD(1) [OF ok]] dir_at_eq [OF ok'] d f
      by (auto split: option.splits)
  qed
  note dirs = this
  show ?thesis
  proof (rule tree_ok_mono [OF ok ok'])
    show "dir_at ar v' (path_of cs)" if "dir_at ar v (path_of cs)" "list_all proper (cs @ [c])" for cs c
      using that dirs [of "path_of cs" cs] by simp
    show "in_tree ar v q \<and> S_ISDIR m' \<and> ramfile_mode v' q = None" if "ramdir_mode v' q = Some m'" for q m'
      using that tree_okD(2) [OF ok, of q m'] n(1) by (auto simp: d f)
    show "in_tree ar v q \<and> \<not> S_ISDIR m'" if "ramfile_mode v' q = Some m'" for q m'
      using that tree_okD(3) [OF ok, of q m'] m t by (auto simp: f split: if_splits)
  qed
qed

text \<open>A directory is removed only when no name of the overlay lies below it.\<close>

lemma find_of_mode:
  "ramdir_mode v q = Some m \<Longrightarrow> \<exists>d \<in> set (vs_dirs v). rd_used d \<and> rd_path d = q"
  "ramfile_mode v q = Some m \<Longrightarrow> \<exists>f \<in> set (vs_files v). rl_used f \<and> rl_path f = q"
  using find_slot_Some [of "\<lambda>d. rd_used d \<and> rd_path d = q" "vs_dirs v"] ramfile_find_Some [of q v]
  by (fastforce simp: ramdir_mode_def ramdir_find_def, fastforce simp: ramfile_mode_def)

lemma remove_empty:
  assumes "vfs_ramdir_remove p v = (Inr (), v')" and "path_has_prefix_dir q p"
  shows "ramdir_mode v q = None" and "ramfile_mode v q = None"
  using assms find_of_mode [of v q]
  by (auto simp: vfs_ramdir_remove_def list_ex_iff not_None_eq [symmetric] split: if_splits option.splits) fastforce+

lemma child_has_prefix:
  assumes "slash # q = path_of (cs @ [c])" and "list_all proper (cs @ [c])" and "skip_slashes (path_of cs) = p" and "p \<noteq> []"
  shows "path_has_prefix_dir q p"
proof -
  obtain a as where cs: "cs = a # as" using assms(3,4) by (cases cs) (auto simp: path_of_def)
  then have "slash # p = joined cs"
    using skip_slashes_path_of [of a as] assms(2,3) by (simp add: path_of_def)
  then have "q = p @ slash # c"
    using assms(1) cs by (auto simp: path_of_def)
  then show ?thesis by (simp add: path_has_prefix_dir_def)
qed

lemma tree_remove_dir:
  assumes ok: "tree_ok ar v" and r: "vfs_ramdir_remove p v = (Inr (), v')"
  shows "tree_ok ar v'"
proof -
  note f = ramdir_ops_files(2) [OF r]
  have d: "vfs_ok v'" "ramdir_mode v' = (ramdir_mode v)(p := None)"
    using ramdirs.del_ok [OF tree_okD(1) [OF ok] r] by auto
  have p: "p \<noteq> []" using r by (auto simp: vfs_ramdir_remove_def)
  show ?thesis
  proof (rule tree_ok_mono [OF ok d(1)])
    fix cs c q
    assume q: "slash # q = path_of (cs @ [c])" "list_all proper (cs @ [c])"
      and e: "ramdir_mode v' q \<noteq> None \<or> ramfile_mode v' q \<noteq> None" and dir: "dir_at ar v (path_of cs)"
    then have "\<not> path_has_prefix_dir q p"
      using remove_empty [OF r, of q] by (auto simp: d f split: if_splits)
    then have "skip_slashes (path_of cs) \<noteq> p"
      using child_has_prefix [OF q] p by blast
    then show "dir_at ar v' (path_of cs)"
      using dir unfolding dir_at_eq [OF tree_okD(1) [OF ok]] dir_at_eq [OF d(1)] d(2) f by simp
  next
    show "in_tree ar v q \<and> S_ISDIR m' \<and> ramfile_mode v' q = None" if "ramdir_mode v' q = Some m'" for q m'
      using that tree_okD(2) [OF ok, of q m'] by (auto simp: d(2) f split: if_splits)
    show "in_tree ar v q \<and> \<not> S_ISDIR m'" if "ramfile_mode v' q = Some m'" for q m'
      using that tree_okD(3) [OF ok, of q m'] by (simp add: f)
  qed
qed

lemma tree_remove_file:
  assumes ok: "tree_ok ar v" and r: "vfs_ramfile_unlink p v = (Inr (), v')"
  shows "tree_ok ar v'"
proof -
  note d = ramfile_ops_dirs(2) [OF r]
  have f: "vfs_ok v'" "ramfile_mode v p \<noteq> None" "ramfile_mode v' = (ramfile_mode v)(p := None)"
    using ramfiles.del_ok [OF tree_okD(1) [OF ok] r] by auto
  then obtain m where m: "ramfile_mode v p = Some m" "\<not> S_ISDIR m" "ramdir_mode v p = None"
    using tree_okD(2,3) [OF ok, of p] by (cases "ramdir_mode v p") auto
  show ?thesis
  proof (rule tree_ok_mono [OF ok f(1)])
    show "dir_at ar v' (path_of cs)" if "dir_at ar v (path_of cs)" for cs
      using that m unfolding dir_at_eq [OF tree_okD(1) [OF ok]] dir_at_eq [OF f(1)] d f(3)
      by (cases "skip_slashes (path_of cs) = p") (auto split: option.splits)
    show "in_tree ar v q \<and> S_ISDIR m' \<and> ramfile_mode v' q = None" if "ramdir_mode v' q = Some m'" for q m'
      using that tree_okD(2) [OF ok, of q m'] by (simp add: d f)
    show "in_tree ar v q \<and> \<not> S_ISDIR m'" if "ramfile_mode v' q = Some m'" for q m'
      using that tree_okD(3) [OF ok, of q m'] by (simp add: f split: if_splits)
  qed
qed

text \<open>A change of mode that keeps the file type.\<close>

lemma tree_chmod:
  assumes ok: "tree_ok ar v" and ok': "vfs_ok v'"
    and d: "\<And>q. map_option S_ISDIR (ramdir_mode v' q) = map_option S_ISDIR (ramdir_mode v q)"
    and f: "\<And>q. map_option S_ISDIR (ramfile_mode v' q) = map_option S_ISDIR (ramfile_mode v q)"
  shows "tree_ok ar v'"
proof (rule tree_ok_mono [OF ok ok'])
  show "dir_at ar v' path" if "dir_at ar v path" for path
    using that d [of "skip_slashes path"] f [of "skip_slashes path"]
    unfolding dir_at_eq [OF tree_okD(1) [OF ok]] dir_at_eq [OF ok']
    by (auto split: option.splits)
  show "in_tree ar v q \<and> S_ISDIR m \<and> ramfile_mode v' q = None" if "ramdir_mode v' q = Some m" for q m
    using that d [of q] f [of q] tree_okD(2) [OF ok, of q] by (cases "ramdir_mode v q") auto
  show "in_tree ar v q \<and> \<not> S_ISDIR m" if "ramfile_mode v' q = Some m" for q m
    using that f [of q] tree_okD(3) [OF ok, of q] by (cases "ramfile_mode v q") auto
qed

lemma tree_same_modes:
  "tree_ok ar v \<Longrightarrow> vfs_ok v' \<Longrightarrow> ramdir_mode v' = ramdir_mode v \<Longrightarrow> ramfile_mode v' = ramfile_mode v \<Longrightarrow> tree_ok ar v'"
  by (rule tree_chmod) simp_all

subsection \<open>The calls\<close>

definition fs_tree :: "kernel \<Rightarrow> bool" where
  "fs_tree k \<longleftrightarrow> tree_ok (k_archive k) (k_vfs k)"

lemma fs_tree_frame [frame_simps]:
  "fs_tree (k\<lparr>k_mem := m\<rparr>) = fs_tree k" "fs_tree (k\<lparr>k_vfs := k_vfs k\<rparr>) = fs_tree k" "fs_tree (set_cur g k) = fs_tree k"
  "fs_tree (k\<lparr>k_vfs := v\<rparr>) = tree_ok (k_archive k) v" "fs_tree (k\<lparr>k_fd := s\<rparr>) = fs_tree k"
  "fs_tree (set_proc i g k) = fs_tree k" "fs_tree (k\<lparr>k_con := c\<rparr>) = fs_tree k"
  by (simp_all add: fs_tree_def set_cur_def)

lemma user_path_normalized: "user_path k p = Inr path \<Longrightarrow> normalized path \<and> length path < MAX_PATH"
  by (auto simp: user_path_def dest: resolve_path_normalized split: option.splits)

lemma resolve_normalized:
  "resolve_path cwd inp MAX_PATH = Some path \<Longrightarrow> normalized path \<and> length path < MAX_PATH"
  by (rule resolve_path_normalized)

text \<open>A name that passed the checks of the calls that make names has its place in the tree.\<close>

lemma new_name:
  assumes "normalized path" and len: "length path < MAX_PATH" and "path \<noteq> [slash]"
    and nos: "abs_path_to_no_slash_trim path MAX_PATH = Inr p" and par: "parent_check k path = Inr ()"
  shows "in_tree (k_archive k) (k_vfs k) p" and "path = slash # p" and "hd p \<noteq> slash" and "p \<noteq> []"
proof -
  obtain c cs where p: "list_all proper (cs @ [c])" "path = path_of (cs @ [c])"
  proof -
    obtain ds where ds: "list_all proper ds" "path = path_of ds"
      using assms(1) by (auto simp: normalized_def)
    then show thesis
      using assms(3) that by (cases ds rule: rev_cases) (auto simp: path_of_def)
  qed
  obtain a as where a: "cs @ [c] = a # as" by (cases "cs @ [c]") auto
  have pa: "list_all proper (a # as)" "path = path_of (a # as)" using p a by simp_all
  have "p = tl path"
    using to_no_slash_path_of [OF pa(1)] len nos pa(2) by simp
  then show eq: "path = slash # p"
    by (simp add: pa(2) path_of_def)
  have "abs_path_parent_dir path MAX_PATH = Inr (path_of cs)"
    using parent_dir_path_of [OF p(1)] len p(2) by simp
  then have "dir_at (k_archive k) (k_vfs k) (path_of cs)"
    using par by (auto simp: parent_check_def dir_at_def lookup_def split: option.splits if_splits)
  then show "in_tree (k_archive k) (k_vfs k) p"
    using p eq by (auto simp: in_tree_def)
  have "p = a @ joined as" using eq pa(2) by (simp add: path_of_def)
  then show "hd p \<noteq> slash" "p \<noteq> []"
    using proper_hd [of a] pa(1) by auto
qed

lemma create_mode:
  "\<not> S_ISDIR (S_IFLNK OR 0x1FF)" "\<not> S_ISDIR (S_IFREG OR (m AND 0x1FF))" "S_ISDIR (S_IFDIR OR (m AND 0x1FF))"
  by (simp_all add: S_ISDIR_def S_IFLNK_def S_IFMT_def S_IFDIR_def S_IFREG_def bit.conj_disj_distrib2 and.assoc)

lemma chmod_type: "S_ISDIR ((m AND NOT 0x1FF) OR (m' AND 0x1FF)) = S_ISDIR m"
  by (simp add: S_ISDIR_def S_IFMT_def S_IFDIR_def bit.conj_disj_distrib2 and.assoc)

lemma free_modes:
  assumes "vfs_ok (k_vfs k)" and "lookup k (slash # p) = None" and "hd p \<noteq> slash" and "p \<noteq> []"
  shows "ramfile_mode (k_vfs k) p = None" and "ramdir_mode (k_vfs k) p = None"
proof -
  have skip: "skip_slashes (slash # p) = p" using assms(3,4) by (cases p) auto
  show "ramfile_mode (k_vfs k) p = None" "ramdir_mode (k_vfs k) p = None"
    using lookup_modes [OF assms(1), of "slash # p" "k_archive k", unfolded skip] assms(2,4)
    by (auto simp: lookup_def split: option.splits)
qed

text \<open>The condition a call has established before it makes the name \<open>p\<close> of \<open>path\<close>.\<close>

definition may_make :: "kernel \<Rightarrow> string \<Rightarrow> string \<Rightarrow> bool" where
  "may_make k path p \<longleftrightarrow> normalized path \<and> length path < MAX_PATH \<and> path \<noteq> [slash] \<and> lookup k path = None \<and>
     abs_path_to_no_slash_trim path MAX_PATH = Inr p \<and> parent_check k path = Inr ()"

lemma may_makeI:
  assumes "user_path k u = Inr path \<or> resolve_path cwd inp MAX_PATH = Some path" and "path \<noteq> [slash]"
    and "\<forall>a b c. lookup k path \<noteq> Some (a, b, c)"
    and "abs_path_to_no_slash_trim path MAX_PATH = Inr p" and "parent_check k path = Inr ()"
  shows "may_make k path p"
  using assms user_path_normalized [of k u path] resolve_normalized [of cwd inp path]
  by (cases "lookup k path") (auto simp: may_make_def)

lemma may_makeD:
  assumes "may_make k path p"
  shows "in_tree (k_archive k) (k_vfs k) p" and "path = slash # p" and "hd p \<noteq> slash" and "p \<noteq> []"
    and "lookup k (slash # p) = None"
proof -
  have a: "normalized path" "length path < MAX_PATH" "path \<noteq> [slash]"
      "abs_path_to_no_slash_trim path MAX_PATH = Inr p" "parent_check k path = Inr ()" and l: "lookup k path = None"
    using assms unfolding may_make_def by blast+
  show "in_tree (k_archive k) (k_vfs k) p" "path = slash # p" "hd p \<noteq> slash" "p \<noteq> []" "lookup k (slash # p) = None"
    using new_name [OF a] l by auto
qed

lemma may_make_dir:
  assumes ok: "fs_tree k" and "may_make k path p" and m: "S_ISDIR m"
  shows "fs_tree (snd (vfs_done (vfs_ramdir_create p m (k_vfs k)) k))"
proof -
  note n = may_makeD [OF assms(2)]
  have free: "ramfile_mode (k_vfs k) p = None"
    by (rule free_modes(1) [OF tree_okD(1) [OF ok [unfolded fs_tree_def]] n(5,3,4)])
  obtain r v where rv: "vfs_ramdir_create p m (k_vfs k) = (r, v)" by fastforce
  show ?thesis
  proof (cases r)
    case (Inl e)
    then show ?thesis
      using ok vfs_dir_err(1) [of p m "k_vfs k" e v] rv by (simp add: vfs_done_def frame_simps)
  next
    case (Inr x)
    then show ?thesis
      using tree_add_dir [OF ok [unfolded fs_tree_def] _ m n(1) free, of v] rv
      by (simp add: vfs_done_def frame_simps)
  qed
qed

lemma may_make_create:
  assumes ok: "fs_tree k" and "may_make k path p" and m: "\<not> S_ISDIR m"
    and r: "vfs_ramfile_create p m (k_vfs k) = (Inr (), v)"
  shows "tree_ok (k_archive k) v"
proof -
  note n = may_makeD [OF assms(2)]
  note t = ok [unfolded fs_tree_def]
  show ?thesis
    using tree_add_file [OF t _ ramfile_ops_dirs(1) [OF r] _ m n(1) _ n(3,4)] n(5)
      ramfiles.ins_ok [OF tree_okD(1) [OF t] r]
    by (simp add: lookup_def)
qed

lemma may_make_link:
  assumes ok: "fs_tree k" and "may_make k path p"
  shows "fs_tree (snd (vfs_done (vfs_ramfile_link old p (k_vfs k)) k))"
proof -
  note n = may_makeD [OF assms(2)]
  note t = ok [unfolded fs_tree_def]
  obtain r v where rv: "vfs_ramfile_link old p (k_vfs k) = (r, v)" by fastforce
  show ?thesis
  proof (cases r)
    case (Inl e)
    then show ?thesis
      using ok vfs_dir_err(5) [of old p "k_vfs k" e v] rv by (simp add: vfs_done_def frame_simps)
  next
    case (Inr x)
    then have r: "vfs_ramfile_link old p (k_vfs k) = (Inr (), v)" using rv by simp
    note l = ramfile_link_mode [OF tree_okD(1) [OF t] r]
    obtain m where m: "ramfile_mode (k_vfs k) old = Some m" "\<not> S_ISDIR m"
      using l(3) tree_okD(3) [OF t, of old] by auto
    have "tree_ok (k_archive k) v"
      using tree_add_file [OF t vfs_ramfile_link_Inr(1) [OF tree_okD(1) [OF t] r] l(2) _ m(2) n(1) _ n(3,4)] n(5) l(1) m(1)
      by (simp add: lookup_def)
    then show ?thesis
      using rv Inr by (simp add: vfs_done_def frame_simps)
  qed
qed

lemma mkdir_tree: "fs_tree k \<Longrightarrow> fs_tree (snd (sys_mkdirat dirfd u mode k))"
  unfolding sys_mkdirat_def
  by (auto simp: create_mode split: sum.split intro!: may_make_dir [OF _ may_makeI [OF disjI1]])

lemma linkat_tree: "fs_tree k \<Longrightarrow> fs_tree (snd (sys_linkat olddir old newdir new flags k))"
  unfolding sys_linkat_def
  by (auto split: sum.split option.split intro!: may_make_link [OF _ may_makeI [OF disjI2]])

lemma unlink_tree: "tree_ok ar v \<Longrightarrow> tree_ok ar (snd (vfs_ramfile_unlink p v))"
  using tree_remove_file [of ar v p] vfs_dir_err(4) [of p v]
  by (cases "vfs_ramfile_unlink p v"; cases "fst (vfs_ramfile_unlink p v)") auto

lemma set_size_tree: "tree_ok ar v \<Longrightarrow> tree_ok ar (snd (vfs_ramfile_set_size i n v))"
  by (rule tree_same_modes) (simp_all add: vfs_ramfile_set_size_ok tree_okD(1) set_size_modes)

lemma store_tree:
  "tree_ok ar v \<Longrightarrow> off + length bs \<le> RAMFILE_CAP \<Longrightarrow> tree_ok ar (vfs_ramfile_store i off bs v)"
  by (rule tree_same_modes) (simp_all add: vfs_ramfile_store_ok tree_okD(1) store_modes)

lemma ramfile_get_cap: "vfs_ramfile_get i v = Inr (d, s, c, m) \<Longrightarrow> unat c = RAMFILE_CAP"
  by (auto simp: vfs_ramfile_get_def Let_def RAMFILE_CAP_def split: sum.splits)

lemma fill_symlink_tree:
  assumes "tree_ok (k_archive k) (k_vfs k)"
  shows "fs_tree (snd (fill_symlink a p target k))"
proof (cases "vfs_ramfile_find_abs a (k_vfs k)")
  case (Inl e)
  then show ?thesis using unlink_tree [OF assms] by (simp add: fill_symlink_def frame_simps)
next
  case (Inr i)
  show ?thesis
  proof (cases "vfs_ramfile_get i (k_vfs k)")
    case (Inl e)
    then show ?thesis using unlink_tree [OF assms] Inr by (simp add: fill_symlink_def frame_simps)
  next
    case got: (Inr g)
    obtain d s c m where g: "g = (d, s, c, m)" by (cases g)
    show ?thesis
    proof (cases "unat c < length target")
      case True
      then show ?thesis using unlink_tree [OF assms] Inr got g by (simp add: fill_symlink_def frame_simps)
    next
      case False
      let ?v1 = "vfs_ramfile_store i 0 (map char_byte target) (k_vfs k)"
      obtain r v2 where v2: "vfs_ramfile_set_size i (word_of_nat (length target)) ?v1 = (r, v2)" by fastforce
      have "tree_ok (k_archive k) ?v1"
        using store_tree [OF assms] False ramfile_get_cap [OF got [unfolded g]] by simp
      then have t: "tree_ok (k_archive k) v2"
        using set_size_tree [of _ ?v1 i] v2 by (metis snd_conv)
      show ?thesis
        using t unlink_tree [OF t] Inr got g False v2
        by (cases r) (simp_all add: fill_symlink_def frame_simps)
    qed
  qed
qed

lemma symlink_leaf:
  assumes ok: "fs_tree k" and m: "may_make k path p"
    and r: "vfs_ramfile_create p (S_IFLNK OR 0x1FF) (k_vfs k) = (r, v)"
  shows "r = Inl e \<Longrightarrow> fs_tree (k\<lparr>k_vfs := v\<rparr>)" and "r = Inr () \<Longrightarrow> fs_tree (snd (fill_symlink path p target (k\<lparr>k_vfs := v\<rparr>)))"
proof -
  show "r = Inl e \<Longrightarrow> fs_tree (k\<lparr>k_vfs := v\<rparr>)"
    using ok vfs_dir_err(3) [of p "S_IFLNK OR 0x1FF" "k_vfs k" e v] r by simp
  show "r = Inr () \<Longrightarrow> fs_tree (snd (fill_symlink path p target (k\<lparr>k_vfs := v\<rparr>)))"
    by (rule fill_symlink_tree) (use may_make_create [OF ok m create_mode(1)] r in simp)
qed

lemma symlinkat_tree: "fs_tree k \<Longrightarrow> fs_tree (snd (sys_symlinkat target dirfd u k))"
  unfolding sys_symlinkat_def
  by (auto split: sum.split option.split prod.split intro!: symlink_leaf(1) [OF _ may_makeI [OF disjI1]]
      symlink_leaf(2) [OF _ may_makeI [OF disjI1]])

lemma chmod_leaf:
  assumes ok: "fs_tree k" and l: "lookup k path = Some (d, s, old)"
    and fm: "vfs_ramfile_set_mode_abs path ((old AND NOT 0x1FF) OR (m AND 0x1FF)) (k_vfs k) = (r, v)"
  shows "r = Inr () \<Longrightarrow> fs_tree (k\<lparr>k_vfs := v\<rparr>)"
    and "r = Inl e \<Longrightarrow> vfs_ramdir_set_mode_abs path ((old AND NOT 0x1FF) OR (m AND 0x1FF)) v = (r', v') \<Longrightarrow> fs_tree (k\<lparr>k_vfs := v'\<rparr>)"
proof -
  note t = ok [unfolded fs_tree_def]
  note vok = tree_okD(1) [OF t]
  define p where "p = skip_slashes path"
  have look: "(case ramdir_mode (k_vfs k) p of Some m \<Rightarrow> Some m | None \<Rightarrow> ramfile_mode (k_vfs k) p) = Some q \<Longrightarrow> old = q"
    if "p \<noteq> []" for q
    using lookup_modes [OF vok that [unfolded p_def], of "k_archive k"] l
    by (auto simp: lookup_def p_def [symmetric] split: option.splits)
  show "fs_tree (k\<lparr>k_vfs := v\<rparr>)" if r: "r = Inr ()"
  proof -
    note fm = fm [unfolded r]
    have p: "p \<noteq> []" using fm by (auto simp: vfs_ramfile_set_mode_abs_def p_def simp del: dropWhile_eq_Nil_conv)
    obtain q where q: "ramfile_mode (k_vfs k) p = Some q" and
      f: "\<And>x. ramfile_mode v x = ramfile_mode (k_vfs k) x \<or> ramfile_mode (k_vfs k) x = Some q \<and>
          ramfile_mode v x = Some ((old AND NOT 0x1FF) OR (m AND 0x1FF))"
      using set_file_mode(2) [OF vok fm] unfolding p_def by blast
    have "ramdir_mode (k_vfs k) p = None"
      using tree_okD(2) [OF t, of p] q by (cases "ramdir_mode (k_vfs k) p") auto
    then have "old = q" using look [OF p] q by simp
    then have "map_option S_ISDIR (ramfile_mode v x) = map_option S_ISDIR (ramfile_mode (k_vfs k) x)" for x
      using f [of x] chmod_type [of old m] by auto
    moreover have "vfs_ok v" using vfs_ramfile_set_mode_ok [OF vok] fm by (metis snd_conv)
    ultimately show ?thesis
      using tree_chmod [OF t] set_file_mode(1) [OF vok fm] by (simp add: frame_simps)
  qed
  show "fs_tree (k\<lparr>k_vfs := v'\<rparr>)" if r: "r = Inl e"
    and dm: "vfs_ramdir_set_mode_abs path ((old AND NOT 0x1FF) OR (m AND 0x1FF)) v = (r', v')"
  proof -
    have v: "v = k_vfs k" using set_file_mode_err(1) [OF vok fm [unfolded r]] .
    note sd = set_dir_mode [OF vok dm [unfolded v]]
    have ok': "vfs_ok v'" using vfs_ramdir_set_mode_ok [OF vok] dm v by (metis snd_conv)
    show ?thesis
    proof (cases r')
      case (Inl e')
      then show ?thesis using sd(3) ok by (simp add: fs_tree_def)
    next
      case (Inr x)
      then have p: "p \<noteq> []" "ramdir_mode (k_vfs k) p \<noteq> None" "ramdir_mode v' = (ramdir_mode (k_vfs k))
          (p \<mapsto> (old AND NOT 0x1FF) OR (m AND 0x1FF))"
        using sd(2) dm by (auto simp: p_def vfs_ramdir_set_mode_abs_def simp del: dropWhile_eq_Nil_conv split: if_splits)
      then obtain q where q: "ramdir_mode (k_vfs k) p = Some q" by auto
      then have "old = q" using look [OF p(1)] by simp
      then show ?thesis
        using tree_chmod [OF t ok', unfolded p(3) sd(1)] q chmod_type [of old m] by (simp add: frame_simps)
    qed
  qed
qed

lemma fchmodat_tree: "fs_tree k \<Longrightarrow> fs_tree (snd (sys_fchmodat dirfd u mode flags k))"
  unfolding sys_fchmodat_def Let_def
  by (auto split: sum.split option.split prod.split intro: chmod_leaf)

lemma unlinkat_tree:
  assumes "fs_tree k"
  shows "fs_tree (snd (sys_unlinkat dirfd u flags k))"
proof -
  have d: "fs_tree (k\<lparr>k_vfs := v\<rparr>)" if "vfs_ramdir_remove p (k_vfs k) = (r, v)" for p r v
    using that assms tree_remove_dir [of "k_archive k" "k_vfs k" p v] vfs_dir_err(2) [of p "k_vfs k" _ v]
    by (cases r) (auto simp: fs_tree_def)
  have f: "fs_tree (k\<lparr>k_vfs := v\<rparr>)" if "vfs_ramfile_unlink p (k_vfs k) = (r, v)" for p r v
    using that assms tree_remove_file [of "k_archive k" "k_vfs k" p v] vfs_dir_err(4) [of p "k_vfs k" _ v]
    by (cases r) (auto simp: fs_tree_def)
  show ?thesis
    unfolding sys_unlinkat_def Let_def using assms
    by (auto simp del: dropWhile_eq_Nil_conv split: sum.split option.split prod.split intro: d f)
qed

lemma path_reads_tree:
  "fs_tree k \<Longrightarrow> fs_tree (snd (sys_getcwd b n k))" "fs_tree k \<Longrightarrow> fs_tree (snd (sys_chdir u k))"
  "fs_tree k \<Longrightarrow> fs_tree (snd (sys_newfstatat d u b fl k))" "fs_tree k \<Longrightarrow> fs_tree (snd (sys_readlinkat d u b n k))"
  by (auto simp: sys_getcwd_def sys_chdir_def sys_newfstatat_def sys_readlinkat_def Let_def frame_simps
      split: sum.split option.split)

end
