(* ===== verification/ProcText.thy ===== *)
theory ProcText
  imports Proc Netif
begin

text \<open>
  The text files under \<open>/proc\<close> that \<open>sys_fs.c\<close> generates on every read: process list, memory and
  network statistics, and the bounded text buffer they are built in. The buffer is the text written
  so far (the code's \<open>buf[0..*pos)\<close>); characters that do not fit are dropped.
\<close>

subsection \<open>The text buffer\<close>

definition buf_putc :: "nat \<Rightarrow> char \<Rightarrow> string \<Rightarrow> string" where
  "buf_putc cap c s = (if cap = 0 then s else if cap \<le> length s + 1 then s else s @ [c])"

fun buf_puts :: "nat \<Rightarrow> string \<Rightarrow> string \<Rightarrow> string" where
  "buf_puts cap [] s = s"
| "buf_puts cap (c # cs) s = (if cap \<le> length s + 1 then s else buf_puts cap cs (s @ [c]))"

definition digit_char :: "u64 \<Rightarrow> char" where
  "digit_char d = char_of (48 + unat d)"

text \<open>The digits, least significant first, in a temporary of \<open>t\<close> characters.\<close>

fun u64_digits :: "nat \<Rightarrow> u64 \<Rightarrow> string" where
  "u64_digits 0 v = []"
| "u64_digits (Suc t) v = (if v = 0 then [] else digit_char (v mod 10) # u64_digits t (v div 10))"

definition buf_put_u64 :: "nat \<Rightarrow> u64 \<Rightarrow> string \<Rightarrow> string" where
  "buf_put_u64 cap v s =
     (if cap \<le> length s + 1 then s
      else if v = 0 then buf_putc cap CHR ''0'' s
      else fold (buf_putc cap) (rev (u64_digits 32 v)) s)"

definition hex_digit :: "u8 \<Rightarrow> char" where
  "hex_digit d = ''0123456789abcdef'' ! unat d"

definition buf_put_hex_u8 :: "nat \<Rightarrow> u8 \<Rightarrow> string \<Rightarrow> string" where
  "buf_put_hex_u8 cap v s = buf_putc cap (hex_digit (v AND 0xF)) (buf_putc cap (hex_digit (drop_bit 4 v AND 0xF)) s)"

definition buf_put_hex_u16 :: "nat \<Rightarrow> u16 \<Rightarrow> string \<Rightarrow> string" where
  "buf_put_hex_u16 cap v s =
     buf_put_hex_u8 cap (ucast (v AND 0xFF)) (buf_put_hex_u8 cap (ucast (drop_bit 8 v AND 0xFF)) (buf_puts cap ''0x'' s))"

fun put_pairs :: "nat \<Rightarrow> u8 list \<Rightarrow> string \<Rightarrow> string" where
  "put_pairs cap (a # b # ip) s =
     (let s1 = buf_put_hex_u8 cap b (buf_put_hex_u8 cap a s)
      in if ip = [] then s1 else put_pairs cap ip (buf_putc cap CHR '':'' s1))"
| "put_pairs cap _ s = s"

definition buf_put_ipv6_hex :: "nat \<Rightarrow> u8 list \<Rightarrow> string \<Rightarrow> string" where
  "buf_put_ipv6_hex cap ip s = put_pairs cap (take 16 ip) s"

fun put_bytes_colon :: "nat \<Rightarrow> u8 list \<Rightarrow> string \<Rightarrow> string" where
  "put_bytes_colon cap (a # m) s =
     (let s1 = buf_put_hex_u8 cap a s
      in if m = [] then s1 else put_bytes_colon cap m (buf_putc cap CHR '':'' s1))"
| "put_bytes_colon cap [] s = s"

definition buf_put_mac :: "nat \<Rightarrow> u8 list \<Rightarrow> string \<Rightarrow> string" where
  "buf_put_mac cap mac s = put_bytes_colon cap (take 6 mac) s"

subsection \<open>The files\<close>

fun proc_state_char :: "proc_state \<Rightarrow> char" where
  "proc_state_char PROC_RUNNABLE = CHR ''R''"
| "proc_state_char PROC_WAITING = CHR ''W''"
| "proc_state_char PROC_ZOMBIE = CHR ''Z''"
| "proc_state_char PROC_SLEEPING = CHR ''S''"
| "proc_state_char PROC_BLOCKED_IO = CHR ''B''"
| "proc_state_char PROC_UNUSED = CHR ''U''"

definition put_proc :: "nat \<Rightarrow> proc \<Rightarrow> string \<Rightarrow> string" where
  "put_proc cap p s =
     (if p_state p = PROC_UNUSED then s
      else buf_putc cap CHR 0x0A (buf_puts cap (p_cwd p) (buf_putc cap CHR '' '' (buf_putc cap (proc_state_char (p_state p))
        (buf_putc cap CHR '' '' (buf_put_u64 cap (p_ppid p) (buf_putc cap CHR '' '' (buf_put_u64 cap (p_pid p) s))))))))"

definition ps_text :: "kernel \<Rightarrow> string" where
  "ps_text k = fold (put_proc 1024) (k_procs k) []"

definition put_kb :: "nat \<Rightarrow> string \<Rightarrow> u64 \<Rightarrow> string \<Rightarrow> string" where
  "put_kb cap label kb s = buf_puts cap ('' kB'' @ [CHR 0x0A]) (buf_put_u64 cap kb (buf_puts cap label s))"

definition meminfo_text :: "u64 \<Rightarrow> u64 \<Rightarrow> u64 \<Rightarrow> string" where
  "meminfo_text npages nfree psize =
     (let total_kb = npages * psize div 1024; free_kb = nfree * psize div 1024
      in put_kb 256 ''MemAvailable: '' free_kb (put_kb 256 ''MemFree: '' free_kb (put_kb 256 ''MemTotal: '' total_kb [])))"

abbreviation (input) tab :: char where
  "tab \<equiv> CHR 0x09"

abbreviation (input) newline :: char where
  "newline \<equiv> CHR 0x0A"

text \<open>A line of names and one of numbers, with tabs between.\<close>

fun tabbed :: "string list \<Rightarrow> string" where
  "tabbed [] = []"
| "tabbed [w] = w"
| "tabbed (w # ws) = w @ tab # tabbed ws"

fun put_nums :: "nat \<Rightarrow> u64 list \<Rightarrow> string \<Rightarrow> string" where
  "put_nums cap [] s = s"
| "put_nums cap [v] s = buf_put_u64 cap v s"
| "put_nums cap (v # vs) s = put_nums cap vs (buf_putc cap tab (buf_put_u64 cap v s))"

definition put_addr :: "nat \<Rightarrow> bool \<Rightarrow> u8 list \<Rightarrow> string \<Rightarrow> string" where
  "put_addr cap valid ip s =
     (let s1 = buf_putc cap tab s in if valid then buf_put_ipv6_hex cap ip s1 else buf_putc cap CHR ''-'' s1)"

definition put_netif :: "nat \<Rightarrow> netif \<Rightarrow> string \<Rightarrow> string" where
  "put_netif cap nif s =
     (let s1 = buf_putc cap tab (buf_puts cap (nf_name nif) s);
          s2 = buf_putc cap tab (buf_put_u64 cap (ucast (nf_mtu nif)) s1);
          s3 = buf_putc cap tab (buf_put_mac cap (nf_mac nif) s2);
          s4 = put_nums cap [nf_rx_frames nif, nf_rx_drops nif, nf_tx_frames nif, nf_tx_drops nif] s3;
          s5 = put_addr cap (nf_ll_valid nif) (nf_ll nif) s4;
          s6 = put_addr cap (nf_global_valid nif) (nf_global nif) s5;
          s7 = put_addr cap (nf_router_valid nif) (nf_router nif) s6;
          s8 = put_addr cap (nf_dns_valid nif) (nf_dns nif) s7
      in buf_putc cap newline s8)"

definition net_header :: string where
  "net_header = tabbed [''iface'', ''mtu'', ''mac'', ''rx_frames'', ''rx_drops'', ''tx_frames'', ''tx_drops'', ''ipv6_ll'',
     ''ipv6_global'', ''ipv6_router_ll'', ''ipv6_dns''] @ [newline]"

definition usb_header :: string where
  "usb_header = tabbed [''usbnet'', ''rx_poll'', ''rx_nak'', ''rx_err'', ''rx_xfers'', ''rx_bytes'', ''rndis_ok'',
     ''rndis_drop_small'', ''rndis_drop_type'', ''rndis_drop_bounds'', ''last_got'', ''last_msg_type'',
     ''last_data_off'', ''last_data_len'', ''last_ethertype''] @ [newline]"

definition put_usb :: "nat \<Rightarrow> usb_net_debug \<Rightarrow> string \<Rightarrow> string" where
  "put_usb cap u s =
     (let s1 = buf_puts cap (''usbnet'' @ [tab]) (buf_puts cap usb_header s);
          s2 = put_nums cap [ub_rx_poll_calls u, ub_rx_naks u, ub_rx_errors u, ub_rx_usb_xfers u, ub_rx_usb_bytes u,
            ub_rx_rndis_ok u, ub_rx_rndis_drop_small u, ub_rx_rndis_drop_type u, ub_rx_rndis_drop_bounds u,
            ucast (ub_last_got u), ucast (ub_last_msg_type u), ucast (ub_last_data_off u), ucast (ub_last_data_len u)] s1
      in buf_putc cap newline (buf_put_hex_u16 cap (ub_last_ethertype u) (buf_putc cap tab s2)))"

definition ipv6_header :: string where
  "ipv6_header = tabbed [''ipv6dbg'', ''rx_ipv6'', ''rx_drop_short'', ''rx_drop_len'', ''rx_drop_csum'', ''rx_udp'',
     ''rx_udp_delivered'', ''rx_icmpv6'', ''rx_ra'', ''ra_drop_hlim'', ''ra_drop_src'', ''ra_drop_short'', ''rx_ns'',
     ''rx_na'', ''rx_echo_req'', ''rx_echo_reply'', ''tx_rs'', ''tx_ns'', ''tx_echo_req'', ''ping6_calls'',
     ''ping6_eagain'', ''ping6_ebusy'', ''ping6_sent_echo'', ''ping6_sent_ns'', ''last_icmp_type'', ''last_hlim''] @ [newline]"

definition put_ipv6 :: "nat \<Rightarrow> ipv6_debug \<Rightarrow> string \<Rightarrow> string" where
  "put_ipv6 cap d s =
     (let s1 = buf_puts cap (''ipv6dbg'' @ [tab]) (buf_puts cap ipv6_header s)
      in buf_putc cap newline (put_nums cap [db_rx_ipv6_packets d, db_rx_drop_short d, db_rx_drop_len d, db_rx_drop_csum d,
           db_rx_udp d, db_rx_udp_delivered d, db_rx_icmpv6 d, db_rx_ra d, db_rx_ra_drop_hlim d, db_rx_ra_drop_src d,
           db_rx_ra_drop_short d, db_rx_ns d, db_rx_na d, db_rx_echo_req d, db_rx_echo_reply d, db_tx_rs d, db_tx_ns d,
           db_tx_echo_req d, db_ping6_calls d, db_ping6_eagain d, db_ping6_ebusy d, db_ping6_sent_echo d,
           db_ping6_sent_ns d, ucast (db_last_icmp_type d), ucast (db_last_hop_limit d)] s1))"

definition net_text :: "netif list \<Rightarrow> usb_net_debug option \<Rightarrow> ipv6_debug option \<Rightarrow> string" where
  "net_text ifs udbg vdbg =
     (let s1 = fold (put_netif 2048) ifs (buf_puts 2048 net_header []);
          s2 = (case udbg of None \<Rightarrow> s1 | Some u \<Rightarrow> put_usb 2048 u s1)
      in case vdbg of None \<Rightarrow> s2 | Some d \<Rightarrow> put_ipv6 2048 d s2)"

end
