(* ===== verification/SysFile.thy ===== *)
theory SysFile
  imports PathTree ProcText TaskRun
begin

text \<open>
  The calls of \<open>kernel-aarch64/sys_fs.c\<close> that work on file descriptors: \<open>openat\<close>, \<open>close\<close>, \<open>read\<close>,
  \<open>write\<close>, \<open>getdents64\<close>, \<open>lseek\<close>, \<open>dup3\<close>, \<open>pipe2\<close> and \<open>ioctl\<close>. What a call needs from outside the
  kernel record comes as arguments: the network state shown in \<open>/proc/net\<close>, and, for a read that
  blocks, the observations of every turn of its retry loop.
\<close>

definition O_ACCMODE :: u64 where "O_ACCMODE = 3"
definition O_WRONLY :: u64 where "O_WRONLY = 1"
definition O_RDWR :: u64 where "O_RDWR = 2"
definition O_CREAT :: u64 where "O_CREAT = 0x40"
definition O_EXCL :: u64 where "O_EXCL = 0x80"
definition O_TRUNC :: u64 where "O_TRUNC = 0x200"

definition set_fdt :: "fd_table \<Rightarrow> kernel \<Rightarrow> kernel" where
  "set_fdt t k = set_cur (\<lambda>p. p\<lparr>p_fdt := t\<rparr>) k"

definition desc_of :: "u64 \<Rightarrow> kernel \<Rightarrow> nat option" where
  "desc_of fd k = fd_get_desc_idx (p_fdt (cur_proc k)) fd (k_fd k)"

definition kind_of :: "nat \<Rightarrow> kernel \<Rightarrow> fdesc" where
  "kind_of d k = fd_kind (fs_descs (k_fd k) ! d)"

text \<open>Every store to a field of \<open>g_descs[d].u\<close>.\<close>

definition set_kind :: "nat \<Rightarrow> fdesc \<Rightarrow> kernel \<Rightarrow> kernel" where
  "set_kind d kd k =
     k\<lparr>k_fd := (k_fd k)\<lparr>fs_descs := upd_at d (\<lambda>x. x\<lparr>fd_kind := kd\<rparr>) (fs_descs (k_fd k))\<rparr>\<rparr>"

subsection \<open>\<open>openat\<close> and \<open>close\<close>\<close>

text \<open>
  The sequence every branch of \<open>openat\<close> ends with: take a free description, make it \<open>kd\<close>, give it
  the least descriptor from 3 on, and drop the reference of its creation.
\<close>

definition open_desc :: "fdesc \<Rightarrow> kernel \<Rightarrow> u64 \<times> kernel" where
  "open_desc kd k =
     (case desc_alloc (k_fd k) of
        (None, s) \<Rightarrow> (sys_err EMFILE, k\<lparr>k_fd := s\<rparr>)
      | (Some d, s) \<Rightarrow>
          (case fd_alloc_into (p_fdt (cur_proc k)) 3 d (desc_setup d kd s) of
             (fd, t, s') \<Rightarrow>
               let k' = (set_fdt t k)\<lparr>k_fd := desc_decref d s'\<rparr>
               in case fd of None \<Rightarrow> (sys_err EMFILE, k') | Some n \<Rightarrow> (word_of_nat n, k')))"

definition proc_node :: "string \<Rightarrow> nat option" where
  "proc_node path =
     (if path = ''/proc'' \<or> path = ''/proc/'' then Some 1
      else if path = ''/proc/ps'' then Some 2
      else if path = ''/proc/meminfo'' then Some 3
      else if path = ''/proc/net'' then Some 4
      else None)"

definition wants_excl :: "u64 \<Rightarrow> bool" where
  "wants_excl flags \<longleftrightarrow> flags AND (O_CREAT OR O_EXCL) = O_CREAT OR O_EXCL"

definition open_ramfile :: "nat \<Rightarrow> u64 \<Rightarrow> kernel \<Rightarrow> u64 \<times> kernel" where
  "open_ramfile i flags k =
     (if wants_excl flags then (sys_err EEXIST, k)
      else let k1 = (if flags AND O_TRUNC \<noteq> 0 then k\<lparr>k_vfs := snd (vfs_ramfile_set_size i 0 (k_vfs k))\<rparr> else k)
        in open_desc (FDESC_RAMFILE i 0) k1)"

definition open_create :: "string \<Rightarrow> u64 \<Rightarrow> kernel \<Rightarrow> u64 \<times> kernel" where
  "open_create path mode k =
     (if path = [slash] then (sys_err EISDIR, k)
      else case abs_path_to_no_slash_trim path MAX_PATH of
        Inl e \<Rightarrow> (sys_err e, k)
      | Inr p \<Rightarrow>
          (case parent_check k path of
             Inl e \<Rightarrow> (sys_err e, k)
           | Inr () \<Rightarrow>
               (case vfs_ramfile_create p (S_IFREG OR (ucast mode AND 0x1FF)) (k_vfs k) of
                  (Inl e, v) \<Rightarrow> (sys_err e, k\<lparr>k_vfs := v\<rparr>)
                | (Inr (), v) \<Rightarrow>
                    (case vfs_ramfile_find_abs path v of
                       Inl e \<Rightarrow> (sys_err ENOENT, k\<lparr>k_vfs := v\<rparr>)
                     | Inr i \<Rightarrow> open_desc (FDESC_RAMFILE i 0) (k\<lparr>k_vfs := v\<rparr>)))))"

definition open_existing :: "string \<Rightarrow> u64 \<Rightarrow> u8 list \<times> u64 \<times> u32 \<Rightarrow> kernel \<Rightarrow> u64 \<times> kernel" where
  "open_existing path flags found k =
     (case found of (data, sz, imode) \<Rightarrow>
        if wants_excl flags then (sys_err EEXIST, k)
        else if S_ISREG imode \<and> (flags AND O_ACCMODE = O_WRONLY \<or> flags AND O_ACCMODE = O_RDWR)
        then (sys_err EROFS, k)
        else open_desc (FDESC_INITRAMFS data sz 0 imode (S_ISDIR imode)
               (if S_ISDIR imode then take 127 (skip_slashes path) else [])) k)"

definition sys_openat :: "u64 \<Rightarrow> u64 \<Rightarrow> u64 \<Rightarrow> u64 \<Rightarrow> kernel \<Rightarrow> u64 \<times> kernel" where
  "sys_openat dirfd pathname_user flags mode k =
     (if dirfd \<noteq> AT_FDCWD then (sys_err ENOSYS, k)
      else case user_path_followed k pathname_user of
        Inl e \<Rightarrow> (sys_err e, k)
      | Inr path \<Rightarrow>
          (case proc_node path of
             Some node \<Rightarrow>
               (if flags AND O_ACCMODE \<noteq> 0 then (sys_err EROFS, k) else open_desc (FDESC_PROC node 0) k)
           | None \<Rightarrow>
               (case vfs_ramfile_find_abs path (k_vfs k) of
                  Inr i \<Rightarrow> open_ramfile i flags k
                | Inl e \<Rightarrow>
                    (case lookup k path of
                       None \<Rightarrow> (if flags AND O_CREAT = 0 then (sys_err ENOENT, k) else open_create path mode k)
                     | Some found \<Rightarrow> open_existing path flags found k))))"

definition sys_close :: "u64 \<Rightarrow> kernel \<Rightarrow> u64 \<times> kernel" where
  "sys_close fd k =
     (if MAX_FDS \<le> unat fd then (sys_err EBADF, k)
      else if desc_of fd k = None then (sys_err EBADF, k)
      else case fd_close (p_fdt (cur_proc k)) fd (k_fd k) of
        (t, s) \<Rightarrow> (0, (set_fdt t k)\<lparr>k_fd := s\<rparr>))"

subsection \<open>\<open>dup3\<close>, \<open>pipe2\<close> and \<open>ioctl\<close>\<close>

definition sys_dup3 :: "u64 \<Rightarrow> u64 \<Rightarrow> u64 \<Rightarrow> kernel \<Rightarrow> u64 \<times> kernel" where
  "sys_dup3 oldfd newfd flags k =
     (if flags \<noteq> 0 then (sys_err EINVAL, k)
      else if MAX_FDS \<le> unat oldfd \<or> MAX_FDS \<le> unat newfd then (sys_err EBADF, k)
      else case desc_of oldfd k of
        None \<Rightarrow> (sys_err EBADF, k)
      | Some d \<Rightarrow>
          if oldfd = newfd then (newfd, k)
          else case fd_close (p_fdt (cur_proc k)) newfd (k_fd k) of
            (t, s) \<Rightarrow> (newfd, (set_fdt (t[unat newfd := Some d]) k)\<lparr>k_fd := desc_incref d s\<rparr>))"

text \<open>A description for one end of a fresh pipe.\<close>

definition pipe_desc :: "nat \<Rightarrow> nat \<Rightarrow> pipe_end \<Rightarrow> fd_state \<Rightarrow> fd_state" where
  "pipe_desc d pid e s =
     (let s' = desc_setup d (FDESC_PIPE pid e) s in s'\<lparr>fs_pipes := pipe_on_desc_incref pid e (fs_pipes s')\<rparr>)"

definition close_opt :: "nat option \<Rightarrow> fd_table \<times> fd_state \<Rightarrow> fd_table \<times> fd_state" where
  "close_opt fd ts = (case fd of None \<Rightarrow> ts | Some n \<Rightarrow> fd_close (fst ts) (word_of_nat n) (snd ts))"

definition pipe_install :: "nat \<Rightarrow> nat \<Rightarrow> nat \<Rightarrow> u64 \<Rightarrow> kernel \<Rightarrow> u64 \<times> kernel" where
  "pipe_install pid rd wd pipefd_user k =
     (let s = pipe_desc wd pid PIPE_END_WRITE (pipe_desc rd pid PIPE_END_READ (k_fd k)) in
      case fd_alloc_into (p_fdt (cur_proc k)) 0 rd s of
        (rfd, t1, s1) \<Rightarrow>
      (case fd_alloc_into t1 0 wd s1 of
        (wfd, t2, s2) \<Rightarrow>
          let s3 = desc_decref wd (desc_decref rd s2) in
          case (rfd, wfd) of
            (Some r, Some w) \<Rightarrow>
              (case write_bytes_to_user (user_base k) pipefd_user (bytes_of_u32 (word_of_nat r) @ bytes_of_u32 (word_of_nat w)) (k_mem k) of
                 Some m \<Rightarrow> (0, (set_fdt t2 k)\<lparr>k_fd := s3, k_mem := m\<rparr>)
               | None \<Rightarrow>
                   (case close_opt wfd (close_opt rfd (t2, s3)) of
                      (t4, s4) \<Rightarrow> (sys_err EFAULT, (set_fdt t4 k)\<lparr>k_fd := s4\<rparr>)))
          | _ \<Rightarrow>
              (case close_opt wfd (close_opt rfd (t2, s3)) of
                 (t4, s4) \<Rightarrow> (sys_err EMFILE, (set_fdt t4 k)\<lparr>k_fd := s4\<lparr>fs_pipes := pipe_abort pid (fs_pipes s4)\<rparr>\<rparr>))))"

definition sys_pipe2 :: "u64 \<Rightarrow> u64 \<Rightarrow> kernel \<Rightarrow> u64 \<times> kernel" where
  "sys_pipe2 pipefd_user flags k =
     (if flags \<noteq> 0 then (sys_err ENOSYS, k)
      else if \<not> user_range_ok pipefd_user 8 then (sys_err EFAULT, k)
      else case pipe_create (fs_pipes (k_fd k)) of
        (Inl e, ps) \<Rightarrow> (sys_err EMFILE, k\<lparr>k_fd := (k_fd k)\<lparr>fs_pipes := ps\<rparr>\<rparr>)
      | (Inr pid, ps) \<Rightarrow>
          (case desc_alloc ((k_fd k)\<lparr>fs_pipes := ps\<rparr>) of
             (rdesc, s1) \<Rightarrow>
           (case desc_alloc s1 of
             (wdesc, s2) \<Rightarrow>
               (case (rdesc, wdesc) of
                  (Some rd, Some wd) \<Rightarrow> pipe_install pid rd wd pipefd_user (k\<lparr>k_fd := s2\<rparr>)
                | _ \<Rightarrow>
                    let s3 = (case rdesc of None \<Rightarrow> s2 | Some rd \<Rightarrow> desc_clear rd s2);
                        s4 = (case wdesc of None \<Rightarrow> s3 | Some wd \<Rightarrow> desc_clear wd s3)
                    in (sys_err EMFILE, k\<lparr>k_fd := s4\<lparr>fs_pipes := pipe_abort pid (fs_pipes s4)\<rparr>\<rparr>)))))"

definition TCGETS :: u64 where "TCGETS = 0x5401"
definition TIOCGWINSZ :: u64 where "TIOCGWINSZ = 0x5413"
definition TIOCGPGRP :: u64 where "TIOCGPGRP = 0x540F"

text \<open>The three requests differ in the bytes they put at \<open>argp\<close>.\<close>

definition ioctl_put :: "u64 \<Rightarrow> u8 list \<Rightarrow> kernel \<Rightarrow> u64 \<times> kernel" where
  "ioctl_put argp_user bs k =
     (if argp_user = 0 then (sys_err EFAULT, k)
      else case write_bytes_to_user (user_base k) argp_user bs (k_mem k) of
        None \<Rightarrow> (sys_err EFAULT, k)
      | Some m \<Rightarrow> (0, k\<lparr>k_mem := m\<rparr>))"

definition sys_ioctl :: "u64 \<Rightarrow> u64 \<Rightarrow> u64 \<Rightarrow> kernel \<Rightarrow> u64 \<times> kernel" where
  "sys_ioctl fd req argp_user k =
     (case desc_of fd k of
        None \<Rightarrow> (sys_err EBADF, k)
      | Some d \<Rightarrow>
          if kind_of d k \<noteq> FDESC_UART then (sys_err ENOTTY, k)
          else if req = TCGETS then ioctl_put argp_user (replicate 60 0) k
          else if req = TIOCGWINSZ
          then ioctl_put argp_user (bytes_of_u16 24 @ bytes_of_u16 80 @ bytes_of_u16 0 @ bytes_of_u16 0) k
          else if req = TIOCGPGRP then ioctl_put argp_user (bytes_of_u32 (ucast (p_pid (cur_proc k)))) k
          else (sys_err ENOTTY, k))"

subsection \<open>\<open>read\<close>\<close>

text \<open>
  The part common to every file with an offset: copy from the offset to the user buffer and advance.
  \<open>kd\<close> is the description's kind as a function of its offset.
\<close>

definition read_at :: "nat \<Rightarrow> (u64 \<Rightarrow> fdesc) \<Rightarrow> u8 list \<Rightarrow> u64 \<Rightarrow> u64 \<Rightarrow> u64 \<Rightarrow> u64 \<Rightarrow> kernel \<Rightarrow> u64 \<times> kernel" where
  "read_at d kd data sz off buf_user len k =
     (if sz \<le> off then (0, k)
      else let remain = sz - off; n = (if len < remain then len else remain) in
        (n, (set_kind d (kd (off + n)) k)
              \<lparr>k_mem := store_bytes (user_base k) buf_user (take (unat n) (drop (unat off) data)) (k_mem k)\<rparr>))"

text \<open>What \<open>/proc/net\<close> reports: interfaces and debug counters.\<close>

record net_view =
  nv_ifs :: "netif list"
  nv_usb :: "usb_net_debug option"
  nv_ipv6 :: "ipv6_debug option"

definition proc_text :: "net_view \<Rightarrow> nat \<Rightarrow> kernel \<Rightarrow> string option" where
  "proc_text nv node k =
     (if node = 2 then Some (ps_text k)
      else if node = 3 then Some (meminfo_text (word_of_nat (pm_total (k_pmm k))) (word_of_nat (pm_free (k_pmm k))) PMM_PAGE_SIZE)
      else if node = 4 then Some (net_text (nv_ifs nv) (nv_usb nv) (nv_ipv6 nv))
      else None)"

text \<open>\<open>console_in_try_getc\<close> on the state of the kernel: poll the devices, then pop.\<close>

definition console_try_getc :: "usb_poll \<Rightarrow> pass \<Rightarrow> kernel \<Rightarrow> char option \<times> kernel" where
  "console_try_getc usb ob k =
     (let k1 = kernel_poll usb ob k in
      case ring_pop (k_con k1) of None \<Rightarrow> (None, k1) | Some (c, con) \<Rightarrow> (Some c, k1\<lparr>k_con := con\<rparr>))"

text \<open>The character is there: drain what is buffered, without polling again.\<close>

definition uart_finish :: "char \<Rightarrow> u64 \<Rightarrow> u64 \<Rightarrow> kernel \<Rightarrow> u64 \<times> kernel" where
  "uart_finish c buf_user len k =
     (let k1 = (if pr_on (p_read (cur_proc k)) then set_cur (\<lambda>p. p\<lparr>p_read := read_clear\<rparr>) k else k) in
      case drain console_in_pop (unat len - 1) (k_con k1) of
        (cs, con) \<Rightarrow>
          (word_of_nat (1 + length cs),
           k1\<lparr>k_con := con, k_mem := store_bytes (user_base k1) buf_user (map char_byte (c # cs)) (k_mem k1)\<rparr>))"

definition uart_park :: "regs \<Rightarrow> u64 \<Rightarrow> u64 \<Rightarrow> u64 \<Rightarrow> kernel \<Rightarrow> kernel" where
  "uart_park r fd buf_user len k =
     set_cur (\<lambda>p. p\<lparr>p_tf := fst r, p_elr := snd r,
       p_read := \<lparr>pr_on = True, pr_buf = buf_user, pr_len = len, pr_fd = fd\<rparr>, p_state := PROC_BLOCKED_IO\<rparr>) k"

text \<open>The loop around \<open>retry_first_byte\<close>; one element of the list per turn.\<close>

fun read_uart :: "(pass \<times> sched_in) list \<Rightarrow> regs \<Rightarrow> u64 \<Rightarrow> u64 \<Rightarrow> u64 \<Rightarrow> kernel \<Rightarrow> sys_outcome" where
  "read_uart [] r fd buf_user len k = Waits"
| "read_uart ((ob, e) # turns) r fd buf_user len k =
     (case console_try_getc (si_usb e) ob k of
        (Some c, k1) \<Rightarrow> (case uart_finish c buf_user len k1 of (n, k2) \<Rightarrow> Returns n r k2)
      | (None, k1) \<Rightarrow>
          (case resched e (uart_park r fd buf_user len k1) of
             None \<Rightarrow> Waits
           | Some (Some r', k2) \<Rightarrow> Returns SYSCALL_SWITCHED r' k2
           | Some (None, k2) \<Rightarrow>
               read_uart turns r fd buf_user len
                 (if p_state (k_procs k2 ! k_cur k) = PROC_BLOCKED_IO
                  then set_proc (k_cur k) (\<lambda>p. p\<lparr>p_state := PROC_RUNNABLE\<rparr>) k2 else k2)))"

text \<open>Every kind but the console, where a read returns at once.\<close>

definition read_now :: "net_view \<Rightarrow> nat \<Rightarrow> u64 \<Rightarrow> u64 \<Rightarrow> kernel \<Rightarrow> u64 \<times> kernel" where
  "read_now nv d buf_user len k =
     (case kind_of d k of
        FDESC_PIPE pid e \<Rightarrow>
          (if e \<noteq> PIPE_END_READ then (sys_err EBADF, k)
           else case pipe_read pid buf_user len (fs_pipes (k_fd k)) of
               (Inl er, ps) \<Rightarrow> (sys_err er, k\<lparr>k_fd := (k_fd k)\<lparr>fs_pipes := ps\<rparr>\<rparr>)
             | (Inr bs, ps) \<Rightarrow>
                 (word_of_nat (length bs), k\<lparr>k_fd := (k_fd k)\<lparr>fs_pipes := ps\<rparr>,
                    k_mem := store_bytes (user_base k) buf_user bs (k_mem k)\<rparr>))
      | FDESC_RAMFILE i off \<Rightarrow>
          (case vfs_ramfile_get i (k_vfs k) of
             Inl er \<Rightarrow> (sys_err EBADF, k)
           | Inr (data, sz, cap, mode) \<Rightarrow> read_at d (FDESC_RAMFILE i) data sz off buf_user len k)
      | FDESC_PROC node off \<Rightarrow>
          (case proc_text nv node k of
             None \<Rightarrow> (sys_err EBADF, k)
           | Some s \<Rightarrow> read_at d (FDESC_PROC node) (map char_byte s) (word_of_nat (length s)) off buf_user len k)
      | FDESC_INITRAMFS data sz off mode is_dir dir_path \<Rightarrow>
          (if is_dir then (sys_err EINVAL, k)
           else read_at d (\<lambda>off. FDESC_INITRAMFS data sz off mode is_dir dir_path) data sz off buf_user len k)
      | _ \<Rightarrow> (sys_err EBADF, k))"

definition sys_read ::
  "net_view \<Rightarrow> (pass \<times> sched_in) list \<Rightarrow> regs \<Rightarrow> u64 \<Rightarrow> u64 \<Rightarrow> u64 \<Rightarrow> kernel \<Rightarrow> sys_outcome"
where
  "sys_read nv turns r fd buf_user len k =
     (case desc_of fd k of
        None \<Rightarrow> Returns (sys_err EBADF) r k
      | Some d \<Rightarrow>
          if \<not> user_range_ok buf_user len then Returns (sys_err EFAULT) r k
          else if len = 0 then Returns 0 r k
          else if kind_of d k = FDESC_UART then read_uart turns r fd buf_user len k
          else case read_now nv d buf_user len k of (n, k') \<Rightarrow> Returns n r k')"

subsection \<open>\<open>write\<close>\<close>

definition write_ramfile :: "nat \<Rightarrow> nat \<Rightarrow> u64 \<Rightarrow> u64 \<Rightarrow> u64 \<Rightarrow> kernel \<Rightarrow> u64 \<times> kernel" where
  "write_ramfile d i off buf len k =
     (if \<not> user_range_ok buf len then (sys_err EFAULT, k)
      else if len = 0 then (0, k)
      else case vfs_ramfile_get i (k_vfs k) of
        Inl e \<Rightarrow> (sys_err EBADF, k)
      | Inr (data, sz, cap, mode) \<Rightarrow>
          if cap \<le> off then (sys_err EINVAL, k)
          else let space = cap - off; n = (if len < space then len else space);
                   v1 = vfs_ramfile_store i (unat off) (load_bytes (user_base k) (k_mem k) buf (unat n)) (k_vfs k);
                   v2 = (if sz < off + n then snd (vfs_ramfile_set_size i (off + n) v1) else v1)
            in (n, (set_kind d (FDESC_RAMFILE i (off + n)) k)\<lparr>k_vfs := v2\<rparr>))"

text \<open>The second component is what the console shows.\<close>

definition sys_write :: "u64 \<Rightarrow> u64 \<Rightarrow> u64 \<Rightarrow> kernel \<Rightarrow> u64 \<times> u8 list \<times> kernel" where
  "sys_write fd buf len k =
     (case desc_of fd k of
        None \<Rightarrow> (sys_err EBADF, [], k)
      | Some d \<Rightarrow>
          (case kind_of d k of
             FDESC_UART \<Rightarrow> (len, load_bytes (user_base k) (k_mem k) buf (unat len), k)
           | FDESC_PIPE pid e \<Rightarrow>
               (if e \<noteq> PIPE_END_WRITE then (sys_err EBADF, [], k)
                else case pipe_write pid buf (\<lambda>i. k_mem k (user_pa (user_base k) (buf + word_of_nat i))) len (fs_pipes (k_fd k)) of
                    (Inl er, ps) \<Rightarrow> (sys_err er, [], k\<lparr>k_fd := (k_fd k)\<lparr>fs_pipes := ps\<rparr>\<rparr>)
                  | (Inr n, ps) \<Rightarrow> (word_of_nat n, [], k\<lparr>k_fd := (k_fd k)\<lparr>fs_pipes := ps\<rparr>\<rparr>))
           | FDESC_RAMFILE i off \<Rightarrow> (case write_ramfile d i off buf len k of (n, k') \<Rightarrow> (n, [], k'))
           | _ \<Rightarrow> (sys_err EBADF, [], k)))"

subsection \<open>\<open>getdents64\<close>\<close>

record dents_ctx =
  dc_skip :: u64
  dc_emitted :: u64
  dc_buf_user :: u64
  dc_buf_len :: u64
  dc_pos :: u64
  dc_mem :: memory

text \<open>The complement of a 32-bit constant is zero-extended: the mask clears the upper half too.\<close>

definition align8_u64 :: "u64 \<Rightarrow> u64" where
  "align8_u64 x = (x + 7) AND 0xFFFFFFF8"

definition dirent_type :: "u32 \<Rightarrow> u8" where
  "dirent_type mode = (if S_ISDIR mode then 4 else if S_ISREG mode then 8 else 0)"

definition dirent_bytes :: "u64 \<Rightarrow> u64 \<Rightarrow> string \<Rightarrow> u32 \<Rightarrow> u8 list" where
  "dirent_bytes next_off reclen name mode =
     bytes_of_u64 1 @ bytes_of_u64 next_off @ bytes_of_u16 (ucast reclen) @ [dirent_type mode] @
     map char_byte name @ [0] @ replicate (unat reclen - (19 + length name + 1)) 0"

definition dents_emit_cb :: "u64 \<Rightarrow> string \<Rightarrow> u32 \<Rightarrow> dents_ctx \<Rightarrow> int \<times> dents_ctx" where
  "dents_emit_cb base name mode dc =
     (if dc_emitted dc < dc_skip dc then (0, dc\<lparr>dc_emitted := dc_emitted dc + 1\<rparr>)
      else let reclen = align8_u64 (word_of_nat (8 + 8 + 2 + 1 + (length name + 1))) in
        if dc_buf_len dc < dc_pos dc + reclen then (1, dc)
        else (0, dc\<lparr>dc_mem := store_bytes base (dc_buf_user dc + dc_pos dc)
                      (dirent_bytes (dc_emitted dc + 1) reclen name mode) (dc_mem dc),
                    dc_pos := dc_pos dc + reclen, dc_emitted := dc_emitted dc + 1\<rparr>))"

definition dents_start :: "u64 \<Rightarrow> u64 \<Rightarrow> u64 \<Rightarrow> kernel \<Rightarrow> dents_ctx" where
  "dents_start off dirp_user count k =
     \<lparr>dc_skip = off, dc_emitted = 0, dc_buf_user = dirp_user, dc_buf_len = count, dc_pos = 0, dc_mem = k_mem k\<rparr>"

definition proc_entries :: "(string \<times> u32) list" where
  "proc_entries = [(''.'', S_IFDIR), (''..'', S_IFDIR), (''ps'', S_IFREG), (''meminfo'', S_IFREG), (''net'', S_IFREG)]"

definition sys_getdents64 :: "u64 \<Rightarrow> u64 \<Rightarrow> u64 \<Rightarrow> kernel \<Rightarrow> u64 \<times> kernel" where
  "sys_getdents64 fd dirp_user count k =
     (case desc_of fd k of
        None \<Rightarrow> (sys_err EBADF, k)
      | Some d \<Rightarrow>
          (case kind_of d k of
             FDESC_PROC node off \<Rightarrow>
               (if node \<noteq> 1 then (sys_err EBADF, k)
                else if \<not> user_range_ok dirp_user count then (sys_err EFAULT, k)
                else let dc = fold (\<lambda>(name, mode) dc. snd (dents_emit_cb (user_base k) name mode dc)) proc_entries
                       (dents_start off dirp_user count k)
                  in (dc_pos dc,
                      (if dc_skip dc < dc_emitted dc then set_kind d (FDESC_PROC node (dc_emitted dc)) k else k)
                        \<lparr>k_mem := dc_mem dc\<rparr>))
           | FDESC_INITRAMFS data sz off mode is_dir dir_path \<Rightarrow>
               (if \<not> is_dir then (sys_err EBADF, k)
                else if \<not> user_range_ok dirp_user count then (sys_err EFAULT, k)
                else let dc0 = dents_start off dirp_user count k;
                         dc1 = (if dir_path = [] then snd (dents_emit_cb (user_base k) ''proc'' S_IFDIR dc0) else dc0)
                  in case vfs_list_dir (k_archive k) (k_vfs k) dir_path (dents_emit_cb (user_base k)) dc1 of
                    (rc, dc) \<Rightarrow>
                      if rc \<noteq> 0 then (sys_err ENOENT, k\<lparr>k_mem := dc_mem dc\<rparr>)
                      else (dc_pos dc,
                        (if dc_skip dc < dc_emitted dc
                         then set_kind d (FDESC_INITRAMFS data sz (dc_emitted dc) mode is_dir dir_path) k else k)
                          \<lparr>k_mem := dc_mem dc\<rparr>))
           | _ \<Rightarrow> (sys_err EBADF, k)))"

subsection \<open>\<open>lseek\<close>\<close>

text \<open>\<open>off\<close> is signed; \<open>lim\<close> is the size that \<open>SEEK_END\<close> counts from, absent for \<open>/proc\<close>.\<close>

definition seek_target :: "u64 \<Rightarrow> u64 \<Rightarrow> u64 \<Rightarrow> u64 option \<Rightarrow> u64 option" where
  "seek_target whence off cur lim =
     (if whence = 0 then (if sint off < 0 then None else Some off)
      else if whence = 1 then (if sint off < 0 \<and> cur < - off then None else Some (cur + off))
      else case lim of
        Some sz \<Rightarrow> (if whence = 2 then (if sint off < 0 \<and> sz < - off then None else Some (sz + off)) else None)
      | None \<Rightarrow> None)"

definition seek_file :: "nat \<Rightarrow> (u64 \<Rightarrow> fdesc) \<Rightarrow> u64 \<Rightarrow> u64 \<Rightarrow> u64 \<Rightarrow> u64 \<Rightarrow> kernel \<Rightarrow> u64 \<times> kernel" where
  "seek_file d kd whence off cur sz k =
     (case seek_target whence off cur (Some sz) of
        None \<Rightarrow> (sys_err EINVAL, k)
      | Some newoff \<Rightarrow> if sz < newoff then (sys_err EINVAL, k) else (newoff, set_kind d (kd newoff) k))"

definition sys_lseek :: "u64 \<Rightarrow> u64 \<Rightarrow> u64 \<Rightarrow> kernel \<Rightarrow> u64 \<times> kernel" where
  "sys_lseek fd off whence k =
     (case desc_of fd k of
        None \<Rightarrow> (sys_err EBADF, k)
      | Some d \<Rightarrow>
          (case kind_of d k of
             FDESC_PROC node cur \<Rightarrow>
               (case seek_target whence off cur None of
                  None \<Rightarrow> (sys_err EINVAL, k)
                | Some newoff \<Rightarrow> (newoff, set_kind d (FDESC_PROC node newoff) k))
           | FDESC_RAMFILE i cur \<Rightarrow>
               (case vfs_ramfile_get i (k_vfs k) of
                  Inl e \<Rightarrow> (sys_err EBADF, k)
                | Inr (data, sz, cap, mode) \<Rightarrow> seek_file d (FDESC_RAMFILE i) whence off cur sz k)
           | FDESC_INITRAMFS data sz cur mode is_dir dir_path \<Rightarrow>
               (if is_dir then (sys_err EBADF, k)
                else seek_file d (\<lambda>off. FDESC_INITRAMFS data sz off mode is_dir dir_path) whence off cur sz k)
           | _ \<Rightarrow> (sys_err EBADF, k)))"

end
