(* ===== verification/FdCalls.thy ===== *)
theory FdCalls
  imports SysFile
begin

text \<open>
  What the descriptor calls of \<open>SysFile\<close> keep: every reference count is exact after each of them, on
  every path including the ones that run out of descriptors half way, and the overlay stays a tree.
\<close>

definition fd_task :: "kernel \<Rightarrow> bool" where
  "fd_task k \<longleftrightarrow> fds_exact k \<and> k_cur k < MAX_PROCS \<and> p_state (cur_proc k) \<noteq> PROC_UNUSED"

text \<open>The tables of all processes, with the running one's replaced.\<close>

definition tabs_with :: "fd_table \<Rightarrow> kernel \<Rightarrow> fd_table list" where
  "tabs_with t k = (proc_tabs k)[k_cur k := t]"

lemma fd_taskD:
  assumes "fd_task k"
  shows "fd_inv no_held (proc_tabs k) (k_fd k)" and "k_cur k < length (proc_tabs k)" and "length (proc_tabs k) = MAX_PROCS"
    and "proc_tabs k ! k_cur k = p_fdt (cur_proc k)" and "fd_small no_held (proc_tabs k)"
    and "k_cur k < length (k_procs k)" and "length (k_procs k) = MAX_PROCS"
  using assms proc_tabs_small [of k]
  by (auto simp: fd_task_def fds_exact_def proc_tabs_def cur_proc_def)

lemma set_fdt_simps [simp]:
  "k_fd (set_fdt t k) = k_fd k" "k_cur (set_fdt t k) = k_cur k" "k_vfs (set_fdt t k) = k_vfs k"
  "k_archive (set_fdt t k) = k_archive k" "k_mem (set_fdt t k) = k_mem k" "length (k_procs (set_fdt t k)) = length (k_procs k)"
  by (simp_all add: set_fdt_def set_cur_def)

lemma fd_task_put:
  assumes ok: "fd_task k" and inv: "fd_inv no_held (tabs_with t k) s"
    and k': "k_procs k' = k_procs (set_fdt t k)" "k_cur k' = k_cur k" "k_fd k' = s"
  shows "fd_task k'"
proof -
  have len: "k_cur k < length (k_procs k)" "length (k_procs k) = MAX_PROCS" by (rule fd_taskD [OF ok])+
  have "proc_tabs k' = tabs_with t k"
    using proc_tabs_set_proc [OF len(1), of "\<lambda>p. p\<lparr>p_fdt := t\<rparr>"] k'(1)
    by (simp add: proc_tabs_def tabs_with_def set_fdt_def set_cur_def)
  moreover have "p_state p = PROC_UNUSED \<longrightarrow> p_fdt p = replicate MAX_FDS None" if p: "p \<in> set (k_procs k')" for p
  proof -
    obtain j where j: "j < length (k_procs k)" "p = k_procs (set_fdt t k) ! j"
      using p k'(1) by (auto simp: in_set_conv_nth)
    then show ?thesis
      using ok nth_mem [OF j(1)] by (cases "j = k_cur k")
        (auto simp: fd_task_def fds_exact_def set_fdt_def set_cur_def set_proc_nth cur_proc_def)
  qed
  moreover have "p_state (cur_proc k') \<noteq> PROC_UNUSED"
    using ok len k' by (simp add: fd_task_def cur_proc_def set_fdt_def set_cur_def)
  ultimately show ?thesis
    using ok inv k' len by (simp add: fd_task_def fds_exact_def)
qed

lemma tabs_with_same: "fd_task k \<Longrightarrow> tabs_with (p_fdt (cur_proc k)) k = proc_tabs k"
  using fd_taskD(4) [of k] by (simp add: tabs_with_def flip: fd_taskD(4))

lemma fd_task_same:
  assumes "fd_task k" and "fd_inv no_held (proc_tabs k) (k_fd k')" and "k_procs k' = k_procs k" "k_cur k' = k_cur k"
  shows "fd_task k'"
  using assms by (simp add: fd_task_def fds_exact_def proc_tabs_def cur_proc_def)

lemma fd_task_frame [frame_simps]:
  "fd_task (k\<lparr>k_mem := m\<rparr>) = fd_task k" "fd_task (k\<lparr>k_vfs := v\<rparr>) = fd_task k" "fd_task (k\<lparr>k_con := c\<rparr>) = fd_task k"
  by (simp_all add: fd_task_def fds_exact_def proc_tabs_def cur_proc_def)

subsection \<open>Opening and closing\<close>

lemma open_desc_task:
  assumes ok: "fd_task k" and kd: "\<not> is_ep kd"
  shows "fd_task (snd (open_desc kd k))"
proof (cases "desc_alloc (k_fd k)")
  case (Pair r s)
  note t = fd_taskD [OF ok]
  show ?thesis
  proof (cases r)
    case None
    then show ?thesis
      using Pair ok desc_alloc_None by (fastforce simp: open_desc_def)
  next
    case (Some d)
    have o: "fd_inv (no_held(d := 1)) (proc_tabs k) (desc_setup d kd s)" "d < MAX_FILEDESCS"
      using fd_open_inv [OF t(1) Pair [unfolded Some] kd] by simp_all
    have sm: "fd_small (no_held(d := 1)) (proc_tabs k)"
      using t(5) by (simp add: fd_small_def)
    obtain fd tb s' where a: "fd_alloc_into (proc_tabs k ! k_cur k) 3 d (desc_setup d kd s) = (fd, tb, s')"
      by (metis prod_cases3)
    have "fd_inv (no_held(d := 1)) (tabs_with tb k) s'"
      unfolding tabs_with_def by (rule fd_alloc_into_inv [OF o(1) sm o(2) _ t(2) a]) (use held_live [OF o] in simp)
    then have "fd_inv ((no_held(d := 1))(d := 0)) (tabs_with tb k) (desc_decref d s')"
      by (rule desc_decref_inv [OF _ o(2)]) simp
    then have "fd_inv no_held (tabs_with tb k) (desc_decref d s')"
      by (simp add: fun_upd_idem)
    then have "fd_task ((set_fdt tb k)\<lparr>k_fd := desc_decref d s'\<rparr>)"
      by (rule fd_task_put [OF ok]) simp_all
    then show ?thesis
      using Pair Some a t(4) by (simp add: open_desc_def Let_def split: option.split)
  qed
qed

lemma openat_task: "fd_task k \<Longrightarrow> fd_task (snd (sys_openat dirfd u flags mode k))"
  unfolding sys_openat_def open_ramfile_def open_create_def open_existing_def Let_def
  by (auto simp: open_desc_task frame_simps split: sum.split option.split prod.split)

lemma close_task:
  assumes ok: "fd_task k"
  shows "fd_task (snd (sys_close fd k))"
proof -
  obtain t s where c: "fd_close (proc_tabs k ! k_cur k) fd (k_fd k) = (t, s)" by fastforce
  have "fd_task ((set_fdt t k)\<lparr>k_fd := s\<rparr>)"
    using fd_close_inv [OF fd_taskD(1,2) [OF ok] c] by (intro fd_task_put [OF ok]) (simp_all add: tabs_with_def)
  then show ?thesis
    using ok c fd_taskD(4) [OF ok] by (simp add: sys_close_def)
qed

lemma desc_of_live:
  assumes ok: "fd_task k" and d: "desc_of fd k = Some d"
  shows "d < MAX_FILEDESCS" and "fd_refs (fs_descs (k_fd k) ! d) \<noteq> 0" and "unat fd < MAX_FDS"
    and "p_fdt (cur_proc k) ! unat fd = Some d"
  using d by (auto simp: desc_of_def fd_get_desc_idx_def not_le split: if_splits option.splits)

lemma dup3_task:
  assumes ok: "fd_task k"
  shows "fd_task (snd (sys_dup3 oldfd newfd flags k))"
proof (cases "flags = 0 \<and> unat oldfd < MAX_FDS \<and> unat newfd < MAX_FDS \<and> oldfd \<noteq> newfd \<and> desc_of oldfd k \<noteq> None")
  case False
  then show ?thesis using ok by (auto simp: sys_dup3_def not_le split: option.split)
next
  case True
  then obtain d where d: "desc_of oldfd k = Some d" by auto
  note t = fd_taskD [OF ok] and l = desc_of_live [OF ok d]
  obtain tb s where c: "fd_close (proc_tabs k ! k_cur k) newfd (k_fd k) = (tb, s)" by fastforce
  have ne: "unat oldfd \<noteq> unat newfd" using True by (simp add: word_unat_eq_iff)
  have i1: "fd_inv no_held (tabs_with tb k) s"
    unfolding tabs_with_def by (rule fd_close_inv [OF t(1,2) c])
  have e: "length tb = MAX_FDS" "\<And>j. j < MAX_FDS \<Longrightarrow> tb ! j = (if j = unat newfd then None else p_fdt (cur_proc k) ! j)"
    using fd_close_entry [OF c fd_inv_length [OF t(1,2)]] t(4) by simp_all
  have tl: "k_cur k < length (tabs_with tb k)" "tabs_with tb k ! k_cur k = tb"
    using t(2) by (simp_all add: tabs_with_def)
  have live: "fd_refs (fs_descs s ! d) \<noteq> 0"
    by (rule fd_entry_live [OF i1 tl(1) l(3)]) (use e(2) [OF l(3)] ne l(4) tl(2) in simp)
  have sm: "fd_small no_held (tabs_with tb k)"
    using t(5) by (simp add: fd_small_def tabs_with_def)
  have i2: "fd_inv (no_held(d := 1)) (tabs_with tb k) (desc_incref d s)"
    using desc_incref_inv [OF i1 sm l(1) live] by simp
  have "fd_inv ((no_held(d := 1))(d := 0)) ((tabs_with tb k)[k_cur k := (tabs_with tb k ! k_cur k)[unat newfd := Some d]]) (desc_incref d s)"
    by (rule fd_inv_store [OF i2 tl(1) _ _ l(1)]) (use True e(2) tl(2) in auto)
  then have "fd_inv no_held (tabs_with (tb[unat newfd := Some d]) k) (desc_incref d s)"
    by (simp add: fun_upd_idem tabs_with_def t(2))
  then have "fd_task ((set_fdt (tb[unat newfd := Some d]) k)\<lparr>k_fd := desc_incref d s\<rparr>)"
    by (rule fd_task_put [OF ok]) simp_all
  then show ?thesis
    using True d c t(4) by (simp add: sys_dup3_def)
qed

text \<open>Moving the offset of a description.\<close>

lemma set_kind_task:
  assumes ok: "fd_task k" and d: "desc_of fd k = Some d" and "\<not> is_ep (kind_of d k)" and "\<not> is_ep kd"
  shows "fd_task (set_kind d kd k)"
  using fd_inv_rekind [OF fd_taskD(1) [OF ok] desc_of_live(1,2) [OF ok d]] assms(3,4)
  by (intro fd_task_same [OF ok]) (simp_all add: set_kind_def kind_of_def)

subsection \<open>Pipes\<close>

lemma pipe_create_inv:
  assumes inv: "fd_inv held tabs s" and c: "pipe_create (fs_pipes s) = (Inr pid, ps)"
  shows "fd_inv held tabs (s\<lparr>fs_pipes := ps\<rparr>)" and "pid < MAX_PIPES"
    and "ep_count (FDESC_PIPE pid e) (s\<lparr>fs_pipes := ps\<rparr>) = Some 0" and "end_refs (FDESC_PIPE pid e) (fs_descs s) = 0"
proof -
  have ok: "pipes_ok (fs_pipes s)" and len: "length (fs_pipes s) = MAX_PIPES"
    using inv by (simp_all add: fd_inv_def fd_shape_def pipes_ok_def)
  have p: "pid < length (fs_pipes s)" "\<not> pp_used (fs_pipes s ! pid)" and ps: "ps = upd_at pid (pipe_reset True) (fs_pipes s)"
    using c find_slot_Some [of "\<lambda>pp. \<not> pp_used pp" "fs_pipes s" pid] by (auto simp: pipe_create_def split: option.splits)
  then show "pid < MAX_PIPES" using len by simp
  then show e0: "ep_count (FDESC_PIPE pid e) (s\<lparr>fs_pipes := ps\<rparr>) = Some 0" for e
    using p by (cases e) (simp_all add: ps pipe_reset_def not_le)
  show z: "end_refs (FDESC_PIPE pid e) (fs_descs s) = 0" for e
    using inv p(2) unfolding fd_inv_def by (auto dest!: spec [of _ "FDESC_PIPE pid e"])
  have other: "ep_count k (s\<lparr>fs_pipes := ps\<rparr>) = ep_count k s" if "\<forall>e. k \<noteq> FDESC_PIPE pid e" for k
    using that len by (cases k) (auto simp: ps nth_upd_at split: pipe_end.split)
  have "pipes_ok ps" using pipe_create_ok [OF ok] c by simp
  then have "fd_shape tabs (s\<lparr>fs_pipes := ps\<rparr>)"
    using inv by (simp add: fd_inv_def fd_shape_def)
  moreover have "case ep_count k (s\<lparr>fs_pipes := ps\<rparr>) of Some n \<Rightarrow> n = end_refs k (fs_descs s) | None \<Rightarrow> end_refs k (fs_descs s) = 0"
    if "is_ep k" for k
  proof (cases "\<exists>e. k = FDESC_PIPE pid e")
    case True
    then obtain e where "k = FDESC_PIPE pid e" by blast
    then show ?thesis using e0 [of e] z [of e] by (simp del: ep_count.simps)
  next
    case False
    then show ?thesis using other [of k] inv that by (auto simp: fd_inv_def simp del: ep_count.simps)
  qed
  ultimately show "fd_inv held tabs (s\<lparr>fs_pipes := ps\<rparr>)"
    using inv by (simp add: fd_inv_def del: ep_count.simps cong: option.case_cong)
qed

text \<open>A reserved slot becomes a description of one end of the pipe.\<close>

lemma pipe_desc_inv:
  assumes inv: "fd_inv held tabs s" and d: "d < MAX_FILEDESCS" "fd_refs (fs_descs s ! d) = 1" "fd_kind (fs_descs s ! d) = FDESC_UNUSED"
    and pid: "pid < MAX_PIPES" "pp_used (fs_pipes s ! pid)"
  shows "fd_inv held tabs (pipe_desc d pid e s)"
proof -
  let ?k = "FDESC_PIPE pid e" and ?s = "pipe_desc d pid e s"
  have len: "length (fs_descs s) = MAX_FILEDESCS" "pipes_ok (fs_pipes s)" "length (fs_pipes s) = MAX_PIPES"
    using inv by (simp_all add: fd_inv_def fd_shape_def pipes_ok_def)
  have descs: "fs_descs ?s = upd_at d (\<lambda>_. \<lparr>fd_kind = ?k, fd_refs = 1\<rparr>) (fs_descs s)"
    and pipes: "fs_pipes ?s = pipe_on_desc_incref pid e (fs_pipes s)" and rest: "fs_udp ?s = fs_udp s" "fs_tcp ?s = fs_tcp s"
    by (simp_all add: pipe_desc_def desc_setup_def Let_def)
  have shape: "fd_shape tabs ?s"
    using inv pipe_incref_ok [OF len(2)] by (simp add: fd_inv_def fd_shape_def descs pipes rest)
  have ends: "end_refs k' (fs_descs ?s) = (if k' = ?k then Suc (end_refs k' (fs_descs s)) else end_refs k' (fs_descs s))" if "is_ep k'" for k'
    using end_refs_upd_at [of d "fs_descs s" k' "\<lambda>_. \<lparr>fd_kind = ?k, fd_refs = 1\<rparr>"] d len(1) that
    by (auto simp: descs refs_of_kind_def split: if_splits)
  have ep: "ep_count k' ?s = (if k' = ?k then map_option Suc (ep_count k' s) else ep_count k' s)" for k'
  proof -
    have "?s = s\<lparr>fs_descs := fs_descs ?s, fs_pipes := pipe_on_desc_incref pid e (fs_pipes s)\<rparr>"
      by (simp add: pipe_desc_def desc_setup_def Let_def)
    moreover have "ep_count k' (s\<lparr>fs_descs := ds, fs_pipes := pipe_on_desc_incref pid e (fs_pipes s)\<rparr>) =
        (if k' = ?k then map_option Suc (ep_count k' s) else ep_count k' s)" for ds
      using pid len(3) by (cases k'; cases e)
        (auto simp: pipe_on_desc_incref_def pipe_incref_end_def nth_upd_at split: pipe_end.splits)
    ultimately show ?thesis by metis
  qed
  have used: "ep_count ?k s \<noteq> None" using pid by (cases e) auto
  have "case ep_count k' ?s of Some n \<Rightarrow> n = end_refs k' (fs_descs ?s) | None \<Rightarrow> end_refs k' (fs_descs ?s) = 0" if k': "is_ep k'" for k'
  proof -
    have "case ep_count k' s of Some n \<Rightarrow> n = end_refs k' (fs_descs s) | None \<Rightarrow> end_refs k' (fs_descs s) = 0"
      using inv k' by (simp add: fd_inv_def)
    then show ?thesis
      using ends [OF k'] used unfolding ep by (cases "ep_count k' s") (auto simp del: ep_count.simps)
  qed
  moreover have "fd_refs (fs_descs ?s ! j) = tab_refs tabs j + held j \<and> (fd_refs (fs_descs ?s ! j) = 0 \<longrightarrow> fd_kind (fs_descs ?s ! j) = FDESC_UNUSED)"
    if "j < MAX_FILEDESCS" for j
    using inv that d(2) len(1) unfolding fd_inv_def descs by (cases "j = d") (auto simp: nth_upd_at)
  ultimately show ?thesis
    using shape by (simp add: fd_inv_def)
qed

text \<open>Aborting a pipe that no description refers to.\<close>

lemma pipe_abort_inv:
  assumes inv: "fd_inv held tabs s" and free: "\<And>e. end_refs (FDESC_PIPE pid e) (fs_descs s) = 0" and pid: "pid < MAX_PIPES"
  shows "fd_inv held tabs (s\<lparr>fs_pipes := pipe_abort pid (fs_pipes s)\<rparr>)" (is "fd_inv _ _ ?s")
proof -
  have len: "length (fs_pipes s) = MAX_PIPES" "pipes_ok (fs_pipes s)"
    using inv by (simp_all add: fd_inv_def fd_shape_def pipes_ok_def)
  have "pipes_ok (pipe_abort pid (fs_pipes s))"
    using len(2) pid by (simp add: pipe_abort_def pipes_ok_upd_at pipe_reset_ok)
  then have "fd_shape tabs ?s"
    using inv by (simp add: fd_inv_def fd_shape_def)
  moreover have "case ep_count k ?s of Some n \<Rightarrow> n = end_refs k (fs_descs s) | None \<Rightarrow> end_refs k (fs_descs s) = 0"
    if "is_ep k" for k
  proof (cases "\<exists>e. k = FDESC_PIPE pid e")
    case True
    then show ?thesis using free pid len(1) by (auto simp: pipe_abort_def pipe_reset_def)
  next
    case False
    then have "ep_count k ?s = ep_count k s"
      using len(1) by (cases k) (auto simp: pipe_abort_def nth_upd_at split: pipe_end.split)
    then show ?thesis using inv that by (simp add: fd_inv_def)
  qed
  ultimately show ?thesis
    using inv by (simp add: fd_inv_def del: ep_count.simps cong: option.case_cong)
qed

text \<open>Only the descriptions in \<open>D\<close> can refer to the pipe.\<close>

definition refer_in :: "nat set \<Rightarrow> nat \<Rightarrow> fd_state \<Rightarrow> bool" where
  "refer_in D pid s \<longleftrightarrow> (\<forall>j < MAX_FILEDESCS. j \<notin> D \<longrightarrow> (\<forall>e. fd_kind (fs_descs s ! j) \<noteq> FDESC_PIPE pid e))"

lemma refer_in_kinds:
  "refer_in D pid s \<Longrightarrow> (\<And>j. j \<notin> D \<Longrightarrow> fd_kind (fs_descs s' ! j) = fd_kind (fs_descs s ! j) \<or> fd_kind (fs_descs s' ! j) = FDESC_UNUSED) \<Longrightarrow>
   refer_in D pid s'"
  unfolding refer_in_def by (metis fdesc.distinct(5))

lemma kind_upd_at:
  assumes "\<And>x. fd_kind (f x) = fd_kind x \<or> fd_kind (f x) = FDESC_UNUSED"
  shows "fd_kind (upd_at i f xs ! j) = fd_kind (xs ! j) \<or> fd_kind (upd_at i f xs ! j) = FDESC_UNUSED"
  using assms [of "xs ! i"] by (cases "j = i"; cases "i < length xs") auto

lemma refer_in_steps [inv_intros]:
  assumes "refer_in D pid s"
  shows "refer_in D pid (desc_incref i s)" and "refer_in D pid (desc_decref i s)"
    and "fd_alloc_into t m i s = (r, t', s') \<Longrightarrow> refer_in D pid s'" and "fd_close t fd s = (t', s') \<Longrightarrow> refer_in D pid s'"
    and "i \<in> D \<Longrightarrow> refer_in D pid (pipe_desc i q e s)"
proof -
  show inc: "refer_in D pid (desc_incref i s)" for i
    by (rule refer_in_kinds [OF assms])
      (use kind_upd_at [of desc_bump i "fs_descs s"] in \<open>auto simp: desc_incref_def Let_def desc_bump_def\<close>)
  show dec: "refer_in D pid (desc_decref i s)" for i
    by (rule refer_in_kinds [OF assms])
      (use kind_upd_at [of desc_drop i "fs_descs s"] in \<open>auto simp: desc_decref_def Let_def desc_drop_def desc_cleared_def\<close>)
  show "fd_alloc_into t m i s = (r, t', s') \<Longrightarrow> refer_in D pid s'"
    using assms inc by (auto simp: fd_alloc_into_def split: option.splits)
  show "fd_close t fd s = (t', s') \<Longrightarrow> refer_in D pid s'"
    using assms dec by (auto simp: fd_close_def split: option.splits if_splits)
  show "refer_in D pid (pipe_desc i q e s)" if "i \<in> D"
  proof (rule refer_in_kinds [OF assms])
    show "fd_kind (fs_descs (pipe_desc i q e s) ! j) = fd_kind (fs_descs s ! j) \<or> fd_kind (fs_descs (pipe_desc i q e s) ! j) = FDESC_UNUSED"
      if "j \<notin> D" for j
      using that \<open>i \<in> D\<close> by (cases "j = i") (auto simp: pipe_desc_def desc_setup_def Let_def)
  qed
qed

lemma refer_in_free:
  assumes "refer_in D pid s" and "length (fs_descs s) = MAX_FILEDESCS" and "\<And>d. d \<in> D \<Longrightarrow> fd_refs (fs_descs s ! d) = 0"
  shows "end_refs (FDESC_PIPE pid e) (fs_descs s) = 0"
proof -
  have "refs_of_kind (FDESC_PIPE pid e) (fs_descs s ! j) = 0" if "j < MAX_FILEDESCS" for j
    using assms that by (cases "j \<in> D") (auto simp: refer_in_def refs_of_kind_def)
  then show ?thesis
    using assms(2) by (simp add: end_refs_def sum_list_eq_0_iff) (metis in_set_conv_nth)
qed

lemma close_opt_inv:
  assumes "fd_inv held (tabs_with t k) s" and "k_cur k < length (proc_tabs k)" and "close_opt fd (t, s) = (t', s')"
  shows "fd_inv held (tabs_with t' k) s'" and "refer_in D pid s \<Longrightarrow> refer_in D pid s'"
proof -
  have l: "k_cur k < length (tabs_with t k)" "tabs_with t k ! k_cur k = t"
    using assms(2) by (simp_all add: tabs_with_def)
  show "fd_inv held (tabs_with t' k) s'"
  proof (cases fd)
    case (Some n)
    then have "fd_inv held ((tabs_with t k)[k_cur k := t']) s'"
      using assms(3) l(2) by (intro fd_close_inv [OF assms(1) l(1)]) (simp add: close_opt_def)
    then show ?thesis by (simp add: tabs_with_def)
  qed (use assms in \<open>simp add: close_opt_def\<close>)
  show "refer_in D pid s \<Longrightarrow> refer_in D pid s'"
    using assms(3) refer_in_steps(4) [of D pid s t _ t' s'] by (cases fd) (simp_all add: close_opt_def)
qed

text \<open>The two ends reserved, before they are installed.\<close>

definition ends_reserved :: "kernel \<Rightarrow> nat \<Rightarrow> nat \<Rightarrow> nat \<Rightarrow> fd_state \<Rightarrow> bool" where
  "ends_reserved k pid rd wd s \<longleftrightarrow> fd_inv (no_held(rd := 1, wd := 1)) (proc_tabs k) s \<and> rd \<noteq> wd \<and>
     rd < MAX_FILEDESCS \<and> wd < MAX_FILEDESCS \<and> fs_descs s ! rd = \<lparr>fd_kind = FDESC_UNUSED, fd_refs = 1\<rparr> \<and>
     fs_descs s ! wd = \<lparr>fd_kind = FDESC_UNUSED, fd_refs = 1\<rparr> \<and> pid < MAX_PIPES \<and> pp_used (fs_pipes s ! pid) \<and>
     refer_in {rd, wd} pid s"

lemma pipe_desc_frame:
  "j \<noteq> d \<Longrightarrow> fs_descs (pipe_desc d pid e s) ! j = fs_descs s ! j"
  "pid < length (fs_pipes s) \<Longrightarrow> pp_used (fs_pipes (pipe_desc d pid e s) ! pid) = pp_used (fs_pipes s ! pid)"
  by (auto simp: pipe_desc_def desc_setup_def Let_def pipe_on_desc_incref_def pipe_incref_end_def nth_upd_at split: pipe_end.split)

lemma ends_reserved_descs:
  assumes "ends_reserved k pid rd wd s"
  shows "fd_inv (no_held(rd := 1, wd := 1)) (proc_tabs k) (pipe_desc wd pid PIPE_END_WRITE (pipe_desc rd pid PIPE_END_READ s))"
    and "refer_in {rd, wd} pid (pipe_desc wd pid PIPE_END_WRITE (pipe_desc rd pid PIPE_END_READ s))"
proof -
  note r = assms [unfolded ends_reserved_def]
  have len: "length (fs_pipes s) = MAX_PIPES" using r by (simp add: fd_inv_def fd_shape_def pipes_ok_def)
  have 1: "fd_inv (no_held(rd := 1, wd := 1)) (proc_tabs k) (pipe_desc rd pid PIPE_END_READ s)"
    using r by (intro pipe_desc_inv) simp_all
  show "fd_inv (no_held(rd := 1, wd := 1)) (proc_tabs k) (pipe_desc wd pid PIPE_END_WRITE (pipe_desc rd pid PIPE_END_READ s))"
    using r len by (intro pipe_desc_inv [OF 1]) (simp_all add: pipe_desc_frame)
  show "refer_in {rd, wd} pid (pipe_desc wd pid PIPE_END_WRITE (pipe_desc rd pid PIPE_END_READ s))"
    using r by (intro refer_in_steps(5)) simp_all
qed

lemma pipe_install_task:
  assumes ok: "fd_task k" and res: "ends_reserved k pid rd wd (k_fd k1)"
    and k1: "k1 = k\<lparr>k_fd := s0\<rparr>"
  shows "fd_task (snd (pipe_install pid rd wd u k1))"
proof -
  note t = fd_taskD [OF ok] and r = res [unfolded ends_reserved_def]
  let ?h = "no_held(rd := 1, wd := 1)"
  define s where "s = pipe_desc wd pid PIPE_END_WRITE (pipe_desc rd pid PIPE_END_READ (k_fd k1))"
  define T where "T = proc_tabs k ! k_cur k"
  have T: "p_fdt (cur_proc k1) = T" using t(4) k1 by (simp add: T_def cur_proc_def)
  have i0: "fd_inv ?h (proc_tabs k) s" "refer_in {rd, wd} pid s"
    using ends_reserved_descs [OF res] by (simp_all add: s_def)
  obtain rfd t1 s1 where a1: "fd_alloc_into T 0 rd s = (rfd, t1, s1)" by (metis prod_cases3)
  obtain wfd t2 s2 where a2: "fd_alloc_into t1 0 wd s1 = (wfd, t2, s2)" by (metis prod_cases3)
  have sm: "fd_small ?h tabs" if "length tabs = MAX_PROCS" for tabs
    using that by (simp add: fd_small_def MAX_PROCS_def)
  have i1: "fd_inv ?h (tabs_with t1 k) s1"
    unfolding tabs_with_def using r t(3) by (intro fd_alloc_into_inv [OF i0(1) sm _ _ t(2) a1 [unfolded T_def]] held_live [OF i0(1)]) simp_all
  have tw: "k_cur k < length (tabs_with x k)" "tabs_with x k ! k_cur k = x" "length (tabs_with x k) = MAX_PROCS" for x
    using t(2,3) by (simp_all add: tabs_with_def)
  have "fd_inv ?h ((tabs_with t1 k)[k_cur k := t2]) s2"
    using r a2 tw(2) by (intro fd_alloc_into_inv [OF i1 sm [OF tw(3)] _ _ tw(1)] held_live [OF i1]) simp_all
  then have i2: "fd_inv ?h (tabs_with t2 k) s2" by (simp add: tabs_with_def)
  define s3 where "s3 = desc_decref wd (desc_decref rd s2)"
  have "fd_inv (?h(rd := 0)) (tabs_with t2 k) (desc_decref rd s2)"
    using r by (intro desc_decref_inv [OF i2]) simp_all
  then have "fd_inv ((?h(rd := 0))(wd := 0)) (tabs_with t2 k) s3"
    unfolding s3_def using r by (elim desc_decref_inv) simp_all
  moreover have "(?h(rd := 0))(wd := 0) = no_held" by auto
  ultimately have i3: "fd_inv no_held (tabs_with t2 k) s3" by simp
  have k3: "refer_in {rd, wd} pid s3"
    unfolding s3_def using i0(2) a1 a2 by (blast intro: refer_in_steps)
  obtain t3 s3' where c1: "close_opt rfd (t2, s3) = (t3, s3')" by fastforce
  obtain t4 s4 where c2: "close_opt wfd (t3, s3') = (t4, s4)" by fastforce
  note i4 = close_opt_inv [OF close_opt_inv(1) [OF i3 t(2) c1] t(2) c2]
  have k4: "refer_in {rd, wd} pid s4"
    using i4(2) close_opt_inv(2) [OF i3 t(2) c1] k3 by blast
  have done4: "fd_task ((set_fdt t4 k1)\<lparr>k_fd := s4\<rparr>)"
    by (rule fd_task_put [OF ok i4(1)]) (simp_all add: k1 set_fdt_def set_cur_def set_proc_def)
  have abort: "fd_task ((set_fdt t4 k1)\<lparr>k_fd := s4\<lparr>fs_pipes := pipe_abort pid (fs_pipes s4)\<rparr>\<rparr>)"
    if none: "rfd = None \<or> wfd = None"
  proof -
    have "t4 = T"
    proof (cases rfd)
      case None
      note n = fd_alloc_into_None [OF a1 [unfolded None]]
      have "wfd = None"
        using fd_alloc_into_Some [of t1 0 wd s1 _ t2 s2] a2 n by (cases wfd) auto
      then show ?thesis
        using n fd_alloc_into_None [of t1 0 wd s1 t2 s2] a2 c1 c2 None by (simp add: close_opt_def)
    next
      case (Some x)
      then have "wfd = None" using none by simp
      then have t2: "t2 = t1" "t4 = t3" using fd_alloc_into_None [of t1 0 wd s1 t2 s2] a2 c2 by (simp_all add: close_opt_def)
      have x: "x < length T" "T ! x = None" "t1 = T[x := Some rd]"
        using fd_alloc_into_Some [OF a1 [unfolded Some]] by blast+
      moreover have "length T = MAX_FDS" using fd_inv_length [OF t(1,2)] by (simp add: T_def)
      ultimately have "fd_close t1 (word_of_nat x) s3 = (t1[x := None], desc_decref rd s3)"
        by (simp add: fd_close_def MAX_FDS_def)
      then have "t3 = T[x := None]"
        using c1 Some t2(1) x(3) by (simp add: close_opt_def)
      then show ?thesis using t2(2) x(1,2) by (metis list_update_id)
    qed
    then have tabs: "tabs_with t4 k = proc_tabs k" by (simp add: tabs_with_def T_def)
    have "fd_refs (fs_descs s4 ! d) = 0" if d: "d \<in> {rd, wd}" for d
    proof -
      have "d < MAX_FILEDESCS" "fd_refs (fs_descs (k_fd k1) ! d) = 1" "?h d = 1" using d r by auto
      then have "tab_refs (proc_tabs k) d = 0"
        using r unfolding fd_inv_def by (metis add_cancel_left_left)
      then show ?thesis using i4(1) \<open>d < MAX_FILEDESCS\<close> tabs by (simp add: fd_inv_def)
    qed
    then have "end_refs (FDESC_PIPE pid e) (fs_descs s4) = 0" for e
      using refer_in_free [OF k4] i4(1) by (simp add: fd_inv_def fd_shape_def)
    then have "fd_inv no_held (tabs_with t4 k) (s4\<lparr>fs_pipes := pipe_abort pid (fs_pipes s4)\<rparr>)"
      using r by (intro pipe_abort_inv [OF i4(1)]) simp_all
    then show ?thesis
      by (rule fd_task_put [OF ok]) (simp_all add: k1 set_fdt_def set_cur_def set_proc_def)
  qed
  have fin: "fd_task ((set_fdt t2 k1)\<lparr>k_fd := s3, k_mem := m\<rparr>)" for m
    by (rule fd_task_put [OF ok i3]) (simp_all add: k1 set_fdt_def set_cur_def set_proc_def)
  show ?thesis
    using a1 a2 c1 c2 done4 abort fin
    by (cases rfd; cases wfd) (simp_all add: pipe_install_def T flip: s_def s3_def split: option.split)
qed

lemma pipe2_task:
  assumes ok: "fd_task k"
  shows "fd_task (snd (sys_pipe2 u flags k))"
proof (cases "flags = 0 \<and> user_range_ok u 8")
  case False
  then show ?thesis using ok by (auto simp: sys_pipe2_def)
next
  case go: True
  note t = fd_taskD [OF ok]
  obtain pr ps where c: "pipe_create (fs_pipes (k_fd k)) = (pr, ps)" by fastforce
  show ?thesis
  proof (cases pr)
    case (Inl e)
    then have "ps = fs_pipes (k_fd k)" using c by (auto simp: pipe_create_def split: option.splits)
    then show ?thesis using ok go c Inl by (simp add: sys_pipe2_def)
  next
    case (Inr pid)
    note pc = pipe_create_inv [OF t(1) c [unfolded Inr]]
    let ?s0 = "(k_fd k)\<lparr>fs_pipes := ps\<rparr>"
    have len: "length (fs_descs ?s0) = MAX_FILEDESCS" "length (fs_pipes ?s0) = MAX_PIPES"
      using pc(1) by (simp_all add: fd_inv_def fd_shape_def pipes_ok_def)
    have used: "pp_used (ps ! pid)" using pc(2) pc(3) [of PIPE_END_READ] by (auto split: if_splits)
    have none: "refer_in {} pid ?s0"
      unfolding refer_in_def
    proof (intro allI impI notI)
      fix j e assume j: "j < MAX_FILEDESCS" and kd: "fd_kind (fs_descs ?s0 ! j) = FDESC_PIPE pid e"
      then have "fd_refs (fs_descs (k_fd k) ! j) \<noteq> 0" using t(1) by (fastforce simp: fd_inv_def)
      then show False using end_refs_pos [of j "fs_descs (k_fd k)" "FDESC_PIPE pid e"] j kd len(1) pc(4) [of e] by simp
    qed
    obtain rdesc s1 where 1: "desc_alloc ?s0 = (rdesc, s1)" by fastforce
    obtain wdesc s2 where 2: "desc_alloc s1 = (wdesc, s2)" by fastforce
    have abort: "fd_task (k\<lparr>k_fd := ?s0\<lparr>fs_pipes := pipe_abort pid ps\<rparr>\<rparr>)"
      using pipe_abort_inv [OF pc(1) _ pc(2)] pc(4) by (intro fd_task_same [OF ok]) simp_all
    show ?thesis
    proof (cases rdesc)
      case None
      have "s1 = ?s0" by (rule desc_alloc_None [OF 1 [unfolded None]])
      then have "desc_alloc ?s0 = (wdesc, s2)" "desc_alloc ?s0 = (None, s1)" using 1 2 None by simp_all
      then have "wdesc = None" "s2 = ?s0" using \<open>s1 = ?s0\<close> by simp_all
      then show ?thesis using go c Inr 1 2 None abort by (simp add: sys_pipe2_def)
    next
      case (Some rd)
      note a1 = desc_alloc_Some [OF 1 [unfolded Some] len(1)]
      show ?thesis
      proof (cases wdesc)
        case None
        have "s2 = s1" by (rule desc_alloc_None [OF 2 [unfolded None]])
        moreover have "fs_descs ?s0 ! rd = desc_cleared"
          using a1 pc(1) by (cases "fs_descs ?s0 ! rd") (auto simp: fd_inv_def desc_cleared_def)
        then have "upd_at rd (\<lambda>_. desc_cleared) (fs_descs ?s0) = fs_descs ?s0"
          using a1 len(1) by (simp add: upd_at_def list_update_same_conv)
        ultimately have "desc_clear rd s2 = ?s0"
          using a1 by (simp add: desc_clear_def comp_def)
        then show ?thesis using go c Inr 1 2 Some None abort by (simp add: sys_pipe2_def)
      next
        case w: (Some wd)
        have l1: "length (fs_descs s1) = MAX_FILEDESCS" using a1 len(1) by simp
        note a2 = desc_alloc_Some [OF 2 [unfolded w] l1]
        have ne: "rd \<noteq> wd" using a1 a2 len(1) by auto
        have i1: "fd_inv (no_held(rd := 1)) (proc_tabs k) s1"
          using fd_inv_new_plain [OF pc(1), of rd FDESC_UNUSED] a1 by (simp add: fun_upd_def)
        have i2: "fd_inv (no_held(rd := 1, wd := 1)) (proc_tabs k) s2"
          using fd_inv_new_plain [OF i1, of wd FDESC_UNUSED] a2 ne by (simp add: fun_upd_def)
        have "refer_in {rd, wd} pid s2"
          using none a1 a2 len(1) by (auto simp: refer_in_def)
        then have "ends_reserved k pid rd wd s2"
          using i2 ne a1 a2 len(1) used pc(2) by (simp add: ends_reserved_def)
        then have "fd_task (snd (pipe_install pid rd wd u (k\<lparr>k_fd := s2\<rparr>)))"
          by (intro pipe_install_task [OF ok _ refl]) simp
        then show ?thesis using go c Inr 1 2 Some w by (simp add: sys_pipe2_def)
      qed
    qed
  qed
qed

text \<open>Moving bytes through a pipe leaves its reference counts alone.\<close>

definition same_refs :: "pipe list \<Rightarrow> pipe list \<Rightarrow> bool" where
  "same_refs ps ps' \<longleftrightarrow> pipes_ok ps' \<and> (\<forall>i. pp_used (ps' ! i) = pp_used (ps ! i) \<and>
     pp_read_refs (ps' ! i) = pp_read_refs (ps ! i) \<and> pp_write_refs (ps' ! i) = pp_write_refs (ps ! i))"

lemma same_refs_inv:
  assumes "fd_inv held tabs s" and "same_refs (fs_pipes s) ps"
  shows "fd_inv held tabs (s\<lparr>fs_pipes := ps\<rparr>)"
proof -
  have "ep_count k (s\<lparr>fs_pipes := ps\<rparr>) = ep_count k s" for k
    using assms(2) by (cases k) (auto simp: same_refs_def split: pipe_end.split)
  then show ?thesis
    using assms by (simp add: fd_inv_def fd_shape_def same_refs_def del: ep_count.simps cong: option.case_cong)
qed

lemma same_refs_update:
  assumes "pipes_ok ps" and "pipes_ok (ps[pid := pp])" and "pp_used pp = pp_used (ps ! pid)"
    and "pp_read_refs pp = pp_read_refs (ps ! pid)" and "pp_write_refs pp = pp_write_refs (ps ! pid)"
  shows "same_refs ps (ps[pid := pp])"
proof -
  have "(ps[pid := pp]) ! i = (if i = pid \<and> pid < length ps then pp else ps ! i)" for i
    by (cases "pid < length ps") (auto simp: list_update_beyond)
  then show ?thesis using assms by (simp add: same_refs_def)
qed

lemma same_refs_refl: "pipes_ok ps \<Longrightarrow> same_refs ps ps"
  by (simp add: same_refs_def)

lemma pipe_read_refs:
  assumes "pipes_ok ps" and "pipe_read pid dst len ps = (r, ps')"
  shows "same_refs ps ps'"
proof (cases r)
  case (Inl e)
  then show ?thesis using pipe_read_error [of pid dst len ps e] assms same_refs_refl by simp
next
  case (Inr bs)
  then have "pid < MAX_PIPES" using assms(2) by (auto simp: pipe_read_def split: if_splits)
  then have "pipes_ok ps'" using pipe_read_effect assms Inr by blast
  then show ?thesis
    using assms Inr by (auto simp: pipe_read_def Let_def split_beta pipe_pull_frame same_refs_refl
        split: if_splits intro!: same_refs_update)
qed

lemma pipe_write_refs:
  assumes "pipes_ok ps" and "pipe_write pid src rd len ps = (r, ps')"
  shows "same_refs ps ps'"
proof (cases r)
  case (Inl e)
  then show ?thesis using pipe_write_error [of pid src rd len ps e] assms same_refs_refl by simp
next
  case (Inr n)
  then have "pid < MAX_PIPES" using assms(2) by (auto simp: pipe_write_def split: if_splits)
  then have "pipes_ok ps'" using pipe_write_effect assms Inr by blast
  then show ?thesis
    using assms Inr by (auto simp: pipe_write_def Let_def pipe_store_frame same_refs_refl
        split: if_splits intro!: same_refs_update)
qed

lemma fd_task_pipes:
  assumes ok: "fd_task k" and "same_refs (fs_pipes (k_fd k)) ps"
  shows "fd_task (k\<lparr>k_fd := (k_fd k)\<lparr>fs_pipes := ps\<rparr>\<rparr>)" and "fd_task (k\<lparr>k_fd := (k_fd k)\<lparr>fs_pipes := ps\<rparr>, k_mem := m\<rparr>)"
  by (rule fd_task_same [OF ok]; use same_refs_inv [OF fd_taskD(1) [OF ok] assms(2)] in simp)+

lemma task_pipes_ok: "fd_task k \<Longrightarrow> pipes_ok (fs_pipes (k_fd k))"
  using fd_taskD(1) [of k] by (simp add: fd_inv_def fd_shape_def)

subsection \<open>Reading, writing, seeking\<close>

lemma read_at_task:
  assumes "fd_task k" and "desc_of fd k = Some d" and "\<not> is_ep (kind_of d k)" and "\<And>off. \<not> is_ep (kd off)"
  shows "fd_task (snd (read_at d kd data sz off buf len k))"
  using set_kind_task [OF assms(1-3)] assms(1,4) by (simp add: read_at_def Let_def frame_simps)

lemma read_now_task:
  assumes "fd_task k" and "desc_of fd k = Some d"
  shows "fd_task (snd (read_now nv d buf len k))"
proof (cases "kind_of d k")
  case (FDESC_PIPE pid e)
  then show ?thesis
    using assms(1) pipe_read_refs [OF task_pipes_ok [OF assms(1)]] fd_task_pipes [OF assms(1)]
    by (auto simp: read_now_def split: prod.split sum.split)
qed (use assms read_at_task [OF assms] in \<open>auto simp: read_now_def split: sum.split option.split prod.split\<close>)

lemma write_task:
  assumes "fd_task k"
  shows "fd_task (snd (snd (sys_write fd buf len k)))"
proof (cases "desc_of fd k")
  case None
  then show ?thesis using assms by (simp add: sys_write_def)
next
  case (Some d)
  show ?thesis
  proof (cases "kind_of d k")
    case (FDESC_PIPE pid e)
    then show ?thesis
      using assms Some pipe_write_refs [OF task_pipes_ok [OF assms]] fd_task_pipes(1) [OF assms]
      by (auto simp: sys_write_def split: prod.split sum.split)
  next
    case (FDESC_RAMFILE i off)
    then have "fd_task (snd (write_ramfile d i off buf len k))"
      using assms set_kind_task [OF assms Some] by (auto simp: write_ramfile_def Let_def frame_simps split: sum.split prod.split)
    then show ?thesis using assms Some FDESC_RAMFILE by (simp add: sys_write_def split_beta)
  qed (use assms Some in \<open>simp_all add: sys_write_def\<close>)
qed

lemma lseek_task:
  assumes "fd_task k"
  shows "fd_task (snd (sys_lseek fd off whence k))"
proof (cases "desc_of fd k")
  case (Some d)
  show ?thesis
    using assms set_kind_task [OF assms Some]
    by (cases "kind_of d k") (auto simp: sys_lseek_def Some seek_file_def split: option.split sum.split prod.split)
qed (use assms in \<open>simp add: sys_lseek_def\<close>)

lemma getdents_task:
  assumes "fd_task k"
  shows "fd_task (snd (sys_getdents64 fd u n k))"
proof (cases "desc_of fd k")
  case (Some d)
  show ?thesis
    using assms set_kind_task [OF assms Some]
    by (cases "kind_of d k") (auto simp: sys_getdents64_def Some Let_def frame_simps split: prod.split)
qed (use assms in \<open>simp add: sys_getdents64_def\<close>)

lemma ioctl_task: "fd_task k \<Longrightarrow> fd_task (snd (sys_ioctl fd req u k))"
  by (auto simp: sys_ioctl_def ioctl_put_def frame_simps split: option.split)

lemma set_cur_task:
  assumes ok: "fd_task k" and f: "\<And>p. p_fdt (f p) = p_fdt p" "\<And>p. p_state (f p) = p_state p"
  shows "fd_task (set_cur f k)"
proof -
  have len: "k_cur k < length (k_procs k)" by (rule fd_taskD [OF ok])
  have "proc_tabs (set_cur f k) = proc_tabs k"
    using proc_tabs_set_proc [OF len, of f] list_update_id [of "map p_fdt (k_procs k)" "k_cur k"] len
    by (simp add: set_cur_def f proc_tabs_def)
  moreover have "p_state p = PROC_UNUSED \<longrightarrow> p_fdt p = replicate MAX_FDS None" if "p \<in> set (k_procs (set_cur f k))" for p
  proof -
    have "p \<in> set (k_procs k) \<or> p = f (cur_proc k)"
      using that set_update_subset_insert [of "k_procs k" "k_cur k" "f (cur_proc k)"]
      by (auto simp: set_cur_def set_proc_def upd_at_def cur_proc_def)
    then show ?thesis using ok f by (auto simp: fd_task_def fds_exact_def)
  qed
  ultimately show ?thesis
    using ok len f by (simp add: fd_task_def fds_exact_def cur_proc_def set_cur_def)
qed

lemma chdir_task: "fd_task k \<Longrightarrow> fd_task (snd (sys_chdir u k))"
  by (auto simp: sys_chdir_def set_cur_task split: sum.split option.split)

text \<open>The calls on names touch the descriptor table only through the names.\<close>

lemma name_calls_task:
  "fd_task k \<Longrightarrow> fd_task (snd (sys_getcwd u n k))" "fd_task k \<Longrightarrow> fd_task (snd (sys_symlinkat t d u k))"
  "fd_task k \<Longrightarrow> fd_task (snd (sys_mkdirat d u m k))" "fd_task k \<Longrightarrow> fd_task (snd (sys_linkat d u d' u' n k))"
  "fd_task k \<Longrightarrow> fd_task (snd (sys_newfstatat d u u' n k))" "fd_task k \<Longrightarrow> fd_task (snd (sys_fchmodat d u m n k))"
  "fd_task k \<Longrightarrow> fd_task (snd (sys_readlinkat d u u' n k))" "fd_task k \<Longrightarrow> fd_task (snd (sys_unlinkat d u n k))"
  by (auto simp: sys_getcwd_def sys_symlinkat_def fill_symlink_def sys_mkdirat_def vfs_done_def sys_linkat_def
      sys_newfstatat_def sys_fchmodat_def sys_readlinkat_def sys_unlinkat_def frame_simps Let_def
      simp del: dropWhile_eq_Nil_conv split: sum.split option.split prod.split)

subsection \<open>The tree under the descriptor calls\<close>

lemma open_desc_tree: "fs_tree k \<Longrightarrow> fs_tree (snd (open_desc kd k))"
  by (auto simp: open_desc_def Let_def set_fdt_def frame_simps split: option.split prod.split)

lemma normalize_normalized:
  assumes n: "normalize_abs_path p outsz = Some out"
  shows "normalized out \<and> length out < outsz"
proof -
  have "2 \<le> outsz" using n by (auto simp: normalize_abs_path_def split: if_splits)
  then show ?thesis
    using normalize_abs_path_eq [of outsz p] n resolve_proper resolves_within_length [of outsz "[]" "components p"]
    by (auto simp: normalized_def path_of_def resolve_def split: if_splits)
qed

lemma follow_normalized: "follow_symlink_data a d n = Some path \<Longrightarrow> normalized path \<and> length path < MAX_PATH"
  by (auto simp: follow_symlink_data_def Let_def dest: normalize_normalized split: if_splits sum.splits)

lemma symlink_hops_normalized:
  "symlink_hops n k path = Some q \<Longrightarrow> normalized path \<and> length path < MAX_PATH \<Longrightarrow> normalized q \<and> length q < MAX_PATH"
proof (induction n k path rule: symlink_hops.induct)
  case (2 hops k path)
  then show ?case
    using follow_normalized by (fastforce split: option.splits prod.splits if_splits)
qed simp

lemma followed_normalized: "user_path_followed k u = Inr path \<Longrightarrow> normalized path \<and> length path < MAX_PATH"
  using symlink_hops_normalized user_path_normalized
  by (auto simp: user_path_followed_def resolve_final_symlink_def split: sum.splits option.splits)

lemma open_create_tree:
  assumes ok: "fs_tree k" and u: "user_path_followed k u = Inr path" and l: "lookup k path = None"
  shows "fs_tree (snd (open_create path mode k))"
proof (cases "path \<noteq> [slash] \<and> (\<exists>p. abs_path_to_no_slash_trim path MAX_PATH = Inr p) \<and> parent_check k path = Inr ()")
  case True
  then obtain p where p: "abs_path_to_no_slash_trim path MAX_PATH = Inr p" by blast
  have m: "may_make k path p"
    using True p l followed_normalized [OF u] by (simp add: may_make_def)
  obtain r v where rv: "vfs_ramfile_create p (S_IFREG OR (ucast mode AND 0x1FF)) (k_vfs k) = (r, v)" by fastforce
  have "fs_tree (k\<lparr>k_vfs := v\<rparr>)"
  proof (cases r)
    case (Inl e)
    then show ?thesis using vfs_dir_err(3) [of p "S_IFREG OR (ucast mode AND 0x1FF)" "k_vfs k" e v] rv ok by (simp add: fs_tree_def)
  next
    case (Inr x)
    then show ?thesis using may_make_create [OF ok m create_mode(2), of "ucast mode" v] rv by (simp add: frame_simps)
  qed
  then show ?thesis
    using True p rv open_desc_tree [of "k\<lparr>k_vfs := v\<rparr>"] by (cases r) (auto simp: open_create_def split: sum.split)
qed (use ok in \<open>auto simp: open_create_def split: sum.split\<close>)

lemma openat_tree:
  assumes ok: "fs_tree k"
  shows "fs_tree (snd (sys_openat dirfd u flags mode k))"
proof -
  have "fs_tree (snd (open_ramfile i flags k))" for i
    using ok set_size_tree [OF ok [unfolded fs_tree_def], of i 0]
    by (auto simp: open_ramfile_def Let_def frame_simps intro: open_desc_tree)
  then show ?thesis
    using ok open_create_tree [OF ok, of u]
    by (auto simp: sys_openat_def open_existing_def open_desc_tree split: sum.split option.split)
qed

lemma write_ramfile_tree:
  assumes ok: "fs_tree k"
  shows "fs_tree (snd (write_ramfile d i off buf len k))"
proof (cases "user_range_ok buf len \<and> len \<noteq> 0 \<and> (\<exists>g. vfs_ramfile_get i (k_vfs k) = Inr g)")
  case True
  then obtain dt sz c md where g: "vfs_ramfile_get i (k_vfs k) = Inr (dt, sz, c, md)" by (metis prod_cases4)
  show ?thesis
  proof (cases "c \<le> off")
    case False
    define n where "n = (if len < c - off then len else c - off)"
    have "unat n \<le> unat (c - off)" by (simp add: n_def word_le_nat_alt word_less_nat_alt)
    then have "unat off + unat n \<le> RAMFILE_CAP"
      using ramfile_get_cap [OF g] False by (simp add: word_le_nat_alt unat_sub)
    then have st: "tree_ok (k_archive k) (vfs_ramfile_store i (unat off) (load_bytes (user_base k) (k_mem k) buf (unat n)) (k_vfs k))"
      by (intro store_tree) (use ok in \<open>simp_all add: fs_tree_def load_bytes_def\<close>)
    then show ?thesis
      using set_size_tree [OF st] True g False
      by (simp add: write_ramfile_def Let_def set_kind_def frame_simps flip: n_def)
  qed (use ok True g in \<open>simp add: write_ramfile_def\<close>)
qed (use ok in \<open>auto simp: write_ramfile_def split: sum.split\<close>)

lemma write_tree: "fs_tree k \<Longrightarrow> fs_tree (snd (snd (sys_write fd buf len k)))"
  by (auto simp: sys_write_def split_beta frame_simps write_ramfile_tree split: option.split fdesc.split sum.split prod.split)

lemma set_kind_tree [frame_simps]: "fs_tree (set_kind d kd k) = fs_tree k"
  by (simp add: set_kind_def frame_simps)

lemma fd_calls_tree:
  "fs_tree k \<Longrightarrow> fs_tree (snd (sys_close fd k))" "fs_tree k \<Longrightarrow> fs_tree (snd (sys_dup3 fd fd' fl k))"
  "fs_tree k \<Longrightarrow> fs_tree (snd (sys_ioctl fd r u k))" "fs_tree k \<Longrightarrow> fs_tree (snd (sys_lseek fd off w k))"
  "fs_tree k \<Longrightarrow> fs_tree (snd (sys_getdents64 fd u n k))" "fs_tree k \<Longrightarrow> fs_tree (snd (read_now nv d u n k))"
  "fs_tree k \<Longrightarrow> fs_tree (snd (sys_pipe2 u fl k))"
  by (auto simp: sys_close_def sys_dup3_def sys_ioctl_def ioctl_put_def sys_lseek_def seek_file_def sys_getdents64_def
      read_now_def read_at_def sys_pipe2_def pipe_install_def set_fdt_def Let_def frame_simps
      split: option.split fdesc.split sum.split prod.split)

end
