(* ===== verification/FsProps.thy ===== *)
theory FsProps
  imports FdCalls
begin

text \<open>
  The properties of the file system calls: what any sequence of them keeps, what following symbolic
  links computes, and that a file returns what was written to it. The last part shows three paths
  on which the code does something else than its comments or its callers expect.
\<close>

subsection \<open>Sequences of calls\<close>

datatype fs_call =
    Openat u64 u64 u64 u64 | Close u64 | Read u64 u64 u64 | Write u64 u64 u64 | Getdents u64 u64 u64
  | Lseek u64 u64 u64 | Dup3 u64 u64 u64 | Pipe2 u64 u64 | Ioctl u64 u64 u64 | Getcwd u64 u64 | Chdir u64
  | Symlinkat u64 u64 u64 | Mkdirat u64 u64 u64 | Linkat u64 u64 u64 u64 u64 | Newfstatat u64 u64 u64 u64
  | Fchmodat u64 u64 u64 u64 | Readlinkat u64 u64 u64 u64 | Unlinkat u64 u64 u64

text \<open>A read of the console takes what is buffered; with nothing buffered it would have to wait, and
leaves the kernel to the scheduler.\<close>

definition no_turn :: "pass \<times> sched_in" where
  "no_turn = (quiet_pass 0, \<lparr>si_usb = None, si_obs = [], si_cnt1 = 0, si_cnt2 = 0\<rparr>)"

fun fs_call_step :: "net_view \<Rightarrow> fs_call \<Rightarrow> kernel \<Rightarrow> kernel" where
  "fs_call_step nv (Openat d u fl m) k = snd (sys_openat d u fl m k)"
| "fs_call_step nv (Close fd) k = snd (sys_close fd k)"
| "fs_call_step nv (Read fd u n) k = (case sys_read nv [no_turn] (tf_zero, 0) fd u n k of Returns x r k' \<Rightarrow> k' | _ \<Rightarrow> k)"
| "fs_call_step nv (Write fd u n) k = snd (snd (sys_write fd u n k))"
| "fs_call_step nv (Getdents fd u n) k = snd (sys_getdents64 fd u n k)"
| "fs_call_step nv (Lseek fd off w) k = snd (sys_lseek fd off w k)"
| "fs_call_step nv (Dup3 fd fd' fl) k = snd (sys_dup3 fd fd' fl k)"
| "fs_call_step nv (Pipe2 u fl) k = snd (sys_pipe2 u fl k)"
| "fs_call_step nv (Ioctl fd rq u) k = snd (sys_ioctl fd rq u k)"
| "fs_call_step nv (Getcwd u n) k = snd (sys_getcwd u n k)"
| "fs_call_step nv (Chdir u) k = snd (sys_chdir u k)"
| "fs_call_step nv (Symlinkat t d u) k = snd (sys_symlinkat t d u k)"
| "fs_call_step nv (Mkdirat d u m) k = snd (sys_mkdirat d u m k)"
| "fs_call_step nv (Linkat d u d' u' fl) k = snd (sys_linkat d u d' u' fl k)"
| "fs_call_step nv (Newfstatat d u u' fl) k = snd (sys_newfstatat d u u' fl k)"
| "fs_call_step nv (Fchmodat d u m fl) k = snd (sys_fchmodat d u m fl k)"
| "fs_call_step nv (Readlinkat d u u' n) k = snd (sys_readlinkat d u u' n k)"
| "fs_call_step nv (Unlinkat d u fl) k = snd (sys_unlinkat d u fl k)"

lemma buffered_read:
  "read_uart [no_turn] r fd u n k = (case ring_pop (k_con k) of
     None \<Rightarrow> Waits
   | Some (c, con) \<Rightarrow> (case uart_finish c u n (k\<lparr>k_con := con\<rparr>) of (x, k') \<Rightarrow> Returns x r k'))"
  by (simp add: no_turn_def console_try_getc_def kernel_poll_quiet resched_def Let_def split: option.split)

lemma uart_finish_step:
  assumes "fd_task k" and "fs_tree k"
  shows "fd_task (snd (uart_finish c u n k)) \<and> fs_tree (snd (uart_finish c u n k))"
proof -
  define k1 where "k1 = (if pr_on (p_read (cur_proc k)) then set_cur (\<lambda>p. p\<lparr>p_read := read_clear\<rparr>) k else k)"
  have "fd_task (set_cur (\<lambda>p. p\<lparr>p_read := read_clear\<rparr>) k)" by (rule set_cur_task [OF assms(1)]) simp_all
  then have "fd_task k1" "fs_tree k1" using assms by (simp_all add: k1_def fs_tree_def set_cur_def)
  moreover have "uart_finish c u n k = (case drain console_in_pop (unat n - 1) (k_con k1) of
      (cs, con) \<Rightarrow> (word_of_nat (1 + length cs),
         k1\<lparr>k_con := con, k_mem := store_bytes (user_base k1) u (map char_byte (c # cs)) (k_mem k1)\<rparr>))"
    unfolding uart_finish_def Let_def k1_def [symmetric] ..
  ultimately show ?thesis by (simp add: fs_tree_def fd_task_frame split: prod.split)
qed

lemma read_step:
  assumes "fd_task k" and "fs_tree k"
  shows "fd_task (fs_call_step nv (Read fd u n) k) \<and> fs_tree (fs_call_step nv (Read fd u n) k)"
proof -
  have "fd_task (k\<lparr>k_con := con\<rparr>)" "fs_tree (k\<lparr>k_con := con\<rparr>)" for con
    using assms by (simp_all add: fs_tree_def fd_task_frame)
  then have f: "fd_task (snd (uart_finish c u n (k\<lparr>k_con := con\<rparr>)))" "fs_tree (snd (uart_finish c u n (k\<lparr>k_con := con\<rparr>)))" for c con
    using uart_finish_step by blast+
  show ?thesis
    using assms read_now_task [OF assms(1), of fd] fd_calls_tree(6) [OF assms(2)] f
    by (auto simp: sys_read_def buffered_read split_beta simp del: read_uart.simps split: option.split)
qed

lemma fs_call_ok:
  assumes "fd_task k" and "fs_tree k"
  shows "fd_task (fs_call_step nv c k) \<and> fs_tree (fs_call_step nv c k)"
proof (cases c)
  case (Read fd u n)
  then show ?thesis using read_step [OF assms] by simp
qed (use assms in \<open>simp_all add: openat_task openat_tree close_task dup3_task pipe2_task ioctl_task lseek_task
    getdents_task write_task write_tree chdir_task name_calls_task fd_calls_tree mkdir_tree linkat_tree
    symlinkat_tree fchmodat_tree unlinkat_tree path_reads_tree\<close>)

lemma fs_calls_ok:
  "fd_task k \<Longrightarrow> fs_tree k \<Longrightarrow> fd_task (fold (fs_call_step nv) cs k) \<and> fs_tree (fold (fs_call_step nv) cs k)"
  by (induction cs arbitrary: k) (simp_all add: fs_call_ok)

text \<open>
  C32: Whatever sequence of file system calls a process makes, with any arguments and any outcome
  (bad pointers, full tables, failed halves of \<open>pipe2\<close>): every reference count of descriptions and
  pipe ends stays exact, and the overlay stays a tree, in which every name lies in an existing
  directory, no name is both a file and a directory, and link counts are exact.
\<close>

theorem fs_calls_consistent:
  assumes "fds_exact k" and "k_cur k < MAX_PROCS" and "p_state (cur_proc k) \<noteq> PROC_UNUSED"
    and "fs_tree k"
  shows "fds_exact (fold (fs_call_step nv) cs k) \<and> fs_tree (fold (fs_call_step nv) cs k)"
  using fs_calls_ok [of k nv cs] assms by (simp add: fd_task_def)

subsection \<open>Symbolic links\<close>

text \<open>The path a link leads to, and \<open>n\<close> such steps.\<close>

definition link_step :: "kernel \<Rightarrow> string \<Rightarrow> string option" where
  "link_step k path =
     (case lookup k path of
        None \<Rightarrow> None
      | Some (data, sz, mode) \<Rightarrow> if S_ISLNK mode then follow_symlink_data path data sz else None)"

definition is_link :: "kernel \<Rightarrow> string \<Rightarrow> bool" where
  "is_link k path \<longleftrightarrow> (\<exists>data sz mode. lookup k path = Some (data, sz, mode) \<and> S_ISLNK mode)"

fun link_steps :: "nat \<Rightarrow> kernel \<Rightarrow> string \<Rightarrow> string option" where
  "link_steps 0 k path = Some path"
| "link_steps (Suc n) k path = (case link_step k path of None \<Rightarrow> None | Some q \<Rightarrow> link_steps n k q)"

lemma follow_short: "follow_symlink_data a d n = Some q \<Longrightarrow> length q + 1 \<le> MAX_PATH"
  using follow_normalized [of a d n q] by simp

lemma symlink_hops_eq: "symlink_hops (Suc n) k path =
    (if is_link k path then case link_step k path of None \<Rightarrow> None | Some q \<Rightarrow> symlink_hops n k q else Some path)"
  by (auto simp: is_link_def link_step_def S_ISLNK_def not_less split: option.split dest: follow_short)

declare symlink_hops.simps(2) [simp del]

lemma symlink_hops_iff:
  "symlink_hops m k path = Some q \<longleftrightarrow> (\<exists>n < m. link_steps n k path = Some q \<and> \<not> is_link k q)"
proof (induction m arbitrary: path)
  case 0
  then show ?case by simp
next
  case (Suc m)
  have step: "(\<exists>n < Suc m. link_steps n k path = Some q \<and> \<not> is_link k q) \<longleftrightarrow>
      path = q \<and> \<not> is_link k q \<or> (\<exists>n < m. link_steps (Suc n) k path = Some q \<and> \<not> is_link k q)"
    by (auto simp: less_Suc_eq_0_disj)
  show ?case
  proof (cases "is_link k path")
    case False
    then have "link_step k path = None"
      by (auto simp: is_link_def link_step_def split: option.split)
    then show ?thesis using False by (auto simp: symlink_hops_eq step)
  next
    case True
    then show ?thesis
      using Suc.IH by (auto simp: symlink_hops_eq step split: option.split)
  qed
qed

text \<open>
  C33: Resolving the final symbolic link of a path gives exactly the first path that is not a link
  on the chain of targets, when that is reached in fewer than eight steps; it fails when a target is
  malformed or the chain is longer, so loops of links are errors and never endless.
\<close>

theorem symlink_resolution:
  "resolve_final_symlink k path = Some q \<longleftrightarrow> (\<exists>n < 8. link_steps n k path = Some q \<and> \<not> is_link k q)"
  by (simp add: resolve_final_symlink_def symlink_hops_iff MAX_SYMLINK_HOPS_def)

text \<open>A kernel fresh from \<open>proc_init\<close> satisfies the hypotheses.\<close>

lemma vfs_init_tree: "tree_ok ar (vfs_init v)"
proof -
  have "ramfile_mode (vfs_init v) = Map.empty" "ramdir_mode (vfs_init v) = Map.empty"
    by (auto simp: ramfile_mode_def ramdir_mode_def ramfile_find_def ramdir_find_def find_slot_None vfs_init_def
        ramfile_unused_def ramdir_unused_def fun_eq_iff)
  then show ?thesis using vfs_init_ok by (simp add: tree_ok_def)
qed

lemma boot_kernel_task: "fds_exact boot_kernel" "k_cur boot_kernel = 0" "p_state (cur_proc boot_kernel) = PROC_RUNNABLE"
  using boot_procs [OF fd_boot_bss, of "0x400000" tf_zero] by (simp_all add: boot_kernel_def)

lemma boot_kernel_tree: "fs_tree boot_kernel"
proof -
  have "k_vfs boot_kernel = vfs_init (k_vfs kernel_bss)"
    by (auto simp: boot_kernel_def proc_init_def init_uart_fds_def Let_def split: prod.split option.split)
  then show ?thesis by (simp add: fs_tree_def vfs_init_tree)
qed

definition no_net :: net_view where
  "no_net = \<lparr>nv_ifs = [], nv_usb = None, nv_ipv6 = None\<rparr>"

lemma fs_calls_consistent_witness:
  "fds_exact (fold (fs_call_step no_net) [Pipe2 0x400000 0, Dup3 1 7 0, Close 1] boot_kernel)"
  using fs_calls_consistent [of boot_kernel no_net "[Pipe2 0x400000 0, Dup3 1 7 0, Close 1]"] boot_kernel_task boot_kernel_tree
  by (simp add: MAX_PROCS_def)

subsection \<open>Files keep what is written\<close>

lemma desc_of_set_kind [simp]:
  "desc_of fd (set_kind d kd k) = desc_of fd k"
  by (auto simp: desc_of_def set_kind_def fd_get_desc_idx_def cur_proc_def nth_upd_at_keep split: option.split)

lemma kind_of_set_kind [simp]:
  "d < length (fs_descs (k_fd k)) \<Longrightarrow> kind_of d (set_kind d kd k) = kd"
  by (simp add: kind_of_def set_kind_def)

lemma desc_of_frame [simp]:
  "desc_of fd (k\<lparr>k_vfs := v\<rparr>) = desc_of fd k" "kind_of d (k\<lparr>k_vfs := v\<rparr>) = kind_of d k"
  by (simp_all add: desc_of_def kind_of_def cur_proc_def)

lemma set_kind_frame [simp]:
  "k_vfs (set_kind d kd k) = k_vfs k" "k_mem (set_kind d kd k) = k_mem k" "user_base (set_kind d kd k) = user_base k"
  "length (fs_descs (k_fd (set_kind d kd k))) = length (fs_descs (k_fd k))" "user_base (k\<lparr>k_vfs := v\<rparr>) = user_base k"
  by (simp_all add: set_kind_def user_base_def)

text \<open>The inode of a file after a store that fits, and the size that covers it.\<close>

lemma ramfile_get_inode: "vfs_ramfile_get i v = Inr (data, sz, cap, md) \<Longrightarrow>
    \<exists>n. vfs_ramfile_inode i v = Inr n \<and> data = ri_data (vs_inodes v ! n) \<and> sz = ri_size (vs_inodes v ! n) \<and>
      cap = word_of_nat RAMFILE_CAP \<and> n < MAX_RAMINODES"
  by (auto simp: vfs_ramfile_get_def Let_def vfs_ramfile_inode_def split: sum.splits if_splits)

lemma inode_of_update:
  assumes "vfs_ramfile_inode i v = Inr n" and "\<And>x. ri_used (f x) = ri_used x"
  shows "vfs_ramfile_inode i (v\<lparr>vs_inodes := upd_at n f (vs_inodes v)\<rparr>) = Inr n"
  using assms by (auto simp: vfs_ramfile_inode_def Let_def nth_upd_at_keep split: if_splits)

lemma get_after_store:
  assumes ok: "vfs_ok v" and g: "vfs_ramfile_get i v = Inr (data, sz, cap, md)"
    and fits: "off + length bs \<le> RAMFILE_CAP" and sz': "unat nsz \<le> RAMFILE_CAP"
  shows "\<exists>md'. vfs_ramfile_get i (vfs_ramfile_store i off bs v) = Inr (overwrite off bs data, sz, cap, md')"
    and "\<exists>md'. vfs_ramfile_get i (snd (vfs_ramfile_set_size i nsz (vfs_ramfile_store i off bs v))) =
      Inr (overwrite off bs data, nsz, cap, md')"
proof -
  obtain n where n: "vfs_ramfile_inode i v = Inr n" "data = ri_data (vs_inodes v ! n)" "sz = ri_size (vs_inodes v ! n)"
      "cap = word_of_nat RAMFILE_CAP" "n < MAX_RAMINODES"
    using ramfile_get_inode [OF g] by blast
  have nl: "n < length (vs_inodes v)" using n(5) vfs_ok_lengths [OF ok] by simp
  let ?v = "v\<lparr>vs_inodes := upd_at n (ri_data_update (overwrite off bs)) (vs_inodes v)\<rparr>"
  have st: "vfs_ramfile_store i off bs v = ?v" using n(1) by (simp add: vfs_ramfile_store_def)
  have i1: "vfs_ramfile_inode i ?v = Inr n" by (rule inode_of_update [OF n(1)]) simp
  show "\<exists>md'. vfs_ramfile_get i (vfs_ramfile_store i off bs v) = Inr (overwrite off bs data, sz, cap, md')"
    using ramfile_get_eq [OF i1] n nl by (simp add: st)
  let ?w = "?v\<lparr>vs_inodes := upd_at n (ri_size_update (\<lambda>_. nsz)) (vs_inodes ?v)\<rparr>"
  have "unat (word_of_nat RAMFILE_CAP :: u64) = RAMFILE_CAP" by (simp add: RAMFILE_CAP_def)
  then have "snd (vfs_ramfile_set_size i nsz ?v) = ?w"
    using i1 sz' by (auto simp: vfs_ramfile_set_size_def vfs_ramfile_inode_def Let_def word_less_nat_alt split: if_splits)
  moreover have "vfs_ramfile_inode i ?w = Inr n" by (rule inode_of_update [OF i1]) simp
  ultimately show "\<exists>md'. vfs_ramfile_get i (snd (vfs_ramfile_set_size i nsz (vfs_ramfile_store i off bs v))) =
      Inr (overwrite off bs data, nsz, cap, md')"
    using ramfile_get_eq [of i ?w n] n nl by (simp add: st)
qed

lemma overwrite_read: "off + length bs \<le> length xs \<Longrightarrow> take (length bs) (drop off (overwrite off bs xs)) = bs"
  by (simp add: overwrite_def)

lemma sint_small:
  assumes "unat (off :: u64) < 9223372036854775808"
  shows "sint off = int (unat off)"
proof -
  have "int (unat off) < 9223372036854775808" using assms by linarith
  then have "uint off < 2 ^ 63" by simp
  moreover have "0 \<le> uint off" by simp
  ultimately have "signed_take_bit 63 (uint off) = uint off" by (intro signed_take_bit_int_eq_self) linarith+
  then show ?thesis by (simp add: sint_uint)
qed

text \<open>What a successful write to an overlay file leaves behind.\<close>

lemma write_ramfile_result:
  assumes ok: "vfs_ok (k_vfs k)" and w: "write_ramfile d i off buf len k = (n, k1)" and n: "n \<noteq> 0" "\<not> is_err n"
  shows "\<exists>data sz cap md v. k1 = (set_kind d (FDESC_RAMFILE i (off + n)) k)\<lparr>k_vfs := v\<rparr> \<and>
    vfs_ramfile_get i v = Inr (overwrite (unat off) (load_bytes (user_base k) (k_mem k) buf (unat n)) data, sz, cap, md) \<and>
    length data = RAMFILE_CAP \<and> unat off + unat n \<le> RAMFILE_CAP \<and> unat off + unat n \<le> unat sz"
proof -
  have go: "user_range_ok buf len" "len \<noteq> 0"
    using w n by (auto simp: write_ramfile_def split: if_splits)
  obtain g0 where g0: "vfs_ramfile_get i (k_vfs k) = Inr g0"
    using w n go by (cases "vfs_ramfile_get i (k_vfs k)") (auto simp: write_ramfile_def)
  obtain data sz cap md where g: "vfs_ramfile_get i (k_vfs k) = Inr (data, sz, cap, md)"
    using g0 by (metis prod_cases4)
  have off: "\<not> cap \<le> off"
    using w n go g by (auto simp: write_ramfile_def)
  have nn: "n = (if len < cap - off then len else cap - off)"
    using w go g off by (simp add: write_ramfile_def Let_def)
  have k1: "k1 = (set_kind d (FDESC_RAMFILE i (off + n)) k)\<lparr>k_vfs :=
      (if sz < off + n then snd (vfs_ramfile_set_size i (off + n) (vfs_ramfile_store i (unat off) (load_bytes (user_base k) (k_mem k) buf (unat n)) (k_vfs k)))
       else vfs_ramfile_store i (unat off) (load_bytes (user_base k) (k_mem k) buf (unat n)) (k_vfs k))\<rparr>"
    using w go g off by (simp add: write_ramfile_def Let_def flip: nn cong: if_cong)
  obtain m where m: "data = ri_data (vs_inodes (k_vfs k) ! m)" "m < MAX_RAMINODES"
    using ramfile_get_inode [OF g] by blast
  then have ld: "length data = RAMFILE_CAP"
    using vfs_ok_inode [OF ok m(2)] by (simp add: raminode_ok_def)
  have "unat n \<le> unat (cap - off)" using nn by (simp add: word_le_nat_alt word_less_nat_alt)
  then have fits: "unat off + unat n \<le> RAMFILE_CAP"
    using ramfile_get_cap [OF g] off by (simp add: word_le_nat_alt unat_sub)
  then have sum: "unat (off + n) = unat off + unat n"
    by (simp add: unat_word_ariths RAMFILE_CAP_def)
  let ?bs = "load_bytes (user_base k) (k_mem k) buf (unat n)"
  have lb: "length ?bs = unat n" by (simp add: load_bytes_def)
  note gs = get_after_store [OF ok g, of "unat off" ?bs "off + n", unfolded lb sum, OF fits fits]
  show ?thesis
  proof (cases "sz < off + n")
    case True
    then have "k1 = (set_kind d (FDESC_RAMFILE i (off + n)) k)\<lparr>k_vfs :=
        snd (vfs_ramfile_set_size i (off + n) (vfs_ramfile_store i (unat off) ?bs (k_vfs k)))\<rparr>"
      using k1 by simp
    then show ?thesis using gs(2) ld fits sum [symmetric] by fastforce
  next
    case False
    then have "unat off + unat n \<le> unat sz" using sum by (simp add: word_less_nat_alt not_less)
    moreover have "k1 = (set_kind d (FDESC_RAMFILE i (off + n)) k)\<lparr>k_vfs := vfs_ramfile_store i (unat off) ?bs (k_vfs k)\<rparr>"
      using k1 False by simp
    ultimately show ?thesis using gs(1) ld fits by fastforce
  qed
qed

text \<open>
  C34: Bytes written to an overlay file are read back: after a successful write of \<open>n\<close> bytes at the
  current offset, seeking back to that offset and reading \<open>n\<close> bytes into any valid buffer succeeds in
  full and puts there exactly the bytes that were written.
\<close>

theorem write_then_read:
  assumes "vfs_ok (k_vfs k)" and d: "desc_of fd k = Some d" "d < length (fs_descs (k_fd k))" and kd: "kind_of d k = FDESC_RAMFILE i off"
    and w: "sys_write fd buf len k = (n, out, k1)" and n: "n \<noteq> 0" "\<not> is_err n" and buf2: "user_range_ok buf2 n"
  shows "\<exists>k2 k3. sys_lseek fd off 0 k1 = (off, k2) \<and> sys_read nv turns rg fd buf2 n k2 = Returns n rg k3 \<and>
    load_bytes (user_base k) (k_mem k3) buf2 (unat n) = load_bytes (user_base k) (k_mem k) buf (unat n)"
proof -
  let ?bs = "load_bytes (user_base k) (k_mem k) buf (unat n)"
  have "write_ramfile d i off buf len k = (n, k1)"
    using w d kd by (auto simp: sys_write_def split: prod.splits)
  then obtain data sz cap md v where k1: "k1 = (set_kind d (FDESC_RAMFILE i (off + n)) k)\<lparr>k_vfs := v\<rparr>"
    and g: "vfs_ramfile_get i v = Inr (overwrite (unat off) ?bs data, sz, cap, md)"
    and ld: "length data = RAMFILE_CAP" and fits: "unat off + unat n \<le> RAMFILE_CAP" "unat off + unat n \<le> unat sz"
    using write_ramfile_result [OF assms(1) _ n] by blast
  have un: "0 < unat n" using n(1) by (simp add: unat_gt_0)
  have "unat off < 9223372036854775808" using fits(1) by (simp add: RAMFILE_CAP_def)
  note so = sint_small [OF this]
  have st: "seek_target 0 off (off + n) (Some sz) = Some off" by (simp add: seek_target_def so)
  have "\<not> sz < off" using fits(2) by (simp add: word_less_nat_alt)
  define k2 where "k2 = set_kind d (FDESC_RAMFILE i off) k1"
  have pos: "sys_lseek fd off 0 k1 = (off, k2)"
    using d k1 st g \<open>\<not> sz < off\<close> by (simp add: sys_lseek_def seek_file_def k2_def)
  have e: "desc_of fd k2 = Some d" "kind_of d k2 = FDESC_RAMFILE i off" "k_vfs k2 = v" "user_base k2 = user_base k"
    using d by (simp_all add: k2_def k1)
  have lt: "\<not> sz \<le> off" using fits(2) un by (simp add: word_le_nat_alt)
  have "unat (sz - off) = unat sz - unat off" using lt by (simp add: unat_sub word_le_nat_alt)
  then have "n \<le> sz - off" using fits(2) by (simp add: word_le_nat_alt)
  then have "(if n < sz - off then n else sz - off) = n" by auto
  then have "read_now nv d buf2 n k2 = (n, (set_kind d (FDESC_RAMFILE i (off + n)) k2)
      \<lparr>k_mem := store_bytes (user_base k) buf2 (take (unat n) (drop (unat off) (overwrite (unat off) ?bs data))) (k_mem k2)\<rparr>)"
    using e g lt by (simp add: read_now_def read_at_def Let_def)
  then obtain k3 where r: "read_now nv d buf2 n k2 = (n, k3)"
    and k3: "k_mem k3 = store_bytes (user_base k) buf2 (take (unat n) (drop (unat off) (overwrite (unat off) ?bs data))) (k_mem k2)"
    by simp
  have lb: "length ?bs = unat n" by (simp add: load_bytes_def)
  have "take (unat n) (drop (unat off) (overwrite (unat off) ?bs data)) = ?bs"
    using overwrite_read [of "unat off" ?bs data] fits(1) ld lb by simp
  moreover have "unat n < 2 ^ 64" using unsigned_less [of n] by simp
  ultimately have "load_bytes (user_base k) (k_mem k3) buf2 (length ?bs) = ?bs"
    using buf2 k3 lb load_store_bytes [of buf2 ?bs "user_base k" "k_mem k2"]
    by simp
  moreover have "sys_read nv turns rg fd buf2 n k2 = Returns n rg k3"
    using r e buf2 n(1) by (simp add: sys_read_def)
  ultimately show ?thesis using pos lb by auto
qed

text \<open>A process with an empty overlay file open as descriptor 0.\<close>

definition file_kernel :: kernel where
  "file_kernel = kernel_bss\<lparr>k_procs := [proc_clear\<lparr>p_state := PROC_RUNNABLE, p_fdt := (replicate MAX_FDS None)[0 := Some 0]\<rparr>],
     k_vfs := vfs_one_file,
     k_fd := (k_fd kernel_bss)\<lparr>fs_descs := (replicate MAX_FILEDESCS desc_cleared)[0 := \<lparr>fd_kind = FDESC_RAMFILE 0 0, fd_refs = 1\<rparr>]\<rparr>\<rparr>"

lemma file_kernel_desc:
  "desc_of 0 file_kernel = Some 0" "length (fs_descs (k_fd file_kernel)) = 64" "kind_of 0 file_kernel = FDESC_RAMFILE 0 0"
  by (simp_all add: file_kernel_def kernel_bss_def desc_of_def cur_proc_def fd_get_desc_idx_def kind_of_def MAX_FDS_def MAX_FILEDESCS_def)

lemma file_kernel_get: "\<exists>d md. vfs_ramfile_get 0 (k_vfs file_kernel) = Inr (d, 0, word_of_nat RAMFILE_CAP, md)"
  unfolding file_kernel_def vfs_one_file_def create_first
  by (simp add: vfs_ramfile_get_def vfs_ramfile_inode_def vfs_init_def MAX_RAMFILES_def MAX_RAMINODES_def)

lemma file_kernel_write: "\<exists>k1. sys_write 0 0x400000 3 file_kernel = (3, [], k1)"
proof -
  obtain d md where "vfs_ramfile_get 0 (k_vfs file_kernel) = Inr (d, 0, word_of_nat RAMFILE_CAP, md)"
    using file_kernel_get by blast
  moreover have "user_range_ok 0x400000 3" by (simp add: user_range_ok_def USER_REGION_BASE_def USER_REGION_SIZE_def)
  ultimately have "\<exists>k1. write_ramfile 0 0 0 0x400000 3 file_kernel = (3, k1)"
    by (simp add: write_ramfile_def Let_def RAMFILE_CAP_def)
  then show ?thesis using file_kernel_desc by (auto simp: sys_write_def)
qed

lemma write_then_read_witness:
  "\<exists>k1 k2 k3. sys_write 0 0x400000 3 file_kernel = (3, [], k1) \<and> sys_lseek 0 0 0 k1 = (0, k2) \<and>
     sys_read no_net [] (tf_zero, 0) 0 0x401000 3 k2 = Returns 3 (tf_zero, 0) k3 \<and>
     load_bytes (user_base file_kernel) (k_mem k3) 0x401000 (unat (3 :: u64)) =
     load_bytes (user_base file_kernel) (k_mem file_kernel) 0x400000 (unat (3 :: u64))"
proof -
  obtain k1 where w: "sys_write 0 0x400000 3 file_kernel = (3, [], k1)" using file_kernel_write by blast
  have ok: "vfs_ok (k_vfs file_kernel)" using vfs_one_file_ok by (simp add: file_kernel_def)
  have n: "(3 :: u64) \<noteq> 0" "\<not> is_err 3" "user_range_ok 0x401000 3"
    by (simp_all add: is_err_def user_range_ok_def USER_REGION_BASE_def USER_REGION_SIZE_def)
  show ?thesis
    using write_then_read [OF ok file_kernel_desc(1) _ file_kernel_desc(3) w n(1,2,3), of no_net "[]" "(tf_zero, 0)"] w
    by (auto simp: file_kernel_desc(2))
qed

subsection \<open>Where the code differs from its intent\<close>

text \<open>
  Making a directory at the root is meant to report that it exists (\<open>mkdir("/") => EEXIST\<close>); the
  check for an empty overlay name comes first and reports \<open>EINVAL\<close>.
\<close>

lemma mkdir_root_invalid:
  "user_path k u = Inr [slash] \<Longrightarrow> u \<noteq> 0 \<Longrightarrow> sys_mkdirat AT_FDCWD u mode k = (sys_err EINVAL, k)"
  by (simp add: sys_mkdirat_def to_no_slash_root)

text \<open>
  Listing \<open>/proc\<close> goes on after an entry that does not fit. With a buffer of 96 bytes, \<open>meminfo\<close> is
  passed over for \<open>net\<close> and the offset advances to 4, so the next call starts at \<open>net\<close>: no sequence of
  calls with that buffer ever returns \<open>meminfo\<close>.
\<close>

definition list_proc :: "u64 \<Rightarrow> u64 \<Rightarrow> u64 \<Rightarrow> u64 \<Rightarrow> kernel \<Rightarrow> dents_ctx" where
  "list_proc base off u n k =
     fold (\<lambda>(name, mode) dc. snd (dents_emit_cb base name mode dc)) proc_entries (dents_start off u n k)"

lemma proc_listing_skips:
  "list_proc base 0 u 96 k = \<lparr>dc_skip = 0, dc_emitted = 4, dc_buf_user = u, dc_buf_len = 96, dc_pos = 96,
     dc_mem = store_bytes base (u + 72) (dirent_bytes 4 24 ''net'' S_IFREG) (store_bytes base (u + 48) (dirent_bytes 3 24 ''ps'' S_IFREG)
       (store_bytes base (u + 24) (dirent_bytes 2 24 ''..'' S_IFDIR) (store_bytes base u (dirent_bytes 1 24 ''.'' S_IFDIR) (k_mem k))))\<rparr> \<and>
   list_proc base 4 u 96 k = \<lparr>dc_skip = 4, dc_emitted = 5, dc_buf_user = u, dc_buf_len = 96, dc_pos = 24,
     dc_mem = store_bytes base u (dirent_bytes 5 24 ''net'' S_IFREG) (k_mem k)\<rparr>"
  by (simp add: list_proc_def proc_entries_def dents_start_def dents_emit_cb_def align8_u64_def Let_def)

text \<open>
  A directory whose overlay entries do not all fit in the buffer cannot be listed: the result of the
  callback that ran out of room becomes \<open>ENOENT\<close>, after the entries that fit were stored.
\<close>

lemma listing_full_buffer_fails:
  assumes "desc_of fd k = Some d" and "kind_of d k = FDESC_INITRAMFS data sz 0 mode True []"
    and "k_archive k = []" and "overlay_paths (k_vfs k) = [''a'', ''b'']" and "user_range_ok u 48"
  shows "fst (sys_getdents64 fd u 48 k) = sys_err ENOENT"
  using assms
  by (simp add: sys_getdents64_def dents_start_def dents_emit_cb_def align8_u64_def vfs_list_dir_def vfs_lookup_abs_def
    vfs_list_emit_unique_def child_of_def first_segment_def MAX_PATH_def Let_def S_ISDIR_def S_IFDIR_def S_IFMT_def
    initramfs_list_dir_def)

end
