(* ===== verification/Ipv6.thy ===== *)
theory Ipv6
  imports Netif
begin

text \<open>
  The pure part of \<open>kernel-aarch64/net_ipv6.c\<close>: big-endian fields, the Internet checksum, IPv6
  addresses, the neighbour cache, prefix matching and the choice of next hop and source address.
  Addresses are lists of 16 bytes, hardware addresses lists of 6.
\<close>

definition IPV6_NH_ICMPV6 :: u8 where "IPV6_NH_ICMPV6 = 58"
definition IPV6_NH_UDP :: u8 where "IPV6_NH_UDP = 17"
definition IPV6_NH_TCP :: u8 where "IPV6_NH_TCP = 6"
definition ETH_TYPE_IPV6 :: u16 where "ETH_TYPE_IPV6 = 0x86DD"

subsection \<open>Big-endian fields\<close>

definition be16_load :: "u8 list \<Rightarrow> nat \<Rightarrow> u16" where
  "be16_load p i = push_bit 8 (ucast (p ! i)) OR ucast (p ! (i + 1))"

definition be32_load :: "u8 list \<Rightarrow> nat \<Rightarrow> u32" where
  "be32_load p i = push_bit 24 (ucast (p ! i)) OR push_bit 16 (ucast (p ! (i + 1))) OR
     push_bit 8 (ucast (p ! (i + 2))) OR ucast (p ! (i + 3))"

definition be16_store :: "u16 \<Rightarrow> u8 list" where
  "be16_store v = [ucast (drop_bit 8 v AND 0xff), ucast (v AND 0xff)]"

definition be32_store :: "u32 \<Rightarrow> u8 list" where
  "be32_store v = [ucast (drop_bit 24 v AND 0xff), ucast (drop_bit 16 v AND 0xff), ucast (drop_bit 8 v AND 0xff), ucast (v AND 0xff)]"

subsection \<open>The Internet checksum\<close>

definition csum_add16 :: "u32 \<Rightarrow> u16 \<Rightarrow> u32" where
  "csum_add16 s v = s + ucast v"

text \<open>The loop over pairs of bytes; a last odd byte is the high half of a word.\<close>

fun csum_add_buf :: "u32 \<Rightarrow> u8 list \<Rightarrow> u32" where
  "csum_add_buf s (a # b # bs) = csum_add_buf (csum_add16 s (push_bit 8 (ucast a) OR ucast b)) bs"
| "csum_add_buf s [a] = csum_add16 s (push_bit 8 (ucast a))"
| "csum_add_buf s [] = s"

lemma csum_fold_less:
  fixes s :: u32
  assumes "drop_bit 16 s \<noteq> 0"
  shows "unat ((s AND 0xffff) + drop_bit 16 s) < unat s"
proof -
  have hi: "unat (drop_bit 16 s) = unat s div 65536" by (simp add: drop_bit_eq_div unat_div)
  have "s AND 0xffff = take_bit 16 s" by (simp add: take_bit_eq_mask mask_eq_exp_minus_1)
  then have lo: "unat (s AND 0xffff) = unat s mod 65536" by (simp add: take_bit_eq_mod unat_mod)
  have "unat s div 65536 \<noteq> 0" using assms hi by (metis unat_eq_zero)
  moreover have "unat s < 2 ^ 32" using unsigned_less [of s] by simp
  ultimately have "unat s mod 65536 + unat s div 65536 < unat s"
    using div_mult_mod_eq [of "unat s" 65536] by linarith
  then show ?thesis using hi lo unat_plus_if' [of "s AND 0xffff" "drop_bit 16 s"] \<open>unat s < 2 ^ 32\<close>
    by (simp split: if_splits)
qed

function csum_fold :: "u32 \<Rightarrow> u32" where
  "csum_fold s = (if drop_bit 16 s = 0 then s else csum_fold ((s AND 0xffff) + drop_bit 16 s))"
  by pat_completeness auto

termination
  by (relation "measure unat") (simp_all add: csum_fold_less)

declare csum_fold.simps [simp del]

definition csum_finish :: "u32 \<Rightarrow> u16" where
  "csum_finish s = ucast (NOT (csum_fold s))"

text \<open>The pseudo header: both addresses, the 32-bit length, three zero bytes, the next header.\<close>

definition pseudo_checksum :: "u8 \<Rightarrow> u8 list \<Rightarrow> u8 list \<Rightarrow> u8 list \<Rightarrow> u16" where
  "pseudo_checksum nh src_ip dst_ip seg =
     csum_finish (csum_add_buf (csum_add_buf (csum_add_buf (csum_add_buf (csum_add_buf 0 src_ip) dst_ip)
       (be32_store (word_of_nat (length seg)))) [0, 0, 0, nh]) seg)"

definition icmpv6_checksum :: "u8 list \<Rightarrow> u8 list \<Rightarrow> u8 list \<Rightarrow> u16" where
  "icmpv6_checksum = pseudo_checksum 58"

definition udp6_checksum :: "u8 list \<Rightarrow> u8 list \<Rightarrow> u8 list \<Rightarrow> u16" where
  "udp6_checksum = pseudo_checksum 17"

definition tcp6_checksum :: "u8 list \<Rightarrow> u8 list \<Rightarrow> u8 list \<Rightarrow> u16" where
  "tcp6_checksum = pseudo_checksum IPV6_NH_TCP"

text \<open>Storing the checksum into its field, the same as clearing it when the value is zero.\<close>

definition put_csum :: "nat \<Rightarrow> u16 \<Rightarrow> u8 list \<Rightarrow> u8 list" where
  "put_csum off c seg = seg[off := ucast (drop_bit 8 c AND 0xff), off + 1 := ucast (c AND 0xff)]"

subsection \<open>Addresses\<close>

definition ipv6_is_multicast :: "u8 list \<Rightarrow> bool" where
  "ipv6_is_multicast ip \<longleftrightarrow> ip ! 0 = 0xff"

definition ipv6_is_linklocal :: "u8 list \<Rightarrow> bool" where
  "ipv6_is_linklocal ip \<longleftrightarrow> ip ! 0 = 0xfe \<and> ip ! 1 AND 0xc0 = 0x80"

definition ipv6_make_solicited_node_multicast :: "u8 list \<Rightarrow> u8 list" where
  "ipv6_make_solicited_node_multicast target =
     [0xff, 0x02, 0, 0, 0, 0, 0, 0, 0, 0, 0, 0x01, 0xff, target ! 13, target ! 14, target ! 15]"

definition ipv6_multicast_to_eth :: "u8 list \<Rightarrow> u8 list" where
  "ipv6_multicast_to_eth ip = [0x33, 0x33, ip ! 12, ip ! 13, ip ! 14, ip ! 15]"

definition ipv6_make_link_local_from_mac :: "u8 list \<Rightarrow> u8 list" where
  "ipv6_make_link_local_from_mac mac =
     [0xfe, 0x80, 0, 0, 0, 0, 0, 0, mac ! 0 XOR 0x02, mac ! 1, mac ! 2, 0xff, 0xfe, mac ! 3, mac ! 4, mac ! 5]"

definition ipv6_make_global_from_prefix64 :: "u8 list \<Rightarrow> u8 list \<Rightarrow> u8 list" where
  "ipv6_make_global_from_prefix64 prefix ll_ip = take 8 prefix @ drop 8 ll_ip"

definition ipv6_prefix_match :: "u8 list \<Rightarrow> u8 list \<Rightarrow> u8 \<Rightarrow> bool" where
  "ipv6_prefix_match ip prefix prefix_len \<longleftrightarrow>
     prefix_len \<noteq> 0 \<and> \<not> 128 < prefix_len \<and>
     (let full_bytes = unat (prefix_len div 8); rem_bits = unat (prefix_len mod 8) in
        (full_bytes \<noteq> 0 \<longrightarrow> take full_bytes ip = take full_bytes prefix) \<and>
        (rem_bits \<noteq> 0 \<longrightarrow> (let mk = ucast (push_bit (8 - rem_bits) (0xff :: u32)) :: u8 in
            ip ! full_bytes AND mk = prefix ! full_bytes AND mk)))"

definition ipv6_select_next_hop :: "netif \<Rightarrow> u8 list \<Rightarrow> u8 list res" where
  "ipv6_select_next_hop nif dst_ip =
     (if ipv6_is_multicast dst_ip \<or> ipv6_is_linklocal dst_ip then Inr dst_ip
      else if nf_prefix_len nif \<noteq> 0 \<and> ipv6_prefix_match dst_ip (nf_prefix nif) (nf_prefix_len nif) then Inr dst_ip
      else if nf_router_valid nif then Inr (nf_router nif)
      else Inl ENETUNREACH)"

definition ipv6_select_src_ip :: "netif \<Rightarrow> u8 list \<Rightarrow> u8 list option" where
  "ipv6_select_src_ip nif dst_ip =
     (if ipv6_is_linklocal dst_ip \<or> ipv6_is_multicast dst_ip
      then (if nf_ll_valid nif then Some (nf_ll nif) else None)
      else (if nf_global_valid nif then Some (nf_global nif) else None))"

subsection \<open>The neighbour cache\<close>

definition ND_CACHE_SIZE :: nat where "ND_CACHE_SIZE = 8"

record nd_entry =
  nd_used :: bool
  nd_ip :: "u8 list"
  nd_mac :: "u8 list"

definition nd_match :: "u8 list \<Rightarrow> nd_entry \<Rightarrow> bool" where
  "nd_match ip e \<longleftrightarrow> nd_used e \<and> nd_ip e = ip"

definition nd_lookup_mac :: "u8 list \<Rightarrow> nd_entry list \<Rightarrow> u8 list option" where
  "nd_lookup_mac ip nd = map_option (\<lambda>i. nd_mac (nd ! i)) (find_slot (nd_match ip) nd)"

definition nd_update :: "u8 list \<Rightarrow> u8 list \<Rightarrow> nd_entry list \<Rightarrow> nd_entry list" where
  "nd_update ip mac nd =
     (case find_slot (nd_match ip) nd of
        Some i \<Rightarrow> upd_at i (\<lambda>e. e\<lparr>nd_mac := mac\<rparr>) nd
      | None \<Rightarrow>
          let idx = (case find_slot (\<lambda>e. \<not> nd_used e) nd of Some i \<Rightarrow> i | None \<Rightarrow> 0)
          in upd_at idx (\<lambda>e. e\<lparr>nd_used := True, nd_ip := ip, nd_mac := mac\<rparr>) nd)"

subsection \<open>Options of neighbour discovery\<close>

text \<open>
  The loop over options shared by router advertisements, solicitations and advertisements: each
  option gives its own length in units of 8 bytes; the loop stops at a zero or overlong one.
\<close>

function nd_options :: "u8 list \<Rightarrow> u8 list list" where
  "nd_options opt =
     (if length opt < 2 then []
      else let opt_bytes = unat (opt ! 1) * 8
        in if opt_bytes = 0 \<or> length opt < opt_bytes then []
           else take opt_bytes opt # nd_options (drop opt_bytes opt))"
  by pat_completeness auto

termination
  by (relation "measure length") auto

declare nd_options.simps [simp del]

end
