(* ===== verification/Csum.thy ===== *)
theory Csum
  imports Ipv6
begin

text \<open>
  The checksum routines of \<open>net_ipv6.c\<close> compute the ones' complement checksum of RFC 1071: the
  complement of the sum of the 16-bit words modulo 65535. A segment with its checksum stored verifies
  to zero, and two segments that differ in one word never have the same checksum, unless that word
  changes between 0 and 0xffff.
\<close>

subsection \<open>The sum of the words\<close>

fun word_sum :: "u8 list \<Rightarrow> nat" where
  "word_sum (a # b # bs) = unat a * 256 + unat b + word_sum bs"
| "word_sum [a] = unat a * 256"
| "word_sum [] = 0"

lemma u8_lt: "unat (x :: u8) < 256"
  using unsigned_less [of x] by simp

lemma u16_lt: "unat (x :: u16) < 65536"
  using unsigned_less [of x] by simp

lemma unat_be16: "unat (push_bit 8 (ucast a) OR ucast b :: u16) = unat (a :: u8) * 256 + unat (b :: u8)"
proof -
  have "push_bit 8 (ucast a :: u16) OR ucast b = push_bit 8 (ucast a) + ucast b"
  proof (rule disjunctive_add_eq_or [symmetric])
    show "push_bit 8 (ucast a :: u16) AND ucast b = 0"
      by (rule bit_word_eqI) (auto simp: bit_simps dest: bit_imp_le_length)
  qed
  moreover have "unat (push_bit 8 (ucast a :: u16)) = unat a * 256"
    using u8_lt [of a] by (simp add: push_bit_eq_mult unat_word_ariths)
  ultimately show ?thesis using u8_lt [of a] u8_lt [of b] by (simp add: unat_word_ariths)
qed

lemma unat_be16_hi: "unat (push_bit 8 (ucast a) :: u16) = unat (a :: u8) * 256"
  using unat_be16 [of a 0] by simp

lemma word_sum_bound: "word_sum bs \<le> 65535 * ((length bs + 1) div 2)"
proof (induction bs rule: word_sum.induct)
  case (1 a b bs)
  then show ?case using u8_lt [of a] u8_lt [of b] by simp
next
  case (2 a)
  then show ?case using u8_lt [of a] by simp
qed simp

lemma csum_add_buf_sum:
  "unat s + word_sum bs < 2 ^ 32 \<Longrightarrow> unat (csum_add_buf s bs) = unat s + word_sum bs"
proof (induction s bs rule: csum_add_buf.induct)
  case (1 s a b bs)
  have "unat (csum_add16 s (push_bit 8 (ucast a) OR ucast b)) = unat s + (unat a * 256 + unat b)"
    using 1(2) by (simp add: csum_add16_def unat_word_ariths unat_be16)
  then show ?case using 1 by simp
next
  case (2 s a)
  then show ?case by (simp add: csum_add16_def unat_word_ariths unat_be16_hi)
qed simp

lemma word_sum_even: "even (length xs) \<Longrightarrow> word_sum (xs @ ys) = word_sum xs + word_sum ys"
  by (induction xs rule: word_sum.induct) auto

subsection \<open>Folding\<close>

definition ones_sum :: "nat \<Rightarrow> nat" where
  "ones_sum n = (if n = 0 then 0 else (n - 1) mod 65535 + 1)"

lemma ones_sum_step:
  assumes "65536 \<le> n"
  shows "ones_sum (n mod 65536 + n div 65536) = ones_sum n"
proof -
  define h l where "h = n div 65536" and "l = n mod 65536"
  have n: "n = 65536 * h + l" by (simp add: h_def l_def)
  have h: "0 < h" using assms by (simp add: h_def)
  have "n - 1 = (l + h - 1) + 65535 * h" using h n by simp
  then have "(n - 1) mod 65535 = (l + h - 1) mod 65535" by (metis mod_mult_self2)
  moreover have "l + h \<noteq> 0" "n \<noteq> 0" using h n by simp_all
  ultimately show ?thesis unfolding h_def [symmetric] l_def [symmetric] by (simp add: ones_sum_def)
qed

lemma unat_csum_fold: "unat (csum_fold s) = ones_sum (unat s)"
proof (induction s rule: csum_fold.induct)
  case (1 s)
  have hi: "unat (drop_bit 16 s) = unat s div 65536" by (simp add: drop_bit_eq_div unat_div)
  show ?case
  proof (cases "drop_bit 16 s = 0")
    case True
    then have "unat s < 65536" using hi by (simp add: div_eq_0_iff)
    then show ?thesis using True by (subst csum_fold.simps) (simp add: ones_sum_def)
  next
    case False
    have "s AND 0xffff = take_bit 16 s" by (simp add: take_bit_eq_mask mask_eq_exp_minus_1)
    then have lo: "unat (s AND 0xffff) = unat s mod 65536" by (simp add: take_bit_eq_mod unat_mod)
    have big: "65536 \<le> unat s" using False hi by (metis div_less not_le unat_0 word_unat_eq_iff)
    have "unat s < 2 ^ 32" using unsigned_less [of s] by simp
    then have "unat ((s AND 0xffff) + drop_bit 16 s) = unat s mod 65536 + unat s div 65536"
      using hi lo by (simp add: unat_plus_if')
    then show ?thesis using 1 False big by (subst csum_fold.simps) (simp add: ones_sum_step)
  qed
qed

lemma ones_sum_le: "ones_sum n \<le> 65535"
  using mod_less_divisor [of 65535 "n - 1"] by (auto simp: ones_sum_def Suc_le_eq)

lemma unat_csum_finish: "unat (csum_finish s) = 65535 - ones_sum (unat s)"
proof -
  have "ones_sum (unat s) < 2 ^ 16" using ones_sum_le [of "unat s"] by simp
  then have f: "unat (csum_fold s) < 65536" using unat_csum_fold by simp
  have "csum_finish s = NOT (ucast (csum_fold s))"
    by (rule bit_word_eqI) (auto simp: csum_finish_def bit_simps)
  moreover have "NOT x = (- 1) - x" for x :: u16
    by (simp add: not_eq_complement)
  moreover have "unat (- 1 - x :: u16) = 65535 - unat x" for x :: u16
    by (subst unat_sub) (simp_all add: unsigned_minus_1_eq_mask mask_eq_exp_minus_1)
  ultimately have "unat (csum_finish s) = 65535 - unat (ucast (csum_fold s) :: u16)"
    by simp
  then show ?thesis using f by (simp add: unat_csum_fold unsigned_ucast_eq take_bit_nat_eq_self)
qed


subsection \<open>Checksums of segments\<close>

definition pseudo_sum :: "u8 \<Rightarrow> u8 list \<Rightarrow> u8 list \<Rightarrow> u8 list \<Rightarrow> nat" where
  "pseudo_sum nh src dst seg =
     word_sum src + word_sum dst + word_sum (be32_store (word_of_nat (length seg))) + unat nh + word_sum seg"

text \<open>Every segment the stack builds or verifies is far shorter than what overflows the sum.\<close>

lemma unat_pseudo_checksum:
  assumes "length src = 16" and "length dst = 16" and "length seg \<le> 65535"
  shows "unat (pseudo_checksum nh src dst seg) = 65535 - ones_sum (pseudo_sum nh src dst seg)"
proof -
  let ?len = "be32_store (word_of_nat (length seg))"
  have b: "word_sum src \<le> 524280" "word_sum dst \<le> 524280" "word_sum ?len \<le> 131070"
    using word_sum_bound [of src] word_sum_bound [of dst] word_sum_bound [of ?len] assms
    by (simp_all add: be32_store_def)
  have "(length seg + 1) div 2 \<le> 32768" using assms(3) by simp
  then have s: "word_sum seg \<le> 65535 * 32768"
    using word_sum_bound [of seg] mult_le_mono2 [of _ 32768 65535] le_trans by blast
  have nh: "word_sum [0, 0, 0, nh] = unat nh" "unat nh < 256" using u8_lt [of nh] by simp_all
  have 1: "unat (csum_add_buf 0 src) = word_sum src"
    using b by (subst csum_add_buf_sum) simp_all
  have 2: "unat (csum_add_buf (csum_add_buf 0 src) dst) = word_sum src + word_sum dst"
    using b 1 by (subst csum_add_buf_sum) simp_all
  have 3: "unat (csum_add_buf (csum_add_buf (csum_add_buf 0 src) dst) ?len) = word_sum src + word_sum dst + word_sum ?len"
    using b 2 by (subst csum_add_buf_sum) simp_all
  have 4: "unat (csum_add_buf (csum_add_buf (csum_add_buf (csum_add_buf 0 src) dst) ?len) [0, 0, 0, nh]) =
      word_sum src + word_sum dst + word_sum ?len + unat nh"
    using b 3 nh by (subst csum_add_buf_sum) simp_all
  have 5: "unat (csum_add_buf (csum_add_buf (csum_add_buf (csum_add_buf (csum_add_buf 0 src) dst) ?len) [0, 0, 0, nh]) seg) =
      pseudo_sum nh src dst seg"
    unfolding pseudo_sum_def using b 4 nh s by (subst csum_add_buf_sum) simp_all
  show ?thesis
    unfolding pseudo_checksum_def unat_csum_finish 5 by (rule refl)
qed

lemma and_mask_255: "unat (ucast (x AND 0xff) :: u8) = unat (x :: u16) mod 256"
proof -
  have "x AND 0xff = take_bit 8 x" by (simp add: take_bit_eq_mask mask_eq_exp_minus_1)
  then show ?thesis by (simp add: unsigned_ucast_eq take_bit_eq_mod unat_mod)
qed

lemma word_sum_put_csum:
  assumes "even off" and "Suc off < length seg" and "seg ! off = 0" and "seg ! Suc off = 0"
  shows "word_sum (put_csum off c seg) = word_sum seg + unat c"
proof -
  obtain a b where seg: "seg = a @ 0 # 0 # b" "length a = off"
    using assms id_take_nth_drop [of off seg] by (metis Cons_nth_drop_Suc Suc_lessD append_take_drop_id length_take min.absorb2 order_less_imp_le)
  have c: "unat (ucast (drop_bit 8 c AND 0xff) :: u8) * 256 + unat (ucast (c AND 0xff) :: u8) = unat c"
  proof -
    have "unat (ucast (drop_bit 8 c AND 0xff) :: u8) = unat c div 256 mod 256"
      by (simp add: and_mask_255 drop_bit_eq_div unat_div)
    moreover have "unat (ucast (c AND 0xff) :: u8) = unat c mod 256"
      by (simp add: and_mask_255)
    moreover have "unat c div 256 < 256" using u16_lt [of c] by simp
    ultimately show ?thesis by simp
  qed
  show ?thesis using assms(1) c seg by (simp add: put_csum_def list_update_append word_sum_even)
qed


lemma length_put_csum [simp]: "length (put_csum off c seg) = length seg"
  by (simp add: put_csum_def)

text \<open>A stored checksum verifies: the checksum over the segment with its checksum is zero.\<close>

lemma checksum_verifies:
  assumes len: "length src = 16" "length dst = 16" "length seg \<le> 65535"
    and fld: "even off" "Suc off < length seg" "seg ! off = 0" "seg ! Suc off = 0" and nh: "nh \<noteq> 0"
  shows "pseudo_checksum nh src dst (put_csum off (pseudo_checksum nh src dst seg) seg) = 0"
proof -
  let ?c = "pseudo_checksum nh src dst seg"
  define S where "S = pseudo_sum nh src dst seg"
  have c: "unat ?c = 65535 - ones_sum S" using unat_pseudo_checksum [OF len] by (simp add: S_def)
  have "0 < unat nh" using nh by (simp add: word_neq_0_conv [symmetric] unat_gt_0)
  then have S: "0 < S" by (simp add: S_def pseudo_sum_def)
  have new: "pseudo_sum nh src dst (put_csum off ?c seg) = S + unat ?c"
    using word_sum_put_csum [OF fld, of ?c] by (simp add: S_def pseudo_sum_def)
  define r where "r = (S - 1) mod 65535"
  have r: "r \<le> 65534" by (simp add: r_def less_Suc_eq_le [symmetric])
  have q: "S - 1 = 65535 * ((S - 1) div 65535) + r" by (simp add: r_def)
  have c': "unat ?c = 65534 - r" using c S by (simp add: ones_sum_def r_def)
  have "S + unat ?c - 1 = 65535 * ((S - 1) div 65535) + 65534"
    using S r q c' by linarith
  then have "ones_sum (S + unat ?c) = 65535" using S by (simp add: ones_sum_def)
  then have "unat (pseudo_checksum nh src dst (put_csum off ?c seg)) = 0"
    using unat_pseudo_checksum [of src dst "put_csum off ?c seg" nh] len new by simp
  then show ?thesis by (simp add: unat_eq_zero)
qed

text \<open>Equal checksums mean equal sums of words modulo 65535.\<close>

lemma ones_sum_mod: "ones_sum a = ones_sum b \<Longrightarrow> a mod 65535 = b mod 65535"
proof -
  have "ones_sum n mod 65535 = n mod 65535" for n
  proof (cases n)
    case (Suc m)
    have "(m mod 65535 + 1) mod 65535 = (m + 1) mod 65535" by (rule mod_add_left_eq)
    then show ?thesis using Suc by (simp add: ones_sum_def)
  qed (simp add: ones_sum_def)
  then show "ones_sum a = ones_sum b \<Longrightarrow> a mod 65535 = b mod 65535" by metis
qed

lemma mod_cancel: "(k + x) mod m = (k + y) mod m \<Longrightarrow> x mod m = (y :: nat) mod m"
proof -
  assume "(k + x) mod m = (k + y) mod m"
  then have "int (k + x) mod int m = int (k + y) mod int m" by (metis zmod_int)
  then have "int x mod int m = int y mod int m" by (simp add: mod_eq_dvd_iff)
  then show ?thesis by (metis zmod_int of_nat_eq_iff)
qed

lemma checksum_equal_sums:
  assumes "length src = 16" "length dst = 16" "length seg \<le> 65535" "length seg' = length seg"
    and "pseudo_checksum nh src dst seg' = pseudo_checksum nh src dst seg"
  shows "word_sum seg' mod 65535 = word_sum seg mod 65535"
proof -
  have "65535 - ones_sum (pseudo_sum nh src dst seg') = 65535 - ones_sum (pseudo_sum nh src dst seg)"
    using unat_pseudo_checksum [of src dst seg nh] unat_pseudo_checksum [of src dst seg' nh] assms by simp
  then have "ones_sum (pseudo_sum nh src dst seg') = ones_sum (pseudo_sum nh src dst seg)"
    using ones_sum_le [of "pseudo_sum nh src dst seg"] ones_sum_le [of "pseudo_sum nh src dst seg'"] by linarith
  then have "pseudo_sum nh src dst seg' mod 65535 = pseudo_sum nh src dst seg mod 65535" by (rule ones_sum_mod)
  then show ?thesis unfolding pseudo_sum_def assms(4) by (rule mod_cancel)
qed

lemma one_word_changed:
  fixes x y :: nat
  assumes "(a + x + b) mod 65535 = (a + y + b) mod 65535" and "x \<le> 65535" and "y \<le> 65535" and "x \<noteq> y"
  shows "{x, y} = {0, 65535}"
  using assms
proof -
  have "int ((a + x + b) mod 65535) = int ((a + y + b) mod 65535)" using assms(1) by simp
  then have "(65535 :: int) dvd int x - int y"
    by (simp add: zmod_int mod_eq_dvd_iff)
  then obtain z where z: "int x - int y = 65535 * z" by (auto elim: dvdE)
  then have "z = 1 \<or> z = - 1 \<or> z = 0" using assms(2,3) by arith
  then show ?thesis using z assms(2-4) by auto
qed

text \<open>
  Verifying: \<open>put_csum off 0\<close> clears the field; the sum with the field equals the checksum of the rest
  plus the stored value.
\<close>

lemma checksum_field_zeroed:
  "Suc off < length seg \<Longrightarrow> seg ! off = 0 \<Longrightarrow> seg ! Suc off = 0 \<Longrightarrow> put_csum off 0 (put_csum off c seg) = seg"
  by (auto simp: put_csum_def list_eq_iff_nth_eq nth_list_update)

lemma be16_load_put_csum:
  "Suc off < length seg \<Longrightarrow> be16_load (put_csum off c seg) off = c"
proof -
  have ff: "(0xff :: u16) = mask 8" by (simp add: mask_eq_exp_minus_1)
  assume "Suc off < length seg"
  then have "be16_load (put_csum off c seg) off =
      push_bit 8 (ucast (ucast (drop_bit 8 c AND 0xff) :: u8)) OR ucast (ucast (c AND 0xff) :: u8)"
    by (simp add: be16_load_def put_csum_def nth_list_update)
  also have "\<dots> = c"
    unfolding ff by (rule bit_word_eqI) (auto simp: bit_simps)
  finally show ?thesis .
qed

end
