(* ===== verification/NetSend.thy ===== *)
theory NetSend
  imports Sched Ipv6
begin

text \<open>
  The state of the packet layer of \<open>kernel-aarch64/net_ipv6.c\<close> and \<open>net.c\<close>, and everything that
  sends: Ethernet framing, ICMPv6, neighbour and router discovery, UDP datagrams, TCP segments.

  \<open>w_now\<close> is what \<open>time_now_ns\<close> returns while one call runs; \<open>w_out\<close> collects the frames the
  drivers took, with the index of the interface; \<open>w_filters\<close> the multicast lists they were given;
  \<open>w_drv\<close> says which frames a driver takes.
\<close>

record ping =
  pi_inflight :: bool
  pi_proc :: "nat option"
  pi_nif :: "nat option"
  pi_dst :: "u8 list"
  pi_nh :: "u8 list"
  pi_ident :: u16
  pi_seq :: u16
  pi_phase :: nat

record world =
  w_k :: kernel
  w_ifs :: "netif list"
  w_nd :: "nd_entry list"
  w_dbg :: ipv6_debug
  w_ping :: ping
  w_now :: u64
  w_out :: "(nat \<times> u8 list) list"
  w_filters :: "(nat \<times> u8 list) list"
  w_drv :: "nat \<Rightarrow> u8 list \<Rightarrow> bool"

definition the_nif :: "nat \<Rightarrow> world \<Rightarrow> netif" where
  "the_nif i w = w_ifs w ! i"

definition set_nif :: "nat \<Rightarrow> (netif \<Rightarrow> netif) \<Rightarrow> world \<Rightarrow> world" where
  "set_nif i f w = w\<lparr>w_ifs := upd_at i f (w_ifs w)\<rparr>"

definition upd_dbg :: "(ipv6_debug \<Rightarrow> ipv6_debug) \<Rightarrow> world \<Rightarrow> world" where
  "upd_dbg f w = w\<lparr>w_dbg := f (w_dbg w)\<rparr>"

definition tcp_of :: "world \<Rightarrow> tcp6_state" where
  "tcp_of w = fs_tcp (k_fd (w_k w))"

definition set_tcp :: "tcp6_state \<Rightarrow> world \<Rightarrow> world" where
  "set_tcp t w = w\<lparr>w_k := (w_k w)\<lparr>k_fd := (k_fd (w_k w))\<lparr>fs_tcp := t\<rparr>\<rparr>\<rparr>"

definition upd_conn :: "nat \<Rightarrow> (tcp6_conn \<Rightarrow> tcp6_conn) \<Rightarrow> world \<Rightarrow> world" where
  "upd_conn cid f w = set_tcp ((tcp_of w)\<lparr>tt_conns := upd_at cid f (tt_conns (tcp_of w))\<rparr>) w"

definition udp_of :: "world \<Rightarrow> udp6_state" where
  "udp_of w = fs_udp (k_fd (w_k w))"

definition set_udp :: "udp6_state \<Rightarrow> world \<Rightarrow> world" where
  "set_udp u w = w\<lparr>w_k := (w_k w)\<lparr>k_fd := (k_fd (w_k w))\<lparr>fs_udp := u\<rparr>\<rparr>\<rparr>"

subsection \<open>Frames\<close>

definition netif_tx_frame :: "nat \<Rightarrow> u8 list \<Rightarrow> world \<Rightarrow> bool \<times> world" where
  "netif_tx_frame i frame w =
     (if frame = [] then (False, w)
      else if \<not> nf_has_tx (the_nif i w) then (False, set_nif i (\<lambda>n. n\<lparr>nf_tx_drops := nf_tx_drops n + 1\<rparr>) w)
      else if w_drv w i frame
      then (True, (set_nif i (\<lambda>n. n\<lparr>nf_tx_frames := nf_tx_frames n + 1\<rparr>) w)\<lparr>w_out := w_out w @ [(i, frame)]\<rparr>)
      else (False, set_nif i (\<lambda>n. n\<lparr>nf_tx_drops := nf_tx_drops n + 1\<rparr>) w))"

text \<open>The frame buffer holds an Ethernet header and 160 bytes.\<close>

definition eth_send_ipv6 :: "nat \<Rightarrow> u8 list \<Rightarrow> u8 list \<Rightarrow> world \<Rightarrow> unit res \<times> world" where
  "eth_send_ipv6 i dst_mac ipv6_pkt w =
     (if ipv6_pkt = [] then (Inl EINVAL, w)
      else if nf_mtu (the_nif i w) \<noteq> 0 \<and> unat (nf_mtu (the_nif i w)) < length ipv6_pkt then (Inl EMSGSIZE, w)
      else if 160 < length ipv6_pkt then (Inl EMSGSIZE, w)
      else case netif_tx_frame i (dst_mac @ nf_mac (the_nif i w) @ be16_store ETH_TYPE_IPV6 @ ipv6_pkt) w of
        (ok, w') \<Rightarrow> (if ok then Inr () else Inl EIO, w'))"

text \<open>The fixed header: version 6, no traffic class or flow label.\<close>

definition ip6_header :: "nat \<Rightarrow> u8 \<Rightarrow> u8 \<Rightarrow> u8 list \<Rightarrow> u8 list \<Rightarrow> u8 list" where
  "ip6_header payload_len nh hop_limit src dst =
     be32_store 0x60000000 @ be16_store (word_of_nat payload_len) @ [nh, hop_limit] @ src @ dst"

subsection \<open>ICMPv6\<close>

definition icmp_segment :: "u8 list \<Rightarrow> u8 list \<Rightarrow> u8 \<Rightarrow> u8 \<Rightarrow> u8 list \<Rightarrow> u8 list" where
  "icmp_segment src dst ty code body =
     (let icmp = [ty, code, 0, 0] @ body in put_csum 2 (icmpv6_checksum src dst icmp) icmp)"

definition ipv6_send_icmp ::
  "nat \<Rightarrow> u8 list option \<Rightarrow> u8 list \<Rightarrow> u8 list \<Rightarrow> u8 \<Rightarrow> u8 \<Rightarrow> u8 \<Rightarrow> u8 list \<Rightarrow> world \<Rightarrow> unit res \<times> world"
where
  "ipv6_send_icmp i src_ip_opt dst_ip dst_mac hop_limit ty code body w =
     (if 40 + 128 < 40 + (4 + length body) then (Inl EMSGSIZE, w)
      else case (case src_ip_opt of Some s \<Rightarrow> Some s | None \<Rightarrow> ipv6_select_src_ip (the_nif i w) dst_ip) of
        None \<Rightarrow> (Inl EAFNOSUPPORT, w)
      | Some src \<Rightarrow>
          eth_send_ipv6 i dst_mac
            (ip6_header (4 + length body) IPV6_NH_ICMPV6 hop_limit src dst_ip @ icmp_segment src dst_ip ty code body) w)"

definition ICMPV6_ECHO_REQUEST :: u8 where "ICMPV6_ECHO_REQUEST = 128"
definition ICMPV6_ECHO_REPLY :: u8 where "ICMPV6_ECHO_REPLY = 129"
definition ICMPV6_ROUTER_SOLICIT :: u8 where "ICMPV6_ROUTER_SOLICIT = 133"
definition ICMPV6_ROUTER_ADVERT :: u8 where "ICMPV6_ROUTER_ADVERT = 134"
definition ICMPV6_NEIGHBOR_SOLICIT :: u8 where "ICMPV6_NEIGHBOR_SOLICIT = 135"
definition ICMPV6_NEIGHBOR_ADVERT :: u8 where "ICMPV6_NEIGHBOR_ADVERT = 136"

text \<open>Neighbour messages: flags and reserved bytes, the target, and one link-layer address option.\<close>

definition nd_body :: "u8 \<Rightarrow> u8 list \<Rightarrow> u8 \<Rightarrow> u8 list \<Rightarrow> u8 list" where
  "nd_body flags target opt mac = [flags, 0, 0, 0] @ target @ [opt, 1] @ mac"

definition send_neighbor_solicitation :: "nat \<Rightarrow> u8 list \<Rightarrow> world \<Rightarrow> unit res \<times> world" where
  "send_neighbor_solicitation i target_ip w =
     (let dst_ip = ipv6_make_solicited_node_multicast target_ip
      in ipv6_send_icmp i None dst_ip (ipv6_multicast_to_eth dst_ip) 255 ICMPV6_NEIGHBOR_SOLICIT 0
           (nd_body 0 target_ip 1 (nf_mac (the_nif i w))) (upd_dbg (\<lambda>d. d\<lparr>db_tx_ns := db_tx_ns d + 1\<rparr>) w))"

definition send_neighbor_advertisement :: "nat \<Rightarrow> u8 list \<Rightarrow> u8 list \<Rightarrow> u8 list \<Rightarrow> world \<Rightarrow> unit res \<times> world" where
  "send_neighbor_advertisement i dst_ip dst_mac target_ip w =
     ipv6_send_icmp i None dst_ip dst_mac 255 ICMPV6_NEIGHBOR_ADVERT 0
       (nd_body 0x60 target_ip 2 (nf_mac (the_nif i w))) w"

definition all_nodes :: "u8 list" where
  "all_nodes = [0xff, 0x02] @ replicate 13 0 @ [0x01]"

definition all_routers :: "u8 list" where
  "all_routers = [0xff, 0x02] @ replicate 13 0 @ [0x02]"

definition send_unsolicited_neighbor_advertisement :: "nat \<Rightarrow> u8 list \<Rightarrow> world \<Rightarrow> world" where
  "send_unsolicited_neighbor_advertisement i target_ip w =
     (let body = nd_body 0x20 target_ip 2 (nf_mac (the_nif i w));
          una = (\<lambda>dst_ip dst_mac w. snd (ipv6_send_icmp i (Some target_ip) dst_ip dst_mac 255 ICMPV6_NEIGHBOR_ADVERT 0 body w));
          w1 = una all_nodes (ipv6_multicast_to_eth all_nodes) w
      in if \<not> nf_router_valid (the_nif i w1) then w1
         else case nd_lookup_mac (nf_router (the_nif i w1)) (w_nd w1) of
           None \<Rightarrow> w1
         | Some rmac \<Rightarrow>
             let w2 = (if nf_prefix_len (the_nif i w1) = 64
                       then una (take 8 (nf_prefix (the_nif i w1)) @ replicate 7 0 @ [1]) rmac w1 else w1)
             in una (nf_router (the_nif i w2)) rmac w2)"

definition send_router_solicitation :: "nat \<Rightarrow> world \<Rightarrow> unit res \<times> world" where
  "send_router_solicitation i w =
     ipv6_send_icmp i None all_routers (ipv6_multicast_to_eth all_routers) 255 ICMPV6_ROUTER_SOLICIT 0
       ([0, 0, 0, 0, 1, 1] @ nf_mac (the_nif i w)) (upd_dbg (\<lambda>d. d\<lparr>db_tx_rs := db_tx_rs d + 1\<rparr>) w)"

definition send_echo_request :: "nat \<Rightarrow> u8 list \<Rightarrow> u8 list \<Rightarrow> u16 \<Rightarrow> u16 \<Rightarrow> world \<Rightarrow> unit res \<times> world" where
  "send_echo_request i dst_ip dst_mac ident seq w =
     ipv6_send_icmp i None dst_ip dst_mac 64 ICMPV6_ECHO_REQUEST 0
       (be16_store ident @ be16_store seq @ map (\<lambda>j. word_of_nat (65 + j mod 26)) [0..<32])
       (upd_dbg (\<lambda>d. d\<lparr>db_tx_echo_req := db_tx_echo_req d + 1\<rparr>) w)"

definition send_echo_reply :: "nat \<Rightarrow> u8 list option \<Rightarrow> u8 list \<Rightarrow> u8 list \<Rightarrow> u8 list \<Rightarrow> world \<Rightarrow> unit res \<times> world" where
  "send_echo_reply i src_ip_opt dst_ip dst_mac echo_body w =
     ipv6_send_icmp i src_ip_opt dst_ip dst_mac 64 ICMPV6_ECHO_REPLY 0 echo_body w"

subsection \<open>Bringing an interface up\<close>

definition netif_ipv6_update_multicast_list :: "nat \<Rightarrow> world \<Rightarrow> world" where
  "netif_ipv6_update_multicast_list i w =
     (let n = the_nif i w in
      if \<not> nf_has_mcast n then w
      else let sn = (if nf_global_valid n then Some (nf_global n) else if nf_ll_valid n then Some (nf_ll n) else None)
        in w\<lparr>w_filters := w_filters w @
               [(i, [0x33, 0x33, 0, 0, 0, 1] @ [0x33, 0x33, 0, 0, 0, 2] @
                  (case sn of None \<Rightarrow> [] | Some t \<Rightarrow> ipv6_multicast_to_eth (ipv6_make_solicited_node_multicast t)) @
                  [0x33, 0x33, 0, 0, 0, 0x16])]\<rparr>)"

definition net_ipv6_configure_netif :: "nat \<Rightarrow> world \<Rightarrow> world" where
  "net_ipv6_configure_netif i w =
     (let w1 = set_nif i (\<lambda>n. n\<lparr>nf_ll := ipv6_make_link_local_from_mac (nf_mac n), nf_ll_valid := True\<rparr>) w;
          w2 = snd (send_router_solicitation i (netif_ipv6_update_multicast_list i w1))
      in set_nif i (\<lambda>n. n\<lparr>nf_last_rs_ns := w_now w\<rparr>) w2)"

definition need_ll :: "nat \<Rightarrow> world \<Rightarrow> world" where
  "need_ll i w = (if nf_ll_valid (the_nif i w) then w else net_ipv6_configure_netif i w)"

text \<open>Off-link traffic before a global address is known: ask for a router again, at most every 250 ms.\<close>

definition off_link :: "u8 list \<Rightarrow> bool" where
  "off_link dst_ip \<longleftrightarrow> \<not> ipv6_is_linklocal dst_ip \<and> \<not> ipv6_is_multicast dst_ip"

definition maybe_solicit_router :: "nat \<Rightarrow> world \<Rightarrow> world" where
  "maybe_solicit_router i w =
     (let now = w_now w; prev = nf_last_rs_ns (the_nif i w) in
      if now \<noteq> 0 \<and> (prev = 0 \<or> 250000000 \<le> now - prev)
      then set_nif i (\<lambda>n. n\<lparr>nf_last_rs_ns := now\<rparr>) (snd (send_router_solicitation i w))
      else w)"

text \<open>The hardware address of the next hop, asking for it when it is not in the cache.\<close>

definition hop_mac :: "nat \<Rightarrow> u8 list \<Rightarrow> u8 list \<Rightarrow> world \<Rightarrow> u8 list res \<times> world" where
  "hop_mac i dst_ip nh_ip w =
     (case nd_lookup_mac nh_ip (w_nd w) of
        Some mac \<Rightarrow> (Inr mac, w)
      | None \<Rightarrow>
          let w1 = snd (send_neighbor_solicitation i nh_ip w); n = the_nif i w1 in
          if nf_router_valid n \<and> nh_ip = dst_ip \<and> \<not> ipv6_is_linklocal dst_ip \<and> \<not> ipv6_is_multicast dst_ip
          then (case nd_lookup_mac (nf_router n) (w_nd w1) of
                  Some rmac \<Rightarrow> (Inr rmac, w1)
                | None \<Rightarrow> (Inl EAGAIN, snd (send_neighbor_solicitation i (nf_router n) w1)))
          else (Inl EAGAIN, w1))"

definition next_hop_mac :: "nat \<Rightarrow> u8 list \<Rightarrow> world \<Rightarrow> u8 list res \<times> world" where
  "next_hop_mac i dst_ip w =
     (case ipv6_select_next_hop (the_nif i w) dst_ip of
        Inl e \<Rightarrow> (Inl (if e = ENETUNREACH then EAGAIN else e), w)
      | Inr nh_ip \<Rightarrow> hop_mac i dst_ip nh_ip w)"

subsection \<open>UDP\<close>

definition udp_segment :: "u8 list \<Rightarrow> u8 list \<Rightarrow> u16 \<Rightarrow> u16 \<Rightarrow> u8 list \<Rightarrow> u8 list" where
  "udp_segment src dst src_port dst_port payload =
     (let udp = be16_store src_port @ be16_store dst_port @ be16_store (word_of_nat (8 + length payload)) @ [0, 0] @ payload
      in put_csum 6 (udp6_checksum src dst udp) udp)"

definition udp6_send_raw ::
  "nat \<Rightarrow> u8 list \<Rightarrow> u8 list \<Rightarrow> u8 list \<Rightarrow> u16 \<Rightarrow> u16 \<Rightarrow> u8 list \<Rightarrow> world \<Rightarrow> unit res \<times> world"
where
  "udp6_send_raw i src_ip dst_ip dst_mac src_port dst_port payload w =
     (if UDP6_MAX_PAYLOAD < length payload then (Inl EMSGSIZE, w)
      else eth_send_ipv6 i dst_mac
        (ip6_header (8 + length payload) IPV6_NH_UDP 64 src_ip dst_ip @ udp_segment src_ip dst_ip src_port dst_port payload) w)"

text \<open>The number of bytes sent, when there is no error.\<close>

definition udp6_send_from :: "nat \<Rightarrow> nat \<Rightarrow> u8 list \<Rightarrow> u8 list \<Rightarrow> u16 \<Rightarrow> errno \<Rightarrow> u8 list \<Rightarrow> world \<Rightarrow> nat res \<times> world" where
  "udp6_send_from i sid dst_ip mac dst_port no_src payload w =
     (case ipv6_select_src_ip (the_nif i w) dst_ip of
        None \<Rightarrow> (Inl no_src, w)
      | Some src \<Rightarrow>
          (case udp6_send_raw i src dst_ip mac (us_bound_port (ud_socks (udp_of w) ! sid)) dst_port payload w of
             (Inl e, w2) \<Rightarrow> (Inl e, w2)
           | (Inr u, w2) \<Rightarrow> (Inr (length payload), w2)))"

definition udp6_send_bound :: "nat \<Rightarrow> nat \<Rightarrow> u8 list \<Rightarrow> u16 \<Rightarrow> u8 list \<Rightarrow> world \<Rightarrow> nat res \<times> world" where
  "udp6_send_bound i sid dst_ip dst_port payload w =
     (if ipv6_is_multicast dst_ip then udp6_send_from i sid dst_ip (ipv6_multicast_to_eth dst_ip) dst_port EAFNOSUPPORT payload w
      else case next_hop_mac i dst_ip w of
        (Inl e, w1) \<Rightarrow> (Inl e, w1)
      | (Inr mac, w1) \<Rightarrow> udp6_send_from i sid dst_ip mac dst_port EAGAIN payload w1)"

definition net_udp6_sendto :: "nat \<Rightarrow> u8 list \<Rightarrow> u16 \<Rightarrow> u8 list \<Rightarrow> world \<Rightarrow> nat res \<times> world" where
  "net_udp6_sendto sid dst_ip dst_port payload w =
     (if UDP6_SOCKS \<le> sid then (Inl EBADF, w)
      else if \<not> us_used (ud_socks (udp_of w) ! sid) then (Inl EBADF, w)
      else if w_ifs w = [] then (Inl ENODEV, w)
      else let w1 = need_ll 0 w in
        if off_link dst_ip \<and> \<not> nf_global_valid (the_nif 0 w1) then (Inl EAGAIN, maybe_solicit_router 0 w1)
        else if us_bound (ud_socks (udp_of w1) ! sid) then udp6_send_bound 0 sid dst_ip dst_port payload w1
        else case udp6_bind_ephemeral sid (udp_of w1) of
          (Inl e, u) \<Rightarrow> (Inl e, set_udp u w1)
        | (Inr p, u) \<Rightarrow> udp6_send_bound 0 sid dst_ip dst_port payload (set_udp u w1))"

subsection \<open>TCP\<close>

definition TCP6_MSS :: nat where "TCP6_MSS = 1200"
definition TCP_FLG_FIN :: u8 where "TCP_FLG_FIN = 0x01"
definition TCP_FLG_SYN :: u8 where "TCP_FLG_SYN = 0x02"
definition TCP_FLG_PSH :: u8 where "TCP_FLG_PSH = 0x08"
definition TCP_FLG_ACK :: u8 where "TCP_FLG_ACK = 0x10"

text \<open>The 2000 tries for a local port.\<close>

fun tcp6_port_loop :: "nat \<Rightarrow> tcp6_state \<Rightarrow> u16 \<times> tcp6_state" where
  "tcp6_port_loop 0 st = (0, st)"
| "tcp6_port_loop (Suc tries) st =
     (let p = tt_ephemeral st;
          st' = st\<lparr>tt_ephemeral := (if p + 1 < 40000 then 40000 else p + 1)\<rparr>
      in if p = 0 \<or> list_ex (\<lambda>c. tc_used c \<and> tc_local_port c = p) (tt_conns st')
         then tcp6_port_loop tries st' else (p, st'))"

definition tcp6_next_ephemeral_port :: "tcp6_state \<Rightarrow> u16 \<times> tcp6_state" where
  "tcp6_next_ephemeral_port = tcp6_port_loop 2000"

definition tcp6_prepare_l2 :: "nat \<Rightarrow> u8 list \<Rightarrow> world \<Rightarrow> u8 list res \<times> world" where
  "tcp6_prepare_l2 i dst_ip w =
     (let w1 = need_ll i w in
      if off_link dst_ip \<and> \<not> nf_global_valid (the_nif i w1) then (Inl EAGAIN, maybe_solicit_router i w1)
      else if ipv6_is_multicast dst_ip then (Inr (ipv6_multicast_to_eth dst_ip), w1)
      else next_hop_mac i dst_ip w1)"

definition tcp_segment ::
  "u8 list \<Rightarrow> u8 list \<Rightarrow> u16 \<Rightarrow> u16 \<Rightarrow> u32 \<Rightarrow> u32 \<Rightarrow> u8 \<Rightarrow> u8 list \<Rightarrow> bool \<Rightarrow> u8 list"
where
  "tcp_segment src dst src_port dst_port seq ack flags payload syn_with_mss =
     (let opts = (if syn_with_mss then [2, 4] @ be16_store (word_of_nat TCP6_MSS) else []);
          off_rsv = push_bit 4 (word_of_nat ((20 + length opts) div 4) AND 0x0f);
          tcp = be16_store src_port @ be16_store dst_port @ be32_store seq @ be32_store ack @ [off_rsv, flags] @
            be16_store 4096 @ [0, 0] @ [0, 0] @ opts @ payload
      in put_csum 16 (tcp6_checksum src dst tcp) tcp)"

definition tcp6_send_segment ::
  "nat \<Rightarrow> u8 list \<Rightarrow> u8 list \<Rightarrow> u8 list \<Rightarrow> u16 \<Rightarrow> u16 \<Rightarrow> u32 \<Rightarrow> u32 \<Rightarrow> u8 \<Rightarrow> u8 list \<Rightarrow> bool \<Rightarrow> world \<Rightarrow> unit res \<times> world"
where
  "tcp6_send_segment i src_ip dst_ip dst_mac src_port dst_port seq ack flags payload syn_with_mss w =
     (let tcp_len = 20 + (if syn_with_mss then 4 else 0) + length payload in
      if 40 + 20 + 16 + TCP6_MSS < 40 + tcp_len then (Inl EMSGSIZE, w)
      else eth_send_ipv6 i dst_mac
        (ip6_header tcp_len IPV6_NH_TCP 64 src_ip dst_ip @
         tcp_segment src_ip dst_ip src_port dst_port seq ack flags payload syn_with_mss) w)"

text \<open>The first call on a closed connection chooses the local port and the initial sequence number.\<close>

definition tcp6_open :: "nat \<Rightarrow> u16 \<Rightarrow> u8 list \<Rightarrow> u16 \<Rightarrow> u64 \<Rightarrow> tcp6_conn \<Rightarrow> tcp6_conn" where
  "tcp6_open cid port dst_ip dst_port t c =
     (let iss = ucast (t XOR drop_bit 32 t XOR push_bit 16 (word_of_nat cid)) in
      c\<lparr>tc_local_port := port, tc_remote_port := dst_port, tc_remote_ip := dst_ip, tc_iss := iss,
        tc_snd_una := iss, tc_snd_nxt := iss + 1, tc_irs := 0, tc_rcv_nxt := 0, tc_rx_head := 0, tc_rx_tail := 0,
        tc_rx_count := 0, tc_last_syn_tx_ns := 0, tc_state := TCP6_SYN_SENT\<rparr>)"

definition tcp6_syn :: "nat \<Rightarrow> world \<Rightarrow> unit res \<times> world" where
  "tcp6_syn cid w =
     (let c = tt_conns (tcp_of w) ! cid; now = w_now w in
      if tc_last_syn_tx_ns c \<noteq> 0 \<and> now \<noteq> 0 \<and> now - tc_last_syn_tx_ns c < 200000000 then (Inr (), w)
      else case tcp6_prepare_l2 0 (tc_remote_ip c) w of
        (Inl e, w1) \<Rightarrow> (Inl e, w1)
      | (Inr mac, w1) \<Rightarrow>
          (case ipv6_select_src_ip (the_nif 0 w1) (tc_remote_ip c) of
             None \<Rightarrow> (Inl EAGAIN, w1)
           | Some src \<Rightarrow>
               (case tcp6_send_segment 0 src (tc_remote_ip c) mac (tc_local_port c) (tc_remote_port c) (tc_iss c) 0
                       TCP_FLG_SYN [] True w1 of
                  (Inr u, w2) \<Rightarrow> (Inr (), upd_conn cid (\<lambda>c. c\<lparr>tc_last_syn_tx_ns := now\<rparr>) w2)
                | (Inl e, w2) \<Rightarrow> (Inl e, w2))))"

definition net_tcp6_connect_start :: "nat \<Rightarrow> u8 list \<Rightarrow> u16 \<Rightarrow> world \<Rightarrow> unit res \<times> world" where
  "net_tcp6_connect_start cid dst_ip dst_port w =
     (if dst_port = 0 then (Inl EINVAL, w)
      else case tcp6_get cid (tcp_of w) of
        None \<Rightarrow> (Inl EBADF, w)
      | Some c \<Rightarrow>
          if tc_state c = TCP6_ESTABLISHED then (Inr (), w)
          else if w_ifs w = [] then (Inl ENODEV, w)
          else if tc_state c = TCP6_CLOSED then
            (case tcp6_next_ephemeral_port (tcp_of w) of (p, st) \<Rightarrow>
               if p = 0 then (Inl EADDRINUSE, upd_conn cid (\<lambda>c. c\<lparr>tc_local_port := 0\<rparr>) (set_tcp st w))
               else tcp6_syn cid (upd_conn cid (tcp6_open cid p dst_ip dst_port (w_now w)) (set_tcp st w)))
          else if tc_state c \<noteq> TCP6_SYN_SENT then (Inl EINVAL, w)
          else tcp6_syn cid w)"

text \<open>The loop over chunks of at most one segment; sequence numbers advance with what was sent.\<close>

function tcp6_send_loop :: "nat \<Rightarrow> u8 list \<Rightarrow> u8 list \<Rightarrow> u8 list \<Rightarrow> nat \<Rightarrow> world \<Rightarrow> nat res \<times> world" where
  "tcp6_send_loop cid src mac buf sent w =
     (if length buf \<le> sent then (Inr sent, w)
      else let c = tt_conns (tcp_of w) ! cid; chunk = min (length buf - sent) TCP6_MSS in
        case tcp6_send_segment 0 src (tc_remote_ip c) mac (tc_local_port c) (tc_remote_port c) (tc_snd_nxt c)
               (tc_rcv_nxt c) (TCP_FLG_ACK OR TCP_FLG_PSH) (take chunk (drop sent buf)) False w of
          (Inl e, w1) \<Rightarrow> (Inl e, w1)
        | (Inr u, w1) \<Rightarrow>
            tcp6_send_loop cid src mac buf (sent + chunk)
              (upd_conn cid (\<lambda>c. c\<lparr>tc_snd_nxt := tc_snd_nxt c + word_of_nat chunk\<rparr>) w1))"
  by pat_completeness auto

termination
  by (relation "measure (\<lambda>(cid, src, mac, buf, sent, w). length buf - sent)") (auto simp: TCP6_MSS_def)

declare tcp6_send_loop.simps [simp del]

definition net_tcp6_send :: "nat \<Rightarrow> u8 list \<Rightarrow> world \<Rightarrow> nat res \<times> world" where
  "net_tcp6_send cid buf w =
     (case tcp6_get cid (tcp_of w) of
        None \<Rightarrow> (Inl EBADF, w)
      | Some c \<Rightarrow>
          if tc_state c \<noteq> TCP6_ESTABLISHED \<and> tc_state c \<noteq> TCP6_CLOSE_WAIT then (Inl ENOTCONN, w)
          else if w_ifs w = [] then (Inl ENODEV, w)
          else case tcp6_prepare_l2 0 (tc_remote_ip c) w of
            (Inl e, w1) \<Rightarrow> (Inl e, w1)
          | (Inr mac, w1) \<Rightarrow>
              (case ipv6_select_src_ip (the_nif 0 w1) (tc_remote_ip c) of
                 None \<Rightarrow> (Inl EAGAIN, w1)
               | Some src \<Rightarrow> tcp6_send_loop cid src mac buf 0 w1))"

subsection \<open>Ping\<close>

definition ping_idle :: "ping \<Rightarrow> ping" where
  "ping_idle g = g\<lparr>pi_inflight := False, pi_proc := None, pi_nif := None, pi_phase := 0\<rparr>"

definition set_ping_start :: "nat \<Rightarrow> u64 \<Rightarrow> world \<Rightarrow> world" where
  "set_ping_start idx t w =
     w\<lparr>w_k := set_proc idx (\<lambda>p. p\<lparr>p_ping6 := (p_ping6 p)\<lparr>pg_start := t\<rparr>\<rparr>) (w_k w)\<rparr>"

definition set_phase :: "nat \<Rightarrow> world \<Rightarrow> world" where
  "set_phase n w = w\<lparr>w_ping := (w_ping w)\<lparr>pi_phase := n\<rparr>\<rparr>"

text \<open>The echo request goes out with the counters and the start time set before it.\<close>

definition ping_echo :: "nat \<Rightarrow> nat \<Rightarrow> u8 list \<Rightarrow> u8 list \<Rightarrow> u16 \<Rightarrow> u16 \<Rightarrow> world \<Rightarrow> unit res \<times> world" where
  "ping_echo idx i dst_ip mac ident seq w =
     send_echo_request i dst_ip mac ident seq
       (upd_dbg (\<lambda>d. d\<lparr>db_ping6_sent_echo := db_ping6_sent_echo d + 1\<rparr>) (set_phase 2 (set_ping_start idx (w_now w) w)))"

definition ping_solicit :: "nat \<Rightarrow> u8 list \<Rightarrow> world \<Rightarrow> unit res \<times> world" where
  "ping_solicit i nh_ip w =
     send_neighbor_solicitation i nh_ip
       (upd_dbg (\<lambda>d. d\<lparr>db_ping6_sent_ns := db_ping6_sent_ns d + 1\<rparr>) (set_phase 1 w))"

definition ping_launch :: "nat \<Rightarrow> nat \<Rightarrow> u8 list \<Rightarrow> u16 \<Rightarrow> u16 \<Rightarrow> world \<Rightarrow> unit res \<times> world" where
  "ping_launch idx i dst_ip ident seq w =
     (let mcast = ipv6_is_multicast dst_ip;
          w1 = w\<lparr>w_ping := (w_ping w)\<lparr>pi_inflight := True, pi_proc := Some idx, pi_nif := Some i, pi_dst := dst_ip,
                  pi_ident := ident, pi_seq := seq\<rparr>\<rparr>
      in case (if mcast then Inr dst_ip else ipv6_select_next_hop (the_nif i w1) dst_ip) of
        Inl e \<Rightarrow> (Inl e, w1\<lparr>w_ping := ping_idle (w_ping w1)\<rparr>)
      | Inr nh_ip \<Rightarrow>
          let w2 = w1\<lparr>w_ping := (w_ping w1)\<lparr>pi_nh := nh_ip\<rparr>\<rparr> in
          if mcast then ping_echo idx i dst_ip (ipv6_multicast_to_eth dst_ip) ident seq w2
          else if nh_ip = dst_ip \<and> \<not> ipv6_is_linklocal dst_ip then ping_solicit i nh_ip w2
          else case nd_lookup_mac nh_ip (w_nd w2) of
            Some mac \<Rightarrow> ping_echo idx i dst_ip mac ident seq w2
          | None \<Rightarrow> ping_solicit i nh_ip w2)"

definition net_ipv6_ping6_start :: "nat \<Rightarrow> nat \<Rightarrow> u8 list \<Rightarrow> u16 \<Rightarrow> u16 \<Rightarrow> world \<Rightarrow> unit res \<times> world" where
  "net_ipv6_ping6_start idx i dst_ip ident seq w =
     (if MAX_PROCS \<le> idx then (Inl EINVAL, w)
      else let w1 = need_ll i (upd_dbg (\<lambda>d. d\<lparr>db_ping6_calls := db_ping6_calls d + 1\<rparr>) w) in
        if off_link dst_ip \<and> \<not> nf_global_valid (the_nif i w1)
        then (Inl EAGAIN, upd_dbg (\<lambda>d. d\<lparr>db_ping6_eagain := db_ping6_eagain d + 1\<rparr>) (maybe_solicit_router i w1))
        else if pi_inflight (w_ping w1)
        then (Inl EBUSY, upd_dbg (\<lambda>d. d\<lparr>db_ping6_ebusy := db_ping6_ebusy d + 1\<rparr>) w1)
        else ping_launch idx i dst_ip ident seq w1)"

definition net_ipv6_ping6_cancel :: "nat \<Rightarrow> world \<Rightarrow> world" where
  "net_ipv6_ping6_cancel idx w =
     (if pi_inflight (w_ping w) \<and> pi_proc (w_ping w) = Some idx \<and> idx < MAX_PROCS
      then w\<lparr>w_ping := ping_idle (w_ping w)\<rparr> else w)"

end
