(* ===== verification/NetInput.thy ===== *)
theory NetInput
  imports NetSend
begin

text \<open>
  Received frames: \<open>netif_rx_frame\<close> and \<open>ether_input\<close> of \<open>net.c\<close>, and \<open>net_ipv6_input\<close> of
  \<open>net_ipv6.c\<close> with the UDP, TCP and ICMPv6 handlers it dispatches to. A packet is the list of the
  bytes the driver received; log output is left out.
\<close>

definition rx_drop :: "nat \<Rightarrow> (ipv6_debug \<Rightarrow> ipv6_debug) \<Rightarrow> world \<Rightarrow> world" where
  "rx_drop i f w = upd_dbg f (set_nif i (\<lambda>n. n\<lparr>nf_rx_drops := nf_rx_drops n + 1\<rparr>) w)"

definition drop_short :: "ipv6_debug \<Rightarrow> ipv6_debug" where
  "drop_short d = d\<lparr>db_rx_drop_short := db_rx_drop_short d + 1\<rparr>"

definition drop_len :: "ipv6_debug \<Rightarrow> ipv6_debug" where
  "drop_len d = d\<lparr>db_rx_drop_len := db_rx_drop_len d + 1\<rparr>"

definition drop_csum :: "ipv6_debug \<Rightarrow> ipv6_debug" where
  "drop_csum d = d\<lparr>db_rx_drop_csum := db_rx_drop_csum d + 1\<rparr>"

definition learn :: "u8 list \<Rightarrow> u8 list \<Rightarrow> world \<Rightarrow> world" where
  "learn ip mac w = w\<lparr>w_nd := nd_update ip mac (w_nd w)\<rparr>"

text \<open>The addresses an interface answers to.\<close>

definition is_ours :: "netif \<Rightarrow> u8 list \<Rightarrow> bool" where
  "is_ours n ip \<longleftrightarrow> ip = nf_ll n \<or> nf_global_valid n \<and> ip = nf_global n"

subsection \<open>UDP\<close>

definition wake_waiter :: "nat \<Rightarrow> proc \<Rightarrow> proc" where
  "wake_waiter sid p =
     (if pu_on (p_udp6 p) \<and> pu_sock (p_udp6 p) = sid \<and> p_state p \<in> {PROC_SLEEPING, PROC_BLOCKED_IO}
      then p\<lparr>p_state := PROC_RUNNABLE, p_deadline := 0\<rparr> else p)"

definition udp6_wake_waiters :: "nat \<Rightarrow> kernel \<Rightarrow> kernel" where
  "udp6_wake_waiters sid k = k\<lparr>k_procs := map (wake_waiter sid) (k_procs k)\<rparr>"

definition udp6_deliver_wake :: "u8 list \<Rightarrow> u16 \<Rightarrow> u16 \<Rightarrow> u8 list \<Rightarrow> world \<Rightarrow> world" where
  "udp6_deliver_wake src_ip src_port dst_port payload w =
     (case udp6_deliver src_ip src_port dst_port payload (udp_of w) of
        (sids, u) \<Rightarrow> (set_udp u w)\<lparr>w_k := fold udp6_wake_waiters sids (w_k (set_udp u w))\<rparr>)"

definition udp6_input :: "nat \<Rightarrow> u8 list \<Rightarrow> u8 list \<Rightarrow> u8 list \<Rightarrow> u8 list \<Rightarrow> world \<Rightarrow> world" where
  "udp6_input i src_mac src dst payload w0 =
     (let w = upd_dbg (\<lambda>d. d\<lparr>db_rx_udp := db_rx_udp d + 1\<rparr>) w0 in
      if length payload < 8 then rx_drop i drop_short w
      else if \<not> is_ours (the_nif i w) dst then w
      else let src_port = be16_load payload 0; dst_port = be16_load payload 2; udp_len = unat (be16_load payload 4);
               got = be16_load payload 6 in
        if udp_len < 8 \<or> length payload < udp_len then rx_drop i drop_len w
        else if got = 0 then rx_drop i drop_csum w
        else if udp_len \<le> 8 + UDP6_MAX_PAYLOAD \<and> udp6_checksum src dst (put_csum 6 0 (take udp_len payload)) \<noteq> got
        then rx_drop i drop_csum w
        else upd_dbg (\<lambda>d. d\<lparr>db_rx_udp_delivered := db_rx_udp_delivered d + 1\<rparr>)
               (udp6_deliver_wake src src_port dst_port (drop 8 (take udp_len payload)) (learn src src_mac w)))"

subsection \<open>TCP\<close>

definition tcp6_incoming :: "u8 list \<Rightarrow> u16 \<Rightarrow> u16 \<Rightarrow> tcp6_conn \<Rightarrow> bool" where
  "tcp6_incoming src_ip src_port dst_port c \<longleftrightarrow>
     tc_used c \<and> tc_local_port c = dst_port \<and> tc_remote_port c = src_port \<and> tc_remote_ip c = src_ip"

definition tcp6_find_incoming :: "u8 list \<Rightarrow> u16 \<Rightarrow> u16 \<Rightarrow> tcp6_state \<Rightarrow> nat option" where
  "tcp6_find_incoming src_ip src_port dst_port st = find_slot (tcp6_incoming src_ip src_port dst_port) (tt_conns st)"

definition tcp6_ack :: "nat \<Rightarrow> nat \<Rightarrow> world \<Rightarrow> world" where
  "tcp6_ack i cid w =
     (let c = tt_conns (tcp_of w) ! cid in
      case tcp6_prepare_l2 i (tc_remote_ip c) w of
        (Inl e, w1) \<Rightarrow> w1
      | (Inr mac, w1) \<Rightarrow>
          (case ipv6_select_src_ip (the_nif i w1) (tc_remote_ip c) of
             None \<Rightarrow> w1
           | Some src \<Rightarrow>
               snd (tcp6_send_segment i src (tc_remote_ip c) mac (tc_local_port c) (tc_remote_port c)
                 (tc_snd_nxt c) (tc_rcv_nxt c) TCP_FLG_ACK [] False w1)))"

fun tcp6_push :: "u8 list \<Rightarrow> tcp6_conn \<Rightarrow> tcp6_conn" where
  "tcp6_push [] c = c"
| "tcp6_push (b # bs) c =
     tcp6_push bs (c\<lparr>tc_rx := (tc_rx c)[tc_rx_tail c := b], tc_rx_tail := (tc_rx_tail c + 1) mod TCP6_RX_CAP\<rparr>)"

text \<open>What fits in the buffer is taken and acknowledged; the rest is left for the peer to send again.\<close>

definition tcp6_take :: "u8 list \<Rightarrow> tcp6_conn \<Rightarrow> tcp6_conn" where
  "tcp6_take data c =
     (let to_copy = min (length data) (TCP6_RX_CAP - tc_rx_count c); c' = tcp6_push (take to_copy data) c
      in c'\<lparr>tc_rx_count := tc_rx_count c' + to_copy, tc_rcv_nxt := tc_rcv_nxt c' + word_of_nat to_copy\<rparr>)"

text \<open>The reply to a connection request, when it acknowledges exactly the request.\<close>

definition tcp6_established :: "u32 \<Rightarrow> u32 \<Rightarrow> tcp6_conn \<Rightarrow> tcp6_conn" where
  "tcp6_established seq ack c =
     c\<lparr>tc_irs := seq, tc_rcv_nxt := seq + 1, tc_snd_una := ack, tc_state := TCP6_ESTABLISHED\<rparr>"

definition tcp6_acked :: "u8 \<Rightarrow> u32 \<Rightarrow> tcp6_conn \<Rightarrow> tcp6_conn" where
  "tcp6_acked flags ack c =
     (if flags AND TCP_FLG_ACK \<noteq> 0 \<and> tc_snd_una c < ack then c\<lparr>tc_snd_una := ack\<rparr> else c)"

definition tcp6_fin :: "u32 \<Rightarrow> tcp6_conn \<Rightarrow> tcp6_conn" where
  "tcp6_fin seq c =
     (if seq = tc_rcv_nxt c then c\<lparr>tc_rcv_nxt := tc_rcv_nxt c + 1, tc_state := TCP6_CLOSE_WAIT\<rparr> else c)"

text \<open>The effect of a valid segment on a connection, and whether it is answered.\<close>

definition tcp6_react :: "u8 \<Rightarrow> u32 \<Rightarrow> u32 \<Rightarrow> u8 list \<Rightarrow> tcp6_conn \<Rightarrow> tcp6_conn \<times> bool" where
  "tcp6_react flags seq ack data c =
     (if tc_state c = TCP6_SYN_SENT then
        (if flags AND (TCP_FLG_SYN OR TCP_FLG_ACK) = TCP_FLG_SYN OR TCP_FLG_ACK \<and> ack = tc_snd_nxt c
         then (tcp6_established seq ack c, True) else (c, False))
      else if tc_state c \<noteq> TCP6_ESTABLISHED \<and> tc_state c \<noteq> TCP6_CLOSE_WAIT then (c, False)
      else let c1 = tcp6_acked flags ack c in
        if flags AND TCP_FLG_FIN \<noteq> 0 then (tcp6_fin seq c1, True)
        else if data = [] then (c1, False)
        else if seq \<noteq> tc_rcv_nxt c1 then (c1, True)
        else (tcp6_take data c1, True))"

definition tcp6_input :: "nat \<Rightarrow> u8 list \<Rightarrow> u8 list \<Rightarrow> u8 list \<Rightarrow> u8 list \<Rightarrow> world \<Rightarrow> world" where
  "tcp6_input i src_mac src dst payload w =
     (if length payload < 20 then w
      else if \<not> is_ours (the_nif i w) dst then w
      else case tcp6_find_incoming src (be16_load payload 0) (be16_load payload 2) (tcp_of w) of
        None \<Rightarrow> w
      | Some cid \<Rightarrow>
          let hdr_len = unat (drop_bit 4 (payload ! 12)) * 4; got_csum = be16_load payload 16 in
          if hdr_len < 20 \<or> length payload < hdr_len then w
          else if got_csum \<noteq> 0 \<and> length payload \<le> 20 + 16 + TCP6_MSS \<and>
                  tcp6_checksum src dst (put_csum 16 0 payload) \<noteq> got_csum then w
          else let w1 = learn src src_mac w in
            case tcp6_react (payload ! 13) (be32_load payload 4) (be32_load payload 8) (drop hdr_len payload)
                   (tt_conns (tcp_of w1) ! cid) of
              (c, reply) \<Rightarrow>
                let w2 = upd_conn cid (\<lambda>_. c) w1 in if reply then tcp6_ack i cid w2 else w2)"

subsection \<open>Pending pings\<close>

definition ping_reply :: "u64 \<Rightarrow> u64 \<Rightarrow> proc \<Rightarrow> proc" where
  "ping_reply ret rtt p =
     p\<lparr>p_ping6 := (p_ping6 p)\<lparr>pg_done := True, pg_ret := ret, pg_rtt := rtt\<rparr>, p_deadline := 0,
       p_state := (if p_state p = PROC_SLEEPING then PROC_RUNNABLE else p_state p)\<rparr>"

definition ping_complete :: "u64 \<Rightarrow> u64 \<Rightarrow> world \<Rightarrow> world" where
  "ping_complete ret rtt_ns w =
     (case pi_proc (w_ping w) of
        None \<Rightarrow> w
      | Some idx \<Rightarrow>
          if \<not> pi_inflight (w_ping w) \<or> MAX_PROCS \<le> idx then w
          else if \<not> pg_on (p_ping6 (k_procs (w_k w) ! idx)) then w
          else w\<lparr>w_k := set_proc idx (ping_reply ret rtt_ns) (w_k w), w_ping := ping_idle (w_ping w)\<rparr>)"

definition maybe_kick_ping_after_nd_update :: "u8 list \<Rightarrow> world \<Rightarrow> world" where
  "maybe_kick_ping_after_nd_update updated_ip w =
     (let g = w_ping w in
      if \<not> pi_inflight g \<or> pi_phase g \<noteq> 1 then w
      else case pi_nif g of
        None \<Rightarrow> w
      | Some i \<Rightarrow>
          if updated_ip \<noteq> pi_nh g then w
          else case nd_lookup_mac (pi_nh g) (w_nd w) of
            None \<Rightarrow> w
          | Some mac \<Rightarrow>
              (case pi_proc g of
                 None \<Rightarrow> w
               | Some idx \<Rightarrow>
                   if MAX_PROCS \<le> idx then w
                   else if \<not> pg_on (p_ping6 (k_procs (w_k w) ! idx)) then w
                   else case send_echo_request i (pi_dst g) mac (pi_ident g) (pi_seq g) w of
                     (Inr u, w1) \<Rightarrow> set_phase 2 (set_ping_start idx (w_now w) w1)
                   | (Inl e, w1) \<Rightarrow> w1))"

subsection \<open>ICMPv6\<close>

text \<open>Options of a router advertisement: link-layer address, prefix, name server.\<close>

definition ra_prefix :: "nat \<Rightarrow> u8 list \<Rightarrow> world \<Rightarrow> world" where
  "ra_prefix i opt w =
     (let prefix_len = opt ! 2; flags = opt ! 3; n = the_nif i w in
      if flags AND 0x40 \<noteq> 0 \<and> prefix_len = 64 \<and> nf_ll_valid n
      then let prefix = take 16 (drop 16 opt);
               new_global = ipv6_make_global_from_prefix64 prefix (nf_ll n);
               send_una = (\<not> nf_global_valid n \<or> nf_global n \<noteq> new_global);
               w1 = set_nif i (\<lambda>n. n\<lparr>nf_prefix := prefix, nf_prefix_len := prefix_len, nf_global := new_global,
                      nf_global_valid := True\<rparr>) w;
               w2 = netif_ipv6_update_multicast_list i w1
           in if send_una then send_unsolicited_neighbor_advertisement i (nf_global (the_nif i w2)) w2 else w2
      else w)"

definition ra_rdnss :: "nat \<Rightarrow> u8 list \<Rightarrow> world \<Rightarrow> world" where
  "ra_rdnss i opt w =
     (let lifetime_s = be32_load opt 4 in
      if (length opt - 8) div 16 < 1 then w
      else if lifetime_s \<noteq> 0
      then set_nif i (\<lambda>n. n\<lparr>nf_dns := take 16 (drop 8 opt), nf_dns_valid := True, nf_dns_lifetime := lifetime_s\<rparr>) w
      else set_nif i (\<lambda>n. n\<lparr>nf_dns_valid := False, nf_dns_lifetime := 0\<rparr>) w)"

definition ra_option :: "nat \<Rightarrow> u8 list \<Rightarrow> u8 list \<Rightarrow> world \<Rightarrow> world" where
  "ra_option i src opt w =
     (if opt ! 0 = 1 \<and> 8 \<le> length opt then learn src (take 6 (drop 2 opt)) w
      else if opt ! 0 = 3 \<and> 32 \<le> length opt then ra_prefix i opt w
      else if opt ! 0 = 25 \<and> 24 \<le> length opt then ra_rdnss i opt w
      else w)"

definition ra_input :: "nat \<Rightarrow> u8 list \<Rightarrow> u8 \<Rightarrow> u8 list \<Rightarrow> world \<Rightarrow> world" where
  "ra_input i src hop_limit body w0 =
     (let w = upd_dbg (\<lambda>d. d\<lparr>db_rx_ra := db_rx_ra d + 1\<rparr>) w0 in
      if hop_limit \<noteq> 255 \<and> hop_limit \<noteq> 64 then upd_dbg (\<lambda>d. d\<lparr>db_rx_ra_drop_hlim := db_rx_ra_drop_hlim d + 1\<rparr>) w
      else if \<not> ipv6_is_linklocal src then upd_dbg (\<lambda>d. d\<lparr>db_rx_ra_drop_src := db_rx_ra_drop_src d + 1\<rparr>) w
      else if length body < 12 then upd_dbg (\<lambda>d. d\<lparr>db_rx_ra_drop_short := db_rx_ra_drop_short d + 1\<rparr>) w
      else fold (ra_option i src) (nd_options (drop 12 body))
             (set_nif i (\<lambda>n. if be16_load body 2 \<noteq> 0 then n\<lparr>nf_router := src, nf_router_valid := True\<rparr>
                             else n\<lparr>nf_router_valid := False\<rparr>) w))"

text \<open>The first option of the type looked for that is long enough.\<close>

definition lladdr_option :: "u8 \<Rightarrow> u8 list \<Rightarrow> u8 list option" where
  "lladdr_option ty opts =
     map_option (\<lambda>op. take 6 (drop 2 op)) (find (\<lambda>op. op ! 0 = ty \<and> 8 \<le> length op) (nd_options opts))"

definition ns_input :: "nat \<Rightarrow> u8 list \<Rightarrow> u8 list \<Rightarrow> u8 list \<Rightarrow> world \<Rightarrow> world" where
  "ns_input i src_mac src body w0 =
     (let w = upd_dbg (\<lambda>d. d\<lparr>db_rx_ns := db_rx_ns d + 1\<rparr>) w0 in
      if length body < 4 + 16 then w
      else let target = take 16 (drop 4 body);
               w1 = (case lladdr_option 1 (drop 20 body) of None \<Rightarrow> w | Some mac \<Rightarrow> learn src mac w)
           in if is_ours (the_nif i w1) target then snd (send_neighbor_advertisement i src src_mac target w1) else w1)"

definition na_input :: "nat \<Rightarrow> u8 list \<Rightarrow> world \<Rightarrow> world" where
  "na_input i body w0 =
     (let w = upd_dbg (\<lambda>d. d\<lparr>db_rx_na := db_rx_na d + 1\<rparr>) w0 in
      if length body < 4 + 16 then w
      else let target = take 16 (drop 4 body) in
        case lladdr_option 2 (drop 20 body) of
          None \<Rightarrow> w
        | Some mac \<Rightarrow> maybe_kick_ping_after_nd_update target (learn target mac w))"

definition echo_request_input :: "nat \<Rightarrow> u8 list \<Rightarrow> u8 list \<Rightarrow> u8 list \<Rightarrow> u8 list \<Rightarrow> world \<Rightarrow> world" where
  "echo_request_input i src_mac src dst body w0 =
     (let w = upd_dbg (\<lambda>d. d\<lparr>db_rx_echo_req := db_rx_echo_req d + 1\<rparr>) w0 in
      if is_ours (the_nif i w) dst then snd (send_echo_reply i (Some dst) src src_mac body w) else w)"

definition echo_reply_input :: "u8 list \<Rightarrow> u8 list \<Rightarrow> world \<Rightarrow> world" where
  "echo_reply_input src body w0 =
     (let w = upd_dbg (\<lambda>d. d\<lparr>db_rx_echo_reply := db_rx_echo_reply d + 1\<rparr>) w0; g = w_ping w in
      if \<not> pi_inflight g \<or> pi_phase g \<noteq> 2 then w
      else if src \<noteq> pi_dst g then w
      else if length body < 4 then w
      else if be16_load body 0 \<noteq> pi_ident g \<or> be16_load body 2 \<noteq> pi_seq g then w
      else case pi_proc g of
        None \<Rightarrow> w
      | Some idx \<Rightarrow>
          if MAX_PROCS \<le> idx then w
          else let now = w_now w; start = pg_start (p_ping6 (k_procs (w_k w) ! idx));
                   rtt = (if start \<noteq> 0 \<and> start \<le> now then now - start else 0)
               in ping_complete 0 rtt w)"

definition icmpv6_dispatch :: "nat \<Rightarrow> u8 list \<Rightarrow> u8 list \<Rightarrow> u8 list \<Rightarrow> u8 \<Rightarrow> u8 \<Rightarrow> u8 list \<Rightarrow> world \<Rightarrow> world" where
  "icmpv6_dispatch i src_mac src dst hop_limit ty body w =
     (if ty = ICMPV6_ROUTER_ADVERT then ra_input i src hop_limit body w
      else if ty = ICMPV6_NEIGHBOR_SOLICIT then ns_input i src_mac src body w
      else if ty = ICMPV6_NEIGHBOR_ADVERT then na_input i body w
      else if ty = ICMPV6_ECHO_REQUEST then echo_request_input i src_mac src dst body w
      else if ty = ICMPV6_ECHO_REPLY then echo_reply_input src body w
      else w)"

text \<open>The checksum is verified for messages of at most 160 bytes; longer ones are accepted as they are.\<close>

definition icmpv6_input :: "nat \<Rightarrow> u8 list \<Rightarrow> u8 list \<Rightarrow> u8 list \<Rightarrow> u8 \<Rightarrow> u8 list \<Rightarrow> world \<Rightarrow> world" where
  "icmpv6_input i src_mac src dst hop_limit payload w0 =
     (let w = upd_dbg (\<lambda>d. d\<lparr>db_rx_icmpv6 := db_rx_icmpv6 d + 1\<rparr>) w0 in
      if length payload < 4 then rx_drop i drop_short w
      else if length payload \<le> 160 \<and> icmpv6_checksum src dst (put_csum 2 0 payload) \<noteq> be16_load payload 2
      then rx_drop i drop_csum w
      else icmpv6_dispatch i src_mac src dst hop_limit (payload ! 0) (drop 4 payload)
             (upd_dbg (\<lambda>d. d\<lparr>db_last_icmp_type := payload ! 0, db_last_hop_limit := hop_limit\<rparr>) w))"

subsection \<open>Packets and frames\<close>

definition ipv6_dispatch :: "nat \<Rightarrow> u8 list \<Rightarrow> u8 list \<Rightarrow> u8 list \<Rightarrow> u8 \<Rightarrow> u8 \<Rightarrow> u8 list \<Rightarrow> world \<Rightarrow> world" where
  "ipv6_dispatch i src_mac src dst hop_limit nh payload w =
     (if nh = IPV6_NH_UDP then udp6_input i src_mac src dst payload w
      else if nh = IPV6_NH_TCP then tcp6_input i src_mac src dst payload w
      else if nh \<noteq> IPV6_NH_ICMPV6 then w
      else icmpv6_input i src_mac src dst hop_limit payload w)"

definition net_ipv6_input :: "nat \<Rightarrow> u8 list \<Rightarrow> u8 list \<Rightarrow> world \<Rightarrow> world" where
  "net_ipv6_input i src_mac pkt w0 =
     (if length pkt < 40 then rx_drop i drop_short w0
      else let w = upd_dbg (\<lambda>d. d\<lparr>db_rx_ipv6_packets := db_rx_ipv6_packets d + 1\<rparr>) w0;
               payload_len = unat (be16_load pkt 4); src = take 16 (drop 8 pkt); dst = take 16 (drop 24 pkt)
        in if drop_bit 28 (be32_load pkt 0) AND 0x0f \<noteq> 6 then w
           else if length pkt < payload_len + 40 then rx_drop i drop_len w
           else let w1 = need_ll i w;
                    w2 = (if src \<noteq> replicate 16 0 \<and> \<not> ipv6_is_multicast src then learn src src_mac w1 else w1);
                    payload = take payload_len (drop 40 pkt)
             in if pkt ! 6 \<noteq> 0 then ipv6_dispatch i src_mac src dst (pkt ! 7) (pkt ! 6) payload w2
                else if length payload < 8 then rx_drop i drop_short w2
                else let ext_len = (unat (payload ! 1) + 1) * 8 in
                  if length payload < ext_len then rx_drop i drop_len w2
                  else ipv6_dispatch i src_mac src dst (pkt ! 7) (payload ! 0) (drop ext_len payload) w2)"

definition ether_input :: "nat \<Rightarrow> u8 list \<Rightarrow> world \<Rightarrow> world" where
  "ether_input i frame w =
     (if length frame < 14 then set_nif i (\<lambda>n. n\<lparr>nf_rx_drops := nf_rx_drops n + 1\<rparr>) w
      else if be16_load frame 12 = ETH_TYPE_IPV6 then net_ipv6_input i (take 6 (drop 6 frame)) (drop 14 frame) w
      else w)"

definition netif_rx_frame :: "nat \<Rightarrow> u8 list \<Rightarrow> world \<Rightarrow> world" where
  "netif_rx_frame i frame w =
     (if frame = [] then w
      else ether_input i frame (set_nif i (\<lambda>n. n\<lparr>nf_rx_frames := nf_rx_frames n + 1\<rparr>) w))"

subsection \<open>Starting up\<close>

definition net_ipv6_init :: "world \<Rightarrow> world" where
  "net_ipv6_init w =
     set_tcp (net_tcp6_init (tcp_of w)) (set_udp (net_udp6_init (udp_of w))
       (w\<lparr>w_dbg := ipv6_debug_zero, w_nd := map (\<lambda>e. e\<lparr>nd_used := False\<rparr>) (w_nd w), w_ping := ping_idle (w_ping w)\<rparr>))"

definition net_init :: "world \<Rightarrow> world" where
  "net_init w = net_ipv6_init (w\<lparr>w_ifs := []\<rparr>)"

definition netif_register :: "netif \<Rightarrow> world \<Rightarrow> bool \<times> world" where
  "netif_register nif w =
     (if NET_MAX_IFACES \<le> length (w_ifs w) then (False, w)
      else (True, net_ipv6_configure_netif (length (w_ifs w))
        (w\<lparr>w_ifs := w_ifs w @ [nif\<lparr>nf_name := take (NETIF_NAME_MAX - 1) (nf_name nif)\<rparr>]\<rparr>)))"

definition netif_count :: "world \<Rightarrow> nat" where
  "netif_count w = length (w_ifs w)"

end
