(* ===== verification/NetInv.thy ===== *)
theory NetInv
  imports NetInput Csum
begin

text \<open>
  What holds of the packet layer whatever it receives: addresses have their length, the neighbour
  cache and the connection table keep their shape, every frame handed to a driver is a valid IPv6
  packet from the interface's own hardware address, and nothing of the kernel but sockets,
  connections and waiting processes changes.
\<close>

subsection \<open>Valid packets\<close>

definition valid_packet :: "u8 list \<Rightarrow> bool" where
  "valid_packet p \<longleftrightarrow> 40 \<le> length p \<and> length p \<le> 160 \<and> drop_bit 28 (be32_load p 0) = 6 \<and>
     unat (be16_load p 4) + 40 = length p \<and> p ! 6 \<in> {IPV6_NH_ICMPV6, IPV6_NH_UDP, IPV6_NH_TCP} \<and>
     pseudo_checksum (p ! 6) (take 16 (drop 8 p)) (take 16 (drop 24 p)) (drop 40 p) = 0"

definition valid_frame :: "u8 list \<Rightarrow> u8 list \<Rightarrow> bool" where
  "valid_frame mac f \<longleftrightarrow> 14 \<le> length f \<and> take 6 (drop 6 f) = mac \<and> be16_load f 12 = ETH_TYPE_IPV6 \<and> valid_packet (drop 14 f)"

lemma length_be_store [simp]: "length (be16_store v) = 2" "length (be32_store x) = 4"
  by (simp_all add: be16_store_def be32_store_def)

lemma ff16: "(0xff :: u16) = mask 8"
  by (simp add: mask_eq_exp_minus_1)

lemma be16_load_store: "be16_load (a @ be16_store v @ b) (length a) = v"
proof -
  have "be16_load (a @ be16_store v @ b) (length a) =
      push_bit 8 (ucast (ucast (drop_bit 8 v AND 0xff) :: u8)) OR ucast (ucast (v AND 0xff) :: u8)"
    by (simp add: be16_load_def be16_store_def nth_append)
  also have "\<dots> = v" unfolding ff16 by (rule bit_word_eqI) (auto simp: bit_simps)
  finally show ?thesis .
qed

lemma be16_load_store_at: "length a = n \<Longrightarrow> be16_load (a @ be16_store v @ b) n = v"
  using be16_load_store by blast

lemma header_parts:
  assumes "length src = 16" and "length dst = 16"
  shows "length (ip6_header n nh hl src dst) = 40"
    and "be16_load (ip6_header n nh hl src dst @ seg) 4 = word_of_nat n"
    and "(ip6_header n nh hl src dst @ seg) ! 6 = nh" and "(ip6_header n nh hl src dst @ seg) ! 7 = hl"
    and "take 16 (drop 8 (ip6_header n nh hl src dst @ seg)) = src"
    and "take 16 (drop 24 (ip6_header n nh hl src dst @ seg)) = dst"
    and "drop_bit 28 (be32_load (ip6_header n nh hl src dst @ seg) 0) = 6"
proof -
  show "length (ip6_header n nh hl src dst) = 40" using assms by (simp add: ip6_header_def)
  show "be16_load (ip6_header n nh hl src dst @ seg) 4 = word_of_nat n"
    unfolding ip6_header_def append_assoc by (rule be16_load_store_at) simp
  show "(ip6_header n nh hl src dst @ seg) ! 6 = nh" "(ip6_header n nh hl src dst @ seg) ! 7 = hl"
    by (simp_all add: ip6_header_def be16_store_def be32_store_def)
  show "take 16 (drop 8 (ip6_header n nh hl src dst @ seg)) = src"
    "take 16 (drop 24 (ip6_header n nh hl src dst @ seg)) = dst"
    using assms by (simp_all add: ip6_header_def)
  show "drop_bit 28 (be32_load (ip6_header n nh hl src dst @ seg) 0) = 6"
    by (simp add: ip6_header_def be32_load_def be32_store_def drop_bit_Suc)
qed

lemma packet_valid:
  assumes "length src = 16" and "length dst = 16" and "length s0 \<le> 120"
    and fld: "even off" "Suc off < length s0" "s0 ! off = 0" "s0 ! Suc off = 0"
    and nh: "nh \<in> {IPV6_NH_ICMPV6, IPV6_NH_UDP, IPV6_NH_TCP}"
  shows "valid_packet (ip6_header (length s0) nh hl src dst @ put_csum off (pseudo_checksum nh src dst s0) s0)"
proof -
  have "nh \<noteq> 0" using nh by (auto simp: IPV6_NH_ICMPV6_def IPV6_NH_UDP_def IPV6_NH_TCP_def)
  then have "pseudo_checksum nh src dst (put_csum off (pseudo_checksum nh src dst s0) s0) = 0"
    using assms by (intro checksum_verifies) simp_all
  moreover have "unat (word_of_nat (length s0) :: u16) = length s0"
    using assms(3) by (simp add: unsigned_of_nat take_bit_nat_eq_self)
  ultimately show ?thesis
    unfolding valid_packet_def using header_parts [OF assms(1,2)] assms nh by simp
qed

subsection \<open>The invariant\<close>

definition nif_ok :: "netif \<Rightarrow> bool" where
  "nif_ok n \<longleftrightarrow> length (nf_mac n) = 6 \<and> length (nf_ll n) = 16 \<and> length (nf_global n) = 16 \<and>
     length (nf_prefix n) = 16 \<and> length (nf_router n) = 16 \<and> length (nf_dns n) = 16"

definition nd_ok :: "nd_entry list \<Rightarrow> bool" where
  "nd_ok nd \<longleftrightarrow> length nd = ND_CACHE_SIZE \<and> list_all (\<lambda>e. length (nd_ip e) = 16 \<and> length (nd_mac e) = 6) nd"

definition conn_ok :: "tcp6_conn \<Rightarrow> bool" where
  "conn_ok c \<longleftrightarrow> length (tc_remote_ip c) = 16 \<and> length (tc_rx c) = TCP6_RX_CAP \<and> tc_rx_head c < TCP6_RX_CAP \<and>
     tc_rx_count c \<le> TCP6_RX_CAP \<and> tc_rx_tail c = (tc_rx_head c + tc_rx_count c) mod TCP6_RX_CAP"

definition ping_ok :: "nat \<Rightarrow> ping \<Rightarrow> bool" where
  "ping_ok n g \<longleftrightarrow> length (pi_dst g) = 16 \<and> length (pi_nh g) = 16 \<and> (\<forall>i. pi_nif g = Some i \<longrightarrow> i < n)"

definition out_ok :: "netif list \<Rightarrow> (nat \<times> u8 list) list \<Rightarrow> bool" where
  "out_ok ifs fs \<longleftrightarrow> list_all (\<lambda>(i, f). i < length ifs \<and> valid_frame (nf_mac (ifs ! i)) f) fs"

definition net_ok :: "world \<Rightarrow> bool" where
  "net_ok w \<longleftrightarrow> list_all nif_ok (w_ifs w) \<and> nd_ok (w_nd w) \<and> ping_ok (length (w_ifs w)) (w_ping w) \<and>
     length (tt_conns (tcp_of w)) = TCP6_MAX_CONNS \<and> list_all conn_ok (tt_conns (tcp_of w)) \<and>
     udp6_ok (udp_of w) \<and> out_ok (w_ifs w) (w_out w)"

text \<open>What a received packet may change of the kernel: queues, connections, waiting processes.\<close>

definition net_effect :: "proc \<Rightarrow> proc \<Rightarrow> bool" where
  "net_effect p q \<longleftrightarrow> p = q\<lparr>p_state := p_state p, p_deadline := p_deadline p, p_ping6 := p_ping6 p\<rparr> \<and>
     pg_on (p_ping6 q) = pg_on (p_ping6 p) \<and>
     (p_state q = p_state p \<and> (p_state q = PROC_SLEEPING \<longrightarrow> p_deadline q = p_deadline p) \<or> woken_by_net p q)"

definition sock_refs :: "kernel \<Rightarrow> (bool \<times> nat) list" where
  "sock_refs k = map (\<lambda>s. (us_used s, us_refs s)) (ud_socks (fs_udp (k_fd k)))"

definition conn_refs :: "kernel \<Rightarrow> (bool \<times> nat) list" where
  "conn_refs k = map (\<lambda>c. (tc_used c, tc_refs c)) (tt_conns (fs_tcp (k_fd k)))"

definition kernel_keeps :: "kernel \<Rightarrow> kernel \<Rightarrow> bool" where
  "kernel_keeps k k' \<longleftrightarrow>
     k' = k\<lparr>k_procs := k_procs k', k_fd := (k_fd k)\<lparr>fs_udp := fs_udp (k_fd k'), fs_tcp := fs_tcp (k_fd k')\<rparr>\<rparr> \<and>
     sock_refs k' = sock_refs k \<and> conn_refs k' = conn_refs k \<and> list_all2 net_effect (k_procs k) (k_procs k')"

lemma net_effect_refl [simp]: "net_effect p p"
  by (simp add: net_effect_def)

lemma net_effect_trans:
  assumes a: "net_effect p q" and b: "net_effect q r"
  shows "net_effect p r"
proof -
  have q: "p = q\<lparr>p_state := p_state p, p_deadline := p_deadline p, p_ping6 := p_ping6 p\<rparr>"
    and r: "q = r\<lparr>p_state := p_state q, p_deadline := p_deadline q, p_ping6 := p_ping6 q\<rparr>"
    using a b by (simp_all add: net_effect_def)
  have "p = r\<lparr>p_state := p_state p, p_deadline := p_deadline p, p_ping6 := p_ping6 p\<rparr>"
    by (subst q, subst r) simp
  moreover have "p_udp6 q = p_udp6 p" using arg_cong [OF q, of p_udp6] by simp
  ultimately show ?thesis
    using a b by (auto simp: net_effect_def woken_by_net_def)
qed

lemma kernel_keeps_refl [simp]: "kernel_keeps k k"
  by (simp add: kernel_keeps_def list_all2_same)

lemma kernel_keeps_trans:
  assumes "kernel_keeps k k'" and "kernel_keeps k' k''"
  shows "kernel_keeps k k''"
proof -
  have e: "list_all2 net_effect (k_procs k) (k_procs k')" "list_all2 net_effect (k_procs k') (k_procs k'')"
    and 1: "k' = k\<lparr>k_procs := k_procs k', k_fd := (k_fd k)\<lparr>fs_udp := fs_udp (k_fd k'), fs_tcp := fs_tcp (k_fd k')\<rparr>\<rparr>"
    and 2: "k'' = k'\<lparr>k_procs := k_procs k'', k_fd := (k_fd k')\<lparr>fs_udp := fs_udp (k_fd k''), fs_tcp := fs_tcp (k_fd k'')\<rparr>\<rparr>"
    and r: "sock_refs k'' = sock_refs k" "conn_refs k'' = conn_refs k"
    using assms unfolding kernel_keeps_def by metis+
  have "list_all2 net_effect (k_procs k) (k_procs k'')"
    by (rule list_all2_trans [OF _ e]) (rule net_effect_trans)
  moreover have "k'' = k\<lparr>k_procs := k_procs k'', k_fd := (k_fd k)\<lparr>fs_udp := fs_udp (k_fd k''), fs_tcp := fs_tcp (k_fd k'')\<rparr>\<rparr>"
    by (subst 2, subst (1 2) 1) simp
  ultimately show ?thesis unfolding kernel_keeps_def using r by blast
qed

text \<open>The scheduler's assumption about polling devices follows.\<close>

lemma net_effect_same: "net_effect p q \<Longrightarrow> same_or_net p q" "net_effect p q \<Longrightarrow> same_space p q"
proof -
  assume e: "net_effect p q"
  then have p: "p = q\<lparr>p_state := p_state p, p_deadline := p_deadline p, p_ping6 := p_ping6 p\<rparr>"
    by (simp add: net_effect_def)
  have "p_read q = p_read p" "p_user_pa q = p_user_pa p" "p_ttbr0 q = p_ttbr0 p" "p_fdt q = p_fdt p"
    using arg_cong [OF p, of p_read] arg_cong [OF p, of p_user_pa] arg_cong [OF p, of p_ttbr0] arg_cong [OF p, of p_fdt] by simp_all
  then show "same_or_net p q" "same_space p q"
    using e by (auto simp: net_effect_def same_or_net_def same_space_def woken_by_net_def)
qed

lemma same_refs_fd_inv:
  assumes "fd_inv held tabs s" and "fs_descs s' = fs_descs s" and "fs_pipes s' = fs_pipes s"
    and "map (\<lambda>s. (us_used s, us_refs s)) (ud_socks (fs_udp s')) = map (\<lambda>s. (us_used s, us_refs s)) (ud_socks (fs_udp s))"
    and "map (\<lambda>c. (tc_used c, tc_refs c)) (tt_conns (fs_tcp s')) = map (\<lambda>c. (tc_used c, tc_refs c)) (tt_conns (fs_tcp s))"
  shows "fd_inv held tabs s'"
proof -
  have len: "length (ud_socks (fs_udp s')) = length (ud_socks (fs_udp s))" "length (tt_conns (fs_tcp s')) = length (tt_conns (fs_tcp s))"
    using assms(4,5) map_eq_imp_length_eq by blast+
  have u: "us_used (ud_socks (fs_udp s') ! i) = us_used (ud_socks (fs_udp s) ! i) \<and> us_refs (ud_socks (fs_udp s') ! i) = us_refs (ud_socks (fs_udp s) ! i)"
    if "i < length (ud_socks (fs_udp s))" for i
    using arg_cong [OF assms(4), of "\<lambda>l. l ! i"] that len by simp
  have t: "tc_used (tt_conns (fs_tcp s') ! i) = tc_used (tt_conns (fs_tcp s) ! i) \<and> tc_refs (tt_conns (fs_tcp s') ! i) = tc_refs (tt_conns (fs_tcp s) ! i)"
    if "i < length (tt_conns (fs_tcp s))" for i
    using arg_cong [OF assms(5), of "\<lambda>l. l ! i"] that len by simp
  have shape: "fd_shape tabs s" using assms(1) by (simp add: fd_inv_def)
  have "ep_count k s' = ep_count k s" for k
    using u t shape assms(3) by (cases k) (auto simp: fd_shape_def not_le split: pipe_end.split)
  moreover have "fd_shape tabs s'" using shape len assms(2,3) by (simp add: fd_shape_def)
  ultimately show ?thesis using assms(1,2) by (simp add: fd_inv_def del: ep_count.simps cong: option.case_cong)
qed

lemma kernel_keeps_poll:
  assumes "kernel_keeps k k'"
  shows "k_last_sched k' = k_last_sched k" and "k_cur k' = k_cur k" and "same_tasks k k'"
    and "list_all2 same_or_net (k_procs k) (k_procs k')"
proof -
  have k': "k' = k\<lparr>k_procs := k_procs k', k_fd := (k_fd k)\<lparr>fs_udp := fs_udp (k_fd k'), fs_tcp := fs_tcp (k_fd k')\<rparr>\<rparr>"
    and e: "list_all2 net_effect (k_procs k) (k_procs k')" using assms by (simp_all add: kernel_keeps_def)
  show "k_last_sched k' = k_last_sched k" "k_cur k' = k_cur k"
    using arg_cong [OF k', of k_last_sched] arg_cong [OF k', of k_cur] by simp_all
  show "list_all2 same_or_net (k_procs k) (k_procs k')"
    using e by (rule list_all2_mono) (rule net_effect_same)
  have "list_all2 same_space (k_procs k) (k_procs k')"
    using e by (rule list_all2_mono) (rule net_effect_same)
  moreover have "k_pmm k' = k_pmm k" "k_mmu k' = k_mmu k" "k_user_of k' = k_user_of k"
    "fs_descs (k_fd k') = fs_descs (k_fd k)" "fs_pipes (k_fd k') = fs_pipes (k_fd k)"
    using arg_cong [OF k', of k_pmm] arg_cong [OF k', of k_mmu] arg_cong [OF k', of k_user_of]
      arg_cong [OF k', of "\<lambda>k. fs_descs (k_fd k)"] arg_cong [OF k', of "\<lambda>k. fs_pipes (k_fd k)"] by simp_all
  ultimately show "same_tasks k k'"
    using assms same_refs_fd_inv [of _ _ "k_fd k" "k_fd k'"]
    by (auto simp: same_tasks_def kernel_keeps_def sock_refs_def conn_refs_def)
qed


subsection \<open>Packets change no more of the kernel\<close>

text \<open>Sending leaves the kernel alone.\<close>

named_theorems send_frame \<open>fields a send does not change\<close>

lemma set_nif_frame [simp]:
  "w_k (set_nif i f w) = w_k w" "w_nd (set_nif i f w) = w_nd w" "w_ping (set_nif i f w) = w_ping w"
  "w_now (set_nif i f w) = w_now w" "w_out (set_nif i f w) = w_out w" "length (w_ifs (set_nif i f w)) = length (w_ifs w)"
  "w_drv (set_nif i f w) = w_drv w" "tcp_of (set_nif i f w) = tcp_of w" "udp_of (set_nif i f w) = udp_of w"
  by (simp_all add: set_nif_def tcp_of_def udp_of_def)

lemma upd_dbg_frame [simp]:
  "w_k (upd_dbg f w) = w_k w" "w_nd (upd_dbg f w) = w_nd w" "w_ping (upd_dbg f w) = w_ping w" "w_ifs (upd_dbg f w) = w_ifs w"
  "w_now (upd_dbg f w) = w_now w" "w_out (upd_dbg f w) = w_out w" "the_nif i (upd_dbg f w) = the_nif i w"
  "w_drv (upd_dbg f w) = w_drv w" "tcp_of (upd_dbg f w) = tcp_of w" "udp_of (upd_dbg f w) = udp_of w"
  by (simp_all add: upd_dbg_def the_nif_def tcp_of_def udp_of_def)

lemma eth_send_k [send_frame]: "w_k (snd (eth_send_ipv6 i m p w)) = w_k w"
  by (simp add: eth_send_ipv6_def netif_tx_frame_def)

lemma icmp_send_k [send_frame]: "w_k (snd (ipv6_send_icmp i s d m hl ty code body w)) = w_k w"
  by (simp add: ipv6_send_icmp_def send_frame split: option.split)

lemma nd_send_k [send_frame]:
  "w_k (snd (send_neighbor_solicitation i t w)) = w_k w" "w_k (snd (send_neighbor_advertisement i d m t w)) = w_k w"
  "w_k (snd (send_router_solicitation i w)) = w_k w" "w_k (snd (send_echo_request i d m ident seq w)) = w_k w"
  "w_k (snd (send_echo_reply i s d m b w)) = w_k w" "w_k (send_unsolicited_neighbor_advertisement i t w) = w_k w"
  by (simp_all add: send_neighbor_solicitation_def send_neighbor_advertisement_def send_router_solicitation_def
    send_echo_request_def send_echo_reply_def send_unsolicited_neighbor_advertisement_def Let_def send_frame split: option.split)

lemma configure_k [send_frame]:
  "w_k (netif_ipv6_update_multicast_list i w) = w_k w" "w_k (net_ipv6_configure_netif i w) = w_k w" "w_k (need_ll i w) = w_k w"
  "w_k (maybe_solicit_router i w) = w_k w"
  by (simp_all add: netif_ipv6_update_multicast_list_def net_ipv6_configure_netif_def need_ll_def maybe_solicit_router_def
    Let_def send_frame)

lemma hop_k [send_frame]: "w_k (snd (hop_mac i d nh w)) = w_k w" "w_k (snd (next_hop_mac i d w)) = w_k w"
  "w_k (snd (tcp6_prepare_l2 i d w)) = w_k w" "w_k (snd (tcp6_send_segment i s d m sp dp sq ak fl pl mss w)) = w_k w"
proof -
  show h: "w_k (snd (hop_mac i d nh w)) = w_k w" for nh w
    by (simp add: hop_mac_def Let_def send_frame split: option.split)
  then show n: "w_k (snd (next_hop_mac i d w)) = w_k w" for w
    by (simp add: next_hop_mac_def split: sum.split)
  then show "w_k (snd (tcp6_prepare_l2 i d w)) = w_k w"
    by (simp add: tcp6_prepare_l2_def Let_def send_frame)
  show "w_k (snd (tcp6_send_segment i s d m sp dp sq ak fl pl mss w)) = w_k w"
    by (simp add: tcp6_send_segment_def Let_def send_frame)
qed

lemma tcp6_ack_k [send_frame]: "w_k (tcp6_ack i cid w) = w_k w"
proof -
  obtain r w1 where p: "tcp6_prepare_l2 i (tc_remote_ip (tt_conns (tcp_of w) ! cid)) w = (r, w1)" by fastforce
  then have "w_k w1 = w_k w" using hop_k(3) by (metis snd_conv)
  then show ?thesis
    using p by (simp add: tcp6_ack_def Let_def send_frame split: sum.split option.split)
qed

text \<open>The three ways a received packet reaches the kernel.\<close>

lemma kernel_keeps_sock_list:
  assumes "w_k w' = (w_k w)\<lparr>k_fd := (k_fd (w_k w))\<lparr>fs_udp := u\<rparr>\<rparr>"
    and "map (\<lambda>s. (us_used s, us_refs s)) (ud_socks u) = map (\<lambda>s. (us_used s, us_refs s)) (ud_socks (udp_of w))"
  shows "kernel_keeps (w_k w) (w_k w')"
  unfolding kernel_keeps_def assms(1) using assms(2) by (simp add: sock_refs_def conn_refs_def udp_of_def list_all2_same)

lemma kernel_keeps_conn:
  assumes "tc_used (f c) = tc_used c" and "tc_refs (f c) = tc_refs c" and "c = tt_conns (tcp_of w) ! cid"
  shows "kernel_keeps (w_k w) (w_k (upd_conn cid f w))"
proof -
  have "map (\<lambda>c. (tc_used c, tc_refs c)) (upd_at cid f cs) = map (\<lambda>c. (tc_used c, tc_refs c)) cs" if "c = cs ! cid" for cs
    using assms(1,2) that by (cases "cid < length cs") (auto simp: upd_at_def map_update list_update_same_conv intro!: nth_equalityI)
  from this [OF assms(3)] show ?thesis
    by (simp add: kernel_keeps_def upd_conn_def set_tcp_def sock_refs_def conn_refs_def tcp_of_def list_all2_same)
qed

lemma kernel_keeps_procs:
  assumes "list_all2 net_effect (k_procs k) ps"
  shows "kernel_keeps k (k\<lparr>k_procs := ps\<rparr>)"
  using assms by (simp add: kernel_keeps_def sock_refs_def conn_refs_def)

lemma kernel_keeps_proc:
  assumes "i < length (k_procs k) \<Longrightarrow> net_effect (k_procs k ! i) (f (k_procs k ! i))"
  shows "kernel_keeps k (set_proc i f k)"
  unfolding set_proc_def by (rule kernel_keeps_procs) (use assms in \<open>simp add: list_all2_conv_all_nth nth_upd_at\<close>)

lemma wake_waiters_keeps: "kernel_keeps k (udp6_wake_waiters sid k)"
  unfolding udp6_wake_waiters_def
  by (rule kernel_keeps_procs) (simp add: list_all2_conv_all_nth wake_waiter_def net_effect_def woken_by_net_def)

lemma fold_keeps: "(\<And>x k. kernel_keeps k (f x k)) \<Longrightarrow> kernel_keeps k (fold f xs k)"
  by (induction xs arbitrary: k) (auto intro: kernel_keeps_trans)

lemma deliver_keeps: "kernel_keeps (w_k w) (w_k (udp6_deliver_wake s sp dp payload w))"
proof -
  obtain sids u where d: "udp6_deliver s sp dp payload (udp_of w) = (sids, u)" by fastforce
  have "kernel_keeps (w_k w) (w_k (set_udp u w))"
  proof (rule kernel_keeps_sock_list)
    show "w_k (set_udp u w) = (w_k w)\<lparr>k_fd := (k_fd (w_k w))\<lparr>fs_udp := u\<rparr>\<rparr>" by (simp add: set_udp_def)
    show "map (\<lambda>s. (us_used s, us_refs s)) (ud_socks u) = map (\<lambda>s. (us_used s, us_refs s)) (ud_socks (udp_of w))"
      using d by (auto simp: udp6_deliver_def udp6_enqueue_def Let_def split: if_splits)
  qed
  then have "kernel_keeps (w_k w) (fold udp6_wake_waiters sids (w_k (set_udp u w)))"
    using fold_keeps [of udp6_wake_waiters] wake_waiters_keeps kernel_keeps_trans by blast
  then show ?thesis by (simp add: udp6_deliver_wake_def d)
qed

lemma learn_frame [simp]: "w_k (learn ip m w) = w_k w" "w_ifs (learn ip m w) = w_ifs w" "w_ping (learn ip m w) = w_ping w"
  "w_out (learn ip m w) = w_out w" "the_nif i (learn ip m w) = the_nif i w" "tcp_of (learn ip m w) = tcp_of w"
  "udp_of (learn ip m w) = udp_of w" "w_now (learn ip m w) = w_now w" "w_drv (learn ip m w) = w_drv w"
  by (simp_all add: learn_def the_nif_def tcp_of_def udp_of_def)

lemma rx_drop_frame [simp]: "w_k (rx_drop i f w) = w_k w" "w_nd (rx_drop i f w) = w_nd w" "w_ping (rx_drop i f w) = w_ping w"
  "w_out (rx_drop i f w) = w_out w" "length (w_ifs (rx_drop i f w)) = length (w_ifs w)"
  "tcp_of (rx_drop i f w) = tcp_of w" "udp_of (rx_drop i f w) = udp_of w"
  by (simp_all add: rx_drop_def)

lemma udp6_input_keeps: "kernel_keeps (w_k w) (w_k (udp6_input i m s d payload w))"
  using deliver_keeps [of "learn s m (upd_dbg (\<lambda>d. d\<lparr>db_rx_udp := db_rx_udp d + 1\<rparr>) w)"]
  by (simp add: udp6_input_def Let_def)

lemma tcp6_push_frame [simp]: "tc_used (tcp6_push bs c) = tc_used c" "tc_refs (tcp6_push bs c) = tc_refs c"
  "tc_state (tcp6_push bs c) = tc_state c" "tc_remote_ip (tcp6_push bs c) = tc_remote_ip c"
  "tc_rcv_nxt (tcp6_push bs c) = tc_rcv_nxt c" "tc_rx_count (tcp6_push bs c) = tc_rx_count c"
  "tc_rx_head (tcp6_push bs c) = tc_rx_head c" "tc_irs (tcp6_push bs c) = tc_irs c" "tc_local_port (tcp6_push bs c) = tc_local_port c"
  "tc_remote_port (tcp6_push bs c) = tc_remote_port c" "tc_snd_nxt (tcp6_push bs c) = tc_snd_nxt c"
  "tc_snd_una (tcp6_push bs c) = tc_snd_una c"
  by (induction bs c rule: tcp6_push.induct) simp_all

definition same_conn :: "tcp6_conn \<Rightarrow> tcp6_conn \<Rightarrow> bool" where
  "same_conn c c' \<longleftrightarrow> tc_used c' = tc_used c \<and> tc_refs c' = tc_refs c \<and> tc_remote_ip c' = tc_remote_ip c \<and>
     tc_local_port c' = tc_local_port c \<and> tc_remote_port c' = tc_remote_port c \<and> tc_snd_nxt c' = tc_snd_nxt c"

lemma established_same: "same_conn c (tcp6_established sq ak c)"
  by (simp add: same_conn_def tcp6_established_def)

lemma acked_same: "same_conn c (tcp6_acked fl ak c)"
  by (simp add: same_conn_def tcp6_acked_def)

lemma fin_same: "same_conn c (tcp6_fin sq c)"
  by (simp add: same_conn_def tcp6_fin_def)

lemma take_same: "same_conn c (tcp6_take data c)"
  by (simp add: same_conn_def tcp6_take_def Let_def)

lemma same_conn_trans: "same_conn c c' \<Longrightarrow> same_conn c' c'' \<Longrightarrow> same_conn c c''"
  by (simp add: same_conn_def)

lemma tcp6_react_frame:
  assumes "tcp6_react fl sq ak data c = (c', reply)"
  shows "same_conn c c'"
proof -
  have "same_conn c (tcp6_fin sq (tcp6_acked fl ak c))" "same_conn c (tcp6_take data (tcp6_acked fl ak c))"
    using acked_same fin_same take_same same_conn_trans by blast+
  moreover have "same_conn c c" by (simp add: same_conn_def)
  moreover have "same_conn c (tcp6_acked fl ak c)" "same_conn c (tcp6_established sq ak c)"
    by (rule acked_same established_same)+
  ultimately show ?thesis
    using assms unfolding tcp6_react_def Let_def by (simp only: prod.inject split: if_split_asm)
qed

lemma tcp6_input_keeps: "kernel_keeps (w_k w) (w_k (tcp6_input i m s d payload w))"
proof -
  have "kernel_keeps (w_k w) (w_k (upd_conn cid (\<lambda>_. c) (learn s m w)))"
    if "tcp6_react fl sq ak data (tt_conns (tcp_of w) ! cid) = (c, reply)" for cid c reply fl sq ak data
  proof -
    have "same_conn (tt_conns (tcp_of w) ! cid) c" by (rule tcp6_react_frame [OF that])
    then have r: "tc_used c = tc_used (tt_conns (tcp_of w) ! cid)" "tc_refs c = tc_refs (tt_conns (tcp_of w) ! cid)"
      by (simp_all add: same_conn_def)
    have "kernel_keeps (w_k (learn s m w)) (w_k (upd_conn cid (\<lambda>_. c) (learn s m w)))"
      by (rule kernel_keeps_conn [OF r]) (simp only: learn_frame)
    then show ?thesis by (simp only: learn_frame)
  qed
  then show ?thesis
    by (auto simp: tcp6_input_def Let_def send_frame split: option.split prod.split)
qed

lemma set_phase_frame [simp]: "w_k (set_phase n w) = w_k w" "w_ifs (set_phase n w) = w_ifs w" "w_nd (set_phase n w) = w_nd w"
  "w_out (set_phase n w) = w_out w" "tcp_of (set_phase n w) = tcp_of w" "udp_of (set_phase n w) = udp_of w"
  by (simp_all add: set_phase_def tcp_of_def udp_of_def)

lemma ping_start_keeps: "kernel_keeps (w_k w) (w_k (set_ping_start idx t w))"
  unfolding set_ping_start_def by simp (rule kernel_keeps_proc, simp add: net_effect_def)

lemma kick_keeps: "kernel_keeps (w_k w) (w_k (maybe_kick_ping_after_nd_update ip w))"
proof -
  have "kernel_keeps (w_k w) (w_k (set_ping_start idx t w'))" if "send_echo_request i d m ident seq w = (r, w')" for i d m ident seq r w' idx t
  proof -
    have "w_k w' = w_k w" using nd_send_k(4) [of i d m ident seq w] that by simp
    then show ?thesis using ping_start_keeps [of w'] by simp
  qed
  moreover have "w_k w' = w_k w" if "send_echo_request i d m ident seq w = (r, w')" for i d m ident seq r w'
    using nd_send_k(4) [of i d m ident seq w] that by simp
  ultimately show ?thesis
    by (auto simp: maybe_kick_ping_after_nd_update_def Let_def split: option.split prod.split sum.split)
qed

lemma ping_complete_keeps: "kernel_keeps (w_k w) (w_k (ping_complete ret rtt w))"
proof -
  have "kernel_keeps (w_k w) (set_proc idx (ping_reply ret rtt) (w_k w))"
    if "pg_on (p_ping6 (k_procs (w_k w) ! idx))" for idx
    by (rule kernel_keeps_proc) (use that in \<open>auto simp: net_effect_def ping_reply_def woken_by_net_def\<close>)
  then show ?thesis by (auto simp: ping_complete_def split: option.split)
qed

lemma ra_option_k: "w_k (ra_option i s op w) = w_k w"
  by (simp add: ra_option_def ra_prefix_def ra_rdnss_def Let_def send_frame)

lemma icmpv6_dispatch_keeps: "kernel_keeps (w_k w) (w_k (icmpv6_dispatch i m s d hl ty body w))"
proof -
  have fold_ra: "w_k (fold (ra_option i s) ops w) = w_k w" for ops w
    by (induction ops arbitrary: w) (simp_all add: ra_option_k)
  have ra: "w_k (ra_input i s hl body w) = w_k w"
    by (simp add: ra_input_def Let_def fold_ra)
  have ns: "w_k (ns_input i m s body w) = w_k w"
    by (auto simp: ns_input_def Let_def send_frame split: option.split)
  have na: "kernel_keeps (w_k w) (w_k (na_input i body w))"
    using kick_keeps [of "learn (take 16 (drop 4 body)) mac (upd_dbg (\<lambda>d. d\<lparr>db_rx_na := db_rx_na d + 1\<rparr>) w)" for mac]
    by (auto simp: na_input_def Let_def split: option.split)
  have rq: "w_k (echo_request_input i m s d body w) = w_k w"
    by (simp add: echo_request_input_def Let_def send_frame)
  have rp: "kernel_keeps (w_k w) (w_k (echo_reply_input s body w))"
    using ping_complete_keeps [of "upd_dbg (\<lambda>d. d\<lparr>db_rx_echo_reply := db_rx_echo_reply d + 1\<rparr>) w"]
    by (simp add: echo_reply_input_def Let_def split: option.split)
  show ?thesis using na rp by (simp add: icmpv6_dispatch_def ra ns rq)
qed

lemma ipv6_dispatch_keeps: "kernel_keeps (w_k w) (w_k (ipv6_dispatch i m s d hl nh payload w))"
proof -
  have "kernel_keeps (w_k w) (w_k (icmpv6_input i m s d hl payload w))"
    unfolding icmpv6_input_def Let_def
    using icmpv6_dispatch_keeps [of "upd_dbg (\<lambda>d. d\<lparr>db_last_icmp_type := payload ! 0, db_last_hop_limit := hl\<rparr>) (upd_dbg (\<lambda>d. d\<lparr>db_rx_icmpv6 := db_rx_icmpv6 d + 1\<rparr>) w)"]
    by simp
  then show ?thesis by (simp add: ipv6_dispatch_def udp6_input_keeps tcp6_input_keeps)
qed

lemma net_ipv6_input_keeps: "kernel_keeps (w_k w) (w_k (net_ipv6_input i m pkt w))"
proof -
  have d: "kernel_keeps (w_k w) (w_k (ipv6_dispatch i m s d hl nh payload w1))" if "w_k w1 = w_k w" for s d hl nh payload w1
    using ipv6_dispatch_keeps [of w1] that by simp
  show ?thesis
    unfolding net_ipv6_input_def Let_def by (simp add: d send_frame)
qed

lemma netif_rx_frame_keeps: "kernel_keeps (w_k w) (w_k (netif_rx_frame i frame w))"
  using net_ipv6_input_keeps [of "set_nif i (\<lambda>n. n\<lparr>nf_rx_frames := nf_rx_frames n + 1\<rparr>) w"]
  by (simp add: netif_rx_frame_def ether_input_def)

end
