(* ===== verification/NetOk.thy ===== *)
theory NetOk
  imports NetInv
begin

text \<open>
  The invariant of the packet layer is kept by every send and by every received frame, whatever its
  bytes: in particular every frame handed to a driver is a valid packet.
\<close>

text \<open>One call that keeps the invariant and the set of interfaces.\<close>

definition stays :: "world \<Rightarrow> world \<Rightarrow> bool" where
  "stays w w' \<longleftrightarrow> net_ok w' \<and> length (w_ifs w') = length (w_ifs w)"

definition ready :: "nat \<Rightarrow> world \<Rightarrow> bool" where
  "ready i w \<longleftrightarrow> net_ok w \<and> i < length (w_ifs w)"

lemma stays_ready: "stays w w' \<Longrightarrow> ready i w \<Longrightarrow> ready i w'"
  by (simp add: stays_def ready_def)

lemma stays_refl: "ready i w \<Longrightarrow> stays w w"
  by (simp add: stays_def ready_def)

lemma stays_trans: "stays w w' \<Longrightarrow> stays w' w'' \<Longrightarrow> stays w w''"
  by (simp add: stays_def)

lemma ready_nif: "ready i w \<Longrightarrow> nif_ok (the_nif i w)"
  by (simp add: ready_def net_ok_def the_nif_def list_all_length)

lemma nif_lengths:
  assumes "ready i w"
  shows "length (nf_mac (the_nif i w)) = 6" "length (nf_ll (the_nif i w)) = 16" "length (nf_global (the_nif i w)) = 16"
    "length (nf_prefix (the_nif i w)) = 16" "length (nf_router (the_nif i w)) = 16"
  using ready_nif [OF assms] by (simp_all add: nif_ok_def)

subsection \<open>Single steps\<close>

lemma out_ok_macs: "map nf_mac ifs' = map nf_mac ifs \<Longrightarrow> out_ok ifs' fs = out_ok ifs fs"
proof -
  assume m: "map nf_mac ifs' = map nf_mac ifs"
  then have len: "length ifs' = length ifs" by (rule map_eq_imp_length_eq)
  have "nf_mac (ifs' ! i) = nf_mac (ifs ! i)" if "i < length ifs" for i
    using arg_cong [OF m, of "\<lambda>l. l ! i"] that len by simp
  then show ?thesis by (auto simp: out_ok_def list_all_iff len)
qed

definition nif_step :: "(netif \<Rightarrow> netif) \<Rightarrow> bool" where
  "nif_step f \<longleftrightarrow> (\<forall>n. nif_ok n \<longrightarrow> nif_ok (f n) \<and> nf_mac (f n) = nf_mac n)"

lemma stays_set_nif:
  assumes "ready i w" and "nif_step f"
  shows "stays w (set_nif i f w)"
proof -
  have i: "i < length (w_ifs w)" "list_all nif_ok (w_ifs w)" using assms(1) by (simp_all add: ready_def net_ok_def)
  then have n: "nif_ok (w_ifs w ! i)" by (simp add: list_all_length)
  have "list_all nif_ok (upd_at i f (w_ifs w))"
    using i n assms(2) by (intro list_all_upd_at) (simp_all add: nif_step_def)
  moreover have "map nf_mac (upd_at i f (w_ifs w)) = map nf_mac (w_ifs w)"
    using n i assms(2) by (simp add: upd_at_def map_update list_update_same_conv nif_step_def)
  then have "out_ok (upd_at i f (w_ifs w)) fs = out_ok (w_ifs w) fs" for fs by (rule out_ok_macs)
  ultimately show ?thesis using assms(1) by (simp add: stays_def ready_def net_ok_def set_nif_def tcp_of_def udp_of_def)
qed

lemma net_ok_upd_dbg [simp]: "net_ok (upd_dbg f w) = net_ok w"
  by (simp add: net_ok_def)

lemma ready_upd_dbg [simp]: "ready i (upd_dbg f w) = ready i w" "stays (upd_dbg f w) w' = stays w w'"
  "stays w (upd_dbg f w') = stays w w'"
  by (simp_all add: ready_def stays_def)

lemma stays_rx_drop: "ready i w \<Longrightarrow> stays w (rx_drop i f w)"
  using stays_set_nif [of i w "\<lambda>n. n\<lparr>nf_rx_drops := nf_rx_drops n + 1\<rparr>"]
  by (simp add: rx_drop_def nif_step_def nif_ok_def)

lemma nd_update_ok:
  assumes "nd_ok nd" and "length ip = 16" and "length mac = 6"
  shows "nd_ok (nd_update ip mac nd)"
  using assms by (auto simp: nd_ok_def nd_update_def Let_def split: option.split intro!: list_all_upd_at)

lemma stays_learn: "ready i w \<Longrightarrow> length ip = 16 \<Longrightarrow> length mac = 6 \<Longrightarrow> stays w (learn ip mac w)"
  by (simp add: stays_def ready_def net_ok_def nd_update_ok) (simp add: learn_def nd_update_ok)

lemma nd_lookup_length: "nd_ok nd \<Longrightarrow> nd_lookup_mac ip nd = Some mac \<Longrightarrow> length mac = 6"
  by (auto simp: nd_ok_def nd_lookup_mac_def list_all_length)

lemma ready_lookup: "ready i w \<Longrightarrow> nd_lookup_mac ip (w_nd w) = Some mac \<Longrightarrow> length mac = 6"
  by (rule nd_lookup_length [of "w_nd w" ip]) (simp_all add: ready_def net_ok_def)

lemma select_src_length: "ready i w \<Longrightarrow> ipv6_select_src_ip (the_nif i w) d = Some s \<Longrightarrow> length s = 16"
  by (auto simp: ipv6_select_src_ip_def nif_lengths split: if_splits)

lemma next_hop_length: "ready i w \<Longrightarrow> length d = 16 \<Longrightarrow> ipv6_select_next_hop (the_nif i w) d = Inr nh \<Longrightarrow> length nh = 16"
  by (auto simp: ipv6_select_next_hop_def nif_lengths split: if_splits)

lemma address_lengths [simp]:
  "length (ipv6_make_solicited_node_multicast t) = 16" "length (ipv6_multicast_to_eth ip) = 6"
  "length (ipv6_make_link_local_from_mac m) = 16" "length all_nodes = 16" "length all_routers = 16"
  by (simp_all add: ipv6_make_solicited_node_multicast_def ipv6_multicast_to_eth_def
    ipv6_make_link_local_from_mac_def all_nodes_def all_routers_def)

subsection \<open>Sending\<close>

lemma stays_eth:
  assumes r: "ready i w" and mac: "length m = 6" and p: "length p \<le> 160 \<Longrightarrow> valid_packet p"
  shows "stays w (snd (eth_send_ipv6 i m p w))"
proof -
  let ?n = "the_nif i w" let ?f = "m @ nf_mac ?n @ be16_store ETH_TYPE_IPV6 @ p"
  have frame: "valid_frame (nf_mac ?n) ?f" if "length p \<le> 160"
  proof -
    have "be16_load ((m @ nf_mac ?n) @ be16_store ETH_TYPE_IPV6 @ p) 12 = ETH_TYPE_IPV6"
      by (rule be16_load_store_at) (simp add: mac nif_lengths [OF r])
    then show ?thesis using that p by (simp add: valid_frame_def mac nif_lengths [OF r])
  qed
  have drop: "stays w (set_nif i (\<lambda>n. n\<lparr>nf_tx_drops := nf_tx_drops n + 1\<rparr>) w)"
    and sent: "stays w (set_nif i (\<lambda>n. n\<lparr>nf_tx_frames := nf_tx_frames n + 1\<rparr>) w)"
    by (rule stays_set_nif [OF r], simp add: nif_step_def nif_ok_def)+
  have "stays w ((set_nif i (\<lambda>n. n\<lparr>nf_tx_frames := nf_tx_frames n + 1\<rparr>) w)\<lparr>w_out := w_out w @ [(i, ?f)]\<rparr>)" if "length p \<le> 160"
  proof -
    have "nf_mac (w_ifs (set_nif i (\<lambda>n. n\<lparr>nf_tx_frames := nf_tx_frames n + 1\<rparr>) w) ! i) = nf_mac ?n"
      using r by (simp add: set_nif_def the_nif_def ready_def)
    then show ?thesis
      using sent frame [OF that] r by (simp add: stays_def net_ok_def out_ok_def ready_def tcp_of_def udp_of_def)
  qed
  then show ?thesis
    using drop stays_refl [OF r] by (simp add: eth_send_ipv6_def netif_tx_frame_def)
qed

lemma stays_icmp:
  assumes r: "ready i w" and len: "length d = 16" "length m = 6" "\<And>s. so = Some s \<Longrightarrow> length s = 16"
  shows "stays w (snd (ipv6_send_icmp i so d m hl ty code body w))"
proof -
  have "stays w (snd (eth_send_ipv6 i m (ip6_header (4 + length body) IPV6_NH_ICMPV6 hl s d @ icmp_segment s d ty code body) w))"
    if s: "length s = 16" for s
  proof (rule stays_eth [OF r len(2)])
    let ?s0 = "[ty, code, 0, 0] @ body"
    assume "length (ip6_header (4 + length body) IPV6_NH_ICMPV6 hl s d @ icmp_segment s d ty code body) \<le> 160"
    then have "length ?s0 \<le> 120" by (simp add: header_parts(1) [OF s len(1)] icmp_segment_def Let_def)
    then have "valid_packet (ip6_header (length ?s0) IPV6_NH_ICMPV6 hl s d @ put_csum 2 (pseudo_checksum IPV6_NH_ICMPV6 s d ?s0) ?s0)"
      by (intro packet_valid) (simp_all add: s len)
    then show "valid_packet (ip6_header (4 + length body) IPV6_NH_ICMPV6 hl s d @ icmp_segment s d ty code body)"
      by (simp add: icmp_segment_def icmpv6_checksum_def IPV6_NH_ICMPV6_def Let_def eval_nat_numeral)
  qed
  then show ?thesis
    using stays_refl [OF r] len(3) select_src_length [OF r] by (auto simp: ipv6_send_icmp_def split: option.split)
qed

lemma stays_icmp_none:
  assumes "ready i w" and "length d = 16" and "length m = 6"
  shows "stays w (snd (ipv6_send_icmp i None d m hl ty code body w))"
    and "stays w (snd (ipv6_send_icmp i None d m hl ty code body (upd_dbg f w)))"
  using stays_icmp [of i w d m None] stays_icmp [of i "upd_dbg f w" d m None] assms by simp_all

lemma stays_solicit:
  assumes "ready i w"
  shows "stays w (snd (send_neighbor_solicitation i t w))" and "stays w (snd (send_router_solicitation i w))"
  unfolding send_neighbor_solicitation_def send_router_solicitation_def Let_def
  by (rule stays_icmp_none(2) [OF assms], simp_all)+

lemma stays_advert:
  "ready i w \<Longrightarrow> length d = 16 \<Longrightarrow> length m = 6 \<Longrightarrow> stays w (snd (send_neighbor_advertisement i d m t w))"
  unfolding send_neighbor_advertisement_def by (rule stays_icmp_none)

lemma stays_echo_request:
  "ready i w \<Longrightarrow> length d = 16 \<Longrightarrow> length m = 6 \<Longrightarrow> stays w (snd (send_echo_request i d m ident seq w))"
  unfolding send_echo_request_def by (rule stays_icmp_none)

lemma stays_echo_reply:
  "ready i w \<Longrightarrow> length s = 16 \<Longrightarrow> length d = 16 \<Longrightarrow> length m = 6 \<Longrightarrow> stays w (snd (send_echo_reply i (Some s) d m b w))"
  unfolding send_echo_reply_def by (rule stays_icmp) simp_all

lemma stays_una:
  assumes r: "ready i w" and t: "length t = 16"
  shows "stays w (send_unsolicited_neighbor_advertisement i t w)"
proof -
  define una where "una = (\<lambda>d m w'. snd (ipv6_send_icmp i (Some t) d m 255 ICMPV6_NEIGHBOR_ADVERT 0
    (nd_body 0x20 t 2 (nf_mac (the_nif i w))) w'))"
  have una: "ready i w' \<Longrightarrow> length d = 16 \<Longrightarrow> length m = 6 \<Longrightarrow> stays w' (una d m w')" for d m w'
    unfolding una_def by (rule stays_icmp) (use t in simp_all)
  let ?w1 = "una all_nodes (ipv6_multicast_to_eth all_nodes) w"
  have s1: "stays w ?w1" using una [OF r] by simp
  have r1: "ready i ?w1" by (rule stays_ready [OF s1 r])
  have "stays ?w1 (una (nf_router (the_nif i w2)) rmac w2)"
    if l: "nd_lookup_mac (nf_router (the_nif i ?w1)) (w_nd ?w1) = Some rmac"
      and w2: "w2 = (if nf_prefix_len (the_nif i ?w1) = 64 then una (take 8 (nf_prefix (the_nif i ?w1)) @ replicate 7 0 @ [1]) rmac ?w1 else ?w1)"
    for rmac w2
  proof -
    have m: "length rmac = 6" by (rule ready_lookup [OF r1 l])
    have "stays ?w1 w2" unfolding w2 using una [OF r1] m nif_lengths [OF r1] stays_refl [OF r1] by simp
    then show ?thesis using una [of w2] m stays_trans stays_ready [OF _ r1] nif_lengths [of i w2] by blast
  qed
  then have s2: "stays w (una (nf_router (the_nif i w2)) rmac w2)"
    if "nd_lookup_mac (nf_router (the_nif i ?w1)) (w_nd ?w1) = Some rmac"
      and "w2 = (if nf_prefix_len (the_nif i ?w1) = 64 then una (take 8 (nf_prefix (the_nif i ?w1)) @ replicate 7 0 @ [1]) rmac ?w1 else ?w1)"
    for rmac w2
    using that stays_trans [OF s1] by blast
  have fold: "snd (ipv6_send_icmp i (Some t) d m 255 ICMPV6_NEIGHBOR_ADVERT 0
      (nd_body 0x20 t 2 (nf_mac (the_nif i w))) w') = una d m w'" for d m w'
    by (simp add: una_def)
  show ?thesis
    unfolding send_unsolicited_neighbor_advertisement_def Let_def fold
    using s1 s2 by (simp split: option.split)
qed

lemma stays_mcast: "ready i w \<Longrightarrow> stays w (netif_ipv6_update_multicast_list i w)"
  by (simp add: netif_ipv6_update_multicast_list_def Let_def stays_def ready_def net_ok_def tcp_of_def udp_of_def)

lemma stays_configure:
  assumes r: "ready i w"
  shows "stays w (net_ipv6_configure_netif i w)" and "stays w (need_ll i w)"
proof -
  let ?w1 = "set_nif i (\<lambda>n. n\<lparr>nf_ll := ipv6_make_link_local_from_mac (nf_mac n), nf_ll_valid := True\<rparr>) w"
  have s1: "stays w ?w1" by (rule stays_set_nif [OF r]) (simp add: nif_step_def nif_ok_def)
  have s2: "stays ?w1 (netif_ipv6_update_multicast_list i ?w1)" by (rule stays_mcast [OF stays_ready [OF s1 r]])
  have s12: "stays w (netif_ipv6_update_multicast_list i ?w1)" by (rule stays_trans [OF s1 s2])
  let ?w3 = "snd (send_router_solicitation i (netif_ipv6_update_multicast_list i ?w1))"
  have s3: "stays w ?w3" by (rule stays_trans [OF s12 stays_solicit(2) [OF stays_ready [OF s12 r]]])
  have "stays ?w3 (set_nif i (\<lambda>n. n\<lparr>nf_last_rs_ns := w_now w\<rparr>) ?w3)"
    by (rule stays_set_nif [OF stays_ready [OF s3 r]]) (simp add: nif_step_def nif_ok_def)
  then show c: "stays w (net_ipv6_configure_netif i w)"
    using stays_trans [OF s3] by (simp add: net_ipv6_configure_netif_def Let_def)
  show "stays w (need_ll i w)" using c stays_refl [OF r] by (simp add: need_ll_def)
qed

lemma stays_maybe_solicit:
  assumes r: "ready i w"
  shows "stays w (maybe_solicit_router i w)"
proof -
  let ?w1 = "snd (send_router_solicitation i w)"
  have s: "stays w ?w1" by (rule stays_solicit(2) [OF r])
  have "stays ?w1 (set_nif i (\<lambda>n. n\<lparr>nf_last_rs_ns := w_now w\<rparr>) ?w1)"
    by (rule stays_set_nif [OF stays_ready [OF s r]]) (simp add: nif_step_def nif_ok_def)
  then show ?thesis using stays_trans [OF s] stays_refl [OF r] by (simp add: maybe_solicit_router_def Let_def)
qed

lemma stays_hop_mac:
  assumes r: "ready i w"
  shows "stays w (snd (hop_mac i d nh w))" and "fst (hop_mac i d nh w) = Inr mac \<Longrightarrow> length mac = 6"
proof -
  let ?w1 = "snd (send_neighbor_solicitation i nh w)"
  have s1: "stays w ?w1" by (rule stays_solicit(1) [OF r])
  have r1: "ready i ?w1" by (rule stays_ready [OF s1 r])
  have s2: "stays w (snd (send_neighbor_solicitation i t ?w1))" for t
    by (rule stays_trans [OF s1 stays_solicit(1) [OF r1]])
  show "stays w (snd (hop_mac i d nh w))"
    using s1 s2 stays_refl [OF r] by (auto simp: hop_mac_def Let_def split: option.split)
  show "fst (hop_mac i d nh w) = Inr mac \<Longrightarrow> length mac = 6"
    using ready_lookup [OF r] ready_lookup [OF r1] by (auto simp: hop_mac_def Let_def split: option.splits if_splits)
qed

lemma stays_next_hop:
  assumes r: "ready i w"
  shows "stays w (snd (next_hop_mac i d w))" and "fst (next_hop_mac i d w) = Inr mac \<Longrightarrow> length mac = 6"
  using stays_hop_mac [OF r, of d] stays_refl [OF r] by (auto simp: next_hop_mac_def split: sum.splits)

lemma stays_prepare_l2:
  assumes r: "ready i w"
  shows "stays w (snd (tcp6_prepare_l2 i d w))" and "fst (tcp6_prepare_l2 i d w) = Inr mac \<Longrightarrow> length mac = 6"
proof -
  have s: "stays w (need_ll i w)" by (rule stays_configure(2) [OF r])
  have r1: "ready i (need_ll i w)" by (rule stays_ready [OF s r])
  show "stays w (snd (tcp6_prepare_l2 i d w))"
    using s stays_trans [OF s stays_maybe_solicit [OF r1]] stays_trans [OF s stays_next_hop(1) [OF r1]]
    by (simp add: tcp6_prepare_l2_def Let_def)
  show "fst (tcp6_prepare_l2 i d w) = Inr mac \<Longrightarrow> length mac = 6"
    using stays_next_hop(2) [OF r1] by (auto simp: tcp6_prepare_l2_def Let_def split: if_splits)
qed

lemma stays_tcp_segment:
  assumes r: "ready i w" and len: "length s = 16" "length d = 16" "length m = 6"
  shows "stays w (snd (tcp6_send_segment i s d m sp dp sq ak fl payload mss w))"
proof -
  define opts where "opts = (if mss then [2, 4] @ be16_store (word_of_nat TCP6_MSS) else ([] :: u8 list))"
  define s0 where "s0 = be16_store sp @ be16_store dp @ be32_store sq @ be32_store ak @
    [push_bit 4 (word_of_nat ((20 + length opts) div 4) AND 0x0f), fl] @ be16_store 4096 @ [0, 0] @ [0, 0] @ opts @ payload"
  have seg: "tcp_segment s d sp dp sq ak fl payload mss = put_csum 16 (pseudo_checksum IPV6_NH_TCP s d s0) s0"
    by (simp add: tcp_segment_def Let_def opts_def s0_def tcp6_checksum_def)
  have l0: "length s0 = 20 + (if mss then 4 else 0) + length payload"
    by (simp add: s0_def opts_def)
  have z: "s0 ! 16 = 0" "s0 ! 17 = 0" by (simp_all add: s0_def be16_store_def be32_store_def nth_append)
  have "stays w (snd (eth_send_ipv6 i m (ip6_header (length s0) IPV6_NH_TCP 64 s d @ put_csum 16 (pseudo_checksum IPV6_NH_TCP s d s0) s0) w))"
  proof (rule stays_eth [OF r len(3)])
    assume "length (ip6_header (length s0) IPV6_NH_TCP 64 s d @ put_csum 16 (pseudo_checksum IPV6_NH_TCP s d s0) s0) \<le> 160"
    then have "length s0 \<le> 120" by (simp add: header_parts(1) [OF len(1,2)])
    then show "valid_packet (ip6_header (length s0) IPV6_NH_TCP 64 s d @ put_csum 16 (pseudo_checksum IPV6_NH_TCP s d s0) s0)"
      using len l0 z by (intro packet_valid) simp_all
  qed
  then show ?thesis using stays_refl [OF r] by (simp add: tcp6_send_segment_def Let_def seg l0)
qed


subsection \<open>Receiving\<close>

lemma stays_set_udp: "ready i w \<Longrightarrow> udp6_ok u \<Longrightarrow> stays w (set_udp u w)"
  by (simp add: stays_def ready_def net_ok_def set_udp_def tcp_of_def udp_of_def)

lemma stays_same_socks: "ready i w \<Longrightarrow> k_fd k = k_fd (w_k w) \<Longrightarrow> stays w (w\<lparr>w_k := k\<rparr>)"
  by (simp add: stays_def ready_def net_ok_def tcp_of_def udp_of_def)

lemma wake_waiters_fd: "k_fd (fold udp6_wake_waiters sids k) = k_fd k"
  by (induction sids arbitrary: k) (simp_all add: udp6_wake_waiters_def)

lemma stays_deliver:
  assumes r: "ready i w"
  shows "stays w (udp6_deliver_wake s sp dp payload w)"
proof -
  obtain sids u where d: "udp6_deliver s sp dp payload (udp_of w) = (sids, u)" by fastforce
  have "udp6_ok u" using udp6_deliver_ok [of "udp_of w" s sp dp payload] r d by (simp add: ready_def net_ok_def)
  then have s1: "stays w (set_udp u w)" by (rule stays_set_udp [OF r])
  have "stays (set_udp u w) ((set_udp u w)\<lparr>w_k := fold udp6_wake_waiters sids (w_k (set_udp u w))\<rparr>)"
    by (rule stays_same_socks [OF stays_ready [OF s1 r]]) (rule wake_waiters_fd)
  then show ?thesis using stays_trans [OF s1] by (simp add: udp6_deliver_wake_def d)
qed

lemma stays_udp_input:
  assumes r: "ready i w" and len: "length s = 16" "length m = 6"
  shows "stays w (udp6_input i m s d payload w)"
proof -
  let ?w1 = "upd_dbg (\<lambda>d. d\<lparr>db_rx_udp := db_rx_udp d + 1\<rparr>) w"
  have r1: "ready i ?w1" using r by simp
  have l: "stays ?w1 (learn s m ?w1)" by (rule stays_learn [OF r1 len])
  have "stays ?w1 (udp6_deliver_wake s sp dp pl (learn s m ?w1))" for sp dp pl
    by (rule stays_trans [OF l stays_deliver [OF stays_ready [OF l r1]]])
  then show ?thesis
    using stays_rx_drop [OF r1] stays_refl [OF r] by (simp add: udp6_input_def Let_def)
qed

text \<open>TCP: the receive buffer stays a ring.\<close>

lemma tcp6_push_ring:
  "length (tc_rx c) = TCP6_RX_CAP \<Longrightarrow> tc_rx_tail c < TCP6_RX_CAP \<Longrightarrow>
   length (tc_rx (tcp6_push bs c)) = TCP6_RX_CAP \<and> tc_rx_tail (tcp6_push bs c) = (tc_rx_tail c + length bs) mod TCP6_RX_CAP"
proof (induction bs c rule: tcp6_push.induct)
  case (2 b bs c)
  have "(tc_rx_tail c + 1) mod TCP6_RX_CAP < TCP6_RX_CAP" by (simp add: TCP6_RX_CAP_def)
  then show ?case using 2 by (simp add: mod_add_left_eq mod_Suc_eq)
qed simp

lemma conn_tail: "conn_ok c \<Longrightarrow> tc_rx_tail c < TCP6_RX_CAP"
  by (simp add: conn_ok_def TCP6_RX_CAP_def)

lemma tcp6_take_ok:
  assumes "conn_ok c"
  shows "conn_ok (tcp6_take data c)"
proof -
  define n where "n = min (length data) (TCP6_RX_CAP - tc_rx_count c)"
  have "tc_rx_count c \<le> TCP6_RX_CAP" using assms by (simp add: conn_ok_def)
  then have n: "length (take n data) = n" "tc_rx_count c + n \<le> TCP6_RX_CAP"
    unfolding n_def by simp_all
  have "tc_rx_tail c = (tc_rx_head c + tc_rx_count c) mod TCP6_RX_CAP" using assms by (simp add: conn_ok_def)
  then have t: "(tc_rx_tail c + n) mod TCP6_RX_CAP = (tc_rx_head c + (tc_rx_count c + n)) mod TCP6_RX_CAP"
    by (simp add: mod_add_left_eq add.assoc)
  show ?thesis
    using tcp6_push_ring [of c "take n data"] assms conn_tail [OF assms] n t
    by (simp add: tcp6_take_def Let_def n_def [symmetric] conn_ok_def)
qed

lemma acked_ok: "conn_ok (tcp6_acked fl ak c) = conn_ok c"
  by (simp add: tcp6_acked_def conn_ok_def)

lemma react_ok:
  assumes ok: "conn_ok c" and r: "tcp6_react fl sq ak data c = (c', reply)"
  shows "conn_ok c'"
proof -
  have "conn_ok (tcp6_established sq ak c)" using ok by (simp add: conn_ok_def tcp6_established_def)
  moreover have a: "conn_ok (tcp6_acked fl ak c)" using ok by (simp add: acked_ok)
  moreover have "conn_ok (tcp6_fin sq (tcp6_acked fl ak c))" using a by (simp add: conn_ok_def tcp6_fin_def)
  moreover have "conn_ok (tcp6_take data (tcp6_acked fl ak c))" by (rule tcp6_take_ok [OF a])
  ultimately show ?thesis
    using r ok unfolding tcp6_react_def Let_def by (simp only: prod.inject split: if_split_asm)
qed

lemma stays_conn:
  assumes r: "ready i w" and ok: "conn_ok c"
  shows "stays w (upd_conn cid (\<lambda>_. c) w)"
proof -
  have "list_all conn_ok (tt_conns (tcp_of w))" using r by (simp add: ready_def net_ok_def)
  then have "list_all conn_ok (upd_at cid (\<lambda>_. c) (tt_conns (tcp_of w)))" by (rule list_all_upd_at) (simp add: ok)
  then show ?thesis using r
    by (simp add: stays_def ready_def net_ok_def upd_conn_def set_tcp_def tcp_of_def udp_of_def)
qed

lemma ready_conn: "ready i w \<Longrightarrow> cid < length (tt_conns (tcp_of w)) \<Longrightarrow> conn_ok (tt_conns (tcp_of w) ! cid)"
  by (simp add: ready_def net_ok_def list_all_length)

lemma stays_tcp_ack:
  assumes r: "ready i w" and cid: "cid < length (tt_conns (tcp_of w))"
  shows "stays w (tcp6_ack i cid w)"
proof -
  define c where "c = tt_conns (tcp_of w) ! cid"
  have d: "length (tc_remote_ip c) = 16" using ready_conn [OF r cid] by (simp add: conn_ok_def c_def)
  obtain res w1 where p: "tcp6_prepare_l2 i (tc_remote_ip c) w = (res, w1)" by fastforce
  have s1: "stays w w1" using stays_prepare_l2(1) [OF r, of "tc_remote_ip c"] p by simp
  have r1: "ready i w1" by (rule stays_ready [OF s1 r])
  show ?thesis
  proof (cases res)
    case (Inl e)
    then show ?thesis using p s1 by (simp add: tcp6_ack_def Let_def c_def [symmetric])
  next
    case (Inr mac)
    then have m: "length mac = 6" using stays_prepare_l2(2) [OF r, of "tc_remote_ip c" mac] p by simp
    have "stays w1 (snd (tcp6_send_segment i src (tc_remote_ip c) mac lp rp sq ak fl pl mss w1))"
      if "ipv6_select_src_ip (the_nif i w1) (tc_remote_ip c) = Some src" for src lp rp sq ak fl pl mss
      by (rule stays_tcp_segment [OF r1 select_src_length [OF r1 that] d m])
    then show ?thesis
      using p s1 Inr stays_trans [OF s1] by (simp add: tcp6_ack_def Let_def c_def [symmetric] split: option.split)
  qed
qed

lemma stays_tcp_input:
  assumes r: "ready i w" and len: "length s = 16" "length m = 6"
  shows "stays w (tcp6_input i m s d payload w)"
proof -
  have l: "stays w (learn s m w)" by (rule stays_learn [OF r len])
  have rl: "ready i (learn s m w)" by (rule stays_ready [OF l r])
  have step: "stays w (upd_conn cid (\<lambda>_. c) (learn s m w)) \<and> stays w (tcp6_ack i cid (upd_conn cid (\<lambda>_. c) (learn s m w)))"
    if f: "tcp6_find_incoming s sp dp (tcp_of w) = Some cid"
      and re: "tcp6_react fl sq ak data (tt_conns (tcp_of w) ! cid) = (c, reply)" for sp dp cid fl sq ak data c reply
  proof -
    have cid: "cid < length (tt_conns (tcp_of w))" using f by (auto simp: tcp6_find_incoming_def)
    then have "conn_ok c" using react_ok [OF ready_conn [OF r cid] re] by simp
    then have u: "stays (learn s m w) (upd_conn cid (\<lambda>_. c) (learn s m w))" by (rule stays_conn [OF rl])
    have "stays (upd_conn cid (\<lambda>_. c) (learn s m w)) (tcp6_ack i cid (upd_conn cid (\<lambda>_. c) (learn s m w)))"
      by (rule stays_tcp_ack [OF stays_ready [OF u rl]]) (use cid in \<open>simp add: upd_conn_def set_tcp_def tcp_of_def\<close>)
    then show ?thesis using stays_trans [OF l u] stays_trans by blast
  qed
  then show ?thesis
    using stays_refl [OF r] by (auto simp: tcp6_input_def Let_def split: option.split prod.split)
qed


text \<open>Pings.\<close>

lemma net_ok_ping: "net_ok w \<Longrightarrow> ping_ok (length (w_ifs w)) g \<Longrightarrow> net_ok (w\<lparr>w_ping := g\<rparr>)"
  by (simp add: net_ok_def tcp_of_def udp_of_def)

lemma ping_idle_ok: "ping_ok n g \<Longrightarrow> ping_ok n (ping_idle g)"
  by (simp add: ping_ok_def ping_idle_def)

lemma stays_phase: "ready i w \<Longrightarrow> stays w (set_phase n w)"
  by (simp add: stays_def ready_def set_phase_def net_ok_def ping_ok_def tcp_of_def udp_of_def)

lemma stays_ping_start: "ready i w \<Longrightarrow> stays w (set_ping_start idx t w)"
  unfolding set_ping_start_def by (rule stays_same_socks) (simp_all add: set_proc_def)

lemma stays_ping_complete:
  assumes r: "ready i w"
  shows "stays w (ping_complete ret rtt w)"
proof -
  have "stays w (w\<lparr>w_k := set_proc idx f (w_k w), w_ping := ping_idle (w_ping w)\<rparr>)" for idx f
    using r ping_idle_ok by (simp add: stays_def ready_def net_ok_def tcp_of_def udp_of_def set_proc_def)
  then show ?thesis using stays_refl [OF r] by (simp add: ping_complete_def split: option.split)
qed

lemma stays_kick:
  assumes r: "ready i w"
  shows "stays w (maybe_kick_ping_after_nd_update ip w)"
proof -
  have p: "ping_ok (length (w_ifs w)) (w_ping w)" using r by (simp add: ready_def net_ok_def)
  have "stays w w1 \<and> stays w (set_phase 2 (set_ping_start idx t w1))"
    if "send_echo_request j (pi_dst (w_ping w)) mac ident seq w = (res, w1)" and "pi_nif (w_ping w) = Some j"
      and "nd_lookup_mac nh (w_nd w) = Some mac" for j mac ident seq res w1 idx t nh
  proof -
    have j: "ready j w" using p that(2) r by (simp add: ping_ok_def ready_def)
    have "stays w (snd (send_echo_request j (pi_dst (w_ping w)) mac ident seq w))"
      by (rule stays_echo_request [OF j _ ready_lookup [OF r that(3)]]) (use p in \<open>simp add: ping_ok_def\<close>)
    then have s1: "stays w w1" by (simp add: that(1))
    have s2: "stays w1 (set_ping_start idx t w1)" by (rule stays_ping_start [OF stays_ready [OF s1 r]])
    have s3: "stays w (set_ping_start idx t w1)" by (rule stays_trans [OF s1 s2])
    show ?thesis using s1 stays_trans [OF s3 stays_phase [OF stays_ready [OF s3 r]]] by simp
  qed
  then show ?thesis
    using stays_refl [OF r]
    by (auto simp: maybe_kick_ping_after_nd_update_def Let_def split: option.split prod.split sum.split)
qed

text \<open>Router advertisements.\<close>

lemma stays_ra_prefix:
  assumes r: "ready i w" and len: "32 \<le> length op"
  shows "stays w (ra_prefix i op w)"
proof -
  let ?g = "ipv6_make_global_from_prefix64 (take 16 (drop 16 op)) (nf_ll (the_nif i w))"
  define w1 where "w1 pl = set_nif i (\<lambda>n. n\<lparr>nf_prefix := take 16 (drop 16 op), nf_prefix_len := pl, nf_global := ?g, nf_global_valid := True\<rparr>) w" for pl
  define w2 where "w2 pl = netif_ipv6_update_multicast_list i (w1 pl)" for pl
  have g: "length ?g = 16" using nif_lengths [OF r] len by (simp add: ipv6_make_global_from_prefix64_def)
  have s1: "stays w (w1 pl)" for pl unfolding w1_def by (rule stays_set_nif [OF r]) (use len g in \<open>simp add: nif_step_def nif_ok_def\<close>)
  have s2: "stays w (w2 pl)" for pl unfolding w2_def by (rule stays_trans [OF s1 stays_mcast [OF stays_ready [OF s1 r]]])
  have r2: "ready i (w2 pl)" for pl by (rule stays_ready [OF s2 r])
  have "stays w (send_unsolicited_neighbor_advertisement i (nf_global (the_nif i (w2 pl))) (w2 pl))" for pl
    by (rule stays_trans [OF s2 stays_una [OF r2 nif_lengths(3) [OF r2]]])
  then show ?thesis
    using s2 stays_refl [OF r] unfolding ra_prefix_def Let_def w1_def [symmetric] w2_def [symmetric] by simp
qed

lemma stays_ra_option:
  assumes r: "ready i w" and s: "length src = 16"
  shows "stays w (ra_option i src op w)"
proof -
  have "stays w (ra_rdnss i op w)" if "24 \<le> length op"
    using that stays_refl [OF r] stays_set_nif [OF r] by (simp add: ra_rdnss_def Let_def nif_step_def nif_ok_def)
  moreover have "stays w (learn src (take 6 (drop 2 op)) w)" if "8 \<le> length op"
    by (rule stays_learn [OF r s]) (use that in simp)
  ultimately show ?thesis
    using stays_ra_prefix [OF r] stays_refl [OF r] by (simp add: ra_option_def)
qed

lemma stays_ra_input:
  assumes r: "ready i w" and s: "length src = 16"
  shows "stays w (ra_input i src hl body w)"
proof -
  have f: "ready i w' \<Longrightarrow> stays w' (fold (ra_option i src) ops w')" for ops w'
  proof (induction ops arbitrary: w')
    case (Cons op ops)
    have o: "stays w' (ra_option i src op w')" by (rule stays_ra_option [OF Cons.prems s])
    show ?case using stays_trans [OF o Cons.IH [OF stays_ready [OF o Cons.prems]]] by simp
  qed (simp add: stays_refl)
  let ?w1 = "upd_dbg (\<lambda>d. d\<lparr>db_rx_ra := db_rx_ra d + 1\<rparr>) w"
  define w2 where "w2 = set_nif i (\<lambda>n. if be16_load body 2 \<noteq> 0 then n\<lparr>nf_router := src, nf_router_valid := True\<rparr>
      else n\<lparr>nf_router_valid := False\<rparr>) ?w1"
  have r1: "ready i ?w1" using r by simp
  have s2: "stays ?w1 w2" unfolding w2_def by (rule stays_set_nif [OF r1]) (use s in \<open>simp add: nif_step_def nif_ok_def\<close>)
  have "stays ?w1 (fold (ra_option i src) ops w2)" for ops
    by (rule stays_trans [OF s2 f [OF stays_ready [OF s2 r1]]])
  then show ?thesis
    using stays_refl [OF r] by (simp add: ra_input_def Let_def w2_def)
qed

lemma lladdr_length: "lladdr_option ty opts = Some mac \<Longrightarrow> length mac = 6"
  by (auto simp: lladdr_option_def find_Some_iff)

lemma stays_icmp_dispatch:
  assumes r: "ready i w" and len: "length s = 16" "length d = 16" "length m = 6"
  shows "stays w (icmpv6_dispatch i m s d hl ty body w)"
proof -
  have ns: "stays w (ns_input i m s body w)"
  proof -
    let ?w1 = "upd_dbg (\<lambda>d. d\<lparr>db_rx_ns := db_rx_ns d + 1\<rparr>) w"
    define w2 where "w2 = (case lladdr_option 1 (drop 20 body) of None \<Rightarrow> ?w1 | Some mac \<Rightarrow> learn s mac ?w1)"
    have s2: "stays w w2"
      using stays_refl [OF r] stays_learn [of i ?w1 s] r len(1) lladdr_length
      by (auto simp: w2_def split: option.split)
    have "stays w (snd (send_neighbor_advertisement i s m t w2))" for t
      by (rule stays_trans [OF s2 stays_advert [OF stays_ready [OF s2 r] len(1,3)]])
    then show ?thesis using s2 stays_refl [OF r] by (simp add: ns_input_def Let_def w2_def)
  qed
  have na: "stays w (na_input i body w)"
  proof -
    let ?w1 = "upd_dbg (\<lambda>d. d\<lparr>db_rx_na := db_rx_na d + 1\<rparr>) w" let ?t = "take 16 (drop 4 body)"
    have "stays w (maybe_kick_ping_after_nd_update ?t (learn ?t mac ?w1))"
      if "4 + 16 \<le> length body" and "lladdr_option 2 (drop 20 body) = Some mac" for mac
    proof -
      have l: "stays ?w1 (learn ?t mac ?w1)"
        by (rule stays_learn) (use r that(1) lladdr_length [OF that(2)] in simp_all)
      have "stays ?w1 (maybe_kick_ping_after_nd_update ?t (learn ?t mac ?w1))"
        by (rule stays_trans [OF l stays_kick [OF stays_ready [OF l]]]) (use r in simp)
      then show ?thesis by simp
    qed
    then show ?thesis using stays_refl [OF r] by (auto simp: na_input_def Let_def not_less split: option.split)
  qed
  have rq: "stays w (echo_request_input i m s d body w)"
    using stays_echo_reply [of i "upd_dbg f w" d s m body for f] r len stays_refl [OF r]
    by (simp add: echo_request_input_def Let_def)
  have rp: "stays w (echo_reply_input s body w)"
    using stays_ping_complete [of i "upd_dbg (\<lambda>d. d\<lparr>db_rx_echo_reply := db_rx_echo_reply d + 1\<rparr>) w"] r stays_refl [OF r]
    by (simp add: echo_reply_input_def Let_def split: option.split)
  show ?thesis using stays_ra_input [OF r len(1)] ns na rq rp stays_refl [OF r] by (simp add: icmpv6_dispatch_def)
qed

lemma stays_dispatch:
  assumes r: "ready i w" and len: "length s = 16" "length d = 16" "length m = 6"
  shows "stays w (ipv6_dispatch i m s d hl nh payload w)"
proof -
  have "stays w (icmpv6_input i m s d hl payload w)"
    unfolding icmpv6_input_def Let_def
    using stays_rx_drop [of i "upd_dbg (\<lambda>d. d\<lparr>db_rx_icmpv6 := db_rx_icmpv6 d + 1\<rparr>) w"] r
      stays_icmp_dispatch [of i "upd_dbg f (upd_dbg g w)" s d m for f g] len by simp
  then show ?thesis
    using stays_udp_input [OF r len(1,3)] stays_tcp_input [OF r len(1,3)] stays_refl [OF r]
    by (simp add: ipv6_dispatch_def)
qed

lemma stays_ipv6_input:
  assumes r: "ready i w" and m: "length m = 6"
  shows "stays w (net_ipv6_input i m pkt w)"
proof (cases "length pkt < 40")
  case True
  then show ?thesis by (simp add: net_ipv6_input_def stays_rx_drop [OF r])
next
  case False
  let ?w0 = "upd_dbg (\<lambda>d. d\<lparr>db_rx_ipv6_packets := db_rx_ipv6_packets d + 1\<rparr>) w"
  let ?s = "take 16 (drop 8 pkt)" let ?d = "take 16 (drop 24 pkt)"
  have len: "length ?s = 16" "length ?d = 16" using False by simp_all
  have r0: "ready i ?w0" using r by simp
  have s1: "stays ?w0 (need_ll i ?w0)" by (rule stays_configure(2) [OF r0])
  define w2 where "w2 = (if ?s \<noteq> replicate 16 0 \<and> \<not> ipv6_is_multicast ?s then learn ?s m (need_ll i ?w0) else need_ll i ?w0)"
  have s2: "stays ?w0 w2"
    unfolding w2_def using s1 stays_trans [OF s1 stays_learn [OF stays_ready [OF s1 r0] len(1) m]] by simp
  have r2: "ready i w2" by (rule stays_ready [OF s2 r0])
  have "stays ?w0 (ipv6_dispatch i m ?s ?d hl nh payload w2)" for hl nh payload
    by (rule stays_trans [OF s2 stays_dispatch [OF r2 len m]])
  moreover have "stays ?w0 (rx_drop i f w2)" for f by (rule stays_trans [OF s2 stays_rx_drop [OF r2]])
  moreover have "stays ?w0 (rx_drop i f ?w0)" for f by (rule stays_rx_drop [OF r0])
  ultimately show ?thesis
    using False stays_refl [OF r] unfolding net_ipv6_input_def Let_def w2_def [symmetric] by simp
qed

lemma stays_rx_frame:
  assumes r: "ready i w"
  shows "stays w (netif_rx_frame i frame w)"
proof -
  let ?w1 = "set_nif i (\<lambda>n. n\<lparr>nf_rx_frames := nf_rx_frames n + 1\<rparr>) w"
  have s1: "stays w ?w1" by (rule stays_set_nif [OF r]) (simp add: nif_step_def nif_ok_def)
  have r1: "ready i ?w1" by (rule stays_ready [OF s1 r])
  have "stays ?w1 (ether_input i frame ?w1)"
    using stays_set_nif [OF r1, of "\<lambda>n. n\<lparr>nf_rx_drops := nf_rx_drops n + 1\<rparr>"] stays_ipv6_input [OF r1] stays_refl [OF r1]
    by (simp add: ether_input_def nif_step_def nif_ok_def)
  then show ?thesis using stays_trans [OF s1] stays_refl [OF r] by (simp add: netif_rx_frame_def)
qed


subsection \<open>The calls that send\<close>

lemma stays_udp_raw:
  assumes r: "ready i w" and len: "length s = 16" "length d = 16" "length m = 6"
  shows "stays w (snd (udp6_send_raw i s d m sp dp payload w))"
proof -
  define s0 where "s0 = be16_store sp @ be16_store dp @ be16_store (word_of_nat (8 + length payload)) @ [0, 0] @ payload"
  have seg: "udp_segment s d sp dp payload = put_csum 6 (pseudo_checksum IPV6_NH_UDP s d s0) s0"
    by (simp add: udp_segment_def Let_def s0_def udp6_checksum_def IPV6_NH_UDP_def)
  have l0: "length s0 = 8 + length payload" by (simp add: s0_def)
  have z: "s0 ! 6 = 0" "s0 ! 7 = 0" by (simp_all add: s0_def be16_store_def nth_append)
  have "stays w (snd (eth_send_ipv6 i m (ip6_header (length s0) IPV6_NH_UDP 64 s d @ put_csum 6 (pseudo_checksum IPV6_NH_UDP s d s0) s0) w))"
  proof (rule stays_eth [OF r len(3)])
    assume "length (ip6_header (length s0) IPV6_NH_UDP 64 s d @ put_csum 6 (pseudo_checksum IPV6_NH_UDP s d s0) s0) \<le> 160"
    then have "length s0 \<le> 120" by (simp add: header_parts(1) [OF len(1,2)])
    then show "valid_packet (ip6_header (length s0) IPV6_NH_UDP 64 s d @ put_csum 6 (pseudo_checksum IPV6_NH_UDP s d s0) s0)"
      using len l0 z by (intro packet_valid) simp_all
  qed
  then show ?thesis using stays_refl [OF r] by (simp add: udp6_send_raw_def seg l0)
qed

lemma stays_send_from:
  assumes r: "ready i w" and len: "length d = 16" "length m = 6"
  shows "stays w (snd (udp6_send_from i sid d m dp e payload w))"
proof -
  have "stays w w'" if "ipv6_select_src_ip (the_nif i w) d = Some src" and "udp6_send_raw i src d m p dp payload w = (r', w')" for src p r' w'
    using stays_udp_raw [OF r select_src_length [OF r that(1)] len, of p dp payload] that(2) by simp
  then show ?thesis
    using stays_refl [OF r] by (auto simp: udp6_send_from_def split: option.split prod.split sum.split)
qed

lemma stays_send_bound:
  assumes r: "ready i w" and d: "length d = 16"
  shows "stays w (snd (udp6_send_bound i sid d dp payload w))"
proof -
  obtain res w1 where n: "next_hop_mac i d w = (res, w1)" by fastforce
  have s1: "stays w w1" using stays_next_hop(1) [OF r, of d] n by simp
  have "stays w (snd (udp6_send_from i sid d mac dp EAGAIN payload w1))" if "res = Inr mac" for mac
    using stays_trans [OF s1 stays_send_from [OF stays_ready [OF s1 r] d]] stays_next_hop(2) [OF r, of d mac] n that by simp
  then show ?thesis
    using s1 stays_send_from [OF r d] n by (simp add: udp6_send_bound_def split: sum.split)
qed

lemma bind_ephemeral_ok:
  assumes "udp6_ok u" and "udp6_bind_ephemeral sid u = (res, u')"
  shows "udp6_ok u'"
  using udp6_bind_ok [OF assms(1), of sid 0] assms(2)
  by (simp add: net_udp6_bind_def udp6_bind_ephemeral_def split: if_splits sum.splits)

lemma stays_sendto:
  assumes r: "net_ok w" and d: "length d = 16"
  shows "stays w (snd (net_udp6_sendto sid d dp payload w))"
proof (cases "w_ifs w = []")
  case True
  then show ?thesis using r by (simp add: net_udp6_sendto_def stays_def)
next
  case False
  then have r0: "ready 0 w" using r by (simp add: ready_def)
  have s1: "stays w (need_ll 0 w)" by (rule stays_configure(2) [OF r0])
  have r1: "ready 0 (need_ll 0 w)" by (rule stays_ready [OF s1 r0])
  have b: "stays w (set_udp u (need_ll 0 w)) \<and> stays w (snd (udp6_send_bound 0 sid d dp payload (set_udp u (need_ll 0 w))))"
    if "udp6_bind_ephemeral sid (udp_of (need_ll 0 w)) = (res, u)" for res u
  proof -
    have "udp6_ok u" using bind_ephemeral_ok [OF _ that] r1 by (simp add: ready_def net_ok_def)
    then have s2: "stays w (set_udp u (need_ll 0 w))" by (rule stays_trans [OF s1 stays_set_udp [OF r1]])
    show ?thesis using s2 stays_trans [OF s2 stays_send_bound [OF stays_ready [OF s2 r0] d]] by simp
  qed
  then show ?thesis
    using s1 stays_refl [OF r0] stays_trans [OF s1 stays_maybe_solicit [OF r1]] stays_trans [OF s1 stays_send_bound [OF r1 d]]
    by (auto simp: net_udp6_sendto_def Let_def split: prod.split sum.split)
qed

text \<open>TCP.\<close>

lemma stays_upd_conn:
  assumes r: "ready i w" and f: "\<And>c. conn_ok c \<Longrightarrow> conn_ok (f c)"
  shows "stays w (upd_conn cid f w)"
proof -
  have "list_all conn_ok (tt_conns (tcp_of w))" using r by (simp add: ready_def net_ok_def)
  then have "list_all conn_ok (upd_at cid f (tt_conns (tcp_of w)))" by (rule list_all_upd_at) (rule f)
  then show ?thesis using r
    by (simp add: stays_def ready_def net_ok_def upd_conn_def set_tcp_def tcp_of_def udp_of_def)
qed

lemma tcp_of_sends:
  "w_k w' = w_k w \<Longrightarrow> tcp_of w' = tcp_of w"
  by (simp add: tcp_of_def)

lemma stays_syn:
  assumes r: "ready 0 w" and cid: "cid < length (tt_conns (tcp_of w))"
  shows "stays w (snd (tcp6_syn cid w))"
proof -
  define c where "c = tt_conns (tcp_of w) ! cid"
  have d: "length (tc_remote_ip c) = 16" using ready_conn [OF r cid] by (simp add: conn_ok_def c_def)
  obtain res w1 where p: "tcp6_prepare_l2 0 (tc_remote_ip c) w = (res, w1)" by fastforce
  have s1: "stays w w1" using stays_prepare_l2(1) [OF r, of "tc_remote_ip c"] p by simp
  have r1: "ready 0 w1" by (rule stays_ready [OF s1 r])
  have "stays w w2 \<and> stays w (upd_conn cid (\<lambda>c. c\<lparr>tc_last_syn_tx_ns := w_now w\<rparr>) w2)"
    if mac: "res = Inr mac" and src: "ipv6_select_src_ip (the_nif 0 w1) (tc_remote_ip c) = Some src"
      and seg: "tcp6_send_segment 0 src (tc_remote_ip c) mac lp rp sq ak fl pl mss w1 = (res2, w2)"
    for mac src lp rp sq ak fl pl mss res2 w2
  proof -
    have m: "length mac = 6" using stays_prepare_l2(2) [OF r, of "tc_remote_ip c" mac] p mac by simp
    have s2: "stays w w2"
      using stays_trans [OF s1 stays_tcp_segment [OF r1 select_src_length [OF r1 src] d m]] seg by (metis snd_conv)
    show ?thesis
      using s2 stays_trans [OF s2 stays_upd_conn [OF stays_ready [OF s2 r]]] by (simp add: conn_ok_def)
  qed
  then show ?thesis
    using p s1 stays_refl [OF r]
    by (auto simp: tcp6_syn_def Let_def c_def [symmetric] split: prod.split sum.split option.split)
qed

lemma port_loop_conns: "tt_conns (snd (tcp6_port_loop n st)) = tt_conns st"
  by (induction n st rule: tcp6_port_loop.induct) (simp_all add: Let_def)

lemma stays_set_tcp: "ready i w \<Longrightarrow> tt_conns t = tt_conns (tcp_of w) \<Longrightarrow> stays w (set_tcp t w)"
  by (simp add: stays_def ready_def net_ok_def set_tcp_def tcp_of_def udp_of_def)

lemma stays_connect:
  assumes r: "net_ok w" and d: "length d = 16"
  shows "stays w (snd (net_tcp6_connect_start cid d dp w))"
proof (cases "w_ifs w = [] \<or> tcp6_get cid (tcp_of w) = None")
  case True
  then show ?thesis using r by (auto simp: net_tcp6_connect_start_def stays_def split: option.split)
next
  case False
  then have r0: "ready 0 w" and cid: "cid < length (tt_conns (tcp_of w))"
    using r by (auto simp: ready_def tcp6_get_def net_ok_def split: if_splits)
  obtain p st where ps: "tcp6_next_ephemeral_port (tcp_of w) = (p, st)" by fastforce
  have st: "tt_conns st = tt_conns (tcp_of w)"
    using port_loop_conns [of 2000 "tcp_of w"] ps by (simp add: tcp6_next_ephemeral_port_def)
  have s1: "stays w (set_tcp st w)" by (rule stays_set_tcp [OF r0 st])
  have r1: "ready 0 (set_tcp st w)" by (rule stays_ready [OF s1 r0])
  have s2: "stays w (upd_conn cid f (set_tcp st w))" if "\<And>c. conn_ok c \<Longrightarrow> conn_ok (f c)" for f
    by (rule stays_trans [OF s1 stays_upd_conn [OF r1 that]])
  have open_ok: "conn_ok (tcp6_open cid p d dp t c)" if "conn_ok c" for t c
    using that d by (simp add: conn_ok_def tcp6_open_def Let_def TCP6_RX_CAP_def)
  have "stays w (snd (tcp6_syn cid (upd_conn cid (tcp6_open cid p d dp t) (set_tcp st w))))" for t
    by (rule stays_trans [OF s2 [OF open_ok] stays_syn [OF stays_ready [OF s2 [OF open_ok] r0]]])
       (use cid st in \<open>simp_all add: upd_conn_def set_tcp_def tcp_of_def\<close>)
  moreover have "stays w (upd_conn cid (\<lambda>c. c\<lparr>tc_local_port := 0\<rparr>) (set_tcp st w))"
    by (rule s2) (simp add: conn_ok_def)
  ultimately show ?thesis
    using False stays_syn [OF r0 cid] stays_refl [OF r0] ps
    by (auto simp: net_tcp6_connect_start_def split: option.split)
qed

lemma stays_tcp_send_loop:
  assumes "ready 0 w" and "cid < length (tt_conns (tcp_of w))" and "length src = 16" and "length mac = 6"
  shows "stays w (snd (tcp6_send_loop cid src mac buf sent w))"
  using assms
proof (induction cid src mac buf sent w rule: tcp6_send_loop.induct)
  case (1 cid src mac buf sent w)
  define c where "c = tt_conns (tcp_of w) ! cid"
  define chunk where "chunk = min (length buf - sent) TCP6_MSS"
  have d: "length (tc_remote_ip c) = 16" using ready_conn [OF 1(2,3)] by (simp add: conn_ok_def c_def)
  obtain res w1 where seg: "tcp6_send_segment 0 src (tc_remote_ip c) mac (tc_local_port c) (tc_remote_port c) (tc_snd_nxt c)
      (tc_rcv_nxt c) (TCP_FLG_ACK OR TCP_FLG_PSH) (take chunk (drop sent buf)) False w = (res, w1)" by fastforce
  have s1: "stays w w1" using stays_tcp_segment [OF 1(2,4) d 1(5)] seg by (metis snd_conv)
  show ?case
  proof (cases "length buf \<le> sent")
    case True
    then show ?thesis using stays_refl [OF 1(2)] by (subst tcp6_send_loop.simps) simp
  next
    case False
    show ?thesis
    proof (cases res)
      case (Inl e)
      then show ?thesis using False seg s1
        by (subst tcp6_send_loop.simps) (simp add: Let_def c_def [symmetric] chunk_def [symmetric])
    next
      case (Inr u)
      let ?w2 = "upd_conn cid (\<lambda>c. c\<lparr>tc_snd_nxt := tc_snd_nxt c + word_of_nat chunk\<rparr>) w1"
      have s2: "stays w1 ?w2" by (rule stays_upd_conn [OF stays_ready [OF s1 1(2)]]) (simp add: conn_ok_def)
      have s12: "stays w ?w2" by (rule stays_trans [OF s1 s2])
      have k: "w_k w1 = w_k w" using hop_k(4) seg by (metis snd_conv)
      have "stays ?w2 (snd (tcp6_send_loop cid src mac buf (sent + chunk) ?w2))"
        by (rule 1(1) [OF False c_def chunk_def seg [symmetric] Inr stays_ready [OF s12 1(2)]])
           (use 1(3-5) k in \<open>simp_all add: upd_conn_def set_tcp_def tcp_of_def\<close>)
      then show ?thesis using False seg Inr stays_trans [OF s12]
        by (subst tcp6_send_loop.simps) (simp add: Let_def c_def [symmetric] chunk_def [symmetric])
    qed
  qed
qed


lemma stays_tcp_send:
  assumes ok: "net_ok w"
  shows "stays w (snd (net_tcp6_send cid buf w))"
proof (cases "w_ifs w = [] \<or> tcp6_get cid (tcp_of w) = None")
  case True
  then show ?thesis using ok by (auto simp: net_tcp6_send_def stays_def split: option.split)
next
  case False
  then obtain c where c: "tcp6_get cid (tcp_of w) = Some c" by auto
  have r: "ready 0 w" and cid: "cid < length (tt_conns (tcp_of w))" and cc: "c = tt_conns (tcp_of w) ! cid"
    using ok False c by (auto simp: ready_def tcp6_get_def net_ok_def split: if_splits)
  obtain res w1 where p: "tcp6_prepare_l2 0 (tc_remote_ip c) w = (res, w1)" by fastforce
  have s1: "stays w w1" using stays_prepare_l2(1) [OF r, of "tc_remote_ip c"] p by simp
  have r1: "ready 0 w1" by (rule stays_ready [OF s1 r])
  have k: "w_k w1 = w_k w" using hop_k(3) p by (metis snd_conv)
  have "stays w (snd (tcp6_send_loop cid src mac buf 0 w1))"
    if "res = Inr mac" and src: "ipv6_select_src_ip (the_nif 0 w1) (tc_remote_ip c) = Some src" for mac src
  proof -
    have m: "length mac = 6" using stays_prepare_l2(2) [OF r, of "tc_remote_ip c" mac] p that(1) by simp
    have "cid < length (tt_conns (tcp_of w1))" using cid tcp_of_sends [OF k] by simp
    then show ?thesis using stays_trans [OF s1 stays_tcp_send_loop [OF r1 _ select_src_length [OF r1 src] m]] by simp
  qed
  then show ?thesis
    using c p s1 stays_refl [OF r] by (auto simp: net_tcp6_send_def split: sum.split option.split)
qed

text \<open>Ping.\<close>

lemma stays_ping_echo:
  assumes r: "ready i w" and len: "length d = 16" "length m = 6"
  shows "stays w (snd (ping_echo idx i d m ident seq w))"
proof -
  have s1: "stays w (set_ping_start idx (w_now w) w)" by (rule stays_ping_start [OF r])
  have s2: "stays w (set_phase 2 (set_ping_start idx (w_now w) w))"
    by (rule stays_trans [OF s1 stays_phase [OF stays_ready [OF s1 r]]])
  have "ready i (upd_dbg f (set_phase 2 (set_ping_start idx (w_now w) w)))" for f
    using stays_ready [OF s2 r] by simp
  then have "stays (upd_dbg f (set_phase 2 (set_ping_start idx (w_now w) w))) (snd (ping_echo idx i d m ident seq w))"
    if "f = (\<lambda>d. d\<lparr>db_ping6_sent_echo := db_ping6_sent_echo d + 1\<rparr>)" for f
    unfolding ping_echo_def that by (rule stays_echo_request [OF _ len])
  then show ?thesis using stays_trans [OF s2] by simp
qed

lemma stays_ping_solicit:
  assumes r: "ready i w"
  shows "stays w (snd (ping_solicit i nh w))"
proof -
  have s: "stays w (set_phase 1 w)" by (rule stays_phase [OF r])
  have "stays (set_phase 1 w) (snd (ping_solicit i nh w))"
    unfolding ping_solicit_def
    using stays_solicit(1) [of i "upd_dbg f (set_phase 1 w)" nh for f] stays_ready [OF s r] by simp
  then show ?thesis by (rule stays_trans [OF s])
qed

lemma stays_set_ping: "ready i w \<Longrightarrow> ping_ok (length (w_ifs w)) g \<Longrightarrow> stays w (w\<lparr>w_ping := g\<rparr>)"
  by (simp add: stays_def ready_def net_ok_ping)

lemma stays_ping_launch:
  assumes r: "ready i w" and d: "length d = 16"
  shows "stays w (snd (ping_launch idx i d ident seq w))"
proof -
  have p: "ping_ok (length (w_ifs w)) (w_ping w)" and i: "i < length (w_ifs w)" using r by (simp_all add: ready_def net_ok_def)
  define g where "g = (w_ping w)\<lparr>pi_inflight := True, pi_proc := Some idx, pi_nif := Some i, pi_dst := d, pi_ident := ident, pi_seq := seq\<rparr>"
  define w1 where "w1 = w\<lparr>w_ping := g\<rparr>"
  have g: "ping_ok (length (w_ifs w)) g" using p i d by (simp add: g_def ping_ok_def)
  have s1: "stays w w1" unfolding w1_def by (rule stays_set_ping [OF r g])
  have r1: "ready i w1" by (rule stays_ready [OF s1 r])
  have idle: "stays w (w1\<lparr>w_ping := ping_idle (w_ping w1)\<rparr>)"
    by (rule stays_trans [OF s1 stays_set_ping [OF r1]]) (use g in \<open>simp add: w1_def ping_idle_ok\<close>)
  have go: "stays w (snd (ping_echo idx i d m ident seq (w1\<lparr>w_ping := (w_ping w1)\<lparr>pi_nh := nh\<rparr>\<rparr>)))"
      if "length nh = 16" and "length m = 6" for m nh
  proof -
    have s2: "stays w (w1\<lparr>w_ping := (w_ping w1)\<lparr>pi_nh := nh\<rparr>\<rparr>)"
      by (rule stays_trans [OF s1 stays_set_ping [OF r1]]) (use g that in \<open>simp add: w1_def ping_ok_def\<close>)
    show ?thesis by (rule stays_trans [OF s2 stays_ping_echo [OF stays_ready [OF s2 r] d that(2)]])
  qed
  have ask: "stays w (snd (ping_solicit i nh (w1\<lparr>w_ping := (w_ping w1)\<lparr>pi_nh := nh\<rparr>\<rparr>)))" if "length nh = 16" for nh
  proof -
    have s2: "stays w (w1\<lparr>w_ping := (w_ping w1)\<lparr>pi_nh := nh\<rparr>\<rparr>)"
      by (rule stays_trans [OF s1 stays_set_ping [OF r1]]) (use g that in \<open>simp add: w1_def ping_ok_def\<close>)
    show ?thesis by (rule stays_trans [OF s2 stays_ping_solicit [OF stays_ready [OF s2 r]]])
  qed
  have nh: "length nh = 16" if "ipv6_select_next_hop (the_nif i w1) d = Inr nh" for nh
    by (rule next_hop_length [OF r1 d that])
  have mac: "length m = 6" if "nd_lookup_mac nh (w_nd w1) = Some m" for m nh
    by (rule ready_lookup [OF r1 that])
  show ?thesis
    unfolding ping_launch_def Let_def g_def [symmetric] w1_def [symmetric]
    using idle go [OF d address_lengths(2)] ask [OF d] go [OF nh mac] ask [OF nh]
    by (auto split: sum.split option.split)
qed

lemma stays_ping6_start:
  assumes r: "ready i w" and d: "length d = 16"
  shows "stays w (snd (net_ipv6_ping6_start idx i d ident seq w))"
proof -
  let ?w0 = "upd_dbg (\<lambda>d. d\<lparr>db_ping6_calls := db_ping6_calls d + 1\<rparr>) w"
  have r0: "ready i ?w0" using r by simp
  have s1: "stays w (need_ll i ?w0)" using stays_configure(2) [OF r0] by simp
  have r1: "ready i (need_ll i ?w0)" by (rule stays_ready [OF s1 r])
  show ?thesis
    using stays_refl [OF r] s1 stays_trans [OF s1 stays_maybe_solicit [OF r1]] stays_trans [OF s1 stays_ping_launch [OF r1 d]]
    by (simp add: net_ipv6_ping6_start_def Let_def)
qed

lemma stays_cancel: "net_ok w \<Longrightarrow> stays w (net_ipv6_ping6_cancel idx w)"
  by (simp add: net_ipv6_ping6_cancel_def stays_def net_ok_ping ping_idle_ok) (simp add: net_ok_def ping_idle_ok tcp_of_def udp_of_def)

end
