(* ===== verification/NetProps.thy ===== *)
theory NetProps
  imports NetOk FsProps
begin

text \<open>
  Properties of the network: what any traffic leaves intact, datagrams that arrive, the byte stream
  of a connection, and the sizes that can be sent.
\<close>

subsection \<open>Any traffic\<close>

text \<open>What happens to the packet layer: received frames, the passing of time, and the calls of processes.\<close>

datatype net_op =
    Receive nat "u8 list" | Clock u64 | Sendto nat "u8 list" u16 "u8 list" | Connect nat "u8 list" u16
  | Send nat "u8 list" | Ping nat nat "u8 list" u16 u16 | Cancel nat

fun net_op_step :: "net_op \<Rightarrow> world \<Rightarrow> world" where
  "net_op_step (Receive i f) w = netif_rx_frame i f w"
| "net_op_step (Clock t) w = w\<lparr>w_now := t\<rparr>"
| "net_op_step (Sendto sid d dp payload) w = snd (net_udp6_sendto sid d dp payload w)"
| "net_op_step (Connect cid d dp) w = snd (net_tcp6_connect_start cid d dp w)"
| "net_op_step (Send cid buf) w = snd (net_tcp6_send cid buf w)"
| "net_op_step (Ping idx i d ident seq) w = snd (net_ipv6_ping6_start idx i d ident seq w)"
| "net_op_step (Cancel idx) w = net_ipv6_ping6_cancel idx w"

text \<open>Interfaces that exist, addresses of 16 bytes; the bytes of frames and payloads are arbitrary.\<close>

fun net_op_ok :: "nat \<Rightarrow> net_op \<Rightarrow> bool" where
  "net_op_ok n (Receive i f) \<longleftrightarrow> i < n"
| "net_op_ok n (Clock t) \<longleftrightarrow> True"
| "net_op_ok n (Sendto sid d dp payload) \<longleftrightarrow> length d = 16"
| "net_op_ok n (Connect cid d dp) \<longleftrightarrow> length d = 16"
| "net_op_ok n (Send cid buf) \<longleftrightarrow> True"
| "net_op_ok n (Ping idx i d ident seq) \<longleftrightarrow> i < n \<and> length d = 16"
| "net_op_ok n (Cancel idx) \<longleftrightarrow> True"

lemma stays_clock: "net_ok w \<Longrightarrow> stays w (w\<lparr>w_now := t\<rparr>)"
  by (simp add: stays_def net_ok_def tcp_of_def udp_of_def)

lemma net_op_stays: "net_ok w \<Longrightarrow> net_op_ok (length (w_ifs w)) op \<Longrightarrow> stays w (net_op_step op w)"
  by (cases op) (simp_all add: stays_rx_frame stays_clock stays_sendto stays_connect stays_tcp_send stays_ping6_start
    stays_cancel ready_def)

lemma net_ops_stay:
  "net_ok w \<Longrightarrow> \<forall>op \<in> set ops. net_op_ok (length (w_ifs w)) op \<Longrightarrow> stays w (fold net_op_step ops w)"
proof (induction ops arbitrary: w)
  case Nil
  then show ?case by (simp add: stays_def)
next
  case (Cons op ops)
  have s: "stays w (net_op_step op w)" using net_op_stays Cons.prems by simp
  have "stays (net_op_step op w) (fold net_op_step ops (net_op_step op w))"
    by (rule Cons.IH) (use s Cons.prems in \<open>simp_all add: stays_def\<close>)
  then show ?case using stays_trans [OF s] by simp
qed

text \<open>
  C35: The packet layer sends only valid frames and keeps its tables well formed, whatever it is sent
  and in whatever order processes send, connect and ping: after any sequence of received frames (of
  arbitrary bytes), calls and clock readings, every frame handed to a driver carries the interface's
  own hardware address and an IPv6 packet of at most 160 bytes whose length field, next header and
  checksum are right.
\<close>

theorem only_valid_frames_sent:
  assumes "net_ok w" and "\<forall>op \<in> set ops. net_op_ok (length (w_ifs w)) op"
  defines "w' \<equiv> fold net_op_step ops w"
  shows "net_ok w' \<and> (\<forall>(i, f) \<in> set (w_out w'). i < length (w_ifs w) \<and> valid_frame (nf_mac (w_ifs w' ! i)) f)"
proof -
  have s: "stays w w'" unfolding w'_def by (rule net_ops_stay [OF assms(1,2)])
  then have "out_ok (w_ifs w') (w_out w')" by (simp add: stays_def net_ok_def)
  then show ?thesis using s by (auto simp: stays_def out_ok_def list_all_iff)
qed

text \<open>A kernel with one interface and nothing received yet.\<close>

definition lone_netif :: netif where
  "lone_netif = \<lparr>nf_name = ''usb0'', nf_mac = [2, 0, 0, 0, 0, 1], nf_mtu = 1500, nf_ll = replicate 16 0, nf_ll_valid = False,
     nf_global = replicate 16 0, nf_global_valid = False, nf_prefix = replicate 16 0, nf_prefix_len = 0,
     nf_router = replicate 16 0, nf_router_valid = False, nf_last_rs_ns = 0, nf_dns = replicate 16 0,
     nf_dns_valid = False, nf_dns_lifetime = 0, nf_has_tx = True, nf_has_mcast = True, nf_rx_frames = 0,
     nf_tx_frames = 0, nf_rx_drops = 0, nf_tx_drops = 0\<rparr>"

definition net_kernel :: kernel where
  "net_kernel = kernel_bss\<lparr>k_procs := replicate MAX_PROCS proc_clear, k_fd := (k_fd kernel_bss)\<lparr>
     fs_udp := \<lparr>ud_socks = replicate UDP6_SOCKS
       \<lparr>us_used = False, us_refs = 0, us_bound = False, us_bound_port = 0, us_q_head = 0, us_q_tail = 0, us_q_count = 0,
        us_q = replicate UDP6_QLEN \<lparr>dg_src_ip = [], dg_src_port = 0, dg_dst_port = 0, dg_data = []\<rparr>\<rparr>, ud_next = 49152\<rparr>,
     fs_tcp := \<lparr>tt_conns = replicate TCP6_MAX_CONNS (tcp6_conn_reset False 0
       ((tt_conns (fs_tcp (k_fd kernel_bss)) ! 0)\<lparr>tc_rx := replicate TCP6_RX_CAP 0\<rparr>)), tt_ephemeral = 40000\<rparr>\<rparr>\<rparr>"

definition lone_world :: world where
  "lone_world = \<lparr>w_k = net_kernel, w_ifs = [lone_netif],
     w_nd = replicate ND_CACHE_SIZE \<lparr>nd_used = False, nd_ip = replicate 16 0, nd_mac = replicate 6 0\<rparr>,
     w_dbg = ipv6_debug_zero,
     w_ping = \<lparr>pi_inflight = False, pi_proc = None, pi_nif = None, pi_dst = replicate 16 0, pi_nh = replicate 16 0,
       pi_ident = 0, pi_seq = 0, pi_phase = 0\<rparr>,
     w_now = 1, w_out = [], w_filters = [], w_drv = (\<lambda>_ _. True)\<rparr>"

lemma lone_world_ok: "net_ok lone_world"
proof -
  have "conn_ok (tcp6_conn_reset False 0 (c\<lparr>tc_rx := replicate TCP6_RX_CAP 0\<rparr>))" for c
    by (simp add: conn_ok_def tcp6_conn_reset_def TCP6_RX_CAP_def)
  moreover have "udp6_ok (fs_udp (k_fd net_kernel))"
    by (auto simp: net_kernel_def udp6_ok_def udp6_sock_ok_def udp6_ports_distinct_def list_all_iff)
  ultimately show ?thesis
    by (simp add: net_ok_def lone_world_def lone_netif_def nif_ok_def nd_ok_def ping_ok_def out_ok_def tcp_of_def udp_of_def
      net_kernel_def list_all_iff)
qed

lemma only_valid_frames_sent_witness:
  "net_ok (fold net_op_step [Receive 0 (replicate 60 0xff), Ping 3 0 all_nodes 7 1] lone_world) \<and>
   list_all (\<lambda>(i, f). i < length (w_ifs lone_world) \<and>
      valid_frame (nf_mac (w_ifs (fold net_op_step [Receive 0 (replicate 60 0xff), Ping 3 0 all_nodes 7 1] lone_world) ! i)) f)
     (w_out (fold net_op_step [Receive 0 (replicate 60 0xff), Ping 3 0 all_nodes 7 1] lone_world))"
  unfolding list_all_iff
  by (rule only_valid_frames_sent [OF lone_world_ok]) (simp add: lone_world_def all_nodes_def)


subsection \<open>Datagrams\<close>

lemma udp_segment_parts:
  assumes "8 + length payload < 65536"
  shows "length (udp_segment s d sp dp payload) = 8 + length payload"
    and "be16_load (udp_segment s d sp dp payload) 0 = sp" and "be16_load (udp_segment s d sp dp payload) 2 = dp"
    and "unat (be16_load (udp_segment s d sp dp payload) 4) = 8 + length payload"
    and "drop 8 (udp_segment s d sp dp payload) = payload"
    and "udp6_checksum s d (put_csum 6 0 (udp_segment s d sp dp payload)) = be16_load (udp_segment s d sp dp payload) 6"
proof -
  define s0 where "s0 = be16_store sp @ be16_store dp @ be16_store (word_of_nat (8 + length payload)) @ [0, 0] @ payload"
  define c where "c = udp6_checksum s d s0"
  have seg: "udp_segment s d sp dp payload = put_csum 6 c s0" by (simp add: udp_segment_def Let_def s0_def c_def)
  have keep: "be16_load (put_csum 6 c s0) n = be16_load s0 n" if "n < 5" for n
    using that by (simp add: be16_load_def put_csum_def nth_list_update)
  show "length (udp_segment s d sp dp payload) = 8 + length payload" by (simp add: seg) (simp add: s0_def)
  show "be16_load (udp_segment s d sp dp payload) 0 = sp"
    unfolding seg using keep [of 0] be16_load_store_at [of "[]" 0 sp] by (simp add: s0_def)
  show "be16_load (udp_segment s d sp dp payload) 2 = dp"
    unfolding seg using keep [of 2] be16_load_store_at [of "be16_store sp" 2 dp] by (simp add: s0_def)
  have "be16_load s0 4 = word_of_nat (8 + length payload)"
    using be16_load_store_at [of "be16_store sp @ be16_store dp" 4] by (simp add: s0_def)
  then show "unat (be16_load (udp_segment s d sp dp payload) 4) = 8 + length payload"
    unfolding seg using keep [of 4] assms by (simp add: unsigned_of_nat take_bit_nat_eq_self del: of_nat_add)
  show "drop 8 (udp_segment s d sp dp payload) = payload"
    by (simp add: seg put_csum_def drop_update_cancel) (simp add: s0_def be16_store_def)
  have z: "s0 ! 6 = 0" "s0 ! 7 = 0" "7 < length s0" by (simp_all add: s0_def be16_store_def nth_append)
  have "put_csum 6 0 (put_csum 6 c s0) = s0" by (rule checksum_field_zeroed) (use z in simp_all)
  then show "udp6_checksum s d (put_csum 6 0 (udp_segment s d sp dp payload)) = be16_load (udp_segment s d sp dp payload) 6"
    unfolding seg using be16_load_put_csum [of 6 s0 c] z by (simp add: c_def)
qed

text \<open>A frame with a UDP packet for us, from the driver to the datagram queues.\<close>

lemma udp_of_deliver: "udp_of (udp6_deliver_wake s sp dp payload w) = snd (udp6_deliver s sp dp payload (udp_of w))"
  by (simp add: udp6_deliver_wake_def udp_of_def set_udp_def wake_waiters_fd split: prod.split)

lemma udp_input_delivers:
  assumes ours: "is_ours (the_nif i w) d" and len: "length payload \<le> UDP6_MAX_PAYLOAD"
  shows "udp_of (udp6_input i m s d (udp_segment s d sp dp payload) w) =
     (if be16_load (udp_segment s d sp dp payload) 6 = 0 then udp_of w
      else snd (udp6_deliver s sp dp payload (udp_of w)))"
proof -
  have l: "8 + length payload < 65536" using len by (simp add: UDP6_MAX_PAYLOAD_def)
  note p = udp_segment_parts [OF l, of s d sp dp]
  have "take (8 + length payload) (udp_segment s d sp dp payload) = udp_segment s d sp dp payload" using p(1) by simp
  then show ?thesis using ours p by (simp add: udp6_input_def Let_def udp_of_deliver)
qed

lemma frame_input:
  assumes "length m = 6" and "length mac = 6" and "pkt \<noteq> []"
  shows "netif_rx_frame j (m @ mac @ be16_store ETH_TYPE_IPV6 @ pkt) v =
    net_ipv6_input j mac pkt (set_nif j (\<lambda>n. n\<lparr>nf_rx_frames := nf_rx_frames n + 1\<rparr>) v)"
proof -
  have "be16_load ((m @ mac) @ be16_store ETH_TYPE_IPV6 @ pkt) 12 = ETH_TYPE_IPV6"
    by (rule be16_load_store_at) (simp add: assms)
  then show ?thesis using assms by (simp add: netif_rx_frame_def ether_input_def)
qed

lemma packet_input:
  assumes len: "length s = 16" "length d = 16" "length seg < 65536" and nh: "nh \<noteq> 0"
    and ll: "nf_ll_valid (the_nif j v)"
  shows "\<exists>v'. w_k v' = w_k v \<and> w_ifs v' = w_ifs v \<and>
    net_ipv6_input j mac (ip6_header (length seg) nh hl s d @ seg) v = ipv6_dispatch j mac s d hl nh seg v'"
proof -
  define pkt where "pkt = ip6_header (length seg) nh hl s d @ seg"
  have n: "unat (word_of_nat (length seg) :: u16) = length seg" using len(3) by (simp add: unsigned_of_nat take_bit_nat_eq_self)
  note h = header_parts [OF len(1,2), of "length seg" nh hl]
  have p: "length pkt = 40 + length seg" "unat (be16_load pkt 4) = length seg" "pkt ! 6 = nh" "pkt ! 7 = hl"
    "take 16 (drop 8 pkt) = s" "take 16 (drop 24 pkt) = d" "drop_bit 28 (be32_load pkt 0) AND 0x0f = 6"
    "take (length seg) (drop 40 pkt) = seg"
    unfolding pkt_def using h(1) n by (simp_all only: h(2-7)) simp_all
  let ?v1 = "upd_dbg (\<lambda>d. d\<lparr>db_rx_ipv6_packets := db_rx_ipv6_packets d + 1\<rparr>) v"
  let ?v2 = "if s \<noteq> replicate 16 0 \<and> \<not> ipv6_is_multicast s then learn s mac ?v1 else ?v1"
  have "need_ll j ?v1 = ?v1" using ll by (simp add: need_ll_def)
  then have "net_ipv6_input j mac pkt v = ipv6_dispatch j mac s d hl nh seg ?v2"
    unfolding net_ipv6_input_def Let_def p using nh by simp
  moreover have "w_k ?v2 = w_k v" "w_ifs ?v2 = w_ifs v" by simp_all
  ultimately show ?thesis unfolding pkt_def by blast
qed

lemma udp_arrival:
  assumes sent: "udp6_send_raw i s d m sp dp payload w = (Inr (), w')" and i: "ready i w"
    and len: "length s = 16" "length d = 16" "length m = 6"
    and j: "ready j v" "nf_ll_valid (the_nif j v)" "is_ours (the_nif j v) d"
  shows "\<exists>f. w_out w' = w_out w @ [(i, f)] \<and>
    udp_of (netif_rx_frame j f v) =
      (if be16_load (udp_segment s d sp dp payload) 6 = 0 then udp_of v else snd (udp6_deliver s sp dp payload (udp_of v)))"
proof -
  let ?seg = "udp_segment s d sp dp payload"
  let ?pkt = "ip6_header (8 + length payload) IPV6_NH_UDP 64 s d @ ?seg"
  let ?f = "m @ nf_mac (the_nif i w) @ be16_store ETH_TYPE_IPV6 @ ?pkt"
  have pl: "length payload \<le> UDP6_MAX_PAYLOAD" using sent by (simp add: udp6_send_raw_def split: if_splits)
  then have l: "8 + length payload < 65536" by (simp add: UDP6_MAX_PAYLOAD_def)
  have seg: "length ?seg = 8 + length payload" by (rule udp_segment_parts(1) [OF l])
  have mac: "length (nf_mac (the_nif i w)) = 6" by (rule nif_lengths(1) [OF i])
  have out: "w_out w' = w_out w @ [(i, ?f)]"
    using sent by (auto simp: udp6_send_raw_def eth_send_ipv6_def netif_tx_frame_def split: if_splits)
  let ?v0 = "set_nif j (\<lambda>n. n\<lparr>nf_rx_frames := nf_rx_frames n + 1\<rparr>) v"
  have v0: "nf_ll_valid (the_nif j ?v0)" "is_ours (the_nif j ?v0) d"
    using j by (simp_all add: the_nif_def set_nif_def ready_def is_ours_def)
  have "netif_rx_frame j ?f v = net_ipv6_input j (nf_mac (the_nif i w)) ?pkt ?v0"
    by (rule frame_input [OF len(3) mac]) (use seg in auto)
  moreover have "\<exists>v'. w_k v' = w_k ?v0 \<and> w_ifs v' = w_ifs ?v0 \<and>
      net_ipv6_input j (nf_mac (the_nif i w)) ?pkt ?v0 = ipv6_dispatch j (nf_mac (the_nif i w)) s d 64 IPV6_NH_UDP ?seg v'"
    using packet_input [OF len(1,2) _ _ v0(1), of ?seg IPV6_NH_UDP] seg l by (simp add: IPV6_NH_UDP_def)
  ultimately obtain v' where v': "w_k v' = w_k ?v0" "w_ifs v' = w_ifs ?v0"
      "netif_rx_frame j ?f v = ipv6_dispatch j (nf_mac (the_nif i w)) s d 64 IPV6_NH_UDP ?seg v'" by auto
  have "udp_of v' = udp_of v" "is_ours (the_nif j v') d" using v'(1,2) v0 by (simp_all add: udp_of_def the_nif_def)
  then have "udp_of (netif_rx_frame j ?f v) =
      (if be16_load ?seg 6 = 0 then udp_of v else snd (udp6_deliver s sp dp payload (udp_of v)))"
    using v'(3) udp_input_delivers [of j v' d payload "nf_mac (the_nif i w)" s sp dp] pl by (simp add: ipv6_dispatch_def)
  then show ?thesis using out by blast
qed

text \<open>What delivery does to each socket.\<close>

lemma deliver_sockets:
  assumes ok: "udp6_ok st" and pl: "length payload \<le> UDP6_MAX_PAYLOAD" and q: "q < UDP6_SOCKS"
  shows "ud_socks (snd (udp6_deliver s sp dp payload st)) ! q =
    (if udp6_accepts dp (ud_socks st ! q)
     then udp6_enqueue \<lparr>dg_src_ip = s, dg_src_port = sp, dg_dst_port = dp, dg_data = payload\<rparr> (ud_socks st ! q)
     else ud_socks st ! q)"
    and "udp6_accepts dp (ud_socks st ! q) \<Longrightarrow>
      udp6_queue (udp6_enqueue dg (ud_socks st ! q)) = udp6_queue (ud_socks st ! q) @ [dg]"
proof -
  have l: "q < length (ud_socks st)" using ok q by (simp add: udp6_ok_def)
  then show "ud_socks (snd (udp6_deliver s sp dp payload st)) ! q =
    (if udp6_accepts dp (ud_socks st ! q)
     then udp6_enqueue \<lparr>dg_src_ip = s, dg_src_port = sp, dg_dst_port = dp, dg_data = payload\<rparr> (ud_socks st ! q)
     else ud_socks st ! q)"
    using pl by (simp add: udp6_deliver_def Let_def)
  have "udp6_sock_ok (ud_socks st ! q)" using ok l by (simp add: udp6_ok_def list_all_length)
  then show "udp6_queue (udp6_enqueue dg (ud_socks st ! q)) = udp6_queue (ud_socks st ! q) @ [dg]"
    if "udp6_accepts dp (ud_socks st ! q)"
    using that by (intro udp6_enqueue_room) (simp_all add: udp6_accepts_def)
qed

text \<open>
  C37: A datagram arrives as it was sent. The one frame that a successful send hands to the driver,
  received by a host the destination address belongs to, appends to the queue of every open socket that
  is bound to the destination port and has fewer than eight datagrams waiting exactly one datagram, with
  the sender's address and port, the destination port and the payload, and leaves every other socket as
  it is. The exception is a segment whose checksum comes out as zero, which the sender does not
  replace by 0xffff: the receiver drops it, and no socket changes.
\<close>

theorem udp_datagram_arrives:
  assumes sent: "udp6_send_raw i s d m sp dp payload w = (Inr (), w')" and i: "ready i w"
    and len: "length s = 16" "length d = 16" "length m = 6"
    and j: "ready j v" "nf_ll_valid (the_nif j v)" "is_ours (the_nif j v) d"
  shows "\<exists>f. w_out w' = w_out w @ [(i, f)] \<and> (\<forall>q < UDP6_SOCKS.
    let before = ud_socks (udp_of v) ! q; after = ud_socks (udp_of (netif_rx_frame j f v)) ! q
    in if be16_load (udp_segment s d sp dp payload) 6 \<noteq> 0 \<and> us_used before \<and> us_bound before \<and>
          us_bound_port before = dp \<and> length (udp6_queue before) < 8
       then udp6_queue after = udp6_queue before @
              [\<lparr>dg_src_ip = s, dg_src_port = sp, dg_dst_port = dp, dg_data = payload\<rparr>] \<and>
            us_used after \<and> us_bound after \<and> us_bound_port after = dp \<and> us_refs after = us_refs before
       else after = before)"
proof -
  have pl: "length payload \<le> UDP6_MAX_PAYLOAD" using sent by (simp add: udp6_send_raw_def split: if_splits)
  have ok: "udp6_ok (udp_of v)" using j(1) by (simp add: ready_def net_ok_def)
  obtain f where f: "w_out w' = w_out w @ [(i, f)]"
      "udp_of (netif_rx_frame j f v) =
        (if be16_load (udp_segment s d sp dp payload) 6 = 0 then udp_of v else snd (udp6_deliver s sp dp payload (udp_of v)))"
    using udp_arrival [OF sent i len j] by blast
  have kept: "us_used (udp6_enqueue g a) = us_used a" "us_bound (udp6_enqueue g a) = us_bound a"
      "us_bound_port (udp6_enqueue g a) = us_bound_port a" "us_refs (udp6_enqueue g a) = us_refs a" for g a
    by (simp_all add: udp6_enqueue_def)
  show ?thesis
    by (rule exI [of _ f])
      (use f deliver_sockets [OF ok pl] kept in \<open>auto simp: Let_def udp6_accepts_def UDP6_QLEN_def\<close>)
qed

text \<open>A host with an address of its own, where a socket is bound to port 7, and a datagram of two bytes
that reaches it.\<close>

definition host_ip :: "u8 list" where
  "host_ip = replicate 15 0xfe @ [1]"

definition host_udp :: udp6_state where
  "host_udp = snd (net_udp6_bind 0 7 (snd (net_udp6_socket_alloc (udp_of lone_world))))"

definition host_world :: world where
  "host_world = set_udp host_udp (set_nif 0 (\<lambda>n. n\<lparr>nf_ll := host_ip, nf_ll_valid := True\<rparr>) lone_world)"

lemma host_socket:
  "udp_of host_world = host_udp" "us_used (ud_socks host_udp ! 0)" "us_bound (ud_socks host_udp ! 0)"
  "us_bound_port (ud_socks host_udp ! 0) = 7" "udp6_queue (ud_socks host_udp ! 0) = []"
proof -
  let ?st = "udp_of lone_world"
  obtain a where st: "ud_socks ?st = replicate UDP6_SOCKS a" and a: "\<not> us_used a"
    by (simp add: udp_of_def lone_world_def net_kernel_def)
  have all: "ud_socks ?st = a # replicate 7 a" unfolding st UDP6_SOCKS_def by (simp add: numeral_eq_Suc)
  let ?s1 = "udp6_sock_reset True 1 a"
  have alloc: "snd (net_udp6_socket_alloc ?st) = ?st\<lparr>ud_socks := ?s1 # replicate 7 a\<rparr>"
    using a by (simp add: net_udp6_socket_alloc_def all upd_at_def)
  have "\<not> udp6_port_in_use 7 0 (?s1 # replicate 7 a)"
    using a by (auto simp: udp6_port_in_use_def list_ex_iff nth_Cons')
  then have "ud_socks host_udp ! 0 = udp6_set_port 7 ?s1"
    unfolding host_udp_def alloc by (simp add: net_udp6_bind_def udp6_sock_reset_def upd_at_def UDP6_SOCKS_def)
  then show "us_used (ud_socks host_udp ! 0)" "us_bound (ud_socks host_udp ! 0)"
    "us_bound_port (ud_socks host_udp ! 0) = 7" "udp6_queue (ud_socks host_udp ! 0) = []"
    by (simp_all add: udp6_set_port_def udp6_sock_reset_def)
  show "udp_of host_world = host_udp" by (simp add: host_world_def udp_of_def set_udp_def)
qed

lemma udp_datagram_arrives_witness:
  "\<exists>f. w_out (snd (udp6_send_raw 0 (replicate 16 0) host_ip (replicate 6 2) 5 7 [1, 2] lone_world)) = w_out lone_world @ [(0, f)] \<and>
    udp6_queue (ud_socks (udp_of (netif_rx_frame 0 f host_world)) ! 0) =
      [\<lparr>dg_src_ip = replicate 16 0, dg_src_port = 5, dg_dst_port = 7, dg_data = [1, 2]\<rparr>]"
proof -
  have sent: "udp6_send_raw 0 (replicate 16 0) host_ip (replicate 6 2) 5 7 [1, 2] lone_world =
      (Inr (), snd (udp6_send_raw 0 (replicate 16 0) host_ip (replicate 6 2) 5 7 [1, 2] lone_world))"
    by (simp add: udp6_send_raw_def eth_send_ipv6_def netif_tx_frame_def lone_world_def lone_netif_def the_nif_def
      host_ip_def UDP6_MAX_PAYLOAD_def ip6_header_def udp_segment_def Let_def)
  have r: "ready 0 lone_world" using lone_world_ok by (simp add: ready_def lone_world_def)
  have l: "length host_ip = 16" by (simp add: host_ip_def)
  let ?v = "set_nif 0 (\<lambda>n. n\<lparr>nf_ll := host_ip, nf_ll_valid := True\<rparr>) lone_world"
  have h0: "ready 0 ?v"
    by (rule stays_ready [OF stays_set_nif [OF r] r]) (simp add: nif_step_def nif_ok_def l)
  have "udp6_ok host_udp"
    unfolding host_udp_def using r by (intro udp6_bind_ok udp6_alloc_ok) (simp add: ready_def net_ok_def)
  then have h: "ready 0 host_world"
    unfolding host_world_def by (rule stays_ready [OF stays_set_udp [OF h0] h0])
  have v: "nf_ll_valid (the_nif 0 host_world)" "is_ours (the_nif 0 host_world) host_ip"
    by (simp_all add: host_world_def set_udp_def set_nif_def the_nif_def lone_world_def is_ours_def)
  have c: "be16_load (udp_segment (replicate 16 0) host_ip 5 7 [1, 2]) 6 \<noteq> 0"
    by code_simp
  obtain f where f: "w_out (snd (udp6_send_raw 0 (replicate 16 0) host_ip (replicate 6 2) 5 7 [1, 2] lone_world)) = w_out lone_world @ [(0, f)]"
      and "\<forall>q < UDP6_SOCKS. let before = ud_socks host_udp ! q; after = ud_socks (udp_of (netif_rx_frame 0 f host_world)) ! q
        in if us_used before \<and> us_bound before \<and> us_bound_port before = 7 \<and> length (udp6_queue before) < 8
           then udp6_queue after = udp6_queue before @
                  [\<lparr>dg_src_ip = replicate 16 0, dg_src_port = 5, dg_dst_port = 7, dg_data = [1, 2]\<rparr>] \<and>
                us_used after \<and> us_bound after \<and> us_bound_port after = 7 \<and> us_refs after = us_refs before
           else after = before"
    using udp_datagram_arrives [OF sent r _ l _ h v] c host_socket(1) by auto
  from spec [OF this(2), of 0] f show ?thesis using host_socket by (auto simp: Let_def UDP6_SOCKS_def)
qed

end
