(* ===== verification/TcpStream.thy ===== *)
theory TcpStream
  imports NetOk
begin

text \<open>
  The receive side of a TCP connection as a stream: segments that arrive lost, repeated or out of
  order, and reads of any length, in any interleaving. The model is \<open>tcp6_react\<close> of
  \<open>NetInput\<close> (the reaction of \<open>tcp6_input\<close> to a segment whose checksum was right) and
  \<open>net_tcp6_try_recv\<close> of \<open>Tcp6\<close>.
\<close>

definition tcp6_buffered :: "tcp6_conn \<Rightarrow> u8 list" where
  "tcp6_buffered c = ring_contents (tc_rx c) (tc_rx_head c) (tc_rx_count c)"

subsection \<open>The buffer\<close>

lemma ring_contents_add:
  "ring_contents b h (k + m) = ring_contents b h k @ ring_contents b ((h + k) mod length b) m"
proof -
  have "[0..<k + m] = [0..<k] @ map (\<lambda>i. k + i) [0..<m]"
    by (simp add: upt_add_eq_append [of 0 k m] map_add_upt add.commute)
  then show ?thesis by (simp add: ring_contents_def mod_add_left_eq add.assoc)
qed

lemma tcp6_push_contents:
  assumes "length (tc_rx c) = TCP6_RX_CAP" and "n + length bs \<le> TCP6_RX_CAP"
    and "tc_rx_tail c = (tc_rx_head c + n) mod TCP6_RX_CAP"
  shows "ring_contents (tc_rx (tcp6_push bs c)) (tc_rx_head c) (n + length bs) =
    ring_contents (tc_rx c) (tc_rx_head c) n @ bs"
  using assms
proof (induction bs c arbitrary: n rule: tcp6_push.induct)
  case (2 b bs c)
  let ?c = "c\<lparr>tc_rx := (tc_rx c)[tc_rx_tail c := b], tc_rx_tail := (tc_rx_tail c + 1) mod TCP6_RX_CAP\<rparr>"
  have "ring_contents (tc_rx ?c) (tc_rx_head ?c) (Suc n) = ring_contents (tc_rx c) (tc_rx_head c) n @ [b]"
    using ring_push [of n "tc_rx c" "tc_rx_tail c" "tc_rx_head c" b] 2(2-4) by simp
  moreover have "tc_rx_tail ?c = (tc_rx_head ?c + Suc n) mod TCP6_RX_CAP"
    using 2(4) by (simp add: mod_Suc_eq)
  ultimately show ?case using 2(1) [of "Suc n"] 2(2,3) by simp
qed simp

lemma tcp6_take_buffered:
  assumes "conn_ok c"
  shows "tcp6_buffered (tcp6_take data c) = tcp6_buffered c @ take (TCP6_RX_CAP - tc_rx_count c) data"
proof -
  define n where "n = min (length data) (TCP6_RX_CAP - tc_rx_count c)"
  have n: "length (take n data) = n" "tc_rx_count c + n \<le> TCP6_RX_CAP"
    "take n data = take (TCP6_RX_CAP - tc_rx_count c) data"
    using assms by (auto simp: n_def conn_ok_def min_def)
  show ?thesis
    using tcp6_push_contents [of c "tc_rx_count c" "take n data"] assms n
    by (simp add: tcp6_take_def Let_def n_def [symmetric] conn_ok_def tcp6_buffered_def)
qed

lemma tcp6_pull_contents:
  assumes "length (tc_rx c) = TCP6_RX_CAP" and "tc_rx_head c < TCP6_RX_CAP"
  shows "tcp6_pull k c =
    (ring_contents (tc_rx c) (tc_rx_head c) k, c\<lparr>tc_rx_head := (tc_rx_head c + k) mod TCP6_RX_CAP\<rparr>)"
  using assms
proof (induction k arbitrary: c)
  case (Suc k)
  let ?c = "c\<lparr>tc_rx_head := (tc_rx_head c + 1) mod TCP6_RX_CAP\<rparr>"
  have "tc_rx_head ?c < TCP6_RX_CAP" by (simp add: TCP6_RX_CAP_def)
  then show ?case
    using Suc.IH [of ?c] Suc.prems ring_pop [of "tc_rx_head c" "tc_rx c" k] by (simp add: mod_simps add.commute)
qed simp

text \<open>A read takes bytes from the front and leaves the rest of the connection alone.\<close>

lemma tcp6_recv_buffered:
  assumes c: "tcp6_get cid st = Some c" and ok: "conn_ok c" and cid: "cid < length (tt_conns st)"
  obtains bs c' where "net_tcp6_try_recv cid len st = (Inr bs, st\<lparr>tt_conns := (tt_conns st)[cid := c']\<rparr>)"
      "conn_ok c'" "bs @ tcp6_buffered c' = tcp6_buffered c" "tc_used c' = tc_used c" "tc_state c' = tc_state c"
      "tc_rcv_nxt c' = tc_rcv_nxt c"
  | "net_tcp6_try_recv cid len st = (Inl EAGAIN, st)"
proof -
  have nth: "(tt_conns st)[cid := c] = tt_conns st"
    using c cid by (auto simp: tcp6_get_def split: if_splits)
  consider "tc_rx_count c = 0" "tc_state c \<noteq> TCP6_CLOSE_WAIT"
    | "tc_rx_count c = 0 \<and> tc_state c = TCP6_CLOSE_WAIT \<or> tc_rx_count c \<noteq> 0 \<and> len = 0"
    | "tc_rx_count c \<noteq> 0" "len \<noteq> 0" by blast
  then show thesis
  proof cases
    case 1
    then show ?thesis using c that(2) by (simp add: net_tcp6_try_recv_def)
  next
    case 2
    then have "net_tcp6_try_recv cid len st = (Inr [], st\<lparr>tt_conns := (tt_conns st)[cid := c]\<rparr>)"
      using c by (auto simp: net_tcp6_try_recv_def nth)
    then show ?thesis using that(1) ok by simp
  next
    case 3
    define n where "n = min len (tc_rx_count c)"
    define c' where "c' = c\<lparr>tc_rx_head := (tc_rx_head c + n) mod TCP6_RX_CAP, tc_rx_count := tc_rx_count c - n\<rparr>"
    have k: "length (tc_rx c) = TCP6_RX_CAP" "tc_rx_head c < TCP6_RX_CAP" "n \<le> tc_rx_count c"
      using ok by (simp_all add: conn_ok_def n_def)
    have "net_tcp6_try_recv cid len st =
        (Inr (ring_contents (tc_rx c) (tc_rx_head c) n), st\<lparr>tt_conns := (tt_conns st)[cid := c']\<rparr>)"
      using 3 c tcp6_pull_contents [OF k(1,2), of n]
      by (simp add: net_tcp6_try_recv_def Let_def n_def [symmetric] c'_def)
    moreover have "((tc_rx_head c + n) mod TCP6_RX_CAP + (tc_rx_count c - n)) mod TCP6_RX_CAP = (tc_rx_head c + tc_rx_count c) mod TCP6_RX_CAP"
      by (simp only: mod_add_left_eq) (simp add: k(3))
    then have "conn_ok c'"
      using ok by (simp add: conn_ok_def c'_def TCP6_RX_CAP_def le_diff_conv trans_le_add1 del: Nat.add_diff_assoc)
    moreover have "ring_contents (tc_rx c) (tc_rx_head c) n @ tcp6_buffered c' = tcp6_buffered c"
      using ring_contents_add [of "tc_rx c" "tc_rx_head c" n "tc_rx_count c - n"] k by (simp add: c'_def tcp6_buffered_def)
    ultimately show ?thesis using that(1) by (simp add: c'_def)
  qed
qed

subsection \<open>The stream\<close>

text \<open>A segment carries the peer's bytes from an offset of the stream on.\<close>

datatype stream_event = Segment u8 u32 nat "u8 list" | Recv nat

fun stream_step :: "nat \<Rightarrow> u32 \<Rightarrow> stream_event \<Rightarrow> tcp6_state \<times> u8 list \<Rightarrow> tcp6_state \<times> u8 list" where
  "stream_step cid isn (Segment flags ack off data) (st, rd) =
     (st\<lparr>tt_conns := upd_at cid (\<lambda>c. fst (tcp6_react flags (isn + word_of_nat off) ack data c)) (tt_conns st)\<rparr>, rd)"
| "stream_step cid isn (Recv len) (st, rd) =
     (case net_tcp6_try_recv cid len st of (Inr bs, st') \<Rightarrow> (st', rd @ bs) | (Inl e, st') \<Rightarrow> (st', rd))"

text \<open>What the peer may send: pieces of the stream, and a FIN of its own after the last byte.\<close>

fun of_stream :: "u8 list \<Rightarrow> stream_event \<Rightarrow> bool" where
  "of_stream s (Segment flags ack off data) \<longleftrightarrow> off \<le> length s \<and> data = take (length data) (drop off s) \<and>
     (flags AND TCP_FLG_FIN \<noteq> 0 \<longrightarrow> data = [] \<and> off = length s)"
| "of_stream s (Recv len) \<longleftrightarrow> True"

text \<open>The first \<open>n\<close> bytes have arrived; one more when the FIN has.\<close>

definition stream_at :: "u8 list \<Rightarrow> u32 \<Rightarrow> nat \<Rightarrow> tcp6_conn \<Rightarrow> u8 list \<Rightarrow> bool" where
  "stream_at s isn n c rd \<longleftrightarrow> conn_ok c \<and> tc_rcv_nxt c = isn + word_of_nat n \<and> rd @ tcp6_buffered c = take n s \<and>
     n \<le> length s + 1 \<and> tc_state c = (if n = length s + 1 then TCP6_CLOSE_WAIT else TCP6_ESTABLISHED)"

lemma offset_eq:
  "a < 2 ^ 32 \<Longrightarrow> b < 2 ^ 32 \<Longrightarrow> (isn :: u32) + word_of_nat a = isn + word_of_nat b \<longleftrightarrow> a = b"
  by (auto simp: word_of_nat_eq_iff take_bit_nat_eq_self)

lemma acked_keeps:
  "tc_rcv_nxt (tcp6_acked fl ak c) = tc_rcv_nxt c" "tc_state (tcp6_acked fl ak c) = tc_state c"
  "tcp6_buffered (tcp6_acked fl ak c) = tcp6_buffered c" "tc_rx_count (tcp6_acked fl ak c) = tc_rx_count c"
  by (simp_all add: tcp6_acked_def tcp6_buffered_def)

lemma stream_at_segment:
  assumes at: "stream_at s isn n c rd" and seg: "of_stream s (Segment flags ack off data)" and s: "length s + 1 < 2 ^ 32"
  shows "\<exists>n'. stream_at s isn n' (fst (tcp6_react flags (isn + word_of_nat off) ack data c)) rd"
proof -
  let ?c = "tcp6_acked flags ack c"
  have a: "stream_at s isn n ?c rd" using at by (simp add: stream_at_def acked_keeps acked_ok)
  have off: "isn + word_of_nat off = tc_rcv_nxt ?c \<longleftrightarrow> off = n"
    using a seg s offset_eq [of off n isn] by (auto simp: stream_at_def)
  have st: "tc_state c \<noteq> TCP6_SYN_SENT" "tc_state c = TCP6_ESTABLISHED \<or> tc_state c = TCP6_CLOSE_WAIT"
    using at by (auto simp: stream_at_def)
  consider "flags AND TCP_FLG_FIN \<noteq> 0" | "flags AND TCP_FLG_FIN = 0" "data = [] \<or> off \<noteq> n"
    | "flags AND TCP_FLG_FIN = 0" "data \<noteq> []" "off = n" by blast
  then show ?thesis
  proof cases
    case 1
    then have "fst (tcp6_react flags (isn + word_of_nat off) ack data c) = tcp6_fin (isn + word_of_nat off) ?c"
      using st by (auto simp: tcp6_react_def Let_def)
    moreover have "tcp6_fin (isn + word_of_nat off) ?c =
        (if off = n then ?c\<lparr>tc_rcv_nxt := tc_rcv_nxt ?c + 1, tc_state := TCP6_CLOSE_WAIT\<rparr> else ?c)"
      by (simp only: tcp6_fin_def off)
    moreover have "stream_at s isn (n + 1) (?c\<lparr>tc_rcv_nxt := tc_rcv_nxt ?c + 1, tc_state := TCP6_CLOSE_WAIT\<rparr>) rd" if "off = n"
      using a 1 seg that by (simp add: stream_at_def conn_ok_def tcp6_buffered_def)
    ultimately show ?thesis using a by (cases "off = n") auto
  next
    case 2
    then have "fst (tcp6_react flags (isn + word_of_nat off) ack data c) = ?c"
      using st off by (auto simp: tcp6_react_def Let_def)
    then show ?thesis using a by auto
  next
    case 3
    define m where "m = min (length data) (TCP6_RX_CAP - tc_rx_count ?c)"
    have eq: "fst (tcp6_react flags (isn + word_of_nat off) ack data c) = tcp6_take data ?c"
      using 3 st off by (auto simp: tcp6_react_def Let_def)
    have n: "n \<le> length s" "data = take (length data) (drop n s)" using 3 seg by simp_all
    have "length data \<le> length s - n" using arg_cong [OF n(2), of length] by simp
    have t: "take m data = take m (drop n s)"
      using n(2) by (metis m_def min.cobounded1 min.absorb1 take_take)
    have e: "take m data = take (TCP6_RX_CAP - tc_rx_count ?c) data" by (simp add: m_def min_def)
    have "take (n + m) s = take n s @ take (TCP6_RX_CAP - tc_rx_count ?c) data"
      unfolding e [symmetric] take_add t by (rule refl)
    then have "rd @ tcp6_buffered (tcp6_take data ?c) = take (n + m) s"
      using a tcp6_take_buffered [of ?c data] by (simp add: stream_at_def)
    moreover have "conn_ok (tcp6_take data ?c)" using a by (simp add: stream_at_def tcp6_take_ok)
    moreover have "tc_rcv_nxt (tcp6_take data ?c) = isn + word_of_nat (n + m)"
        "tc_state (tcp6_take data ?c) = tc_state ?c"
      using a by (simp_all add: tcp6_take_def Let_def m_def stream_at_def)
    moreover have "n + m \<le> length s" using n(1) \<open>length data \<le> length s - n\<close> by (auto simp: m_def)
    ultimately have "stream_at s isn (n + m) (tcp6_take data ?c) rd"
      using a by (auto simp: stream_at_def)
    then show ?thesis using eq by auto
  qed
qed

definition streaming :: "u8 list \<Rightarrow> u32 \<Rightarrow> nat \<Rightarrow> tcp6_state \<times> u8 list \<Rightarrow> bool" where
  "streaming s isn cid st_rd \<longleftrightarrow> cid < length (tt_conns (fst st_rd)) \<and>
     (\<exists>c n. tcp6_get cid (fst st_rd) = Some c \<and> stream_at s isn n c (snd st_rd))"

lemma react_used: "tc_used (fst (tcp6_react fl sq ak data c)) = tc_used c"
  by (simp add: tcp6_react_def tcp6_established_def tcp6_acked_def tcp6_fin_def tcp6_take_def Let_def)

lemma get_upd:
  "tcp6_get cid st = Some c \<Longrightarrow> cid < length (tt_conns st) \<Longrightarrow> tc_used (f c) \<Longrightarrow>
   tcp6_get cid (st\<lparr>tt_conns := upd_at cid f (tt_conns st)\<rparr>) = Some (f c)"
  "tcp6_get cid st = Some c \<Longrightarrow> cid < length (tt_conns st) \<Longrightarrow> tc_used c' \<Longrightarrow>
   tcp6_get cid (st\<lparr>tt_conns := (tt_conns st)[cid := c']\<rparr>) = Some c'"
  by (auto simp: tcp6_get_def split: if_splits)

lemma streaming_step:
  assumes st: "streaming s isn cid (st, rd)" and ev: "of_stream s ev" and s: "length s + 1 < 2 ^ 32"
  shows "streaming s isn cid (stream_step cid isn ev (st, rd))"
proof -
  obtain c n where c: "tcp6_get cid st = Some c" "stream_at s isn n c rd" and cid: "cid < length (tt_conns st)"
    using st by (auto simp: streaming_def)
  have used: "tc_used c" using c(1) by (auto simp: tcp6_get_def split: if_splits)
  show ?thesis
  proof (cases ev)
    case (Segment flags ack off data)
    then show ?thesis
      using get_upd(1) [OF c(1) cid, of "\<lambda>c. fst (tcp6_react flags (isn + word_of_nat off) ack data c)"]
        stream_at_segment [OF c(2) ev [unfolded Segment] s] cid used
      by (simp add: streaming_def react_used)
  next
    case (Recv len)
    have ok: "conn_ok c" using c(2) by (simp add: stream_at_def)
    show ?thesis
    proof (rule tcp6_recv_buffered [OF c(1) ok cid, of len])
      fix bs c' assume r: "net_tcp6_try_recv cid len st = (Inr bs, st\<lparr>tt_conns := (tt_conns st)[cid := c']\<rparr>)"
        "conn_ok c'" "bs @ tcp6_buffered c' = tcp6_buffered c" "tc_used c' = tc_used c" "tc_state c' = tc_state c"
        "tc_rcv_nxt c' = tc_rcv_nxt c"
      have "stream_at s isn n c' (rd @ bs)" using c(2) r by (simp add: stream_at_def)
      then show ?thesis
        using Recv r(1) get_upd(2) [OF c(1) cid, of c'] r(4) used cid by (auto simp: streaming_def)
    next
      assume "net_tcp6_try_recv cid len st = (Inl EAGAIN, st)"
      then show ?thesis using Recv st by simp
    qed
  qed
qed

lemma streaming_run:
  "streaming s isn cid sr \<Longrightarrow> \<forall>ev \<in> set evs. of_stream s ev \<Longrightarrow> length s + 1 < 2 ^ 32 \<Longrightarrow>
   streaming s isn cid (fold (stream_step cid isn) evs sr)"
proof (induction evs arbitrary: sr)
  case (Cons ev evs)
  then show ?case using streaming_step [of s isn cid "fst sr" "snd sr" ev] by simp
qed simp

text \<open>
  C38: A TCP connection delivers a stream: however the peer's segments are lost, repeated and
  reordered and however they interleave with reads, what the process has read followed by what is
  buffered is exactly the first bytes of the peer's stream, as many as have been acknowledged; and
  the connection counts as closed by the peer (which is what lets a read of an empty buffer report
  the end) only when the whole stream has been read or is buffered. The peer is one that sends its
  FIN in a segment without data, and less than 4 GiB.
\<close>

theorem tcp_stream_delivered:
  assumes c: "tcp6_get cid st = Some c" "cid < length (tt_conns st)"
    and new: "conn_ok c" "tc_state c = TCP6_ESTABLISHED" "tc_rx_count c = 0" "tc_rcv_nxt c = isn"
    and evs: "\<forall>ev \<in> set evs. of_stream s ev" and s: "length s + 1 < 2 ^ 32"
    and run: "fold (stream_step cid isn) evs (st, []) = (st', rd)"
  shows "\<exists>c'. tcp6_get cid st' = Some c' \<and> rd @ tcp6_buffered c' = take (unat (tc_rcv_nxt c' - isn)) s \<and>
     (tc_state c' = TCP6_CLOSE_WAIT \<longrightarrow> rd @ tcp6_buffered c' = s)"
proof -
  have "stream_at s isn 0 c []" using new by (simp add: stream_at_def tcp6_buffered_def)
  then have "streaming s isn cid (st, [])" unfolding streaming_def using c by auto
  then have "streaming s isn cid (st', rd)" using streaming_run [OF _ evs s] run by metis
  then obtain c' n where c': "tcp6_get cid st' = Some c'" "stream_at s isn n c' rd" by (auto simp: streaming_def)
  have "unat (tc_rcv_nxt c' - isn) = n" using c'(2) s by (simp add: stream_at_def unsigned_of_nat take_bit_nat_eq_self)
  then show ?thesis using c' by (auto simp: stream_at_def)
qed

text \<open>A connection just established, a segment that arrives twice, a read and the end of the stream.\<close>

definition fresh_conn :: tcp6_conn where
  "fresh_conn = \<lparr>tc_used = True, tc_state = TCP6_ESTABLISHED, tc_refs = 1, tc_local_port = 40000, tc_remote_port = 80,
     tc_remote_ip = replicate 16 0, tc_iss = 0, tc_snd_una = 0, tc_snd_nxt = 0, tc_irs = 0, tc_rcv_nxt = 0xffffffff,
     tc_rx = replicate TCP6_RX_CAP 0, tc_rx_head = 0, tc_rx_tail = 0, tc_rx_count = 0, tc_last_syn_tx_ns = 0\<rparr>"

definition some_events :: "stream_event list" where
  "some_events = [Segment 0x10 0 0 [1, 2], Segment 0x10 0 0 [1, 2], Recv 1, Segment TCP_FLG_FIN 0 2 []]"

lemma tcp_stream_delivered_witness:
  "\<exists>c'. tcp6_get 0 (fst (fold (stream_step 0 0xffffffff) some_events (\<lparr>tt_conns = [fresh_conn], tt_ephemeral = 0\<rparr>, []))) = Some c' \<and>
     snd (fold (stream_step 0 0xffffffff) some_events (\<lparr>tt_conns = [fresh_conn], tt_ephemeral = 0\<rparr>, [])) @ tcp6_buffered c' =
       take (unat (tc_rcv_nxt c' - 0xffffffff)) [1, 2] \<and>
     (tc_state c' = TCP6_CLOSE_WAIT \<longrightarrow>
       snd (fold (stream_step 0 0xffffffff) some_events (\<lparr>tt_conns = [fresh_conn], tt_ephemeral = 0\<rparr>, [])) @ tcp6_buffered c' = [1, 2])"
  by (rule tcp_stream_delivered [where c = fresh_conn and st = "\<lparr>tt_conns = [fresh_conn], tt_ephemeral = 0\<rparr>" and
    evs = some_events and s = "[1, 2]"])
    (simp_all add: tcp6_get_def fresh_conn_def conn_ok_def TCP6_MAX_CONNS_def TCP6_RX_CAP_def some_events_def TCP_FLG_FIN_def)

end
