(* ===== verification/SysMisc.thy ===== *)
theory SysMisc
  imports FsProps Exec
begin

text \<open>
  \<open>kernel-aarch64/sys_misc.c\<close> and \<open>power.c\<close>: identity, limits, signals (accepted and ignored), random
  bytes, the clock and sleeping. A call takes its register arguments and the kernel, and returns the
  value of \<open>x0\<close> and the kernel after it; the state of the random generator is an argument and a result.
\<close>

definition put_user :: "u64 \<Rightarrow> u8 list \<Rightarrow> kernel \<Rightarrow> kernel" where
  "put_user va bs k = k\<lparr>k_mem := store_bytes (user_base k) va bs (k_mem k)\<rparr>"

definition sys_getuid :: u64 where "sys_getuid = 0"
definition sys_geteuid :: u64 where "sys_geteuid = 0"
definition sys_getgid :: u64 where "sys_getgid = 0"
definition sys_getegid :: u64 where "sys_getegid = 0"

definition sys_gettid :: "kernel \<Rightarrow> u64" where
  "sys_gettid k = p_pid (cur_proc k)"

definition sys_set_tid_address :: "u64 \<Rightarrow> kernel \<Rightarrow> u64 \<times> kernel" where
  "sys_set_tid_address tidptr_user k =
     (if tidptr_user \<noteq> 0 \<and> \<not> user_range_ok tidptr_user 4 then (sys_err EFAULT, k)
      else (p_pid (cur_proc k), set_cur (\<lambda>p. p\<lparr>p_clear_child_tid := tidptr_user\<rparr>) k))"

definition sys_set_robust_list :: "u64 \<Rightarrow> u64 \<Rightarrow> u64" where
  "sys_set_robust_list head_user len = 0"

subsection \<open>Random bytes\<close>

definition xorshift :: "u64 \<Rightarrow> u64" where
  "xorshift s = (let s1 = s XOR drop_bit 12 s; s2 = s1 XOR push_bit 25 s1 in s2 XOR drop_bit 27 s2)"

fun random_bytes :: "nat \<Rightarrow> u64 \<Rightarrow> u8 list \<times> u64" where
  "random_bytes 0 s = ([], s)"
| "random_bytes (Suc n) s =
     (let s' = xorshift s in case random_bytes n s' of (bs, s'') \<Rightarrow> (ucast (s' * 2685821657736338717) # bs, s''))"

definition sys_getrandom :: "u64 \<Rightarrow> u64 \<Rightarrow> u64 \<Rightarrow> u64 \<Rightarrow> kernel \<Rightarrow> u64 \<times> u64 \<times> kernel" where
  "sys_getrandom buf_user len flags rand_state k =
     (if len = 0 then (0, rand_state, k)
      else if \<not> user_range_ok buf_user len then (sys_err EFAULT, rand_state, k)
      else case random_bytes (unat len) (rand_state XOR push_bit 1 (p_pid (cur_proc k))) of
        (bs, s) \<Rightarrow> (len, s, put_user buf_user bs k))"

subsection \<open>Limits, signals and names\<close>

definition sys_prlimit64 :: "u64 \<Rightarrow> u64 \<Rightarrow> u64 \<Rightarrow> u64 \<Rightarrow> kernel \<Rightarrow> u64 \<times> kernel" where
  "sys_prlimit64 pid resource new_rlim_user old_rlim_user k =
     (if pid \<noteq> 0 \<and> pid \<noteq> p_pid (cur_proc k) then (sys_err ESRCH, k)
      else if new_rlim_user \<noteq> 0 \<and> \<not> user_range_ok new_rlim_user 16 then (sys_err EFAULT, k)
      else if old_rlim_user = 0 then (0, k)
      else if \<not> user_range_ok old_rlim_user 16 then (sys_err EFAULT, k)
      else (0, put_user old_rlim_user (bytes_of_u64 (- 1) @ bytes_of_u64 (- 1)) k))"

definition sys_rt_sigprocmask :: "u64 \<Rightarrow> u64 \<Rightarrow> u64 \<Rightarrow> u64 \<Rightarrow> kernel \<Rightarrow> u64 \<times> kernel" where
  "sys_rt_sigprocmask how set_user oldset_user sigsetsize k =
     (if sigsetsize = 0 \<or> 128 < sigsetsize then (sys_err EINVAL, k)
      else if oldset_user = 0 then (0, k)
      else if \<not> user_range_ok oldset_user sigsetsize then (sys_err EFAULT, k)
      else (0, put_user oldset_user (replicate (unat sigsetsize) 0) k))"

definition sys_rt_sigaction :: "u64 \<Rightarrow> u64 \<Rightarrow> u64 \<Rightarrow> u64 \<Rightarrow> kernel \<Rightarrow> u64 \<times> kernel" where
  "sys_rt_sigaction sig act_user oldact_user sigsetsize k =
     (if sigsetsize = 0 \<or> 128 < sigsetsize then (sys_err EINVAL, k)
      else if oldact_user = 0 then (0, k)
      else if \<not> user_range_ok oldact_user (24 + sigsetsize) then (sys_err EFAULT, k)
      else (0, put_user oldact_user (replicate (unat (24 + sigsetsize)) 0) k))"

definition LINUX_UTSNAME_LEN :: nat where
  "LINUX_UTSNAME_LEN = 65"

text \<open>A field of \<open>struct utsname\<close>: the string, cut to fit, in a buffer cleared before.\<close>

definition uts_field :: "string \<Rightarrow> u8 list" where
  "uts_field s =
     (let t = take (LINUX_UTSNAME_LEN - 1) s in map char_byte t @ replicate (LINUX_UTSNAME_LEN - length t) 0)"

definition utsname :: "u8 list" where
  "utsname = concat (map uts_field [''Linux'', ''mona'', ''0.0'', ''mona-rpzero'', ''aarch64'', ''''])"

definition sys_uname :: "u64 \<Rightarrow> kernel \<Rightarrow> u64 \<times> kernel" where
  "sys_uname buf_user k =
     (if \<not> user_range_ok buf_user 390 then (sys_err EFAULT, k)
      else case write_bytes_to_user (user_base k) buf_user utsname (k_mem k) of
        None \<Rightarrow> (sys_err EFAULT, k)
      | Some m \<Rightarrow> (0, k\<lparr>k_mem := m\<rparr>))"

subsection \<open>Time\<close>

definition timespec :: "u64 \<Rightarrow> u64 \<Rightarrow> u8 list" where
  "timespec sec nsec = bytes_of_u64 sec @ bytes_of_u64 nsec"

definition sys_clock_gettime :: "u64 \<Rightarrow> u64 \<Rightarrow> u64 \<Rightarrow> kernel \<Rightarrow> u64 \<times> kernel" where
  "sys_clock_gettime cnt clockid tp_user k =
     (if clockid \<noteq> 0 \<and> clockid \<noteq> 1 then (sys_err EINVAL, k)
      else if \<not> user_range_ok tp_user 16 then (sys_err EFAULT, k)
      else let ns = clock k cnt in
        case write_bytes_to_user (user_base k) tp_user (timespec (ns div 1000000000) (ns mod 1000000000)) (k_mem k) of
          None \<Rightarrow> (sys_err EFAULT, k)
        | Some m \<Rightarrow> (0, k\<lparr>k_mem := m\<rparr>))"

text \<open>The request: seconds and nanoseconds, \<open>None\<close> when it is negative or too long for 64 bits.\<close>

definition sleep_request :: "u64 \<Rightarrow> u64 \<Rightarrow> u64 option" where
  "sleep_request sec nsec =
     (if sint nsec < 0 \<or> 1000000000 \<le> sint nsec then None
      else if sint sec < 0 then None
      else if 2 ^ 64 \<le> unat sec * 1000000000 + unat nsec then None
      else Some (word_of_nat (unat sec * 1000000000 + unat nsec)))"

definition deadline_after :: "u64 \<Rightarrow> u64 \<Rightarrow> u64" where
  "deadline_after now d = (if now + d < now then 0xFFFFFFFFFFFFFFFF else now + d)"

definition sleep_state :: "regs \<Rightarrow> u64 \<Rightarrow> proc \<Rightarrow> proc" where
  "sleep_state r deadline p =
     (set_x0 0 (p\<lparr>p_tf := fst r, p_elr := snd r\<rparr>))\<lparr>p_state := PROC_SLEEPING, p_deadline := deadline\<rparr>"

definition awake_state :: "proc \<Rightarrow> proc" where
  "awake_state p = p\<lparr>p_state := (if p_state p = PROC_SLEEPING then PROC_RUNNABLE else p_state p), p_deadline := 0\<rparr>"

definition sleep_now :: "sched_in \<Rightarrow> regs \<Rightarrow> u64 \<Rightarrow> kernel \<Rightarrow> sys_outcome" where
  "sleep_now e r deadline k =
     (case resched e (set_cur (sleep_state r deadline) k) of
        None \<Rightarrow> Waits
      | Some (Some r', k') \<Rightarrow> Returns SYSCALL_SWITCHED r' k'
      | Some (None, k') \<Rightarrow> Returns 0 r (set_proc (k_cur k) awake_state k'))"

definition sys_nanosleep :: "sched_in \<Rightarrow> u64 \<Rightarrow> regs \<Rightarrow> u64 \<Rightarrow> u64 \<Rightarrow> kernel \<Rightarrow> sys_outcome" where
  "sys_nanosleep e cnt r req_user rem_user k =
     (if req_user = 0 \<or> \<not> user_range_ok req_user 16 then Returns (sys_err EFAULT) r k
      else case sleep_request (u64_of_bytes (load_bytes (user_base k) (k_mem k) req_user 8))
                  (u64_of_bytes (load_bytes (user_base k) (k_mem k) (req_user + 8) 8)) of
        None \<Rightarrow> Returns (sys_err EINVAL) r k
      | Some total_ns \<Rightarrow>
          if rem_user \<noteq> 0 \<and> \<not> user_range_ok rem_user 16 then Returns (sys_err EFAULT) r k
          else let k1 = (if rem_user \<noteq> 0 then put_user rem_user (timespec 0 0) k else k) in
            if total_ns = 0 then Returns 0 r k1
            else sleep_now e r (deadline_after (clock k1 cnt) total_ns) k1)"

definition LINUX_REBOOT_CMD_POWER_OFF :: u64 where
  "LINUX_REBOOT_CMD_POWER_OFF = 0x4321fedc"

definition sys_reboot :: "u64 \<Rightarrow> u64 \<Rightarrow> u64 \<Rightarrow> u64 \<Rightarrow> regs \<Rightarrow> kernel \<Rightarrow> sys_outcome" where
  "sys_reboot magic1 magic2 cmd arg r k =
     (if cmd = LINUX_REBOOT_CMD_POWER_OFF then Poweroff (ucast (arg AND 0xff)) else Returns (sys_err EINVAL) r k)"

end
