(* ===== verification/SysNet.thy ===== *)
theory SysNet
  imports SysMisc NetOk
begin

text \<open>
  \<open>kernel-aarch64/sys_net.c\<close>: the network system calls, on the kernel and the packet layer together.
  A call that waits takes what the devices do at every turn of its loop as a list: the effect of
  \<open>usb_poll\<close> (received frames, the passing of time), and for calls that give up the processor the
  observations of the scheduler and what was received meanwhile. The list used up is a call that
  still waits.
\<close>

datatype outcome = Off u32 | Waiting | Back u64 regs world

definition on_kernel :: "(kernel \<Rightarrow> kernel) \<Rightarrow> world \<Rightarrow> world" where
  "on_kernel f w = w\<lparr>w_k := f (w_k w)\<rparr>"

record turn =
  tn_poll :: "world \<Rightarrow> world"
  tn_sched :: sched_in
  tn_net :: "world \<Rightarrow> world"

definition overdue :: "u64 \<Rightarrow> world \<Rightarrow> bool" where
  "overdue deadline w \<longleftrightarrow> deadline \<noteq> 0 \<and> w_now w \<noteq> 0 \<and> deadline \<le> w_now w"

subsection \<open>Arguments\<close>

definition read_bytes_from_user :: "kernel \<Rightarrow> u64 \<Rightarrow> u64 \<Rightarrow> u8 list option" where
  "read_bytes_from_user k user_src dst_len =
     (if dst_len = 0 \<or> \<not> user_range_ok user_src dst_len then None
      else Some (load_bytes (user_base k) (k_mem k) user_src (unat dst_len)))"

definition get_udp6_sock_id_from_fd :: "u64 \<Rightarrow> kernel \<Rightarrow> nat res" where
  "get_udp6_sock_id_from_fd fd k =
     (case desc_of fd k of
        None \<Rightarrow> Inl EBADF
      | Some d \<Rightarrow> (case kind_of d k of FDESC_UDP6 sid \<Rightarrow> Inr sid | _ \<Rightarrow> Inl EBADF))"

definition get_tcp6_conn_id_from_fd :: "u64 \<Rightarrow> kernel \<Rightarrow> nat res" where
  "get_tcp6_conn_id_from_fd fd k =
     (case desc_of fd k of
        None \<Rightarrow> Inl EBADF
      | Some d \<Rightarrow> (case kind_of d k of FDESC_TCP6 cid \<Rightarrow> Inr cid | _ \<Rightarrow> Inl EBADF))"

text \<open>A description for a fresh socket or connection, entered at the least free descriptor.\<close>

definition sock_install :: "nat \<Rightarrow> fdesc \<Rightarrow> fd_state \<Rightarrow> kernel \<Rightarrow> u64 res \<times> kernel" where
  "sock_install d kd s k =
     (case fd_alloc_into (p_fdt (cur_proc k)) 0 d (desc_setup d kd s) of
        (fd, t, s') \<Rightarrow>
          (case fd of None \<Rightarrow> Inl EMFILE | Some n \<Rightarrow> Inr (word_of_nat n), (set_fdt t k)\<lparr>k_fd := desc_decref d s'\<rparr>))"

definition res_code :: "u64 res \<Rightarrow> u64" where
  "res_code r = (case r of Inl e \<Rightarrow> sys_err e | Inr n \<Rightarrow> n)"

definition sys_mona_udp6_socket :: "kernel \<Rightarrow> u64 \<times> kernel" where
  "sys_mona_udp6_socket k =
     (case net_udp6_socket_alloc (fs_udp (k_fd k)) of
        (Inl e, st) \<Rightarrow> (sys_err e, k\<lparr>k_fd := (k_fd k)\<lparr>fs_udp := st\<rparr>\<rparr>)
      | (Inr sid, st) \<Rightarrow>
          (case desc_alloc ((k_fd k)\<lparr>fs_udp := st\<rparr>) of
             (None, s) \<Rightarrow> (sys_err EMFILE, k\<lparr>k_fd := s\<lparr>fs_udp := net_udp6_on_desc_decref sid (fs_udp s)\<rparr>\<rparr>)
           | (Some d, s) \<Rightarrow> (case sock_install d (FDESC_UDP6 sid) s k of (r, k') \<Rightarrow> (res_code r, k'))))"

definition sys_mona_udp6_bind :: "u64 \<Rightarrow> u64 \<Rightarrow> kernel \<Rightarrow> u64 \<times> kernel" where
  "sys_mona_udp6_bind fd port k =
     (case get_udp6_sock_id_from_fd fd k of
        Inl e \<Rightarrow> (sys_err e, k)
      | Inr sid \<Rightarrow>
          if 65535 < port then (sys_err EINVAL, k)
          else case net_udp6_bind sid (ucast port) (fs_udp (k_fd k)) of
            (r, st) \<Rightarrow> (case r of Inl e \<Rightarrow> sys_err e | Inr u \<Rightarrow> 0, k\<lparr>k_fd := (k_fd k)\<lparr>fs_udp := st\<rparr>\<rparr>))"

definition sys_mona_udp6_sendto :: "u64 \<Rightarrow> u64 \<Rightarrow> u64 \<Rightarrow> u64 \<Rightarrow> u64 \<Rightarrow> world \<Rightarrow> u64 \<times> world" where
  "sys_mona_udp6_sendto fd dst_ip_user dst_port buf_user len w =
     (case get_udp6_sock_id_from_fd fd (w_k w) of
        Inl e \<Rightarrow> (sys_err e, w)
      | Inr sid \<Rightarrow>
          if 65535 < dst_port then (sys_err EINVAL, w)
          else if UDP6_MAX_PAYLOAD < unat len then (sys_err EMSGSIZE, w)
          else case read_bytes_from_user (w_k w) dst_ip_user 16 of
            None \<Rightarrow> (sys_err EFAULT, w)
          | Some dst_ip \<Rightarrow>
              (case (if len = 0 then Some [] else read_bytes_from_user (w_k w) buf_user len) of
                 None \<Rightarrow> (sys_err EFAULT, w)
               | Some payload \<Rightarrow>
                   (case net_udp6_sendto sid dst_ip (ucast dst_port) payload w of
                      (Inl e, w') \<Rightarrow> (sys_err e, w')
                    | (Inr n, w') \<Rightarrow> (word_of_nat n, w'))))"

subsection \<open>\<open>recvfrom\<close>\<close>

text \<open>Copying a datagram out: the result, and memory.\<close>

definition udp6_give :: "u64 \<Rightarrow> pending_udp6 \<Rightarrow> udp6_dgram \<Rightarrow> memory \<Rightarrow> u64 \<times> memory" where
  "udp6_give base u dg m =
     (let bs = take (unat (pu_len u)) (dg_data dg) in
      case (if bs = [] then Some m else write_bytes_to_user base (pu_buf u) bs m) of
        None \<Rightarrow> (sys_err EFAULT, m)
      | Some m1 \<Rightarrow>
          let m2 = (if pu_src_ip u \<noteq> 0 then try_write base (pu_src_ip u) (dg_src_ip dg) m1 else m1);
              m3 = (if pu_src_port u \<noteq> 0 then try_write base (pu_src_port u) (bytes_of_u16 (dg_src_port dg)) m2 else m2)
          in (word_of_nat (length bs), m3))"

definition udp6_taken :: "pending_udp6 \<Rightarrow> udp6_dgram \<Rightarrow> udp6_state \<Rightarrow> kernel \<Rightarrow> u64 \<times> kernel" where
  "udp6_taken u dg st k =
     (case udp6_give (user_base k) u dg (k_mem k) of
        (x, m) \<Rightarrow> (x, k\<lparr>k_fd := (k_fd k)\<lparr>fs_udp := st\<rparr>, k_mem := m\<rparr>))"

definition udp6_idle :: "proc \<Rightarrow> proc" where
  "udp6_idle p = p\<lparr>p_udp6 := udp6_clear, p_deadline := 0, p_state := PROC_RUNNABLE\<rparr>"

fun recv_wait :: "turn list \<Rightarrow> regs \<Rightarrow> pending_udp6 \<Rightarrow> u64 \<Rightarrow> nat \<Rightarrow> world \<Rightarrow> outcome" where
  "recv_wait [] r u deadline c w = Waiting"
| "recv_wait (t # ts) r u deadline c w =
     (let w1 = tn_poll t w in
      case resched (tn_sched t) (w_k w1) of
        None \<Rightarrow> Waiting
      | Some (Some r', k') \<Rightarrow> Back SYSCALL_SWITCHED r' (tn_net t (w1\<lparr>w_k := k'\<rparr>))
      | Some (None, k') \<Rightarrow>
          let w2 = tn_net t (w1\<lparr>w_k := k'\<rparr>) in
          case net_udp6_try_recv (pu_sock u) (udp_of w2) of
            (Inr dg, st) \<Rightarrow>
              (case udp6_taken u dg st (w_k w2) of (x, k2) \<Rightarrow> Back x r (w2\<lparr>w_k := set_proc c udp6_idle k2\<rparr>))
          | (Inl e, st) \<Rightarrow>
              if e = EAGAIN then
                if overdue deadline w2
                then Back (sys_err ETIMEDOUT) r (on_kernel (set_proc c udp6_idle) w2)
                else recv_wait ts r u deadline c w2
              else Back (sys_err e) r (on_kernel (set_proc c udp6_idle) w2))"

definition recv_park :: "regs \<Rightarrow> pending_udp6 \<Rightarrow> u64 \<Rightarrow> u64 \<Rightarrow> proc \<Rightarrow> proc" where
  "recv_park r u timeout_ms now p =
     p\<lparr>p_tf := fst r, p_elr := snd r, p_udp6 := u,
       p_deadline := (if timeout_ms \<noteq> 0 then deadline_after now (timeout_ms * 1000000) else 0),
       p_state := (if timeout_ms \<noteq> 0 then PROC_SLEEPING else PROC_BLOCKED_IO)\<rparr>"

definition sys_mona_udp6_recvfrom ::
  "turn list \<Rightarrow> regs \<Rightarrow> u64 \<Rightarrow> u64 \<Rightarrow> u64 \<Rightarrow> u64 \<Rightarrow> u64 \<Rightarrow> u64 \<Rightarrow> world \<Rightarrow> outcome"
where
  "sys_mona_udp6_recvfrom ts r fd buf_user len src_ip_user src_port_user timeout_ms w =
     (let k = w_k w in
      if pu_on (p_udp6 (cur_proc k)) then Back (sys_err EBUSY) r w
      else if len \<noteq> 0 \<and> \<not> user_range_ok buf_user len then Back (sys_err EFAULT) r w
      else if src_ip_user \<noteq> 0 \<and> \<not> user_range_ok src_ip_user 16 then Back (sys_err EFAULT) r w
      else if src_port_user \<noteq> 0 \<and> \<not> user_range_ok src_port_user 2 then Back (sys_err EFAULT) r w
      else case get_udp6_sock_id_from_fd fd k of
        Inl e \<Rightarrow> Back (sys_err e) r w
      | Inr sid \<Rightarrow>
          let u = \<lparr>pu_on = True, pu_sock = sid, pu_fd = fd, pu_buf = buf_user, pu_len = len, pu_src_ip = src_ip_user,
                   pu_src_port = src_port_user\<rparr> in
          case net_udp6_try_recv sid (udp_of w) of
            (Inr dg, st) \<Rightarrow> (case udp6_taken u dg st k of (x, k') \<Rightarrow> Back x r (w\<lparr>w_k := k'\<rparr>))
          | (Inl e, st) \<Rightarrow>
              if e \<noteq> EAGAIN then Back (sys_err e) r w
              else let p = recv_park r u timeout_ms (w_now w) (cur_proc k) in
                recv_wait ts r u (if timeout_ms \<noteq> 0 \<and> w_now w = 0 then 0 else p_deadline p) (k_cur k)
                  (on_kernel (set_cur (\<lambda>_. p)) w))"

subsection \<open>\<open>ping6\<close>\<close>

definition upd_ping6 :: "nat \<Rightarrow> (pending_ping6 \<Rightarrow> pending_ping6) \<Rightarrow> world \<Rightarrow> world" where
  "upd_ping6 c f = on_kernel (set_proc c (\<lambda>p. p\<lparr>p_ping6 := f (p_ping6 p)\<rparr>))"

definition ping_of :: "nat \<Rightarrow> world \<Rightarrow> pending_ping6" where
  "ping_of c w = p_ping6 (k_procs (w_k w) ! c)"

definition ping_finish :: "nat \<Rightarrow> regs \<Rightarrow> world \<Rightarrow> outcome" where
  "ping_finish c r w =
     (let g = ping_of c w; k = w_k w;
          m = (if pg_ret g = 0 \<and> pg_rtt_user g \<noteq> 0
               then (case write_u64_to_user (user_base k) (pg_rtt_user g) (pg_rtt g) (k_mem k) of None \<Rightarrow> k_mem k | Some m \<Rightarrow> m)
               else k_mem k)
      in Back (pg_ret g) r (w\<lparr>w_k := set_proc c (\<lambda>p. p\<lparr>p_ping6 := ping6_clear, p_deadline := 0\<rparr>) (k\<lparr>k_mem := m\<rparr>)\<rparr>))"

text \<open>Starting again, as long as no request has gone out.\<close>

definition ping_retry :: "nat \<Rightarrow> u8 list \<Rightarrow> u16 \<Rightarrow> u16 \<Rightarrow> world \<Rightarrow> world" where
  "ping_retry c dst ident seq w =
     (if \<not> pg_done (ping_of c w) \<and> pg_start (ping_of c w) = 0
      then case net_ipv6_ping6_start c 0 dst ident seq w of
          (Inl e, w') \<Rightarrow>
            if e \<noteq> EAGAIN \<and> e \<noteq> EBUSY
            then net_ipv6_ping6_cancel c (upd_ping6 c (\<lambda>g. g\<lparr>pg_done := True, pg_ret := sys_err e\<rparr>) w')
            else w'
        | (Inr u, w') \<Rightarrow> w'
      else w)"

fun ping_wait :: "(world \<Rightarrow> world) list \<Rightarrow> nat \<Rightarrow> regs \<Rightarrow> u8 list \<Rightarrow> u16 \<Rightarrow> u16 \<Rightarrow> world \<Rightarrow> outcome" where
  "ping_wait [] c r dst ident seq w = Waiting"
| "ping_wait (poll # ps) c r dst ident seq w =
     (if \<not> pg_on (ping_of c w) then Back (tf_x (p_tf (k_procs (w_k w) ! c)) ! 0) r w
      else let w2 = poll (ping_retry c dst ident seq w); d = p_deadline (k_procs (w_k w2) ! c) in
        if pg_done (ping_of c w2) then ping_finish c r w2
        else if overdue d w2
        then ping_finish c r (net_ipv6_ping6_cancel c
          (upd_ping6 c (\<lambda>g. g\<lparr>pg_done := True, pg_ret := sys_err ETIMEDOUT, pg_rtt := 0\<rparr>) w2))
        else ping_wait ps c r dst ident seq w2)"

definition ping_arm :: "regs \<Rightarrow> u8 list \<Rightarrow> u16 \<Rightarrow> u16 \<Rightarrow> u64 \<Rightarrow> u64 \<Rightarrow> proc \<Rightarrow> proc" where
  "ping_arm r dst ident seq rtt_user deadline p =
     p\<lparr>p_tf := fst r, p_elr := snd r,
       p_ping6 := \<lparr>pg_on = True, pg_done = False, pg_ident = ident, pg_seq = seq, pg_dst = dst, pg_start = 0, pg_rtt = 0,
                   pg_rtt_user = rtt_user, pg_ret = 0\<rparr>,
       p_deadline := deadline, p_state := PROC_SLEEPING\<rparr>"

definition sys_mona_ping6 ::
  "(world \<Rightarrow> world) list \<Rightarrow> regs \<Rightarrow> u64 \<Rightarrow> u64 \<Rightarrow> u64 \<Rightarrow> u64 \<Rightarrow> u64 \<Rightarrow> world \<Rightarrow> outcome"
where
  "sys_mona_ping6 ps r dst_ip_user ident seq timeout_ms rtt_ns_user w =
     (let k = w_k w; c = k_cur k in
      if pg_on (p_ping6 (cur_proc k)) then Back (sys_err EBUSY) r w
      else case read_bytes_from_user k dst_ip_user 16 of
        None \<Rightarrow> Back (sys_err EFAULT) r w
      | Some dst \<Rightarrow>
          if rtt_ns_user \<noteq> 0 \<and> \<not> user_range_ok rtt_ns_user 8 then Back (sys_err EFAULT) r w
          else if w_ifs w = [] then Back (sys_err ENODEV) r w
          else let timeout_ns = (if timeout_ms * 1000000 = 0 then 1000000000 else timeout_ms * 1000000);
                   w1 = on_kernel (set_cur (ping_arm r dst (ucast ident) (ucast seq) rtt_ns_user
                          (deadline_after (w_now w) timeout_ns))) w
            in case net_ipv6_ping6_start c 0 dst (ucast ident) (ucast seq) w1 of
                 (Inl e, w2) \<Rightarrow>
                   if e \<noteq> EAGAIN \<and> e \<noteq> EBUSY
                   then Back (sys_err e) r (on_kernel (set_proc c (\<lambda>p. p\<lparr>p_ping6 := (p_ping6 p)\<lparr>pg_on := False\<rparr>,
                          p_state := PROC_RUNNABLE, p_deadline := 0\<rparr>)) w2)
                   else ping_wait ps c r dst (ucast ident) (ucast seq) w2
               | (Inr u, w2) \<Rightarrow> ping_wait ps c r dst (ucast ident) (ucast seq) w2)"

definition sys_mona_net6_get_dns :: "u64 \<Rightarrow> world \<Rightarrow> u64 \<times> world" where
  "sys_mona_net6_get_dns out_ip_user w =
     (if \<not> user_range_ok out_ip_user 16 then (sys_err EFAULT, w)
      else if w_ifs w = [] then (sys_err ENODEV, w)
      else if \<not> nf_dns_valid (the_nif 0 w) then (sys_err ENOENT, w)
      else case write_bytes_to_user (user_base (w_k w)) out_ip_user (nf_dns (the_nif 0 w)) (k_mem (w_k w)) of
        None \<Rightarrow> (sys_err EFAULT, w)
      | Some m \<Rightarrow> (0, on_kernel (\<lambda>k. k\<lparr>k_mem := m\<rparr>) w))"

subsection \<open>TCP\<close>

definition close_fd :: "u64 \<Rightarrow> kernel \<Rightarrow> kernel" where
  "close_fd fd k = (case fd_close (p_fdt (cur_proc k)) fd (k_fd k) of (t, s) \<Rightarrow> (set_fdt t k)\<lparr>k_fd := s\<rparr>)"

text \<open>An error other than \<open>EAGAIN\<close> ends the attempt.\<close>

definition connect_failed :: "unit res \<Rightarrow> errno option" where
  "connect_failed r = (case r of Inl e \<Rightarrow> if e = EAGAIN then None else Some e | Inr u \<Rightarrow> None)"

fun connect_wait :: "(world \<Rightarrow> world) list \<Rightarrow> regs \<Rightarrow> nat \<Rightarrow> u64 \<Rightarrow> u8 list \<Rightarrow> u16 \<Rightarrow> u64 \<Rightarrow> world \<Rightarrow> outcome" where
  "connect_wait [] r cid fd dst dst_port deadline w = Waiting"
| "connect_wait (poll # ps) r cid fd dst dst_port deadline w =
     (if net_tcp6_is_established cid (tcp_of w) then Back fd r w
      else case net_tcp6_connect_start cid dst dst_port w of (res, w1) \<Rightarrow>
        (case connect_failed res of
           Some e \<Rightarrow> Back (sys_err e) r (on_kernel (close_fd fd) w1)
         | None \<Rightarrow>
             let w2 = poll w1 in
             if overdue deadline w2 then Back (sys_err ETIMEDOUT) r (on_kernel (close_fd fd) w2)
             else connect_wait ps r cid fd dst dst_port deadline w2))"

text \<open>The deadline of a waiting call: none without a time-out or without a clock.\<close>

definition wait_deadline :: "u64 \<Rightarrow> u64 \<Rightarrow> u64" where
  "wait_deadline now timeout_ms =
     (if timeout_ms = 0 \<or> now = 0 then 0 else deadline_after now (timeout_ms * 1000000))"

definition tcp6_socket :: "kernel \<Rightarrow> (nat \<times> u64) res \<times> kernel" where
  "tcp6_socket k =
     (case net_tcp6_conn_alloc (fs_tcp (k_fd k)) of
        (Inl e, st) \<Rightarrow> (Inl e, k\<lparr>k_fd := (k_fd k)\<lparr>fs_tcp := st\<rparr>\<rparr>)
      | (Inr cid, st) \<Rightarrow>
          (case desc_alloc ((k_fd k)\<lparr>fs_tcp := st\<rparr>) of
             (None, s) \<Rightarrow> (Inl EMFILE, k\<lparr>k_fd := s\<lparr>fs_tcp := net_tcp6_on_desc_decref cid (fs_tcp s)\<rparr>\<rparr>)
           | (Some d, s) \<Rightarrow>
               (case sock_install d (FDESC_TCP6 cid) s k of (r, k') \<Rightarrow> (map_sum id (Pair cid) r, k'))))"

definition sys_mona_tcp6_connect ::
  "(world \<Rightarrow> world) list \<Rightarrow> regs \<Rightarrow> u64 \<Rightarrow> u64 \<Rightarrow> u64 \<Rightarrow> world \<Rightarrow> outcome"
where
  "sys_mona_tcp6_connect ps r dst_ip_user dst_port timeout_ms w =
     (if dst_port = 0 \<or> 65535 < dst_port then Back (sys_err EINVAL) r w
      else case read_bytes_from_user (w_k w) dst_ip_user 16 of
        None \<Rightarrow> Back (sys_err EFAULT) r w
      | Some dst \<Rightarrow>
          (case tcp6_socket (w_k w) of
             (Inl e, k) \<Rightarrow> Back (sys_err e) r (w\<lparr>w_k := k\<rparr>)
           | (Inr (cid, fd), k) \<Rightarrow>
               connect_wait ps r cid fd dst (ucast dst_port) (wait_deadline (w_now w) timeout_ms) (w\<lparr>w_k := k\<rparr>)))"

text \<open>The loop over chunks; an error of a later chunk is what the call returns.\<close>

function send_chunks :: "nat \<Rightarrow> u64 \<Rightarrow> nat \<Rightarrow> nat \<Rightarrow> world \<Rightarrow> u64 \<times> world" where
  "send_chunks cid buf_user len off w =
     (if len \<le> off then (word_of_nat off, w)
      else let chunk = min (len - off) 1200 in
        case read_bytes_from_user (w_k w) (buf_user + word_of_nat off) (word_of_nat chunk) of
          None \<Rightarrow> (sys_err EFAULT, w)
        | Some bs \<Rightarrow>
            (case net_tcp6_send cid bs w of
               (Inl e, w') \<Rightarrow> (sys_err e, w')
             | (Inr n, w') \<Rightarrow>
                 if n \<noteq> chunk then (word_of_nat (off + n), w') else send_chunks cid buf_user len (off + chunk) w'))"
  by pat_completeness auto

termination
  by (relation "measure (\<lambda>(cid, buf_user, len, off, w). len - off)") auto

declare send_chunks.simps [simp del]

definition sys_mona_tcp6_send :: "u64 \<Rightarrow> u64 \<Rightarrow> u64 \<Rightarrow> world \<Rightarrow> u64 \<times> world" where
  "sys_mona_tcp6_send fd buf_user len w =
     (if len \<noteq> 0 \<and> \<not> user_range_ok buf_user len then (sys_err EFAULT, w)
      else case get_tcp6_conn_id_from_fd fd (w_k w) of
        Inl e \<Rightarrow> (sys_err e, w)
      | Inr cid \<Rightarrow> send_chunks cid buf_user (unat len) 0 w)"

fun tcp6_recv_wait :: "(world \<Rightarrow> world) list \<Rightarrow> regs \<Rightarrow> nat \<Rightarrow> u64 \<Rightarrow> nat \<Rightarrow> u64 \<Rightarrow> world \<Rightarrow> outcome" where
  "tcp6_recv_wait [] r cid buf_user want deadline w = Waiting"
| "tcp6_recv_wait (poll # ps) r cid buf_user want deadline w =
     (case net_tcp6_try_recv cid want (tcp_of w) of
        (Inr bs, st) \<Rightarrow>
          (case (if bs = [] then Some (k_mem (w_k w)) else write_bytes_to_user (user_base (w_k w)) buf_user bs (k_mem (w_k w))) of
             None \<Rightarrow> Back (sys_err EFAULT) r (set_tcp st w)
           | Some m \<Rightarrow> Back (word_of_nat (length bs)) r (on_kernel (\<lambda>k. k\<lparr>k_mem := m\<rparr>) (set_tcp st w)))
      | (Inl e, st) \<Rightarrow>
          if e \<noteq> EAGAIN then Back (sys_err e) r w
          else let w2 = poll w in
            if overdue deadline w2 then Back (sys_err ETIMEDOUT) r w2
            else tcp6_recv_wait ps r cid buf_user want deadline w2)"

definition sys_mona_tcp6_recv ::
  "(world \<Rightarrow> world) list \<Rightarrow> regs \<Rightarrow> u64 \<Rightarrow> u64 \<Rightarrow> u64 \<Rightarrow> u64 \<Rightarrow> world \<Rightarrow> outcome"
where
  "sys_mona_tcp6_recv ps r fd buf_user len timeout_ms w =
     (if len \<noteq> 0 \<and> \<not> user_range_ok buf_user len then Back (sys_err EFAULT) r w
      else case get_tcp6_conn_id_from_fd fd (w_k w) of
        Inl e \<Rightarrow> Back (sys_err e) r w
      | Inr cid \<Rightarrow>
          tcp6_recv_wait ps r cid buf_user (min (unat len) 2048) (wait_deadline (w_now w) timeout_ms) w)"

end
