(* ===== verification/Syscalls.thy ===== *)
theory Syscalls
  imports SysNet Klog Vm
begin

text \<open>
  \<open>kernel-aarch64/exceptions.c\<close>: the entry of an exception from user code, the decoding of the
  system call number and its arguments, the call, and the way back: the result in \<open>x0\<close>, and a chance
  for another process to run.

  \<open>machine\<close> is everything the kernel keeps; \<open>env\<close> is what one exception sees of the outside: the
  counter, the observations of the scheduler, received frames.
\<close>

record machine =
  mc_w :: world
  mc_rand :: u64
  mc_klog :: klog
  mc_tty :: "u8 list"

record env =
  ev_cnt :: u64
  ev_usb :: "usb_net_debug option"
  ev_reads :: "(pass \<times> sched_in) list"
  ev_sched :: sched_in
  ev_net :: "world \<Rightarrow> world"
  ev_turns :: "turn list"
  ev_polls :: "(world \<Rightarrow> world) list"
  ev_tick :: bool
  ev_irq_rx :: string
  ev_last :: sched_in
  ev_last_net :: "world \<Rightarrow> world"

definition mc_k :: "machine \<Rightarrow> kernel" where
  "mc_k mc = w_k (mc_w mc)"

definition in_kernel :: "(kernel \<Rightarrow> kernel) \<Rightarrow> machine \<Rightarrow> machine" where
  "in_kernel f mc = mc\<lparr>mc_w := on_kernel f (mc_w mc)\<rparr>"

text \<open>What \<open>/proc/net\<close> shows: the interfaces, the USB device when there is one, the packet layer.\<close>

definition view_of :: "env \<Rightarrow> machine \<Rightarrow> net_view" where
  "view_of ev mc = \<lparr>nv_ifs = w_ifs (mc_w mc), nv_usb = ev_usb ev, nv_ipv6 = Some (w_dbg (mc_w mc))\<rparr>"

subsection \<open>Decoding\<close>

datatype own_call =
    Brk u64 | Mmap u64 u64 u64 u64 u64 | Munmap u64 u64 | Getpid | Getppid | Getuid | Geteuid | Getgid | Getegid | Gettid
  | Uname u64 | Clock_gettime u64 u64 | Set_tid_address u64 | Set_robust_list u64 u64 | Rt_sigaction u64 u64 u64 u64
  | Rt_sigprocmask u64 u64 u64 u64 | Prlimit64 u64 u64 u64 u64 | Getrandom u64 u64 u64 | Dmesg u64 u64 u64

datatype net_call =
    Ping6 u64 u64 u64 u64 u64 | Udp6_socket | Udp6_bind u64 u64 | Udp6_sendto u64 u64 u64 u64 u64
  | Udp6_recvfrom u64 u64 u64 u64 u64 u64 | Net6_get_dns u64 | Tcp6_connect u64 u64 u64 | Tcp6_send u64 u64 u64
  | Tcp6_recv u64 u64 u64 u64

datatype syscall =
    Fs fs_call | Task task_call | Own own_call | Net net_call | Nanosleep u64 u64 | Reboot u64 u64 u64 u64
  | Execve u64 u64 u64 | Nosys

text \<open>The switch over the number, with the argument registers each case passes on.\<close>

definition syscall_table :: "(nat \<Rightarrow> u64) \<Rightarrow> (u64 \<times> syscall) list" where
  "syscall_table a =
     [(17, Fs (Getcwd (a 0) (a 1))), (24, Fs (Dup3 (a 0) (a 1) (a 2))), (29, Fs (Ioctl (a 0) (a 1) (a 2))),
      (34, Fs (Mkdirat (a 0) (a 1) (a 2))), (35, Fs (Unlinkat (a 0) (a 1) (a 2))), (36, Fs (Symlinkat (a 0) (a 1) (a 2))),
      (37, Fs (Linkat (a 0) (a 1) (a 2) (a 3) (a 4))), (49, Fs (Chdir (a 0))), (53, Fs (Fchmodat (a 0) (a 1) (a 2) (a 3))),
      (56, Fs (Openat (a 0) (a 1) (a 2) (a 3))), (57, Fs (Close (a 0))), (59, Fs (Pipe2 (a 0) (a 1))),
      (61, Fs (Getdents (a 0) (a 1) (a 2))), (62, Fs (Lseek (a 0) (a 1) (a 2))), (63, Fs (Read (a 0) (a 1) (a 2))),
      (64, Fs (Write (a 0) (a 1) (a 2))), (78, Fs (Readlinkat (a 0) (a 1) (a 2) (a 3))),
      (79, Fs (Newfstatat (a 0) (a 1) (a 2) (a 3))), (93, Task (Exit (a 0))), (94, Task (Exit (a 0))),
      (96, Own (Set_tid_address (a 0))), (99, Own (Set_robust_list (a 0) (a 1))), (101, Nanosleep (a 0) (a 1)),
      (113, Own (Clock_gettime (a 0) (a 1))), (129, Task (Kill (a 0) (a 1))),
      (134, Own (Rt_sigaction (a 0) (a 1) (a 2) (a 3))), (135, Own (Rt_sigprocmask (a 0) (a 1) (a 2) (a 3))),
      (142, Reboot (a 0) (a 1) (a 2) (a 3)), (160, Own (Uname (a 0))), (172, Own Getpid), (173, Own Getppid),
      (174, Own Getuid), (175, Own Geteuid), (176, Own Getgid), (177, Own Getegid), (178, Own Gettid),
      (214, Own (Brk (a 0))), (215, Own (Munmap (a 0) (a 1))), (220, Task (Clone (a 0))),
      (221, Execve (a 0) (a 1) (a 2)), (222, Own (Mmap (a 0) (a 1) (a 3) (a 4) (a 5))), (260, Task (Wait4 (a 0) (a 1) (a 2))),
      (261, Own (Prlimit64 (a 0) (a 1) (a 2) (a 3))), (278, Own (Getrandom (a 0) (a 1) (a 2))),
      (4096, Own (Dmesg (a 0) (a 1) (a 2))), (4097, Net (Ping6 (a 0) (a 1) (a 2) (a 3) (a 4))), (4098, Net Udp6_socket),
      (4099, Net (Udp6_bind (a 0) (a 1))), (4100, Net (Udp6_sendto (a 0) (a 1) (a 2) (a 3) (a 4))),
      (4101, Net (Udp6_recvfrom (a 0) (a 1) (a 2) (a 3) (a 4) (a 5))), (4102, Net (Net6_get_dns (a 0))),
      (4103, Net (Tcp6_connect (a 0) (a 1) (a 2))), (4104, Net (Tcp6_send (a 0) (a 1) (a 2))),
      (4105, Net (Tcp6_recv (a 0) (a 1) (a 2) (a 3)))]"

definition decode :: "trap_frame \<Rightarrow> syscall" where
  "decode tf = (case map_of (syscall_table (\<lambda>i. tf_x tf ! i)) (tf_x tf ! 8) of None \<Rightarrow> Nosys | Some c \<Rightarrow> c)"

subsection \<open>The calls\<close>

datatype reply = Halted u32 | Hangs | Reply u64 regs machine

text \<open>A call that may have run the scheduler: \<open>ev_net\<close> is what arrived meanwhile.\<close>

definition from_kernel :: "env \<Rightarrow> sys_outcome \<Rightarrow> machine \<Rightarrow> reply" where
  "from_kernel ev out mc =
     (case out of
        Poweroff c \<Rightarrow> Halted c
      | Waits \<Rightarrow> Hangs
      | Returns x r k \<Rightarrow> Reply x r (mc\<lparr>mc_w := ev_net ev ((mc_w mc)\<lparr>w_k := k\<rparr>)\<rparr>))"

definition from_world :: "outcome \<Rightarrow> machine \<Rightarrow> reply" where
  "from_world out mc =
     (case out of Off c \<Rightarrow> Halted c | Waiting \<Rightarrow> Hangs | Back x r w \<Rightarrow> Reply x r (mc\<lparr>mc_w := w\<rparr>))"

text \<open>File system calls other than \<open>read\<close> and \<open>write\<close>.\<close>

fun fs_reply :: "fs_call \<Rightarrow> kernel \<Rightarrow> u64 \<times> kernel" where
  "fs_reply (Openat d u fl m) k = sys_openat d u fl m k"
| "fs_reply (Close fd) k = sys_close fd k"
| "fs_reply (Getdents fd u n) k = sys_getdents64 fd u n k"
| "fs_reply (Lseek fd off w) k = sys_lseek fd off w k"
| "fs_reply (Dup3 fd fd' fl) k = sys_dup3 fd fd' fl k"
| "fs_reply (Pipe2 u fl) k = sys_pipe2 u fl k"
| "fs_reply (Ioctl fd rq u) k = sys_ioctl fd rq u k"
| "fs_reply (Getcwd u n) k = sys_getcwd u n k"
| "fs_reply (Chdir u) k = sys_chdir u k"
| "fs_reply (Symlinkat t d u) k = sys_symlinkat t d u k"
| "fs_reply (Mkdirat d u m) k = sys_mkdirat d u m k"
| "fs_reply (Linkat d u d' u' fl) k = sys_linkat d u d' u' fl k"
| "fs_reply (Newfstatat d u u' fl) k = sys_newfstatat d u u' fl k"
| "fs_reply (Fchmodat d u m fl) k = sys_fchmodat d u m fl k"
| "fs_reply (Readlinkat d u u' n) k = sys_readlinkat d u u' n k"
| "fs_reply (Unlinkat d u fl) k = sys_unlinkat d u fl k"
| "fs_reply c k = (0, k)"

definition with_kernel :: "regs \<Rightarrow> (kernel \<Rightarrow> u64 \<times> kernel) \<Rightarrow> machine \<Rightarrow> reply" where
  "with_kernel r f mc = (case f (mc_k mc) of (x, k) \<Rightarrow> Reply x r (in_kernel (\<lambda>_. k) mc))"

definition with_world :: "regs \<Rightarrow> (world \<Rightarrow> u64 \<times> world) \<Rightarrow> machine \<Rightarrow> reply" where
  "with_world r f mc = (case f (mc_w mc) of (x, w) \<Rightarrow> Reply x r (mc\<lparr>mc_w := w\<rparr>))"

fun do_fs :: "env \<Rightarrow> regs \<Rightarrow> fs_call \<Rightarrow> machine \<Rightarrow> reply" where
  "do_fs ev r (Read fd u n) mc = from_kernel ev (sys_read (view_of ev mc) (ev_reads ev) r fd u n (mc_k mc)) mc"
| "do_fs ev r (Write fd u n) mc =
     (case sys_write fd u n (mc_k mc) of
        (x, bs, k) \<Rightarrow> Reply x r (in_kernel (\<lambda>_. k) (mc\<lparr>mc_tty := mc_tty mc @ bs\<rparr>)))"
| "do_fs ev r c mc = with_kernel r (fs_reply c) mc"

definition on_proc :: "(proc \<Rightarrow> u64 \<times> proc) \<Rightarrow> kernel \<Rightarrow> u64 \<times> kernel" where
  "on_proc f k = (case f (cur_proc k) of (x, p) \<Rightarrow> (x, set_cur (\<lambda>_. p) k))"

text \<open>\<open>mmap\<close> and \<open>munmap\<close> contain loops that can fail to end.\<close>

definition with_proc :: "regs \<Rightarrow> (proc \<Rightarrow> (u64 \<times> proc) option) \<Rightarrow> machine \<Rightarrow> reply" where
  "with_proc r f mc =
     (case f (cur_proc (mc_k mc)) of None \<Rightarrow> Hangs | Some (x, p) \<Rightarrow> Reply x r (in_kernel (set_cur (\<lambda>_. p)) mc))"

fun do_own :: "env \<Rightarrow> regs \<Rightarrow> own_call \<Rightarrow> machine \<Rightarrow> reply" where
  "do_own ev r (Brk a) mc = with_kernel r (on_proc (sys_brk a)) mc"
| "do_own ev r (Mmap addr len flags fd off) mc = with_proc r (sys_mmap addr len flags fd off) mc"
| "do_own ev r (Munmap addr len) mc = with_proc r (sys_munmap addr len) mc"
| "do_own ev r Getpid mc = Reply (p_pid (cur_proc (mc_k mc))) r mc"
| "do_own ev r Getppid mc = Reply (p_ppid (cur_proc (mc_k mc))) r mc"
| "do_own ev r Getuid mc = Reply sys_getuid r mc"
| "do_own ev r Geteuid mc = Reply sys_geteuid r mc"
| "do_own ev r Getgid mc = Reply sys_getgid r mc"
| "do_own ev r Getegid mc = Reply sys_getegid r mc"
| "do_own ev r Gettid mc = Reply (sys_gettid (mc_k mc)) r mc"
| "do_own ev r (Uname u) mc = with_kernel r (sys_uname u) mc"
| "do_own ev r (Clock_gettime c u) mc = with_kernel r (sys_clock_gettime (ev_cnt ev) c u) mc"
| "do_own ev r (Set_tid_address u) mc = with_kernel r (sys_set_tid_address u) mc"
| "do_own ev r (Set_robust_list u n) mc = Reply (sys_set_robust_list u n) r mc"
| "do_own ev r (Rt_sigaction s a u n) mc = with_kernel r (sys_rt_sigaction s a u n) mc"
| "do_own ev r (Rt_sigprocmask h s u n) mc = with_kernel r (sys_rt_sigprocmask h s u n) mc"
| "do_own ev r (Prlimit64 p s u u') mc = with_kernel r (sys_prlimit64 p s u u') mc"
| "do_own ev r (Getrandom u n fl) mc =
     (case sys_getrandom u n fl (mc_rand mc) (mc_k mc) of
        (x, s, k) \<Rightarrow> Reply x r (in_kernel (\<lambda>_. k) (mc\<lparr>mc_rand := s\<rparr>)))"
| "do_own ev r (Dmesg u n fl) mc =
     (case sys_mona_dmesg u n fl (user_base (mc_k mc)) (k_mem (mc_k mc)) (mc_klog mc) of
        (x, m, kl) \<Rightarrow> Reply x r (in_kernel (\<lambda>k. k\<lparr>k_mem := m\<rparr>) (mc\<lparr>mc_klog := kl\<rparr>)))"

fun do_net :: "env \<Rightarrow> regs \<Rightarrow> net_call \<Rightarrow> machine \<Rightarrow> reply" where
  "do_net ev r (Ping6 d i s t u) mc = from_world (sys_mona_ping6 (ev_polls ev) r d i s t u (mc_w mc)) mc"
| "do_net ev r Udp6_socket mc = with_kernel r sys_mona_udp6_socket mc"
| "do_net ev r (Udp6_bind fd p) mc = with_kernel r (sys_mona_udp6_bind fd p) mc"
| "do_net ev r (Udp6_sendto fd d p u n) mc = with_world r (sys_mona_udp6_sendto fd d p u n) mc"
| "do_net ev r (Udp6_recvfrom fd u n s p t) mc =
     from_world (sys_mona_udp6_recvfrom (ev_turns ev) r fd u n s p t (mc_w mc)) mc"
| "do_net ev r (Net6_get_dns u) mc = with_world r (sys_mona_net6_get_dns u) mc"
| "do_net ev r (Tcp6_connect d p t) mc = from_world (sys_mona_tcp6_connect (ev_polls ev) r d p t (mc_w mc)) mc"
| "do_net ev r (Tcp6_send fd u n) mc = with_world r (sys_mona_tcp6_send fd u n) mc"
| "do_net ev r (Tcp6_recv fd u n t) mc = from_world (sys_mona_tcp6_recv (ev_polls ev) r fd u n t (mc_w mc)) mc"

fun do_syscall :: "env \<Rightarrow> regs \<Rightarrow> syscall \<Rightarrow> machine \<Rightarrow> reply" where
  "do_syscall ev r (Fs c) mc = do_fs ev r c mc"
| "do_syscall ev r (Task c) mc = from_kernel ev (do_call (ev_sched ev) r c (mc_k mc)) mc"
| "do_syscall ev r (Own c) mc = do_own ev r c mc"
| "do_syscall ev r (Net c) mc = do_net ev r c mc"
| "do_syscall ev r (Nanosleep u u') mc = from_kernel ev (sys_nanosleep (ev_sched ev) (ev_cnt ev) r u u' (mc_k mc)) mc"
| "do_syscall ev r (Reboot m1 m2 c a) mc = from_kernel ev (sys_reboot m1 m2 c a r (mc_k mc)) mc"
| "do_syscall ev r (Execve p av en) mc =
     (case sys_execve r p av en (mc_k mc) of (x, r', k) \<Rightarrow> Reply x r' (in_kernel (\<lambda>_. k) mc))"
| "do_syscall ev r Nosys mc = Reply (sys_err ENOSYS) r mc"

subsection \<open>The exception\<close>

text \<open>How an exception ends: back to user code, unhandled (the caller stops the machine), power off.\<close>

datatype trap_result = To_user regs machine | Unhandled | Power_off u32 | Stuck

definition enter :: "regs \<Rightarrow> proc \<Rightarrow> proc" where
  "enter r p =
     p\<lparr>p_elr := snd r, p_tf := fst r,
       p_stack_low := (if p_stack_low p = 0 \<or> tf_sp_el0 (fst r) < p_stack_low p then tf_sp_el0 (fst r) else p_stack_low p)\<rparr>"

text \<open>The calls that may come back on another process.\<close>

fun may_switch :: "syscall \<Rightarrow> bool" where
  "may_switch (Fs c) = (case c of Read fd u n \<Rightarrow> True | _ \<Rightarrow> False)"
| "may_switch (Task c) = (case c of Kill p s \<Rightarrow> True | Wait4 p u n \<Rightarrow> True | _ \<Rightarrow> False)"
| "may_switch (Net c) =
     (case c of Ping6 d i s t u \<Rightarrow> True | Udp6_recvfrom fd u n s p t \<Rightarrow> True | _ \<Rightarrow> False)"
| "may_switch (Nanosleep u u') = True"
| "may_switch c = False"

definition save_frame :: "regs \<Rightarrow> bool \<Rightarrow> proc \<Rightarrow> proc" where
  "save_frame r elr p = p\<lparr>p_tf := fst r, p_elr := (if elr then snd r else p_elr p)\<rparr>"

definition leave :: "env \<Rightarrow> bool \<Rightarrow> u64 \<Rightarrow> regs \<Rightarrow> machine \<Rightarrow> trap_result" where
  "leave ev fresh x r mc =
     (let r1 = (if fresh then r else ((fst r)\<lparr>tf_x := (tf_x (fst r))[0 := x]\<rparr>, snd r));
          mc1 = in_kernel (set_cur (save_frame r1 (\<not> fresh))) mc; e = ev_last ev
      in case sched_maybe_switch (si_usb e) (si_obs e) (si_cnt1 e) (si_cnt2 e) r1 (mc_k mc1) of
           None \<Rightarrow> Stuck
         | Some (r2, k) \<Rightarrow> To_user r2 (mc1\<lparr>mc_w := ev_last_net ev ((mc_w mc1)\<lparr>w_k := k\<rparr>)\<rparr>))"

definition finish_call :: "env \<Rightarrow> syscall \<Rightarrow> u64 \<Rightarrow> regs \<Rightarrow> machine \<Rightarrow> trap_result" where
  "finish_call ev c x r mc =
     (case c of
        Task (Exit code) \<Rightarrow> if x \<noteq> 0 then To_user r mc else Unhandled
      | Execve p av en \<Rightarrow> leave ev (x = 0) x r mc
      | _ \<Rightarrow>
          if may_switch c \<and> x = SYSCALL_SWITCHED
          then To_user r (in_kernel (set_cur (\<lambda>p. p\<lparr>p_tf := fst r\<rparr>)) mc)
          else leave ev False x r mc)"

text \<open>\<open>kind\<close> 5 is an interrupt while the kernel waits: the timer, what the USB devices have received
(\<open>ev_net\<close> for packets) and the UART. \<open>kind\<close> 8 is a synchronous exception from user code.\<close>

definition exception_handle :: "env \<Rightarrow> u64 \<Rightarrow> regs \<Rightarrow> machine \<Rightarrow> trap_result" where
  "exception_handle ev kind r mc =
     (if kind = 5
      then let mc1 = in_kernel (irq_handle (si_usb (ev_sched ev)) (ev_tick ev) (ev_irq_rx ev)) mc
        in To_user r (mc1\<lparr>mc_w := ev_net ev (mc_w mc1)\<rparr>)
      else if kind \<noteq> 8 then Unhandled
      else let c = decode (fst r) in
        case do_syscall ev r c (in_kernel (set_cur (enter r)) mc) of
          Halted code \<Rightarrow> Power_off code
        | Hangs \<Rightarrow> Stuck
        | Reply x r' mc' \<Rightarrow> finish_call ev c x r' mc')"

end
