(* ===== verification/KernelOk.thy ===== *)
theory KernelOk
  imports Syscalls
begin

text \<open>
  The invariant of the kernel record as a whole, \<open>kernel_ok\<close>: processes own disjoint memory, every
  reference count is exact, the file system is a tree, sockets and connections are well formed, and
  the running process is alive. This theory shows that every system call keeps it that does not
  itself work on packets; theory \<open>MachineOk\<close> adds those and the exception handler around them.
\<close>

subsection \<open>Sockets and connections\<close>

definition socks_ok :: "fd_state \<Rightarrow> bool" where
  "socks_ok s \<longleftrightarrow> length (tt_conns (fs_tcp s)) = TCP6_MAX_CONNS \<and> list_all conn_ok (tt_conns (fs_tcp s)) \<and>
     udp6_ok (fs_udp s)"

lemma conn_ok_refs [simp]:
  "conn_ok (tcp6_conn_incref c) = conn_ok c" "conn_ok (tcp6_conn_decref c) = conn_ok c"
  by (simp_all add: conn_ok_def tcp6_conn_incref_def tcp6_conn_decref_def)

lemma conn_ok_reset: "conn_ok c \<Longrightarrow> conn_ok (tcp6_conn_reset u r c)"
  by (simp add: conn_ok_def tcp6_conn_reset_def)

lemma conns_upd: "list_all conn_ok cs \<Longrightarrow> (\<And>c. conn_ok c \<Longrightarrow> conn_ok (f c)) \<Longrightarrow> list_all conn_ok (upd_at i f cs)"
  by (auto simp: list_all_length nth_upd_at)

lemma socks_ok_frame [simp]:
  "socks_ok (s\<lparr>fs_descs := ds\<rparr>) = socks_ok s" "socks_ok (s\<lparr>fs_pipes := ps\<rparr>) = socks_ok s"
  by (simp_all add: socks_ok_def)

lemma socks_ok_udp: "socks_ok s \<Longrightarrow> udp6_ok u \<Longrightarrow> socks_ok (s\<lparr>fs_udp := u\<rparr>)"
  by (simp add: socks_ok_def)

lemma socks_ok_tcp:
  "socks_ok s \<Longrightarrow> socks_ok (s\<lparr>fs_tcp := net_tcp6_on_desc_incref c (fs_tcp s)\<rparr>)"
  "socks_ok s \<Longrightarrow> socks_ok (s\<lparr>fs_tcp := net_tcp6_on_desc_decref c (fs_tcp s)\<rparr>)"
  "socks_ok s \<Longrightarrow> socks_ok (s\<lparr>fs_tcp := snd (net_tcp6_conn_alloc (fs_tcp s))\<rparr>)"
  by (auto simp: socks_ok_def net_tcp6_on_desc_incref_def net_tcp6_on_desc_decref_def net_tcp6_conn_alloc_def
      intro!: conns_upd conn_ok_reset split: option.split)

lemma socks_ok_hook:
  assumes "socks_ok s"
  shows "socks_ok (hook_incref kd s)" and "socks_ok (hook_decref kd s)"
  using assms socks_ok_tcp [OF assms] udp6_on_incref_ok udp6_on_decref_ok
  by (auto simp: hook_incref_def hook_decref_def socks_ok_udp socks_ok_def split: fdesc.split)

lemma socks_ok_desc [simp]:
  assumes "socks_ok s"
  shows "socks_ok (desc_incref d s)" and "socks_ok (desc_decref d s)" and "socks_ok (desc_setup d kd s)"
    and "socks_ok (desc_clear d s)" and "socks_ok (snd (desc_alloc s))" and "socks_ok (pipe_desc d pid e s)"
  using assms by (auto simp: desc_incref_def desc_decref_def desc_setup_def desc_clear_def desc_alloc_def pipe_desc_def
      Let_def socks_ok_hook split: option.split)

lemma socks_ok_alloc [simp]: "socks_ok s \<Longrightarrow> socks_ok (snd (snd (fd_alloc_into t n d s)))"
  by (simp add: fd_alloc_into_def split: option.split)

lemma socks_ok_close [simp]:
  "socks_ok s \<Longrightarrow> socks_ok (snd (fd_close t fd s))" "socks_ok (snd ts) \<Longrightarrow> socks_ok (snd (close_opt fdo ts))"
proof -
  show c: "socks_ok s \<Longrightarrow> socks_ok (snd (fd_close t fd s))" for t fd s
    by (simp add: fd_close_def split: option.split)
  show "socks_ok (snd ts) \<Longrightarrow> socks_ok (snd (close_opt fdo ts))"
    by (simp add: close_opt_def c split: option.split)
qed

lemma fold_snd: "(\<And>x s. P (snd s) \<Longrightarrow> P (snd (f x s))) \<Longrightarrow> P (snd s) \<Longrightarrow> P (snd (fold f xs s))"
  by (induction xs arbitrary: s) simp_all

lemma socks_ok_tables [simp]:
  "socks_ok s \<Longrightarrow> socks_ok (snd (close_all_fds t s))" "socks_ok (snd ts) \<Longrightarrow> socks_ok (snd (inherit_fds p ts))"
proof -
  show "socks_ok s \<Longrightarrow> socks_ok (snd (close_all_fds t s))"
    unfolding close_all_fds_def by (rule fold_snd) (simp_all add: split_beta)
  show "socks_ok (snd ts) \<Longrightarrow> socks_ok (snd (inherit_fds p ts))"
    unfolding inherit_fds_def by (rule fold_snd) (simp_all add: inherit_fd_def split_beta split: option.split)
qed

subsection \<open>Where processes live\<close>

definition life :: "proc \<Rightarrow> u64 \<times> u64 \<times> proc_state" where
  "life p = (p_user_pa p, p_ttbr0 p, p_state p)"

definition layout :: "kernel \<Rightarrow> (u64 \<times> u64 \<times> proc_state) list \<times> pmm \<times> mmu \<times> (u64 \<Rightarrow> u64) \<times> nat \<times> nat" where
  "layout k = (map life (k_procs k), k_pmm k, k_mmu k, k_user_of k, k_cur k, k_last_sched k)"

lemma layout_frame [simp]:
  "layout (k\<lparr>k_mem := m\<rparr>) = layout k" "layout (k\<lparr>k_fd := s\<rparr>) = layout k" "layout (k\<lparr>k_vfs := v\<rparr>) = layout k"
  "layout (k\<lparr>k_con := c\<rparr>) = layout k" "layout (k\<lparr>k_timer := t\<rparr>) = layout k"
  by (simp_all add: layout_def)

lemma map_set_proc:
  "g (f (k_procs k ! i)) = g (k_procs k ! i) \<Longrightarrow> map g (k_procs (set_proc i f k)) = map g (k_procs k)"
  by (cases "i < length (k_procs k)") (simp_all add: set_proc_def upd_at_def map_update list_update_same_conv list_update_beyond)

lemma layout_set_proc: "(\<And>p. life (f p) = life p) \<Longrightarrow> layout (set_proc i f k) = layout k"
  by (simp add: layout_def map_set_proc)

lemma layout_set_cur: "(\<And>p. life (f p) = life p) \<Longrightarrow> layout (set_cur f k) = layout k"
  by (simp add: set_cur_def layout_set_proc)

lemma layout_kind [simp]: "layout (set_kind d kd k) = layout k" "layout (set_fdt t k) = layout k" "layout (put_user u bs k) = layout k"
  by (simp_all add: set_kind_def set_fdt_def put_user_def layout_set_cur life_def)

definition may_run :: "proc_state \<Rightarrow> bool" where
  "may_run s \<longleftrightarrow> s \<noteq> PROC_UNUSED \<and> s \<noteq> PROC_ZOMBIE"

lemma may_run_simps [simp]:
  "may_run PROC_RUNNABLE" "may_run PROC_SLEEPING" "may_run PROC_BLOCKED_IO" "may_run PROC_WAITING"
  "\<not> may_run PROC_UNUSED" "\<not> may_run PROC_ZOMBIE"
  by (simp_all add: may_run_def)

lemma set_x0_state [simp]: "p_state (set_x0 v p) = p_state p"
  by (simp add: set_x0_def)

text \<open>Between two steps of a call the running process may be in any state.\<close>

definition base_ok :: "kernel \<Rightarrow> bool" where
  "base_ok k \<longleftrightarrow> task_ok k \<and> fs_tree k \<and> socks_ok (k_fd k)"

definition kernel_ok :: "kernel \<Rightarrow> bool" where
  "kernel_ok k \<longleftrightarrow> task_ok k \<and> fs_tree k \<and> socks_ok (k_fd k) \<and> may_run (p_state (cur_proc k))"

lemma kernel_ok_base: "kernel_ok k \<longleftrightarrow> base_ok k \<and> may_run (p_state (cur_proc k))"
  by (auto simp: kernel_ok_def base_ok_def)

lemma layout_life:
  assumes "layout k' = layout k"
  shows "length (k_procs k') = length (k_procs k)" and "i < length (k_procs k) \<Longrightarrow> life (k_procs k' ! i) = life (k_procs k ! i)"
proof -
  have m: "map life (k_procs k') = map life (k_procs k)" using assms by (simp add: layout_def)
  then show l: "length (k_procs k') = length (k_procs k)" by (rule map_eq_imp_length_eq)
  show "i < length (k_procs k) \<Longrightarrow> life (k_procs k' ! i) = life (k_procs k ! i)"
    using arg_cong [OF m, of "\<lambda>xs. xs ! i"] l by simp
qed

lemma kernel_ok_layout:
  assumes ok: "kernel_ok k" and l: "layout k' = layout k" and "fds_exact k'" and "fs_tree k'" and "socks_ok (k_fd k')"
  shows "kernel_ok k'"
proof -
  note ll = layout_life [OF l]
  have t: "task_ok k" using ok by (simp add: kernel_ok_def)
  have f: "k_pmm k' = k_pmm k" "k_mmu k' = k_mmu k" "k_user_of k' = k_user_of k" "k_cur k' = k_cur k" "k_last_sched k' = k_last_sched k"
    using l by (simp_all add: layout_def)
  have "list_all2 same_mem (k_procs k) (k_procs k')"
    using ll by (auto simp: list_all2_conv_all_nth same_mem_def life_def)
  then have "mem_ok k'"
    using t mem_inv_cong [OF _ _ f(1-3)] unfolding task_ok_def mem_ok_def by blast
  then have "task_ok k'" using t assms(3) f ll(1) by (simp add: task_ok_def sched_ok_def)
  moreover have "k_cur k < length (k_procs k)" using t by (simp add: task_ok_def sched_ok_def)
  then have "p_state (cur_proc k') = p_state (cur_proc k)"
    using ll(2) [of "k_cur k"] f by (simp add: cur_proc_def life_def)
  ultimately show ?thesis using ok assms(4,5) by (simp add: kernel_ok_def)
qed

lemma kernel_ok_fd: "kernel_ok k \<Longrightarrow> fd_task k"
  by (auto simp: kernel_ok_def task_ok_def fd_task_def may_run_def)

text \<open>Changes that touch neither files nor the place of a process.\<close>

definition calm :: "kernel \<Rightarrow> kernel \<Rightarrow> bool" where
  "calm k k' \<longleftrightarrow> layout k' = layout k \<and> map p_fdt (k_procs k') = map p_fdt (k_procs k) \<and> k_fd k' = k_fd k \<and>
     k_vfs k' = k_vfs k \<and> k_archive k' = k_archive k"

lemma kernel_ok_calm:
  assumes ok: "kernel_ok k" and c: "calm k k'"
  shows "kernel_ok k'"
proof (rule kernel_ok_layout [OF ok])
  show l: "layout k' = layout k" using c by (simp add: calm_def)
  note ll = layout_life [OF l]
  have ex: "fds_exact k" using ok by (simp add: kernel_ok_def task_ok_def)
  then have len: "length (k_procs k) = MAX_PROCS" by (simp add: fds_exact_def)
  have m: "map p_fdt (k_procs k') = map p_fdt (k_procs k)" using c by (simp add: calm_def)
  have t: "p_fdt (k_procs k' ! i) = p_fdt (k_procs k ! i)" if "i < MAX_PROCS" for i
    using arg_cong [OF m, of "\<lambda>xs. xs ! i"] that len ll(1) by simp
  show "fds_exact k'"
  proof (rule fds_exact_cong [OF ex])
    show "p_fdt (k_procs k ! i) = replicate MAX_FDS None" if "i < MAX_PROCS" "p_state (k_procs k' ! i) = PROC_UNUSED" for i
      using ll(2) [of i] that len fds_exact_unused [OF ex] by (simp add: life_def)
  qed (use len ll(1) t c in \<open>simp_all add: calm_def\<close>)
  show "fs_tree k'" using ok c by (simp add: kernel_ok_def fs_tree_def calm_def)
  show "socks_ok (k_fd k')" using ok c by (simp add: kernel_ok_def calm_def)
qed

lemma calm_refl [simp]: "calm k k"
  by (simp add: calm_def)

lemma calm_trans: "calm k k' \<Longrightarrow> calm k' k'' \<Longrightarrow> calm k k''"
  by (simp add: calm_def)

lemma calm_mem [simp]: "calm k (k\<lparr>k_mem := m\<rparr>)" "calm k (put_user u bs k)"
  by (simp_all add: calm_def put_user_def)

lemma calm_set_proc:
  "life (f (k_procs k ! i)) = life (k_procs k ! i) \<Longrightarrow> p_fdt (f (k_procs k ! i)) = p_fdt (k_procs k ! i) \<Longrightarrow> calm k (set_proc i f k)"
  by (simp add: calm_def layout_def map_set_proc)

lemma calm_set_cur: "life (f (cur_proc k)) = life (cur_proc k) \<Longrightarrow> p_fdt (f (cur_proc k)) = p_fdt (cur_proc k) \<Longrightarrow> calm k (set_cur f k)"
  by (simp add: set_cur_def cur_proc_def calm_set_proc)

subsection \<open>Calls on the process itself\<close>

lemma mm_init_calm [simp]: "life (mm_init p) = life p" "p_fdt (mm_init p) = p_fdt p"
  by (simp_all add: mm_init_def life_def Let_def)

lemma vma_put_calm [simp]: "life (vma_put i b l p) = life p" "p_fdt (vma_put i b l p) = p_fdt p"
  by (simp_all add: vma_put_def life_def)

lemma life_mmap_next [simp]:
  "life (p\<lparr>p_mmap_next := x\<rparr>) = life p" "life (p\<lparr>p_vmas := vs\<rparr>) = life p" "life (p\<lparr>p_heap_end := x\<rparr>) = life p"
  by (simp_all add: life_def)

lemma brk_calm: "sys_brk a p = (x, q) \<Longrightarrow> life q = life p \<and> p_fdt q = p_fdt p"
  by (auto simp: sys_brk_def Let_def split: if_splits)

lemma mmap_scan_result:
  assumes "mmap_scan hi alen p = Some r"
  shows "life (snd r) = life p \<and> p_fdt (snd r) = p_fdt p"
proof (rule mmap_scan.raw_induct [OF _ assms])
  fix f hi alen p and r :: "u64 \<times> proc"
  assume ih: "\<And>hi alen p r. f hi alen p = Some r \<Longrightarrow> life (snd r) = life p \<and> p_fdt (snd r) = p_fdt p"
    and r: "(if hi < USER_REGION_BASE + alen then Some (sys_err ENOMEM, p)
      else let base = align_down_u64 (hi - alen) PAGE
        in if base < heap_limit p + HEAP_GUARD then Some (sys_err ENOMEM, p)
        else case vma_overlaps (p_vmas p) base alen of
          Some ovb \<Rightarrow> f (align_down_u64 ovb PAGE) alen p
        | None \<Rightarrow>
            (case vma_slot (p_vmas p) of
               None \<Rightarrow> Some (sys_err ENOMEM, p)
             | Some i \<Rightarrow> Some (base, (vma_put i base alen p)\<lparr>p_mmap_next := base\<rparr>))) = Some r"
  show "life (snd r) = life p \<and> p_fdt (snd r) = p_fdt p"
    using r ih [of _ alen p r] by (auto simp: Let_def split: if_splits option.splits)
qed

lemma mmap_scan_calm: "mmap_scan hi alen p = Some (x, q) \<Longrightarrow> life q = life p \<and> p_fdt q = p_fdt p"
  using mmap_scan_result by fastforce

lemma mmap_calm: "sys_mmap addr len fl fd off p = Some (x, q) \<Longrightarrow> life q = life p \<and> p_fdt q = p_fdt p"
  by (auto simp: sys_mmap_def Let_def mmap_hint_def dest: mmap_scan_calm split: if_splits option.splits)

lemma munmap_calm: "sys_munmap addr len p = Some (x, q) \<Longrightarrow> life q = life p \<and> p_fdt q = p_fdt p"
  by (auto simp: sys_munmap_def Let_def split: if_splits sum.splits)

lemma misc_calm:
  "calm k (snd (sys_set_tid_address u k))" "calm k (snd (snd (sys_getrandom u n fl s k)))"
  "calm k (snd (sys_prlimit64 pid rs u u' k))" "calm k (snd (sys_rt_sigprocmask h u u' n k))"
  "calm k (snd (sys_rt_sigaction sg u u' n k))" "calm k (snd (sys_uname u k))" "calm k (snd (sys_clock_gettime cnt c u k))"
  by (auto simp: sys_set_tid_address_def sys_getrandom_def sys_prlimit64_def sys_rt_sigprocmask_def sys_rt_sigaction_def
      sys_uname_def sys_clock_gettime_def Let_def life_def intro!: calm_set_cur split: prod.split option.split)

lemma execve_calm: "calm k (snd (snd (sys_execve r p av en k)))"
  by (auto simp: sys_execve_def life_def set_cur_def intro!: calm_trans [OF calm_mem(1) calm_set_proc] split: sum.split prod.split)

subsection \<open>File system calls\<close>

lemma vfs_done_fields [simp]: "layout (snd (vfs_done rv k)) = layout k" "k_fd (snd (vfs_done rv k)) = k_fd k"
  by (auto simp: vfs_done_def split: prod.split sum.split)

lemma symlink_fields [simp]:
  "layout (snd (fill_symlink a l t k)) = layout k" "k_fd (snd (fill_symlink a l t k)) = k_fd k"
  by (auto simp: fill_symlink_def Let_def split: prod.split sum.split)

lemma name_calls_fields:
  "layout (snd (sys_getcwd u n k)) = layout k" "k_fd (snd (sys_getcwd u n k)) = k_fd k"
  "layout (snd (sys_chdir u k)) = layout k" "k_fd (snd (sys_chdir u k)) = k_fd k"
  "layout (snd (sys_symlinkat t d u k)) = layout k" "k_fd (snd (sys_symlinkat t d u k)) = k_fd k"
  "layout (snd (sys_mkdirat d u m k)) = layout k" "k_fd (snd (sys_mkdirat d u m k)) = k_fd k"
  "layout (snd (sys_linkat d u d' u' fl k)) = layout k" "k_fd (snd (sys_linkat d u d' u' fl k)) = k_fd k"
  "layout (snd (sys_newfstatat d u u' fl k)) = layout k" "k_fd (snd (sys_newfstatat d u u' fl k)) = k_fd k"
  "layout (snd (sys_fchmodat d u m fl k)) = layout k" "k_fd (snd (sys_fchmodat d u m fl k)) = k_fd k"
  "layout (snd (sys_readlinkat d u u' n k)) = layout k" "k_fd (snd (sys_readlinkat d u u' n k)) = k_fd k"
  "layout (snd (sys_unlinkat d u fl k)) = layout k" "k_fd (snd (sys_unlinkat d u fl k)) = k_fd k"
  by (auto simp: sys_getcwd_def sys_chdir_def sys_symlinkat_def sys_mkdirat_def sys_linkat_def sys_newfstatat_def
      sys_fchmodat_def sys_readlinkat_def sys_unlinkat_def Let_def life_def set_cur_def intro!: layout_set_proc
      split: prod.split sum.split option.split)

text \<open>Calls that open and close keep sockets well formed; \<open>keeps\<close> is what a call may do.\<close>

definition fd_keeps :: "kernel \<Rightarrow> kernel \<Rightarrow> bool" where
  "fd_keeps k k' \<longleftrightarrow> layout k' = layout k \<and> (socks_ok (k_fd k) \<longrightarrow> socks_ok (k_fd k'))"

lemma fd_keeps_simps [simp]:
  "fd_keeps k k" "fd_keeps k (k'\<lparr>k_mem := m\<rparr>) = fd_keeps k k'" "fd_keeps k (k'\<lparr>k_vfs := v\<rparr>) = fd_keeps k k'"
  "fd_keeps (k\<lparr>k_vfs := v\<rparr>) k' = fd_keeps k k'"
  "fd_keeps k (set_kind d kd k') = fd_keeps k k'" "fd_keeps k ((set_fdt t k)\<lparr>k_fd := s\<rparr>) = (socks_ok (k_fd k) \<longrightarrow> socks_ok s)"
  "fd_keeps k (k\<lparr>k_fd := s\<rparr>) = (socks_ok (k_fd k) \<longrightarrow> socks_ok s)"
  by (auto simp: fd_keeps_def set_kind_def)

lemma alloc_socks: "desc_alloc s = (r, s') \<Longrightarrow> socks_ok s \<Longrightarrow> socks_ok s'"
  using socks_ok_desc(5) [of s] by simp

lemma alloc_into_socks: "fd_alloc_into t n d s = (r, t', s') \<Longrightarrow> socks_ok s \<Longrightarrow> socks_ok s'"
  using socks_ok_alloc [of s t n d] by simp

lemma close_socks: "fd_close t fd s = (t', s') \<Longrightarrow> socks_ok s \<Longrightarrow> socks_ok s'"
  using socks_ok_close(1) [of s t fd] by simp

lemma close_opt_socks: "close_opt fdo ts = (t', s') \<Longrightarrow> socks_ok (snd ts) \<Longrightarrow> socks_ok s'"
  using socks_ok_close(2) [of ts fdo] by simp

lemma open_desc_keeps [simp]: "fd_keeps k (snd (open_desc kd k))"
  by (auto simp: open_desc_def Let_def alloc_socks split: prod.split option.split dest!: alloc_into_socks)

lemma openat_keeps: "fd_keeps k (snd (sys_openat d u fl m k))"
proof -
  have "fd_keeps k (snd (open_desc kd (k\<lparr>k_vfs := v\<rparr>)))" for kd v
    using open_desc_keeps [of "k\<lparr>k_vfs := v\<rparr>" kd] unfolding fd_keeps_simps .
  then show ?thesis
    by (auto simp: sys_openat_def open_ramfile_def open_create_def open_existing_def Let_def
        split: prod.split option.split sum.split)
qed

lemma close_dup_keeps: "fd_keeps k (snd (sys_close fd k))" "fd_keeps k (snd (sys_dup3 fd fd' fl k))"
  by (auto simp: sys_close_def sys_dup3_def split: prod.split option.split dest: close_socks)

lemma pipe_install_keeps: "fd_keeps k (snd (pipe_install pid rd wd u k))"
  by (auto simp: pipe_install_def Let_def split: prod.split option.split dest!: alloc_into_socks close_opt_socks)

lemma pipe2_keeps: "fd_keeps k (snd (sys_pipe2 u fl k))"
proof -
  have "fd_keeps k (snd (pipe_install pid rd wd u (k\<lparr>k_fd := s\<rparr>)))" if "socks_ok (k_fd k) \<Longrightarrow> socks_ok s" for pid rd wd s
    using pipe_install_keeps [of "k\<lparr>k_fd := s\<rparr>" pid rd wd u] that by (auto simp: fd_keeps_def)
  then show ?thesis
    by (simp add: sys_pipe2_def Let_def split_beta split: option.split sum.split)
qed

lemma offset_keeps:
  "fd_keeps k (snd (sys_ioctl fd rq u k))" "fd_keeps k (snd (sys_lseek fd off w k))"
  "fd_keeps k (snd (sys_getdents64 fd u n k))" "fd_keeps k (snd (read_now nv d u n k))"
  "fd_keeps k (snd (snd (sys_write fd u n k)))"
  by (auto simp: sys_ioctl_def ioctl_put_def sys_lseek_def seek_file_def sys_getdents64_def read_now_def read_at_def
      sys_write_def write_ramfile_def Let_def split: prod.split option.split sum.split fdesc.split)

lemma keeps_ok:
  "kernel_ok k \<Longrightarrow> fd_keeps k k' \<Longrightarrow> fd_task k' \<Longrightarrow> fs_tree k' \<Longrightarrow> kernel_ok k'"
  by (rule kernel_ok_layout [of k]) (auto simp: kernel_ok_def fd_keeps_def fd_task_def)

lemma fs_reply_keeps: "fd_keeps k (snd (fs_reply c k))"
  by (cases c) (simp_all add: openat_keeps close_dup_keeps pipe2_keeps offset_keeps,
    simp_all add: name_calls_fields fd_keeps_def)

lemma fs_reply_ok:
  assumes "kernel_ok k"
  shows "kernel_ok (snd (fs_reply c k))"
proof -
  have t: "fd_task k" "fs_tree k" using assms kernel_ok_fd by (simp_all add: kernel_ok_def)
  have "fd_task (snd (fs_reply c k)) \<and> fs_tree (snd (fs_reply c k))"
    using t fs_call_ok [OF t, of _ c] by (cases c) simp_all
  then show ?thesis using keeps_ok [OF assms fs_reply_keeps] by simp
qed

lemma sys_write_ok:
  assumes "kernel_ok k"
  shows "kernel_ok (snd (snd (sys_write fd u n k)))"
proof -
  have t: "fd_task k" "fs_tree k" using assms kernel_ok_fd by (simp_all add: kernel_ok_def)
  show ?thesis using keeps_ok [OF assms offset_keeps(5)] fs_call_ok [OF t, of _ "Write fd u n"] by simp
qed

lemma read_now_ok:
  assumes "kernel_ok k" and "desc_of fd k = Some d"
  shows "kernel_ok (snd (read_now nv d u n k))"
proof -
  have t: "fd_task k" "fs_tree k" using assms kernel_ok_fd by (simp_all add: kernel_ok_def)
  show ?thesis
    using keeps_ok [OF assms(1) offset_keeps(4)] read_now_task [OF t(1) assms(2)] fd_calls_tree(6) [OF t(2)] by simp
qed

end
