(* ===== verification/KernelRun.thy ===== *)
theory KernelRun
  imports KernelOk
begin

text \<open>
  The invariant of the kernel through the scheduler: waiting in a read or a sleep, switching, and
  the calls that make and end processes.
\<close>

subsection \<open>The scheduler\<close>

definition leaves_files :: "kernel \<Rightarrow> kernel \<Rightarrow> bool" where
  "leaves_files k k' \<longleftrightarrow> k_vfs k' = k_vfs k \<and> k_archive k' = k_archive k \<and> (socks_ok (k_fd k) \<longrightarrow> socks_ok (k_fd k'))"

lemma leaves_refl: "k_vfs k' = k_vfs k \<Longrightarrow> k_archive k' = k_archive k \<Longrightarrow> k_fd k' = k_fd k \<Longrightarrow> leaves_files k k'"
  by (simp add: leaves_files_def)

lemma leaves_trans: "leaves_files k k' \<Longrightarrow> leaves_files k' k'' \<Longrightarrow> leaves_files k k''"
  by (simp add: leaves_files_def)

lemma leaves_frame [simp]:
  "leaves_files k (k'\<lparr>k_mem := m\<rparr>) = leaves_files k k'" "leaves_files k (k'\<lparr>k_con := c\<rparr>) = leaves_files k k'"
  "leaves_files k (k'\<lparr>k_timer := t\<rparr>) = leaves_files k k'" "leaves_files k (k'\<lparr>k_last_sched := n\<rparr>) = leaves_files k k'"
  "leaves_files k (set_proc i g k') = leaves_files k k'" "leaves_files k (set_cur g k') = leaves_files k k'"
  "leaves_files k (k'\<lparr>k_procs := ps\<rparr>) = leaves_files k k'" "leaves_files k (k'\<lparr>k_cur := n\<rparr>) = leaves_files k k'"
  "leaves_files k (k'\<lparr>k_pmm := q\<rparr>) = leaves_files k k'" "leaves_files k (mmu_ttbr0_write t' k') = leaves_files k k'"
  "leaves_files k k"
  by (simp_all add: leaves_files_def set_cur_def mmu_ttbr0_write_def)

text \<open>What the device poll inside the scheduler may do.\<close>

definition usb_ok :: "usb_poll \<Rightarrow> bool" where
  "usb_ok usb \<longleftrightarrow> poll_ok usb \<and> (case usb of None \<Rightarrow> True | Some f \<Rightarrow> \<forall>k. leaves_files k (f k))"

lemma kernel_poll_leaves: "usb_ok usb \<Longrightarrow> leaves_files k (kernel_poll usb ob k)"
proof -
  assume u: "usb_ok usb"
  have "leaves_files k (f (k\<lparr>k_con := c\<rparr>))" if "usb = Some f" for f c
    using u that leaves_trans [of k "k\<lparr>k_con := c\<rparr>"] by (simp add: usb_ok_def)
  then show ?thesis by (auto simp: kernel_poll_def Let_def split: option.split)
qed

lemma sched_pass_leaves:
  assumes "usb_ok usb" and "sched_pass usb ob k = (c, k')"
  shows "leaves_files k k'"
  using kernel_poll_leaves [OF assms(1), of k ob] assms(2)
  by (auto simp: sched_pass_def Let_def sched_wake_sleepers_def sched_wake_one_console_reader_if_ready_def
      split: if_splits option.splits)

lemma irq_handle_leaves: "usb_ok usb \<Longrightarrow> leaves_files k (irq_handle usb tick rx k)"
proof -
  assume u: "usb_ok usb"
  have "leaves_files k (f (k\<lparr>k_timer := t\<rparr>))" if "usb = Some f" for f t
    using u that leaves_trans [of k "k\<lparr>k_timer := t\<rparr>"] by (simp add: usb_ok_def)
  then show ?thesis by (auto simp: irq_handle_def Let_def split: option.split)
qed

lemma sched_pick_leaves:
  "usb_ok usb \<Longrightarrow> sched_pick_next_runnable usb obs k = Some (r, k') \<Longrightarrow> leaves_files k k'"
proof (induction obs arbitrary: k)
  case (Cons ob obs)
  obtain c k1 where p: "sched_pass usb ob k = (c, k1)" by fastforce
  note l = sched_pass_leaves [OF Cons.prems(1) p]
  show ?case
  proof (cases c)
    case Idle
    have "leaves_files k (irq_handle usb (ob_tick ob) (ob_irq_rx ob) k1)"
      by (rule leaves_trans [OF l irq_handle_leaves [OF Cons.prems(1)]])
    then show ?thesis using Idle Cons p leaves_trans [of k "irq_handle usb (ob_tick ob) (ob_irq_rx ob) k1"] by simp
  qed (use Cons.prems p l in auto)
qed simp

lemma completes:
  assumes "idx < length (k_procs k)" and "may_run (p_state (k_procs k ! idx))"
  shows "may_run (p_state (k_procs (sched_complete_console_read_if_needed idx k) ! idx))"
    and "may_run (p_state (k_procs (sched_complete_ping6_if_needed now idx k) ! idx))"
    and "may_run (p_state (k_procs (sched_complete_udp6_recv_if_needed now idx k) ! idx))"
  using assms
  by (auto simp: sched_complete_console_read_if_needed_def sched_complete_ping6_if_needed_def ping6_finish_def
      sched_complete_udp6_recv_if_needed_def udp6_finish_def Let_def split: prod.split sum.split)

lemma complete_leaves:
  "leaves_files k (sched_complete_console_read_if_needed idx k)" "leaves_files k (sched_complete_ping6_if_needed now idx k)"
  "leaves_files k (sched_complete_udp6_recv_if_needed now idx k)"
proof -
  have "leaves_files k ((set_proc idx g k)\<lparr>k_fd := (k_fd k)\<lparr>fs_udp := st\<rparr>, k_mem := m\<rparr>)"
    if "net_udp6_try_recv sid (fs_udp (k_fd k)) = (r, st)" for g st m sid r
    using that udp6_try_recv_ok [of "fs_udp (k_fd k)" sid] by (simp add: leaves_files_def socks_ok_def)
  then show "leaves_files k (sched_complete_udp6_recv_if_needed now idx k)"
    by (auto simp: sched_complete_udp6_recv_if_needed_def Let_def split: prod.split sum.split)
qed (auto simp: sched_complete_console_read_if_needed_def sched_complete_ping6_if_needed_def ping6_finish_def Let_def
    split: prod.split)

lemma switch_leaves: "proc_switch_to c1 c2 idx k = (r, k') \<Longrightarrow> leaves_files k k'"
proof -
  let ?k1 = "mmu_ttbr0_write (p_ttbr0 (k_procs k ! idx)) (k\<lparr>k_cur := idx\<rparr>)"
  let ?k2 = "sched_complete_console_read_if_needed idx ?k1"
  let ?k3 = "sched_complete_ping6_if_needed (clock ?k2 c1) idx ?k2"
  assume "proc_switch_to c1 c2 idx k = (r, k')"
  then have k': "k' = sched_complete_udp6_recv_if_needed (clock ?k3 c2) idx ?k3"
    by (simp add: proc_switch_to_def Let_def)
  have "leaves_files k ?k1" by simp
  from leaves_trans [OF leaves_trans [OF leaves_trans [OF this complete_leaves(1)] complete_leaves(2)] complete_leaves(3)]
  show ?thesis unfolding k' .
qed

lemma switch_may_run:
  assumes "proc_switch_to c1 c2 idx k = (r, k')" and i: "idx < length (k_procs k)" and s: "may_run (p_state (k_procs k ! idx))"
  shows "may_run (p_state (cur_proc k'))"
proof -
  let ?k1 = "mmu_ttbr0_write (p_ttbr0 (k_procs k ! idx)) (k\<lparr>k_cur := idx\<rparr>)"
  let ?k2 = "sched_complete_console_read_if_needed idx ?k1"
  let ?k3 = "sched_complete_ping6_if_needed (clock ?k2 c1) idx ?k2"
  have k': "k' = sched_complete_udp6_recv_if_needed (clock ?k3 c2) idx ?k3"
    using assms(1) by (simp add: proc_switch_to_def Let_def)
  have 1: "idx < length (k_procs ?k1)" "may_run (p_state (k_procs ?k1 ! idx))"
    using i s by (simp_all add: mmu_ttbr0_write_def)
  then have ne: "p_state (k_procs ?k1 ! idx) \<noteq> PROC_UNUSED" by (auto simp: may_run_def)
  note q2 = complete_read_quiet [OF 1(1) ne]
  note q3 = quiet_trans [OF q2 complete_ping6_quiet [of ?k2 "clock ?k2 c1" idx]]
  have l: "idx < length (k_procs ?k2)" "idx < length (k_procs ?k3)" using quiet_len [OF q2] quiet_len [OF q3] 1(1) by simp_all
  have "may_run (p_state (k_procs ?k3 ! idx))" using completes(2) [OF l(1) completes(1) [OF 1]] .
  then have "may_run (p_state (k_procs k' ! idx))" unfolding k' by (rule completes(3) [OF l(2)])
  moreover have "k_cur k' = idx"
    using switch_tasks [OF assms(1) i] s by (auto simp: may_run_def)
  ultimately show ?thesis by (simp add: cur_proc_def)
qed

subsection \<open>Steps inside a call\<close>

lemma base_ok_leaves: "base_ok k \<Longrightarrow> task_ok k' \<Longrightarrow> leaves_files k k' \<Longrightarrow> base_ok k'"
  by (simp add: base_ok_def leaves_files_def fs_tree_def)

lemma base_ok_frame [simp]: "base_ok (k\<lparr>k_mem := m\<rparr>) = base_ok k" "base_ok (k\<lparr>k_con := c\<rparr>) = base_ok k"
  by (simp_all add: base_ok_def fs_tree_def)

lemma base_ok_set_proc:
  assumes "base_ok k" and "i < MAX_PROCS" and "p_fdt (f (k_procs k ! i)) = p_fdt (k_procs k ! i)"
    and "same_mem (k_procs k ! i) (f (k_procs k ! i))"
  shows "base_ok (set_proc i f k)"
  by (rule base_ok_leaves [OF assms(1)]) (use assms in \<open>simp_all add: task_ok_set_proc base_ok_def\<close>)

lemma base_ok_cur: "base_ok k \<Longrightarrow> k_cur k < MAX_PROCS" "base_ok k \<Longrightarrow> length (k_procs k) = MAX_PROCS"
  by (simp_all add: base_ok_def task_ok_def sched_ok_def)

lemma base_ok_set_cur:
  assumes "base_ok k" and "p_fdt (f (cur_proc k)) = p_fdt (cur_proc k)" and "same_mem (cur_proc k) (f (cur_proc k))"
  shows "base_ok (set_cur f k)"
  using base_ok_set_proc [OF assms(1) base_ok_cur(1) [OF assms(1)], of f] assms(2,3) by (simp add: set_cur_def cur_proc_def)

lemma wait_may_run: "wait_effect p q \<Longrightarrow> may_run (p_state p) \<Longrightarrow> may_run (p_state q)"
  by (auto simp: wait_effect_def)

lemma waited_cur:
  assumes "list_all2 wait_effect (k_procs k) (k_procs k')" and "k_cur k' = k_cur k" and "k_cur k < length (k_procs k)"
  shows "wait_effect (cur_proc k) (cur_proc k')"
  using assms by (simp add: cur_proc_def list_all2_conv_all_nth)

lemma resched_ok:
  assumes usb: "usb_ok (si_usb e)" and ok: "base_ok k" and r: "resched e k = Some (q, k')"
  shows "base_ok k' \<and> (q = None \<longrightarrow> k_cur k' = k_cur k \<and> wait_effect (cur_proc k) (cur_proc k')) \<and>
    (q \<noteq> None \<longrightarrow> may_run (p_state (cur_proc k')))"
proof -
  have poll: "poll_ok (si_usb e)" using usb by (simp add: usb_ok_def)
  have t: "task_ok k" and so: "sched_ok k" using ok by (simp_all add: base_ok_def task_ok_def)
  note tk = task_ok_resched [OF poll t r]
  obtain c k1 where p: "sched_pick_next_runnable (si_usb e) (si_obs e) k = Some (c, k1)"
    using r by (auto simp: resched_def split: option.splits)
  note pk = pick_runnable [OF poll so p] and lv = sched_pick_leaves [OF usb p]
  have stay: ?thesis if "q = None" "k' = k1"
    using that ok tk lv base_ok_leaves [OF ok] waited_cur [of k k1] pk base_ok_cur [OF ok] by auto
  show ?thesis
  proof (cases "\<exists>i. c = Some i \<and> i \<noteq> k_cur k1")
    case True
    then obtain i where i: "c = Some i" "i \<noteq> k_cur k1" by blast
    obtain r2 k2 where sw: "proc_switch_to (si_cnt1 e) (si_cnt2 e) i k1 = (r2, k2)" by fastforce
    have "k' = k2" "q = Some r2" using r p i sw by (simp_all add: resched_def)
    moreover have "may_run (p_state (cur_proc k2))"
      by (rule switch_may_run [OF sw]) (use pk i in \<open>auto simp: sched_ok_def\<close>)
    moreover have "base_ok k2"
      using base_ok_leaves [OF ok, of k2] leaves_trans [OF lv switch_leaves [OF sw]] tk calculation by simp
    ultimately show ?thesis by simp
  next
    case False
    then have "q = None" "k' = k1" using r p by (auto simp: resched_def split: option.splits)
    then show ?thesis by (rule stay)
  qed
qed

lemma kernel_poll_ok:
  assumes usb: "usb_ok usb" and ok: "kernel_ok k"
  shows "kernel_ok (kernel_poll usb ob k)"
proof -
  have poll: "poll_ok usb" using usb by (simp add: usb_ok_def)
  let ?k = "kernel_poll usb ob k"
  have b: "base_ok k" and m: "may_run (p_state (cur_proc k))" using ok by (simp_all add: kernel_ok_base)
  note t = kernel_poll_tasks [OF poll, of k ob] and e = kernel_poll_effect [OF poll, where k = k and ob = ob]
  have "task_ok ?k"
    using task_ok_tasks [of k ?k] b t e(2) by (simp add: base_ok_def task_ok_def sched_ok_def)
  moreover have "same_or_net (cur_proc k) (cur_proc ?k)"
    using e(1) base_ok_cur [OF b] t by (simp add: cur_proc_def list_all2_conv_all_nth)
  then have "may_run (p_state (cur_proc ?k))" using m by (auto simp: same_or_net_def woken_by_net_def)
  ultimately show ?thesis
    using base_ok_leaves [OF b _ kernel_poll_leaves [OF usb]] by (simp add: kernel_ok_base)
qed

lemma irq_handle_ok:
  assumes usb: "usb_ok usb" and ok: "kernel_ok k"
  shows "kernel_ok (irq_handle usb tick rx k)"
proof -
  have poll: "poll_ok usb" using usb by (simp add: usb_ok_def)
  let ?k = "irq_handle usb tick rx k"
  have b: "base_ok k" and m: "may_run (p_state (cur_proc k))" using ok by (simp_all add: kernel_ok_base)
  note e = irq_handle_effect [OF poll, of k tick rx]
  have "sched_ok k" using b by (simp add: base_ok_def task_ok_def)
  then have "task_ok ?k"
    using task_ok_tasks [of k ?k] b e by (simp add: base_ok_def task_ok_def sched_ok_def)
  moreover have "same_or_net (cur_proc k) (cur_proc ?k)"
    using e(1,2) base_ok_cur [OF b] by (simp add: cur_proc_def list_all2_conv_all_nth)
  then have "may_run (p_state (cur_proc ?k))" using m by (auto simp: same_or_net_def woken_by_net_def)
  ultimately show ?thesis
    using base_ok_leaves [OF b _ irq_handle_leaves [OF usb]] by (simp add: kernel_ok_base)
qed

subsection \<open>Waiting\<close>

lemma cur_set_cur [simp]: "k_cur k < length (k_procs k) \<Longrightarrow> cur_proc (set_cur f k) = f (cur_proc k)"
  by (simp add: cur_proc_def set_cur_def)

lemma kernel_ok_frame [simp]: "kernel_ok (k\<lparr>k_mem := m\<rparr>) = kernel_ok k" "kernel_ok (k\<lparr>k_con := c\<rparr>) = kernel_ok k"
  by (simp_all add: kernel_ok_base cur_proc_def)

lemma park_ok:
  assumes "kernel_ok k" and "\<And>p. p_fdt (f p) = p_fdt p" and "\<And>p. may_run (p_state p) \<Longrightarrow> same_mem p (f p)"
  shows "base_ok (set_cur f k)"
  using assms by (simp add: kernel_ok_base base_ok_set_cur)

lemma set_state_ok:
  assumes "base_ok k" and "may_run (p_state (f (cur_proc k)))" and "p_fdt (f (cur_proc k)) = p_fdt (cur_proc k)"
    and "same_mem (cur_proc k) (f (cur_proc k))"
  shows "kernel_ok (set_proc (k_cur k) f k)"
  using base_ok_set_cur [OF assms(1), of f] assms(2-4) base_ok_cur [OF assms(1)]
  by (simp add: kernel_ok_base set_cur_def cur_proc_def)

lemma read_uart_ok:
  assumes "list_all (\<lambda>(ob, e). usb_ok (si_usb e)) turns" and "kernel_ok k" and "read_uart turns r fd u n k = Returns x r' k'"
  shows "kernel_ok k'"
  using assms
proof (induction turns arbitrary: k)
  case (Cons t turns)
  obtain ob e where t: "t = (ob, e)" by fastforce
  then have usb: "usb_ok (si_usb e)" using Cons.prems(1) by simp
  obtain c k1 where g: "console_try_getc (si_usb e) ob k = (c, k1)" by fastforce
  have k1: "kernel_ok k1"
    using kernel_poll_ok [OF usb Cons.prems(2), of ob] g by (auto simp: console_try_getc_def Let_def split: option.splits)
  then have b1: "base_ok k1" and l1: "k_cur k1 < length (k_procs k1)"
    using base_ok_cur [of k1] by (simp_all add: kernel_ok_base)
  show ?case
  proof (cases c)
    case (Some ch)
    have "calm k1 (set_cur (\<lambda>p. p\<lparr>p_read := read_clear\<rparr>) k1)" by (rule calm_set_cur) (simp_all add: life_def)
    then have "kernel_ok (snd (uart_finish ch u n k1))"
      using k1 kernel_ok_calm [OF k1] by (auto simp: uart_finish_def Let_def split: prod.split)
    then show ?thesis using Cons.prems(3) t g Some by (auto split: prod.splits)
  next
    case None
    let ?kp = "uart_park r fd u n k1"
    have p: "base_ok ?kp"
      unfolding uart_park_def by (rule park_ok [OF k1]) (auto simp: same_mem_def may_run_def)
    have sp: "p_state (cur_proc ?kp) = PROC_BLOCKED_IO" "k_cur ?kp = k_cur k1"
      using l1 by (simp_all add: uart_park_def) (simp add: set_cur_def)
    obtain q k2 where q: "resched e ?kp = Some (q, k2)"
      using Cons.prems(3) t g None by (auto split: option.splits)
    note rs = resched_ok [OF usb p q]
    show ?thesis
    proof (cases q)
      case (Some r2)
      then show ?thesis using Cons.prems(3) t g None q rs by (simp add: kernel_ok_base)
    next
      case None': None
      let ?k3 = "if p_state (k_procs k2 ! k_cur k) = PROC_BLOCKED_IO
                 then set_proc (k_cur k) (\<lambda>p. p\<lparr>p_state := PROC_RUNNABLE\<rparr>) k2 else k2"
      have cur: "k_cur k1 = k_cur k"
        using g usb kernel_poll_tasks [of "si_usb e" k ob]
        by (auto simp: console_try_getc_def usb_ok_def Let_def split: option.splits)
      have m: "may_run (p_state (cur_proc k2))" using rs None' sp wait_may_run [of "cur_proc ?kp"] by simp
      have "kernel_ok (set_proc (k_cur k2) (\<lambda>p. p\<lparr>p_state := PROC_RUNNABLE\<rparr>) k2)"
        by (rule set_state_ok) (use rs m in \<open>auto simp: same_mem_def may_run_def\<close>)
      then have "kernel_ok ?k3" using m rs None' sp cur by (simp add: kernel_ok_base)
      then show ?thesis using Cons.IH [of ?k3] Cons.prems t g None q None' by simp
    qed
  qed
qed simp

lemma sys_read_ok:
  assumes "list_all (\<lambda>(ob, e). usb_ok (si_usb e)) turns" and "kernel_ok k" and "sys_read nv turns r fd u n k = Returns x r' k'"
  shows "kernel_ok k'"
  using assms(3) read_uart_ok [OF assms(1,2)] read_now_ok [OF assms(2)] assms(2)
  by (auto simp: sys_read_def split: option.splits if_splits prod.splits) (metis snd_conv)

lemma sleep_now_ok:
  assumes usb: "usb_ok (si_usb e)" and ok: "kernel_ok k" and r: "sleep_now e rg d k = Returns x r' k'"
  shows "kernel_ok k'"
proof -
  let ?ks = "set_cur (sleep_state rg d) k"
  have b: "base_ok ?ks"
    by (rule park_ok [OF ok]) (auto simp: same_mem_def may_run_def sleep_state_def set_x0_def)
  have l: "k_cur k < length (k_procs k)" using base_ok_cur [of k] ok by (simp add: kernel_ok_base)
  have s: "p_state (cur_proc ?ks) = PROC_SLEEPING" "k_cur ?ks = k_cur k"
    using l by (simp_all add: sleep_state_def) (simp add: set_cur_def)
  obtain q k2 where q: "resched e ?ks = Some (q, k2)" using r by (auto simp: sleep_now_def split: option.splits)
  note rs = resched_ok [OF usb b q]
  show ?thesis
  proof (cases q)
    case (Some r2)
    then show ?thesis using r q rs by (simp add: sleep_now_def kernel_ok_base)
  next
    case None
    have m: "may_run (p_state (cur_proc k2))" using rs None s wait_may_run [of "cur_proc ?ks"] by simp
    have "kernel_ok (set_proc (k_cur k2) awake_state k2)"
      by (rule set_state_ok) (use rs m in \<open>auto simp: same_mem_def may_run_def awake_state_def\<close>)
    then show ?thesis using r q rs None s by (simp add: sleep_now_def)
  qed
qed

lemma nanosleep_ok:
  assumes "usb_ok (si_usb e)" and "kernel_ok k" and "sys_nanosleep e cnt rg u u' k = Returns x r' k'"
  shows "kernel_ok k'"
  using assms(2,3) sleep_now_ok [OF assms(1), where rg = rg and x = x and r' = r' and k' = k']
    kernel_ok_calm [OF assms(2) calm_mem(2)]
  by (auto simp: sys_nanosleep_def Let_def split: if_splits option.splits)

subsection \<open>Making and ending processes\<close>

lemma leaves_fd: "(socks_ok (k_fd k) \<Longrightarrow> socks_ok s) \<Longrightarrow> leaves_files k ((set_proc i g k)\<lparr>k_fd := s\<rparr>)"
  by (simp add: leaves_files_def)

lemma end_leaves [simp]:
  "leaves_files k (write_u32 a v k)" "leaves_files k (proc_close_all_fds i k)" "leaves_files k (proc_reap i k)"
  "leaves_files k (mark_zombie i code k)" "leaves_files k (clear_tid i k)"
proof -
  have "socks_ok s" if "close_all_fds t (k_fd k) = (t', s)" "socks_ok (k_fd k)" for t t' s
    using socks_ok_tables(1) [of "k_fd k" t] that by simp
  then show "leaves_files k (proc_close_all_fds i k)"
    by (auto simp: proc_close_all_fds_def intro!: leaves_fd split: prod.split)
qed (simp_all add: write_u32_def proc_reap_def mark_zombie_def clear_tid_def Let_def)

lemma deliver_leaves [simp]: "leaves_files k (deliver_exit i c code k)"
proof -
  have "leaves_files k (write_u32 a v (mmu_ttbr0_write t k))" for a v t
    by (rule leaves_trans [of k "mmu_ttbr0_write t k"]) simp_all
  then have w: "leaves_files k (set_proc i g (if b then write_u32 a v (mmu_ttbr0_write t k) else mmu_ttbr0_write t k))" for g b a v t
    by simp
  show ?thesis unfolding deliver_exit_def Let_def by (rule leaves_trans [OF _ end_leaves(3)]) (rule w)
qed

lemma wake_parent_leaves [simp]: "leaves_files k (wake_parent c code k)"
  by (simp add: wake_parent_def Let_def split: option.split)

lemma dying_leaves:
  assumes "leaves_files k k1"
  shows "leaves_files k (wake_parent c code (mark_zombie c code k1))"
proof -
  have "leaves_files k (mark_zombie c code k1)" by (rule leaves_trans [OF assms]) simp
  then show ?thesis by (rule leaves_trans) simp
qed

lemma kill_other_leaves: "leaves_files k (kill_other i code k)"
proof -
  let ?k1 = "proc_close_all_fds i k"
  have "leaves_files k (clear_tid i (mmu_ttbr0_write t ?k1))" for t
    by (rule leaves_trans [OF _ end_leaves(5)]) simp
  then have "leaves_files k (wake_parent i code (mark_zombie i code
      (if b then clear_tid i (mmu_ttbr0_write t ?k1) else ?k1)))" for b t
    by (intro dying_leaves) simp
  then show ?thesis by (simp add: kill_other_def Let_def)
qed

lemma clone_leaves: "leaves_files k (snd (sys_clone rg flags k))"
proof -
  have inh: "socks_ok s'" if "inherit_fds p (t, s) = (t', s')" "socks_ok s" for p t s t' s'
    using socks_ok_tables(2) [of "(t, s)" p] that by simp
  then have "leaves_files k (snd (clone_proc rg slot root pa k))" for slot root pa k
    by (auto simp: clone_proc_def Let_def leaves_files_def split: prod.split)
  then have "leaves_files k (snd (clone_proc rg slot root pa (k\<lparr>k_mmu := m, k_pmm := p, k_user_of := u, k_mem := mm\<rparr>)))" for slot root pa m p u mm
    by (rule leaves_trans [of k "k\<lparr>k_mmu := m, k_pmm := p, k_user_of := u, k_mem := mm\<rparr>", rotated]) (simp add: leaves_files_def)
  then show ?thesis
    by (auto simp: sys_clone_def leaves_files_def split: option.split prod.split)
qed

text \<open>The running process after these calls.\<close>

lemma clone_cur:
  assumes "base_ok k" and "may_run (p_state (cur_proc k))"
  shows "may_run (p_state (cur_proc (snd (sys_clone rg flags k))))"
proof -
  have ne: "slot \<noteq> k_cur k" if "proc_find_free_slot k = Some slot" for slot
    using find_slot_Some [OF that [unfolded proc_find_free_slot_def]] assms(2) by (auto simp: cur_proc_def may_run_def)
  have "may_run (p_state (cur_proc (snd (clone_proc rg slot root pa k'))))"
    if "slot \<noteq> k_cur k'" "may_run (p_state (cur_proc k'))" for slot root pa k'
    using that by (auto simp: clone_proc_def Let_def cur_proc_def split: prod.split)
  then show ?thesis
    using assms(2) ne by (auto simp: sys_clone_def cur_proc_def split: option.split prod.split)
qed

lemma clone_kernel_ok: "kernel_ok k \<Longrightarrow> kernel_ok (snd (sys_clone rg flags k))"
  using task_ok_clone [of k rg flags] clone_leaves [of k rg flags] clone_cur [of k rg flags] base_ok_leaves [of k]
  by (cases "sys_clone rg flags k") (auto simp: kernel_ok_base base_ok_def may_run_def)

lemma reap_cur:
  assumes "c \<noteq> k_cur k"
  shows "p_state (cur_proc (proc_reap c (proc_close_all_fds c k))) = p_state (cur_proc k)" (is "?reap")
proof -
  have "p_state (cur_proc (proc_close_all_fds c k)) = p_state (cur_proc k)"
    using assms by (simp add: proc_close_all_fds_def cur_proc_def split: prod.split)
  moreover have "k_cur (proc_close_all_fds c k) = k_cur k" by (simp add: proc_close_all_fds_def split: prod.split)
  ultimately show ?reap using assms by (simp add: proc_reap_def Let_def cur_proc_def)
qed

lemma wait4_kernel_ok:
  assumes usb: "usb_ok (si_usb e)" and ok: "kernel_ok k" and r: "sys_wait4 e rg pid ws opt k = Returns x rg' k'"
  shows "kernel_ok k'"
proof -
  have b: "base_ok k" and m: "may_run (p_state (cur_proc k))" using ok by (simp_all add: kernel_ok_base)
  have t: "task_ok k'"
    using task_ok_wait4 [OF _ _ _ r] usb b m by (auto simp: usb_ok_def base_ok_def may_run_def)
  show ?thesis
  proof (cases "find_slot (zombie_child (p_pid (cur_proc k)) pid) (k_procs k)")
    case (Some i)
    have ne: "i \<noteq> k_cur k"
      using find_slot_Some [OF Some] m by (auto simp: zombie_child_def cur_proc_def may_run_def)
    let ?k1 = "if ws \<noteq> 0 then write_u32 ws (wait_status (p_exit_code (k_procs k ! i))) k else k"
    have k1: "k_cur ?k1 = k_cur k" "p_state (cur_proc ?k1) = p_state (cur_proc k)" "leaves_files k ?k1"
      by (simp_all add: write_u32_def cur_proc_def)
    have "leaves_files k (proc_reap i (proc_close_all_fds i ?k1))"
      by (rule leaves_trans [OF leaves_trans [OF k1(3) end_leaves(2)] end_leaves(3)])
    moreover have "p_state (cur_proc (proc_reap i (proc_close_all_fds i ?k1))) = p_state (cur_proc k)"
      using reap_cur [of i ?k1] ne k1 by simp
    moreover have "k' = k \<or> k' = proc_reap i (proc_close_all_fds i ?k1)"
      using r Some by (auto simp: sys_wait4_def Let_def split: if_splits)
    ultimately show ?thesis using ok m base_ok_leaves [OF b t] by (auto simp: kernel_ok_base)
  next
    case None
    let ?kp = "set_cur (\<lambda>p. p\<lparr>p_state := PROC_WAITING, p_wait_pid := pid, p_wait_status := ws, p_tf := fst rg, p_elr := snd rg\<rparr>) k"
    have p: "base_ok ?kp" by (rule park_ok [OF ok]) (auto simp: same_mem_def may_run_def)
    have cur: "k_cur ?kp = k_cur k" by (simp add: set_cur_def)
    show ?thesis
    proof (cases "k' = k")
      case False
      then obtain q k2 where q: "resched e ?kp = Some (q, k2)"
        using r None by (auto simp: sys_wait4_def Let_def split: if_splits option.splits)
      note rs = resched_ok [OF usb p q]
      show ?thesis
      proof (cases q)
        case (Some r2)
        then show ?thesis using r None q rs False by (auto simp: sys_wait4_def Let_def kernel_ok_base split: if_splits)
      next
        case None': None
        have we: "wait_effect (cur_proc ?kp) (cur_proc k2)" using rs None' by simp
        have "p_state (cur_proc ?kp) = PROC_WAITING" using base_ok_cur [OF b] by simp
        then have "p_state (cur_proc k2) = PROC_WAITING" using we by (auto simp: wait_effect_def)
        then have "kernel_ok (set_proc (k_cur k2) (\<lambda>p. p\<lparr>p_state := PROC_RUNNABLE, p_wait_pid := 0, p_wait_status := 0\<rparr>) k2)"
          using rs by (intro set_state_ok) (auto simp: same_mem_def)
        then show ?thesis
          using r None q rs False None' cur by (auto simp: sys_wait4_def Let_def split: if_splits)
      qed
    qed (use ok in simp)
  qed
qed

lemma exit_kernel_ok:
  assumes usb: "usb_ok (si_usb e)" and ok: "kernel_ok k" and r: "handle_exit_and_maybe_switch e rg code k = Returns x rg' k'"
  shows "base_ok k' \<and> (x \<noteq> 0 \<longrightarrow> kernel_ok k')"
proof -
  have b: "base_ok k" and m: "may_run (p_state (cur_proc k))" using ok by (simp_all add: kernel_ok_base)
  have t: "task_ok k" "p_state (cur_proc k) \<noteq> PROC_UNUSED" and poll: "poll_ok (si_usb e)"
    using b m usb by (auto simp: base_ok_def may_run_def usb_ok_def)
  have cur: "k_cur k < MAX_PROCS" using base_ok_cur [OF b] by simp
  let ?k0 = "clear_tid (k_cur k) (proc_close_all_fds (k_cur k) k)"
  let ?k1 = "wake_parent (k_cur k) code (mark_zombie (k_cur k) code ?k0)"
  have k0: "task_ok ?k0" using task_ok_close_all [OF t(1) cur] by (simp add: task_ok_clear_tid)
  then have t1: "task_ok ?k1"
    using task_ok_dying [OF t(1) cur, of ?k0 code] t(2) by (simp add: cur_proc_def close_all_frame)
  have "leaves_files k ?k0" by (rule leaves_trans [OF end_leaves(2) end_leaves(5)])
  then have b1: "base_ok ?k1" by (rule base_ok_leaves [OF b t1 dying_leaves])
  obtain q k2 where q: "resched e ?k1 = Some (q, k2)"
    using r by (auto simp: handle_exit_and_maybe_switch_def Let_def split: if_splits option.splits)
  note rs = resched_ok [OF usb b1 q]
  show ?thesis
  proof (cases q)
    case (Some r2)
    then show ?thesis
      using r q rs by (auto simp: handle_exit_and_maybe_switch_def Let_def kernel_ok_base split: if_splits)
  next
    case None
    obtain r3 k3 where sw: "proc_switch_to (si_cnt1 e) (si_cnt2 e) 0 k2 = (r3, k3)" by fastforce
    have "kernel_ok k3" if s0: "p_state (k_procs k2 ! 0) = PROC_RUNNABLE"
    proof -
      have b2: "base_ok k2" using rs by simp
      have l: "0 < length (k_procs k2)" using base_ok_cur [OF b2] by (simp add: MAX_PROCS_def)
      have "task_ok k3" using task_ok_switch [OF _ sw] b2 s0 by (simp add: base_ok_def MAX_PROCS_def)
      then show ?thesis
        using base_ok_leaves [OF b2 _ switch_leaves [OF sw]] switch_may_run [OF sw l] s0 by (simp add: kernel_ok_base)
    qed
    then show ?thesis
      using r q rs None sw by (auto simp: handle_exit_and_maybe_switch_def Let_def kernel_ok_base split: if_splits)
  qed
qed

lemma wake_cur:
  assumes "c \<noteq> k_cur k" and "k_cur k < length (k_procs k)" and "may_run (p_state (cur_proc k))"
  shows "may_run (p_state (cur_proc (wake_parent c code k)))" and "k_cur (wake_parent c code k) = k_cur k"
proof -
  have w: "k_cur (if b then write_u32 a v (mmu_ttbr0_write t k) else mmu_ttbr0_write t k) = k_cur k"
    "k_procs (if b then write_u32 a v (mmu_ttbr0_write t k) else mmu_ttbr0_write t k) = k_procs k" for a v t b
    by (simp_all add: write_u32_def mmu_ttbr0_write_def)
  have "may_run (p_state (cur_proc (deliver_exit i c code k)))" "k_cur (deliver_exit i c code k) = k_cur k" for i
    unfolding deliver_exit_def Let_def proc_reap_def cur_proc_def
    using assms by (simp_all add: w set_proc_nth cur_proc_def)
  then show "may_run (p_state (cur_proc (wake_parent c code k)))" "k_cur (wake_parent c code k) = k_cur k"
    using assms(3) by (simp_all add: wake_parent_def Let_def split: option.split)
qed

lemma kill_other_cur:
  assumes "i \<noteq> k_cur k" and "k_cur k < length (k_procs k)" and "may_run (p_state (cur_proc k))"
  shows "may_run (p_state (cur_proc (kill_other i code k)))"
proof -
  let ?k1 = "proc_close_all_fds i k"
  let ?k2 = "if p_clear_child_tid (k_procs ?k1 ! i) \<noteq> 0
    then clear_tid i (mmu_ttbr0_write (p_ttbr0 (k_procs ?k1 ! i)) ?k1) else ?k1"
  let ?k3 = "mark_zombie i code ?k2"
  have k2: "k_cur ?k2 = k_cur k" "k_procs ?k2 = k_procs ?k1" by (simp_all add: mmu_ttbr0_write_def close_all_frame)
  have k3: "k_cur ?k3 = k_cur k" "length (k_procs ?k3) = length (k_procs k)"
    using k2 by (simp_all add: mark_zombie_def) (simp add: proc_close_all_fds_def split: prod.split)
  have "p_state (cur_proc ?k3) = p_state (cur_proc k)"
    using assms(1,2) k2 close_all_state [OF assms(2), of i] by (simp add: mark_zombie_def cur_proc_def)
  then have "may_run (p_state (cur_proc (wake_parent i code ?k3)))"
    using wake_cur(1) [of i ?k3 code] assms k3 by simp
  then show ?thesis unfolding kill_other_def Let_def by (simp add: mmu_ttbr0_write_def cur_proc_def)
qed

text \<open>The process that was running is dead and goes on.\<close>

definition dead_runs :: "kernel \<Rightarrow> kernel \<Rightarrow> bool" where
  "dead_runs k k' \<longleftrightarrow> k_cur k' = k_cur k \<and> p_state (cur_proc k') = PROC_ZOMBIE"

lemma resched_none:
  assumes "poll_ok (si_usb e)" and "sched_ok k" and "resched e k = Some (None, k')"
  shows "list_all2 wait_effect (k_procs k) (k_procs k') \<and>
    (p_state (cur_proc k') = PROC_RUNNABLE \<or> (\<forall>p \<in> set (k_procs k'). p_state p \<noteq> PROC_RUNNABLE))"
proof -
  obtain c where p: "sched_pick_next_runnable (si_usb e) (si_obs e) k = Some (c, k')"
      and c: "c = None \<or> c = Some (k_cur k')"
    using assms(3) by (auto simp: resched_def split: option.splits if_splits prod.splits)
  note pk = pick_runnable [OF assms(1,2) p]
  show ?thesis using c
  proof
    assume "c = None"
    then have "\<forall>p \<in> set (k_procs k'). p_state p \<in> {PROC_UNUSED, PROC_WAITING, PROC_ZOMBIE}" using pk by simp
    then show ?thesis using pk by auto
  qed (use pk in \<open>auto simp: cur_proc_def\<close>)
qed

lemma wake_parent_cur: "k_cur (wake_parent c code k) = k_cur k"
  by (simp add: wake_parent_def deliver_exit_def proc_reap_def write_u32_def mmu_ttbr0_write_def Let_def set_proc_def split: option.split)

text \<open>A process that ends stays in its slot as a zombie, unless its parent waits for it: then the parent
can run.\<close>

lemma dying_state:
  assumes "c < length (k_procs k)" and "p_state (k_procs k ! c) = PROC_ZOMBIE"
  shows "p_state (k_procs (wake_parent c code k) ! c) = PROC_ZOMBIE \<or>
    p_state (k_procs (wake_parent c code k) ! c) = PROC_UNUSED \<and> (\<exists>p \<in> set (k_procs (wake_parent c code k)). p_state p = PROC_RUNNABLE)"
proof (cases "find_slot (\<lambda>p. p_state p = PROC_WAITING \<and> p_pid p = p_ppid (k_procs k ! c)) (k_procs k)")
  case (Some i)
  note fs = find_slot_Some [OF Some]
  have ne: "i \<noteq> c" using fs assms(2) by auto
  have w: "k_procs (if b then write_u32 a v (mmu_ttbr0_write t k) else mmu_ttbr0_write t k) = k_procs k" for a v t b
    by (simp add: write_u32_def mmu_ttbr0_write_def)
  have "p_state (k_procs (deliver_exit i c code k) ! i) = PROC_RUNNABLE" "i < length (k_procs (deliver_exit i c code k))"
      "p_state (k_procs (deliver_exit i c code k) ! c) = PROC_UNUSED"
    using fs ne assms(1) unfolding deliver_exit_def Let_def proc_reap_def
    by (simp_all add: w set_proc_nth set_x0_def proc_clear_def)
  moreover then have "\<exists>p \<in> set (k_procs (deliver_exit i c code k)). p_state p = PROC_RUNNABLE" using nth_mem by blast
  ultimately show ?thesis using assms(2) Some by (simp add: wake_parent_def Let_def)
qed (use assms in \<open>simp add: wake_parent_def\<close>)

lemma exit_dead_runs:
  assumes usb: "usb_ok (si_usb e)" and ok: "kernel_ok k" and r: "handle_exit_and_maybe_switch e rg code k = Returns 0 rg' k'"
  shows "dead_runs k k'"
proof -
  have b: "base_ok k" and m: "may_run (p_state (cur_proc k))" using ok by (simp_all add: kernel_ok_base)
  have t: "task_ok k" "p_state (cur_proc k) \<noteq> PROC_UNUSED" and poll: "poll_ok (si_usb e)"
    using b m usb by (auto simp: base_ok_def may_run_def usb_ok_def)
  have cur: "k_cur k < MAX_PROCS" "k_cur k < length (k_procs k)" using base_ok_cur [OF b] by simp_all
  let ?k0 = "clear_tid (k_cur k) (proc_close_all_fds (k_cur k) k)"
  let ?kz = "mark_zombie (k_cur k) code ?k0"
  let ?k1 = "wake_parent (k_cur k) code ?kz"
  have k0: "task_ok ?k0" using task_ok_close_all [OF t(1) cur(1)] by (simp add: task_ok_clear_tid)
  then have t1: "task_ok ?k1"
    using task_ok_dying [OF t(1) cur(1), of ?k0 code] t(2) by (simp add: cur_proc_def close_all_frame)
  then have so: "sched_ok ?k1" by (simp add: task_ok_def)
  have z: "p_state (k_procs ?kz ! k_cur k) = PROC_ZOMBIE" "k_cur ?kz = k_cur k" "length (k_procs ?kz) = length (k_procs k)"
    using cur by (simp_all add: mark_zombie_def clear_tid_def proc_close_all_fds_def write_u32_def Let_def split: prod.split)
  obtain k2 where q: "resched e ?k1 = Some (None, k2)" and k2: "k' = k2"
    using r by (auto simp: handle_exit_and_maybe_switch_def Let_def split: if_splits option.splits prod.splits)
  note n = resched_none [OF poll so q]
  have c1: "k_cur ?k1 = k_cur k" using z(2) by (simp add: wake_parent_cur)
  have "base_ok ?k1"
    by (rule base_ok_leaves [OF b t1 dying_leaves]) (rule leaves_trans [OF end_leaves(2) end_leaves(5)])
  then have c2: "k_cur k' = k_cur k" using resched_ok [OF usb _ q] c1 k2 by simp
  have le: "length (k_procs ?k1) = MAX_PROCS" "length (k_procs k') = MAX_PROCS"
    using so n k2 by (auto simp: sched_ok_def dest: list_all2_lengthD)
  have we: "wait_effect (k_procs ?k1 ! i) (k_procs k' ! i)" if "i < MAX_PROCS" for i
    using n le that k2 by (simp add: list_all2_conv_all_nth)
  have same: "p_state (k_procs k' ! i) = p_state (k_procs ?k1 ! i)"
    if "i < MAX_PROCS" "p_state (k_procs ?k1 ! i) \<in> {PROC_ZOMBIE, PROC_UNUSED, PROC_RUNNABLE}" for i
    using we [OF that(1)] that(2) by (auto simp: wait_effect_def)
  show ?thesis
  proof (cases "p_state (k_procs ?k1 ! k_cur k) = PROC_ZOMBIE")
    case True
    then show ?thesis using same [OF cur(1)] c2 by (simp add: dead_runs_def cur_proc_def)
  next
    case False
    then obtain p where u: "p_state (k_procs ?k1 ! k_cur k) = PROC_UNUSED" and "p \<in> set (k_procs ?k1)" "p_state p = PROC_RUNNABLE"
      using dying_state [OF _ z(1), of code] z(3) cur by auto
    then obtain i where "i < MAX_PROCS" "p_state (k_procs ?k1 ! i) = PROC_RUNNABLE" using le by (auto simp: in_set_conv_nth)
    then have "k_procs k' ! i \<in> set (k_procs k')" "p_state (k_procs k' ! i) = PROC_RUNNABLE" using le same [of i] by simp_all
    then have "p_state (cur_proc k') = PROC_RUNNABLE" using n k2 by auto
    then show ?thesis using same [OF cur(1)] u c2 by (simp add: cur_proc_def)
  qed
qed

text \<open>
  A call of \<open>kill\<close> with the caller's own number can come back to the caller: when no process is left
  to run, the caller continues as a zombie. No other call does that.
\<close>

definition kills_self :: "task_call \<Rightarrow> kernel \<Rightarrow> bool" where
  "kills_self c k \<longleftrightarrow> (case c of
     Kill pid sig \<Rightarrow> 0 < sint pid \<and> (sig = 9 \<or> sig = 15) \<and> proc_find_idx_by_pid pid k = Some (k_cur k)
   | _ \<Rightarrow> False)"

lemma kills_self_iff: "kills_self c k \<longleftrightarrow>
    (\<exists>pid sig. c = Kill pid sig \<and> 0 < sint pid \<and> (sig = 9 \<or> sig = 15) \<and> proc_find_idx_by_pid pid k = Some (k_cur k))"
  by (cases c) (simp_all add: kills_self_def)

lemma kill_kernel_ok:
  assumes usb: "usb_ok (si_usb e)" and ok: "kernel_ok k" and r: "sys_kill e rg pid sig k = Returns x rg' k'"
  shows "base_ok k' \<and> (kernel_ok k' \<or> x = 0 \<and> kills_self (Kill pid sig) k \<and> dead_runs k k')"
proof (cases "k' = k \<or> (\<exists>i. proc_find_idx_by_pid pid k = Some i \<and> i \<noteq> k_cur k \<and> k' = kill_other i (128 + (sig AND 0xff)) k)")
  case True
  have b: "base_ok k" and m: "may_run (p_state (cur_proc k))" using ok by (simp_all add: kernel_ok_base)
  have t: "task_ok k'"
    using task_ok_kill [OF _ _ _ r] usb b m by (auto simp: usb_ok_def base_ok_def may_run_def)
  have "kernel_ok (kill_other i code k)" if "i \<noteq> k_cur k" "k' = kill_other i code k" for i code
    using base_ok_leaves [OF b t] kill_other_leaves [of k i code] kill_other_cur [OF that(1) _ m, of code] base_ok_cur [OF b] that(2)
    by (simp add: kernel_ok_base)
  then show ?thesis using True ok by (auto simp: kernel_ok_base)
next
  case False
  then obtain y r2 where y: "handle_exit_and_maybe_switch e rg (128 + (sig AND 0xff)) k = Returns y r2 k'"
      "x = (if y \<noteq> 0 then SYSCALL_SWITCHED else 0)" and self: "kills_self (Kill pid sig) k"
    using r by (auto simp: sys_kill_def kills_self_def Let_def split: if_splits option.splits sys_outcome.splits)
  show ?thesis
    using exit_kernel_ok [OF usb ok y(1)] exit_dead_runs [OF usb ok] y self by (cases "y = 0") auto
qed

lemma preempt_ok:
  assumes usb: "usb_ok usb" and ok: "base_ok k" and r: "sched_maybe_switch usb obs c1 c2 rg k = Some (rg', k')"
  shows "base_ok k' \<and> (may_run (p_state (cur_proc k)) \<longrightarrow> kernel_ok k')"
proof -
  let ?e = "\<lparr>si_usb = usb, si_obs = obs, si_cnt1 = c1, si_cnt2 = c2\<rparr>"
  obtain q where q: "resched ?e k = Some (q, k')"
    using r by (auto simp: sched_maybe_switch_def resched_def split: option.splits if_splits prod.splits)
  note rs = resched_ok [OF _ ok q]
  show ?thesis using rs usb wait_may_run by (cases q) (auto simp: kernel_ok_base)
qed

lemma preempt_dead:
  assumes usb: "usb_ok usb" and ok: "base_ok k" and r: "sched_maybe_switch usb obs c1 c2 rg k = Some (rg', k')"
    and dead: "dead_runs k0 k"
  shows "kernel_ok k' \<or> dead_runs k0 k'"
proof -
  let ?e = "\<lparr>si_usb = usb, si_obs = obs, si_cnt1 = c1, si_cnt2 = c2\<rparr>"
  obtain q where q: "resched ?e k = Some (q, k')"
    using r by (auto simp: sched_maybe_switch_def resched_def split: option.splits if_splits prod.splits)
  note rs = resched_ok [OF _ ok q]
  show ?thesis using rs usb dead by (cases q) (auto simp: kernel_ok_base dead_runs_def wait_effect_def)
qed

lemma do_call_ok:
  assumes usb: "usb_ok (si_usb e)" and ok: "kernel_ok k" and r: "do_call e rg c k = Returns x rg' k'"
  shows "base_ok k' \<and> (kernel_ok k' \<or> x = 0 \<and> ((\<exists>code. c = Exit code) \<or> kills_self c k \<and> dead_runs k k'))"
proof (cases c)
  case (Clone flags)
  then show ?thesis using r clone_kernel_ok [OF ok, of rg flags] by (auto simp: kernel_ok_base split: prod.splits)
next
  case (Wait4 pid ws opt)
  then show ?thesis using r wait4_kernel_ok [OF usb ok, of rg pid ws opt x rg' k'] by (simp add: kernel_ok_base)
next
  case (Exit code)
  then show ?thesis using r exit_kernel_ok [OF usb ok, of rg code x rg' k'] by (auto simp: kernel_ok_base)
next
  case (Kill p s)
  then show ?thesis using r kill_kernel_ok [OF usb ok, of rg p s x rg' k'] by (auto simp: kernel_ok_base)
next
  case Preempt
  then obtain r2 where "sched_maybe_switch (si_usb e) (si_obs e) (si_cnt1 e) (si_cnt2 e) rg k = Some (r2, k')"
    using r by (auto split: option.splits prod.splits)
  from preempt_ok [OF usb _ this] show ?thesis using ok by (simp add: kernel_ok_base)
qed

end
