(* ===== verification/NetCalls.thy ===== *)
theory NetCalls
  imports KernelRun
begin

text \<open>
  The network calls keep the invariant of kernel and packet layer together. A device poll is any
  function of the world that keeps the packet layer well formed and changes no more of the kernel
  than received packets do; received frames are one.
\<close>

subsection \<open>Sending changes no reference count\<close>

lemma udp_raw_k [send_frame]: "w_k (snd (udp6_send_raw i s d m sp dp payload w)) = w_k w"
  by (simp add: udp6_send_raw_def send_frame)

lemma send_from_k [send_frame]: "w_k (snd (udp6_send_from i sid d m dp e payload w)) = w_k w"
proof -
  have "w_k w' = w_k w" if "udp6_send_raw i s d m sp dp payload w = (r, w')" for s sp r w'
    using udp_raw_k [of i s d m sp dp payload w] that by simp
  then show ?thesis by (auto simp: udp6_send_from_def split: option.split prod.split sum.split)
qed

lemma send_bound_k [send_frame]: "w_k (snd (udp6_send_bound i sid d dp payload w)) = w_k w"
proof -
  obtain r w1 where n: "next_hop_mac i d w = (r, w1)" by fastforce
  then have "w_k w1 = w_k w" using hop_k(2) by (metis snd_conv)
  then show ?thesis by (simp add: udp6_send_bound_def n send_frame split: sum.split)
qed

definition sock_refs_of :: "udp6_state \<Rightarrow> (bool \<times> nat) list" where
  "sock_refs_of u = map (\<lambda>s. (us_used s, us_refs s)) (ud_socks u)"

lemma map_upd_same: "(\<And>x. g (f x) = g x) \<Longrightarrow> map g (upd_at i f xs) = map g xs"
  by (cases "i < length xs") (simp_all add: upd_at_def map_update list_update_same_conv list_update_beyond)

lemma set_port_refs [simp]: "sock_refs_of (u\<lparr>ud_socks := upd_at sid (udp6_set_port p) xs\<rparr>) = sock_refs_of (u\<lparr>ud_socks := xs\<rparr>)"
  unfolding sock_refs_of_def by (simp add: map_upd_same udp6_set_port_def)

lemma ephemeral_refs: "sock_refs_of (snd (udp6_ephemeral_loop n sid u)) = sock_refs_of u"
  by (induction n sid u rule: udp6_ephemeral_loop.induct) (simp_all add: Let_def, simp_all add: sock_refs_of_def)

lemma bind_refs: "sock_refs_of (snd (udp6_bind_ephemeral sid u)) = sock_refs_of u" "sock_refs_of (snd (net_udp6_bind sid p u)) = sock_refs_of u"
proof -
  show e: "sock_refs_of (snd (udp6_bind_ephemeral sid u)) = sock_refs_of u"
    by (simp add: udp6_bind_ephemeral_def ephemeral_refs)
  then have "sock_refs_of u' = sock_refs_of u" if "udp6_bind_ephemeral sid u = (r, u')" for r u'
    using that by simp
  then show "sock_refs_of (snd (net_udp6_bind sid p u)) = sock_refs_of u"
    by (auto simp: net_udp6_bind_def split: prod.split sum.split)
qed

lemma recv_refs: "sock_refs_of (snd (net_udp6_try_recv sid u)) = sock_refs_of u"
  unfolding sock_refs_of_def net_udp6_try_recv_def Let_def by (simp add: map_upd_same udp6_dequeue_def)

lemma keeps_set_udp: "sock_refs_of u = sock_refs_of (udp_of w) \<Longrightarrow> kernel_keeps (w_k w) (w_k (set_udp u w))"
  by (rule kernel_keeps_sock_list [where u = u]) (simp_all add: set_udp_def sock_refs_of_def)

lemma sendto_keeps: "kernel_keeps (w_k w) (w_k (snd (net_udp6_sendto sid d dp payload w)))"
proof -
  have "kernel_keeps (w_k w) (w_k (set_udp u (need_ll 0 w)))" if "udp6_bind_ephemeral sid (udp_of (need_ll 0 w)) = (r, u)" for r u
    using keeps_set_udp [of u "need_ll 0 w"] bind_refs(1) [of sid "udp_of (need_ll 0 w)"] that by (simp add: send_frame)
  then show ?thesis
    by (auto simp: net_udp6_sendto_def Let_def send_frame split: prod.split sum.split)
qed

lemma conn_keeps:
  assumes "\<And>c. tc_used (f c) = tc_used c" and "\<And>c. tc_refs (f c) = tc_refs c"
  shows "kernel_keeps (w_k w) (w_k (upd_conn cid f w))"
  by (rule kernel_keeps_conn [OF _ _ refl]) (rule assms)+

lemma keeps_set_tcp: "tt_conns t = tt_conns (tcp_of w) \<Longrightarrow> kernel_keeps (w_k w) (w_k (set_tcp t w))"
  by (simp add: kernel_keeps_def set_tcp_def tcp_of_def sock_refs_def conn_refs_def list_all2_same)

lemma syn_keeps: "kernel_keeps (w_k w) (w_k (snd (tcp6_syn cid w)))"
proof -
  have p: "w_k w' = w_k w" if "tcp6_prepare_l2 i d w = (r, w')" for i d r w'
    using hop_k(3) [of i d w] that by simp
  have s: "w_k w' = w_k w" if "tcp6_send_segment i s d m sp dp sq ak fl pl mss w = (r, w')" for i s d m sp dp sq ak fl pl mss r w w'
    using hop_k(4) [of i s d m sp dp sq ak fl pl mss w] that by simp
  have "kernel_keeps (w_k w) (w_k (upd_conn cid (\<lambda>c. c\<lparr>tc_last_syn_tx_ns := t\<rparr>) w2))" if "w_k w2 = w_k w" for t w2
    using conn_keeps [of "\<lambda>c. c\<lparr>tc_last_syn_tx_ns := t\<rparr>" w2] that by simp
  then show ?thesis
    using p s by (auto simp: tcp6_syn_def Let_def split: prod.split sum.split option.split)
qed

lemma connect_keeps: "kernel_keeps (w_k w) (w_k (snd (net_tcp6_connect_start cid d dp w)))"
proof -
  have c: "tt_conns st = tt_conns (tcp_of w)" if "tcp6_next_ephemeral_port (tcp_of w) = (p, st)" for p st
    using port_loop_conns [of 2000 "tcp_of w"] that by (simp add: tcp6_next_ephemeral_port_def)
  have u: "kernel_keeps (w_k w) (w_k (upd_conn cid f (set_tcp st w)))"
    if "tt_conns st = tt_conns (tcp_of w)" "\<And>c. tc_used (f c) = tc_used c" "\<And>c. tc_refs (f c) = tc_refs c" for st f
    by (rule kernel_keeps_trans [OF keeps_set_tcp [OF that(1)] conn_keeps [OF that(2,3)]])
  have a: "kernel_keeps (w_k w) (w_k (upd_conn cid (\<lambda>c. c\<lparr>tc_local_port := 0\<rparr>) (set_tcp st w)))"
    if "tcp6_next_ephemeral_port (tcp_of w) = (p, st)" for p st
    by (rule u [OF c [OF that]]) simp_all
  have b: "kernel_keeps (w_k w) (w_k (snd (tcp6_syn cid (upd_conn cid (tcp6_open cid p d dp t) (set_tcp st w)))))"
    if "tcp6_next_ephemeral_port (tcp_of w) = (p, st)" for p st t
    by (rule kernel_keeps_trans [OF u [OF c [OF that]] syn_keeps]) (simp_all add: tcp6_open_def Let_def)
  show ?thesis
    using a b syn_keeps by (auto simp: net_tcp6_connect_start_def split: prod.split option.split)
qed

lemma send_loop_keeps: "kernel_keeps (w_k w) (w_k (snd (tcp6_send_loop cid src mac buf sent w)))"
proof (induction cid src mac buf sent w rule: tcp6_send_loop.induct)
  case (1 cid src mac buf sent w)
  let ?c = "tt_conns (tcp_of w) ! cid"
  define chunk where "chunk = min (length buf - sent) TCP6_MSS"
  obtain r w1 where s: "tcp6_send_segment 0 src (tc_remote_ip ?c) mac (tc_local_port ?c) (tc_remote_port ?c) (tc_snd_nxt ?c)
      (tc_rcv_nxt ?c) (TCP_FLG_ACK OR TCP_FLG_PSH) (take chunk (drop sent buf)) False w = (r, w1)" by fastforce
  have k1: "w_k w1 = w_k w" using hop_k(4) s by (metis snd_conv)
  show ?case
  proof (cases "length buf \<le> sent \<or> (\<exists>e. r = Inl e)")
    case True
    then show ?thesis
      using s k1 by (auto simp: tcp6_send_loop.simps [of cid src mac buf sent w] Let_def chunk_def)
  next
    case False
    then obtain u where r: "r = Inr u" "\<not> length buf \<le> sent" by (cases r) auto
    let ?w2 = "upd_conn cid (\<lambda>c. c\<lparr>tc_snd_nxt := tc_snd_nxt c + word_of_nat chunk\<rparr>) w1"
    have "kernel_keeps (w_k w1) (w_k ?w2)" by (rule conn_keeps) simp_all
    moreover have "kernel_keeps (w_k ?w2) (w_k (snd (tcp6_send_loop cid src mac buf (sent + chunk) ?w2)))"
      using "1.IH" [OF r(2) refl refl s [unfolded chunk_def, symmetric] r(1)] by (simp add: chunk_def)
    ultimately have "kernel_keeps (w_k w) (w_k (snd (tcp6_send_loop cid src mac buf (sent + chunk) ?w2)))"
      unfolding k1 by (rule kernel_keeps_trans)
    then show ?thesis
      using s r by (simp add: tcp6_send_loop.simps [of cid src mac buf sent w] Let_def chunk_def)
  qed
qed

lemma tcp_send_keeps: "kernel_keeps (w_k w) (w_k (snd (net_tcp6_send cid buf w)))"
proof -
  have p: "w_k w' = w_k w" if "tcp6_prepare_l2 i d w = (r, w')" for i d r w'
    using hop_k(3) [of i d w] that by simp
  have "kernel_keeps (w_k w) (w_k (snd (tcp6_send_loop cid src mac buf 0 w')))" if "tcp6_prepare_l2 i d w = (r, w')" for i d r w' src mac
    using send_loop_keeps [of w' cid src mac buf 0] p [OF that] by simp
  then show ?thesis
    using p by (auto simp: net_tcp6_send_def split: prod.split sum.split option.split)
qed

lemma echo_keeps: "kernel_keeps (w_k w) (w_k (snd (ping_echo idx i d m ident seq w)))"
  using ping_start_keeps [of w idx "w_now w"] by (simp add: ping_echo_def send_frame)

lemma ping6_start_keeps: "kernel_keeps (w_k w) (w_k (snd (net_ipv6_ping6_start idx i d ident seq w)))"
proof -
  have s: "w_k (snd (ping_solicit i nh w)) = w_k w" for nh w by (simp add: ping_solicit_def send_frame)
  have l: "kernel_keeps (w_k w1) (w_k (snd (ping_launch idx i d ident seq w1)))" for w1
  proof -
    have e: "kernel_keeps (w_k w1) (w_k (snd (ping_echo idx i d m ident seq (w1\<lparr>w_ping := g\<rparr>))))" for m g
      using echo_keeps [of "w1\<lparr>w_ping := g\<rparr>" idx i d m ident seq] by simp
    then show ?thesis
      by (simp add: ping_launch_def Let_def s split: sum.split option.split)
  qed
  let ?w1 = "need_ll i (upd_dbg (\<lambda>d. d\<lparr>db_ping6_calls := db_ping6_calls d + 1\<rparr>) w)"
  have "w_k ?w1 = w_k w" by (simp add: send_frame)
  then show ?thesis
    using l [of ?w1] by (simp add: net_ipv6_ping6_start_def Let_def send_frame)
qed

lemma cancel_k: "w_k (net_ipv6_ping6_cancel idx w) = w_k w"
  by (simp add: net_ipv6_ping6_cancel_def)

subsection \<open>Fresh sockets\<close>

lemma fd_inv_same_ends:
  assumes "fd_inv held tabs s" and "fd_shape tabs s'" and "fs_descs s' = fs_descs s" and "\<And>kd. ep_count kd s' = ep_count kd s"
  shows "fd_inv held tabs s'"
  using assms by (simp add: fd_inv_def del: ep_count.simps cong: option.case_cong)

text \<open>A description for an object that has just been taken into use with one reference.\<close>

lemma fresh_end_inv:
  assumes inv: "fd_inv held tabs s0" and sh: "fd_shape tabs s1" and ds: "fs_descs s1 = fs_descs s0"
    and al: "desc_alloc s1 = (Some d, s)" and new: "ep_count kd s0 = None" "ep_count kd s1 = Some 1"
    and other: "\<And>k'. k' \<noteq> kd \<Longrightarrow> ep_count k' s1 = ep_count k' s0"
  shows "fd_inv (held(d := Suc (held d))) tabs (desc_setup d kd s)" and "d < MAX_FILEDESCS" and "held d = 0"
proof -
  have len: "length (fs_descs s1) = MAX_FILEDESCS" "length (fs_descs s0) = MAX_FILEDESCS"
    using sh ds by (simp_all add: fd_shape_def)
  note a = desc_alloc_Some [OF al len(1)]
  let ?ds = "upd_at d (\<lambda>_. \<lparr>fd_kind = kd, fd_refs = 1\<rparr>) (fs_descs s0)"
  have s: "desc_setup d kd s = s1\<lparr>fs_descs := ?ds\<rparr>"
    using a ds by (simp add: desc_setup_def upd_at_def)
  have e: "ep_count k' (s1\<lparr>fs_descs := ?ds\<rparr>) = ep_count k' s1" for k' by (cases k') simp_all
  show "d < MAX_FILEDESCS" using a by simp
  then show "held d = 0" using inv a ds unfolding fd_inv_def by (metis add_is_0)
  show "fd_inv (held(d := Suc (held d))) tabs (desc_setup d kd s)"
  proof (rule fd_inv_new_desc [OF inv])
    show "fd_shape tabs (desc_setup d kd s)" unfolding s by (rule fd_shape_descs [OF sh]) (simp add: len)
    show "fs_descs (desc_setup d kd s) = ?ds" by (simp add: s)
    show "ep_count k' (desc_setup d kd s) = (if k' = kd then Some (case ep_count k' s0 of None \<Rightarrow> 1 | Some n \<Rightarrow> Suc n) else ep_count k' s0)" for k'
      unfolding s e using new other by simp
  qed (use a ds in simp_all)
qed

lemma fd_install_task:
  assumes ok: "fd_task k" and o: "fd_inv (no_held(d := 1)) (proc_tabs k) s" and d: "d < MAX_FILEDESCS"
    and a: "fd_alloc_into (p_fdt (cur_proc k)) n d s = (fd, tb, s')"
  shows "fd_task ((set_fdt tb k)\<lparr>k_fd := desc_decref d s'\<rparr>)"
proof -
  note t = fd_taskD [OF ok]
  have sm: "fd_small (no_held(d := 1)) (proc_tabs k)" using t(5) by (simp add: fd_small_def)
  have "fd_inv (no_held(d := 1)) (tabs_with tb k) s'"
    unfolding tabs_with_def by (rule fd_alloc_into_inv [OF o sm d _ t(2)]) (use held_live [OF o d] a t(4) in simp_all)
  then have "fd_inv ((no_held(d := 1))(d := 0)) (tabs_with tb k) (desc_decref d s')"
    by (rule desc_decref_inv [OF _ d]) simp
  then have "fd_inv no_held (tabs_with tb k) (desc_decref d s')" by (simp add: fun_upd_idem)
  then show ?thesis by (rule fd_task_put [OF ok]) simp_all
qed

lemma sock_install_task:
  "fd_task k \<Longrightarrow> fd_inv (no_held(d := 1)) (proc_tabs k) (desc_setup d kd s) \<Longrightarrow> d < MAX_FILEDESCS \<Longrightarrow>
   fd_task (snd (sock_install d kd s k))"
  by (auto simp: sock_install_def intro: fd_install_task split: prod.split)

lemma sock_install_keeps: "socks_ok s \<Longrightarrow> fd_keeps k (snd (sock_install d kd s k))"
  by (auto simp: sock_install_def split: prod.split dest: alloc_into_socks)

lemma sock_install_tree: "fs_tree k \<Longrightarrow> fs_tree (snd (sock_install d kd s k))"
  by (auto simp: sock_install_def set_fdt_def frame_simps split: prod.split)

lemma fresh_socket_ok:
  assumes ok: "kernel_ok k" and sh: "fd_shape (proc_tabs k) s1" and ds: "fs_descs s1 = fs_descs (k_fd k)" and so: "socks_ok s1"
    and al: "desc_alloc s1 = (Some d, s)" and new: "ep_count kd (k_fd k) = None" "ep_count kd s1 = Some 1"
    and other: "\<And>k'. k' \<noteq> kd \<Longrightarrow> ep_count k' s1 = ep_count k' (k_fd k)"
  shows "kernel_ok (snd (sock_install d kd s k))"
proof -
  have t: "fd_task k" by (rule kernel_ok_fd [OF ok])
  note n = fresh_end_inv [OF fd_taskD(1) [OF t] sh ds al new other]
  have "fd_task (snd (sock_install d kd s k))" by (rule sock_install_task [OF t]) (use n in simp_all)
  moreover have "socks_ok s" by (rule alloc_socks [OF al so])
  ultimately show ?thesis
    using ok by (intro keeps_ok [OF ok]) (simp_all add: sock_install_keeps sock_install_tree kernel_ok_def)
qed

lemma dropped_socket_ok:
  assumes ok: "kernel_ok k" and sh: "fd_shape (proc_tabs k) s1" and ds: "fs_descs s1 = fs_descs (k_fd k)" and so: "socks_ok s1"
    and same: "\<And>k'. ep_count k' s1 = ep_count k' (k_fd k)"
  shows "kernel_ok (k\<lparr>k_fd := s1\<rparr>)"
proof -
  have t: "fd_task k" by (rule kernel_ok_fd [OF ok])
  have "fd_inv no_held (proc_tabs k) s1" by (rule fd_inv_same_ends [OF fd_taskD(1) [OF t] sh ds same])
  then have "fd_task (k\<lparr>k_fd := s1\<rparr>)" by (intro fd_task_same [OF t]) simp_all
  then show ?thesis using ok so by (intro keeps_ok [OF ok]) (simp_all add: kernel_ok_def frame_simps)
qed

lemma kernel_ok_shape: "kernel_ok k \<Longrightarrow> fd_shape (proc_tabs k) (k_fd k)"
  using fd_taskD(1) [OF kernel_ok_fd] by (simp add: fd_inv_def)

lemma udp6_socket_ok:
  assumes ok: "kernel_ok k"
  shows "kernel_ok (snd (sys_mona_udp6_socket k))"
proof -
  let ?u = "fs_udp (k_fd k)"
  have so: "socks_ok (k_fd k)" using ok by (simp add: kernel_ok_def)
  note sh = kernel_ok_shape [OF ok]
  have len: "length (ud_socks ?u) = UDP6_SOCKS" using sh by (simp add: fd_shape_def)
  show ?thesis
  proof (cases "find_slot (\<lambda>s. \<not> us_used s) (ud_socks ?u)")
    case None
    then show ?thesis using ok by (simp add: sys_mona_udp6_socket_def net_udp6_socket_alloc_def)
  next
    case (Some sid)
    note f = find_slot_Some [OF Some]
    define st where "st = ?u\<lparr>ud_socks := upd_at sid (udp6_sock_reset True 1) (ud_socks ?u)\<rparr>"
    let ?s1 = "(k_fd k)\<lparr>fs_udp := st\<rparr>"
    have al: "net_udp6_socket_alloc ?u = (Inr sid, st)" using Some by (simp add: net_udp6_socket_alloc_def st_def)
    have sh1: "fd_shape (proc_tabs k) ?s1" using sh by (simp add: fd_shape_def st_def)
    have so1: "socks_ok ?s1" using so udp6_alloc_ok [of ?u] al by (simp add: socks_ok_def)
    have e: "ep_count (FDESC_UDP6 sid) (k_fd k) = None" "ep_count (FDESC_UDP6 sid) ?s1 = Some 1"
      "\<And>k'. k' \<noteq> FDESC_UDP6 sid \<Longrightarrow> ep_count k' ?s1 = ep_count k' (k_fd k)"
      using f len by (simp_all add: st_def udp6_sock_reset_def)
        (case_tac k', auto simp: nth_upd_at split: pipe_end.split)
    let ?s2 = "?s1\<lparr>fs_udp := net_udp6_on_desc_decref sid st\<rparr>"
    have "ep_count k' ?s2 = ep_count k' (k_fd k)" for k'
      using f len by (cases k') (auto simp: st_def net_udp6_on_desc_decref_def udp6_sock_decref_def udp6_sock_reset_def nth_upd_at
          split: pipe_end.split)
    then have drop: "kernel_ok (k\<lparr>k_fd := ?s2\<rparr>)"
      using so1 udp6_on_decref_ok sh
      by (intro dropped_socket_ok [OF ok]) (simp_all add: socks_ok_def fd_shape_def st_def net_udp6_on_desc_decref_def)
    obtain r s where a: "desc_alloc ?s1 = (r, s)" by fastforce
    show ?thesis
    proof (cases r)
      case None
      then have "s = ?s1" using a desc_alloc_None by blast
      then show ?thesis using a None al drop by (simp add: sys_mona_udp6_socket_def)
    next
      case (Some d)
      have "kernel_ok (snd (sock_install d (FDESC_UDP6 sid) s k))"
        by (rule fresh_socket_ok [OF ok sh1 _ so1 a [unfolded Some] e]) simp
      then show ?thesis using a Some al by (auto simp: sys_mona_udp6_socket_def split: prod.split)
    qed
  qed
qed

lemma tcp6_socket_ok:
  assumes ok: "kernel_ok k"
  shows "kernel_ok (snd (tcp6_socket k))"
proof -
  let ?t = "fs_tcp (k_fd k)"
  have so: "socks_ok (k_fd k)" using ok by (simp add: kernel_ok_def)
  note sh = kernel_ok_shape [OF ok]
  have len: "length (tt_conns ?t) = TCP6_MAX_CONNS" using sh by (simp add: fd_shape_def)
  show ?thesis
  proof (cases "find_slot (\<lambda>c. \<not> tc_used c) (tt_conns ?t)")
    case None
    then show ?thesis using ok by (simp add: tcp6_socket_def net_tcp6_conn_alloc_def)
  next
    case (Some cid)
    note f = find_slot_Some [OF Some]
    define st where "st = ?t\<lparr>tt_conns := upd_at cid (tcp6_conn_reset True 1) (tt_conns ?t)\<rparr>"
    let ?s1 = "(k_fd k)\<lparr>fs_tcp := st\<rparr>"
    have al: "net_tcp6_conn_alloc ?t = (Inr cid, st)" using Some by (simp add: net_tcp6_conn_alloc_def st_def)
    have sh1: "fd_shape (proc_tabs k) ?s1" using sh by (simp add: fd_shape_def st_def)
    have so1: "socks_ok ?s1" using socks_ok_tcp(3) [OF so] al by simp
    have e: "ep_count (FDESC_TCP6 cid) (k_fd k) = None" "ep_count (FDESC_TCP6 cid) ?s1 = Some 1"
      "\<And>k'. k' \<noteq> FDESC_TCP6 cid \<Longrightarrow> ep_count k' ?s1 = ep_count k' (k_fd k)"
      using f len by (simp_all add: st_def tcp6_conn_reset_def)
        (case_tac k', auto simp: nth_upd_at split: pipe_end.split)
    let ?s2 = "?s1\<lparr>fs_tcp := net_tcp6_on_desc_decref cid st\<rparr>"
    have "ep_count k' ?s2 = ep_count k' (k_fd k)" for k'
      using f len by (cases k') (auto simp: st_def net_tcp6_on_desc_decref_def tcp6_get_def tcp6_conn_decref_def tcp6_conn_reset_def
          nth_upd_at split: pipe_end.split option.split)
    moreover have "socks_ok ?s2" using socks_ok_tcp(2) [OF so1, of cid] by simp
    ultimately have drop: "kernel_ok (k\<lparr>k_fd := ?s2\<rparr>)"
      using sh by (intro dropped_socket_ok [OF ok])
        (simp_all add: fd_shape_def st_def net_tcp6_on_desc_decref_def split: option.split)
    obtain r s where a: "desc_alloc ?s1 = (r, s)" by fastforce
    show ?thesis
    proof (cases r)
      case None
      then have "s = ?s1" using a desc_alloc_None by blast
      then show ?thesis using a None al drop by (simp add: tcp6_socket_def)
    next
      case (Some d)
      have "kernel_ok (snd (sock_install d (FDESC_TCP6 cid) s k))"
        by (rule fresh_socket_ok [OF ok sh1 _ so1 a [unfolded Some] e]) simp
      then show ?thesis using a Some al by (auto simp: tcp6_socket_def split: prod.split)
    qed
  qed
qed

lemma set_fdt_tree: "fs_tree (set_fdt t k) = fs_tree k"
  by (simp add: set_fdt_def frame_simps)

lemma close_fd_ok:
  assumes ok: "kernel_ok k"
  shows "kernel_ok (close_fd fd k)"
proof -
  have t: "fd_task k" by (rule kernel_ok_fd [OF ok])
  obtain tb s where c: "fd_close (p_fdt (cur_proc k)) fd (k_fd k) = (tb, s)" by fastforce
  then have "fd_task ((set_fdt tb k)\<lparr>k_fd := s\<rparr>)"
    using fd_close_inv [OF fd_taskD(1,2) [OF t]] fd_taskD(4) [OF t] by (intro fd_task_put [OF t]) (simp_all add: tabs_with_def)
  moreover have "socks_ok s" using close_socks [OF c] ok by (simp add: kernel_ok_def)
  ultimately show ?thesis
    using ok c by (intro keeps_ok [OF ok]) (simp_all add: close_fd_def kernel_ok_def set_fdt_tree frame_simps)
qed

subsection \<open>Kernel and packet layer together\<close>

definition world_ok :: "world \<Rightarrow> bool" where
  "world_ok w \<longleftrightarrow> net_ok w \<and> kernel_ok (w_k w)"

definition device :: "(world \<Rightarrow> world) \<Rightarrow> bool" where
  "device f \<longleftrightarrow> (\<forall>w. net_ok w \<longrightarrow> net_ok (f w) \<and> kernel_keeps (w_k w) (w_k (f w)) \<and> length (w_ifs (f w)) = length (w_ifs w))"

lemma net_ok_socks: "net_ok w \<Longrightarrow> socks_ok (k_fd (w_k w))"
  by (simp add: net_ok_def socks_ok_def tcp_of_def udp_of_def)

lemma net_ok_with: "net_ok w \<Longrightarrow> socks_ok (k_fd k) \<Longrightarrow> net_ok (w\<lparr>w_k := k\<rparr>)"
  by (simp add: net_ok_def socks_ok_def tcp_of_def udp_of_def)

lemma world_ok_with: "net_ok w \<Longrightarrow> kernel_ok k \<Longrightarrow> world_ok (w\<lparr>w_k := k\<rparr>)"
  using net_ok_with [of w k] by (simp add: world_ok_def kernel_ok_def)

lemma keeps_fields:
  assumes "kernel_keeps k k'"
  shows "k_vfs k' = k_vfs k" and "k_archive k' = k_archive k"
proof -
  have k': "k' = k\<lparr>k_procs := k_procs k', k_fd := (k_fd k)\<lparr>fs_udp := fs_udp (k_fd k'), fs_tcp := fs_tcp (k_fd k')\<rparr>\<rparr>"
    using assms by (simp add: kernel_keeps_def)
  show "k_vfs k' = k_vfs k" "k_archive k' = k_archive k"
    using arg_cong [OF k', of k_vfs] arg_cong [OF k', of k_archive] by simp_all
qed

lemma keeps_base:
  assumes ke: "kernel_keeps k k'" and ok: "base_ok k" and so: "socks_ok (k_fd k')"
  shows "base_ok k'"
proof -
  note p = kernel_keeps_poll [OF ke]
  have "task_ok k'"
    using task_ok_tasks [OF _ p(3)] p(1,2) ok by (simp add: base_ok_def task_ok_def sched_ok_def)
  then show ?thesis using ok so keeps_fields [OF ke] by (simp add: base_ok_def fs_tree_def)
qed

lemma keeps_may_run:
  assumes ke: "kernel_keeps k k'" and i: "i < length (k_procs k)" and m: "may_run (p_state (k_procs k ! i))"
  shows "may_run (p_state (k_procs k' ! i))"
proof -
  have "same_or_net (k_procs k ! i) (k_procs k' ! i)"
    using kernel_keeps_poll(4) [OF ke] i by (simp add: list_all2_conv_all_nth)
  then show ?thesis using m by (auto simp: same_or_net_def woken_by_net_def)
qed

lemma world_step:
  assumes ok: "world_ok w" and ke: "kernel_keeps (w_k w) (w_k w')" and net: "net_ok w'"
  shows "world_ok w'"
proof -
  have b: "base_ok (w_k w)" "may_run (p_state (cur_proc (w_k w)))" using ok by (simp_all add: world_ok_def kernel_ok_base)
  have "may_run (p_state (cur_proc (w_k w')))"
    using keeps_may_run [OF ke] b base_ok_cur [OF b(1)] kernel_keeps_poll(2) [OF ke] by (simp add: cur_proc_def)
  then show ?thesis
    using keeps_base [OF ke b(1) net_ok_socks [OF net]] net by (simp add: world_ok_def kernel_ok_base)
qed

lemma device_step: "device f \<Longrightarrow> world_ok w \<Longrightarrow> world_ok (f w)"
  by (rule world_step) (auto simp: device_def world_ok_def)

lemma device_base:
  assumes "device f" and "net_ok w" and "base_ok (w_k w)"
  shows "net_ok (f w) \<and> base_ok (w_k (f w)) \<and> k_cur (w_k (f w)) = k_cur (w_k w)"
  using assms keeps_base [of "w_k w" "w_k (f w)"] net_ok_socks [of "f w"] kernel_keeps_poll(2) [of "w_k w" "w_k (f w)"]
  by (auto simp: device_def)

lemma device_may_run:
  "device f \<Longrightarrow> net_ok w \<Longrightarrow> i < length (k_procs (w_k w)) \<Longrightarrow> may_run (p_state (k_procs (w_k w) ! i)) \<Longrightarrow>
   may_run (p_state (k_procs (w_k (f w)) ! i))"
  using keeps_may_run by (auto simp: device_def)

lemma world_ok_calm: "world_ok w \<Longrightarrow> calm (w_k w) k \<Longrightarrow> world_ok (w\<lparr>w_k := k\<rparr>)"
  using kernel_ok_calm world_ok_with by (auto simp: world_ok_def)

text \<open>A call on a descriptor of a socket, and reading an argument of 16 bytes.\<close>

lemma read_bytes_length: "read_bytes_from_user k a n = Some bs \<Longrightarrow> length bs = unat n"
  by (auto simp: read_bytes_from_user_def load_bytes_def split: if_splits)

lemma udp6_bind_call_ok:
  assumes ok: "kernel_ok k"
  shows "kernel_ok (snd (sys_mona_udp6_bind fd port k))"
proof -
  let ?u = "fs_udp (k_fd k)"
  have t: "fd_task k" and so: "socks_ok (k_fd k)" using ok kernel_ok_fd by (simp_all add: kernel_ok_def)
  have "kernel_ok (k\<lparr>k_fd := (k_fd k)\<lparr>fs_udp := snd (net_udp6_bind sid p ?u)\<rparr>\<rparr>)" (is "kernel_ok (k\<lparr>k_fd := ?s\<rparr>)") for sid p
  proof -
    have "fd_inv no_held (proc_tabs k) ?s"
      by (rule same_refs_fd_inv [OF fd_taskD(1) [OF t]]) (use bind_refs(2) [of sid p ?u] in \<open>simp_all add: sock_refs_of_def\<close>)
    then have "fd_task (k\<lparr>k_fd := ?s\<rparr>)" by (intro fd_task_same [OF t]) simp_all
    moreover have "socks_ok ?s" using so udp6_bind_ok by (simp add: socks_ok_def)
    ultimately show ?thesis using ok by (intro keeps_ok [OF ok]) (simp_all add: kernel_ok_def frame_simps)
  qed
  then show ?thesis using ok by (simp add: sys_mona_udp6_bind_def split_beta split: sum.split)
qed

lemma udp6_sendto_call_ok:
  assumes ok: "world_ok w"
  shows "world_ok (snd (sys_mona_udp6_sendto fd d port u n w))"
proof -
  have "world_ok (snd (net_udp6_sendto sid ip p pl w))" if "read_bytes_from_user (w_k w) d 16 = Some ip" for sid ip p pl
  proof -
    have "length ip = 16" using read_bytes_length [OF that] by simp
    then show ?thesis
      using world_step [OF ok sendto_keeps] stays_sendto ok by (simp add: world_ok_def stays_def)
  qed
  then show ?thesis
    using ok unfolding sys_mona_udp6_sendto_def split_beta
    by (auto split: sum.split option.split prod.split)
qed

end
