(* ===== verification/MachineOk.thy ===== *)
theory MachineOk
  imports NetCalls TcpStream
begin

text \<open>
  The network calls that wait, the dispatcher and the exception handler: every exception leaves the
  machine in a state that satisfies the invariant of all its parts.
\<close>

subsection \<open>Receiving a datagram\<close>

lemma udp6_taken_ok:
  assumes ok: "kernel_ok k" and r: "net_udp6_try_recv sid (fs_udp (k_fd k)) = (res, st)"
  shows "kernel_ok (snd (udp6_taken u dg st k))"
proof -
  let ?s = "(k_fd k)\<lparr>fs_udp := st\<rparr>"
  have t: "fd_task k" and so: "socks_ok (k_fd k)" using ok kernel_ok_fd by (simp_all add: kernel_ok_def)
  have st: "st = snd (net_udp6_try_recv sid (fs_udp (k_fd k)))" using r by simp
  have "fd_inv no_held (proc_tabs k) ?s"
    by (rule same_refs_fd_inv [OF fd_taskD(1) [OF t]]) (use recv_refs [of sid "fs_udp (k_fd k)"] in \<open>simp_all add: sock_refs_of_def st\<close>)
  then have "fd_task (k\<lparr>k_fd := ?s\<rparr>)" by (intro fd_task_same [OF t]) simp_all
  moreover have "socks_ok ?s" using so udp6_try_recv_ok by (simp add: socks_ok_def st)
  ultimately have "kernel_ok (k\<lparr>k_fd := ?s\<rparr>)" using ok by (intro keeps_ok [OF ok]) (simp_all add: kernel_ok_def frame_simps)
  then show ?thesis by (simp add: udp6_taken_def split: prod.split)
qed

lemma taken_cur: "k_cur (snd (udp6_taken u dg st k)) = k_cur k"
  by (simp add: udp6_taken_def split: prod.split)

lemma resched_kernel_ok:
  assumes "usb_ok (si_usb e)" and "kernel_ok k" and "resched e k = Some (q, k')"
  shows "kernel_ok k' \<and> (q = None \<longrightarrow> k_cur k' = k_cur k)"
  using resched_ok [OF assms(1) _ assms(3)] assms(2) wait_may_run by (cases q) (auto simp: kernel_ok_base)

lemma cur_state_ok:
  assumes "kernel_ok k" and "may_run (p_state (f (cur_proc k)))" and "p_fdt (f (cur_proc k)) = p_fdt (cur_proc k)"
    and "p_user_pa (f (cur_proc k)) = p_user_pa (cur_proc k)" and "p_ttbr0 (f (cur_proc k)) = p_ttbr0 (cur_proc k)"
  shows "kernel_ok (set_proc (k_cur k) f k)"
  using assms by (intro set_state_ok) (auto simp: kernel_ok_base same_mem_def may_run_def)

lemma idle_ok: "kernel_ok k \<Longrightarrow> kernel_ok (set_proc (k_cur k) udp6_idle k)"
  by (rule cur_state_ok) (simp_all add: udp6_idle_def)

definition turn_ok :: "turn \<Rightarrow> bool" where
  "turn_ok t \<longleftrightarrow> device (tn_poll t) \<and> usb_ok (si_usb (tn_sched t)) \<and> device (tn_net t)"

lemma device_world: "device f \<Longrightarrow> world_ok w \<Longrightarrow> world_ok (f w) \<and> k_cur (w_k (f w)) = k_cur (w_k w) \<and> length (w_ifs (f w)) = length (w_ifs w)"
  using device_step [of f w] kernel_keeps_poll(2) [of "w_k w" "w_k (f w)"] by (auto simp: device_def world_ok_def)

lemma resched_world:
  assumes "usb_ok (si_usb e)" and "world_ok w" and "resched e (w_k w) = Some (q, k')"
  shows "world_ok (w\<lparr>w_k := k'\<rparr>) \<and> (q = None \<longrightarrow> k_cur k' = k_cur (w_k w))"
  using resched_kernel_ok [OF assms(1) _ assms(3)] assms(2) world_ok_with by (auto simp: world_ok_def)

lemma world_ok_kernel: "world_ok w \<Longrightarrow> kernel_ok (w_k w)"
  by (simp add: world_ok_def)

lemma world_ok_on: "world_ok w \<Longrightarrow> kernel_ok (f (w_k w)) \<Longrightarrow> world_ok (on_kernel f w)"
  unfolding on_kernel_def by (rule world_ok_with) (simp_all add: world_ok_def)

lemma world_ok_put: "world_ok w \<Longrightarrow> kernel_ok k \<Longrightarrow> world_ok (w\<lparr>w_k := k\<rparr>)"
  by (rule world_ok_with) (simp_all add: world_ok_def)

lemma recv_wait_ok:
  assumes "list_all turn_ok ts" and "world_ok w" and "k_cur (w_k w) = c" and "recv_wait ts r u deadline c w = Back x r' w'"
  shows "world_ok w'"
  using assms
proof (induction ts arbitrary: w)
  case (Cons t ts)
  let ?w1 = "tn_poll t w"
  have tt: "device (tn_poll t)" "usb_ok (si_usb (tn_sched t))" "device (tn_net t)" using Cons.prems(1) by (simp_all add: turn_ok_def)
  note d1 = device_world [OF tt(1) Cons.prems(2)]
  obtain q k1 where q: "resched (tn_sched t) (w_k ?w1) = Some (q, k1)"
    using Cons.prems(4) by (auto simp: Let_def split: option.splits)
  note rs = resched_world [OF tt(2) conjunct1 [OF d1] q]
  let ?w2 = "tn_net t (?w1\<lparr>w_k := k1\<rparr>)"
  note d2 = device_world [OF tt(3) conjunct1 [OF rs]]
  note k2 = world_ok_kernel [OF conjunct1 [OF d2]]
  show ?case
  proof (cases q)
    case (Some r2)
    then show ?thesis using Cons.prems(4) q d2 by (simp add: Let_def)
  next
    case None
    have cur: "k_cur (w_k ?w2) = c" using d1 d2 rs None Cons.prems(3) by simp
    obtain res st where rv: "net_udp6_try_recv (pu_sock u) (udp_of ?w2) = (res, st)" by fastforce
    have idle: "world_ok (on_kernel (set_proc c udp6_idle) ?w2)"
      using world_ok_on [of ?w2 "set_proc c udp6_idle"] d2 idle_ok [OF k2] cur by simp
    show ?thesis
    proof (cases res)
      case (Inr dg)
      have t: "kernel_ok (snd (udp6_taken u dg st (w_k ?w2)))"
        by (rule udp6_taken_ok [OF k2]) (use rv in \<open>simp add: udp_of_def\<close>)
      have "world_ok (?w2\<lparr>w_k := set_proc c udp6_idle (snd (udp6_taken u dg st (w_k ?w2)))\<rparr>)"
        using idle_ok [OF t] taken_cur [of u dg st "w_k ?w2"] cur d2 by (intro world_ok_put) simp_all
      then show ?thesis using Cons.prems(4) q None rv Inr by (auto simp: Let_def split: prod.splits)
    next
      case (Inl e)
      show ?thesis
      proof (cases "e = EAGAIN \<and> \<not> overdue deadline ?w2")
        case True
        then show ?thesis using Cons.IH [OF _ conjunct1 [OF d2] cur] Cons.prems(1,4) q None rv Inl by (simp add: Let_def)
      next
        case False
        then show ?thesis using Cons.prems(4) q None rv Inl idle by (auto simp: Let_def split: if_splits)
      qed
    qed
  qed
qed simp

lemma recvfrom_ok:
  assumes ts: "list_all turn_ok ts" and ok: "world_ok w" and r: "sys_mona_udp6_recvfrom ts rg fd u n s p t w = Back x r' w'"
  shows "world_ok w'"
proof -
  have k: "kernel_ok (w_k w)" by (rule world_ok_kernel [OF ok])
  have taken: "world_ok (w\<lparr>w_k := snd (udp6_taken v dg st (w_k w))\<rparr>)"
    if "net_udp6_try_recv sid (udp_of w) = (res, st)" for v dg st sid res
    using udp6_taken_ok [OF k, of sid res st v dg] that by (intro world_ok_put [OF ok]) (simp add: udp_of_def)
  have park: "world_ok (on_kernel (set_cur (\<lambda>_. recv_park rg v t now (cur_proc (w_k w)))) w)" for v now
    using cur_state_ok [OF k, of "\<lambda>_. recv_park rg v t now (cur_proc (w_k w))"]
    by (intro world_ok_on [OF ok]) (simp add: recv_park_def set_cur_def)
  have cur: "k_cur (w_k (on_kernel (set_cur f) w)) = k_cur (w_k w)" for f by (simp add: on_kernel_def set_cur_def)
  show ?thesis
    using r ok taken recv_wait_ok [OF ts park cur]
    by (auto simp: sys_mona_udp6_recvfrom_def Let_def split: if_splits sum.splits prod.splits) (metis snd_conv)+
qed

subsection \<open>Ping\<close>

lemma upd_ping6_ok: "world_ok w \<Longrightarrow> world_ok (upd_ping6 c f w)"
  unfolding upd_ping6_def by (intro world_ok_on kernel_ok_calm [OF world_ok_kernel calm_set_proc]) (simp_all add: life_def)

lemma ping6_frame [simp]:
  "k_cur (w_k (upd_ping6 c f w)) = k_cur (w_k w)" "w_ifs (upd_ping6 c f w) = w_ifs w"
  "w_ifs (net_ipv6_ping6_cancel c w) = w_ifs w" "w_ifs (on_kernel g w) = w_ifs w"
  by (simp_all add: upd_ping6_def on_kernel_def net_ipv6_ping6_cancel_def)

lemma cancel_ok: "world_ok w \<Longrightarrow> world_ok (net_ipv6_ping6_cancel c w)"
  by (rule world_step) (use stays_cancel in \<open>auto simp: cancel_k world_ok_def stays_def\<close>)

lemma ping_start_ok:
  assumes ok: "world_ok w" and i: "w_ifs w \<noteq> []" and d: "length dst = 16" and r: "net_ipv6_ping6_start c 0 dst ident seq w = (res, w')"
  shows "world_ok w' \<and> k_cur (w_k w') = k_cur (w_k w) \<and> length (w_ifs w') = length (w_ifs w)"
proof -
  have w': "w' = snd (net_ipv6_ping6_start c 0 dst ident seq w)" using r by simp
  have "stays w w'" unfolding w' by (rule stays_ping6_start) (use ok i d in \<open>simp_all add: ready_def world_ok_def\<close>)
  then show ?thesis
    using world_step [OF ok, of w'] ping6_start_keeps [of w c 0 dst ident seq] kernel_keeps_poll(2) [of "w_k w" "w_k w'"]
    by (simp add: w' stays_def)
qed

lemma ping_retry_ok:
  assumes ok: "world_ok w" and i: "w_ifs w \<noteq> []" and d: "length dst = 16"
  shows "world_ok (ping_retry c dst ident seq w) \<and> k_cur (w_k (ping_retry c dst ident seq w)) = k_cur (w_k w) \<and>
    length (w_ifs (ping_retry c dst ident seq w)) = length (w_ifs w)"
proof -
  obtain res w1 where s: "net_ipv6_ping6_start c 0 dst ident seq w = (res, w1)" by fastforce
  note p = ping_start_ok [OF ok i d s]
  show ?thesis
    using p ok cancel_ok [OF upd_ping6_ok] by (auto simp: ping_retry_def s cancel_k split: sum.split)
qed

lemma ping_finish_ok: "world_ok w \<Longrightarrow> ping_finish c r w = Back x r' w' \<Longrightarrow> world_ok w'"
proof -
  assume ok: "world_ok w" and r: "ping_finish c r w = Back x r' w'"
  have "kernel_ok (set_proc c (\<lambda>p. p\<lparr>p_ping6 := ping6_clear, p_deadline := 0\<rparr>) ((w_k w)\<lparr>k_mem := m\<rparr>))" for m
    by (rule kernel_ok_calm [OF world_ok_kernel [OF ok]], rule calm_trans [OF calm_mem(1) calm_set_proc]) (simp_all add: life_def)
  then show "world_ok w'" using r world_ok_put [OF ok] by (auto simp: ping_finish_def Let_def)
qed

lemma ping_wait_ok:
  assumes "list_all device ps" and "world_ok w" and "w_ifs w \<noteq> []" and "length dst = 16"
    and "ping_wait ps c r dst ident seq w = Back x r' w'"
  shows "world_ok w'"
  using assms
proof (induction ps arbitrary: w)
  case (Cons f ps)
  show ?case
  proof (cases "pg_on (ping_of c w)")
    case False
    then show ?thesis using Cons.prems by simp
  next
    case True
    note rt = ping_retry_ok [OF Cons.prems(2-4), of c ident seq]
    have f: "device f" using Cons.prems(1) by simp
    let ?w2 = "f (ping_retry c dst ident seq w)"
    note d = device_world [OF f conjunct1 [OF rt]]
    have i2: "w_ifs ?w2 \<noteq> []" using d rt Cons.prems(3) by (metis length_0_conv)
    let ?w3 = "net_ipv6_ping6_cancel c (upd_ping6 c (\<lambda>g. g\<lparr>pg_done := True, pg_ret := sys_err ETIMEDOUT, pg_rtt := 0\<rparr>) ?w2)"
    have w3: "world_ok ?w3" using d by (intro cancel_ok upd_ping6_ok) simp
    consider "pg_done (ping_of c ?w2)" "ping_finish c r ?w2 = Back x r' w'"
      | "ping_finish c r ?w3 = Back x r' w'" | "ping_wait ps c r dst ident seq ?w2 = Back x r' w'"
      using Cons.prems(5) True by (auto simp: Let_def split: if_splits)
    then show ?thesis
    proof cases
      case 1
      then show ?thesis using ping_finish_ok d by blast
    next
      case 2
      then show ?thesis using ping_finish_ok [OF w3] by blast
    next
      case 3
      then show ?thesis using Cons.IH [OF _ conjunct1 [OF d] i2] Cons.prems(1,4) by simp
    qed
  qed
qed simp

lemma ping6_ok:
  assumes ps: "list_all device ps" and ok: "world_ok w" and r: "sys_mona_ping6 ps rg d ident seq t u w = Back x r' w'"
  shows "world_ok w'"
proof -
  have k: "kernel_ok (w_k w)" by (rule world_ok_kernel [OF ok])
  let ?c = "k_cur (w_k w)"
  have b: "k_cur (w_k w) < length (k_procs (w_k w))" using base_ok_cur [of "w_k w"] k by (simp add: kernel_ok_base)
  have w1: "world_ok (on_kernel (set_cur (ping_arm rg dst i s u dl)) w)" (is "world_ok ?w1") for dst i s dl
    using cur_state_ok [OF k, of "ping_arm rg dst i s u dl"] by (intro world_ok_on [OF ok]) (simp add: ping_arm_def set_cur_def)
  have cur1: "k_cur (w_k (on_kernel (set_cur g) w)) = ?c" for g by (simp add: on_kernel_def set_cur_def)
  show ?thesis
  proof (cases "pg_on (p_ping6 (cur_proc (w_k w))) \<or> read_bytes_from_user (w_k w) d 16 = None \<or>
      u \<noteq> 0 \<and> \<not> user_range_ok u 8 \<or> w_ifs w = []")
    case True
    then have "w' = w"
      using r by (cases "read_bytes_from_user (w_k w) d 16") (auto simp: sys_mona_ping6_def Let_def split: if_splits)
    then show ?thesis using ok by simp
  next
    case False
    then obtain dst where dst: "read_bytes_from_user (w_k w) d 16 = Some dst" by auto
    have l: "length dst = 16" using read_bytes_length [OF dst] by simp
    define dl where "dl = deadline_after (w_now w) (if t * 1000000 = 0 then 1000000000 else t * 1000000)"
    let ?w1 = "on_kernel (set_cur (ping_arm rg dst (ucast ident) (ucast seq) u dl)) w"
    obtain res w2 where s: "net_ipv6_ping6_start ?c 0 dst (ucast ident) (ucast seq) ?w1 = (res, w2)" by fastforce
    have i1: "w_ifs ?w1 \<noteq> []" using False by simp
    note p = ping_start_ok [OF w1 i1 l s]
    have i2: "w_ifs w2 \<noteq> []" using p i1 by (metis length_0_conv)
    have "world_ok (on_kernel (set_proc ?c (\<lambda>p. p\<lparr>p_ping6 := (p_ping6 p)\<lparr>pg_on := False\<rparr>, p_state := PROC_RUNNABLE, p_deadline := 0\<rparr>)) w2)"
      using cur_state_ok [OF world_ok_kernel [OF conjunct1 [OF p]],
          of "\<lambda>p. p\<lparr>p_ping6 := (p_ping6 p)\<lparr>pg_on := False\<rparr>, p_state := PROC_RUNNABLE, p_deadline := 0\<rparr>"] p cur1
      by (intro world_ok_on) simp_all
    moreover have "world_ok w'" if "ping_wait ps ?c rg dst (ucast ident) (ucast seq) w2 = Back x r' w'"
      by (rule ping_wait_ok [OF ps conjunct1 [OF p] i2 l that])
    ultimately show ?thesis
      using r False dst s by (auto simp: sys_mona_ping6_def Let_def dl_def [symmetric] split: if_splits sum.splits)
  qed
qed

lemma get_dns_ok: "world_ok w \<Longrightarrow> world_ok (snd (sys_mona_net6_get_dns u w))"
  using kernel_ok_frame(1) by (auto simp: sys_mona_net6_get_dns_def world_ok_kernel intro!: world_ok_on split: option.split)

subsection \<open>TCP calls\<close>

lemma close_world_ok: "world_ok w \<Longrightarrow> world_ok (on_kernel (close_fd fd) w)"
  by (intro world_ok_on close_fd_ok world_ok_kernel)

lemma connect_start_ok:
  assumes ok: "world_ok w" and d: "length dst = 16" and r: "net_tcp6_connect_start cid dst p w = (res, w')"
  shows "world_ok w'"
proof -
  have "w' = snd (net_tcp6_connect_start cid dst p w)" using r by simp
  then show ?thesis
    using world_step [OF ok connect_keeps] stays_connect [OF _ d] ok by (simp add: world_ok_def stays_def)
qed

lemma connect_wait_ok:
  assumes "list_all device ps" and "world_ok w" and "length dst = 16" and "connect_wait ps r cid fd dst p dl w = Back x r' w'"
  shows "world_ok w'"
  using assms
proof (induction ps arbitrary: w)
  case (Cons f ps)
  obtain res w1 where s: "net_tcp6_connect_start cid dst p w = (res, w1)" by fastforce
  have 1: "world_ok w1" by (rule connect_start_ok [OF Cons.prems(2,3) s])
  have 2: "world_ok (f w1)" using device_world [OF _ 1] Cons.prems(1) by simp
  show ?case
    using Cons.prems Cons.IH [OF _ 2] s close_world_ok [OF 1] close_world_ok [OF 2]
    by (auto simp: Let_def split: if_splits option.splits)
qed simp

lemma tcp6_connect_ok:
  assumes ps: "list_all device ps" and ok: "world_ok w" and r: "sys_mona_tcp6_connect ps rg d p t w = Back x r' w'"
  shows "world_ok w'"
proof -
  obtain res k where s: "tcp6_socket (w_k w) = (res, k)" by fastforce
  then have k: "world_ok (w\<lparr>w_k := k\<rparr>)"
    using tcp6_socket_ok [OF world_ok_kernel [OF ok]] by (intro world_ok_put [OF ok]) simp
  have c: "world_ok w'" if "read_bytes_from_user (w_k w) d 16 = Some dst" "connect_wait ps rg cid fd dst q dl (w\<lparr>w_k := k\<rparr>) = Back x r' w'"
    for dst cid fd q dl
    by (rule connect_wait_ok [OF ps k _ that(2)]) (use read_bytes_length [OF that(1)] in simp)
  show ?thesis
    using r ok s k c by (auto simp: sys_mona_tcp6_connect_def split: if_splits option.splits sum.splits)
qed

lemma tcp_send_ok: "world_ok w \<Longrightarrow> net_tcp6_send cid bs w = (res, w') \<Longrightarrow> world_ok w'"
  using world_step [OF _ tcp_send_keeps, of w cid bs] stays_tcp_send [of w cid bs] by (simp add: world_ok_def stays_def)

lemma send_chunks_ok: "world_ok w \<Longrightarrow> world_ok (snd (send_chunks cid u len off w))"
proof (induction cid u len off w rule: send_chunks.induct)
  case (1 cid u len off w)
  show ?case
  proof (cases "len \<le> off")
    case False
    define chunk where "chunk = min (len - off) 1200"
    show ?thesis
    proof (cases "read_bytes_from_user (w_k w) (u + word_of_nat off) (word_of_nat chunk)")
      case None
      then show ?thesis using False "1.prems" by (simp add: send_chunks.simps [of cid u len off w] chunk_def Let_def)
    next
      case (Some bs)
      obtain res w1 where s: "net_tcp6_send cid bs w = (res, w1)" by fastforce
      note 1 = tcp_send_ok [OF "1.prems" s]
      show ?thesis
      proof (cases res)
        case (Inr n)
        show ?thesis
        proof (cases "n = chunk")
          case True
          then show ?thesis
            using False Some s Inr "1.IH" [OF False refl Some [unfolded chunk_def] s [symmetric] Inr _ 1]
            by (simp add: send_chunks.simps [of cid u len off w] chunk_def Let_def)
        qed (use False Some s Inr 1 in \<open>simp add: send_chunks.simps [of cid u len off w] chunk_def Let_def\<close>)
      qed (use False Some s 1 in \<open>simp add: send_chunks.simps [of cid u len off w] chunk_def Let_def\<close>)
    qed
  qed (use "1.prems" in \<open>simp add: send_chunks.simps [of cid u len off w]\<close>)
qed

lemma tcp6_send_call_ok: "world_ok w \<Longrightarrow> world_ok (snd (sys_mona_tcp6_send fd u n w))"
  by (simp add: sys_mona_tcp6_send_def send_chunks_ok split: sum.split)

text \<open>Taking received bytes out of a connection.\<close>

lemma pull_refs: "tcp6_pull n c = (bs, c') \<Longrightarrow> tc_used c' = tc_used c \<and> tc_refs c' = tc_refs c"
  by (induction n arbitrary: c bs c') (auto split: prod.splits)

lemma tcp_recv_ok:
  assumes ok: "world_ok w" and r: "net_tcp6_try_recv cid n (tcp_of w) = (res, st)"
  shows "world_ok (set_tcp st w)"
proof (cases "tcp6_get cid (tcp_of w)")
  case None
  then have "st = tcp_of w" using r by (simp add: net_tcp6_try_recv_def)
  then show ?thesis using ok by (simp add: set_tcp_def tcp_of_def)
next
  case (Some c)
  let ?cs = "tt_conns (tcp_of w)"
  have net: "net_ok w" using ok by (simp add: world_ok_def)
  have cid: "cid < length ?cs" and c: "c = ?cs ! cid"
    using Some net by (auto simp: tcp6_get_def net_ok_def split: if_splits)
  have cok: "conn_ok c" using net cid c by (simp add: net_ok_def list_all_length)
  have same: "st = tcp_of w \<or> (\<exists>c'. st = (tcp_of w)\<lparr>tt_conns := ?cs[cid := c']\<rparr> \<and> tc_used c' = tc_used c \<and> tc_refs c' = tc_refs c)"
    using r Some by (auto simp: net_tcp6_try_recv_def Let_def dest!: pull_refs split: if_splits prod.splits)
  have "conn_ok (tt_conns st ! cid) \<and> (\<exists>c'. tt_conns st = ?cs[cid := c'])"
    using tcp6_recv_buffered [OF Some cok cid, of n] r cid c cok
    by (metis list_update_id nth_list_update_eq prod.inject tcp6_state.select_convs(1) tcp6_state.surjective tcp6_state.update_convs(1))
  then obtain c' where c': "tt_conns st = ?cs[cid := c']" "conn_ok c'" using cid by auto
  have refs: "map (\<lambda>c. (tc_used c, tc_refs c)) (tt_conns st) = map (\<lambda>c. (tc_used c, tc_refs c)) ?cs"
    using same c by (auto simp: map_update list_update_same_conv cid)
  have "kernel_keeps (w_k w) (w_k (set_tcp st w))"
    using refs by (simp add: kernel_keeps_def set_tcp_def sock_refs_def conn_refs_def tcp_of_def list_all2_same)
  moreover have "list_all conn_ok (?cs[cid := c'])"
    using net c'(2) by (auto simp: net_ok_def list_all_iff dest: set_update_subset_insert [THEN subsetD])
  then have "net_ok (set_tcp st w)"
    using net c'(1) by (simp add: net_ok_def set_tcp_def tcp_of_def udp_of_def)
  ultimately show ?thesis by (rule world_step [OF ok])
qed

lemma tcp6_recv_wait_ok:
  assumes "list_all device ps" and "world_ok w" and "tcp6_recv_wait ps r cid u n dl w = Back x r' w'"
  shows "world_ok w'"
  using assms
proof (induction ps arbitrary: w)
  case (Cons f ps)
  obtain res st where s: "net_tcp6_try_recv cid n (tcp_of w) = (res, st)" by fastforce
  have 1: "world_ok (set_tcp st w)" by (rule tcp_recv_ok [OF Cons.prems(2) s])
  have m: "world_ok (on_kernel (k_mem_update (\<lambda>_. m)) (set_tcp st w))" for m
    using world_ok_kernel [OF 1] by (intro world_ok_on [OF 1]) simp
  have 2: "world_ok (f w)" using device_world [OF _ Cons.prems(2)] Cons.prems(1) by simp
  show ?case
    using Cons.prems Cons.IH [OF _ 2] s 1 2 m
    by (auto simp: Let_def split: if_splits option.splits sum.splits)
qed simp

lemma tcp6_recv_call_ok:
  "list_all device ps \<Longrightarrow> world_ok w \<Longrightarrow> sys_mona_tcp6_recv ps rg fd u n t w = Back x r' w' \<Longrightarrow> world_ok w'"
  using tcp6_recv_wait_ok by (auto simp: sys_mona_tcp6_recv_def split: if_splits sum.splits)

subsection \<open>The dispatcher\<close>

text \<open>What the outside may do during one exception.\<close>

definition env_ok :: "env \<Rightarrow> bool" where
  "env_ok ev \<longleftrightarrow> list_all (\<lambda>(ob, e). usb_ok (si_usb e)) (ev_reads ev) \<and> usb_ok (si_usb (ev_sched ev)) \<and>
     device (ev_net ev) \<and> list_all turn_ok (ev_turns ev) \<and> list_all device (ev_polls ev) \<and>
     usb_ok (si_usb (ev_last ev)) \<and> device (ev_last_net ev)"

definition machine_ok :: "machine \<Rightarrow> bool" where
  "machine_ok mc \<longleftrightarrow> world_ok (mc_w mc)"

text \<open>The same without the running process: what holds when it was killed and nothing else can run.\<close>

definition machine_idle :: "machine \<Rightarrow> bool" where
  "machine_idle mc \<longleftrightarrow> net_ok (mc_w mc) \<and> base_ok (mc_k mc)"

lemma machine_ok_idle: "machine_ok mc \<Longrightarrow> machine_idle mc"
  by (simp add: machine_ok_def machine_idle_def world_ok_def kernel_ok_base mc_k_def)

lemma machine_ok_iff: "machine_ok mc \<longleftrightarrow> machine_idle mc \<and> may_run (p_state (cur_proc (mc_k mc)))"
  by (auto simp: machine_ok_def machine_idle_def world_ok_def kernel_ok_base mc_k_def)

lemma machine_ok_kernel: "machine_ok mc \<Longrightarrow> kernel_ok (mc_k mc)"
  by (simp add: machine_ok_def mc_k_def world_ok_def)

lemma in_kernel_ok: "machine_ok mc \<Longrightarrow> kernel_ok (f (mc_k mc)) \<Longrightarrow> machine_ok (in_kernel f mc)"
  unfolding machine_ok_def in_kernel_def by (simp add: world_ok_on mc_k_def)

lemma machine_frame [simp]:
  "machine_ok (mc\<lparr>mc_tty := t\<rparr>) = machine_ok mc" "machine_ok (mc\<lparr>mc_rand := x\<rparr>) = machine_ok mc"
  "machine_ok (mc\<lparr>mc_klog := l\<rparr>) = machine_ok mc" "machine_ok (mc\<lparr>mc_w := w\<rparr>) = world_ok w"
  "mc_k (mc\<lparr>mc_tty := t\<rparr>) = mc_k mc" "mc_k (mc\<lparr>mc_rand := x\<rparr>) = mc_k mc" "mc_k (mc\<lparr>mc_klog := l\<rparr>) = mc_k mc"
  by (simp_all add: machine_ok_def mc_k_def)

lemma with_kernel_ok:
  "machine_ok mc \<Longrightarrow> kernel_ok (snd (f (mc_k mc))) \<Longrightarrow> with_kernel r f mc = Reply x r' mc' \<Longrightarrow> machine_ok mc'"
  by (auto simp: with_kernel_def intro: in_kernel_ok split: prod.splits)

lemma with_world_ok:
  "machine_ok mc \<Longrightarrow> world_ok (snd (f (mc_w mc))) \<Longrightarrow> with_world r f mc = Reply x r' mc' \<Longrightarrow> machine_ok mc'"
  by (auto simp: with_world_def split: prod.splits)

lemma with_proc_ok:
  assumes ok: "machine_ok mc" and c: "\<And>x q. f (cur_proc (mc_k mc)) = Some (x, q) \<Longrightarrow> life q = life (cur_proc (mc_k mc)) \<and> p_fdt q = p_fdt (cur_proc (mc_k mc))"
    and r: "with_proc r f mc = Reply x r' mc'"
  shows "machine_ok mc'"
proof -
  obtain q where q: "f (cur_proc (mc_k mc)) = Some (x, q)" "mc' = in_kernel (set_cur (\<lambda>_. q)) mc"
    using r by (auto simp: with_proc_def split: option.splits)
  have "calm (mc_k mc) (set_cur (\<lambda>_. q) (mc_k mc))" by (rule calm_set_cur) (use c [OF q(1)] in simp_all)
  then show ?thesis unfolding q(2) by (intro in_kernel_ok [OF ok] kernel_ok_calm [OF machine_ok_kernel [OF ok]])
qed

lemma from_kernel_ok:
  assumes ev: "env_ok ev" and ok: "machine_ok mc" and k: "\<And>x r k. out = Returns x r k \<Longrightarrow> kernel_ok k"
    and r: "from_kernel ev out mc = Reply x r' mc'"
  shows "machine_ok mc'"
proof -
  obtain k where o: "out = Returns x r' k" and mc': "mc' = mc\<lparr>mc_w := ev_net ev ((mc_w mc)\<lparr>w_k := k\<rparr>)\<rparr>"
    using r by (auto simp: from_kernel_def split: sys_outcome.splits)
  have "world_ok ((mc_w mc)\<lparr>w_k := k\<rparr>)" using ok k [OF o] world_ok_put by (simp add: machine_ok_def)
  then show ?thesis using ev device_world by (simp add: mc' env_ok_def)
qed

lemma from_world_ok:
  "(\<And>x r w. out = Back x r w \<Longrightarrow> world_ok w) \<Longrightarrow> from_world out mc = Reply x r' mc' \<Longrightarrow> machine_ok mc'"
  by (cases out) (auto simp: from_world_def)

lemma do_fs_ok:
  assumes ev: "env_ok ev" and ok: "machine_ok mc" and r: "do_fs ev r0 c mc = Reply x r' mc'"
  shows "machine_ok mc'"
proof -
  have k: "kernel_ok (mc_k mc)" by (rule machine_ok_kernel [OF ok])
  have other: "machine_ok mc'" if "with_kernel r0 (fs_reply c) mc = Reply x r' mc'"
    by (rule with_kernel_ok [OF ok _ that]) (rule fs_reply_ok [OF k])
  show ?thesis
  proof (cases c)
    case (Read fd u n)
    then have "from_kernel ev (sys_read (view_of ev mc) (ev_reads ev) r0 fd u n (mc_k mc)) mc = Reply x r' mc'" using r by simp
    moreover have "kernel_ok k2" if "sys_read (view_of ev mc) (ev_reads ev) r0 fd u n (mc_k mc) = Returns y r2 k2" for y r2 k2
      by (rule sys_read_ok [OF _ k that]) (use ev in \<open>simp add: env_ok_def\<close>)
    ultimately show ?thesis using from_kernel_ok [OF ev ok] by blast
  next
    case (Write fd u n)
    obtain v bs k2 where w: "sys_write fd u n (mc_k mc) = (v, bs, k2)" by (metis prod_cases3)
    then have "kernel_ok k2" using sys_write_ok [OF k, of fd u n] by simp
    then have "machine_ok (in_kernel (\<lambda>_. k2) (mc\<lparr>mc_tty := mc_tty mc @ bs\<rparr>))" using ok by (intro in_kernel_ok) simp_all
    then show ?thesis using r Write w by simp
  qed (use r other in simp_all)
qed

lemma do_own_ok:
  assumes ok: "machine_ok mc" and r: "do_own ev r0 c mc = Reply x r' mc'"
  shows "machine_ok mc'"
proof -
  have k: "kernel_ok (mc_k mc)" by (rule machine_ok_kernel [OF ok])
  have calm: "machine_ok mc'" if "with_kernel r0 f mc = Reply x r' mc'" "calm (mc_k mc) (snd (f (mc_k mc)))" for f
    by (rule with_kernel_ok [OF ok _ that(1)]) (rule kernel_ok_calm [OF k that(2)])
  have brk: "calm (mc_k mc) (snd (on_proc (sys_brk a) (mc_k mc)))" for a
    by (auto simp: on_proc_def dest!: brk_calm intro!: calm_set_cur split: prod.split)
  have same: "mc' = mc \<Longrightarrow> machine_ok mc'" using ok by simp
  show ?thesis
  proof (cases c)
    case (Brk a)
    then show ?thesis using r calm brk by simp
  next
    case (Mmap a l fl fd off)
    then have "with_proc r0 (sys_mmap a l fl fd off) mc = Reply x r' mc'" using r by simp
    from with_proc_ok [OF ok mmap_calm this] show ?thesis .
  next
    case (Munmap a l)
    then have "with_proc r0 (sys_munmap a l) mc = Reply x r' mc'" using r by simp
    from with_proc_ok [OF ok munmap_calm this] show ?thesis .
  next
    case (Getrandom u n fl)
    obtain v s k2 where g: "sys_getrandom u n fl (mc_rand mc) (mc_k mc) = (v, s, k2)" by (metis prod_cases3)
    then have "kernel_ok k2" using kernel_ok_calm [OF k misc_calm(2) [of "mc_k mc" u n fl "mc_rand mc"]] by simp
    then have "machine_ok (in_kernel (\<lambda>_. k2) (mc\<lparr>mc_rand := s\<rparr>))" using ok by (intro in_kernel_ok) simp_all
    then show ?thesis using r Getrandom g by simp
  next
    case (Dmesg u n fl)
    obtain v m kl where g: "sys_mona_dmesg u n fl (user_base (mc_k mc)) (k_mem (mc_k mc)) (mc_klog mc) = (v, m, kl)" by (metis prod_cases3)
    have "machine_ok (in_kernel (k_mem_update (\<lambda>_. m)) (mc\<lparr>mc_klog := kl\<rparr>))" using ok k by (intro in_kernel_ok) simp_all
    then show ?thesis using r Dmesg g by simp
  qed (use r calm same misc_calm in simp_all)
qed

lemma do_net_ok:
  assumes ev: "env_ok ev" and ok: "machine_ok mc" and r: "do_net ev r0 c mc = Reply x r' mc'"
  shows "machine_ok mc'"
proof -
  have k: "kernel_ok (mc_k mc)" by (rule machine_ok_kernel [OF ok])
  have w: "world_ok (mc_w mc)" using ok by (simp add: machine_ok_def)
  have e: "list_all device (ev_polls ev)" "list_all turn_ok (ev_turns ev)" using ev by (simp_all add: env_ok_def)
  show ?thesis
  proof (cases c)
    case (Ping6 d i s t u)
    then show ?thesis using r from_world_ok ping6_ok [OF e(1) w] by (metis do_net.simps(1))
  next
    case Udp6_socket
    then show ?thesis using r with_kernel_ok [OF ok, of "sys_mona_udp6_socket"] udp6_socket_ok [OF k] by simp
  next
    case (Udp6_bind fd p)
    then show ?thesis using r with_kernel_ok [OF ok, of "sys_mona_udp6_bind fd p"] udp6_bind_call_ok [OF k] by simp
  next
    case (Udp6_sendto fd d p u n)
    then show ?thesis using r with_world_ok [OF ok, of "sys_mona_udp6_sendto fd d p u n"] udp6_sendto_call_ok [OF w] by simp
  next
    case (Udp6_recvfrom fd u n s p t)
    then show ?thesis using r from_world_ok recvfrom_ok [OF e(2) w] by (metis do_net.simps(5))
  next
    case (Net6_get_dns u)
    then show ?thesis using r with_world_ok [OF ok, of "sys_mona_net6_get_dns u"] get_dns_ok [OF w] by simp
  next
    case (Tcp6_connect d p t)
    then show ?thesis using r from_world_ok tcp6_connect_ok [OF e(1) w] by (metis do_net.simps(7))
  next
    case (Tcp6_send fd u n)
    then show ?thesis using r with_world_ok [OF ok, of "sys_mona_tcp6_send fd u n"] tcp6_send_call_ok [OF w] by simp
  next
    case (Tcp6_recv fd u n t)
    then show ?thesis using r from_world_ok tcp6_recv_call_ok [OF e(1) w] by (metis do_net.simps(9))
  qed
qed

end
