(* ===== verification/MachineRun.thy ===== *)
theory MachineRun
  imports MachineOk NetProps
begin

text \<open>
  The exception handler keeps the invariant of the whole machine: processes, descriptors, memory,
  files, sockets and the packet layer.
\<close>

subsection \<open>The calls\<close>

text \<open>The calls after which the process that called is dead and still the current one: \<open>exit\<close>, which then
does not return, and \<open>kill\<close> of the caller.\<close>

definition lone_kill :: "syscall \<Rightarrow> u64 \<Rightarrow> kernel \<Rightarrow> kernel \<Rightarrow> bool" where
  "lone_kill c x k k' \<longleftrightarrow> x = 0 \<and> (\<exists>t. c = Task t \<and> ((\<exists>code. t = Exit code) \<or> kills_self t k \<and> dead_runs k k'))"

lemma device_dead:
  assumes dev: "device f" and net: "net_ok w" and b: "base_ok (w_k w)" and dead: "dead_runs k0 (w_k w)"
  shows "dead_runs k0 (w_k (f w))"
proof -
  have l: "list_all2 net_effect (k_procs (w_k w)) (k_procs (w_k (f w)))"
    using dev net by (simp add: device_def kernel_keeps_def)
  have c: "k_cur (w_k (f w)) = k_cur (w_k w)" using device_base [OF dev net b] by simp
  have "net_effect (cur_proc (w_k w)) (cur_proc (w_k (f w)))"
    using l c base_ok_cur [OF b] by (simp add: cur_proc_def list_all2_conv_all_nth)
  then show ?thesis using dead c by (auto simp: dead_runs_def net_effect_def woken_by_net_def)
qed

lemma task_ok_machine:
  assumes ev: "env_ok ev" and ok: "machine_ok mc"
    and r: "from_kernel ev (do_call (ev_sched ev) r0 c (mc_k mc)) mc = Reply x r' mc'"
  shows "machine_idle mc' \<and> (machine_ok mc' \<or> lone_kill (Task c) x (mc_k mc) (mc_k mc'))"
proof -
  obtain k where o: "do_call (ev_sched ev) r0 c (mc_k mc) = Returns x r' k"
      and mc': "mc' = mc\<lparr>mc_w := ev_net ev ((mc_w mc)\<lparr>w_k := k\<rparr>)\<rparr>"
    using r by (auto simp: from_kernel_def split: sys_outcome.splits)
  have usb: "usb_ok (si_usb (ev_sched ev))" and dev: "device (ev_net ev)" using ev by (simp_all add: env_ok_def)
  note c = do_call_ok [OF usb machine_ok_kernel [OF ok] o]
  have net: "net_ok ((mc_w mc)\<lparr>w_k := k\<rparr>)"
    using ok c net_ok_with by (simp add: machine_ok_def world_ok_def base_ok_def)
  have idle: "machine_idle mc'"
    using device_base [OF dev net] c by (simp add: machine_idle_def mc' mc_k_def)
  show ?thesis
  proof (cases "kernel_ok k")
    case True
    then have "world_ok ((mc_w mc)\<lparr>w_k := k\<rparr>)" using net by (simp add: world_ok_def)
    then show ?thesis using device_world [OF dev] idle by (simp add: mc')
  next
    case False
    then have d: "x = 0 \<and> ((\<exists>code. c = Exit code) \<or> kills_self c (mc_k mc) \<and> dead_runs (mc_k mc) k)" using c by simp
    have "dead_runs (mc_k mc) (mc_k mc')" if "dead_runs (mc_k mc) k"
      using device_dead [OF dev net, of "mc_k mc"] c that by (simp add: mc' mc_k_def)
    then show ?thesis using d idle by (auto simp: lone_kill_def)
  qed
qed

lemma do_syscall_ok:
  assumes ev: "env_ok ev" and ok: "machine_ok mc" and r: "do_syscall ev r0 c mc = Reply x r' mc'"
  shows "machine_idle mc' \<and> (machine_ok mc' \<or> lone_kill c x (mc_k mc) (mc_k mc'))"
proof -
  have k: "kernel_ok (mc_k mc)" by (rule machine_ok_kernel [OF ok])
  have kept: ?thesis if "machine_ok mc'" using that machine_ok_idle by simp
  show ?thesis
  proof (cases c)
    case (Task t)
    then show ?thesis using task_ok_machine [OF ev ok] r by simp
  next
    case (Nanosleep u u')
    then have "from_kernel ev (sys_nanosleep (ev_sched ev) (ev_cnt ev) r0 u u' (mc_k mc)) mc = Reply x r' mc'" using r by simp
    moreover have "kernel_ok k2" if "sys_nanosleep (ev_sched ev) (ev_cnt ev) r0 u u' (mc_k mc) = Returns y r2 k2" for y r2 k2
      by (rule nanosleep_ok [OF _ k that]) (use ev in \<open>simp add: env_ok_def\<close>)
    ultimately show ?thesis using from_kernel_ok [OF ev ok] kept by blast
  next
    case (Reboot a b d e)
    then have "from_kernel ev (sys_reboot a b d e r0 (mc_k mc)) mc = Reply x r' mc'" using r by simp
    moreover have "kernel_ok k2" if "sys_reboot a b d e r0 (mc_k mc) = Returns y r2 k2" for y r2 k2
      using that k by (auto simp: sys_reboot_def split: if_splits)
    ultimately show ?thesis using from_kernel_ok [OF ev ok] kept by blast
  next
    case (Execve p av en)
    obtain v r2 k2 where e: "sys_execve r0 p av en (mc_k mc) = (v, r2, k2)" by (metis prod_cases3)
    then have "kernel_ok k2" using kernel_ok_calm [OF k execve_calm [of "mc_k mc" r0 p av en]] by simp
    then have "machine_ok (in_kernel (\<lambda>_. k2) mc)" by (intro in_kernel_ok [OF ok])
    then show ?thesis using r Execve e kept by simp
  qed (use r ok kept do_fs_ok [OF ev ok] do_own_ok [OF ok] do_net_ok [OF ev ok] in auto)
qed

subsection \<open>The way back\<close>

lemma in_kernel_k [simp]: "mc_k (in_kernel f mc) = f (mc_k mc)"
  by (simp add: in_kernel_def mc_k_def on_kernel_def)

lemma in_kernel_idle: "machine_idle mc \<Longrightarrow> base_ok (f (mc_k mc)) \<Longrightarrow> machine_idle (in_kernel f mc)"
  unfolding machine_idle_def in_kernel_def by (simp add: mc_k_def on_kernel_def net_ok_with base_ok_def)

lemma frame_idle:
  assumes "machine_idle mc" and "\<And>p. p_fdt (f p) = p_fdt p" and "\<And>p. life (f p) = life p"
  shows "machine_idle (in_kernel (set_cur f) mc) \<and> (machine_ok mc \<longrightarrow> machine_ok (in_kernel (set_cur f) mc))"
proof -
  let ?k = "mc_k mc"
  have b: "base_ok ?k" using assms(1) by (simp add: machine_idle_def)
  have "same_mem (cur_proc ?k) (f (cur_proc ?k))" using assms(3) [of "cur_proc ?k"] by (simp add: same_mem_def life_def)
  then have "machine_idle (in_kernel (set_cur f) mc)"
    by (intro in_kernel_idle [OF assms(1)] base_ok_set_cur [OF b]) (rule assms)
  moreover have "machine_ok (in_kernel (set_cur f) mc)" if ok: "machine_ok mc"
    by (intro in_kernel_ok [OF ok] kernel_ok_calm [OF machine_ok_kernel [OF ok]] calm_set_cur) (rule assms)+
  ultimately show ?thesis by simp
qed

lemma frame_dead:
  assumes "base_ok k" and "dead_runs k0 k" and "\<And>p. life (f p) = life p"
  shows "dead_runs k0 (set_cur f k)"
proof -
  have "p_state (f (cur_proc k)) = p_state (cur_proc k)" using assms(3) [of "cur_proc k"] by (simp add: life_def)
  then have "p_state (cur_proc (set_cur f k)) = p_state (cur_proc k)" using base_ok_cur [OF assms(1)] by simp
  then show ?thesis using assms(2) by (simp add: dead_runs_def set_cur_def)
qed

lemma leave_ok:
  assumes ev: "env_ok ev" and idle: "machine_idle mc" and r: "leave ev fresh x r0 mc = To_user r' mc'"
  shows "machine_idle mc' \<and> (machine_ok mc \<longrightarrow> machine_ok mc') \<and>
    (dead_runs k0 (mc_k mc) \<longrightarrow> machine_ok mc' \<or> dead_runs k0 (mc_k mc'))"
proof -
  define r1 where "r1 = (if fresh then r0 else ((fst r0)\<lparr>tf_x := (tf_x (fst r0))[0 := x]\<rparr>, snd r0))"
  define mc1 where "mc1 = in_kernel (set_cur (save_frame r1 (\<not> fresh))) mc"
  let ?e = "ev_last ev"
  obtain k where s: "sched_maybe_switch (si_usb ?e) (si_obs ?e) (si_cnt1 ?e) (si_cnt2 ?e) r1 (mc_k mc1) = Some (r', k)"
      and mc': "mc' = mc1\<lparr>mc_w := ev_last_net ev ((mc_w mc1)\<lparr>w_k := k\<rparr>)\<rparr>"
    using r unfolding leave_def r1_def [symmetric] mc1_def [symmetric] Let_def
    by (auto split: option.splits)
  have m1: "machine_idle mc1" "machine_ok mc \<Longrightarrow> machine_ok mc1"
    using frame_idle [OF idle, of "save_frame r1 (\<not> fresh)"] unfolding mc1_def by (simp_all add: save_frame_def life_def)
  have usb: "usb_ok (si_usb ?e)" and dev: "device (ev_last_net ev)" using ev by (simp_all add: env_ok_def)
  have b: "base_ok (mc_k mc1)" using m1(1) by (simp add: machine_idle_def)
  note p = preempt_ok [OF usb b s]
  have net: "net_ok ((mc_w mc1)\<lparr>w_k := k\<rparr>)"
    using m1(1) p net_ok_with by (simp add: machine_idle_def base_ok_def)
  have "machine_idle mc'"
    using device_base [OF dev net] p by (simp add: machine_idle_def mc' mc_k_def)
  moreover have alive: "machine_ok mc'" if "kernel_ok k"
    using that net device_world [OF dev] by (simp add: mc' world_ok_def)
  then have "machine_ok mc'" if "machine_ok mc" using m1(2) [OF that] p by (simp add: machine_ok_iff)
  moreover have "machine_ok mc' \<or> dead_runs k0 (mc_k mc')" if d: "dead_runs k0 (mc_k mc)"
  proof -
    have "dead_runs k0 (mc_k mc1)"
      using frame_dead [OF _ d, of "save_frame r1 (\<not> fresh)"] idle
      by (simp add: mc1_def machine_idle_def save_frame_def life_def)
    from preempt_dead [OF usb b s this] show ?thesis
      using alive device_dead [OF dev net, of k0] p by (auto simp: mc' mc_k_def)
  qed
  ultimately show ?thesis by blast
qed

lemma finish_call_ok:
  assumes ev: "env_ok ev" and idle: "machine_idle mc" and r: "finish_call ev c x r0 mc = To_user r' mc'"
  shows "machine_idle mc' \<and> (machine_ok mc \<longrightarrow> machine_ok mc') \<and>
    (dead_runs k0 (mc_k mc) \<longrightarrow> machine_ok mc' \<or> dead_runs k0 (mc_k mc'))"
proof -
  have l: ?thesis if "leave ev f x r0 mc = To_user r' mc'" for f by (rule leave_ok [OF ev idle that])
  have s: ?thesis if "To_user r0 (in_kernel (set_cur (\<lambda>p. p\<lparr>p_tf := fst r0\<rparr>)) mc) = To_user r' mc'"
    using that frame_idle [OF idle, of "\<lambda>p. p\<lparr>p_tf := fst r0\<rparr>"] idle
      frame_dead [of "mc_k mc" k0 "\<lambda>p. p\<lparr>p_tf := fst r0\<rparr>"] by (auto simp: life_def machine_idle_def)
  have i: ?thesis if "To_user r0 mc = To_user r' mc'" using that idle by simp
  show ?thesis
    using r l s i unfolding finish_call_def by (auto split: syscall.splits task_call.splits if_splits)
qed

lemma enter_ok: "machine_ok mc \<Longrightarrow> machine_ok (in_kernel (set_cur (enter r)) mc)"
  using frame_idle [OF machine_ok_idle, of mc "enter r"] by (simp add: enter_def life_def)

lemma set_cur_fields: "k_cur (set_cur f k) = k_cur k" "length (k_procs (set_cur f k)) = length (k_procs k)"
  by (simp_all add: set_cur_def)

lemma find_slot_same: "list_all2 (\<lambda>x y. p x = p y) xs ys \<Longrightarrow> find_slot p xs = find_slot p ys"
  by (induction rule: list_all2_induct) auto

lemma enter_kills:
  assumes "kills_self t (set_cur (enter r) k)" and "k_cur k < length (k_procs k)"
  shows "kills_self t k"
proof -
  have "proc_find_idx_by_pid pid (set_cur (enter r) k) = proc_find_idx_by_pid pid k" for pid
    unfolding proc_find_idx_by_pid_def
    by (rule find_slot_same) (auto simp: list_all2_conv_all_nth set_cur_def set_proc_nth enter_def)
  then show ?thesis using assms by (simp add: kills_self_def set_cur_fields split: task_call.splits)
qed

lemma exception_ok:
  assumes "machine_ok mc" and "env_ok ev" and "exception_handle ev kind r mc = To_user r' mc'"
  shows "machine_idle mc' \<and> (machine_ok mc' \<or>
    kind = 8 \<and> (\<exists>c. decode (fst r) = Task c \<and> kills_self c (mc_k mc)) \<and> dead_runs (mc_k mc) (mc_k mc'))"
proof (cases "kind = 5")
  case True
  let ?mc1 = "in_kernel (irq_handle (si_usb (ev_sched ev)) (ev_tick ev) (ev_irq_rx ev)) mc"
  have "mc' = ?mc1\<lparr>mc_w := ev_net ev (mc_w ?mc1)\<rparr>" using True assms(3) by (simp add: exception_handle_def Let_def)
  moreover have "machine_ok ?mc1"
    using assms(2) irq_handle_ok [OF _ machine_ok_kernel [OF assms(1)]] by (intro in_kernel_ok [OF assms(1)]) (simp add: env_ok_def)
  moreover have "device (ev_net ev)" using assms(2) by (simp add: env_ok_def)
  ultimately have "machine_ok mc'" using device_world by (simp add: machine_ok_def)
  then show ?thesis using machine_ok_idle by simp
next
  case False
  let ?c = "decode (fst r)" and ?mc0 = "in_kernel (set_cur (enter r)) mc"
  have k8: "kind = 8" using assms(3) False by (simp add: exception_handle_def split: if_splits)
  then obtain x r1 mc1 where d: "do_syscall ev r ?c ?mc0 = Reply x r1 mc1" and f: "finish_call ev ?c x r1 mc1 = To_user r' mc'"
    using assms(3) by (auto simp: exception_handle_def Let_def split: reply.splits)
  note s = do_syscall_ok [OF assms(2) enter_ok [OF assms(1)] d]
  note fin = finish_call_ok [OF assms(2) conjunct1 [OF s] f, of "mc_k mc"]
  have b: "base_ok (mc_k mc)" using machine_ok_idle [OF assms(1)] by (simp add: machine_idle_def)
  show ?thesis
  proof (cases "machine_ok mc1")
    case False
    then obtain t where t: "?c = Task t" "x = 0"
        "(\<exists>code. t = Exit code) \<or> kills_self t (mc_k ?mc0) \<and> dead_runs (mc_k ?mc0) (mc_k mc1)"
      using s by (auto simp: lone_kill_def)
    have "\<nexists>code. t = Exit code" using f t(1,2) by (auto simp: finish_call_def)
    then have "kills_self t (mc_k mc)" "dead_runs (mc_k mc) (mc_k mc1)"
      using t(3) enter_kills [of t r "mc_k mc"] base_ok_cur [OF b] by (auto simp: dead_runs_def set_cur_fields)
    then show ?thesis using fin t(1) k8 by blast
  qed (use fin in blast)
qed

text \<open>
  C2: Every exception leaves the machine well formed: whatever the system call, its arguments,
  the registers and the memory of the process, and whatever arrives meanwhile, the process table, the
  descriptors and all reference counts, the memory of the processes, the file system tree, the
  sockets and the tables of the packet layer satisfy their invariants when user code goes on, and
  the process that goes on is alive. There is one exception: when a process sends SIGKILL or SIGTERM
  to its own number and no other process can run, the caller, now a zombie, goes on. A \<open>kill\<close>
  of another process, an \<open>exit\<close> and every other call leave a living process running.
\<close>

theorem exceptions_keep_machine:
  assumes "machine_ok mc" and "env_ok ev" and "exception_handle ev kind r mc = To_user r' mc'"
  shows "machine_idle mc' \<and> (machine_ok mc' \<or>
    kind = 8 \<and> (\<exists>pid sig. decode (fst r) = Task (Kill pid sig) \<and> 0 < sint pid \<and> (sig = 9 \<or> sig = 15) \<and>
      proc_find_idx_by_pid pid (mc_k mc) = Some (k_cur (mc_k mc))) \<and>
    k_cur (mc_k mc') = k_cur (mc_k mc) \<and> p_state (cur_proc (mc_k mc')) = PROC_ZOMBIE)"
  using exception_ok [OF assms] unfolding kills_self_iff dead_runs_def by blast

end
