(* ===== verification/MachineSafe.thy ===== *)
theory MachineSafe
  imports MachineRun
begin

text \<open>
  Runs of the whole machine: received frames as one kind of device, exceptions and user code in
  turn, what holds at every moment of a run that starts well formed, and the machine after the boot
  as one that does.
\<close>

subsection \<open>Received frames are a device\<close>

text \<open>Frames that the drivers hand over, with the number of the interface each came from.\<close>

definition deliver_frames :: "(nat \<times> u8 list) list \<Rightarrow> world \<Rightarrow> world" where
  "deliver_frames fs w = fold (\<lambda>(i, f) w. if i < length (w_ifs w) then netif_rx_frame i f w else w) fs w"

lemma frames_device: "device (deliver_frames fs)"
  unfolding device_def
proof (intro allI impI)
  fix w assume "net_ok w"
  then show "net_ok (deliver_frames fs w) \<and> kernel_keeps (w_k w) (w_k (deliver_frames fs w)) \<and>
      length (w_ifs (deliver_frames fs w)) = length (w_ifs w)"
  proof (induction fs arbitrary: w)
    case Nil
    then show ?case by (simp add: deliver_frames_def kernel_keeps_refl)
  next
    case (Cons x fs)
    obtain i f where x: "x = (i, f)" by fastforce
    let ?w1 = "if i < length (w_ifs w) then netif_rx_frame i f w else w"
    have "net_ok ?w1 \<and> kernel_keeps (w_k w) (w_k ?w1) \<and> length (w_ifs ?w1) = length (w_ifs w)"
      using Cons.prems stays_rx_frame [of i w f] netif_rx_frame_keeps [of w i f]
      by (simp add: ready_def stays_def kernel_keeps_refl)
    then show ?case using Cons.IH [of ?w1] kernel_keeps_trans
      by (auto simp: deliver_frames_def x)
  qed
qed

lemma idle_device: "device (\<lambda>w. w)"
  by (simp add: device_def)

subsection \<open>Runs\<close>

text \<open>What happens to a machine: exceptions, and user code writing its memory in between. The list
holds the exceptions, the last one first: the registers and the machine each was taken with. Nothing is
asked of the machine an exception leaves; a run goes on only when the process in it is alive.\<close>

inductive machine_run :: "machine \<Rightarrow> (regs \<times> machine) list \<Rightarrow> machine \<Rightarrow> bool" for mc0 where
  start: "machine_run mc0 [] mc0"
| trap: "machine_run mc0 log mc \<Longrightarrow> may_run (p_state (cur_proc (mc_k mc))) \<Longrightarrow> env_ok ev \<Longrightarrow>
    exception_handle ev kind r mc = To_user r' mc' \<Longrightarrow> machine_run mc0 ((r, mc) # log) mc'"
| user: "machine_run mc0 log mc \<Longrightarrow> machine_run mc0 log (in_kernel (\<lambda>k. k\<lparr>k_mem := m\<rparr>) mc)"

text \<open>The last exception was a call in which the running process killed itself.\<close>

definition killed_itself :: "(regs \<times> machine) list \<Rightarrow> kernel \<Rightarrow> bool" where
  "killed_itself log k \<longleftrightarrow> (case log of [] \<Rightarrow> False
   | (r, mc) # _ \<Rightarrow> (\<exists>c. decode (fst r) = Task c \<and> kills_self c (mc_k mc)) \<and> dead_runs (mc_k mc) k)"

lemma machine_run_ok:
  assumes "machine_run mc0 log mc" and "machine_ok mc0"
  shows "machine_idle mc \<and> (machine_ok mc \<or> killed_itself log (mc_k mc))"
  using assms
proof (induction rule: machine_run.induct)
  case start
  then show ?case using machine_ok_idle by simp
next
  case (trap log mc ev kind r r' mc')
  then have "machine_ok mc" by (simp add: machine_ok_iff)
  from exception_ok [OF this trap.hyps(3,4)] show ?case by (auto simp: killed_itself_def)
next
  case (user log mc m)
  let ?f = "\<lambda>k. k\<lparr>k_mem := m\<rparr>"
  have i: "machine_idle mc" and o: "machine_ok mc \<or> killed_itself log (mc_k mc)" using user by simp_all
  have "base_ok (?f (mc_k mc))" using i by (simp add: machine_idle_def)
  then have "machine_idle (in_kernel ?f mc)" by (rule in_kernel_idle [OF i])
  moreover have "p_state (cur_proc (?f (mc_k mc))) = p_state (cur_proc (mc_k mc))" by (simp add: cur_proc_def)
  ultimately show ?case using o by (auto simp: machine_ok_iff killed_itself_def dead_runs_def split: list.splits)
qed

lemma task_ok_apart:
  assumes "task_ok k" and "i < MAX_PROCS" "j < MAX_PROCS" "i \<noteq> j"
    and "p_state (k_procs k ! i) \<noteq> PROC_UNUSED" "p_state (k_procs k ! j) \<noteq> PROC_UNUSED"
  shows "block (p_user_pa (k_procs k ! i)) \<inter> block (p_user_pa (k_procs k ! j)) = {}"
proof -
  obtain T where T: "mem_inv T k" and len: "length (k_procs k) = MAX_PROCS"
    using assms(1) by (auto simp: task_ok_def mem_ok_def fds_exact_def)
  then show ?thesis using assms(2-) mem_inv_apart [OF T, of i j] mem_inv_apart [OF T, of j i]
    by (cases "i < j") (simp_all add: Int_commute)
qed

text \<open>
  C1: The kernel is safe as a whole. From a well formed machine, whatever system calls with whatever
  arguments the processes make, whatever they write to memory in between, however they are interrupted,
  and whatever is received: the reference counts of all open files, pipes and sockets stay exact, the
  files stay a tree, no two processes share memory and no two sockets have the same port, also in the
  state that each exception leaves. The process that goes on after an exception is one of the table
  that is alive, except after a \<open>kill\<close> (SIGKILL or SIGTERM) in which the running process named
  itself: then it may be the caller, a zombie, that goes on, and there the run ends.
\<close>

theorem machine_stays_safe:
  assumes "machine_ok mc0" and "machine_run mc0 log mc"
  shows "fds_exact (mc_k mc) \<and> fs_tree (mc_k mc) \<and>
    (\<forall>i < MAX_PROCS. \<forall>j < MAX_PROCS. i \<noteq> j \<longrightarrow> p_state (k_procs (mc_k mc) ! i) \<noteq> PROC_UNUSED \<longrightarrow>
       p_state (k_procs (mc_k mc) ! j) \<noteq> PROC_UNUSED \<longrightarrow>
       block (p_user_pa (k_procs (mc_k mc) ! i)) \<inter> block (p_user_pa (k_procs (mc_k mc) ! j)) = {}) \<and>
    udp6_ports_distinct (ud_socks (fs_udp (k_fd (mc_k mc)))) \<and>
    k_cur (mc_k mc) < MAX_PROCS \<and>
    (p_state (cur_proc (mc_k mc)) \<notin> {PROC_UNUSED, PROC_ZOMBIE} \<or>
     p_state (cur_proc (mc_k mc)) = PROC_ZOMBIE \<and>
     (\<exists>r mc1 before pid sig. log = (r, mc1) # before \<and> decode (fst r) = Task (Kill pid sig) \<and> (sig = 9 \<or> sig = 15) \<and>
        proc_find_idx_by_pid pid (mc_k mc1) = Some (k_cur (mc_k mc1)) \<and> k_cur (mc_k mc) = k_cur (mc_k mc1)))"
proof -
  note ok = machine_run_ok [OF assms(2,1)]
  then have idle: "net_ok (mc_w mc)" "base_ok (mc_k mc)" by (simp_all add: machine_idle_def)
  then have t: "task_ok (mc_k mc)" by (simp add: base_ok_def)
  have "udp6_ok (udp_of (mc_w mc))" using idle by (simp add: net_ok_def)
  then have kept: "fds_exact (mc_k mc)" "fs_tree (mc_k mc)" "k_cur (mc_k mc) < MAX_PROCS"
    "udp6_ports_distinct (ud_socks (fs_udp (k_fd (mc_k mc))))"
    using idle t base_ok_cur [OF idle(2)] by (simp_all add: base_ok_def task_ok_def udp6_ok_def udp_of_def mc_k_def)
  have "may_run (p_state (cur_proc (mc_k mc))) \<or> killed_itself log (mc_k mc)" using ok by (auto simp: machine_ok_iff)
  then show ?thesis
  proof
    assume "killed_itself log (mc_k mc)"
    then obtain r mc1 before where "log = (r, mc1) # before" "\<exists>c. decode (fst r) = Task c \<and> kills_self c (mc_k mc1)"
        "dead_runs (mc_k mc1) (mc_k mc)" by (auto simp: killed_itself_def split: list.splits)
    then show ?thesis using kept task_ok_apart [OF t] unfolding kills_self_iff dead_runs_def by blast
  qed (use kept task_ok_apart [OF t] in \<open>simp add: may_run_def\<close>)
qed

subsection \<open>The machine after the boot\<close>

definition boot_machine :: machine where
  "boot_machine = \<lparr>mc_w = lone_world\<lparr>w_k := proc_init 0x400000 tf_zero
       (kernel_bss\<lparr>k_mmu := fst fork_map, k_pmm := snd fork_map, k_ttbr0 := mm_ttbr0 (fst fork_map),
          k_fd := k_fd net_kernel\<rparr>)\<rparr>,
     mc_rand = 1, mc_klog = \<lparr>kl_buf = replicate KLOG_CAP (CHR 0x00), kl_head = 0, kl_len = 0\<rparr>, mc_tty = []\<rparr>"


lemma boot_machine_k: "mc_k boot_machine = proc_init 0x400000 tf_zero (kernel_bss\<lparr>k_mmu := fst fork_map, k_pmm := snd fork_map,
    k_ttbr0 := mm_ttbr0 (fst fork_map), k_fd := k_fd net_kernel\<rparr>)"
  by (simp add: boot_machine_def mc_k_def)

lemma boot_fd: "fd_boot (k_fd net_kernel)"
  using fd_boot_bss by (auto simp: fd_boot_def net_kernel_def tcp6_conn_reset_def)

lemma proc_init_socks: "socks_ok (k_fd k) \<Longrightarrow> socks_ok (k_fd (proc_init elr tf k))"
proof -
  assume so: "socks_ok (k_fd k)"
  let ?s = "fd_init ((k_fd k)\<lparr>fs_pipes := pipe_init (fs_pipes (k_fd k))\<rparr>)"
  have "socks_ok ?s" using so by (simp add: fd_init_def)
  from socks_ok_desc(5) [OF this] have "socks_ok s" if "desc_alloc ?s = (r, s)" for r s using that by simp
  then show ?thesis by (auto simp: proc_init_def init_uart_fds_def Let_def split: prod.split option.split)
qed

lemma boot_machine_ok: "machine_ok boot_machine"
proof -
  let ?k0 = "kernel_bss\<lparr>k_mmu := fst fork_map, k_pmm := snd fork_map, k_ttbr0 := mm_ttbr0 (fst fork_map), k_fd := k_fd net_kernel\<rparr>"
  have fd: "fd_boot (k_fd ?k0)" using boot_fd by simp
  have "mmu_init_identity 0 0x3b400000 (mmu_off, fork_pool) = (fst fork_map, snd fork_map)" by (simp add: fork_map_def)
  from boot_task_ok [OF fork_pool_ok _ this fork_map_result(1) fork_region fd]
  have t: "task_ok (mc_k boot_machine)" by (simp add: boot_machine_k mmu_off_def kernel_bss_def)
  have "k_vfs (mc_k boot_machine) = vfs_init (k_vfs ?k0)"
    by (auto simp: boot_machine_k proc_init_def init_uart_fds_def Let_def split: prod.split option.split)
  then have tree: "fs_tree (mc_k boot_machine)" by (simp add: fs_tree_def vfs_init_tree)
  have so: "socks_ok (k_fd (mc_k boot_machine))"
    using proc_init_socks [of ?k0 "0x400000" tf_zero] net_ok_socks [OF lone_world_ok] by (simp add: boot_machine_k lone_world_def)
  have "p_state (cur_proc (mc_k boot_machine)) = PROC_RUNNABLE"
    using boot_procs [OF fd, of "0x400000" tf_zero] by (simp add: boot_machine_k)
  then have k: "kernel_ok (mc_k boot_machine)" using t tree so by (simp add: kernel_ok_def)
  have "mc_w boot_machine = lone_world\<lparr>w_k := mc_k boot_machine\<rparr>" by (simp add: boot_machine_def mc_k_def)
  then show ?thesis using world_ok_with [OF lone_world_ok k] by (simp add: machine_ok_def)
qed


text \<open>What one exception sees when nothing happens outside, and one pass of the scheduler when a
process can run.\<close>

definition calm_sched :: "u64 \<Rightarrow> sched_in" where
  "calm_sched t = \<lparr>si_usb = None, si_obs = [quiet_pass t], si_cnt1 = t, si_cnt2 = t\<rparr>"

definition frame_env :: "(nat \<times> u8 list) list \<Rightarrow> env" where
  "frame_env fs = \<lparr>ev_cnt = 0, ev_usb = None, ev_reads = [], ev_sched = calm_sched 0, ev_net = deliver_frames fs,
     ev_turns = [], ev_polls = [], ev_tick = True, ev_irq_rx = ''a'', ev_last = calm_sched 0, ev_last_net = deliver_frames fs\<rparr>"

lemma frame_env_ok: "env_ok (frame_env fs)"
  using frames_device by (simp add: env_ok_def frame_env_def calm_sched_def usb_ok_def poll_ok_def)

lemma pick_some:
  assumes "sched_ok k" and "i < MAX_PROCS" and "p_state (k_procs k ! i) = PROC_RUNNABLE"
  shows "\<exists>j k'. sched_pick_next_runnable None [ob] k = Some (Some j, k')"
proof -
  have p: "poll_ok None" by (simp add: poll_ok_def)
  obtain c k' where r: "sched_pass None ob k = (c, k')" by fastforce
  note eff = sched_pass_effect [OF p assms(1) r]
  have "p_state (k_procs k' ! i) = PROC_RUNNABLE"
    using eff(2) assms by (auto simp: list_all2_conv_all_nth sched_ok_def pass_effect_def woken_by_net_def)
  moreover have "k_procs k' ! i \<in> set (k_procs k')" using eff(1) assms(2) by (simp add: sched_ok_def)
  ultimately have alive: "\<exists>q \<in> set (k_procs k'). p_state q = PROC_RUNNABLE" by blast
  have "\<exists>j. c = Chosen j"
    by (rule sched_pass_cases [OF p assms(1) r]) (use alive in fastforce)+
  then show ?thesis using r by auto
qed

lemma leave_some:
  assumes "\<And>r b. \<exists>y k'. sched_pick_next_runnable (si_usb (ev_last ev)) (si_obs (ev_last ev)) (set_cur (save_frame r b) (mc_k mc)) = Some (y, k')"
  shows "\<exists>r' mc'. leave ev fresh v rg mc = To_user r' mc'"
proof -
  let ?e = "ev_last ev"
  define r1 where "r1 = (if fresh then rg else ((fst rg)\<lparr>tf_x := (tf_x (fst rg))[0 := v]\<rparr>, snd rg))"
  have "sched_maybe_switch (si_usb ?e) (si_obs ?e) (si_cnt1 ?e) (si_cnt2 ?e) r1 (set_cur (save_frame r1 (\<not> fresh)) (mc_k mc)) \<noteq> None"
    using assms [of r1 "\<not> fresh"] by (auto simp: sched_maybe_switch_def simp del: not_None_eq split: option.splits if_splits)
  then obtain r2 k where "sched_maybe_switch (si_usb ?e) (si_obs ?e) (si_cnt1 ?e) (si_cnt2 ?e) r1
      (set_cur (save_frame r1 (\<not> fresh)) (mc_k mc)) = Some (r2, k)" by fastforce
  then show ?thesis by (cases r2) (simp add: leave_def Let_def r1_def [symmetric])
qed

text \<open>The first process asks for its number, while frames arrive.\<close>

definition getpid_regs :: regs where
  "getpid_regs = (tf_zero\<lparr>tf_x := (tf_x tf_zero)[8 := 172]\<rparr>, 0x400004)"

lemma getpid_decode: "decode (fst getpid_regs) = Own Getpid"
  by (simp add: decode_def getpid_regs_def tf_zero_def syscall_table_def)

lemma boot_getpid: "\<exists>r' mc'. exception_handle (frame_env fs) 8 getpid_regs boot_machine = To_user r' mc'"
proof -
  let ?mc = "in_kernel (set_cur (enter getpid_regs)) boot_machine"
  have ok: "machine_ok ?mc" by (rule enter_ok [OF boot_machine_ok])
  have s: "sched_ok (set_cur f (mc_k ?mc))" "k_cur (mc_k ?mc) < MAX_PROCS" "length (k_procs (mc_k ?mc)) = MAX_PROCS" for f
    using machine_ok_kernel [OF ok] by (simp_all add: kernel_ok_def task_ok_def sched_ok_def set_cur_def)
  have "p_state (cur_proc (mc_k boot_machine)) = PROC_RUNNABLE"
    using boot_procs [of "kernel_bss\<lparr>k_mmu := fst fork_map, k_pmm := snd fork_map, k_ttbr0 := mm_ttbr0 (fst fork_map),
      k_fd := k_fd net_kernel\<rparr>" "0x400000" tf_zero] boot_fd by (simp add: boot_machine_k)
  then have "p_state (cur_proc (set_cur (save_frame r b) (mc_k ?mc))) = PROC_RUNNABLE" for r b
    using s(2,3) by (simp add: save_frame_def enter_def set_cur_def cur_proc_def)
  then have "\<exists>j k'. sched_pick_next_runnable None [quiet_pass 0] (set_cur (save_frame r b) (mc_k ?mc)) = Some (Some j, k')" for r b
    using s by (intro pick_some [where i = "k_cur (mc_k ?mc)"]) (simp_all add: cur_proc_def set_cur_fields)
  then have "\<exists>r' mc'. leave (frame_env fs) False v getpid_regs ?mc = To_user r' mc'" for v
    by (intro leave_some) (simp add: frame_env_def calm_sched_def del: sched_pick_next_runnable.simps, blast)
  then show ?thesis
    by (simp add: exception_handle_def getpid_decode finish_call_def)
qed

definition one_frame :: "(nat \<times> u8 list) list" where
  "one_frame = [(0, replicate 60 0xff), (7, [])]"

lemma exceptions_keep_machine_witness:
  "\<exists>r' mc'. exception_handle (frame_env one_frame) 8 getpid_regs boot_machine = To_user r' mc' \<and> machine_ok mc'"
proof -
  obtain r' mc' where e: "exception_handle (frame_env one_frame) 8 getpid_regs boot_machine = To_user r' mc'"
    using boot_getpid by blast
  from exceptions_keep_machine [OF boot_machine_ok frame_env_ok e] e show ?thesis by (simp add: getpid_decode)
qed

lemma machine_stays_safe_witness:
  "\<exists>r' mc'. exception_handle (frame_env one_frame) 8 getpid_regs boot_machine = To_user r' mc' \<and> fds_exact (mc_k mc') \<and>
    p_state (cur_proc (mc_k mc')) \<notin> {PROC_UNUSED, PROC_ZOMBIE}"
proof -
  obtain r' mc' where e: "exception_handle (frame_env one_frame) 8 getpid_regs boot_machine = To_user r' mc'"
    using boot_getpid by blast
  have "may_run (p_state (cur_proc (mc_k boot_machine)))" using boot_machine_ok by (simp add: machine_ok_iff)
  from machine_stays_safe [OF boot_machine_ok machine_run.trap [OF machine_run.start this frame_env_ok e]] e
  show ?thesis by (auto simp: getpid_decode)
qed

end
