(* ===== verification/KillSelf.thy ===== *)
theory KillSelf
  imports KernelRun
begin

text \<open>
  What becomes of a process that kills itself when no other process can run.
\<close>

lemma idle_pass:
  assumes "\<And>p. p \<in> set (k_procs k) \<Longrightarrow> p_state p \<in> {PROC_UNUSED, PROC_WAITING, PROC_ZOMBIE}" and "sched_ok k"
  shows "\<exists>k'. sched_pass None ob k = (Nothing_left, k') \<and> k_procs k' = k_procs k \<and> k_cur k' = k_cur k"
proof -
  have awake: "p_state p \<noteq> PROC_SLEEPING" if "p \<in> set (k_procs k)" for p using assms(1) [OF that] by auto
  have ps: "k_procs (sched_wake_sleepers t (kernel_poll None ob k)) = k_procs k" for t
    using awake by (auto simp: sched_wake_sleepers_def kernel_poll_def intro!: map_idI)
  have cur: "k_cur (sched_wake_sleepers t (kernel_poll None ob k)) = k_cur k" for t
    by (simp add: sched_wake_sleepers_def kernel_poll_def)
  have st: "p_state (k_procs k ! i) \<in> {PROC_UNUSED, PROC_WAITING, PROC_ZOMBIE}" if "i < MAX_PROCS" for i
    using assms that by (simp add: sched_ok_def)
  have none: "next_from P (sched_wake_sleepers t (kernel_poll None ob k)) = None"
    if "\<And>p. P p \<Longrightarrow> p_state p \<in> {PROC_RUNNABLE, PROC_BLOCKED_IO}" for P t
  proof (rule ccontr)
    assume "next_from P (sched_wake_sleepers t (kernel_poll None ob k)) \<noteq> None"
    then obtain i where "next_from P (sched_wake_sleepers t (kernel_poll None ob k)) = Some i" by blast
    from next_from_Some(1,2) [OF this] show False using st [of i] that ps by fastforce
  qed
  have reader: "next_from console_reader (sched_wake_sleepers t (kernel_poll None ob k)) = None" for t
    by (rule none) (simp add: console_reader_def)
  have ready: "next_from (\<lambda>p. p_state p = PROC_RUNNABLE) (sched_wake_sleepers t (kernel_poll None ob k)) = None" for t
    by (rule none) simp
  have "sched_any_sleepers (sched_wake_sleepers t (kernel_poll None ob k)) = None" for t
    using awake by (auto simp: any_sleepers_None ps)
  moreover have "\<not> list_ex (\<lambda>p. p_state p = PROC_BLOCKED_IO) (k_procs k)" using assms(1) by (fastforce simp: list_ex_iff)
  ultimately show ?thesis
    by (simp add: sched_pass_def sched_wake_one_console_reader_if_ready_def Let_def reader ready ps cur)
qed

lemma dying_slot:
  assumes "c < length (k_procs k)" and k1_def: "k1 = mark_zombie c code (clear_tid c (proc_close_all_fds c k))"
  shows "p_state (k_procs k1 ! c) = PROC_ZOMBIE" "p_ppid (k_procs k1 ! c) = p_ppid (k_procs k ! c)"
    "p_pid (k_procs k1 ! c) = p_pid (k_procs k ! c)"
    "j \<noteq> c \<Longrightarrow> k_procs k1 ! j = k_procs k ! j" "k_cur k1 = k_cur k" "length (k_procs k1) = length (k_procs k)"
    "k_last_sched k1 = k_last_sched k"
  using assms(1) unfolding k1_def
  by (simp_all add: mark_zombie_def clear_tid_def proc_close_all_fds_def write_u32_def Let_def split: prod.split)

text \<open>
  C40: A process in another slot than 0 (where process 1 is, whose end powers the machine off) that
  sends itself SIGKILL or SIGTERM does not end when every other process is free, dead, or waiting
  but not for this one (it is not the parent, or waits for another child by number): \<open>kill\<close>
  returns 0 to it and it goes on in user mode, although its slot says that it is dead.
  (\<open>exit\<close> in the same situation stops the machine.)
\<close>

theorem self_kill_resumes_dead:
  assumes "sched_ok k" and "k_cur k < MAX_PROCS" and "k_cur k \<noteq> 0" and "p_state (cur_proc k) = PROC_RUNNABLE"
    and "0 < sint pid" and "sig = 9 \<or> sig = 15" and "proc_find_idx_by_pid pid k = Some (k_cur k)"
    and "\<And>i. i < MAX_PROCS \<Longrightarrow> i \<noteq> k_cur k \<Longrightarrow> p_state (k_procs k ! i) \<in> {PROC_UNUSED, PROC_ZOMBIE} \<or>
      p_state (k_procs k ! i) = PROC_WAITING \<and> (p_pid (k_procs k ! i) \<noteq> p_ppid (cur_proc k) \<or>
        0 < sint (p_wait_pid (k_procs k ! i)) \<and> p_wait_pid (k_procs k ! i) \<noteq> p_pid (cur_proc k))"
  shows "\<exists>k'. sys_kill \<lparr>si_usb = None, si_obs = [ob], si_cnt1 = c1, si_cnt2 = c2\<rparr> rg pid sig k = Returns 0 rg k' \<and>
    k_cur k' = k_cur k \<and> p_state (cur_proc k') = PROC_ZOMBIE"
proof -
  let ?c = "k_cur k" and ?code = "128 + (sig AND 0xff) :: u64"
  let ?e = "\<lparr>si_usb = None, si_obs = [ob], si_cnt1 = c1, si_cnt2 = c2\<rparr>"
  define k1 where "k1 = mark_zombie ?c ?code (clear_tid ?c (proc_close_all_fds ?c k))"
  have len: "length (k_procs k) = MAX_PROCS" using assms(1) by (simp add: sched_ok_def)
  note d = dying_slot [OF assms(2) [folded len] k1_def]
  have st: "p_state (k_procs k1 ! i) \<in> {PROC_UNUSED, PROC_ZOMBIE} \<or>
      p_state (k_procs k1 ! i) = PROC_WAITING \<and> (p_pid (k_procs k1 ! i) \<noteq> p_ppid (k_procs k1 ! ?c) \<or>
        0 < sint (p_wait_pid (k_procs k1 ! i)) \<and> p_wait_pid (k_procs k1 ! i) \<noteq> p_pid (k_procs k1 ! ?c))" if "i < MAX_PROCS" for i
    using assms(8) [OF that] d(1-4) by (cases "i = ?c") (simp_all add: cur_proc_def)
  have w: "wake_parent ?c ?code k1 = k1"
  proof (cases "find_slot (\<lambda>p. p_state p = PROC_WAITING \<and> p_pid p = p_ppid (k_procs k1 ! ?c)) (k_procs k1)")
    case (Some i)
    then show ?thesis using find_slot_Some [OF Some] st [of i] d(6) len by (auto simp: wake_parent_def Let_def)
  qed (simp add: wake_parent_def)
  have "\<exists>k2. sched_pass None ob k1 = (Nothing_left, k2) \<and> k_procs k2 = k_procs k1 \<and> k_cur k2 = k_cur k1"
    by (rule idle_pass) (use st d(6,7) assms(1) in \<open>auto simp: in_set_conv_nth sched_ok_def\<close>)
  then obtain k2 where p: "sched_pass None ob k1 = (Nothing_left, k2)" "k_procs k2 = k_procs k1" "k_cur k2 = ?c"
    using d(5) by auto
  then have r: "resched ?e k1 = Some (None, k2)" by (simp add: resched_def)
  have "p_state (k_procs k2 ! 0) \<noteq> PROC_RUNNABLE" using st [of 0] p(2) by (auto simp: MAX_PROCS_def)
  then have "handle_exit_and_maybe_switch ?e rg ?code k = Returns 0 rg k2"
    using r w assms(3) by (simp add: handle_exit_and_maybe_switch_def Let_def k1_def [symmetric])
  then have "sys_kill ?e rg pid sig k = Returns 0 rg k2"
    using assms(4-7) by (auto simp: sys_kill_def Let_def cur_proc_def)
  then show ?thesis using p d(1) by (auto simp: cur_proc_def)
qed

text \<open>The first process was killed, its child 2 kills itself.\<close>

definition last_process :: kernel where
  "last_process = kernel_bss\<lparr>k_cur := 1, k_procs :=
     [proc_clear\<lparr>p_state := PROC_ZOMBIE, p_pid := 1\<rparr>, proc_clear\<lparr>p_state := PROC_RUNNABLE, p_pid := 2, p_ppid := 1\<rparr>] @
       replicate 14 proc_clear\<rparr>"

lemma self_kill_resumes_dead_witness:
  "\<exists>k'. sys_kill \<lparr>si_usb = None, si_obs = [quiet_pass 5], si_cnt1 = 0, si_cnt2 = 0\<rparr> (tf_zero, 0x400000) 2 9 last_process =
     Returns 0 (tf_zero, 0x400000) k' \<and> p_state (cur_proc k') = PROC_ZOMBIE"
proof -
  have f: "sched_ok last_process" "k_cur last_process = 1" "k_cur last_process < MAX_PROCS"
    "p_state (cur_proc last_process) = PROC_RUNNABLE" "proc_find_idx_by_pid 2 last_process = Some (k_cur last_process)"
    by (simp_all add: last_process_def sched_ok_def MAX_PROCS_def kernel_bss_def cur_proc_def proc_find_idx_by_pid_def)
  have "p_state (k_procs last_process ! i) \<in> {PROC_UNUSED, PROC_ZOMBIE}" if "i < MAX_PROCS" "i \<noteq> k_cur last_process" for i
    using that unfolding f(2) by (auto simp: last_process_def MAX_PROCS_def nth_append nth_Cons' proc_clear_def)
  with self_kill_resumes_dead [OF f(1,3) _ f(4) _ _ f(5), of 9 "quiet_pass 5" 0 0 "(tf_zero, 0x400000)"] f(2)
  show ?thesis by auto
qed

end
