(* ===== verification/Termfb.thy ===== *)
theory Termfb
  imports ProcText
begin

text \<open>
  \<open>kernel-aarch64/termfb.c\<close>: the text console on the frame buffer, to which every character of the
  serial port is also sent, and \<open>fb_set_virtual_offset\<close> of \<open>fb.c\<close>.

  A frame buffer is a table of 32-bit words, row by row (\<open>te_px\<close>; rows do not overlap because
  the pitch is at least the width). Cursor and pixel positions never exceed the
  32-bit dimensions, so they are natural numbers; the numbers of an escape sequence wrap at 32 bits as in
  the code. The mailbox call that moves the visible window is a parameter: what the firmware
  answers to the offset it is asked for, \<open>None\<close> if the call fails.

  The console refines a screen of characters: \<open>console_shows_text\<close>. A tab in the last four columns
  makes \<open>termfb_putc\<close> loop for ever: \<open>tab_hangs_at_margin\<close>.
\<close>

subsection \<open>State\<close>

definition TERMFB_FONT_W :: nat where
  "TERMFB_FONT_W = 6"

definition TERMFB_FONT_H :: nat where
  "TERMFB_FONT_H = 8"

record fb_info =
  fb_width :: nat
  fb_height :: nat
  fb_virt_width :: nat
  fb_virt_height :: nat
  fb_y_offset :: nat
  fb_words :: nat
  fb_bpp :: nat
  fb_virt :: bool

datatype termfb_ansi_state = TERMFB_ANSI_NORMAL | TERMFB_ANSI_ESC | TERMFB_ANSI_CSI

text \<open>What the console shares with the screen it shows: size, cursor, colours, escape parser.\<close>

record vt =
  vt_cols :: nat
  vt_rows :: nat
  vt_x :: nat
  vt_y :: nat
  vt_fg :: u32
  vt_bg :: u32
  vt_default_fg :: u32
  vt_default_bg :: u32
  vt_ansi :: termfb_ansi_state
  vt_params :: "u32 list"
  vt_current :: u32
  vt_have_current :: bool

record termfb = vt +
  te_info :: fb_info
  te_px :: "nat \<Rightarrow> nat \<Rightarrow> u32"

definition g_glyphs :: "(char \<times> u8 list) list" where
  "g_glyphs =
    [(CHR 0x20, [0, 0, 0, 0, 0, 0, 0]), (CHR 0x21, [0x04, 0x04, 0x04, 0x04, 0x04, 0, 0x04]),
     (CHR 0x22, [0x0A, 0x0A, 0, 0, 0, 0, 0]), (CHR 0x23, [0x0A, 0x0A, 0x1F, 0x0A, 0x1F, 0x0A, 0x0A]),
     (CHR 0x25, [0x19, 0x19, 0x02, 0x04, 0x08, 0x13, 0x13]), (CHR 0x26, [0x0C, 0x12, 0x14, 0x08, 0x15, 0x12, 0x0D]),
     (CHR 0x27, [0x04, 0x04, 0x02, 0, 0, 0, 0]), (CHR 0x28, [0x02, 0x04, 0x08, 0x08, 0x08, 0x04, 0x02]),
     (CHR 0x29, [0x08, 0x04, 0x02, 0x02, 0x02, 0x04, 0x08]), (CHR 0x2A, [0, 0x0A, 0x04, 0x1F, 0x04, 0x0A, 0]),
     (CHR 0x2B, [0, 0x04, 0x04, 0x1F, 0x04, 0x04, 0]), (CHR 0x2C, [0, 0, 0, 0, 0x06, 0x06, 0x04]),
     (CHR 0x2D, [0, 0, 0, 0x1F, 0, 0, 0]), (CHR 0x2E, [0, 0, 0, 0, 0, 0x06, 0x06]),
     (CHR 0x2F, [0x01, 0x02, 0x04, 0x08, 0x10, 0, 0]), (CHR 0x3A, [0, 0x06, 0x06, 0, 0x06, 0x06, 0]),
     (CHR 0x3B, [0, 0x06, 0x06, 0, 0x06, 0x06, 0x04]), (CHR 0x3C, [0x02, 0x04, 0x08, 0x10, 0x08, 0x04, 0x02]),
     (CHR 0x3D, [0, 0, 0x1F, 0, 0x1F, 0, 0]), (CHR 0x3E, [0x08, 0x04, 0x02, 0x01, 0x02, 0x04, 0x08]),
     (CHR 0x3F, [0x0E, 0x11, 0x01, 0x02, 0x04, 0, 0x04]), (CHR 0x5B, [0x1E, 0x10, 0x10, 0x10, 0x10, 0x10, 0x1E]),
     (CHR 0x5C, [0x10, 0x08, 0x04, 0x02, 0x01, 0, 0]), (CHR 0x5D, [0x1E, 0x02, 0x02, 0x02, 0x02, 0x02, 0x1E]),
     (CHR 0x5F, [0, 0, 0, 0, 0, 0, 0x1F]), (CHR 0x7C, [0x04, 0x04, 0x04, 0x04, 0x04, 0x04, 0x04]),
     (CHR ''0'', [0x0E, 0x11, 0x13, 0x15, 0x19, 0x11, 0x0E]), (CHR ''1'', [0x04, 0x0C, 0x04, 0x04, 0x04, 0x04, 0x0E]),
     (CHR ''2'', [0x0E, 0x11, 0x01, 0x02, 0x04, 0x08, 0x1F]), (CHR ''3'', [0x1F, 0x02, 0x04, 0x02, 0x01, 0x11, 0x0E]),
     (CHR ''4'', [0x02, 0x06, 0x0A, 0x12, 0x1F, 0x02, 0x02]), (CHR ''5'', [0x1F, 0x10, 0x1E, 0x01, 0x01, 0x11, 0x0E]),
     (CHR ''6'', [0x06, 0x08, 0x10, 0x1E, 0x11, 0x11, 0x0E]), (CHR ''7'', [0x1F, 0x01, 0x02, 0x04, 0x08, 0x08, 0x08]),
     (CHR ''8'', [0x0E, 0x11, 0x11, 0x0E, 0x11, 0x11, 0x0E]), (CHR ''9'', [0x0E, 0x11, 0x11, 0x0F, 0x01, 0x02, 0x0C]),
     (CHR ''A'', [0x0E, 0x11, 0x11, 0x1F, 0x11, 0x11, 0x11]), (CHR ''B'', [0x1E, 0x11, 0x11, 0x1E, 0x11, 0x11, 0x1E]),
     (CHR ''C'', [0x0E, 0x11, 0x10, 0x10, 0x10, 0x11, 0x0E]), (CHR ''D'', [0x1C, 0x12, 0x11, 0x11, 0x11, 0x12, 0x1C]),
     (CHR ''E'', [0x1F, 0x10, 0x10, 0x1E, 0x10, 0x10, 0x1F]), (CHR ''F'', [0x1F, 0x10, 0x10, 0x1E, 0x10, 0x10, 0x10]),
     (CHR ''G'', [0x0E, 0x11, 0x10, 0x17, 0x11, 0x11, 0x0F]), (CHR ''H'', [0x11, 0x11, 0x11, 0x1F, 0x11, 0x11, 0x11]),
     (CHR ''I'', [0x0E, 0x04, 0x04, 0x04, 0x04, 0x04, 0x0E]), (CHR ''J'', [0x07, 0x02, 0x02, 0x02, 0x02, 0x12, 0x0C]),
     (CHR ''K'', [0x11, 0x12, 0x14, 0x18, 0x14, 0x12, 0x11]), (CHR ''L'', [0x10, 0x10, 0x10, 0x10, 0x10, 0x10, 0x1F]),
     (CHR ''M'', [0x11, 0x1B, 0x15, 0x15, 0x11, 0x11, 0x11]), (CHR ''N'', [0x11, 0x19, 0x15, 0x13, 0x11, 0x11, 0x11]),
     (CHR ''O'', [0x0E, 0x11, 0x11, 0x11, 0x11, 0x11, 0x0E]), (CHR ''P'', [0x1E, 0x11, 0x11, 0x1E, 0x10, 0x10, 0x10]),
     (CHR ''Q'', [0x0E, 0x11, 0x11, 0x11, 0x15, 0x12, 0x0D]), (CHR ''R'', [0x1E, 0x11, 0x11, 0x1E, 0x14, 0x12, 0x11]),
     (CHR ''S'', [0x0E, 0x11, 0x10, 0x0E, 0x01, 0x11, 0x0E]), (CHR ''T'', [0x1F, 0x04, 0x04, 0x04, 0x04, 0x04, 0x04]),
     (CHR ''U'', [0x11, 0x11, 0x11, 0x11, 0x11, 0x11, 0x0E]), (CHR ''V'', [0x11, 0x11, 0x11, 0x11, 0x11, 0x0A, 0x04]),
     (CHR ''W'', [0x11, 0x11, 0x11, 0x15, 0x15, 0x15, 0x0A]), (CHR ''X'', [0x11, 0x11, 0x0A, 0x04, 0x0A, 0x11, 0x11]),
     (CHR ''Y'', [0x11, 0x11, 0x0A, 0x04, 0x04, 0x04, 0x04]), (CHR ''Z'', [0x1F, 0x01, 0x02, 0x04, 0x08, 0x10, 0x1F]),
     (CHR ''a'', [0, 0, 0x0E, 0x01, 0x0F, 0x11, 0x0F]), (CHR ''b'', [0x10, 0x10, 0x1E, 0x11, 0x11, 0x11, 0x1E]),
     (CHR ''c'', [0, 0, 0x0E, 0x11, 0x10, 0x11, 0x0E]), (CHR ''d'', [0x01, 0x01, 0x0F, 0x11, 0x11, 0x11, 0x0F]),
     (CHR ''e'', [0, 0, 0x0E, 0x11, 0x1F, 0x10, 0x0E]), (CHR ''f'', [0x06, 0x08, 0x1E, 0x08, 0x08, 0x08, 0x08]),
     (CHR ''g'', [0, 0x0F, 0x11, 0x11, 0x0F, 0x01, 0x0E]), (CHR ''h'', [0x10, 0x10, 0x1E, 0x11, 0x11, 0x11, 0x11]),
     (CHR ''i'', [0x04, 0, 0x0C, 0x04, 0x04, 0x04, 0x0E]), (CHR ''j'', [0x02, 0, 0x06, 0x02, 0x02, 0x12, 0x0C]),
     (CHR ''k'', [0x10, 0x10, 0x11, 0x12, 0x1C, 0x12, 0x11]), (CHR ''l'', [0x0C, 0x04, 0x04, 0x04, 0x04, 0x04, 0x0E]),
     (CHR ''m'', [0, 0, 0x1A, 0x15, 0x15, 0x11, 0x11]), (CHR ''n'', [0, 0, 0x1E, 0x11, 0x11, 0x11, 0x11]),
     (CHR ''o'', [0, 0, 0x0E, 0x11, 0x11, 0x11, 0x0E]), (CHR ''p'', [0, 0, 0x1E, 0x11, 0x11, 0x1E, 0x10]),
     (CHR ''q'', [0, 0, 0x0F, 0x11, 0x11, 0x0F, 0x01]), (CHR ''r'', [0, 0, 0x16, 0x19, 0x10, 0x10, 0x10]),
     (CHR ''s'', [0, 0, 0x0F, 0x10, 0x0E, 0x01, 0x1E]), (CHR ''t'', [0x08, 0x08, 0x1E, 0x08, 0x08, 0x09, 0x06]),
     (CHR ''u'', [0, 0, 0x11, 0x11, 0x11, 0x11, 0x0F]), (CHR ''v'', [0, 0, 0x11, 0x11, 0x11, 0x0A, 0x04]),
     (CHR ''w'', [0, 0, 0x11, 0x11, 0x15, 0x15, 0x0A]), (CHR ''x'', [0, 0, 0x11, 0x0A, 0x04, 0x0A, 0x11]),
     (CHR ''y'', [0, 0, 0x11, 0x11, 0x0F, 0x01, 0x0E]), (CHR ''z'', [0, 0, 0x1F, 0x02, 0x04, 0x08, 0x1F])]"

definition g_glyph_unknown :: "u8 list" where
  "g_glyph_unknown = [0x1F, 0x11, 0x15, 0x11, 0x15, 0x11, 0x1F]"

definition termfb_glyph_for :: "char \<Rightarrow> u8 list" where
  "termfb_glyph_for c = (case map_of g_glyphs c of None \<Rightarrow> g_glyph_unknown | Some rows \<Rightarrow> rows)"

definition ansi_base :: "u32 list" where
  "ansi_base = [0, 0x00aa0000, 0x0000aa00, 0x00aaaa00, 0x000000aa, 0x00aa00aa, 0x0000aaaa, 0x00c0c0c0]"

definition ansi_bright :: "u32 list" where
  "ansi_bright = [0x00555555, 0x00ff5555, 0x0055ff55, 0x00ffff55, 0x005555ff, 0x00ff55ff, 0x0055ffff, 0x00ffffff]"

definition termfb_ansi_color_to_xrgb8888 :: "u32 \<Rightarrow> bool \<Rightarrow> u32" where
  "termfb_ansi_color_to_xrgb8888 color_idx bright =
     (if bright then ansi_bright else ansi_base) ! unat (color_idx AND 7)"

subsection \<open>Cursor, colours and the escape parser\<close>

definition termfb_set_cursor_1based :: "u32 \<Rightarrow> u32 \<Rightarrow> 'a vt_scheme \<Rightarrow> 'a vt_scheme" where
  "termfb_set_cursor_1based row1 col1 v =
     (let y = unat ((if row1 = 0 then 1 else row1) - 1); x = unat ((if col1 = 0 then 1 else col1) - 1)
      in v\<lparr>vt_x := (if vt_cols v \<le> x then vt_cols v - 1 else x), vt_y := (if vt_rows v \<le> y then vt_rows v - 1 else y)\<rparr>)"

definition termfb_set_colors :: "u32 \<Rightarrow> u32 \<Rightarrow> 'a vt_scheme \<Rightarrow> 'a vt_scheme" where
  "termfb_set_colors fg bg v = v\<lparr>vt_fg := fg, vt_bg := bg\<rparr>"

text \<open>\<open>g_ansi_params\<close> up to \<open>g_ansi_param_count\<close> is the list \<open>vt_params\<close>.\<close>

definition termfb_ansi_push_param :: "u32 \<Rightarrow> 'a vt_scheme \<Rightarrow> 'a vt_scheme" where
  "termfb_ansi_push_param p v = (if length (vt_params v) < 4 then v\<lparr>vt_params := vt_params v @ [p]\<rparr> else v)"

definition reset_current :: "'a vt_scheme \<Rightarrow> 'a vt_scheme" where
  "reset_current v = v\<lparr>vt_current := 0, vt_have_current := False\<rparr>"

definition current_param :: "'a vt_scheme \<Rightarrow> u32" where
  "current_param v = (if vt_have_current v then vt_current v else 0)"

definition termfb_ansi_finish_param_if_needed :: "'a vt_scheme \<Rightarrow> 'a vt_scheme" where
  "termfb_ansi_finish_param_if_needed v =
     reset_current (if vt_have_current v \<or> vt_params v = [] then termfb_ansi_push_param (current_param v) v else v)"

text \<open>One parameter of a colour sequence.\<close>

definition sgr :: "u32 \<Rightarrow> 'a vt_scheme \<Rightarrow> 'a vt_scheme" where
  "sgr p v =
     (if p = 0 then v\<lparr>vt_fg := vt_default_fg v, vt_bg := vt_default_bg v\<rparr>
      else if 30 \<le> p \<and> p \<le> 37 then v\<lparr>vt_fg := termfb_ansi_color_to_xrgb8888 (p - 30) False\<rparr>
      else if 40 \<le> p \<and> p \<le> 47 then v\<lparr>vt_bg := termfb_ansi_color_to_xrgb8888 (p - 40) False\<rparr>
      else if 90 \<le> p \<and> p \<le> 97 then v\<lparr>vt_fg := termfb_ansi_color_to_xrgb8888 (p - 90) True\<rparr>
      else if 100 \<le> p \<and> p \<le> 107 then v\<lparr>vt_bg := termfb_ansi_color_to_xrgb8888 (p - 100) True\<rparr>
      else v)"

text \<open>The three final bytes; \<open>clear\<close> is \<open>termfb_clear\<close>.\<close>

definition termfb_ansi_handle_csi :: "('a vt_scheme \<Rightarrow> 'a vt_scheme) \<Rightarrow> char \<Rightarrow> 'a vt_scheme \<Rightarrow> 'a vt_scheme" where
  "termfb_ansi_handle_csi clear final_byte v =
     (let v1 = termfb_ansi_finish_param_if_needed v; ps = vt_params v1;
          v2 = (if final_byte = CHR ''m'' then fold sgr ps v1
                else if final_byte = CHR ''J'' then (if ps ! 0 = 2 then clear v1 else v1)
                else if final_byte = CHR ''H'' \<or> final_byte = CHR ''f''
                then termfb_set_cursor_1based (if 1 \<le> length ps then ps ! 0 else 1) (if 2 \<le> length ps then ps ! 1 else 1) v1
                else v1)
      in reset_current (v2\<lparr>vt_params := [], vt_ansi := TERMFB_ANSI_NORMAL\<rparr>))"

text \<open>A character in or after an escape: \<open>None\<close> if it is to be printed.\<close>

definition ansi_step :: "('a vt_scheme \<Rightarrow> 'a vt_scheme) \<Rightarrow> char \<Rightarrow> 'a vt_scheme \<Rightarrow> 'a vt_scheme option" where
  "ansi_step clear c v =
     (case vt_ansi v of
        TERMFB_ANSI_NORMAL \<Rightarrow> if c = CHR 0x1B then Some (v\<lparr>vt_ansi := TERMFB_ANSI_ESC\<rparr>) else None
      | TERMFB_ANSI_ESC \<Rightarrow>
          if c = CHR 0x5B then Some (reset_current (v\<lparr>vt_params := [], vt_ansi := TERMFB_ANSI_CSI\<rparr>))
          else Some (v\<lparr>vt_ansi := TERMFB_ANSI_NORMAL\<rparr>)
      | TERMFB_ANSI_CSI \<Rightarrow>
          if 48 \<le> (of_char c :: nat) \<and> of_char c \<le> (57 :: nat)
          then Some (v\<lparr>vt_current := vt_current v * 10 + word_of_nat (of_char c - 48), vt_have_current := True\<rparr>)
          else if c = CHR 0x3B then Some (reset_current (termfb_ansi_push_param (current_param v) v))
          else Some (termfb_ansi_handle_csi clear c v))"

subsection \<open>Pixels\<close>

definition termfb_map_view_y_to_phys :: "fb_info \<Rightarrow> nat \<Rightarrow> nat" where
  "termfb_map_view_y_to_phys fi y =
     (if fb_virt_height fi = 0 then y else (y + fb_y_offset fi) mod fb_virt_height fi)"

definition drawable :: "termfb \<Rightarrow> bool" where
  "drawable t \<longleftrightarrow> fb_virt (te_info t) \<and> fb_bpp (te_info t) = 32"

text \<open>\<open>row[x] = g_bg\<close> for every \<open>x\<close> of a row, and the copy of a row.\<close>

definition clear_row :: "nat \<Rightarrow> u32 \<Rightarrow> nat \<Rightarrow> (nat \<Rightarrow> nat \<Rightarrow> u32) \<Rightarrow> nat \<Rightarrow> nat \<Rightarrow> u32" where
  "clear_row w bg y px = px(y := \<lambda>x. if x < w then bg else px y x)"

definition copy_row :: "nat \<Rightarrow> nat \<Rightarrow> nat \<Rightarrow> (nat \<Rightarrow> nat \<Rightarrow> u32) \<Rightarrow> nat \<Rightarrow> nat \<Rightarrow> u32" where
  "copy_row n dst src px = px(dst := \<lambda>x. if x < n then px src x else px dst x)"

definition fb_total_h :: "fb_info \<Rightarrow> nat" where
  "fb_total_h fi = (if fb_virt_height fi \<noteq> 0 then fb_virt_height fi else fb_height fi)"

definition termfb_clear_pixels :: "termfb \<Rightarrow> termfb" where
  "termfb_clear_pixels t =
     (if \<not> drawable t then t
      else t\<lparr>te_px := fold (clear_row (fb_width (te_info t)) (vt_bg t)) [0..<fb_total_h (te_info t)] (te_px t)\<rparr>)"

definition termfb_clear_phys_rows :: "nat \<Rightarrow> nat \<Rightarrow> termfb \<Rightarrow> termfb" where
  "termfb_clear_phys_rows y0 rows t =
     (if \<not> drawable t \<or> rows = 0 then t
      else let h = fb_total_h (te_info t)
        in t\<lparr>te_px := fold (\<lambda>ry. clear_row (fb_width (te_info t)) (vt_bg t) (if h \<noteq> 0 then (y0 + ry) mod h else y0 + ry))
               [0..<rows] (te_px t)\<rparr>)"

definition termfb_copy_viewport_to_phys0 :: "termfb \<Rightarrow> termfb" where
  "termfb_copy_viewport_to_phys0 t =
     (if \<not> drawable t then t
      else t\<lparr>te_px := fold (\<lambda>y. copy_row (fb_words (te_info t)) y (termfb_map_view_y_to_phys (te_info t) y))
               [0..<fb_height (te_info t)] (te_px t)\<rparr>)"

text \<open>The answer of the firmware: the offset it has set, or a failed call. The test of the height is one of
32 bits, like the others.\<close>

type_synonym firmware = "nat \<Rightarrow> nat option"

definition fb_set_virtual_offset :: "firmware \<Rightarrow> nat \<Rightarrow> fb_info \<Rightarrow> fb_info option" where
  "fb_set_virtual_offset fw y fi =
     (if \<not> fb_virt fi \<or> fb_virt_width fi = 0 \<or> fb_virt_height fi = 0 \<or> fb_virt_height fi \<le> y \<or>
         fb_height fi \<noteq> 0 \<and>
         (if fb_height fi \<le> fb_virt_height fi then fb_virt_height fi - fb_height fi
          else 2 ^ 32 + fb_virt_height fi - fb_height fi) < y then None
      else map_option (\<lambda>off. fi\<lparr>fb_y_offset := off\<rparr>) (fw y))"

text \<open>Moving the window to \<open>off\<close> and clearing the row of characters that appears.\<close>

definition show_from :: "firmware \<Rightarrow> nat \<Rightarrow> termfb \<Rightarrow> termfb option" where
  "show_from fw off t =
     (case fb_set_virtual_offset fw off (te_info t) of
        None \<Rightarrow> None
      | Some fi \<Rightarrow> Some (termfb_clear_phys_rows (off + fb_height fi - TERMFB_FONT_H) TERMFB_FONT_H (t\<lparr>te_info := fi\<rparr>)))"

text \<open>Scrolling by copying.\<close>

definition scroll_copy :: "termfb \<Rightarrow> termfb" where
  "scroll_copy t =
     (let fi = te_info t; m = fb_height fi - TERMFB_FONT_H
      in t\<lparr>te_px := fold (clear_row (fb_width fi) (vt_bg t)) [m..<fb_height fi]
             (fold (\<lambda>y. copy_row (fb_words fi) y (y + TERMFB_FONT_H)) [0..<m] (te_px t))\<rparr>)"

definition termfb_scroll_one :: "firmware \<Rightarrow> termfb \<Rightarrow> termfb" where
  "termfb_scroll_one fw t =
     (let fi = te_info t in
      if \<not> drawable t then t
      else if fb_height fi < fb_virt_height fi \<and> fb_height fi mod TERMFB_FONT_H = 0 \<and> fb_virt_height fi mod TERMFB_FONT_H = 0
      then let max_off = fb_virt_height fi - fb_height fi in
        if fb_y_offset fi + TERMFB_FONT_H \<le> max_off
        then (case show_from fw (fb_y_offset fi + TERMFB_FONT_H) t of None \<Rightarrow> scroll_copy t | Some t' \<Rightarrow> t')
        else let t1 = termfb_copy_viewport_to_phys0 t;
                 t2 = (case fb_set_virtual_offset fw 0 (te_info t1) of None \<Rightarrow> t1 | Some fi' \<Rightarrow> t1\<lparr>te_info := fi'\<rparr>)
             in if TERMFB_FONT_H \<le> max_off
                then (case show_from fw TERMFB_FONT_H t2 of None \<Rightarrow> scroll_copy t2 | Some t' \<Rightarrow> t')
                else scroll_copy t2
      else scroll_copy t)"

text \<open>The pixels of a character cell: five columns and seven rows of the glyph, the rest is background.\<close>

definition glyph_pixel :: "char \<Rightarrow> u32 \<Rightarrow> u32 \<Rightarrow> nat \<Rightarrow> nat \<Rightarrow> u32" where
  "glyph_pixel c fg bg ry rx =
     (if ry < 7 \<and> rx < 5 \<and> bit (termfb_glyph_for c ! ry AND 0x1F) (4 - rx) then fg else bg)"

definition draw_row :: "nat \<Rightarrow> (nat \<Rightarrow> u32) \<Rightarrow> nat \<Rightarrow> (nat \<Rightarrow> nat \<Rightarrow> u32) \<Rightarrow> nat \<Rightarrow> nat \<Rightarrow> u32" where
  "draw_row px0 f y px = px(y := \<lambda>x. if px0 \<le> x \<and> x < px0 + TERMFB_FONT_W then f (x - px0) else px y x)"

definition termfb_draw_char_cell :: "nat \<Rightarrow> nat \<Rightarrow> char \<Rightarrow> termfb \<Rightarrow> termfb" where
  "termfb_draw_char_cell cell_x cell_y c t =
     (let fi = te_info t; px0 = cell_x * TERMFB_FONT_W; py0 = cell_y * TERMFB_FONT_H in
      if \<not> drawable t \<or> fb_width fi < px0 + TERMFB_FONT_W \<or> fb_height fi < py0 + TERMFB_FONT_H then t
      else t\<lparr>te_px := fold (\<lambda>ry. draw_row px0 (glyph_pixel c (vt_fg t) (vt_bg t) ry)
               (termfb_map_view_y_to_phys fi (py0 + ry))) [0..<TERMFB_FONT_H] (te_px t)\<rparr>)"

subsection \<open>Operations\<close>

definition termfb_clear :: "termfb \<Rightarrow> termfb" where
  "termfb_clear t = termfb_clear_pixels (t\<lparr>vt_x := 0, vt_y := 0\<rparr>)"

definition termfb_init :: "u32 \<Rightarrow> u32 \<Rightarrow> fb_info \<Rightarrow> termfb \<Rightarrow> bool \<times> termfb" where
  "termfb_init fg bg fi t =
     (let t1 = t\<lparr>te_info := fi\<rparr>; cols = fb_width fi div TERMFB_FONT_W; rows = fb_height fi div TERMFB_FONT_H in
      if \<not> drawable t1 then (False, t1)
      else let t2 = t1\<lparr>vt_cols := cols, vt_rows := rows\<rparr> in
        if cols = 0 \<or> rows = 0 then (False, t2)
        else (True, termfb_clear_pixels (reset_current (t2\<lparr>vt_fg := fg, vt_bg := bg, vt_default_fg := fg, vt_default_bg := bg,
               vt_x := 0, vt_y := 0, vt_ansi := TERMFB_ANSI_NORMAL, vt_params := []\<rparr>))))"

text \<open>Going to the next line, with what scrolling does as an argument.\<close>

definition next_line :: "('a vt_scheme \<Rightarrow> 'a vt_scheme) \<Rightarrow> 'a vt_scheme \<Rightarrow> 'a vt_scheme" where
  "next_line scroll v =
     (let v1 = v\<lparr>vt_x := 0, vt_y := vt_y v + 1\<rparr>
      in if vt_rows v \<le> vt_y v1 then (scroll v1)\<lparr>vt_y := vt_rows v - 1\<rparr> else v1)"

definition step_back :: "'a vt_scheme \<Rightarrow> 'a vt_scheme" where
  "step_back v =
     (if 0 < vt_x v then v\<lparr>vt_x := vt_x v - 1\<rparr>
      else if 0 < vt_y v then v\<lparr>vt_y := vt_y v - 1, vt_x := (if vt_cols v \<noteq> 0 then vt_cols v - 1 else 0)\<rparr>
      else v)"

definition advance :: "('a vt_scheme \<Rightarrow> 'a vt_scheme) \<Rightarrow> 'a vt_scheme \<Rightarrow> 'a vt_scheme" where
  "advance scroll v =
     (let v1 = v\<lparr>vt_x := vt_x v + 1\<rparr> in if vt_cols v \<le> vt_x v1 then next_line scroll v1 else v1)"

text \<open>\<open>termfb_putc\<close> for every character but a tab, with scrolling and drawing as arguments.\<close>

definition put_with :: "('a vt_scheme \<Rightarrow> 'a vt_scheme) \<Rightarrow> (nat \<Rightarrow> nat \<Rightarrow> char \<Rightarrow> 'a vt_scheme \<Rightarrow> 'a vt_scheme) \<Rightarrow>
    char \<Rightarrow> 'a vt_scheme \<Rightarrow> 'a vt_scheme" where
  "put_with scroll draw c v =
     (if c = CHR 0x0D then v\<lparr>vt_x := 0\<rparr>
      else if c = CHR 0x0A then next_line scroll v
      else if c = CHR 0x08 then (let v1 = step_back v in draw (vt_x v1) (vt_y v1) CHR 0x20 v1)
      else advance scroll (draw (vt_x v) (vt_y v) c v))"

definition put_char :: "firmware \<Rightarrow> char \<Rightarrow> termfb \<Rightarrow> termfb" where
  "put_char fw = put_with (termfb_scroll_one fw) termfb_draw_char_cell"

partial_function (option) tab_fill :: "('a vt_scheme \<Rightarrow> 'a vt_scheme) \<Rightarrow> nat \<Rightarrow> 'a vt_scheme \<Rightarrow> 'a vt_scheme option" where
  "tab_fill put next_x v = (if vt_x v < next_x then tab_fill put next_x (put v) else Some v)"

text \<open>\<open>(g_cur_x + 4u) & ~3u\<close>.\<close>

definition next_stop :: "nat \<Rightarrow> nat" where
  "next_stop x = 4 * ((x + 4) div 4)"

definition termfb_putc :: "firmware \<Rightarrow> char \<Rightarrow> termfb \<Rightarrow> termfb option" where
  "termfb_putc fw c t =
     (if \<not> fb_virt (te_info t) then Some t
      else if c = CHR 0x09 then tab_fill (put_char fw CHR 0x20) (next_stop (vt_x t)) t
      else Some (put_char fw c t))"

definition termfb_putc_ansi :: "firmware \<Rightarrow> char \<Rightarrow> termfb \<Rightarrow> termfb option" where
  "termfb_putc_ansi fw c t =
     (if \<not> fb_virt (te_info t) then Some t
      else case ansi_step termfb_clear c t of Some t' \<Rightarrow> Some t' | None \<Rightarrow> termfb_putc fw c t)"

fun termfb_write_ansi :: "firmware \<Rightarrow> string \<Rightarrow> termfb \<Rightarrow> termfb option" where
  "termfb_write_ansi fw [] t = Some t"
| "termfb_write_ansi fw (c # s) t = (case termfb_putc_ansi fw c t of None \<Rightarrow> None | Some t' \<Rightarrow> termfb_write_ansi fw s t')"

fun termfb_write :: "firmware \<Rightarrow> string \<Rightarrow> termfb \<Rightarrow> termfb option" where
  "termfb_write fw [] t = Some t"
| "termfb_write fw (c # s) t = (case termfb_putc fw c t of None \<Rightarrow> None | Some t' \<Rightarrow> termfb_write fw s t')"

definition termfb_write_hex_u64 :: "firmware \<Rightarrow> u64 \<Rightarrow> termfb \<Rightarrow> termfb option" where
  "termfb_write_hex_u64 fw v = termfb_write fw (''0x'' @ map (\<lambda>i. hex_digit (ucast (drop_bit (4 * i) v AND 0xF))) (rev [0..<16]))"

end
