(* ===== verification/TermfbScreen.thy ===== *)
theory TermfbScreen
  imports Termfb
begin

text \<open>
  The screen of characters that the console shows: its operations, the relation between a screen
  and the pixels of the frame buffer, and the proof that every character written keeps it.
\<close>

subsection \<open>A screen of characters\<close>

type_synonym cell = "char \<times> u32 \<times> u32"

record screen = vt +
  sc_cells :: "cell list list"

definition blank_row :: "nat \<Rightarrow> u32 \<Rightarrow> cell list" where
  "blank_row n bg = replicate n (CHR 0x20, bg, bg)"

definition sc_scroll :: "screen \<Rightarrow> screen" where
  "sc_scroll s = s\<lparr>sc_cells := tl (sc_cells s) @ [blank_row (vt_cols s) (vt_bg s)]\<rparr>"

definition sc_clear :: "screen \<Rightarrow> screen" where
  "sc_clear s = s\<lparr>vt_x := 0, vt_y := 0, sc_cells := replicate (vt_rows s) (blank_row (vt_cols s) (vt_bg s))\<rparr>"

definition sc_draw :: "nat \<Rightarrow> nat \<Rightarrow> char \<Rightarrow> screen \<Rightarrow> screen" where
  "sc_draw x y c s = s\<lparr>sc_cells := (sc_cells s)[y := (sc_cells s ! y)[x := (c, vt_fg s, vt_bg s)]]\<rparr>"

definition screen_putc :: "char \<Rightarrow> screen \<Rightarrow> screen option" where
  "screen_putc c s =
     (if c = CHR 0x09 then tab_fill (put_with sc_scroll sc_draw CHR 0x20) (next_stop (vt_x s)) s
      else Some (put_with sc_scroll sc_draw c s))"

definition screen_putc_ansi :: "char \<Rightarrow> screen \<Rightarrow> screen option" where
  "screen_putc_ansi c s = (case ansi_step sc_clear c s of Some s' \<Rightarrow> Some s' | None \<Rightarrow> screen_putc c s)"

fun screen_write :: "string \<Rightarrow> screen \<Rightarrow> screen option" where
  "screen_write [] s = Some s"
| "screen_write (c # cs) s = (case screen_putc_ansi c s of None \<Rightarrow> None | Some s' \<Rightarrow> screen_write cs s')"

subsection \<open>The cursor\<close>

definition vt_ok :: "'a vt_scheme \<Rightarrow> bool" where
  "vt_ok v \<longleftrightarrow> vt_x v < vt_cols v \<and> vt_y v < vt_rows v"

definition same_vt :: "'a vt_scheme \<Rightarrow> 'b vt_scheme \<Rightarrow> bool" where
  "same_vt v u \<longleftrightarrow> vt.truncate v = vt.truncate u"

lemma same_vt_iff:
  "same_vt v u \<longleftrightarrow> vt_cols v = vt_cols u \<and> vt_rows v = vt_rows u \<and> vt_x v = vt_x u \<and> vt_y v = vt_y u \<and>
     vt_fg v = vt_fg u \<and> vt_bg v = vt_bg u \<and> vt_default_fg v = vt_default_fg u \<and> vt_default_bg v = vt_default_bg u \<and>
     vt_ansi v = vt_ansi u \<and> vt_params v = vt_params u \<and> vt_current v = vt_current u \<and>
     vt_have_current v = vt_have_current u"
  by (simp add: same_vt_def vt.defs)

lemma same_vt_refl [simp]: "same_vt v v"
  by (simp add: same_vt_def)

lemma same_vt_ok: "same_vt v u \<Longrightarrow> vt_ok v = vt_ok u"
  by (simp add: same_vt_iff vt_ok_def)

text \<open>Where a printed character leaves the cursor.\<close>

lemma advance_vt:
  assumes "vt_ok v" and "\<And>u. same_vt (scroll u) u" and "same_vt (draw (vt_x v) (vt_y v) c v) v"
    and "c \<noteq> CHR 0x0D" "c \<noteq> CHR 0x0A" "c \<noteq> CHR 0x08"
  shows "vt_cols (put_with scroll draw c v) = vt_cols v \<and> vt_ok (put_with scroll draw c v) \<and>
    vt_x (put_with scroll draw c v) = (if vt_x v + 1 < vt_cols v then vt_x v + 1 else 0) \<and>
    (vt_x v + 1 < vt_cols v \<longrightarrow> vt_y (put_with scroll draw c v) = vt_y v)"
  using assms(1) assms(2) [unfolded same_vt_iff] assms(3) [unfolded same_vt_iff] assms(4-6)
  by (auto simp: put_with_def advance_def next_line_def vt_ok_def Let_def)

text \<open>A loop that fills up to column \<open>n\<close>: it ends iff the column exists.\<close>

lemma tab_fill_ends:
  assumes put: "\<And>v. vt_ok v \<Longrightarrow> vt_cols (put v) = vt_cols v \<and> vt_ok (put v) \<and>
      vt_x (put v) = (if vt_x v + 1 < vt_cols v then vt_x v + 1 else 0) \<and> (vt_x v + 1 < vt_cols v \<longrightarrow> vt_y (put v) = vt_y v)"
  assumes "vt_ok v" and "n < vt_cols v"
  shows "tab_fill put n v = Some ((put ^^ (n - vt_x v)) v) \<and>
    (vt_x v \<le> n \<longrightarrow> vt_x ((put ^^ (n - vt_x v)) v) = n \<and> vt_y ((put ^^ (n - vt_x v)) v) = vt_y v)"
  using assms(2,3)
proof (induction "n - vt_x v" arbitrary: v)
  case 0
  then show ?case by (simp add: tab_fill.simps)
next
  case (Suc d)
  have lt: "vt_x v < n" using Suc.hyps(2) by simp
  then have p: "vt_cols (put v) = vt_cols v" "vt_ok (put v)" "vt_x (put v) = vt_x v + 1" "vt_y (put v) = vt_y v"
    using put [OF Suc.prems(1)] Suc.prems(2) by auto
  then have d: "d = n - vt_x (put v)" "n - vt_x v = Suc (n - vt_x (put v))" using Suc.hyps(2) by simp_all
  show ?case
    using Suc.hyps(1) [OF d(1) p(2)] Suc.prems(2) p lt unfolding d(2)
    by (simp add: tab_fill.simps [of put n v] funpow_swap1)
qed

lemma tab_fill_loops:
  assumes put: "\<And>v. vt_ok v \<Longrightarrow> vt_cols (put v) = vt_cols v \<and> vt_ok (put v)"
  assumes "vt_ok v" and "vt_cols v \<le> n"
  shows "tab_fill put n v = None"
proof -
  have "\<not> (p = put \<and> m = n \<and> vt_ok v \<and> vt_cols v \<le> n)" if "tab_fill p m v = Some u" for p m v u
    using put
    by (intro tab_fill.raw_induct [where P = "\<lambda>p m v u. \<not> (p = put \<and> m = n \<and> vt_ok v \<and> vt_cols v \<le> n)", OF _ that])
      (fastforce simp: vt_ok_def split: if_splits)
  then show ?thesis using assms(2,3) by (cases "tab_fill put n v") auto
qed

subsection \<open>Rows of pixels\<close>

lemma clear_rows:
  "fold (\<lambda>i. clear_row w bg (f i)) ns px = (\<lambda>y x. if y \<in> f ` set ns \<and> x < w then bg else px y x)"
  by (induction ns arbitrary: px) (auto simp: clear_row_def fun_eq_iff)

lemma copy_rows:
  "fold (\<lambda>y. copy_row n y (y + k)) [0..<m] px = (\<lambda>y x. if y < m \<and> x < n then px (y + k) x else px y x)"
  by (induction m) (auto simp: copy_row_def fun_eq_iff less_Suc_eq)

lemma draw_rows:
  "fold (\<lambda>ry. draw_row px0 (f ry) (b + ry)) [0..<n] px =
   (\<lambda>y x. if b \<le> y \<and> y < b + n \<and> px0 \<le> x \<and> x < px0 + TERMFB_FONT_W then f (y - b) (x - px0) else px y x)"
  by (induction n) (auto simp: draw_row_def fun_eq_iff less_Suc_eq)

text \<open>The console fits its frame buffer, and the visible window lies inside it.\<close>

definition window_ok :: "fb_info \<Rightarrow> bool" where
  "window_ok fi \<longleftrightarrow> fb_virt fi \<and> fb_bpp fi = 32 \<and> fb_height fi mod TERMFB_FONT_H = 0 \<and> fb_width fi \<le> fb_words fi \<and>
     (if fb_height fi < fb_virt_height fi \<and> fb_virt_height fi mod TERMFB_FONT_H = 0
      then fb_virt_width fi \<noteq> 0 \<and> fb_y_offset fi + fb_height fi \<le> fb_virt_height fi
      else fb_y_offset fi = 0 \<and> (fb_virt_height fi = 0 \<or> fb_height fi \<le> fb_virt_height fi))"

definition fits :: "termfb \<Rightarrow> bool" where
  "fits t \<longleftrightarrow> window_ok (te_info t) \<and> vt_cols t * TERMFB_FONT_W \<le> fb_width (te_info t) \<and>
     vt_rows t * TERMFB_FONT_H = fb_height (te_info t)"

lemma fits_cong:
  "te_info t' = te_info t \<Longrightarrow> vt_cols t' = vt_cols t \<Longrightarrow> vt_rows t' = vt_rows t \<Longrightarrow> fits t' = fits t"
  by (simp add: fits_def)

lemma view_row:
  assumes "window_ok fi" and "y < fb_height fi"
  shows "termfb_map_view_y_to_phys fi y = y + fb_y_offset fi"
  using assms by (auto simp: window_ok_def termfb_map_view_y_to_phys_def split: if_splits)

definition view_px :: "termfb \<Rightarrow> nat \<Rightarrow> nat \<Rightarrow> u32" where
  "view_px t y x = te_px t (termfb_map_view_y_to_phys (te_info t) y) x"

text \<open>Firmware that does what it is asked, or that always refuses to move the window, which then is at
the first row.\<close>

definition honours :: "firmware \<Rightarrow> bool" where
  "honours fw \<longleftrightarrow> (\<forall>y. fw y = Some y)"

definition steady :: "firmware \<Rightarrow> fb_info \<Rightarrow> bool" where
  "steady fw fi \<longleftrightarrow> honours fw \<or> (\<forall>y. fw y = None) \<and> fb_y_offset fi = 0"

text \<open>\<open>t'\<close> shows what \<open>t\<close> showed, eight pixels higher, and background below.\<close>

definition scrolled :: "termfb \<Rightarrow> termfb \<Rightarrow> bool" where
  "scrolled t t' \<longleftrightarrow> same_vt t' t \<and> window_ok (te_info t') \<and> fb_width (te_info t') = fb_width (te_info t) \<and>
     fb_height (te_info t') = fb_height (te_info t) \<and>
     (\<forall>y < fb_height (te_info t). \<forall>x < fb_width (te_info t).
        view_px t' y x = (if y + TERMFB_FONT_H < fb_height (te_info t) then view_px t (y + TERMFB_FONT_H) x else vt_bg t))"

lemma scroll_copy_scrolled:
  assumes "window_ok (te_info t)" and "fb_y_offset (te_info t) = 0"
  shows "scrolled t (scroll_copy t)"
proof -
  have v: "termfb_map_view_y_to_phys (te_info t) y = y" if "y < fb_height (te_info t)" for y
    using view_row [OF assms(1) that] assms(2) by simp
  have w: "x < fb_words (te_info t)" if "x < fb_width (te_info t)" for x
    using assms(1) that by (simp add: window_ok_def)
  have h: "TERMFB_FONT_H \<le> fb_height (te_info t)" if "y < fb_height (te_info t)" for y
    using assms(1) that mod_less [of "fb_height (te_info t)" TERMFB_FONT_H] by (fastforce simp: window_ok_def not_le)
  have c: "fold (clear_row w bg) [m..<n] px = (\<lambda>y x. if m \<le> y \<and> y < n \<and> x < w then bg else px y x)" for w bg m n px
    using clear_rows [where f = "\<lambda>i. i"] by (auto simp: fun_eq_iff)
  show ?thesis
    using assms(1) v w h
    by (auto simp: scrolled_def scroll_copy_def Let_def same_vt_iff view_px_def copy_rows c)
qed


text \<open>Moving the window to row \<open>off\<close>.\<close>

definition hw_scroll :: "fb_info \<Rightarrow> bool" where
  "hw_scroll fi \<longleftrightarrow> fb_height fi < fb_virt_height fi \<and> fb_height fi mod TERMFB_FONT_H = 0 \<and> fb_virt_height fi mod TERMFB_FONT_H = 0"

lemma window_moved:
  "window_ok fi \<Longrightarrow> hw_scroll fi \<Longrightarrow> off + fb_height fi \<le> fb_virt_height fi \<Longrightarrow> window_ok (fi\<lparr>fb_y_offset := off\<rparr>)"
  by (simp add: window_ok_def hw_scroll_def)

lemma set_offset:
  "window_ok fi \<Longrightarrow> hw_scroll fi \<Longrightarrow> off + fb_height fi \<le> fb_virt_height fi \<Longrightarrow> honours fw \<Longrightarrow> 0 < fb_height fi \<Longrightarrow>
   fb_set_virtual_offset fw off fi = Some (fi\<lparr>fb_y_offset := off\<rparr>)"
  by (auto simp: fb_set_virtual_offset_def window_ok_def hw_scroll_def honours_def)

lemma show_from_view:
  assumes win: "window_ok (te_info t)" and hw: "hw_scroll (te_info t)" and h8: "TERMFB_FONT_H \<le> fb_height (te_info t)"
    and off: "off + fb_height (te_info t) \<le> fb_virt_height (te_info t)" and fw: "honours fw"
  shows "\<exists>t'. show_from fw off t = Some t' \<and> same_vt t' t \<and> te_info t' = (te_info t)\<lparr>fb_y_offset := off\<rparr> \<and>
    (\<forall>y < fb_height (te_info t). \<forall>x < fb_width (te_info t).
       view_px t' y x = (if y + TERMFB_FONT_H < fb_height (te_info t) then te_px t (y + off) x else vt_bg t))"
proof -
  let ?fi = "(te_info t)\<lparr>fb_y_offset := off\<rparr>" and ?h = "fb_height (te_info t)" and ?w = "fb_width (te_info t)"
  let ?vh = "fb_virt_height (te_info t)"
  have vh: "?vh \<noteq> 0" using hw by (simp add: hw_scroll_def)
  have set: "fb_set_virtual_offset fw off (te_info t) = Some ?fi"
    by (rule set_offset [OF win hw off fw]) (use h8 in \<open>simp add: TERMFB_FONT_H_def\<close>)
  have rows: "(\<lambda>ry. (off + ?h - TERMFB_FONT_H + ry) mod ?vh) ` set [0..<TERMFB_FONT_H] = {off + ?h - TERMFB_FONT_H..<off + ?h}"
  proof -
    have "(off + ?h - TERMFB_FONT_H + ry) mod ?vh = off + ?h - TERMFB_FONT_H + ry" if "ry < TERMFB_FONT_H" for ry
      using that off h8 by (intro mod_less) simp
    then have "(\<lambda>ry. (off + ?h - TERMFB_FONT_H + ry) mod ?vh) ` {0..<TERMFB_FONT_H} = (+) (off + ?h - TERMFB_FONT_H) ` {0..<TERMFB_FONT_H}"
      by (intro image_cong) simp_all
    also have "\<dots> = {off + ?h - TERMFB_FONT_H..<off + ?h}"
      unfolding image_add_atLeastLessThan using h8 by simp
    finally show ?thesis by simp
  qed
  have d: "drawable (t\<lparr>te_info := ?fi\<rparr>)" using win by (simp add: drawable_def window_ok_def)
  have "view_px (termfb_clear_phys_rows (off + ?h - TERMFB_FONT_H) TERMFB_FONT_H (t\<lparr>te_info := ?fi\<rparr>)) y x =
      (if y + TERMFB_FONT_H < ?h then te_px t (y + off) x else vt_bg t)" if "y < ?h" "x < ?w" for y x
    using d vh that rows view_row [OF window_moved [OF win hw off], of y]
    by (simp add: termfb_clear_phys_rows_def Let_def fb_total_h_def clear_rows view_px_def TERMFB_FONT_H_def) auto
  then show ?thesis
    using d by (simp add: show_from_def set termfb_clear_phys_rows_def Let_def same_vt_iff)
qed


lemma copy_viewport:
  assumes "window_ok (te_info t)"
  shows "termfb_copy_viewport_to_phys0 t =
    t\<lparr>te_px := \<lambda>y x. if y < fb_height (te_info t) \<and> x < fb_words (te_info t) then te_px t (y + fb_y_offset (te_info t)) x else te_px t y x\<rparr>"
proof -
  have "fold (\<lambda>y. copy_row (fb_words (te_info t)) y (termfb_map_view_y_to_phys (te_info t) y)) [0..<fb_height (te_info t)] (te_px t) =
      fold (\<lambda>y. copy_row (fb_words (te_info t)) y (y + fb_y_offset (te_info t))) [0..<fb_height (te_info t)] (te_px t)"
    by (rule fold_cong) (simp_all add: view_row [OF assms])
  moreover have "drawable t" using assms by (simp add: drawable_def window_ok_def)
  ultimately show ?thesis by (simp add: termfb_copy_viewport_to_phys0_def copy_rows)
qed

text \<open>Without an answer the console falls back to copying, and the window stays.\<close>

lemma refused_offset: "(\<And>y. fw y = None) \<Longrightarrow> fb_set_virtual_offset fw off fi = None"
  by (simp add: fb_set_virtual_offset_def)

lemma refused_info:
  assumes "\<And>y. fw y = None"
  shows "te_info (termfb_scroll_one fw t) = te_info t"
  using refused_offset [OF assms]
  by (simp add: termfb_scroll_one_def show_from_def scroll_copy_def termfb_copy_viewport_to_phys0_def Let_def)

lemma refused_scrolled:
  assumes win: "window_ok (te_info t)" and no: "\<And>y. fw y = None" and off: "fb_y_offset (te_info t) = 0"
  shows "scrolled t (termfb_scroll_one fw t)"
proof -
  let ?fi = "te_info t"
  have d: "drawable t" using win by (simp add: drawable_def window_ok_def)
  have "TERMFB_FONT_H \<le> fb_virt_height ?fi - fb_height ?fi" if "hw_scroll ?fi"
  proof -
    have "TERMFB_FONT_H dvd fb_virt_height ?fi - fb_height ?fi" using that by (auto simp: hw_scroll_def intro: dvd_diff_nat)
    then show ?thesis using that by (intro dvd_imp_le) (auto simp: hw_scroll_def)
  qed
  then have "termfb_scroll_one fw t = scroll_copy t"
    unfolding termfb_scroll_one_def hw_scroll_def [symmetric] Let_def
    using d off refused_offset [OF no] by (simp add: show_from_def)
  then show ?thesis using scroll_copy_scrolled [OF win off] by simp
qed

lemma steady_scroll: "steady fw (te_info t) \<Longrightarrow> steady fw (te_info (termfb_scroll_one fw t))"
  using refused_info [of fw t] by (auto simp: steady_def)

lemma honoured_scrolled:
  assumes win: "window_ok (te_info t)" and fw: "honours fw" and h8: "TERMFB_FONT_H \<le> fb_height (te_info t)"
  shows "scrolled t (termfb_scroll_one fw t)"
proof -
  let ?fi = "te_info t" and ?off = "fb_y_offset (te_info t)" and ?h = "fb_height (te_info t)"
  have d: "drawable t" using win by (simp add: drawable_def window_ok_def)
  consider (copy) "\<not> hw_scroll ?fi" | (move) "hw_scroll ?fi" "?off + TERMFB_FONT_H \<le> fb_virt_height ?fi - ?h"
    | (again) "hw_scroll ?fi" "\<not> ?off + TERMFB_FONT_H \<le> fb_virt_height ?fi - ?h" by blast
  then show ?thesis
  proof cases
    case copy
    then have "?off = 0" using win by (auto simp: window_ok_def hw_scroll_def split: if_splits)
    moreover have "termfb_scroll_one fw t = scroll_copy t"
      unfolding termfb_scroll_one_def hw_scroll_def [symmetric] Let_def using copy d by simp
    ultimately show ?thesis using scroll_copy_scrolled [OF win] by simp
  next
    case move
    have "?h < fb_virt_height ?fi" using move(1) by (simp add: hw_scroll_def)
    then have fit: "?off + TERMFB_FONT_H + ?h \<le> fb_virt_height ?fi" using move(2) by arith
    obtain t' where t': "show_from fw (?off + TERMFB_FONT_H) t = Some t'" "same_vt t' t"
      "te_info t' = ?fi\<lparr>fb_y_offset := ?off + TERMFB_FONT_H\<rparr>"
      "\<And>y x. y < ?h \<Longrightarrow> x < fb_width ?fi \<Longrightarrow> view_px t' y x = (if y + TERMFB_FONT_H < ?h then te_px t (y + (?off + TERMFB_FONT_H)) x else vt_bg t)"
      using show_from_view [OF win move(1) h8 fit fw] by auto
    have "termfb_scroll_one fw t = t'"
      unfolding termfb_scroll_one_def hw_scroll_def [symmetric] Let_def using move d t'(1) by simp
    moreover have "view_px t (y + TERMFB_FONT_H) x = te_px t (y + (?off + TERMFB_FONT_H)) x" if "y + TERMFB_FONT_H < ?h" for y x
      using view_row [OF win that] by (simp add: view_px_def ac_simps)
    ultimately show ?thesis
      using t'(2-4) window_moved [OF win move(1) fit] by (simp add: scrolled_def)
  next
    case again
    let ?t1 = "termfb_copy_viewport_to_phys0 t"
    let ?t2 = "?t1\<lparr>te_info := ?fi\<lparr>fb_y_offset := 0\<rparr>\<rparr>"
    have le: "?h \<le> fb_virt_height ?fi" using again(1) by (simp add: hw_scroll_def)
    have max: "TERMFB_FONT_H \<le> fb_virt_height ?fi - ?h"
    proof -
      have "TERMFB_FONT_H dvd fb_virt_height ?fi - ?h" using again(1) by (auto simp: hw_scroll_def intro: dvd_diff_nat)
      then show ?thesis using again(1) by (intro dvd_imp_le) (auto simp: hw_scroll_def)
    qed
    note t1 = copy_viewport [OF win]
    have i1: "te_info ?t1 = ?fi" and v1: "same_vt ?t1 t" by (simp_all add: t1 same_vt_iff)
    have set: "fb_set_virtual_offset fw 0 (te_info ?t1) = Some (?fi\<lparr>fb_y_offset := 0\<rparr>)"
      unfolding i1 by (rule set_offset [OF win again(1) _ fw]) (use le h8 in \<open>simp_all add: TERMFB_FONT_H_def\<close>)
    have win2: "window_ok (te_info ?t2)" using window_moved [OF win again(1), of 0] le by simp
    have fit: "TERMFB_FONT_H + fb_height (te_info ?t2) \<le> fb_virt_height (te_info ?t2)" using max le by (simp add: le_diff_conv2)
    have hw2: "hw_scroll (te_info ?t2)" using again(1) by (simp add: hw_scroll_def)
    obtain t' where t': "show_from fw TERMFB_FONT_H ?t2 = Some t'" "same_vt t' ?t2" "te_info t' = (te_info ?t2)\<lparr>fb_y_offset := TERMFB_FONT_H\<rparr>"
      "\<And>y x. y < ?h \<Longrightarrow> x < fb_width ?fi \<Longrightarrow> view_px t' y x = (if y + TERMFB_FONT_H < ?h then te_px ?t2 (y + TERMFB_FONT_H) x else vt_bg ?t2)"
      using show_from_view [OF win2 hw2 _ fit fw] h8 by auto
    have "termfb_scroll_one fw t = t'"
      unfolding termfb_scroll_one_def hw_scroll_def [symmetric] Let_def using again d set max t'(1) by simp
    moreover have "te_px ?t2 (y + TERMFB_FONT_H) x = view_px t (y + TERMFB_FONT_H) x" if "y + TERMFB_FONT_H < ?h" "x < fb_width ?fi" for y x
      using that win view_row [OF win that(1)] by (simp add: t1 view_px_def window_ok_def)
    moreover have "vt_bg ?t2 = vt_bg t" "same_vt ?t2 t" using v1 by (simp_all add: same_vt_iff)
    ultimately show ?thesis
      using t'(2-4) window_moved [OF win2 hw2 fit] by (auto simp: scrolled_def same_vt_def)
  qed
qed


lemma scroll_one_scrolled:
  assumes "window_ok (te_info t)" and "steady fw (te_info t)" and "TERMFB_FONT_H \<le> fb_height (te_info t)"
  shows "scrolled t (termfb_scroll_one fw t)"
  using assms honoured_scrolled [of t fw] refused_scrolled [of t fw] by (auto simp: steady_def)

subsection \<open>What a console shows\<close>

fun cell_px :: "cell \<Rightarrow> nat \<Rightarrow> nat \<Rightarrow> u32" where
  "cell_px (c, fg, bg) ry rx = glyph_pixel c fg bg ry rx"

definition cell_at :: "screen \<Rightarrow> nat \<Rightarrow> nat \<Rightarrow> cell" where
  "cell_at s y x = sc_cells s ! (y div TERMFB_FONT_H) ! (x div TERMFB_FONT_W)"

definition pic :: "termfb \<Rightarrow> screen \<Rightarrow> bool" where
  "pic t s \<longleftrightarrow> same_vt t s \<and> fits t \<and> 0 < vt_rows t \<and> length (sc_cells s) = vt_rows t \<and>
     (\<forall>row \<in> set (sc_cells s). length row = vt_cols t) \<and>
     (\<forall>y < vt_rows t * TERMFB_FONT_H. \<forall>x < vt_cols t * TERMFB_FONT_W.
        view_px t y x = cell_px (cell_at s y x) (y mod TERMFB_FONT_H) (x mod TERMFB_FONT_W))"

definition shows_text :: "termfb \<Rightarrow> screen \<Rightarrow> bool" where
  "shows_text t s \<longleftrightarrow> pic t s \<and> vt_ok t"

lemma blank_px [simp]: "glyph_pixel CHR 0x20 fg bg ry rx = bg"
proof -
  have "termfb_glyph_for CHR 0x20 = replicate 7 0" by (simp add: termfb_glyph_for_def g_glyphs_def numeral_eq_Suc)
  then show ?thesis by (auto simp: glyph_pixel_def)
qed

lemma font_simps [simp]: "0 < TERMFB_FONT_H" "0 < TERMFB_FONT_W"
  by (simp_all add: TERMFB_FONT_H_def TERMFB_FONT_W_def)

lemma next_cell_row [simp]: "(y + TERMFB_FONT_H) div TERMFB_FONT_H = Suc (y div TERMFB_FONT_H)"
  by (simp add: TERMFB_FONT_H_def)

lemma div_cell: "0 < n \<Longrightarrow> c * n \<le> x \<and> x < c * n + n \<longleftrightarrow> x div n = (c :: nat)"
  using div_nat_eqI [of n c x] div_times_less_eq_dividend [of x n] dividend_less_div_times [of n x]
  by (auto simp: mult.commute)

lemma cell_index:
  "y < n * TERMFB_FONT_H \<Longrightarrow> y div TERMFB_FONT_H < n" "x < n * TERMFB_FONT_W \<Longrightarrow> x div TERMFB_FONT_W < n"
  by (simp_all add: less_mult_imp_div_less)

text \<open>Cursor, colours and parser are no part of the picture.\<close>

lemma pic_vt:
  assumes "pic t s" and "te_info t' = te_info t" "te_px t' = te_px t" "sc_cells s' = sc_cells s" "same_vt t' s'"
    and "vt_cols t' = vt_cols t" "vt_rows t' = vt_rows t"
  shows "pic t' s'"
  using assms fits_cong [OF assms(2,6,7)] by (simp add: pic_def view_px_def cell_at_def)

lemma scroll_vt: "same_vt (termfb_scroll_one fw t) t"
  by (auto simp: termfb_scroll_one_def Let_def same_vt_iff scroll_copy_def show_from_def termfb_clear_phys_rows_def
      termfb_copy_viewport_to_phys0_def split: option.splits)

lemma draw_vt: "same_vt (termfb_draw_char_cell x y c t) t" "same_vt (sc_draw x y c s) s" "same_vt (sc_scroll s) s"
  by (simp_all add: termfb_draw_char_cell_def sc_draw_def sc_scroll_def Let_def same_vt_iff)

lemma pic_scroll:
  assumes p: "pic t s" and fw: "steady fw (te_info t)"
  shows "pic (termfb_scroll_one fw t) (sc_scroll s)"
proof -
  let ?t = "termfb_scroll_one fw t" and ?h = "fb_height (te_info t)"
  have f: "window_ok (te_info t)" "vt_cols t * TERMFB_FONT_W \<le> fb_width (te_info t)" "vt_rows t * TERMFB_FONT_H = ?h" "0 < vt_rows t"
    using p by (simp_all add: pic_def fits_def)
  then have h8: "TERMFB_FONT_H \<le> ?h" by (metis Suc_le_eq mult.commute mult.right_neutral mult_le_mono2 One_nat_def)
  have sc: "scrolled t ?t" by (rule scroll_one_scrolled [OF f(1) fw h8])
  have v: "same_vt ?t t" by (rule scroll_vt)
  have st: "same_vt t s" and len: "length (sc_cells s) = vt_rows t" and rows: "\<forall>row \<in> set (sc_cells s). length row = vt_cols t"
    and px: "\<And>y x. y < vt_rows t * TERMFB_FONT_H \<Longrightarrow> x < vt_cols t * TERMFB_FONT_W \<Longrightarrow>
        view_px t y x = cell_px (cell_at s y x) (y mod TERMFB_FONT_H) (x mod TERMFB_FONT_W)"
    using p by (simp_all add: pic_def)
  have new: "view_px ?t y x = cell_px (cell_at (sc_scroll s) y x) (y mod TERMFB_FONT_H) (x mod TERMFB_FONT_W)"
    if y: "y < vt_rows t * TERMFB_FONT_H" and x: "x < vt_cols t * TERMFB_FONT_W" for y x
  proof -
    have xw: "x < fb_width (te_info t)" using x f(2) by simp
    let ?r = "y div TERMFB_FONT_H"
    have vp: "view_px ?t y x = (if y + TERMFB_FONT_H < ?h then view_px t (y + TERMFB_FONT_H) x else vt_bg t)"
      using sc y xw f(3) by (simp add: scrolled_def)
    show ?thesis
    proof (cases "y + TERMFB_FONT_H < ?h")
      case True
      have r: "Suc ?r < vt_rows t" using cell_index(1) [of "y + TERMFB_FONT_H" "vt_rows t"] True f(3) by simp
      then have "(tl (sc_cells s) @ [blank_row (vt_cols s) (vt_bg s)]) ! ?r = sc_cells s ! Suc ?r"
        using len by (auto simp: nth_append nth_tl)
      then have "cell_at (sc_scroll s) y x = cell_at s (y + TERMFB_FONT_H) x" by (simp add: cell_at_def sc_scroll_def)
      then show ?thesis using vp True px [of "y + TERMFB_FONT_H" x] f(3) x by simp
    next
      case False
      have "?r < vt_rows t" using cell_index(1) [OF y] .
      moreover have "vt_rows t \<le> Suc ?r"
      proof -
        have "vt_rows t * TERMFB_FONT_H \<le> y + TERMFB_FONT_H" using False f(3) by simp
        then show ?thesis unfolding TERMFB_FONT_H_def by presburger
      qed
      ultimately have r: "?r = length (tl (sc_cells s))" using len by simp
      have "cell_at (sc_scroll s) y x = (CHR 0x20, vt_bg s, vt_bg s)"
        unfolding cell_at_def sc_scroll_def r using cell_index(2) [OF x] st
        by (simp add: blank_row_def same_vt_iff nth_append del: length_tl)
      then show ?thesis using vp False st by (simp add: same_vt_iff)
    qed
  qed
  have "fits ?t" using f sc v by (simp add: fits_def scrolled_def same_vt_iff)
  moreover have "same_vt ?t (sc_scroll s)" using v st draw_vt(3) [of s] by (simp add: same_vt_def)
  moreover have "length row = vt_cols t" if "row \<in> set (tl (sc_cells s))" for row
    using rows that by (cases "sc_cells s") auto
  ultimately show ?thesis
    using v st len f(4) new by (auto simp: pic_def same_vt_iff sc_scroll_def blank_row_def)
qed


lemma pic_draw:
  assumes p: "pic t s" and cx: "cx < vt_cols t" and cy: "cy < vt_rows t"
  shows "pic (termfb_draw_char_cell cx cy c t) (sc_draw cx cy c s)"
proof -
  let ?t = "termfb_draw_char_cell cx cy c t" and ?s = "sc_draw cx cy c s"
  let ?h = "fb_height (te_info t)" and ?off = "fb_y_offset (te_info t)"
  let ?x0 = "cx * TERMFB_FONT_W" and ?y0 = "cy * TERMFB_FONT_H"
  have f: "window_ok (te_info t)" "vt_cols t * TERMFB_FONT_W \<le> fb_width (te_info t)" "vt_rows t * TERMFB_FONT_H = ?h"
    and st: "same_vt t s" and len: "length (sc_cells s) = vt_rows t" and rows: "\<forall>row \<in> set (sc_cells s). length row = vt_cols t"
    and px: "\<And>y x. y < vt_rows t * TERMFB_FONT_H \<Longrightarrow> x < vt_cols t * TERMFB_FONT_W \<Longrightarrow>
        view_px t y x = cell_px (cell_at s y x) (y mod TERMFB_FONT_H) (x mod TERMFB_FONT_W)"
    using p by (simp_all add: pic_def fits_def)
  have "?x0 + TERMFB_FONT_W \<le> vt_cols t * TERMFB_FONT_W" "?y0 + TERMFB_FONT_H \<le> vt_rows t * TERMFB_FONT_H"
    using mult_le_mono1 [of "Suc cx" "vt_cols t" TERMFB_FONT_W] mult_le_mono1 [of "Suc cy" "vt_rows t" TERMFB_FONT_H] cx cy by simp_all
  then have b: "?x0 + TERMFB_FONT_W \<le> fb_width (te_info t)" "?y0 + TERMFB_FONT_H \<le> ?h" using f by simp_all
  have d: "drawable t" using f(1) by (simp add: drawable_def window_ok_def)
  have "fold (\<lambda>ry. draw_row ?x0 (glyph_pixel c (vt_fg t) (vt_bg t) ry) (termfb_map_view_y_to_phys (te_info t) (?y0 + ry))) [0..<TERMFB_FONT_H] (te_px t) =
      fold (\<lambda>ry. draw_row ?x0 (glyph_pixel c (vt_fg t) (vt_bg t) ry) (?y0 + ?off + ry)) [0..<TERMFB_FONT_H] (te_px t)"
    by (rule fold_cong) (use b(2) view_row [OF f(1)] in \<open>simp_all add: ac_simps\<close>)
  then have t: "?t = t\<lparr>te_px := \<lambda>y x. if ?y0 + ?off \<le> y \<and> y < ?y0 + ?off + TERMFB_FONT_H \<and> ?x0 \<le> x \<and> x < ?x0 + TERMFB_FONT_W
      then glyph_pixel c (vt_fg t) (vt_bg t) (y - (?y0 + ?off)) (x - ?x0) else te_px t y x\<rparr>"
    using b d by (simp add: termfb_draw_char_cell_def Let_def draw_rows not_less)
  have new: "view_px ?t y x = cell_px (cell_at ?s y x) (y mod TERMFB_FONT_H) (x mod TERMFB_FONT_W)"
    if y: "y < vt_rows t * TERMFB_FONT_H" and x: "x < vt_cols t * TERMFB_FONT_W" for y x
  proof -
    have vr: "termfb_map_view_y_to_phys (te_info t) y = y + ?off" using view_row [OF f(1)] y f(3) by simp
    have yi: "?y0 + ?off \<le> y + ?off \<and> y + ?off < ?y0 + ?off + TERMFB_FONT_H \<longleftrightarrow> y div TERMFB_FONT_H = cy"
      using div_cell [OF font_simps(1), of cy y] by simp
    have xi: "?x0 \<le> x \<and> x < ?x0 + TERMFB_FONT_W \<longleftrightarrow> x div TERMFB_FONT_W = cx"
      by (rule div_cell) simp
    have ci: "cell_at ?s y x = (if y div TERMFB_FONT_H = cy \<and> x div TERMFB_FONT_W = cx then (c, vt_fg s, vt_bg s) else cell_at s y x)"
      using cell_index(1) [OF y] cell_index(2) [OF x] len rows
      by (cases "y div TERMFB_FONT_H = cy"; cases "x div TERMFB_FONT_W = cx") (simp_all add: cell_at_def sc_draw_def)
    show ?thesis
    proof (cases "y div TERMFB_FONT_H = cy \<and> x div TERMFB_FONT_W = cx")
      case True
      then have "view_px ?t y x = glyph_pixel c (vt_fg t) (vt_bg t) (y - ?y0) (x - ?x0)"
        using yi xi unfolding view_px_def t by (simp add: vr)
      moreover have "y - ?y0 = y mod TERMFB_FONT_H" "x - ?x0 = x mod TERMFB_FONT_W"
        using True by (auto simp: minus_div_mult_eq_mod)
      ultimately show ?thesis using ci True st by (simp add: same_vt_iff)
    next
      case False
      then have "view_px ?t y x = view_px t y x" using yi xi unfolding view_px_def t by (auto simp: vr)
      then show ?thesis using px [OF y x] ci False by auto
    qed
  qed
  have "length row = vt_cols t" if "row \<in> set (sc_cells ?s)" for row
    using rows that cy len set_update_subset_insert [of "sc_cells s" cy] by (fastforce simp: sc_draw_def)
  moreover have "same_vt ?t ?s" using st draw_vt(1) [of cx cy c t] draw_vt(2) [of cx cy c s] by (simp add: same_vt_def)
  moreover have "fits ?t" using p by (simp add: t pic_def fits_def)
  ultimately show ?thesis
    using p new len by (simp add: pic_def t) (simp add: sc_draw_def)
qed


lemma clear_vt: "same_vt (termfb_clear_pixels t) t"
  by (simp add: termfb_clear_pixels_def same_vt_iff)

lemma pic_clear:
  assumes p: "fits t" "0 < vt_rows t" and st: "same_vt t s"
  shows "pic (termfb_clear t) (sc_clear s)"
proof -
  let ?t = "termfb_clear t" and ?h = "fb_height (te_info t)"
  have f: "window_ok (te_info t)" "vt_cols t * TERMFB_FONT_W \<le> fb_width (te_info t)" "vt_rows t * TERMFB_FONT_H = ?h"
    using p by (simp_all add: fits_def)
  have d: "drawable (t\<lparr>vt_x := 0, vt_y := 0\<rparr>)" using f(1) by (simp add: drawable_def window_ok_def)
  have t: "?t = t\<lparr>vt_x := 0, vt_y := 0, te_px := \<lambda>y x. if y < fb_total_h (te_info t) \<and> x < fb_width (te_info t) then vt_bg t else te_px t y x\<rparr>"
    using d clear_rows [where f = "\<lambda>i. i" and w = "fb_width (te_info t)" and bg = "vt_bg t" and ns = "[0..<fb_total_h (te_info t)]" and px = "te_px t"]
    by (simp add: termfb_clear_def termfb_clear_pixels_def)
  have "y + fb_y_offset (te_info t) < fb_total_h (te_info t)" if "y < ?h" for y
    using f(1) that by (auto simp: window_ok_def fb_total_h_def split: if_splits)
  then have "view_px ?t y x = vt_bg t" if "y < ?h" "x < fb_width (te_info t)" for y x
    using that view_row [OF f(1) that(1)] by (simp add: view_px_def t)
  moreover have "cell_at (sc_clear s) y x = (CHR 0x20, vt_bg t, vt_bg t)"
    if "y < vt_rows t * TERMFB_FONT_H" "x < vt_cols t * TERMFB_FONT_W" for y x
    using cell_index(1) [OF that(1)] cell_index(2) [OF that(2)] st by (simp add: cell_at_def sc_clear_def blank_row_def same_vt_iff)
  ultimately show ?thesis
    using p f st by (auto simp: pic_def fits_def same_vt_iff t sc_clear_def blank_row_def)
qed

subsection \<open>Every character keeps the picture\<close>

lemma pic_same: "pic t s \<Longrightarrow> same_vt t s"
  by (simp add: pic_def)

lemma next_line_shows:
  assumes p: "shows_text t s" and fw: "steady fw (te_info t)"
  shows "shows_text (next_line (termfb_scroll_one fw) t) (next_line sc_scroll s)"
proof -
  let ?t1 = "t\<lparr>vt_x := 0, vt_y := vt_y t + 1\<rparr>" and ?s1 = "s\<lparr>vt_x := 0, vt_y := vt_y s + 1\<rparr>"
  have st: "same_vt t s" and ok: "vt_ok t" using p by (simp_all add: shows_text_def pic_same)
  have p1: "pic ?t1 ?s1"
    by (rule pic_vt [of t s]) (use p st in \<open>simp_all add: shows_text_def same_vt_iff\<close>)
  have fw1: "steady fw (te_info ?t1)" using fw by simp
  note p2 = pic_scroll [OF p1 fw1] and v2 = scroll_vt [of fw ?t1]
  have p3: "pic ((termfb_scroll_one fw ?t1)\<lparr>vt_y := n\<rparr>) ((sc_scroll ?s1)\<lparr>vt_y := n\<rparr>)" for n
    by (rule pic_vt [OF p2]) (use pic_same [OF p2] in \<open>simp_all add: same_vt_iff\<close>)
  show ?thesis
  proof (cases "vt_rows t \<le> vt_y t + 1")
    case True
    moreover have "vt_ok ((termfb_scroll_one fw ?t1)\<lparr>vt_y := vt_rows t - 1\<rparr>)"
      using v2 ok by (simp add: same_vt_iff vt_ok_def)
    ultimately show ?thesis
      using p3 [of "vt_rows t - 1"] st by (simp add: next_line_def Let_def shows_text_def same_vt_iff)
  next
    case False
    then show ?thesis
      using p1 st ok by (simp add: next_line_def Let_def shows_text_def same_vt_iff vt_ok_def)
  qed
qed

lemma step_back_shows: "shows_text t s \<Longrightarrow> shows_text (step_back t) (step_back s)"
proof -
  assume p: "shows_text t s"
  then have st: "same_vt t s" and ok: "vt_ok t" by (simp_all add: shows_text_def pic_same)
  have "vt_ok (step_back t)" using ok by (auto simp: step_back_def vt_ok_def)
  moreover have "pic (step_back t) (step_back s)"
    by (rule pic_vt [of t s]) (use p st in \<open>auto simp: shows_text_def same_vt_iff step_back_def\<close>)
  ultimately show ?thesis by (simp add: shows_text_def)
qed

lemma draw_info [simp]: "te_info (termfb_draw_char_cell x y c t) = te_info t"
  by (simp add: termfb_draw_char_cell_def Let_def)

lemma put_with_shows:
  assumes p: "shows_text t s" and fw: "steady fw (te_info t)"
  shows "shows_text (put_char fw c t) (put_with sc_scroll sc_draw c s)"
proof -
  have st: "same_vt t s" and ok: "vt_ok t" and pc: "pic t s" using p by (simp_all add: shows_text_def pic_same)
  have cr: "shows_text (t\<lparr>vt_x := 0\<rparr>) (s\<lparr>vt_x := 0\<rparr>)"
    using ok pic_vt [OF pc, of "t\<lparr>vt_x := 0\<rparr>" "s\<lparr>vt_x := 0\<rparr>"] st by (simp add: shows_text_def same_vt_iff vt_ok_def)
  have draw: "shows_text (termfb_draw_char_cell (vt_x t) (vt_y t) c t) (sc_draw (vt_x s) (vt_y s) c s)" if "shows_text t s" for t s c
    using pic_draw [of t s "vt_x t" "vt_y t" c] that same_vt_ok [OF draw_vt(1) [of "vt_x t" "vt_y t" c t]] pic_same [of t s]
    by (simp add: shows_text_def vt_ok_def same_vt_iff)
  have erase: "shows_text (let t1 = step_back t in termfb_draw_char_cell (vt_x t1) (vt_y t1) CHR 0x20 t1)
      (let s1 = step_back s in sc_draw (vt_x s1) (vt_y s1) CHR 0x20 s1)"
    using draw [OF step_back_shows [OF p]] by (simp add: Let_def)
  have adv: "shows_text (advance (termfb_scroll_one fw) t) (advance sc_scroll s)" if q: "shows_text t s" and fwq: "steady fw (te_info t)" for t s
  proof -
    have stq: "same_vt t s" and okq: "vt_ok t" and pq: "pic t s" using q by (simp_all add: shows_text_def pic_same)
    let ?t1 = "t\<lparr>vt_x := vt_x t + 1\<rparr>" and ?s1 = "s\<lparr>vt_x := vt_x s + 1\<rparr>"
    have n: "next_line f (v\<lparr>vt_x := n\<rparr>) = next_line f v" for f and v :: "'b vt_scheme" and n by (simp add: next_line_def Let_def)
    have "pic ?t1 ?s1" by (rule pic_vt [OF pq]) (use stq in \<open>simp_all add: same_vt_iff\<close>)
    then show ?thesis
      using next_line_shows [OF q fwq] stq okq by (auto simp: advance_def Let_def n shows_text_def same_vt_iff vt_ok_def)
  qed
  show ?thesis
    using cr next_line_shows [OF p fw] erase adv [OF draw [OF p]] fw
    by (auto simp: put_char_def put_with_def)
qed


text \<open>Every step keeps the window or moves it as the firmware allows.\<close>

lemma clear_info [simp]: "te_info (termfb_clear t) = te_info t"
  by (simp add: termfb_clear_def termfb_clear_pixels_def)

lemma put_char_steady: "steady fw (te_info t) \<Longrightarrow> steady fw (te_info (put_char fw c t))"
proof -
  have line: "steady fw (te_info (next_line (termfb_scroll_one fw) t))" if "steady fw (te_info t)" for t
    using that steady_scroll [of fw "t\<lparr>vt_x := 0, vt_y := vt_y t + 1\<rparr>"] by (simp add: next_line_def Let_def)
  then have "steady fw (te_info (advance (termfb_scroll_one fw) t))" if "steady fw (te_info t)" for t
    using that by (simp add: advance_def Let_def)
  moreover have "te_info (step_back t) = te_info t" by (simp add: step_back_def)
  ultimately show "steady fw (te_info t) \<Longrightarrow> steady fw (te_info (put_char fw c t))"
    using line by (simp add: put_char_def put_with_def Let_def)
qed

lemma tab_fill_steady:
  assumes "tab_fill (put_char fw CHR 0x20) n t = Some t'" and "steady fw (te_info t)"
  shows "steady fw (te_info t')"
proof -
  have "p = put_char fw CHR 0x20 \<longrightarrow> steady fw (te_info v) \<longrightarrow> steady fw (te_info u)" if "tab_fill p m v = Some u" for p m v u
    by (intro tab_fill.raw_induct [where P = "\<lambda>p m v u. p = put_char fw CHR 0x20 \<longrightarrow> steady fw (te_info v) \<longrightarrow> steady fw (te_info u)", OF _ that])
      (auto simp: put_char_steady split: if_splits)
  then show ?thesis using assms by blast
qed

lemma csi_info [simp]: "te_info (termfb_ansi_handle_csi termfb_clear c t) = te_info t"
proof -
  have sgr: "te_info (fold sgr ps t) = te_info t" for ps and t :: termfb
    by (induction ps arbitrary: t) (simp_all add: sgr_def)
  have fin: "te_info (termfb_ansi_finish_param_if_needed t) = te_info t"
    by (simp add: termfb_ansi_finish_param_if_needed_def reset_current_def termfb_ansi_push_param_def)
  show ?thesis
    using sgr fin by (simp add: termfb_ansi_handle_csi_def reset_current_def termfb_set_cursor_1based_def Let_def)
qed

lemma putc_steady:
  assumes "termfb_putc_ansi fw c t = Some t'" and "steady fw (te_info t)"
  shows "steady fw (te_info t')"
proof -
  have "steady fw (te_info u)" if "termfb_putc fw c t = Some u" for u
    using that assms(2) put_char_steady tab_fill_steady by (auto simp: termfb_putc_def split: if_splits)
  moreover have "te_info u = te_info t" if "ansi_step termfb_clear c t = Some u" for u
    using that by (auto simp: ansi_step_def reset_current_def termfb_ansi_push_param_def split: termfb_ansi_state.splits if_splits)
  ultimately show ?thesis using assms by (auto simp: termfb_putc_ansi_def split: if_splits option.splits)
qed

lemma shows_vt:
  assumes "shows_text t s" and "te_info t' = te_info t" "te_px t' = te_px t" "sc_cells s' = sc_cells s" "same_vt t' s'"
    and "vt_cols t' = vt_cols t" "vt_rows t' = vt_rows t" "vt_ok t'"
  shows "shows_text t' s'"
  using pic_vt [of t s t' s'] assms by (simp add: shows_text_def)

lemma shows_same: "shows_text t s \<Longrightarrow> same_vt t s" "shows_text t s \<Longrightarrow> vt_ok t"
  by (simp_all add: shows_text_def pic_same)

lemma parser_shows:
  assumes p: "shows_text t s"
  shows "shows_text (reset_current t) (reset_current s)" "shows_text (termfb_ansi_push_param n t) (termfb_ansi_push_param n s)"
    "shows_text (sgr n t) (sgr n s)" "shows_text (termfb_set_cursor_1based a b t) (termfb_set_cursor_1based a b s)"
    "shows_text (t\<lparr>vt_params := ps, vt_ansi := q\<rparr>) (s\<lparr>vt_params := ps, vt_ansi := q\<rparr>)"
    "shows_text (t\<lparr>vt_ansi := q\<rparr>) (s\<lparr>vt_ansi := q\<rparr>)"
    "shows_text (t\<lparr>vt_current := n, vt_have_current := h\<rparr>) (s\<lparr>vt_current := n, vt_have_current := h\<rparr>)"
  using shows_same [OF p]
  by (simp_all add: shows_vt [OF p] same_vt_iff vt_ok_def reset_current_def termfb_ansi_push_param_def sgr_def
      termfb_set_cursor_1based_def Let_def)

lemma sgr_shows: "shows_text t s \<Longrightarrow> shows_text (fold sgr ps t) (fold sgr ps s)"
  by (induction ps arbitrary: t s) (simp_all add: parser_shows)

lemma clear_shows: "shows_text t s \<Longrightarrow> shows_text (termfb_clear t) (sc_clear s)"
  using pic_clear [of t s] shows_same [of t s] clear_vt [of "t\<lparr>vt_x := 0, vt_y := 0\<rparr>"]
  by (auto simp: shows_text_def vt_ok_def termfb_clear_def same_vt_iff pic_def)

lemma csi_shows:
  assumes p: "shows_text t s"
  shows "shows_text (termfb_ansi_handle_csi termfb_clear c t) (termfb_ansi_handle_csi sc_clear c s)"
proof -
  let ?t = "termfb_ansi_finish_param_if_needed t" and ?s = "termfb_ansi_finish_param_if_needed s"
  have cp: "current_param t = current_param s" "vt_params t = vt_params s" "vt_have_current t = vt_have_current s"
    using shows_same(1) [OF p] by (simp_all add: current_param_def same_vt_iff)
  have f: "shows_text ?t ?s"
    using p parser_shows(2) [OF p, of "current_param s"] by (auto simp: termfb_ansi_finish_param_if_needed_def cp intro: parser_shows(1))
  have ps: "vt_params ?t = vt_params ?s" using shows_same(1) [OF f] by (simp add: same_vt_iff)
  show ?thesis
    using f unfolding termfb_ansi_handle_csi_def Let_def ps
    by (auto intro!: parser_shows(1,5) sgr_shows clear_shows parser_shows(4))
qed

lemma ansi_shows:
  assumes p: "shows_text t s"
  shows "rel_option shows_text (ansi_step termfb_clear c t) (ansi_step sc_clear c s)"
proof -
  have eq: "vt_ansi t = vt_ansi s" "vt_current t = vt_current s" "current_param t = current_param s"
    using shows_same(1) [OF p] by (simp_all add: current_param_def same_vt_iff)
  have esc: "shows_text (reset_current (t\<lparr>vt_params := [], vt_ansi := q\<rparr>)) (reset_current (s\<lparr>vt_params := [], vt_ansi := q\<rparr>))" for q
    using parser_shows(1) [OF parser_shows(5) [OF p, where ps = "[]" and q = q]] by simp
  show ?thesis
    using csi_shows [OF p] esc parser_shows(6) [OF p] parser_shows(7) [OF p] parser_shows(1) [OF parser_shows(2) [OF p]]
    by (auto simp: ansi_step_def eq split: termfb_ansi_state.split)
qed

lemma put_char_vt:
  "vt_ok t \<Longrightarrow> vt_cols (put_char fw CHR 0x20 t) = vt_cols t \<and> vt_ok (put_char fw CHR 0x20 t) \<and>
     vt_x (put_char fw CHR 0x20 t) = (if vt_x t + 1 < vt_cols t then vt_x t + 1 else 0) \<and>
     (vt_x t + 1 < vt_cols t \<longrightarrow> vt_y (put_char fw CHR 0x20 t) = vt_y t)"
  unfolding put_char_def by (rule advance_vt) (simp_all add: scroll_vt draw_vt)

lemma put_sc_vt:
  "vt_ok s \<Longrightarrow> vt_cols (put_with sc_scroll sc_draw CHR 0x20 s) = vt_cols s \<and> vt_ok (put_with sc_scroll sc_draw CHR 0x20 s) \<and>
     vt_x (put_with sc_scroll sc_draw CHR 0x20 s) = (if vt_x s + 1 < vt_cols s then vt_x s + 1 else 0) \<and>
     (vt_x s + 1 < vt_cols s \<longrightarrow> vt_y (put_with sc_scroll sc_draw CHR 0x20 s) = vt_y s)"
  by (rule advance_vt) (simp_all add: draw_vt)

lemma tab_shows:
  assumes p: "shows_text t s" and fw: "steady fw (te_info t)"
  shows "rel_option shows_text (tab_fill (put_char fw CHR 0x20) n t) (tab_fill (put_with sc_scroll sc_draw CHR 0x20) n s)"
proof (cases "n < vt_cols t")
  case True
  have st: "same_vt t s" "vt_ok t" using shows_same [OF p] by simp_all
  then have "vt_ok s" "n < vt_cols s" "vt_x s = vt_x t" using True same_vt_ok [OF st(1)] by (simp_all add: same_vt_iff)
  moreover have "shows_text ((put_char fw CHR 0x20 ^^ k) t) ((put_with sc_scroll sc_draw CHR 0x20 ^^ k) s)" for k
    by (rule conjunct1 [where Q = "steady fw (te_info ((put_char fw CHR 0x20 ^^ k) t))"])
      (induction k, simp_all add: p put_with_shows put_char_steady fw)
  ultimately show ?thesis
    using tab_fill_ends [where put = "put_char fw CHR 0x20", OF put_char_vt st(2) True]
      tab_fill_ends [where put = "put_with sc_scroll sc_draw CHR 0x20" and v = s and n = n, OF put_sc_vt] by simp
next
  case False
  have st: "same_vt t s" "vt_ok t" using shows_same [OF p] by simp_all
  then have "vt_ok s" "vt_cols s \<le> n" using False same_vt_ok [OF st(1)] by (simp_all add: same_vt_iff)
  then show ?thesis
    using tab_fill_loops [where put = "put_char fw CHR 0x20" and v = t and n = n] put_char_vt st(2) False
      tab_fill_loops [where put = "put_with sc_scroll sc_draw CHR 0x20" and v = s and n = n] put_sc_vt by simp
qed

lemma putc_shows:
  assumes p: "shows_text t s" and fw: "steady fw (te_info t)"
  shows "rel_option shows_text (termfb_putc_ansi fw c t) (screen_putc_ansi c s)"
proof -
  have v: "fb_virt (te_info t)" using p by (simp add: shows_text_def pic_def fits_def window_ok_def)
  have x: "vt_x t = vt_x s" using shows_same(1) [OF p] by (simp add: same_vt_iff)
  have "rel_option shows_text (termfb_putc fw c t) (screen_putc c s)"
    using put_with_shows [OF p fw] tab_shows [OF p fw] v by (simp add: termfb_putc_def screen_putc_def x)
  then show ?thesis
    using ansi_shows [OF p, of c] v
    by (auto simp: termfb_putc_ansi_def screen_putc_ansi_def split: option.splits elim: option.rel_cases)
qed

text \<open>
  C3: The frame buffer console refines a screen of characters. Whatever text is written, escape
  sequences, tabs and line ends included: the console and the screen of characters return for the same
  texts, and every pixel of every character cell in the visible window is the pixel of the
  glyph, in the colours, that the screen has in that cell, however often the window was moved
  or copied for scrolling. This needs firmware that sets every offset of the window it is asked for, or
  that refuses all of them while the window is at the first row, where the console scrolls by copying;
  firmware that sets another offset or refuses only some is not covered.
\<close>

theorem console_shows_text:
  assumes "shows_text t s" and "steady fw (te_info t)"
  shows "rel_option shows_text (termfb_write_ansi fw cs t) (screen_write cs s)"
  using assms
proof (induction cs arbitrary: t s)
  case (Cons c cs)
  show ?case
    using putc_shows [OF Cons.prems, of c] putc_steady [OF _ Cons.prems(2), of c] Cons.IH
    by (auto elim: option.rel_cases)
qed simp

text \<open>
  C39: A tab moves the cursor to the next column that is a multiple of four if the line has one;
  otherwise \<open>termfb_putc\<close> never returns: the blanks wrap to the next line, where the cursor is again
  left of the stop it looks for.
\<close>

theorem tab_hangs_at_margin:
  assumes "vt_ok t" and "fb_virt (te_info t)"
  shows "(if next_stop (vt_x t) < vt_cols t
     then \<exists>t'. termfb_putc fw CHR 0x09 t = Some t' \<and> vt_x t' = next_stop (vt_x t) \<and> vt_y t' = vt_y t
     else termfb_putc fw CHR 0x09 t = None)"
proof (cases "next_stop (vt_x t) < vt_cols t")
  case True
  have "vt_x t \<le> next_stop (vt_x t)" by (simp add: next_stop_def)
  then show ?thesis
    using tab_fill_ends [where put = "put_char fw CHR 0x20", OF put_char_vt assms(1) True] True assms(2)
    by (simp add: termfb_putc_def)
next
  case False
  then show ?thesis
    using tab_fill_loops [where put = "put_char fw CHR 0x20", OF _ assms(1)] put_char_vt assms(2)
    by (simp add: termfb_putc_def)
qed


subsection \<open>The console after initialisation\<close>

definition blank_screen :: "nat \<Rightarrow> nat \<Rightarrow> u32 \<Rightarrow> u32 \<Rightarrow> screen" where
  "blank_screen cols rows fg bg = \<lparr>vt_cols = cols, vt_rows = rows, vt_x = 0, vt_y = 0, vt_fg = fg, vt_bg = bg,
     vt_default_fg = fg, vt_default_bg = bg, vt_ansi = TERMFB_ANSI_NORMAL, vt_params = [], vt_current = 0,
     vt_have_current = False, sc_cells = replicate rows (blank_row cols bg)\<rparr>"

lemma init_shows:
  assumes win: "window_ok fi" and size: "TERMFB_FONT_W \<le> fb_width fi" "TERMFB_FONT_H \<le> fb_height fi"
  shows "\<exists>t'. termfb_init fg bg fi t = (True, t') \<and>
    shows_text t' (blank_screen (fb_width fi div TERMFB_FONT_W) (fb_height fi div TERMFB_FONT_H) fg bg)"
proof -
  let ?cols = "fb_width fi div TERMFB_FONT_W" and ?rows = "fb_height fi div TERMFB_FONT_H"
  let ?s = "blank_screen ?cols ?rows fg bg"
  let ?t = "reset_current (t\<lparr>te_info := fi, vt_cols := ?cols, vt_rows := ?rows, vt_fg := fg, vt_bg := bg, vt_default_fg := fg, vt_default_bg := bg,
     vt_x := 0, vt_y := 0, vt_ansi := TERMFB_ANSI_NORMAL, vt_params := []\<rparr>)"
  have pos: "0 < ?cols" "0 < ?rows" using size by (simp_all add: div_greater_zero_iff)
  have st: "same_vt ?t ?s" by (simp add: same_vt_iff blank_screen_def reset_current_def)
  have "?rows * TERMFB_FONT_H = fb_height fi" using win by (auto simp: window_ok_def)
  then have "fits ?t" using win by (simp add: fits_def reset_current_def)
  from pic_clear [OF this _ st] have "pic (termfb_clear ?t) (sc_clear ?s)" using pos by (simp add: reset_current_def)
  moreover have "sc_clear ?s = ?s" by (simp add: sc_clear_def blank_screen_def)
  moreover have "termfb_clear ?t = termfb_clear_pixels ?t"
  proof -
    have id0: "v\<lparr>vt_x := 0, vt_y := 0\<rparr> = v" if "vt_x v = 0" "vt_y v = 0" for v :: termfb
      using that by (cases v) (metis termfb.surjective vt.update_convs(3,4) vt.select_convs(3,4))
    have "?t\<lparr>vt_x := 0, vt_y := 0\<rparr> = ?t" by (rule id0) (simp_all add: reset_current_def)
    then show ?thesis unfolding termfb_clear_def by (rule arg_cong [where f = termfb_clear_pixels])
  qed
  moreover have "vt_ok (termfb_clear_pixels ?t)"
    using clear_vt [of ?t] pos by (simp add: same_vt_iff vt_ok_def reset_current_def)
  moreover have "termfb_init fg bg fi t = (True, termfb_clear_pixels ?t)"
    using win pos by (simp add: termfb_init_def Let_def drawable_def window_ok_def)
  ultimately show ?thesis by (simp add: shows_text_def)
qed

text \<open>Three lines of five characters in a buffer of four lines.\<close>

definition small_fb :: fb_info where
  "small_fb = \<lparr>fb_width = 32, fb_height = 24, fb_virt_width = 32, fb_virt_height = 32, fb_y_offset = 0, fb_words = 32, fb_bpp = 32, fb_virt = True\<rparr>"

definition small_console :: termfb where
  "small_console = snd (termfb_init 0xe0e0e0 0 small_fb \<lparr>vt_cols = 0, vt_rows = 0, vt_x = 0, vt_y = 0, vt_fg = 0, vt_bg = 0,
     vt_default_fg = 0, vt_default_bg = 0, vt_ansi = TERMFB_ANSI_NORMAL, vt_params = [], vt_current = 0, vt_have_current = False,
     te_info = small_fb, te_px = (\<lambda>_ _. 7)\<rparr>)"

lemma small_shows: "shows_text small_console (blank_screen 5 3 0xe0e0e0 0)"
proof -
  have "window_ok small_fb" by (simp add: window_ok_def small_fb_def TERMFB_FONT_H_def)
  from init_shows [OF this, of "0xe0e0e0" 0] show ?thesis
    unfolding small_console_def by (simp add: small_fb_def TERMFB_FONT_H_def TERMFB_FONT_W_def) (metis snd_conv)
qed

lemma small_info: "te_info small_console = small_fb"
  by (simp add: small_console_def termfb_init_def termfb_clear_pixels_def reset_current_def small_fb_def
      drawable_def TERMFB_FONT_H_def TERMFB_FONT_W_def)

definition small_text :: string where
  "small_text = [CHR ''a'', CHR 0x0A, CHR 0x1B, CHR 0x5B, CHR ''3'', CHR ''1'', CHR ''m'', CHR 0x0A, CHR ''b'', CHR 0x0A, CHR 0x09, CHR 0x0A]"

lemma console_shows_text_witness:
  "rel_option shows_text (termfb_write_ansi Some small_text small_console) (screen_write small_text (blank_screen 5 3 0xe0e0e0 0)) \<and>
   rel_option shows_text (termfb_write_ansi (\<lambda>_. None) small_text small_console) (screen_write small_text (blank_screen 5 3 0xe0e0e0 0))"
  by (intro conjI console_shows_text [OF small_shows]) (simp_all add: steady_def honours_def small_info small_fb_def)

lemma tab_hangs_at_margin_witness:
  "termfb_putc Some CHR 0x09 (small_console\<lparr>vt_x := 4\<rparr>) = None \<and>
   (\<exists>t'. termfb_putc Some CHR 0x09 (small_console\<lparr>vt_x := 0\<rparr>) = Some t' \<and> vt_x t' = 4)"
proof -
  have "same_vt small_console (blank_screen 5 3 0xe0e0e0 0)" using small_shows by (simp add: shows_same)
  then have v: "vt_ok (small_console\<lparr>vt_x := n\<rparr>)" "vt_cols small_console = 5" if "n < 5" for n
    using that by (simp_all add: same_vt_iff blank_screen_def vt_ok_def)
  have i: "fb_virt (te_info small_console)"
    using small_shows by (simp add: shows_text_def pic_def fits_def window_ok_def)
  show ?thesis
    using tab_hangs_at_margin [OF v(1) [of 4], of Some] tab_hangs_at_margin [OF v(1) [of 0], of Some] i v(2) [of 0]
    by (auto simp: next_stop_def)
qed

end
