(* ===== verification/Spec2Isabelle.thy ===== *)
theory Spec2Isabelle
  imports Prelude Ring Pipe Udp6 Tcp6 Fd Pmm Paths UserMem Cpio Initramfs Vfs ConsoleIn Klog UsbKbd Elf
    Timer Proc Vm Mmu Sched Task TaskMem TaskRun Exec Netif SysPath PathTree ProcText SysFile FdCalls FsProps
    Ipv6 Csum NetSend NetInput NetInv NetOk NetProps TcpStream
    SysMisc SysNet Syscalls KernelOk KernelRun NetCalls MachineOk MachineRun MachineSafe KillSelf
    Termfb TermfbScreen
begin

text \<open>
  Verification library of mona-rpzero, a small operating system for the Raspberry Pi Zero 2: a
  monolithic AArch64 kernel (\<open>src/kernel-aarch64\<close>) that runs statically linked programs on one
  processor, with pipes, an initial file system in memory, a writable overlay, IPv6 networking over
  USB and a console.

  \<^bold>\<open>How the kernel works.\<close> User code enters the kernel through \<open>exception_handle\<close> (\<open>exceptions.c\<close>),
  which decodes the system call and calls a handler of \<open>sys_fs.c\<close>, \<open>sys_proc.c\<close>, \<open>sys_misc.c\<close>,
  \<open>sys_net.c\<close>, \<open>sys_dmesg.c\<close> or \<open>power.c\<close>. The handlers work on static tables: processes
  (\<open>proc.c\<close>), file descriptions shared by reference counts (\<open>fd.c\<close>), pipes (\<open>pipe.c\<close>), the overlay
  (\<open>vfs.c\<close>) over the archive (\<open>initramfs.c\<close>, \<open>cpio_newc.c\<close>), pages (\<open>pmm.c\<close>), translation
  tables (\<open>mmu.c\<close>), sockets and neighbours (\<open>net.c\<close>, \<open>net_ipv6.c\<close>), the console queue
  (\<open>console_in.c\<close>, \<open>usb_kbd.c\<close>) and the log (\<open>klog.c\<close>). A handler that must wait parks its process
  and calls the scheduler (\<open>sched.c\<close>), which polls the devices until some process can run, and
  completes the parked call when its process is chosen; \<open>time.c\<close> gives clock and alarms.

  \<^bold>\<open>How the model mirrors it.\<close> Each theory models the C file its opening text names, one definition per
  function, with the C name. A table is a list of records of its fixed length; a \<open>uint64_t\<close> is a
  \<open>64 word\<close> and wraps; an index or a count that the code keeps below a table size is a \<open>nat\<close>; an \<open>int\<close> result
  with negative errors is a sum type (\<open>Inl\<close> the error); a string is its characters without the
  NUL. Physical memory is one function from addresses to bytes, so what aliases in C aliases here. The
  state grows with the layers:

    \<^item> \<open>fd_state\<close> (\<open>Fd\<close>): descriptions, pipes (\<open>Pipe\<close>), UDP sockets (\<open>Udp6\<close>), TCP connections (\<open>Tcp6\<close>);
    \<^item> \<open>kernel\<close> (\<open>Proc\<close>): processes, \<open>fd_state\<close>, overlay (\<open>Vfs\<close>), pages (\<open>Pmm\<close>), translation tables
      (\<open>Mmu\<close>), memory and the running address space (\<open>UserMem\<close>), console (\<open>ConsoleIn\<close>), timer (\<open>Timer\<close>), archive;
    \<^item> \<open>world\<close> (\<open>NetSend\<close>): \<open>kernel\<close>, interfaces (\<open>Netif\<close>), neighbours, ping state, frames handed to drivers;
    \<^item> \<open>machine\<close> (\<open>Syscalls\<close>): \<open>world\<close>, the state of the random numbers (\<open>SysMisc\<close>), the log (\<open>Klog\<close>), console output.

  The theories by layer. Base: \<open>Prelude\<close>, \<open>Ring\<close> (circular buffers, locale \<open>fifo\<close>). Tables: \<open>Pipe\<close>,
  \<open>Udp6\<close>, \<open>Tcp6\<close>, \<open>Fd\<close>, \<open>Pmm\<close> (locale \<open>page_allocator\<close>), \<open>Vfs\<close> (locale \<open>name_table\<close>), \<open>ConsoleIn\<close>, \<open>Klog\<close>,
  \<open>UsbKbd\<close>, \<open>Timer\<close>. Files: \<open>Paths\<close>, \<open>UserMem\<close> (\<open>sys_util.c\<close>), \<open>Cpio\<close>, \<open>Initramfs\<close>, \<open>SysPath\<close>, \<open>SysFile\<close>,
  \<open>ProcText\<close> (\<open>sys_fs.c\<close>). Processes: \<open>Proc\<close>, \<open>Vm\<close>, \<open>Task\<close>, \<open>Exec\<close> (\<open>sys_proc.c\<close>), \<open>Elf\<close> (\<open>elf64.c\<close>), \<open>Mmu\<close>, \<open>Sched\<close>.
  Network: \<open>Ipv6\<close> (pure functions), \<open>NetSend\<close>, \<open>NetInput\<close> (\<open>net_ipv6.c\<close>, \<open>net.c\<close>), \<open>SysNet\<close>. Entry:
  \<open>SysMisc\<close>, \<open>Syscalls\<close>. Display: \<open>Termfb\<close> (\<open>termfb.c\<close>).

  \<^bold>\<open>What is proved.\<close>

    \<^item> The whole kernel: \<open>machine_ok\<close> is the conjunction of all invariants, and every exception keeps it
      whatever the call, its arguments, user memory, received frames and interleaving
      (\<open>MachineRun\<close>, \<open>MachineSafe\<close>); it holds after the boot. It is built from \<open>kernel_ok\<close> (\<open>KernelOk\<close>, \<open>KernelRun\<close>),
      the network part (\<open>NetOk\<close>, \<open>NetCalls\<close>, \<open>MachineOk\<close>) and the parts below. The one way to a state outside it is
      \<open>kill\<close> of oneself when nothing else can run (\<open>KillSelf\<close>): all tables stay well formed, but the process that goes on
      is dead. A run (\<open>machine_run\<close>) carries the exceptions taken, asks nothing of the state that one leaves, and
      ends in such a state.
    \<^item> Memory: blocks and pages in use never overlap (\<open>Pmm\<close>); address spaces map a process to its own block
      (\<open>Mmu\<close>); live processes share nothing over any run (\<open>TaskMem\<close>, \<open>TaskRun\<close>); \<open>execve\<close> and the loader
      write inside the block of the caller (\<open>Exec\<close>, \<open>Elf\<close>); mapped ranges stay apart (\<open>Vm\<close>).
    \<^item> Files: reference counts are exact (\<open>Fd\<close>, \<open>FdCalls\<close>), link counts are exact and names are finite maps (\<open>Vfs\<close>),
      the name space is a tree (\<open>PathTree\<close>), a pipe is a byte stream, a written file reads back (\<open>FsProps\<close>),
      an archive reads back what was packed under ASCII names (\<open>Cpio\<close>, \<open>Initramfs\<close>).
    \<^item> Scheduling: only runnable processes run, round robin is fair, sleepers wake on time (\<open>Sched\<close>).
    \<^item> Network: the checksum is the ones' complement sum of RFC 1071 (\<open>Csum\<close>); only valid frames are sent; datagrams arrive
      (\<open>NetProps\<close>); a TCP reader gets a prefix of the stream (\<open>TcpStream\<close>).
    \<^item> Display: the pixels show the screen of characters (\<open>TermfbScreen\<close>), when the firmware grants every move of the window
      or none.

  \<^bold>\<open>The outside.\<close> What the kernel reads from devices is an argument: the counter value at each read of
  the clock, the characters and frames that arrive at each poll and interrupt, the results of USB transfers, the
  answer of the firmware. A wait is a list of such observations, one per turn of its loop, and
  the call has no result (\<open>None\<close>, \<open>Waits\<close>, \<open>Hangs\<close>) when the list is used up before the
  loop ends; theorems about runs hold for every list. \<open>poll_ok\<close>, \<open>usb_ok\<close> and \<open>device\<close> say what a device may
  do to the kernel; receiving arbitrary frames is proved to be such a device, so these hypotheses are about
  drivers only. Loops that can fail to end in the code are \<open>partial_function (option)\<close> (\<open>mmap\<close>, \<open>munmap\<close>, tabs);
  all others are proved to end. Table sizes are the constants of the code.

  \<^bold>\<open>Not modelled.\<close> The USB host controller and its network and keyboard transfers (\<open>usb_host.c\<close>, \<open>usb_net.c\<close>), serial port,
  interrupt controller and mailbox (\<open>uart_pl011.c\<close>, \<open>irq.c\<close> but for the handler, \<open>mailbox.c\<close>, \<open>fb.c\<close> but for moving the window), the
  start-up sequence \<open>main.c\<close>, the device tree report, cache maintenance and barriers: device registers
  and instructions whose meaning is the hardware's. Assembly entry code: the saved frame is the state \<open>regs\<close>. Log
  output of the handlers. \<open>proc_init_if_needed\<close> runs at the first system call; the model starts after it.
\<close>

end
